(* ===== verification/Prelude.thy ===== *)
theory Prelude
  imports Main "HOL-Library.Multiset" "HOL-Library.Sublist"
begin

section \<open>Shared vocabulary of the development\<close>

text \<open>
  The Python sources are modelled by total HOL functions. This theory holds what all the
  component theories share: the exceptions the modelled code raises and the result type that
  carries them, the monadic glue (\<open>rbind\<close>, \<open>check\<close>, \<open>mapr\<close>) that reads like the code's
  sequence of checks, Python's list operations \<open>range\<close>, \<open>enumerate\<close> and \<open>dict.get\<close>, and the
  generic lemmas on lists, chains of ranges and row-major arithmetic that the components use.
  Python integers are unbounded and are modelled by \<^typ>\<open>int\<close>; \<open>//\<close> and \<open>%\<close> round towards minus
  infinity, as \<open>div\<close> and \<open>mod\<close> on \<^typ>\<open>int\<close> do.
\<close>

named_theorems res_simps \<open>equations of the result monad\<close>
named_theorems py_simps \<open>characteristic equations of modelled Python operations\<close>

subsection \<open>Exceptions and results\<close>

text \<open>
  One constructor per Python exception class the modelled code raises or lets escape. The
  string is a short key of the message the source formats; the values interpolated into the
  message are not part of the model. \<open>ExternalError\<close> is an exception of a library the code calls
  (torch, the RDMA peer agent, an HTTP client), which the code only propagates or records.
\<close>

datatype py_error =
    ValueError string
  | RuntimeErr string
  | AssertionError
  | KeyError
  | IndexError
  | NameError
  | TypeError
  | ZeroDivisionError
  | NotImplementedErr
  | AttributeError
  | ExternalError string

type_synonym 'a res = "py_error + 'a"

definition rbind :: "'a res \<Rightarrow> ('a \<Rightarrow> 'b res) \<Rightarrow> 'b res" where
  "rbind r f = (case r of Inl e \<Rightarrow> Inl e | Inr x \<Rightarrow> f x)"

definition check :: "bool \<Rightarrow> py_error \<Rightarrow> unit res" where
  "check ok e = (if ok then Inr () else Inl e)"

lemma rbind_simps [simp]:
  "rbind (Inl e) f = Inl e"
  "rbind (Inr x) f = f x"
  by (simp_all add: rbind_def)

lemma rbind_Inr_iff [res_simps]: "rbind r f = Inr y \<longleftrightarrow> (\<exists>x. r = Inr x \<and> f x = Inr y)"
  by (cases r) simp_all

lemma rbind_Inl_iff [res_simps]:
  "rbind r f = Inl e \<longleftrightarrow> r = Inl e \<or> (\<exists>x. r = Inr x \<and> f x = Inl e)"
  by (cases r) simp_all

lemma check_Inr_iff [simp]: "check ok e = Inr u \<longleftrightarrow> ok"
  by (simp add: check_def)

lemma check_Inl_iff [simp]: "check ok e = Inl e' \<longleftrightarrow> \<not> ok \<and> e' = e"
  by (auto simp: check_def)

lemma check_True [simp]: "check True e = Inr ()"
  by (simp add: check_def)

lemma check_False [simp]: "check False e = Inl e"
  by (simp add: check_def)

text \<open>\<open>mapr\<close> is a comprehension whose body may raise: it stops at the first error.\<close>

fun mapr :: "('a \<Rightarrow> 'b res) \<Rightarrow> 'a list \<Rightarrow> 'b list res" where
  "mapr f [] = Inr []"
| "mapr f (x # xs) = rbind (f x) (\<lambda>y. rbind (mapr f xs) (\<lambda>ys. Inr (y # ys)))"

lemma mapr_Inr_length: "mapr f xs = Inr ys \<Longrightarrow> length ys = length xs"
  by (induction xs arbitrary: ys) (auto simp: res_simps)

lemma mapr_Inr_nth: "mapr f xs = Inr ys \<Longrightarrow> i < length xs \<Longrightarrow> f (xs ! i) = Inr (ys ! i)"
  by (induction xs arbitrary: ys i) (auto simp: res_simps nth_Cons split: nat.split)

lemma mapr_total: "(\<And>x. x \<in> set xs \<Longrightarrow> f x = Inr (g x)) \<Longrightarrow> mapr f xs = Inr (map g xs)"
  by (induction xs) auto

lemma mapr_map_arg: "mapr f (map g xs) = mapr (\<lambda>x. f (g x)) xs"
  by (induction xs) auto

lemma mapr_concat:
  assumes "mapr f ks = Inr rss" and "\<And>k rs. k \<in> set ks \<Longrightarrow> f k = Inr rs \<Longrightarrow> map g rs = h k"
  shows "map g (concat rss) = concat (map h ks)"
  using assms by (induction ks arbitrary: rss) (auto simp: res_simps)

lemma mapr_set: "mapr f xs = Inr ys \<Longrightarrow> y \<in> set ys \<Longrightarrow> \<exists>x\<in>set xs. f x = Inr y"
  by (induction xs arbitrary: ys) (auto simp: res_simps)

lemma mapr_set_of: "mapr f xs = Inr ys \<Longrightarrow> x \<in> set xs \<Longrightarrow> \<exists>y\<in>set ys. f x = Inr y"
  by (induction xs arbitrary: ys) (auto simp: res_simps)

text \<open>\<open>fold_res\<close> is a \<open>for\<close> loop over a state whose body may raise.\<close>

fun fold_res :: "('a \<Rightarrow> 's \<Rightarrow> 's res) \<Rightarrow> 'a list \<Rightarrow> 's \<Rightarrow> 's res" where
  "fold_res f [] s = Inr s"
| "fold_res f (x # xs) s = rbind (f x s) (fold_res f xs)"

lemma fold_res_append: "fold_res f (xs @ ys) s = rbind (fold_res f xs s) (fold_res f ys)"
  by (induction xs arbitrary: s) (auto simp: rbind_def split: sum.splits)

lemma fold_res_invariant:
  assumes "fold_res f xs s = Inr t" and "P s"
    and "\<And>x s t. x \<in> set xs \<Longrightarrow> P s \<Longrightarrow> f x s = Inr t \<Longrightarrow> P t"
  shows "P t"
  using assms by (induction xs arbitrary: s) (auto simp: res_simps)

lemma fold_res_check: "fold_res (\<lambda>x (u::unit). f x) xs () = Inr () \<longleftrightarrow> (\<forall>x\<in>set xs. f x = Inr ())"
  by (induction xs) (auto simp: res_simps)

subsection \<open>Python lists, ranges and dictionaries\<close>

definition py_range :: "int \<Rightarrow> int \<Rightarrow> int list" where
  "py_range a b = [a..b - 1]"

definition py_len :: "'a list \<Rightarrow> int" where
  "py_len xs = int (length xs)"

text \<open>\<open>enumerate(xs)\<close>, with the index as the Python integer.\<close>

definition py_enumerate :: "'a list \<Rightarrow> (int \<times> 'a) list" where
  "py_enumerate xs = zip (map int [0..<length xs]) xs"

text \<open>\<open>xs[i]\<close> with Python's negative indices and its \<open>IndexError\<close>.\<close>

definition py_nth :: "'a list \<Rightarrow> int \<Rightarrow> 'a res" where
  "py_nth xs i =
     (let j = (if i < 0 then py_len xs + i else i)
      in if 0 \<le> j \<and> j < py_len xs then Inr (xs ! nat j) else Inl IndexError)"

text \<open>\<open>d[k]\<close> raises \<open>KeyError\<close>; \<open>d.get(k, v)\<close> does not.\<close>

definition dict_item :: "('k \<rightharpoonup> 'v) \<Rightarrow> 'k \<Rightarrow> 'v res" where
  "dict_item d k = (case d k of None \<Rightarrow> Inl KeyError | Some v \<Rightarrow> Inr v)"

definition dict_get :: "('k \<rightharpoonup> 'v) \<Rightarrow> 'k \<Rightarrow> 'v \<Rightarrow> 'v" where
  "dict_get d k v = (case d k of None \<Rightarrow> v | Some w \<Rightarrow> w)"

text \<open>\<open>x or y\<close> on an optional integer: \<open>None\<close> and \<open>0\<close> are both false.\<close>

definition int_or :: "int option \<Rightarrow> int \<Rightarrow> int" where
  "int_or x y = (case x of None \<Rightarrow> y | Some v \<Rightarrow> if v = 0 then y else v)"

lemma set_py_range [simp]: "set (py_range a b) = {a..<b}"
  by (auto simp: py_range_def)

lemma py_range_Nil [simp]: "b \<le> a \<Longrightarrow> py_range a b = []"
  by (simp add: py_range_def)

lemma py_range_Cons: "a < b \<Longrightarrow> py_range a b = a # py_range (a + 1) b"
  unfolding py_range_def by (subst upto.simps) simp

lemma length_py_range [simp]: "length (py_range a b) = nat (b - a)"
  by (simp add: py_range_def)

lemma py_len_py_range: "a \<le> b \<Longrightarrow> py_len (py_range a b) = b - a"
  by (simp add: py_len_def)

lemma sorted_py_range [simp]: "sorted (py_range a b)"
  by (simp add: py_range_def)

lemma distinct_py_range [simp]: "distinct (py_range a b)"
  by (simp add: py_range_def)

lemma nth_py_range [simp]: "i < nat (b - a) \<Longrightarrow> py_range a b ! i = a + int i"
  by (simp add: py_range_def)

lemma py_range_append: "a \<le> b \<Longrightarrow> b \<le> c \<Longrightarrow> py_range a b @ py_range b c = py_range a c"
proof (induction "nat (b - a)" arbitrary: a)
  case (Suc n)
  then have "py_range (a + 1) b @ py_range b c = py_range (a + 1) c" by simp
  with Suc show ?case by (simp add: py_range_Cons)
qed simp

lemma py_len_simps [simp]:
  "py_len [] = 0" "py_len (x # xs) = py_len xs + 1" "py_len (xs @ ys) = py_len xs + py_len ys"
  "0 \<le> py_len xs" "py_len (map f xs) = py_len xs"
  by (simp_all add: py_len_def)

lemma length_py_enumerate [simp]: "length (py_enumerate xs) = length xs"
  by (simp add: py_enumerate_def)

lemma nth_py_enumerate [simp]: "i < length xs \<Longrightarrow> py_enumerate xs ! i = (int i, xs ! i)"
  by (simp add: py_enumerate_def)

lemma set_py_enumerate: "set (py_enumerate xs) = {(int i, xs ! i) | i. i < length xs}"
  by (force simp: set_conv_nth)

lemma map_snd_py_enumerate [simp]: "map snd (py_enumerate xs) = xs"
  by (simp add: py_enumerate_def)

lemma map_fst_py_enumerate [simp]: "map fst (py_enumerate xs) = map int [0..<length xs]"
  by (simp add: py_enumerate_def)

lemma py_nth_nat [simp]: "i < length xs \<Longrightarrow> py_nth xs (int i) = Inr (xs ! i)"
  by (simp add: py_nth_def py_len_def)

lemma dict_item_Inr_iff [simp]: "dict_item d k = Inr v \<longleftrightarrow> d k = Some v"
  by (auto simp: dict_item_def split: option.splits)

lemma sorted_le_last: "sorted xs \<Longrightarrow> x \<in> set xs \<Longrightarrow> x \<le> last xs"
  by (induction xs) auto

subsection \<open>Row-major arithmetic\<close>

lemma zdiv_mult_le: "0 < m \<Longrightarrow> k \<le> n div m \<Longrightarrow> k * m \<le> (n::int)"
proof -
  assume m: "0 < m" and k: "k \<le> n div m"
  have "k * m \<le> n div m * m" using m k by (intro mult_right_mono) auto
  also have "\<dots> \<le> n"
    using pos_mod_sign [OF m, of n] div_mult_mod_eq [of n m] by linarith
  finally show ?thesis .
qed

lemma zdiv_less: "0 < m \<Longrightarrow> n < k * (m::int) \<Longrightarrow> n div m < k"
  using zdiv_mult_le [of m k n] by linarith

lemma zdiv_less_iff: "0 < m \<Longrightarrow> n div m < k \<longleftrightarrow> n < k * (m::int)"
  using zdiv_less [of m n k] zdiv_mono1 [of "k * m" n m] by fastforce

lemma row_major_less:
  assumes "0 \<le> j" and "j < (w::int)" and "i < n"
  shows "i * w + j < n * w"
proof -
  have "(i + 1) * w \<le> n * w" using assms by (intro mult_right_mono) auto
  then show ?thesis using assms(2) by (simp add: algebra_simps)
qed

lemma row_major_unique:
  assumes "0 \<le> j" "j < (w::int)" "0 \<le> j'" "j' < w"
  shows "i * w + j = i' * w + j' \<longleftrightarrow> i = i' \<and> j = j'"
proof
  assume eq: "i * w + j = i' * w + j'"
  have "(i * w + j) div w = i" "(i' * w + j') div w = i'"
    using assms by (simp_all add: div_pos_pos_trivial)
  then have "i = i'" using eq by simp
  with eq show "i = i' \<and> j = j'" by simp
qed simp

lemma row_major_div [simp]:
  "0 \<le> j \<Longrightarrow> j < (w::int) \<Longrightarrow> (i * w + j) div w = i"
  by (simp add: div_pos_pos_trivial)

lemma row_major_mod [simp]:
  "0 \<le> j \<Longrightarrow> j < (w::int) \<Longrightarrow> (i * w + j) mod w = j"
  by simp

subsection \<open>Printing of integers\<close>

text \<open>\<open>str(i)\<close>: the decimal digits, after a sign when \<open>i\<close> is negative.\<close>

fun nat_digits :: "nat \<Rightarrow> string" where
  "nat_digits n = (if n < 10 then [char_of (48 + n)] else nat_digits (n div 10) @ [char_of (48 + n mod 10)])"

declare nat_digits.simps [simp del]

definition py_str_int :: "int \<Rightarrow> string" where
  "py_str_int i = (if i < 0 then ''-'' @ nat_digits (nat (- i)) else nat_digits (nat i))"

subsection \<open>Updates by index\<close>

text \<open>\<open>xs[indices] = values\<close>, an update per index from left to right.\<close>

lemma fold_update_length: "length (fold (\<lambda>(i, v) xs. xs[i := v]) ps xs) = length xs"
  by (induction ps arbitrary: xs) auto

lemma fold_update_other: "j \<notin> fst ` set ps \<Longrightarrow> fold (\<lambda>(i, v) xs. xs[i := v]) ps xs ! j = xs ! j"
  by (induction ps arbitrary: xs) auto

lemma fold_update_nth:
  assumes "distinct (map fst ps)" "(i, v) \<in> set ps" "i < length xs"
  shows "fold (\<lambda>(i, v) xs. xs[i := v]) ps xs ! i = v"
  using assms
proof (induction ps arbitrary: xs)
  case (Cons p ps)
  show ?case
  proof (cases "p = (i, v)")
    case True
    then have "i \<notin> fst ` set ps" using Cons.prems(1) by auto
    then show ?thesis using True Cons.prems(3) fold_update_other [of i ps "xs[i := v]"] by simp
  next
    case False
    then show ?thesis using Cons by (cases p) auto
  qed
qed simp

end
