(* ===== verification/Dist_Context.thy ===== *)
theory Dist_Context
  imports Prelude
begin

section \<open>The distributed context (\<open>runtime/context/distributed.py\<close>)\<close>

text \<open>
  \<open>DistContext\<close> holds the rank of a worker and the shape of the (pp, dp, sp/ep, tp) meshes.
  The torch functions that build meshes and answer rank queries are not part of the repository:
  they are the fields of \<open>mesh_api\<close>, an argument of every definition that calls them, and the
  behaviour torch documents for them is the predicate \<open>mesh_doc\<close>. The module global
  \<open>_DIST_CONTEXT\<close> is an explicit state. The theorems: an accepted context factors its world size
  in both meshes, its pipeline coordinates stay in range, and the mesh coordinates it reads back
  from torch identify the rank.
\<close>

record ('m, 'g) mesh_api =
  init_device_mesh :: "string \<Rightarrow> int list \<Rightarrow> string list \<Rightarrow> 'm res"
  get_group :: "'m \<Rightarrow> string \<Rightarrow> 'g res"
  get_rank :: "'g \<Rightarrow> int"
  get_world_size :: "'g \<Rightarrow> int"

record 'm dist_context =
  dc_rank :: int
  dc_world_size :: int
  attention_dp :: int
  attention_tp :: int
  attention_sp :: int
  ffn_dp :: int
  ffn_ep :: int
  ffn_tp :: int
  dc_pp :: int
  initialize_meshes :: bool
  cpu_world_mesh :: "'m option"
  cuda_world_mesh :: "'m option"
  attn_cpu_device_mesh :: "'m option"
  ffn_cpu_device_mesh :: "'m option"
  attn_device_mesh :: "'m option"
  ffn_device_mesh :: "'m option"

definition clear_context :: "'m dist_context \<Rightarrow> 'm dist_context" where
  "clear_context c = c\<lparr>cpu_world_mesh := None, cuda_world_mesh := None,
     attn_cpu_device_mesh := None, ffn_cpu_device_mesh := None,
     attn_device_mesh := None, ffn_device_mesh := None\<rparr>"

text \<open>
  \<open>reset_context\<close> builds the six meshes in order. A failing torch call leaves the meshes built
  so far on the object, so the function returns the object beside the outcome.
\<close>

type_synonym 'm mesh_plan =
  "(string \<times> int list \<times> string list \<times> ('m \<Rightarrow> 'm dist_context \<Rightarrow> 'm dist_context)) list"

fun build_meshes ::
  "('m, 'g) mesh_api \<Rightarrow> 'm mesh_plan \<Rightarrow> 'm dist_context \<Rightarrow> 'm dist_context \<times> unit res" where
  "build_meshes api [] c = (c, Inr ())"
| "build_meshes api ((dev, shape, names, upd) # ps) c =
     (case init_device_mesh api dev shape names of
        Inl e \<Rightarrow> (c, Inl e)
      | Inr m \<Rightarrow> build_meshes api ps (upd m c))"

definition mesh_plan :: "'m dist_context \<Rightarrow> 'm mesh_plan" where
  "mesh_plan c =
     (let pp = max 1 (dc_pp c);
          attn = [pp, attention_dp c, attention_sp c, attention_tp c];
          ffn = [pp, ffn_dp c, ffn_ep c, ffn_tp c];
          attn_names = [''pp'', ''attn_dp'', ''attn_sp'', ''attn_tp''];
          ffn_names = [''pp'', ''ffn_dp'', ''ffn_ep'', ''ffn_tp'']
      in [(''cpu'', [dc_world_size c], [''world''], \<lambda>m. cpu_world_mesh_update (\<lambda>_. Some m)),
          (''cuda'', [dc_world_size c], [''world''], \<lambda>m. cuda_world_mesh_update (\<lambda>_. Some m)),
          (''cpu'', attn, attn_names, \<lambda>m. attn_cpu_device_mesh_update (\<lambda>_. Some m)),
          (''cpu'', ffn, ffn_names, \<lambda>m. ffn_cpu_device_mesh_update (\<lambda>_. Some m)),
          (''cuda'', attn, attn_names, \<lambda>m. attn_device_mesh_update (\<lambda>_. Some m)),
          (''cuda'', ffn, ffn_names, \<lambda>m. ffn_device_mesh_update (\<lambda>_. Some m))])"

definition reset_context :: "('m, 'g) mesh_api \<Rightarrow> 'm dist_context \<Rightarrow> 'm dist_context \<times> unit res" where
  "reset_context api c = build_meshes api (mesh_plan c) (clear_context c)"

definition validate_parallelism :: "'m dist_context \<Rightarrow> unit res" where
  "validate_parallelism c =
     (let pp = max 1 (dc_pp c);
          attn_world_size = pp * attention_dp c * attention_sp c * attention_tp c;
          ffn_world_size = pp * ffn_dp c * ffn_ep c * ffn_tp c
      in rbind (check (attn_world_size = dc_world_size c) (ValueError ''attention parallelism''))
         (\<lambda>_. check (ffn_world_size = dc_world_size c) (ValueError ''ffn parallelism'')))"

definition post_init_dist_context ::
  "('m, 'g) mesh_api \<Rightarrow> 'm dist_context \<Rightarrow> 'm dist_context res" where
  "post_init_dist_context api c =
     rbind (validate_parallelism c) (\<lambda>_.
       if initialize_meshes c
       then (case reset_context api c of (c', r) \<Rightarrow> rbind r (\<lambda>_. Inr c'))
       else Inr c)"

subsection \<open>Group, rank and size queries\<close>

text \<open>\<open>mesh.get_group(name)\<close> on a mesh that was never built is an attribute access on \<open>None\<close>.\<close>

definition mesh_group :: "('m, 'g) mesh_api \<Rightarrow> 'm option \<Rightarrow> string \<Rightarrow> 'g res" where
  "mesh_group api mesh name =
     (case mesh of None \<Rightarrow> Inl AttributeError | Some m \<Rightarrow> get_group api m name)"

definition group_rank :: "('m, 'g) mesh_api \<Rightarrow> 'g res \<Rightarrow> int res" where
  "group_rank api g = rbind g (\<lambda>g. Inr (get_rank api g))"

definition group_world_size :: "('m, 'g) mesh_api \<Rightarrow> 'g res \<Rightarrow> int res" where
  "group_world_size api g = rbind g (\<lambda>g. Inr (get_world_size api g))"

definition attn_dp_group :: "('m, 'g) mesh_api \<Rightarrow> 'm dist_context \<Rightarrow> 'g res" where
  "attn_dp_group api c = mesh_group api (attn_device_mesh c) ''attn_dp''"

definition attn_dp_rank :: "('m, 'g) mesh_api \<Rightarrow> 'm dist_context \<Rightarrow> int res" where
  "attn_dp_rank api c = group_rank api (attn_dp_group api c)"

definition attn_dp_world_size :: "('m, 'g) mesh_api \<Rightarrow> 'm dist_context \<Rightarrow> int res" where
  "attn_dp_world_size api c = group_world_size api (attn_dp_group api c)"

definition attn_sp_group :: "('m, 'g) mesh_api \<Rightarrow> 'm dist_context \<Rightarrow> 'g res" where
  "attn_sp_group api c = mesh_group api (attn_device_mesh c) ''attn_sp''"

definition attn_sp_rank :: "('m, 'g) mesh_api \<Rightarrow> 'm dist_context \<Rightarrow> int res" where
  "attn_sp_rank api c = group_rank api (attn_sp_group api c)"

definition attn_sp_world_size :: "('m, 'g) mesh_api \<Rightarrow> 'm dist_context \<Rightarrow> int res" where
  "attn_sp_world_size api c = group_world_size api (attn_sp_group api c)"

definition attn_tp_group :: "('m, 'g) mesh_api \<Rightarrow> 'm dist_context \<Rightarrow> 'g res" where
  "attn_tp_group api c = mesh_group api (attn_device_mesh c) ''attn_tp''"

definition attn_tp_rank :: "('m, 'g) mesh_api \<Rightarrow> 'm dist_context \<Rightarrow> int res" where
  "attn_tp_rank api c = group_rank api (attn_tp_group api c)"

definition attn_tp_world_size :: "('m, 'g) mesh_api \<Rightarrow> 'm dist_context \<Rightarrow> int res" where
  "attn_tp_world_size api c = group_world_size api (attn_tp_group api c)"

definition attn_cpu_dp_group :: "('m, 'g) mesh_api \<Rightarrow> 'm dist_context \<Rightarrow> 'g res" where
  "attn_cpu_dp_group api c = mesh_group api (attn_cpu_device_mesh c) ''attn_dp''"

definition attn_cpu_dp_rank :: "('m, 'g) mesh_api \<Rightarrow> 'm dist_context \<Rightarrow> int res" where
  "attn_cpu_dp_rank api c = group_rank api (attn_cpu_dp_group api c)"

definition attn_cpu_dp_world_size :: "('m, 'g) mesh_api \<Rightarrow> 'm dist_context \<Rightarrow> int res" where
  "attn_cpu_dp_world_size api c = group_world_size api (attn_cpu_dp_group api c)"

definition attn_cpu_sp_group :: "('m, 'g) mesh_api \<Rightarrow> 'm dist_context \<Rightarrow> 'g res" where
  "attn_cpu_sp_group api c = mesh_group api (attn_cpu_device_mesh c) ''attn_sp''"

definition attn_cpu_sp_rank :: "('m, 'g) mesh_api \<Rightarrow> 'm dist_context \<Rightarrow> int res" where
  "attn_cpu_sp_rank api c = group_rank api (attn_cpu_sp_group api c)"

definition attn_cpu_sp_world_size :: "('m, 'g) mesh_api \<Rightarrow> 'm dist_context \<Rightarrow> int res" where
  "attn_cpu_sp_world_size api c = group_world_size api (attn_cpu_sp_group api c)"

definition attn_cpu_tp_group :: "('m, 'g) mesh_api \<Rightarrow> 'm dist_context \<Rightarrow> 'g res" where
  "attn_cpu_tp_group api c = mesh_group api (attn_cpu_device_mesh c) ''attn_tp''"

definition attn_cpu_tp_rank :: "('m, 'g) mesh_api \<Rightarrow> 'm dist_context \<Rightarrow> int res" where
  "attn_cpu_tp_rank api c = group_rank api (attn_cpu_tp_group api c)"

definition attn_cpu_tp_world_size :: "('m, 'g) mesh_api \<Rightarrow> 'm dist_context \<Rightarrow> int res" where
  "attn_cpu_tp_world_size api c = group_world_size api (attn_cpu_tp_group api c)"

definition ffn_dp_group :: "('m, 'g) mesh_api \<Rightarrow> 'm dist_context \<Rightarrow> 'g res" where
  "ffn_dp_group api c = mesh_group api (ffn_device_mesh c) ''ffn_dp''"

definition ffn_dp_rank :: "('m, 'g) mesh_api \<Rightarrow> 'm dist_context \<Rightarrow> int res" where
  "ffn_dp_rank api c = group_rank api (ffn_dp_group api c)"

definition ffn_dp_world_size :: "('m, 'g) mesh_api \<Rightarrow> 'm dist_context \<Rightarrow> int res" where
  "ffn_dp_world_size api c = group_world_size api (ffn_dp_group api c)"

definition ffn_ep_group :: "('m, 'g) mesh_api \<Rightarrow> 'm dist_context \<Rightarrow> 'g res" where
  "ffn_ep_group api c = mesh_group api (ffn_device_mesh c) ''ffn_ep''"

definition ffn_ep_rank :: "('m, 'g) mesh_api \<Rightarrow> 'm dist_context \<Rightarrow> int res" where
  "ffn_ep_rank api c = group_rank api (ffn_ep_group api c)"

definition ffn_ep_world_size :: "('m, 'g) mesh_api \<Rightarrow> 'm dist_context \<Rightarrow> int res" where
  "ffn_ep_world_size api c = group_world_size api (ffn_ep_group api c)"

definition ffn_tp_group :: "('m, 'g) mesh_api \<Rightarrow> 'm dist_context \<Rightarrow> 'g res" where
  "ffn_tp_group api c = mesh_group api (ffn_device_mesh c) ''ffn_tp''"

definition ffn_tp_rank :: "('m, 'g) mesh_api \<Rightarrow> 'm dist_context \<Rightarrow> int res" where
  "ffn_tp_rank api c = group_rank api (ffn_tp_group api c)"

definition ffn_tp_world_size :: "('m, 'g) mesh_api \<Rightarrow> 'm dist_context \<Rightarrow> int res" where
  "ffn_tp_world_size api c = group_world_size api (ffn_tp_group api c)"

definition ffn_cpu_dp_group :: "('m, 'g) mesh_api \<Rightarrow> 'm dist_context \<Rightarrow> 'g res" where
  "ffn_cpu_dp_group api c = mesh_group api (ffn_cpu_device_mesh c) ''ffn_dp''"

definition ffn_cpu_dp_rank :: "('m, 'g) mesh_api \<Rightarrow> 'm dist_context \<Rightarrow> int res" where
  "ffn_cpu_dp_rank api c = group_rank api (ffn_cpu_dp_group api c)"

definition ffn_cpu_dp_world_size :: "('m, 'g) mesh_api \<Rightarrow> 'm dist_context \<Rightarrow> int res" where
  "ffn_cpu_dp_world_size api c = group_world_size api (ffn_cpu_dp_group api c)"

definition ffn_cpu_ep_group :: "('m, 'g) mesh_api \<Rightarrow> 'm dist_context \<Rightarrow> 'g res" where
  "ffn_cpu_ep_group api c = mesh_group api (ffn_cpu_device_mesh c) ''ffn_ep''"

definition ffn_cpu_ep_rank :: "('m, 'g) mesh_api \<Rightarrow> 'm dist_context \<Rightarrow> int res" where
  "ffn_cpu_ep_rank api c = group_rank api (ffn_cpu_ep_group api c)"

definition ffn_cpu_ep_world_size :: "('m, 'g) mesh_api \<Rightarrow> 'm dist_context \<Rightarrow> int res" where
  "ffn_cpu_ep_world_size api c = group_world_size api (ffn_cpu_ep_group api c)"

definition ffn_cpu_tp_group :: "('m, 'g) mesh_api \<Rightarrow> 'm dist_context \<Rightarrow> 'g res" where
  "ffn_cpu_tp_group api c = mesh_group api (ffn_cpu_device_mesh c) ''ffn_tp''"

definition ffn_cpu_tp_rank :: "('m, 'g) mesh_api \<Rightarrow> 'm dist_context \<Rightarrow> int res" where
  "ffn_cpu_tp_rank api c = group_rank api (ffn_cpu_tp_group api c)"

definition ffn_cpu_tp_world_size :: "('m, 'g) mesh_api \<Rightarrow> 'm dist_context \<Rightarrow> int res" where
  "ffn_cpu_tp_world_size api c = group_world_size api (ffn_cpu_tp_group api c)"

definition cpu_world_group :: "('m, 'g) mesh_api \<Rightarrow> 'm dist_context \<Rightarrow> 'g res" where
  "cpu_world_group api c = mesh_group api (cpu_world_mesh c) ''world''"

definition cpu_world_rank :: "('m, 'g) mesh_api \<Rightarrow> 'm dist_context \<Rightarrow> int res" where
  "cpu_world_rank api c = group_rank api (cpu_world_group api c)"

definition cpu_world_size :: "('m, 'g) mesh_api \<Rightarrow> 'm dist_context \<Rightarrow> int res" where
  "cpu_world_size api c = group_world_size api (cpu_world_group api c)"

definition cuda_world_group :: "('m, 'g) mesh_api \<Rightarrow> 'm dist_context \<Rightarrow> 'g res" where
  "cuda_world_group api c = mesh_group api (cuda_world_mesh c) ''world''"

definition cuda_world_rank :: "('m, 'g) mesh_api \<Rightarrow> 'm dist_context \<Rightarrow> int res" where
  "cuda_world_rank api c = group_rank api (cuda_world_group api c)"

definition cuda_world_size :: "('m, 'g) mesh_api \<Rightarrow> 'm dist_context \<Rightarrow> int res" where
  "cuda_world_size api c = group_world_size api (cuda_world_group api c)"

definition pp_group :: "('m, 'g) mesh_api \<Rightarrow> 'm dist_context \<Rightarrow> 'g res" where
  "pp_group api c = mesh_group api (attn_device_mesh c) ''pp''"

lemmas mesh_query_defs =
  mesh_group_def group_rank_def group_world_size_def
  attn_dp_group_def attn_dp_rank_def attn_dp_world_size_def attn_sp_group_def
  attn_sp_rank_def attn_sp_world_size_def attn_tp_group_def attn_tp_rank_def
  attn_tp_world_size_def attn_cpu_dp_group_def attn_cpu_dp_rank_def attn_cpu_dp_world_size_def
  attn_cpu_sp_group_def attn_cpu_sp_rank_def attn_cpu_sp_world_size_def attn_cpu_tp_group_def
  attn_cpu_tp_rank_def attn_cpu_tp_world_size_def ffn_dp_group_def ffn_dp_rank_def
  ffn_dp_world_size_def ffn_ep_group_def ffn_ep_rank_def ffn_ep_world_size_def
  ffn_tp_group_def ffn_tp_rank_def ffn_tp_world_size_def ffn_cpu_dp_group_def
  ffn_cpu_dp_rank_def ffn_cpu_dp_world_size_def ffn_cpu_ep_group_def ffn_cpu_ep_rank_def
  ffn_cpu_ep_world_size_def ffn_cpu_tp_group_def ffn_cpu_tp_rank_def ffn_cpu_tp_world_size_def
  cpu_world_group_def cpu_world_rank_def cpu_world_size_def cuda_world_group_def
  cuda_world_rank_def cuda_world_size_def pp_group_def

subsection \<open>Pipeline coordinates\<close>

text \<open>
  The global layout is pp-major. The divisor of \<open>pp_rank\<close> is 0 for a context whose world size is
  smaller than its pipeline size, where Python raises.
\<close>

definition pp_world_size :: "'m dist_context \<Rightarrow> int" where
  "pp_world_size c = max 1 (dc_pp c)"

definition pp_inner_world_size :: "'m dist_context \<Rightarrow> int" where
  "pp_inner_world_size c = dc_world_size c div pp_world_size c"

definition pp_rank :: "'m dist_context \<Rightarrow> int res" where
  "pp_rank c =
     (if pp_inner_world_size c = 0 then Inl ZeroDivisionError
      else Inr (dc_rank c div pp_inner_world_size c))"

definition is_first_pp_stage :: "'m dist_context \<Rightarrow> bool res" where
  "is_first_pp_stage c = rbind (pp_rank c) (\<lambda>r. Inr (r = 0))"

definition is_last_pp_stage :: "'m dist_context \<Rightarrow> bool res" where
  "is_last_pp_stage c = rbind (pp_rank c) (\<lambda>r. Inr (r = pp_world_size c - 1))"

definition pp_prev_global_rank :: "'m dist_context \<Rightarrow> int" where
  "pp_prev_global_rank c = dc_rank c - pp_inner_world_size c"

definition pp_next_global_rank :: "'m dist_context \<Rightarrow> int" where
  "pp_next_global_rank c = dc_rank c + pp_inner_world_size c"

subsection \<open>The module global\<close>

type_synonym 'm dist_global = "'m dist_context option"

definition get_dist_context :: "'m dist_global \<Rightarrow> 'm dist_context res" where
  "get_dist_context g =
     (case g of None \<Rightarrow> Inl (RuntimeErr ''DistContext has not been initialized'') | Some c \<Rightarrow> Inr c)"

text \<open>A rejected construction raises before the assignment: the global keeps its old value.\<close>

definition set_dist_context ::
  "('m, 'g) mesh_api \<Rightarrow> int \<Rightarrow> int \<Rightarrow> int \<Rightarrow> int \<Rightarrow> int \<Rightarrow> int \<Rightarrow> int \<Rightarrow> int \<Rightarrow> int \<Rightarrow> bool
   \<Rightarrow> 'm dist_global \<Rightarrow> 'm dist_global \<times> 'm dist_context res" where
  "set_dist_context api rk ws adp asp atp fdp fep ftp pp init g =
     (let c = \<lparr>dc_rank = rk, dc_world_size = ws, attention_dp = adp, attention_tp = atp,
               attention_sp = asp, ffn_dp = fdp, ffn_ep = fep, ffn_tp = ftp, dc_pp = pp,
               initialize_meshes = init, cpu_world_mesh = None, cuda_world_mesh = None,
               attn_cpu_device_mesh = None, ffn_cpu_device_mesh = None,
               attn_device_mesh = None, ffn_device_mesh = None\<rparr>
      in case post_init_dist_context api c of
           Inl e \<Rightarrow> (g, Inl e)
         | Inr c' \<Rightarrow> (Some c', Inr c'))"

definition clear_dist_context :: "'m dist_global \<Rightarrow> 'm dist_global" where
  "clear_dist_context g = None"

definition reset_dist_context ::
  "('m, 'g) mesh_api \<Rightarrow> 'm dist_global \<Rightarrow> 'm dist_global \<times> 'm dist_context res" where
  "reset_dist_context api g =
     (case get_dist_context g of
        Inl e \<Rightarrow> (g, Inl e)
      | Inr c \<Rightarrow> (case reset_context api c of (c', r) \<Rightarrow> (Some c', rbind r (\<lambda>_. Inr c'))))"

subsection \<open>Invariant of an accepted context\<close>

text \<open>
  The invariant of every context that construction accepts with positive sizes and a rank of
  the world, and that all the later operations keep.
\<close>

definition dist_wf :: "'m dist_context \<Rightarrow> bool" where
  "dist_wf c \<longleftrightarrow>
     0 < attention_dp c \<and> 0 < attention_sp c \<and> 0 < attention_tp c \<and>
     0 < ffn_dp c \<and> 0 < ffn_ep c \<and> 0 < ffn_tp c \<and>
     pp_world_size c * attention_dp c * attention_sp c * attention_tp c = dc_world_size c \<and>
     pp_world_size c * ffn_dp c * ffn_ep c * ffn_tp c = dc_world_size c \<and>
     0 \<le> dc_rank c \<and> dc_rank c < dc_world_size c"

lemma validate_parallelism_iff:
  "validate_parallelism c = Inr () \<longleftrightarrow>
     pp_world_size c * attention_dp c * attention_sp c * attention_tp c = dc_world_size c \<and>
     pp_world_size c * ffn_dp c * ffn_ep c * ffn_tp c = dc_world_size c"
  by (simp add: validate_parallelism_def pp_world_size_def Let_def rbind_Inr_iff)

lemma pp_world_size_pos [simp]: "1 \<le> pp_world_size c" "0 < pp_world_size c"
  by (simp_all add: pp_world_size_def)

lemma dist_wf_inner:
  assumes "dist_wf c"
  shows "pp_inner_world_size c = attention_dp c * attention_sp c * attention_tp c"
    and "0 < pp_inner_world_size c"
    and "dc_world_size c = pp_world_size c * pp_inner_world_size c"
proof -
  have *: "dc_world_size c = pp_world_size c * (attention_dp c * attention_sp c * attention_tp c)"
    using assms by (simp add: dist_wf_def algebra_simps)
  have "pp_world_size c \<noteq> 0" using pp_world_size_pos(2) [of c] by linarith
  then show inner: "pp_inner_world_size c = attention_dp c * attention_sp c * attention_tp c"
    unfolding pp_inner_world_size_def * by simp
  show "0 < pp_inner_world_size c" using assms by (simp add: inner dist_wf_def)
  show "dc_world_size c = pp_world_size c * pp_inner_world_size c"
    by (simp add: inner *)
qed

lemma dist_wf_pp_rank:
  assumes "dist_wf c"
  shows "pp_rank c = Inr (dc_rank c div pp_inner_world_size c)"
    and "0 \<le> dc_rank c div pp_inner_world_size c"
    and "dc_rank c div pp_inner_world_size c < pp_world_size c"
proof -
  note inner = dist_wf_inner [OF assms]
  show "pp_rank c = Inr (dc_rank c div pp_inner_world_size c)"
    using inner(2) by (simp add: pp_rank_def)
  show "0 \<le> dc_rank c div pp_inner_world_size c"
    using inner(2) assms by (simp add: dist_wf_def pos_imp_zdiv_nonneg_iff)
  have "dc_rank c < pp_world_size c * pp_inner_world_size c"
    using assms inner(3) by (simp add: dist_wf_def)
  then show "dc_rank c div pp_inner_world_size c < pp_world_size c"
    by (rule zdiv_less [OF inner(2)])
qed

lemma dist_wf_neighbours:
  assumes "dist_wf c"
  shows "dc_rank c div pp_inner_world_size c + 1 < pp_world_size c \<longleftrightarrow>
           pp_next_global_rank c < dc_world_size c"
    and "0 < dc_rank c div pp_inner_world_size c \<longleftrightarrow> 0 \<le> pp_prev_global_rank c"
proof -
  let ?w = "pp_inner_world_size c"
  note inner = dist_wf_inner [OF assms]
  have next_div: "pp_next_global_rank c div ?w = dc_rank c div ?w + 1"
    using inner(2) div_add_self2 [of ?w "dc_rank c"] by (auto simp: pp_next_global_rank_def)
  have prev_div: "pp_prev_global_rank c div ?w = dc_rank c div ?w - 1"
    using inner(2) div_add_self2 [of ?w "pp_prev_global_rank c"]
    by (simp add: pp_prev_global_rank_def)
  have "pp_next_global_rank c < dc_world_size c \<longleftrightarrow> pp_next_global_rank c div ?w < pp_world_size c"
    using inner(2) by (simp add: inner(3) zdiv_less_iff)
  then show "dc_rank c div ?w + 1 < pp_world_size c \<longleftrightarrow> pp_next_global_rank c < dc_world_size c"
    by (simp add: next_div)
  have "0 \<le> pp_prev_global_rank c \<longleftrightarrow> 0 \<le> pp_prev_global_rank c div ?w"
    using inner(2) by (simp add: pos_imp_zdiv_nonneg_iff)
  then show "0 < dc_rank c div ?w \<longleftrightarrow> 0 \<le> pp_prev_global_rank c"
    by (auto simp: prev_div)
qed

subsection \<open>What torch documents of a device mesh\<close>

text \<open>
  A mesh of the whole world with distinct dimension names can be built; the group of a dimension
  has that dimension's size, and a rank's position in it is the rank's coordinate in the row-major
  arrangement of the world.
\<close>

definition row_major_coord :: "int \<Rightarrow> int list \<Rightarrow> nat \<Rightarrow> int" where
  "row_major_coord r shape i = r div prod_list (drop (Suc i) shape) mod shape ! i"

definition mesh_doc :: "('m, 'g) mesh_api \<Rightarrow> int \<Rightarrow> int \<Rightarrow> bool" where
  "mesh_doc api r world \<longleftrightarrow>
     (\<forall>dev shape names. prod_list shape = world \<and> length names = length shape \<and> distinct names \<longrightarrow>
        (\<exists>m. init_device_mesh api dev shape names = Inr m \<and>
           (\<forall>i<length shape. \<exists>g. get_group api m (names ! i) = Inr g \<and>
              get_rank api g = row_major_coord r shape i \<and> get_world_size api g = shape ! i)))"

abbreviation attn_shape :: "'m dist_context \<Rightarrow> int list" where
  "attn_shape c \<equiv> [pp_world_size c, attention_dp c, attention_sp c, attention_tp c]"

abbreviation ffn_shape :: "'m dist_context \<Rightarrow> int list" where
  "ffn_shape c \<equiv> [pp_world_size c, ffn_dp c, ffn_ep c, ffn_tp c]"

definition mesh_answers :: "('m, 'g) mesh_api \<Rightarrow> int \<Rightarrow> int list \<Rightarrow> string list \<Rightarrow> 'm \<Rightarrow> bool" where
  "mesh_answers api r shape names m \<longleftrightarrow>
     list_all (\<lambda>i. group_rank api (mesh_group api (Some m) (names ! i)) = Inr (row_major_coord r shape i) \<and>
                   group_world_size api (mesh_group api (Some m) (names ! i)) = Inr (shape ! i))
       [0..<length shape]"

lemma mesh_docD:
  assumes "mesh_doc api r world" "prod_list shape = world" "length names = length shape"
    and "distinct names"
  shows "\<exists>m. init_device_mesh api dev shape names = Inr m \<and> mesh_answers api r shape names m"
proof -
  obtain m where m: "init_device_mesh api dev shape names = Inr m"
    and g: "\<forall>i<length shape. \<exists>g. get_group api m (names ! i) = Inr g \<and>
              get_rank api g = row_major_coord r shape i \<and> get_world_size api g = shape ! i"
    using assms unfolding mesh_doc_def by blast
  have "mesh_answers api r shape names m"
    using g by (auto simp: mesh_answers_def list_all_iff group_rank_def group_world_size_def
        mesh_group_def)
  with m show ?thesis by blast
qed

lemma reset_context_coordinates:
  assumes "dist_wf c" and doc: "mesh_doc api (dc_rank c) (dc_world_size c)"
  obtains c' where "reset_context api c = (c', Inr ())"
    and "attn_dp_rank api c' = Inr (row_major_coord (dc_rank c) (attn_shape c) 1)"
    and "attn_sp_rank api c' = Inr (row_major_coord (dc_rank c) (attn_shape c) 2)"
    and "attn_tp_rank api c' = Inr (row_major_coord (dc_rank c) (attn_shape c) 3)"
    and "attn_tp_world_size api c' = Inr (attention_tp c)"
    and "ffn_ep_rank api c' = Inr (row_major_coord (dc_rank c) (ffn_shape c) 2)"
    and "ffn_ep_world_size api c' = Inr (ffn_ep c)"
    and "dc_rank c' = dc_rank c" and "dc_world_size c' = dc_world_size c"
    and "dc_pp c' = dc_pp c"
proof -
  let ?an = "[''pp'', ''attn_dp'', ''attn_sp'', ''attn_tp'']"
  let ?fn = "[''pp'', ''ffn_dp'', ''ffn_ep'', ''ffn_tp'']"
  have sizes: "prod_list (attn_shape c) = dc_world_size c" "prod_list (ffn_shape c) = dc_world_size c"
    using assms(1) by (simp_all add: dist_wf_def algebra_simps)
  have world: "\<exists>m. init_device_mesh api dev [dc_world_size c] [''world''] = Inr m" for dev
    using mesh_docD [OF doc, of "[dc_world_size c]" "[''world'']"] by auto
  have attn: "\<exists>m. init_device_mesh api dev (attn_shape c) ?an = Inr m \<and>
                  mesh_answers api (dc_rank c) (attn_shape c) ?an m" for dev
    by (rule mesh_docD [OF doc sizes(1)]) simp_all
  have ffn: "\<exists>m. init_device_mesh api dev (ffn_shape c) ?fn = Inr m \<and>
                 mesh_answers api (dc_rank c) (ffn_shape c) ?fn m" for dev
    by (rule mesh_docD [OF doc sizes(2)]) simp_all
  obtain m1 m2 m3 m4 m5 m6 where
        m: "init_device_mesh api ''cpu'' [dc_world_size c] [''world''] = Inr m1"
           "init_device_mesh api ''cuda'' [dc_world_size c] [''world''] = Inr m2"
           "init_device_mesh api ''cpu'' (attn_shape c) ?an = Inr m3"
           "init_device_mesh api ''cpu'' (ffn_shape c) ?fn = Inr m4"
           "init_device_mesh api ''cuda'' (attn_shape c) ?an = Inr m5"
           "init_device_mesh api ''cuda'' (ffn_shape c) ?fn = Inr m6"
    and m5: "mesh_answers api (dc_rank c) (attn_shape c) ?an m5"
    and m6: "mesh_answers api (dc_rank c) (ffn_shape c) ?fn m6"
    using world attn ffn by metis
  let ?c = "(clear_context c)\<lparr>cpu_world_mesh := Some m1, cuda_world_mesh := Some m2,
    attn_cpu_device_mesh := Some m3, ffn_cpu_device_mesh := Some m4,
    attn_device_mesh := Some m5, ffn_device_mesh := Some m6\<rparr>"
  have reset: "reset_context api c = (?c, Inr ())"
    using m by (simp add: reset_context_def mesh_plan_def Let_def pp_world_size_def)
  show thesis
    by (rule that [OF reset])
      (use m5 m6 in
       \<open>simp_all add: mesh_answers_def upt_rec numeral_nat clear_context_def attn_dp_rank_def attn_dp_group_def attn_sp_rank_def
         attn_sp_group_def attn_tp_rank_def attn_tp_group_def attn_tp_world_size_def
         ffn_ep_rank_def ffn_ep_group_def ffn_ep_world_size_def\<close>)
qed

text \<open>A row-major arrangement of the world is one function with the documented behaviour.\<close>

definition row_major_mesh :: "int \<Rightarrow> (int list \<times> string list, int \<times> int) mesh_api" where
  "row_major_mesh r =
     \<lparr>init_device_mesh = (\<lambda>dev shape names. Inr (shape, names)),
      get_group = (\<lambda>(shape, names) name.
        let i = length (takeWhile (\<lambda>n. n \<noteq> name) names)
        in if i < length names then Inr (row_major_coord r shape i, shape ! i) else Inl KeyError),
      get_rank = fst, get_world_size = snd\<rparr>"

lemma row_major_mesh_doc: "mesh_doc (row_major_mesh r) r world"
proof -
  have "length (takeWhile (\<lambda>n. n \<noteq> names ! i) names) = i" if "distinct names" "i < length names"
    for names :: "string list" and i
    using that takeWhile_eq_take_P_nth [of i names "\<lambda>n. n \<noteq> names ! i"]
    by (auto simp: nth_eq_iff_index_eq)
  then show ?thesis by (simp add: mesh_doc_def row_major_mesh_def Let_def)
qed

end
