(* ===== verification/Pipeline.thy ===== *)
theory Pipeline
  imports Dist_Context
begin

section \<open>Pipeline parallelism (\<open>runtime/models/pp_utils.py\<close>)\<close>

text \<open>
  The split of decoder layers into pipeline stages, the ownership queries built on it, the
  full-length module list with placeholders, the checkpoint filter and the asynchronous
  point-to-point handle. A range is the pair of the code's \<open>(start, end)\<close>. Torch's
  communication calls are parameters that act on an abstract world. The locale \<open>layer_split\<close>
  states what the rest of the program needs of a split policy: consecutive ranges from 0 to the
  number of layers, one per stage. It is interpreted on \<open>pp_layer_partition\<close> here and on the
  ranges a decode engine accepts from its peer in the migration theory.
\<close>

type_synonym layer_range = "int \<times> int"

subsection \<open>The split policy\<close>

fun partition_loop :: "int \<Rightarrow> int \<Rightarrow> int \<Rightarrow> int list \<Rightarrow> layer_range list" where
  "partition_loop base remainder start [] = []"
| "partition_loop base remainder start (stage # stages) =
     (let count = base + (if stage < remainder then 1 else 0)
      in (start, start + count) # partition_loop base remainder (start + count) stages)"

definition pp_layer_partition :: "int \<Rightarrow> int \<Rightarrow> int option \<Rightarrow> layer_range list res" where
  "pp_layer_partition num_layers pp_size0 final_stage_start =
     (let pp_size = max 1 pp_size0 in
      if pp_size = 1 then Inr [(0, num_layers)]
      else case final_stage_start of
        Some f \<Rightarrow>
          if \<not> (0 < f \<and> f < num_layers) then Inl (ValueError ''invalid final_stage_start'')
          else if f < pp_size - 1
            then Inl (ValueError ''not enough independent prefix layers'')
          else (let split_size = pp_size - 1
                in Inr (partition_loop (f div split_size) (f mod split_size) 0 (py_range 0 split_size)
                        @ [(f, num_layers)]))
      | None \<Rightarrow>
          Inr (partition_loop (num_layers div pp_size) (num_layers mod pp_size) 0
                 (py_range 0 pp_size)))"

fun stage_scan :: "int \<Rightarrow> (int \<times> layer_range) list \<Rightarrow> int res" where
  "stage_scan layer_idx [] = Inl (ValueError ''layer outside any pipeline stage range'')"
| "stage_scan layer_idx ((stage, (start, end)) # rest) =
     (if start \<le> layer_idx \<and> layer_idx < end then Inr stage else stage_scan layer_idx rest)"

definition pp_stage_of_layer :: "int \<Rightarrow> layer_range list \<Rightarrow> int res" where
  "pp_stage_of_layer layer_idx stage_ranges = stage_scan layer_idx (py_enumerate stage_ranges)"

text \<open>
  The fields of the model configuration these helpers read. \<open>getattr(config, f, None) or d\<close>
  treats an absent, a \<open>None\<close> and an empty value alike.
\<close>

record layer_config =
  num_hidden_layers :: int
  architectures :: "string list"
  layer_types :: "string list"
  num_kv_shared_layers :: "int option"

definition first_arch :: "string list \<Rightarrow> string" where
  "first_arch archs = (case archs of [] \<Rightarrow> '''' | a # _ \<Rightarrow> a)"

text \<open>\<open>xs[:k]\<close>; a negative bound counts from the end.\<close>

definition py_slice_to :: "'a list \<Rightarrow> int \<Rightarrow> 'a list" where
  "py_slice_to xs k = take (nat (if k < 0 then py_len xs + k else k)) xs"

definition py_slice_from :: "'a list \<Rightarrow> int \<Rightarrow> 'a list" where
  "py_slice_from xs k = drop (nat (if k < 0 then py_len xs + k else k)) xs"

definition indices_where :: "('a \<Rightarrow> bool) \<Rightarrow> 'a list \<Rightarrow> int list" where
  "indices_where P xs = map fst (filter (\<lambda>(idx, x). P x) (py_enumerate xs))"

definition cache_layer_indices :: "layer_config \<Rightarrow> bool \<Rightarrow> int list" where
  "cache_layer_indices cfg gemma_hisparse_only_full_attention =
     (let num_layers = num_hidden_layers cfg;
          arch = first_arch (architectures cfg);
          types = layer_types cfg
      in if arch \<in> {''Gemma4ForCausalLM'', ''Gemma4ForConditionalGeneration''} then
           (let first_shared = num_layers - int_or (num_kv_shared_layers cfg) 0
            in if gemma_hisparse_only_full_attention
               then indices_where (\<lambda>t. t = ''full_attention'') (py_slice_to types first_shared)
               else py_range 0 (max 0 first_shared))
         else if types \<noteq> [] \<and> ''linear_attention'' \<in> set types
           then indices_where (\<lambda>t. t = ''full_attention'') types
         else py_range 0 num_layers)"

definition partition_layer_indices ::
  "int list \<Rightarrow> layer_range list \<Rightarrow> int list list res" where
  "partition_layer_indices layer_indices stage_ranges =
     fold_res (\<lambda>layer_idx result.
         rbind (pp_stage_of_layer layer_idx stage_ranges) (\<lambda>stage.
           Inr (result[nat stage := result ! nat stage @ [layer_idx]])))
       layer_indices (map (\<lambda>_. []) stage_ranges)"

definition pp_global_rank :: "int \<Rightarrow> int \<Rightarrow> int \<Rightarrow> int \<Rightarrow> int \<Rightarrow> int \<Rightarrow> int \<Rightarrow> int res" where
  "pp_global_rank pp_idx dp_idx sp_idx tp_idx dp_size sp_size tp_size =
     (if pp_idx < 0 \<or>
         list_ex (\<lambda>(coordinate, size). coordinate < 0 \<or> size \<le> coordinate)
           [(dp_idx, dp_size), (sp_idx, sp_size), (tp_idx, tp_size)]
      then Inl (ValueError ''invalid PP mesh coordinate'')
      else (let inner_world_size = dp_size * sp_size * tp_size;
                inner_rank = (dp_idx * sp_size + sp_idx) * tp_size + tp_idx
            in Inr (pp_idx * inner_world_size + inner_rank)))"

definition get_pp_layer_range ::
  "'m dist_global \<Rightarrow> int \<Rightarrow> int option \<Rightarrow> layer_range res" where
  "get_pp_layer_range g num_layers final_stage_start =
     rbind (get_dist_context g) (\<lambda>ctx.
     rbind (pp_layer_partition num_layers (pp_world_size ctx) final_stage_start) (\<lambda>partition.
     rbind (pp_rank ctx) (\<lambda>r. py_nth partition r)))"

text \<open>
  The loop over the set of shared layer types visits each type once; neither the minimum nor the
  exception depends on the order.
\<close>

definition get_gemma4_shared_kv_source_start :: "layer_config \<Rightarrow> int option res" where
  "get_gemma4_shared_kv_source_start cfg =
     (let num_shared = int_or (num_kv_shared_layers cfg) 0 in
      if num_shared \<le> 0 then Inr None
      else (let first_shared = num_hidden_layers cfg - num_shared;
                shared_types = remdups (py_slice_from (layer_types cfg) first_shared);
                prefix = py_slice_to (layer_types cfg) first_shared
            in rbind (mapr (\<lambda>t. let candidates = indices_where (\<lambda>c. c = t) prefix
                                in if candidates = []
                                   then Inl (ValueError ''no preceding source'')
                                   else Inr (last candidates)) shared_types)
                 (\<lambda>source_indices.
                    if source_indices = [] then Inl (ValueError ''min of an empty sequence'')
                    else Inr (Some (Min (set source_indices))))))"

definition get_gemma4_pp_layer_range :: "'m dist_global \<Rightarrow> layer_config \<Rightarrow> layer_range res" where
  "get_gemma4_pp_layer_range g cfg =
     rbind (get_gemma4_shared_kv_source_start cfg)
       (get_pp_layer_range g (num_hidden_layers cfg))"

subsection \<open>Stage-local module list\<close>

datatype 'm pp_module = Layer 'm | PPMissingLayer

definition pp_module_forward :: "('m \<Rightarrow> 'x \<Rightarrow> 'x res) \<Rightarrow> 'm pp_module \<Rightarrow> 'x \<Rightarrow> 'x res" where
  "pp_module_forward run mdl x =
     (case mdl of Layer m \<Rightarrow> run m x
      | PPMissingLayer \<Rightarrow> Inl (RuntimeErr ''PPMissingLayer.forward called''))"

definition make_pp_layers ::
  "'c dist_global \<Rightarrow> int \<Rightarrow> (int \<Rightarrow> 'm res) \<Rightarrow> layer_range option \<Rightarrow> (int \<times> int \<times> 'm pp_module list) res"
  where
  "make_pp_layers g num_layers builder layer_range =
     rbind (case layer_range of Some r \<Rightarrow> Inr r | None \<Rightarrow> get_pp_layer_range g num_layers None)
     (\<lambda>(start, end).
       rbind (mapr (\<lambda>idx. if start \<le> idx \<and> idx < end
                          then rbind (builder idx) (\<lambda>m. Inr (Layer m))
                          else Inr PPMissingLayer)
                (py_range 0 num_layers))
       (\<lambda>modules. Inr (start, end, modules)))"

subsection \<open>Asynchronous point-to-point work\<close>

text \<open>
  \<open>'w\<close> is torch's work handle and \<open>'s\<close> the world its calls change. \<open>wait_work\<close> is the handle's
  \<open>wait()\<close>, \<open>post\<close> is \<open>dist.isend\<close> or \<open>dist.irecv\<close> towards a fixed peer.
\<close>

record ('w, 't) pending_p2p =
  p2p_works :: "'w list"
  p2p_tensors :: "'t list"
  p2p_error :: "py_error option"
  p2p_complete :: bool

definition new_pending_p2p :: "'w list \<Rightarrow> 't list \<Rightarrow> ('w, 't) pending_p2p" where
  "new_pending_p2p works tensors =
     \<lparr>p2p_works = works, p2p_tensors = tensors, p2p_error = None, p2p_complete = False\<rparr>"

fun drain_works ::
  "('w \<Rightarrow> 's \<Rightarrow> 's \<times> unit res) \<Rightarrow> 'w list \<Rightarrow> py_error option \<Rightarrow> 's \<Rightarrow> 's \<times> py_error option" where
  "drain_works wait_work [] first_error w = (w, first_error)"
| "drain_works wait_work (work # works) first_error w =
     (case wait_work work w of
        (w', Inr _) \<Rightarrow> drain_works wait_work works first_error w'
      | (w', Inl e) \<Rightarrow>
          drain_works wait_work works (if first_error = None then Some e else first_error) w')"

definition raise_if :: "py_error option \<Rightarrow> unit res" where
  "raise_if err = (case err of None \<Rightarrow> Inr () | Some e \<Rightarrow> Inl e)"

definition p2p_wait ::
  "('w \<Rightarrow> 's \<Rightarrow> 's \<times> unit res) \<Rightarrow> ('w, 't) pending_p2p \<Rightarrow> 's
   \<Rightarrow> ('w, 't) pending_p2p \<times> 's \<times> unit res" where
  "p2p_wait wait_work p w =
     (if p2p_complete p then (p, w, raise_if (p2p_error p))
      else (case drain_works wait_work (p2p_works p) None w of
              (w', first_error) \<Rightarrow>
                (p\<lparr>p2p_works := [], p2p_tensors := [], p2p_error := first_error,
                    p2p_complete := True\<rparr>,
                 w', raise_if first_error)))"

fun post_all ::
  "('t \<Rightarrow> 's \<Rightarrow> 's \<times> 'w res) \<Rightarrow> 't list \<Rightarrow> 'w list \<Rightarrow> 's \<Rightarrow> 's \<times> 'w list \<times> py_error option" where
  "post_all post [] works w = (w, works, None)"
| "post_all post (t # ts) works w =
     (case post t w of
        (w', Inl e) \<Rightarrow> (w', works, Some e)
      | (w', Inr work) \<Rightarrow> post_all post ts (works @ [work]) w')"

definition profiler_labels :: "'n list option \<Rightarrow> nat \<Rightarrow> 'n option list" where
  "profiler_labels profiler_names n =
     (case profiler_names of
        None \<Rightarrow> replicate n None
      | Some [] \<Rightarrow> replicate n None
      | Some names \<Rightarrow> map Some names)"

text \<open>
  Both helpers post every operation before waiting for one. When a post fails, the posted work is
  drained with its own errors suppressed and the posting error is raised.
\<close>

definition pp_isend_tensors ::
  "('t \<Rightarrow> 't) \<Rightarrow> ('t \<Rightarrow> 's \<Rightarrow> 's \<times> 'w res) \<Rightarrow> ('w \<Rightarrow> 's \<Rightarrow> 's \<times> unit res) \<Rightarrow> 't list
   \<Rightarrow> string list option \<Rightarrow> 's \<Rightarrow> 's \<times> ('w, 't) pending_p2p res" where
  "pp_isend_tensors contiguous isend wait_work tensors profiler_names w =
     (let send_tensors = map contiguous tensors in
      if send_tensors = [] then (w, Inl (ValueError ''requires at least one tensor''))
      else if length (profiler_labels profiler_names (length send_tensors)) \<noteq> length send_tensors
        then (w, Inl (ValueError ''profiler_names must match''))
      else (case post_all isend send_tensors [] w of
              (w', works, Some e) \<Rightarrow>
                (case p2p_wait wait_work (new_pending_p2p works send_tensors) w' of
                   (p, w'', _) \<Rightarrow> (w'', Inl e))
            | (w', works, None) \<Rightarrow> (w', Inr (new_pending_p2p works send_tensors))))"

definition pp_irecv_tensors ::
  "('t \<Rightarrow> 's \<Rightarrow> 's \<times> 'w res) \<Rightarrow> ('w \<Rightarrow> 's \<Rightarrow> 's \<times> unit res) \<Rightarrow> 't list
   \<Rightarrow> string list option \<Rightarrow> 's \<Rightarrow> 's \<times> unit res" where
  "pp_irecv_tensors irecv wait_work recv_tensors profiler_names w =
     (if recv_tensors = [] then (w, Inl (ValueError ''requires at least one tensor''))
      else if length (profiler_labels profiler_names (length recv_tensors)) \<noteq> length recv_tensors
        then (w, Inl (ValueError ''profiler_names must match''))
      else (case post_all irecv recv_tensors [] w of
              (w', works, err) \<Rightarrow>
                (case p2p_wait wait_work (new_pending_p2p works recv_tensors) w' of
                   (p, w'', r) \<Rightarrow> (w'', case err of Some e \<Rightarrow> Inl e | None \<Rightarrow> r))))"

definition pp_send_hidden ::
  "'m dist_global \<Rightarrow> ('t \<Rightarrow> 't) \<Rightarrow> ('t \<Rightarrow> int \<Rightarrow> 's \<Rightarrow> 's \<times> unit res) \<Rightarrow> 't \<Rightarrow> 's \<Rightarrow> 's \<times> unit res" where
  "pp_send_hidden g contiguous send hidden_states w =
     (case get_dist_context g of
        Inl e \<Rightarrow> (w, Inl e)
      | Inr ctx \<Rightarrow> send (contiguous hidden_states) (pp_next_global_rank ctx) w)"

definition pp_recv_hidden ::
  "'m dist_global \<Rightarrow> (int \<Rightarrow> int \<Rightarrow> 't res) \<Rightarrow> ('t \<Rightarrow> int \<Rightarrow> 's \<Rightarrow> 's \<times> 't res) \<Rightarrow> int \<Rightarrow> int
   \<Rightarrow> 's \<Rightarrow> 's \<times> 't res" where
  "pp_recv_hidden g new_buffer recv num_tokens hidden_size w =
     (case get_dist_context g of
        Inl e \<Rightarrow> (w, Inl e)
      | Inr ctx \<Rightarrow> (case new_buffer num_tokens hidden_size of
                     Inl e \<Rightarrow> (w, Inl e)
                   | Inr buffer \<Rightarrow> recv buffer (pp_prev_global_rank ctx) w))"

subsection \<open>Checkpoint weights\<close>

text \<open>
  \<open>re.search(r"layers\.(\d+)\.", name)\<close>: the leftmost occurrence of the literal followed by a
  maximal run of digits and a dot. A digit is not a dot, so no shorter run can match.
\<close>

definition is_digit :: "char \<Rightarrow> bool" where
  "is_digit c \<longleftrightarrow> 48 \<le> (of_char c :: nat) \<and> (of_char c :: nat) \<le> 57"

definition digits_value :: "string \<Rightarrow> int" where
  "digits_value ds = foldl (\<lambda>n c. n * 10 + (of_char c - 48)) 0 ds"

definition match_layer_at :: "string \<Rightarrow> int option" where
  "match_layer_at s =
     (if prefix ''layers.'' s then
        (let rest = drop 7 s; ds = takeWhile is_digit rest; tail = dropWhile is_digit rest
         in if ds \<noteq> [] \<and> prefix ''.'' tail then Some (digits_value ds) else None)
      else None)"

fun search_layer :: "string \<Rightarrow> int option" where
  "search_layer [] = None"
| "search_layer (c # s) =
     (case match_layer_at (c # s) of Some idx \<Rightarrow> Some idx | None \<Rightarrow> search_layer s)"

definition pp_weight_belongs_to_stage ::
  "'m dist_global \<Rightarrow> string \<Rightarrow> int \<Rightarrow> int \<Rightarrow> bool res" where
  "pp_weight_belongs_to_stage g weight_name start_layer end_layer =
     rbind (get_dist_context g) (\<lambda>ctx.
       case search_layer weight_name of
         Some idx \<Rightarrow> Inr (start_layer \<le> idx \<and> idx < end_layer)
       | None \<Rightarrow>
           if sublist ''embed_tokens'' weight_name then is_first_pp_stage ctx
           else if prefix ''model.norm.'' weight_name then is_last_pp_stage ctx
           else if prefix ''model.hc_head.'' weight_name then is_last_pp_stage ctx
           else if sublist ''lm_head'' weight_name then is_last_pp_stage ctx
           else Inr True)"

subsection \<open>What a split policy promises\<close>

fun chain :: "int \<Rightarrow> layer_range list \<Rightarrow> int \<Rightarrow> bool" where
  "chain a [] b \<longleftrightarrow> a = b"
| "chain a ((s, e) # rs) b \<longleftrightarrow> s = a \<and> s \<le> e \<and> chain e rs b"

lemma chain_le: "chain a rs b \<Longrightarrow> a \<le> b"
  by (induction a rs b rule: chain.induct) auto

lemma chain_append: "chain a (rs @ ss) b \<longleftrightarrow> (\<exists>m. chain a rs m \<and> chain m ss b)"
  by (induction a rs b rule: chain.induct) auto

lemma chain_in_bounds: "chain a rs b \<Longrightarrow> (s, e) \<in> set rs \<Longrightarrow> a \<le> s \<and> s \<le> e \<and> e \<le> b"
  by (induction a rs b rule: chain.induct) (auto dest: chain_le)

lemma chain_covers:
  "chain a rs b \<Longrightarrow> a \<le> l \<Longrightarrow> l < b \<Longrightarrow> \<exists>i<length rs. fst (rs ! i) \<le> l \<and> l < snd (rs ! i)"
proof (induction a rs b rule: chain.induct)
  case (2 a s e rs b)
  then show ?case
  proof (cases "l < e")
    case False
    with 2 obtain i where "i < length rs" "fst (rs ! i) \<le> l" "l < snd (rs ! i)" by auto
    then show ?thesis by (intro exI [of _ "Suc i"]) simp
  qed auto
qed simp

lemma chain_ordered:
  "chain a rs b \<Longrightarrow> i < j \<Longrightarrow> j < length rs \<Longrightarrow> snd (rs ! i) \<le> fst (rs ! j)"
proof (induction a rs b arbitrary: i j rule: chain.induct)
  case (2 a s e rs b)
  show ?case
  proof (cases i)
    case 0
    then obtain k where "j = Suc k" "k < length rs" using 2(3,4) by (cases j) auto
    then show ?thesis using 0 2(2) chain_in_bounds [of e rs b "fst (rs ! k)" "snd (rs ! k)"] by simp
  next
    case (Suc k)
    with 2 show ?thesis by (cases j) auto
  qed
qed simp

lemma chain_unique:
  assumes "chain a rs b" "i < length rs" "j < length rs"
    and "fst (rs ! i) \<le> l" "l < snd (rs ! i)" "fst (rs ! j) \<le> l" "l < snd (rs ! j)"
  shows "i = j"
  using assms chain_ordered [OF assms(1), of i j] chain_ordered [OF assms(1), of j i]
  by (cases i j rule: linorder_cases) auto

abbreviation in_range :: "int \<Rightarrow> layer_range \<Rightarrow> bool" where
  "in_range l r \<equiv> fst r \<le> l \<and> l < snd r"

lemma stage_scan_first:
  assumes "i < length rs" and "in_range l (rs ! i)" and "\<And>j. j < i \<Longrightarrow> \<not> in_range l (rs ! j)"
  shows "stage_scan l (zip (map int [k..<k + length rs]) rs) = Inr (int (k + i))"
  using assms
proof (induction rs arbitrary: k i)
  case (Cons r rs)
  have upt: "[k..<Suc (k + length rs)] = k # [Suc k..<Suc k + length rs]"
    by (simp add: upt_conv_Cons del: upt_Suc)
  show ?case
  proof (cases i)
    case 0
    then show ?thesis using Cons.prems by (cases r) (simp add: upt del: upt_Suc)
  next
    case (Suc m)
    have "\<not> in_range l r" using Cons.prems(3) [of 0] Suc by simp
    moreover have "stage_scan l (zip (map int [Suc k..<Suc k + length rs]) rs) = Inr (int (Suc k + m))"
    proof (rule Cons.IH)
      show "\<not> in_range l (rs ! j)" if "j < m" for j
        using Cons.prems(3) [of "Suc j"] Suc that by simp
    qed (use Cons.prems Suc in simp_all)
    ultimately show ?thesis using Suc by (cases r) (simp add: upt del: upt_Suc)
  qed
qed simp

lemma stage_scan_none:
  "(\<And>r. r \<in> set rs \<Longrightarrow> \<not> in_range l r) \<Longrightarrow>
   stage_scan l (zip ks rs) = Inl (ValueError ''layer outside any pipeline stage range'')"
proof (induction rs arbitrary: ks)
  case (Cons r rs)
  then show ?case by (cases ks; cases r) force+
qed (cases ks; simp)

lemma pp_stage_of_layer_first:
  assumes "i < length rs" and "in_range l (rs ! i)" and "\<And>j. j < i \<Longrightarrow> \<not> in_range l (rs ! j)"
  shows "pp_stage_of_layer l rs = Inr (int i)"
  using stage_scan_first [of i rs l 0] assms by (simp add: pp_stage_of_layer_def py_enumerate_def)

lemma chain_stage_iff:
  assumes "chain a rs b" and "a \<le> l" and "l < b"
  shows "pp_stage_of_layer l rs = Inr st \<longleftrightarrow> (\<exists>i<length rs. st = int i \<and> in_range l (rs ! i))"
proof -
  obtain i where i: "i < length rs" "in_range l (rs ! i)"
    using chain_covers [OF assms] by blast
  have uniq: "j = i" if "j < length rs" "in_range l (rs ! j)" for j
    using chain_unique [OF assms(1) that(1) i(1)] that i by blast
  have "pp_stage_of_layer l rs = Inr (int i)"
  proof (rule pp_stage_of_layer_first [OF i])
    show "\<not> in_range l (rs ! j)" if "j < i" for j
      using uniq [of j] that i(1) by auto
  qed
  moreover have "(\<exists>j<length rs. st = int j \<and> in_range l (rs ! j)) \<longleftrightarrow> st = int i"
    using i uniq by blast
  ultimately show ?thesis by auto
qed

lemma chain_stage_outside:
  assumes "chain a rs b" and "l < a \<or> b \<le> l"
  shows "pp_stage_of_layer l rs = Inl (ValueError ''layer outside any pipeline stage range'')"
  unfolding pp_stage_of_layer_def py_enumerate_def
  using assms chain_in_bounds [OF assms(1)] by (intro stage_scan_none) fastforce

text \<open>Sorting layer indices into stages: one sublist per range, in the input's order.\<close>

definition by_range :: "int list \<Rightarrow> layer_range list \<Rightarrow> int list list" where
  "by_range ls rs = map (\<lambda>r. filter (\<lambda>l. in_range l r) ls) rs"

lemma partition_step:
  assumes "chain a rs b" "a \<le> l" "l < b"
  shows "rbind (pp_stage_of_layer l rs) (\<lambda>st.
           Inr ((by_range ls rs)[nat st := by_range ls rs ! nat st @ [l]])) = Inr (by_range (ls @ [l]) rs)"
proof -
  obtain i where i: "i < length rs" "in_range l (rs ! i)"
    using chain_covers [OF assms] by blast
  then have st: "pp_stage_of_layer l rs = Inr (int i)"
    using chain_stage_iff [OF assms] by blast
  have "(by_range ls rs)[i := by_range ls rs ! i @ [l]] = by_range (ls @ [l]) rs"
  proof (rule nth_equalityI)
    fix j assume "j < length ((by_range ls rs)[i := by_range ls rs ! i @ [l]])"
    then have j: "j < length rs" by (simp add: by_range_def)
    show "(by_range ls rs)[i := by_range ls rs ! i @ [l]] ! j = by_range (ls @ [l]) rs ! j"
      using i j chain_unique [OF assms(1) i(1) j, of l]
      by (cases "i = j") (auto simp: by_range_def nth_list_update)
  qed (simp add: by_range_def)
  then show ?thesis by (simp add: st)
qed

lemma partition_by_range:
  assumes "chain a rs b" and "\<And>l. l \<in> set ls \<Longrightarrow> a \<le> l \<and> l < b"
  shows "partition_layer_indices ls rs = Inr (by_range ls rs)"
  unfolding partition_layer_indices_def
  using assms(2)
proof (induction ls rule: rev_induct)
  case Nil
  show ?case by (simp add: by_range_def)
next
  case (snoc l ls)
  then have "fold_res (\<lambda>layer_idx result.
         rbind (pp_stage_of_layer layer_idx rs) (\<lambda>stage.
           Inr (result[nat stage := result ! nat stage @ [layer_idx]])))
       ls (map (\<lambda>_. []) rs) = Inr (by_range ls rs)" by simp
  moreover have "a \<le> l" "l < b" using snoc.prems by auto
  ultimately show ?case
    using partition_step [OF assms(1), of l ls] by (simp add: fold_res_append)
qed

lemma sorted_split_at:
  "sorted ls \<Longrightarrow> filter (\<lambda>l. l < m) ls @ filter (\<lambda>l. (m::int) \<le> l) ls = ls"
proof (induction ls)
  case (Cons l ls)
  show ?case
  proof (cases "l < m")
    case False
    with Cons.prems have "\<forall>x\<in>set ls. m \<le> x" by auto
    then have "filter (\<lambda>l. l < m) ls = []" "filter (\<lambda>l. m \<le> l) ls = ls"
      by (auto simp: filter_empty_conv filter_id_conv not_less)
    with False show ?thesis by simp
  qed (use Cons in simp)
qed simp

lemma concat_by_range:
  assumes "sorted ls" "chain a rs b" "\<And>l. l \<in> set ls \<Longrightarrow> a \<le> l \<and> l < b"
  shows "concat (by_range ls rs) = ls"
  using assms
proof (induction a rs b arbitrary: ls rule: chain.induct)
  case (1 a b)
  then show ?case by (cases ls) (force simp: by_range_def)+
next
  case (2 a s e rs b)
  let ?hi = "filter (\<lambda>l. e \<le> l) ls"
  have lo: "filter (\<lambda>l. in_range l (s, e)) ls = filter (\<lambda>l. l < e) ls"
    using 2 by (intro filter_cong) auto
  have "filter (\<lambda>l. in_range l r) ls = filter (\<lambda>l. in_range l r) ?hi" if "r \<in> set rs" for r
    using chain_in_bounds [of e rs b "fst r" "snd r"] 2(3) that
    by (force simp: filter_filter intro: filter_cong)
  then have "by_range ls rs = by_range ?hi rs" by (simp add: by_range_def)
  moreover have "concat (by_range ?hi rs) = ?hi"
    using 2 by (intro "2.IH") (auto intro: sorted_wrt_filter simp: sorted_filter [of "\<lambda>x. x", simplified])
  ultimately have "concat (by_range ls rs) = ?hi" by simp
  then have "concat (by_range ls ((s, e) # rs)) = filter (\<lambda>l. l < e) ls @ ?hi"
    unfolding by_range_def list.map concat.simps lo by simp
  then show ?case using sorted_split_at [OF 2(2), of e] by simp
qed

subsection \<open>The split policy delivers a chain\<close>

definition split_point :: "int \<Rightarrow> int \<Rightarrow> int \<Rightarrow> int" where
  "split_point base remainder i = i * base + min i remainder"

lemma split_point_Suc:
  "split_point b r i + (b + (if i < r then 1 else 0)) = split_point b r (i + 1)"
  by (simp add: split_point_def algebra_simps min_def)

lemma partition_loop_closed:
  "partition_loop b r (split_point b r j) (py_range j k) =
     map (\<lambda>i. (split_point b r i, split_point b r (i + 1))) (py_range j k)"
proof (induction "nat (k - j)" arbitrary: j)
  case (Suc n)
  then have "j < k" by simp
  then show ?case using Suc by (simp add: py_range_Cons Let_def split_point_Suc)
qed simp

lemma chain_points:
  assumes "\<And>i. g i \<le> g (i + 1)" and "j \<le> k"
  shows "chain (g j) (map (\<lambda>i. (g i, g (i + 1))) (py_range j k)) (g (k::int))"
  using assms(2)
proof (induction "nat (k - j)" arbitrary: j)
  case (Suc n)
  then show ?case using assms(1) by (simp add: py_range_Cons)
qed simp

lemma split_point_mono: "0 \<le> b \<Longrightarrow> split_point b r i \<le> split_point b r (i + 1)"
  by (simp add: split_point_def algebra_simps)

lemma split_point_0 [simp]: "0 \<le> r \<Longrightarrow> split_point b r 0 = 0"
  by (simp add: split_point_def)

lemma split_point_total:
  assumes "0 < k"
  shows "split_point (n div k) (n mod k) k = n"
proof -
  have "min k (n mod k) = n mod k" using pos_mod_bound [OF assms, of n] by linarith
  then show ?thesis by (simp add: split_point_def mult.commute)
qed

lemma even_split:
  assumes "0 \<le> n" "0 < k"
  shows "partition_loop (n div k) (n mod k) 0 (py_range 0 k) =
           map (\<lambda>i. (split_point (n div k) (n mod k) i, split_point (n div k) (n mod k) (i + 1)))
             (py_range 0 k)"
    and "chain 0 (partition_loop (n div k) (n mod k) 0 (py_range 0 k)) n"
proof -
  let ?g = "split_point (n div k) (n mod k)"
  show eq: "partition_loop (n div k) (n mod k) 0 (py_range 0 k) =
        map (\<lambda>i. (?g i, ?g (i + 1))) (py_range 0 k)"
    using partition_loop_closed [of "n div k" "n mod k" 0 k] assms(2) by simp
  have "chain (?g 0) (map (\<lambda>i. (?g i, ?g (i + 1))) (py_range 0 k)) (?g k)"
    using assms by (intro chain_points split_point_mono) (simp_all add: pos_imp_zdiv_nonneg_iff)
  then show "chain 0 (partition_loop (n div k) (n mod k) 0 (py_range 0 k)) n"
    using assms(2) by (simp add: eq split_point_total)
qed

lemma length_partition_loop [simp]: "length (partition_loop b r s stages) = length stages"
  by (induction b r s stages rule: partition_loop.induct) (simp_all add: Let_def)

lemma pp_layer_partition_chain:
  assumes "0 \<le> n" and "pp_layer_partition n k f = Inr rs"
  shows "chain 0 rs n" and "py_len rs = max 1 k"
proof -
  have "chain 0 rs n \<and> py_len rs = max 1 k"
  proof (cases "max 1 k = 1")
    case True
    then show ?thesis using assms by (auto simp: pp_layer_partition_def)
  next
    case False
    then have k: "1 < k" by simp
    show ?thesis
    proof (cases f)
      case None
      then show ?thesis
        using assms k even_split(2) [of n k]
        by (auto simp: pp_layer_partition_def py_len_def)
    next
      case (Some x)
      then show ?thesis
        using assms k even_split(2) [of x "k - 1"]
        by (auto simp: pp_layer_partition_def Let_def py_len_def chain_append split: if_splits)
    qed
  qed
  then show "chain 0 rs n" and "py_len rs = max 1 k" by simp_all
qed

subsection \<open>The interface of a split policy\<close>

text \<open>
  A client (cache sizing, checkpoint loading, migration) relies on three laws: an accepted request
  gives consecutive ranges, they end at the layer count, and there is one per stage.
\<close>

locale layer_split =
  fixes split :: "'c \<Rightarrow> layer_range list res"
    and valid :: "'c \<Rightarrow> bool"
    and layers :: "'c \<Rightarrow> int"
    and stages :: "'c \<Rightarrow> int"
  assumes split_chain: "valid c \<Longrightarrow> split c = Inr rs \<Longrightarrow> chain 0 rs (layers c)"
    and split_stages: "valid c \<Longrightarrow> split c = Inr rs \<Longrightarrow> py_len rs = stages c"
begin

lemma owner_unique:
  assumes "valid c" "split c = Inr rs" "0 \<le> l" "l < layers c"
  shows "\<exists>!i. 0 \<le> i \<and> i < stages c \<and> (\<exists>r. py_nth rs i = Inr r \<and> in_range l r)"
proof -
  note ch = split_chain [OF assms(1,2)] and len = split_stages [OF assms(1,2)]
  obtain i where i: "i < length rs" "in_range l (rs ! i)"
    using chain_covers [OF ch assms(3,4)] by blast
  show ?thesis
  proof (rule ex1I [of _ "int i"])
    show "0 \<le> int i \<and> int i < stages c \<and> (\<exists>r. py_nth rs (int i) = Inr r \<and> in_range l r)"
      using i len by (simp add: py_len_def)
  next
    fix j assume j: "0 \<le> j \<and> j < stages c \<and> (\<exists>r. py_nth rs j = Inr r \<and> in_range l r)"
    then have "nat j < length rs" "in_range l (rs ! nat j)"
      using len by (auto simp: py_nth_def py_len_def)
    then show "j = int i" using chain_unique [OF ch _ i(1), of "nat j" l] i(2) j by auto
  qed
qed

lemma stage_of_layer_total:
  assumes "valid c" "split c = Inr rs" "0 \<le> l" "l < layers c"
  obtains i where "pp_stage_of_layer l rs = Inr i" "0 \<le> i" "i < stages c"
  using chain_covers [OF split_chain [OF assms(1,2)] assms(3,4)]
    chain_stage_iff [OF split_chain [OF assms(1,2)] assms(3,4)] split_stages [OF assms(1,2)]
  by (metis of_nat_0_le_iff of_nat_less_iff py_len_def)

lemma stage_of_layer_owner:
  assumes "valid c" "split c = Inr rs" "0 \<le> l" "l < layers c"
  shows "pp_stage_of_layer l rs = Inr i \<longleftrightarrow>
           0 \<le> i \<and> i < stages c \<and> (\<exists>r. py_nth rs i = Inr r \<and> in_range l r)"
  unfolding chain_stage_iff [OF split_chain [OF assms(1,2)] assms(3,4)] split_stages [OF assms(1,2), symmetric]
  by (auto simp del: split_paired_Ex simp: py_nth_def py_len_def split: if_splits
      intro: exI [of _ "nat i"])

lemma partition_layers:
  assumes "valid c" "split c = Inr rs" "\<And>l. l \<in> set ls \<Longrightarrow> 0 \<le> l \<and> l < layers c"
  shows "partition_layer_indices ls rs = Inr (by_range ls rs)"
    and "sorted ls \<Longrightarrow> concat (by_range ls rs) = ls"
  using partition_by_range concat_by_range split_chain [OF assms(1,2)] assms(3) by blast+

end

interpretation pp_split: layer_split
  "\<lambda>(n, k, f). pp_layer_partition n k f" "\<lambda>(n, k, f). 0 \<le> n" "\<lambda>(n, k, f). n" "\<lambda>(n, k, f). max 1 k"
  by unfold_locales (auto intro: pp_layer_partition_chain simp: pp_layer_partition_chain(2))

subsection \<open>Supporting lemmas\<close>

lemma indices_where_alt: "indices_where P xs = map int (filter (\<lambda>i. P (xs ! i)) [0..<length xs])"
proof -
  have "py_enumerate xs = map (\<lambda>i. (int i, xs ! i)) [0..<length xs]"
    by (rule nth_equalityI) auto
  then show ?thesis by (simp add: indices_where_def filter_map comp_def)
qed

lemma set_indices_where: "set (indices_where P xs) = {int i | i. i < length xs \<and> P (xs ! i)}"
  by (auto simp: indices_where_alt)

lemma sorted_indices_where: "sorted (indices_where P xs)"
proof -
  have "sorted (filter (\<lambda>i. P (xs ! i)) [0..<length xs])"
    using sorted_wrt_filter [OF sorted_upt] by blast
  then show ?thesis by (auto simp: indices_where_alt sorted_map elim: sorted_wrt_mono_rel [rotated])
qed

lemma cache_layer_indices_sorted: "sorted (cache_layer_indices cfg h)"
  by (simp add: cache_layer_indices_def sorted_indices_where Let_def)

lemma cache_layer_indices_bound:
  assumes "py_len (layer_types cfg) \<le> num_hidden_layers cfg" "0 \<le> int_or (num_kv_shared_layers cfg) 0"
    and "l \<in> set (cache_layer_indices cfg h)"
  shows "0 \<le> l \<and> l < num_hidden_layers cfg"
  using assms
  by (auto simp: cache_layer_indices_def Let_def set_indices_where py_slice_to_def py_len_def
      split: if_splits)

text \<open>The flat rank of a mesh coordinate, inverse to the row-major coordinates of a rank.\<close>

lemma mixed_radix:
  assumes "b = q * d + x" "a = b * s + y" "(r::int) = a * t + z"
  shows "q * (d * s * t) + ((x * s + y) * t + z) = r"
  unfolding assms by (simp add: algebra_simps)

lemma pp_global_rank_coords:
  assumes "0 < d" "0 < s" "0 < t" "0 \<le> r"
  shows "pp_global_rank (r div (d * s * t)) (row_major_coord r [k, d, s, t] 1)
           (row_major_coord r [k, d, s, t] 2) (row_major_coord r [k, d, s, t] 3) d s t = Inr r"
proof -
  let ?a = "r div t" and ?b = "r div (s * t)"
  have b: "?b = ?a div s" and c: "r div (d * s * t) = ?b div d"
    using assms zdiv_zmult2_eq [of s r t] zdiv_zmult2_eq [of d r "s * t"]
    by (simp_all add: ac_simps)
  have "?b div d * (d * s * t) + ((?b mod d * s + ?a mod s) * t + r mod t) = r"
    by (rule mixed_radix [of ?b _ _ _ ?a]) (simp_all add: b)
  then show ?thesis
    using assms by (simp add: pp_global_rank_def row_major_coord_def c numeral_nat
        pos_imp_zdiv_nonneg_iff not_le not_less)
qed

lemma p2p_wait_complete:
  "p2p_wait ww p w = (p', w', r) \<Longrightarrow>
     p2p_complete p' \<and> p2p_wait ww p' w'' = (p', w'', r)"
  by (auto simp: p2p_wait_def split: prod.splits if_splits)

text \<open>A world that records which handles were waited for, with a fixed outcome per handle.\<close>

definition logged_wait :: "('w \<Rightarrow> unit res) \<Rightarrow> 'w \<Rightarrow> 'w list \<Rightarrow> 'w list \<times> unit res" where
  "logged_wait outcome work log = (log @ [work], outcome work)"

definition first_failure :: "('w \<Rightarrow> unit res) \<Rightarrow> 'w list \<Rightarrow> py_error option" where
  "first_failure outcome works =
     (case filter (\<lambda>w. \<exists>e. outcome w = Inl e) works of
        [] \<Rightarrow> None
      | w # _ \<Rightarrow> (case outcome w of Inl e \<Rightarrow> Some e | Inr _ \<Rightarrow> None))"

lemma drain_logged:
  "drain_works (logged_wait outcome) works err log =
     (log @ works, case err of None \<Rightarrow> first_failure outcome works | Some e \<Rightarrow> Some e)"
proof (induction works arbitrary: err log)
  case (Cons w works)
  then show ?case
    by (cases "outcome w") (auto simp: logged_wait_def first_failure_def split: option.splits)
qed (simp add: first_failure_def split: option.split)

lemma make_pp_layers_real:
  assumes "make_pp_layers g n builder (Some (s, e)) = Inr (s', e', ms)" "0 \<le> l" "l < n"
  shows "(\<exists>m. ms ! nat l = Layer m) \<longleftrightarrow> s \<le> l \<and> l < e" and "py_len ms = n"
proof -
  let ?f = "\<lambda>idx. if s \<le> idx \<and> idx < e then rbind (builder idx) (\<lambda>m. Inr (Layer m)) else Inr PPMissingLayer"
  have m: "mapr ?f (py_range 0 n) = Inr ms"
    using assms(1) by (auto simp: make_pp_layers_def res_simps)
  have "?f (py_range 0 n ! nat l) = Inr (ms ! nat l)"
    using mapr_Inr_nth [OF m, of "nat l"] assms(2,3) by simp
  then show "(\<exists>m. ms ! nat l = Layer m) \<longleftrightarrow> s \<le> l \<and> l < e"
    using assms(2,3) by (auto simp: res_simps split: if_splits) metis
  show "py_len ms = n" using mapr_Inr_length [OF m] assms(2,3) by (simp add: py_len_def)
qed

subsection \<open>Correctness of the split\<close>

text \<open>
  C1: a partition the policy returns has one range per stage, the ranges are consecutive and cover
  exactly the layers 0 to \<open>num_layers\<close>; every layer is owned by exactly one stage, and
  \<open>pp_stage_of_layer\<close> returns that stage.
\<close>

theorem pp_layer_partition_owns:
  assumes "0 \<le> num_layers" and "pp_layer_partition num_layers pp_size final = Inr rs"
    and "0 \<le> l" and "l < num_layers"
  shows "chain 0 rs num_layers \<and> py_len rs = max 1 pp_size \<and>
         (\<exists>!i. 0 \<le> i \<and> i < max 1 pp_size \<and> (\<exists>r. py_nth rs i = Inr r \<and> in_range l r)) \<and>
         (\<forall>i. pp_stage_of_layer l rs = Inr i \<longleftrightarrow>
                0 \<le> i \<and> i < max 1 pp_size \<and> (\<exists>r. py_nth rs i = Inr r \<and> in_range l r))"
  using pp_split.owner_unique [of "(num_layers, pp_size, final)" rs l]
    pp_split.stage_of_layer_owner [of "(num_layers, pp_size, final)" rs l]
    pp_layer_partition_chain [OF assms(1,2)] assms by simp

theorem pp_layer_partition_owns_witness:
  "chain 0 [(0, 3), (3, 5), (5, 7)] 7 \<and>
   (\<exists>!i. 0 \<le> i \<and> i < max 1 3 \<and>
      (\<exists>r. py_nth [(0::int, 3::int), (3, 5), (5, 7)] i = Inr r \<and> in_range 4 r))"
proof -
  have "pp_layer_partition 7 3 None = Inr [(0, 3), (3, 5), (5, 7)]"
    by (simp add: pp_layer_partition_def py_range_Cons)
  from pp_layer_partition_owns [OF _ this, of 4] show ?thesis by simp
qed

text \<open>
  Without a reserved suffix the policy always succeeds and is balanced: the sizes of the stages
  add up to the layers, differ by at most one, and the earlier stages get the extra layers.
\<close>

lemma pp_layer_partition_balanced:
  assumes "0 \<le> num_layers" and "1 < pp_size"
  shows "\<exists>rs. pp_layer_partition num_layers pp_size None = Inr rs \<and> py_len rs = pp_size \<and>
           (\<forall>i<length rs. snd (rs ! i) - fst (rs ! i) =
              num_layers div pp_size + (if int i < num_layers mod pp_size then 1 else 0))"
proof -
  let ?rs = "partition_loop (num_layers div pp_size) (num_layers mod pp_size) 0 (py_range 0 pp_size)"
  have "pp_layer_partition num_layers pp_size None = Inr ?rs"
    using assms(2) by (simp add: pp_layer_partition_def)
  moreover have "snd (?rs ! i) - fst (?rs ! i) =
      num_layers div pp_size + (if int i < num_layers mod pp_size then 1 else 0)" if "i < length ?rs" for i
    using that assms even_split(1) [of num_layers pp_size]
      split_point_Suc [of "num_layers div pp_size" "num_layers mod pp_size" "int i"]
    by (simp add: add.commute)
  ultimately show ?thesis using assms(2) by (auto simp: py_len_def)
qed

lemma pp_layer_partition_balanced_witness:
  "\<exists>rs. pp_layer_partition 61 4 None = Inr rs \<and> py_len rs = 4 \<and>
        (\<forall>i<length rs. snd (rs ! i) - fst (rs ! i) = 15 + (if int i < 1 then 1 else 0))"
  using pp_layer_partition_balanced [of 61 4] by simp

text \<open>
  the layers that own a slot in the primary KV tensor are split over the stages without loss
  or reordering: each stage gets exactly the cached layers of its range and the stages' lists
  concatenate to \<open>cache_layer_indices\<close>.
\<close>

lemma partition_cache_layers:
  assumes "py_len (layer_types cfg) \<le> num_hidden_layers cfg"
    and "0 \<le> int_or (num_kv_shared_layers cfg) 0"
    and "pp_layer_partition (num_hidden_layers cfg) pp_size final = Inr rs"
  shows "\<exists>parts. partition_layer_indices (cache_layer_indices cfg h) rs = Inr parts \<and>
           length parts = length rs \<and> concat parts = cache_layer_indices cfg h \<and>
           (\<forall>i<length rs. set (parts ! i) = {l \<in> set (cache_layer_indices cfg h). in_range l (rs ! i)})"
proof -
  let ?c = "(num_hidden_layers cfg, pp_size, final)" and ?ls = "cache_layer_indices cfg h"
  have n: "0 \<le> num_hidden_layers cfg"
    using assms(1) order_trans [of 0 "py_len (layer_types cfg)"] by simp
  have b: "\<And>l. l \<in> set ?ls \<Longrightarrow> 0 \<le> l \<and> l < num_hidden_layers cfg"
    using cache_layer_indices_bound [OF assms(1,2)] by blast
  have "partition_layer_indices ?ls rs = Inr (by_range ?ls rs)" "concat (by_range ?ls rs) = ?ls"
    using pp_split.partition_layers [of ?c rs ?ls] n assms(3) b cache_layer_indices_sorted by auto
  then show ?thesis by (auto simp: by_range_def)
qed

lemma partition_cache_layers_witness:
  "\<exists>parts. partition_layer_indices [1, 3] [(0, 2), (2, 4)] = Inr parts \<and> concat parts = [1, 3]"
proof -
  let ?cfg = "\<lparr>num_hidden_layers = 4, architectures = [''Qwen3NextForCausalLM''],
    layer_types = [''linear_attention'', ''full_attention'', ''linear_attention'', ''full_attention''],
    num_kv_shared_layers = None\<rparr>"
  have "cache_layer_indices ?cfg False = [1, 3]"
    by (simp add: cache_layer_indices_def first_arch_def indices_where_alt Let_def upt_rec)
  moreover have "pp_layer_partition 4 2 None = Inr [(0, 2), (2, 4)]"
    by (simp add: pp_layer_partition_def py_range_Cons)
  ultimately show ?thesis
    using partition_cache_layers [of ?cfg 2 None "[(0, 2), (2, 4)]" False]
    by (auto simp: int_or_def)
qed

text \<open>
  on every stage of a partition a decoder layer is built as a real module exactly when the
  stage loads the layer's checkpoint weights, and exactly one stage does.
\<close>

lemma stage_builds_what_it_loads:
  assumes "0 \<le> n" "pp_layer_partition n pp_size final = Inr rs" "0 \<le> l" "l < n"
    and "search_layer weight = Some l"
  shows "(\<forall>i<length rs. \<forall>(c :: 'x dist_context) s' e' ms.
            make_pp_layers (Some c) n builder (Some (rs ! i)) = Inr (s', e', ms) \<longrightarrow>
            ((\<exists>m. ms ! nat l = Layer m) \<longleftrightarrow>
             pp_weight_belongs_to_stage (Some c) weight (fst (rs ! i)) (snd (rs ! i)) = Inr True)) \<and>
         (\<exists>!i. i < length rs \<and>
            (\<forall>c :: 'x dist_context. pp_weight_belongs_to_stage (Some c) weight (fst (rs ! i)) (snd (rs ! i)) = Inr True))"
proof -
  have loads: "pp_weight_belongs_to_stage (Some c) weight s e = Inr True \<longleftrightarrow> s \<le> l \<and> l < e"
    for c :: "'x dist_context" and s e
    using assms(5) by (simp add: pp_weight_belongs_to_stage_def get_dist_context_def)
  note ch = pp_layer_partition_chain(1) [OF assms(1,2)]
  have "\<exists>!i. i < length rs \<and> in_range l (rs ! i)"
    using chain_covers [OF ch assms(3,4)] chain_unique [OF ch] by blast
  moreover have "(\<exists>m. ms ! nat l = Layer m) \<longleftrightarrow> in_range l (rs ! i)"
    if "make_pp_layers (Some c) n builder (Some (rs ! i)) = Inr (s', e', ms)"
    for c :: "'x dist_context" and i s' e' ms
    using make_pp_layers_real(1) [of "Some c" n builder "fst (rs ! i)" "snd (rs ! i)"] that assms(3,4)
    by simp
  ultimately show ?thesis by (simp add: loads)
qed

lemma stage_builds_what_it_loads_witness:
  "\<exists>!i. i < length [(0::int, 2::int), (2, 4)] \<and>
     (\<forall>c::unit dist_context. pp_weight_belongs_to_stage (Some c) ''model.layers.3.mlp''
        (fst ([(0::int, 2::int), (2, 4)] ! i)) (snd ([(0::int, 2::int), (2, 4)] ! i)) = Inr True)"
proof -
  have p: "pp_layer_partition 4 2 None = Inr [(0, 2), (2, 4)]"
    by (simp add: pp_layer_partition_def py_range_Cons)
  have "search_layer ''model.layers.3.mlp'' = Some 3" by code_simp
  from stage_builds_what_it_loads [OF _ p _ _ this, where builder = Inr and 'x = unit] show ?thesis by simp
qed

text \<open>
  The mesh coordinates a freshly set context reads back from torch, together with its pipeline
  rank, are mapped by \<open>pp_global_rank\<close> to the context's own rank; its pipeline rank is a stage
  index, and the tensor-parallel group it uses has the configured size.
\<close>

lemma dist_context_coordinates:
  assumes "set_dist_context api rk ws adp asp atp fdp fep ftp pp True g = (g', r)"
    and "mesh_doc api rk ws"
    and "0 < adp" "0 < asp" "0 < atp" "0 < fdp" "0 < fep" "0 < ftp" "0 \<le> rk" "rk < ws"
    and "max 1 pp * adp * asp * atp = ws" "max 1 pp * fdp * fep * ftp = ws"
  shows "\<exists>c p d s t. r = Inr c \<and> g' = Some c \<and> pp_rank c = Inr p \<and> attn_dp_rank api c = Inr d \<and>
           attn_sp_rank api c = Inr s \<and> attn_tp_rank api c = Inr t \<and>
           pp_global_rank p d s t adp asp atp = Inr rk \<and> 0 \<le> p \<and> p < max 1 pp \<and>
           attn_tp_world_size api c = Inr atp"
proof -
  let ?c = "\<lparr>dc_rank = rk, dc_world_size = ws, attention_dp = adp, attention_tp = atp,
               attention_sp = asp, ffn_dp = fdp, ffn_ep = fep, ffn_tp = ftp, dc_pp = pp,
               initialize_meshes = True, cpu_world_mesh = None, cuda_world_mesh = None,
               attn_cpu_device_mesh = None, ffn_cpu_device_mesh = None,
               attn_device_mesh = None, ffn_device_mesh = None\<rparr> :: 'a dist_context"
  have wf: "dist_wf ?c" using assms by (simp add: dist_wf_def pp_world_size_def)
  then obtain c where c: "reset_context api ?c = (c, Inr ())"
    "attn_dp_rank api c = Inr (row_major_coord rk (attn_shape ?c) 1)"
    "attn_sp_rank api c = Inr (row_major_coord rk (attn_shape ?c) 2)"
    "attn_tp_rank api c = Inr (row_major_coord rk (attn_shape ?c) 3)"
    "attn_tp_world_size api c = Inr atp" "dc_rank c = rk" "dc_world_size c = ws" "dc_pp c = pp"
    using assms(2) reset_context_coordinates [of ?c api] by auto
  have same: "pp_rank c = pp_rank ?c"
    by (simp add: pp_rank_def pp_inner_world_size_def pp_world_size_def c)
  note stage = dist_wf_pp_rank [OF wf] and inner = dist_wf_inner [OF wf]
  have "set_dist_context api rk ws adp asp atp fdp fep ftp pp True g = (Some c, Inr c)"
    using assms(11,12) c(1)
    by (simp add: set_dist_context_def post_init_dist_context_def validate_parallelism_def)
  moreover have "pp_global_rank (rk div pp_inner_world_size ?c) (row_major_coord rk (attn_shape ?c) 1)
      (row_major_coord rk (attn_shape ?c) 2) (row_major_coord rk (attn_shape ?c) 3) adp asp atp = Inr rk"
    unfolding inner(1) using pp_global_rank_coords assms by simp
  ultimately show ?thesis
    using assms(1) c(2-5) stage same by (auto simp: pp_world_size_def)
qed

lemma dist_context_coordinates_witness:
  "\<exists>c p d s t. snd (set_dist_context (row_major_mesh 13) 13 16 2 1 4 1 8 1 2 True None) = Inr c \<and>
     pp_rank c = Inr p \<and> attn_dp_rank (row_major_mesh 13) c = Inr d \<and>
     attn_sp_rank (row_major_mesh 13) c = Inr s \<and> attn_tp_rank (row_major_mesh 13) c = Inr t \<and>
     pp_global_rank p d s t 2 1 4 = Inr 13"
  using dist_context_coordinates [of "row_major_mesh 13" 13 16 2 1 4 1 8 1 2 None
      "fst (set_dist_context (row_major_mesh 13) 13 16 2 1 4 1 8 1 2 True None)"
      "snd (set_dist_context (row_major_mesh 13) 13 16 2 1 4 1 8 1 2 True None)"]
  by (auto simp: row_major_mesh_doc)

text \<open>
  neighbours agree. On a well-formed context that is not the last stage, the rank that
  \<open>pp_send_hidden\<close> addresses is a rank of the world; the context of that rank sits on the next
  stage and receives from exactly this rank.
\<close>

lemma pp_neighbours_agree:
  assumes "dist_wf c" and "pp_rank c = Inr p" and "p + 1 < pp_world_size c"
    and "d = c\<lparr>dc_rank := pp_next_global_rank c\<rparr>"
  shows "dist_wf d \<and> pp_rank d = Inr (p + 1) \<and> pp_prev_global_rank d = dc_rank c \<and>
         is_first_pp_stage d = Inr False"
proof -
  note inner = dist_wf_inner [OF assms(1)] and nb = dist_wf_neighbours(1) [OF assms(1)]
  have p: "p = dc_rank c div pp_inner_world_size c" "0 \<le> p"
    using dist_wf_pp_rank [OF assms(1)] assms(2) by auto
  have same: "pp_inner_world_size d = pp_inner_world_size c" "pp_world_size d = pp_world_size c"
    by (simp_all add: assms(4) pp_inner_world_size_def pp_world_size_def)
  have "pp_next_global_rank c < dc_world_size c" using nb p assms(3) by simp
  then have wf: "dist_wf d"
    using assms(1) inner(2) unfolding dist_wf_def same
    by (simp add: assms(4) pp_next_global_rank_def)
  have "(dc_rank c + pp_inner_world_size c) div pp_inner_world_size c = p + 1"
    using inner(2) p(1) div_add_self2 [of "pp_inner_world_size c" "dc_rank c"] by simp
  then have r: "pp_rank d = Inr (p + 1)"
    using inner(2) by (simp add: pp_rank_def same) (simp add: assms(4) pp_next_global_rank_def)
  show ?thesis
    using wf r p(2) same by (auto simp: is_first_pp_stage_def pp_prev_global_rank_def)
      (simp add: assms(4) pp_next_global_rank_def)
qed

lemma pp_neighbours_agree_witness:
  "\<exists>c :: unit dist_context. pp_rank c = Inr 0 \<and>
     pp_prev_global_rank (c\<lparr>dc_rank := pp_next_global_rank c\<rparr>) = 3"
proof -
  let ?c = "\<lparr>dc_rank = 3, dc_world_size = 8, attention_dp = 1, attention_tp = 4, attention_sp = 1,
     ffn_dp = 1, ffn_ep = 4, ffn_tp = 1, dc_pp = 2, initialize_meshes = False,
     cpu_world_mesh = None, cuda_world_mesh = None, attn_cpu_device_mesh = None,
     ffn_cpu_device_mesh = None, attn_device_mesh = None, ffn_device_mesh = None\<rparr> :: unit dist_context"
  have "dist_wf ?c" "pp_rank ?c = Inr 0" "0 + 1 < pp_world_size ?c"
    by (simp_all add: dist_wf_def pp_rank_def pp_inner_world_size_def pp_world_size_def)
  from pp_neighbours_agree [OF this refl] this(2) show ?thesis by (intro exI [of _ ?c]) simp
qed

text \<open>
  \<open>PendingP2P.wait\<close> waits for every handle exactly once and in order whatever fails, raises the
  first failure, drops the handles and tensors, and every later call repeats the outcome without
  touching a handle.
\<close>

lemma p2p_wait_drains:
  "case p2p_wait (logged_wait outcome) (new_pending_p2p works tensors) log of
     (p, log', r) \<Rightarrow>
       log' = log @ works \<and> r = raise_if (first_failure outcome works) \<and>
       p2p_works p = [] \<and> p2p_tensors p = [] \<and>
       p2p_wait (logged_wait outcome) p log' = (p, log', r)"
  by (simp add: p2p_wait_def new_pending_p2p_def drain_logged)

text \<open>
  Gemma4's shared-KV tail stays with its sources. When the partition is built with the source
  start the configuration yields, every sharing layer lies on the last stage together with the last
  preceding non-sharing layer of its type, whose K/V it reads.
\<close>

lemma gemma4_sources_on_last_stage:
  assumes "get_gemma4_shared_kv_source_start cfg = Inr (Some f)"
    and "length (layer_types cfg) = nat n" "num_hidden_layers cfg = n"
    and "num_kv_shared_layers cfg = Some k" "0 < k" "k < n"
    and "pp_layer_partition n pp_size (Some f) = Inr rs"
    and "n - k \<le> j" "j < n"
  shows "\<exists>src. 0 \<le> src \<and> src < n - k \<and> layer_types cfg ! nat src = layer_types cfg ! nat j \<and>
           (\<forall>i. src < i \<longrightarrow> i < n - k \<longrightarrow> layer_types cfg ! nat i \<noteq> layer_types cfg ! nat j) \<and>
           in_range src (last rs) \<and> in_range j (last rs)"
proof -
  let ?ts = "layer_types cfg" and ?pre = "take (nat (n - k)) (layer_types cfg)"
  let ?cand = "\<lambda>t. indices_where (\<lambda>c. c = t) ?pre"
  let ?body = "\<lambda>t. if ?cand t = [] then Inl (ValueError ''no preceding source'') else Inr (last (?cand t))"
  let ?shared = "remdups (drop (nat (n - k)) ?ts)"
  have "int_or (num_kv_shared_layers cfg) 0 = k" using assms(4,5) by (simp add: int_or_def)
  then obtain srcs where srcs: "mapr ?body ?shared = Inr srcs" "srcs \<noteq> []" "f = Min (set srcs)"
    using assms by (auto simp: get_gemma4_shared_kv_source_start_def Let_def py_slice_from_def
        py_slice_to_def res_simps split: if_splits)
  have "?ts ! nat j \<in> set ?shared"
    using assms(2,6,8,9) nth_drop [of "nat (n - k)" ?ts "nat j - nat (n - k)"]
    by (auto simp: in_set_conv_nth intro!: exI [of _ "nat j - nat (n - k)"])
  then obtain m where m: "m < length ?shared" "?shared ! m = ?ts ! nat j"
    by (metis in_set_conv_nth)
  define src where "src = last (?cand (?ts ! nat j))"
  have body: "?body (?ts ! nat j) = Inr (srcs ! m)" using mapr_Inr_nth [OF srcs(1) m(1)] unfolding m(2) .
  then have ne: "?cand (?ts ! nat j) \<noteq> []" and eq: "srcs ! m = src"
    by (auto simp: src_def split: if_splits)
  have "srcs ! m \<in> set srcs" using m(1) mapr_Inr_length [OF srcs(1)] by simp
  then have f_le: "f \<le> src" using srcs(3) eq by simp
  have mem: "src \<in> set (?cand (?ts ! nat j))" using ne by (simp add: src_def)
  then have src: "0 \<le> src" "src < n - k" "?ts ! nat src = ?ts ! nat j"
    using assms by (auto simp: set_indices_where)
  have late: "i \<le> src" if "i \<in> set (?cand (?ts ! nat j))" for i
    using that sorted_le_last [OF sorted_indices_where] by (simp add: src_def)
  have "i \<in> set (?cand (?ts ! nat j))" if "src < i" "i < n - k" "?ts ! nat i = ?ts ! nat j" for i
    using that src(1) assms by (auto simp: set_indices_where intro!: exI [of _ "nat i"])
  then have none: "?ts ! nat i \<noteq> ?ts ! nat j" if "src < i" "i < n - k" for i
    using late [of i] that by auto
  have "last rs = (0, n) \<or> last rs = (f, n)"
    using assms(7) by (auto simp: pp_layer_partition_def Let_def split: if_splits)
  then have "in_range src (last rs)" "in_range j (last rs)"
    using f_le src assms(6,8,9) by auto
  then show ?thesis using src none by blast
qed

lemma gemma4_sources_on_last_stage_witness:
  "\<exists>src. 0 \<le> src \<and> src < 4 \<and> in_range src (last [(0::int, 1::int), (1, 2), (2, 6)]) \<and>
         in_range 5 (last [(0::int, 1::int), (1, 2), (2, 6)])"
proof -
  let ?cfg = "\<lparr>num_hidden_layers = 6, architectures = [''Gemma4ForCausalLM''],
    layer_types = [''s'', ''f'', ''f'', ''s'', ''s'', ''f''], num_kv_shared_layers = Some 2\<rparr>"
  have "get_gemma4_shared_kv_source_start ?cfg = Inr (Some 2)" by code_simp
  moreover have "pp_layer_partition 6 3 (Some 2) = Inr [(0, 1), (1, 2), (2, 6)]"
    by (simp add: pp_layer_partition_def py_range_Cons)
  ultimately show ?thesis
    using gemma4_sources_on_last_stage [of ?cfg 2 6 2 3 "[(0, 1), (1, 2), (2, 6)]" 5] by auto
qed

end
