(* ===== verification/Tensor.thy ===== *)
theory Tensor
  imports Prelude
begin

section \<open>Strided tensors and registered memory\<close>

text \<open>
  What the cache code uses of torch tensors: element type, shape, element strides and storage
  offset. Allocation itself is torch's (or the peer agent's) and is a parameter of the allocating
  definitions; \<open>contiguous_tensor\<close> is the tensor \<open>torch.empty\<close> and \<open>torch.zeros\<close> document to return.
  The theory also holds the memory-region span of a strided view
  (\<open>_tensor_storage_span_num_bytes\<close> of \<open>runtime/disagg/p2p/cache_transfer.py\<close>).
\<close>

datatype dtype = BFloat16 | Float32 | Float8_e4m3fn | UInt8 | Int32 | Int64

fun itemsize :: "dtype \<Rightarrow> int" where
  "itemsize BFloat16 = 2"
| "itemsize Float32 = 4"
| "itemsize Float8_e4m3fn = 1"
| "itemsize UInt8 = 1"
| "itemsize Int32 = 4"
| "itemsize Int64 = 8"

record tensor =
  t_dtype :: dtype
  t_shape :: "int list"
  t_strides :: "int list"
  t_offset :: int
  t_device :: string

fun row_major_strides :: "int list \<Rightarrow> int list" where
  "row_major_strides [] = []"
| "row_major_strides (n # ns) = prod_list ns # row_major_strides ns"

definition contiguous_tensor :: "dtype \<Rightarrow> int list \<Rightarrow> string \<Rightarrow> tensor" where
  "contiguous_tensor dt shape device =
     \<lparr>t_dtype = dt, t_shape = shape, t_strides = row_major_strides shape, t_offset = 0,
      t_device = device\<rparr>"

definition numel :: "tensor \<Rightarrow> int" where
  "numel t = prod_list (t_shape t)"

definition stride :: "tensor \<Rightarrow> nat \<Rightarrow> int" where
  "stride t i = t_strides t ! i"

definition element_size :: "tensor \<Rightarrow> int" where
  "element_size t = itemsize (t_dtype t)"

text \<open>\<open>t[:, ..., :k, ...]\<close>: keep the first \<open>k\<close> entries of dimension \<open>d\<close>; strides are unchanged.\<close>

definition narrow_to :: "tensor \<Rightarrow> nat \<Rightarrow> int \<Rightarrow> tensor" where
  "narrow_to t d k = t\<lparr>t_shape := (t_shape t)[d := min k (t_shape t ! d)]\<rparr>"

fun max_element_offset :: "int \<Rightarrow> (int \<times> int) list \<Rightarrow> int" where
  "max_element_offset acc [] = acc"
| "max_element_offset acc ((n, s) # rest) =
     max_element_offset (if n > 0 then acc + (n - 1) * s else acc) rest"

definition tensor_storage_span_num_bytes :: "tensor \<Rightarrow> int" where
  "tensor_storage_span_num_bytes t =
     (if numel t = 0 then 0
      else (max_element_offset (t_offset t) (zip (t_shape t) (t_strides t)) - t_offset t + 1)
           * element_size t)"

lemma itemsize_pos [simp]: "0 < itemsize d" "1 \<le> itemsize d" "0 \<le> itemsize d"
  by (cases d; simp)+

lemma length_row_major_strides [simp]: "length (row_major_strides ns) = length ns"
  by (induction ns) simp_all

lemma contiguous_tensor_simps [simp]:
  "t_dtype (contiguous_tensor dt sh dev) = dt"
  "t_shape (contiguous_tensor dt sh dev) = sh"
  "t_strides (contiguous_tensor dt sh dev) = row_major_strides sh"
  "t_offset (contiguous_tensor dt sh dev) = 0"
  "t_device (contiguous_tensor dt sh dev) = dev"
  by (simp_all add: contiguous_tensor_def)

lemma max_element_offset_row_major:
  "list_all (\<lambda>n. 0 < n) ns \<Longrightarrow>
     max_element_offset acc (zip ns (row_major_strides ns)) = acc + prod_list ns - 1"
  by (induction ns arbitrary: acc) (simp_all add: algebra_simps)

text \<open>A contiguous tensor's span is its byte size.\<close>

lemma span_contiguous:
  assumes "list_all (\<lambda>n. 0 < n) sh"
  shows "tensor_storage_span_num_bytes (contiguous_tensor dt sh dev) = prod_list sh * itemsize dt"
proof -
  have "prod_list sh \<noteq> 0" using assms by (induction sh) auto
  then show ?thesis
    using assms by (simp add: tensor_storage_span_num_bytes_def numel_def element_size_def
        max_element_offset_row_major)
qed

text \<open>
  The span of any view reaches the end of the element with the largest index in every dimension,
  so it covers every addressable element.
\<close>

definition element_offset :: "tensor \<Rightarrow> int list \<Rightarrow> int" where
  "element_offset t idx = sum_list (map2 (*) idx (t_strides t))"

lemma max_element_offset_bound:
  assumes "list_all2 (\<lambda>i n. 0 \<le> i \<and> i < n) idx sizes" "length strs = length sizes"
    and "list_all (\<lambda>s. 0 \<le> s) strs"
  shows "acc + sum_list (map2 (*) idx strs) \<le> max_element_offset acc (zip sizes strs)"
  using assms
proof (induction idx sizes arbitrary: acc strs rule: list_all2_induct)
  case (Cons i idx n sizes)
  obtain s strs' where strs: "strs = s # strs'" using Cons by (cases strs) auto
  have le: "i * s \<le> (n - 1) * s"
    using Cons strs by (intro mult_right_mono) auto
  have "(acc + (n - 1) * s) + sum_list (map2 (*) idx strs')
          \<le> max_element_offset (acc + (n - 1) * s) (zip sizes strs')"
    using Cons strs by auto
  then show ?case using le Cons(1) unfolding strs by simp
qed simp

lemma span_covers_elements:
  assumes "list_all2 (\<lambda>i n. 0 \<le> i \<and> i < n) idx (t_shape t)"
    and "length (t_strides t) = length (t_shape t)" "list_all (\<lambda>s. 0 \<le> s) (t_strides t)"
  shows "(element_offset t idx + 1) * element_size t \<le> tensor_storage_span_num_bytes t"
proof -
  have "numel t \<noteq> 0"
    using assms(1) unfolding numel_def
    by (induction rule: list_all2_induct) auto
  then show ?thesis
    using max_element_offset_bound [OF assms, of "t_offset t"]
    by (simp add: tensor_storage_span_num_bytes_def element_offset_def element_size_def
        mult_right_mono)
qed

end
