(* ===== verification/Cache_Context.thy ===== *)
theory Cache_Context
  imports Tensor Complex_Main
begin

section \<open>The cache context (\<open>runtime/context/cache\<close>)\<close>

text \<open>
  \<open>CacheContext\<close> owns the sizes and the tensors of a worker's caches. The record below joins its
  fields with those of the per-backend singletons (GQA, MLA, HCA, CSA, GDN, indexer) that its
  properties forward to: a process has one of each. The three primary backends are the constructors
  of \<open>cache_kind\<close>. Memory amounts the source computes in floating point are real numbers
  here, \<open>int(x)\<close> is truncation. Allocation is the parameter \<open>alloc_env\<close>: what torch and the peer
  agent return, or their exception. The theorems: block counts fit the budgets, the byte estimates
  equal what allocation takes, the host allocation restores the device state even when it fails, and
  the mixed-precision MLA format selection never yields a configuration the kernels reject.
\<close>

datatype cache_kind = GQA | MLA | DSV4

record indexer_cache_t =
  ix_num_layers :: int
  ix_num_pages :: int
  ix_page_size :: int
  ix_head_dim :: int
  ix_bytes_per_token :: int
  ix_buffer :: tensor

record cache_context =
  cc_num_kv_heads :: int
  cc_head_dim :: int
  cc_block_size :: int
  cc_num_hidden_layers :: int
  cc_attention_tp :: int
  cc_gpu_memory_utilization :: real
  cc_gpu_memory_limit_gb :: "real option"
  cc_host_utilization_per_device :: "real option"
  cc_reserved_state_bytes :: int
  cc_device :: string
  cc_dtype :: dtype
  cc_mode :: string
  cc_num_local_kvcache_blocks :: int
  cc_num_host_kvcache_blocks :: int
  cc_host_kv_cache :: "tensor option"
  cc_peer_fabric :: bool
  cc_kv_lora_rank :: int
  cc_qk_rope_head_dim :: int
  cc_is_fp8_kvcache :: bool
  cc_raw_fp8_mla_layout :: bool
  cc_index_head_dim :: int
  cc_ctrl_address :: "string option"
  cc_enable_hisparse :: bool
  cc_max_num_seqs :: int
  cc_hisparse_device_buffer_size :: int
  cc_mtp_num_drafts :: int
  cc_mtp_handoff :: "tensor option"
  cc_fp8_head_dim :: int
  cc_kv_cache :: "tensor option"
  cc_gdn_conv_states :: "tensor option"
  cc_gdn_recurrent_states :: "tensor option"
  cc_gdn_num_slots :: int
  cc_gdn_max_active_slots :: int
  cc_indexer_cache :: "indexer_cache_t option"
  cc_compress_ratios :: "int list"
  cc_compressed_flat :: "int \<rightharpoonup> tensor"
  cc_layers_per_ratio :: "int \<rightharpoonup> int list"
  cc_layer_to_ratio_idx :: "int \<rightharpoonup> int"
  cc_pool_config :: "int \<rightharpoonup> int \<times> int \<times> int"
  cc_dummy_page :: "int \<rightharpoonup> int"
  cc_compressor_kv :: "int \<rightharpoonup> tensor"
  cc_compressor_score :: "int \<rightharpoonup> tensor"
  cc_compressor_counts :: "int \<rightharpoonup> tensor"

text \<open>
  \<open>torch_empty dtype shape device\<close> and \<open>peer_allocate name dtype shape zero\<close> return a tensor or an
  exception (out of memory). \<open>alloc_doc\<close> is what both document: a contiguous tensor as requested.
\<close>

record alloc_env =
  torch_empty :: "dtype \<Rightarrow> int list \<Rightarrow> string \<Rightarrow> tensor res"
  peer_allocate :: "string \<Rightarrow> dtype \<Rightarrow> int list \<Rightarrow> bool \<Rightarrow> tensor res"

definition alloc_doc :: "alloc_env \<Rightarrow> bool" where
  "alloc_doc env \<longleftrightarrow>
     (\<forall>dt sh dev t. torch_empty env dt sh dev = Inr t \<longrightarrow> t = contiguous_tensor dt sh dev) \<and>
     (\<forall>n dt sh z t. peer_allocate env n dt sh z = Inr t \<longrightarrow> (\<exists>dev. t = contiguous_tensor dt sh dev))"

definition allocate_device_tensor ::
  "alloc_env \<Rightarrow> cache_context \<Rightarrow> string \<Rightarrow> int list \<Rightarrow> dtype \<Rightarrow> bool \<Rightarrow> tensor res" where
  "allocate_device_tensor env c name shape dt zero =
     (if cc_peer_fabric c \<and> prefix ''cuda'' (cc_device c)
      then peer_allocate env name dt shape zero
      else torch_empty env dt shape (cc_device c))"

text \<open>A small GQA context with the class's defaults, used by the examples below.\<close>

definition sample_cache_context :: cache_context where
  "sample_cache_context = \<lparr>cc_num_kv_heads = 8, cc_head_dim = 128,
     cc_block_size = 64, cc_num_hidden_layers = 4,
     cc_attention_tp = 1, cc_gpu_memory_utilization = 1,
     cc_gpu_memory_limit_gb = None, cc_host_utilization_per_device = None,
     cc_reserved_state_bytes = 0, cc_device = ''cuda'',
     cc_dtype = BFloat16, cc_mode = ''gqa'',
     cc_num_local_kvcache_blocks = - 1, cc_num_host_kvcache_blocks = 0,
     cc_host_kv_cache = None, cc_peer_fabric = False,
     cc_kv_lora_rank = 0, cc_qk_rope_head_dim = 0,
     cc_is_fp8_kvcache = False, cc_raw_fp8_mla_layout = False,
     cc_index_head_dim = 0, cc_ctrl_address = None,
     cc_enable_hisparse = False, cc_max_num_seqs = 0,
     cc_hisparse_device_buffer_size = 0, cc_mtp_num_drafts = 0,
     cc_mtp_handoff = None, cc_fp8_head_dim = 0,
     cc_kv_cache = None, cc_gdn_conv_states = None,
     cc_gdn_recurrent_states = None, cc_gdn_num_slots = 0,
     cc_gdn_max_active_slots = 0, cc_indexer_cache = None,
     cc_compress_ratios = [], cc_compressed_flat = Map.empty,
     cc_layers_per_ratio = Map.empty, cc_layer_to_ratio_idx = Map.empty,
     cc_pool_config = Map.empty, cc_dummy_page = Map.empty,
     cc_compressor_kv = Map.empty, cc_compressor_score = Map.empty,
     cc_compressor_counts = Map.empty\<rparr>"

definition num_local_kv_heads :: "cache_context \<Rightarrow> int" where
  "num_local_kv_heads c =
     (if cc_mode c = ''mla'' then 1 else cc_num_kv_heads c div cc_attention_tp c)"

subsection \<open>GQA (\<open>gqa.py\<close>)\<close>

definition configure_gqa_cache :: "cache_context \<Rightarrow> cache_context res" where
  "configure_gqa_cache c =
     rbind (check (cc_attention_tp c \<le> cc_num_kv_heads c) AssertionError)
       (\<lambda>_. Inr (c\<lparr>cc_fp8_head_dim := 0\<rparr>))"

definition get_gqa_block_bytes :: "cache_context \<Rightarrow> int" where
  "get_gqa_block_bytes c =
     2 * cc_num_hidden_layers c * cc_block_size c * num_local_kv_heads c * cc_head_dim c
     * itemsize (cc_dtype c)"

definition allocate_gqa_kvcache :: "alloc_env \<Rightarrow> cache_context \<Rightarrow> cache_context res" where
  "allocate_gqa_kvcache env c =
     rbind (allocate_device_tensor env c ''kv_cache''
       [2, cc_num_hidden_layers c, cc_num_local_kvcache_blocks c, cc_block_size c,
        num_local_kv_heads c, cc_head_dim c] (cc_dtype c) False)
     (\<lambda>t. Inr (c\<lparr>cc_kv_cache := Some t\<rparr>))"

subsection \<open>MLA (\<open>mla.py\<close>)\<close>

definition FP8_QUANT_TILE_SIZE :: int where "FP8_QUANT_TILE_SIZE = 128"

definition configure_mla_cache :: "cache_context \<Rightarrow> cache_context res" where
  "configure_mla_cache c =
     rbind (check (cc_block_size c = 64) AssertionError)
       (\<lambda>_. Inr (c\<lparr>cc_num_kv_heads := 1,
                  cc_head_dim := cc_kv_lora_rank c + cc_qk_rope_head_dim c\<rparr>))"

text \<open>The size query also stores the packed row width on the context.\<close>

definition get_mla_block_bytes :: "cache_context \<Rightarrow> cache_context \<times> int" where
  "get_mla_block_bytes c =
     (if cc_is_fp8_kvcache c then
        if cc_raw_fp8_mla_layout c then
          (c\<lparr>cc_fp8_head_dim := cc_head_dim c\<rparr>,
           cc_num_hidden_layers c * cc_block_size c * num_local_kv_heads c * cc_head_dim c)
        else
          (let nope_bytes = cc_kv_lora_rank c;
               scale_bytes = (cc_kv_lora_rank c div FP8_QUANT_TILE_SIZE) * 4;
               rope_bytes = cc_qk_rope_head_dim c * 2;
               w = nope_bytes + scale_bytes + rope_bytes
           in (c\<lparr>cc_fp8_head_dim := w\<rparr>,
               cc_num_hidden_layers c * (cc_block_size c + 1) * 1 * w * 1))
      else
        (c\<lparr>cc_fp8_head_dim := 0\<rparr>,
         cc_num_hidden_layers c * cc_block_size c * num_local_kv_heads c * cc_head_dim c
         * itemsize (cc_dtype c)))"

definition allocate_mla_kvcache :: "alloc_env \<Rightarrow> cache_context \<Rightarrow> cache_context res" where
  "allocate_mla_kvcache env c =
     (if cc_is_fp8_kvcache c then
        if cc_raw_fp8_mla_layout c then
          rbind (allocate_device_tensor env c ''kv_cache''
            [1, cc_num_hidden_layers c, cc_num_local_kvcache_blocks c, cc_block_size c, 1,
             cc_head_dim c] Float8_e4m3fn False)
          (\<lambda>t. Inr (c\<lparr>cc_kv_cache := Some t\<rparr>))
        else
          rbind (allocate_device_tensor env c ''kv_cache''
            [1, cc_num_hidden_layers c, cc_num_local_kvcache_blocks c, cc_block_size c + 1, 1,
             cc_fp8_head_dim c] Float8_e4m3fn False)
          (\<lambda>padded. Inr (c\<lparr>cc_kv_cache := Some (narrow_to padded 3 (cc_block_size c))\<rparr>))
      else
        rbind (allocate_device_tensor env c ''kv_cache''
          [1, cc_num_hidden_layers c, cc_num_local_kvcache_blocks c, cc_block_size c,
           num_local_kv_heads c, cc_head_dim c] (cc_dtype c) False)
        (\<lambda>t. Inr (c\<lparr>cc_kv_cache := Some t\<rparr>)))"

text \<open>
  The fields of the engine configuration, model configuration and cache plan that the format
  selection reads; a \<open>getattr\<close> default is the value of an absent field.
\<close>

record mla_format_request =
  mf_kv_cache_dtype :: string
  mf_disable_nsa :: bool
  mf_enable_mla_reference_fallback :: bool
  mf_index_head_dim :: int
  mf_kv_lora_rank :: int
  mf_qk_rope_head_dim :: int
  mf_has_mla :: bool
  mf_has_indexer :: bool
  mf_has_hisparse :: bool

definition mla_sparse :: "mla_format_request \<Rightarrow> bool" where
  "mla_sparse q \<longleftrightarrow> mf_has_indexer q \<and> 0 < mf_index_head_dim q \<and> \<not> mf_disable_nsa q"

definition resolve_mla_cache_format ::
  "mla_format_request \<Rightarrow> string \<Rightarrow> bool \<Rightarrow> (bool \<times> bool) res" where
  "resolve_mla_cache_format q hardware_backend force_reference =
     (let requested = mf_kv_cache_dtype q; sparse = mla_sparse q;
          fp8 = (requested = ''fp8_e4m3'' \<or> requested = ''auto'' \<and> sparse);
          rank = mf_kv_lora_rank q; rope = mf_qk_rope_head_dim q;
          reference_decode = (force_reference \<or>
            mf_enable_mla_reference_fallback q \<and> rank + rope \<notin> {512, 576});
          fp8' = (fp8 \<and> \<not> reference_decode)
      in rbind (check (requested \<in> {''auto'', ''bfloat16'', ''fp8_e4m3''})
             (ValueError ''Unsupported kv_cache_dtype'')) (\<lambda>_.
         rbind (check (requested = ''auto'' \<or> mf_has_mla q)
             (ValueError ''Explicit kv_cache_dtype'')) (\<lambda>_.
         rbind (check (\<not> (requested = ''bfloat16'' \<and> sparse))
             (ValueError ''bfloat16 requires disable_nsa'')) (\<lambda>_.
         rbind (check (\<not> (reference_decode \<and> requested = ''fp8_e4m3''))
             (ValueError ''incompatible with MLA reference decode'')) (\<lambda>_.
         rbind (check (requested = ''fp8_e4m3'' \<longrightarrow> (rank, rope) = (512, 64))
             (ValueError ''Explicit FP8 MLA cache requires'')) (\<lambda>_.
         rbind (check (requested = ''fp8_e4m3'' \<longrightarrow>
               hardware_backend = ''blackwell'' \<or> hardware_backend = ''hopper'' \<and> sparse)
             (ValueError ''dense Hopper FP8 decode is not supported'')) (\<lambda>_.
         rbind (check (\<not> (mf_has_hisparse q \<and> mf_has_mla q \<and> \<not> fp8'))
             (ValueError ''HiSparse requires FP8 MLA KV cache'')) (\<lambda>_.
         Inr (fp8', fp8' \<and> hardware_backend = ''blackwell'')))))))))"

subsection \<open>DSv4 HCA (\<open>hca.py\<close>)\<close>

definition DSV4_BYTES_PER_TOKEN :: int where "DSV4_BYTES_PER_TOKEN = 584"

definition configure_dsv4_cache :: "cache_context \<Rightarrow> cache_context res" where
  "configure_dsv4_cache c =
     rbind (check (cc_attention_tp c = 1) AssertionError) (\<lambda>_.
     rbind (check (cc_block_size c mod 64 = 0) AssertionError) (\<lambda>_.
     Inr (c\<lparr>cc_num_kv_heads := 1, cc_head_dim := 512, cc_fp8_head_dim := 0\<rparr>)))"

definition get_dsv4_block_bytes :: "cache_context \<Rightarrow> int" where
  "get_dsv4_block_bytes c = cc_num_hidden_layers c * cc_block_size c * DSV4_BYTES_PER_TOKEN"

definition allocate_dsv4_kvcache :: "alloc_env \<Rightarrow> cache_context \<Rightarrow> cache_context res" where
  "allocate_dsv4_kvcache env c =
     rbind (allocate_device_tensor env c ''kv_cache''
       [cc_num_hidden_layers c, cc_num_local_kvcache_blocks c + 1, cc_block_size c, 1,
        DSV4_BYTES_PER_TOKEN] UInt8 True)
     (\<lambda>t. Inr (c\<lparr>cc_kv_cache := Some t\<rparr>))"

subsection \<open>DSv4 CSA pools (\<open>csa.py\<close>)\<close>

definition DSV4_COMPRESSED_PAGE_SIZE :: int where "DSV4_COMPRESSED_PAGE_SIZE = 2"

definition unique_ratios :: "int list \<Rightarrow> int list" where
  "unique_ratios compress_ratios = sort (remdups (filter (\<lambda>r. 0 < r) compress_ratios))"

definition max_blocks_per_seq :: "int \<Rightarrow> int \<Rightarrow> int" where
  "max_blocks_per_seq max_model_len ratio =
     (let max_compressed = (max_model_len div ratio + 63) div 64 * 64
      in (max_compressed + DSV4_COMPRESSED_PAGE_SIZE - 1) div DSV4_COMPRESSED_PAGE_SIZE)"

definition pool_pages ::
  "int \<Rightarrow> int \<Rightarrow> (int \<rightharpoonup> int) \<Rightarrow> int \<Rightarrow> int" where
  "pool_pages max_num_seqs max_model_len pool_pages_per_ratio ratio =
     (let worst_case_pages = max_num_seqs * max_blocks_per_seq max_model_len ratio;
          override = dict_get pool_pages_per_ratio ratio 0
      in if override > 0 then override else worst_case_pages)"

definition layers_for_ratio :: "int list \<Rightarrow> int \<Rightarrow> int list" where
  "layers_for_ratio compress_ratios ratio =
     map fst (filter (\<lambda>(i, r). r = ratio) (py_enumerate compress_ratios))"

definition allocate_ratio ::
  "alloc_env \<Rightarrow> int list \<Rightarrow> int \<Rightarrow> int \<Rightarrow> (int \<rightharpoonup> int) \<Rightarrow> int \<Rightarrow> cache_context \<Rightarrow> cache_context res" where
  "allocate_ratio env compress_ratios max_num_seqs max_model_len pages ratio c =
     (let num_pages = pool_pages max_num_seqs max_model_len pages ratio;
          layers = layers_for_ratio compress_ratios ratio
      in rbind (torch_empty env UInt8
            [py_len layers, num_pages + 1, DSV4_COMPRESSED_PAGE_SIZE, 1, DSV4_BYTES_PER_TOKEN]
            (cc_device c)) (\<lambda>flat.
         Inr (c\<lparr>cc_pool_config := (cc_pool_config c)
                  (ratio \<mapsto> (num_pages, DSV4_COMPRESSED_PAGE_SIZE, max_blocks_per_seq max_model_len ratio)),
                cc_dummy_page := (cc_dummy_page c)(ratio \<mapsto> num_pages),
                cc_layers_per_ratio := (cc_layers_per_ratio c)(ratio \<mapsto> layers),
                cc_compressed_flat := (cc_compressed_flat c)(ratio \<mapsto> flat),
                cc_layer_to_ratio_idx := (cc_layer_to_ratio_idx c) ++
                  map_of (map (\<lambda>(j, l). (l, j)) (py_enumerate layers))\<rparr>)))"

definition allocate_dsv4_compressed_caches ::
  "alloc_env \<Rightarrow> int list \<Rightarrow> int \<Rightarrow> int \<Rightarrow> (int \<rightharpoonup> int) \<Rightarrow> cache_context \<Rightarrow> cache_context res" where
  "allocate_dsv4_compressed_caches env compress_ratios max_num_seqs max_model_len pages c =
     fold_res (allocate_ratio env compress_ratios max_num_seqs max_model_len pages)
       (unique_ratios compress_ratios)
       (c\<lparr>cc_compress_ratios := compress_ratios, cc_compressed_flat := Map.empty,
          cc_layers_per_ratio := Map.empty, cc_layer_to_ratio_idx := Map.empty,
          cc_pool_config := Map.empty, cc_dummy_page := Map.empty\<rparr>)"

definition compressor_coeff :: "int \<Rightarrow> int" where
  "compressor_coeff ratio = (if ratio = 4 then 2 else 1)"

definition allocate_compressor_ratio ::
  "alloc_env \<Rightarrow> int \<Rightarrow> int \<Rightarrow> int \<Rightarrow> cache_context \<Rightarrow> cache_context res" where
  "allocate_compressor_ratio env head_dim max_num_seqs ratio c =
     (case cc_layers_per_ratio c ratio of
        None \<Rightarrow> Inr c
      | Some layers \<Rightarrow>
          (let n = py_len layers; k = compressor_coeff ratio;
               state_shape = [n, max_num_seqs + 1, k * ratio, k * head_dim]
           in rbind (torch_empty env Float32 state_shape (cc_device c)) (\<lambda>kv.
              rbind (torch_empty env Float32 state_shape (cc_device c)) (\<lambda>score.
              rbind (torch_empty env Int32 [n, max_num_seqs + 1] (cc_device c)) (\<lambda>counts.
              Inr (c\<lparr>cc_compressor_kv := (cc_compressor_kv c)(ratio \<mapsto> kv),
                     cc_compressor_score := (cc_compressor_score c)(ratio \<mapsto> score),
                     cc_compressor_counts := (cc_compressor_counts c)(ratio \<mapsto> counts)\<rparr>))))))"

text \<open>The loop runs over the keys of \<open>dsv4_layers_per_ratio\<close>, in the order they were inserted.\<close>

definition allocate_dsv4_compressor_state ::
  "alloc_env \<Rightarrow> int \<Rightarrow> int \<Rightarrow> cache_context \<Rightarrow> cache_context res" where
  "allocate_dsv4_compressor_state env head_dim max_num_seqs c =
     fold_res (allocate_compressor_ratio env head_dim max_num_seqs)
       (unique_ratios (cc_compress_ratios c))
       (c\<lparr>cc_compressor_kv := Map.empty, cc_compressor_score := Map.empty,
          cc_compressor_counts := Map.empty\<rparr>)"

subsection \<open>GDN state (\<open>gdn.py\<close>)\<close>

record gdn_config =
  linear_num_key_heads :: int
  linear_num_value_heads :: int
  linear_key_head_dim :: int
  linear_value_head_dim :: int
  linear_conv_kernel_dim :: int

text \<open>\<open>get_cuda_compute_capability()\<close> is a parameter: \<open>None\<close> or the major version first.\<close>

definition recurrent_state_dtype :: "(int \<times> int) option \<Rightarrow> dtype" where
  "recurrent_state_dtype capability =
     (case capability of Some (major, _) \<Rightarrow> if 10 \<le> major then BFloat16 else Float32
      | None \<Rightarrow> Float32)"

definition clear_gdn_context :: "cache_context \<Rightarrow> cache_context" where
  "clear_gdn_context c =
     c\<lparr>cc_gdn_conv_states := None, cc_gdn_recurrent_states := None, cc_gdn_num_slots := 0,
       cc_gdn_max_active_slots := 0\<rparr>"

definition reset_gdn_context :: "cache_context \<Rightarrow> cache_context" where
  "reset_gdn_context c = c"

definition initialize_gdn_cache_state :: "cache_context \<Rightarrow> cache_context" where
  "initialize_gdn_cache_state c = c\<lparr>cc_gdn_num_slots := 0\<rparr>"

definition gdn_conv_dim :: "gdn_config \<Rightarrow> int \<Rightarrow> int" where
  "gdn_conv_dim h tp =
     (let key_dim = linear_num_key_heads h div tp * linear_key_head_dim h;
          value_dim = linear_num_value_heads h div tp * linear_value_head_dim h
      in key_dim * 2 + value_dim)"

definition estimate_gdn_state_bytes ::
  "(int \<times> int) option \<Rightarrow> gdn_config \<Rightarrow> 'l list \<Rightarrow> int \<Rightarrow> bool \<Rightarrow> int \<Rightarrow> int \<Rightarrow> int res" where
  "estimate_gdn_state_bytes cap h layer_types max_bs need_backup cache_slots tp =
     (if layer_types = [] then Inr 0
      else if tp = 0 then Inl ZeroDivisionError
      else (let num_layers = py_len layer_types;
                num_v_heads = linear_num_value_heads h div tp
            in if num_v_heads = 0 then Inr 0
               else (let active_capacity = max_bs + max 0 cache_slots;
                         num_slots = (if need_backup then active_capacity * 2 + 1
                                      else active_capacity + 1);
                         conv_bytes = num_layers * num_slots * gdn_conv_dim h tp
                                      * linear_conv_kernel_dim h * 2;
                         state_size = itemsize (recurrent_state_dtype cap);
                         recurrent_bytes = num_layers * num_slots * num_v_heads
                           * linear_value_head_dim h * linear_key_head_dim h * state_size
                     in Inr (conv_bytes + recurrent_bytes))))"

definition allocate_gdn_states ::
  "alloc_env \<Rightarrow> (int \<times> int) option \<Rightarrow> gdn_config \<Rightarrow> 'l list \<Rightarrow> int \<Rightarrow> bool \<Rightarrow> int \<Rightarrow> int option
   \<Rightarrow> cache_context \<Rightarrow> cache_context res" where
  "allocate_gdn_states env cap h layer_types max_bs0 need_backup cache_slots attention_tp c =
     (let max_bs = max_bs0 + max 0 cache_slots;
          num_layers = py_len layer_types;
          tp = (case attention_tp of None \<Rightarrow> cc_attention_tp c | Some t \<Rightarrow> t)
      in if tp = 0 then Inl ZeroDivisionError
         else (let num_v_heads = linear_num_value_heads h div tp
               in if num_v_heads = 0 then Inr c
                  else (let num_slots = (if need_backup then max_bs * 2 + 1 else max_bs + 1);
                            c' = c\<lparr>cc_gdn_num_slots := num_slots, cc_gdn_max_active_slots := max_bs\<rparr>
                        in rbind (torch_empty env BFloat16
                              [num_layers, num_slots, gdn_conv_dim h tp, linear_conv_kernel_dim h]
                              (cc_device c)) (\<lambda>conv.
                           rbind (torch_empty env (recurrent_state_dtype cap)
                              [num_layers, num_slots, num_v_heads, linear_value_head_dim h,
                               linear_key_head_dim h] (cc_device c)) (\<lambda>rec.
                           Inr (c'\<lparr>cc_gdn_conv_states := Some conv,
                                   cc_gdn_recurrent_states := Some rec\<rparr>))))))"

subsection \<open>NSA indexer (\<open>indexer.py\<close>)\<close>

definition INDEXER_QUANT_BLOCK_SIZE :: int where "INDEXER_QUANT_BLOCK_SIZE = 128"

definition indexer_bytes_per_token :: "int \<Rightarrow> int" where
  "indexer_bytes_per_token head_dim = head_dim + head_dim div INDEXER_QUANT_BLOCK_SIZE * 4"

definition get_indexer_block_bytes :: "cache_context \<Rightarrow> int" where
  "get_indexer_block_bytes c =
     (if cc_index_head_dim c \<le> 0 then 0
      else cc_num_hidden_layers c * cc_block_size c * indexer_bytes_per_token (cc_index_head_dim c))"

definition new_indexer_cache :: "int \<Rightarrow> int \<Rightarrow> int \<Rightarrow> int \<Rightarrow> tensor \<Rightarrow> indexer_cache_t res" where
  "new_indexer_cache num_layers num_pages page_size head_dim buffer =
     (let bpt = indexer_bytes_per_token head_dim
      in rbind (check (t_shape buffer = [num_layers, num_pages, page_size * bpt] \<and>
                       t_dtype buffer = UInt8) (ValueError ''IndexerCache buffer must be uint8''))
         (\<lambda>_. Inr \<lparr>ix_num_layers = num_layers, ix_num_pages = num_pages, ix_page_size = page_size,
                  ix_head_dim = head_dim, ix_bytes_per_token = bpt, ix_buffer = buffer\<rparr>))"

definition allocate_indexer_cache :: "alloc_env \<Rightarrow> int \<Rightarrow> cache_context \<Rightarrow> cache_context res" where
  "allocate_indexer_cache env index_head_dim c =
     (if index_head_dim = 0 then Inr c
      else rbind (allocate_device_tensor env c ''indexer_cache''
             [cc_num_hidden_layers c, cc_num_local_kvcache_blocks c,
              cc_block_size c * indexer_bytes_per_token index_head_dim] UInt8 True) (\<lambda>buffer.
           rbind (new_indexer_cache (cc_num_hidden_layers c) (cc_num_local_kvcache_blocks c)
                    (cc_block_size c) index_head_dim buffer) (\<lambda>ix.
           Inr (c\<lparr>cc_indexer_cache := Some ix\<rparr>))))"

subsection \<open>Backend dispatch (\<open>_backend.py\<close>, \<open>_allocator.py\<close>)\<close>

definition resolve_cache_backend :: "string \<Rightarrow> cache_kind res" where
  "resolve_cache_backend kind =
     (if kind = ''gqa'' then Inr GQA
      else if kind = ''mla'' then Inr MLA
      else if kind = ''dsv4'' then Inr DSV4
      else Inl (ValueError ''Unknown cache mode''))"

definition backend_configure :: "cache_kind \<Rightarrow> cache_context \<Rightarrow> cache_context res" where
  "backend_configure k c =
     (case k of GQA \<Rightarrow> configure_gqa_cache c | MLA \<Rightarrow> configure_mla_cache c
      | DSV4 \<Rightarrow> configure_dsv4_cache c)"

definition backend_get_block_bytes :: "cache_kind \<Rightarrow> cache_context \<Rightarrow> cache_context \<times> int" where
  "backend_get_block_bytes k c =
     (case k of GQA \<Rightarrow> (c, get_gqa_block_bytes c) | MLA \<Rightarrow> get_mla_block_bytes c
      | DSV4 \<Rightarrow> (c, get_dsv4_block_bytes c))"

definition backend_allocate :: "alloc_env \<Rightarrow> cache_kind \<Rightarrow> cache_context \<Rightarrow> cache_context res" where
  "backend_allocate env k c =
     (case k of GQA \<Rightarrow> allocate_gqa_kvcache env c | MLA \<Rightarrow> allocate_mla_kvcache env c
      | DSV4 \<Rightarrow> allocate_dsv4_kvcache env c)"

definition allocate_kvcache :: "alloc_env \<Rightarrow> int \<Rightarrow> cache_context \<Rightarrow> cache_context res" where
  "allocate_kvcache env num_kvcache_blocks c =
     (let c' = c\<lparr>cc_num_local_kvcache_blocks := num_kvcache_blocks\<rparr>
      in rbind (resolve_cache_backend (cc_mode c')) (\<lambda>k. backend_allocate env k c'))"

text \<open>
  The host cache is allocated by the device code with the block count and the device swapped; the
  \<open>finally\<close> clause restores three fields whatever happens, so the object is returned on both paths.
\<close>

definition allocate_host_kvcache ::
  "alloc_env \<Rightarrow> int \<Rightarrow> cache_context \<Rightarrow> cache_context \<times> unit res" where
  "allocate_host_kvcache env num_host_kvcache_blocks c0 =
     (let c = c0\<lparr>cc_num_host_kvcache_blocks := max 0 num_host_kvcache_blocks\<rparr> in
      if cc_num_host_kvcache_blocks c \<le> 0 then (c\<lparr>cc_host_kv_cache := None\<rparr>, Inr ())
      else (case resolve_cache_backend (cc_mode c) of
              Inl e \<Rightarrow> (c, Inl e)
            | Inr k \<Rightarrow>
                (let swapped = c\<lparr>cc_num_local_kvcache_blocks := cc_num_host_kvcache_blocks c,
                                 cc_device := ''cpu''\<rparr>;
                     restore = (\<lambda>d. d\<lparr>cc_kv_cache := cc_kv_cache c,
                                 cc_num_local_kvcache_blocks := cc_num_local_kvcache_blocks c,
                                 cc_device := cc_device c\<rparr>)
                 in case backend_allocate env k swapped of
                      Inl e \<Rightarrow> (restore swapped, Inl e)
                    | Inr d \<Rightarrow> (restore (d\<lparr>cc_host_kv_cache := cc_kv_cache d\<rparr>), Inr ()))))"

subsection \<open>Capacity planning (\<open>__init__.py\<close>)\<close>

record hisparse_capacity =
  hc_block_size :: int
  hc_gpu_cache_budget_bytes :: int
  hc_host_cache_budget_bytes :: int
  hc_kv_block_bytes :: int
  hc_indexer_block_bytes :: int
  hc_hot_blocks :: int
  hc_hot_tier_bytes :: int
  hc_indexer_budget_bytes :: int
  hc_indexer_blocks :: int
  hc_host_blocks :: int
  hc_logical_blocks :: int

definition hot_tokens :: "hisparse_capacity \<Rightarrow> int" where
  "hot_tokens p = hc_hot_blocks p * hc_block_size p"

definition indexer_tokens :: "hisparse_capacity \<Rightarrow> int" where
  "indexer_tokens p = hc_indexer_blocks p * hc_block_size p"

definition host_tokens :: "hisparse_capacity \<Rightarrow> int" where
  "host_tokens p = hc_host_blocks p * hc_block_size p"

definition logical_tokens :: "hisparse_capacity \<Rightarrow> int" where
  "logical_tokens p = hc_logical_blocks p * hc_block_size p"

definition buffer_hbm_shortfall_bytes :: "hisparse_capacity \<Rightarrow> int" where
  "buffer_hbm_shortfall_bytes p = max 0 (hc_hot_tier_bytes p - hc_gpu_cache_budget_bytes p)"

definition allocated_indexer_bytes :: "hisparse_capacity \<Rightarrow> int" where
  "allocated_indexer_bytes p = hc_logical_blocks p * hc_indexer_block_bytes p"

definition unused_indexer_budget_bytes :: "hisparse_capacity \<Rightarrow> int" where
  "unused_indexer_budget_bytes p = hc_indexer_budget_bytes p - allocated_indexer_bytes p"

definition allocated_host_bytes :: "hisparse_capacity \<Rightarrow> int" where
  "allocated_host_bytes p = hc_logical_blocks p * hc_kv_block_bytes p"

definition unused_host_budget_bytes :: "hisparse_capacity \<Rightarrow> int" where
  "unused_host_budget_bytes p = hc_host_cache_budget_bytes p - allocated_host_bytes p"

definition limiting_tier :: "hisparse_capacity \<Rightarrow> string" where
  "limiting_tier p =
     (if hc_indexer_blocks p < hc_host_blocks p then ''gpu_indexer''
      else if hc_host_blocks p < hc_indexer_blocks p then ''host_mla''
      else ''both'')"

definition plan_mla_hisparse_capacity ::
  "int \<Rightarrow> int \<Rightarrow> int \<Rightarrow> int \<Rightarrow> int \<Rightarrow> int \<Rightarrow> int \<Rightarrow> hisparse_capacity res" where
  "plan_mla_hisparse_capacity gpu_cache_budget host_cache_budget max_num_seqs device_buffer_size
     block_size kv_block_bytes indexer_block_bytes =
     rbind (check (0 < min block_size (min kv_block_bytes indexer_block_bytes))
       (ValueError ''HiSparse cache block sizes must be positive'')) (\<lambda>_.
     rbind (check (0 < max_num_seqs \<and> 0 < device_buffer_size)
       (ValueError ''HiSparse sequence count and device buffer must be positive'')) (\<lambda>_.
     let hot_blocks_per_seq = (device_buffer_size + block_size + block_size - 1) div block_size;
         hot_blocks = max_num_seqs * hot_blocks_per_seq;
         hot_tier_bytes = hot_blocks * kv_block_bytes;
         indexer_budget_bytes = max 0 (gpu_cache_budget - hot_tier_bytes);
         indexer_blocks = indexer_budget_bytes div indexer_block_bytes;
         host_blocks = max 0 host_cache_budget div kv_block_bytes
     in Inr \<lparr>hc_block_size = block_size,
             hc_gpu_cache_budget_bytes = max 0 gpu_cache_budget,
             hc_host_cache_budget_bytes = max 0 host_cache_budget,
             hc_kv_block_bytes = kv_block_bytes,
             hc_indexer_block_bytes = indexer_block_bytes,
             hc_hot_blocks = hot_blocks,
             hc_hot_tier_bytes = hot_tier_bytes,
             hc_indexer_budget_bytes = indexer_budget_bytes,
             hc_indexer_blocks = indexer_blocks,
             hc_host_blocks = host_blocks,
             hc_logical_blocks = min indexer_blocks host_blocks\<rparr>))"

text \<open>\<open>int(x)\<close> of a float truncates towards zero.\<close>

definition py_int :: "real \<Rightarrow> int" where
  "py_int x = (if 0 \<le> x then \<lfloor>x\<rfloor> else \<lceil>x\<rceil>)"

definition gib :: real where "gib = 1024 ^ 3"

definition compute_host_kvcache_blocks :: "cache_context \<Rightarrow> int \<Rightarrow> int \<times> int" where
  "compute_host_kvcache_blocks c block_bytes =
     (let budget_gib = max 0 (case cc_host_utilization_per_device c of None \<Rightarrow> 0 | Some u \<Rightarrow> u)
      in if budget_gib \<le> 0 \<or> block_bytes \<le> 0 then (0, 0)
         else (let budget_bytes = py_int (budget_gib * gib)
               in (max 0 (budget_bytes div block_bytes), budget_bytes)))"

text \<open>What \<open>torch.cuda\<close> reports about the device.\<close>

record mem_info =
  mem_free :: int
  mem_total :: int
  mem_peak :: int
  mem_current :: int

definition gpu_cache_budget :: "mem_info \<Rightarrow> cache_context \<Rightarrow> int" where
  "gpu_cache_budget m c =
     (let total = (case cc_gpu_memory_limit_gb c of
                     None \<Rightarrow> real_of_int (mem_total m)
                   | Some l \<Rightarrow> min (real_of_int (mem_total m)) (l * gib));
          used = mem_total m - mem_free m
      in py_int (total * cc_gpu_memory_utilization c - real_of_int used - real_of_int (mem_peak m)
                 + real_of_int (mem_current m) - real_of_int (cc_reserved_state_bytes c)))"

definition size_cache_blocks :: "mem_info \<Rightarrow> int \<Rightarrow> cache_context \<Rightarrow> cache_context res" where
  "size_cache_blocks m kv_block_bytes c =
     (let indexer_block_bytes = get_indexer_block_bytes c;
          budget = gpu_cache_budget m c;
          is_mla_hisparse = (cc_enable_hisparse c \<and> cc_mode c = ''mla'' \<and> 0 < indexer_block_bytes
                             \<and> cc_ctrl_address c \<notin> {None, Some []});
          block_bytes = kv_block_bytes + indexer_block_bytes
      in if is_mla_hisparse then
           rbind (plan_mla_hisparse_capacity budget
               (py_int (max 0 (case cc_host_utilization_per_device c of None \<Rightarrow> 0 | Some u \<Rightarrow> u) * gib))
               (cc_max_num_seqs c) (cc_hisparse_device_buffer_size c) (cc_block_size c)
               kv_block_bytes indexer_block_bytes)
           (\<lambda>capacity. Inr (c\<lparr>cc_num_local_kvcache_blocks := hc_logical_blocks capacity,
                             cc_num_host_kvcache_blocks := hc_logical_blocks capacity\<rparr>))
         else if block_bytes = 0 then Inl ZeroDivisionError
         else Inr (c\<lparr>cc_num_local_kvcache_blocks := budget div block_bytes,
                     cc_num_host_kvcache_blocks := fst (compute_host_kvcache_blocks c block_bytes)\<rparr>))"

definition post_init_cache_context :: "mem_info \<Rightarrow> cache_context \<Rightarrow> cache_context res" where
  "post_init_cache_context m c0 =
     rbind (resolve_cache_backend (cc_mode c0)) (\<lambda>k.
     rbind (backend_configure k c0) (\<lambda>c1.
     rbind (size_cache_blocks m (snd (backend_get_block_bytes k c1)) (fst (backend_get_block_bytes k c1))) (\<lambda>c.
     rbind (check (0 < cc_num_local_kvcache_blocks c) AssertionError) (\<lambda>_.
     Inr (initialize_gdn_cache_state c)))))"

definition allocate_mtp_handoff :: "alloc_env \<Rightarrow> int \<Rightarrow> cache_context \<Rightarrow> cache_context res" where
  "allocate_mtp_handoff env num_drafts c =
     rbind (check (0 < num_drafts) (ValueError ''num_drafts must be positive'')) (\<lambda>_.
     rbind (check (0 < cc_max_num_seqs c) (ValueError ''max_num_seqs must be positive'')) (\<lambda>_.
     rbind (torch_empty env Int64 [cc_max_num_seqs c, num_drafts + 1] (cc_device c)) (\<lambda>t.
     Inr (c\<lparr>cc_mtp_num_drafts := num_drafts, cc_mtp_handoff := Some t\<rparr>))))"

subsection \<open>Allocation delivers the planned bytes\<close>

definition tensor_bytes :: "tensor \<Rightarrow> int" where
  "tensor_bytes t = numel t * element_size t"

lemma torch_empty_doc:
  "alloc_doc env \<Longrightarrow> torch_empty env dt sh dev = Inr t \<Longrightarrow> t = contiguous_tensor dt sh dev"
  by (simp add: alloc_doc_def)

lemma allocate_device_tensor_doc:
  "alloc_doc env \<Longrightarrow> allocate_device_tensor env c name sh dt z = Inr t \<Longrightarrow>
     \<exists>dev. t = contiguous_tensor dt sh dev"
  unfolding allocate_device_tensor_def alloc_doc_def by (metis (no_types))

text \<open>An allocator that never runs out of memory has the documented behaviour.\<close>

definition plain_alloc :: alloc_env where
  "plain_alloc = \<lparr>torch_empty = (\<lambda>dt sh dev. Inr (contiguous_tensor dt sh dev)),
     peer_allocate = (\<lambda>n dt sh z. Inr (contiguous_tensor dt sh ''cuda''))\<rparr>"

lemma plain_alloc_doc: "alloc_doc plain_alloc"
  by (auto simp: alloc_doc_def plain_alloc_def)

definition full_alloc :: alloc_env where
  "full_alloc = \<lparr>torch_empty = (\<lambda>dt sh dev. Inl (ExternalError ''out of memory'')),
     peer_allocate = (\<lambda>n dt sh z. Inl (ExternalError ''out of memory''))\<rparr>"

text \<open>
  The bytes reserved for linear-attention state before the KV cache is sized are exactly the
  bytes the two state tensors take when they are allocated, with or without MTP backup slots.
\<close>

lemma gdn_estimate_exact:
  assumes "alloc_doc env" and "layer_types \<noteq> []" and "0 < tp"
    and "allocate_gdn_states env cap h layer_types max_bs need_backup cache_slots (Some tp) c = Inr c'"
    and "linear_num_value_heads h div tp \<noteq> 0"
  shows "\<exists>conv rec. cc_gdn_conv_states c' = Some conv \<and> cc_gdn_recurrent_states c' = Some rec \<and>
           estimate_gdn_state_bytes cap h layer_types max_bs need_backup cache_slots tp =
             Inr (tensor_bytes conv + tensor_bytes rec) \<and>
           cc_gdn_num_slots c' = (if need_backup then 2 else 1) * cc_gdn_max_active_slots c' + 1"
proof -
  from assms(3-5) obtain conv rec where
    t: "torch_empty env BFloat16 [py_len layer_types, cc_gdn_num_slots c', gdn_conv_dim h tp,
          linear_conv_kernel_dim h] (cc_device c) = Inr conv"
       "torch_empty env (recurrent_state_dtype cap) [py_len layer_types, cc_gdn_num_slots c',
          linear_num_value_heads h div tp, linear_value_head_dim h, linear_key_head_dim h]
          (cc_device c) = Inr rec"
    and c': "cc_gdn_conv_states c' = Some conv" "cc_gdn_recurrent_states c' = Some rec"
      "cc_gdn_max_active_slots c' = max_bs + max 0 cache_slots"
      "cc_gdn_num_slots c' = (if need_backup then (max_bs + max 0 cache_slots) * 2 + 1
                              else max_bs + max 0 cache_slots + 1)"
    by (auto simp: allocate_gdn_states_def Let_def res_simps)
  note conv = torch_empty_doc [OF assms(1) t(1)] and rec = torch_empty_doc [OF assms(1) t(2)]
  show ?thesis
    using assms(2,3,5) c'
    by (simp add: conv rec estimate_gdn_state_bytes_def tensor_bytes_def numel_def element_size_def
        Let_def algebra_simps)
qed

lemma gdn_estimate_exact_witness:
  "\<exists>(c' :: cache_context) conv rec. cc_gdn_conv_states c' = Some conv \<and> cc_gdn_recurrent_states c' = Some rec \<and>
     estimate_gdn_state_bytes None
       \<lparr>linear_num_key_heads = 16, linear_num_value_heads = 32, linear_key_head_dim = 128,
        linear_value_head_dim = 128, linear_conv_kernel_dim = 4\<rparr> [(), ()] 8 True 0 2 =
       Inr (tensor_bytes conv + tensor_bytes rec)"
proof -
  let ?h = "\<lparr>linear_num_key_heads = 16, linear_num_value_heads = 32, linear_key_head_dim = 128,
        linear_value_head_dim = 128, linear_conv_kernel_dim = 4\<rparr> :: gdn_config"
  obtain c' where "allocate_gdn_states plain_alloc None ?h [(), ()] 8 True 0 (Some 2)
      sample_cache_context = Inr c'"
    by (simp add: allocate_gdn_states_def plain_alloc_def Let_def)
  from gdn_estimate_exact [OF plain_alloc_doc _ _ this] obtain conv rec where
    "cc_gdn_conv_states c' = Some conv" "cc_gdn_recurrent_states c' = Some rec"
    "estimate_gdn_state_bytes None ?h [(), ()] 8 True 0 2 = Inr (tensor_bytes conv + tensor_bytes rec)"
    by auto
  then show ?thesis by blast
qed

text \<open>
  C33: a MLA HiSparse plan fits both tiers and is the largest that does. Every sequence gets the least number of hot
  blocks that hold the device buffer and one more block, and the hot tier is charged with their bytes. The number of logical
  blocks is the greatest one whose indexer pages fit into the GPU budget beside the hot tier (no block is planned when the hot
  tier alone fills it) and whose cold blocks fit into the host budget; so one more logical block would overrun the GPU budget
  or the host budget.
\<close>

theorem hisparse_plan_fits:
  assumes "plan_mla_hisparse_capacity gpu host seqs buf bs kvb ixb = Inr p"
  shows "(\<exists>k. hc_hot_blocks p = seqs * k \<and> buf + bs \<le> k * bs \<and> (k - 1) * bs < buf + bs) \<and>
         hot_tokens p = hc_hot_blocks p * bs \<and> hc_hot_tier_bytes p = hc_hot_blocks p * kvb \<and>
         allocated_indexer_bytes p = hc_logical_blocks p * ixb \<and> allocated_host_bytes p = hc_logical_blocks p * kvb \<and>
         0 \<le> unused_indexer_budget_bytes p \<and> 0 \<le> hc_logical_blocks p \<and>
         (\<forall>n\<ge>0. n \<le> hc_logical_blocks p \<longleftrightarrow>
            (n = 0 \<or> hc_hot_tier_bytes p + n * ixb \<le> gpu) \<and> n * kvb \<le> max 0 host)"
proof -
  have pos: "0 < bs" "0 < kvb" "0 < ixb" "0 < seqs" "0 < buf"
    using assms by (auto simp: plan_mla_hisparse_capacity_def res_simps)
  let ?n = "hc_logical_blocks p" and ?ib = "hc_indexer_budget_bytes p" and ?k = "(buf + bs + bs - 1) div bs"
  have p: "hc_block_size p = bs" "hc_kv_block_bytes p = kvb" "hc_indexer_block_bytes p = ixb"
    "hc_hot_blocks p = seqs * ?k"
    "hc_hot_tier_bytes p = hc_hot_blocks p * kvb" "?ib = max 0 (gpu - hc_hot_tier_bytes p)"
    "?n = min (?ib div ixb) (max 0 host div kvb)"
    using assms by (auto simp: plan_mla_hisparse_capacity_def res_simps Let_def)
  have "(?k - 1) * bs = ?k * bs - bs" by (simp add: left_diff_distrib)
  then have k: "buf + bs \<le> ?k * bs" "(?k - 1) * bs < buf + bs"
    using pos(1) pos_mod_bound [OF pos(1), of "buf + bs + bs - 1"] pos_mod_sign [OF pos(1), of "buf + bs + bs - 1"]
      div_mult_mod_eq [of "buf + bs + bs - 1" bs] by linarith+
  have le: "n \<le> ?n \<longleftrightarrow> n * ixb \<le> ?ib \<and> n * kvb \<le> max 0 host" for n
    using zdiv_less_iff [OF pos(3), of ?ib n] zdiv_less_iff [OF pos(2), of "max 0 host" n] unfolding p(7) by linarith
  have hot: "n * ixb \<le> ?ib \<longleftrightarrow> n = 0 \<or> hc_hot_tier_bytes p + n * ixb \<le> gpu" if "0 \<le> n" for n
  proof (cases "n = 0")
    case False
    then have "0 < n * ixb" using that pos(3) by simp
    then show ?thesis using False unfolding p(6) by linarith
  qed (simp add: p(6))
  have n: "0 \<le> ?n" "?n * ixb \<le> ?ib" using le [of 0] le [of ?n] by (simp_all add: p(6))
  have bytes: "allocated_indexer_bytes p = ?n * ixb" "allocated_host_bytes p = ?n * kvb" "hot_tokens p = hc_hot_blocks p * bs"
    by (simp_all only: allocated_indexer_bytes_def allocated_host_bytes_def hot_tokens_def p(1-3))
  show ?thesis
    unfolding bytes unused_indexer_budget_bytes_def using p(4,5) k n le hot by (auto intro!: exI [of _ ?k])
qed

theorem hisparse_plan_fits_witness:
  "\<exists>p. plan_mla_hisparse_capacity 1000000 800000 4 128 64 5000 640 = Inr p \<and>
       hc_hot_tier_bytes p = 60000 \<and> 160 \<le> hc_logical_blocks p \<and> \<not> 161 \<le> hc_logical_blocks p"
proof -
  obtain p where p: "plan_mla_hisparse_capacity 1000000 800000 4 128 64 5000 640 = Inr p"
    "hc_hot_blocks p = 12"
    by (simp add: plan_mla_hisparse_capacity_def Let_def)
  from hisparse_plan_fits [OF p(1)] p(2) have "hc_hot_tier_bytes p = 60000"
    "\<forall>n\<ge>0. n \<le> hc_logical_blocks p \<longleftrightarrow> (n = 0 \<or> hc_hot_tier_bytes p + n * 640 \<le> 1000000) \<and> n * 5000 \<le> max 0 800000"
    by simp_all
  with p(1) show ?thesis by simp
qed

text \<open>
  allocating the host cache never disturbs the device cache. Whether torch succeeds or raises,
  the device tensor, the device block count and the device name are what they were; on success the
  host tensor has the requested number of blocks.
\<close>

lemma host_allocation_restores:
  assumes "allocate_host_kvcache env n c = (c', r)"
  shows "cc_kv_cache c' = cc_kv_cache c \<and> cc_device c' = cc_device c \<and>
         cc_num_local_kvcache_blocks c' = cc_num_local_kvcache_blocks c \<and>
         cc_num_host_kvcache_blocks c' = max 0 n \<and>
         (alloc_doc env \<and> r = Inr () \<and> 0 < n \<and> cc_mode c \<noteq> ''dsv4'' \<longrightarrow>
            (\<exists>t. cc_host_kv_cache c' = Some t \<and> t_shape t ! 2 = n))"
proof (cases "n \<le> 0 \<or> resolve_cache_backend (cc_mode c) = Inl (ValueError ''Unknown cache mode'')")
  case True
  then show ?thesis
    using assms by (auto simp: allocate_host_kvcache_def Let_def split: if_splits)
next
  case False
  let ?s = "c\<lparr>cc_num_host_kvcache_blocks := max 0 n, cc_num_local_kvcache_blocks := max 0 n, cc_device := ''cpu''\<rparr>"
  from False obtain k where k: "resolve_cache_backend (cc_mode c) = Inr k"
    by (auto simp: resolve_cache_backend_def split: if_splits)
  have kept: "cc_num_host_kvcache_blocks d = max 0 n \<and>
      (k \<noteq> DSV4 \<longrightarrow> alloc_doc env \<longrightarrow> (\<exists>t. cc_kv_cache d = Some t \<and> t_shape t ! 2 = max 0 n))"
    if "backend_allocate env k ?s = Inr d" for d
    using that
    by (cases k) (auto simp: backend_allocate_def allocate_gqa_kvcache_def allocate_mla_kvcache_def
        allocate_dsv4_kvcache_def res_simps narrow_to_def split: if_splits
        dest!: allocate_device_tensor_doc)
  have dsv4: "k = DSV4 \<longleftrightarrow> cc_mode c = ''dsv4''"
    using k by (auto simp: resolve_cache_backend_def split: if_splits)
  show ?thesis
  proof (cases "backend_allocate env k ?s")
    case (Inl e)
    then show ?thesis using assms k False by (auto simp: allocate_host_kvcache_def Let_def)
  next
    case (Inr d)
    then have "cc_kv_cache c' = cc_kv_cache c" "cc_device c' = cc_device c"
      "cc_num_local_kvcache_blocks c' = cc_num_local_kvcache_blocks c"
      "cc_num_host_kvcache_blocks c' = cc_num_host_kvcache_blocks d"
      "cc_host_kv_cache c' = cc_kv_cache d"
      using assms k False by (auto simp: allocate_host_kvcache_def Let_def)
    then show ?thesis using kept [OF Inr] dsv4 by auto
  qed
qed

lemma host_allocation_restores_witness:
  "cc_device (fst (allocate_host_kvcache full_alloc 5 sample_cache_context)) = ''cuda''"
  using host_allocation_restores [of full_alloc 5 sample_cache_context]
  by (cases "allocate_host_kvcache full_alloc 5 sample_cache_context")
     (simp add: sample_cache_context_def)

lemma allocate_ratio_keys:
  assumes "fold_res (allocate_ratio env rs seqs len pages) qs c = Inr c'" "ratio \<notin> set qs"
  shows "cc_layers_per_ratio c' ratio = cc_layers_per_ratio c ratio"
    and "cc_compressed_flat c' ratio = cc_compressed_flat c ratio"
    and "cc_dummy_page c' ratio = cc_dummy_page c ratio"
  using assms
  by (induction qs arbitrary: c) (auto simp: allocate_ratio_def Let_def res_simps)

lemma layers_for_ratio_nth:
  "l \<in> set (layers_for_ratio rs ratio) \<longleftrightarrow> (\<exists>i<length rs. l = int i \<and> rs ! i = ratio)"
  by (force simp: layers_for_ratio_def set_py_enumerate)

lemma distinct_layers_for_ratio: "distinct (layers_for_ratio rs ratio)"
proof -
  have "distinct (map fst (py_enumerate rs))" by (simp add: distinct_map)
  then show ?thesis unfolding layers_for_ratio_def by (rule distinct_map_filter)
qed

lemma enumerate_index_of:
  assumes "distinct ls" "j < length ls"
  shows "map_of (map (\<lambda>(j, l). (l, j)) (py_enumerate ls)) (ls ! j) = Some (int j)"
proof (rule map_of_is_SomeI)
  show "distinct (map fst (map (\<lambda>(j, l). (l, j)) (py_enumerate ls)))"
    using assms(1) by (simp add: comp_def case_prod_beta)
  show "(ls ! j, int j) \<in> set (map (\<lambda>(j, l). (l, j)) (py_enumerate ls))"
    using assms(2) by (force simp: set_py_enumerate)
qed

lemma enumerate_index_dom:
  "dom (map_of (map (\<lambda>(j, l). (l, j)) (py_enumerate ls))) = set ls"
  by (force simp: dom_map_of_conv_image_fst set_py_enumerate in_set_conv_nth)

lemma allocate_ratio_other_layers:
  assumes "fold_res (allocate_ratio env rs seqs len pages) qs c = Inr c'"
    and "\<forall>q\<in>set qs. l \<notin> set (layers_for_ratio rs q)"
  shows "cc_layer_to_ratio_idx c' l = cc_layer_to_ratio_idx c l"
  using assms
proof (induction qs arbitrary: c)
  case (Cons q qs)
  have "map_of (map (\<lambda>(j, l). (l, j)) (py_enumerate (layers_for_ratio rs q))) l = None"
    using Cons.prems(2) enumerate_index_dom [of "layers_for_ratio rs q"] by (auto simp: domIff)
  then show ?case
    using Cons by (auto simp: allocate_ratio_def Let_def res_simps map_add_def)
qed simp

definition ratio_pool_ok :: "int list \<Rightarrow> cache_context \<Rightarrow> int \<Rightarrow> bool" where
  "ratio_pool_ok rs c ratio \<longleftrightarrow>
     (case (cc_layers_per_ratio c ratio, cc_compressed_flat c ratio, cc_dummy_page c ratio) of
        (Some ls, Some t, Some d) \<Rightarrow>
          ls = layers_for_ratio rs ratio \<and> t_shape t ! 0 = py_len ls \<and> d = t_shape t ! 1 - 1 \<and>
          list_all (\<lambda>j. cc_layer_to_ratio_idx c (ls ! j) = Some (int j)) [0..<length ls]
      | _ \<Rightarrow> False)"

lemma allocate_ratio_establishes:
  assumes "alloc_doc env" "allocate_ratio env rs seqs len pages q c = Inr c'"
  shows "ratio_pool_ok rs c' q"
proof -
  obtain flat where flat: "torch_empty env UInt8 [py_len (layers_for_ratio rs q),
      pool_pages seqs len pages q + 1, DSV4_COMPRESSED_PAGE_SIZE, 1, DSV4_BYTES_PER_TOKEN]
      (cc_device c) = Inr flat"
    using assms(2) by (auto simp: allocate_ratio_def Let_def res_simps)
  show ?thesis
    using assms(2) flat torch_empty_doc [OF assms(1) flat] distinct_layers_for_ratio [of rs q]
    by (auto simp: allocate_ratio_def Let_def ratio_pool_ok_def list_all_iff map_add_def
        enumerate_index_of)
qed

lemma allocate_ratios_establish:
  assumes "alloc_doc env" "fold_res (allocate_ratio env rs seqs len pages) qs c = Inr c'"
    and "distinct qs" "q \<in> set qs"
  shows "ratio_pool_ok rs c' q"
  using assms(2-4)
proof (induction qs arbitrary: c)
  case (Cons r qs)
  then obtain d where d: "allocate_ratio env rs seqs len pages r c = Inr d"
    "fold_res (allocate_ratio env rs seqs len pages) qs d = Inr c'"
    by (auto simp: res_simps)
  show ?case
  proof (cases "q = r")
    case True
    have other: "l \<notin> set (layers_for_ratio rs p)" if "l \<in> set (layers_for_ratio rs q)" "p \<in> set qs" for l p
      using that True Cons.prems(2) by (auto simp: layers_for_ratio_nth)
    have "cc_layer_to_ratio_idx c' l = cc_layer_to_ratio_idx d l" if "l \<in> set (layers_for_ratio rs q)" for l
      using allocate_ratio_other_layers [OF d(2)] other [OF that] by blast
    moreover have "q \<notin> set qs" using True Cons.prems(2) by simp
    ultimately show ?thesis
      using allocate_ratio_establishes [OF assms(1) d(1)] True allocate_ratio_keys [OF d(2), of q]
      by (auto simp: ratio_pool_ok_def list_all_iff split: option.splits)
  qed (use Cons d in auto)
qed simp

text \<open>
  The DSv4 compressed pools are indexed consistently. After allocation every layer with a
  positive ratio has exactly one row in its ratio's pool tensor (the index and the layer list are
  inverse to each other), rows are within the tensor, and the spare page is the last one of the pool.
\<close>

lemma compressed_pools_consistent:
  assumes "alloc_doc env"
    and "allocate_dsv4_compressed_caches env rs seqs len pages c = Inr c'"
    and "i < length rs" "0 < rs ! i"
  shows "\<exists>ls t d j. cc_layers_per_ratio c' (rs ! i) = Some ls \<and> j < length ls \<and> ls ! j = int i \<and>
           cc_layer_to_ratio_idx c' (int i) = Some (int j) \<and>
           cc_compressed_flat c' (rs ! i) = Some t \<and> int j < t_shape t ! 0 \<and>
           cc_dummy_page c' (rs ! i) = Some d \<and> d = t_shape t ! 1 - 1"
proof -
  have "rs ! i \<in> set (unique_ratios rs)" "distinct (unique_ratios rs)"
    using assms(3,4) by (auto simp: unique_ratios_def)
  then have ok: "ratio_pool_ok rs c' (rs ! i)"
    using allocate_ratios_establish [OF assms(1)] assms(2)
    unfolding allocate_dsv4_compressed_caches_def by blast
  have "int i \<in> set (layers_for_ratio rs (rs ! i))"
    using assms(3) by (auto simp: layers_for_ratio_nth)
  then obtain j where "j < length (layers_for_ratio rs (rs ! i))" "layers_for_ratio rs (rs ! i) ! j = int i"
    by (metis in_set_conv_nth)
  with ok show ?thesis
    by (auto simp: ratio_pool_ok_def list_all_iff py_len_def split: option.splits
        intro!: exI [of _ j] dest!: bspec [of _ _ j])
qed

lemma compressed_pools_consistent_witness:
  "\<exists>(c' :: cache_context) d. allocate_dsv4_compressed_caches plain_alloc [0, 4, 128, 4] 2 1024 Map.empty
      sample_cache_context = Inr c' \<and> cc_layer_to_ratio_idx c' 3 = Some 1 \<and> cc_dummy_page c' 4 = Some d"
proof -
  let ?rs = "[0, 4, 128, 4] :: int list"
  obtain c' where c': "allocate_dsv4_compressed_caches plain_alloc ?rs 2 1024 Map.empty
      sample_cache_context = Inr c'" "cc_layers_per_ratio c' 4 = Some [1, 3]"
    by (simp add: allocate_dsv4_compressed_caches_def unique_ratios_def allocate_ratio_def Let_def
        plain_alloc_def layers_for_ratio_def py_enumerate_def upt_rec)
  from compressed_pools_consistent [OF plain_alloc_doc c'(1), of 3] c'(2)
  obtain d j where "j < 2" "[1, 3] ! j = (3 :: int)" "cc_layer_to_ratio_idx c' 3 = Some (int j)"
    "cc_dummy_page c' 4 = Some d"
    by auto
  moreover from this have "j = 1" by (auto simp: less_2_cases_iff)
  ultimately show ?thesis using c'(1) by auto
qed

text \<open>
  The KV format selection only returns combinations the kernels accept: the raw layout only for
  FP8 on Blackwell, FP8 elsewhere only for sparse MLA, no FP8 when BF16 is requested or the reference
  decode path is forced, an explicit FP8 request is never silently dropped, and HiSparse over MLA
  always gets FP8.
\<close>

lemma mla_format_sound:
  assumes "resolve_mla_cache_format q hw force = Inr (fp8, raw)"
  shows "(raw \<longleftrightarrow> fp8 \<and> hw = ''blackwell'') \<and> (fp8 \<and> hw \<noteq> ''blackwell'' \<longrightarrow> mla_sparse q) \<and>
         (mf_kv_cache_dtype q = ''bfloat16'' \<longrightarrow> \<not> fp8 \<and> \<not> mla_sparse q) \<and>
         (mf_kv_cache_dtype q = ''fp8_e4m3'' \<longrightarrow> fp8 \<and> mf_has_mla q) \<and>
         (force \<longrightarrow> \<not> fp8) \<and> (mf_has_hisparse q \<and> mf_has_mla q \<longrightarrow> fp8)"
proof -
  let ?r = "mf_kv_cache_dtype q"
  let ?ref = "force \<or> mf_enable_mla_reference_fallback q \<and>
                mf_kv_lora_rank q + mf_qk_rope_head_dim q \<notin> {512, 576}"
  have c: "(?r = ''auto'' \<or> mf_has_mla q) \<and> \<not> (?r = ''bfloat16'' \<and> mla_sparse q) \<and>
    \<not> (?ref \<and> ?r = ''fp8_e4m3'') \<and>
    (?r = ''fp8_e4m3'' \<longrightarrow> hw = ''blackwell'' \<or> hw = ''hopper'' \<and> mla_sparse q) \<and>
    \<not> (mf_has_hisparse q \<and> mf_has_mla q \<and> \<not> fp8) \<and> (raw \<longleftrightarrow> fp8 \<and> hw = ''blackwell'') \<and>
    (fp8 \<longleftrightarrow> (?r = ''fp8_e4m3'' \<or> ?r = ''auto'' \<and> mla_sparse q) \<and> \<not> ?ref)"
    using assms unfolding resolve_mla_cache_format_def Let_def rbind_Inr_iff check_Inr_iff
      sum.inject prod.inject by (elim exE conjE) (intro conjI; (simp; fail | blast))
  have ne: "''auto'' \<noteq> ''bfloat16''" "''auto'' \<noteq> ''fp8_e4m3''" "''bfloat16'' \<noteq> ''fp8_e4m3''"
    by simp_all
  show ?thesis using c ne by metis
qed

lemma mla_format_sound_witness:
  "resolve_mla_cache_format
     \<lparr>mf_kv_cache_dtype = ''auto'', mf_disable_nsa = False, mf_enable_mla_reference_fallback = False,
      mf_index_head_dim = 128, mf_kv_lora_rank = 512, mf_qk_rope_head_dim = 64, mf_has_mla = True,
      mf_has_indexer = True, mf_has_hisparse = True\<rparr> ''hopper'' False = Inr (True, False) \<and> (False \<longleftrightarrow> True \<and> ''hopper'' = ''blackwell'')"
proof -
  let ?q = "\<lparr>mf_kv_cache_dtype = ''auto'', mf_disable_nsa = False, mf_enable_mla_reference_fallback = False,
      mf_index_head_dim = 128, mf_kv_lora_rank = 512, mf_qk_rope_head_dim = 64, mf_has_mla = True,
      mf_has_indexer = True, mf_has_hisparse = True\<rparr>"
  have r: "resolve_mla_cache_format ?q ''hopper'' False = Inr (True, False)"
    by (simp add: resolve_mla_cache_format_def mla_sparse_def)
  from mla_format_sound [OF this] r show ?thesis by simp
qed

end
