(* ===== verification/Cache_Layout.thy ===== *)
theory Cache_Layout
  imports Cache_Context
begin

section \<open>Byte offsets of the transfer layouts (\<open>runtime/disagg/p2p/cache_layout.py\<close>)\<close>

text \<open>
  \<open>CacheTensorLayout\<close> translates cache coordinates (plane, layer, block, slot, page) into byte
  offsets of a registered memory region, for the local engine from its cache context and for a
  remote engine from the metadata it published. The locale \<open>paged_region\<close> is the contract of all of
  them: row-major pages of equal pitch whose payload does not exceed the pitch. It is interpreted on
  every stride function of the module and gives disjointness and containment. The
  properties connect the offsets with the tensors the cache context allocates.
\<close>

record tensor_layout =
  tl_num_blocks :: int
  tl_block_size :: int
  tl_num_local_kv_heads :: int
  tl_head_dim :: int
  tl_dtype_itemsize :: int
  tl_num_hidden_layers :: int
  tl_mode :: string
  tl_is_fp8_kvcache :: bool
  tl_fp8_head_dim :: int
  tl_raw_fp8_mla_layout :: bool
  tl_gdn_num_slots :: int
  tl_gdn_conv_stride0 :: int
  tl_gdn_conv_stride1 :: int
  tl_gdn_conv_element_size :: int
  tl_gdn_recurrent_stride0 :: int
  tl_gdn_recurrent_stride1 :: int
  tl_gdn_recurrent_element_size :: int
  tl_indexer_page_bytes :: int
  tl_compressed_pool_pages :: "int \<rightharpoonup> int"
  tl_compressed_page_bytes_by_ratio :: "int \<rightharpoonup> int"
  tl_compressor_slots_plus_dummy :: "int \<rightharpoonup> int"

definition opt_stride :: "tensor option \<Rightarrow> nat \<Rightarrow> int" where
  "opt_stride t i = (case t of None \<Rightarrow> 0 | Some t \<Rightarrow> stride t i)"

definition opt_element_size :: "tensor option \<Rightarrow> int" where
  "opt_element_size t = (case t of None \<Rightarrow> 0 | Some t \<Rightarrow> element_size t)"

definition from_cache_context :: "cache_context \<Rightarrow> tensor_layout" where
  "from_cache_context c =
     \<lparr>tl_num_blocks = cc_num_local_kvcache_blocks c,
      tl_block_size = cc_block_size c,
      tl_num_local_kv_heads = num_local_kv_heads c,
      tl_head_dim = cc_head_dim c,
      tl_dtype_itemsize = itemsize (cc_dtype c),
      tl_num_hidden_layers = cc_num_hidden_layers c,
      tl_mode = cc_mode c,
      tl_is_fp8_kvcache = cc_is_fp8_kvcache c,
      tl_fp8_head_dim = cc_fp8_head_dim c,
      tl_raw_fp8_mla_layout = cc_raw_fp8_mla_layout c,
      tl_gdn_num_slots = cc_gdn_num_slots c,
      tl_gdn_conv_stride0 = opt_stride (cc_gdn_conv_states c) 0,
      tl_gdn_conv_stride1 = opt_stride (cc_gdn_conv_states c) 1,
      tl_gdn_conv_element_size = opt_element_size (cc_gdn_conv_states c),
      tl_gdn_recurrent_stride0 = opt_stride (cc_gdn_recurrent_states c) 0,
      tl_gdn_recurrent_stride1 = opt_stride (cc_gdn_recurrent_states c) 1,
      tl_gdn_recurrent_element_size = opt_element_size (cc_gdn_recurrent_states c),
      tl_indexer_page_bytes =
        (case cc_indexer_cache c of None \<Rightarrow> 0 | Some ix \<Rightarrow> ix_page_size ix * ix_bytes_per_token ix),
      tl_compressed_pool_pages = (\<lambda>r. map_option (\<lambda>(pages, _, _). pages) (cc_pool_config c r)),
      tl_compressed_page_bytes_by_ratio =
        (\<lambda>r. map_option (\<lambda>(_, page_size, _). page_size * DSV4_BYTES_PER_TOKEN) (cc_pool_config c r)),
      tl_compressor_slots_plus_dummy = (\<lambda>r. map_option (\<lambda>kv. t_shape kv ! 1) (cc_compressor_kv c r))\<rparr>"

text \<open>\<open>a or b\<close> on integers: 0 selects the default.\<close>

abbreviation or_default :: "int \<Rightarrow> int \<Rightarrow> int" where
  "or_default a b \<equiv> (if a = 0 then b else a)"

definition from_peer_metadata ::
  "tensor_layout \<Rightarrow> int \<Rightarrow> int \<Rightarrow> (int \<rightharpoonup> int) \<Rightarrow> int \<Rightarrow> int \<Rightarrow> tensor_layout" where
  "from_peer_metadata l num_blocks gdn_num_slots compressed_pool_pages dsv4_max_slots num_hidden_layers =
     l\<lparr>tl_num_blocks := num_blocks,
       tl_num_hidden_layers := or_default num_hidden_layers (tl_num_hidden_layers l),
       tl_gdn_num_slots := or_default gdn_num_slots (tl_gdn_num_slots l),
       tl_gdn_conv_stride0 := or_default gdn_num_slots (tl_gdn_num_slots l) * tl_gdn_conv_stride1 l,
       tl_gdn_recurrent_stride0 :=
         or_default gdn_num_slots (tl_gdn_num_slots l) * tl_gdn_recurrent_stride1 l,
       tl_compressed_pool_pages := compressed_pool_pages,
       tl_compressor_slots_plus_dummy :=
         (\<lambda>r. map_option (\<lambda>local_slots.
            (if dsv4_max_slots > 0 then dsv4_max_slots else local_slots - 1) + 1)
            (tl_compressor_slots_plus_dummy l r))\<rparr>"

definition block_stride :: "tensor_layout \<Rightarrow> int \<Rightarrow> int" where
  "block_stride l block_idx =
     (if tl_mode l = ''dsv4'' then block_idx * tl_block_size l * DSV4_BYTES_PER_TOKEN
      else if tl_is_fp8_kvcache l \<and> tl_mode l = ''mla'' then
        (let rows = (if tl_raw_fp8_mla_layout l then tl_block_size l else tl_block_size l + 1)
         in block_idx * rows * tl_fp8_head_dim l)
      else block_idx * tl_block_size l * tl_num_local_kv_heads l * tl_head_dim l
           * tl_dtype_itemsize l)"

definition block_num_bytes :: "tensor_layout \<Rightarrow> int" where
  "block_num_bytes l =
     (if tl_is_fp8_kvcache l \<and> tl_mode l = ''mla'' then tl_block_size l * tl_fp8_head_dim l
      else block_stride l 1)"

definition layer_blocks :: "tensor_layout \<Rightarrow> int" where
  "layer_blocks l = (if tl_mode l = ''dsv4'' then tl_num_blocks l + 1 else tl_num_blocks l)"

definition layer_stride :: "tensor_layout \<Rightarrow> int \<Rightarrow> int \<Rightarrow> int" where
  "layer_stride l layer_idx block_idx =
     block_stride l (layer_blocks l) * layer_idx + block_stride l block_idx"

definition kv_stride :: "tensor_layout \<Rightarrow> int \<Rightarrow> int \<Rightarrow> int \<Rightarrow> int res" where
  "kv_stride l kv_idx layer_idx block_idx =
     (if tl_mode l = ''dsv4'' then
        if kv_idx \<noteq> 0 then Inl (ValueError ''DSv4 HCA cache has a single cache plane'')
        else Inr (layer_stride l layer_idx block_idx)
      else Inr (layer_stride l (tl_num_hidden_layers l) 0 * kv_idx
                + layer_stride l layer_idx block_idx))"

definition gdn_conv_stride :: "tensor_layout \<Rightarrow> int \<Rightarrow> int \<Rightarrow> int" where
  "gdn_conv_stride l layer_idx slot_idx =
     (if tl_gdn_conv_stride1 l = 0 then - 1
      else (layer_idx * tl_gdn_conv_stride0 l + slot_idx * tl_gdn_conv_stride1 l)
           * tl_gdn_conv_element_size l)"

definition gdn_recurrent_stride :: "tensor_layout \<Rightarrow> int \<Rightarrow> int \<Rightarrow> int" where
  "gdn_recurrent_stride l layer_idx slot_idx =
     (if tl_gdn_recurrent_stride1 l = 0 then - 1
      else (layer_idx * tl_gdn_recurrent_stride0 l + slot_idx * tl_gdn_recurrent_stride1 l)
           * tl_gdn_recurrent_element_size l)"

definition gdn_conv_slot_num_bytes :: "tensor_layout \<Rightarrow> int" where
  "gdn_conv_slot_num_bytes l = tl_gdn_conv_stride1 l * tl_gdn_conv_element_size l"

definition gdn_recurrent_slot_num_bytes :: "tensor_layout \<Rightarrow> int" where
  "gdn_recurrent_slot_num_bytes l = tl_gdn_recurrent_stride1 l * tl_gdn_recurrent_element_size l"

definition indexer_stride :: "tensor_layout \<Rightarrow> int \<Rightarrow> int \<Rightarrow> int" where
  "indexer_stride l layer_idx block_idx =
     (layer_idx * tl_num_blocks l + block_idx) * tl_indexer_page_bytes l"

definition compressed_page_bytes :: "tensor_layout \<Rightarrow> int \<Rightarrow> int" where
  "compressed_page_bytes l ratio = dict_get (tl_compressed_page_bytes_by_ratio l) ratio 0"

definition compressed_stride :: "tensor_layout \<Rightarrow> int \<Rightarrow> int \<Rightarrow> int \<Rightarrow> int" where
  "compressed_stride l ratio ratio_layer_idx page_idx =
     (case tl_compressed_pool_pages l ratio of
        None \<Rightarrow> - 1
      | Some num_pages \<Rightarrow>
          (ratio_layer_idx * (num_pages + 1) + page_idx) * compressed_page_bytes l ratio)"

definition compressor_state_row_bytes :: "int \<Rightarrow> string \<Rightarrow> int" where
  "compressor_state_row_bytes ratio kind =
     (if kind = ''counts'' then 4
      else (let coeff = (if ratio = 4 then 2 else 1); head_dim = 512
            in coeff * ratio * coeff * head_dim * 4))"

definition compressor_state_stride ::
  "tensor_layout \<Rightarrow> int \<Rightarrow> int \<Rightarrow> int \<Rightarrow> string \<Rightarrow> int" where
  "compressor_state_stride l ratio ratio_layer_idx slot kind =
     (ratio_layer_idx * dict_get (tl_compressor_slots_plus_dummy l) ratio 0 + slot)
     * compressor_state_row_bytes ratio kind"

subsection \<open>Local and remote views (\<open>P2PCacheLayout\<close>)\<close>

text \<open>What the layout reads of the transfer object: its cache context and the peers' metadata.\<close>

record layout_source =
  ls_cache_context :: cache_context
  ls_num_remote_kvcache_blocks :: "string \<rightharpoonup> int"
  ls_remote_gdn_num_slots :: "string \<rightharpoonup> int"
  ls_remote_compressed_pool_pages :: "string \<rightharpoonup> (int \<rightharpoonup> int)"
  ls_remote_dsv4_max_slots :: "string \<rightharpoonup> int"

definition layout_local :: "layout_source \<Rightarrow> tensor_layout" where
  "layout_local t = from_cache_context (ls_cache_context t)"

definition layout_remote :: "layout_source \<Rightarrow> string \<Rightarrow> int \<Rightarrow> tensor_layout res" where
  "layout_remote t remote_engine_id num_hidden_layers =
     rbind (dict_item (ls_num_remote_kvcache_blocks t) remote_engine_id) (\<lambda>num_blocks.
     Inr (from_peer_metadata (layout_local t) num_blocks
            (dict_get (ls_remote_gdn_num_slots t) remote_engine_id 0)
            (dict_get (ls_remote_compressed_pool_pages t) remote_engine_id Map.empty)
            (dict_get (ls_remote_dsv4_max_slots t) remote_engine_id 0)
            num_hidden_layers))"

definition local_kv_stride :: "layout_source \<Rightarrow> int \<Rightarrow> int \<Rightarrow> int \<Rightarrow> int res" where
  "local_kv_stride t kv_idx layer_idx block_idx = kv_stride (layout_local t) kv_idx layer_idx block_idx"

definition remote_kv_stride ::
  "layout_source \<Rightarrow> int \<Rightarrow> int \<Rightarrow> int \<Rightarrow> string \<Rightarrow> int \<Rightarrow> int res" where
  "remote_kv_stride t kv_idx layer_idx block_idx remote_engine_id remote_num_layers =
     rbind (layout_remote t remote_engine_id remote_num_layers)
       (\<lambda>l. kv_stride l kv_idx layer_idx block_idx)"

definition remote_gdn_conv_stride :: "layout_source \<Rightarrow> int \<Rightarrow> int \<Rightarrow> string \<Rightarrow> int res" where
  "remote_gdn_conv_stride t layer_idx slot_idx remote_engine_id =
     rbind (layout_remote t remote_engine_id 0) (\<lambda>l. Inr (gdn_conv_stride l layer_idx slot_idx))"

definition remote_gdn_recurrent_stride :: "layout_source \<Rightarrow> int \<Rightarrow> int \<Rightarrow> string \<Rightarrow> int res" where
  "remote_gdn_recurrent_stride t layer_idx slot_idx remote_engine_id =
     rbind (layout_remote t remote_engine_id 0) (\<lambda>l. Inr (gdn_recurrent_stride l layer_idx slot_idx))"

definition remote_indexer_stride :: "layout_source \<Rightarrow> int \<Rightarrow> int \<Rightarrow> string \<Rightarrow> int res" where
  "remote_indexer_stride t layer_idx block_idx remote_engine_id =
     rbind (layout_remote t remote_engine_id 0) (\<lambda>l. Inr (indexer_stride l layer_idx block_idx))"

definition remote_compressed_stride ::
  "layout_source \<Rightarrow> int \<Rightarrow> int \<Rightarrow> int \<Rightarrow> string \<Rightarrow> int res" where
  "remote_compressed_stride t ratio ratio_layer_idx page_idx remote_engine_id =
     rbind (layout_remote t remote_engine_id 0)
       (\<lambda>l. Inr (compressed_stride l ratio ratio_layer_idx page_idx))"

definition remote_compressor_state_stride ::
  "layout_source \<Rightarrow> int \<Rightarrow> int \<Rightarrow> int \<Rightarrow> string \<Rightarrow> string \<Rightarrow> int res" where
  "remote_compressor_state_stride t ratio ratio_layer_idx slot kind remote_engine_id =
     rbind (layout_remote t remote_engine_id 0)
       (\<lambda>l. Inr (compressor_state_stride l ratio ratio_layer_idx slot kind))"

subsection \<open>The contract of a paged region\<close>

locale paged_region =
  fixes offset :: "'c \<Rightarrow> int \<Rightarrow> int \<Rightarrow> int"
    and pages :: "'c \<Rightarrow> int"
    and pitch :: "'c \<Rightarrow> int"
    and payload :: "'c \<Rightarrow> int"
    and valid :: "'c \<Rightarrow> bool"
  assumes offset_eq: "valid c \<Longrightarrow> offset c i j = (i * pages c + j) * pitch c"
    and payload_fits: "valid c \<Longrightarrow> 0 \<le> payload c \<and> payload c \<le> pitch c"
begin

lemma consecutive: "valid c \<Longrightarrow> offset c i (j + 1) = offset c i j + pitch c"
  by (simp add: offset_eq algebra_simps)

lemma in_bounds:
  assumes "valid c" "0 \<le> i" "i < n" "0 \<le> j" "j < pages c"
  shows "0 \<le> offset c i j" and "offset c i j + payload c \<le> n * pages c * pitch c"
proof -
  have pos: "0 \<le> pitch c" using payload_fits [OF assms(1)] by linarith
  have k: "0 \<le> i * pages c + j" using assms by simp
  show "0 \<le> offset c i j" using k pos by (simp add: offset_eq [OF assms(1)])
  have "i * pages c + j + 1 \<le> n * pages c"
    using row_major_less [of j "pages c" i n] assms by simp
  then have "(i * pages c + j + 1) * pitch c \<le> n * pages c * pitch c"
    using pos by (intro mult_right_mono)
  then show "offset c i j + payload c \<le> n * pages c * pitch c"
    using payload_fits [OF assms(1)] by (simp add: offset_eq [OF assms(1)] algebra_simps)
qed

lemma disjoint:
  assumes "valid c" "0 \<le> j" "j < pages c" "0 \<le> j'" "j' < pages c" "(i, j) \<noteq> (i', j')"
  shows "offset c i j + payload c \<le> offset c i' j' \<or> offset c i' j' + payload c \<le> offset c i j"
proof -
  have pos: "0 \<le> pitch c" using payload_fits [OF assms(1)] by linarith
  have step: "x * pitch c + payload c \<le> y * pitch c" if "x < y" for x y
  proof -
    have "(x + 1) * pitch c \<le> y * pitch c" using that pos by (intro mult_right_mono) simp_all
    then show ?thesis using payload_fits [OF assms(1)] by (simp add: algebra_simps)
  qed
  have "i * pages c + j \<noteq> i' * pages c + j'"
    using row_major_unique [of j "pages c" j' i i'] assms by auto
  then show ?thesis using step by (auto simp: offset_eq [OF assms(1)] neq_iff)
qed

end

text \<open>Sizes of a layout are not negative.\<close>

definition layout_ok :: "tensor_layout \<Rightarrow> bool" where
  "layout_ok l \<longleftrightarrow> 0 \<le> tl_block_size l \<and> 0 \<le> tl_num_local_kv_heads l \<and> 0 \<le> tl_head_dim l \<and>
     0 \<le> tl_dtype_itemsize l \<and> 0 \<le> tl_fp8_head_dim l"

lemma block_stride_linear: "block_stride l b = b * block_stride l 1"
  by (simp add: block_stride_def Let_def)

lemma block_stride_nonneg: "layout_ok l \<Longrightarrow> 0 \<le> block_stride l 1"
  by (simp add: block_stride_def layout_ok_def DSV4_BYTES_PER_TOKEN_def Let_def)

lemma block_num_bytes_le: "layout_ok l \<Longrightarrow> 0 \<le> block_num_bytes l \<and> block_num_bytes l \<le> block_stride l 1"
  by (auto simp: block_num_bytes_def block_stride_nonneg)
     (simp_all add: block_stride_def layout_ok_def DSV4_BYTES_PER_TOKEN_def Let_def mult_right_mono)

interpretation kv_region: paged_region layer_stride layer_blocks "\<lambda>l. block_stride l 1"
  block_num_bytes layout_ok
proof
  fix l i j
  show "layer_stride l i j = (i * layer_blocks l + j) * block_stride l 1"
    unfolding layer_stride_def
    by (subst (1 2) block_stride_linear) (simp add: algebra_simps)
qed (rule block_num_bytes_le)

definition gdn_conv_ok :: "tensor_layout \<Rightarrow> bool" where
  "gdn_conv_ok l \<longleftrightarrow> 0 < tl_gdn_conv_stride1 l \<and> 0 \<le> tl_gdn_conv_element_size l \<and>
     tl_gdn_conv_stride0 l = tl_gdn_num_slots l * tl_gdn_conv_stride1 l"

interpretation gdn_conv_region: paged_region gdn_conv_stride tl_gdn_num_slots
  gdn_conv_slot_num_bytes gdn_conv_slot_num_bytes gdn_conv_ok
  by unfold_locales
    (auto simp: gdn_conv_ok_def gdn_conv_stride_def gdn_conv_slot_num_bytes_def algebra_simps)

definition gdn_recurrent_ok :: "tensor_layout \<Rightarrow> bool" where
  "gdn_recurrent_ok l \<longleftrightarrow> 0 < tl_gdn_recurrent_stride1 l \<and> 0 \<le> tl_gdn_recurrent_element_size l \<and>
     tl_gdn_recurrent_stride0 l = tl_gdn_num_slots l * tl_gdn_recurrent_stride1 l"

interpretation gdn_recurrent_region: paged_region gdn_recurrent_stride tl_gdn_num_slots
  gdn_recurrent_slot_num_bytes gdn_recurrent_slot_num_bytes gdn_recurrent_ok
  by unfold_locales
    (auto simp: gdn_recurrent_ok_def gdn_recurrent_stride_def gdn_recurrent_slot_num_bytes_def
      algebra_simps)

interpretation indexer_region: paged_region indexer_stride tl_num_blocks tl_indexer_page_bytes
  tl_indexer_page_bytes "\<lambda>l. 0 \<le> tl_indexer_page_bytes l"
  by unfold_locales (auto simp: indexer_stride_def)

interpretation compressed_region: paged_region
  "\<lambda>(l, ratio). compressed_stride l ratio"
  "\<lambda>(l, ratio). dict_get (tl_compressed_pool_pages l) ratio 0 + 1"
  "\<lambda>(l, ratio). compressed_page_bytes l ratio" "\<lambda>(l, ratio). compressed_page_bytes l ratio"
  "\<lambda>(l, ratio). tl_compressed_pool_pages l ratio \<noteq> None \<and> 0 \<le> compressed_page_bytes l ratio"
  by unfold_locales (auto simp: compressed_stride_def dict_get_def)

interpretation compressor_region: paged_region
  "\<lambda>(l, ratio, kind) i j. compressor_state_stride l ratio i j kind"
  "\<lambda>(l, ratio, kind). dict_get (tl_compressor_slots_plus_dummy l) ratio 0"
  "\<lambda>(l, ratio, kind). compressor_state_row_bytes ratio kind"
  "\<lambda>(l, ratio, kind). compressor_state_row_bytes ratio kind"
  "\<lambda>(l, ratio, kind). 0 \<le> ratio"
  by unfold_locales (auto simp: compressor_state_stride_def compressor_state_row_bytes_def Let_def)

lemma kv_stride_row:
  assumes "layout_ok l" "tl_mode l \<noteq> ''dsv4'' \<or> kv = 0"
  shows "kv_stride l kv layer b = Inr (layer_stride l (kv * tl_num_hidden_layers l + layer) b)"
  using assms(2)
  by (auto simp: kv_stride_def kv_region.offset_eq [OF assms(1)] algebra_simps)

subsection \<open>Offsets and the allocated tensors\<close>

definition mla_row_width :: "cache_context \<Rightarrow> int" where
  "mla_row_width c =
     (if cc_raw_fp8_mla_layout c then cc_head_dim c
      else cc_kv_lora_rank c + cc_kv_lora_rank c div FP8_QUANT_TILE_SIZE * 4 + cc_qk_rope_head_dim c * 2)"

text \<open>What construction leaves on every accepted context.\<close>

definition cache_configured :: "cache_context \<Rightarrow> bool" where
  "cache_configured c \<longleftrightarrow>
     cc_mode c \<in> {''gqa'', ''mla'', ''dsv4''} \<and> 0 < cc_num_local_kvcache_blocks c \<and>
     (cc_mode c = ''mla'' \<longrightarrow> cc_block_size c = 64 \<and>
        cc_head_dim c = cc_kv_lora_rank c + cc_qk_rope_head_dim c \<and>
        (cc_is_fp8_kvcache c \<longrightarrow> cc_fp8_head_dim c = mla_row_width c)) \<and>
     (cc_mode c = ''dsv4'' \<longrightarrow> cc_attention_tp c = 1 \<and> cc_block_size c mod 64 = 0)"

lemmas configure_defs = backend_configure_def configure_gqa_cache_def configure_mla_cache_def
  configure_dsv4_cache_def backend_get_block_bytes_def get_mla_block_bytes_def

lemma size_cache_blocks_frame:
  "size_cache_blocks m w c = Inr c' \<Longrightarrow> \<exists>n h. c' = c\<lparr>cc_num_local_kvcache_blocks := n, cc_num_host_kvcache_blocks := h\<rparr>"
  unfolding size_cache_blocks_def Let_def by (auto simp: res_simps split: if_splits)

lemma post_init_frame:
  assumes "post_init_cache_context m c0 = Inr c"
  obtains k c1 n h where "resolve_cache_backend (cc_mode c0) = Inr k" "backend_configure k c0 = Inr c1"
    "c = (fst (backend_get_block_bytes k c1))\<lparr>cc_num_local_kvcache_blocks := n,
            cc_num_host_kvcache_blocks := h, cc_gdn_num_slots := 0\<rparr>" "0 < n"
proof -
  obtain k c1 d where d: "resolve_cache_backend (cc_mode c0) = Inr k" "backend_configure k c0 = Inr c1"
    "size_cache_blocks m (snd (backend_get_block_bytes k c1)) (fst (backend_get_block_bytes k c1)) = Inr d"
    "0 < cc_num_local_kvcache_blocks d" "c = d\<lparr>cc_gdn_num_slots := 0\<rparr>"
    using assms by (auto simp: post_init_cache_context_def rbind_Inr_iff initialize_gdn_cache_state_def)
  from size_cache_blocks_frame [OF d(3)] d that show thesis by auto
qed

lemma post_init_configured:
  assumes "post_init_cache_context m c0 = Inr c"
  shows "cache_configured c"
proof -
  obtain k c1 n h where r: "resolve_cache_backend (cc_mode c0) = Inr k" "backend_configure k c0 = Inr c1"
    and c: "c = (fst (backend_get_block_bytes k c1))\<lparr>cc_num_local_kvcache_blocks := n,
            cc_num_host_kvcache_blocks := h, cc_gdn_num_slots := 0\<rparr>" "0 < n"
    using post_init_frame [OF assms] by metis
  show ?thesis
  proof (cases k)
    case GQA
    then have "cc_mode c0 = ''gqa''" using r(1) by (simp add: resolve_cache_backend_def split: if_splits)
    then show ?thesis using r(2) c GQA by (auto simp: cache_configured_def configure_defs res_simps)
  next
    case MLA
    then have "cc_mode c0 = ''mla''" using r(1) by (simp add: resolve_cache_backend_def split: if_splits)
    then show ?thesis
      using r(2) c MLA
      by (auto simp: cache_configured_def configure_defs res_simps mla_row_width_def Let_def)
  next
    case DSV4
    then have "cc_mode c0 = ''dsv4''" using r(1) by (simp add: resolve_cache_backend_def split: if_splits)
    then show ?thesis using r(2) c DSV4 by (auto simp: cache_configured_def configure_defs res_simps)
  qed
qed

lemma allocate_kvcache_tensor:
  assumes "alloc_doc env" "allocate_kvcache env n c = Inr c'"
  obtains t where "c' = c\<lparr>cc_num_local_kvcache_blocks := n, cc_kv_cache := Some t\<rparr>"
    and "cc_mode c = ''gqa'' \<Longrightarrow> \<exists>dev. t = contiguous_tensor (cc_dtype c)
           [2, cc_num_hidden_layers c, n, cc_block_size c, num_local_kv_heads c, cc_head_dim c] dev"
    and "cc_mode c = ''mla'' \<Longrightarrow> \<not> cc_is_fp8_kvcache c \<Longrightarrow> \<exists>dev. t = contiguous_tensor (cc_dtype c)
           [1, cc_num_hidden_layers c, n, cc_block_size c, num_local_kv_heads c, cc_head_dim c] dev"
    and "cc_mode c = ''mla'' \<Longrightarrow> cc_is_fp8_kvcache c \<Longrightarrow> cc_raw_fp8_mla_layout c \<Longrightarrow>
           \<exists>dev. t = contiguous_tensor Float8_e4m3fn
             [1, cc_num_hidden_layers c, n, cc_block_size c, 1, cc_head_dim c] dev"
    and "cc_mode c = ''mla'' \<Longrightarrow> cc_is_fp8_kvcache c \<Longrightarrow> \<not> cc_raw_fp8_mla_layout c \<Longrightarrow>
           \<exists>dev. t = narrow_to (contiguous_tensor Float8_e4m3fn
             [1, cc_num_hidden_layers c, n, cc_block_size c + 1, 1, cc_fp8_head_dim c] dev) 3 (cc_block_size c)"
    and "cc_mode c = ''dsv4'' \<Longrightarrow> \<exists>dev. t = contiguous_tensor UInt8
           [cc_num_hidden_layers c, n + 1, cc_block_size c, 1, DSV4_BYTES_PER_TOKEN] dev"
proof -
  let ?c = "c\<lparr>cc_num_local_kvcache_blocks := n\<rparr>"
  obtain k where k: "resolve_cache_backend (cc_mode c) = Inr k" "backend_allocate env k ?c = Inr c'"
    using assms(2) by (auto simp: allocate_kvcache_def Let_def rbind_Inr_iff)
  have heads: "num_local_kv_heads ?c = num_local_kv_heads c" by (simp add: num_local_kv_heads_def)
  have mode: "k = GQA \<longleftrightarrow> cc_mode c = ''gqa''" "k = MLA \<longleftrightarrow> cc_mode c = ''mla''" "k = DSV4 \<longleftrightarrow> cc_mode c = ''dsv4''"
    using k(1) by (auto simp: resolve_cache_backend_def split: if_splits)
  note doc = allocate_device_tensor_doc [OF assms(1)]
  show thesis
  proof (cases k)
    case GQA
    then show ?thesis
      using k(2) mode heads
      by (auto simp: backend_allocate_def allocate_gqa_kvcache_def rbind_Inr_iff intro!: that dest!: doc)
  next
    case MLA
    then show ?thesis
      using k(2) mode heads
      by (auto simp: backend_allocate_def allocate_mla_kvcache_def rbind_Inr_iff
          intro!: that dest!: doc split: if_splits)
  next
    case DSV4
    then show ?thesis
      using k(2) mode
      by (auto simp: backend_allocate_def allocate_dsv4_kvcache_def rbind_Inr_iff intro!: that dest!: doc)
  qed
qed

text \<open>Number of cache planes (K and V are separate only for GQA) and the index of a block.\<close>

definition kv_planes :: "cache_context \<Rightarrow> int" where
  "kv_planes c = (if cc_mode c = ''gqa'' then 2 else 1)"

definition block_index :: "cache_context \<Rightarrow> int \<Rightarrow> int \<Rightarrow> int \<Rightarrow> int list" where
  "block_index c kv layer b = (if cc_mode c = ''dsv4'' then [layer, b, 0, 0, 0] else [kv, layer, b, 0, 0, 0])"

lemma row3_bound:
  assumes "0 \<le> kv" "kv < p" "0 \<le> l" "l < n" "0 \<le> b" "b < (m::int)" "0 \<le> w"
  shows "((kv * n + l) * m + b) * w + w \<le> p * n * m * w"
proof -
  have "kv * n + l < p * n" using row_major_less assms by blast
  then have "(kv * n + l) * m + b < p * n * m" using row_major_less assms by blast
  then have "((kv * n + l) * m + b + 1) * w \<le> p * n * m * w" using assms by (intro mult_right_mono) auto
  then show ?thesis by (simp add: algebra_simps)
qed

lemma contiguous_block:
  assumes "t = contiguous_tensor dt [p, n, m, r, h, d] dev"
    and "0 < p" "0 < n" "0 < m" "0 < r" "0 < h" "0 < d"
    and "0 \<le> kv" "kv < p" "0 \<le> l" "l < n" "0 \<le> b" "b < m"
  shows "element_offset t [kv, l, b, 0, 0, 0] * element_size t =
           ((kv * n + l) * m + b) * (r * h * d * itemsize dt)"
    and "((kv * n + l) * m + b) * (r * h * d * itemsize dt) + r * h * d * itemsize dt
           \<le> tensor_storage_span_num_bytes t"
proof -
  show "element_offset t [kv, l, b, 0, 0, 0] * element_size t =
           ((kv * n + l) * m + b) * (r * h * d * itemsize dt)"
    by (simp add: assms(1) element_offset_def element_size_def algebra_simps)
  have "tensor_storage_span_num_bytes t = p * n * m * (r * h * d * itemsize dt)"
    using assms by (simp add: span_contiguous algebra_simps)
  then show "((kv * n + l) * m + b) * (r * h * d * itemsize dt) + r * h * d * itemsize dt
           \<le> tensor_storage_span_num_bytes t"
    using row3_bound [of kv p l n b m "r * h * d * itemsize dt"] assms by simp
qed

lemma padded_block:
  assumes "t = narrow_to (contiguous_tensor Float8_e4m3fn [1, n, m, r + 1, 1, w] dev) 3 r"
    and "0 < n" "0 < m" "0 < r" "0 < w" "0 \<le> l" "l < n" "0 \<le> b" "b < m"
  shows "element_offset t [0, l, b, 0, 0, 0] * element_size t = (l * m + b) * ((r + 1) * w)"
    and "(l * m + b) * ((r + 1) * w) + r * w \<le> tensor_storage_span_num_bytes t"
proof -
  show "element_offset t [0, l, b, 0, 0, 0] * element_size t = (l * m + b) * ((r + 1) * w)"
    by (simp add: assms(1) narrow_to_def element_offset_def element_size_def algebra_simps)
  have "tensor_storage_span_num_bytes t = n * m * ((r + 1) * w) - w"
    using assms(2-5)
    by (simp add: assms(1) narrow_to_def tensor_storage_span_num_bytes_def numel_def element_size_def)
       (simp add: algebra_simps)
  moreover have "(l * m + b) * ((r + 1) * w) + (r + 1) * w \<le> n * m * ((r + 1) * w)"
    using row3_bound [of 0 1 l n b m "(r + 1) * w"] assms by simp
  ultimately show "(l * m + b) * ((r + 1) * w) + r * w \<le> tensor_storage_span_num_bytes t"
    by (simp add: algebra_simps)
qed

lemma paged_block:
  assumes "t = contiguous_tensor UInt8 [n, m, r, 1, w] dev"
    and "0 < n" "0 < m" "0 < r" "0 < w" "0 \<le> l" "l < n" "0 \<le> b" "b < m"
  shows "element_offset t [l, b, 0, 0, 0] * element_size t = (l * m + b) * (r * w)"
    and "(l * m + b) * (r * w) + r * w \<le> tensor_storage_span_num_bytes t"
proof -
  show "element_offset t [l, b, 0, 0, 0] * element_size t = (l * m + b) * (r * w)"
    by (simp add: assms(1) element_offset_def element_size_def algebra_simps)
  have "tensor_storage_span_num_bytes t = n * m * (r * w)"
    using assms by (simp add: span_contiguous)
  then show "(l * m + b) * (r * w) + r * w \<le> tensor_storage_span_num_bytes t"
    using row3_bound [of 0 1 l n b m "r * w"] assms by simp
qed

text \<open>
  C2: the byte offsets the transfer code computes address the cache that was allocated. For every
  backend and storage format, after construction and allocation of \<open>n\<close> blocks, the offset of a block
  is the address of its first element in the (possibly padded, strided) cache tensor, and the
  block's payload ends inside the memory region registered for that tensor.
\<close>

theorem kv_offset_addresses_cache:
  assumes "alloc_doc env" and init: "post_init_cache_context m c0 = Inr c"
    and alloc: "allocate_kvcache env n c = Inr c'"
    and pos: "0 < cc_num_hidden_layers c" "0 < n" "0 < cc_block_size c" "0 < num_local_kv_heads c"
      "0 < cc_head_dim c" "cc_mode c = ''mla'' \<Longrightarrow> 0 < mla_row_width c"
    and idx: "0 \<le> kv" "kv < kv_planes c" "0 \<le> layer" "layer < cc_num_hidden_layers c" "0 \<le> b" "b < n"
  shows "\<exists>t off. cc_kv_cache c' = Some t \<and>
           kv_stride (from_cache_context c') kv layer b = Inr off \<and>
           off = element_offset t (block_index c kv layer b) * element_size t \<and>
           off + block_num_bytes (from_cache_context c') \<le> tensor_storage_span_num_bytes t"
proof -
  let ?l = "from_cache_context c'" and ?L = "cc_num_hidden_layers c"
  obtain t where c': "c' = c\<lparr>cc_num_local_kvcache_blocks := n, cc_kv_cache := Some t\<rparr>"
    and t: "cc_mode c = ''gqa'' \<Longrightarrow> \<exists>dev. t = contiguous_tensor (cc_dtype c)
           [2, ?L, n, cc_block_size c, num_local_kv_heads c, cc_head_dim c] dev"
      "cc_mode c = ''mla'' \<Longrightarrow> \<not> cc_is_fp8_kvcache c \<Longrightarrow> \<exists>dev. t = contiguous_tensor (cc_dtype c)
           [1, ?L, n, cc_block_size c, num_local_kv_heads c, cc_head_dim c] dev"
      "cc_mode c = ''mla'' \<Longrightarrow> cc_is_fp8_kvcache c \<Longrightarrow> cc_raw_fp8_mla_layout c \<Longrightarrow>
           \<exists>dev. t = contiguous_tensor Float8_e4m3fn [1, ?L, n, cc_block_size c, 1, cc_head_dim c] dev"
      "cc_mode c = ''mla'' \<Longrightarrow> cc_is_fp8_kvcache c \<Longrightarrow> \<not> cc_raw_fp8_mla_layout c \<Longrightarrow>
           \<exists>dev. t = narrow_to (contiguous_tensor Float8_e4m3fn
             [1, ?L, n, cc_block_size c + 1, 1, cc_fp8_head_dim c] dev) 3 (cc_block_size c)"
      "cc_mode c = ''dsv4'' \<Longrightarrow> \<exists>dev. t = contiguous_tensor UInt8
           [?L, n + 1, cc_block_size c, 1, DSV4_BYTES_PER_TOKEN] dev"
    using allocate_kvcache_tensor [OF assms(1) alloc] by metis
  note conf = post_init_configured [OF init, unfolded cache_configured_def]
  have heads: "num_local_kv_heads c' = num_local_kv_heads c" by (simp add: c' num_local_kv_heads_def)
  have l: "tl_num_blocks ?l = n" "tl_block_size ?l = cc_block_size c" "tl_head_dim ?l = cc_head_dim c"
    "tl_num_local_kv_heads ?l = num_local_kv_heads c" "tl_dtype_itemsize ?l = itemsize (cc_dtype c)"
    "tl_num_hidden_layers ?l = ?L" "tl_mode ?l = cc_mode c" "tl_is_fp8_kvcache ?l = cc_is_fp8_kvcache c"
    "tl_fp8_head_dim ?l = cc_fp8_head_dim c" "tl_raw_fp8_mla_layout ?l = cc_raw_fp8_mla_layout c"
    by (simp_all add: from_cache_context_def heads) (simp_all add: c')
  have kvc: "cc_kv_cache c' = Some t" by (simp add: c')
  have kv0: "cc_mode c \<noteq> ''gqa'' \<Longrightarrow> kv = 0" using idx by (simp add: kv_planes_def)
  note strides = kv_stride_def layer_stride_def block_stride_def layer_blocks_def block_num_bytes_def
    kv_planes_def block_index_def l Let_def
  consider (gqa) "cc_mode c = ''gqa''" | (mla) "cc_mode c = ''mla''" "\<not> cc_is_fp8_kvcache c"
    | (raw) "cc_mode c = ''mla''" "cc_is_fp8_kvcache c" "cc_raw_fp8_mla_layout c"
    | (packed) "cc_mode c = ''mla''" "cc_is_fp8_kvcache c" "\<not> cc_raw_fp8_mla_layout c"
    | (dsv4) "cc_mode c = ''dsv4''"
    using conf by blast
  then show ?thesis
  proof cases
    case gqa
    then obtain dev where "t = contiguous_tensor (cc_dtype c)
        [2, ?L, n, cc_block_size c, num_local_kv_heads c, cc_head_dim c] dev" using t(1) by blast
    from contiguous_block [OF this, of kv layer b] gqa pos idx show ?thesis
      by (simp add: kvc strides algebra_simps)
  next
    case mla
    then obtain dev where "t = contiguous_tensor (cc_dtype c)
        [1, ?L, n, cc_block_size c, num_local_kv_heads c, cc_head_dim c] dev" using t(2) by blast
    from contiguous_block [OF this, of 0 layer b] mla pos idx kv0 show ?thesis
      by (simp add: kvc strides algebra_simps)
  next
    case raw
    then obtain dev where "t = contiguous_tensor Float8_e4m3fn
        [1, ?L, n, cc_block_size c, 1, cc_head_dim c] dev" using t(3) by blast
    moreover have "cc_fp8_head_dim c = cc_head_dim c" using conf raw by (simp add: mla_row_width_def)
    ultimately show ?thesis
      using contiguous_block [of t Float8_e4m3fn 1 ?L n "cc_block_size c" 1 "cc_head_dim c" dev 0 layer b]
        raw pos idx kv0 by (simp add: kvc strides algebra_simps)
  next
    case packed
    then obtain dev where "t = narrow_to (contiguous_tensor Float8_e4m3fn
             [1, ?L, n, cc_block_size c + 1, 1, cc_fp8_head_dim c] dev) 3 (cc_block_size c)" using t(4) by blast
    moreover have "0 < cc_fp8_head_dim c" using conf packed pos by simp
    ultimately show ?thesis
      using padded_block [of t ?L n "cc_block_size c" "cc_fp8_head_dim c" dev layer b] packed pos idx kv0
      by (simp add: kvc strides algebra_simps)
  next
    case dsv4
    then obtain dev where "t = contiguous_tensor UInt8
           [?L, n + 1, cc_block_size c, 1, DSV4_BYTES_PER_TOKEN] dev" using t(5) by blast
    from paged_block [OF this, of layer b] dsv4 pos idx kv0 show ?thesis
      by (simp add: kvc strides DSV4_BYTES_PER_TOKEN_def algebra_simps)
  qed
qed

definition sample_mem :: mem_info where
  "sample_mem = \<lparr>mem_free = 1000000000, mem_total = 1000000000, mem_peak = 0, mem_current = 0\<rparr>"

lemma sample_post_init:
  "post_init_cache_context sample_mem sample_cache_context =
     Inr (sample_cache_context\<lparr>cc_num_local_kvcache_blocks := 953\<rparr>)"
  by (simp add: post_init_cache_context_def sample_cache_context_def sample_mem_def
      resolve_cache_backend_def backend_configure_def configure_gqa_cache_def
      backend_get_block_bytes_def get_gqa_block_bytes_def size_cache_blocks_def Let_def
      get_indexer_block_bytes_def gpu_cache_budget_def py_int_def num_local_kv_heads_def
      compute_host_kvcache_blocks_def initialize_gdn_cache_state_def)

theorem kv_offset_addresses_cache_witness:
  "\<exists>(c' :: cache_context) t off.
     allocate_kvcache plain_alloc 10 (sample_cache_context\<lparr>cc_num_local_kvcache_blocks := 953\<rparr>) = Inr c' \<and>
     cc_kv_cache c' = Some t \<and> kv_stride (from_cache_context c') 1 3 9 = Inr off \<and>
     off + block_num_bytes (from_cache_context c') \<le> tensor_storage_span_num_bytes t"
proof -
  let ?c = "sample_cache_context\<lparr>cc_num_local_kvcache_blocks := 953\<rparr>"
  obtain c' where c': "allocate_kvcache plain_alloc 10 ?c = Inr c'"
    by (simp add: allocate_kvcache_def resolve_cache_backend_def sample_cache_context_def
        backend_allocate_def allocate_gqa_kvcache_def allocate_device_tensor_def plain_alloc_def)
  have "\<exists>t off. cc_kv_cache c' = Some t \<and> kv_stride (from_cache_context c') 1 3 9 = Inr off \<and>
           off = element_offset t (block_index ?c 1 3 9) * element_size t \<and>
           off + block_num_bytes (from_cache_context c') \<le> tensor_storage_span_num_bytes t"
    by (rule kv_offset_addresses_cache [OF plain_alloc_doc sample_post_init c'])
      (simp_all add: sample_cache_context_def num_local_kv_heads_def kv_planes_def)
  with c' show ?thesis by blast
qed

text \<open>
  Distinct cache blocks never share bytes. Two different (plane, layer, block) coordinates of a
  layout with non-negative sizes have disjoint payload intervals, and consecutive blocks of a layer
  are exactly one pitch apart (which is what lets the reads of a contiguous block table be merged).
\<close>

lemma kv_blocks_disjoint:
  assumes "layout_ok l" and "kv_stride l kv layer b = Inr off" "kv_stride l kv' layer' b' = Inr off'"
    and "0 \<le> layer" "layer < tl_num_hidden_layers l" "0 \<le> layer'" "layer' < tl_num_hidden_layers l"
    and "0 \<le> b" "b < tl_num_blocks l" "0 \<le> b'" "b' < tl_num_blocks l"
    and "(kv, layer, b) \<noteq> (kv', layer', b')"
  shows "(off + block_num_bytes l \<le> off' \<or> off' + block_num_bytes l \<le> off) \<and>
         kv_stride l kv layer (b + 1) = Inr (off + block_stride l 1)"
proof -
  let ?n = "tl_num_hidden_layers l"
  have single: "tl_mode l \<noteq> ''dsv4'' \<or> kv = 0" "tl_mode l \<noteq> ''dsv4'' \<or> kv' = 0"
    using assms(2,3) by (auto simp: kv_stride_def split: if_splits)
  have off: "off = layer_stride l (kv * ?n + layer) b" "off' = layer_stride l (kv' * ?n + layer') b'"
    using assms(2,3) kv_stride_row [OF assms(1)] single by auto
  have bl: "b < layer_blocks l" "b' < layer_blocks l" using assms by (auto simp: layer_blocks_def)
  have "(kv * ?n + layer, b) \<noteq> (kv' * ?n + layer', b')"
    using assms(12) row_major_unique [of layer ?n layer' kv kv'] assms by auto
  then show ?thesis
    using kv_region.disjoint [OF assms(1)] kv_region.consecutive [OF assms(1)] assms bl off
      kv_stride_row [OF assms(1) single(1)] by simp
qed

lemma kv_blocks_disjoint_witness:
  "\<exists>off off'. kv_stride (from_cache_context (sample_cache_context\<lparr>cc_num_local_kvcache_blocks := 953\<rparr>)) 0 3 952 = Inr off \<and>
     kv_stride (from_cache_context (sample_cache_context\<lparr>cc_num_local_kvcache_blocks := 953\<rparr>)) 1 0 0 = Inr off' \<and>
     (off + 131072 \<le> off' \<or> off' + 131072 \<le> off)"
proof -
  let ?l = "from_cache_context (sample_cache_context\<lparr>cc_num_local_kvcache_blocks := 953\<rparr>)"
  have l: "layout_ok ?l" "tl_num_hidden_layers ?l = 4" "tl_num_blocks ?l = 953" "block_num_bytes ?l = 131072"
    by (simp_all add: layout_ok_def from_cache_context_def sample_cache_context_def
        num_local_kv_heads_def block_num_bytes_def block_stride_def)
  obtain off off' where "kv_stride ?l 0 3 952 = Inr off" "kv_stride ?l 1 0 0 = Inr off'"
    by (simp add: kv_stride_def from_cache_context_def sample_cache_context_def)
  with kv_blocks_disjoint [OF l(1) this] l show ?thesis by auto
qed

end
