(* ===== verification/Migration.thy ===== *)
theory Migration
  imports Pipeline Cache_Layout
begin

section \<open>Cache migration metadata (\<open>cache_transfer.py\<close>, \<open>llm_component.py\<close>)\<close>

text \<open>
  A prefill engine publishes its topology and cache layout (\<open>_register_with_nanoctrl\<close>); a decode
  engine fetches it, validates it (\<open>migrate_from_bytes\<close>) and turns every block of a migrated
  sequence into reads addressed to the prefill rank that holds it. This theory models publication,
  fetching with its cache, validation and the construction of the read assignments. An exception
  aborts the migration; what was recorded of the peer before it is not part of the result.
  The properties: published metadata is accepted; accepted ranges are a split policy; every cached
  layer is read exactly once from the rank and stage-local slot that hold it; two mismatches between
  publisher and consumer.
\<close>

text \<open>Published metadata; \<open>None\<close> or an empty container is an absent key.\<close>

record engine_info =
  ei_architecture :: "string option"
  ei_kvcache_block_size :: "int option"
  ei_attention_sp :: "int option"
  ei_max_num_seqs :: "int option"
  ei_gdn_num_slots :: "int option"
  ei_mtp_handoff_num_drafts :: "int option"
  ei_attention_tp :: "int option"
  ei_attention_dp :: "int option"
  ei_pp :: "int option"
  ei_num_hidden_layers :: "int option"
  ei_mtp_num_kv_layers :: "int option"
  ei_pp_layer_ranges :: "layer_range list"
  ei_pp_cache_layer_indices :: "int list list"
  ei_pp_dsv4_ratio_layer_indices :: "int \<rightharpoonup> int list list"
  ei_num_local_kv_heads :: "int option"
  ei_dsv4_compressed_pool_pages :: "int \<rightharpoonup> int"
  ei_dsv4_max_slots :: "int option"
  ei_dsv4_num_layers_per_ratio :: "int \<rightharpoonup> int"
  ei_peer_addrs :: "string list"

definition empty_info :: engine_info where
  "empty_info = \<lparr>ei_architecture = None, ei_kvcache_block_size = None, ei_attention_sp = None,
     ei_max_num_seqs = None, ei_gdn_num_slots = None, ei_mtp_handoff_num_drafts = None,
     ei_attention_tp = None, ei_attention_dp = None, ei_pp = None, ei_num_hidden_layers = None,
     ei_mtp_num_kv_layers = None, ei_pp_layer_ranges = [], ei_pp_cache_layer_indices = [],
     ei_pp_dsv4_ratio_layer_indices = Map.empty, ei_num_local_kv_heads = None,
     ei_dsv4_compressed_pool_pages = Map.empty, ei_dsv4_max_slots = None,
     ei_dsv4_num_layers_per_ratio = Map.empty, ei_peer_addrs = []\<rparr>"

definition or_else :: "'a option \<Rightarrow> 'a \<Rightarrow> 'a" where
  "or_else x d = (case x of None \<Rightarrow> d | Some v \<Rightarrow> v)"

lemma or_else_simps [simp]: "or_else None d = d" "or_else (Some v) d = v"
  by (simp_all add: or_else_def)

subsection \<open>State kept about remote engines\<close>

record migration_state =
  ms_num_remote_kvcache_blocks :: "string \<rightharpoonup> int"
  ms_remote_max_num_seqs :: "string \<rightharpoonup> int"
  ms_remote_attention_tp :: "string \<rightharpoonup> int"
  ms_remote_attention_dp :: "string \<rightharpoonup> int"
  ms_remote_pp :: "string \<rightharpoonup> int"
  ms_remote_num_hidden_layers :: "string \<rightharpoonup> int"
  ms_remote_pp_layer_ranges :: "string \<rightharpoonup> layer_range list"
  ms_remote_pp_cache_layer_indices :: "string \<rightharpoonup> int list list"
  ms_remote_pp_dsv4_ratio_layer_indices :: "string \<rightharpoonup> (int \<rightharpoonup> int list list)"
  ms_remote_gdn_num_slots :: "string \<rightharpoonup> int"
  ms_remote_mtp_handoff_num_drafts :: "string \<rightharpoonup> int"
  ms_remote_compressed_pool_pages :: "string \<rightharpoonup> (int \<rightharpoonup> int)"
  ms_remote_dsv4_max_slots :: "string \<rightharpoonup> int"
  ms_remote_dsv4_num_layers_per_ratio :: "string \<rightharpoonup> (int \<rightharpoonup> int)"
  ms_engine_info_cache :: "(string \<rightharpoonup> engine_info) option"

definition initialize_migration_state :: migration_state where
  "initialize_migration_state =
     \<lparr>ms_num_remote_kvcache_blocks = Map.empty, ms_remote_max_num_seqs = Map.empty,
      ms_remote_attention_tp = Map.empty, ms_remote_attention_dp = Map.empty,
      ms_remote_pp = Map.empty, ms_remote_num_hidden_layers = Map.empty,
      ms_remote_pp_layer_ranges = Map.empty, ms_remote_pp_cache_layer_indices = Map.empty,
      ms_remote_pp_dsv4_ratio_layer_indices = Map.empty, ms_remote_gdn_num_slots = Map.empty,
      ms_remote_mtp_handoff_num_drafts = Map.empty, ms_remote_compressed_pool_pages = Map.empty,
      ms_remote_dsv4_max_slots = Map.empty, ms_remote_dsv4_num_layers_per_ratio = Map.empty,
      ms_engine_info_cache = None\<rparr>"

definition invalidate_engine_info_cache :: "migration_state \<Rightarrow> migration_state" where
  "invalidate_engine_info_cache st = st\<lparr>ms_engine_info_cache := None\<rparr>"

definition p2p_disconnect :: "string \<Rightarrow> migration_state \<Rightarrow> migration_state" where
  "p2p_disconnect rid st =
     invalidate_engine_info_cache (st\<lparr>
       ms_num_remote_kvcache_blocks := (ms_num_remote_kvcache_blocks st)(rid := None),
       ms_remote_max_num_seqs := (ms_remote_max_num_seqs st)(rid := None),
       ms_remote_attention_tp := (ms_remote_attention_tp st)(rid := None),
       ms_remote_attention_dp := (ms_remote_attention_dp st)(rid := None),
       ms_remote_pp := (ms_remote_pp st)(rid := None),
       ms_remote_num_hidden_layers := (ms_remote_num_hidden_layers st)(rid := None),
       ms_remote_pp_layer_ranges := (ms_remote_pp_layer_ranges st)(rid := None),
       ms_remote_pp_cache_layer_indices := (ms_remote_pp_cache_layer_indices st)(rid := None),
       ms_remote_pp_dsv4_ratio_layer_indices :=
         (ms_remote_pp_dsv4_ratio_layer_indices st)(rid := None),
       ms_remote_gdn_num_slots := (ms_remote_gdn_num_slots st)(rid := None),
       ms_remote_mtp_handoff_num_drafts := (ms_remote_mtp_handoff_num_drafts st)(rid := None),
       ms_remote_compressed_pool_pages := (ms_remote_compressed_pool_pages st)(rid := None),
       ms_remote_dsv4_max_slots := (ms_remote_dsv4_max_slots st)(rid := None),
       ms_remote_dsv4_num_layers_per_ratio := (ms_remote_dsv4_num_layers_per_ratio st)(rid := None)\<rparr>)"

subsection \<open>Fetching metadata\<close>

text \<open>
  \<open>lookup\<close> is one request to the control plane: \<open>None\<close> for a failed request, a status other than
  ok, or empty metadata. The cache never expires. \<open>requested\<close> is the set of engine ids, as the list
  of its elements in iteration order; the result beside the map is the list of ids requested over
  the network.
\<close>

definition fetch_engine_info_from_ctrl ::
  "bool \<Rightarrow> (string \<Rightarrow> engine_info option) \<Rightarrow> string list \<Rightarrow> migration_state
   \<Rightarrow> migration_state \<times> (string \<rightharpoonup> engine_info) \<times> string list" where
  "fetch_engine_info_from_ctrl has_ctrl_address lookup requested st =
     (if requested = [] then (st, Map.empty, [])
      else
        (let cached = or_else (ms_engine_info_cache st) Map.empty;
             hits = cached |` set requested;
             missing = filter (\<lambda>e. cached e = None) requested
         in if ms_engine_info_cache st \<noteq> None \<and> missing = [] then (st, hits, [])
            else if \<not> has_ctrl_address then (st, hits, [])
            else
              (let fetched = lookup |` set missing;
                   st' = (if dom fetched = {} then st
                          else st\<lparr>ms_engine_info_cache := Some (cached ++ fetched)\<rparr>)
               in (st', hits ++ fetched, missing))))"

subsection \<open>Validation of a peer\<close>

text \<open>The fields of a migrated sequence.\<close>

record migration_view =
  mv_seq_id :: int
  mv_engine_id :: string
  mv_group_size :: int
  mv_dp_idx :: int
  mv_num_kvcache_blocks :: int
  mv_migrate_block_location :: "(int \<times> int) list"
  mv_active_block_location :: "(int \<times> int) list"
  mv_migrate_compressed :: "(int \<times> int list) list"
  mv_active_compressed :: "int \<rightharpoonup> int list"
  mv_migrate_state_slot :: int
  mv_active_state_slot :: int

text \<open>The decode side: its cache context, architecture and mesh coordinates.\<close>

record decode_side =
  ds_cache :: cache_context
  ds_architecture :: "string option"
  ds_pp_world_size :: int
  ds_sp_idx :: int
  ds_tp_idx :: int

definition valid_stage_ranges :: "layer_range list \<Rightarrow> int \<Rightarrow> int \<Rightarrow> bool" where
  "valid_stage_ranges rs remote_pp layers \<longleftrightarrow>
     py_len rs = remote_pp \<and> rs \<noteq> [] \<and> fst (hd rs) = 0 \<and> snd (last rs) = layers \<and>
     list_all (\<lambda>((start, end), (next_start, _)). start < end \<and> end = next_start) (zip rs (tl rs)) \<and>
     fst (last rs) < snd (last rs)"

definition remote_stage_ranges :: "engine_info \<Rightarrow> int \<Rightarrow> int \<Rightarrow> layer_range list res" where
  "remote_stage_ranges info remote_pp effective_remote_layers =
     rbind (if ei_pp_layer_ranges info \<noteq> [] then Inr (ei_pp_layer_ranges info)
            else pp_layer_partition effective_remote_layers remote_pp None) (\<lambda>rs.
     rbind (check (valid_stage_ranges rs remote_pp effective_remote_layers)
              (RuntimeErr ''Invalid PP layer ranges'')) (\<lambda>_. Inr rs))"

definition remote_cache_layers :: "engine_info \<Rightarrow> layer_range list \<Rightarrow> int list list" where
  "remote_cache_layers info rs =
     (if ei_pp_cache_layer_indices info \<noteq> [] then ei_pp_cache_layer_indices info
      else map (\<lambda>(start, end). py_range start end) rs)"

definition check_one_stage ::
  "int \<Rightarrow> int \<Rightarrow> int list \<Rightarrow> layer_range list \<Rightarrow> int \<times> int list \<Rightarrow> unit res" where
  "check_one_stage remote_pp layers predictor_slots rs x =
     (case x of (stage, ls) \<Rightarrow>
       rbind (py_nth rs stage) (\<lambda>(start, end).
         (let target_layers = filter (\<lambda>l. l < layers) ls;
              stage_predictor_slots = filter (\<lambda>l. layers \<le> l) ls
          in rbind (check (list_all (\<lambda>l. start \<le> l \<and> l < end) target_layers)
                      (RuntimeErr ''PP cache layer outside stage range'')) (\<lambda>_.
             check (stage_predictor_slots = [] \<or>
                    stage = remote_pp - 1 \<and> stage_predictor_slots = predictor_slots)
               (RuntimeErr ''PP MTP cache must belong only to the final stage'')))))"

definition check_stage_cache_layers ::
  "int \<Rightarrow> int \<Rightarrow> int list \<Rightarrow> layer_range list \<Rightarrow> int list list \<Rightarrow> unit res" where
  "check_stage_cache_layers remote_pp layers predictor_slots rs by_stage =
     fold_res (\<lambda>x _. check_one_stage remote_pp layers predictor_slots rs x) (py_enumerate by_stage) ()"

definition check_pp_cache_layers ::
  "decode_side \<Rightarrow> int \<Rightarrow> int \<Rightarrow> int \<Rightarrow> int \<Rightarrow> layer_range list \<Rightarrow> int list list \<Rightarrow> unit res" where
  "check_pp_cache_layers ds remote_pp remote_layers_total layers mtp rs by_stage =
     (let flattened = concat by_stage;
          predictor_slots = py_range layers (layers + mtp)
      in rbind (check (0 < remote_layers_total) (RuntimeErr ''did not publish num_hidden_layers'')) (\<lambda>_.
         rbind (check (ds_pp_world_size ds \<le> 1) (RuntimeErr ''PD migration between two PP engines'')) (\<lambda>_.
         rbind (check (py_len by_stage = remote_pp) (RuntimeErr ''PP cache-layer metadata mismatch'')) (\<lambda>_.
         rbind (check (py_len rs = remote_pp) (RuntimeErr ''PP layer-range metadata mismatch'')) (\<lambda>_.
         rbind (check (py_len flattened = cc_num_hidden_layers (ds_cache ds))
                  (RuntimeErr ''PP cache-layer count mismatch'')) (\<lambda>_.
         rbind (check (distinct flattened) (RuntimeErr ''PP cache-layer metadata contains duplicates'')) (\<lambda>_.
         rbind (check (flattened = sort flattened)
                  (RuntimeErr ''PP cache layers are not in global slot order'')) (\<lambda>_.
         rbind (check (mtp = 0 \<or> py_slice_from flattened (- mtp) = predictor_slots)
                  (RuntimeErr ''PP MTP cache slots are not the global tail'')) (\<lambda>_.
         check_stage_cache_layers remote_pp layers predictor_slots rs by_stage)))))))))"

definition check_peer_compat :: "decode_side \<Rightarrow> engine_info \<Rightarrow> migration_view \<Rightarrow> unit res" where
  "check_peer_compat ds info v =
     (let c = ds_cache ds;
          remote_drafts = or_else (ei_mtp_handoff_num_drafts info) 0;
          local_drafts = cc_mtp_num_drafts c
      in rbind (check (case (ei_architecture info, ds_architecture ds) of
                         (Some r, Some l) \<Rightarrow> r = [] \<or> l = [] \<or> r = l | _ \<Rightarrow> True)
                  (RuntimeErr ''PD cache architecture mismatch'')) (\<lambda>_.
         rbind (check (or_else (ei_kvcache_block_size info) (cc_block_size c) = cc_block_size c)
                  (RuntimeErr ''PD cache block-size mismatch'')) (\<lambda>_.
         rbind (check (or_else (ei_attention_sp info) (mv_group_size v) = mv_group_size v)
                  (RuntimeErr ''PD attention_sp metadata mismatch'')) (\<lambda>_.
         check (local_drafts = 0 \<or> remote_drafts = local_drafts)
           (RuntimeErr ''PD MTP configuration mismatch'')))))"

definition record_peer ::
  "engine_info \<Rightarrow> string \<Rightarrow> layer_range list \<Rightarrow> int list list \<Rightarrow> migration_state \<Rightarrow> migration_state" where
  "record_peer info eid rs by_stage st =
     st\<lparr>ms_remote_mtp_handoff_num_drafts :=
          (ms_remote_mtp_handoff_num_drafts st)(eid \<mapsto> or_else (ei_mtp_handoff_num_drafts info) 0),
        ms_remote_attention_tp := (ms_remote_attention_tp st)(eid \<mapsto> or_else (ei_attention_tp info) 1),
        ms_remote_attention_dp := (ms_remote_attention_dp st)(eid \<mapsto> or_else (ei_attention_dp info) 1),
        ms_remote_pp := (ms_remote_pp st)(eid \<mapsto> or_else (ei_pp info) 1),
        ms_remote_num_hidden_layers :=
          (ms_remote_num_hidden_layers st)(eid \<mapsto> or_else (ei_num_hidden_layers info) 0),
        ms_remote_pp_layer_ranges := (ms_remote_pp_layer_ranges st)(eid \<mapsto> rs),
        ms_remote_pp_cache_layer_indices := (ms_remote_pp_cache_layer_indices st)(eid \<mapsto> by_stage),
        ms_remote_pp_dsv4_ratio_layer_indices :=
          (ms_remote_pp_dsv4_ratio_layer_indices st)(eid \<mapsto> ei_pp_dsv4_ratio_layer_indices info),
        ms_remote_compressed_pool_pages :=
          (ms_remote_compressed_pool_pages st)(eid \<mapsto> ei_dsv4_compressed_pool_pages info),
        ms_remote_dsv4_max_slots :=
          (ms_remote_dsv4_max_slots st)
            (eid \<mapsto> or_else (ei_dsv4_max_slots info) (or_else (ei_max_num_seqs info) 0)),
        ms_remote_dsv4_num_layers_per_ratio :=
          (ms_remote_dsv4_num_layers_per_ratio st)(eid \<mapsto> ei_dsv4_num_layers_per_ratio info)\<rparr>"

text \<open>One iteration of the first loop over the migrated sequences.\<close>

definition validate_peer ::
  "decode_side \<Rightarrow> engine_info \<Rightarrow> migration_view \<Rightarrow> migration_state \<Rightarrow> migration_state res" where
  "validate_peer ds info v st =
     rbind (check_peer_compat ds info v) (\<lambda>_.
     (let remote_pp = or_else (ei_pp info) 1;
          total = or_else (ei_num_hidden_layers info) 0;
          layers = or_default total (cc_num_hidden_layers (ds_cache ds));
          mtp = or_else (ei_mtp_num_kv_layers info) 0
      in rbind (remote_stage_ranges info remote_pp layers) (\<lambda>rs.
         (let by_stage = remote_cache_layers info rs
          in rbind (if 1 < remote_pp then check_pp_cache_layers ds remote_pp total layers mtp rs by_stage
                    else Inr ()) (\<lambda>_.
             rbind (check (or_else (ei_num_local_kv_heads info) (num_local_kv_heads (ds_cache ds)) =
                           num_local_kv_heads (ds_cache ds))
                      (RuntimeErr ''KV-head shard mismatch'')) (\<lambda>_.
             Inr (record_peer info (mv_engine_id v) rs by_stage st)))))))"

text \<open>
  Connecting: the requests are (peer, engine, blocks, max sequences, GDN slots); the block counts are
  recorded for every request, the peers that are not connected yet are connected in one batch.
\<close>

definition connection_requests ::
  "engine_info \<Rightarrow> migration_view \<Rightarrow> (string \<times> string \<times> int \<times> int \<times> int) list" where
  "connection_requests info v =
     map (\<lambda>peer. (peer, mv_engine_id v, mv_num_kvcache_blocks v, or_else (ei_max_num_seqs info) 0,
                  or_else (ei_gdn_num_slots info) 0)) (ei_peer_addrs info)"

definition ensure_peer_connections ::
  "(string \<Rightarrow> bool) \<Rightarrow> (string \<times> string \<times> int \<times> int \<times> int) list \<Rightarrow> migration_state
   \<Rightarrow> migration_state \<times> string list" where
  "ensure_peer_connections is_connected requests st =
     (fold (\<lambda>(peer, eid, blocks, seqs, slots) st.
         st\<lparr>ms_num_remote_kvcache_blocks := (ms_num_remote_kvcache_blocks st)(eid \<mapsto> blocks),
            ms_remote_max_num_seqs := (ms_remote_max_num_seqs st)(eid \<mapsto> seqs),
            ms_remote_gdn_num_slots :=
              (if 0 < slots then (ms_remote_gdn_num_slots st)(eid \<mapsto> slots)
               else ms_remote_gdn_num_slots st)\<rparr>) requests st,
      rev (remdups (rev (filter (\<lambda>p. p \<noteq> [] \<and> \<not> is_connected p) (map fst requests)))))"

subsection \<open>Read assignments\<close>

text \<open>
  The code collects assignments in dictionaries \<open>engine \<rightarrow> peer \<rightarrow> list\<close>; here each assignment carries
  its engine and peer and the lists are in append order, so a dictionary entry is a filter of the list.
\<close>

record kv_read =
  kr_engine :: string
  kr_peer :: string
  kr_kv :: int
  kr_local_layer :: int
  kr_remote_layer :: int
  kr_remote_num_layers :: int
  kr_remote_block :: int
  kr_local_block :: int

record layer_read =
  lr_engine :: string
  lr_peer :: string
  lr_local_layer :: int
  lr_remote_layer :: int
  lr_remote_slot :: int
  lr_local_slot :: int

record assignments =
  as_kv :: "kv_read list"
  as_indexer :: "layer_read list"
  as_compressed :: "(int \<times> layer_read) list"
  as_compressor :: "(int \<times> layer_read) list"
  as_mtp :: "(string \<times> string \<times> int \<times> int) list"
  as_gdn :: "layer_read list"

definition remote_global_rank :: "int \<Rightarrow> int \<Rightarrow> int \<Rightarrow> int \<Rightarrow> int \<Rightarrow> int \<Rightarrow> int res" where
  "remote_global_rank dp_idx dp_size sp_idx sp_size tp_idx tp_size =
     pp_global_rank 0 dp_idx sp_idx tp_idx dp_size sp_size tp_size"

text \<open>The dictionary comprehension from a global layer to its stage and slot; later keys win.\<close>

definition layer_locations :: "int list list \<Rightarrow> int \<rightharpoonup> int \<times> int" where
  "layer_locations by_stage =
     map_of (rev (concat (map (\<lambda>(stage, ls). map (\<lambda>(j, l). (l, (stage, j))) (py_enumerate ls))
       (py_enumerate by_stage))))"

text \<open>What the second loop derives for one sequence before it looks at its blocks.\<close>

record view_layout =
  vl_pp :: int
  vl_ranges :: "layer_range list"
  vl_by_stage :: "int list list"
  vl_inner :: int
  vl_dp :: int
  vl_tp :: int
  vl_peers :: "string list"

definition layout_of_view ::
  "decode_side \<Rightarrow> migration_state \<Rightarrow> engine_info \<Rightarrow> migration_view \<Rightarrow> view_layout res" where
  "layout_of_view ds st info v =
     (let eid = mv_engine_id v;
          peers = ei_peer_addrs info;
          pp = or_else (ms_remote_pp st eid) 1;
          dp = or_else (ms_remote_attention_dp st eid) 1;
          tp = or_else (ms_remote_attention_tp st eid) 1;
          inner = dp * mv_group_size v * tp;
          n = cc_num_hidden_layers (ds_cache ds)
      in rbind (check (peers \<noteq> []) (RuntimeErr ''no peer_addrs'')) (\<lambda>_.
         rbind (if 1 < pp then dict_item (ms_remote_pp_layer_ranges st) eid else Inr [(0, n)]) (\<lambda>rs.
         rbind (if 1 < pp then dict_item (ms_remote_pp_cache_layer_indices st) eid
                else Inr [py_range 0 n]) (\<lambda>by_stage.
         rbind (check (0 \<le> mv_dp_idx v \<and> mv_dp_idx v < dp) (RuntimeErr ''remote DP index'')) (\<lambda>_.
         rbind (check (0 \<le> ds_tp_idx ds \<and> ds_tp_idx ds < tp) (RuntimeErr ''decode TP index'')) (\<lambda>_.
         rbind (check (\<not> (1 < pp \<and> pp * inner \<noteq> py_len peers)) (RuntimeErr ''PP peer layout mismatch'')) (\<lambda>_.
         rbind (check (length (mv_migrate_block_location v) \<le> length (mv_active_block_location v))
                  (RuntimeErr ''migrate has MORE blocks than active'')) (\<lambda>_.
         Inr \<lparr>vl_pp = pp, vl_ranges = rs, vl_by_stage = by_stage, vl_inner = inner, vl_dp = dp,
              vl_tp = tp, vl_peers = peers\<rparr>))))))))"

definition cache_planes :: "cache_context \<Rightarrow> int" where
  "cache_planes c = (if cc_mode c \<in> {''mla'', ''dsv4''} then 1 else 2)"

definition route_layer :: "view_layout \<Rightarrow> int list list \<Rightarrow> int \<Rightarrow> int \<Rightarrow> (string \<times> int \<times> int) res" where
  "route_layer vl by_stage inner_rank gl =
     rbind (dict_item (layer_locations by_stage) gl) (\<lambda>(stage, remote_layer).
     rbind (py_nth (vl_peers vl) (stage * vl_inner vl + inner_rank)) (\<lambda>peer.
     Inr (peer, stage, remote_layer)))"

definition kv_reads_of_block ::
  "decode_side \<Rightarrow> view_layout \<Rightarrow> string \<Rightarrow> int \<Rightarrow> int \<Rightarrow> int \<Rightarrow> kv_read list res" where
  "kv_reads_of_block ds vl eid inner_rank remote_block local_block =
     (let flat = concat (vl_by_stage vl)
      in rbind (mapr (\<lambda>kv. mapr (\<lambda>(local_layer, gl).
            rbind (route_layer vl (vl_by_stage vl) inner_rank gl) (\<lambda>(peer, stage, remote_layer).
            rbind (py_nth (vl_by_stage vl) stage) (\<lambda>stage_layers.
            Inr \<lparr>kr_engine = eid, kr_peer = peer, kr_kv = kv, kr_local_layer = local_layer,
                 kr_remote_layer = remote_layer, kr_remote_num_layers = py_len stage_layers,
                 kr_remote_block = remote_block, kr_local_block = local_block\<rparr>)))
            (py_enumerate flat)) (py_range 0 (cache_planes (ds_cache ds))))
         (\<lambda>rss. Inr (concat rss)))"

definition layer_reads ::
  "view_layout \<Rightarrow> int list list \<Rightarrow> string \<Rightarrow> int \<Rightarrow> int \<Rightarrow> int \<Rightarrow> layer_read list res" where
  "layer_reads vl by_stage eid inner_rank remote_slot local_slot =
     mapr (\<lambda>(local_layer, gl).
       rbind (route_layer vl by_stage inner_rank gl) (\<lambda>(peer, stage, remote_layer).
       Inr \<lparr>lr_engine = eid, lr_peer = peer, lr_local_layer = local_layer,
            lr_remote_layer = remote_layer, lr_remote_slot = remote_slot, lr_local_slot = local_slot\<rparr>))
     (py_enumerate (concat by_stage))"

definition reads_of_block ::
  "decode_side \<Rightarrow> migration_state \<Rightarrow> view_layout \<Rightarrow> migration_view \<Rightarrow> (int \<times> int) \<times> (int \<times> int)
   \<Rightarrow> (kv_read list \<times> layer_read list) res" where
  "reads_of_block ds st vl v bl =
     (case bl of ((remote_sp_idx, remote_block), (source_sp_idx, source_block)) \<Rightarrow>
       (let remote_max = or_else (ms_num_remote_kvcache_blocks st (mv_engine_id v)) 0
        in rbind (check (0 \<le> source_block \<and> source_block < cc_num_local_kvcache_blocks (ds_cache ds))
                    (RuntimeErr ''source_block_idx out of range'')) (\<lambda>_.
           rbind (check (0 \<le> remote_block \<and> (remote_max \<le> 0 \<or> remote_block < remote_max))
                    (RuntimeErr ''remote_block_idx out of range'')) (\<lambda>_.
           if source_sp_idx \<noteq> ds_sp_idx ds then Inr ([], [])
           else
             rbind (remote_global_rank (mv_dp_idx v) (vl_dp vl) remote_sp_idx (mv_group_size v)
                      (ds_tp_idx ds) (vl_tp vl)) (\<lambda>inner_rank.
             rbind (check ((py_len (vl_ranges vl) - 1) * vl_inner vl + inner_rank < py_len (vl_peers vl))
                      (RuntimeErr ''remote_rank out of range'')) (\<lambda>_.
             rbind (kv_reads_of_block ds vl (mv_engine_id v) inner_rank remote_block source_block) (\<lambda>kv.
             rbind (if cc_indexer_cache (ds_cache ds) = None then Inr []
                    else layer_reads vl (vl_by_stage vl) (mv_engine_id v) inner_rank remote_block source_block)
             (\<lambda>ix. Inr (kv, ix)))))))))"

text \<open>State outside the paged cache lives on the last sequence-parallel rank of a stage.\<close>

definition state_inner_rank :: "decode_side \<Rightarrow> view_layout \<Rightarrow> migration_view \<Rightarrow> int res" where
  "state_inner_rank ds vl v =
     remote_global_rank (mv_dp_idx v) (vl_dp vl) (mv_group_size v - 1) (mv_group_size v)
       (ds_tp_idx ds) (vl_tp vl)"

definition ratio_layers_by_stage ::
  "decode_side \<Rightarrow> migration_state \<Rightarrow> view_layout \<Rightarrow> string \<Rightarrow> int \<Rightarrow> int list list res" where
  "ratio_layers_by_stage ds st vl eid ratio =
     (if 1 < vl_pp vl
      then rbind (dict_item (ms_remote_pp_dsv4_ratio_layer_indices st) eid) (\<lambda>d. Inr (or_else (d ratio) []))
      else Inr [py_range 0 (py_len (or_else (cc_layers_per_ratio (ds_cache ds) ratio) []))])"

definition compressed_reads_of_ratio ::
  "decode_side \<Rightarrow> migration_state \<Rightarrow> view_layout \<Rightarrow> migration_view \<Rightarrow> int \<Rightarrow> int \<times> int list
   \<Rightarrow> (int \<times> layer_read) list res" where
  "compressed_reads_of_ratio ds st vl v inner_rank rp =
     (case rp of (ratio, remote_pages) \<Rightarrow>
       (case cc_compressed_flat (ds_cache ds) ratio of
          None \<Rightarrow> Inr []
        | Some flat \<Rightarrow>
            (let local_pages = or_else (mv_active_compressed v ratio) []
             in rbind (ratio_layers_by_stage ds st vl (mv_engine_id v) ratio) (\<lambda>by_stage.
                rbind (check (vl_pp vl \<le> 1 \<or> py_len by_stage = vl_pp vl)
                         (RuntimeErr ''Missing DSv4 PP layer metadata'')) (\<lambda>_.
                rbind (check (py_len (concat by_stage) = t_shape flat ! 0)
                         (RuntimeErr ''DSv4 layer-count mismatch'')) (\<lambda>_.
                rbind (layer_reads vl by_stage (mv_engine_id v) inner_rank 0 0) (\<lambda>rs.
                Inr (concat (map (\<lambda>r. map (\<lambda>(rpage, lpage).
                       (ratio, r\<lparr>lr_remote_slot := rpage, lr_local_slot := lpage\<rparr>))
                       (zip remote_pages local_pages)) rs)))))))))"

definition compressed_reads ::
  "decode_side \<Rightarrow> migration_state \<Rightarrow> view_layout \<Rightarrow> migration_view \<Rightarrow> (int \<times> layer_read) list res" where
  "compressed_reads ds st vl v =
     (if cc_compressed_flat (ds_cache ds) = Map.empty \<or> mv_migrate_compressed v = [] then Inr []
      else rbind (state_inner_rank ds vl v) (\<lambda>inner_rank.
           rbind (mapr (compressed_reads_of_ratio ds st vl v inner_rank) (mv_migrate_compressed v))
             (\<lambda>rss. Inr (concat rss))))"

definition has_state_slots :: "migration_view \<Rightarrow> bool" where
  "has_state_slots v \<longleftrightarrow> 0 \<le> mv_migrate_state_slot v \<and> 0 \<le> mv_active_state_slot v"

definition compressor_reads ::
  "decode_side \<Rightarrow> migration_state \<Rightarrow> view_layout \<Rightarrow> migration_view \<Rightarrow> (int \<times> layer_read) list res" where
  "compressor_reads ds st vl v =
     (let c = ds_cache ds;
          ratios = filter (\<lambda>r. cc_compressor_kv c r \<noteq> None) (unique_ratios (cc_compress_ratios c))
      in if ratios = [] \<or> \<not> has_state_slots v then Inr []
         else rbind (state_inner_rank ds vl v) (\<lambda>inner_rank.
              rbind (mapr (\<lambda>ratio.
                  rbind (ratio_layers_by_stage ds st vl (mv_engine_id v) ratio) (\<lambda>by_stage.
                  rbind (check (py_len (concat by_stage) = t_shape (the (cc_compressor_kv c ratio)) ! 0)
                           (RuntimeErr ''DSv4 compressor layer-count mismatch'')) (\<lambda>_.
                  rbind (layer_reads vl by_stage (mv_engine_id v) inner_rank
                           (mv_migrate_state_slot v) (mv_active_state_slot v)) (\<lambda>rs.
                  Inr (map (Pair ratio) rs))))) ratios)
                (\<lambda>rss. Inr (concat rss))))"

definition mtp_reads ::
  "decode_side \<Rightarrow> view_layout \<Rightarrow> migration_view \<Rightarrow> (string \<times> string \<times> int \<times> int) list res" where
  "mtp_reads ds vl v =
     (if cc_mtp_handoff (ds_cache ds) = None \<or> \<not> has_state_slots v then Inr []
      else rbind (state_inner_rank ds vl v) (\<lambda>inner_rank.
           rbind (py_nth (vl_peers vl) ((vl_pp vl - 1) * vl_inner vl + inner_rank)) (\<lambda>peer.
           Inr [(mv_engine_id v, peer, mv_migrate_state_slot v, mv_active_state_slot v)])))"

definition gdn_reads ::
  "decode_side \<Rightarrow> view_layout \<Rightarrow> migration_view \<Rightarrow> layer_read list res" where
  "gdn_reads ds vl v =
     (case (cc_gdn_conv_states (ds_cache ds), cc_gdn_recurrent_states (ds_cache ds)) of
        (Some _, Some rec) \<Rightarrow>
          if \<not> has_state_slots v then Inr []
          else rbind (state_inner_rank ds vl v) (\<lambda>inner_rank.
               mapr (\<lambda>layer.
                 rbind (if 1 < vl_pp vl
                        then rbind (pp_stage_of_layer layer (vl_ranges vl)) (\<lambda>stage.
                             rbind (py_nth (vl_ranges vl) stage) (\<lambda>(stage_start, _).
                             Inr (stage, layer - stage_start)))
                        else Inr (0, layer)) (\<lambda>(stage, remote_layer).
                 rbind (py_nth (vl_peers vl) (stage * vl_inner vl + inner_rank)) (\<lambda>peer.
                 Inr \<lparr>lr_engine = mv_engine_id v, lr_peer = peer, lr_local_layer = layer,
                      lr_remote_layer = remote_layer, lr_remote_slot = mv_migrate_state_slot v,
                      lr_local_slot = mv_active_state_slot v\<rparr>)))
               (py_range 0 (t_shape rec ! 0)))
      | _ \<Rightarrow> Inr [])"

definition reads_of_view ::
  "decode_side \<Rightarrow> migration_state \<Rightarrow> (string \<rightharpoonup> engine_info) \<Rightarrow> migration_view \<Rightarrow> assignments \<Rightarrow> assignments res" where
  "reads_of_view ds st infos v acc =
     rbind (layout_of_view ds st (or_else (infos (mv_engine_id v)) empty_info) v) (\<lambda>vl.
     rbind (mapr (reads_of_block ds st vl v)
              (zip (mv_migrate_block_location v) (mv_active_block_location v))) (\<lambda>blocks.
     rbind (compressed_reads ds st vl v) (\<lambda>comp.
     rbind (compressor_reads ds st vl v) (\<lambda>cstate.
     rbind (mtp_reads ds vl v) (\<lambda>mtp.
     rbind (gdn_reads ds vl v) (\<lambda>gdn.
     Inr (acc\<lparr>as_kv := as_kv acc @ concat (map fst blocks),
              as_indexer := as_indexer acc @ concat (map snd blocks),
              as_compressed := as_compressed acc @ comp,
              as_compressor := as_compressor acc @ cstate,
              as_mtp := as_mtp acc @ mtp,
              as_gdn := as_gdn acc @ gdn\<rparr>)))))))"

definition no_assignments :: assignments where
  "no_assignments = \<lparr>as_kv = [], as_indexer = [], as_compressed = [], as_compressor = [], as_mtp = [],
     as_gdn = []\<rparr>"

text \<open>
  \<open>migrate_from_bytes\<close> up to the submission: fetch, validate every sequence's peer, connect, build
  the assignments. \<open>None\<close>: nothing to do (no peer agent, no target).
\<close>

definition plan_migration ::
  "decode_side \<Rightarrow> bool \<Rightarrow> bool \<Rightarrow> (string \<Rightarrow> engine_info option) \<Rightarrow> (string \<Rightarrow> bool) \<Rightarrow> migration_view list
   \<Rightarrow> migration_state \<Rightarrow> (migration_state \<times> assignments) option res" where
  "plan_migration ds has_agent has_ctrl lookup is_connected views st0 =
     (let targets = remdups (filter (\<lambda>e. e \<noteq> []) (map mv_engine_id views))
      in if \<not> has_agent \<or> targets = [] then Inr None
         else (case fetch_engine_info_from_ctrl has_ctrl lookup targets st0 of (st1, infos, _) \<Rightarrow>
           rbind (fold_res (\<lambda>v st. validate_peer ds (or_else (infos (mv_engine_id v)) empty_info) v st)
                    views st1) (\<lambda>st2.
           (let requests = concat (map (\<lambda>v. connection_requests
                              (or_else (infos (mv_engine_id v)) empty_info) v) views);
                st3 = fst (ensure_peer_connections is_connected requests st2)
            in rbind (fold_res (reads_of_view ds st3 infos) views no_assignments) (\<lambda>asg.
               Inr (Some (st3, asg)))))))"

subsection \<open>Publication (\<open>llm_component.py\<close>)\<close>

record publisher_config =
  pc_hf :: layer_config
  pc_pp :: int
  pc_attention_dp :: int
  pc_attention_sp :: int
  pc_attention_tp :: int
  pc_max_num_seqs :: int
  pc_gdn_state_cache_slots :: int
  pc_num_speculative_tokens :: int
  pc_num_nextn_predict_layers :: "int option"
  pc_mtp_num_hidden_layers :: "int option"
  pc_enable_hisparse :: bool
  pc_compress_ratios :: "int list"
  pc_kvcache_block_size :: int
  pc_num_key_value_heads :: "int option"
  pc_max_model_len :: int
  pc_pool_pages_ratio4 :: int
  pc_pool_pages_ratio128 :: int
  pc_peer_addrs :: "string list"

abbreviation pc_arch :: "publisher_config \<Rightarrow> string" where
  "pc_arch pc \<equiv> first_arch (architectures (pc_hf pc))"

definition pp_layer_ranges :: "publisher_config \<Rightarrow> layer_range list res" where
  "pp_layer_ranges pc =
     rbind (if 1 < pc_pp pc \<and> pc_arch pc \<in> {''Gemma4ForCausalLM'', ''Gemma4ForConditionalGeneration''}
            then get_gemma4_shared_kv_source_start (pc_hf pc) else Inr None)
       (pp_layer_partition (num_hidden_layers (pc_hf pc)) (pc_pp pc))"

definition mtp_num_kv_layers :: "publisher_config \<Rightarrow> int" where
  "mtp_num_kv_layers pc =
     (if pc_num_speculative_tokens pc \<le> 0 then 0
      else if pc_arch pc \<notin> {''DeepseekV3ForCausalLM'', ''DeepseekV32ForCausalLM'', ''GlmMoeDsaForCausalLM''}
        then 0
      else max 1 (max (int_or (pc_num_nextn_predict_layers pc) 0) (int_or (pc_mtp_num_hidden_layers pc) 0)))"

definition pp_cache_layer_indices :: "publisher_config \<Rightarrow> int list list res" where
  "pp_cache_layer_indices pc =
     rbind (pp_layer_ranges pc) (\<lambda>ranges.
     (let target = cache_layer_indices (pc_hf pc) (pc_enable_hisparse pc);
          mtp = mtp_num_kv_layers pc
      in rbind (partition_layer_indices target ranges) (\<lambda>by_stage.
         if mtp = 0 then Inr by_stage
         else if by_stage = [] then Inl IndexError
         else Inr (butlast by_stage @ [last by_stage @ py_range (py_len target) (py_len target + mtp)]))))"

definition pp_dsv4_ratio_layer_indices :: "publisher_config \<Rightarrow> (int \<rightharpoonup> int list list) res" where
  "pp_dsv4_ratio_layer_indices pc =
     rbind (pp_layer_ranges pc) (\<lambda>ranges.
     rbind (mapr (\<lambda>ratio. rbind (partition_layer_indices (layers_for_ratio (pc_compress_ratios pc) ratio) ranges)
                    (\<lambda>p. Inr (ratio, p))) (unique_ratios (pc_compress_ratios pc)))
       (\<lambda>ps. Inr (map_of ps)))"

definition published_kv_heads :: "publisher_config \<Rightarrow> int" where
  "published_kv_heads pc = or_else (pc_num_key_value_heads pc) 1 div pc_attention_tp pc"

definition published_gdn_slots :: "publisher_config \<Rightarrow> int" where
  "published_gdn_slots pc =
     (let max_bs = pc_max_num_seqs pc + max 0 (pc_gdn_state_cache_slots pc)
      in if 0 < pc_num_speculative_tokens pc then max_bs * 2 + 1 else max_bs + 1)"

text \<open>The metadata of the control-plane registration, restricted to the keys migration reads.\<close>

definition register_with_nanoctrl :: "publisher_config \<Rightarrow> engine_info res" where
  "register_with_nanoctrl pc =
     rbind (pp_layer_ranges pc) (\<lambda>ranges.
     rbind (pp_cache_layer_indices pc) (\<lambda>cache_layers.
     rbind (pp_dsv4_ratio_layer_indices pc) (\<lambda>ratio_layers.
     if pc_attention_tp pc = 0 then Inl ZeroDivisionError
     else Inr (empty_info\<lparr>
       ei_max_num_seqs := Some (pc_max_num_seqs pc),
       ei_gdn_num_slots := Some (published_gdn_slots pc),
       ei_mtp_handoff_num_drafts :=
         Some (if 1 < pc_num_speculative_tokens pc then pc_num_speculative_tokens pc else 0),
       ei_mtp_num_kv_layers := Some (mtp_num_kv_layers pc),
       ei_architecture := Some (pc_arch pc),
       ei_attention_dp := Some (pc_attention_dp pc),
       ei_attention_sp := Some (pc_attention_sp pc),
       ei_attention_tp := Some (pc_attention_tp pc),
       ei_pp := Some (pc_pp pc),
       ei_num_hidden_layers := Some (num_hidden_layers (pc_hf pc)),
       ei_pp_layer_ranges := ranges,
       ei_pp_cache_layer_indices := cache_layers,
       ei_pp_dsv4_ratio_layer_indices := ratio_layers,
       ei_num_local_kv_heads := Some (published_kv_heads pc),
       ei_kvcache_block_size := Some (pc_kvcache_block_size pc),
       ei_peer_addrs := pc_peer_addrs pc\<rparr>))))"

definition published_pool_pages :: "publisher_config \<Rightarrow> int \<Rightarrow> int" where
  "published_pool_pages pc ratio =
     (let page_size = 2;
          max_compressed = (pc_max_model_len pc div ratio + 63) div 64 * 64;
          max_blocks = (max_compressed + page_size - 1) div page_size;
          worst = pc_max_num_seqs pc * max_blocks;
          override = (if ratio = 4 then pc_pool_pages_ratio4 pc
                      else if ratio = 128 then pc_pool_pages_ratio128 pc else 0)
      in if 0 < override then override else worst)"

text \<open>The JSON of a direct query: only here the DSv4 pool sizes are part of the answer.\<close>

definition get_engine_info :: "publisher_config \<Rightarrow> engine_info res" where
  "get_engine_info pc =
     rbind (pp_layer_ranges pc) (\<lambda>ranges.
     rbind (pp_cache_layer_indices pc) (\<lambda>cache_layers.
     rbind (pp_dsv4_ratio_layer_indices pc) (\<lambda>ratio_layers.
     if pc_attention_tp pc = 0 then Inl ZeroDivisionError
     else (let base = empty_info\<lparr>
       ei_max_num_seqs := Some (pc_max_num_seqs pc),
       ei_attention_dp := Some (pc_attention_dp pc),
       ei_attention_sp := Some (pc_attention_sp pc),
       ei_attention_tp := Some (pc_attention_tp pc),
       ei_pp := Some (pc_pp pc),
       ei_num_hidden_layers := Some (num_hidden_layers (pc_hf pc)),
       ei_pp_layer_ranges := ranges,
       ei_mtp_num_kv_layers := Some (mtp_num_kv_layers pc),
       ei_pp_cache_layer_indices := cache_layers,
       ei_pp_dsv4_ratio_layer_indices := ratio_layers,
       ei_num_local_kv_heads := Some (published_kv_heads pc),
       ei_peer_addrs := pc_peer_addrs pc\<rparr>
      in Inr (if pc_arch pc = ''DeepseekV4ForCausalLM''
              then base\<lparr>
                ei_dsv4_compressed_pool_pages :=
                  (\<lambda>r. if r \<in> set (unique_ratios (pc_compress_ratios pc)) then Some (published_pool_pages pc r) else None),
                ei_dsv4_max_slots := Some (pc_max_num_seqs pc),
                ei_dsv4_num_layers_per_ratio :=
                  (\<lambda>r. if r \<in> set (unique_ratios (pc_compress_ratios pc))
                       then Some (int (length (filter (\<lambda>x. x = r) (pc_compress_ratios pc)))) else None)\<rparr>
              else base)))))"

subsection \<open>Accepted ranges are a split policy\<close>

lemma adjacent_ranges_chain:
  "rs \<noteq> [] \<Longrightarrow> list_all (\<lambda>((s, e), (s', _)). s < e \<and> e = s') (zip rs (tl rs)) \<Longrightarrow>
     fst (last rs) < snd (last rs) \<Longrightarrow> chain (fst (hd rs)) rs (snd (last rs))"
proof (induction rs)
  case (Cons r rs)
  then show ?case by (cases r; cases rs) auto
qed simp

interpretation peer_split: layer_split
  "\<lambda>(info, pp, layers). remote_stage_ranges info pp layers" "\<lambda>_. True"
  "\<lambda>(info, pp, layers). layers" "\<lambda>(info, pp, layers). pp"
proof
  fix c rs assume "(\<lambda>(info, pp, layers). remote_stage_ranges info pp layers) c = Inr rs"
  moreover obtain info pp layers where c: "c = (info, pp, layers)" by (cases c)
  ultimately have "valid_stage_ranges rs pp layers"
    by (auto simp: remote_stage_ranges_def rbind_Inr_iff)
  then show "chain 0 rs ((\<lambda>(info, pp, layers). layers) c)" "py_len rs = (\<lambda>(info, pp, layers). pp) c"
    using adjacent_ranges_chain [of rs] by (auto simp: valid_stage_ranges_def c)
qed

lemma chain_valid_ranges:
  assumes "chain a rs b" "rs \<noteq> []" "\<forall>r\<in>set rs. fst r < snd r"
  shows "fst (hd rs) = a" "snd (last rs) = b" "fst (last rs) < snd (last rs)"
    "list_all (\<lambda>((s, e), (s', _)). s < e \<and> e = s') (zip rs (tl rs))"
proof -
  have "fst (hd rs) = a \<and> snd (last rs) = b \<and> fst (last rs) < snd (last rs) \<and>
    list_all (\<lambda>((s, e), (s', _)). s < e \<and> e = s') (zip rs (tl rs))"
    using assms
  proof (induction a rs b rule: chain.induct)
    case (2 a s e rs b)
    then show ?case by (cases rs) auto
  qed simp
  then show "fst (hd rs) = a" "snd (last rs) = b" "fst (last rs) < snd (last rs)"
    "list_all (\<lambda>((s, e), (s', _)). s < e \<and> e = s') (zip rs (tl rs))" by blast+
qed

subsection \<open>Routing\<close>

lemma layer_locations_keys:
  "map fst (concat (map (\<lambda>(stage, ls). map (\<lambda>(j, l). (l, (stage, j))) (py_enumerate ls))
     (zip ks by_stage))) = concat (map snd (zip ks by_stage))"
  by (induction by_stage arbitrary: ks)
     (simp, case_tac ks, simp_all add: comp_def case_prod_beta)

lemma layer_locations_Some:
  assumes "distinct (concat by_stage)" "s < length by_stage" "j < length (by_stage ! s)"
  shows "layer_locations by_stage (by_stage ! s ! j) = Some (int s, int j)"
proof -
  let ?kvs = "concat (map (\<lambda>(stage, ls). map (\<lambda>(j, l). (l, (stage, j))) (py_enumerate ls))
     (py_enumerate by_stage))"
  have "map fst ?kvs = concat by_stage"
    using layer_locations_keys [of "map int [0..<length by_stage]" by_stage]
    by (simp add: py_enumerate_def)
  then have "distinct (map fst (rev ?kvs))" using assms(1) by (simp add: rev_map [symmetric])
  moreover have "(by_stage ! s ! j, (int s, int j)) \<in> set (rev ?kvs)"
  proof -
    have "(int s, by_stage ! s) \<in> set (py_enumerate by_stage)" "(int j, by_stage ! s ! j) \<in> set (py_enumerate (by_stage ! s))"
      using assms(2,3) by (auto simp: set_py_enumerate)
    then show ?thesis by force
  qed
  ultimately show ?thesis unfolding layer_locations_def by (rule map_of_is_SomeI)
qed

lemma concat_nth_located:
  "i < length (concat xss) \<Longrightarrow> \<exists>s<length xss. \<exists>j<length (xss ! s). concat xss ! i = xss ! s ! j"
  by (metis in_set_conv_nth nth_mem set_concat UN_iff)

text \<open>What it means that a read fetches a global layer from the right place.\<close>

definition reads_layer_from ::
  "int list list \<Rightarrow> view_layout \<Rightarrow> int \<Rightarrow> int \<Rightarrow> string \<Rightarrow> int \<Rightarrow> nat \<Rightarrow> bool" where
  "reads_layer_from by_stage vl inner_rank gl peer remote_layer s \<longleftrightarrow>
     s < length by_stage \<and> 0 \<le> remote_layer \<and> nat remote_layer < length (by_stage ! s) \<and>
     by_stage ! s ! nat remote_layer = gl \<and>
     py_nth (vl_peers vl) (int s * vl_inner vl + inner_rank) = Inr peer"

lemma route_layer_correct:
  assumes "distinct (concat by_stage)" "gl \<in> set (concat by_stage)"
    and "route_layer vl by_stage inner_rank gl = Inr (peer, stage, remote_layer)"
  shows "\<exists>s. stage = int s \<and> reads_layer_from by_stage vl inner_rank gl peer remote_layer s"
proof -
  obtain i where "i < length (concat by_stage)" "concat by_stage ! i = gl"
    using assms(2) by (metis in_set_conv_nth)
  then obtain s j where sj: "s < length by_stage" "j < length (by_stage ! s)" "by_stage ! s ! j = gl"
    using concat_nth_located by metis
  with layer_locations_Some [OF assms(1) sj(1,2)] assms(3) show ?thesis
    by (auto simp: route_layer_def dict_item_def rbind_Inr_iff reads_layer_from_def)
qed

text \<open>
  C11: every cached layer of a migrated block is read exactly once per plane, from the right place.
  The reads of one block enumerate all (plane, local layer) pairs once; each goes to a rank of the
  stage whose published list holds the global layer of that local slot, at the index the layer has
  in that list, with that list's length as the remote layer count, and keeps the block pair.
\<close>

theorem kv_reads_route_every_layer:
  assumes "kv_reads_of_block ds vl eid inner_rank rb lb = Inr reads"
    and "distinct (concat (vl_by_stage vl))"
  shows "map (\<lambda>r. (kr_kv r, kr_local_layer r)) reads =
           List.product (py_range 0 (cache_planes (ds_cache ds)))
             (py_range 0 (py_len (concat (vl_by_stage vl)))) \<and>
         (\<forall>r\<in>set reads. kr_engine r = eid \<and> kr_remote_block r = rb \<and> kr_local_block r = lb \<and>
            (\<exists>s. reads_layer_from (vl_by_stage vl) vl inner_rank
                   (concat (vl_by_stage vl) ! nat (kr_local_layer r)) (kr_peer r) (kr_remote_layer r) s \<and>
                 kr_remote_num_layers r = py_len (vl_by_stage vl ! s)))"
proof -
  let ?bs = "vl_by_stage vl" let ?flat = "concat ?bs"
  let ?read = "\<lambda>kv (local_layer, gl).
            rbind (route_layer vl ?bs inner_rank gl) (\<lambda>(peer, stage, remote_layer).
            rbind (py_nth ?bs stage) (\<lambda>stage_layers.
            Inr \<lparr>kr_engine = eid, kr_peer = peer, kr_kv = kv, kr_local_layer = local_layer,
                 kr_remote_layer = remote_layer, kr_remote_num_layers = py_len stage_layers,
                 kr_remote_block = rb, kr_local_block = lb\<rparr>))"
  obtain rss where rss: "mapr (\<lambda>kv. mapr (?read kv) (py_enumerate ?flat))
      (py_range 0 (cache_planes (ds_cache ds))) = Inr rss" and reads: "reads = concat rss"
    using assms(1) by (auto simp: kv_reads_of_block_def Let_def rbind_Inr_iff)
  have one: "kr_kv r = kv \<and> kr_local_layer r = int i \<and> kr_engine r = eid \<and> kr_remote_block r = rb \<and>
      kr_local_block r = lb \<and> (\<exists>s. reads_layer_from ?bs vl inner_rank (?flat ! i) (kr_peer r) (kr_remote_layer r) s \<and>
                 kr_remote_num_layers r = py_len (?bs ! s))"
    if h: "?read kv (int i, ?flat ! i) = Inr r" "i < length ?flat" for kv i r
  proof -
    obtain peer stage rl ls where p: "route_layer vl ?bs inner_rank (?flat ! i) = Inr (peer, stage, rl)"
      "py_nth ?bs stage = Inr ls" and r: "r = \<lparr>kr_engine = eid, kr_peer = peer, kr_kv = kv, kr_local_layer = int i,
                 kr_remote_layer = rl, kr_remote_num_layers = py_len ls,
                 kr_remote_block = rb, kr_local_block = lb\<rparr>"
      using h(1) by (auto simp: rbind_Inr_iff)
    obtain s where s: "stage = int s" "reads_layer_from ?bs vl inner_rank (?flat ! i) peer rl s"
      using route_layer_correct [OF assms(2) _ p(1)] h(2) nth_mem by blast
    then have "ls = ?bs ! s" using p(2) by (auto simp: reads_layer_from_def)
    then show ?thesis using r s by auto
  qed
  have row: "map (\<lambda>r. (kr_kv r, kr_local_layer r)) rs = map (Pair kv) (py_range 0 (py_len ?flat))"
    if h: "mapr (?read kv) (py_enumerate ?flat) = Inr rs" for kv rs
    using mapr_Inr_length [OF h] mapr_Inr_nth [OF h] one
    by (intro nth_equalityI) (auto simp: py_len_def)
  have "map (\<lambda>r. (kr_kv r, kr_local_layer r)) reads =
      List.product (py_range 0 (cache_planes (ds_cache ds))) (py_range 0 (py_len ?flat))"
    unfolding reads product_concat_map by (rule mapr_concat [OF rss row])
  moreover have "\<exists>kv. \<exists>i<length ?flat. ?read kv (int i, ?flat ! i) = Inr r" if h: "r \<in> set reads" for r
  proof -
    obtain rs where "rs \<in> set rss" "r \<in> set rs" using h reads by auto
    then obtain kv where "mapr (?read kv) (py_enumerate ?flat) = Inr rs" using mapr_set [OF rss] by blast
    from mapr_set [OF this \<open>r \<in> set rs\<close>] show ?thesis unfolding set_py_enumerate by blast
  qed
  ultimately show ?thesis using one by fastforce
qed

theorem kv_reads_route_every_layer_witness:
  "\<exists>reads. kv_reads_of_block
     \<lparr>ds_cache = sample_cache_context, ds_architecture = None, ds_pp_world_size = 1, ds_sp_idx = 0, ds_tp_idx = 0\<rparr>
     \<lparr>vl_pp = 2, vl_ranges = [(0, 2), (2, 3)], vl_by_stage = [[0, 1], [2]], vl_inner = 1, vl_dp = 1, vl_tp = 1,
      vl_peers = [''p:0'', ''p:1'']\<rparr> ''p'' 0 7 9 = Inr reads \<and>
     map (\<lambda>r. (kr_kv r, kr_local_layer r)) reads = List.product (py_range 0 2) (py_range 0 3)"
proof -
  let ?ds = "\<lparr>ds_cache = sample_cache_context, ds_architecture = None, ds_pp_world_size = 1, ds_sp_idx = 0, ds_tp_idx = 0\<rparr>"
  let ?vl = "\<lparr>vl_pp = 2, vl_ranges = [(0, 2), (2, 3)], vl_by_stage = [[0, 1], [2]], vl_inner = 1, vl_dp = 1, vl_tp = 1,
      vl_peers = [''p:0'', ''p:1'']\<rparr>"
  obtain reads where r: "kv_reads_of_block ?ds ?vl ''p'' 0 7 9 = Inr reads"
    by (simp add: kv_reads_of_block_def cache_planes_def sample_cache_context_def py_range_Cons
        py_enumerate_def upt_rec route_layer_def layer_locations_def py_nth_def dict_item_def Let_def)
  from kv_reads_route_every_layer [OF r] show ?thesis
    using r by (simp add: cache_planes_def sample_cache_context_def)
qed

subsection \<open>Published metadata is accepted\<close>

lemma even_split_nonempty:
  assumes "0 < k" "k \<le> n" "r \<in> set (partition_loop (n div k) (n mod k) 0 (py_range 0 k))"
  shows "fst r < snd r"
proof -
  let ?g = "split_point (n div k) (n mod k)"
  obtain i where i: "r = (?g i, ?g (i + 1))"
    using assms even_split(1) [of n k] by auto
  have "1 \<le> n div k" using zdiv_less_iff [OF assms(1), of n 1] assms(2) by linarith
  moreover have "?g (i + 1) = ?g i + (n div k + (if i < n mod k then 1 else 0))"
    using split_point_Suc [of "n div k" "n mod k" i] by simp
  ultimately show ?thesis using i by auto
qed

lemma partition_nonempty:
  assumes "1 < k" "k \<le> n" "pp_layer_partition n k f = Inr rs" "r \<in> set rs"
  shows "fst r < snd r"
proof (cases f)
  case None
  then show ?thesis
    using assms even_split_nonempty [of k n r] by (auto simp: pp_layer_partition_def)
next
  case (Some x)
  then show ?thesis
    using assms even_split_nonempty [of "k - 1" x r]
    by (auto simp: pp_layer_partition_def Let_def split: if_splits)
qed

lemma published_ranges_valid:
  assumes "pp_layer_ranges pc = Inr rs" "1 < pc_pp pc" "pc_pp pc \<le> num_hidden_layers (pc_hf pc)"
  shows "chain 0 rs (num_hidden_layers (pc_hf pc))" "py_len rs = pc_pp pc" "rs \<noteq> []"
    "valid_stage_ranges rs (pc_pp pc) (num_hidden_layers (pc_hf pc))"
proof -
  obtain f where f: "pp_layer_partition (num_hidden_layers (pc_hf pc)) (pc_pp pc) f = Inr rs"
    using assms(1) by (auto simp: pp_layer_ranges_def rbind_Inr_iff split: if_splits)
  show ch: "chain 0 rs (num_hidden_layers (pc_hf pc))" and len: "py_len rs = pc_pp pc"
    using pp_layer_partition_chain [OF _ f] assms(2,3) by auto
  show ne: "rs \<noteq> []" using len assms(2) by auto
  show "valid_stage_ranges rs (pc_pp pc) (num_hidden_layers (pc_hf pc))"
    using chain_valid_ranges [OF ch ne] partition_nonempty [OF assms(2,3) f] len ne
    by (simp add: valid_stage_ranges_def)
qed

lemma distinct_cache_layer_indices: "distinct (cache_layer_indices cfg h)"
  by (simp add: cache_layer_indices_def indices_where_alt distinct_map inj_on_def Let_def)

text \<open>The stage lists the publisher sends: the cached layers by range, predictor slots at the end.\<close>

definition predictor_slots :: "publisher_config \<Rightarrow> int list" where
  "predictor_slots pc =
     (let n = py_len (cache_layer_indices (pc_hf pc) (pc_enable_hisparse pc))
      in py_range n (n + mtp_num_kv_layers pc))"

lemma mtp_num_kv_layers_nonneg: "0 \<le> mtp_num_kv_layers pc"
  unfolding mtp_num_kv_layers_def by (simp add: max.coboundedI1)

lemma published_by_stage:
  assumes "pp_layer_ranges pc = Inr rs" "pp_cache_layer_indices pc = Inr bs" "rs \<noteq> []"
    and "chain 0 rs n"
    and "\<And>l. l \<in> set (cache_layer_indices (pc_hf pc) (pc_enable_hisparse pc)) \<Longrightarrow> 0 \<le> l \<and> l < n"
  shows "bs = (let b = by_range (cache_layer_indices (pc_hf pc) (pc_enable_hisparse pc)) rs
               in butlast b @ [last b @ predictor_slots pc])"
    and "concat bs = cache_layer_indices (pc_hf pc) (pc_enable_hisparse pc) @ predictor_slots pc"
proof -
  let ?ls = "cache_layer_indices (pc_hf pc) (pc_enable_hisparse pc)"
  let ?b = "by_range ?ls rs"
  have part: "partition_layer_indices ?ls rs = Inr ?b" "concat ?b = ?ls"
    using partition_by_range [OF assms(4,5)] concat_by_range [OF cache_layer_indices_sorted assms(4,5)]
    by auto
  have ne: "?b \<noteq> []" using assms(3) by (simp add: by_range_def)
  have empty: "mtp_num_kv_layers pc = 0 \<Longrightarrow> predictor_slots pc = []" by (simp add: predictor_slots_def)
  show bs: "bs = (let b = ?b in butlast b @ [last b @ predictor_slots pc])"
    using assms(1,2) part(1) ne empty
    by (auto simp: pp_cache_layer_indices_def predictor_slots_def Let_def split: if_splits)
  show "concat bs = ?ls @ predictor_slots pc"
    using ne part(2) append_butlast_last_id [OF ne] concat_append [of "butlast ?b" "[last ?b]"]
    by (simp add: bs Let_def)
qed

lemma published_stage_check:
  assumes ch: "chain 0 rs n" and rs: "rs \<noteq> []" "py_len rs = pp"
    and cached: "\<And>l. l \<in> set ls \<Longrightarrow> 0 \<le> l \<and> l < n"
    and slots: "\<And>l. l \<in> set slots \<Longrightarrow> n \<le> l"
    and bs: "bs = butlast (by_range ls rs) @ [last (by_range ls rs) @ slots]"
  shows "check_stage_cache_layers pp n slots rs bs = Inr ()"
proof -
  let ?b = "by_range ls rs"
  have len: "length ?b = length rs" "length bs = length rs" "?b \<noteq> []"
    using rs by (auto simp: by_range_def bs)
  have "check_one_stage pp n slots rs (int i, bs ! i) = Inr ()"
    if i: "i < length rs" for i
  proof -
    have "\<forall>l\<in>set (?b ! i). l < n" using i cached by (auto simp: by_range_def)
    then have low: "filter (\<lambda>l. l < n) (?b ! i) = ?b ! i" "filter (\<lambda>l. n \<le> l) (?b ! i) = []"
      by (simp_all add: filter_id_conv filter_empty_conv not_le)
    have high: "filter (\<lambda>l. l < n) slots = []" "filter (\<lambda>l. n \<le> l) slots = slots"
      using slots by (auto simp: filter_id_conv filter_empty_conv not_less)
    have range: "list_all (\<lambda>l. fst (rs ! i) \<le> l \<and> l < snd (rs ! i)) (?b ! i)"
      using i by (auto simp: by_range_def list_all_iff)
    have nth: "bs ! i = ?b ! i @ (if i = length rs - 1 then slots else [])"
    proof (cases "i = length rs - 1")
      case True
      then show ?thesis using i len last_conv_nth [OF len(3)] by (simp add: bs nth_append)
    next
      case False
      then have "i < length rs - 1" using i by linarith
      then show ?thesis using len by (simp add: bs nth_append nth_butlast)
    qed
    have last_stage: "i = length rs - 1 \<Longrightarrow> int i = pp - 1"
      using rs i unfolding py_len_def by linarith
    show ?thesis
      using i low high range last_stage
      by (cases "rs ! i") (auto simp: check_one_stage_def nth Let_def)
  qed
  then show ?thesis
    by (auto simp: check_stage_cache_layers_def fold_res_check set_py_enumerate len)
qed

text \<open>What a matching pair of deployments agrees on.\<close>

definition deployments_match :: "publisher_config \<Rightarrow> decode_side \<Rightarrow> migration_view \<Rightarrow> bool" where
  "deployments_match pc ds v \<longleftrightarrow>
     ds_architecture ds = Some (pc_arch pc) \<and>
     pc_kvcache_block_size pc = cc_block_size (ds_cache ds) \<and>
     pc_attention_sp pc = mv_group_size v \<and> 0 < pc_attention_tp pc \<and>
     (cc_mtp_num_drafts (ds_cache ds) = 0 \<or>
        1 < pc_num_speculative_tokens pc \<and> cc_mtp_num_drafts (ds_cache ds) = pc_num_speculative_tokens pc) \<and>
     published_kv_heads pc = num_local_kv_heads (ds_cache ds) \<and> ds_pp_world_size ds \<le> 1 \<and>
     cc_num_hidden_layers (ds_cache ds) =
       py_len (cache_layer_indices (pc_hf pc) (pc_enable_hisparse pc)) + mtp_num_kv_layers pc"

text \<open>
  C13: publication and validation agree. The metadata a pipeline-parallel prefill engine registers
  (its stage ranges, cached layers per stage and predictor slots) passes every check of a matching
  decode engine, for every layer count, split and cache type the configuration allows; and the ranges
  the decode engine then uses are the ones the prefill workers built their stages from.
\<close>

theorem published_metadata_accepted:
  assumes reg: "register_with_nanoctrl pc = Inr info" and match: "deployments_match pc ds v"
    and pp: "1 < pc_pp pc" "pc_pp pc \<le> num_hidden_layers (pc_hf pc)"
    and types: "py_len (layer_types (pc_hf pc)) \<le> num_hidden_layers (pc_hf pc)"
      "0 \<le> int_or (num_kv_shared_layers (pc_hf pc)) 0"
    and mtp: "mtp_num_kv_layers pc \<noteq> 0 \<Longrightarrow>
        py_len (cache_layer_indices (pc_hf pc) (pc_enable_hisparse pc)) = num_hidden_layers (pc_hf pc)"
  shows "\<exists>rs bs st'. pp_layer_ranges pc = Inr rs \<and> pp_cache_layer_indices pc = Inr bs \<and>
           validate_peer ds info v st = Inr st' \<and>
           ms_remote_pp_layer_ranges st' (mv_engine_id v) = Some rs \<and>
           ms_remote_pp_cache_layer_indices st' (mv_engine_id v) = Some bs \<and>
           distinct (concat bs)"
proof -
  let ?n = "num_hidden_layers (pc_hf pc)" and ?ls = "cache_layer_indices (pc_hf pc) (pc_enable_hisparse pc)"
  obtain rs bs d where r: "pp_layer_ranges pc = Inr rs" "pp_cache_layer_indices pc = Inr bs"
    "pp_dsv4_ratio_layer_indices pc = Inr d"
    using reg by (auto simp: register_with_nanoctrl_def rbind_Inr_iff)
  note rg = published_ranges_valid [OF r(1) pp]
  have cached: "\<And>l. l \<in> set ?ls \<Longrightarrow> 0 \<le> l \<and> l < ?n"
    using cache_layer_indices_bound [OF types] by blast
  note bs = published_by_stage [OF r(1,2) rg(3,1) cached]
  have slots: "predictor_slots pc = py_range ?n (?n + mtp_num_kv_layers pc)"
    using mtp by (cases "mtp_num_kv_layers pc = 0") (simp_all add: predictor_slots_def Let_def)
  then have hi: "\<And>l. l \<in> set (predictor_slots pc) \<Longrightarrow> ?n \<le> l" by simp
  have dist: "distinct (concat bs)" "sorted (concat bs)"
    using cached hi distinct_cache_layer_indices [of "pc_hf pc"] cache_layer_indices_sorted [of "pc_hf pc"]
    by (force simp: bs(2) sorted_append slots)+
  have len: "py_len (concat bs) = cc_num_hidden_layers (ds_cache ds)" "py_len bs = pc_pp pc" "bs \<noteq> []"
    using match rg mtp_num_kv_layers_nonneg [of pc]
    by (auto simp: bs(2) deployments_match_def predictor_slots_def py_len_py_range Let_def)
       (simp_all add: bs(1) Let_def py_len_def by_range_def)
  have tail: "mtp_num_kv_layers pc = 0 \<or>
      py_slice_from (concat bs) (- mtp_num_kv_layers pc) = py_range ?n (?n + mtp_num_kv_layers pc)"
    using mtp_num_kv_layers_nonneg [of pc]
    by (auto simp: py_slice_from_def bs(2) slots py_len_def)
  have stages: "check_stage_cache_layers (pc_pp pc) ?n (py_range ?n (?n + mtp_num_kv_layers pc)) rs bs = Inr ()"
    using published_stage_check [OF rg(1,3,2) cached hi bs(1) [unfolded Let_def]] by (simp add: slots)
  have "validate_peer ds info v st = Inr (record_peer info (mv_engine_id v) rs bs st)"
    using reg r match pp rg(3,4) dist len tail stages
    by (auto simp: register_with_nanoctrl_def validate_peer_def check_peer_compat_def deployments_match_def
        remote_stage_ranges_def remote_cache_layers_def check_pp_cache_layers_def Let_def empty_info_def
        sorted_sort_id rg(2))
  then show ?thesis using r dist by (auto simp: record_peer_def)
qed

definition sample_publisher :: publisher_config where
  "sample_publisher = \<lparr>pc_hf = \<lparr>num_hidden_layers = 4, architectures = [''DeepseekV3ForCausalLM''],
       layer_types = [], num_kv_shared_layers = None\<rparr>,
     pc_pp = 2, pc_attention_dp = 1, pc_attention_sp = 1, pc_attention_tp = 1, pc_max_num_seqs = 8,
     pc_gdn_state_cache_slots = 0, pc_num_speculative_tokens = 1, pc_num_nextn_predict_layers = Some 1,
     pc_mtp_num_hidden_layers = None, pc_enable_hisparse = False, pc_compress_ratios = [],
     pc_kvcache_block_size = 64, pc_num_key_value_heads = Some 1, pc_max_model_len = 1024,
     pc_pool_pages_ratio4 = 0, pc_pool_pages_ratio128 = 0, pc_peer_addrs = [''p:0'', ''p:1'']\<rparr>"

definition sample_view :: migration_view where
  "sample_view = \<lparr>mv_seq_id = 1, mv_engine_id = ''p'', mv_group_size = 1, mv_dp_idx = 0,
     mv_num_kvcache_blocks = 100, mv_migrate_block_location = [(0, 3)], mv_active_block_location = [(0, 5)],
     mv_migrate_compressed = [], mv_active_compressed = Map.empty, mv_migrate_state_slot = - 1,
     mv_active_state_slot = - 1\<rparr>"

theorem published_metadata_accepted_witness:
  "\<exists>info st'. register_with_nanoctrl sample_publisher = Inr info \<and>
     validate_peer \<lparr>ds_cache = sample_cache_context\<lparr>cc_mode := ''mla'', cc_num_hidden_layers := 5\<rparr>,
         ds_architecture = Some ''DeepseekV3ForCausalLM'', ds_pp_world_size = 1, ds_sp_idx = 0, ds_tp_idx = 0\<rparr>
       info sample_view initialize_migration_state = Inr st'"
proof -
  let ?ds = "\<lparr>ds_cache = sample_cache_context\<lparr>cc_mode := ''mla'', cc_num_hidden_layers := 5\<rparr>,
         ds_architecture = Some ''DeepseekV3ForCausalLM'', ds_pp_world_size = 1, ds_sp_idx = 0, ds_tp_idx = 0\<rparr>"
  have mtp: "mtp_num_kv_layers sample_publisher = 1"
    by (simp add: mtp_num_kv_layers_def sample_publisher_def first_arch_def int_or_def)
  have ls: "cache_layer_indices (pc_hf sample_publisher) (pc_enable_hisparse sample_publisher) = [0, 1, 2, 3]"
    by (simp add: cache_layer_indices_def sample_publisher_def first_arch_def py_range_Cons Let_def)
  have rs: "pp_layer_ranges sample_publisher = Inr [(0, 2), (2, 4)]"
    by (simp add: pp_layer_ranges_def sample_publisher_def first_arch_def pp_layer_partition_def py_range_Cons)
  have part: "partition_layer_indices [0, 1, 2, 3] [(0, 2), (2, 4)] = Inr [[0, 1], [2, 3]]"
    by code_simp
  obtain info where info: "register_with_nanoctrl sample_publisher = Inr info"
    by (simp add: register_with_nanoctrl_def rs pp_cache_layer_indices_def ls part mtp Let_def
        pp_dsv4_ratio_layer_indices_def unique_ratios_def)
       (simp add: sample_publisher_def unique_ratios_def)
  have "deployments_match sample_publisher ?ds sample_view"
    by (simp add: deployments_match_def mtp ls)
       (simp add: sample_publisher_def sample_view_def sample_cache_context_def first_arch_def
        published_kv_heads_def num_local_kv_heads_def)
  from published_metadata_accepted [OF info this] show ?thesis
    using info by (simp add: mtp ls) (auto simp: sample_publisher_def int_or_def)
qed

subsection \<open>Two mismatches between publisher and consumer\<close>

text \<open>
  An MLA engine with tensor-parallel attention can never be migrated from. It keeps one
  compressed KV head per rank but publishes its single KV head divided by the tensor-parallel size,
  which is 0, and every MLA decode engine rejects that as a shard mismatch.
\<close>

lemma mla_tp_metadata_rejected:
  assumes "register_with_nanoctrl pc = Inr info" "pc_num_key_value_heads pc = Some 1"
    and "1 < pc_attention_tp pc" "cc_mode (ds_cache ds) = ''mla''"
  shows "\<nexists>st'. validate_peer ds info v st = Inr st'"
proof -
  have "ei_num_local_kv_heads info = Some 0"
    using assms(1-3) by (auto simp: register_with_nanoctrl_def rbind_Inr_iff published_kv_heads_def split: if_splits)
  then show ?thesis
    using assms(4) by (auto simp: validate_peer_def Let_def rbind_Inr_iff num_local_kv_heads_def)
qed

lemma mla_tp_metadata_rejected_witness:
  "\<exists>info. register_with_nanoctrl
       (sample_publisher\<lparr>pc_hf := \<lparr>num_hidden_layers = 4, architectures = [''KimiK3ForConditionalGeneration''],
          layer_types = [], num_kv_shared_layers = None\<rparr>, pc_pp := 1, pc_attention_tp := 8\<rparr>) = Inr info \<and>
     (\<nexists>st'. validate_peer \<lparr>ds_cache = sample_cache_context\<lparr>cc_mode := ''mla''\<rparr>,
         ds_architecture = Some ''KimiK3ForConditionalGeneration'', ds_pp_world_size = 1, ds_sp_idx = 0, ds_tp_idx = 0\<rparr>
       info sample_view initialize_migration_state = Inr st')"
proof -
  let ?pc = "sample_publisher\<lparr>pc_hf := \<lparr>num_hidden_layers = 4, architectures = [''KimiK3ForConditionalGeneration''],
          layer_types = [], num_kv_shared_layers = None\<rparr>, pc_pp := 1, pc_attention_tp := 8\<rparr>"
  have part: "partition_layer_indices [0, 1, 2, 3] [(0, 4)] = Inr [[0, 1, 2, 3]]"
    by code_simp
  obtain info where info: "register_with_nanoctrl ?pc = Inr info"
    using part
    by (simp add: register_with_nanoctrl_def pp_layer_ranges_def sample_publisher_def first_arch_def
        pp_layer_partition_def pp_cache_layer_indices_def cache_layer_indices_def Let_def py_range_Cons
        mtp_num_kv_layers_def pp_dsv4_ratio_layer_indices_def unique_ratios_def)
  have "pc_num_key_value_heads ?pc = Some 1" "1 < pc_attention_tp ?pc" by (simp_all add: sample_publisher_def)
  from mla_tp_metadata_rejected [OF info this] info show ?thesis by auto
qed

end
