(* ===== verification/Migration_Plan.thy ===== *)
theory Migration_Plan
  imports Migration
begin

section \<open>What a migration plan records and assigns\<close>

text \<open>
  The decode side of a migration end to end: from the metadata a prefill engine registers, through
  the fetch, the validation and the connection requests, to the byte offsets the layout computes for
  that engine and to the coordinates of the assigned reads. The property compares the offsets with
  the ones of the prefill worker's own layout.
\<close>

text \<open>The layout reads its fields from the transfer object.\<close>

definition layout_source_of :: "decode_side \<Rightarrow> migration_state \<Rightarrow> layout_source" where
  "layout_source_of ds st =
     \<lparr>ls_cache_context = ds_cache ds, ls_num_remote_kvcache_blocks = ms_num_remote_kvcache_blocks st,
      ls_remote_gdn_num_slots = ms_remote_gdn_num_slots st,
      ls_remote_compressed_pool_pages = ms_remote_compressed_pool_pages st,
      ls_remote_dsv4_max_slots = ms_remote_dsv4_max_slots st\<rparr>"

subsection \<open>The steps of a plan\<close>

abbreviation plan_targets :: "migration_view list \<Rightarrow> string list" where
  "plan_targets views \<equiv> remdups (filter (\<lambda>e. e \<noteq> []) (map mv_engine_id views))"

abbreviation plan_requests ::
  "(string \<rightharpoonup> engine_info) \<Rightarrow> migration_view list \<Rightarrow> (string \<times> string \<times> int \<times> int \<times> int) list" where
  "plan_requests infos views \<equiv>
     concat (map (\<lambda>v. connection_requests (or_else (infos (mv_engine_id v)) empty_info) v) views)"

lemma plan_migration_steps:
  assumes "plan_migration ds has_agent has_ctrl lookup is_connected views st0 = Inr (Some (st, asg))"
  obtains st1 infos net st2 where
    "fetch_engine_info_from_ctrl has_ctrl lookup (plan_targets views) st0 = (st1, infos, net)"
    "fold_res (\<lambda>v. validate_peer ds (or_else (infos (mv_engine_id v)) empty_info) v) views st1 = Inr st2"
    "st = fst (ensure_peer_connections is_connected (plan_requests infos views) st2)"
    "fold_res (reads_of_view ds st infos) views no_assignments = Inr asg"
  using assms that unfolding plan_migration_def Let_def
  by (fastforce simp: rbind_Inr_iff split: if_splits prod.splits)

lemma fold_res_reached:
  assumes "fold_res f xs s = Inr t" "x \<in> set xs"
  obtains ys s' t' where "set ys \<subseteq> set xs" "f x s' = Inr t'" "fold_res f ys t' = Inr t"
proof -
  obtain as bs where xs: "xs = as @ x # bs" using split_list [OF assms(2)] by blast
  with assms(1) that [of bs] show thesis by (auto simp: fold_res_append rbind_Inr_iff)
qed

text \<open>A published engine's metadata reaches the validation, fresh or from the cache.\<close>

lemma fetched_info:
  assumes "fetch_engine_info_from_ctrl True lookup targets st0 = (st1, infos, net)" "eid \<in> set targets"
    and "lookup eid = Some info" "or_else (ms_engine_info_cache st0) Map.empty eid \<in> {None, Some info}"
  shows "infos eid = Some info"
proof -
  let ?cached = "or_else (ms_engine_info_cache st0) Map.empty"
  let ?missing = "filter (\<lambda>e. ?cached e = None) targets"
  have "infos = (?cached |` set targets) ++ (lookup |` set ?missing)"
  proof (cases "?missing = []")
    case True
    then have "lookup |` set ?missing = Map.empty" by (simp only: list.set restrict_map_to_empty)
    then show ?thesis
      using assms(1,2) True by (auto simp: fetch_engine_info_from_ctrl_def Let_def restrict_map_to_empty split: if_splits)
  next
    case False
    then show ?thesis
      using assms(1,2) by (auto simp: fetch_engine_info_from_ctrl_def Let_def split: if_splits)
  qed
  then show ?thesis using assms(2-4) by (auto simp: map_add_def restrict_map_def split: option.splits)
qed

lemma fetch_frame:
  "fetch_engine_info_from_ctrl has_ctrl lookup targets st0 = (st1, infos, net) \<Longrightarrow>
     ms_num_remote_kvcache_blocks st1 = ms_num_remote_kvcache_blocks st0"
  by (auto simp: fetch_engine_info_from_ctrl_def Let_def split: if_splits)

lemma validate_peer_frame:
  assumes "validate_peer ds info v st = Inr st'"
  shows "ms_num_remote_kvcache_blocks st' = ms_num_remote_kvcache_blocks st"
    "ms_remote_dsv4_max_slots st' = (ms_remote_dsv4_max_slots st)
       (mv_engine_id v \<mapsto> or_else (ei_dsv4_max_slots info) (or_else (ei_max_num_seqs info) 0))"
  using assms by (auto simp: validate_peer_def Let_def rbind_Inr_iff record_peer_def)

lemma validate_peer_checked:
  assumes "validate_peer ds info v st = Inr st'"
  shows "or_else (ei_kvcache_block_size info) (cc_block_size (ds_cache ds)) = cc_block_size (ds_cache ds)"
    "or_else (ei_num_local_kv_heads info) (num_local_kv_heads (ds_cache ds)) = num_local_kv_heads (ds_cache ds)"
  using assms by (auto simp: validate_peer_def check_peer_compat_def Let_def rbind_Inr_iff)

lemma validated_views:
  assumes "fold_res (\<lambda>v. validate_peer ds (or_else (infos (mv_engine_id v)) empty_info) v) views st1 = Inr st2"
  shows "ms_num_remote_kvcache_blocks st2 = ms_num_remote_kvcache_blocks st1"
    and "v \<in> set views \<Longrightarrow> infos (mv_engine_id v) = Some info \<Longrightarrow>
      ms_remote_dsv4_max_slots st2 (mv_engine_id v) =
        Some (or_else (ei_dsv4_max_slots info) (or_else (ei_max_num_seqs info) 0)) \<and>
      (\<exists>st st'. validate_peer ds info v st = Inr st')"
proof -
  let ?f = "\<lambda>v. validate_peer ds (or_else (infos (mv_engine_id v)) empty_info) v"
  show "ms_num_remote_kvcache_blocks st2 = ms_num_remote_kvcache_blocks st1"
    by (rule fold_res_invariant [OF assms]) (simp_all add: validate_peer_frame(1))
  assume v: "v \<in> set views" "infos (mv_engine_id v) = Some info"
  let ?n = "Some (or_else (ei_dsv4_max_slots info) (or_else (ei_max_num_seqs info) 0))"
  obtain ys s' t' where "set ys \<subseteq> set views" and r: "?f v s' = Inr t'" "fold_res ?f ys t' = Inr st2"
    by (rule fold_res_reached [OF assms v(1)])
  have "ms_remote_dsv4_max_slots st2 (mv_engine_id v) = ?n"
  proof (rule fold_res_invariant [OF r(2)])
    show "ms_remote_dsv4_max_slots t' (mv_engine_id v) = ?n"
      using validate_peer_frame(2) [OF r(1)] v(2) by simp
  next
    fix w s t assume h: "ms_remote_dsv4_max_slots s (mv_engine_id v) = ?n" and w: "?f w s = Inr t"
    show "ms_remote_dsv4_max_slots t (mv_engine_id v) = ?n"
      using validate_peer_frame(2) [OF w] h v(2) by (cases "mv_engine_id w = mv_engine_id v") simp_all
  qed
  then show "ms_remote_dsv4_max_slots st2 (mv_engine_id v) = ?n \<and> (\<exists>st st'. validate_peer ds info v st = Inr st')"
    using r(1) v(2) by auto
qed

lemma connections_recorded:
  assumes "\<exists>q\<in>set requests. fst (snd q) = eid"
    and "\<And>peer blocks seqs slots. (peer, eid, blocks, seqs, slots) \<in> set requests \<Longrightarrow> blocks = b \<and> slots = g"
    and "0 < g"
  shows "ms_num_remote_kvcache_blocks (fst (ensure_peer_connections is_connected requests st)) eid = Some b \<and>
    ms_remote_gdn_num_slots (fst (ensure_peer_connections is_connected requests st)) eid = Some g"
proof -
  let ?step = "\<lambda>(peer, eid, blocks, seqs, slots) st.
         st\<lparr>ms_num_remote_kvcache_blocks := (ms_num_remote_kvcache_blocks st)(eid \<mapsto> blocks),
            ms_remote_max_num_seqs := (ms_remote_max_num_seqs st)(eid \<mapsto> seqs),
            ms_remote_gdn_num_slots :=
              (if 0 < slots then (ms_remote_gdn_num_slots st)(eid \<mapsto> slots)
               else ms_remote_gdn_num_slots st)\<rparr>"
  have keep: "ms_num_remote_kvcache_blocks (fold ?step qs st) eid = Some b \<and>
      ms_remote_gdn_num_slots (fold ?step qs st) eid = Some g"
    if "ms_num_remote_kvcache_blocks st eid = Some b \<and> ms_remote_gdn_num_slots st eid = Some g"
      "set qs \<subseteq> set requests" for qs and st :: migration_state
    using that assms(2,3) by (induction qs arbitrary: st) fastforce+
  obtain as peer blocks seqs slots bs where q: "requests = as @ (peer, eid, blocks, seqs, slots) # bs"
    using assms(1) by (metis split_list prod.collapse)
  then have "blocks = b" "slots = g" "set bs \<subseteq> set requests" using assms(2) by auto
  then show ?thesis
    using keep [of "?step (peer, eid, blocks, seqs, slots) (fold ?step as st)" bs] assms(3) q
    by (simp add: ensure_peer_connections_def)
qed

lemma connected_blocks_nonneg:
  assumes "\<forall>n\<in>ran (ms_num_remote_kvcache_blocks st). 0 \<le> n" "\<forall>q\<in>set requests. 0 \<le> fst (snd (snd q))"
  shows "\<forall>n\<in>ran (ms_num_remote_kvcache_blocks (fst (ensure_peer_connections is_connected requests st))). 0 \<le> n"
  using assms unfolding ensure_peer_connections_def fst_conv
proof (induction requests arbitrary: st)
  case (Cons q requests)
  obtain peer eid blocks seqs slots where q: "q = (peer, eid, blocks, seqs, slots)" by (cases q)
  have "\<forall>n\<in>ran ((ms_num_remote_kvcache_blocks st)(eid \<mapsto> blocks)). 0 \<le> n"
    using Cons.prems by (auto simp: q ran_def)
  then show ?case using Cons.prems(2) unfolding fold.simps comp_def by (intro Cons.IH) (simp_all add: q fun_upd_def)
qed simp

subsection \<open>The coordinates of assigned reads\<close>

definition read_coords_ok :: "decode_side \<Rightarrow> kv_read \<Rightarrow> bool" where
  "read_coords_ok ds r \<longleftrightarrow>
     0 \<le> kr_kv r \<and> kr_kv r < cache_planes (ds_cache ds) \<and> 0 \<le> kr_local_layer r \<and> 0 \<le> kr_remote_layer r \<and>
     0 \<le> kr_remote_num_layers r \<and> 0 \<le> kr_remote_block r \<and>
     0 \<le> kr_local_block r \<and> kr_local_block r < cc_num_local_kvcache_blocks (ds_cache ds)"

lemma layer_locations_nonneg:
  assumes "layer_locations by_stage gl = Some (stage, j)"
  shows "0 \<le> stage \<and> 0 \<le> j"
  using map_of_SomeD [OF assms [unfolded layer_locations_def]] by (auto simp: set_py_enumerate)

lemma block_read_coords:
  assumes "kv_reads_of_block ds vl eid inner_rank rb lb = Inr reads" "r \<in> set reads"
    and "0 \<le> rb" "0 \<le> lb" "lb < cc_num_local_kvcache_blocks (ds_cache ds)"
  shows "read_coords_ok ds r"
proof -
  let ?bs = "vl_by_stage vl"
  let ?read = "\<lambda>kv (local_layer, gl).
            rbind (route_layer vl ?bs inner_rank gl) (\<lambda>(peer, stage, remote_layer).
            rbind (py_nth ?bs stage) (\<lambda>stage_layers.
            Inr \<lparr>kr_engine = eid, kr_peer = peer, kr_kv = kv, kr_local_layer = local_layer,
                 kr_remote_layer = remote_layer, kr_remote_num_layers = py_len stage_layers,
                 kr_remote_block = rb, kr_local_block = lb\<rparr>))"
  obtain rss rs where rss: "mapr (\<lambda>kv. mapr (?read kv) (py_enumerate (concat ?bs)))
      (py_range 0 (cache_planes (ds_cache ds))) = Inr rss" and rs: "rs \<in> set rss" "r \<in> set rs"
    using assms(1,2) by (auto simp: kv_reads_of_block_def Let_def rbind_Inr_iff)
  obtain kv where kv: "kv \<in> set (py_range 0 (cache_planes (ds_cache ds)))"
    "mapr (?read kv) (py_enumerate (concat ?bs)) = Inr rs"
    using mapr_set [OF rss rs(1)] by blast
  obtain i gl where i: "?read kv (int i, gl) = Inr r"
    using mapr_set [OF kv(2) rs(2)] by (auto simp only: set_py_enumerate)
  then obtain peer stage j where j: "route_layer vl ?bs inner_rank gl = Inr (peer, stage, j)"
    "kr_kv r = kv" "kr_local_layer r = int i" "kr_remote_layer r = j" "0 \<le> kr_remote_num_layers r"
    "kr_remote_block r = rb" "kr_local_block r = lb"
    by (auto simp: rbind_Inr_iff py_len_def)
  have "0 \<le> j" using j(1) layer_locations_nonneg by (fastforce simp: route_layer_def rbind_Inr_iff)
  then show ?thesis using j kv(1) assms(3-5) by (simp add: read_coords_ok_def)
qed

lemma view_read_coords:
  assumes "reads_of_view ds st infos v acc = Inr acc'" "\<forall>r\<in>set (as_kv acc). read_coords_ok ds r"
  shows "\<forall>r\<in>set (as_kv acc'). read_coords_ok ds r"
proof
  fix r assume r: "r \<in> set (as_kv acc')"
  obtain vl blocks where b: "mapr (reads_of_block ds st vl v)
      (zip (mv_migrate_block_location v) (mv_active_block_location v)) = Inr blocks"
    "as_kv acc' = as_kv acc @ concat (map fst blocks)"
    using assms(1) by (auto simp: reads_of_view_def rbind_Inr_iff)
  show "read_coords_ok ds r"
  proof (cases "r \<in> set (as_kv acc)")
    case False
    then obtain ks where ks: "ks \<in> set blocks" "r \<in> set (fst ks)" using r b(2) by auto
    from mapr_set [OF b(1) ks(1)] obtain bl where bl: "reads_of_block ds st vl v bl = Inr ks" by blast
    obtain rs rb ss sb where eq: "bl = ((rs, rb), (ss, sb))" by (metis surj_pair)
    have "0 \<le> rb \<and> 0 \<le> sb \<and> sb < cc_num_local_kvcache_blocks (ds_cache ds) \<and>
        (\<exists>ir. kv_reads_of_block ds vl (mv_engine_id v) ir rb sb = Inr (fst ks))"
      using bl ks(2) by (auto simp: eq reads_of_block_def Let_def rbind_Inr_iff split: if_splits)
    then show ?thesis using block_read_coords ks(2) by blast
  qed (use assms(2) in blast)
qed

lemma plan_read_coords:
  assumes "plan_migration ds has_agent has_ctrl lookup is_connected views st0 = Inr (Some (st, asg))"
    and "r \<in> set (as_kv asg)"
  shows "read_coords_ok ds r"
proof -
  obtain infos where f: "fold_res (reads_of_view ds st infos) views no_assignments = Inr asg"
    using plan_migration_steps [OF assms(1)] by metis
  have "\<forall>r\<in>set (as_kv asg). read_coords_ok ds r"
    by (rule fold_res_invariant [OF f]) (use view_read_coords in \<open>auto simp: no_assignments_def\<close>)
  then show ?thesis using assms(2) by blast
qed

lemma plan_blocks_nonneg:
  assumes "plan_migration ds has_agent has_ctrl lookup is_connected views st0 = Inr (Some (st, asg))"
    and "\<forall>n\<in>ran (ms_num_remote_kvcache_blocks st0). 0 \<le> n" "\<forall>v\<in>set views. 0 \<le> mv_num_kvcache_blocks v"
    and "ms_num_remote_kvcache_blocks st eid = Some n"
  shows "0 \<le> n"
proof -
  obtain st1 infos net st2 where f: "fetch_engine_info_from_ctrl has_ctrl lookup (plan_targets views) st0 = (st1, infos, net)"
    "fold_res (\<lambda>v. validate_peer ds (or_else (infos (mv_engine_id v)) empty_info) v) views st1 = Inr st2"
    "st = fst (ensure_peer_connections is_connected (plan_requests infos views) st2)"
    "fold_res (reads_of_view ds st infos) views no_assignments = Inr asg"
    by (rule plan_migration_steps [OF assms(1)])
  have "\<forall>n\<in>ran (ms_num_remote_kvcache_blocks st). 0 \<le> n"
    unfolding f(3) using assms(2,3) validated_views(1) [OF f(2)] fetch_frame [OF f(1)]
    by (intro connected_blocks_nonneg) (auto simp: connection_requests_def)
  then show ?thesis using assms(4) by (auto simp: ran_def)
qed

subsection \<open>The offsets of a published engine\<close>

text \<open>
  Linear-attention state as the workers allocate it: none, or the two tensors of
  \<open>allocate_gdn_states\<close>. Compressor state as they allocate it: none, or the tensors of
  \<open>allocate_dsv4_compressor_state\<close>.
\<close>

definition no_gdn :: "cache_context \<Rightarrow> bool" where
  "no_gdn c \<longleftrightarrow> cc_gdn_conv_states c = None \<and> cc_gdn_recurrent_states c = None"

definition gdn_allocated ::
  "alloc_env \<Rightarrow> (int \<times> int) option \<Rightarrow> gdn_config \<Rightarrow> int \<Rightarrow> int \<Rightarrow> bool \<Rightarrow> int \<Rightarrow> cache_context \<Rightarrow> bool" where
  "gdn_allocated env cap h tp max_bs need_backup cache_slots c \<longleftrightarrow>
     linear_num_value_heads h div tp \<noteq> 0 \<and>
     (\<exists>(ls :: string list) c0 c1.
        allocate_gdn_states env cap h ls max_bs need_backup cache_slots (Some tp) c0 = Inr c1 \<and>
        cc_gdn_num_slots c = cc_gdn_num_slots c1 \<and> cc_gdn_conv_states c = cc_gdn_conv_states c1 \<and>
        cc_gdn_recurrent_states c = cc_gdn_recurrent_states c1)"

definition compressor_allocated :: "alloc_env \<Rightarrow> int \<Rightarrow> cache_context \<Rightarrow> bool" where
  "compressor_allocated env max_num_seqs c \<longleftrightarrow>
     cc_compressor_kv c = Map.empty \<or>
     (\<exists>head_dim c0 c1. allocate_dsv4_compressor_state env head_dim max_num_seqs c0 = Inr c1 \<and>
        cc_compressor_kv c = cc_compressor_kv c1)"

text \<open>
  The cache of a worker of the engine configured by \<open>pc\<close>. Its number of layers and of blocks is its
  own; the state tensors have the configured number of slots.
\<close>

definition worker_cache ::
  "alloc_env \<Rightarrow> (int \<times> int) option \<Rightarrow> gdn_config \<Rightarrow> publisher_config \<Rightarrow> cache_context \<Rightarrow> bool" where
  "worker_cache env cap h pc r \<longleftrightarrow>
     cc_block_size r = pc_kvcache_block_size pc \<and>
     (cc_mode r = ''gqa'' \<longrightarrow> cc_num_kv_heads r = or_else (pc_num_key_value_heads pc) 1 \<and>
        cc_attention_tp r = pc_attention_tp pc) \<and>
     (no_gdn r \<or> gdn_allocated env cap h (pc_attention_tp pc) (pc_max_num_seqs pc)
        (0 < pc_num_speculative_tokens pc) (pc_gdn_state_cache_slots pc) r) \<and>
     compressor_allocated env (pc_max_num_seqs pc) r \<and>
     (\<forall>ix. cc_indexer_cache r = Some ix \<longrightarrow> ix_page_size ix = cc_block_size r)"

text \<open>
  What the two engines must agree on beside the checks of the validation: they run the same model
  with the same attention sharding in the same cache format.
\<close>

definition same_format ::
  "alloc_env \<Rightarrow> (int \<times> int) option \<Rightarrow> gdn_config \<Rightarrow> int \<Rightarrow> cache_context \<Rightarrow> cache_context \<Rightarrow> bool" where
  "same_format env cap h tp c r \<longleftrightarrow>
     cc_mode c = cc_mode r \<and> cc_mode r \<in> {''gqa'', ''mla'', ''dsv4''} \<and>
     cc_head_dim c = cc_head_dim r \<and> cc_dtype c = cc_dtype r \<and>
     cc_is_fp8_kvcache c = cc_is_fp8_kvcache r \<and> cc_fp8_head_dim c = cc_fp8_head_dim r \<and>
     cc_raw_fp8_mla_layout c = cc_raw_fp8_mla_layout r \<and>
     map_option ix_bytes_per_token (cc_indexer_cache c) = map_option ix_bytes_per_token (cc_indexer_cache r) \<and>
     (\<forall>ix. cc_indexer_cache c = Some ix \<longrightarrow> ix_page_size ix = cc_block_size c) \<and>
     dom (cc_compressor_kv c) = dom (cc_compressor_kv r) \<and>
     (no_gdn c \<and> no_gdn r \<or>
      \<not> no_gdn r \<and> (\<exists>max_bs need_backup cache_slots. gdn_allocated env cap h tp max_bs need_backup cache_slots c))"

lemma gdn_allocated_shape:
  assumes "alloc_doc env" "gdn_allocated env cap h tp max_bs need_backup cache_slots c"
  shows "opt_stride (cc_gdn_conv_states c) 1 = gdn_conv_dim h tp * linear_conv_kernel_dim h"
    "opt_stride (cc_gdn_conv_states c) 0 = cc_gdn_num_slots c * opt_stride (cc_gdn_conv_states c) 1"
    "opt_element_size (cc_gdn_conv_states c) = itemsize BFloat16"
    "opt_stride (cc_gdn_recurrent_states c) 1 =
       linear_num_value_heads h div tp * (linear_value_head_dim h * linear_key_head_dim h)"
    "opt_stride (cc_gdn_recurrent_states c) 0 = cc_gdn_num_slots c * opt_stride (cc_gdn_recurrent_states c) 1"
    "opt_element_size (cc_gdn_recurrent_states c) = itemsize (recurrent_state_dtype cap)"
    "cc_gdn_num_slots c = (let active = max_bs + max 0 cache_slots
                           in if need_backup then active * 2 + 1 else active + 1)"
proof -
  obtain ls c0 conv rec where t: "torch_empty env BFloat16
        [ls, cc_gdn_num_slots c, gdn_conv_dim h tp, linear_conv_kernel_dim h] (cc_device c0) = Inr conv"
      "torch_empty env (recurrent_state_dtype cap) [ls, cc_gdn_num_slots c, linear_num_value_heads h div tp,
        linear_value_head_dim h, linear_key_head_dim h] (cc_device (c0 :: cache_context)) = Inr rec"
    and c: "cc_gdn_conv_states c = Some conv" "cc_gdn_recurrent_states c = Some rec"
    and n: "cc_gdn_num_slots c = (let active = max_bs + max 0 cache_slots
                           in if need_backup then active * 2 + 1 else active + 1)"
    using assms(2) unfolding gdn_allocated_def allocate_gdn_states_def Let_def
    by (auto simp: rbind_Inr_iff split: if_splits)
  note conv = torch_empty_doc [OF assms(1) t(1)] and rec = torch_empty_doc [OF assms(1) t(2)]
  show "opt_stride (cc_gdn_conv_states c) 1 = gdn_conv_dim h tp * linear_conv_kernel_dim h"
    "opt_stride (cc_gdn_conv_states c) 0 = cc_gdn_num_slots c * opt_stride (cc_gdn_conv_states c) 1"
    "opt_element_size (cc_gdn_conv_states c) = itemsize BFloat16"
    "opt_stride (cc_gdn_recurrent_states c) 1 =
       linear_num_value_heads h div tp * (linear_value_head_dim h * linear_key_head_dim h)"
    "opt_stride (cc_gdn_recurrent_states c) 0 = cc_gdn_num_slots c * opt_stride (cc_gdn_recurrent_states c) 1"
    "opt_element_size (cc_gdn_recurrent_states c) = itemsize (recurrent_state_dtype cap)"
    by (simp_all add: c conv rec opt_stride_def opt_element_size_def stride_def element_size_def)
  show "cc_gdn_num_slots c = (let active = max_bs + max 0 cache_slots
                           in if need_backup then active * 2 + 1 else active + 1)" by (fact n)
qed

lemma compressor_allocated_slots:
  assumes "alloc_doc env" "compressor_allocated env max_num_seqs c" "cc_compressor_kv c ratio = Some kv"
  shows "t_shape kv ! 1 = max_num_seqs + 1"
proof -
  let ?ok = "\<lambda>c. \<forall>q kv. cc_compressor_kv c q = Some kv \<longrightarrow> t_shape kv ! 1 = max_num_seqs + 1"
  obtain head_dim and c0 c1 :: cache_context where
    a: "allocate_dsv4_compressor_state env head_dim max_num_seqs c0 = Inr c1" "cc_compressor_kv c1 ratio = Some kv"
    using assms(2,3) by (auto simp: compressor_allocated_def)
  have "?ok c1"
  proof (rule fold_res_invariant [OF a(1) [unfolded allocate_dsv4_compressor_state_def]])
    fix q and s t :: cache_context
    assume h: "?ok s" and t: "allocate_compressor_ratio env head_dim max_num_seqs q s = Inr t"
    show "?ok t"
    proof (cases "cc_layers_per_ratio s q")
      case (Some layers)
      then obtain dims kv' where "torch_empty env Float32 (py_len layers # (max_num_seqs + 1) # dims) (cc_device s) = Inr kv'"
        "cc_compressor_kv t = (cc_compressor_kv s)(q \<mapsto> kv')"
        using t by (auto simp: allocate_compressor_ratio_def rbind_Inr_iff Let_def)
      then show ?thesis using torch_empty_doc [OF assms(1)] h by (metis contiguous_tensor_simps(2) fun_upd_apply
            nth_Cons_0 nth_Cons_Suc One_nat_def option.inject)
    qed (use h t in \<open>simp add: allocate_compressor_ratio_def\<close>)
  qed simp
  then show ?thesis using a(2) by blast
qed

text \<open>What a plan knows about an engine whose registered metadata it fetched.\<close>

lemma ensure_keeps_slots:
  "ms_remote_dsv4_max_slots (fst (ensure_peer_connections is_connected requests st)) = ms_remote_dsv4_max_slots st"
  unfolding ensure_peer_connections_def fst_conv by (induction requests arbitrary: st) auto

lemma registered_fields:
  assumes "register_with_nanoctrl pc = Inr info"
  shows "ei_max_num_seqs info = Some (pc_max_num_seqs pc)" "ei_gdn_num_slots info = Some (published_gdn_slots pc)"
    "ei_dsv4_max_slots info = None" "ei_kvcache_block_size info = Some (pc_kvcache_block_size pc)"
    "ei_num_local_kv_heads info = Some (published_kv_heads pc)"
  using assms by (auto simp: register_with_nanoctrl_def rbind_Inr_iff empty_info_def split: if_splits)

lemma published_gdn_slots_pos: "0 < pc_max_num_seqs pc \<Longrightarrow> 0 < published_gdn_slots pc"
  by (simp add: published_gdn_slots_def Let_def)

lemma planned_engine_known:
  assumes reg: "register_with_nanoctrl pc = Inr info"
    and plan: "plan_migration ds has_agent True lookup is_connected views st0 = Inr (Some (st, asg))"
    and v: "v \<in> set views" "mv_engine_id v \<noteq> []" "lookup (mv_engine_id v) = Some info"
      "or_else (ms_engine_info_cache st0) Map.empty (mv_engine_id v) \<in> {None, Some info}"
    and blocks: "\<forall>w\<in>set views. mv_engine_id w = mv_engine_id v \<longrightarrow> mv_num_kvcache_blocks w = b"
    and seqs: "0 < pc_max_num_seqs pc"
  shows "ms_num_remote_kvcache_blocks st (mv_engine_id v) = Some b \<and>
    ms_remote_gdn_num_slots st (mv_engine_id v) = Some (published_gdn_slots pc) \<and>
    ms_remote_dsv4_max_slots st (mv_engine_id v) = Some (pc_max_num_seqs pc) \<and>
    cc_block_size (ds_cache ds) = pc_kvcache_block_size pc \<and>
    num_local_kv_heads (ds_cache ds) = published_kv_heads pc"
proof -
  let ?eid = "mv_engine_id v"
  obtain st1 infos net st2 where f: "fetch_engine_info_from_ctrl True lookup (plan_targets views) st0 = (st1, infos, net)"
    "fold_res (\<lambda>v. validate_peer ds (or_else (infos (mv_engine_id v)) empty_info) v) views st1 = Inr st2"
    and st: "st = fst (ensure_peer_connections is_connected (plan_requests infos views) st2)"
    and reads: "fold_res (reads_of_view ds st infos) views no_assignments = Inr asg"
    by (rule plan_migration_steps [OF plan])
  have info: "infos ?eid = Some info" using fetched_info [OF f(1) _ v(3,4)] v(1,2) by simp
  obtain acc acc' where "reads_of_view ds st infos v acc = Inr acc'"
    using fold_res_reached [OF reads v(1)] by metis
  then have "ei_peer_addrs info \<noteq> []"
    by (auto simp: reads_of_view_def layout_of_view_def Let_def rbind_Inr_iff info)
  then have "\<exists>q\<in>set (plan_requests infos views). fst (snd q) = ?eid"
    using v(1) info by (force simp: connection_requests_def neq_Nil_conv)
  moreover have "blocks = b \<and> slots = published_gdn_slots pc"
    if "(peer, ?eid, blocks, seqs, slots) \<in> set (plan_requests infos views)" for peer blocks seqs slots
    using that assms(7) info registered_fields [OF reg] by (auto simp: connection_requests_def)
  moreover note published_gdn_slots_pos [OF seqs]
  ultimately have "ms_num_remote_kvcache_blocks st ?eid = Some b \<and> ms_remote_gdn_num_slots st ?eid = Some (published_gdn_slots pc)"
    unfolding st by (rule connections_recorded)
  moreover obtain s s' where val: "validate_peer ds info v s = Inr s'"
    and "ms_remote_dsv4_max_slots st2 ?eid = Some (pc_max_num_seqs pc)"
    using validated_views(2) [OF f(2) v(1) info] registered_fields [OF reg] by auto
  moreover note validate_peer_checked [OF val]
  ultimately show ?thesis using registered_fields [OF reg] by (simp add: st ensure_keeps_slots)
qed

text \<open>Offsets of two layouts that agree on what the offset functions read.\<close>

lemma same_block_stride:
  assumes "tl_mode l = tl_mode l'" "tl_block_size l = tl_block_size l'" "tl_head_dim l = tl_head_dim l'"
    and "tl_mode l \<noteq> ''dsv4'' \<Longrightarrow> tl_num_local_kv_heads l = tl_num_local_kv_heads l'"
    and "tl_dtype_itemsize l = tl_dtype_itemsize l'" "tl_is_fp8_kvcache l = tl_is_fp8_kvcache l'"
    and "tl_fp8_head_dim l = tl_fp8_head_dim l'" "tl_raw_fp8_mla_layout l = tl_raw_fp8_mla_layout l'"
  shows "block_stride l = block_stride l'" "block_num_bytes l = block_num_bytes l'"
  using assms by (auto simp: block_stride_def block_num_bytes_def Let_def fun_eq_iff)

lemma same_kv_stride:
  assumes "block_stride l = block_stride l'" "tl_mode l = tl_mode l'" "tl_num_blocks l = tl_num_blocks l'"
    and "tl_num_hidden_layers l = tl_num_hidden_layers l'"
  shows "kv_stride l = kv_stride l'"
  using assms by (simp add: kv_stride_def layer_stride_def layer_blocks_def fun_eq_iff)

definition layout_agrees :: "tensor_layout \<Rightarrow> tensor_layout \<Rightarrow> tensor_layout \<Rightarrow> bool" where
  "layout_agrees l remote own \<longleftrightarrow>
     block_stride remote = block_stride own \<and> block_num_bytes l = block_num_bytes own \<and>
     tl_mode remote = tl_mode own \<and> tl_num_blocks remote = tl_num_blocks own \<and>
     gdn_conv_stride remote = gdn_conv_stride own \<and> gdn_conv_slot_num_bytes l = gdn_conv_slot_num_bytes own \<and>
     gdn_recurrent_stride remote = gdn_recurrent_stride own \<and>
     gdn_recurrent_slot_num_bytes l = gdn_recurrent_slot_num_bytes own \<and>
     indexer_stride remote = indexer_stride own \<and> tl_indexer_page_bytes l = tl_indexer_page_bytes own \<and>
     compressor_state_stride remote = compressor_state_stride own"

lemma peer_layout_agrees:
  assumes env: "alloc_doc env" and worker: "worker_cache env cap h pc r"
    and fmt: "same_format env cap h (pc_attention_tp pc) c r"
    and checked: "cc_block_size c = pc_kvcache_block_size pc" "num_local_kv_heads c = published_kv_heads pc"
    and seqs: "0 < pc_max_num_seqs pc"
  shows "layout_agrees (from_cache_context c)
     (from_peer_metadata (from_cache_context c) (cc_num_local_kvcache_blocks r) (published_gdn_slots pc) pages
        (pc_max_num_seqs pc) n) (from_cache_context r)"
proof -
  let ?l = "from_cache_context c" and ?own = "from_cache_context r"
  let ?rem = "from_peer_metadata ?l (cc_num_local_kvcache_blocks r) (published_gdn_slots pc) pages (pc_max_num_seqs pc) n"
  have bs: "cc_block_size c = cc_block_size r" using worker checked(1) by (simp add: worker_cache_def)
  have heads: "cc_mode c \<noteq> ''dsv4'' \<Longrightarrow> num_local_kv_heads c = num_local_kv_heads r"
    using worker fmt checked(2)
    by (auto simp: worker_cache_def same_format_def num_local_kv_heads_def published_kv_heads_def)
  have blocks: "block_stride ?l = block_stride ?own" "block_num_bytes ?l = block_num_bytes ?own"
    by (rule same_block_stride; use fmt bs heads in \<open>simp add: same_format_def from_cache_context_def\<close>)+
  have "block_stride ?rem = block_stride ?l"
    by (rule same_block_stride) (simp_all add: from_peer_metadata_def)
  then have kv: "block_stride ?rem = block_stride ?own" "tl_mode ?rem = tl_mode ?own"
    "tl_num_blocks ?rem = tl_num_blocks ?own"
    using fmt blocks(1) by (simp_all add: from_peer_metadata_def same_format_def) (simp_all add: from_cache_context_def)
  have pos: "published_gdn_slots pc \<noteq> 0" using published_gdn_slots_pos [OF seqs] by simp
  have gdn: "gdn_conv_stride ?rem = gdn_conv_stride ?own \<and> gdn_conv_slot_num_bytes ?l = gdn_conv_slot_num_bytes ?own \<and>
     gdn_recurrent_stride ?rem = gdn_recurrent_stride ?own \<and>
     gdn_recurrent_slot_num_bytes ?l = gdn_recurrent_slot_num_bytes ?own"
  proof (cases "no_gdn r")
    case True
    then show ?thesis
      using fmt by (auto simp: same_format_def no_gdn_def fun_eq_iff gdn_conv_stride_def gdn_recurrent_stride_def
          gdn_conv_slot_num_bytes_def gdn_recurrent_slot_num_bytes_def from_peer_metadata_def
          from_cache_context_def opt_stride_def)
  next
    case False
    obtain m nb cs where local: "gdn_allocated env cap h (pc_attention_tp pc) m nb cs c"
      using fmt False by (auto simp: same_format_def)
    have peer: "gdn_allocated env cap h (pc_attention_tp pc) (pc_max_num_seqs pc)
        (0 < pc_num_speculative_tokens pc) (pc_gdn_state_cache_slots pc) r"
      using worker False by (simp add: worker_cache_def)
    have slots: "cc_gdn_num_slots r = published_gdn_slots pc"
      using gdn_allocated_shape(7) [OF env peer] by (simp add: published_gdn_slots_def)
    note shapes = gdn_allocated_shape(1,3,4,6) [OF env local] gdn_allocated_shape(1-6) [OF env peer]
    note shapes' = shapes [unfolded One_nat_def]
    show ?thesis
      using pos by (simp add: fun_eq_iff gdn_conv_stride_def gdn_recurrent_stride_def gdn_conv_slot_num_bytes_def
          gdn_recurrent_slot_num_bytes_def from_peer_metadata_def from_cache_context_def shapes' slots)
  qed
  have ix: "tl_indexer_page_bytes ?l = tl_indexer_page_bytes ?own"
    using fmt worker bs by (auto simp: same_format_def worker_cache_def from_cache_context_def split: option.splits)
  then have ixs: "indexer_stride ?rem = indexer_stride ?own"
    using kv(3) by (simp add: fun_eq_iff indexer_stride_def from_peer_metadata_def)
  have "tl_compressor_slots_plus_dummy ?rem ratio = tl_compressor_slots_plus_dummy ?own ratio" for ratio
  proof -
    have "cc_compressor_kv c ratio = None \<longleftrightarrow> cc_compressor_kv r ratio = None"
      using fmt unfolding same_format_def by (metis domIff)
    then show ?thesis
      using compressor_allocated_slots [OF env, of "pc_max_num_seqs pc" r ratio] worker seqs
      by (cases "cc_compressor_kv c ratio"; cases "cc_compressor_kv r ratio")
        (simp_all add: from_peer_metadata_def from_cache_context_def worker_cache_def)
  qed
  then have "compressor_state_stride ?rem = compressor_state_stride ?own"
    by (simp add: fun_eq_iff compressor_state_stride_def dict_get_def)
  then show ?thesis using kv blocks gdn ix ixs by (simp add: layout_agrees_def)
qed

text \<open>
  C5: the remote offsets of a planned migration are the prefill worker's own offsets. Take an engine that
  registered its metadata with the control plane, and a decode engine whose plan, after fetching,
  validating and connecting, migrates sequences from it. For a worker of that engine whose caches have
  the format of the decode engine's, every offset the decode engine computes for it (of a KV block in
  the worker's number of layers, of a linear-attention conv or recurrent slot, of an indexer page and
  of a compressor state row) is the offset of the worker's own layout, and the two sides agree on the
  number of bytes of each. The numbers of KV blocks, slots and layers of the two engines may differ. The sequences of the
  engine carry its block count. Compressed DSv4 pages are not part of it: their pool sizes are not registered.
\<close>

theorem remote_offsets_are_peers:
  assumes "register_with_nanoctrl pc = Inr info"
    and "plan_migration ds has_agent True lookup is_connected views st0 = Inr (Some (st, asg))"
    and "v \<in> set views" "mv_engine_id v \<noteq> []" "lookup (mv_engine_id v) = Some info"
      "or_else (ms_engine_info_cache st0) Map.empty (mv_engine_id v) \<in> {None, Some info}"
    and "\<forall>w\<in>set views. mv_engine_id w = mv_engine_id v \<longrightarrow> mv_num_kvcache_blocks w = cc_num_local_kvcache_blocks r"
    and "0 < pc_max_num_seqs pc"
    and "alloc_doc env" "worker_cache env cap h pc r" "same_format env cap h (pc_attention_tp pc) (ds_cache ds) r"
    and "0 < cc_num_hidden_layers r"
  shows "let t = layout_source_of ds st; eid = mv_engine_id v; l = layout_local t; own = from_cache_context r in
      remote_kv_stride t kv layer b eid (cc_num_hidden_layers r) = kv_stride own kv layer b \<and>
      remote_gdn_conv_stride t layer slot eid = Inr (gdn_conv_stride own layer slot) \<and>
      remote_gdn_recurrent_stride t layer slot eid = Inr (gdn_recurrent_stride own layer slot) \<and>
      remote_indexer_stride t layer b eid = Inr (indexer_stride own layer b) \<and>
      remote_compressor_state_stride t ratio layer slot kind eid =
        Inr (compressor_state_stride own ratio layer slot kind) \<and>
      block_num_bytes l = block_num_bytes own \<and> gdn_conv_slot_num_bytes l = gdn_conv_slot_num_bytes own \<and>
      gdn_recurrent_slot_num_bytes l = gdn_recurrent_slot_num_bytes own \<and>
      tl_indexer_page_bytes l = tl_indexer_page_bytes own"
proof -
  let ?t = "layout_source_of ds st" and ?c = "ds_cache ds" and ?eid = "mv_engine_id v"
  note known = planned_engine_known [OF assms(1-8)]
  obtain pages where remote: "layout_remote ?t ?eid n = Inr (from_peer_metadata (from_cache_context ?c)
      (cc_num_local_kvcache_blocks r) (published_gdn_slots pc) pages (pc_max_num_seqs pc) n)" for n
    using known by (simp add: layout_remote_def layout_local_def layout_source_of_def dict_item_def dict_get_def)
  have agrees: "layout_agrees (from_cache_context ?c) (from_peer_metadata (from_cache_context ?c)
      (cc_num_local_kvcache_blocks r) (published_gdn_slots pc) pages (pc_max_num_seqs pc) n) (from_cache_context r)" for n
    using peer_layout_agrees [OF assms(9-11)] known assms(8) by blast
  have layers: "tl_num_hidden_layers (from_peer_metadata (from_cache_context ?c) (cc_num_local_kvcache_blocks r)
      (published_gdn_slots pc) pages (pc_max_num_seqs pc) (cc_num_hidden_layers r)) =
      tl_num_hidden_layers (from_cache_context r)"
    using assms(12) by (simp add: from_peer_metadata_def) (simp add: from_cache_context_def)
  have "remote_kv_stride ?t kv layer b ?eid (cc_num_hidden_layers r) = kv_stride (from_cache_context r) kv layer b"
    using same_kv_stride [OF _ _ _ layers] agrees [of "cc_num_hidden_layers r"]
    by (simp add: remote_kv_stride_def remote layout_agrees_def)
  moreover have "layout_local ?t = from_cache_context ?c" by (simp add: layout_local_def layout_source_of_def)
  ultimately show ?thesis
    using agrees [of 0]
    by (simp add: Let_def layout_agrees_def remote_gdn_conv_stride_def remote_gdn_recurrent_stride_def
        remote_indexer_stride_def remote_compressor_state_stride_def remote)
qed

text \<open>
  A model with two linear-attention and two full-attention layers: the prefill engine has 100 blocks
  and 17 state slots (8 sequences with backup), the decode engine 20 blocks and 5 slots.
\<close>

definition hybrid_gdn :: gdn_config where
  "hybrid_gdn = \<lparr>linear_num_key_heads = 16, linear_num_value_heads = 32, linear_key_head_dim = 128,
     linear_value_head_dim = 128, linear_conv_kernel_dim = 4\<rparr>"

definition hybrid_cache :: "int \<Rightarrow> int \<Rightarrow> cache_context" where
  "hybrid_cache blocks slots = sample_cache_context\<lparr>cc_num_hidden_layers := 2, cc_num_local_kvcache_blocks := blocks,
     cc_gdn_num_slots := slots,
     cc_gdn_conv_states := Some (contiguous_tensor BFloat16 [2, slots, 8192, 4] ''cuda''),
     cc_gdn_recurrent_states := Some (contiguous_tensor Float32 [2, slots, 32, 128, 128] ''cuda'')\<rparr>"

definition hybrid_publisher :: publisher_config where
  "hybrid_publisher = sample_publisher\<lparr>pc_hf := \<lparr>num_hidden_layers = 4, architectures = [''Qwen3NextForCausalLM''],
       layer_types = [''linear_attention'', ''full_attention'', ''linear_attention'', ''full_attention''],
       num_kv_shared_layers = None\<rparr>, pc_pp := 1, pc_num_key_value_heads := Some 8, pc_peer_addrs := [''p:0'']\<rparr>"

definition hybrid_decode :: decode_side where
  "hybrid_decode = \<lparr>ds_cache = hybrid_cache 20 5, ds_architecture = Some ''Qwen3NextForCausalLM'',
     ds_pp_world_size = 1, ds_sp_idx = 0, ds_tp_idx = 0\<rparr>"

definition hybrid_view :: migration_view where
  "hybrid_view = sample_view\<lparr>mv_migrate_state_slot := 3, mv_active_state_slot := 2\<rparr>"

definition hybrid_info :: engine_info where
  "hybrid_info = empty_info\<lparr>ei_max_num_seqs := Some 8, ei_gdn_num_slots := Some 17,
     ei_mtp_handoff_num_drafts := Some 0, ei_mtp_num_kv_layers := Some 0,
     ei_architecture := Some ''Qwen3NextForCausalLM'', ei_attention_dp := Some 1, ei_attention_sp := Some 1,
     ei_attention_tp := Some 1, ei_pp := Some 1, ei_num_hidden_layers := Some 4, ei_pp_layer_ranges := [(0, 4)],
     ei_pp_cache_layer_indices := [[1, 3]], ei_pp_dsv4_ratio_layer_indices := Map.empty,
     ei_num_local_kv_heads := Some 8, ei_kvcache_block_size := Some 64, ei_peer_addrs := [''p:0'']\<rparr>"

lemma hybrid_registered: "register_with_nanoctrl hybrid_publisher = Inr hybrid_info"
proof -
  have part: "partition_layer_indices [1, 3] [(0, 4)] = Inr [[1, 3]]" by code_simp
  have ranges: "pp_layer_ranges hybrid_publisher = Inr [(0, 4)]"
    by (simp add: pp_layer_ranges_def hybrid_publisher_def sample_publisher_def first_arch_def
        pp_layer_partition_def py_range_Cons)
  have mtp: "mtp_num_kv_layers hybrid_publisher = 0"
    by (simp add: mtp_num_kv_layers_def hybrid_publisher_def sample_publisher_def first_arch_def)
  have ls: "cache_layer_indices (pc_hf hybrid_publisher) (pc_enable_hisparse hybrid_publisher) = [1, 3]"
    by (simp add: cache_layer_indices_def hybrid_publisher_def sample_publisher_def first_arch_def Let_def
        indices_where_def py_enumerate_def upt_rec)
  have none: "pc_compress_ratios hybrid_publisher = []" by (simp add: hybrid_publisher_def sample_publisher_def)
  have "pp_cache_layer_indices hybrid_publisher = Inr [[1, 3]]" "pp_dsv4_ratio_layer_indices hybrid_publisher = Inr Map.empty"
    by (simp_all add: pp_cache_layer_indices_def pp_dsv4_ratio_layer_indices_def ranges mtp ls part none unique_ratios_def)
  then show ?thesis
    by (simp add: register_with_nanoctrl_def ranges mtp)
      (simp add: hybrid_publisher_def sample_publisher_def hybrid_info_def empty_info_def first_arch_def
        published_gdn_slots_def published_kv_heads_def)
qed

lemma hybrid_plan:
  "\<exists>st asg. plan_migration hybrid_decode True True [''p'' \<mapsto> hybrid_info] (\<lambda>_. False) [hybrid_view]
     initialize_migration_state = Inr (Some (st, asg))"
proof -
  have v: "mv_engine_id hybrid_view = ''p''" by (simp add: hybrid_view_def sample_view_def)
  have fetch: "fetch_engine_info_from_ctrl True [''p'' \<mapsto> hybrid_info] [''p''] initialize_migration_state =
      (initialize_migration_state\<lparr>ms_engine_info_cache := Some [''p'' \<mapsto> hybrid_info]\<rparr>, [''p'' \<mapsto> hybrid_info], [''p''])"
    by (simp add: fetch_engine_info_from_ctrl_def initialize_migration_state_def Let_def)
  have check: "validate_peer hybrid_decode hybrid_info hybrid_view st =
      Inr (record_peer hybrid_info ''p'' [(0, 4)] [[1, 3]] st)" for st
    by (simp add: validate_peer_def check_peer_compat_def hybrid_decode_def hybrid_cache_def sample_cache_context_def
        hybrid_view_def sample_view_def hybrid_info_def empty_info_def remote_stage_ranges_def
        remote_cache_layers_def num_local_kv_heads_def Let_def valid_stage_ranges_def)
  define st where "st = fst (ensure_peer_connections (\<lambda>_. False) (connection_requests hybrid_info hybrid_view)
        (record_peer hybrid_info ''p'' [(0, 4)] [[1, 3]]
          (initialize_migration_state\<lparr>ms_engine_info_cache := Some [''p'' \<mapsto> hybrid_info]\<rparr>)))"
  have known: "ms_remote_pp st ''p'' = Some 1" "ms_remote_attention_dp st ''p'' = Some 1"
    "ms_remote_attention_tp st ''p'' = Some 1" "ms_num_remote_kvcache_blocks st ''p'' = Some 100"
    by (simp_all add: st_def ensure_peer_connections_def connection_requests_def record_peer_def hybrid_info_def
        hybrid_view_def sample_view_def empty_info_def)
  let ?vl = "\<lparr>vl_pp = 1, vl_ranges = [(0, 2)], vl_by_stage = [[0, 1]], vl_inner = 1, vl_dp = 1, vl_tp = 1,
      vl_peers = [''p:0'']\<rparr>"
  have layout: "layout_of_view hybrid_decode st hybrid_info hybrid_view = Inr ?vl"
    using known by (simp add: layout_of_view_def hybrid_view_def sample_view_def hybrid_decode_def hybrid_cache_def
        sample_cache_context_def hybrid_info_def py_range_Cons Let_def)
  have rank: "remote_global_rank 0 1 0 1 0 1 = Inr 0"
    by (simp add: remote_global_rank_def pp_global_rank_def)
  have route: "route_layer ?vl [[0, 1]] 0 0 = Inr (''p:0'', 0, 0)" "route_layer ?vl [[0, 1]] 0 1 = Inr (''p:0'', 0, 1)"
    by (simp_all add: route_layer_def layer_locations_def py_enumerate_def upt_rec py_nth_def dict_item_def)
  have block: "\<exists>kv. reads_of_block hybrid_decode st ?vl hybrid_view ((0, 3), (0, 5)) = Inr (kv, [])"
    using known rank route
    by (simp add: reads_of_block_def kv_reads_of_block_def hybrid_view_def sample_view_def hybrid_decode_def
        hybrid_cache_def sample_cache_context_def cache_planes_def py_range_Cons py_enumerate_def upt_rec
        py_nth_def Let_def)
  have "\<exists>gdn. gdn_reads hybrid_decode ?vl hybrid_view = Inr gdn"
    using rank by (simp add: gdn_reads_def hybrid_view_def sample_view_def hybrid_decode_def hybrid_cache_def
        state_inner_rank_def has_state_slots_def py_range_Cons py_nth_def)
  with block layout have "\<exists>asg. reads_of_view hybrid_decode st [''p'' \<mapsto> hybrid_info] hybrid_view no_assignments = Inr asg"
    by (auto simp: reads_of_view_def v)
      (simp add: compressed_reads_def compressor_reads_def mtp_reads_def hybrid_decode_def hybrid_cache_def
        sample_cache_context_def hybrid_view_def sample_view_def unique_ratios_def)
  then show ?thesis by (auto simp: plan_migration_def v fetch check st_def Let_def)
qed

lemma hybrid_gdn_allocated:
  "gdn_allocated plain_alloc None hybrid_gdn 1 8 True 0 (hybrid_cache 100 17)"
  "gdn_allocated plain_alloc None hybrid_gdn 1 4 False 0 (hybrid_cache 20 5)"
proof -
  let ?ls = "[''linear_attention'', ''linear_attention'']"
  have "\<exists>c1. allocate_gdn_states plain_alloc None hybrid_gdn ?ls m nb 0 (Some 1) sample_cache_context = Inr c1 \<and>
      cc_gdn_num_slots (hybrid_cache b n) = cc_gdn_num_slots c1 \<and>
      cc_gdn_conv_states (hybrid_cache b n) = cc_gdn_conv_states c1 \<and>
      cc_gdn_recurrent_states (hybrid_cache b n) = cc_gdn_recurrent_states c1"
    if "n = (if nb then m * 2 + 1 else m + 1)" for m nb b n
    using that by (simp add: allocate_gdn_states_def hybrid_gdn_def hybrid_cache_def sample_cache_context_def
        plain_alloc_def gdn_conv_dim_def recurrent_state_dtype_def py_len_def Let_def)
  from this [of 17 True 8 100] this [of 5 False 4 20]
  show "gdn_allocated plain_alloc None hybrid_gdn 1 8 True 0 (hybrid_cache 100 17)"
    "gdn_allocated plain_alloc None hybrid_gdn 1 4 False 0 (hybrid_cache 20 5)"
    unfolding gdn_allocated_def by (auto simp: hybrid_gdn_def)
qed

theorem remote_offsets_are_peers_witness:
  "\<exists>st asg. plan_migration hybrid_decode True True [''p'' \<mapsto> hybrid_info] (\<lambda>_. False) [hybrid_view]
       initialize_migration_state = Inr (Some (st, asg)) \<and>
     remote_kv_stride (layout_source_of hybrid_decode st) 1 1 7 ''p'' 2 = Inr ((1 * 200 + 1 * 100 + 7) * 131072) \<and>
     remote_gdn_conv_stride (layout_source_of hybrid_decode st) 1 3 ''p'' = Inr ((1 * 17 + 3) * 65536)"
proof -
  let ?r = "hybrid_cache 100 17"
  obtain st asg where plan: "plan_migration hybrid_decode True True [''p'' \<mapsto> hybrid_info] (\<lambda>_. False) [hybrid_view]
       initialize_migration_state = Inr (Some (st, asg))" using hybrid_plan by blast
  have v: "mv_engine_id hybrid_view = ''p''" "mv_num_kvcache_blocks hybrid_view = 100"
    by (simp_all add: hybrid_view_def sample_view_def)
  have worker: "worker_cache plain_alloc None hybrid_gdn hybrid_publisher ?r"
    using hybrid_gdn_allocated(1)
    by (simp add: worker_cache_def hybrid_publisher_def sample_publisher_def compressor_allocated_def)
      (simp add: hybrid_cache_def sample_cache_context_def)
  have fmt: "same_format plain_alloc None hybrid_gdn (pc_attention_tp hybrid_publisher) (ds_cache hybrid_decode) ?r"
    using hybrid_gdn_allocated(2)
    by (auto simp: same_format_def hybrid_decode_def hybrid_publisher_def sample_publisher_def)
      (auto simp: hybrid_cache_def sample_cache_context_def no_gdn_def)
  have own: "kv_stride (from_cache_context ?r) 1 1 7 = Inr ((1 * 200 + 1 * 100 + 7) * 131072)"
    "gdn_conv_stride (from_cache_context ?r) 1 3 = (1 * 17 + 3) * 65536" "cc_num_hidden_layers ?r = 2"
    "cc_num_local_kvcache_blocks ?r = 100"
    by (simp_all add: hybrid_cache_def sample_cache_context_def from_cache_context_def kv_stride_def layer_stride_def
        layer_blocks_def block_stride_def num_local_kv_heads_def gdn_conv_stride_def opt_stride_def stride_def
        opt_element_size_def element_size_def)
  from remote_offsets_are_peers [OF hybrid_registered plan, of hybrid_view ?r, OF _ _ _ _ _ _ plain_alloc_doc worker fmt,
      of 1 1 7 3 0 "[]"]
  show ?thesis
    using plan own by (simp add: v Let_def) (simp add: initialize_migration_state_def hybrid_publisher_def sample_publisher_def)
qed

end
