(* ===== verification/Rdma.thy ===== *)
theory Rdma
  imports Tensor "HOL-Library.Product_Lexorder"
begin

section \<open>RDMA read batches (\<open>runtime/disagg/p2p/cache_transfer.py\<close>)\<close>

text \<open>
  A read copies a byte range of a remote memory region into a local one. This theory models the
  merging of adjacent reads, the bounds check before submission, and the submit/drain phase that
  always waits for every submitted read. The peer agent is a parameter.
\<close>

text \<open>\<open>(local_name, remote_name, local_off, remote_off, length)\<close>\<close>

type_synonym 'h rdma_op = "'h \<times> 'h \<times> int \<times> int \<times> int"

fun op_local :: "'h rdma_op \<Rightarrow> 'h" where "op_local (a, b, lo, ro, n) = a"
fun op_remote :: "'h rdma_op \<Rightarrow> 'h" where "op_remote (a, b, lo, ro, n) = b"
fun op_local_off :: "'h rdma_op \<Rightarrow> int" where "op_local_off (a, b, lo, ro, n) = lo"
fun op_remote_off :: "'h rdma_op \<Rightarrow> int" where "op_remote_off (a, b, lo, ro, n) = ro"
fun op_len :: "'h rdma_op \<Rightarrow> int" where "op_len (a, b, lo, ro, n) = n"

subsection \<open>Coalescing\<close>

text \<open>\<open>groups.setdefault(key, []).append(op)\<close> on an insertion-ordered dictionary.\<close>

fun add_to_group :: "'k \<Rightarrow> 'a \<Rightarrow> ('k \<times> 'a list) list \<Rightarrow> ('k \<times> 'a list) list" where
  "add_to_group k x [] = [(k, [x])]"
| "add_to_group k x ((k', xs) # gs) =
     (if k = k' then (k', xs @ [x]) # gs else (k', xs) # add_to_group k x gs)"

definition group_by_key :: "('a \<Rightarrow> 'k) \<Rightarrow> 'a list \<Rightarrow> ('k \<times> 'a list) list" where
  "group_by_key key xs = fold (\<lambda>x. add_to_group (key x) x) xs []"

definition mergeable :: "int \<Rightarrow> 'h rdma_op \<Rightarrow> 'h rdma_op \<Rightarrow> bool" where
  "mergeable max_bytes prev op \<longleftrightarrow>
     (op_local prev, op_remote prev) = (op_local op, op_remote op) \<and>
     op_local_off prev + op_len prev = op_local_off op \<and>
     op_remote_off prev + op_len prev = op_remote_off op \<and>
     op_len prev + op_len op \<le> max_bytes"

definition merge_ops :: "'h rdma_op \<Rightarrow> 'h rdma_op \<Rightarrow> 'h rdma_op" where
  "merge_ops prev op =
     (op_local prev, op_remote prev, op_local_off prev, op_remote_off prev, op_len prev + op_len op)"

definition coalesce_step :: "int \<Rightarrow> 'h rdma_op \<Rightarrow> 'h rdma_op list \<Rightarrow> 'h rdma_op list" where
  "coalesce_step max_bytes op coalesced =
     (if coalesced \<noteq> [] \<and> mergeable max_bytes (last coalesced) op
      then butlast coalesced @ [merge_ops (last coalesced) op]
      else coalesced @ [op])"

definition sorted_groups :: "'h rdma_op list \<Rightarrow> 'h rdma_op list" where
  "sorted_groups ops =
     concat (map (\<lambda>(k, g). sort_key (\<lambda>op. (op_local_off op, op_remote_off op)) g)
       (group_by_key (\<lambda>op. (op_local op, op_remote op)) ops))"

definition coalesce_rdma_ops :: "'h rdma_op list \<Rightarrow> int \<Rightarrow> 'h rdma_op list res" where
  "coalesce_rdma_ops ops max_bytes =
     rbind (check (0 < max_bytes) (ValueError ''max_bytes must be positive''))
       (\<lambda>_. Inr (fold (coalesce_step max_bytes) (sorted_groups ops) []))"

subsection \<open>Bounds check\<close>

text \<open>
  \<open>get_mr_info alias name\<close> is the length of a remote region, \<open>None\<close> when it is not registered.
  The first failing operation decides the exception. A negative offset or an empty length reaches a
  message that formats the unbound name \<open>op\<close>, so Python raises \<open>NameError\<close> there.
\<close>

definition validate_step ::
  "(string \<Rightarrow> string \<Rightarrow> int option) \<Rightarrow> string \<Rightarrow> (string \<rightharpoonup> int) \<Rightarrow> string rdma_op
   \<Rightarrow> (string \<rightharpoonup> int) \<Rightarrow> (string \<rightharpoonup> int) res" where
  "validate_step get_mr_info peer_alias local_region_sizes op remote_sizes =
     (case op of (local_name, remote_name, local_off, remote_off, len) \<Rightarrow>
       (case local_region_sizes local_name of
          None \<Rightarrow> Inl (RuntimeErr ''Local memory region is not registered'')
        | Some local_size \<Rightarrow>
            rbind (case remote_sizes remote_name of
                     Some s \<Rightarrow> Inr (remote_sizes, s)
                   | None \<Rightarrow>
                       (case get_mr_info peer_alias remote_name of
                          None \<Rightarrow> Inl (RuntimeErr ''Remote memory region is not registered'')
                        | Some s \<Rightarrow> Inr (remote_sizes(remote_name \<mapsto> s), s)))
            (\<lambda>(sizes, remote_size).
              if min local_off (min remote_off len) < 0 \<or> len = 0 then Inl NameError
              else if local_off + len > local_size \<or> remote_off + len > remote_size
                then Inl (RuntimeErr ''Named transfer operation exceeds region bounds'')
              else Inr sizes)))"

definition validate_named_region_ops ::
  "(string \<Rightarrow> string \<Rightarrow> int option) \<Rightarrow> string \<Rightarrow> string rdma_op list \<Rightarrow> (string \<rightharpoonup> int) \<Rightarrow> unit res" where
  "validate_named_region_ops get_mr_info peer_alias ops local_region_sizes =
     rbind (fold_res (validate_step get_mr_info peer_alias local_region_sizes) ops Map.empty)
       (\<lambda>_. Inr ())"

subsection \<open>Submission and draining\<close>

text \<open>
  \<open>read alias ops\<close> submits a batch and returns its slot (\<open>Inr None\<close> when the endpoint returned
  \<open>None\<close>); \<open>wait_slot\<close> waits for a slot; both act on the world \<open>'s\<close>. Submission stops at the
  first failure; every submitted slot is waited for; the device is synchronised when any read was
  submitted; the first error is raised at the end.
\<close>

record 'h prepared_read =
  pr_peer :: string
  pr_ops :: "'h rdma_op list"

fun submit_reads ::
  "(string \<Rightarrow> 'h rdma_op list \<Rightarrow> 's \<Rightarrow> 's \<times> 'slot option res) \<Rightarrow> 'h prepared_read list
   \<Rightarrow> 's \<Rightarrow> 's \<times> 'slot list \<times> py_error option" where
  "submit_reads read [] w = (w, [], None)"
| "submit_reads read (p # ps) w =
     (case read (pr_peer p) (pr_ops p) w of
        (w', Inl e) \<Rightarrow> (w', [], Some e)
      | (w', Inr None) \<Rightarrow> (w', [], Some (RuntimeErr ''endpoint.read returned None''))
      | (w', Inr (Some slot)) \<Rightarrow>
          (case submit_reads read ps w' of (w'', slots, err) \<Rightarrow> (w'', slot # slots, err)))"

fun drain_slots ::
  "('slot \<Rightarrow> 's \<Rightarrow> 's \<times> unit res) \<Rightarrow> 'slot list \<Rightarrow> py_error option \<Rightarrow> 's \<Rightarrow> 's \<times> py_error option" where
  "drain_slots wait_slot [] primary w = (w, primary)"
| "drain_slots wait_slot (slot # slots) primary w =
     (case wait_slot slot w of
        (w', Inr _) \<Rightarrow> drain_slots wait_slot slots primary w'
      | (w', Inl e) \<Rightarrow>
          drain_slots wait_slot slots (case primary of None \<Rightarrow> Some e | Some p \<Rightarrow> Some p) w')"

definition run_prepared_reads ::
  "(string \<Rightarrow> 'h rdma_op list \<Rightarrow> 's \<Rightarrow> 's \<times> 'slot option res) \<Rightarrow> ('slot \<Rightarrow> 's \<Rightarrow> 's \<times> unit res)
   \<Rightarrow> ('s \<Rightarrow> 's \<times> unit res) \<Rightarrow> 'h prepared_read list \<Rightarrow> 's \<Rightarrow> 's \<times> unit res" where
  "run_prepared_reads read wait_slot synchronize prepared w =
     (case submit_reads read prepared w of
        (w1, slots, submit_error) \<Rightarrow>
          (case drain_slots wait_slot slots submit_error w1 of
             (w2, primary) \<Rightarrow>
               (case (if slots = [] then (w2, Inr ()) else synchronize w2) of
                  (w3, sync) \<Rightarrow>
                    (w3, case primary of
                           Some e \<Rightarrow> Inl e
                         | None \<Rightarrow> (case sync of Inl e \<Rightarrow> Inl e | Inr _ \<Rightarrow> Inr ())))))"

subsection \<open>Coalescing copies the same bytes\<close>

text \<open>A read as the list of byte copies it performs.\<close>

definition op_bytes :: "'h rdma_op \<Rightarrow> ('h \<times> 'h \<times> int \<times> int) list" where
  "op_bytes op =
     map (\<lambda>i. (op_local op, op_remote op, op_local_off op + i, op_remote_off op + i))
       (py_range 0 (op_len op))"

abbreviation copies :: "'h rdma_op list \<Rightarrow> ('h \<times> 'h \<times> int \<times> int) multiset" where
  "copies ops \<equiv> mset (concat (map op_bytes ops))"

lemma py_range_shift: "map (\<lambda>i. f (k + i)) (py_range 0 n) = map f (py_range k (k + n))"
  by (rule nth_equalityI) simp_all

lemma op_bytes_merge:
  assumes "mergeable m p q" "0 \<le> op_len p" "0 \<le> op_len q"
  shows "op_bytes (merge_ops p q) = op_bytes p @ op_bytes q"
proof -
  let ?f = "\<lambda>i. (op_local p, op_remote p, op_local_off p + i, op_remote_off p + i)"
  have "py_range 0 (op_len p + op_len q) = py_range 0 (op_len p) @ py_range (op_len p) (op_len p + op_len q)"
    using assms(2,3) by (intro py_range_append [symmetric]) simp_all
  then have "op_bytes (merge_ops p q) =
      map ?f (py_range 0 (op_len p)) @ map ?f (py_range (op_len p) (op_len p + op_len q))"
    by (simp add: op_bytes_def merge_ops_def)
  also have "map ?f (py_range (op_len p) (op_len p + op_len q)) = op_bytes q"
    using assms(1) unfolding op_bytes_def mergeable_def
    by (subst py_range_shift [symmetric]) (auto simp: add.assoc [symmetric])
  finally show ?thesis by (simp add: op_bytes_def)
qed

lemma add_to_group_mset:
  "mset (concat (map snd (add_to_group k x gs))) = add_mset x (mset (concat (map snd gs)))"
  by (induction k x gs rule: add_to_group.induct) auto

lemma group_by_key_mset: "mset (concat (map snd (group_by_key key xs))) = mset xs"
proof -
  have "mset (concat (map snd (fold (\<lambda>x. add_to_group (key x) x) xs gs))) =
      mset xs + mset (concat (map snd gs))" for gs
    by (induction xs arbitrary: gs) (simp_all add: add_to_group_mset)
  then show ?thesis by (simp add: group_by_key_def)
qed

lemma sorted_groups_mset: "mset (sorted_groups ops) = mset ops"
proof -
  have "mset (sorted_groups ops) =
      mset (concat (map snd (group_by_key (\<lambda>op. (op_local op, op_remote op)) ops)))"
    by (simp add: sorted_groups_def mset_concat comp_def case_prod_beta)
  then show ?thesis by (simp add: group_by_key_mset)
qed

text \<open>The invariant of the merging loop, for the operations handled so far.\<close>

definition coalesce_inv :: "int \<Rightarrow> 'h rdma_op list \<Rightarrow> 'h rdma_op list \<Rightarrow> bool" where
  "coalesce_inv m done out \<longleftrightarrow>
     copies out = copies done \<and> length out \<le> length done \<and> list_all (\<lambda>op. 0 \<le> op_len op) out \<and>
     list_all (\<lambda>op. op_len op \<le> m \<or> op \<in> set done) out \<and>
     successively (\<lambda>p q. \<not> mergeable m p q) out"

lemma mergeable_merge_right:
  "0 \<le> op_len op \<Longrightarrow> \<not> mergeable m p q \<Longrightarrow> \<not> mergeable m p (merge_ops q op)"
  by (auto simp: mergeable_def merge_ops_def)

lemma coalesce_inv_step:
  assumes "coalesce_inv m done out" "0 \<le> op_len op"
  shows "coalesce_inv m (done @ [op]) (coalesce_step m op out)"
proof (cases "out \<noteq> [] \<and> mergeable m (last out) op")
  case True
  then obtain ps p where out: "out = ps @ [p]" by (metis append_butlast_last_id)
  have len: "0 \<le> op_len p" using assms(1) out by (simp add: coalesce_inv_def)
  have "op_len (merge_ops p op) \<le> m" using True out by (simp add: merge_ops_def mergeable_def)
  moreover have "0 \<le> op_len (merge_ops p op)" using len assms(2) by (simp add: merge_ops_def)
  moreover have "successively (\<lambda>p q. \<not> mergeable m p q) (ps @ [merge_ops p op])"
    using assms(1) out mergeable_merge_right [OF assms(2), of m "last ps" p]
    by (auto simp: coalesce_inv_def successively_append_iff)
  ultimately show ?thesis
    using assms True out op_bytes_merge [of m p op] len
    by (auto simp: coalesce_inv_def coalesce_step_def list_all_iff)
next
  case False
  then have "coalesce_step m op out = out @ [op]" by (auto simp: coalesce_step_def)
  then show ?thesis
    using assms False by (auto simp: coalesce_inv_def list_all_iff successively_append_iff)
qed

lemma coalesce_fold_inv:
  assumes "\<forall>op\<in>set ops. 0 \<le> op_len op"
  shows "coalesce_inv m ops (fold (coalesce_step m) ops [])"
  using assms
proof (induction ops rule: rev_induct)
  case Nil
  show ?case by (simp add: coalesce_inv_def)
next
  case (snoc op ops)
  then show ?case using coalesce_inv_step [of m ops "fold (coalesce_step m) ops []" op] by simp
qed

lemma coalesce_rdma_ops_inv:
  assumes "coalesce_rdma_ops ops max_bytes = Inr out" and "\<forall>op\<in>set ops. 0 \<le> op_len op"
  shows "coalesce_inv max_bytes (sorted_groups ops) out" and "copies out = copies ops"
proof -
  let ?s = "sorted_groups ops"
  have ms: "mset ?s = mset ops" by (rule sorted_groups_mset)
  then have "set ?s = set ops" by (metis set_mset_mset)
  then show inv: "coalesce_inv max_bytes ?s out"
    using assms coalesce_fold_inv [of ?s max_bytes]
    by (auto simp: coalesce_rdma_ops_def rbind_Inr_iff)
  have "copies ?s = copies ops"
    by (simp add: mset_concat ms flip: sum_mset_sum_list)
  then show "copies out = copies ops" using inv by (simp add: coalesce_inv_def)
qed

text \<open>
  Sorting makes the merging independent of where a read stands in the input. The merged reads keep the region
  pairs and start offsets of a part of the sorted reads, so they are ordered by group and, within a group, by local offset.
\<close>

abbreviation op_key :: "'h rdma_op \<Rightarrow> 'h \<times> 'h" where
  "op_key op \<equiv> (op_local op, op_remote op)"

definition in_order :: "('h \<times> 'h \<Rightarrow> nat) \<Rightarrow> ('h \<times> 'h) \<times> int \<Rightarrow> ('h \<times> 'h) \<times> int \<Rightarrow> bool" where
  "in_order rank x y \<longleftrightarrow> rank (fst x) < rank (fst y) \<or> rank (fst x) = rank (fst y) \<and> snd x \<le> snd y"

abbreviation op_start :: "'h rdma_op \<Rightarrow> ('h \<times> 'h) \<times> int" where
  "op_start op \<equiv> (op_key op, op_local_off op)"

lemma subseq_set: "subseq xs ys \<Longrightarrow> set xs \<subseteq> set ys"
  by (induction rule: list_emb.induct) auto

lemma sorted_wrt_subseq: "subseq xs ys \<Longrightarrow> sorted_wrt P ys \<Longrightarrow> sorted_wrt P xs"
  by (induction rule: list_emb.induct) (auto dest: subseq_set)

lemma coalesce_step_starts:
  "subseq (map op_start out) (map op_start ops) \<Longrightarrow> subseq (map op_start (coalesce_step m op out)) (map op_start (ops @ [op]))"
proof (cases "out \<noteq> [] \<and> mergeable m (last out) op")
  case True
  assume sub: "subseq (map op_start out) (map op_start ops)"
  obtain ps p where out: "out = ps @ [p]" using True by (metis append_butlast_last_id)
  then have "map op_start (coalesce_step m op out) = map op_start out" using True by (simp add: coalesce_step_def merge_ops_def)
  then show ?thesis using sub by (simp add: list_emb_prefix)
qed (auto simp: coalesce_step_def intro: list_emb_append_mono)

lemma coalesce_starts: "subseq (map op_start (fold (coalesce_step m) ops [])) (map op_start ops)"
proof (induction ops rule: rev_induct)
  case (snoc op ops)
  then show ?case using coalesce_step_starts [of "fold (coalesce_step m) ops []" ops m op] by simp
qed simp

lemma sort_key_starts:
  "sorted_wrt (\<lambda>x y. op_local_off x \<le> op_local_off y) (sort_key (\<lambda>op. (op_local_off op, op_remote_off op)) g)"
proof -
  have "sorted_wrt (\<lambda>x y. (op_local_off x, op_remote_off x) \<le> (op_local_off y, op_remote_off y))
      (sort_key (\<lambda>op. (op_local_off op, op_remote_off op)) g)"
    using sorted_sort_key [of "\<lambda>op. (op_local_off op, op_remote_off op)" g] by (simp add: sorted_map)
  then show ?thesis by (rule sorted_wrt_mono_rel [rotated]) auto
qed

lemma groups_in_order:
  assumes "distinct (map fst gs)" "\<forall>(k, g)\<in>set gs. \<forall>op\<in>set g. op_key op = k"
  shows "\<exists>rank. inj_on rank (fst ` set gs) \<and>
    sorted_wrt (in_order rank) (map op_start (concat (map (\<lambda>(k, g). sort_key (\<lambda>op. (op_local_off op, op_remote_off op)) g) gs)))"
  using assms
proof (induction gs)
  case (Cons x gs)
  obtain k g where x: "x = (k, g)" by (cases x)
  define sorted_g where "sorted_g = sort_key (\<lambda>op. (op_local_off op, op_remote_off op)) g"
  define rest where "rest = concat (map (\<lambda>(k, g). sort_key (\<lambda>op. (op_local_off op, op_remote_off op)) g) gs)"
  obtain rank where rank: "inj_on rank (fst ` set gs)" "sorted_wrt (in_order rank) (map op_start rest)"
    using Cons by (auto simp: rest_def)
  let ?rank = "\<lambda>k'. if k' = k then 0 else Suc (rank k')"
  have k: "k \<notin> fst ` set gs" "\<forall>op\<in>set sorted_g. op_key op = k" using Cons.prems x by (auto simp: sorted_g_def)
  have "op_key op \<in> fst ` set gs" if "op \<in> set rest" for op
    using that Cons.prems(2) by (force simp: rest_def)
  then have ne: "op_key op \<noteq> k" if "op \<in> set rest" for op using that k(1) by metis
  have "inj_on ?rank (fst ` set (x # gs))" using rank(1) k(1) x by (auto simp: inj_on_def)
  moreover have "sorted_wrt (in_order ?rank) (map op_start sorted_g)"
    unfolding sorted_wrt_map
    by (rule sorted_wrt_mono_rel [OF _ sort_key_starts [of g, folded sorted_g_def]]) (use k(2) in \<open>simp add: in_order_def\<close>)
  moreover have "sorted_wrt (in_order ?rank) (map op_start rest)"
    using rank(2) unfolding sorted_wrt_map by (rule sorted_wrt_mono_rel [rotated]) (simp add: in_order_def ne)
  moreover have "in_order ?rank (op_start p) (op_start q)" if "p \<in> set sorted_g" "q \<in> set rest" for p q
    using k(2) that(1) ne [OF that(2)] by (simp add: in_order_def)
  ultimately have "inj_on ?rank (fst ` set (x # gs)) \<and> sorted_wrt (in_order ?rank) (map op_start (sorted_g @ rest))"
    by (simp only: map_append sorted_wrt_append) auto
  then show ?case unfolding x by (intro exI [of _ ?rank]) (simp add: sorted_g_def rest_def)
qed simp

lemma add_to_group_keys: "set (map fst (add_to_group k x gs)) = insert k (set (map fst gs))"
  "distinct (map fst gs) \<Longrightarrow> distinct (map fst (add_to_group k x gs))"
  "\<forall>(k, g)\<in>set gs. \<forall>y\<in>set g. key y = k \<Longrightarrow> k = key x \<Longrightarrow> \<forall>(k, g)\<in>set (add_to_group k x gs). \<forall>y\<in>set g. key y = k"
proof -
  show keys: "set (map fst (add_to_group k x gs)) = insert k (set (map fst gs))" for gs :: "('a \<times> 'b list) list"
    by (induction k x gs rule: add_to_group.induct) auto
  show "distinct (map fst gs) \<Longrightarrow> distinct (map fst (add_to_group k x gs))"
    using keys by (induction k x gs rule: add_to_group.induct) auto
  show "\<forall>(k, g)\<in>set gs. \<forall>y\<in>set g. key y = k \<Longrightarrow> k = key x \<Longrightarrow> \<forall>(k, g)\<in>set (add_to_group k x gs). \<forall>y\<in>set g. key y = k"
    by (induction k x gs rule: add_to_group.induct) auto
qed

lemma group_by_key_grouped:
  "distinct (map fst (group_by_key key xs)) \<and> (\<forall>(k, g)\<in>set (group_by_key key xs). \<forall>y\<in>set g. key y = k)"
proof -
  have "distinct (map fst gs) \<Longrightarrow> \<forall>(k, g)\<in>set gs. \<forall>y\<in>set g. key y = k \<Longrightarrow>
    distinct (map fst (fold (\<lambda>x. add_to_group (key x) x) xs gs)) \<and>
    (\<forall>(k, g)\<in>set (fold (\<lambda>x. add_to_group (key x) x) xs gs). \<forall>y\<in>set g. key y = k)" for gs
  proof (induction xs arbitrary: gs)
    case (Cons x xs)
    show ?case unfolding fold_simps comp_def
      by (rule Cons.IH [OF add_to_group_keys(2) [OF Cons.prems(1)] add_to_group_keys(3) [OF Cons.prems(2) refl]])
  qed simp
  from this [of "[]"] show ?thesis by (simp add: group_by_key_def)
qed

text \<open>The bytes of the local regions a read writes; no byte is written twice for one pair of regions.\<close>

definition op_writes :: "'h rdma_op \<Rightarrow> ('h \<times> 'h \<times> int) list" where
  "op_writes op = map (\<lambda>(a, b, lo, ro). (a, b, lo)) (op_bytes op)"

definition writes_once :: "'h rdma_op list \<Rightarrow> bool" where
  "writes_once ops \<longleftrightarrow> distinct (concat (map op_writes ops))"

lemma op_writes_mem:
  "(a, b, x) \<in> set (op_writes op) \<longleftrightarrow> op_key op = (a, b) \<and> op_local_off op \<le> x \<and> x < op_local_off op + op_len op"
proof -
  have "(a, b, x) \<in> set (op_writes op) \<longleftrightarrow> op_key op = (a, b) \<and> (\<exists>i. 0 \<le> i \<and> i < op_len op \<and> x = op_local_off op + i)"
    by (auto simp: op_writes_def op_bytes_def image_iff)
  also have "(\<exists>i. 0 \<le> i \<and> i < op_len op \<and> x = op_local_off op + i) \<longleftrightarrow> op_local_off op \<le> x \<and> x < op_local_off op + op_len op"
    by (auto intro: exI [of _ "x - op_local_off op"])
  finally show ?thesis .
qed

lemma writes_once_disjoint:
  "writes_once ops \<Longrightarrow> i < j \<Longrightarrow> j < length ops \<Longrightarrow> set (op_writes (ops ! i)) \<inter> set (op_writes (ops ! j)) = {}"
proof (induction ops arbitrary: i j)
  case (Cons op ops)
  then have "writes_once ops" by (simp add: writes_once_def)
  show ?case
  proof (cases i)
    case 0
    then obtain k where "j = Suc k" "k < length ops" using Cons.prems by (cases j) auto
    then show ?thesis using 0 Cons.prems(1) nth_mem by (fastforce simp: writes_once_def)
  next
    case (Suc k)
    then show ?thesis using Cons \<open>writes_once ops\<close> by (cases j) auto
  qed
qed simp

lemma writes_once_copies: "copies out = copies ops \<Longrightarrow> writes_once out \<longleftrightarrow> writes_once ops"
proof -
  assume c: "copies out = copies ops"
  have "mset (concat (map op_writes xs)) = image_mset (\<lambda>(a, b, lo, ro). (a, b, lo)) (copies xs)" for xs :: "'a rdma_op list"
    by (simp add: op_writes_def [abs_def] mset_map [symmetric] map_concat comp_def)
  then have "mset (concat (map op_writes out)) = mset (concat (map op_writes ops))" using c by simp
  then show ?thesis unfolding writes_once_def by (rule mset_eq_imp_distinct_iff)
qed

lemma in_order_gap:
  assumes rank: "inj_on rank (set (map op_key out))" and ord: "sorted_wrt (in_order rank) (map op_start out)"
    and once: "writes_once out" and pos: "\<forall>op\<in>set out. 0 < op_len op"
    and ij: "i < length out" "j < length out" and m: "mergeable max_bytes (out ! i) (out ! j)"
  shows "j = Suc i"
proof (rule ccontr)
  assume nj: "j \<noteq> Suc i"
  have key: "op_key (out ! i) = op_key (out ! j)" and lo: "op_local_off (out ! j) = op_local_off (out ! i) + op_len (out ! i)"
    using m by (simp_all add: mergeable_def)
  have ord2: "in_order rank (op_start (out ! a)) (op_start (out ! b))" if "a < b" "b < length out" for a b
    using ord that by (simp add: sorted_wrt_iff_nth_less)
  have len: "0 < op_len (out ! i)" "0 < op_len (out ! j)" using pos ij nth_mem by auto
  have "\<not> j < i" using ord2 [of j i] key lo len ij by (auto simp: in_order_def)
  moreover have "i \<noteq> j" using lo len by auto
  ultimately have c: "Suc i < j" using nj by linarith
  let ?r = "out ! Suc i"
  have r: "Suc i < length out" "0 < op_len ?r" using c ij pos nth_mem by auto
  have "rank (op_key (out ! i)) \<le> rank (op_key ?r)" "rank (op_key ?r) \<le> rank (op_key (out ! j))"
    using ord2 [of i "Suc i"] ord2 [of "Suc i" j] c ij r by (auto simp: in_order_def)
  then have "rank (op_key ?r) = rank (op_key (out ! i))" using key by simp
  moreover have "op_key ?r \<in> set (map op_key out)" "op_key (out ! i) \<in> set (map op_key out)"
    using r ij nth_mem by (auto simp only: set_map intro: imageI)
  ultimately have rk: "op_key ?r = op_key (out ! i)" using rank by (simp add: inj_on_eq_iff)
  then have b: "op_local_off (out ! i) \<le> op_local_off ?r" "op_local_off ?r \<le> op_local_off (out ! j)"
    using ord2 [of i "Suc i"] ord2 [of "Suc i" j] c ij r key by (auto simp: in_order_def)
  let ?w = "(op_local ?r, op_remote ?r, op_local_off ?r)"
  have w: "?w \<in> set (op_writes ?r)" using r by (simp add: op_writes_mem)
  show False
  proof (cases "op_local_off ?r = op_local_off (out ! j)")
    case True
    then have "?w \<in> set (op_writes (out ! j))" using len rk key by (simp add: op_writes_mem)
    then show False using writes_once_disjoint [OF once c ij(2)] w by blast
  next
    case False
    then have "?w \<in> set (op_writes (out ! i))" using b lo rk by (simp add: op_writes_mem)
    then show False using writes_once_disjoint [OF once _ r(1), of i] w by blast
  qed
qed

lemma coalesce_positive: "\<forall>op\<in>set ops. 0 < op_len op \<Longrightarrow> \<forall>op\<in>set (fold (coalesce_step m) ops []). 0 < op_len op"
proof (induction ops rule: rev_induct)
  case (snoc op ops)
  have step: "\<forall>q\<in>set out. 0 < op_len q \<Longrightarrow> \<forall>q\<in>set (coalesce_step m op out). 0 < op_len q" for out
    using snoc.prems last_in_set [of out] by (auto simp: coalesce_step_def merge_ops_def add_pos_pos dest: in_set_butlastD)
  from step snoc show ?case by simp
qed simp

lemma coalesce_no_mergeable_pair:
  assumes "coalesce_rdma_ops ops max_bytes = Inr out" and pos: "\<forall>op\<in>set ops. 0 < op_len op" and once: "writes_once ops"
    and "p \<in> set out" "q \<in> set out"
  shows "\<not> mergeable max_bytes p q"
proof
  assume m: "mergeable max_bytes p q"
  let ?s = "sorted_groups ops" and ?gs = "group_by_key op_key ops"
  have nn: "\<forall>op\<in>set ops. 0 \<le> op_len op" using pos by (auto intro: less_imp_le)
  note inv = coalesce_rdma_ops_inv [OF assms(1) nn]
  have out: "out = fold (coalesce_step max_bytes) ?s []" using assms(1) by (simp add: coalesce_rdma_ops_def rbind_Inr_iff)
  obtain rank where rank: "inj_on rank (fst ` set ?gs)" "sorted_wrt (in_order rank) (map op_start ?s)"
    using groups_in_order [of ?gs] group_by_key_grouped [of op_key ops] unfolding sorted_groups_def by blast
  have sub: "subseq (map op_start out) (map op_start ?s)" unfolding out by (rule coalesce_starts)
  have ord: "sorted_wrt (in_order rank) (map op_start out)" using sub rank(2) by (rule sorted_wrt_subseq)
  have starts: "set (map op_start out) \<subseteq> set (map op_start ?s)"
    using sub by (rule subseq_set)
  have "op_key op \<in> fst ` set ?gs" if "op \<in> set ?s" for op
  proof -
    have "\<exists>x\<in>set ?gs. op \<in> set (snd x)" using that by (force simp: sorted_groups_def)
    then obtain x where "x \<in> set ?gs" "op \<in> set (snd x)" by blast
    moreover from this have "op_key op = fst x" using group_by_key_grouped [of op_key ops] by (auto simp: case_prod_beta)
    ultimately show ?thesis by (simp only: image_eqI)
  qed
  then have keys: "set (map op_key out) \<subseteq> fst ` set ?gs" using starts by (fastforce simp del: fst_conv)
  have "\<forall>op\<in>set out. 0 < op_len op"
    unfolding out by (rule coalesce_positive) (use pos sorted_groups_mset [of ops] in \<open>auto dest: mset_eq_setD\<close>)
  obtain i j where ij: "i < length out" "out ! i = p" "j < length out" "out ! j = q" using assms(4,5) by (metis in_set_conv_nth)
  have "j = Suc i"
    using in_order_gap [OF inj_on_subset [OF rank(1) keys] ord, of i j max_bytes] writes_once_copies [OF inv(2)] once m ij
      \<open>\<forall>op\<in>set out. 0 < op_len op\<close> by blast
  then show False using inv(1) m ij by (auto simp: coalesce_inv_def successively_conv_nth)
qed

text \<open>
  C16: merging reads changes neither what is copied nor how often, and leaves nothing to merge. The merged batch copies exactly
  the same bytes between the same regions, has no more operations than the input and contains no operation above the size cap
  that was not already in the input. When every read has a length and no two reads between the same regions write the same local
  byte, no two operations of the merged batch, wherever they stand and however the input was ordered, could still be merged.
\<close>

theorem coalesce_preserves_copies:
  assumes "coalesce_rdma_ops ops max_bytes = Inr out" and "\<forall>op\<in>set ops. 0 \<le> op_len op"
  shows "copies out = copies ops \<and> length out \<le> length ops \<and>
         (\<forall>op\<in>set out. op_len op \<le> max_bytes \<or> op \<in> set ops) \<and>
         successively (\<lambda>p q. \<not> mergeable max_bytes p q) out \<and>
         ((\<forall>op\<in>set ops. 0 < op_len op) \<and> writes_once ops \<longrightarrow> (\<forall>p\<in>set out. \<forall>q\<in>set out. \<not> mergeable max_bytes p q))"
proof -
  have "set (sorted_groups ops) = set ops" "length (sorted_groups ops) = length ops"
    using sorted_groups_mset [of ops] by (metis set_mset_mset, metis size_mset)
  then show ?thesis
    using coalesce_rdma_ops_inv [OF assms] coalesce_no_mergeable_pair [OF assms(1)] by (simp add: coalesce_inv_def list_all_iff)
qed

theorem coalesce_preserves_copies_witness:
  "\<exists>out. coalesce_rdma_ops [(''a'', ''b'', 8, 108, 8), (''a'', ''b'', 0, 100, 8), (''a'', ''b'', 32, 64, 4)] 64 = Inr out \<and>
     copies out = copies [(''a'', ''b'', 8, 108, 8), (''a'', ''b'', 0, 100, 8), (''a'', ''b'', 32, 64, 4)] \<and>
     length out \<le> 3 \<and> (\<forall>p\<in>set out. \<forall>q\<in>set out. \<not> mergeable 64 p q)"
proof -
  let ?ops = "[(''a'', ''b'', 8, 108, 8), (''a'', ''b'', 0, 100, 8), (''a'', ''b'', 32, 64, 4)]"
  obtain out where out: "coalesce_rdma_ops ?ops 64 = Inr out" by (simp add: coalesce_rdma_ops_def)
  have "writes_once ?ops" by (simp add: writes_once_def op_writes_def op_bytes_def py_range_Cons)
  with coalesce_preserves_copies [OF out] out show ?thesis by simp
qed

subsection \<open>The bounds check\<close>

definition op_in_bounds ::
  "(string \<Rightarrow> int option) \<Rightarrow> (string \<rightharpoonup> int) \<Rightarrow> string rdma_op \<Rightarrow> bool" where
  "op_in_bounds remote_size local_region_sizes op \<longleftrightarrow>
     (case (local_region_sizes (op_local op), remote_size (op_remote op)) of
        (Some ls, Some rs) \<Rightarrow>
          0 \<le> op_local_off op \<and> 0 \<le> op_remote_off op \<and> 0 < op_len op \<and>
          op_local_off op + op_len op \<le> ls \<and> op_remote_off op + op_len op \<le> rs
      | _ \<Rightarrow> False)"

text \<open>The memo only ever holds what the peer agent answered.\<close>

definition memo_ok :: "(string \<Rightarrow> int option) \<Rightarrow> (string \<rightharpoonup> int) \<Rightarrow> bool" where
  "memo_ok info sizes \<longleftrightarrow> (\<forall>n s. sizes n = Some s \<longrightarrow> info n = Some s)"

lemma validate_step_ok:
  assumes "memo_ok (info peer) sizes"
  shows "(\<exists>sizes'. validate_step info peer locals op sizes = Inr sizes') \<longleftrightarrow>
           op_in_bounds (info peer) locals op"
    and "validate_step info peer locals op sizes = Inr sizes' \<Longrightarrow> memo_ok (info peer) sizes'"
proof -
  obtain a b lo ro n where op: "op = (a, b, lo, ro, n)" by (cases op)
  have known: "sizes b = Some s \<Longrightarrow> info peer b = Some s" for s
    using assms by (simp add: memo_ok_def)
  show "(\<exists>sizes'. validate_step info peer locals op sizes = Inr sizes') \<longleftrightarrow>
           op_in_bounds (info peer) locals op"
    using known
    by (cases "sizes b"; cases "info peer b"; cases "locals a")
      (auto simp: validate_step_def op_in_bounds_def op min_def)
  show "validate_step info peer locals op sizes = Inr sizes' \<Longrightarrow> memo_ok (info peer) sizes'"
    using assms known
    by (cases "sizes b"; cases "info peer b"; cases "locals a")
      (auto simp: validate_step_def op memo_ok_def split: if_splits)
qed

lemma validate_fold_ok:
  "memo_ok (info peer) sizes \<Longrightarrow>
   (\<exists>t. fold_res (validate_step info peer locals) ops sizes = Inr t) \<longleftrightarrow>
   (\<forall>op\<in>set ops. op_in_bounds (info peer) locals op)"
proof (induction ops arbitrary: sizes)
  case (Cons op ops)
  show ?case
  proof (cases "validate_step info peer locals op sizes")
    case (Inl e)
    then show ?thesis using validate_step_ok(1) [of info peer sizes locals op] Cons.prems by auto
  next
    case (Inr t)
    then show ?thesis
      using validate_step_ok [of info peer sizes locals op] Cons.prems Cons.IH [of t] by auto
  qed
qed simp

lemma validate_accepts_in_bounds:
  assumes "validate_named_region_ops info peer ops locals = Inr ()" "op \<in> set ops"
  shows "op_in_bounds (info peer) locals op"
  using assms validate_fold_ok [of info peer Map.empty locals ops]
  by (auto simp: validate_named_region_ops_def rbind_Inr_iff memo_ok_def)

text \<open>
  C20: the check before submission is exact. It accepts a batch if and only if both regions of every
  operation are registered, the offsets are non-negative, the length is positive and the range ends
  inside both regions; so no accepted read touches memory outside a registered region.
\<close>

theorem validate_named_region_ops_exact:
  "validate_named_region_ops info peer ops locals = Inr () \<longleftrightarrow>
     (\<forall>op\<in>set ops. op_in_bounds (info peer) locals op)"
proof -
  have "validate_named_region_ops info peer ops locals = Inr () \<longleftrightarrow>
      (\<exists>t. fold_res (validate_step info peer locals) ops Map.empty = Inr t)"
    by (auto simp: validate_named_region_ops_def rbind_Inr_iff)
  then show ?thesis using validate_fold_ok [of info peer Map.empty locals ops]
    by (simp add: memo_ok_def)
qed

theorem validate_named_region_ops_exact_witness:
  "validate_named_region_ops (\<lambda>_ _. Some 100) ''p'' [(''kv_cache'', ''kv_cache'', 0, 90, 10)] [''kv_cache'' \<mapsto> 10] = Inr () \<and>
   validate_named_region_ops (\<lambda>_ _. Some 100) ''p'' [(''kv_cache'', ''kv_cache'', 0, 91, 10)] [''kv_cache'' \<mapsto> 10] \<noteq> Inr ()"
  unfolding validate_named_region_ops_exact by (simp add: op_in_bounds_def)

text \<open>
  a batch whose first operation has registered regions but a negative offset or a length that is
  not positive is never reported as an invalid transfer: the message refers to a name that is not
  bound, so the caller sees a \<open>NameError\<close> instead of the documented \<open>RuntimeError\<close>.
\<close>

lemma invalid_op_raises_name_error:
  assumes "locals (op_local op) = Some ls" "info peer (op_remote op) = Some rs"
    and "op_local_off op < 0 \<or> op_remote_off op < 0 \<or> op_len op \<le> 0"
  shows "validate_named_region_ops info peer (op # ops) locals = Inl NameError"
  using assms
  by (cases op) (auto simp: validate_named_region_ops_def validate_step_def min_def)

lemma invalid_op_raises_name_error_witness:
  "validate_named_region_ops (\<lambda>_ _. Some 100) ''p'' [(''kv_cache'', ''kv_cache'', 0, 0, 0)] [''kv_cache'' \<mapsto> 10] = Inl NameError"
  using invalid_op_raises_name_error [of "[''kv_cache'' \<mapsto> 10]" "(''kv_cache'', ''kv_cache'', 0, 0, 0)" 10
      "\<lambda>_ _. Some 100" "''p''" 100 "[]"] by simp

subsection \<open>Submission and draining\<close>

text \<open>A world that logs submissions and waits, with a fixed outcome per peer and slot.\<close>

record read_log =
  log_submitted :: "string list"
  log_waited :: "string list"
  log_synced :: nat

definition logged_read ::
  "(string \<Rightarrow> unit option res) \<Rightarrow> string \<Rightarrow> 'h rdma_op list \<Rightarrow> read_log \<Rightarrow> read_log \<times> string option res" where
  "logged_read outcome peer ops w =
     (w\<lparr>log_submitted := log_submitted w @ [peer]\<rparr>,
      case outcome peer of Inl e \<Rightarrow> Inl e | Inr None \<Rightarrow> Inr None | Inr (Some _) \<Rightarrow> Inr (Some peer))"

definition logged_slot_wait :: "(string \<Rightarrow> unit res) \<Rightarrow> string \<Rightarrow> read_log \<Rightarrow> read_log \<times> unit res" where
  "logged_slot_wait completion slot w = (w\<lparr>log_waited := log_waited w @ [slot]\<rparr>, completion slot)"

definition logged_sync :: "unit res \<Rightarrow> read_log \<Rightarrow> read_log \<times> unit res" where
  "logged_sync sync w = (w\<lparr>log_synced := log_synced w + 1\<rparr>, sync)"

abbreviation submitted_ok :: "(string \<Rightarrow> unit option res) \<Rightarrow> 'h prepared_read \<Rightarrow> bool" where
  "submitted_ok outcome p \<equiv> outcome (pr_peer p) = Inr (Some ())"

text \<open>The errors of a run, in the order in which they occur.\<close>

definition submit_error :: "(string \<Rightarrow> unit option res) \<Rightarrow> 'h prepared_read list \<Rightarrow> py_error option" where
  "submit_error outcome ps =
     (case dropWhile (submitted_ok outcome) ps of
        [] \<Rightarrow> None
      | p # _ \<Rightarrow> Some (case outcome (pr_peer p) of Inl e \<Rightarrow> e | Inr _ \<Rightarrow> RuntimeErr ''endpoint.read returned None''))"

definition wait_errors :: "(string \<Rightarrow> unit res) \<Rightarrow> string list \<Rightarrow> py_error list" where
  "wait_errors completion slots = List.map_filter (\<lambda>s. case completion s of Inl e \<Rightarrow> Some e | Inr _ \<Rightarrow> None) slots"

definition read_errors ::
  "(string \<Rightarrow> unit option res) \<Rightarrow> (string \<Rightarrow> unit res) \<Rightarrow> unit res \<Rightarrow> 'h prepared_read list \<Rightarrow> py_error list" where
  "read_errors outcome completion sync ps =
     (let submitted = takeWhile (submitted_ok outcome) ps
      in (case submit_error outcome ps of None \<Rightarrow> [] | Some e \<Rightarrow> [e]) @ wait_errors completion (map pr_peer submitted) @
         (if submitted = [] then [] else case sync of Inl e \<Rightarrow> [e] | Inr _ \<Rightarrow> []))"

lemma submit_logged:
  "submit_reads (logged_read outcome) ps w = (w', slots, err) \<Longrightarrow>
     slots = map pr_peer (takeWhile (submitted_ok outcome) ps) \<and> log_waited w' = log_waited w \<and>
     log_synced w' = log_synced w \<and> err = submit_error outcome ps \<and>
     log_submitted w' = log_submitted w @ map pr_peer (takeWhile (submitted_ok outcome) ps @ take 1 (dropWhile (submitted_ok outcome) ps))"
proof (induction ps arbitrary: w w' slots err)
  case (Cons p ps)
  then show ?case
    by (cases "outcome (pr_peer p)") (auto simp: logged_read_def submit_error_def split: option.splits prod.splits)
qed (simp add: submit_error_def)

lemma drain_logged_slots:
  "drain_slots (logged_slot_wait completion) slots primary w = (w', err) \<Longrightarrow>
     log_waited w' = log_waited w @ slots \<and> log_synced w' = log_synced w \<and> log_submitted w' = log_submitted w \<and>
     err = (case (case primary of None \<Rightarrow> [] | Some e \<Rightarrow> [e]) @ wait_errors completion slots of [] \<Rightarrow> None | e # _ \<Rightarrow> Some e)"
proof (induction slots arbitrary: primary w w' err)
  case Nil
  then show ?case by (auto simp: wait_errors_def List.map_filter_def split: option.splits)
next
  case (Cons s slots)
  show ?case
  proof (cases "completion s")
    case (Inl e)
    then show ?thesis
      using Cons.prems Cons.IH [of "case primary of None \<Rightarrow> Some e | Some p \<Rightarrow> Some p"
          "w\<lparr>log_waited := log_waited w @ [s]\<rparr>" w' err]
      by (auto simp: logged_slot_wait_def wait_errors_def map_filter_simps split: option.splits)
  next
    case (Inr u)
    then show ?thesis
      using Cons.prems Cons.IH [of primary "w\<lparr>log_waited := log_waited w @ [s]\<rparr>" w' err]
      by (auto simp: logged_slot_wait_def wait_errors_def map_filter_simps)
  qed
qed

text \<open>
  C23: no submitted read is abandoned, and the first error is the one that is raised. Reads are submitted in order up to and
  including the first one whose submission fails; whatever fails, exactly the reads submitted before it are waited for, in order;
  the device is synchronised once if any read was submitted. The call returns normally when no submission, completion or
  synchronisation failed; otherwise it raises the first of the errors in the order in which they occurred (the failed
  submission, then the completions in the order of the waits, then the synchronisation).
\<close>

theorem run_prepared_reads_drains:
  assumes "run_prepared_reads (logged_read outcome) (logged_slot_wait completion) (logged_sync sync) ps w = (w', r)"
  shows "log_submitted w' = log_submitted w @ map pr_peer (takeWhile (submitted_ok outcome) ps @ take 1 (dropWhile (submitted_ok outcome) ps)) \<and>
         log_waited w' = log_waited w @ map pr_peer (takeWhile (submitted_ok outcome) ps) \<and>
         log_synced w' = log_synced w + (if takeWhile (submitted_ok outcome) ps = [] then 0 else 1) \<and>
         r = (case read_errors outcome completion sync ps of [] \<Rightarrow> Inr () | e # _ \<Rightarrow> Inl e)"
proof -
  obtain w1 slots e1 where s: "submit_reads (logged_read outcome) ps w = (w1, slots, e1)"
    by (cases "submit_reads (logged_read outcome) ps w")
  obtain w2 e2 where d: "drain_slots (logged_slot_wait completion) slots e1 w1 = (w2, e2)"
    by (cases "drain_slots (logged_slot_wait completion) slots e1 w1")
  note S = submit_logged [OF s] and D = drain_logged_slots [OF d]
  have r: "r = (case e2 of Some e \<Rightarrow> Inl e | None \<Rightarrow> (if slots = [] then Inr () else sync))"
    "w' = (if slots = [] then w2 else w2\<lparr>log_synced := log_synced w2 + 1\<rparr>)"
    using assms s d by (auto simp: run_prepared_reads_def logged_sync_def split: if_splits option.splits sum.splits)
  have "r = (case read_errors outcome completion sync ps of [] \<Rightarrow> Inr () | e # _ \<Rightarrow> Inl e)"
    using S D unfolding r(1) read_errors_def Let_def
    by (auto split: list.splits option.splits sum.splits)
  then show ?thesis using S D r(2) by simp
qed

theorem run_prepared_reads_drains_witness:
  "\<exists>w'. run_prepared_reads (logged_read (\<lambda>a. if a = ''c'' then Inr None else Inr (Some ())))
     (logged_slot_wait (\<lambda>s. Inl (ExternalError s))) (logged_sync (Inl (ExternalError ''sync'')))
     [\<lparr>pr_peer = ''a'', pr_ops = []\<rparr> :: string prepared_read, \<lparr>pr_peer = ''b'', pr_ops = []\<rparr>, \<lparr>pr_peer = ''c'', pr_ops = []\<rparr>]
     \<lparr>log_submitted = [], log_waited = [], log_synced = 0\<rparr> = (w', Inl (RuntimeErr ''endpoint.read returned None'')) \<and>
   log_waited w' = [''a'', ''b''] \<and> log_synced w' = 1"
proof -
  let ?o = "\<lambda>a. if a = ''c'' then Inr None else Inr (Some ())"
  let ?ps = "[\<lparr>pr_peer = ''a'', pr_ops = []\<rparr>, \<lparr>pr_peer = ''b'', pr_ops = []\<rparr>,
              \<lparr>pr_peer = ''c'', pr_ops = []\<rparr>] :: string prepared_read list"
  let ?w = "\<lparr>log_submitted = [], log_waited = [], log_synced = 0\<rparr>"
  obtain w' r where run: "run_prepared_reads (logged_read ?o)
     (logged_slot_wait (\<lambda>s. Inl (ExternalError s))) (logged_sync (Inl (ExternalError ''sync''))) ?ps ?w = (w', r)"
    by (cases "run_prepared_reads (logged_read ?o)
     (logged_slot_wait (\<lambda>s. Inl (ExternalError s))) (logged_sync (Inl (ExternalError ''sync''))) ?ps ?w")
  have "r = Inl (RuntimeErr ''endpoint.read returned None'')" "log_waited w' = [''a'', ''b'']" "log_synced w' = 1"
    using run_prepared_reads_drains [OF run] by (simp_all add: read_errors_def submit_error_def)
  then show ?thesis using run by blast
qed

end
