(* ===== verification/Transfer_Ops.thy ===== *)
theory Transfer_Ops
  imports Migration_Plan Rdma
begin

section \<open>From assignments to reads (\<open>runtime/disagg/p2p/cache_transfer.py\<close>)\<close>

text \<open>
  The registration of the local memory regions and the preparation half of
  \<open>_execute_rdma_reads\<close>: per engine and peer, the assignments of every kind of cache state become
  byte-range reads, which are merged and bounds-checked before anything is submitted. The peer agent
  (registration, connections, remote region info, reads) is a parameter.
\<close>

subsection \<open>Region names\<close>

definition compressed_region_name :: "int \<Rightarrow> string" where
  "compressed_region_name ratio = ''dsv4_compressed_r'' @ py_str_int ratio"

definition compressor_region_name :: "string \<Rightarrow> int \<Rightarrow> string" where
  "compressor_region_name kind ratio = ''dsv4_compressor_'' @ kind @ ''_r'' @ py_str_int ratio"

subsection \<open>Registration\<close>

text \<open>
  A handler is the region's name when the peer context allocated the tensor itself, otherwise what
  the agent returned. \<open>register name base_offset bytes\<close> is the agent's registration of a tensor.
\<close>

datatype 'h mr_handler = Owned string | Registered 'h

record 'h local_regions =
  rg_kv :: "'h mr_handler option"
  rg_cold :: "'h mr_handler option"
  rg_indexer :: "'h mr_handler option"
  rg_gdn_conv :: "'h mr_handler option"
  rg_gdn_recurrent :: "'h mr_handler option"
  rg_mtp :: "'h mr_handler option"
  rg_compressed :: "int \<rightharpoonup> 'h mr_handler"
  rg_compressor_kv :: "int \<rightharpoonup> 'h mr_handler"
  rg_compressor_score :: "int \<rightharpoonup> 'h mr_handler"
  rg_compressor_counts :: "int \<rightharpoonup> 'h mr_handler"
  rg_sizes :: "string \<rightharpoonup> int"

definition no_regions :: "'h local_regions" where
  "no_regions = \<lparr>rg_kv = None, rg_cold = None, rg_indexer = None, rg_gdn_conv = None,
     rg_gdn_recurrent = None, rg_mtp = None, rg_compressed = Map.empty, rg_compressor_kv = Map.empty,
     rg_compressor_score = Map.empty, rg_compressor_counts = Map.empty, rg_sizes = Map.empty\<rparr>"

record 'h region_agent =
  ra_owns :: "string \<Rightarrow> bool"
  ra_register :: "string \<Rightarrow> int \<Rightarrow> int \<Rightarrow> 'h res"

definition register_tensor ::
  "'h region_agent \<Rightarrow> string \<Rightarrow> int \<Rightarrow> int \<Rightarrow> 'h mr_handler res" where
  "register_tensor a name off bytes = rbind (ra_register a name off bytes) (\<lambda>h. Inr (Registered h))"

definition register_kv ::
  "'h region_agent \<Rightarrow> cache_context \<Rightarrow> 'h local_regions \<Rightarrow> 'h local_regions res" where
  "register_kv a c g =
     (case cc_kv_cache c of
        None \<Rightarrow> Inl AttributeError
      | Some t \<Rightarrow>
          rbind (if ra_owns a ''kv_cache'' then Inr (Owned ''kv_cache'')
                 else register_tensor a ''kv_cache'' (t_offset t) (tensor_storage_span_num_bytes t)) (\<lambda>h.
          Inr (g\<lparr>rg_kv := Some h,
                 rg_sizes := (rg_sizes g)(''kv_cache'' \<mapsto> tensor_storage_span_num_bytes t)\<rparr>)))"

definition register_mtp ::
  "'h region_agent \<Rightarrow> cache_context \<Rightarrow> 'h local_regions \<Rightarrow> 'h local_regions res" where
  "register_mtp a c g =
     (case cc_mtp_handoff c of
        None \<Rightarrow> Inr g
      | Some t \<Rightarrow>
          rbind (register_tensor a ''mtp_handoff'' (t_offset t) (tensor_storage_span_num_bytes t)) (\<lambda>h.
          Inr (g\<lparr>rg_mtp := Some h,
                 rg_sizes := (rg_sizes g)(''mtp_handoff'' \<mapsto> tensor_storage_span_num_bytes t)\<rparr>)))"

definition register_cold ::
  "bool \<Rightarrow> 'h region_agent \<Rightarrow> cache_context \<Rightarrow> 'h local_regions \<Rightarrow> 'h local_regions res" where
  "register_cold hisparse_enabled a c g =
     (case cc_host_kv_cache c of
        None \<Rightarrow> Inr g
      | Some t \<Rightarrow>
          if hisparse_enabled \<and> cc_mode c = ''mla''
          then rbind (register_tensor a ''hisparse_cold_kv'' (t_offset t) (tensor_storage_span_num_bytes t)) (\<lambda>h.
               Inr (g\<lparr>rg_cold := Some h,
                      rg_sizes := (rg_sizes g)(''hisparse_cold_kv'' \<mapsto> tensor_storage_span_num_bytes t)\<rparr>))
          else Inr g)"

definition register_gdn ::
  "'h region_agent \<Rightarrow> cache_context \<Rightarrow> 'h local_regions \<Rightarrow> 'h local_regions res" where
  "register_gdn a c g =
     (case (cc_gdn_conv_states c, cc_gdn_recurrent_states c) of
        (Some conv, Some rec) \<Rightarrow>
          (let conv_size = numel conv * element_size conv; recurrent_size = numel rec * element_size rec
           in rbind (register_tensor a ''gdn_conv'' (t_offset conv) conv_size) (\<lambda>hc.
              rbind (register_tensor a ''gdn_recurrent'' (t_offset rec) recurrent_size) (\<lambda>hr.
              Inr (g\<lparr>rg_gdn_conv := Some hc, rg_gdn_recurrent := Some hr,
                     rg_sizes := (rg_sizes g)(''gdn_conv'' \<mapsto> conv_size, ''gdn_recurrent'' \<mapsto> recurrent_size)\<rparr>))))
      | _ \<Rightarrow> Inr g)"

definition register_indexer ::
  "'h region_agent \<Rightarrow> cache_context \<Rightarrow> 'h local_regions \<Rightarrow> 'h local_regions res" where
  "register_indexer a c g =
     (case cc_indexer_cache c of
        None \<Rightarrow> Inr g
      | Some ix \<Rightarrow>
          (let bytes = numel (ix_buffer ix) * element_size (ix_buffer ix)
           in rbind (if ra_owns a ''indexer_cache'' then Inr (Owned ''indexer_cache'')
                     else register_tensor a ''indexer_cache'' 0 bytes) (\<lambda>h.
              Inr (g\<lparr>rg_indexer := Some h, rg_sizes := (rg_sizes g)(''indexer_cache'' \<mapsto> bytes)\<rparr>))))"

text \<open>
  The four per-ratio loops. Handlers are recorded as each buffer is registered; the sizes of the
  compressor buffers are recorded after all of them. A failed registration is re-raised and ends the
  start-up, so the tables it leaves half filled are not part of the result.
\<close>

definition ratios_of :: "cache_context \<Rightarrow> (int \<rightharpoonup> tensor) \<Rightarrow> int list" where
  "ratios_of c m = filter (\<lambda>r. m r \<noteq> None) (unique_ratios (cc_compress_ratios c))"

definition register_ratio_buffers ::
  "'h region_agent \<Rightarrow> (int \<Rightarrow> string) \<Rightarrow> int list \<Rightarrow> (int \<rightharpoonup> tensor) \<Rightarrow> (int \<rightharpoonup> 'h mr_handler)
   \<Rightarrow> (int \<rightharpoonup> 'h mr_handler) res" where
  "register_ratio_buffers a name ratios m hs =
     fold_res (\<lambda>r hs.
       case m r of
         None \<Rightarrow> Inr hs
       | Some t \<Rightarrow>
           rbind (register_tensor a (name r) (t_offset t) (numel t * element_size t)) (\<lambda>h.
           Inr (hs(r \<mapsto> h)))) ratios hs"

definition record_ratio_sizes ::
  "(int \<Rightarrow> string) \<Rightarrow> int list \<Rightarrow> (int \<rightharpoonup> tensor) \<Rightarrow> (string \<rightharpoonup> int) \<Rightarrow> (string \<rightharpoonup> int)" where
  "record_ratio_sizes name ratios m sizes =
     fold (\<lambda>r sizes. case m r of None \<Rightarrow> sizes
                     | Some t \<Rightarrow> sizes(name r \<mapsto> numel t * element_size t)) ratios sizes"

definition register_dsv4 ::
  "'h region_agent \<Rightarrow> cache_context \<Rightarrow> 'h local_regions \<Rightarrow> 'h local_regions res" where
  "register_dsv4 a c g =
     (let comp = ratios_of c (cc_compressed_flat c); kv = ratios_of c (cc_compressor_kv c);
          score = ratios_of c (cc_compressor_score c); counts = ratios_of c (cc_compressor_counts c)
      in rbind (register_ratio_buffers a compressed_region_name comp (cc_compressed_flat c) (rg_compressed g)) (\<lambda>h0.
         rbind (register_ratio_buffers a (compressor_region_name ''kv'') kv (cc_compressor_kv c) (rg_compressor_kv g)) (\<lambda>h1.
         rbind (register_ratio_buffers a (compressor_region_name ''score'') score (cc_compressor_score c)
                  (rg_compressor_score g)) (\<lambda>h2.
         rbind (register_ratio_buffers a (compressor_region_name ''counts'') counts (cc_compressor_counts c)
                  (rg_compressor_counts g)) (\<lambda>h3.
         Inr (g\<lparr>rg_compressed := h0, rg_compressor_kv := h1, rg_compressor_score := h2, rg_compressor_counts := h3,
                rg_sizes :=
                  record_ratio_sizes (compressor_region_name ''counts'') counts (cc_compressor_counts c)
                    (record_ratio_sizes (compressor_region_name ''score'') score (cc_compressor_score c)
                      (record_ratio_sizes (compressor_region_name ''kv'') kv (cc_compressor_kv c)
                        (record_ratio_sizes compressed_region_name comp (cc_compressed_flat c) (rg_sizes g))))\<rparr>))))))"

definition register_peer_agent_memory_regions ::
  "'h region_agent option \<Rightarrow> bool \<Rightarrow> string \<Rightarrow> cache_context \<Rightarrow> 'h local_regions \<Rightarrow> 'h local_regions res" where
  "register_peer_agent_memory_regions agent hisparse_enabled engine_mode c g =
     (case agent of
        None \<Rightarrow> Inr g
      | Some a \<Rightarrow>
          if engine_mode = ''hybrid'' then Inr g
          else rbind (register_kv a c g) (\<lambda>g.
               rbind (register_mtp a c g) (\<lambda>g.
               rbind (register_cold hisparse_enabled a c g) (\<lambda>g.
               rbind (register_gdn a c g) (\<lambda>g.
               rbind (register_indexer a c g) (\<lambda>g.
               register_dsv4 a c g))))))"

subsection \<open>Preparing the reads\<close>

text \<open>
  \<open>tv_transport peer\<close> is the transport of the peer's connection, \<open>None\<close> when the connection or its
  endpoint is missing. A remote region is known when the agent has its info, which an NVLink connection
  does not need.
\<close>

record 'h transfer_env =
  tv_layout :: layout_source
  tv_regions :: "'h local_regions"
  tv_remote_max_num_seqs :: "string \<rightharpoonup> int"
  tv_is_connected :: "string \<Rightarrow> bool"
  tv_transport :: "string \<Rightarrow> string option"
  tv_mr_info :: "string \<Rightarrow> string \<Rightarrow> int option"

abbreviation tv_cache :: "'h transfer_env \<Rightarrow> cache_context" where
  "tv_cache e \<equiv> ls_cache_context (tv_layout e)"

definition remote_known :: "'h transfer_env \<Rightarrow> string \<Rightarrow> string \<Rightarrow> bool" where
  "remote_known e peer region \<longleftrightarrow> tv_transport e peer = Some ''nvlink'' \<or> tv_mr_info e peer region \<noteq> None"

definition kv_local_offset :: "'h transfer_env \<Rightarrow> kv_read \<Rightarrow> int res" where
  "kv_local_offset e r =
     (if rg_cold (tv_regions e) \<noteq> None
      then (case cc_host_kv_cache (tv_cache e) of
              None \<Rightarrow> Inl AttributeError
            | Some cold \<Rightarrow>
                Inr ((kr_kv r * stride cold 0 + kr_local_layer r * stride cold 1 + kr_local_block r * stride cold 2)
                     * element_size cold))
      else local_kv_stride (tv_layout e) (kr_kv r) (kr_local_layer r) (kr_local_block r))"

text \<open>An assignment with a negative offset or an empty block is logged and skipped.\<close>

definition kv_op :: "'h transfer_env \<Rightarrow> kv_read \<Rightarrow> string rdma_op list res" where
  "kv_op e r =
     rbind (kv_local_offset e r) (\<lambda>local_off.
     rbind (remote_kv_stride (tv_layout e) (kr_kv r) (kr_remote_layer r) (kr_remote_block r)
              (kr_engine r) (kr_remote_num_layers r)) (\<lambda>remote_off.
     let len = block_num_bytes (layout_local (tv_layout e));
         name = (if rg_cold (tv_regions e) \<noteq> None then ''hisparse_cold_kv'' else ''kv_cache'')
     in Inr (if local_off < 0 \<or> remote_off < 0 \<or> len \<le> 0 then []
             else [(name, ''kv_cache'', local_off, remote_off, len)])))"

definition kv_ops :: "'h transfer_env \<Rightarrow> kv_read list \<Rightarrow> string rdma_op list res" where
  "kv_ops e batch =
     rbind (check (batch = [] \<or> rg_kv (tv_regions e) \<noteq> None)
              (RuntimeErr ''Local memory region kv_cache is not registered'')) (\<lambda>_.
     rbind (mapr (kv_op e) batch) (\<lambda>opss. Inr (concat opss)))"

text \<open>One read per assignment of a region that is the same on both sides.\<close>

definition region_ops ::
  "'h transfer_env \<Rightarrow> string \<Rightarrow> string \<Rightarrow> (layer_read \<Rightarrow> int) \<Rightarrow> (layer_read \<Rightarrow> int res) \<Rightarrow> int \<Rightarrow> layer_read list
   \<Rightarrow> string rdma_op list res" where
  "region_ops e peer region local_off remote_off len batch =
     rbind (check (remote_known e peer region) (RuntimeErr ''Failed to get MR info'')) (\<lambda>_.
     mapr (\<lambda>r. rbind (remote_off r) (\<lambda>ro. Inr (region, region, local_off r, ro, len))) batch)"

definition gdn_ops :: "'h transfer_env \<Rightarrow> string \<Rightarrow> layer_read list \<Rightarrow> string rdma_op list res" where
  "gdn_ops e peer batch =
     (let l = layout_local (tv_layout e) in
      if batch = [] \<or> cc_gdn_conv_states (tv_cache e) = None \<or> cc_gdn_recurrent_states (tv_cache e) = None
      then Inr []
      else rbind (region_ops e peer ''gdn_conv''
                    (\<lambda>r. gdn_conv_stride l (lr_local_layer r) (lr_local_slot r))
                    (\<lambda>r. remote_gdn_conv_stride (tv_layout e) (lr_remote_layer r) (lr_remote_slot r) (lr_engine r))
                    (gdn_conv_slot_num_bytes l) batch) (\<lambda>conv.
           rbind (region_ops e peer ''gdn_recurrent''
                    (\<lambda>r. gdn_recurrent_stride l (lr_local_layer r) (lr_local_slot r))
                    (\<lambda>r. remote_gdn_recurrent_stride (tv_layout e) (lr_remote_layer r) (lr_remote_slot r) (lr_engine r))
                    (gdn_recurrent_slot_num_bytes l) batch) (\<lambda>rec.
           Inr (conv @ rec))))"

text \<open>A peer without a handoff region is tolerated: no read is added.\<close>

definition mtp_ops ::
  "'h transfer_env \<Rightarrow> string \<Rightarrow> (string \<times> string \<times> int \<times> int) list \<Rightarrow> string rdma_op list res" where
  "mtp_ops e peer batch =
     (case cc_mtp_handoff (tv_cache e) of
        None \<Rightarrow> Inr []
      | Some t \<Rightarrow>
          if batch = [] \<or> \<not> remote_known e peer ''mtp_handoff'' then Inr []
          else mapr (\<lambda>(eid, _, remote_slot, local_slot).
                 (let row_bytes = stride t 0 * element_size t; local_slots = t_shape t ! 0;
                      remote_slots = dict_get (tv_remote_max_num_seqs e) eid 0
                  in rbind (check (0 \<le> local_slot \<and> local_slot < local_slots)
                              (RuntimeErr ''Local MTP handoff slot out of range'')) (\<lambda>_.
                     rbind (check (remote_slots \<le> 0 \<or> 0 \<le> remote_slot \<and> remote_slot < remote_slots)
                              (RuntimeErr ''Remote MTP handoff slot out of range'')) (\<lambda>_.
                     Inr (''mtp_handoff'', ''mtp_handoff'', local_slot * row_bytes, remote_slot * row_bytes,
                          row_bytes))))) batch)"

definition compressed_ratio_ops ::
  "'h transfer_env \<Rightarrow> string \<Rightarrow> int \<Rightarrow> layer_read list \<Rightarrow> string rdma_op list res" where
  "compressed_ratio_ops e peer ratio batch =
     (let l = layout_local (tv_layout e) in
      rbind (check (rg_compressed (tv_regions e) ratio \<noteq> None)
               (RuntimeErr ''Local DSv4 compressed MR is not registered'')) (\<lambda>_.
      region_ops e peer (compressed_region_name ratio)
        (\<lambda>r. compressed_stride l ratio (lr_local_layer r) (lr_local_slot r))
        (\<lambda>r. remote_compressed_stride (tv_layout e) ratio (lr_remote_layer r) (lr_remote_slot r) (lr_engine r))
        (compressed_page_bytes l ratio) batch))"

definition compressed_ops ::
  "'h transfer_env \<Rightarrow> string \<Rightarrow> (int \<times> layer_read) list \<Rightarrow> string rdma_op list res" where
  "compressed_ops e peer batch =
     rbind (mapr (\<lambda>(ratio, rs). compressed_ratio_ops e peer ratio (map snd rs)) (group_by_key fst batch))
       (\<lambda>opss. Inr (concat opss))"

definition compressor_kind_ops ::
  "'h transfer_env \<Rightarrow> string \<Rightarrow> int \<Rightarrow> layer_read list \<Rightarrow> string \<times> (int \<rightharpoonup> 'h mr_handler) \<Rightarrow> string rdma_op list res" where
  "compressor_kind_ops e peer ratio batch km =
     (case km of (kind, handlers) \<Rightarrow>
       rbind (check (handlers ratio \<noteq> None) (RuntimeErr ''Local compressor MR is not registered'')) (\<lambda>_.
       region_ops e peer (compressor_region_name kind ratio)
         (\<lambda>r. compressor_state_stride (layout_local (tv_layout e)) ratio (lr_local_layer r) (lr_local_slot r) kind)
         (\<lambda>r. remote_compressor_state_stride (tv_layout e) ratio (lr_remote_layer r) (lr_remote_slot r) kind (lr_engine r))
         (compressor_state_row_bytes ratio kind) batch))"

definition compressor_ops ::
  "'h transfer_env \<Rightarrow> string \<Rightarrow> (int \<times> layer_read) list \<Rightarrow> string rdma_op list res" where
  "compressor_ops e peer batch =
     (let g = tv_regions e in
      rbind (mapr (\<lambda>(ratio, rs).
          rbind (mapr (compressor_kind_ops e peer ratio (map snd rs))
                   [(''kv'', rg_compressor_kv g), (''score'', rg_compressor_score g),
                    (''counts'', rg_compressor_counts g)]) (\<lambda>kss. Inr (concat kss)))
          (group_by_key fst batch)) (\<lambda>opss. Inr (concat opss)))"

definition indexer_ops :: "'h transfer_env \<Rightarrow> string \<Rightarrow> layer_read list \<Rightarrow> string rdma_op list res" where
  "indexer_ops e peer batch =
     (let l = layout_local (tv_layout e) in
      if batch = [] \<or> cc_indexer_cache (tv_cache e) = None then Inr []
      else region_ops e peer ''indexer_cache''
             (\<lambda>r. indexer_stride l (lr_local_layer r) (lr_local_slot r))
             (\<lambda>r. remote_indexer_stride (tv_layout e) (lr_remote_layer r) (lr_remote_slot r) (lr_engine r))
             (tl_indexer_page_bytes l) batch)"

text \<open>The assignments of one engine and peer, in append order.\<close>

definition batch_of :: "string \<Rightarrow> string \<Rightarrow> assignments \<Rightarrow> assignments" where
  "batch_of eid peer asg =
     \<lparr>as_kv = filter (\<lambda>r. kr_engine r = eid \<and> kr_peer r = peer) (as_kv asg),
      as_indexer = filter (\<lambda>r. lr_engine r = eid \<and> lr_peer r = peer) (as_indexer asg),
      as_compressed = filter (\<lambda>(_, r). lr_engine r = eid \<and> lr_peer r = peer) (as_compressed asg),
      as_compressor = filter (\<lambda>(_, r). lr_engine r = eid \<and> lr_peer r = peer) (as_compressor asg),
      as_mtp = filter (\<lambda>(e, p, _). e = eid \<and> p = peer) (as_mtp asg),
      as_gdn = filter (\<lambda>r. lr_engine r = eid \<and> lr_peer r = peer) (as_gdn asg)\<rparr>"

definition ops_of_batch :: "'h transfer_env \<Rightarrow> string \<Rightarrow> assignments \<Rightarrow> string rdma_op list res" where
  "ops_of_batch e peer b =
     rbind (kv_ops e (as_kv b)) (\<lambda>kv.
     rbind (gdn_ops e peer (as_gdn b)) (\<lambda>gdn.
     rbind (mtp_ops e peer (as_mtp b)) (\<lambda>mtp.
     rbind (compressed_ops e peer (as_compressed b)) (\<lambda>comp.
     rbind (compressor_ops e peer (as_compressor b)) (\<lambda>cstate.
     rbind (indexer_ops e peer (as_indexer b)) (\<lambda>ix.
     Inr (kv @ gdn @ mtp @ comp @ cstate @ ix)))))))"

abbreviation MAX_COALESCED_RDMA_BYTES :: int where
  "MAX_COALESCED_RDMA_BYTES \<equiv> 256 * 1024 * 1024"

definition prepare_peer ::
  "'h transfer_env \<Rightarrow> assignments \<Rightarrow> string \<times> string \<Rightarrow> string prepared_read res" where
  "prepare_peer e asg ep =
     (case ep of (eid, peer) \<Rightarrow>
       rbind (check (tv_is_connected e peer) (RuntimeErr ''Peer not connected'')) (\<lambda>_.
       rbind (check (tv_transport e peer \<noteq> None) (RuntimeErr ''Failed to get endpoint'')) (\<lambda>_.
       rbind (ops_of_batch e peer (batch_of eid peer asg)) (\<lambda>ops.
       rbind (check (ops \<noteq> []) (RuntimeErr ''No valid RDMA ops'')) (\<lambda>_.
       rbind (coalesce_rdma_ops ops MAX_COALESCED_RDMA_BYTES) (\<lambda>merged.
       rbind (if tv_transport e peer = Some ''nvlink'' then Inr ()
              else validate_named_region_ops (tv_mr_info e) peer merged (rg_sizes (tv_regions e))) (\<lambda>_.
       Inr \<lparr>pr_peer = peer, pr_ops = merged\<rparr>)))))))"

text \<open>
  The engines and the peers of an engine are Python sets: \<open>set_order\<close> stands for the order in which
  a set is iterated.
\<close>

definition engine_peers :: "assignments \<Rightarrow> (string \<times> string) list" where
  "engine_peers asg =
     map (\<lambda>r. (kr_engine r, kr_peer r)) (as_kv asg) @ map (\<lambda>r. (lr_engine r, lr_peer r)) (as_gdn asg)
     @ map (\<lambda>r. (lr_engine r, lr_peer r)) (as_indexer asg)
     @ map (\<lambda>(_, r). (lr_engine r, lr_peer r)) (as_compressed asg)
     @ map (\<lambda>(_, r). (lr_engine r, lr_peer r)) (as_compressor asg)
     @ map (\<lambda>(e, p, _). (e, p)) (as_mtp asg)"

definition enumerates :: "(string list \<Rightarrow> string list) \<Rightarrow> bool" where
  "enumerates set_order \<longleftrightarrow> (\<forall>xs. set (set_order xs) = set xs \<and> distinct (set_order xs))"

definition prepare_reads ::
  "(string list \<Rightarrow> string list) \<Rightarrow> 'h transfer_env \<Rightarrow> assignments \<Rightarrow> string prepared_read list res" where
  "prepare_reads set_order e asg =
     (let eps = engine_peers asg
      in mapr (prepare_peer e asg)
           (concat (map (\<lambda>eid. map (Pair eid) (set_order (map snd (filter (\<lambda>(e, _). e = eid) eps))))
             (set_order (map fst eps)))))"

definition execute_rdma_reads ::
  "(string list \<Rightarrow> string list) \<Rightarrow> (string \<Rightarrow> string rdma_op list \<Rightarrow> 's \<Rightarrow> 's \<times> 'slot option res)
   \<Rightarrow> ('slot \<Rightarrow> 's \<Rightarrow> 's \<times> unit res) \<Rightarrow> ('s \<Rightarrow> 's \<times> unit res) \<Rightarrow> 'h transfer_env \<Rightarrow> assignments
   \<Rightarrow> 's \<Rightarrow> 's \<times> unit res" where
  "execute_rdma_reads set_order read wait_slot synchronize e asg w =
     (case prepare_reads set_order e asg of
        Inl err \<Rightarrow> (w, Inl err)
      | Inr prepared \<Rightarrow> run_prepared_reads read wait_slot synchronize prepared w)"

subsection \<open>What the prepared reads copy\<close>

text \<open>Sizes that come from allocated tensors are not negative.\<close>

definition sizes_ok :: "'h transfer_env \<Rightarrow> assignments \<Rightarrow> bool" where
  "sizes_ok e b \<longleftrightarrow>
     (let l = layout_local (tv_layout e) in
      0 \<le> gdn_conv_slot_num_bytes l \<and> 0 \<le> gdn_recurrent_slot_num_bytes l \<and> 0 \<le> tl_indexer_page_bytes l \<and>
      (\<forall>(ratio, r) \<in> set (as_compressed b). 0 \<le> compressed_page_bytes l ratio) \<and>
      (\<forall>(ratio, r) \<in> set (as_compressor b). 0 \<le> ratio) \<and>
      (\<forall>t. cc_mtp_handoff (tv_cache e) = Some t \<longrightarrow> 0 \<le> stride t 0))"

lemma mapr_concat_set:
  assumes "rbind (mapr f xs) (\<lambda>yss. Inr (concat yss)) = Inr zs" "z \<in> set zs"
  obtains x ys where "x \<in> set xs" "f x = Inr ys" "z \<in> set ys"
  using assms mapr_set [of f xs] by (fastforce simp: rbind_Inr_iff)

lemma mapr_concat_set_of:
  assumes "rbind (mapr f xs) (\<lambda>yss. Inr (concat yss)) = Inr zs" "x \<in> set xs"
  obtains ys where "f x = Inr ys" "set ys \<subseteq> set zs"
  using assms mapr_set_of [of f xs] by (fastforce simp: rbind_Inr_iff)

lemma region_ops_in:
  assumes "region_ops e peer region lo ro len batch = Inr ops" "op \<in> set ops"
  shows "\<exists>r off. r \<in> set batch \<and> ro r = Inr off \<and> op = (region, region, lo r, off, len)"
  using assms unfolding region_ops_def by (fastforce simp: rbind_Inr_iff dest: mapr_set)

lemma region_ops_of:
  assumes "region_ops e peer region lo ro len batch = Inr ops" "r \<in> set batch"
  shows "\<exists>off. ro r = Inr off \<and> (region, region, lo r, off, len) \<in> set ops"
  using assms by (auto simp: region_ops_def rbind_Inr_iff dest!: mapr_set_of)

lemma group_by_key_key:
  assumes "(k, g) \<in> set (group_by_key key xs)" "x \<in> set g"
  shows "key x = k"
proof -
  let ?inv = "\<lambda>gs. \<forall>(k, g) \<in> set gs. \<forall>x \<in> set g. key x = k"
  have add: "?inv (add_to_group (key x) x gs)" if "?inv gs" for x gs
    using that by (induction "key x" x gs rule: add_to_group.induct) auto
  have "?inv gs \<Longrightarrow> ?inv (fold (\<lambda>x. add_to_group (key x) x) xs gs)" for gs
    by (induction xs arbitrary: gs) (simp_all only: fold_simps, use add in blast)
  from this [of "[]"] have "?inv (group_by_key key xs)" unfolding group_by_key_def by simp
  then show ?thesis using assms by blast
qed

lemma group_by_key_member:
  assumes "(k, g) \<in> set (group_by_key key xs)" "x \<in> set g"
  shows "x \<in> set xs"
proof -
  have "x \<in> set (concat (map snd (group_by_key key xs)))" using assms by force
  then show ?thesis using group_by_key_mset [of key xs] by (metis set_mset_mset)
qed

lemma kv_op_len: "kv_op e r = Inr ops \<Longrightarrow> op \<in> set ops \<Longrightarrow> 0 < op_len op"
  by (auto simp: kv_op_def rbind_Inr_iff Let_def split: if_splits)

lemma kv_ops_len: "kv_ops e batch = Inr ops \<Longrightarrow> op \<in> set ops \<Longrightarrow> 0 \<le> op_len op"
  unfolding kv_ops_def by (fastforce simp: rbind_Inr_iff dest: mapr_set kv_op_len intro: less_imp_le)

lemma gdn_ops_len:
  assumes "gdn_ops e peer batch = Inr ops" "op \<in> set ops" "sizes_ok e b"
  shows "0 \<le> op_len op"
  using assms by (auto simp: gdn_ops_def rbind_Inr_iff sizes_ok_def Let_def split: if_splits dest!: region_ops_in)

lemma mtp_ops_len:
  assumes "mtp_ops e peer batch = Inr ops" "op \<in> set ops" "sizes_ok e b"
  shows "0 \<le> op_len op"
  using assms
  by (auto simp: mtp_ops_def rbind_Inr_iff sizes_ok_def Let_def element_size_def
      split: if_splits option.splits dest!: mapr_set)

lemma compressed_ops_len:
  assumes "compressed_ops e peer (as_compressed b) = Inr ops" "op \<in> set ops" "sizes_ok e b"
  shows "0 \<le> op_len op"
proof -
  obtain ratio rs opss where g: "(ratio, rs) \<in> set (group_by_key fst (as_compressed b))" "op \<in> set opss"
    "compressed_ratio_ops e peer ratio (map snd rs) = Inr opss"
    using assms(1,2) unfolding compressed_ops_def by (elim mapr_concat_set) auto
  then obtain r where r: "r \<in> set rs" "op_len op = compressed_page_bytes (layout_local (tv_layout e)) ratio"
    by (auto simp: compressed_ratio_ops_def rbind_Inr_iff Let_def dest!: region_ops_in)
  have "fst r = ratio" "r \<in> set (as_compressed b)"
    using g(1) r(1) group_by_key_key group_by_key_member by fast+
  then show ?thesis using assms(3) r(2) by (auto simp: sizes_ok_def Let_def)
qed

lemma compressor_ops_len:
  assumes "compressor_ops e peer (as_compressor b) = Inr ops" "op \<in> set ops" "sizes_ok e b"
  shows "0 \<le> op_len op"
proof -
  obtain ratio rs kss where g: "(ratio, rs) \<in> set (group_by_key fst (as_compressor b))" "op \<in> set kss"
    "rbind (mapr (compressor_kind_ops e peer ratio (map snd rs))
       [(''kv'', rg_compressor_kv (tv_regions e)), (''score'', rg_compressor_score (tv_regions e)),
        (''counts'', rg_compressor_counts (tv_regions e))]) (\<lambda>kss. Inr (concat kss)) = Inr kss"
    using assms(1,2) unfolding compressor_ops_def Let_def by (elim mapr_concat_set) auto
  then obtain kind hs ys where "compressor_kind_ops e peer ratio (map snd rs) (kind, hs) = Inr ys" "op \<in> set ys"
    by (elim mapr_concat_set) auto
  then obtain r where r: "r \<in> set rs" "op_len op = compressor_state_row_bytes ratio kind"
    by (auto simp: compressor_kind_ops_def rbind_Inr_iff dest!: region_ops_in)
  have "fst r = ratio" "r \<in> set (as_compressor b)"
    using g(1) r(1) group_by_key_key group_by_key_member by fast+
  then have "0 \<le> ratio" using assms(3) by (auto simp: sizes_ok_def Let_def)
  then show ?thesis using r(2) by (simp add: compressor_state_row_bytes_def Let_def)
qed

lemma indexer_ops_len:
  assumes "indexer_ops e peer batch = Inr ops" "op \<in> set ops" "sizes_ok e b"
  shows "0 \<le> op_len op"
  using assms by (auto simp: indexer_ops_def sizes_ok_def Let_def split: if_splits dest!: region_ops_in)

lemma ops_of_batch_len:
  assumes "ops_of_batch e peer b = Inr ops" "sizes_ok e b"
  shows "\<forall>op\<in>set ops. 0 \<le> op_len op"
proof
  fix op assume op: "op \<in> set ops"
  obtain kv gdn mtp comp cstate ix where r: "kv_ops e (as_kv b) = Inr kv" "gdn_ops e peer (as_gdn b) = Inr gdn"
    "mtp_ops e peer (as_mtp b) = Inr mtp" "compressed_ops e peer (as_compressed b) = Inr comp"
    "compressor_ops e peer (as_compressor b) = Inr cstate" "indexer_ops e peer (as_indexer b) = Inr ix"
    and ops: "ops = kv @ gdn @ mtp @ comp @ cstate @ ix"
    using assms(1) by (auto simp: ops_of_batch_def rbind_Inr_iff)
  note rules = kv_ops_len [OF r(1)] gdn_ops_len [OF r(2) _ assms(2)] mtp_ops_len [OF r(3) _ assms(2)]
    compressed_ops_len [OF r(4) _ assms(2)] compressor_ops_len [OF r(5) _ assms(2)]
    indexer_ops_len [OF r(6) _ assms(2)]
  show "0 \<le> op_len op" using op rules unfolding ops set_append by blast
qed

lemma prepare_peer_copies:
  assumes "prepare_peer e asg (eid, peer) = Inr p" "sizes_ok e (batch_of eid peer asg)"
  obtains ops where "ops_of_batch e peer (batch_of eid peer asg) = Inr ops" "copies (pr_ops p) = copies ops"
    "pr_peer p = peer"
    "tv_transport e peer \<noteq> Some ''nvlink'' \<Longrightarrow>
       \<forall>op\<in>set (pr_ops p). op_in_bounds (tv_mr_info e peer) (rg_sizes (tv_regions e)) op"
proof -
  obtain ops merged where m: "ops_of_batch e peer (batch_of eid peer asg) = Inr ops"
    "coalesce_rdma_ops ops MAX_COALESCED_RDMA_BYTES = Inr merged" "p = \<lparr>pr_peer = peer, pr_ops = merged\<rparr>"
    "tv_transport e peer \<noteq> Some ''nvlink'' \<Longrightarrow>
       validate_named_region_ops (tv_mr_info e) peer merged (rg_sizes (tv_regions e)) = Inr ()"
    using assms(1) by (auto simp: prepare_peer_def rbind_Inr_iff split: if_splits)
  have "copies merged = copies ops"
    using coalesce_rdma_ops_inv(2) [OF m(2)] ops_of_batch_len [OF m(1) assms(2)] by blast
  then show thesis
    using that [OF m(1)] m(3) validate_accepts_in_bounds [OF m(4)] by simp
qed

lemma op_bytes_in: "0 \<le> i \<Longrightarrow> i < n \<Longrightarrow> (a, b, lo + i, ro + i) \<in> set (op_bytes (a, b, lo, ro, n))"
  by (auto simp: op_bytes_def)

lemma copies_member:
  assumes "copies ops' = copies ops" "op \<in> set ops" "x \<in> set (op_bytes op)"
  shows "\<exists>op'\<in>set ops'. x \<in> set (op_bytes op')"
proof -
  have "x \<in># copies ops" using assms(2,3) by auto
  then have "x \<in># copies ops'" using assms(1) by simp
  then show ?thesis by auto
qed

lemma prepare_reads_peer:
  assumes "prepare_reads set_order e asg = Inr ps" "enumerates set_order" "(eid, peer) \<in> set (engine_peers asg)"
  obtains p where "p \<in> set ps" "prepare_peer e asg (eid, peer) = Inr p"
proof -
  let ?eps = "engine_peers asg"
  have "set (set_order xs) = set xs" for xs using assms(2) by (simp add: enumerates_def)
  then have "(eid, peer) \<in> set (concat (map (\<lambda>eid. map (Pair eid)
      (set_order (map snd (filter (\<lambda>(e, _). e = eid) ?eps)))) (set_order (map fst ?eps))))"
    using assms(3) by (force simp: image_iff)
  from mapr_set_of [OF _ this] assms(1) that show thesis
    unfolding prepare_reads_def Let_def by blast
qed

text \<open>
  The sizes of a context's cache are not negative, a block is not empty, and the strides of a host
  tier, when there is one, are not negative.
\<close>

definition cache_sizes_ok :: "cache_context \<Rightarrow> bool" where
  "cache_sizes_ok c \<longleftrightarrow>
     layout_ok (from_cache_context c) \<and> 0 < block_num_bytes (from_cache_context c) \<and> 0 \<le> cc_num_hidden_layers c \<and>
     (\<forall>cold. cc_host_kv_cache c = Some cold \<longrightarrow> 0 \<le> stride cold 0 \<and> 0 \<le> stride cold 1 \<and> 0 \<le> stride cold 2)"

lemma kv_stride_nonneg:
  assumes "layout_ok l" "kv_stride l kv layer b = Inr off" "0 \<le> tl_num_hidden_layers l" "0 \<le> tl_num_blocks l"
    and "0 \<le> kv" "0 \<le> layer" "0 \<le> b"
  shows "0 \<le> off"
proof -
  have "tl_mode l \<noteq> ''dsv4'' \<or> kv = 0" using assms(2) by (auto simp: kv_stride_def split: if_splits)
  then have "off = ((kv * tl_num_hidden_layers l + layer) * layer_blocks l + b) * block_stride l 1"
    using kv_stride_row [OF assms(1)] assms(2) kv_region.offset_eq [OF assms(1)] by simp
  then show ?thesis using assms block_stride_nonneg [OF assms(1)] by (simp add: layer_blocks_def)
qed

lemma remote_kv_stride_nonneg:
  assumes "remote_kv_stride t kv layer b eid n = Inr off" "cache_sizes_ok (ls_cache_context t)"
    and "\<And>m. ls_num_remote_kvcache_blocks t eid = Some m \<Longrightarrow> 0 \<le> m" "0 \<le> n" "0 \<le> kv" "0 \<le> layer" "0 \<le> b"
  shows "0 \<le> off"
proof -
  obtain m slots pages max_slots where m: "ls_num_remote_kvcache_blocks t eid = Some m"
    "kv_stride (from_peer_metadata (layout_local t) m slots pages max_slots n) kv layer b = Inr off"
    using assms(1) by (auto simp: remote_kv_stride_def layout_remote_def rbind_Inr_iff)
  show ?thesis
    by (rule kv_stride_nonneg [OF _ m(2)])
      (use assms m(1) in \<open>auto simp: cache_sizes_ok_def layout_ok_def layout_local_def from_peer_metadata_def\<close>,
       simp add: from_cache_context_def)
qed

lemma kv_local_offset_nonneg:
  assumes "kv_local_offset e r = Inr off" "cache_sizes_ok (tv_cache e)" "ls_cache_context (tv_layout e) = ds_cache ds"
    and "read_coords_ok ds r"
  shows "0 \<le> off"
proof (cases "rg_cold (tv_regions e)")
  case None
  then show ?thesis
    using assms kv_stride_nonneg [of "layout_local (tv_layout e)" "kr_kv r" "kr_local_layer r" "kr_local_block r" off]
    by (auto simp: kv_local_offset_def local_kv_stride_def layout_local_def cache_sizes_ok_def read_coords_ok_def)
      (simp add: from_cache_context_def)
next
  case (Some h)
  then show ?thesis
    using assms by (auto simp: kv_local_offset_def cache_sizes_ok_def read_coords_ok_def element_size_def
        split: option.splits)
qed

text \<open>
  The code logs and skips an assignment whose offset is negative or whose length is not positive. A
  planned assignment is never skipped: its coordinates passed the checks of the planning.
\<close>

abbreviation kv_region_name :: "'h transfer_env \<Rightarrow> string" where
  "kv_region_name e \<equiv> (if rg_cold (tv_regions e) = None then ''kv_cache'' else ''hisparse_cold_kv'')"

lemma kv_op_not_skipped:
  assumes "kv_op e r = Inr ops" "cache_sizes_ok (tv_cache e)" "ls_cache_context (tv_layout e) = ds_cache ds"
    and "read_coords_ok ds r" "\<And>m. ls_num_remote_kvcache_blocks (tv_layout e) (kr_engine r) = Some m \<Longrightarrow> 0 \<le> m"
  obtains lo ro where "kv_local_offset e r = Inr lo"
    "remote_kv_stride (tv_layout e) (kr_kv r) (kr_remote_layer r) (kr_remote_block r) (kr_engine r)
       (kr_remote_num_layers r) = Inr ro"
    "ops = [(kv_region_name e, ''kv_cache'', lo, ro, block_num_bytes (layout_local (tv_layout e)))]"
proof -
  obtain lo ro where o: "kv_local_offset e r = Inr lo"
    "remote_kv_stride (tv_layout e) (kr_kv r) (kr_remote_layer r) (kr_remote_block r) (kr_engine r)
       (kr_remote_num_layers r) = Inr ro"
    using assms(1) by (auto simp: kv_op_def rbind_Inr_iff)
  have "0 \<le> lo" by (rule kv_local_offset_nonneg [OF o(1) assms(2-4)])
  moreover have "0 \<le> ro"
    by (rule remote_kv_stride_nonneg [OF o(2) assms(2,5)]) (use assms(4) in \<open>simp_all add: read_coords_ok_def\<close>)
  moreover have "0 < block_num_bytes (layout_local (tv_layout e))"
    using assms(2) by (simp add: cache_sizes_ok_def layout_local_def)
  ultimately show thesis using that [OF o] assms(1) o by (auto simp: kv_op_def Let_def)
qed

lemma kv_ops_of_batch:
  assumes "ops_of_batch e peer (batch_of eid peer asg) = Inr ops" "r \<in> set (as_kv asg)"
    and "kr_engine r = eid" "kr_peer r = peer"
  obtains kops where "kv_op e r = Inr kops" "set kops \<subseteq> set ops"
proof -
  obtain kv where kv: "kv_ops e (as_kv (batch_of eid peer asg)) = Inr kv" "set kv \<subseteq> set ops"
    using assms(1) by (auto simp: ops_of_batch_def rbind_Inr_iff)
  have "r \<in> set (as_kv (batch_of eid peer asg))" using assms by (simp add: batch_of_def)
  moreover have "rbind (mapr (kv_op e) (as_kv (batch_of eid peer asg))) (\<lambda>opss. Inr (concat opss)) = Inr kv"
    using kv(1) by (auto simp: kv_ops_def rbind_Inr_iff)
  ultimately obtain kops where "kv_op e r = Inr kops" "set kops \<subseteq> set kv"
    by (elim mapr_concat_set_of)
  then show thesis using that kv(2) by blast
qed

text \<open>
  C7: every planned block arrives. Take the reads a migration plan assigns and the read batches
  prepared from them with the peers' data of that plan. If the preparation succeeds, then for each
  assigned KV block some prepared read to its peer copies every byte of the block, from the offset the
  layout of the remote engine gives it to the offset of the block in the local cache (or, when the
  HiSparse cold tier is registered, in the cold tier's host tensor); and on transports that use
  memory regions no prepared read leaves the registered regions of either side. In particular the
  branch that drops a block with a negative offset is never taken. The conditions are those of an
  engine that holds a cache: sizes of its tensors are not negative, a block is not empty, and no
  engine reports a negative number of blocks.
\<close>

theorem prepared_reads_deliver_blocks:
  assumes plan: "plan_migration ds has_agent has_ctrl lookup is_connected views st0 = Inr (Some (st, asg))"
    and layout: "tv_layout e = layout_source_of ds st"
    and prep: "prepare_reads set_order e asg = Inr ps" "enumerates set_order"
    and r: "r \<in> set (as_kv asg)"
    and sizes: "cache_sizes_ok (ds_cache ds)" "sizes_ok e (batch_of (kr_engine r) (kr_peer r) asg)"
    and reported: "\<forall>n\<in>ran (ms_num_remote_kvcache_blocks st0). 0 \<le> n" "\<forall>v\<in>set views. 0 \<le> mv_num_kvcache_blocks v"
  shows "\<exists>p\<in>set ps. \<exists>lo ro. pr_peer p = kr_peer r \<and>
           (if rg_cold (tv_regions e) = None
            then local_kv_stride (tv_layout e) (kr_kv r) (kr_local_layer r) (kr_local_block r) = Inr lo
            else \<exists>cold. cc_host_kv_cache (ds_cache ds) = Some cold \<and>
              lo = (kr_kv r * stride cold 0 + kr_local_layer r * stride cold 1 + kr_local_block r * stride cold 2)
                   * element_size cold) \<and>
           remote_kv_stride (tv_layout e) (kr_kv r) (kr_remote_layer r) (kr_remote_block r) (kr_engine r)
             (kr_remote_num_layers r) = Inr ro \<and>
           (\<forall>i. 0 \<le> i \<and> i < block_num_bytes (layout_local (tv_layout e)) \<longrightarrow>
              (\<exists>op\<in>set (pr_ops p). (kv_region_name e, ''kv_cache'', lo + i, ro + i) \<in> set (op_bytes op))) \<and>
           (tv_transport e (kr_peer r) \<noteq> Some ''nvlink'' \<longrightarrow>
              (\<forall>op\<in>set (pr_ops p). op_in_bounds (tv_mr_info e (kr_peer r)) (rg_sizes (tv_regions e)) op))"
proof -
  have "(kr_engine r, kr_peer r) \<in> set (engine_peers asg)" using r by (auto simp: engine_peers_def)
  then obtain p where p: "p \<in> set ps" "prepare_peer e asg (kr_engine r, kr_peer r) = Inr p"
    using prepare_reads_peer [OF prep] by blast
  obtain ops where ops: "ops_of_batch e (kr_peer r) (batch_of (kr_engine r) (kr_peer r) asg) = Inr ops"
    "copies (pr_ops p) = copies ops" "pr_peer p = kr_peer r"
    "tv_transport e (kr_peer r) \<noteq> Some ''nvlink'' \<Longrightarrow>
       \<forall>op\<in>set (pr_ops p). op_in_bounds (tv_mr_info e (kr_peer r)) (rg_sizes (tv_regions e)) op"
    using prepare_peer_copies [OF p(2) sizes(2)] by metis
  obtain kops where k: "kv_op e r = Inr kops" "set kops \<subseteq> set ops"
    using kv_ops_of_batch [OF ops(1) r] by blast
  have cache: "ls_cache_context (tv_layout e) = ds_cache ds" by (simp add: layout layout_source_of_def)
  have counts: "0 \<le> m" if "ls_num_remote_kvcache_blocks (tv_layout e) (kr_engine r) = Some m" for m
    using plan_blocks_nonneg [OF plan reported] that by (simp add: layout layout_source_of_def)
  obtain lo ro where o: "kv_local_offset e r = Inr lo"
    "remote_kv_stride (tv_layout e) (kr_kv r) (kr_remote_layer r) (kr_remote_block r) (kr_engine r)
       (kr_remote_num_layers r) = Inr ro"
    "kops = [(kv_region_name e, ''kv_cache'', lo, ro, block_num_bytes (layout_local (tv_layout e)))]"
    by (rule kv_op_not_skipped [OF k(1) _ cache plan_read_coords [OF plan r] counts])
      (use sizes(1) cache in simp_all)
  have "\<exists>op\<in>set (pr_ops p). (kv_region_name e, ''kv_cache'', lo + i, ro + i) \<in> set (op_bytes op)"
    if "0 \<le> i" "i < block_num_bytes (layout_local (tv_layout e))" for i
    by (rule copies_member [OF ops(2) _ op_bytes_in [OF that]]) (use o(3) k(2) in simp)
  moreover have "if rg_cold (tv_regions e) = None
      then local_kv_stride (tv_layout e) (kr_kv r) (kr_local_layer r) (kr_local_block r) = Inr lo
      else \<exists>cold. cc_host_kv_cache (ds_cache ds) = Some cold \<and>
        lo = (kr_kv r * stride cold 0 + kr_local_layer r * stride cold 1 + kr_local_block r * stride cold 2)
             * element_size cold"
    using o(1) cache by (cases "rg_cold (tv_regions e)") (auto simp: kv_local_offset_def split: option.splits)
  ultimately show ?thesis using o(2) ops(3,4) p(1) by blast
qed

definition sample_layout :: layout_source where
  "sample_layout = \<lparr>ls_cache_context = sample_cache_context\<lparr>cc_num_local_kvcache_blocks := 20\<rparr>,
     ls_num_remote_kvcache_blocks = [''p'' \<mapsto> 100], ls_remote_gdn_num_slots = Map.empty,
     ls_remote_compressed_pool_pages = Map.empty, ls_remote_dsv4_max_slots = Map.empty\<rparr>"

definition sample_env :: "unit transfer_env" where
  "sample_env = \<lparr>tv_layout = sample_layout,
     tv_regions = no_regions\<lparr>rg_kv := Some (Owned ''kv_cache''), rg_sizes := [''kv_cache'' \<mapsto> 20971520]\<rparr>,
     tv_remote_max_num_seqs = Map.empty, tv_is_connected = (\<lambda>_. True), tv_transport = (\<lambda>_. Some ''rdma''),
     tv_mr_info = (\<lambda>_ _. Some 104857600)\<rparr>"

lemma enumerates_remdups: "enumerates remdups"
  by (simp add: enumerates_def)

text \<open>A one-layer MLA decode engine with a registered cold tier of 40 host blocks.\<close>

definition cold_decode :: decode_side where
  "cold_decode = \<lparr>ds_cache = sample_cache_context\<lparr>cc_mode := ''mla'', cc_head_dim := 576, cc_num_hidden_layers := 1,
         cc_num_local_kvcache_blocks := 20,
         cc_host_kv_cache := Some (contiguous_tensor BFloat16 [1, 1, 40, 64, 1, 576] ''cpu'')\<rparr>,
     ds_architecture = Some ''DeepseekV32ForCausalLM'', ds_pp_world_size = 1, ds_sp_idx = 0, ds_tp_idx = 0\<rparr>"

definition cold_info :: engine_info where
  "cold_info = empty_info\<lparr>ei_max_num_seqs := Some 8, ei_gdn_num_slots := Some 9,
     ei_mtp_handoff_num_drafts := Some 0, ei_mtp_num_kv_layers := Some 0,
     ei_architecture := Some ''DeepseekV32ForCausalLM'', ei_attention_dp := Some 1, ei_attention_sp := Some 1,
     ei_attention_tp := Some 1, ei_pp := Some 1, ei_num_hidden_layers := Some 1, ei_pp_layer_ranges := [(0, 1)],
     ei_pp_cache_layer_indices := [[0]], ei_num_local_kv_heads := Some 1, ei_kvcache_block_size := Some 64,
     ei_peer_addrs := [''p:0'']\<rparr>"

definition cold_read :: kv_read where
  "cold_read = \<lparr>kr_engine = ''p'', kr_peer = ''p:0'', kr_kv = 0, kr_local_layer = 0, kr_remote_layer = 0,
     kr_remote_num_layers = 1, kr_remote_block = 3, kr_local_block = 5\<rparr>"

definition cold_env :: "migration_state \<Rightarrow> unit transfer_env" where
  "cold_env st = \<lparr>tv_layout = layout_source_of cold_decode st,
     tv_regions = no_regions\<lparr>rg_kv := Some (Owned ''kv_cache''), rg_cold := Some (Registered ()),
       rg_sizes := [''kv_cache'' \<mapsto> 20 * 73728, ''hisparse_cold_kv'' \<mapsto> 40 * 73728]\<rparr>,
     tv_remote_max_num_seqs = Map.empty, tv_is_connected = (\<lambda>_. True), tv_transport = (\<lambda>_. Some ''rdma''),
     tv_mr_info = (\<lambda>_ _. Some (100 * 73728))\<rparr>"

lemma cold_plan:
  "\<exists>st. plan_migration cold_decode True True [''p'' \<mapsto> cold_info] (\<lambda>_. False) [sample_view]
     initialize_migration_state = Inr (Some (st, no_assignments\<lparr>as_kv := [cold_read]\<rparr>)) \<and>
     ms_num_remote_kvcache_blocks st ''p'' = Some 100"
proof -
  have v: "mv_engine_id sample_view = ''p''" by (simp add: sample_view_def)
  have fetch: "fetch_engine_info_from_ctrl True [''p'' \<mapsto> cold_info] [''p''] initialize_migration_state =
      (initialize_migration_state\<lparr>ms_engine_info_cache := Some [''p'' \<mapsto> cold_info]\<rparr>, [''p'' \<mapsto> cold_info], [''p''])"
    by (simp add: fetch_engine_info_from_ctrl_def initialize_migration_state_def Let_def)
  have check: "validate_peer cold_decode cold_info sample_view st =
      Inr (record_peer cold_info ''p'' [(0, 1)] [[0]] st)" for st
    by (simp add: validate_peer_def check_peer_compat_def cold_decode_def sample_cache_context_def
        sample_view_def cold_info_def empty_info_def remote_stage_ranges_def
        remote_cache_layers_def num_local_kv_heads_def Let_def valid_stage_ranges_def)
  define st where "st = fst (ensure_peer_connections (\<lambda>_. False) (connection_requests cold_info sample_view)
        (record_peer cold_info ''p'' [(0, 1)] [[0]]
          (initialize_migration_state\<lparr>ms_engine_info_cache := Some [''p'' \<mapsto> cold_info]\<rparr>)))"
  have known: "ms_remote_pp st ''p'' = Some 1" "ms_remote_attention_dp st ''p'' = Some 1"
    "ms_remote_attention_tp st ''p'' = Some 1" "ms_num_remote_kvcache_blocks st ''p'' = Some 100"
    by (simp_all add: st_def ensure_peer_connections_def connection_requests_def record_peer_def cold_info_def
        sample_view_def empty_info_def)
  let ?vl = "\<lparr>vl_pp = 1, vl_ranges = [(0, 1)], vl_by_stage = [[0]], vl_inner = 1, vl_dp = 1, vl_tp = 1,
      vl_peers = [''p:0'']\<rparr>"
  have layout: "layout_of_view cold_decode st cold_info sample_view = Inr ?vl"
    using known by (simp add: layout_of_view_def sample_view_def cold_decode_def
        sample_cache_context_def cold_info_def py_range_Cons Let_def)
  have rank: "remote_global_rank 0 1 0 1 0 1 = Inr 0"
    by (simp add: remote_global_rank_def pp_global_rank_def)
  have route: "route_layer ?vl [[0]] 0 0 = Inr (''p:0'', 0, 0)"
    by (simp add: route_layer_def layer_locations_def py_enumerate_def upt_rec py_nth_def dict_item_def)
  have block: "reads_of_block cold_decode st ?vl sample_view ((0, 3), (0, 5)) = Inr ([cold_read], [])"
    using known rank route
    by (simp add: reads_of_block_def kv_reads_of_block_def sample_view_def cold_decode_def cold_read_def
        sample_cache_context_def cache_planes_def py_range_Cons py_enumerate_def upt_rec py_nth_def py_len_def Let_def)
  have locs: "zip (mv_migrate_block_location sample_view) (mv_active_block_location sample_view) = [((0, 3), (0, 5))]"
    by (simp add: sample_view_def)
  have "compressed_reads cold_decode st ?vl sample_view = Inr []" "compressor_reads cold_decode st ?vl sample_view = Inr []"
    "mtp_reads cold_decode ?vl sample_view = Inr []" "gdn_reads cold_decode ?vl sample_view = Inr []"
    by (simp_all add: compressed_reads_def compressor_reads_def mtp_reads_def gdn_reads_def cold_decode_def
        sample_cache_context_def sample_view_def unique_ratios_def)
  then have "reads_of_view cold_decode st [''p'' \<mapsto> cold_info] sample_view no_assignments =
      Inr (no_assignments\<lparr>as_kv := [cold_read]\<rparr>)"
    using block layout locs by (simp add: reads_of_view_def v) (simp add: no_assignments_def)
  then show ?thesis using known(4) by (auto simp: plan_migration_def v fetch check st_def Let_def)
qed

theorem prepared_reads_deliver_blocks_witness:
  "\<exists>st asg ps p. plan_migration cold_decode True True [''p'' \<mapsto> cold_info] (\<lambda>_. False) [sample_view]
       initialize_migration_state = Inr (Some (st, asg)) \<and>
     prepare_reads remdups (cold_env st) asg = Inr ps \<and> p \<in> set ps \<and> pr_peer p = ''p:0'' \<and>
     (\<exists>op\<in>set (pr_ops p). (''hisparse_cold_kv'', ''kv_cache'', 5 * 73728, 3 * 73728) \<in> set (op_bytes op))"
proof -
  let ?asg = "no_assignments\<lparr>as_kv := [cold_read]\<rparr>"
  obtain st where plan: "plan_migration cold_decode True True [''p'' \<mapsto> cold_info] (\<lambda>_. False) [sample_view]
       initialize_migration_state = Inr (Some (st, ?asg))" and blocks: "ms_num_remote_kvcache_blocks st ''p'' = Some 100"
    using cold_plan by blast
  let ?e = "cold_env st"
  have l: "block_num_bytes (layout_local (tv_layout ?e)) = 73728" "kv_local_offset ?e cold_read = Inr (5 * 73728)"
    "remote_kv_stride (tv_layout ?e) 0 0 3 ''p'' 1 = Inr (3 * 73728)"
    using blocks
    by (simp_all add: cold_env_def kv_local_offset_def layout_source_of_def cold_decode_def sample_cache_context_def
        remote_kv_stride_def layout_remote_def layout_local_def from_cache_context_def from_peer_metadata_def
        kv_stride_def layer_stride_def layer_blocks_def block_stride_def block_num_bytes_def num_local_kv_heads_def
        dict_item_def dict_get_def no_regions_def cold_read_def stride_def element_size_def)
  have sz: "sizes_ok ?e (batch_of ''p'' ''p:0'' ?asg)" "cache_sizes_ok (ds_cache cold_decode)"
    by (simp_all add: sizes_ok_def cache_sizes_ok_def layout_ok_def cold_env_def layout_source_of_def layout_local_def
        from_cache_context_def cold_decode_def sample_cache_context_def batch_of_def no_assignments_def
        gdn_conv_slot_num_bytes_def gdn_recurrent_slot_num_bytes_def opt_stride_def num_local_kv_heads_def
        block_num_bytes_def block_stride_def stride_def)
  have ops: "ops_of_batch ?e ''p:0'' (batch_of ''p'' ''p:0'' ?asg) =
      Inr [(''hisparse_cold_kv'', ''kv_cache'', 5 * 73728, 3 * 73728, 73728)]"
    using l by (simp add: ops_of_batch_def batch_of_def no_assignments_def kv_ops_def kv_op_def cold_read_def)
      (simp add: cold_env_def no_regions_def layout_source_of_def cold_decode_def sample_cache_context_def gdn_ops_def
        mtp_ops_def compressed_ops_def compressor_ops_def indexer_ops_def group_by_key_def Let_def)
  obtain ps where ps: "prepare_reads remdups ?e ?asg = Inr ps"
    using ops by (simp add: prepare_reads_def engine_peers_def no_assignments_def cold_read_def prepare_peer_def
        coalesce_rdma_ops_def sorted_groups_def group_by_key_def coalesce_step_def)
      (simp add: cold_env_def no_regions_def validate_named_region_ops_def validate_step_def coalesce_step_def)
  have init: "ms_num_remote_kvcache_blocks initialize_migration_state = Map.empty"
    by (simp add: initialize_migration_state_def)
  have cold: "rg_cold (tv_regions ?e) \<noteq> None" by (simp add: cold_env_def no_regions_def)
  from prepared_reads_deliver_blocks [OF plan _ ps enumerates_remdups, of cold_read] sz init
  obtain p lo where p: "p \<in> set ps" "pr_peer p = ''p:0''"
    and lo: "\<exists>cold. cc_host_kv_cache (ds_cache cold_decode) = Some cold \<and> lo = 5 * stride cold 2 * element_size cold"
    and bytes: "\<forall>i. 0 \<le> i \<and> i < 73728 \<longrightarrow> (\<exists>op\<in>set (pr_ops p).
       (''hisparse_cold_kv'', ''kv_cache'', lo + i, 3 * 73728 + i) \<in> set (op_bytes op))"
    using cold l(1,3) by (auto simp: cold_read_def no_assignments_def sample_view_def cold_env_def)
  have "lo = 5 * 73728" using lo by (simp add: cold_decode_def stride_def element_size_def)
  with bytes [THEN spec, of 0]
  have "\<exists>op\<in>set (pr_ops p). (''hisparse_cold_kv'', ''kv_cache'', 5 * 73728, 3 * 73728) \<in> set (op_bytes op)" by simp
  with plan ps p show ?thesis by blast
qed

lemma unpublished_pool_stride:
  assumes "register_with_nanoctrl pc = Inr info" "validate_peer ds info v st = Inr st1"
    and "ms_remote_compressed_pool_pages st' (mv_engine_id v) = ms_remote_compressed_pool_pages st1 (mv_engine_id v)"
    and "remote_compressed_stride (layout_source_of ds st') ratio i page (mv_engine_id v) = Inr off"
  shows "off = - 1"
proof -
  have "ei_dsv4_compressed_pool_pages info = Map.empty"
    using assms(1) by (auto simp: register_with_nanoctrl_def rbind_Inr_iff empty_info_def split: if_splits)
  moreover have "ms_remote_compressed_pool_pages st1 (mv_engine_id v) = Some (ei_dsv4_compressed_pool_pages info)"
    using assms(2) by (auto simp: validate_peer_def Let_def rbind_Inr_iff record_peer_def)
  ultimately have "ms_remote_compressed_pool_pages st' (mv_engine_id v) = Some Map.empty" using assms(3) by simp
  then show ?thesis
    using assms(4)
    by (auto simp: remote_compressed_stride_def layout_remote_def layout_source_of_def rbind_Inr_iff
        from_peer_metadata_def compressed_stride_def dict_get_def)
qed

lemma compressed_op_of_batch:
  assumes "ops_of_batch e peer (batch_of eid peer asg) = Inr ops" "(ratio, r) \<in> set (as_compressed asg)"
    and "lr_engine r = eid" "lr_peer r = peer"
  shows "\<exists>lo off. (compressed_region_name ratio, compressed_region_name ratio, lo, off,
      compressed_page_bytes (layout_local (tv_layout e)) ratio) \<in> set ops \<and>
    remote_compressed_stride (tv_layout e) ratio (lr_remote_layer r) (lr_remote_slot r) eid = Inr off"
proof -
  let ?b = "as_compressed (batch_of eid peer asg)"
  obtain comp where comp: "compressed_ops e peer ?b = Inr comp" "set comp \<subseteq> set ops"
    using assms(1) by (fastforce simp: ops_of_batch_def rbind_Inr_iff)
  have "(ratio, r) \<in> set ?b" using assms by (simp add: batch_of_def)
  then obtain k g where g: "(k, g) \<in> set (group_by_key fst ?b)" "(ratio, r) \<in> set g"
    using group_by_key_mset [of fst ?b] by (force dest: arg_cong [of _ _ set_mset])
  then have k: "k = ratio" using group_by_key_key by fastforce
  obtain ys where ys: "compressed_ratio_ops e peer ratio (map snd g) = Inr ys" "set ys \<subseteq> set ops"
    using comp g(1) unfolding compressed_ops_def k by (elim mapr_concat_set_of) auto
  have "r \<in> set (map snd g)" using g(2) by force
  from region_ops_of [OF _ this] ys(1) have
    "\<exists>lo off. remote_compressed_stride (tv_layout e) ratio (lr_remote_layer r) (lr_remote_slot r) (lr_engine r) = Inr off \<and>
       (compressed_region_name ratio, compressed_region_name ratio, lo, off,
        compressed_page_bytes (layout_local (tv_layout e)) ratio) \<in> set ys"
    unfolding compressed_ratio_ops_def Let_def rbind_Inr_iff by blast
  then show ?thesis using ys(2) assms(3) by blast
qed

text \<open>
  C40: a DSv4 migration over RDMA cannot start. The metadata an engine registers has no compressed pool
  sizes, so after validation the decode engine's remote pool offsets are all \<open>-1\<close>; a batch with a
  compressed page then never passes the bounds check.
\<close>

theorem dsv4_rdma_migration_rejected:
  assumes "register_with_nanoctrl pc = Inr info" "validate_peer ds info v st = Inr st1"
    and pools: "ms_remote_compressed_pool_pages st' (mv_engine_id v) =
      ms_remote_compressed_pool_pages st1 (mv_engine_id v)"
    and e: "tv_layout e = layout_source_of ds st'" "tv_transport e peer \<noteq> Some ''nvlink''"
    and r: "(ratio, r) \<in> set (as_compressed asg)" "lr_engine r = mv_engine_id v" "lr_peer r = peer"
    and sizes: "sizes_ok e (batch_of (mv_engine_id v) peer asg)"
      "0 < compressed_page_bytes (layout_local (tv_layout e)) ratio"
  shows "\<nexists>p. prepare_peer e asg (mv_engine_id v, peer) = Inr p"
proof
  let ?eid = "mv_engine_id v"
  assume "\<exists>p. prepare_peer e asg (?eid, peer) = Inr p"
  then obtain p where p: "prepare_peer e asg (?eid, peer) = Inr p" by blast
  obtain ops where ops: "ops_of_batch e peer (batch_of ?eid peer asg) = Inr ops" "copies (pr_ops p) = copies ops"
    "\<forall>op\<in>set (pr_ops p). op_in_bounds (tv_mr_info e peer) (rg_sizes (tv_regions e)) op"
    using prepare_peer_copies [OF p sizes(1)] e(2) by metis
  obtain lo off where op: "(compressed_region_name ratio, compressed_region_name ratio, lo, off,
      compressed_page_bytes (layout_local (tv_layout e)) ratio) \<in> set ops"
    "remote_compressed_stride (tv_layout e) ratio (lr_remote_layer r) (lr_remote_slot r) ?eid = Inr off"
    using compressed_op_of_batch [OF ops(1) r] by metis
  have "off = - 1"
    using unpublished_pool_stride [OF assms(1,2) pools] op(2) e(1) by simp
  moreover have "\<exists>op\<in>set (pr_ops p). (compressed_region_name ratio, compressed_region_name ratio, lo + 0, off + 0)
      \<in> set (op_bytes op)"
    by (rule copies_member [OF ops(2) op(1) op_bytes_in]) (use sizes(2) in simp_all)
  ultimately obtain op where "op \<in> set (pr_ops p)" "op_remote_off op < 0"
    by (auto simp: op_bytes_def)
  moreover from this have "op_in_bounds (tv_mr_info e peer) (rg_sizes (tv_regions e)) op" using ops(3) by blast
  ultimately show False by (auto simp: op_in_bounds_def split: option.splits)
qed

definition dsv4_publisher :: publisher_config where
  "dsv4_publisher = sample_publisher\<lparr>pc_hf := \<lparr>num_hidden_layers = 4, architectures = [''DeepseekV4ForCausalLM''],
       layer_types = [], num_kv_shared_layers = None\<rparr>, pc_pp := 1, pc_compress_ratios := [4, 4, 4, 4]\<rparr>"

definition dsv4_decode :: decode_side where
  "dsv4_decode = \<lparr>ds_cache = sample_cache_context\<lparr>cc_mode := ''dsv4'', cc_num_kv_heads := 1,
         cc_num_local_kvcache_blocks := 20, cc_pool_config := [4 \<mapsto> (10, 64, 0)]\<rparr>,
     ds_architecture = Some ''DeepseekV4ForCausalLM'', ds_pp_world_size = 1, ds_sp_idx = 0, ds_tp_idx = 0\<rparr>"

definition dsv4_read :: layer_read where
  "dsv4_read = \<lparr>lr_engine = ''p'', lr_peer = ''p:0'', lr_local_layer = 0, lr_remote_layer = 0,
     lr_remote_slot = 3, lr_local_slot = 5\<rparr>"

lemma dsv4_sample_validated:
  "\<exists>info st1. register_with_nanoctrl dsv4_publisher = Inr info \<and>
     validate_peer dsv4_decode info sample_view initialize_migration_state = Inr st1"
proof -
  have part: "partition_layer_indices [0, 1, 2, 3] [(0, 4)] = Inr [[0, 1, 2, 3]]"
    by code_simp
  have ranges: "pp_layer_ranges dsv4_publisher = Inr [(0, 4)]"
    by (simp add: pp_layer_ranges_def dsv4_publisher_def sample_publisher_def first_arch_def
        pp_layer_partition_def py_range_Cons)
  have mtp: "mtp_num_kv_layers dsv4_publisher = 0"
    by (simp add: mtp_num_kv_layers_def dsv4_publisher_def sample_publisher_def first_arch_def int_or_def)
  have ls: "cache_layer_indices (pc_hf dsv4_publisher) (pc_enable_hisparse dsv4_publisher) = [0, 1, 2, 3]"
    by (simp add: cache_layer_indices_def dsv4_publisher_def sample_publisher_def first_arch_def py_range_Cons Let_def)
  have ratios: "unique_ratios (pc_compress_ratios dsv4_publisher) = [4]"
    "layers_for_ratio (pc_compress_ratios dsv4_publisher) 4 = [0, 1, 2, 3]"
    by (simp_all add: dsv4_publisher_def unique_ratios_def layers_for_ratio_def py_enumerate_def)
  have "\<exists>bs. pp_cache_layer_indices dsv4_publisher = Inr bs"
    by (simp add: pp_cache_layer_indices_def ranges mtp ls part)
  moreover have "\<exists>d. pp_dsv4_ratio_layer_indices dsv4_publisher = Inr d"
    by (simp add: pp_dsv4_ratio_layer_indices_def ranges ratios part)
  ultimately obtain bs d where bs: "pp_cache_layer_indices dsv4_publisher = Inr bs"
    "pp_dsv4_ratio_layer_indices dsv4_publisher = Inr d" by blast
  show ?thesis
    by (simp add: register_with_nanoctrl_def ranges bs mtp)
      (simp add: dsv4_publisher_def sample_publisher_def validate_peer_def check_peer_compat_def dsv4_decode_def
        sample_cache_context_def sample_view_def empty_info_def remote_stage_ranges_def
        check_pp_cache_layers_def remote_cache_layers_def published_kv_heads_def num_local_kv_heads_def
        first_arch_def Let_def valid_stage_ranges_def)
qed

theorem dsv4_rdma_migration_rejected_witness:
  "\<exists>info st1. register_with_nanoctrl dsv4_publisher = Inr info \<and>
     validate_peer dsv4_decode info sample_view initialize_migration_state = Inr st1 \<and>
     (\<nexists>p. prepare_peer (sample_env\<lparr>tv_layout := layout_source_of dsv4_decode
              (st1\<lparr>ms_num_remote_kvcache_blocks := [''p'' \<mapsto> 100]\<rparr>)\<rparr>)
            (no_assignments\<lparr>as_compressed := [(4, dsv4_read)]\<rparr>) (''p'', ''p:0'') = Inr p)"
proof -
  obtain info st1 where i: "register_with_nanoctrl dsv4_publisher = Inr info"
    "validate_peer dsv4_decode info sample_view initialize_migration_state = Inr st1"
    using dsv4_sample_validated by blast
  let ?e = "sample_env\<lparr>tv_layout := layout_source_of dsv4_decode (st1\<lparr>ms_num_remote_kvcache_blocks := [''p'' \<mapsto> 100]\<rparr>)\<rparr>"
  let ?asg = "no_assignments\<lparr>as_compressed := [(4, dsv4_read)]\<rparr>"
  have bytes: "compressed_page_bytes (layout_local (tv_layout ?e)) 4 = 64 * DSV4_BYTES_PER_TOKEN"
    by (simp add: layout_source_of_def layout_local_def dsv4_decode_def from_cache_context_def
        compressed_page_bytes_def dict_get_def)
  have "sizes_ok ?e (batch_of ''p'' ''p:0'' ?asg)"
    using bytes by (simp add: sizes_ok_def batch_of_def no_assignments_def dsv4_read_def DSV4_BYTES_PER_TOKEN_def Let_def)
      (simp add: layout_source_of_def layout_local_def dsv4_decode_def from_cache_context_def opt_stride_def
        gdn_conv_slot_num_bytes_def gdn_recurrent_slot_num_bytes_def sample_cache_context_def)
  with dsv4_rdma_migration_rejected [OF i, of "st1\<lparr>ms_num_remote_kvcache_blocks := [''p'' \<mapsto> 100]\<rparr>" ?e "''p:0''" 4 dsv4_read ?asg]
  have "\<nexists>p. prepare_peer ?e ?asg (''p'', ''p:0'') = Inr p"
    using bytes by (simp add: dsv4_read_def sample_view_def no_assignments_def DSV4_BYTES_PER_TOKEN_def)
      (simp add: sample_env_def)
  with i show ?thesis by blast
qed

end
