(* ===== verification/Embedding_Pool.thy ===== *)
theory Embedding_Pool
  imports Tensor
begin

section \<open>The vision embedding pool (\<open>runtime/context/cache/emb.py\<close>)\<close>

text \<open>
  A slot-based buffer in which an encoder publishes embeddings for prefill workers. The theory has the
  slot accounting and the buffer contents, the contract of a slot allocator as a locale (proved once:
  along any sequence of operations no slot has two owners), its interpretation on the pool, and the
  byte ranges of the slots. \<open>heapq\<close> keeps the free list a heap; only which element is the
  smallest is observable, so the model removes the minimum of the list.
\<close>

record 'v embedding_pool =
  ep_num_slots :: int
  ep_max_tokens :: int
  ep_hidden_size :: int
  ep_itemsize :: int
  ep_buffer :: "'v list list"
  ep_free_slots :: "int list"
  ep_token_counts :: "int \<rightharpoonup> int"

definition new_pool :: "'v \<Rightarrow> int \<Rightarrow> int \<Rightarrow> int \<Rightarrow> dtype \<Rightarrow> 'v embedding_pool" where
  "new_pool zero_row num_slots max_tokens hidden dt =
     \<lparr>ep_num_slots = num_slots, ep_max_tokens = max_tokens, ep_hidden_size = hidden,
      ep_itemsize = itemsize dt,
      ep_buffer = replicate (nat num_slots) (replicate (nat max_tokens) zero_row),
      ep_free_slots = py_range 0 num_slots, ep_token_counts = Map.empty\<rparr>"

definition available_slots :: "'v embedding_pool \<Rightarrow> int" where
  "available_slots p = py_len (ep_free_slots p)"

definition heappop :: "int list \<Rightarrow> int \<times> int list" where
  "heappop h = (let m = Min (set h) in (m, remove1 m h))"

definition allocate_slot :: "int \<Rightarrow> 'v embedding_pool \<Rightarrow> (int \<times> 'v embedding_pool) res" where
  "allocate_slot num_tokens p =
     rbind (check (num_tokens \<le> ep_max_tokens p) (RuntimeErr ''num_tokens exceeds max_tokens_per_slot'')) (\<lambda>_.
     rbind (check (ep_free_slots p \<noteq> []) (RuntimeErr ''EmbeddingPool: no free slots'')) (\<lambda>_.
     case heappop (ep_free_slots p) of (slot, free) \<Rightarrow>
       Inr (slot, p\<lparr>ep_free_slots := free, ep_token_counts := (ep_token_counts p)(slot \<mapsto> num_tokens)\<rparr>)))"

definition free_slot :: "int \<Rightarrow> 'v embedding_pool \<Rightarrow> 'v embedding_pool" where
  "free_slot slot p =
     (if ep_token_counts p slot = None then p
      else p\<lparr>ep_token_counts := (ep_token_counts p)(slot := None),
             ep_free_slots := slot # ep_free_slots p\<rparr>)"

text \<open>\<open>free_many\<close> appends the slots and restores the heap once at the end.\<close>

definition free_many :: "int list \<Rightarrow> 'v embedding_pool \<Rightarrow> 'v embedding_pool" where
  "free_many slots p =
     fold (\<lambda>slot p. if ep_token_counts p slot = None then p
                    else p\<lparr>ep_token_counts := (ep_token_counts p)(slot := None),
                           ep_free_slots := ep_free_slots p @ [slot]\<rparr>) slots p"

text \<open>\<open>buffer[slot_idx, :n, :]\<close>: a negative slot counts from the end, a slice is clipped.\<close>

definition get_slot_tensor :: "int \<Rightarrow> 'v embedding_pool \<Rightarrow> 'v list res" where
  "get_slot_tensor slot p =
     rbind (py_nth (ep_buffer p) slot) (\<lambda>rows.
     let n = dict_get (ep_token_counts p) slot (ep_max_tokens p)
     in Inr (take (nat (if n < 0 then max 0 (n + py_len rows) else n)) rows))"

text \<open>
  Assignment of \<open>n\<close> rows of width \<open>width\<close>: torch broadcasts a single row or a single column and
  raises on any other difference. \<open>cast\<close> is the conversion to the pool's dtype and device.
\<close>

definition write_slot ::
  "('v \<Rightarrow> 'v) \<Rightarrow> int \<Rightarrow> int \<Rightarrow> 'v list \<Rightarrow> 'v embedding_pool \<Rightarrow> 'v embedding_pool res" where
  "write_slot cast slot width rows p =
     rbind (py_nth (ep_buffer p) slot) (\<lambda>old.
     rbind (check ((py_len rows \<le> py_len old \<or> py_len rows = 1) \<and> (width = ep_hidden_size p \<or> width = 1))
              (RuntimeErr ''shape mismatch'')) (\<lambda>_.
     let i = nat (if slot < 0 then slot + py_len (ep_buffer p) else slot)
     in Inr (p\<lparr>ep_buffer := (ep_buffer p)[i := take (length old) (map cast rows) @ drop (length rows) old],
               ep_token_counts := (ep_token_counts p)(slot \<mapsto> py_len rows)\<rparr>)))"

definition slot_byte_offset :: "'v embedding_pool \<Rightarrow> int \<Rightarrow> int" where
  "slot_byte_offset p slot = slot * ep_max_tokens p * ep_hidden_size p * ep_itemsize p"

definition slot_num_bytes :: "'v embedding_pool \<Rightarrow> int \<Rightarrow> int" where
  "slot_num_bytes p slot = dict_get (ep_token_counts p) slot 0 * ep_hidden_size p * ep_itemsize p"

text \<open>The size \<open>register_mr\<close> registers: all elements of the buffer.\<close>

definition pool_num_bytes :: "'v embedding_pool \<Rightarrow> int" where
  "pool_num_bytes p = ep_num_slots p * ep_max_tokens p * ep_hidden_size p * ep_itemsize p"

subsection \<open>The contract of a slot allocator\<close>

text \<open>
  Clients see the free and the live slots. Taking a slot moves it from free to live; releasing a live
  slot moves it back; releasing anything else does nothing.
\<close>

datatype 'a slot_event = Take 'a | Release int

text \<open>A run records the slots handed out and given back; a failing acquisition changes nothing.\<close>

fun run_events ::
  "('a \<Rightarrow> 's \<Rightarrow> (int \<times> 's) res) \<Rightarrow> (int \<Rightarrow> 's \<Rightarrow> 's) \<Rightarrow> ('s \<Rightarrow> int set) \<Rightarrow> 'a slot_event list
   \<Rightarrow> 's \<Rightarrow> int list \<Rightarrow> 's \<times> int list" where
  "run_events acquire release live [] s held = (s, held)"
| "run_events acquire release live (Take a # es) s held =
     (case acquire a s of
        Inl _ \<Rightarrow> run_events acquire release live es s held
      | Inr (i, s') \<Rightarrow> run_events acquire release live es s' (i # held))"
| "run_events acquire release live (Release i # es) s held =
     run_events acquire release live es (release i s) (if i \<in> live s then remove1 i held else held)"

locale slot_allocator =
  fixes inv :: "'s \<Rightarrow> bool"
    and free_set :: "'s \<Rightarrow> int set"
    and live_set :: "'s \<Rightarrow> int set"
    and acquire :: "'a \<Rightarrow> 's \<Rightarrow> (int \<times> 's) res"
    and release :: "int \<Rightarrow> 's \<Rightarrow> 's"
  assumes disjoint: "inv s \<Longrightarrow> free_set s \<inter> live_set s = {}"
    and acquire_ok: "inv s \<Longrightarrow> acquire a s = Inr (i, s') \<Longrightarrow>
          inv s' \<and> i \<in> free_set s \<and> free_set s' = free_set s - {i} \<and> live_set s' = insert i (live_set s)"
    and release_live: "inv s \<Longrightarrow> i \<in> live_set s \<Longrightarrow>
          inv (release i s) \<and> free_set (release i s) = insert i (free_set s) \<and>
          live_set (release i s) = live_set s - {i}"
    and release_other: "inv s \<Longrightarrow> i \<notin> live_set s \<Longrightarrow> release i s = s"
begin

text \<open>The ledger of held slots is duplicate free and is exactly the live set.\<close>

lemma run_ledger:
  assumes "run_events acquire release live_set es s held = (s', held')" "inv s" "distinct held" "set held = live_set s"
  shows "inv s' \<and> distinct held' \<and> set held' = live_set s' \<and>
         free_set s' \<union> live_set s' = free_set s \<union> live_set s \<and> free_set s' \<inter> live_set s' = {}"
  using assms
proof (induction es arbitrary: s held)
  case Nil
  then show ?case using disjoint by auto
next
  case (Cons e es)
  show ?case
  proof (cases e)
    case (Take a)
    show ?thesis
    proof (cases "acquire a s")
      case (Inl err)
      then show ?thesis using Cons Take by simp
    next
      case (Inr r)
      obtain i t where r: "acquire a s = Inr (i, t)" using Inr by (cases r) simp
      note ok = acquire_ok [OF Cons.prems(2) r]
      have i: "i \<notin> live_set s" using ok disjoint [OF Cons.prems(2)] by blast
      have un: "free_set t \<union> live_set t = free_set s \<union> live_set s" using ok by auto
      have held: "distinct (i # held)" "set (i # held) = live_set t" using Cons.prems(3,4) ok i by auto
      have "run_events acquire release live_set es t (i # held) = (s', held')"
        using Cons.prems(1) Take r by simp
      from Cons.IH [OF this _ held] ok show ?thesis unfolding un by blast
    qed
  next
    case (Release i)
    show ?thesis
    proof (cases "i \<in> live_set s")
      case True
      note ok = release_live [OF Cons.prems(2) True]
      have un: "free_set (release i s) \<union> live_set (release i s) = free_set s \<union> live_set s"
        using ok True by auto
      have held: "distinct (remove1 i held)" "set (remove1 i held) = live_set (release i s)"
        using Cons.prems(3,4) ok by auto
      have "run_events acquire release live_set es (release i s) (remove1 i held) = (s', held')"
        using Cons.prems(1) Release True by simp
      from Cons.IH [OF this _ held] ok show ?thesis unfolding un by blast
    next
      case False
      then show ?thesis using Cons Release release_other [OF Cons.prems(2) False] by simp
    qed
  qed
qed

end

subsection \<open>The pool is a slot allocator\<close>

definition pool_inv :: "'v embedding_pool \<Rightarrow> bool" where
  "pool_inv p \<longleftrightarrow> distinct (ep_free_slots p) \<and> set (ep_free_slots p) \<inter> dom (ep_token_counts p) = {}"

interpretation pool: slot_allocator pool_inv "\<lambda>p. set (ep_free_slots p)" "\<lambda>p. dom (ep_token_counts p)"
  allocate_slot free_slot
proof
  fix s s' :: "'v embedding_pool" and a i
  assume inv: "pool_inv s"
  then show "set (ep_free_slots s) \<inter> dom (ep_token_counts s) = {}" by (simp add: pool_inv_def)
  {
    assume "allocate_slot a s = Inr (i, s')"
    then have i: "ep_free_slots s \<noteq> []" "i = Min (set (ep_free_slots s))"
      and s': "s' = s\<lparr>ep_free_slots := remove1 i (ep_free_slots s), ep_token_counts := (ep_token_counts s)(i \<mapsto> a)\<rparr>"
      by (auto simp: allocate_slot_def rbind_Inr_iff heappop_def Let_def)
    have "i \<in> set (ep_free_slots s)" using i by simp
    then show "pool_inv s' \<and> i \<in> set (ep_free_slots s) \<and> set (ep_free_slots s') = set (ep_free_slots s) - {i} \<and>
        dom (ep_token_counts s') = insert i (dom (ep_token_counts s))"
      using inv by (auto simp: s' pool_inv_def)
  }
  {
    assume "i \<in> dom (ep_token_counts s)"
    then show "pool_inv (free_slot i s) \<and> set (ep_free_slots (free_slot i s)) = insert i (set (ep_free_slots s)) \<and>
        dom (ep_token_counts (free_slot i s)) = dom (ep_token_counts s) - {i}"
      using inv by (auto simp: free_slot_def pool_inv_def)
  }
  assume "i \<notin> dom (ep_token_counts s)"
  then show "free_slot i s = s" by (auto simp: free_slot_def)
qed

text \<open>
  C34: the pool never hands a slot to two owners. Along any sequence of allocations (of any sizes,
  failing ones included) and releases (of any indices, valid or not) on a fresh pool, the slots held
  are pairwise distinct, are slots of the buffer, are exactly the ones the pool counts as used, and
  together with the free list they are all the slots.
\<close>

theorem pool_slots_have_one_owner:
  assumes "run_events allocate_slot free_slot (\<lambda>p. dom (ep_token_counts p)) events
             (new_pool z n m h dt) [] = (p, held)"
  shows "distinct held \<and> set held = dom (ep_token_counts p) \<and> distinct (ep_free_slots p) \<and>
         set held \<inter> set (ep_free_slots p) = {} \<and> set held \<union> set (ep_free_slots p) = set (py_range 0 n)"
proof -
  have "pool_inv (new_pool z n m h dt)" by (simp add: pool_inv_def new_pool_def)
  from pool.run_ledger [OF assms this] show ?thesis
    by (auto simp: new_pool_def pool_inv_def)
qed

theorem pool_slots_have_one_owner_witness:
  "\<exists>p held. run_events allocate_slot free_slot (\<lambda>p. dom (ep_token_counts p))
       [Take 3, Take 9, Take 4, Release 0, Release 7, Take 1] (new_pool (0::int) 2 4 8 BFloat16) [] = (p, held) \<and>
     distinct held \<and> set held \<union> set (ep_free_slots p) = {0, 1}"
proof -
  obtain p held where r: "run_events allocate_slot free_slot (\<lambda>p. dom (ep_token_counts p))
       [Take 3, Take 9, Take 4, Release 0, Release 7, Take 1] (new_pool (0::int) 2 4 8 BFloat16) [] = (p, held)"
    by (cases "run_events allocate_slot free_slot (\<lambda>p. dom (ep_token_counts p))
       [Take 3, Take 9, Take 4, Release 0, Release 7, Take 1] (new_pool (0::int) 2 4 8 BFloat16) []")
  have "set (py_range 0 2) = {0, 1}" by auto
  with pool_slots_have_one_owner [OF r] r show ?thesis by auto
qed

text \<open>Releasing a batch is releasing its slots one by one; only the order inside the heap differs.\<close>

lemma free_many_fold:
  assumes "ep_token_counts p = ep_token_counts q" "mset (ep_free_slots p) = mset (ep_free_slots q)"
  shows "ep_token_counts (free_many slots p) = ep_token_counts (fold free_slot slots q) \<and>
         mset (ep_free_slots (free_many slots p)) = mset (ep_free_slots (fold free_slot slots q))"
  using assms
proof (induction slots arbitrary: p q)
  case Nil
  then show ?case by (simp add: free_many_def)
next
  case (Cons i slots)
  show ?case
    unfolding free_many_def fold_simps comp_def
    by (rule Cons.IH [unfolded free_many_def]) (use Cons.prems in \<open>auto simp: free_slot_def\<close>)
qed

text \<open>
  Releasing a batch of slots (with repetitions and unknown indices) has the effect of releasing them
  one after the other: the same slots are used afterwards and the same slots are free, each once.
\<close>

lemma free_many_is_free_each:
  "ep_token_counts (free_many slots p) = ep_token_counts (fold free_slot slots p) \<and>
   mset (ep_free_slots (free_many slots p)) = mset (ep_free_slots (fold free_slot slots p))"
  by (rule free_many_fold) simp_all

text \<open>
  Writing and reading a slot. A write of at most the slot's capacity into an allocated slot
  succeeds, keeps the accounting invariant, reads back as the converted rows, and leaves every
  other slot's contents as they were.
\<close>

lemma write_slot_roundtrip:
  assumes "pool_inv p" "ep_token_counts p slot = Some n" "0 \<le> slot" "slot < py_len (ep_buffer p)"
    and "py_len rows \<le> py_len (ep_buffer p ! nat slot)"
  shows "\<exists>p'. write_slot cast slot (ep_hidden_size p) rows p = Inr p' \<and> pool_inv p' \<and>
           get_slot_tensor slot p' = Inr (map cast rows) \<and>
           (\<forall>other. 0 \<le> other \<and> other \<noteq> slot \<longrightarrow> get_slot_tensor other p' = get_slot_tensor other p)"
proof -
  let ?old = "ep_buffer p ! nat slot"
  let ?new = "take (length ?old) (map cast rows) @ drop (length rows) ?old"
  let ?p = "p\<lparr>ep_buffer := (ep_buffer p)[nat slot := ?new], ep_token_counts := (ep_token_counts p)(slot \<mapsto> py_len rows)\<rparr>"
  have w: "write_slot cast slot (ep_hidden_size p) rows p = Inr ?p"
    using assms(3-5) by (simp add: write_slot_def py_nth_def Let_def)
  have "pool_inv ?p" using assms(1,2) by (auto simp: pool_inv_def)
  moreover have "get_slot_tensor slot ?p = Inr (map cast rows)"
    using assms(3-5) by (simp add: get_slot_tensor_def py_nth_def Let_def dict_get_def py_len_def)
  moreover have "get_slot_tensor other ?p = get_slot_tensor other p" if "0 \<le> other" "other \<noteq> slot" for other
    using that assms(3) by (auto simp: get_slot_tensor_def py_nth_def Let_def dict_get_def py_len_def)
  ultimately show ?thesis using w by blast
qed

lemma write_slot_roundtrip_witness:
  "\<exists>p1 p2. allocate_slot 2 (new_pool (0::int) 3 4 8 BFloat16) = Inr (0, p1) \<and>
     write_slot (\<lambda>x. x) 0 8 [5, 6] p1 = Inr p2 \<and> get_slot_tensor 0 p2 = Inr [5, 6]"
proof -
  let ?p0 = "new_pool (0::int) 3 4 8 BFloat16"
  let ?p1 = "?p0\<lparr>ep_free_slots := [1, 2], ep_token_counts := [0 \<mapsto> 2]\<rparr>"
  have p1: "allocate_slot 2 ?p0 = Inr (0, ?p1)"
    by (simp add: allocate_slot_def new_pool_def heappop_def py_range_Cons)
  have "pool_inv ?p1" by (simp add: pool_inv_def)
  from write_slot_roundtrip [OF this, of 0 2 "[5, 6]" "\<lambda>x. x"] obtain p2 where
    "write_slot (\<lambda>x. x) 0 8 [5, 6] ?p1 = Inr p2" "get_slot_tensor 0 p2 = Inr [5, 6]"
    by (auto simp: new_pool_def py_len_def numeral_nat)
  then show ?thesis using p1 by blast
qed

text \<open>
  The byte ranges peers read lie inside the registered buffer and never overlap: a live slot of a
  pool whose token counts respect the capacity starts at its offset, ends before the next slot, and
  ends inside the region.
\<close>

lemma slot_bytes_in_region:
  assumes "0 \<le> ep_max_tokens p" "0 \<le> ep_hidden_size p" "0 \<le> ep_itemsize p"
    and "0 \<le> slot" "slot < ep_num_slots p" "dict_get (ep_token_counts p) slot 0 \<le> ep_max_tokens p"
  shows "0 \<le> slot_byte_offset p slot \<and>
         slot_byte_offset p slot + slot_num_bytes p slot \<le> slot_byte_offset p (slot + 1) \<and>
         slot_byte_offset p (slot + 1) \<le> pool_num_bytes p"
proof -
  let ?row = "ep_hidden_size p * ep_itemsize p"
  have row: "0 \<le> ?row" using assms by simp
  have "dict_get (ep_token_counts p) slot 0 * ?row \<le> ep_max_tokens p * ?row"
    using assms(6) row by (intro mult_right_mono)
  moreover have "(slot + 1) * (ep_max_tokens p * ?row) \<le> ep_num_slots p * (ep_max_tokens p * ?row)"
    using assms row by (intro mult_right_mono) simp_all
  ultimately show ?thesis
    using assms by (simp add: slot_byte_offset_def slot_num_bytes_def pool_num_bytes_def algebra_simps)
qed

lemma slot_bytes_in_region_witness:
  "slot_byte_offset (new_pool (0::int) 3 4 8 BFloat16) 3 \<le> pool_num_bytes (new_pool (0::int) 3 4 8 BFloat16)"
  using slot_bytes_in_region [of "new_pool (0::int) 3 4 8 BFloat16" 2] by (simp add: new_pool_def dict_get_def)

end
