(* ===== verification/HiSparse.thy ===== *)
theory HiSparse
  imports Cache_Layout
begin

section \<open>The HiSparse hot tier (\<open>runtime/context/cache/hisparse.py\<close>)\<close>

text \<open>
  During sparse decode a small GPU tier holds the selected tokens of every sequence; the full cache
  lives in host memory. The theory models the context, the allocation of both tiers, the slot
  arithmetic that maps tokens to hot rows, and the bookkeeping that forgets a slot's residency when the
  scheduler gives the slot to another sequence. The CUDA kernels that move the data are parameters.
\<close>

record hisparse_context =
  hs_enabled :: bool
  hs_max_num_seqs :: int
  hs_dummy_slot :: int
  hs_device_buffer_size :: int
  hs_tokens_per_seq :: int
  hs_hot_kv_cache :: "tensor option"
  hs_cold_kv_cache :: "tensor option"
  hs_block_size :: int
  hs_hot_blocks_per_seq :: int
  hs_resident_tokens :: "(int \<Rightarrow> int \<Rightarrow> int \<Rightarrow> int) option"
  hs_union_hash_entries :: "(int \<Rightarrow> int \<Rightarrow> int) option"
  hs_union_hash_values :: "(int \<Rightarrow> int \<Rightarrow> int) option"
  hs_union_hash_capacity :: int
  hs_slot_owner_ids :: "int list option"
  hs_num_real_reqs :: "int option"

definition new_hisparse_context :: hisparse_context where
  "new_hisparse_context = \<lparr>hs_enabled = False, hs_max_num_seqs = 0, hs_dummy_slot = - 1,
     hs_device_buffer_size = 0, hs_tokens_per_seq = 0, hs_hot_kv_cache = None, hs_cold_kv_cache = None,
     hs_block_size = 0, hs_hot_blocks_per_seq = 0, hs_resident_tokens = None, hs_union_hash_entries = None,
     hs_union_hash_values = None, hs_union_hash_capacity = 0, hs_slot_owner_ids = None,
     hs_num_real_reqs = None\<rparr>"

definition clear_hisparse_context :: "hisparse_context \<Rightarrow> hisparse_context" where
  "clear_hisparse_context ctx =
     ctx\<lparr>hs_enabled := False, hs_max_num_seqs := 0, hs_dummy_slot := - 1, hs_device_buffer_size := 0,
       hs_tokens_per_seq := 0, hs_hot_kv_cache := None, hs_cold_kv_cache := None, hs_block_size := 0,
       hs_hot_blocks_per_seq := 0, hs_resident_tokens := None, hs_union_hash_entries := None,
       hs_union_hash_values := None, hs_union_hash_capacity := 0, hs_slot_owner_ids := None,
       hs_num_real_reqs := None\<rparr>"

definition initialize_hisparse_context :: "int \<Rightarrow> int \<Rightarrow> hisparse_context \<Rightarrow> hisparse_context" where
  "initialize_hisparse_context max_num_seqs device_buffer_size ctx =
     ctx\<lparr>hs_enabled := True, hs_max_num_seqs := max_num_seqs, hs_dummy_slot := max_num_seqs,
       hs_device_buffer_size := device_buffer_size, hs_tokens_per_seq := device_buffer_size,
       hs_num_real_reqs := Some 0\<rparr>"

subsection \<open>Allocation\<close>

text \<open>The loop that doubles the hash capacity; \<open>n\<close> is positive throughout.\<close>

function hash_capacity_from :: "int \<Rightarrow> int \<Rightarrow> int" where
  "hash_capacity_from n target = (if 0 < n \<and> n < target then hash_capacity_from (2 * n) target else n)"
  by pat_completeness auto
termination
  by (relation "measure (\<lambda>(n, target). nat (target - n))") auto

declare hash_capacity_from.simps [simp del]

definition union_hash_capacity_for :: "int \<Rightarrow> int" where
  "union_hash_capacity_for device_buffer_size = hash_capacity_from 1 (2 * max 1 device_buffer_size)"

definition hot_blocks_for :: "int \<Rightarrow> int \<Rightarrow> int" where
  "hot_blocks_for device_buffer_size block_size =
     (let slot_stride_tokens = device_buffer_size + block_size
      in max 1 ((slot_stride_tokens + block_size - 1) div block_size))"

definition initialize_mla_hisparse_cache ::
  "alloc_env \<Rightarrow> string \<Rightarrow> tensor option \<Rightarrow> int \<Rightarrow> int \<Rightarrow> hisparse_context \<Rightarrow> (tensor \<times> hisparse_context) res" where
  "initialize_mla_hisparse_cache env device cold max_num_seqs device_buffer_size ctx =
     (case cold of
        None \<Rightarrow> Inl (ValueError ''MLA HiSparse requires a 6-D host cold KV cache'')
      | Some cold \<Rightarrow>
          if length (t_shape cold) \<noteq> 6 then Inl (ValueError ''MLA HiSparse requires a 6-D host cold KV cache'')
          else if t_shape cold ! 3 = 0 then Inl ZeroDivisionError
          else
            (let block_size = t_shape cold ! 3;
                 hot_blocks_per_seq = hot_blocks_for device_buffer_size block_size;
                 total_hot_blocks = max_num_seqs * hot_blocks_per_seq
             in rbind (torch_empty env (t_dtype cold)
                  [t_shape cold ! 0, t_shape cold ! 1, total_hot_blocks, block_size + 1, t_shape cold ! 4, t_shape cold ! 5]
                  device) (\<lambda>padded.
                let hot = narrow_to padded 3 block_size
                in Inr (hot, ctx\<lparr>hs_cold_kv_cache := Some cold, hs_hot_kv_cache := Some hot,
                     hs_block_size := block_size, hs_hot_blocks_per_seq := hot_blocks_per_seq,
                     hs_tokens_per_seq := hot_blocks_per_seq * block_size,
                     hs_resident_tokens := Some (\<lambda>_ _ _. 0),
                     hs_union_hash_capacity := union_hash_capacity_for (hs_device_buffer_size ctx),
                     hs_union_hash_entries := Some (\<lambda>_ _. 0), hs_union_hash_values := Some (\<lambda>_ _. 0),
                     hs_slot_owner_ids := Some (replicate (nat max_num_seqs) (- 1))\<rparr>))))"

definition allocate_gqa_hot_buffer ::
  "alloc_env \<Rightarrow> int \<Rightarrow> int \<Rightarrow> int \<Rightarrow> dtype \<Rightarrow> string \<Rightarrow> hisparse_context \<Rightarrow> (tensor option \<times> hisparse_context) res" where
  "allocate_gqa_hot_buffer env num_layers num_kv_heads head_dim dt device ctx =
     (if \<not> hs_enabled ctx \<or> hs_device_buffer_size ctx \<le> 0 then Inr (None, ctx\<lparr>hs_hot_kv_cache := None\<rparr>)
      else rbind (torch_empty env dt
             [2, num_layers, hs_tokens_per_seq ctx * max 1 (hs_max_num_seqs ctx), num_kv_heads, head_dim] device)
           (\<lambda>t. Inr (Some t, ctx\<lparr>hs_hot_kv_cache := Some t\<rparr>)))"

subsection \<open>Slot arithmetic\<close>

text \<open>\<open>.to(torch.int32)\<close> keeps the low 32 bits.\<close>

definition to_int32 :: "int \<Rightarrow> int" where
  "to_int32 x = (x + 2 ^ 31) mod 2 ^ 32 - 2 ^ 31"

text \<open>The guards before the slot-loading kernel; \<open>rows \<times> topk\<close> is the shape of the index tensor.\<close>

definition stage_mla_sparse_indices ::
  "(hisparse_context \<Rightarrow> int \<Rightarrow> 'r) \<Rightarrow> bool \<Rightarrow> int \<Rightarrow> int \<Rightarrow> int \<Rightarrow> int \<Rightarrow> hisparse_context \<Rightarrow> 'r res" where
  "stage_mla_sparse_indices load_mla_slot is_cuda rows topk num_slots num_tokens_per_seq ctx =
     rbind (check (hs_hot_kv_cache ctx \<noteq> None \<and> hs_cold_kv_cache ctx \<noteq> None)
              (RuntimeErr ''MLA HiSparse hot/cold cache is not initialized'')) (\<lambda>_.
     rbind (check (num_slots = rows)
              (ValueError ''HiSparse slots must contain one entry per sparse-index row'')) (\<lambda>_.
     rbind (check (topk \<le> hs_device_buffer_size ctx)
              (RuntimeErr ''HiSparse top-k exceeds slot capacity'')) (\<lambda>_.
     let width = max 1 num_tokens_per_seq
     in rbind (check (topk * width \<le> hs_device_buffer_size ctx)
                 (RuntimeErr ''HiSparse speculative top-k union requires more hot slots'')) (\<lambda>_.
        rbind (check (width \<le> hs_tokens_per_seq ctx - hs_device_buffer_size ctx)
                 (RuntimeErr ''HiSparse speculative output width exceeds the reserved hot page'')) (\<lambda>_.
        rbind (check (hs_union_hash_entries ctx \<noteq> None \<and> hs_union_hash_values ctx \<noteq> None)
                 (RuntimeErr ''MLA HiSparse union workspace is not initialized'')) (\<lambda>_.
        rbind (check is_cuda (RuntimeErr ''MLA HiSparse slot loading requires CUDA'')) (\<lambda>_.
        Inr (load_mla_slot ctx width))))))))"

definition map_output_row :: "hisparse_context \<Rightarrow> int \<Rightarrow> int \<Rightarrow> int \<times> int \<Rightarrow> int" where
  "map_output_row ctx width row sl =
     (case sl of (slot, len) \<Rightarrow>
       (let req_offset = row div width;
            token_step = row - req_offset * width;
            output_position = len - width + token_step;
            valid = 0 \<le> slot \<and> slot < hs_max_num_seqs ctx \<and> 0 \<le> output_position \<and>
              (case hs_num_real_reqs ctx of None \<Rightarrow> True | Some n \<Rightarrow> req_offset < n);
            short = 0 < len \<and> len \<le> hs_device_buffer_size ctx;
            offset = (if short then output_position else hs_device_buffer_size ctx + token_step);
            mapped = slot * hs_tokens_per_seq ctx + offset
        in to_int32 (if valid then mapped else - 1)))"

definition map_mla_output_slots ::
  "bool \<Rightarrow> int list \<Rightarrow> int list \<Rightarrow> int \<Rightarrow> hisparse_context \<Rightarrow> int list res" where
  "map_mla_output_slots is_cuda hisparse_slots seq_lens num_tokens_per_seq ctx =
     rbind (check (hs_hot_kv_cache ctx \<noteq> None \<and> hs_cold_kv_cache ctx \<noteq> None)
              (RuntimeErr ''MLA HiSparse hot/cold cache is not initialized'')) (\<lambda>_.
     rbind (check (length hisparse_slots = length seq_lens)
              (ValueError ''HiSparse output slots and sequence lengths must align'')) (\<lambda>_.
     rbind (check is_cuda (RuntimeErr ''MLA HiSparse output mapping requires CUDA'')) (\<lambda>_.
     Inr (map (\<lambda>(row, sl). map_output_row ctx (max 1 num_tokens_per_seq) row sl)
            (py_enumerate (zip hisparse_slots seq_lens))))))"

text \<open>Elementwise operations broadcast a length-one operand and raise on other length differences.\<close>

definition broadcast2 :: "'a list \<Rightarrow> 'b list \<Rightarrow> ('a \<times> 'b) list res" where
  "broadcast2 xs ys =
     (if length xs = length ys then Inr (zip xs ys)
      else if length xs = 1 then Inr (map (Pair (hd xs)) ys)
      else if length ys = 1 then Inr (map (\<lambda>x. (x, hd ys)) xs)
      else Inl (RuntimeErr ''size mismatch''))"

text \<open>
  \<open>ring_kernel\<close> is the JIT kernel, \<open>None\<close> when its module is not installed; it is used on CUDA
  tensors when the request counter exists.
\<close>

definition build_hot_slot_mapping ::
  "(int list \<Rightarrow> int list \<Rightarrow> int list) option \<Rightarrow> bool \<Rightarrow> int list option \<Rightarrow> int list option \<Rightarrow> hisparse_context
   \<Rightarrow> int list option res" where
  "build_hot_slot_mapping ring_kernel is_cuda hisparse_slots positions ctx =
     (case (hisparse_slots, positions) of
        (Some slots, Some positions) \<Rightarrow>
          if hs_tokens_per_seq ctx \<le> 0 then Inr None
          else (let pos = take (length slots) positions in
            if is_cuda \<and> hs_num_real_reqs ctx \<noteq> None \<and> ring_kernel \<noteq> None
            then Inr (Some (the ring_kernel slots pos))
            else rbind (broadcast2 slots pos) (\<lambda>sps.
                 Inr (Some (map (\<lambda>(slot, p).
                   to_int32 (if slot < hs_max_num_seqs ctx
                             then slot * hs_tokens_per_seq ctx + p mod hs_tokens_per_seq ctx else - 1)) sps))))
      | _ \<Rightarrow> Inr None)"

subsection \<open>Slot ownership\<close>

definition reset_mla_hisparse_slots :: "int list \<Rightarrow> hisparse_context \<Rightarrow> hisparse_context" where
  "reset_mla_hisparse_slots slots ctx =
     (case hs_resident_tokens ctx of
        None \<Rightarrow> ctx
      | Some resident \<Rightarrow>
          (let valid = filter (\<lambda>s. 0 \<le> s \<and> s < hs_max_num_seqs ctx) slots
           in ctx\<lparr>hs_resident_tokens := Some (\<lambda>layer s t. if s \<in> set valid then 0 else resident layer s t),
                  hs_union_hash_entries :=
                    map_option (\<lambda>h s k. if s \<in> set valid then 0 else h s k) (hs_union_hash_entries ctx)\<rparr>))"

fun assign_owners :: "int \<Rightarrow> (int \<times> int) list \<Rightarrow> int list \<Rightarrow> int list \<Rightarrow> int list \<times> int list" where
  "assign_owners max_seqs [] owners changed = (owners, changed)"
| "assign_owners max_seqs ((slot, seq_id) # rest) owners changed =
     (if 0 \<le> slot \<and> slot < max_seqs \<and> owners ! nat slot \<noteq> seq_id
      then assign_owners max_seqs rest (owners[nat slot := seq_id]) (changed @ [slot])
      else assign_owners max_seqs rest owners changed)"

definition update_mla_hisparse_slot_owners :: "int list \<Rightarrow> int list \<Rightarrow> hisparse_context \<Rightarrow> hisparse_context" where
  "update_mla_hisparse_slot_owners slots seq_ids ctx =
     (case hs_slot_owner_ids ctx of
        None \<Rightarrow> ctx
      | Some owners \<Rightarrow>
          (case assign_owners (hs_max_num_seqs ctx) (zip slots seq_ids) owners [] of
             (owners', changed) \<Rightarrow>
               reset_mla_hisparse_slots changed (ctx\<lparr>hs_slot_owner_ids := Some owners'\<rparr>)))"

subsection \<open>Capacity\<close>

lemma to_int32_id: "- (2 ^ 31) \<le> x \<Longrightarrow> x < 2 ^ 31 \<Longrightarrow> to_int32 x = x"
  by (simp add: to_int32_def)

lemma hash_capacity_from_bounds:
  "0 < n \<Longrightarrow> n < 2 * target \<Longrightarrow>
   target \<le> hash_capacity_from n target \<and> hash_capacity_from n target < 2 * target \<and>
   (\<exists>k. hash_capacity_from n target = n * 2 ^ k)"
proof (induction n target rule: hash_capacity_from.induct)
  case (1 n target)
  show ?case
  proof (cases "n < target")
    case True
    have "target \<le> hash_capacity_from (2 * n) target \<and> hash_capacity_from (2 * n) target < 2 * target \<and>
        (\<exists>k. hash_capacity_from (2 * n) target = 2 * n * 2 ^ k)"
      using 1 True by simp
    then obtain k where k: "target \<le> hash_capacity_from (2 * n) target" "hash_capacity_from (2 * n) target < 2 * target"
      "hash_capacity_from (2 * n) target = 2 * n * 2 ^ k" by blast
    have "hash_capacity_from n target = hash_capacity_from (2 * n) target"
      using 1 True by (subst hash_capacity_from.simps) simp
    moreover have "2 * n * 2 ^ k = n * 2 ^ Suc k" by simp
    ultimately show ?thesis using k by metis
  next
    case False
    then have "hash_capacity_from n target = n * 2 ^ 0" by (subst hash_capacity_from.simps) simp
    then show ?thesis using 1 False by (metis mult.right_neutral not_less power_0)
  qed
qed

lemma hot_blocks_for_bounds:
  assumes "0 < bs" "0 < dbs"
  shows "dbs + bs \<le> hot_blocks_for dbs bs * bs" "hot_blocks_for dbs bs * bs < dbs + 2 * bs"
    "hot_blocks_for dbs bs = (dbs + bs + bs - 1) div bs"
proof -
  let ?q = "(dbs + bs + bs - 1) div bs"
  have q: "?q * bs + (dbs + bs + bs - 1) mod bs = dbs + bs + bs - 1" by (simp add: div_mult_mod_eq)
  have m: "0 \<le> (dbs + bs + bs - 1) mod bs" "(dbs + bs + bs - 1) mod bs < bs" using assms by simp_all
  have "1 \<le> ?q" using assms by (simp add: pos_imp_zdiv_pos_iff int_one_le_iff_zero_less)
  then show eq: "hot_blocks_for dbs bs = ?q" by (simp add: hot_blocks_for_def Let_def)
  show "dbs + bs \<le> hot_blocks_for dbs bs * bs" "hot_blocks_for dbs bs * bs < dbs + 2 * bs"
    unfolding eq using q m by linarith+
qed

lemma plan_hot_tier:
  assumes "plan_mla_hisparse_capacity gpu host n dbs bs kvb ixb = Inr plan"
  shows "hc_hot_blocks plan = n * ((dbs + bs + bs - 1) div bs)" "hc_hot_tier_bytes plan = hc_hot_blocks plan * kvb"
  using assms by (auto simp: plan_mla_hisparse_capacity_def rbind_Inr_iff Let_def)

text \<open>What initialisation of the MLA hot tier leaves behind.\<close>

lemma initialize_mla_facts:
  assumes "alloc_doc env"
    and "initialize_mla_hisparse_cache env dev (Some cold) n dbs (initialize_hisparse_context n dbs ctx0) = Inr (hot, ctx)"
  shows "length (t_shape cold) = 6" "t_shape cold ! 3 \<noteq> 0"
    and "hot = narrow_to (contiguous_tensor (t_dtype cold)
           [t_shape cold ! 0, t_shape cold ! 1, n * hot_blocks_for dbs (t_shape cold ! 3), t_shape cold ! 3 + 1,
            t_shape cold ! 4, t_shape cold ! 5] dev) 3 (t_shape cold ! 3)"
    and "hs_hot_kv_cache ctx = Some hot" "hs_cold_kv_cache ctx = Some cold" "hs_max_num_seqs ctx = n"
      "hs_device_buffer_size ctx = dbs" "hs_tokens_per_seq ctx = hot_blocks_for dbs (t_shape cold ! 3) * t_shape cold ! 3"
      "hs_union_hash_capacity ctx = union_hash_capacity_for dbs" "hs_num_real_reqs ctx = Some 0"
      "hs_union_hash_entries ctx \<noteq> None" "hs_union_hash_values ctx \<noteq> None"
      "hs_slot_owner_ids ctx = Some (replicate (nat n) (- 1))"
  using assms
  by (auto simp: initialize_mla_hisparse_cache_def initialize_hisparse_context_def Let_def rbind_Inr_iff
      alloc_doc_def split: if_splits)

text \<open>
  The MLA hot tier keeps its promises. For positive sizes every sequence gets room for the
  device buffer and at least one more page, with less than two pages of slack; the tier has exactly the
  blocks the capacity plan reserved; the union hash table is a power of two with at most half of it ever
  used; and every decode width up to a page passes the staging guards whenever its top-k union fits.
\<close>

lemma mla_hot_tier_capacity:
  assumes "alloc_doc env" "0 < n" "0 < dbs" "0 < t_shape cold ! 3"
    and "initialize_mla_hisparse_cache env dev (Some cold) n dbs (initialize_hisparse_context n dbs ctx0) = Inr (hot, ctx)"
    and "plan_mla_hisparse_capacity gpu host n dbs (t_shape cold ! 3) kvb ixb = Inr plan"
  shows "dbs + t_shape cold ! 3 \<le> hs_tokens_per_seq ctx \<and> hs_tokens_per_seq ctx < dbs + 2 * t_shape cold ! 3 \<and>
         t_shape hot ! 2 = hc_hot_blocks plan \<and> t_shape hot ! 2 * t_shape hot ! 3 = n * hs_tokens_per_seq ctx \<and>
         (\<exists>k. hs_union_hash_capacity ctx = 2 ^ k) \<and> 2 * dbs \<le> hs_union_hash_capacity ctx \<and>
         hs_union_hash_capacity ctx < 4 * dbs \<and>
         (\<forall>topk width. 0 \<le> topk \<and> 1 \<le> width \<and> width \<le> t_shape cold ! 3 \<and> topk * width \<le> dbs \<longrightarrow>
            stage_mla_sparse_indices load_slot True rows topk rows width ctx = Inr (load_slot ctx width))"
proof -
  let ?bs = "t_shape cold ! 3"
  note f = initialize_mla_facts [OF assms(1,5)]
  note b = hot_blocks_for_bounds [OF assms(4,3)]
  have hot: "t_shape hot ! 2 = n * hot_blocks_for dbs ?bs" "t_shape hot ! 3 = ?bs"
    by (simp_all add: f(3) narrow_to_def numeral_nat)
  have plan: "hc_hot_blocks plan = n * hot_blocks_for dbs ?bs"
    using plan_hot_tier(1) [OF assms(6)] b(3) by simp
  have cap: "2 * dbs \<le> hs_union_hash_capacity ctx" "hs_union_hash_capacity ctx < 4 * dbs" "\<exists>k. hs_union_hash_capacity ctx = 2 ^ k"
    using hash_capacity_from_bounds [of 1 "2 * dbs"] assms(3) f(9)
    by (auto simp: union_hash_capacity_for_def max_def)
  have stage: "stage_mla_sparse_indices load_slot True rows topk rows width ctx = Inr (load_slot ctx width)"
    if "0 \<le> topk" "1 \<le> width" "width \<le> ?bs" "topk * width \<le> dbs" for topk width
  proof -
    have "topk * 1 \<le> topk * width" using that by (intro mult_left_mono) simp_all
    then have "topk \<le> dbs" using that by linarith
    then show ?thesis using that f b(1) by (simp add: stage_mla_sparse_indices_def Let_def max_def)
  qed
  show ?thesis using b(1,2) hot plan cap stage f(8) by (simp add: ac_simps)
qed

definition sample_cold :: tensor where
  "sample_cold = contiguous_tensor Float8_e4m3fn [1, 2, 100, 64, 1, 656] ''cpu''"

lemma sample_hot_tier:
  "\<exists>hot ctx. initialize_mla_hisparse_cache plain_alloc ''cuda'' (Some sample_cold) 4 2048
     (initialize_hisparse_context 4 2048 new_hisparse_context) = Inr (hot, ctx)"
  by (simp add: initialize_mla_hisparse_cache_def sample_cold_def plain_alloc_def Let_def numeral_nat)

lemma mla_hot_tier_capacity_witness:
  "\<exists>hot ctx. initialize_mla_hisparse_cache plain_alloc ''cuda'' (Some sample_cold) 4 2048
       (initialize_hisparse_context 4 2048 new_hisparse_context) = Inr (hot, ctx) \<and>
     2112 \<le> hs_tokens_per_seq ctx \<and> 4096 \<le> hs_union_hash_capacity ctx \<and>
     stage_mla_sparse_indices (\<lambda>_ w. w) True 6 512 6 3 ctx = Inr 3"
proof -
  obtain hot ctx where i: "initialize_mla_hisparse_cache plain_alloc ''cuda'' (Some sample_cold) 4 2048
     (initialize_hisparse_context 4 2048 new_hisparse_context) = Inr (hot, ctx)"
    using sample_hot_tier by blast
  obtain plan where p: "plan_mla_hisparse_capacity 1000000 1000000 4 2048 (t_shape sample_cold ! 3) 100 10 = Inr plan"
    by (simp add: plan_mla_hisparse_capacity_def sample_cold_def Let_def numeral_nat)
  from mla_hot_tier_capacity [OF plain_alloc_doc _ _ _ i p, of "\<lambda>_ w. w" 6] show ?thesis
    using i by (auto simp: sample_cold_def numeral_nat)
qed

subsection \<open>Output rows\<close>

text \<open>The hot row of a valid output token: inside its sequence's range.\<close>

definition hot_offset :: "hisparse_context \<Rightarrow> int \<Rightarrow> int \<Rightarrow> int \<Rightarrow> int" where
  "hot_offset ctx width row len =
     (if 0 < len \<and> len \<le> hs_device_buffer_size ctx then len - width + row mod width
      else hs_device_buffer_size ctx + row mod width)"

lemma map_output_row_valid:
  assumes "map_output_row ctx width row (slot, len) \<noteq> - 1" "0 < width"
    and "0 \<le> hs_device_buffer_size ctx" "hs_device_buffer_size ctx + width \<le> hs_tokens_per_seq ctx"
    and "hs_max_num_seqs ctx * hs_tokens_per_seq ctx \<le> 2 ^ 31"
  shows "map_output_row ctx width row (slot, len) = slot * hs_tokens_per_seq ctx + hot_offset ctx width row len \<and>
    0 \<le> slot \<and> slot < hs_max_num_seqs ctx \<and> 0 \<le> hot_offset ctx width row len \<and>
    hot_offset ctx width row len < hs_tokens_per_seq ctx"
proof -
  let ?step = "row mod width" and ?t = "hs_tokens_per_seq ctx" and ?d = "hs_device_buffer_size ctx"
  let ?offset = "hot_offset ctx width row len"
  have step: "row - row div width * width = ?step" by (simp add: minus_div_mult_eq_mod)
  have v: "0 \<le> slot" "slot < hs_max_num_seqs ctx" "0 \<le> len - width + ?step"
    "map_output_row ctx width row (slot, len) = to_int32 (slot * ?t + ?offset)"
    using assms(1) by (auto simp: map_output_row_def hot_offset_def step Let_def to_int32_def split: if_splits)
  have st: "0 \<le> ?step" "?step < width" using assms(2) by simp_all
  then have off: "0 \<le> ?offset" "?offset < ?t" using v(3) assms(3,4) by (auto simp: hot_offset_def)
  have "(slot + 1) * ?t \<le> hs_max_num_seqs ctx * ?t"
    using v(2) assms(2-4) by (intro mult_right_mono) auto
  then have "slot * ?t + ?offset < 2 ^ 31" using off(2) assms(5) by (simp add: algebra_simps)
  moreover have "0 \<le> slot * ?t + ?offset" using v(1) off assms(2-4) by simp
  ultimately have "map_output_row ctx width row (slot, len) = slot * ?t + ?offset"
    unfolding v(4) by (intro to_int32_id) simp_all
  then show ?thesis using v(1,2) off by simp
qed

text \<open>Rows of one request carry the same slot and length; different requests have different slots.\<close>

definition rows_by_request :: "int \<Rightarrow> int list \<Rightarrow> int list \<Rightarrow> bool" where
  "rows_by_request width slots lens \<longleftrightarrow>
     (\<forall>i<length slots. \<forall>j<length slots.
        (slots ! i = slots ! j \<longrightarrow> int i div width = int j div width) \<and>
        (int i div width = int j div width \<longrightarrow> slots ! i = slots ! j \<and> lens ! i = lens ! j))"

text \<open>
  C36: newly appended tokens never overwrite each other. In a decode step whose rows are grouped by
  request, the hot rows of two different valid output tokens are different, lie inside the hot rows of
  their own sequence (so inside the tier), and for sequences longer than the buffer lie behind
  the rows that hold selected tokens.
\<close>

theorem map_mla_output_slots_safe:
  assumes "map_mla_output_slots True slots lens w ctx = Inr out"
    and "0 \<le> hs_device_buffer_size ctx" "hs_device_buffer_size ctx + max 1 w \<le> hs_tokens_per_seq ctx"
    and "hs_max_num_seqs ctx * hs_tokens_per_seq ctx \<le> 2 ^ 31" "rows_by_request (max 1 w) slots lens"
    and "i < length slots" "out ! i \<noteq> - 1"
  shows "slots ! i * hs_tokens_per_seq ctx \<le> out ! i \<and> out ! i < (slots ! i + 1) * hs_tokens_per_seq ctx \<and>
         0 \<le> slots ! i \<and> slots ! i < hs_max_num_seqs ctx \<and>
         (hs_device_buffer_size ctx < lens ! i \<longrightarrow>
            slots ! i * hs_tokens_per_seq ctx + hs_device_buffer_size ctx \<le> out ! i) \<and>
         (\<forall>j<length slots. j \<noteq> i \<and> out ! j \<noteq> - 1 \<longrightarrow> out ! j \<noteq> out ! i)"
proof -
  obtain width where w: "width = max 1 w" by simp
  let ?t = "hs_tokens_per_seq ctx" and ?d = "hs_device_buffer_size ctx"
  let ?off = "\<lambda>k. hot_offset ctx width (int k) (lens ! k)"
  have len: "length slots = length lens"
    and out: "k < length slots \<Longrightarrow> out ! k = map_output_row ctx width (int k) (slots ! k, lens ! k)" for k
    using assms(1) by (auto simp: map_mla_output_slots_def rbind_Inr_iff py_enumerate_def w)
  have width: "0 < width" "?d + width \<le> ?t" "rows_by_request width slots lens" using w assms(3,5) by auto
  have row: "out ! k = slots ! k * ?t + ?off k \<and> 0 \<le> slots ! k \<and> slots ! k < hs_max_num_seqs ctx \<and>
      0 \<le> ?off k \<and> ?off k < ?t" if "k < length slots" "out ! k \<noteq> - 1" for k
    using map_output_row_valid [OF _ width(1) assms(2) width(2) assms(4), of "int k" "slots ! k" "lens ! k"]
      that(2) unfolding out [OF that(1)] by simp
  note i = row [OF assms(6,7)]
  have "out ! j \<noteq> out ! i" if j: "j < length slots" "j \<noteq> i" "out ! j \<noteq> - 1" for j
  proof (cases "slots ! i = slots ! j")
    case True
    then have req: "int i div width = int j div width" "lens ! i = lens ! j"
      using width(3) assms(6) j(1) unfolding rows_by_request_def by blast+
    then have "int i mod width \<noteq> int j mod width" using j(2) by (metis div_mult_mod_eq of_nat_eq_iff)
    then show ?thesis using i row [OF j(1,3)] True req(2) by (auto simp: hot_offset_def)
  next
    case False
    then show ?thesis
      using i row [OF j(1,3)] row_major_unique [of "?off i" ?t "?off j" "slots ! i" "slots ! j"] by auto
  qed
  moreover have "?d \<le> ?off i" if "?d < lens ! i" using that width(1) by (simp add: hot_offset_def)
  ultimately show ?thesis using i by (simp add: algebra_simps)
qed

definition sample_hot_context :: hisparse_context where
  "sample_hot_context = new_hisparse_context\<lparr>hs_enabled := True, hs_max_num_seqs := 4, hs_device_buffer_size := 8,
     hs_tokens_per_seq := 12, hs_hot_kv_cache := Some sample_cold, hs_cold_kv_cache := Some sample_cold,
     hs_num_real_reqs := Some 2\<rparr>"

theorem map_mla_output_slots_safe_witness:
  "map_mla_output_slots True [3, 3, 1, 1, 4, 4] [20, 20, 7, 7, 5, 5] 2 sample_hot_context =
     Inr [44, 45, 17, 18, - 1, - 1] \<and> (17::int) \<noteq> 45"
proof -
  let ?out = "[44, 45, 17, 18, - 1, - 1] :: int list"
  have m: "map_mla_output_slots True [3, 3, 1, 1, 4, 4] [20, 20, 7, 7, 5, 5] 2 sample_hot_context = Inr ?out"
    by (simp add: map_mla_output_slots_def sample_hot_context_def new_hisparse_context_def py_enumerate_def
        map_output_row_def to_int32_def)
  have "rows_by_request (max 1 2) [3, 3, 1, 1, 4, 4] [20, 20, 7, 7, 5, 5]"
    by (simp add: rows_by_request_def All_less_Suc numeral_nat)
  from map_mla_output_slots_safe [OF m _ _ _ this, of 2] have "\<forall>j<6. j \<noteq> 2 \<and> ?out ! j \<noteq> - 1 \<longrightarrow> ?out ! j \<noteq> ?out ! 2"
    by (simp add: sample_hot_context_def new_hisparse_context_def)
  from this [THEN spec, of 1] have "(45::int) \<noteq> 17" by simp
  with m show ?thesis by simp
qed

subsection \<open>Ring mapping\<close>

text \<open>
  The sliding-window ring keeps a window. With the arithmetic mapping, tokens of a live sequence
  land inside that sequence's rows, and two tokens of a sequence whose positions differ by less than the
  ring length never share a row; tokens of different sequences never do.
\<close>

lemma hot_ring_window_distinct:
  assumes "build_hot_slot_mapping None is_cuda (Some slots) (Some positions) ctx = Inr (Some out)"
    and "length positions \<ge> length slots" "0 < hs_tokens_per_seq ctx"
    and "hs_max_num_seqs ctx * hs_tokens_per_seq ctx \<le> 2 ^ 31"
    and "i < length slots" "j < length slots" "0 \<le> slots ! i" "slots ! i < hs_max_num_seqs ctx"
    and "0 \<le> slots ! j" "slots ! j < hs_max_num_seqs ctx"
    and "slots ! i \<noteq> slots ! j \<or>
         positions ! i \<noteq> positions ! j \<and> \<bar>positions ! i - positions ! j\<bar> < hs_tokens_per_seq ctx"
  shows "out ! i \<noteq> out ! j \<and> slots ! i * hs_tokens_per_seq ctx \<le> out ! i \<and>
         out ! i < (slots ! i + 1) * hs_tokens_per_seq ctx"
proof -
  let ?t = "hs_tokens_per_seq ctx"
  have out: "out ! k = slots ! k * ?t + positions ! k mod ?t"
    if "k < length slots" "0 \<le> slots ! k" "slots ! k < hs_max_num_seqs ctx" for k
  proof -
    have r: "0 \<le> positions ! k mod ?t" "positions ! k mod ?t < ?t" using assms(3) by simp_all
    have "(slots ! k + 1) * ?t \<le> hs_max_num_seqs ctx * ?t" using that assms(3) by (intro mult_right_mono) auto
    then have "slots ! k * ?t + positions ! k mod ?t < 2 ^ 31" using r assms(4) by (simp add: algebra_simps)
    moreover have "0 \<le> slots ! k * ?t + positions ! k mod ?t" using that r assms(3) by simp
    ultimately have "to_int32 (slots ! k * ?t + positions ! k mod ?t) = slots ! k * ?t + positions ! k mod ?t"
      by (intro to_int32_id) simp_all
    then show ?thesis
      using assms(1-3) that
      by (auto simp: build_hot_slot_mapping_def broadcast2_def Let_def)
  qed
  have r: "0 \<le> positions ! k mod ?t" "positions ! k mod ?t < ?t" for k using assms(3) by simp_all
  have "positions ! i mod ?t \<noteq> positions ! j mod ?t"
    if "positions ! i \<noteq> positions ! j" "\<bar>positions ! i - positions ! j\<bar> < ?t"
  proof
    assume "positions ! i mod ?t = positions ! j mod ?t"
    then have "?t dvd positions ! i - positions ! j" by (simp add: mod_eq_dvd_iff)
    then show False using that dvd_imp_le_int [of "positions ! i - positions ! j" ?t] by linarith
  qed
  then show ?thesis
    using assms(11) out [OF assms(5,7,8)] out [OF assms(6,9,10)] r
      row_major_unique [of "positions ! i mod ?t" ?t "positions ! j mod ?t" "slots ! i" "slots ! j"]
    by (auto simp: algebra_simps)
qed

lemma hot_ring_window_distinct_witness:
  "\<exists>out. build_hot_slot_mapping None True (Some [1, 1]) (Some [30, 35]) sample_hot_context = Inr (Some out) \<and>
     out ! 0 \<noteq> out ! 1"
proof -
  obtain out where o: "build_hot_slot_mapping None True (Some [1, 1]) (Some [30, 35]) sample_hot_context = Inr (Some out)"
    by (simp add: build_hot_slot_mapping_def sample_hot_context_def broadcast2_def)
  with hot_ring_window_distinct [OF o, of 0 1] show ?thesis
    by (simp add: sample_hot_context_def new_hisparse_context_def)
qed

subsection \<open>Ownership\<close>

lemma assign_owners_changed:
  assumes "assign_owners n ps owners changed = (owners', changed')"
  shows "set changed \<subseteq> set changed' \<and> length owners' = length owners \<and>
    (\<forall>k<length owners. owners' ! k \<noteq> owners ! k \<longrightarrow> int k \<in> set changed' \<and> int k < n) \<and>
    (\<forall>s\<in>set changed' - set changed. 0 \<le> s \<and> s < n \<and> s \<in> fst ` set ps)"
  using assms
proof (induction n ps owners changed rule: assign_owners.induct)
  case (2 n slot seq_id rest owners changed)
  show ?case
  proof (cases "0 \<le> slot \<and> slot < n \<and> owners ! nat slot \<noteq> seq_id")
    case True
    note ih = 2(1) [OF True 2(3) [unfolded assign_owners.simps if_P [OF True]]]
    have "int k \<in> set changed' \<and> int k < n" if "k < length owners" "owners' ! k \<noteq> owners ! k" for k
      using ih True that by (cases "k = nat slot") auto
    then show ?thesis using ih True by auto
  next
    case False
    note ih = 2(2) [OF False 2(3) [unfolded assign_owners.simps if_not_P [OF False]]]
    then show ?thesis unfolding list.set image_insert by blast
  qed
qed simp

lemma assign_owners_other:
  "assign_owners n ps owners changed = (owners', changed') \<Longrightarrow> 0 \<le> slot \<Longrightarrow> slot \<notin> fst ` set ps \<Longrightarrow>
   owners' ! nat slot = owners ! nat slot"
  by (induction n ps owners changed rule: assign_owners.induct) (auto split: if_splits)

lemma assign_owners_last:
  assumes "assign_owners n ps owners changed = (owners', changed')" "distinct (map fst ps)"
    and "(slot, seq_id) \<in> set ps" "0 \<le> slot" "slot < n" "nat slot < length owners"
  shows "owners' ! nat slot = seq_id"
  using assms
proof (induction n ps owners changed rule: assign_owners.induct)
  case (2 n s q rest owners changed)
  show ?case
  proof (cases "(slot, seq_id) = (s, q)")
    case True
    then have "slot \<notin> fst ` set rest" using 2(4) by simp
    then show ?thesis
      using 2(3,6-8) True assign_owners_other [of n rest _ _ owners' changed' slot] by (auto split: if_splits)
  next
    case False
    then show ?thesis using 2 by (auto split: if_splits)
  qed
qed simp

text \<open>
  A slot that changes hands is forgotten. After the owners of a batch are updated, every
  scheduled slot of the tier belongs to its sequence; the residency map and the hash row of every slot
  whose owner changed are zero in all layers; and slots that were not scheduled keep owner, residency and
  hash row.
\<close>

lemma owner_change_clears_residency:
  assumes "hs_slot_owner_ids ctx = Some owners" "length owners = nat (hs_max_num_seqs ctx)"
    and "hs_resident_tokens ctx = Some res" "hs_union_hash_entries ctx = Some hash"
    and "distinct slots" "length slots = length ids" "0 \<le> slot" "slot < hs_max_num_seqs ctx"
  shows "\<exists>owners' res' hash'. let ctx' = update_mla_hisparse_slot_owners slots ids ctx in
           hs_slot_owner_ids ctx' = Some owners' \<and> hs_resident_tokens ctx' = Some res' \<and>
           hs_union_hash_entries ctx' = Some hash' \<and>
           (\<forall>k<length slots. slots ! k = slot \<longrightarrow> owners' ! nat slot = ids ! k) \<and>
           (owners' ! nat slot \<noteq> owners ! nat slot \<longrightarrow> (\<forall>l t. res' l slot t = 0) \<and> (\<forall>h. hash' slot h = 0)) \<and>
           (slot \<notin> set slots \<longrightarrow> owners' ! nat slot = owners ! nat slot \<and>
              (\<forall>l t. res' l slot t = res l slot t) \<and> (\<forall>h. hash' slot h = hash slot h))"
proof -
  obtain owners' changed where a: "assign_owners (hs_max_num_seqs ctx) (zip slots ids) owners [] = (owners', changed)"
    by (cases "assign_owners (hs_max_num_seqs ctx) (zip slots ids) owners []")
  note ch = assign_owners_changed [OF a]
  let ?valid = "filter (\<lambda>s. 0 \<le> s \<and> s < hs_max_num_seqs ctx) changed"
  have upd: "update_mla_hisparse_slot_owners slots ids ctx =
      ctx\<lparr>hs_slot_owner_ids := Some owners', hs_resident_tokens := Some (\<lambda>l s t. if s \<in> set ?valid then 0 else res l s t),
          hs_union_hash_entries := Some (\<lambda>s k. if s \<in> set ?valid then 0 else hash s k)\<rparr>"
    using assms(1,3,4) a by (simp add: update_mla_hisparse_slot_owners_def reset_mla_hisparse_slots_def)
  have own: "owners' ! nat slot = ids ! k" if "k < length slots" "slots ! k = slot" for k
    using assign_owners_last [OF a, of slot "ids ! k"] assms that by (force simp: set_zip)
  have clr: "slot \<in> set ?valid" if "owners' ! nat slot \<noteq> owners ! nat slot"
  proof -
    have "nat slot < length owners" using assms(2,7,8) by simp
    then have "int (nat slot) \<in> set changed" using ch that by blast
    then show ?thesis using assms(7,8) by simp
  qed
  have fst: "fst ` set (zip slots ids) = set slots" using assms(6) by (metis list.set_map map_fst_zip)
  have keep: "slot \<notin> set ?valid \<and> owners' ! nat slot = owners ! nat slot" if "slot \<notin> set slots"
    using ch that assign_owners_other [OF a assms(7)] unfolding fst by auto
  show ?thesis using own clr keep unfolding upd Let_def by auto
qed

lemma owner_change_clears_residency_witness:
  "\<exists>owners' res' hash'.
     let ctx' = update_mla_hisparse_slot_owners [2] [77]
           (sample_hot_context\<lparr>hs_slot_owner_ids := Some [5, 6, 7, 8], hs_resident_tokens := Some (\<lambda>_ _ _. 1),
              hs_union_hash_entries := Some (\<lambda>_ _. 9)\<rparr>)
     in hs_slot_owner_ids ctx' = Some owners' \<and> hs_resident_tokens ctx' = Some res' \<and>
        hs_union_hash_entries ctx' = Some hash' \<and> owners' ! 2 = 77 \<and> (\<forall>l t. res' l 2 t = 0)"
proof -
  let ?ctx = "sample_hot_context\<lparr>hs_slot_owner_ids := Some [5, 6, 7, 8], hs_resident_tokens := Some (\<lambda>_ _ _. 1),
              hs_union_hash_entries := Some (\<lambda>_ _. 9)\<rparr>"
  from owner_change_clears_residency [of ?ctx "[5, 6, 7, 8]" "\<lambda>_ _ _. 1" "\<lambda>_ _. 9" "[2]" "[77]" 2]
  show ?thesis
    by (auto simp: sample_hot_context_def new_hisparse_context_def Let_def numeral_nat)
qed

subsection \<open>Bytes of the hot tier\<close>

text \<open>The storage behind the hot view, its padding row included.\<close>

definition hot_storage_bytes :: "tensor \<Rightarrow> int" where
  "hot_storage_bytes hot =
     prod_list ((t_shape hot)[3 := t_shape hot ! 3 + 1]) * itemsize (t_dtype hot)"

text \<open>
  What the hot tier really costs. For the packed FP8 layout the allocated tier has exactly the bytes
  the capacity plan reserved. For the raw FP8 layout (Blackwell) the tier is still allocated with a
  padding row per block, which the plan does not count: it exceeds the reservation by one row per
  block and layer.
\<close>

lemma hot_tier_bytes_vs_plan:
  assumes "alloc_doc env" "post_init_cache_context m c0 = Inr c" "cc_mode c = ''mla''" "cc_is_fp8_kvcache c"
    and "allocate_kvcache env blocks c = Inr c'" "cc_kv_cache c' = Some cold" "0 < n" "0 < dbs"
    and "initialize_mla_hisparse_cache env dev (Some cold) n dbs (initialize_hisparse_context n dbs ctx0) = Inr (hot, ctx)"
    and "plan_mla_hisparse_capacity gpu host n dbs (cc_block_size c) (snd (get_mla_block_bytes c)) ixb = Inr plan"
  shows "hot_storage_bytes hot = hc_hot_tier_bytes plan +
           (if cc_raw_fp8_mla_layout c then hc_hot_blocks plan * (cc_num_hidden_layers c * cc_head_dim c) else 0)"
proof -
  have conf: "cc_block_size c = 64" "cc_fp8_head_dim c = mla_row_width c"
    using post_init_configured [OF assms(2)] assms(3,4) by (simp_all add: cache_configured_def)
  have heads: "num_local_kv_heads c = 1" using assms(3) by (simp add: num_local_kv_heads_def)
  obtain t where t: "c' = c\<lparr>cc_num_local_kvcache_blocks := blocks, cc_kv_cache := Some t\<rparr>"
    "t_shape t = [1, cc_num_hidden_layers c, blocks, 64, 1, mla_row_width c]" "t_dtype t = Float8_e4m3fn"
  proof (rule allocate_kvcache_tensor [OF assms(1,5)])
    fix t
    assume a: "c' = c\<lparr>cc_num_local_kvcache_blocks := blocks, cc_kv_cache := Some t\<rparr>"
      "cc_mode c = ''mla'' \<Longrightarrow> cc_is_fp8_kvcache c \<Longrightarrow> cc_raw_fp8_mla_layout c \<Longrightarrow>
           \<exists>dev. t = contiguous_tensor Float8_e4m3fn
             [1, cc_num_hidden_layers c, blocks, cc_block_size c, 1, cc_head_dim c] dev"
      "cc_mode c = ''mla'' \<Longrightarrow> cc_is_fp8_kvcache c \<Longrightarrow> \<not> cc_raw_fp8_mla_layout c \<Longrightarrow>
           \<exists>dev. t = narrow_to (contiguous_tensor Float8_e4m3fn
             [1, cc_num_hidden_layers c, blocks, cc_block_size c + 1, 1, cc_fp8_head_dim c] dev) 3 (cc_block_size c)"
    show thesis
      by (rule that [OF a(1)]; cases "cc_raw_fp8_mla_layout c")
        (use a(2,3) assms(3,4) conf in \<open>auto simp: narrow_to_def numeral_nat mla_row_width_def\<close>)
  qed
  have cold: "t_shape cold = [1, cc_num_hidden_layers c, blocks, 64, 1, mla_row_width c]" "t_dtype cold = Float8_e4m3fn"
    using assms(6) t by auto
  have bs: "t_shape cold ! 3 = 64" using cold by (simp add: numeral_nat)
  note f = initialize_mla_facts [OF assms(1,9)]
  have hot: "hot_storage_bytes hot = cc_num_hidden_layers c * (n * hot_blocks_for dbs 64) * 65 * mla_row_width c"
    unfolding f(3) bs by (simp add: hot_storage_bytes_def narrow_to_def cold numeral_nat)
  have plan: "hc_hot_blocks plan = n * hot_blocks_for dbs 64"
    "hc_hot_tier_bytes plan = n * hot_blocks_for dbs 64 * snd (get_mla_block_bytes c)"
    using plan_hot_tier [OF assms(10)] hot_blocks_for_bounds(3) [OF _ assms(8), of 64] unfolding conf(1) by simp_all
  have bytes: "snd (get_mla_block_bytes c) = cc_num_hidden_layers c * (if cc_raw_fp8_mla_layout c then 64 else 65) * mla_row_width c"
    using assms(4) conf(1) heads by (simp add: get_mla_block_bytes_def mla_row_width_def Let_def)
  show ?thesis
  proof (cases "cc_raw_fp8_mla_layout c")
    case True
    then have "mla_row_width c = cc_head_dim c" by (simp add: mla_row_width_def)
    then show ?thesis unfolding hot plan bytes using True by (simp add: algebra_simps)
  next
    case False
    then show ?thesis unfolding hot plan bytes by simp
  qed
qed

definition mla_mem :: mem_info where
  "mla_mem = \<lparr>mem_free = 1000000000, mem_total = 1000000000, mem_peak = 0, mem_current = 0\<rparr>"

definition mla_raw_context :: cache_context where
  "mla_raw_context = sample_cache_context\<lparr>cc_mode := ''mla'', cc_kv_lora_rank := 512, cc_qk_rope_head_dim := 64,
     cc_is_fp8_kvcache := True, cc_raw_fp8_mla_layout := True\<rparr>"

lemma hot_tier_bytes_vs_plan_witness:
  "\<exists>(c :: cache_context) (c' :: cache_context) cold hot ctx plan. post_init_cache_context mla_mem mla_raw_context = Inr c \<and>
     allocate_kvcache plain_alloc 10 c = Inr c' \<and> cc_kv_cache c' = Some cold \<and>
     initialize_mla_hisparse_cache plain_alloc ''cuda'' (Some cold) 4 2048
       (initialize_hisparse_context 4 2048 new_hisparse_context) = Inr (hot, ctx) \<and>
     plan_mla_hisparse_capacity 1000000 1000000 4 2048 64 (snd (get_mla_block_bytes c)) 10 = Inr plan \<and>
     hot_storage_bytes hot = hc_hot_tier_bytes plan + hc_hot_blocks plan * (4 * 576)"
proof -
  let ?c = "mla_raw_context\<lparr>cc_num_kv_heads := 1, cc_head_dim := 576, cc_fp8_head_dim := 576, cc_num_local_kvcache_blocks := 6781\<rparr>"
  have c: "post_init_cache_context mla_mem mla_raw_context = Inr ?c"
    by (simp add: post_init_cache_context_def mla_raw_context_def sample_cache_context_def mla_mem_def
        resolve_cache_backend_def backend_configure_def configure_mla_cache_def
        backend_get_block_bytes_def get_mla_block_bytes_def size_cache_blocks_def Let_def
        get_indexer_block_bytes_def gpu_cache_budget_def py_int_def num_local_kv_heads_def
        compute_host_kvcache_blocks_def initialize_gdn_cache_state_def)
  obtain c' cold where c': "allocate_kvcache plain_alloc 10 ?c = Inr c'" "cc_kv_cache c' = Some cold"
    "t_shape cold = [1, 4, 10, 64, 1, 576]"
    by (simp add: allocate_kvcache_def resolve_cache_backend_def mla_raw_context_def sample_cache_context_def
        backend_allocate_def allocate_mla_kvcache_def allocate_device_tensor_def plain_alloc_def)
  obtain hot ctx where h: "initialize_mla_hisparse_cache plain_alloc ''cuda'' (Some cold) 4 2048
       (initialize_hisparse_context 4 2048 new_hisparse_context) = Inr (hot, ctx)"
    using c'(3) by (simp add: initialize_mla_hisparse_cache_def plain_alloc_def Let_def numeral_nat)
  obtain plan where p: "plan_mla_hisparse_capacity 1000000 1000000 4 2048 (cc_block_size ?c) (snd (get_mla_block_bytes ?c)) 10 = Inr plan"
    by (simp add: plan_mla_hisparse_capacity_def mla_raw_context_def sample_cache_context_def get_mla_block_bytes_def
        num_local_kv_heads_def Let_def)
  from hot_tier_bytes_vs_plan [OF plain_alloc_doc c _ _ c'(1,2) _ _ h p]
  have "hot_storage_bytes hot = hc_hot_tier_bytes plan + hc_hot_blocks plan * (4 * 576)"
    by (simp add: mla_raw_context_def sample_cache_context_def)
  moreover have "cc_block_size ?c = 64" by (simp add: mla_raw_context_def sample_cache_context_def)
  ultimately show ?thesis using c c' h p by metis
qed

end
