(* ===== verification/Scheduler_Plan.thy ===== *)
theory Scheduler_Plan
  imports Migration "HOL-Library.Word"
begin

unbundle bit_operations_syntax

section \<open>Cache plans and the scheduler configuration\<close>

text \<open>
  Which caches a model needs (\<open>engine/scheduler.py\<close>, \<open>runtime/context/cache/plan.py\<close>,
  \<open>runtime/models/trait.py\<close>), the token window of one scheduler step and the configuration handed to
  the Rust scheduler. The flags and the mode of a plan are the ones of \<open>rust/src/config/mod.rs\<close>.
\<close>

subsection \<open>Traits of a model configuration\<close>

text \<open>
  A Hugging Face configuration as the code walks it: its layer types, the keys of its \<open>sub_configs\<close>,
  whether it has \<open>to_dict\<close>, and the attributes that hold nested configurations. Configurations are
  trees, so the identity set that guards the walk against cycles never stops it.
\<close>

datatype hf_config =
  HfConfig (hf_layer_types: "string list") (hf_sub_names: "string list") (hf_has_to_dict: bool)
    (hf_children: "(string \<times> hf_config) list")

definition visited_names :: "string list \<Rightarrow> string list" where
  "visited_names subs =
     subs @ filter (\<lambda>n. n \<notin> set subs) [''text_config'', ''thinker_config'', ''decoder_config'']"

fun has_layer_type :: "string \<Rightarrow> hf_config \<Rightarrow> bool" where
  "has_layer_type lt (HfConfig lts subs td ch) \<longleftrightarrow>
     lt \<in> set lts \<or>
     list_ex (\<lambda>n. map_of (map (\<lambda>(n, c).
         (n, (hf_has_to_dict c \<or> hf_layer_types c \<noteq> []) \<and> has_layer_type lt c)) ch) n = Some True)
       (visited_names subs)"

definition has_gdn_component :: "hf_config \<Rightarrow> bool" where
  "has_gdn_component c = has_layer_type ''linear_attention'' c"

definition has_hca_csa_cache :: "int list \<Rightarrow> bool" where
  "has_hca_csa_cache compress_ratios \<longleftrightarrow> {4, 128} \<subseteq> set (filter (\<lambda>r. 0 < r) compress_ratios)"

text \<open>
  The layer types the compatibility fixes derive: GLM-5.3 lists layers counted from 0, Kimi K3 lists its
  full-attention layers counted from 1.
\<close>

definition glm5_layer_types :: "string list \<Rightarrow> int \<Rightarrow> int list \<Rightarrow> int list \<Rightarrow> string list" where
  "glm5_layer_types declared num_layers kda_layers full_layers =
     (if declared \<noteq> [] then declared
      else map (\<lambda>i. if i \<in> set full_layers \<or> i \<notin> set kda_layers then ''deepseek_sparse_attention''
                    else ''linear_attention'') (py_range 0 num_layers))"

definition k3_layer_types :: "int \<Rightarrow> int list \<Rightarrow> string list" where
  "k3_layer_types num_layers full_one_based =
     map (\<lambda>index. if index + 1 \<in> set full_one_based then ''full_attention'' else ''linear_attention'')
       (py_range 0 num_layers)"

text \<open>The restored rotary width of GLM DSA and the head width derived from it.\<close>

definition restore_glm_rope :: "int option \<Rightarrow> int option \<Rightarrow> int \<times> int \<Rightarrow> int \<times> int" where
  "restore_glm_rope raw_rope_dim qk_nope_dim dims =
     (case (raw_rope_dim, dims) of
        (None, _) \<Rightarrow> dims
      | (Some rope, (_, qk_head_dim)) \<Rightarrow>
          (rope, case qk_nope_dim of None \<Rightarrow> qk_head_dim | Some nope \<Rightarrow> nope + rope))"

datatype gen_eos = EosNone | EosOne int | EosList "int option list"

definition resolve_eos_token_ids :: "int option \<Rightarrow> gen_eos option \<Rightarrow> int list" where
  "resolve_eos_token_ids tokenizer_eos generation_eos =
     sorted_list_of_set
       (set_option tokenizer_eos \<union>
        (case generation_eos of
           None \<Rightarrow> {}
         | Some EosNone \<Rightarrow> {}
         | Some (EosOne e) \<Rightarrow> {e}
         | Some (EosList es) \<Rightarrow> set (List.map_filter id es)))"

subsection \<open>Cache plans\<close>

datatype cache_flag = FlagGqa | FlagMla | FlagGdn | FlagHca | FlagCsa | FlagIndexer | FlagHisparse

fun flag_bit :: "cache_flag \<Rightarrow> nat" where
  "flag_bit FlagGqa = 0" | "flag_bit FlagMla = 1" | "flag_bit FlagGdn = 2" | "flag_bit FlagHca = 3"
| "flag_bit FlagCsa = 4" | "flag_bit FlagIndexer = 5" | "flag_bit FlagHisparse = 6"

definition cache_plan_flag :: "cache_flag \<Rightarrow> 32 word" where
  "cache_plan_flag f = push_bit (flag_bit f) 1"

record page_spec =
  sp_compression_ratio :: int
  sp_num_pages :: int
  sp_page_size :: int
  sp_max_blocks_per_seq :: int

record cache_plan_t =
  cp_flags :: "32 word"
  cp_hca :: page_spec
  cp_csa :: page_spec

definition empty_spec :: page_spec where
  "empty_spec = \<lparr>sp_compression_ratio = 0, sp_num_pages = 0, sp_page_size = 0, sp_max_blocks_per_seq = 0\<rparr>"

definition cache_plan :: "cache_flag list \<Rightarrow> cache_plan_t" where
  "cache_plan flags =
     \<lparr>cp_flags = fold (\<lambda>f raw. raw OR cache_plan_flag f) flags 0, cp_hca = empty_spec, cp_csa = empty_spec\<rparr>"

definition has_flag :: "cache_plan_t \<Rightarrow> cache_flag \<Rightarrow> bool" where
  "has_flag p f \<longleftrightarrow> cp_flags p AND cache_plan_flag f \<noteq> 0"

definition plan_cache_mode :: "cache_plan_t \<Rightarrow> string" where
  "plan_cache_mode p =
     (if has_flag p FlagHca \<or> has_flag p FlagCsa then ''dsv4''
      else if has_flag p FlagMla \<or> has_flag p FlagIndexer then ''mla'' else ''gqa'')"

definition gqa_cache_plan :: cache_plan_t where "gqa_cache_plan = cache_plan [FlagGqa]"
definition gqa_hisparse_cache_plan :: cache_plan_t where "gqa_hisparse_cache_plan = cache_plan [FlagGqa, FlagHisparse]"
definition qwen35_cache_plan :: cache_plan_t where "qwen35_cache_plan = cache_plan [FlagGqa, FlagGdn]"
definition kimi_k3_cache_plan :: cache_plan_t where "kimi_k3_cache_plan = cache_plan [FlagMla, FlagGdn]"
definition glm5_next_cache_plan :: cache_plan_t where
  "glm5_next_cache_plan = cache_plan [FlagMla, FlagGdn, FlagIndexer]"
definition hca_csa_cache_plan :: cache_plan_t where "hca_csa_cache_plan = cache_plan [FlagHca, FlagCsa]"

definition deepseek_mla_cache_plan :: "bool \<Rightarrow> bool \<Rightarrow> cache_plan_t" where
  "deepseek_mla_cache_plan use_indexer use_hisparse =
     cache_plan ([FlagMla] @ (if use_indexer then [FlagIndexer] else []) @ (if use_hisparse then [FlagHisparse] else []))"

subsection \<open>The plan of a configuration\<close>

text \<open>The fields of the engine configuration the scheduler reads; \<open>None\<close> is a missing attribute.\<close>

record sched_config =
  sc_hf :: hf_config
  sc_architectures :: "string list"
  sc_compress_ratios :: "int list"
  sc_kv_lora_rank :: "int option"
  sc_qk_rope_head_dim :: "int option"
  sc_index_head_dim :: "int option"
  sc_disable_nsa :: bool
  sc_enable_hisparse :: bool
  sc_max_num_seqs :: int
  sc_max_model_len :: int
  sc_max_num_batched_tokens :: int
  sc_pp :: int
  sc_pp_prefill_scheduler_depth :: int
  sc_pool_pages_ratio4 :: int
  sc_pool_pages_ratio128 :: int
  sc_gdn_state_cache_slots :: int
  sc_routing_strategy :: string
  sc_cache_plan :: "cache_plan_t option"

definition sc_arch :: "sched_config \<Rightarrow> string" where
  "sc_arch c = (case sc_architectures c of [] \<Rightarrow> [] | a # _ \<Rightarrow> a)"

definition ratio_spec :: "sched_config \<Rightarrow> int \<Rightarrow> page_spec" where
  "ratio_spec c ratio =
     (let page_size = 2;
          max_compressed = (sc_max_model_len c div ratio + 63) div 64 * 64;
          blocks = (max_compressed + page_size - 1) div page_size;
          worst_case_pages = sc_max_num_seqs c * blocks;
          override = (if ratio = 4 then sc_pool_pages_ratio4 c
                      else if ratio = 128 then sc_pool_pages_ratio128 c else 0)
      in \<lparr>sp_compression_ratio = ratio, sp_num_pages = (if override > 0 then override else worst_case_pages),
          sp_page_size = page_size, sp_max_blocks_per_seq = blocks\<rparr>)"

definition configure_hca_csa_cache_plan :: "sched_config \<Rightarrow> cache_plan_t \<Rightarrow> cache_plan_t" where
  "configure_hca_csa_cache_plan c plan =
     fold (\<lambda>ratio plan. if 64 \<le> ratio then plan\<lparr>cp_hca := ratio_spec c ratio\<rparr>
                        else plan\<lparr>cp_csa := ratio_spec c ratio\<rparr>)
       (unique_ratios (sc_compress_ratios c)) plan"

definition build_cache_plan :: "sched_config \<Rightarrow> cache_plan_t" where
  "build_cache_plan c =
     (let kv_lora_rank = int_or (sc_kv_lora_rank c) 0; qk_rope_head_dim = int_or (sc_qk_rope_head_dim c) 0
      in if has_hca_csa_cache (sc_compress_ratios c)
         then configure_hca_csa_cache_plan c hca_csa_cache_plan
         else if sc_arch c \<in> {''KimiK3ForConditionalGeneration'', ''Glm5NextForConditionalGeneration''}
         then (if sc_arch c = ''Glm5NextForConditionalGeneration'' then glm5_next_cache_plan else kimi_k3_cache_plan)
         else if has_gdn_component (sc_hf c) then qwen35_cache_plan
         else if sc_arch c \<in> {''Gemma4ForCausalLM'', ''Gemma4ForConditionalGeneration''} \<and> sc_enable_hisparse c
         then gqa_hisparse_cache_plan
         else if kv_lora_rank \<noteq> 0 \<or> qk_rope_head_dim \<noteq> 0
         then deepseek_mla_cache_plan (0 < or_else (sc_index_head_dim c) 0 \<and> \<not> sc_disable_nsa c) (sc_enable_hisparse c)
         else gqa_cache_plan)"

definition ensure_cache_plan :: "sched_config \<Rightarrow> cache_plan_t \<times> sched_config" where
  "ensure_cache_plan c =
     (case sc_cache_plan c of
        Some p \<Rightarrow> (p, c)
      | None \<Rightarrow> (build_cache_plan c, c\<lparr>sc_cache_plan := Some (build_cache_plan c)\<rparr>))"

subsection \<open>The scheduler configuration\<close>

definition scheduler_token_budget :: "sched_config \<Rightarrow> int res" where
  "scheduler_token_budget c =
     (let microbatch_tokens = sc_max_num_batched_tokens c; pp_size = max 1 (sc_pp c)
      in if pp_size = 1 then Inr microbatch_tokens
         else rbind
           (if 0 < sc_pp_prefill_scheduler_depth c then Inr (sc_pp_prefill_scheduler_depth c)
            else if microbatch_tokens = 0 then Inl ZeroDivisionError
            else (let prompt_microbatches = sc_max_model_len c div microbatch_tokens
                        + (if 0 < sc_max_model_len c mod microbatch_tokens then 1 else 0)
                  in Inr (min 64 (max pp_size prompt_microbatches)))) (\<lambda>scheduler_depth.
           Inr (min (sc_max_model_len c) (microbatch_tokens * scheduler_depth))))"

record rust_scheduler_config =
  rs_max_num_seqs :: int
  rs_max_num_batched_tokens :: int
  rs_max_model_len :: int
  rs_gdn_state_cache_slots :: int
  rs_routing_strategy :: string
  rs_cache_plan :: cache_plan_t

text \<open>\<open>strategies\<close>: the member names of the Rust enumeration; indexing it with another name raises.\<close>

definition build_scheduler_config ::
  "string list \<Rightarrow> sched_config \<Rightarrow> cache_plan_t option \<Rightarrow> rust_scheduler_config res" where
  "build_scheduler_config strategies c plan =
     (let p = (case plan of Some p \<Rightarrow> p | None \<Rightarrow> fst (ensure_cache_plan c))
      in rbind (scheduler_token_budget c) (\<lambda>budget.
         rbind (check (sc_routing_strategy c \<in> set strategies) KeyError) (\<lambda>_.
         Inr \<lparr>rs_max_num_seqs = sc_max_num_seqs c, rs_max_num_batched_tokens = budget,
              rs_max_model_len = sc_max_model_len c,
              rs_gdn_state_cache_slots = max 0 (sc_gdn_state_cache_slots c),
              rs_routing_strategy = sc_routing_strategy c, rs_cache_plan = p\<rparr>)))"

definition init_scheduler :: "string list \<Rightarrow> sched_config \<Rightarrow> rust_scheduler_config res" where
  "init_scheduler strategies c =
     build_scheduler_config strategies (snd (ensure_cache_plan c)) (Some (fst (ensure_cache_plan c)))"

subsection \<open>Plans\<close>

lemma flag_bit_less: "flag_bit f < 32"
  by (cases f) simp_all

lemma flag_bit_inj: "flag_bit f = flag_bit g \<longleftrightarrow> f = g"
  by (cases f; cases g) simp_all

lemma has_flag_bit: "has_flag p f \<longleftrightarrow> bit (cp_flags p) (flag_bit f)"
  by (simp add: has_flag_def cache_plan_flag_def bit_iff_and_push_bit_not_eq_0)

lemma bit_cache_plan_flag: "bit (cache_plan_flag g) (flag_bit f) \<longleftrightarrow> f = g"
  using flag_bit_less [of f] flag_bit_inj [of g f]
  by (auto simp: cache_plan_flag_def bit_exp_iff possible_bit_word)

lemma has_flag_cache_plan [simp]: "has_flag (cache_plan fs) f \<longleftrightarrow> f \<in> set fs"
proof -
  have "bit (fold (\<lambda>f raw. raw OR cache_plan_flag f) fs w) (flag_bit f) \<longleftrightarrow> bit w (flag_bit f) \<or> f \<in> set fs" for w
    by (induction fs arbitrary: w) (auto simp: bit_or_iff bit_cache_plan_flag)
  then show ?thesis by (simp add: has_flag_bit cache_plan_def)
qed

lemma configure_hca_csa_flags [simp]: "has_flag (configure_hca_csa_cache_plan c p) f \<longleftrightarrow> has_flag p f"
proof -
  have "cp_flags (fold (\<lambda>ratio plan. if 64 \<le> ratio then plan\<lparr>cp_hca := ratio_spec c ratio\<rparr>
                        else plan\<lparr>cp_csa := ratio_spec c ratio\<rparr>) rs q) = cp_flags q" for rs and q :: cache_plan_t
    by (induction rs arbitrary: q) simp_all
  then show ?thesis by (simp add: configure_hca_csa_cache_plan_def has_flag_def)
qed

lemmas plan_defs = gqa_cache_plan_def gqa_hisparse_cache_plan_def qwen35_cache_plan_def kimi_k3_cache_plan_def
  glm5_next_cache_plan_def hca_csa_cache_plan_def deepseek_mla_cache_plan_def

text \<open>The pages of a ratio, computed in three places: scheduler, allocator and published metadata.\<close>

definition ratio_overrides :: "sched_config \<Rightarrow> int \<rightharpoonup> int" where
  "ratio_overrides c =
     Map.empty(4 := (if 0 < sc_pool_pages_ratio4 c then Some (sc_pool_pages_ratio4 c) else None),
               128 := (if 0 < sc_pool_pages_ratio128 c then Some (sc_pool_pages_ratio128 c) else None))"

lemma ratio_spec_pages:
  "sp_num_pages (ratio_spec c ratio) =
     pool_pages (sc_max_num_seqs c) (sc_max_model_len c) (ratio_overrides c) ratio"
  "sp_max_blocks_per_seq (ratio_spec c ratio) = max_blocks_per_seq (sc_max_model_len c) ratio"
  by (simp_all add: ratio_spec_def pool_pages_def max_blocks_per_seq_def ratio_overrides_def dict_get_def
      DSV4_COMPRESSED_PAGE_SIZE_def Let_def)

lemma configure_two_ratios:
  assumes "unique_ratios (sc_compress_ratios c) = [4, 128]"
  shows "cp_csa (configure_hca_csa_cache_plan c p) = ratio_spec c 4"
    "cp_hca (configure_hca_csa_cache_plan c p) = ratio_spec c 128"
  by (simp_all add: configure_hca_csa_cache_plan_def assms)

text \<open>
  Scheduler, allocator and peers agree on the compressed pools. For a model with compression ratios 4
  and 128, the pages and the per-sequence block limit of the scheduler's plan are the ones the worker
  allocates and the ones the engine publishes to its peers, with and without configured pool sizes.
\<close>

lemma dsv4_pool_sizes_agree:
  assumes "unique_ratios (sc_compress_ratios c) = [4, 128]"
    and "pc_max_model_len pc = sc_max_model_len c" "pc_max_num_seqs pc = sc_max_num_seqs c"
    and "pc_pool_pages_ratio4 pc = sc_pool_pages_ratio4 c" "pc_pool_pages_ratio128 pc = sc_pool_pages_ratio128 c"
  shows "sp_num_pages (cp_csa (build_cache_plan c)) =
           pool_pages (sc_max_num_seqs c) (sc_max_model_len c) (ratio_overrides c) 4 \<and>
         sp_num_pages (cp_hca (build_cache_plan c)) =
           pool_pages (sc_max_num_seqs c) (sc_max_model_len c) (ratio_overrides c) 128 \<and>
         published_pool_pages pc 4 = sp_num_pages (cp_csa (build_cache_plan c)) \<and>
         published_pool_pages pc 128 = sp_num_pages (cp_hca (build_cache_plan c)) \<and>
         sp_max_blocks_per_seq (cp_csa (build_cache_plan c)) = max_blocks_per_seq (sc_max_model_len c) 4 \<and>
         sp_max_blocks_per_seq (cp_hca (build_cache_plan c)) = max_blocks_per_seq (sc_max_model_len c) 128"
proof -
  have "set (unique_ratios (sc_compress_ratios c)) = {4, 128}" using assms(1) by simp
  then have "has_hca_csa_cache (sc_compress_ratios c)"
    by (auto simp: has_hca_csa_cache_def unique_ratios_def)
  then have p: "build_cache_plan c = configure_hca_csa_cache_plan c hca_csa_cache_plan"
    by (simp add: build_cache_plan_def)
  have "published_pool_pages pc r = sp_num_pages (ratio_spec c r)" for r
    using assms(2-5) by (simp add: published_pool_pages_def ratio_spec_def Let_def)
  then show ?thesis
    unfolding p configure_two_ratios [OF assms(1)] by (simp add: ratio_spec_pages)
qed

definition dsv4_sched :: sched_config where
  "dsv4_sched = \<lparr>sc_hf = HfConfig [] [] True [], sc_architectures = [''DeepseekV4ForCausalLM''],
     sc_compress_ratios = [0, 4, 128, 4, 128], sc_kv_lora_rank = None, sc_qk_rope_head_dim = Some 64,
     sc_index_head_dim = Some 128, sc_disable_nsa = False, sc_enable_hisparse = False, sc_max_num_seqs = 8,
     sc_max_model_len = 1024, sc_max_num_batched_tokens = 256, sc_pp = 2, sc_pp_prefill_scheduler_depth = 0,
     sc_pool_pages_ratio4 = 0, sc_pool_pages_ratio128 = 7, sc_gdn_state_cache_slots = 0,
     sc_routing_strategy = ''RoundRobin'', sc_cache_plan = None\<rparr>"

lemma dsv4_pool_sizes_agree_witness:
  "published_pool_pages (sample_publisher\<lparr>pc_pool_pages_ratio128 := 7\<rparr>) 4 =
     sp_num_pages (cp_csa (build_cache_plan dsv4_sched)) \<and>
   sp_num_pages (cp_csa (build_cache_plan dsv4_sched)) = 1024"
proof -
  have u: "unique_ratios (sc_compress_ratios dsv4_sched) = [4, 128]"
    by (simp add: dsv4_sched_def unique_ratios_def)
  from dsv4_pool_sizes_agree [OF this, of "sample_publisher\<lparr>pc_pool_pages_ratio128 := 7\<rparr>"] show ?thesis
    by (simp add: dsv4_sched_def sample_publisher_def pool_pages_def max_blocks_per_seq_def ratio_overrides_def
        dict_get_def DSV4_COMPRESSED_PAGE_SIZE_def)
qed

subsection \<open>The scheduler window\<close>

text \<open>
  The window of a pipeline engine. With the default depth the token budget of a step is the longest
  prompt, capped at 64 microbatches, whatever the number of stages: every prompt of at most 64
  microbatches is admitted in one step, and no budget exceeds the model length. A configured depth is used
  as given, and a single-stage engine gets one microbatch.
\<close>

lemma scheduler_window:
  assumes "0 < sc_max_num_batched_tokens c" "0 < sc_max_model_len c"
  shows "scheduler_token_budget c = Inr
           (if sc_pp c \<le> 1 then sc_max_num_batched_tokens c
            else if 0 < sc_pp_prefill_scheduler_depth c
            then min (sc_max_model_len c) (sc_max_num_batched_tokens c * sc_pp_prefill_scheduler_depth c)
            else min (sc_max_model_len c) (sc_max_num_batched_tokens c * 64))"
proof -
  let ?m = "sc_max_num_batched_tokens c" and ?n = "sc_max_model_len c"
  let ?k = "?n div ?m + (if 0 < ?n mod ?m then 1 else 0)"
  let ?d = "min 64 (max (max 1 (sc_pp c)) ?k)"
  have dm: "?n = ?m * (?n div ?m) + ?n mod ?m" by simp
  have r: "0 \<le> ?n mod ?m" "?n mod ?m < ?m" using assms(1) by simp_all
  have cover: "?n \<le> ?m * ?k"
  proof (cases "0 < ?n mod ?m")
    case True
    then have "?m * ?k = ?m * (?n div ?m) + ?m" by (simp add: distrib_left)
    then show ?thesis using dm r by linarith
  next
    case False
    then show ?thesis using dm r by simp
  qed
  have "min ?n (?m * ?d) = min ?n (?m * 64)"
  proof (cases "?k \<le> 64")
    case True
    then have "?k \<le> ?d" by simp
    then have "?m * ?k \<le> ?m * ?d" "?m * ?k \<le> ?m * 64" using assms(1) True by (intro mult_left_mono; simp)+
    then show ?thesis using cover by linarith
  next
    case False
    then have "?d = 64" by simp
    then show ?thesis by simp
  qed
  then have default: "scheduler_token_budget c = Inr (min ?n (?m * 64))"
    if "\<not> sc_pp c \<le> 1" "\<not> 0 < sc_pp_prefill_scheduler_depth c"
    using that assms(1) by (simp only: scheduler_token_budget_def Let_def) simp
  show ?thesis
  proof (cases "sc_pp c \<le> 1")
    case True
    then show ?thesis by (simp add: scheduler_token_budget_def Let_def max_def)
  next
    case False
    then show ?thesis using default by (simp add: scheduler_token_budget_def Let_def max_def)
  qed
qed

lemma scheduler_window_witness:
  "scheduler_token_budget dsv4_sched = Inr 1024"
  using scheduler_window [of dsv4_sched] by (simp add: dsv4_sched_def)

subsection \<open>Nested configurations\<close>

text \<open>The configurations the walk reaches: through declared and conventional attribute names only.\<close>

inductive reaches :: "hf_config \<Rightarrow> hf_config \<Rightarrow> bool" where
  here: "reaches c c"
| down: "n \<in> set (visited_names (hf_sub_names c)) \<Longrightarrow> map_of (hf_children c) n = Some d \<Longrightarrow>
         hf_has_to_dict d \<or> hf_layer_types d \<noteq> [] \<Longrightarrow> reaches d e \<Longrightarrow> reaches c e"

inductive_cases reachesE: "reaches c e"

lemma map_of_map_snd_pair: "map_of (map (\<lambda>(n, c). (n, f c)) xs) n = map_option f (map_of xs n)"
  by (induction xs) auto

lemma has_layer_type_step:
  "has_layer_type lt c \<longleftrightarrow> lt \<in> set (hf_layer_types c) \<or>
     (\<exists>n d. n \<in> set (visited_names (hf_sub_names c)) \<and> map_of (hf_children c) n = Some d \<and>
        (hf_has_to_dict d \<or> hf_layer_types d \<noteq> []) \<and> has_layer_type lt d)"
  by (cases c) (auto simp: list_ex_iff map_of_map_snd_pair)

lemma child_smaller: "map_of (hf_children c) n = Some d \<Longrightarrow> size d < size c"
  by (cases c) (auto dest!: map_of_SomeD size_list_estimation' [where f = "size_prod (\<lambda>_. 0) size" and y = "size d"])

text \<open>
  The search for a layer type is complete and sound: it answers yes exactly when the configuration
  itself, or one it reaches through its sub-configuration attributes, declares that layer type.
\<close>

lemma has_layer_type_reaches:
  "has_layer_type lt c \<longleftrightarrow> (\<exists>d. reaches c d \<and> lt \<in> set (hf_layer_types d))"
proof
  show "has_layer_type lt c \<Longrightarrow> \<exists>d. reaches c d \<and> lt \<in> set (hf_layer_types d)"
  proof (induction "size c" arbitrary: c rule: less_induct)
    case less
    then show ?case
      using has_layer_type_step [of lt c] child_smaller by (metis here down)
  qed
  assume "\<exists>d. reaches c d \<and> lt \<in> set (hf_layer_types d)"
  then obtain d where "reaches c d" "lt \<in> set (hf_layer_types d)" by blast
  then show "has_layer_type lt c"
  proof (induction rule: reaches.induct)
    case (here c)
    then show ?case by (cases c) simp
  next
    case (down n c d e)
    then show ?case using has_layer_type_step by blast
  qed
qed

subsection \<open>The plan a model gets\<close>

lemma has_hca_csa_cache_iff: "has_hca_csa_cache ratios \<longleftrightarrow> {4, 128} \<subseteq> set ratios"
  by (auto simp: has_hca_csa_cache_def)

text \<open>
  C37: the scheduler gets the caches the model needs, when the configuration carries no plan of its own. A model with both compression ratios gets the pair of compressed
  caches; recurrent state is planned for the hybrid architectures and for every other configuration that declares a linear-attention
  layer, in itself or in a configuration it reaches; latent KV is planned for the hybrid architectures and for models with a latent
  or rotary rank that have no linear layer and no sliding-window hot tier; the indexer and the hot tier exactly where the
  configuration asks for them and the backend has one; everything else gets a GQA cache. So one paged backend is planned, and it is
  the one \<open>resolve_cache_backend\<close> gives for the mode the Rust side derives from the flags. For compression ratios 4 and 128 the
  planned pages and blocks per sequence are the ones the worker allocates.
\<close>

theorem cache_plan_serves_model:
  assumes "init_scheduler strategies c = Inr rc" and "sc_cache_plan c = None"
  shows "let p = rs_cache_plan rc; compressed = {4, 128} \<subseteq> set (sc_compress_ratios c);
             hybrid = sc_arch c \<in> {''KimiK3ForConditionalGeneration'', ''Glm5NextForConditionalGeneration''};
             linear = (\<exists>d. reaches (sc_hf c) d \<and> ''linear_attention'' \<in> set (hf_layer_types d));
             window = (sc_arch c \<in> {''Gemma4ForCausalLM'', ''Gemma4ForConditionalGeneration''} \<and> sc_enable_hisparse c);
             latent = (int_or (sc_kv_lora_rank c) 0 \<noteq> 0 \<or> int_or (sc_qk_rope_head_dim c) 0 \<noteq> 0)
         in has_flag p FlagHca = compressed \<and> has_flag p FlagCsa = compressed \<and>
            has_flag p FlagGdn = (\<not> compressed \<and> (hybrid \<or> linear)) \<and>
            has_flag p FlagMla = (\<not> compressed \<and> (hybrid \<or> latent \<and> \<not> linear \<and> \<not> window)) \<and>
            has_flag p FlagGqa = (\<not> has_flag p FlagHca \<and> \<not> has_flag p FlagMla) \<and>
            has_flag p FlagIndexer = (\<not> compressed \<and> (sc_arch c = ''Glm5NextForConditionalGeneration'' \<or>
              \<not> hybrid \<and> has_flag p FlagMla \<and> 0 < or_else (sc_index_head_dim c) 0 \<and> \<not> sc_disable_nsa c)) \<and>
            has_flag p FlagHisparse = (\<not> compressed \<and> \<not> hybrid \<and> \<not> linear \<and> sc_enable_hisparse c \<and> (window \<or> latent)) \<and>
            resolve_cache_backend (plan_cache_mode p) =
              Inr (if compressed then DSV4 else if has_flag p FlagMla then MLA else GQA) \<and>
            (unique_ratios (sc_compress_ratios c) = [4, 128] \<longrightarrow>
              (\<forall>(ratio, spec)\<in>{(4, cp_csa p), (128, cp_hca p)}.
                 sp_compression_ratio spec = ratio \<and>
                 sp_num_pages spec = pool_pages (sc_max_num_seqs c) (sc_max_model_len c) (ratio_overrides c) ratio \<and>
                 sp_max_blocks_per_seq spec = max_blocks_per_seq (sc_max_model_len c) ratio))"
proof -
  have p: "rs_cache_plan rc = build_cache_plan c"
    using assms by (auto simp: init_scheduler_def ensure_cache_plan_def build_scheduler_config_def Let_def res_simps)
  have two: "{4, 128} \<subseteq> set (sc_compress_ratios c)" if "unique_ratios (sc_compress_ratios c) = [4, 128]"
    using that by (auto simp: unique_ratios_def dest!: arg_cong [of _ _ set])
  have spec: "sp_compression_ratio (ratio_spec c r) = r" for r by (simp add: ratio_spec_def Let_def)
  have pages: "\<forall>(ratio, spec)\<in>{(4, cp_csa (build_cache_plan c)), (128, cp_hca (build_cache_plan c))}.
      sp_compression_ratio spec = ratio \<and>
      sp_num_pages spec = pool_pages (sc_max_num_seqs c) (sc_max_model_len c) (ratio_overrides c) ratio \<and>
      sp_max_blocks_per_seq spec = max_blocks_per_seq (sc_max_model_len c) ratio"
    if u: "unique_ratios (sc_compress_ratios c) = [4, 128]"
  proof -
    have "build_cache_plan c = configure_hca_csa_cache_plan c hca_csa_cache_plan"
      using two [OF u] by (simp add: build_cache_plan_def has_hca_csa_cache_iff)
    then show ?thesis by (simp add: configure_two_ratios [OF u] spec ratio_spec_pages)
  qed
  have linear: "has_gdn_component (sc_hf c) \<longleftrightarrow> (\<exists>d. reaches (sc_hf c) d \<and> ''linear_attention'' \<in> set (hf_layer_types d))"
    by (simp add: has_gdn_component_def has_layer_type_reaches)
  show ?thesis
    unfolding p Let_def linear [symmetric] has_hca_csa_cache_iff [symmetric]
    by (intro conjI impI pages) (auto simp: build_cache_plan_def plan_defs plan_cache_mode_def resolve_cache_backend_def)
qed

theorem cache_plan_serves_model_witness:
  "\<exists>rc. init_scheduler [''RoundRobin''] dsv4_sched = Inr rc \<and> has_flag (rs_cache_plan rc) FlagHca \<and>
     \<not> has_flag (rs_cache_plan rc) FlagMla \<and> plan_cache_mode (rs_cache_plan rc) = ''dsv4'' \<and>
     sp_num_pages (cp_csa (rs_cache_plan rc)) = 1024 \<and> sp_num_pages (cp_hca (rs_cache_plan rc)) = 7"
proof -
  have u: "unique_ratios (sc_compress_ratios dsv4_sched) = [4, 128]" "{4, 128} \<subseteq> set (sc_compress_ratios dsv4_sched)"
    by (simp_all add: dsv4_sched_def unique_ratios_def)
  obtain rc where rc: "init_scheduler [''RoundRobin''] dsv4_sched = Inr rc"
    by (simp add: init_scheduler_def build_scheduler_config_def ensure_cache_plan_def scheduler_token_budget_def dsv4_sched_def)
  have "sc_cache_plan dsv4_sched = None" by (simp add: dsv4_sched_def)
  from cache_plan_serves_model [OF rc this] u
  have "has_flag (rs_cache_plan rc) FlagHca" "\<not> has_flag (rs_cache_plan rc) FlagMla"
    "sp_num_pages (cp_csa (rs_cache_plan rc)) =
       pool_pages (sc_max_num_seqs dsv4_sched) (sc_max_model_len dsv4_sched) (ratio_overrides dsv4_sched) 4"
    "sp_num_pages (cp_hca (rs_cache_plan rc)) =
       pool_pages (sc_max_num_seqs dsv4_sched) (sc_max_model_len dsv4_sched) (ratio_overrides dsv4_sched) 128"
    unfolding Let_def by simp_all
  then show ?thesis using rc
    by (simp add: plan_cache_mode_def dsv4_sched_def pool_pages_def max_blocks_per_seq_def ratio_overrides_def dict_get_def DSV4_COMPRESSED_PAGE_SIZE_def)
qed

end
