(* ===== verification/Eplb.thy ===== *)
theory Eplb
  imports Prelude Complex_Main
begin

section \<open>Expert-parallel load balancing (\<open>runtime/layers/backends/experts/eplb.py\<close>)\<close>

text \<open>
  Placement of replicated experts on GPUs and the routing of tokens to replicas. Every layer is
  balanced on its own, so the model works on one row of the load statistics. Loads are real numbers:
  rounding of the 32-bit arithmetic is not modelled. What torch leaves open is a parameter with its
  documented law: the order a descending sort returns (ties in any order), the position of a maximum
  (any of them), and the random choices of the dispatch table.
\<close>

subsection \<open>Packing\<close>

record pack_state =
  pk_weights :: "real list"
  pk_items :: "nat list"
  pk_index :: "int list"
  pk_rank :: "int list"

definition pack_step :: "real list \<Rightarrow> nat \<Rightarrow> nat \<Rightarrow> nat \<Rightarrow> pack_state \<Rightarrow> pack_state res" where
  "pack_step weight num_packs groups_per_pack g st =
     (let open_packs = filter (\<lambda>p. pk_items st ! p < groups_per_pack) [0..<num_packs]
      in if open_packs = [] then Inl (ValueError ''min() arg is an empty sequence'')
         else (let pack = arg_min_list (\<lambda>p. pk_weights st ! p) open_packs
               in Inr (st\<lparr>pk_index := (pk_index st)[g := int pack],
                          pk_rank := (pk_rank st)[g := int (pk_items st ! pack)],
                          pk_weights := (pk_weights st)[pack := pk_weights st ! pack + weight ! g],
                          pk_items := (pk_items st)[pack := pk_items st ! pack + 1]\<rparr>)))"

definition empty_packs :: "nat \<Rightarrow> nat \<Rightarrow> pack_state" where
  "empty_packs num_groups num_packs =
     \<lparr>pk_weights = replicate num_packs 0, pk_items = replicate num_packs 0,
      pk_index = replicate num_groups (- 1), pk_rank = replicate num_groups (- 1)\<rparr>"

definition balanced_packing ::
  "(real list \<Rightarrow> nat list) \<Rightarrow> real list \<Rightarrow> nat \<Rightarrow> (int list \<times> int list) res" where
  "balanced_packing sort_desc weight num_packs =
     (let num_groups = length weight
      in if num_packs = 0 then Inl ZeroDivisionError
         else rbind (check (num_groups mod num_packs = 0) AssertionError) (\<lambda>_.
           let groups_per_pack = num_groups div num_packs
           in if groups_per_pack = 1
              then Inr (map int [0..<num_groups], replicate num_groups 0)
              else rbind (fold_res (pack_step weight num_packs groups_per_pack) (sort_desc weight)
                            (empty_packs num_groups num_packs)) (\<lambda>st.
                   Inr (pk_index st, pk_rank st))))"

text \<open>A descending argsort returns every index once.\<close>

definition sorts_indices :: "(real list \<Rightarrow> nat list) \<Rightarrow> bool" where
  "sorts_indices f \<longleftrightarrow> (\<forall>xs. distinct (f xs) \<and> set (f xs) = {..<length xs} \<and>
     sorted_wrt (\<lambda>i j. xs ! j \<le> xs ! i) (f xs))"

subsection \<open>Replication\<close>

text \<open>\<open>(phy2log, rank, logcnt)\<close>\<close>

type_synonym replicas = "nat list \<times> nat list \<times> nat list"

definition replicate_step :: "(real list \<Rightarrow> nat) \<Rightarrow> real list \<Rightarrow> nat \<Rightarrow> replicas \<Rightarrow> replicas" where
  "replicate_step argmax weight i st =
     (case st of (phy2log, rank, logcnt) \<Rightarrow>
       (let r = argmax (map2 (\<lambda>w c. w / real c) weight logcnt)
        in (phy2log[i := r], rank[i := logcnt ! r], logcnt[r := logcnt ! r + 1])))"

definition replicate_experts :: "(real list \<Rightarrow> nat) \<Rightarrow> real list \<Rightarrow> nat \<Rightarrow> replicas res" where
  "replicate_experts argmax weight num_phy =
     (let num_log = length weight
      in rbind (check (num_log \<le> num_phy) AssertionError) (\<lambda>_.
         rbind (check (num_log \<noteq> 0 \<or> num_phy = 0) IndexError) (\<lambda>_.
         Inr (fold (replicate_step argmax weight) [num_log..<num_phy]
                ([0..<num_phy], replicate num_phy 0, replicate num_log 1)))))"

definition finds_max :: "(real list \<Rightarrow> nat) \<Rightarrow> bool" where
  "finds_max f \<longleftrightarrow> (\<forall>xs. xs \<noteq> [] \<longrightarrow> f xs < length xs \<and> (\<forall>i<length xs. xs ! i \<le> xs ! f xs))"

subsection \<open>Hierarchical placement\<close>

definition chunks :: "nat \<Rightarrow> nat \<Rightarrow> 'a list \<Rightarrow> 'a list list" where
  "chunks n k xs = map (\<lambda>i. take k (drop (i * k) xs)) [0..<n]"

text \<open>\<open>inv.scatter_(1, perm, arange)\<close>; every entry is written when \<open>perm\<close> is a permutation.\<close>

definition inverse_perm :: "nat list \<Rightarrow> nat list" where
  "inverse_perm perm = fold (\<lambda>(j, p) inv. inv[p := j]) (zip [0..<length perm] perm) (replicate (length perm) 0)"

definition gather :: "'a list \<Rightarrow> nat list \<Rightarrow> 'a list" where
  "gather xs idx = map (\<lambda>i. xs ! i) idx"

text \<open>Slot of every item when packs are laid out one after the other.\<close>

definition packed_position :: "nat \<Rightarrow> int list \<times> int list \<Rightarrow> nat list" where
  "packed_position per_pack pr = map2 (\<lambda>p r. nat p * per_pack + nat r) (fst pr) (snd pr)"

definition place_node ::
  "(real list \<Rightarrow> nat list) \<Rightarrow> (real list \<Rightarrow> nat) \<Rightarrow> nat \<Rightarrow> nat \<Rightarrow> nat \<Rightarrow> real list \<Rightarrow> replicas res" where
  "place_node sort_desc argmax num_phy num_packs per_gpu tokens =
     rbind (replicate_experts argmax tokens num_phy) (\<lambda>(phy2mlog, phyrank, mlogcnt).
     rbind (balanced_packing sort_desc
              (gather (map2 (\<lambda>w c. w / real c) tokens mlogcnt) phy2mlog) num_packs) (\<lambda>pr.
     (let pphy2phy = inverse_perm (packed_position per_gpu pr)
      in Inr (gather phy2mlog pphy2phy, gather phyrank pphy2phy, mlogcnt))))"

definition group_positions :: "nat \<Rightarrow> nat \<Rightarrow> nat list \<Rightarrow> nat list" where
  "group_positions num_groups group_size slots =
     concat (map (\<lambda>g. map (\<lambda>j. slots ! g * group_size + j) [0..<group_size]) [0..<num_groups])"

definition rebalance_experts_hierarchical ::
  "(real list \<Rightarrow> nat list) \<Rightarrow> (real list \<Rightarrow> nat) \<Rightarrow> real list \<Rightarrow> nat \<Rightarrow> nat \<Rightarrow> nat \<Rightarrow> nat \<Rightarrow> replicas res" where
  "rebalance_experts_hierarchical sort_desc argmax weight num_phy num_groups num_nodes num_gpus =
     (let n = length weight in
      if num_groups = 0 \<or> num_nodes = 0 \<or> num_gpus = 0 then Inl ZeroDivisionError
      else
        rbind (check (n mod num_groups = 0) AssertionError) (\<lambda>_.
        rbind (check (num_groups mod num_nodes = 0) AssertionError) (\<lambda>_.
        rbind (check (num_gpus mod num_nodes = 0) AssertionError) (\<lambda>_.
        rbind (check (num_phy mod num_gpus = 0) AssertionError) (\<lambda>_.
        let group_size = n div num_groups; per_node = n div num_nodes
        in rbind (balanced_packing sort_desc (map sum_list (chunks num_groups group_size weight)) num_nodes) (\<lambda>pr.
           let log2mlog = group_positions num_groups group_size (packed_position (num_groups div num_nodes) pr);
               mlog2log = inverse_perm log2mlog
           in rbind (mapr (place_node sort_desc argmax (num_phy div num_nodes) (num_gpus div num_nodes)
                             (num_phy div num_gpus)) (chunks num_nodes per_node (gather weight mlog2log))) (\<lambda>nodes.
              Inr (concat (map (\<lambda>(node, (p2m, _, _)). map (\<lambda>m. mlog2log ! (m + node * per_node)) p2m)
                     (zip [0..<num_nodes] nodes)),
                   concat (map (\<lambda>(_, rank, _). rank) nodes),
                   gather (concat (map (\<lambda>(_, _, cnt). cnt) nodes)) log2mlog))))))))"

subsection \<open>The two-way expert map\<close>

definition scatter_log2phy :: "nat \<Rightarrow> nat \<Rightarrow> nat list \<Rightarrow> nat list \<Rightarrow> int list" where
  "scatter_log2phy num_log maxcnt phy2log phyrank =
     fold (\<lambda>(k, l, r) flat. flat[l * maxcnt + r := int k]) (zip [0..<length phy2log] (zip phy2log phyrank))
       (replicate (num_log * maxcnt) (- 1))"

definition place_layer ::
  "(real list \<Rightarrow> nat list) \<Rightarrow> (real list \<Rightarrow> nat) \<Rightarrow> nat \<Rightarrow> nat \<Rightarrow> nat \<Rightarrow> nat \<Rightarrow> real list \<Rightarrow> replicas res" where
  "place_layer sort_desc argmax num_replicas num_groups num_nodes num_gpus weight =
     (if num_nodes = 0 then Inl ZeroDivisionError
      else if num_groups mod num_nodes = 0
      then rebalance_experts_hierarchical sort_desc argmax weight num_replicas num_groups num_nodes num_gpus
      else replicate_experts argmax weight num_replicas)"

text \<open>The result has one entry per layer; the width of the inverse table is the largest count of any layer.\<close>

definition rebalance_experts ::
  "(real list \<Rightarrow> nat list) \<Rightarrow> (real list \<Rightarrow> nat) \<Rightarrow> real list list \<Rightarrow> nat \<Rightarrow> nat \<Rightarrow> nat \<Rightarrow> nat
   \<Rightarrow> (nat list \<times> int list list \<times> nat list) list res" where
  "rebalance_experts sort_desc argmax weight num_replicas num_groups num_nodes num_gpus =
     rbind (mapr (place_layer sort_desc argmax num_replicas num_groups num_nodes num_gpus) weight) (\<lambda>placed.
     let counts = concat (map (\<lambda>(_, _, logcnt). logcnt) placed); maxlogcnt = Max (set counts)
     in if counts = [] then Inl (RuntimeErr ''max() of an empty tensor'')
        else Inr (map (\<lambda>(phy2log, phyrank, logcnt).
               (phy2log,
                chunks (length logcnt) maxlogcnt (scatter_log2phy (length logcnt) maxlogcnt phy2log phyrank),
                logcnt)) placed))"

subsection \<open>Packing fills every pack\<close>

definition pack_inv :: "nat \<Rightarrow> nat \<Rightarrow> nat \<Rightarrow> nat list \<Rightarrow> pack_state \<Rightarrow> bool" where
  "pack_inv n packs cap done st \<longleftrightarrow>
     length (pk_items st) = packs \<and> length (pk_weights st) = packs \<and>
     length (pk_index st) = n \<and> length (pk_rank st) = n \<and>
     (\<forall>p<packs. pk_items st ! p \<le> cap) \<and> sum_list (pk_items st) = length done \<and>
     (\<forall>g\<in>set done. 0 \<le> pk_index st ! g \<and> 0 \<le> pk_rank st ! g) \<and>
     bij_betw (\<lambda>g. (nat (pk_index st ! g), nat (pk_rank st ! g))) (set done)
       (SIGMA p:{..<packs}. {..<pk_items st ! p})"

lemma pack_inv_empty: "pack_inv n packs cap [] (empty_packs n packs)"
  by (auto simp: pack_inv_def empty_packs_def sum_list_replicate bij_betw_def)

lemma pack_inv_sum: "pack_inv n packs cap done st \<Longrightarrow> (\<Sum>p<packs. pk_items st ! p) = length done"
  by (auto simp: pack_inv_def sum_list_sum_nth atLeast0LessThan)

lemma sigma_grow:
  assumes "p < packs" "length items = packs"
  shows "(SIGMA q:{..<packs}. {..<items[p := items ! p + 1] ! q}) =
    insert (p, items ! p) (SIGMA q:{..<packs}. {..<(items ! q :: nat)})"
  using assms by (auto simp: nth_list_update split: if_splits)

lemma bij_betw_insert:
  assumes "bij_betw f A B" "a \<notin> A" "f' a \<notin> B" "\<And>x. x \<in> A \<Longrightarrow> f' x = f x"
  shows "bij_betw f' (insert a A) (insert (f' a) B)"
proof -
  have "bij_betw f' A B" using assms(1,4) by (simp cong: bij_betw_cong)
  then show ?thesis using notIn_Un_bij_betw3 [of a A f' B] assms(2,3) by simp
qed

lemma pack_step_inv:
  assumes inv: "pack_inv n packs cap done st" and g: "g < n" "g \<notin> set done"
    and room: "length done < packs * cap"
  shows "\<exists>st'. pack_step w packs cap g st = Inr st' \<and> pack_inv n packs cap (done @ [g]) st'"
proof -
  let ?open = "filter (\<lambda>p. pk_items st ! p < cap) [0..<packs]"
  have len: "length (pk_items st) = packs" using inv by (simp add: pack_inv_def)
  have "?open \<noteq> []"
  proof
    assume "?open = []"
    then have "\<forall>p<packs. cap \<le> pk_items st ! p" by (auto simp: filter_empty_conv not_less)
    then have "(\<Sum>p<packs. cap) \<le> (\<Sum>p<packs. pk_items st ! p)" by (intro sum_mono) simp
    then show False using pack_inv_sum [OF inv] room by simp
  qed
  moreover define p where "p = arg_min_list (\<lambda>p. pk_weights st ! p) ?open"
  ultimately have p: "p < packs" "pk_items st ! p < cap" using arg_min_list_in [of ?open] by auto
  let ?st = "st\<lparr>pk_index := (pk_index st)[g := int p], pk_rank := (pk_rank st)[g := int (pk_items st ! p)],
      pk_weights := (pk_weights st)[p := pk_weights st ! p + w ! g], pk_items := (pk_items st)[p := pk_items st ! p + 1]\<rparr>"
  have "pack_step w packs cap g st = Inr ?st"
    using \<open>?open \<noteq> []\<close> by (simp add: pack_step_def Let_def p_def)
  moreover have "pack_inv n packs cap (done @ [g]) ?st"
    unfolding pack_inv_def
  proof (intro conjI)
    let ?f = "\<lambda>h. (nat (pk_index ?st ! h), nat (pk_rank ?st ! h))"
    have at: "?f g = (p, pk_items st ! p)" using inv g by (simp add: pack_inv_def)
    have "bij_betw ?f (insert g (set done)) (insert (?f g) (SIGMA p:{..<packs}. {..<pk_items st ! p}))"
      by (rule bij_betw_insert [where f = "\<lambda>g. (nat (pk_index st ! g), nat (pk_rank st ! g))"])
        (use inv g at in \<open>auto simp: pack_inv_def nth_list_update\<close>)
    then show "bij_betw ?f (set (done @ [g])) (SIGMA q:{..<packs}. {..<pk_items ?st ! q})"
      using sigma_grow [OF p(1) len] unfolding at by simp
    show "sum_list (pk_items ?st) = length (done @ [g])"
      using inv p(1) by (simp add: pack_inv_def sum_list_update)
  qed (use inv p g in \<open>auto simp: pack_inv_def nth_list_update\<close>)
  ultimately show ?thesis by blast
qed

lemma pack_fold_inv:
  assumes "pack_inv n packs cap done st" "distinct (done @ gs)" "set gs \<subseteq> {..<n}"
    and "length done + length gs \<le> packs * cap"
  shows "\<exists>st'. fold_res (pack_step w packs cap) gs st = Inr st' \<and> pack_inv n packs cap (done @ gs) st'"
  using assms
proof (induction gs arbitrary: "done" st)
  case (Cons g gs)
  have "\<exists>st'. pack_step w packs cap g st = Inr st' \<and> pack_inv n packs cap (done @ [g]) st'"
    using Cons.prems by (intro pack_step_inv) auto
  then obtain st' where st': "pack_step w packs cap g st = Inr st'" "pack_inv n packs cap (done @ [g]) st'" by blast
  then show ?case using Cons.IH [OF st'(2)] Cons.prems by auto
qed simp

lemma full_packs:
  assumes "pack_inv n packs cap done st" "length done = packs * cap" "p < packs"
  shows "pk_items st ! p = cap"
proof (rule ccontr)
  assume "pk_items st ! p \<noteq> cap"
  then have "(\<Sum>p<packs. pk_items st ! p) < (\<Sum>p<packs. cap)"
    using assms by (intro sum_strict_mono_ex1) (auto simp: pack_inv_def intro!: bexI [of _ p])
  then show False using pack_inv_sum [OF assms(1)] assms(2) by simp
qed

text \<open>The pack and the rank of every item, as a bijection onto the places of the packs.\<close>

definition fills_packs :: "nat \<Rightarrow> nat \<Rightarrow> int list \<times> int list \<Rightarrow> bool" where
  "fills_packs packs cap pr \<longleftrightarrow>
     length (fst pr) = packs * cap \<and> length (snd pr) = packs * cap \<and>
     (\<forall>g<packs * cap. 0 \<le> fst pr ! g \<and> 0 \<le> snd pr ! g) \<and>
     bij_betw (\<lambda>g. (nat (fst pr ! g), nat (snd pr ! g))) {..<packs * cap} ({..<packs} \<times> {..<cap})"

text \<open>
  Balanced packing never fails on a divisible number of items and fills every pack exactly: each
  item gets one pack and one rank, and every (pack, rank) place holds exactly one item, for any loads and
  any order the sort returns for ties.
\<close>

lemma balanced_packing_fills:
  assumes "sorts_indices sort_desc" "0 < packs" "length w = packs * cap"
  shows "\<exists>pr. balanced_packing sort_desc w packs = Inr pr \<and> fills_packs packs cap pr"
proof (cases "cap = 1")
  case True
  have "bij_betw (\<lambda>g. (nat (map int [0..<packs] ! g), nat (replicate packs (0::int) ! g))) {..<packs} ({..<packs} \<times> {..<1})"
    by (rule bij_betw_byWitness [where f' = fst]) auto
  then show ?thesis
    using assms True by (simp add: balanced_packing_def fills_packs_def Let_def)
next
  case False
  have order: "distinct (sort_desc w)" "set (sort_desc w) = {..<length w}"
    using assms(1) by (simp_all add: sorts_indices_def)
  then have "length (sort_desc w) = packs * cap" using assms(3) by (metis card_lessThan distinct_card)
  then obtain st where st: "fold_res (pack_step w packs cap) (sort_desc w) (empty_packs (packs * cap) packs) = Inr st"
    "pack_inv (packs * cap) packs cap (sort_desc w) st"
    using pack_fold_inv [OF pack_inv_empty, of "sort_desc w" "packs * cap" packs cap w] order assms(3) by auto
  have "(SIGMA p:{..<packs}. {..<pk_items st ! p}) = {..<packs} \<times> {..<cap}"
    using full_packs [OF st(2)] \<open>length (sort_desc w) = packs * cap\<close> by (intro Sigma_cong) auto
  then have "fills_packs packs cap (pk_index st, pk_rank st)"
    using st(2) order assms(3) by (simp add: pack_inv_def fills_packs_def)
  then show ?thesis
    using st(1) assms False by (simp add: balanced_packing_def Let_def)
qed

lemma fills_packs_position:
  assumes "fills_packs packs cap pr"
  shows "bij_betw (\<lambda>g. packed_position cap pr ! g) {..<packs * cap} {..<packs * cap}"
    and "length (packed_position cap pr) = packs * cap"
proof -
  let ?f = "\<lambda>g. (nat (fst pr ! g), nat (snd pr ! g))"
  have row: "bij_betw (\<lambda>(p, r). p * cap + r) ({..<packs} \<times> {..<cap}) {..<packs * cap}"
  proof (rule bij_betw_byWitness [where f' = "\<lambda>k. (k div cap, k mod cap)"])
    show "(\<lambda>(p, r). p * cap + r) ` ({..<packs} \<times> {..<cap}) \<subseteq> {..<packs * cap}"
    proof clarify
      fix p r assume "p < packs" "r < cap"
      then have "p * cap + r < Suc p * cap" "Suc p * cap \<le> packs * cap"
        using mult_le_mono1 [of "Suc p" packs cap] by simp_all
      then show "p * cap + r < packs * cap" by linarith
    qed
    show "(\<lambda>k. (k div cap, k mod cap)) ` {..<packs * cap} \<subseteq> {..<packs} \<times> {..<cap}"
      by (cases cap) (auto simp: less_mult_imp_div_less)
  qed auto
  have len: "length (fst pr) = packs * cap" "length (snd pr) = packs * cap" using assms by (simp_all add: fills_packs_def)
  show "length (packed_position cap pr) = packs * cap" using len by (simp add: packed_position_def)
  have "bij_betw ((\<lambda>(p, r). p * cap + r) \<circ> ?f) {..<packs * cap} {..<packs * cap}"
    using assms row by (auto simp: fills_packs_def intro: bij_betw_trans)
  then show "bij_betw (\<lambda>g. packed_position cap pr ! g) {..<packs * cap} {..<packs * cap}"
    by (rule bij_betw_cong [THEN iffD1, rotated]) (simp add: packed_position_def len)
qed

subsection \<open>Replicas\<close>

text \<open>A replica table: the physical experts correspond one to one to (logical expert, replica number).\<close>

definition replica_table :: "nat \<Rightarrow> replicas \<Rightarrow> bool" where
  "replica_table num_phy rt \<longleftrightarrow>
     (case rt of (p2l, rank, cnt) \<Rightarrow>
       length p2l = num_phy \<and> length rank = num_phy \<and> (\<forall>l<length cnt. 0 < cnt ! l) \<and>
       bij_betw (\<lambda>k. (p2l ! k, rank ! k)) {..<num_phy} (SIGMA l:{..<length cnt}. {..<cnt ! l}))"

definition replicate_inv :: "real list \<Rightarrow> nat \<Rightarrow> nat \<Rightarrow> replicas \<Rightarrow> bool" where
  "replicate_inv w num_phy i rt \<longleftrightarrow>
     (case rt of (p2l, rank, cnt) \<Rightarrow>
       length p2l = num_phy \<and> length rank = num_phy \<and> length cnt = length w \<and>
       (\<forall>l<length w. 0 < cnt ! l) \<and> sum_list cnt = i \<and>
       bij_betw (\<lambda>k. (p2l ! k, rank ! k)) {..<i} (SIGMA l:{..<length w}. {..<cnt ! l}) \<and>
       (\<forall>j<length w. 2 \<le> cnt ! j \<longrightarrow>
          (\<forall>k<length w. w ! k / real (cnt ! k) \<le> w ! j / real (cnt ! j - 1))))"

lemma replicate_inv_init:
  assumes "length w \<le> num_phy"
  shows "replicate_inv w num_phy (length w) ([0..<num_phy], replicate num_phy 0, replicate (length w) 1)"
proof -
  have "bij_betw (\<lambda>k. ([0..<num_phy] ! k, replicate num_phy (0::nat) ! k)) {..<length w}
      (SIGMA l:{..<length w}. {..<replicate (length w) (1::nat) ! l})"
    by (rule bij_betw_byWitness [where f' = fst]) (use assms in auto)
  then show ?thesis by (simp add: replicate_inv_def sum_list_replicate)
qed

lemma replicate_step_inv:
  assumes inv: "replicate_inv w num_phy i rt" and "finds_max argmax" "w \<noteq> []" "i < num_phy"
    and pos: "\<forall>x\<in>set w. 0 \<le> x"
  shows "replicate_inv w num_phy (Suc i) (replicate_step argmax w i rt)"
proof -
  obtain p2l rank cnt where rt: "rt = (p2l, rank, cnt)" by (cases rt)
  let ?avg = "map2 (\<lambda>w c. w / real c) w cnt"
  define r where "r = argmax ?avg"
  have len: "length cnt = length w" "length p2l = num_phy" "length rank = num_phy" using inv rt by (simp_all add: replicate_inv_def)
  have "?avg \<noteq> []" using assms(3) len by (cases w; cases cnt) auto
  then have top: "r < length ?avg" "\<And>k. k < length ?avg \<Longrightarrow> ?avg ! k \<le> ?avg ! r"
    using assms(2) unfolding finds_max_def r_def by blast+
  then have r: "r < length w" using len by simp
  have r2: "w ! k / real (cnt ! k) \<le> w ! r / real (cnt ! r)" if "k < length w" for k
    using top(2) [of k] that r len by simp
  let ?cnt = "cnt[r := cnt ! r + 1]" and ?p2l = "p2l[i := r]" and ?rank = "rank[i := cnt ! r]"
  have step: "replicate_step argmax w i rt = (?p2l, ?rank, ?cnt)" by (simp add: replicate_step_def rt Let_def r_def)
  have cpos: "0 < cnt ! k" if "k < length w" for k using inv that rt by (simp add: replicate_inv_def)
  have wpos: "0 \<le> w ! k" if "k < length w" for k using pos that by simp
  have "bij_betw (\<lambda>k. (?p2l ! k, ?rank ! k)) (insert i {..<i}) (insert (?p2l ! i, ?rank ! i) (SIGMA l:{..<length w}. {..<cnt ! l}))"
    by (rule bij_betw_insert [where f = "\<lambda>k. (p2l ! k, rank ! k)"])
      (use inv rt len assms(4) in \<open>auto simp: replicate_inv_def\<close>)
  then have bij: "bij_betw (\<lambda>k. (?p2l ! k, ?rank ! k)) {..<Suc i} (SIGMA l:{..<length w}. {..<?cnt ! l})"
    using sigma_grow [OF r len(1)] assms(4) len by (simp add: lessThan_Suc)
  have less: "w ! k / real (?cnt ! k) \<le> w ! k / real (cnt ! k)" if "k < length w" for k
    using that cpos [OF that] wpos [OF that] len by (cases "k = r") (auto intro!: divide_left_mono)
  have greedy: "w ! k / real (?cnt ! k) \<le> w ! j / real (?cnt ! j - 1)"
    if "j < length w" "2 \<le> ?cnt ! j" "k < length w" for j k
  proof (cases "j = r")
    case True
    then have "w ! j / real (?cnt ! j - 1) = w ! r / real (cnt ! r)" using r len by simp
    then show ?thesis using less [OF that(3)] r2 [OF that(3)] by simp
  next
    case False
    then have "w ! k / real (cnt ! k) \<le> w ! j / real (?cnt ! j - 1)"
      using inv rt that len by (auto simp: replicate_inv_def)
    then show ?thesis by (rule order_trans [OF less [OF that(3)]])
  qed
  have "sum_list ?cnt = Suc i" using inv rt r len by (simp add: replicate_inv_def sum_list_update)
  moreover have "\<forall>l<length w. 0 < ?cnt ! l" using cpos r len by (auto simp: nth_list_update)
  ultimately show ?thesis
    unfolding step replicate_inv_def prod.case using len bij greedy by (intro conjI allI impI) simp_all
qed

lemma replicate_fold_inv:
  assumes "finds_max argmax" "w \<noteq> []" "\<forall>x\<in>set w. 0 \<le> x" "length w \<le> num_phy" "length w \<le> i" "i \<le> num_phy"
  shows "replicate_inv w num_phy i (fold (replicate_step argmax w) [length w..<i]
    ([0..<num_phy], replicate num_phy 0, replicate (length w) 1))"
  using assms(5,6)
proof (induction i)
  case (Suc i)
  then show ?case
    using replicate_inv_init [OF assms(4)] assms replicate_step_inv by (cases "length w = Suc i") auto
qed (use assms replicate_inv_init in auto)

lemma replicate_experts_ok:
  assumes "finds_max argmax" "w \<noteq> []" "\<forall>x\<in>set w. 0 \<le> x" "length w \<le> num_phy"
  shows "\<exists>rt. replicate_experts argmax w num_phy = Inr rt \<and> replicate_inv w num_phy num_phy rt"
  using replicate_fold_inv [OF assms(1-4) assms(4) order_refl] assms
  by (auto simp: replicate_experts_def Let_def)

lemma replicate_inv_table: "replicate_inv w n n (p2l, rank, cnt) \<Longrightarrow> replica_table n (p2l, rank, cnt) \<and> length cnt = length w"
  by (auto simp: replicate_inv_def replica_table_def)

text \<open>Greedy replication is optimal: no other distribution of the same replicas has a smaller peak load.\<close>

lemma greedy_counts_optimal:
  assumes inv: "replicate_inv w n n (p2l, rank, cnt)" and pos: "\<forall>x\<in>set w. 0 \<le> x"
    and c': "length c' = length w" "\<forall>l<length w. 0 < c' ! l" "sum_list c' = (n :: nat)" and k: "k < length w"
  shows "\<exists>j<length w. w ! k / real (cnt ! k) \<le> w ! j / real (c' ! j)"
proof (rule ccontr)
  assume "\<not> ?thesis"
  then have less: "w ! j / real (c' ! j) < w ! k / real (cnt ! k)" if "j < length w" for j using that by force
  have cnt: "length cnt = length w" "0 < cnt ! j" "sum_list cnt = n"
    "2 \<le> cnt ! j \<Longrightarrow> w ! k / real (cnt ! k) \<le> w ! j / real (cnt ! j - 1)" if "j < length w" for j
    using inv that k by (simp_all add: replicate_inv_def)
  have step: "m < c' ! j" if "j < length w" "0 < m" "w ! j / real (c' ! j) < w ! j / real m" for j m
  proof (rule ccontr)
    assume "\<not> m < c' ! j"
    then have "w ! j / real m \<le> w ! j / real (c' ! j)" using that(1) c'(2) pos by (intro divide_left_mono) auto
    then show False using that(3) by simp
  qed
  have ge: "cnt ! j \<le> c' ! j" if j: "j < length w" for j
  proof (cases "2 \<le> cnt ! j")
    case True
    then have "cnt ! j - 1 < c' ! j" using step [OF j, of "cnt ! j - 1"] less [OF j] cnt(4) [OF j] by simp
    then show ?thesis by simp
  next
    case False
    then have "cnt ! j = 1" using cnt(2) [OF j] by simp
    then show ?thesis using c'(2) j by (metis Suc_leI One_nat_def)
  qed
  have "cnt ! k < c' ! k" using step [OF k cnt(2) [OF k] less [OF k]] .
  then have "(\<Sum>j<length w. cnt ! j) < (\<Sum>j<length w. c' ! j)" using ge k by (intro sum_strict_mono_ex1) auto
  then show False using cnt(1,3) [OF k] c'(1,3) by (simp add: sum_list_sum_nth atLeast0LessThan)
qed

lemma set_map2_nth: "length xs = length ys \<Longrightarrow> set (map2 f xs ys) = (\<lambda>i. f (xs ! i) (ys ! i)) ` {..<length xs}"
  by (auto simp: set_zip image_iff)

lemma Max_le_Max:
  fixes A B :: "'a :: linorder set"
  assumes "finite A" "A \<noteq> {}" "finite B" "\<And>x. x \<in> A \<Longrightarrow> \<exists>y\<in>B. x \<le> y"
  shows "Max A \<le> Max B"
  using assms by (metis Max_ge Max_in order_trans)

text \<open>
  C17: replication of experts never fails when there is a place for every expert, and it is optimal. Every
  physical expert is one replica of one logical expert, every logical expert has at least one, replicas are
  numbered without gaps, and the peak load per replica is the least any distribution of the same number of
  replicas can have, for any loads and any tie breaking of the maximum.
\<close>

theorem replicate_experts_optimal:
  assumes "finds_max argmax" "w \<noteq> []" "\<forall>x\<in>set w. 0 \<le> x" "length w \<le> num_phy"
  shows "\<exists>p2l rank cnt. replicate_experts argmax w num_phy = Inr (p2l, rank, cnt) \<and>
    replica_table num_phy (p2l, rank, cnt) \<and> length cnt = length w \<and> sum_list cnt = num_phy \<and>
    (\<forall>c'. length c' = length w \<and> (\<forall>l<length w. 0 < c' ! l) \<and> sum_list c' = num_phy \<longrightarrow>
      Max (set (map2 (\<lambda>x c. x / real c) w cnt)) \<le> Max (set (map2 (\<lambda>x c. x / real c) w c')))"
proof -
  obtain p2l rank cnt where rt: "replicate_experts argmax w num_phy = Inr (p2l, rank, cnt)"
    and inv: "replicate_inv w num_phy num_phy (p2l, rank, cnt)"
    using replicate_experts_ok [OF assms] by (metis prod_cases3)
  have len: "length cnt = length w" "sum_list cnt = num_phy" using inv by (simp_all add: replicate_inv_def)
  have peak: "Max (set (map2 (\<lambda>x c. x / real c) w cnt)) \<le> Max (set (map2 (\<lambda>x c. x / real c) w c'))"
    if c': "length c' = length w" "\<forall>l<length w. 0 < c' ! l" "sum_list c' = num_phy" for c'
  proof -
    have "\<exists>y\<in>set (map2 (\<lambda>x c. x / real c) w c'). x \<le> y" if x: "x \<in> set (map2 (\<lambda>x c. x / real c) w cnt)" for x
    proof -
      obtain k where "k < length w" "x = w ! k / real (cnt ! k)" using x len by (auto simp: set_map2_nth simp del: set_map)
      then obtain j where "j < length w" "x \<le> w ! j / real (c' ! j)"
        using greedy_counts_optimal [OF inv assms(3) c'] by blast
      then show ?thesis using c'(1) by (auto simp: set_map2_nth simp del: set_map)
    qed
    moreover have "w \<noteq> [] \<and> cnt \<noteq> [] \<and> c' \<noteq> []" using assms(2) len(1) c'(1) by auto
    ultimately show ?thesis by (intro Max_le_Max) (simp_all add: zip_eq_Nil_iff)
  qed
  show ?thesis using rt replicate_inv_table [OF inv] len peak by blast
qed

text \<open>Functions with the two laws: a stable sort and the first maximum.\<close>

definition stable_sort_desc :: "real list \<Rightarrow> nat list" where
  "stable_sort_desc xs = sort_key (\<lambda>i. - xs ! i) [0..<length xs]"

definition first_max :: "real list \<Rightarrow> nat" where
  "first_max xs = arg_min_list (\<lambda>i. - xs ! i) [0..<length xs]"

lemma stable_sort_desc_law: "sorts_indices stable_sort_desc"
  unfolding sorts_indices_def
proof (intro allI conjI)
  fix xs :: "real list"
  have "sorted_wrt (\<lambda>i j. - xs ! i \<le> - xs ! j) (stable_sort_desc xs)"
    using sorted_sort_key [of "\<lambda>i. - xs ! i" "[0..<length xs]"] unfolding stable_sort_desc_def by (simp only: sorted_map)
  then show "sorted_wrt (\<lambda>i j. xs ! j \<le> xs ! i) (stable_sort_desc xs)" by simp
qed (auto simp: stable_sort_desc_def)

lemma first_max_law: "finds_max first_max"
proof -
  have "first_max xs < length xs \<and> xs ! i \<le> xs ! first_max xs" if "xs \<noteq> []" "i < length xs" for xs i
  proof -
    let ?f = "\<lambda>i. - xs ! i" and ?is = "[0..<length xs]"
    have "- xs ! first_max xs = Min (?f ` set ?is)" unfolding first_max_def using that by (intro f_arg_min_list_f) auto
    also have "\<dots> \<le> ?f i" using that(2) by (intro Min_le) auto
    finally show ?thesis using arg_min_list_in [of ?is ?f] that(1) by (simp add: first_max_def)
  qed
  then show ?thesis unfolding finds_max_def by (metis length_greater_0_conv)
qed

theorem replicate_experts_optimal_witness:
  "\<exists>p2l rank cnt. replicate_experts first_max [6, 2, 1] 5 = Inr (p2l, rank, cnt) \<and>
    replica_table 5 (p2l, rank, cnt) \<and> length cnt = length [6, 2, 1 :: real] \<and> sum_list cnt = 5 \<and>
    Max (set (map2 (\<lambda>x c. x / real c) [6, 2, 1] cnt)) \<le> Max (set (map2 (\<lambda>x c. x / real c) [6, 2, 1] [1, 2, 2]))"
proof -
  have "length [1, 2, 2 :: nat] = length [6, 2, 1 :: real] \<and> (\<forall>l<length [6, 2, 1 :: real]. 0 < [1, 2, 2 :: nat] ! l) \<and>
      sum_list [1, 2, 2 :: nat] = 5"
    by (simp add: less_Suc_eq numeral_nat)
  moreover obtain p2l rank cnt where "replicate_experts first_max [6, 2, 1] 5 = Inr (p2l, rank, cnt)"
    "replica_table 5 (p2l, rank, cnt)" "length cnt = length [6, 2, 1 :: real]" "sum_list cnt = 5"
    and best: "\<forall>c'. length c' = length [6, 2, 1 :: real] \<and> (\<forall>l<length [6, 2, 1 :: real]. 0 < c' ! l) \<and> sum_list c' = 5 \<longrightarrow>
      Max (set (map2 (\<lambda>x c. x / real c) [6, 2, 1] cnt)) \<le> Max (set (map2 (\<lambda>x c. x / real c) [6, 2, 1] c'))"
    using replicate_experts_optimal [OF first_max_law, of "[6, 2, 1]" 5] by (auto simp del: set_map)
  ultimately show ?thesis by blast
qed

subsection \<open>Permutations\<close>

definition permutes :: "nat list \<Rightarrow> bool" where
  "permutes p \<longleftrightarrow> bij_betw (\<lambda>i. p ! i) {..<length p} {..<length p}"

lemma permutes_nth: "permutes p \<Longrightarrow> i < length p \<Longrightarrow> p ! i < length p"
  unfolding permutes_def bij_betw_def by blast

lemma permutes_distinct: "permutes p \<Longrightarrow> distinct p"
  by (auto simp: permutes_def bij_betw_def inj_on_def distinct_conv_nth)

lemma scatter_length: "length (fold (\<lambda>(j, p) out. out[p := j]) jps out) = length out"
  by (induction jps arbitrary: out) auto

lemma scatter_nth:
  assumes "distinct (map snd jps)" "\<forall>(j, p)\<in>set jps. p < length out"
  shows "(\<forall>(j, p)\<in>set jps. fold (\<lambda>(j, p) out. out[p := j]) jps out ! p = j) \<and>
    (\<forall>q. q \<notin> snd ` set jps \<longrightarrow> fold (\<lambda>(j, p) out. out[p := j]) jps out ! q = out ! q)"
  using assms
proof (induction jps arbitrary: out)
  case (Cons jp jps)
  obtain j p where jp: "jp = (j, p)" by (cases jp)
  let ?rest = "fold (\<lambda>(j, p) out. out[p := j]) jps (out[p := j])"
  have IH: "\<forall>(j, p)\<in>set jps. ?rest ! p = j" "\<forall>q. q \<notin> snd ` set jps \<longrightarrow> ?rest ! q = out[p := j] ! q"
    using Cons.IH [of "out[p := j]"] Cons.prems jp by auto
  have "?rest ! p = j" using IH(2) Cons.prems jp by simp
  then show ?case using IH jp by auto
qed simp

lemma inverse_perm_nth:
  assumes "permutes p"
  shows "length (inverse_perm p) = length p" "i < length p \<Longrightarrow> inverse_perm p ! (p ! i) = i"
proof -
  show "length (inverse_perm p) = length p" by (simp add: inverse_perm_def scatter_length)
  have "\<forall>(j, q)\<in>set (zip [0..<length p] p). inverse_perm p ! q = j"
    unfolding inverse_perm_def
    by (rule conjunct1 [OF scatter_nth])
      (use permutes_distinct [OF assms] permutes_nth [OF assms] in \<open>auto simp: in_set_zip\<close>)
  moreover have "(i, p ! i) \<in> set (zip [0..<length p] p)" if "i < length p"
    using that by (auto simp: in_set_zip intro!: exI [of _ i])
  ultimately show "i < length p \<Longrightarrow> inverse_perm p ! (p ! i) = i" by blast
qed

lemma permutes_onto:
  assumes "permutes p" "q < length p"
  obtains i where "i < length p" "p ! i = q"
  using assms unfolding permutes_def bij_betw_def by (metis (no_types, lifting) imageE lessThan_iff)

lemma inverse_perm_permutes:
  assumes "permutes p"
  shows "permutes (inverse_perm p)" "q < length p \<Longrightarrow> p ! (inverse_perm p ! q) = q"
proof -
  show right: "q < length p \<Longrightarrow> p ! (inverse_perm p ! q) = q" for q
    using permutes_onto [OF assms] inverse_perm_nth(2) [OF assms] by metis
  show "permutes (inverse_perm p)"
    unfolding permutes_def inverse_perm_nth(1) [OF assms]
    by (rule bij_betw_byWitness [where f' = "\<lambda>i. p ! i"])
      (use inverse_perm_nth [OF assms] right permutes_nth [OF assms] permutes_onto [OF assms] in \<open>auto, metis\<close>)
qed

lemma fills_packs_permutes:
  assumes "fills_packs packs cap pr"
  shows "permutes (packed_position cap pr)" "length (packed_position cap pr) = packs * cap"
  using fills_packs_position [OF assms] by (simp_all add: permutes_def)

subsection \<open>Rearranging replica tables\<close>

lemma replica_table_gather:
  assumes "replica_table n (p2l, rank, cnt)" "permutes q" "length q = n"
  shows "replica_table n (gather p2l q, gather rank q, cnt)"
proof -
  have "bij_betw ((\<lambda>k. (p2l ! k, rank ! k)) \<circ> (\<lambda>i. q ! i)) {..<n} (SIGMA l:{..<length cnt}. {..<cnt ! l})"
    using assms by (auto simp: replica_table_def permutes_def intro: bij_betw_trans)
  then have "bij_betw (\<lambda>k. (gather p2l q ! k, gather rank q ! k)) {..<n} (SIGMA l:{..<length cnt}. {..<cnt ! l})"
    by (rule bij_betw_cong [THEN iffD1, rotated]) (simp add: gather_def assms(3))
  then show ?thesis using assms by (simp add: replica_table_def gather_def)
qed

text \<open>Logical experts renamed by a permutation.\<close>

lemma replica_table_rename:
  assumes tab: "replica_table n (p2m, rank, cnt)" and f: "permutes f" "length f = length cnt"
  shows "replica_table n (map (\<lambda>m. inverse_perm f ! m) p2m, rank, gather cnt f)"
proof -
  let ?g = "inverse_perm f"
  have "bij_betw (\<lambda>(m, r). (?g ! m, r)) (SIGMA l:{..<length cnt}. {..<cnt ! l})
      (SIGMA l:{..<length cnt}. {..<gather cnt f ! l})"
    by (rule bij_betw_byWitness [where f' = "\<lambda>(l, r). (f ! l, r)"])
      (use f inverse_perm_nth [OF f(1)] inverse_perm_permutes [OF f(1)] permutes_nth [OF f(1)]
         permutes_nth [OF inverse_perm_permutes(1) [OF f(1)]] in \<open>auto simp: gather_def\<close>)
  moreover have len: "length p2m = n" using tab by (simp add: replica_table_def)
  moreover have "bij_betw (\<lambda>k. (p2m ! k, rank ! k)) {..<n} (SIGMA l:{..<length cnt}. {..<cnt ! l})"
    using tab by (simp add: replica_table_def)
  ultimately have "bij_betw ((\<lambda>(m, r). (?g ! m, r)) \<circ> (\<lambda>k. (p2m ! k, rank ! k))) {..<n}
      (SIGMA l:{..<length cnt}. {..<gather cnt f ! l})"
    by (blast intro: bij_betw_trans)
  then have "bij_betw (\<lambda>k. (map (\<lambda>m. ?g ! m) p2m ! k, rank ! k)) {..<n} (SIGMA l:{..<length cnt}. {..<gather cnt f ! l})"
    by (rule bij_betw_cong [THEN iffD1, rotated]) (simp add: len)
  then show ?thesis using tab f permutes_nth [OF f(1)] by (simp add: replica_table_def gather_def)
qed

text \<open>Tables of two groups of experts, one after the other.\<close>

lemma replica_table_append:
  assumes t1: "replica_table a (p1, r1, c1)" and t2: "replica_table b (p2, r2, c2)"
  shows "replica_table (a + b) (p1 @ map (\<lambda>m. m + length c1) p2, r1 @ r2, c1 @ c2)"
proof -
  let ?f = "\<lambda>k. ((p1 @ map (\<lambda>m. m + length c1) p2) ! k, (r1 @ r2) ! k)"
  let ?A = "SIGMA l:{..<length c1}. {..<c1 ! l}" and ?B = "SIGMA l:{..<length c2}. {..<c2 ! l}"
  have b1: "bij_betw (\<lambda>k. (p1 ! k, r1 ! k)) {..<a} ?A" and l1: "length p1 = a" "length r1 = a"
    and b2: "bij_betw (\<lambda>k. (p2 ! k, r2 ! k)) {..<b} ?B" and l2: "length p2 = b" "length r2 = b"
    using t1 t2 by (simp_all add: replica_table_def)
  have "bij_betw ?f {..<a} ?A"
    using b1 by (rule bij_betw_cong [THEN iffD1, rotated]) (simp add: l1 nth_append)
  moreover have "bij_betw ?f {a..<a + b} ((\<lambda>(m, r). (m + length c1, r)) ` ?B)"
  proof -
    have shift: "bij_betw (\<lambda>k. k - a) {a..<a + b} {..<b}"
      by (rule bij_betw_byWitness [where f' = "\<lambda>k. k + a"]) auto
    have "inj_on (\<lambda>(m, r). (m + length c1, r)) ?B" by (auto simp: inj_on_def)
    then have "bij_betw (\<lambda>(m, r). (m + length c1, r)) ?B ((\<lambda>(m, r). (m + length c1, r)) ` ?B)"
      by (rule inj_on_imp_bij_betw)
    from bij_betw_trans [OF bij_betw_trans [OF shift b2] this] show ?thesis
      by (rule bij_betw_cong [THEN iffD1, rotated]) (auto simp: l1 l2 nth_append)
  qed
  moreover have "?A \<inter> (\<lambda>(m, r). (m + length c1, r)) ` ?B = {}" by auto
  ultimately have "bij_betw ?f ({..<a} \<union> {a..<a + b}) (?A \<union> (\<lambda>(m, r). (m + length c1, r)) ` ?B)"
    by (rule bij_betw_combine)
  moreover have "{..<a} \<union> {a..<a + b} = {..<a + b}" by auto
  moreover have "?A \<union> (\<lambda>(m, r). (m + length c1, r)) ` ?B = (SIGMA l:{..<length (c1 @ c2)}. {..<(c1 @ c2) ! l})"
  proof (intro set_eqI iffI)
    fix x assume "x \<in> (SIGMA l:{..<length (c1 @ c2)}. {..<(c1 @ c2) ! l})"
    then show "x \<in> ?A \<union> (\<lambda>(m, r). (m + length c1, r)) ` ?B"
      by (cases "fst x < length c1") (auto simp: nth_append image_iff intro!: bexI [of _ "(fst x - length c1, snd x)"])
  qed (auto simp: nth_append)
  ultimately show ?thesis using t1 t2 by (auto simp: replica_table_def nth_append)
qed

subsection \<open>The hierarchical placement is a replica table\<close>

lemma mapr_ok:
  assumes "\<And>x. x \<in> set xs \<Longrightarrow> \<exists>y. f x = Inr y \<and> P y"
  shows "\<exists>ys. mapr f xs = Inr ys \<and> length ys = length xs \<and> (\<forall>y\<in>set ys. P y)"
  using assms
proof (induction xs)
  case (Cons x xs)
  then obtain y ys where "f x = Inr y" "P y" "mapr f xs = Inr ys" "length ys = length xs" "\<forall>y\<in>set ys. P y" by fastforce
  then show ?case by auto
qed simp

lemma concat_rows:
  "0 < k \<Longrightarrow> concat (map (\<lambda>g. map (h g) [0..<k]) [0..<n]) = map (\<lambda>i. h (i div k) (i mod k)) [0..<n * k]"
proof (induction n)
  case (Suc n)
  have "[0..<Suc n * k] = [0..<n * k] @ map (\<lambda>j. n * k + j) [0..<k]"
    using upt_add_eq_append [of 0 "n * k" k] by (simp add: map_add_upt add.commute)
  moreover have "map (\<lambda>i. h (i div k) (i mod k)) (map (\<lambda>j. n * k + j) [0..<k]) = map (h n) [0..<k]"
    using Suc.prems by simp
  ultimately show ?case using Suc by simp
qed simp

lemma group_positions_permutes:
  assumes "permutes slots" "length slots = groups" "0 < gs"
  shows "permutes (group_positions groups gs slots)" "length (group_positions groups gs slots) = groups * gs"
proof -
  have eq: "group_positions groups gs slots = map (\<lambda>i. slots ! (i div gs) * gs + i mod gs) [0..<groups * gs]"
    unfolding group_positions_def using assms(3) by (rule concat_rows)
  show "length (group_positions groups gs slots) = groups * gs" by (simp add: eq)
  let ?inv = "inverse_perm slots"
  have cell: "a * gs + i mod gs < groups * gs" if "a < groups" for a i
  proof -
    have "a * gs + i mod gs < Suc a * gs" using assms(3) by simp
    also have "\<dots> \<le> groups * gs" using that mult_le_mono1 [of "Suc a" groups gs] by simp
    finally show ?thesis .
  qed
  have "bij_betw (\<lambda>i. slots ! (i div gs) * gs + i mod gs) {..<groups * gs} {..<groups * gs}"
  proof (rule bij_betw_byWitness [where f' = "\<lambda>i. ?inv ! (i div gs) * gs + i mod gs"])
    have row: "i div gs < groups" if "i < groups * gs" for i using that by (rule less_mult_imp_div_less)
    show "\<forall>i\<in>{..<groups * gs}. ?inv ! ((slots ! (i div gs) * gs + i mod gs) div gs) * gs +
        (slots ! (i div gs) * gs + i mod gs) mod gs = i"
      using row inverse_perm_nth(2) [OF assms(1)] assms(2,3) by simp
    show "\<forall>i\<in>{..<groups * gs}. slots ! ((?inv ! (i div gs) * gs + i mod gs) div gs) * gs +
        (?inv ! (i div gs) * gs + i mod gs) mod gs = i"
      using row inverse_perm_permutes(2) [OF assms(1)] assms(2,3) by simp
    show "(\<lambda>i. slots ! (i div gs) * gs + i mod gs) ` {..<groups * gs} \<subseteq> {..<groups * gs}"
      using row permutes_nth [OF assms(1)] cell unfolding assms(2) by blast
    show "(\<lambda>i. ?inv ! (i div gs) * gs + i mod gs) ` {..<groups * gs} \<subseteq> {..<groups * gs}"
      using row permutes_nth [OF inverse_perm_permutes(1) [OF assms(1)]] cell
      unfolding inverse_perm_nth(1) [OF assms(1)] assms(2) by blast
  qed
  then show "permutes (group_positions groups gs slots)"
    unfolding permutes_def eq length_map length_upt diff_zero by (rule bij_betw_cong [THEN iffD1, rotated]) simp
qed

lemma place_node_table:
  assumes "sorts_indices sort_desc" "finds_max argmax" "tokens \<noteq> []" "\<forall>x\<in>set tokens. 0 \<le> x"
    and "length tokens \<le> packs * per_gpu" "0 < packs"
  shows "\<exists>rt. place_node sort_desc argmax (packs * per_gpu) packs per_gpu tokens = Inr rt \<and>
    replica_table (packs * per_gpu) rt \<and> length (snd (snd rt)) = length tokens"
proof -
  obtain p2m rank cnt where rep: "replicate_experts argmax tokens (packs * per_gpu) = Inr (p2m, rank, cnt)"
    and inv: "replicate_inv tokens (packs * per_gpu) (packs * per_gpu) (p2m, rank, cnt)"
    using replicate_experts_ok [OF assms(2-5)] by (metis prod_cases3)
  have tab: "replica_table (packs * per_gpu) (p2m, rank, cnt)" and len: "length cnt = length tokens"
    using replicate_inv_table [OF inv] by simp_all
  let ?w = "gather (map2 (\<lambda>w c. w / real c) tokens cnt) p2m"
  have "length ?w = packs * per_gpu" using tab by (simp add: gather_def replica_table_def)
  then obtain pr where pr: "balanced_packing sort_desc ?w packs = Inr pr" "fills_packs packs per_gpu pr"
    using balanced_packing_fills [OF assms(1,6)] by blast
  have q: "permutes (inverse_perm (packed_position per_gpu pr))"
    "length (inverse_perm (packed_position per_gpu pr)) = packs * per_gpu"
    using fills_packs_permutes [OF pr(2)] inverse_perm_permutes inverse_perm_nth by simp_all
  show ?thesis
    using replica_table_gather [OF tab q] rep pr(1) len by (simp add: place_node_def Let_def)
qed

lemma concat_tables:
  assumes "\<forall>rt\<in>set nodes. replica_table phy rt \<and> length (snd (snd rt)) = per"
  shows "replica_table (length nodes * phy)
    (concat (map (\<lambda>(node, (p2m, _, _)). map (\<lambda>m. m + node * per) p2m) (zip [0..<length nodes] nodes)),
     concat (map (\<lambda>(_, rank, _). rank) nodes), concat (map (\<lambda>(_, _, cnt). cnt) nodes)) \<and>
    length (concat (map (\<lambda>(_, _, cnt). cnt) nodes)) = length nodes * per"
  using assms
proof (induction nodes rule: rev_induct)
  case Nil
  then show ?case by (simp add: replica_table_def bij_betw_def)
next
  case (snoc rt nodes)
  obtain p r c where rt: "rt = (p, r, c)" by (cases rt)
  then have tab: "replica_table phy (p, r, c)" "length c = per" using snoc.prems by simp_all
  have zip: "zip [0..<length (nodes @ [rt])] (nodes @ [rt]) = zip [0..<length nodes] nodes @ [(length nodes, rt)]"
    by simp
  show ?case
    using replica_table_append [OF conjunct1 [OF snoc.IH] tab(1)] snoc tab(2) unfolding zip rt
    by (simp add: add.commute)
qed

lemma length_chunks [simp]: "length (chunks n k xs) = n"
  by (simp add: chunks_def)

lemma chunks_set:
  assumes "length xs = n * k" "c \<in> set (chunks n k xs)"
  shows "length c = k" "set c \<subseteq> set xs"
proof -
  obtain i where i: "i < n" "c = take k (drop (i * k) xs)" using assms(2) by (auto simp: chunks_def)
  have "i * k + k \<le> n * k" using mult_le_mono1 [of "Suc i" n k] i(1) by simp
  then show "length c = k" using i(2) assms(1) by simp
  show "set c \<subseteq> set xs" using i(2) by (metis in_set_dropD in_set_takeD subsetI)
qed

lemma gather_perm:
  assumes "permutes q" "length q = length xs"
  shows "length (gather xs q) = length xs" "set (gather xs q) \<subseteq> set xs"
  using assms permutes_nth [OF assms(1)] by (auto simp: gather_def in_set_conv_nth) blast

text \<open>Sizes for which the placement is defined.\<close>

definition divisible :: "nat \<Rightarrow> nat \<Rightarrow> nat \<Rightarrow> nat \<Rightarrow> nat \<Rightarrow> bool" where
  "divisible num_log num_phy num_groups num_nodes num_gpus \<longleftrightarrow>
     0 < num_log \<and> num_log \<le> num_phy \<and> 0 < num_groups \<and> 0 < num_nodes \<and> 0 < num_gpus \<and>
     num_groups dvd num_log \<and> num_nodes dvd num_groups \<and> num_nodes dvd num_gpus \<and> num_gpus dvd num_phy"

lemma hierarchical_table:
  assumes "sorts_indices sort_desc" "finds_max argmax" "\<forall>x\<in>set w. 0 \<le> x"
    and "divisible (length w) num_phy num_groups num_nodes num_gpus"
  shows "\<exists>rt. rebalance_experts_hierarchical sort_desc argmax w num_phy num_groups num_nodes num_gpus = Inr rt \<and>
    replica_table num_phy rt \<and> length (snd (snd rt)) = length w"
proof -
  let ?n = "length w"
  have pos: "0 < ?n" "?n \<le> num_phy" "0 < num_groups" "0 < num_nodes" "0 < num_gpus"
    and dvd: "num_groups dvd ?n" "num_nodes dvd num_groups" "num_nodes dvd num_gpus" "num_gpus dvd num_phy"
    using assms(4) by (simp_all add: divisible_def)
  obtain gs gpn packs per_gpu where eqs: "?n = num_groups * gs" "num_groups = num_nodes * gpn"
      "num_gpus = num_nodes * packs" "num_phy = num_gpus * per_gpu"
    using dvd by (auto elim!: dvdE)
  let ?per = "gpn * gs" and ?phy = "packs * per_gpu"
  have n: "?n = num_nodes * ?per" and phy: "num_phy = num_nodes * ?phy" and gs: "0 < gs" and gpn: "0 < gpn" and packs: "0 < packs"
    using eqs pos by (auto simp: algebra_simps)
  let ?gw = "map sum_list (chunks num_groups gs w)"
  have "length ?gw = num_nodes * gpn" using eqs(2) by (simp add: chunks_def)
  then obtain pr where pr: "balanced_packing sort_desc ?gw num_nodes = Inr pr" "fills_packs num_nodes gpn pr"
    using balanced_packing_fills [OF assms(1) pos(4)] by blast
  define f where "f = group_positions num_groups gs (packed_position gpn pr)"
  have f: "permutes f" "length f = ?n"
    using group_positions_permutes [OF fills_packs_permutes(1) [OF pr(2)] _ gs] fills_packs_permutes(2) [OF pr(2)] eqs
    unfolding f_def by simp_all
  let ?g = "inverse_perm f" and ?tokens = "chunks num_nodes ?per (gather w (inverse_perm f))"
  have gw: "length (gather w ?g) = num_nodes * ?per" "set (gather w ?g) \<subseteq> set w"
    using gather_perm [OF inverse_perm_permutes(1) [OF f(1)], of w] inverse_perm_nth(1) [OF f(1)] f(2) n by simp_all
  have node: "\<exists>rt. place_node sort_desc argmax ?phy packs per_gpu t = Inr rt \<and> replica_table ?phy rt \<and> length (snd (snd rt)) = ?per"
    if t: "t \<in> set ?tokens" for t
  proof -
    have "length t = ?per" and sub: "set t \<subseteq> set w" using chunks_set [OF gw(1) t] gw(2) by auto
    moreover have "?per \<le> ?phy" using pos(2,4) n phy by simp
    moreover have "\<forall>x\<in>set t. 0 \<le> x" using sub assms(3) by blast
    moreover have "t \<noteq> []" using \<open>length t = ?per\<close> gs gpn by auto
    ultimately show ?thesis using place_node_table [OF assms(1,2), of t packs per_gpu] packs by simp
  qed
  obtain nodes where nodes: "mapr (place_node sort_desc argmax ?phy packs per_gpu) ?tokens = Inr nodes"
    "length nodes = num_nodes" "\<forall>rt\<in>set nodes. replica_table ?phy rt \<and> length (snd (snd rt)) = ?per"
    using mapr_ok [where f = "place_node sort_desc argmax ?phy packs per_gpu" and xs = ?tokens
        and P = "\<lambda>rt. replica_table ?phy rt \<and> length (snd (snd rt)) = ?per"] node by auto
  let ?p = "concat (map (\<lambda>(node, (p2m, _, _)). map (\<lambda>m. m + node * ?per) p2m) (zip [0..<num_nodes] nodes))"
    and ?r = "concat (map (\<lambda>(_, rank, _). rank) nodes)" and ?c = "concat (map (\<lambda>(_, _, cnt). cnt) nodes)"
  have "replica_table num_phy (?p, ?r, ?c)" "length ?c = ?n" using concat_tables [OF nodes(3)] nodes(2) n phy by simp_all
  then have tab: "replica_table num_phy (map (\<lambda>m. ?g ! m) ?p, ?r, gather ?c f)"
    using replica_table_rename [OF _ f(1)] f(2) by simp
  have "map (\<lambda>m. ?g ! m) ?p = concat (map (\<lambda>(node, (p2m, _, _)). map (\<lambda>m. ?g ! (m + node * ?per)) p2m) (zip [0..<num_nodes] nodes))"
    by (auto simp: map_concat intro!: arg_cong [where f = concat])
  moreover have "?n div num_groups = gs" "num_groups div num_nodes = gpn" "?n div num_nodes = ?per"
    "num_phy div num_nodes = ?phy" "num_gpus div num_nodes = packs" "num_phy div num_gpus = per_gpu"
    using eqs(1-4) n phy pos by (simp_all add: nonzero_mult_div_cancel_left)
  ultimately have "rebalance_experts_hierarchical sort_desc argmax w num_phy num_groups num_nodes num_gpus =
      Inr (map (\<lambda>m. ?g ! m) ?p, ?r, gather ?c f)"
    using pr(1) nodes(1) pos dvd f_def by (simp add: rebalance_experts_hierarchical_def Let_def dvd_imp_mod_0)
  then show ?thesis using tab f(2) by (simp add: gather_def)
qed

subsection \<open>The two maps agree\<close>

text \<open>
  \<open>phy2log\<close> and the rows of \<open>log2phy\<close> describe the same relation: row \<open>l\<close> lists every physical expert of
  \<open>l\<close> once in its first \<open>cnt ! l\<close> places, and \<open>- 1\<close> after them.
\<close>

definition two_way :: "nat \<Rightarrow> nat \<Rightarrow> nat list \<times> int list list \<times> nat list \<Rightarrow> bool" where
  "two_way num_log num_phy m \<longleftrightarrow>
     (case m of (phy2log, log2phy, cnt) \<Rightarrow>
       length phy2log = num_phy \<and> length log2phy = num_log \<and> length cnt = num_log \<and>
       (\<forall>k<num_phy. phy2log ! k < num_log) \<and>
       (\<forall>l<num_log. 0 < cnt ! l \<and> cnt ! l \<le> length (log2phy ! l) \<and>
          distinct (take (cnt ! l) (log2phy ! l)) \<and>
          set (take (cnt ! l) (log2phy ! l)) = int ` {k. k < num_phy \<and> phy2log ! k = l} \<and>
          set (drop (cnt ! l) (log2phy ! l)) \<subseteq> {- 1}))"

lemma replica_table_simps:
  assumes "replica_table n (p, r, c)"
  shows "length p = n" "length r = n" "\<And>k. k < n \<Longrightarrow> p ! k < length c \<and> r ! k < c ! (p ! k)"
    "\<And>l j. l < length c \<Longrightarrow> j < c ! l \<Longrightarrow> \<exists>k<n. p ! k = l \<and> r ! k = j"
    "\<And>k k'. k < n \<Longrightarrow> k' < n \<Longrightarrow> p ! k = p ! k' \<Longrightarrow> r ! k = r ! k' \<Longrightarrow> k = k'"
    "\<And>l. l < length c \<Longrightarrow> 0 < c ! l"
proof -
  let ?f = "\<lambda>k. (p ! k, r ! k)"
  have bij: "bij_betw ?f {..<n} (SIGMA l:{..<length c}. {..<c ! l})" using assms by (simp add: replica_table_def)
  show "p ! k < length c \<and> r ! k < c ! (p ! k)" if "k < n" for k using bij_betwE [OF bij] that by fastforce
  show "\<exists>k<n. p ! k = l \<and> r ! k = j" if "l < length c" "j < c ! l" for l j
  proof -
    have "(l, j) \<in> ?f ` {..<n}" using bij that unfolding bij_betw_def by simp
    then show ?thesis by auto
  qed
  show "k = k'" if "k < n" "k' < n" "p ! k = p ! k'" "r ! k = r ! k'" for k k'
    using bij that by (auto simp: bij_betw_def inj_on_def)
qed (use assms in \<open>auto simp: replica_table_def\<close>)

lemma scatter_log2phy_nth:
  assumes tab: "replica_table n (p, r, c)" and M: "\<forall>l<length c. c ! l \<le> M"
  shows "length (scatter_log2phy (length c) M p r) = length c * M"
    and "k < n \<Longrightarrow> scatter_log2phy (length c) M p r ! (p ! k * M + r ! k) = int k"
    and "l < length c \<Longrightarrow> c ! l \<le> j \<Longrightarrow> j < M \<Longrightarrow> scatter_log2phy (length c) M p r ! (l * M + j) = - 1"
proof -
  note rt = replica_table_simps [OF tab]
  let ?jps = "map (\<lambda>k. (int k, p ! k * M + r ! k)) [0..<n]"
  let ?flat = "fold (\<lambda>(j, p) out. out[p := j]) ?jps (replicate (length c * M) (- 1))"
  have zip: "zip [0..<length p] (zip p r) = map (\<lambda>k. (k, p ! k, r ! k)) [0..<n]"
    using rt(1,2) by (intro nth_equalityI) auto
  have eq: "scatter_log2phy (length c) M p r = ?flat"
    unfolding scatter_log2phy_def zip by (simp add: fold_map comp_def)
  have lt: "r ! k < M" "p ! k * M + r ! k < length c * M" if "k < n" for k
  proof -
    show "r ! k < M" using rt(3) [OF that] M by (meson less_le_trans)
    then show "p ! k * M + r ! k < length c * M"
      using rt(3) [OF that] mult_le_mono1 [of "Suc (p ! k)" "length c" M] by simp
  qed
  have uniq: "l = p ! k \<and> j = r ! k" if "k < n" "j < M" "l * M + j = p ! k * M + r ! k" for k l j
  proof -
    have "(l * M + j) div M = (p ! k * M + r ! k) div M" "(l * M + j) mod M = (p ! k * M + r ! k) mod M"
      using that(3) by simp_all
    then show ?thesis using lt(1) [OF that(1)] that(2) by simp
  qed
  have dist: "distinct (map snd ?jps)"
    using uniq lt(1) rt(5) by (auto simp: distinct_map comp_def inj_on_def) metis
  have sc: "(\<forall>(j, q)\<in>set ?jps. ?flat ! q = j) \<and> (\<forall>q. q \<notin> snd ` set ?jps \<longrightarrow> ?flat ! q = replicate (length c * M) (- 1) ! q)"
    by (rule scatter_nth [OF dist]) (use lt in auto)
  show "length (scatter_log2phy (length c) M p r) = length c * M" unfolding eq by (simp add: scatter_length)
  show "k < n \<Longrightarrow> scatter_log2phy (length c) M p r ! (p ! k * M + r ! k) = int k"
    unfolding eq using conjunct1 [OF sc] by fastforce
  show "scatter_log2phy (length c) M p r ! (l * M + j) = - 1" if l: "l < length c" "c ! l \<le> j" "j < M"
  proof -
    have "l * M + j \<notin> snd ` set ?jps" using uniq [OF _ l(3)] rt(3) l(2) by fastforce
    moreover have "l * M + j < length c * M" using mult_le_mono1 [of "Suc l" "length c" M] l by simp
    ultimately show ?thesis unfolding eq using conjunct2 [OF sc] by simp
  qed
qed

lemma scatter_two_way:
  assumes tab: "replica_table n (p, r, c)" and M: "\<forall>l<length c. c ! l \<le> M"
  shows "two_way (length c) n (p, chunks (length c) M (scatter_log2phy (length c) M p r), c)"
proof -
  note rt = replica_table_simps [OF tab] and sc = scatter_log2phy_nth [OF assms]
  let ?flat = "scatter_log2phy (length c) M p r"
  have row: "0 < c ! l \<and> c ! l \<le> length (chunks (length c) M ?flat ! l) \<and> distinct (take (c ! l) (chunks (length c) M ?flat ! l)) \<and>
      set (take (c ! l) (chunks (length c) M ?flat ! l)) = int ` {k. k < n \<and> p ! k = l} \<and>
      set (drop (c ! l) (chunks (length c) M ?flat ! l)) \<subseteq> {- 1}" if l: "l < length c" for l
  proof -
    let ?row = "chunks (length c) M ?flat ! l"
    have eq: "?row = take M (drop (l * M) ?flat)" using l by (simp add: chunks_def)
    have "l * M + M \<le> length c * M" using mult_le_mono1 [of "Suc l" "length c" M] l by simp
    then have len: "length ?row = M" and nth: "\<And>j. j < M \<Longrightarrow> ?row ! j = ?flat ! (l * M + j)" unfolding eq using l by (simp_all add: sc(1))
    have cM: "c ! l \<le> M" using M l by blast
    have at: "?row ! (r ! k) = int k" if "k < n" "p ! k = l" for k
      using sc(2) [OF that(1)] nth [of "r ! k"] rt(3) [OF that(1)] cM that(2) by auto
    have ex: "\<exists>k<n. p ! k = l \<and> r ! k = j \<and> ?row ! j = int k" if "j < c ! l" for j
      using rt(4) [OF l that] at by blast
    have "distinct (take (c ! l) ?row)"
      unfolding distinct_conv_nth
    proof (intro allI impI)
      fix i j assume ij: "i < length (take (c ! l) ?row)" "j < length (take (c ! l) ?row)" "i \<noteq> j"
      obtain k k' where "p ! k = l" "r ! k = i" "?row ! i = int k" "p ! k' = l" "r ! k' = j" "?row ! j = int k'"
        using ex [of i] ex [of j] ij(1,2) by auto
      then show "take (c ! l) ?row ! i \<noteq> take (c ! l) ?row ! j" using ij by auto
    qed
    moreover have "set (take (c ! l) ?row) = int ` {k. k < n \<and> p ! k = l}"
    proof (intro set_eqI iffI)
      fix x assume "x \<in> set (take (c ! l) ?row)"
      then obtain j where "j < c ! l" "x = ?row ! j" by (auto simp: in_set_conv_nth)
      then show "x \<in> int ` {k. k < n \<and> p ! k = l}" using ex by blast
    next
      fix x assume "x \<in> int ` {k. k < n \<and> p ! k = l}"
      then obtain k where k: "k < n" "p ! k = l" "x = int k" by blast
      then have "r ! k < length (take (c ! l) ?row)" "take (c ! l) ?row ! (r ! k) = x" using rt(3) [OF k(1)] at len cM by auto
      then show "x \<in> set (take (c ! l) ?row)" by (metis nth_mem)
    qed
    moreover have "set (drop (c ! l) ?row) \<subseteq> {- 1}"
    proof
      fix x assume "x \<in> set (drop (c ! l) ?row)"
      then obtain i where "i < M - c ! l" "x = ?row ! (c ! l + i)" using len by (auto simp: in_set_conv_nth)
      then show "x \<in> {- 1}" using sc(3) [OF l, of "c ! l + i"] nth [of "c ! l + i"] by simp
    qed
    ultimately show ?thesis using rt(6) [OF l] len cM by simp
  qed
  show ?thesis unfolding two_way_def prod.case using row rt by simp
qed

text \<open>
  C14: rebalancing succeeds and returns two maps that are inverse to each other. For every layer each
  physical expert belongs to one logical expert, each logical expert has at least one physical expert, and
  its row of the inverse map lists exactly its physical experts, each once, padded with \<open>- 1\<close>. This holds
  for the hierarchical policy, through three permutations and two packings, and for the global one.
\<close>

theorem rebalance_experts_two_way:
  assumes "sorts_indices sort_desc" "finds_max argmax" "weight \<noteq> []"
    and "\<forall>w\<in>set weight. length w = n \<and> (\<forall>x\<in>set w. 0 \<le> x)" "0 < n" "n \<le> num_replicas" "0 < num_nodes"
    and "num_nodes dvd num_groups \<longrightarrow> divisible n num_replicas num_groups num_nodes num_gpus"
  shows "\<exists>out. rebalance_experts sort_desc argmax weight num_replicas num_groups num_nodes num_gpus = Inr out \<and>
    length out = length weight \<and> (\<forall>m\<in>set out. two_way n num_replicas m)"
proof -
  let ?place = "place_layer sort_desc argmax num_replicas num_groups num_nodes num_gpus"
  have layer: "\<exists>rt. ?place w = Inr rt \<and> replica_table num_replicas rt \<and> length (snd (snd rt)) = n" if w: "w \<in> set weight" for w
  proof (cases "num_nodes dvd num_groups")
    case True
    then show ?thesis
      using hierarchical_table [OF assms(1,2), of w] assms(4,7,8) w by (simp add: place_layer_def dvd_imp_mod_0)
  next
    case False
    have "w \<noteq> []" using assms(4,5) w by auto
    then show ?thesis
      using False replicate_experts_ok [OF assms(2), of w num_replicas] replicate_inv_table assms(4,6,7) w
      by (fastforce simp: place_layer_def mod_eq_0_iff_dvd)
  qed
  obtain placed where placed: "mapr ?place weight = Inr placed" "length placed = length weight"
    "\<forall>rt\<in>set placed. replica_table num_replicas rt \<and> length (snd (snd rt)) = n"
    using mapr_ok [where f = ?place and xs = weight
        and P = "\<lambda>rt. replica_table num_replicas rt \<and> length (snd (snd rt)) = n"] layer by auto
  let ?counts = "concat (map (\<lambda>(_, _, logcnt). logcnt) placed)"
  let ?M = "Max (set ?counts)"
  have "placed \<noteq> []" using placed(2) assms(3) by auto
  then have "?counts \<noteq> []" using placed(3) assms(5) by (cases placed) (auto split: prod.splits)
  moreover have "two_way n num_replicas (p, chunks (length c) ?M (scatter_log2phy (length c) ?M p r), c)"
    if "(p, r, c) \<in> set placed" for p r c
  proof -
    have "\<forall>l<length c. c ! l \<le> ?M" using that by (auto intro!: Max_ge bexI [of _ "(p, r, c)"])
    then show ?thesis using scatter_two_way [of num_replicas p r c ?M] placed(3) that by auto
  qed
  ultimately show ?thesis using placed by (auto simp: rebalance_experts_def Let_def)
qed

theorem rebalance_experts_two_way_witness:
  "\<exists>out. rebalance_experts stable_sort_desc first_max [[3, 2, 1, 0], [0, 0, 5, 1]] 6 2 1 2 = Inr out \<and>
    length out = Suc (Suc 0) \<and> list_all (two_way 4 6) out"
proof -
  have "divisible 4 6 2 1 2" by (simp add: divisible_def)
  then show ?thesis
    using rebalance_experts_two_way [OF stable_sort_desc_law first_max_law, of "[[3, 2, 1, 0], [0, 0, 5, 1]]" 4 6 1 2 2]
    by (simp add: list_all_iff)
qed

end
