(* ===== verification/Eplb_Dispatch.thy ===== *)
theory Eplb_Dispatch
  imports Eplb
begin

section \<open>Dispatch of tokens to expert replicas (\<open>runtime/layers/backends/experts/eplb.py\<close>)\<close>

text \<open>
  The table that tells every rank which replica of an expert to use, the metadata kept for all layers, and
  the rewriting of the router's choices from logical to physical experts. The random generator is a state
  with the two operations the code calls, \<open>sample\<close> and \<open>shuffle\<close>, each returning the next state.
\<close>

subsection \<open>The table of a rank\<close>

definition logical_to_all_physical_raw :: "int list \<Rightarrow> int list" where
  "logical_to_all_physical_raw row = filter (\<lambda>e. e \<noteq> - 1) row"

definition compute_gpu_id_of_physical_expert :: "int \<Rightarrow> int \<Rightarrow> int" where
  "compute_gpu_id_of_physical_expert e num_local = e div num_local"

record ('g, 'a) rng =
  rng_sample :: "'g \<Rightarrow> 'a list \<Rightarrow> nat \<Rightarrow> 'a list \<times> 'g"
  rng_shuffle :: "'g \<Rightarrow> 'a list \<Rightarrow> 'a list \<times> 'g"

definition fair_choices :: "('g, 'a) rng \<Rightarrow> 'a list \<Rightarrow> nat \<Rightarrow> 'g \<Rightarrow> ('a list \<times> 'g) res" where
  "fair_choices r arr k g =
     (if arr = [] then Inl ZeroDivisionError
      else (case rng_sample r g arr (k mod length arr) of (extra, g1) \<Rightarrow>
              Inr (rng_shuffle r g1 (concat (replicate (k div length arr) arr) @ extra))))"

text \<open>\<open>out[out == -1] = values\<close>\<close>

fun fill_masked :: "int list \<Rightarrow> int list \<Rightarrow> int list" where
  "fill_masked [] vals = []"
| "fill_masked (x # xs) vals = (if x = - 1 then (case vals of [] \<Rightarrow> x # fill_masked xs [] | v # vs \<Rightarrow> v # fill_masked xs vs)
                                else x # fill_masked xs vals)"

definition local_replica :: "int \<Rightarrow> int list \<Rightarrow> int \<Rightarrow> int" where
  "local_replica num_local candidates gpu =
     (case filter (\<lambda>e. compute_gpu_id_of_physical_expert e num_local = gpu) candidates of
        [] \<Rightarrow> - 1 | e # _ \<Rightarrow> e)"

definition dispatch_expert ::
  "('g, int) rng \<Rightarrow> int \<Rightarrow> int \<Rightarrow> int list \<Rightarrow> 'g \<Rightarrow> (int list \<times> 'g) res" where
  "dispatch_expert r num_local num_gpus row g =
     (let candidates = logical_to_all_physical_raw row;
          partial = map (local_replica num_local candidates) (py_range 0 num_gpus)
      in rbind (check (candidates = [] \<or> num_gpus \<le> 0 \<or> num_local \<noteq> 0) ZeroDivisionError) (\<lambda>_.
         rbind (fair_choices r candidates (length (filter (\<lambda>e. e = - 1) partial)) g) (\<lambda>(choices, g').
         Inr (fill_masked partial choices, g'))))"

fun mapr_state :: "('a \<Rightarrow> 'g \<Rightarrow> ('b \<times> 'g) res) \<Rightarrow> 'a list \<Rightarrow> 'g \<Rightarrow> ('b list \<times> 'g) res" where
  "mapr_state f [] g = Inr ([], g)"
| "mapr_state f (x # xs) g = rbind (f x g) (\<lambda>(y, g'). rbind (mapr_state f xs g') (\<lambda>(ys, g''). Inr (y # ys, g'')))"

text \<open>The table is indexed by layer, logical expert and rank here; the source has the rank first.\<close>

definition compute_logical_to_rank_dispatch_physical_map ::
  "('g, int) rng \<Rightarrow> (int \<Rightarrow> 'g) \<Rightarrow> int list list list \<Rightarrow> int \<Rightarrow> int \<Rightarrow> int \<Rightarrow> int list list list res" where
  "compute_logical_to_rank_dispatch_physical_map r seeded all_physical num_gpus num_physical_experts seed =
     rbind (check (num_gpus \<noteq> 0) ZeroDivisionError) (\<lambda>_.
     rbind (mapr_state (mapr_state (dispatch_expert r (num_physical_experts div num_gpus) num_gpus)) all_physical (seeded seed))
       (\<lambda>(table, _).
     rbind (check (\<forall>layer\<in>set table. \<forall>ranks\<in>set layer. - 1 \<notin> set ranks) AssertionError) (\<lambda>_. Inr table)))"

subsection \<open>Metadata of all layers\<close>

record eplb_metadata =
  em_physical_to_logical_map :: "nat list list"
  em_logical_to_all_physical_map :: "int list list list"
  em_num_valid :: "nat list list"
  em_rank_dispatch :: "int list list list"

text \<open>\<open>F.pad(x, (0, n - x.shape[-1]), value=-1)\<close>: a negative amount crops.\<close>

definition pad_row :: "nat \<Rightarrow> int list \<Rightarrow> int list" where
  "pad_row n row = take n row @ replicate (n - length row) (- 1)"

definition init_raw ::
  "('g, int) rng \<Rightarrow> (int \<Rightarrow> 'g) \<Rightarrow> int \<Rightarrow> nat list list \<Rightarrow> int list list list \<Rightarrow> eplb_metadata res" where
  "init_raw r seeded ep_size phy2log log2phy =
     (let num_physical_experts = length (hd phy2log)
      in rbind (compute_logical_to_rank_dispatch_physical_map r seeded log2phy ep_size (int num_physical_experts) 42) (\<lambda>table.
         Inr \<lparr>em_physical_to_logical_map = phy2log,
              em_logical_to_all_physical_map = map (map (pad_row num_physical_experts)) log2phy,
              em_num_valid = map (map (\<lambda>row. length (filter (\<lambda>e. e \<noteq> - 1) row))) log2phy,
              em_rank_dispatch = table\<rparr>))"

text \<open>\<open>__post_init__\<close>: the tensors agree in the number of layers, logical and physical experts.\<close>

definition metadata_shapes_agree :: "eplb_metadata \<Rightarrow> bool" where
  "metadata_shapes_agree m \<longleftrightarrow>
     (let layers = length (em_physical_to_logical_map m); phys = length (hd (em_physical_to_logical_map m));
          logical = length (hd (em_logical_to_all_physical_map m))
      in length (em_logical_to_all_physical_map m) = layers \<and> length (em_num_valid m) = layers \<and>
         length (em_rank_dispatch m) = layers \<and>
         length (hd (em_num_valid m)) = logical \<and> length (hd (em_rank_dispatch m)) = logical \<and>
         length (hd (hd (em_logical_to_all_physical_map m))) = phys)"

definition default_statistic :: "nat \<Rightarrow> nat \<Rightarrow> real list list" where
  "default_statistic num_routed_experts num_hidden_layers =
     replicate num_hidden_layers (map real (rev [0..<num_routed_experts]))"

text \<open>\<open>statistic\<close>: the loads of the statistics file when the variable names one.\<close>

definition eplb_init ::
  "('g, int) rng \<Rightarrow> (int \<Rightarrow> 'g) \<Rightarrow> (real list \<Rightarrow> nat list) \<Rightarrow> (real list \<Rightarrow> nat) \<Rightarrow> nat \<Rightarrow> nat \<Rightarrow> nat
   \<Rightarrow> real list list res option \<Rightarrow> nat \<Rightarrow> nat \<Rightarrow> nat \<Rightarrow> eplb_metadata res" where
  "eplb_init r seeded sort_desc argmax num_groups ranks_per_node num_redundant_experts statistic
     ep_size num_routed_experts num_hidden_layers =
     rbind (case statistic of
              None \<Rightarrow> Inr (default_statistic num_routed_experts num_hidden_layers)
            | Some (Inl e) \<Rightarrow> Inl (RuntimeErr ''Load eplb experts statistic data failed'')
            | Some (Inr s) \<Rightarrow>
                rbind (check (length s = num_hidden_layers \<and> (\<forall>row\<in>set s. length row = num_routed_experts)) AssertionError)
                  (\<lambda>_. Inr s)) (\<lambda>stat.
     rbind (check (ep_size < ranks_per_node \<or> ranks_per_node \<noteq> 0) ZeroDivisionError) (\<lambda>_.
     let num_nodes = (if ep_size < ranks_per_node then 1 else ep_size div ranks_per_node);
         num_physical_experts = num_routed_experts + num_redundant_experts
     in rbind (rebalance_experts sort_desc argmax stat num_physical_experts num_groups num_nodes ep_size) (\<lambda>layers.
        rbind (init_raw r seeded (int ep_size) (map fst layers) (map (\<lambda>m. fst (snd m)) layers)) (\<lambda>m.
        rbind (check (metadata_shapes_agree m) AssertionError) (\<lambda>_. Inr m)))))"

subsection \<open>Routing tokens\<close>

record dispatch_info =
  di_rank_dispatch :: "int list"
  di_all_physical :: "int list list"
  di_num_valid :: "nat list"
  di_cursor :: "int list option"

text \<open>\<open>EPLBDispatchInfo.init_new\<close>: a new value for every forward call, without a cursor.\<close>

definition init_new :: "nat \<Rightarrow> nat \<Rightarrow> eplb_metadata option \<Rightarrow> dispatch_info res" where
  "init_new ep_rank layer_idx metadata =
     (case metadata of
        None \<Rightarrow> Inl AssertionError
      | Some m \<Rightarrow>
          rbind (check (layer_idx < length (em_rank_dispatch m) \<and>
                        (\<forall>ranks\<in>set (em_rank_dispatch m ! layer_idx). ep_rank < length ranks)) IndexError) (\<lambda>_.
          Inr \<lparr>di_rank_dispatch = map (\<lambda>ranks. ranks ! ep_rank) (em_rank_dispatch m ! layer_idx),
               di_all_physical = em_logical_to_all_physical_map m ! layer_idx,
               di_num_valid = em_num_valid m ! layer_idx, di_cursor = None\<rparr>))"

definition valid_ids :: "int list \<Rightarrow> nat list" where
  "valid_ids topk_ids = map (\<lambda>i. if 0 \<le> i then nat i else 0) topk_ids"

text \<open>Position of every element within its group of equal neighbours (\<open>cumsum\<close>, \<open>masked_fill\<close>, \<open>cummax\<close>).\<close>

definition group_starts :: "nat list \<Rightarrow> nat list" where
  "group_starts xs = map (\<lambda>i. if i = 0 \<or> xs ! i \<noteq> xs ! (i - 1) then Suc i else 0) [0..<length xs]"

definition cummax :: "nat list \<Rightarrow> nat list" where
  "cummax xs = map (\<lambda>i. Max (set (take (Suc i) xs))) [0..<length xs]"

definition rank_within_group :: "nat list \<Rightarrow> nat list" where
  "rank_within_group xs = map2 (-) (map Suc [0..<length xs]) (cummax (group_starts xs))"

definition scatter :: "nat list \<Rightarrow> 'a list \<Rightarrow> 'a list \<Rightarrow> 'a list" where
  "scatter idx vals out = fold (\<lambda>(v, i) out. out[i := v]) (zip vals idx) out"

definition dispatch_indices :: "(nat list \<Rightarrow> nat list) \<Rightarrow> int list \<Rightarrow> nat list \<Rightarrow> int list res" where
  "dispatch_indices sort_asc cursor ids =
     (let order = sort_asc ids; sorted_ids = gather ids order
      in rbind (check (\<forall>i\<in>set ids. i < length cursor) IndexError) (\<lambda>_.
         Inr (scatter order (map2 (\<lambda>i r. cursor ! i + int r) sorted_ids (rank_within_group sorted_ids))
                (replicate (length ids) 0))))"

datatype num_kind = IntKind | FloatKind

text \<open>\<open>torch.bincount\<close> with weights counts in floating point; an integer tensor refuses a floating summand.\<close>

definition bincount_kind :: "bool \<Rightarrow> num_kind" where
  "bincount_kind weighted = (if weighted then FloatKind else IntKind)"

definition add_in_place :: "num_kind \<Rightarrow> int list \<Rightarrow> num_kind \<Rightarrow> int list \<Rightarrow> int list res" where
  "add_in_place kind xs kind' ys =
     (if kind = IntKind \<and> kind' = FloatKind then Inl (RuntimeErr ''result type cannot be cast to the output type'')
      else if length xs \<noteq> length ys then Inl (RuntimeErr ''size mismatch'') else Inr (map2 (+) xs ys))"

definition bincount :: "nat list \<Rightarrow> int list \<Rightarrow> nat \<Rightarrow> int list" where
  "bincount ids weights minlength =
     map (\<lambda>v. \<Sum>(i, w) \<leftarrow> zip ids weights. if i = v then w else 0) [0..<max minlength (if ids = [] then 0 else Suc (Max (set ids)))]"

definition physical_ids :: "dispatch_info \<Rightarrow> nat list \<Rightarrow> int list \<Rightarrow> int list res" where
  "physical_ids info ids chosen =
     mapr (\<lambda>(i, c). py_nth (di_all_physical info ! i) (c mod int (max 1 (di_num_valid info ! i)))) (zip ids chosen)"

definition topk_ids_logical_to_physical ::
  "(nat list \<Rightarrow> nat list) \<Rightarrow> int list \<Rightarrow> dispatch_info option \<Rightarrow> (int list \<times> dispatch_info option) res" where
  "topk_ids_logical_to_physical sort_asc topk_ids info =
     (case info of
        None \<Rightarrow> Inr (topk_ids, None)
      | Some info \<Rightarrow>
          (let ids = valid_ids topk_ids;
               cursor = (case di_cursor info of None \<Rightarrow> replicate (length (di_num_valid info)) 0 | Some c \<Rightarrow> c)
           in rbind (dispatch_indices sort_asc cursor ids) (\<lambda>chosen.
              rbind (add_in_place IntKind cursor (bincount_kind True)
                       (bincount ids (map (\<lambda>i. if 0 \<le> i then 1 else 0) topk_ids) (length cursor))) (\<lambda>cursor'.
              rbind (check (\<forall>i\<in>set ids. i < length (di_all_physical info)) IndexError) (\<lambda>_.
              rbind (physical_ids info ids chosen) (\<lambda>phys.
              Inr (map2 (\<lambda>i p. if 0 \<le> i then p else - 1) topk_ids phys, Some (info\<lparr>di_cursor := Some cursor'\<rparr>))))))))"

subsection \<open>Every rank gets a replica\<close>

text \<open>What the generator promises: a sample without replacement and a permutation.\<close>

definition rng_doc :: "('g, 'a) rng \<Rightarrow> bool" where
  "rng_doc r \<longleftrightarrow> (\<forall>g xs k. k \<le> length xs \<longrightarrow>
       mset (fst (rng_sample r g xs k)) \<subseteq># mset xs \<and> length (fst (rng_sample r g xs k)) = k) \<and>
     (\<forall>g xs. mset (fst (rng_shuffle r g xs)) = mset xs)"

lemma count_concat_replicate: "count (mset (concat (replicate n xs))) x = n * count (mset xs) x"
  by (induction n) auto

lemma fair_choices_ok:
  assumes "rng_doc r" "distinct arr" "arr \<noteq> []"
  shows "\<exists>res g'. fair_choices r arr k g = Inr (res, g') \<and> length res = k \<and> set res \<subseteq> set arr \<and>
    (\<forall>a\<in>set arr. \<forall>b\<in>set arr. count (mset res) a \<le> count (mset res) b + 1)"
proof -
  let ?q = "k div length arr" and ?m = "k mod length arr"
  obtain extra g1 where extra: "rng_sample r g arr ?m = (extra, g1)" by (cases "rng_sample r g arr ?m")
  obtain res g2 where res: "rng_shuffle r g1 (concat (replicate ?q arr) @ extra) = (res, g2)"
    by (cases "rng_shuffle r g1 (concat (replicate ?q arr) @ extra)")
  have "?m \<le> length arr" using assms(3) by (simp add: less_imp_le)
  then have sub: "mset extra \<subseteq># mset arr" "length extra = ?m" using assms(1) extra unfolding rng_doc_def by (metis fst_conv)+
  have m: "mset res = mset (concat (replicate ?q arr)) + mset extra"
    using assms(1) res unfolding rng_doc_def by (metis fst_conv mset_append)
  have cnt: "count (mset res) a = ?q + count (mset extra) a" "count (mset extra) a \<le> 1" if "a \<in> set arr" for a
    using m that assms(2) mset_subset_eq_count [OF sub(1), of a] by (auto simp: count_concat_replicate distinct_count_atmost_1)
  have "length res = ?q * length arr + ?m"
    using arg_cong [OF m, of size] sub(2) by (simp add: length_concat sum_list_replicate)
  moreover have "set res \<subseteq> set arr"
    using arg_cong [OF m, of set_mset] set_mset_mono [OF sub(1)] by auto
  moreover have "count (mset res) a \<le> count (mset res) b + 1" if "a \<in> set arr" "b \<in> set arr" for a b
    using cnt [OF that(1)] cnt(1) [OF that(2)] by linarith
  moreover have "fair_choices r arr k g = Inr (res, g2)" using extra res assms(3) by (simp add: fair_choices_def)
  ultimately show ?thesis by (simp add: mult.commute)
qed

lemma length_fill_masked [simp]: "length (fill_masked xs vals) = length xs"
  by (induction xs vals rule: fill_masked.induct) (auto split: list.splits)

lemma fill_masked_kept:
  "i < length xs \<Longrightarrow> xs ! i \<noteq> - 1 \<Longrightarrow> fill_masked xs vals ! i = xs ! i"
  by (induction xs arbitrary: i vals) (auto simp: nth_Cons split: list.splits nat.splits)

lemma fill_masked_filled:
  assumes "length vals = length (filter (\<lambda>gpu. f gpu = - 1) gpus)"
  shows "map snd (filter (\<lambda>(gpu, e). f gpu = - 1) (zip gpus (fill_masked (map f gpus) vals))) = vals"
  using assms
proof (induction gpus arbitrary: vals)
  case (Cons gpu gpus)
  show ?case
  proof (cases "f gpu = - 1")
    case True
    then obtain v vs where "vals = v # vs" using Cons.prems by (cases vals) auto
    then show ?thesis using Cons.IH [of vs] Cons.prems True by simp
  qed (use Cons.IH [of vals] Cons.prems in simp)
qed simp

text \<open>What the ranks without a replica of their own use.\<close>

definition remote_choices :: "int \<Rightarrow> int list \<Rightarrow> int list \<Rightarrow> int list" where
  "remote_choices num_local candidates ranks =
     map snd (filter (\<lambda>(gpu, e). local_replica num_local candidates gpu = - 1) (zip (py_range 0 (py_len ranks)) ranks))"

definition dispatch_sound :: "int \<Rightarrow> nat \<Rightarrow> int list \<Rightarrow> int list \<Rightarrow> bool" where
  "dispatch_sound num_local num_gpus candidates ranks \<longleftrightarrow>
     length ranks = num_gpus \<and> set ranks \<subseteq> set candidates \<and>
     (\<forall>gpu<num_gpus. (\<exists>e\<in>set candidates. compute_gpu_id_of_physical_expert e num_local = int gpu) \<longrightarrow>
        compute_gpu_id_of_physical_expert (ranks ! gpu) num_local = int gpu) \<and>
     (\<forall>a\<in>set candidates. \<forall>b\<in>set candidates.
        count (mset (remote_choices num_local candidates ranks)) a \<le> count (mset (remote_choices num_local candidates ranks)) b + 1)"

lemma local_replica_cases:
  assumes "- 1 \<notin> set candidates"
  shows "local_replica nl candidates gpu \<noteq> - 1 \<longleftrightarrow> (\<exists>e\<in>set candidates. compute_gpu_id_of_physical_expert e nl = gpu)"
    and "local_replica nl candidates gpu \<noteq> - 1 \<Longrightarrow> local_replica nl candidates gpu \<in> set candidates \<and>
      compute_gpu_id_of_physical_expert (local_replica nl candidates gpu) nl = gpu"
proof -
  let ?hits = "filter (\<lambda>e. compute_gpu_id_of_physical_expert e nl = gpu) candidates"
  have both: "(local_replica nl candidates gpu = - 1 \<and> (\<forall>e\<in>set candidates. compute_gpu_id_of_physical_expert e nl \<noteq> gpu)) \<or>
      (local_replica nl candidates gpu \<in> set candidates \<and>
       compute_gpu_id_of_physical_expert (local_replica nl candidates gpu) nl = gpu)"
  proof (cases ?hits)
    case Nil
    then show ?thesis by (simp add: local_replica_def filter_empty_conv)
  next
    case (Cons e es)
    have "e \<in> set candidates \<and> compute_gpu_id_of_physical_expert e nl = gpu"
      using arg_cong [OF Cons, of set] by auto
    then show ?thesis using Cons by (simp add: local_replica_def)
  qed
  then show "local_replica nl candidates gpu \<noteq> - 1 \<longleftrightarrow> (\<exists>e\<in>set candidates. compute_gpu_id_of_physical_expert e nl = gpu)"
    using assms by metis
  show "local_replica nl candidates gpu \<noteq> - 1 \<Longrightarrow> local_replica nl candidates gpu \<in> set candidates \<and>
      compute_gpu_id_of_physical_expert (local_replica nl candidates gpu) nl = gpu"
    using both by blast
qed

lemma dispatch_expert_ok:
  assumes "rng_doc r" "distinct (logical_to_all_physical_raw row)" "logical_to_all_physical_raw row \<noteq> []" "nl \<noteq> 0"
  shows "\<exists>ranks g'. dispatch_expert r nl (int n) row g = Inr (ranks, g') \<and>
    dispatch_sound nl n (logical_to_all_physical_raw row) ranks"
proof -
  let ?c = "logical_to_all_physical_raw row" and ?gpus = "py_range 0 (int n)"
  let ?f = "local_replica nl ?c" and ?partial = "map (local_replica nl ?c) ?gpus"
  have no: "- 1 \<notin> set ?c" by (simp add: logical_to_all_physical_raw_def)
  obtain res g' where res: "fair_choices r ?c (length (filter (\<lambda>e. e = - 1) ?partial)) g = Inr (res, g')"
    "length res = length (filter (\<lambda>gpu. ?f gpu = - 1) ?gpus)" "set res \<subseteq> set ?c"
    "\<forall>a\<in>set ?c. \<forall>b\<in>set ?c. count (mset res) a \<le> count (mset res) b + 1"
    using fair_choices_ok [OF assms(1-3), of "length (filter (\<lambda>e. e = - 1) ?partial)" g]
    by (auto simp: filter_map comp_def)
  let ?ranks = "fill_masked ?partial res"
  have remote: "remote_choices nl ?c ?ranks = res"
    using fill_masked_filled [OF res(2)] by (simp add: remote_choices_def py_len_def)
  have "?ranks ! i \<in> set ?c \<and> ((\<exists>e\<in>set ?c. compute_gpu_id_of_physical_expert e nl = int i) \<longrightarrow>
      compute_gpu_id_of_physical_expert (?ranks ! i) nl = int i)" if i: "i < n" for i
  proof (cases "?f (int i) = - 1")
    case True
    then have "(int i, ?ranks ! i) \<in> set (filter (\<lambda>(gpu, e). ?f gpu = - 1) (zip ?gpus ?ranks))"
      using i by (auto simp: in_set_zip intro!: exI [of _ i])
    then have "snd (int i, ?ranks ! i) \<in> set (map snd (filter (\<lambda>(gpu, e). ?f gpu = - 1) (zip ?gpus ?ranks)))"
      unfolding set_map by (rule imageI)
    then have "?ranks ! i \<in> set res" unfolding fill_masked_filled [OF res(2)] by simp
    then show ?thesis using res(3) True local_replica_cases(1) [OF no] by blast
  next
    case False
    then have "?ranks ! i = ?f (int i)" using fill_masked_kept [of i ?partial res] i by simp
    then show ?thesis using local_replica_cases(2) [OF no False] by simp
  qed
  moreover have "length ?ranks = n" by simp
  ultimately have "dispatch_sound nl n ?c ?ranks"
    using res(4) unfolding dispatch_sound_def remote by (auto simp: set_conv_nth)
  then show ?thesis using res(1) assms(4) by (auto simp: dispatch_expert_def Let_def)
qed

lemma mapr_state_ok:
  assumes "\<And>x g. x \<in> set xs \<Longrightarrow> \<exists>y g'. f x g = Inr (y, g') \<and> P x y"
  shows "\<exists>ys g'. mapr_state f xs g = Inr (ys, g') \<and> list_all2 P xs ys"
  using assms
proof (induction xs arbitrary: g)
  case (Cons x xs)
  obtain y g1 where "f x g = Inr (y, g1)" "P x y" using Cons.prems [of x g] by auto
  moreover obtain ys g2 where "mapr_state f xs g1 = Inr (ys, g2)" "list_all2 P xs ys"
    using Cons.IH [of g1] Cons.prems by auto
  ultimately show ?case by auto
qed simp

lemma two_way_row:
  assumes "two_way n phy (p2l, l2p, cnt)" "l < n"
  shows "logical_to_all_physical_raw (l2p ! l) = take (cnt ! l) (l2p ! l)"
    and "distinct (logical_to_all_physical_raw (l2p ! l))" "logical_to_all_physical_raw (l2p ! l) \<noteq> []"
    and "set (logical_to_all_physical_raw (l2p ! l)) = int ` {k. k < phy \<and> p2l ! k = l}"
proof -
  let ?row = "l2p ! l" and ?c = "cnt ! l"
  have row: "0 < ?c" "?c \<le> length ?row" "distinct (take ?c ?row)" "set (take ?c ?row) = int ` {k. k < phy \<and> p2l ! k = l}"
    "set (drop ?c ?row) \<subseteq> {- 1}"
    using assms by (simp_all add: two_way_def)
  have pos: "\<forall>e\<in>set (take ?c ?row). e \<noteq> - 1" unfolding row(4) by auto
  have "filter (\<lambda>e. e \<noteq> - 1) (drop ?c ?row) = []" using row(5) by (auto simp: filter_empty_conv)
  moreover have "filter (\<lambda>e. e \<noteq> - 1) (take ?c ?row) = take ?c ?row" using pos by (simp add: filter_id_conv)
  ultimately show eq: "logical_to_all_physical_raw ?row = take ?c ?row"
    unfolding logical_to_all_physical_raw_def by (metis append_Nil2 append_take_drop_id filter_append)
  show "distinct (logical_to_all_physical_raw ?row)" "set (logical_to_all_physical_raw ?row) = int ` {k. k < phy \<and> p2l ! k = l}"
    "logical_to_all_physical_raw ?row \<noteq> []"
    unfolding eq using row by auto
qed

lemma dispatch_map_ok:
  assumes "rng_doc r" "0 < n" "n \<le> phy" "\<forall>layer\<in>set maps. \<forall>row\<in>set layer. distinct (logical_to_all_physical_raw row) \<and> logical_to_all_physical_raw row \<noteq> []"
  shows "\<exists>table. compute_logical_to_rank_dispatch_physical_map r seeded maps (int n) (int phy) seed = Inr table \<and>
    list_all2 (list_all2 (\<lambda>row. dispatch_sound (int phy div int n) n (logical_to_all_physical_raw row))) maps table"
proof -
  let ?nl = "int phy div int n" and ?P = "\<lambda>row. dispatch_sound (int phy div int n) n (logical_to_all_physical_raw row)"
  have nl: "?nl \<noteq> 0" using assms(2,3) by (simp add: zdiv_int [symmetric] div_greater_zero_iff)
  have "\<exists>ys g'. mapr_state (dispatch_expert r ?nl (int n)) layer g = Inr (ys, g') \<and> list_all2 ?P layer ys"
    if "layer \<in> set maps" for layer g
    using that assms(4) by (intro mapr_state_ok dispatch_expert_ok [OF assms(1) _ _ nl]) auto
  then obtain table g' where table: "mapr_state (mapr_state (dispatch_expert r ?nl (int n))) maps (seeded seed) = Inr (table, g')"
    "list_all2 (list_all2 ?P) maps table"
    using mapr_state_ok [of maps "mapr_state (dispatch_expert r ?nl (int n))" "list_all2 ?P" "seeded seed"] by blast
  have "- 1 \<notin> set ranks" if ranks: "ranks \<in> set ys" "ys \<in> set table" for ranks ys
  proof -
    obtain i where "i < length table" "ys = table ! i" using ranks(2) by (auto simp: in_set_conv_nth)
    then have "list_all2 ?P (maps ! i) ys" using table(2) by (simp add: list_all2_conv_all_nth)
    then obtain row where "?P row ranks" using ranks(1) by (auto simp: list_all2_conv_all_nth in_set_conv_nth)
    then show ?thesis by (auto simp: dispatch_sound_def logical_to_all_physical_raw_def)
  qed
  then have "\<forall>layer\<in>set table. \<forall>ranks\<in>set layer. - 1 \<notin> set ranks" by blast
  then show ?thesis
    using table assms(2) by (simp add: compute_logical_to_rank_dispatch_physical_map_def)
qed

lemma dispatch_sound_set:
  assumes "dispatch_sound nl n c ranks" "set c = set c'" "- 1 \<notin> set c"
  shows "dispatch_sound nl n c' ranks"
proof -
  have "local_replica nl c gpu = - 1 \<longleftrightarrow> local_replica nl c' gpu = - 1" for gpu
    using local_replica_cases(1) [of c nl gpu] local_replica_cases(1) [of c' nl gpu] assms(2,3) by auto
  then have "remote_choices nl c ranks = remote_choices nl c' ranks" by (simp add: remote_choices_def)
  then show ?thesis using assms(1,2) by (simp add: dispatch_sound_def)
qed

text \<open>
  C24: the start-up of expert-parallel load balancing succeeds and every rank gets a usable replica. For every
  layer, expert and rank the table names a physical expert that exists and holds that very expert; when a replica
  lives on the rank itself the table names one of those; and the remaining ranks are spread over the replicas so
  that no replica serves two more of them than another. The loads, tie breaking and random choices are arbitrary.
\<close>

theorem eplb_init_dispatch:
  assumes "sorts_indices sort_desc" "finds_max argmax" "rng_doc r"
    and "0 < layers" "0 < experts" "0 < ep_size" "ep_size \<le> experts + redundant" "0 < ranks_per_node"
    and "nodes = (if ep_size < ranks_per_node then 1 else ep_size div ranks_per_node)"
    and "nodes dvd groups \<longrightarrow> divisible experts (experts + redundant) groups nodes ep_size"
    and "\<forall>res. statistic = Some res \<longrightarrow> (\<exists>s. res = Inr s \<and> length s = layers \<and>
           (\<forall>row\<in>set s. length row = experts \<and> (\<forall>x\<in>set row. 0 \<le> x)))"
  shows "\<exists>m. eplb_init r seeded sort_desc argmax groups ranks_per_node redundant statistic ep_size experts layers = Inr m \<and>
    (\<forall>layer<layers. \<forall>expert<experts.
      dispatch_sound (int (experts + redundant) div int ep_size) ep_size
        (map int (filter (\<lambda>p. em_physical_to_logical_map m ! layer ! p = expert) [0..<experts + redundant]))
        (em_rank_dispatch m ! layer ! expert))"
proof -
  let ?phy = "experts + redundant"
  define stat where "stat = (case statistic of Some (Inr s) \<Rightarrow> s | _ \<Rightarrow> default_statistic experts layers)"
  have load: "(case statistic of None \<Rightarrow> Inr (default_statistic experts layers)
        | Some (Inl e) \<Rightarrow> Inl (RuntimeErr ''Load eplb experts statistic data failed'')
        | Some (Inr s) \<Rightarrow> rbind (check (length s = layers \<and> (\<forall>row\<in>set s. length row = experts)) AssertionError) (\<lambda>_. Inr s))
      = Inr stat"
    using assms(11) by (cases statistic) (auto simp: stat_def)
  have stat: "length stat = layers" "\<forall>row\<in>set stat. length row = experts \<and> (\<forall>x\<in>set row. 0 \<le> x)"
    using assms(11) by (cases statistic; fastforce simp: stat_def default_statistic_def)+
  have "0 < nodes" using assms(8,9) by (simp add: div_greater_zero_iff)
  then obtain out where out: "rebalance_experts sort_desc argmax stat ?phy groups nodes ep_size = Inr out"
    "length out = layers" "\<forall>m\<in>set out. two_way experts ?phy m"
    using rebalance_experts_two_way [OF assms(1,2) _ stat(2) assms(5), of ?phy nodes groups ep_size] assms(4,10) stat(1) by auto
  let ?p2l = "map fst out" and ?l2p = "map (\<lambda>m. fst (snd m)) out"
  have rows: "\<forall>layer\<in>set ?l2p. \<forall>row\<in>set layer. distinct (logical_to_all_physical_raw row) \<and> logical_to_all_physical_raw row \<noteq> []"
  proof (intro ballI)
    fix layer row assume "layer \<in> set ?l2p" "row \<in> set layer"
    then obtain p c where m: "(p, layer, c) \<in> set out" by auto
    then have "two_way experts ?phy (p, layer, c)" using out(3) by blast
    moreover obtain l where "l < length layer" "row = layer ! l" using \<open>row \<in> set layer\<close> by (auto simp: in_set_conv_nth)
    moreover have "length layer = experts" using \<open>two_way experts ?phy (p, layer, c)\<close> by (simp add: two_way_def)
    ultimately show "distinct (logical_to_all_physical_raw row) \<and> logical_to_all_physical_raw row \<noteq> []"
      using two_way_row(2,3) by blast
  qed
  obtain table where table: "compute_logical_to_rank_dispatch_physical_map r seeded ?l2p (int ep_size) (int ?phy) 42 = Inr table"
    "list_all2 (list_all2 (\<lambda>row. dispatch_sound (int ?phy div int ep_size) ep_size (logical_to_all_physical_raw row))) ?l2p table"
    using dispatch_map_ok [OF assms(3,6,7) rows] by blast
  let ?m = "\<lparr>em_physical_to_logical_map = ?p2l, em_logical_to_all_physical_map = map (map (pad_row ?phy)) ?l2p,
      em_num_valid = map (map (\<lambda>row. length (filter (\<lambda>e. e \<noteq> - 1) row))) ?l2p, em_rank_dispatch = table\<rparr>"
  obtain p0 l0 c0 rest where first: "out = (p0, l0, c0) # rest" using out(2) assms(4) by (cases out) auto
  then have first_way: "two_way experts ?phy (p0, l0, c0)" using out(3) by simp
  then have phy: "length (hd ?p2l) = ?phy" and l0: "length l0 = experts" using first by (simp_all add: two_way_def)
  have "init_raw r seeded (int ep_size) ?p2l ?l2p = Inr ?m" using table(1) unfolding init_raw_def phy Let_def by simp
  moreover have "metadata_shapes_agree ?m"
    using first l0 assms(5) phy list_all2_lengthD [OF table(2)] table(2)
    by (cases table; cases l0) (auto simp: metadata_shapes_agree_def Let_def pad_row_def dest: list_all2_lengthD)
  ultimately have init: "eplb_init r seeded sort_desc argmax groups ranks_per_node redundant statistic ep_size experts layers = Inr ?m"
    using load out(1) assms(8,9) by (simp add: eplb_init_def Let_def)
  have "dispatch_sound (int ?phy div int ep_size) ep_size (map int (filter (\<lambda>p. ?p2l ! layer ! p = expert) [0..<?phy])) (table ! layer ! expert)"
    if "layer < layers" "expert < experts" for layer expert
  proof -
    obtain p l c where m: "out ! layer = (p, l, c)" by (cases "out ! layer")
    then have way: "two_way experts ?phy (p, l, c)" using out(2,3) that(1) by (metis nth_mem)
    then have "dispatch_sound (int ?phy div int ep_size) ep_size (logical_to_all_physical_raw (l ! expert)) (table ! layer ! expert)"
      using table(2) m out(2) that by (auto simp: list_all2_conv_all_nth two_way_def)
    then show ?thesis
      by (rule dispatch_sound_set) (use two_way_row(4) [OF way that(2)] m that(1) out(2) in auto)
  qed
  then show ?thesis using init by auto
qed

definition plain_rng :: "(unit, 'a) rng" where
  "plain_rng = \<lparr>rng_sample = (\<lambda>g xs k. (take k xs, g)), rng_shuffle = (\<lambda>g xs. (xs, g))\<rparr>"

lemma plain_rng_law: "rng_doc plain_rng"
proof -
  have "mset (take k xs) \<subseteq># mset xs" for k and xs :: "'a list"
    by (metis append_take_drop_id mset_append mset_subset_eq_add_left)
  then show ?thesis by (auto simp: rng_doc_def plain_rng_def)
qed

theorem eplb_init_dispatch_witness:
  "\<exists>m. eplb_init plain_rng (\<lambda>_. ()) stable_sort_desc first_max 2 8 2 None 2 4 1 = Inr m \<and>
    dispatch_sound 3 2 (map int (filter (\<lambda>p. em_physical_to_logical_map m ! 0 ! p = 0) [0..<6])) (em_rank_dispatch m ! 0 ! 0) \<and>
    dispatch_sound 3 2 (map int (filter (\<lambda>p. em_physical_to_logical_map m ! 0 ! p = 3) [0..<6])) (em_rank_dispatch m ! 0 ! 3)"
proof -
  have "divisible 4 (4 + 2) 2 1 2" by (simp add: divisible_def)
  then show ?thesis
    using eplb_init_dispatch [OF stable_sort_desc_law first_max_law plain_rng_law, of 1 4 2 2 8 1 2 None "\<lambda>_. ()"] by auto
qed

subsection \<open>Round robin over the replicas\<close>

definition sorts_ids :: "(nat list \<Rightarrow> nat list) \<Rightarrow> bool" where
  "sorts_ids f \<longleftrightarrow> (\<forall>xs. distinct (f xs) \<and> set (f xs) = {..<length xs} \<and> sorted (gather xs (f xs)))"

lemma cummax_nth_Suc:
  assumes "Suc i < length xs"
  shows "cummax xs ! Suc i = max (cummax xs ! i) (xs ! Suc i)"
proof -
  have "set (take (Suc (Suc i)) xs) = insert (xs ! Suc i) (set (take (Suc i) xs))"
    using assms by (simp add: take_Suc_conv_app_nth insert_commute)
  moreover have "set (take (Suc i) xs) \<noteq> {}" using assms by auto
  ultimately show ?thesis using assms by (simp add: cummax_def max.commute)
qed

lemma cummax_group_starts_le: "i < length xs \<Longrightarrow> cummax (group_starts xs) ! i \<le> Suc i"
proof (induction i)
  case 0
  then show ?case by (simp add: cummax_def group_starts_def take_Suc_conv_app_nth)
next
  case (Suc i)
  then show ?case using cummax_nth_Suc [of i "group_starts xs"] by (simp add: group_starts_def)
qed

lemma count_list_take_Suc:
  "i < length xs \<Longrightarrow> count_list (take (Suc i) xs) x = count_list (take i xs) x + (if xs ! i = x then 1 else 0)"
  by (simp add: take_Suc_conv_app_nth)

lemma rank_within_group_nth:
  assumes "sorted xs" "i < length xs"
  shows "rank_within_group xs ! i = count_list (take i xs) (xs ! i)"
proof -
  have len: "length (cummax (group_starts xs)) = length xs" by (simp add: cummax_def group_starts_def)
  have "Suc i - cummax (group_starts xs) ! i = count_list (take i xs) (xs ! i)" using assms(2)
  proof (induction i)
    case 0
    then show ?case by (simp add: cummax_def group_starts_def take_Suc_conv_app_nth)
  next
    case (Suc i)
    let ?cm = "cummax (group_starts xs)"
    have step: "?cm ! Suc i = max (?cm ! i) (group_starts xs ! Suc i)"
      using cummax_nth_Suc [of i "group_starts xs"] Suc.prems by (simp add: group_starts_def)
    have le: "?cm ! i \<le> Suc i" using cummax_group_starts_le [of i xs] Suc.prems by simp
    show ?case
    proof (cases "xs ! Suc i = xs ! i")
      case True
      then have "?cm ! Suc i = ?cm ! i" using step Suc.prems by (simp add: group_starts_def)
      then show ?thesis using Suc le True by (simp add: count_list_take_Suc Suc_diff_le)
    next
      case False
      then have "?cm ! Suc i = Suc (Suc i)" using step Suc.prems le by (simp add: group_starts_def)
      moreover have "xs ! Suc i \<notin> set (take (Suc i) xs)"
      proof
        assume "xs ! Suc i \<in> set (take (Suc i) xs)"
        then obtain j where "j \<le> i" "xs ! j = xs ! Suc i"
          by (metis in_set_conv_nth length_take less_Suc_eq_le min_less_iff_conj nth_take)
        moreover have "xs ! j \<le> xs ! i" "xs ! i \<le> xs ! Suc i"
          using sorted_nth_mono [OF assms(1)] \<open>j \<le> i\<close> Suc.prems by simp_all
        ultimately show False using False by simp
      qed
      ultimately show ?thesis by (simp add: count_list_0_iff)
    qed
  qed
  then show ?thesis using assms(2) len by (simp add: rank_within_group_def)
qed

lemma count_list_take_mono: "i \<le> j \<Longrightarrow> count_list (take i xs) x \<le> count_list (take j xs) x"
proof -
  assume "i \<le> j"
  then have "take j xs = take i xs @ take (j - i) (drop i xs)" by (metis le_add_diff_inverse take_add)
  then show ?thesis by simp
qed

lemma count_list_take_less:
  assumes "i < j" "j \<le> length xs" "xs ! i = x"
  shows "count_list (take i xs) x < count_list (take j xs) x"
  using count_list_take_Suc [of i xs x] count_list_take_mono [of "Suc i" j xs x] assms by simp

lemma count_list_card: "count_list xs x = card {i. i < length xs \<and> xs ! i = x}"
proof -
  have "{i. i < length xs \<and> xs ! i = x} = {i. i < length xs \<and> x = xs ! i}" by auto
  then show ?thesis by (simp add: count_list_eq_length_filter length_filter_conv_card)
qed

text \<open>The tokens of one expert get consecutive indices, in some order.\<close>

lemma dispatch_indices_consecutive:
  assumes sort: "sorts_ids sort_asc" and ids: "\<forall>i\<in>set ids. i < length cursor"
  shows "\<exists>chosen. dispatch_indices sort_asc cursor ids = Inr chosen \<and> length chosen = length ids \<and>
    (\<forall>e. bij_betw (\<lambda>t. chosen ! t) {t. t < length ids \<and> ids ! t = e} {cursor ! e..<cursor ! e + int (count_list ids e)})"
proof -
  let ?o = "sort_asc ids" and ?s = "gather ids (sort_asc ids)"
  have o: "distinct ?o" "set ?o = {..<length ids}" "sorted ?s" using sort by (simp_all add: sorts_ids_def)
  then have lo: "length ?o = length ids" by (metis card_lessThan distinct_card)
  let ?vals = "map2 (\<lambda>i r. cursor ! i + int r) ?s (rank_within_group ?s)"
  have ls: "length ?s = length ids" "length (rank_within_group ?s) = length ids"
    using lo by (simp_all add: gather_def rank_within_group_def cummax_def group_starts_def)
  define chosen where "chosen = scatter ?o ?vals (replicate (length ids) 0)"
  have snth: "?s ! s = ids ! (?o ! s)" if "s < length ids" for s using that lo by (simp add: gather_def)
  have val: "chosen ! (?o ! s) = cursor ! (?s ! s) + int (count_list (take s ?s) (?s ! s))" if s: "s < length ids" for s
  proof -
    have "\<forall>(v, i)\<in>set (zip ?vals ?o). chosen ! i = v"
      unfolding chosen_def scatter_def by (rule conjunct1 [OF scatter_nth]) (use o lo ls in \<open>auto dest: set_zip_rightD\<close>)
    moreover have "(?vals ! s, ?o ! s) \<in> set (zip ?vals ?o)" using s lo ls by (auto simp: in_set_zip intro!: exI [of _ s])
    ultimately have "chosen ! (?o ! s) = ?vals ! s" by fast
    then show ?thesis using s ls rank_within_group_nth [OF o(3), of s] by simp
  qed
  have onto: "\<exists>s<length ids. t = ?o ! s" if "t < length ids" for t using that o(2) lo by (metis in_set_conv_nth lessThan_iff)
  have total: "count_list ?s e = count_list ids e" for e
  proof -
    have "mset ?s = mset ids"
      using o(1,2) lo by (simp add: gather_def) (metis atLeast_upt distinct_upt map_nth mset_map set_eq_iff_mset_eq_distinct)
    then show ?thesis by (metis count_mset)
  qed
  have "bij_betw (\<lambda>t. chosen ! t) {t. t < length ids \<and> ids ! t = e} {cursor ! e..<cursor ! e + int (count_list ids e)}" for e
    unfolding bij_betw_def
  proof
    let ?A = "{t. t < length ids \<and> ids ! t = e}" and ?B = "{cursor ! e..<cursor ! e + int (count_list ids e)}"
    show inj: "inj_on (\<lambda>t. chosen ! t) ?A"
    proof (rule inj_onI)
      fix t t' assume tt: "t \<in> ?A" "t' \<in> ?A" "chosen ! t = chosen ! t'"
      then obtain s s' where s: "s < length ids" "t = ?o ! s" "s' < length ids" "t' = ?o ! s'" using onto by blast
      then have "count_list (take s ?s) e = count_list (take s' ?s) e" using tt val snth by simp
      then have "s = s'"
        using count_list_take_less [of s s' ?s e] count_list_take_less [of s' s ?s e] s tt(1,2) snth ls(1)
        by (cases s s' rule: linorder_cases) auto
      then show "t = t'" using s by simp
    qed
    have "(\<lambda>t. chosen ! t) ` ?A \<subseteq> ?B"
    proof clarify
      fix t assume t: "t < length ids" "e = ids ! t"
      then obtain s where s: "s < length ids" "t = ?o ! s" using onto by blast
      then have "count_list (take s ?s) e < count_list (take (length ids) ?s) e"
        using t snth ls(1) by (intro count_list_take_less) auto
      then show "chosen ! t \<in> {cursor ! (ids ! t)..<cursor ! (ids ! t) + int (count_list ids (ids ! t))}"
        using val s t snth total [of e] ls(1) by simp
    qed
    moreover have "card ((\<lambda>t. chosen ! t) ` ?A) = card ?B" using card_image [OF inj] by (simp add: count_list_card)
    ultimately show "(\<lambda>t. chosen ! t) ` ?A = ?B" by (intro card_subset_eq) auto
  qed
  moreover have "length chosen = length ids" by (simp add: chosen_def scatter_def scatter_length)
  moreover have "dispatch_indices sort_asc cursor ids = Inr chosen" using ids by (simp add: dispatch_indices_def chosen_def Let_def)
  ultimately show ?thesis by blast
qed

text \<open>Residues of consecutive integers are spread evenly.\<close>

lemma residue_count:
  assumes "0 \<le> j" "j < (n::int)"
  shows "int (card {c \<in> {s..<s + int m}. c mod n = j}) = (s + int m - 1 - j) div n - (s - 1 - j) div n"
proof (induction m)
  case (Suc m)
  let ?A = "\<lambda>m. {c \<in> {s..<s + int m}. c mod n = j}" and ?c = "s + int m"
  have split: "?A (Suc m) = (if ?c mod n = j then insert ?c (?A m) else ?A m)"
  proof -
    have "{s..<s + int (Suc m)} = insert ?c {s..<?c}" by auto
    then show ?thesis by auto
  qed
  have "(?c - j) div n = (?c - 1 - j) div n + (if ?c mod n = j then 1 else 0)"
  proof (cases "?c mod n = j")
    case True
    then obtain q where "?c = n * q + j" using mult_div_mod_eq [of n ?c] by metis
    then have "?c - j = n * q" "?c - 1 - j = n * (q - 1) + (n - 1)" by (simp_all add: algebra_simps)
    moreover have "(n * (q - 1) + (n - 1)) div n = q - 1" "n * q div n = q" using assms by (simp_all add: div_pos_pos_trivial)
    ultimately have "(?c - j) div n = q" "(?c - 1 - j) div n = q - 1" by metis+
    then show ?thesis using True by simp
  next
    case False
    define r where "r = (?c - j) mod n"
    have "r \<noteq> 0"
    proof
      assume "r = 0"
      then have "?c mod n = j mod n" unfolding r_def by (metis mod_eq_dvd_iff dvd_eq_mod_eq_0)
      then show False using False assms by simp
    qed
    then have r: "0 < r" "r < n" using assms pos_mod_bound [of n] pos_mod_sign [of n "?c - j"] unfolding r_def by (auto simp: less_le)
    have "?c - 1 - j = n * ((?c - j) div n) + (r - 1)" unfolding r_def using mult_div_mod_eq [of n "?c - j"] by linarith
    moreover have "(n * ((?c - j) div n) + (r - 1)) div n = (?c - j) div n" using r by (simp add: div_pos_pos_trivial)
    ultimately have "(?c - 1 - j) div n = (?c - j) div n" by metis
    then show ?thesis using False by simp
  qed
  moreover have "finite (?A m)" by (rule finite_subset [of _ "{s..<s + int m}"]) auto
  then have "card (?A (Suc m)) = card (?A m) + (if ?c mod n = j then 1 else 0)" unfolding split by simp
  moreover have "s + int (Suc m) - 1 - j = ?c - j" by simp
  ultimately show ?case using Suc by simp
qed simp

lemma residues_even:
  assumes "0 \<le> j" "j < (n::int)" "0 \<le> k" "k < n"
  shows "card {c \<in> {s..<s + int m}. c mod n = j} \<le> card {c \<in> {s..<s + int m}. c mod n = k} + 1"
proof -
  have n: "0 < n" using assms by simp
  have shift: "x div n + int m div n \<le> (x + int m) div n" "(x + int m) div n \<le> x div n + int m div n + 1" for x
  proof -
    have eq: "x + int m = n * (x div n + int m div n) + (x mod n + int m mod n)"
      using mult_div_mod_eq [of n x] mult_div_mod_eq [of n "int m"] by (simp add: algebra_simps)
    have "(x + int m) div n = x div n + int m div n + (x mod n + int m mod n) div n"
      unfolding eq using n by simp
    moreover have "0 \<le> (x mod n + int m mod n) div n" using n by (simp add: pos_imp_zdiv_nonneg_iff)
    moreover have "(x mod n + int m mod n) div n < 2"
      using pos_mod_bound [OF n, of x] pos_mod_bound [OF n, of "int m"] by (intro zdiv_less [OF n]) linarith
    ultimately show "x div n + int m div n \<le> (x + int m) div n" "(x + int m) div n \<le> x div n + int m div n + 1"
      by linarith+
  qed
  have rearrange: "s + int m - 1 - i = (s - 1 - i) + int m" for i by simp
  show ?thesis
    using residue_count [OF assms(1,2), of s m] residue_count [OF assms(3,4), of s m]
      shift [of "s - 1 - j"] shift [of "s - 1 - k"] unfolding rearrange by linarith
qed

text \<open>A replica gets the tokens whose index has the residue of its place in the row.\<close>

lemma replica_share:
  assumes row: "distinct row" "int x \<in> set row"
    and chosen: "bij_betw (\<lambda>t. chosen ! t) {t. t < m \<and> ids ! t = e} I"
    and phys: "\<And>t. t < m \<Longrightarrow> ids ! t = e \<Longrightarrow> phys ! t = row ! nat (chosen ! t mod int (length row))"
    and own: "\<And>t. t < m \<Longrightarrow> phys ! t = int x \<Longrightarrow> ids ! t = e"
  shows "\<exists>j\<ge>0. j < int (length row) \<and> card {t. t < m \<and> phys ! t = int x} = card {c \<in> I. c mod int (length row) = j}"
proof -
  let ?n = "int (length row)"
  obtain j where j: "j < length row" "row ! j = int x" using row(2) by (auto simp: in_set_conv_nth)
  have pos: "0 \<le> c mod ?n" "c mod ?n < ?n" for c using j(1) by (cases row; simp)+
  have iff: "phys ! t = int x \<longleftrightarrow> ids ! t = e \<and> chosen ! t mod ?n = int j" if t: "t < m" for t
  proof
    assume p: "phys ! t = int x"
    then have "row ! nat (chosen ! t mod ?n) = row ! j" using own [OF t p] phys [OF t] j(2) by simp
    then have "nat (chosen ! t mod ?n) = j" using row(1) j(1) pos [of "chosen ! t"] by (simp add: nth_eq_iff_index_eq nat_less_iff)
    then show "ids ! t = e \<and> chosen ! t mod ?n = int j" using own [OF t p] pos(1) [of "chosen ! t"] by auto
  qed (use phys [OF t] j(2) in simp)
  have "{t. t < m \<and> phys ! t = int x} = {t \<in> {t. t < m \<and> ids ! t = e}. chosen ! t mod ?n = int j}" using iff by auto
  moreover have "bij_betw (\<lambda>t. chosen ! t) {t \<in> {t. t < m \<and> ids ! t = e}. chosen ! t mod ?n = int j} {c \<in> I. c mod ?n = int j}"
    using chosen by (auto simp: bij_betw_def inj_on_def)
  ultimately have "card {t. t < m \<and> phys ! t = int x} = card {c \<in> I. c mod ?n = int j}" by (simp add: bij_betw_same_card)
  then show ?thesis using j(1) by (intro exI [of _ "int j"]) simp
qed

lemma replicas_even:
  assumes row: "distinct row" "int a \<in> set row" "int b \<in> set row"
    and chosen: "bij_betw (\<lambda>t. chosen ! t) {t. t < m \<and> ids ! t = e} {c..<c + int k}"
    and phys: "\<And>t. t < m \<Longrightarrow> ids ! t = e \<Longrightarrow> phys ! t = row ! nat (chosen ! t mod int (length row))"
    and own: "\<And>t. t < m \<Longrightarrow> phys ! t \<in> {int a, int b} \<Longrightarrow> ids ! t = e"
  shows "card {t. t < m \<and> phys ! t = int a} \<le> card {t. t < m \<and> phys ! t = int b} + 1"
proof -
  obtain i where "0 \<le> i" "i < int (length row)"
    "card {t. t < m \<and> phys ! t = int a} = card {x \<in> {c..<c + int k}. x mod int (length row) = i}"
    using replica_share [OF row(1,2) chosen phys] own by blast
  moreover obtain j where "0 \<le> j" "j < int (length row)"
    "card {t. t < m \<and> phys ! t = int b} = card {x \<in> {c..<c + int k}. x mod int (length row) = j}"
    using replica_share [OF row(1,3) chosen phys] own by blast
  ultimately show ?thesis using residues_even [of i "int (length row)" j c k] by simp
qed

text \<open>
  routing over the replicas is correct and fair. Whatever the cursor is and however the sort orders equal
  experts, every token is sent to a physical expert that holds its logical expert, and the tokens of one expert
  are spread over its replicas so that no replica gets two more than another.
\<close>

lemma round_robin_dispatch:
  assumes "sorts_ids sort_asc" "two_way n phy (p2l, l2p, cnt)" "\<forall>row\<in>set l2p. length row \<le> phy"
    and "di_all_physical info = map (pad_row phy) l2p"
    and "di_num_valid info = map (\<lambda>row. length (filter (\<lambda>e. e \<noteq> - 1) row)) l2p"
    and "length cursor = n" "\<forall>i\<in>set ids. i < n"
  shows "\<exists>chosen phys. dispatch_indices sort_asc cursor ids = Inr chosen \<and> physical_ids info ids chosen = Inr phys \<and>
    length phys = length ids \<and>
    (\<forall>t<length ids. 0 \<le> phys ! t \<and> phys ! t < int phy \<and> p2l ! nat (phys ! t) = ids ! t) \<and>
    (\<forall>a<phy. \<forall>b<phy. p2l ! a = p2l ! b \<longrightarrow>
       card {t. t < length ids \<and> phys ! t = int a} \<le> card {t. t < length ids \<and> phys ! t = int b} + 1)"
proof -
  obtain chosen where chosen: "dispatch_indices sort_asc cursor ids = Inr chosen" "length chosen = length ids"
    "\<And>e. bij_betw (\<lambda>t. chosen ! t) {t. t < length ids \<and> ids ! t = e} {cursor ! e..<cursor ! e + int (count_list ids e)}"
    using dispatch_indices_consecutive [OF assms(1), of ids cursor] assms(6,7) by blast
  let ?pick = "\<lambda>e c. l2p ! e ! nat (c mod int (cnt ! e))"
  have way: "0 < cnt ! e" "cnt ! e \<le> length (l2p ! e)" "di_num_valid info ! e = cnt ! e"
    "di_all_physical info ! e = l2p ! e @ replicate (phy - length (l2p ! e)) (- 1)"
    "distinct (take (cnt ! e) (l2p ! e))" "set (take (cnt ! e) (l2p ! e)) = int ` {k. k < phy \<and> p2l ! k = e}" if "e < n" for e
    using that assms(2-5) two_way_row(1) [OF assms(2) that]
    by (auto simp: two_way_def logical_to_all_physical_raw_def pad_row_def)
  have idx: "nat (c mod int (cnt ! e)) < cnt ! e" if "e < n" for c e using way(1) [OF that] by (simp add: nat_less_iff)
  have pick: "py_nth (di_all_physical info ! e) (c mod int (max 1 (di_num_valid info ! e))) = Inr (?pick e c)" if e: "e < n" for e c
  proof -
    have "py_nth (di_all_physical info ! e) (int (nat (c mod int (cnt ! e)))) = Inr (?pick e c)"
      unfolding way(4) [OF e] using idx [OF e, of c] way(2) [OF e] by (subst py_nth_nat) (auto simp: nth_append)
    then show ?thesis using way(1) [OF e] unfolding way(3) [OF e] by (simp add: max_absorb2)
  qed
  define phys where "phys = map2 ?pick ids chosen"
  have "physical_ids info ids chosen = Inr phys"
    unfolding physical_ids_def phys_def by (rule mapr_total) (use pick assms(7) in \<open>auto dest: set_zip_leftD\<close>)
  moreover have len: "length phys = length ids" using chosen(2) by (simp add: phys_def)
  moreover have nth: "phys ! t = take (cnt ! (ids ! t)) (l2p ! (ids ! t)) ! nat (chosen ! t mod int (cnt ! (ids ! t)))" if "t < length ids" for t
    using that chosen(2) idx [of "ids ! t"] assms(7) by (simp add: phys_def)
  have holds: "0 \<le> phys ! t \<and> phys ! t < int phy \<and> p2l ! nat (phys ! t) = ids ! t" if t: "t < length ids" for t
  proof -
    have e: "ids ! t < n" using assms(7) t by simp
    have "phys ! t \<in> set (take (cnt ! (ids ! t)) (l2p ! (ids ! t)))"
      unfolding nth [OF t] using idx [OF e] way(2) [OF e] by (intro nth_mem) simp
    then show ?thesis unfolding way(6) [OF e] by auto
  qed
  have fair: "card {t. t < length ids \<and> phys ! t = int a} \<le> card {t. t < length ids \<and> phys ! t = int b} + 1"
    if ab: "a < phy" "b < phy" "p2l ! a = p2l ! b" for a b
  proof -
    have e: "p2l ! a < n" using assms(2) ab(1) by (simp add: two_way_def)
    have len: "length (take (cnt ! (p2l ! a)) (l2p ! (p2l ! a))) = cnt ! (p2l ! a)" using way(2) [OF e] by simp
    show ?thesis
    proof (rule replicas_even [OF way(5) [OF e] _ _ chosen(3)])
      show "int a \<in> set (take (cnt ! (p2l ! a)) (l2p ! (p2l ! a)))" "int b \<in> set (take (cnt ! (p2l ! a)) (l2p ! (p2l ! a)))"
        unfolding way(6) [OF e] using ab by auto
      show "ids ! t = p2l ! a" if "t < length ids" "phys ! t \<in> {int a, int b}" for t
        using holds [OF that(1)] that(2) ab(3) by auto
    qed (unfold len, metis nth)
  qed
  ultimately show ?thesis using chosen(1) holds by blast
qed

definition stable_sort_ids :: "nat list \<Rightarrow> nat list" where
  "stable_sort_ids xs = sort_key (\<lambda>i. xs ! i) [0..<length xs]"

lemma stable_sort_ids_law: "sorts_ids stable_sort_ids"
  unfolding sorts_ids_def stable_sort_ids_def gather_def by (auto simp del: sorted_map)

lemma round_robin_dispatch_witness:
  "\<exists>chosen phys. dispatch_indices stable_sort_ids [5, 0] [1, 0, 1, 1] = Inr chosen \<and>
    physical_ids \<lparr>di_rank_dispatch = [], di_all_physical = [[0, - 1, - 1], [1, 2, - 1]], di_num_valid = [1, 2], di_cursor = None\<rparr>
      [1, 0, 1, 1] chosen = Inr phys \<and>
    phys ! 1 < 3 \<and> [0, 1, 1] ! nat (phys ! 1) = (0 :: nat) \<and> phys ! 3 < 3 \<and> [0, 1, 1] ! nat (phys ! 3) = (1 :: nat) \<and>
    card {t. t < 4 \<and> phys ! t = 1} \<le> card {t. t < 4 \<and> phys ! t = 2} + 1"
proof -
  have way: "two_way 2 3 ([0, 1, 1], [[0, - 1], [1, 2]], [1, 2])"
    by (auto simp: two_way_def less_Suc_eq numeral_nat)
  obtain chosen phys where run: "dispatch_indices stable_sort_ids [5, 0] [1, 0, 1, 1] = Inr chosen"
    "physical_ids \<lparr>di_rank_dispatch = [], di_all_physical = [[0, - 1, - 1], [1, 2, - 1]], di_num_valid = [1, 2], di_cursor = None\<rparr>
      [1, 0, 1, 1] chosen = Inr phys"
    and to: "\<forall>t<length [1, 0, 1, 1 :: nat]. 0 \<le> phys ! t \<and> phys ! t < int 3 \<and> [0, 1, 1] ! nat (phys ! t) = [1, 0, 1, 1 :: nat] ! t"
    and even: "\<forall>a<3. \<forall>b<3. [0, 1, 1 :: nat] ! a = [0, 1, 1] ! b \<longrightarrow>
      card {t. t < length [1, 0, 1, 1 :: nat] \<and> phys ! t = int a} \<le> card {t. t < length [1, 0, 1, 1 :: nat] \<and> phys ! t = int b} + 1"
    using round_robin_dispatch [OF stable_sort_ids_law way, of "\<lparr>di_rank_dispatch = [], di_all_physical = [[0, - 1, - 1], [1, 2, - 1]],
        di_num_valid = [1, 2], di_cursor = None\<rparr>" "[5, 0]" "[1, 0, 1, 1]"]
    by (auto simp: pad_row_def)
  show ?thesis using run spec [OF to, of 1] spec [OF to, of 3] even [THEN spec, of 1] by (auto simp: numeral_nat dest!: spec [of _ 2])
qed

text \<open>
  With dispatch information the conversion never returns. The cursor is an integer tensor and the weighted
  count is a floating-point one, which an in-place addition refuses; the routing after it is not reached. Without
  dispatch information the identifiers are returned unchanged.
\<close>

lemma topk_conversion_raises:
  "topk_ids_logical_to_physical sort_asc topk_ids (Some info) =
     Inl (if list_all (\<lambda>i. i < length (case di_cursor info of None \<Rightarrow> replicate (length (di_num_valid info)) 0 | Some c \<Rightarrow> c))
               (valid_ids topk_ids)
          then RuntimeErr ''result type cannot be cast to the output type'' else IndexError) \<and>
   topk_ids_logical_to_physical sort_asc topk_ids None = Inr (topk_ids, None)"
  by (auto simp: topk_ids_logical_to_physical_def Let_def dispatch_indices_def add_in_place_def bincount_kind_def check_def list_all_iff)

end
