(* ===== verification/Stop_Stream.thy ===== *)
theory Stop_Stream
  imports Prelude
begin

section \<open>Streaming of generated text (\<open>server/openai_server.py\<close>)\<close>

text \<open>
  Incremental detokenisation, stop strings, held-back markers and the reasoning channel of a streamed
  completion. Text is a list over any character type; the tokenizer's \<open>decode\<close> is a parameter, and so are the
  literals the source compares with (the replacement character and the thinking tags). The queue a request reads
  from is the list of items it delivers; a run over it ends, raises or is still waiting.
\<close>

subsection \<open>Stop strings\<close>

fun str_find :: "'c list \<Rightarrow> 'c list \<Rightarrow> nat option" where
  "str_find [] s = (if s = [] then Some 0 else None)"
| "str_find (c # cs) s = (if prefix s (c # cs) then Some 0 else map_option Suc (str_find cs s))"

text \<open>\<open>text.find(s, start)\<close> for a start within the text.\<close>

definition str_find_from :: "'c list \<Rightarrow> 'c list \<Rightarrow> nat \<Rightarrow> nat option" where
  "str_find_from text s start = map_option ((+) start) (str_find (drop start text) s)"

definition earliest_stop :: "'c list \<Rightarrow> 'c list list \<Rightarrow> nat option" where
  "earliest_stop text stops =
     fold (\<lambda>s best. case str_find text s of
        None \<Rightarrow> best
      | Some idx \<Rightarrow> (case best of None \<Rightarrow> Some idx | Some b \<Rightarrow> if idx < b then Some idx else best)) stops None"

definition holdback_of :: "'c list \<Rightarrow> 'c list \<Rightarrow> nat" where
  "holdback_of text s =
     (case find (\<lambda>k. suffix (take k s) text) (rev [1..<Suc (min (length s - 1) (length text))]) of
        None \<Rightarrow> 0 | Some k \<Rightarrow> k)"

definition partial_stop_holdback :: "'c list \<Rightarrow> 'c list list \<Rightarrow> nat" where
  "partial_stop_holdback text stops = fold (\<lambda>s hold. max hold (holdback_of text s)) stops 0"

text \<open>The loop over opening tags; the tag is not empty.\<close>

function skip_openers :: "'c list \<Rightarrow> 'c list \<Rightarrow> nat" where
  "skip_openers marker text =
     (if marker \<noteq> [] \<and> prefix marker text then length marker + skip_openers marker (drop (length marker) text) else 0)"
  by pat_completeness auto
termination
  by (relation "measure (\<lambda>(marker, text). length text)") (auto simp: prefix_def)

declare skip_openers.simps [simp del]

definition skip_redundant_think_openers :: "'c list \<Rightarrow> 'c list \<Rightarrow> nat \<Rightarrow> nat \<times> bool" where
  "skip_redundant_think_openers marker text start =
     (let pos = start + skip_openers marker (drop start text); rest = drop pos text
      in (pos, rest = [] \<or> prefix rest marker))"

subsection \<open>State of a generation\<close>

record ('t, 'c) text_env =
  te_decode :: "'t list \<Rightarrow> 'c list"
  te_replacement :: 'c
  te_think_open :: "'c list"
  te_think_close :: "'c list"

record ('t, 'c) generation =
  g_token_ids :: "'t list"
  g_finish_reason :: string
  g_prefix_offset :: nat
  g_read_offset :: nat
  g_reasoning :: "'c list option"
  g_in_reasoning :: bool

definition new_generation :: "('t, 'c) generation" where
  "new_generation = \<lparr>g_token_ids = [], g_finish_reason = ''stop'', g_prefix_offset = 0, g_read_offset = 0,
     g_reasoning = None, g_in_reasoning = False\<rparr>"

definition incremental_detokenize ::
  "('t, 'c) text_env \<Rightarrow> ('t, 'c) generation \<Rightarrow> 'c list \<times> ('t, 'c) generation" where
  "incremental_detokenize env gen =
     (let ids = g_token_ids gen;
          prefix_text = te_decode env (drop (g_prefix_offset gen) (take (g_read_offset gen) ids));
          new_text = te_decode env (drop (g_prefix_offset gen) ids)
      in if length prefix_text < length new_text \<and> last new_text \<noteq> te_replacement env
         then (drop (length prefix_text) new_text, gen\<lparr>g_prefix_offset := g_read_offset gen, g_read_offset := length ids\<rparr>)
         else ([], gen))"

definition add_reasoning :: "'c list \<Rightarrow> ('t, 'c) generation \<Rightarrow> ('t, 'c) generation" where
  "add_reasoning chunk gen =
     gen\<lparr>g_in_reasoning := True, g_reasoning := Some (case g_reasoning gen of None \<Rightarrow> chunk | Some r \<Rightarrow> r @ chunk)\<rparr>"

subsection \<open>The stream\<close>

datatype 't item = ItemEnd | ItemError string | ItemTokens "'t list" | ItemOther

text \<open>A yield: the delta, and the channel the consumer reads from the generation at that moment.\<close>

type_synonym 'c event = "'c list \<times> bool"

record ('t, 'c) raw_state =
  rs_gen :: "('t, 'c) generation"
  rs_text :: "'c list"
  rs_emitted :: nat
  rs_holding_marker :: bool
  rs_reasoning_active :: bool
  rs_drop_openers :: bool
  rs_aborted :: bool

definition new_raw_state :: "bool \<Rightarrow> ('t, 'c) raw_state" where
  "new_raw_state reasoning_open =
     \<lparr>rs_gen = new_generation, rs_text = [], rs_emitted = 0, rs_holding_marker = False,
      rs_reasoning_active = reasoning_open, rs_drop_openers = reasoning_open, rs_aborted = False\<rparr>"

definition slice :: "nat \<Rightarrow> nat \<Rightarrow> 'c list \<Rightarrow> 'c list" where
  "slice a b xs = drop a (take b xs)"

text \<open>Yield \<open>text[emitted:bound]\<close> when it is not empty and move \<open>emitted\<close>.\<close>

definition emit_upto :: "nat \<Rightarrow> ('t, 'c) raw_state \<Rightarrow> 'c event list \<times> ('t, 'c) raw_state" where
  "emit_upto bound st =
     (if rs_emitted st < bound
      then ([(slice (rs_emitted st) bound (rs_text st), g_in_reasoning (rs_gen st))], st\<lparr>rs_emitted := bound\<rparr>)
      else ([], st))"

definition emit_reasoning :: "nat \<Rightarrow> ('t, 'c) raw_state \<Rightarrow> 'c event list \<times> ('t, 'c) raw_state" where
  "emit_reasoning bound st =
     (if rs_emitted st < bound
      then ([(slice (rs_emitted st) bound (rs_text st), True)],
            st\<lparr>rs_gen := add_reasoning (slice (rs_emitted st) bound (rs_text st)) (rs_gen st), rs_emitted := bound\<rparr>)
      else ([], st))"

text \<open>
  The part of the loop body while reasoning is open. The flag says whether the body goes on to the content part.
\<close>

definition reasoning_search ::
  "('t, 'c) text_env \<Rightarrow> ('t, 'c) raw_state \<Rightarrow> 'c event list \<times> ('t, 'c) raw_state \<times> bool" where
  "reasoning_search env st =
     (case str_find_from (rs_text st) (te_think_close env) (rs_emitted st) of
        None \<Rightarrow>
          (case emit_reasoning (length (rs_text st) - partial_stop_holdback (rs_text st) [te_think_close env]) st of
             (evs, st') \<Rightarrow> (evs, st', False))
      | Some close \<Rightarrow>
          (case emit_reasoning close st of
             (evs, st') \<Rightarrow>
               (evs, st'\<lparr>rs_emitted := close + length (te_think_close env), rs_reasoning_active := False,
                         rs_gen := (rs_gen st')\<lparr>g_in_reasoning := False\<rparr>\<rparr>, True)))"

definition reasoning_part ::
  "('t, 'c) text_env \<Rightarrow> ('t, 'c) raw_state \<Rightarrow> 'c event list \<times> ('t, 'c) raw_state \<times> bool" where
  "reasoning_part env st0 =
     (let skip = skip_redundant_think_openers (te_think_open env) (rs_text st0) (rs_emitted st0);
          st = (if rs_drop_openers st0 then st0\<lparr>rs_emitted := fst skip, rs_drop_openers := snd skip\<rparr> else st0)
      in if rs_drop_openers st then ([], st, False) else reasoning_search env st)"

definition content_part ::
  "'c list list \<Rightarrow> 'c list list \<Rightarrow> ('t, 'c) raw_state \<Rightarrow> 'c event list \<times> ('t, 'c) raw_state \<times> bool" where
  "content_part stops markers st =
     (case (if stops = [] then None else earliest_stop (rs_text st) stops) of
        Some idx \<Rightarrow> (case emit_upto idx st of (evs, st') \<Rightarrow> (evs, st'\<lparr>rs_aborted := True\<rparr>, True))
      | None \<Rightarrow>
          (case (if markers = [] \<or> rs_holding_marker st then None else earliest_stop (rs_text st) markers) of
             Some midx \<Rightarrow> (case emit_upto midx (st\<lparr>rs_holding_marker := True\<rparr>) of (evs, st') \<Rightarrow> (evs, st', False))
           | None \<Rightarrow>
               if rs_holding_marker st then ([], st, False)
               else (case emit_upto (length (rs_text st) - partial_stop_holdback (rs_text st) (stops @ markers)) st of
                       (evs, st') \<Rightarrow> (evs, st', False))))"

text \<open>One item of the queue that carries tokens. The flag says whether the loop is left.\<close>

definition raw_tokens ::
  "('t, 'c) text_env \<Rightarrow> 'c list list \<Rightarrow> 'c list list \<Rightarrow> int \<Rightarrow> 't list \<Rightarrow> ('t, 'c) raw_state
   \<Rightarrow> 'c event list \<times> ('t, 'c) raw_state \<times> bool" where
  "raw_tokens env stops markers max_tokens toks st =
     (let remaining = max_tokens - py_len (g_token_ids (rs_gen st))
      in if remaining \<le> 0 then ([], st, False)
         else (case incremental_detokenize env
                      ((rs_gen st)\<lparr>g_token_ids := g_token_ids (rs_gen st) @ take (nat remaining) toks\<rparr>) of
                 (delta, gen) \<Rightarrow>
                   if delta = [] then ([], st\<lparr>rs_gen := gen\<rparr>, False)
                   else (let st1 = st\<lparr>rs_gen := gen, rs_text := rs_text st @ delta\<rparr>
                         in if rs_reasoning_active st1
                            then (case reasoning_part env st1 of
                                    (evs, st2, False) \<Rightarrow> (evs, st2, False)
                                  | (evs, st2, True) \<Rightarrow>
                                      (case content_part stops markers st2 of (evs', st3, fin) \<Rightarrow> (evs @ evs', st3, fin)))
                            else content_part stops markers st1)))"

text \<open>After the loop: the held-back tail is flushed, and a completion that yielded nothing still reports its state.\<close>

definition raw_finish :: "int \<Rightarrow> ('t, 'c) raw_state \<Rightarrow> 'c event list \<times> ('t, 'c) raw_state" where
  "raw_finish max_tokens st =
     (let tail = drop (rs_emitted st) (rs_text st);
          (evs, st1) =
            (if rs_aborted st then ([], st\<lparr>rs_gen := (rs_gen st)\<lparr>g_finish_reason := ''stop''\<rparr>\<rparr>)
             else (let reason = (if max_tokens \<le> py_len (g_token_ids (rs_gen st)) then ''length'' else ''stop'')
                   in if rs_reasoning_active st \<and> rs_emitted st < length (rs_text st)
                      then ([(tail, True)], st\<lparr>rs_gen := (add_reasoning tail (rs_gen st))\<lparr>g_finish_reason := reason\<rparr>\<rparr>)
                      else if \<not> rs_holding_marker st \<and> \<not> rs_reasoning_active st \<and> rs_emitted st < length (rs_text st)
                      then ([(tail, False)], st\<lparr>rs_gen := (rs_gen st)\<lparr>g_in_reasoning := False, g_finish_reason := reason\<rparr>\<rparr>)
                      else ([], st\<lparr>rs_gen := (rs_gen st)\<lparr>g_finish_reason := reason\<rparr>\<rparr>)))
      in (evs @ (if rs_holding_marker st1 \<and> rs_emitted st1 = 0 then [([], g_in_reasoning (rs_gen st1))] else []), st1))"

datatype ('t, 'c) outcome = Finished "('t, 'c) raw_state" | Raised py_error | Waiting "('t, 'c) raw_state"

fun stream_text_raw ::
  "('t, 'c) text_env \<Rightarrow> 'c list list \<Rightarrow> 'c list list \<Rightarrow> int \<Rightarrow> 't item list \<Rightarrow> ('t, 'c) raw_state
   \<Rightarrow> 'c event list \<times> ('t, 'c) outcome" where
  "stream_text_raw env stops markers m [] st = ([], Waiting st)"
| "stream_text_raw env stops markers m (ItemEnd # items) st =
     (case raw_finish m st of (evs, st') \<Rightarrow> (evs, Finished st'))"
| "stream_text_raw env stops markers m (ItemError e # items) st = ([], Raised (RuntimeErr e))"
| "stream_text_raw env stops markers m (ItemOther # items) st = stream_text_raw env stops markers m items st"
| "stream_text_raw env stops markers m (ItemTokens toks # items) st =
     (case raw_tokens env stops markers m toks st of
        (evs, st1, True) \<Rightarrow> (case raw_finish m st1 of (evs', st') \<Rightarrow> (evs @ evs', Finished st'))
      | (evs, st1, False) \<Rightarrow> (case stream_text_raw env stops markers m items st1 of (evs', out) \<Rightarrow> (evs @ evs', out)))"

subsection \<open>Searching\<close>

lemma str_find_Some:
  "str_find tx s = Some i \<Longrightarrow> i \<le> length tx \<and> prefix s (drop i tx) \<and> (\<forall>j<i. \<not> prefix s (drop j tx))"
proof (induction tx arbitrary: i)
  case (Cons c cs)
  show ?case
  proof (cases "prefix s (c # cs)")
    case False
    then obtain k where k: "str_find cs s = Some k" "i = Suc k" using Cons.prems by auto
    have "\<not> prefix s (drop j (c # cs))" if "j < i" for j
      using that False Cons.IH [OF k(1)] k(2) by (cases j) auto
    then show ?thesis using Cons.IH [OF k(1)] k(2) by simp
  qed (use Cons.prems in simp)
qed (auto split: if_splits)

lemma str_find_None: "str_find tx s = None \<longleftrightarrow> \<not> sublist s tx"
  by (induction tx) (auto simp: sublist_Cons_right)

lemma sublist_at: "sublist s tx \<longleftrightarrow> (\<exists>i\<le>length tx. prefix s (drop i tx))"
proof
  assume "sublist s tx"
  then obtain i where "str_find tx s = Some i" using str_find_None [of tx s] by auto
  then show "\<exists>i\<le>length tx. prefix s (drop i tx)" using str_find_Some by blast
next
  assume "\<exists>i\<le>length tx. prefix s (drop i tx)"
  then obtain i where "prefix s (drop i tx)" by blast
  then show "sublist s tx" by (metis append_take_drop_id prefix_def sublist_def)
qed

definition occurs :: "'c list list \<Rightarrow> 'c list \<Rightarrow> bool" where
  "occurs ss tx \<longleftrightarrow> (\<exists>s\<in>set ss. sublist s tx)"

lemma earliest_stop_snoc:
  "earliest_stop tx (stops @ [s]) =
     (case str_find tx s of
        None \<Rightarrow> earliest_stop tx stops
      | Some idx \<Rightarrow> (case earliest_stop tx stops of None \<Rightarrow> Some idx | Some b \<Rightarrow> if idx < b then Some idx else Some b))"
  by (simp add: earliest_stop_def split: option.splits)

lemma earliest_stop_spec:
  "(earliest_stop tx stops = None \<longleftrightarrow> \<not> occurs stops tx) \<and>
   (\<forall>i. earliest_stop tx stops = Some i \<longrightarrow>
      i \<le> length tx \<and> (\<exists>s\<in>set stops. prefix s (drop i tx)) \<and> (\<forall>s\<in>set stops. \<forall>j<i. \<not> prefix s (drop j tx)))"
proof (induction stops rule: rev_induct)
  case Nil
  then show ?case by (simp add: earliest_stop_def occurs_def)
next
  case (snoc s stops)
  show ?case
  proof (cases "str_find tx s")
    case None
    then have "\<not> sublist s tx" by (simp add: str_find_None)
    moreover from this have "\<not> prefix s (drop j tx)" if "j \<le> length tx" for j using that sublist_at by blast
    ultimately show ?thesis
      using snoc None by (auto simp: earliest_stop_snoc occurs_def)
  next
    case (Some idx)
    then have idx: "idx \<le> length tx" "prefix s (drop idx tx)" "\<forall>j<idx. \<not> prefix s (drop j tx)" "sublist s tx"
      using str_find_Some [OF Some] sublist_at by blast+
    show ?thesis
    proof (cases "earliest_stop tx stops")
      case None
      then have none: "\<not> prefix s' (drop j tx)" if "s' \<in> set stops" "j \<le> length tx" for s' j
        using snoc that sublist_at unfolding occurs_def by blast
      then show ?thesis
        using Some None idx by (auto simp: earliest_stop_snoc occurs_def)
    next
      case (Some b)
      then show ?thesis
        using snoc \<open>str_find tx s = Some idx\<close> idx by (auto simp: earliest_stop_snoc occurs_def)
    qed
  qed
qed

lemmas earliest_stop_None = earliest_stop_spec [THEN conjunct1]

lemma earliest_stop_Some:
  assumes "earliest_stop tx stops = Some i"
  shows "i \<le> length tx" "occurs stops tx" "\<And>s j. s \<in> set stops \<Longrightarrow> prefix s (drop j tx) \<Longrightarrow> i \<le> j"
proof -
  show "i \<le> length tx" using earliest_stop_spec assms by blast
  show "occurs stops tx" using assms earliest_stop_None [of tx stops] by auto
  show "\<And>s j. s \<in> set stops \<Longrightarrow> prefix s (drop j tx) \<Longrightarrow> i \<le> j"
    using earliest_stop_spec [of tx stops] assms by (meson not_le)
qed

subsection \<open>What is held back\<close>

lemma find_descending:
  "case find P (rev [1..<Suc n]) of
     None \<Rightarrow> \<forall>k\<in>{1..n}. \<not> P k
   | Some k \<Rightarrow> k \<in> {1..n} \<and> P k \<and> (\<forall>j\<in>{1..n}. P j \<longrightarrow> j \<le> k)"
proof (induction n)
  case (Suc n)
  have "rev [1..<Suc (Suc n)] = Suc n # rev [1..<Suc n]" by simp
  moreover have "{1..Suc n} = insert (Suc n) {1..n}" by auto
  ultimately show ?case using Suc by (auto split: option.splits simp del: upt_Suc)
qed simp

lemma holdback_of_le: "holdback_of tx s \<le> length tx"
  using find_descending [of "min (length s - 1) (length tx)" "\<lambda>k. suffix (take k s) tx"]
  by (auto simp: holdback_of_def simp del: upt_Suc split: option.splits)

lemma holdback_of_ge:
  assumes "0 < k" "k < length s" "k \<le> length tx" "suffix (take k s) tx"
  shows "k \<le> holdback_of tx s"
proof -
  have "k \<in> {1..min (length s - 1) (length tx)}" using assms by auto
  then show ?thesis
    using find_descending [of "min (length s - 1) (length tx)" "\<lambda>k. suffix (take k s) tx"] assms(4)
    unfolding holdback_of_def by (cases "find (\<lambda>k. suffix (take k s) tx) (rev [1..<Suc (min (length s - 1) (length tx))])") auto
qed

lemma partial_stop_holdback_fold:
  "partial_stop_holdback tx stops \<le> length tx \<and> (\<forall>s\<in>set stops. holdback_of tx s \<le> partial_stop_holdback tx stops)"
  unfolding partial_stop_holdback_def
proof (induction stops rule: rev_induct)
  case (snoc s stops)
  then show ?case using holdback_of_le [of tx s] by (auto intro: max.coboundedI1)
qed simp

text \<open>
  Nothing that is emitted can turn out to be the beginning of a stop string: \<open>safe b e tx ss\<close> says that in no
  continuation of the text an occurrence starts between \<open>b\<close> and \<open>e\<close>.
\<close>

definition safe :: "nat \<Rightarrow> nat \<Rightarrow> 'c list \<Rightarrow> 'c list list \<Rightarrow> bool" where
  "safe b e tx ss \<longleftrightarrow> (\<forall>d. \<forall>s\<in>set ss. \<forall>i. prefix s (drop i (tx @ d)) \<longrightarrow> i < b \<or> e \<le> i)"

lemma safe_extend: "safe b e tx ss \<Longrightarrow> safe b e (tx @ d) ss"
  unfolding safe_def append_assoc by blast

lemma safe_start [simp]: "safe b b tx ss"
  by (auto simp: safe_def)

lemma safe_subset: "safe b e tx ss \<Longrightarrow> set ss' \<subseteq> set ss \<Longrightarrow> safe b e tx ss'"
  unfolding safe_def by blast

lemma safe_max: "safe b e tx ss \<Longrightarrow> safe b e' tx ss \<Longrightarrow> safe b (max e e') tx ss"
  unfolding safe_def by (metis max.bounded_iff)

definition none_from :: "nat \<Rightarrow> 'c list \<Rightarrow> 'c list \<Rightarrow> bool" where
  "none_from k tx s \<longleftrightarrow> (\<forall>i. k \<le> i \<longrightarrow> \<not> prefix s (drop i tx))"

lemma holdback_safe_from:
  assumes "\<forall>s\<in>set ss. none_from b tx s" "[] \<notin> set ss"
  shows "safe b (length tx - partial_stop_holdback tx ss) tx ss"
  unfolding safe_def
proof (intro allI ballI impI)
  fix d s i assume s: "s \<in> set ss" and at: "prefix s (drop i (tx @ d))"
  show "i < b \<or> length tx - partial_stop_holdback tx ss \<le> i"
  proof (cases "i < length tx \<and> b \<le> i")
    case True
    have drop: "drop i (tx @ d) = drop i tx @ d" using True by simp
    have no: "\<not> prefix s (drop i tx)" using assms(1) s True by (simp add: none_from_def)
    have "prefix (drop i tx) (drop i tx @ d)" by simp
    then have "prefix (drop i tx) s" using at no unfolding drop by (meson prefix_same_cases)
    then have "take (length tx - i) s = drop i tx" "length tx - i < length s" using no by (auto simp: prefix_def)
    then have "length tx - i \<le> holdback_of tx s" using True by (intro holdback_of_ge) (auto simp: suffix_drop)
    then show ?thesis using partial_stop_holdback_fold [of tx ss] s by fastforce
  qed auto
qed

lemma holdback_safe:
  assumes "\<not> occurs ss tx" "[] \<notin> set ss"
  shows "safe b (length tx - partial_stop_holdback tx ss) tx ss"
proof -
  have "none_from 0 tx s" if "s \<in> set ss" for s
    unfolding none_from_def
  proof (intro allI impI notI)
    fix i assume at: "prefix s (drop i tx)"
    then have "i \<le> length tx" using assms(2) that by (cases "i \<le> length tx") auto
    then show False using assms(1) that at sublist_at [of s tx] unfolding occurs_def by blast
  qed
  then have "safe 0 (length tx - partial_stop_holdback tx ss) tx ss" using assms(2) by (simp add: holdback_safe_from)
  then show ?thesis unfolding safe_def by blast
qed

subsection \<open>The content channel\<close>

lemma earliest_stop_Nil [simp]: "earliest_stop tx [] = None"
  by (simp add: earliest_stop_def)

lemma slice_append: "a \<le> b \<Longrightarrow> b \<le> c \<Longrightarrow> slice a b tx @ slice b c tx = slice a c tx"
proof -
  assume "a \<le> b" "b \<le> c"
  then have "take c tx = take b tx @ slice b c tx"
    unfolding slice_def by (metis append_take_drop_id le_add_diff_inverse take_add take_drop drop_take)
  moreover have "drop a (take b tx @ slice b c tx) = drop a (take b tx) @ slice b c tx"
    using \<open>a \<le> b\<close> by (cases "b \<le> length tx") (auto simp: slice_def)
  ultimately show ?thesis by (simp add: slice_def)
qed

lemma slice_self [simp]: "slice a a tx = []"
  by (simp add: slice_def)

lemma slice_to_end: "length tx \<le> e \<Longrightarrow> slice b e tx = drop b tx"
  by (simp add: slice_def)

lemma slice_extend [simp]: "e \<le> length tx \<Longrightarrow> slice b e (tx @ d) = slice b e tx"
  by (simp add: slice_def)

lemma occurs_slice:
  assumes "occurs ss (slice b e tx)"
  obtains s j where "s \<in> set ss" "b \<le> j" "j + length s \<le> max b e" "prefix s (drop j tx)"
proof -
  obtain s i where s: "s \<in> set ss" "i \<le> length (slice b e tx)" "prefix s (drop i (slice b e tx))"
    using assms unfolding occurs_def sublist_at by blast
  have "drop i (slice b e tx) = take (e - (i + b)) (drop (i + b) tx)" by (simp add: slice_def drop_take add.commute)
  then have "prefix s (drop (i + b) tx)" "length s \<le> e - (i + b)"
    using s(3) by (auto dest: prefix_length_le intro: prefix_order.order_trans take_is_prefix)
  moreover have "i + b \<le> max b e" using s(2) by (simp add: slice_def)
  ultimately show ?thesis using that [of s "i + b"] s(1) by simp
qed

lemma occurs_append [simp]: "occurs (xs @ ys) tx \<longleftrightarrow> occurs xs tx \<or> occurs ys tx"
  by (auto simp: occurs_def)

lemma occurs_mono: "occurs ss tx \<Longrightarrow> sublist tx tx' \<Longrightarrow> occurs ss tx'"
  unfolding occurs_def by (meson sublist_order.order_trans)

lemma occurs_slice_text: "occurs ss (slice b e tx) \<Longrightarrow> occurs ss tx"
  by (rule occurs_mono) (auto simp: slice_def intro: sublist_order.order_trans [OF sublist_drop sublist_take])

text \<open>
  The state between two items of the queue while content is streamed: content starts at \<open>b\<close>, up to
  \<open>rs_emitted\<close> is out, and what is out cannot become part of a stop string or a marker.
\<close>

definition content_pre :: "nat \<Rightarrow> 'c list list \<Rightarrow> 'c list list \<Rightarrow> ('t, 'c) raw_state \<Rightarrow> bool" where
  "content_pre b stops markers st \<longleftrightarrow>
     b \<le> rs_emitted st \<and> rs_emitted st \<le> length (rs_text st) \<and> \<not> rs_reasoning_active st \<and> \<not> g_in_reasoning (rs_gen st) \<and>
     \<not> rs_aborted st \<and> \<not> occurs stops (slice b (rs_emitted st) (rs_text st)) \<and>
     \<not> occurs markers (slice b (rs_emitted st) (rs_text st)) \<and>
     (if rs_holding_marker st then occurs markers (rs_text st) else safe b (rs_emitted st) (rs_text st) (stops @ markers))"

definition content_inv :: "nat \<Rightarrow> 'c list list \<Rightarrow> 'c list list \<Rightarrow> ('t, 'c) raw_state \<Rightarrow> bool" where
  "content_inv b stops markers st \<longleftrightarrow> content_pre b stops markers st \<and> \<not> occurs stops (rs_text st) \<and>
     (\<not> rs_holding_marker st \<longrightarrow> \<not> occurs markers (rs_text st))"

definition content_cut :: "nat \<Rightarrow> 'c list list \<Rightarrow> ('t, 'c) raw_state \<Rightarrow> bool" where
  "content_cut b stops st \<longleftrightarrow>
     b \<le> rs_emitted st \<and> rs_emitted st \<le> length (rs_text st) \<and> \<not> rs_reasoning_active st \<and> \<not> g_in_reasoning (rs_gen st) \<and>
     rs_aborted st \<and> \<not> occurs stops (slice b (rs_emitted st) (rs_text st)) \<and>
     (\<exists>idx. earliest_stop (rs_text st) stops = Some idx \<and> (\<not> rs_holding_marker st \<longrightarrow> rs_emitted st = idx \<or> idx < b))"

lemma emit_upto_eq:
  assumes "emit_upto bound st = (evs, st')"
  shows "st' = st\<lparr>rs_emitted := max (rs_emitted st) bound\<rparr>"
    "concat (map fst evs) = slice (rs_emitted st) (max (rs_emitted st) bound) (rs_text st)"
    "\<forall>ev\<in>set evs. snd ev = g_in_reasoning (rs_gen st)"
  using assms by (auto simp: emit_upto_def max_def split: if_splits)

lemma no_stop_before:
  assumes "earliest_stop tx stops = Some idx" "[] \<notin> set stops"
  shows "\<not> occurs stops (slice b idx tx)"
proof
  assume "occurs stops (slice b idx tx)"
  then obtain s j where s: "s \<in> set stops" "b \<le> j" "j + length s \<le> max b idx" "prefix s (drop j tx)" by (rule occurs_slice)
  have "0 < length s" using s(1) assms(2) by (cases s) auto
  then have "j < idx" using s(2,3) by linarith
  then show False using earliest_stop_Some(3) [OF assms(1) s(1,4)] by simp
qed

text \<open>What one pass over the content part of the loop body does.\<close>

lemma content_part_ok:
  assumes pre: "content_pre b stops markers st" and ne: "[] \<notin> set stops" "[] \<notin> set markers"
    and run: "content_part stops markers st = (evs, st', fin)"
  shows "rs_text st' = rs_text st \<and> rs_emitted st \<le> rs_emitted st' \<and>
    concat (map fst evs) = slice (rs_emitted st) (rs_emitted st') (rs_text st) \<and> (\<forall>ev\<in>set evs. \<not> snd ev) \<and>
    (if fin then content_cut b stops st' else content_inv b stops markers st')"
proof -
  let ?T = "rs_text st" and ?e = "rs_emitted st"
  have be: "b \<le> ?e" "?e \<le> length ?T" and fl: "\<not> rs_reasoning_active st" "\<not> g_in_reasoning (rs_gen st)" "\<not> rs_aborted st"
    and out: "\<not> occurs stops (slice b ?e ?T)" "\<not> occurs markers (slice b ?e ?T)"
    using pre by (simp_all add: content_pre_def)
  show ?thesis
  proof (cases "earliest_stop ?T stops")
    case (Some idx)
    obtain evs1 st1 where em: "emit_upto idx st = (evs1, st1)" by (cases "emit_upto idx st")
    then have eq: "evs = evs1" "st' = st1\<lparr>rs_aborted := True\<rparr>" "fin"
      using run Some by (cases stops; simp add: content_part_def)+
    have "\<not> occurs stops (slice b (max ?e idx) ?T)" using no_stop_before [OF Some ne(1)] out(1) by (simp add: max_def)
    moreover have "\<not> rs_holding_marker st \<Longrightarrow> ?e \<le> idx \<or> idx < b"
    proof -
      assume "\<not> rs_holding_marker st"
      then have "safe b ?e ?T (stops @ markers)" using pre by (simp add: content_pre_def)
      moreover obtain s where "s \<in> set stops" "prefix s (drop idx (?T @ []))" using earliest_stop_spec [of ?T stops] Some by auto
      ultimately show ?thesis unfolding safe_def by (metis Un_iff set_append)
    qed
    ultimately show ?thesis
      using emit_upto_eq [OF em] Some be fl earliest_stop_Some(1) [OF Some] unfolding eq(1,2) using eq(3) by (auto simp: content_cut_def max_def)
  next
    case None
    then have nostop: "\<not> occurs stops ?T" by (simp add: earliest_stop_None)
    have hold: ?thesis if h: "rs_holding_marker st"
      using run None pre nostop h by (auto simp: content_part_def content_inv_def split: if_splits)
    have free: ?thesis if h: "\<not> rs_holding_marker st"
    proof (cases "earliest_stop ?T markers")
      case (Some midx)
      obtain evs1 st1 where em: "emit_upto midx (st\<lparr>rs_holding_marker := True\<rparr>) = (evs1, st1)"
        by (cases "emit_upto midx (st\<lparr>rs_holding_marker := True\<rparr>)")
      then have eq: "evs = evs1" "st' = st1" "\<not> fin" using run None Some h by (cases markers; simp add: content_part_def split: if_splits)+
      have "\<not> occurs markers (slice b (max ?e midx) ?T)" using no_stop_before [OF Some ne(2)] out(2) by (simp add: max_def)
      moreover have "\<not> occurs stops (slice b (max ?e midx) ?T)" using nostop occurs_slice_text by blast
      ultimately show ?thesis
        using emit_upto_eq [OF em] be fl earliest_stop_Some(1,2) [OF Some] nostop eq(3) unfolding eq(1,2)
        by (auto simp: content_inv_def content_pre_def max_def)
    next
      case None
      then have nomark: "\<not> occurs markers ?T" by (simp add: earliest_stop_None)
      let ?bound = "length ?T - partial_stop_holdback ?T (stops @ markers)"
      obtain evs1 st1 where em: "emit_upto ?bound st = (evs1, st1)" by (cases "emit_upto ?bound st")
      then have eq: "evs = evs1" "st' = st1" "\<not> fin"
        using run \<open>earliest_stop ?T stops = None\<close> None h by (auto simp: content_part_def split: if_splits)
      have "safe b ?bound ?T (stops @ markers)" using nostop nomark ne by (intro holdback_safe) auto
      moreover have "safe b ?e ?T (stops @ markers)" using pre h by (simp add: content_pre_def)
      ultimately have "safe b (max ?e ?bound) ?T (stops @ markers)" by (simp add: safe_max)
      then show ?thesis
        using emit_upto_eq [OF em] be fl nostop nomark h eq(3) unfolding eq(1,2)
        by (auto simp: content_inv_def content_pre_def dest: occurs_slice_text)
    qed
    show ?thesis using hold free by blast
  qed
qed

text \<open>The end of a stream: \<open>E\<close> is where the content ends.\<close>

definition content_final :: "nat \<Rightarrow> 'c list list \<Rightarrow> 'c list list \<Rightarrow> nat \<Rightarrow> ('t, 'c) raw_state \<Rightarrow> bool" where
  "content_final b stops markers E st \<longleftrightarrow>
     (rs_aborted st \<longleftrightarrow> occurs stops (rs_text st)) \<and> \<not> occurs stops (slice b E (rs_text st)) \<and>
     (\<not> rs_aborted st \<longrightarrow> \<not> occurs markers (slice b E (rs_text st)) \<and>
        (\<not> occurs markers (rs_text st) \<longrightarrow> E = length (rs_text st))) \<and>
     (rs_aborted st \<and> \<not> rs_holding_marker st \<longrightarrow>
        (\<exists>idx. earliest_stop (rs_text st) stops = Some idx \<and> (E = idx \<or> idx < b)))"

definition content_out :: "'c event list \<Rightarrow> nat \<Rightarrow> nat \<Rightarrow> 'c list \<Rightarrow> bool" where
  "content_out evs e E tx \<longleftrightarrow> e \<le> E \<and> E \<le> length tx \<and> concat (map fst evs) = slice e E tx \<and> (\<forall>ev\<in>set evs. \<not> snd ev)"

lemma content_out_append:
  "content_out evs e e' tx \<Longrightarrow> content_out evs' e' E (tx @ d) \<Longrightarrow> content_out (evs @ evs') e E (tx @ d)"
  using slice_append [of e e' E "tx @ d"] by (auto simp: content_out_def)

lemma raw_finish_cut:
  assumes "content_cut b stops st" "raw_finish m st = (evs, st')"
  shows "rs_text st' = rs_text st \<and> content_out evs (rs_emitted st) (rs_emitted st) (rs_text st) \<and>
    content_final b stops markers (rs_emitted st) st'"
  using assms earliest_stop_None [of "rs_text st" stops]
  by (auto simp: raw_finish_def content_cut_def content_out_def content_final_def Let_def split: if_splits)

lemma raw_finish_inv:
  assumes "content_inv b stops markers st" "raw_finish m st = (evs, st')"
  shows "rs_text st' = rs_text st \<and>
    (\<exists>E. content_out evs (rs_emitted st) E (rs_text st) \<and> content_final b stops markers E st')"
proof -
  let ?E = "if rs_holding_marker st then rs_emitted st else length (rs_text st)"
  have inv: "b \<le> rs_emitted st" "rs_emitted st \<le> length (rs_text st)" "\<not> rs_reasoning_active st" "\<not> g_in_reasoning (rs_gen st)"
    "\<not> rs_aborted st" "\<not> occurs stops (rs_text st)" "\<not> occurs markers (slice b (rs_emitted st) (rs_text st))"
    "rs_holding_marker st \<or> \<not> occurs markers (rs_text st)" "rs_holding_marker st \<Longrightarrow> occurs markers (rs_text st)"
    using assms(1) by (auto simp: content_inv_def content_pre_def)
  have st': "rs_text st' = rs_text st" "rs_aborted st' = rs_aborted st" "rs_holding_marker st' = rs_holding_marker st"
    using assms(2) inv by (auto simp: raw_finish_def Let_def split: if_splits)
  have "content_out evs (rs_emitted st) ?E (rs_text st)"
    using assms(2) inv(2-5) by (auto simp: raw_finish_def Let_def content_out_def slice_to_end split: if_splits)
  moreover have "content_final b stops markers ?E st'"
    using inv st' by (auto simp: content_final_def dest: occurs_slice_text)
  ultimately show ?thesis using st'(1) by blast
qed

lemma content_pre_extend:
  assumes "content_inv b stops markers st" "g_in_reasoning gen = g_in_reasoning (rs_gen st)"
  shows "content_pre b stops markers (st\<lparr>rs_gen := gen, rs_text := rs_text st @ d\<rparr>)"
  using assms occurs_mono [of markers "rs_text st" "rs_text st @ d"]
  by (auto simp: content_inv_def content_pre_def intro: safe_extend)

lemma detokenize_flag: "incremental_detokenize env gen = (d, gen') \<Longrightarrow> g_in_reasoning gen' = g_in_reasoning gen"
  by (auto simp: incremental_detokenize_def Let_def split: if_splits)

text \<open>One item, while content is streamed.\<close>

lemma raw_tokens_content:
  assumes "content_inv b stops markers st" "[] \<notin> set stops" "[] \<notin> set markers"
    and "raw_tokens env stops markers m toks st = (evs, st', fin)"
  shows "\<exists>d. rs_text st' = rs_text st @ d \<and> content_out evs (rs_emitted st) (rs_emitted st') (rs_text st') \<and>
    (if fin then content_cut b stops st' else content_inv b stops markers st')"
proof -
  let ?gen = "(rs_gen st)\<lparr>g_token_ids := g_token_ids (rs_gen st) @ take (nat (m - py_len (g_token_ids (rs_gen st)))) toks\<rparr>"
  obtain d gen where d: "incremental_detokenize env ?gen = (d, gen)" by (cases "incremental_detokenize env ?gen")
  have flag: "g_in_reasoning gen = g_in_reasoning (rs_gen st)" using detokenize_flag [OF d] by simp
  have act: "\<not> rs_reasoning_active st" and e: "rs_emitted st \<le> length (rs_text st)"
    using assms(1) by (simp_all add: content_inv_def content_pre_def)
  show ?thesis
  proof (cases "m - py_len (g_token_ids (rs_gen st)) \<le> 0 \<or> d = []")
    case True
    then have "evs = [] \<and> \<not> fin \<and> rs_text st' = rs_text st \<and> rs_emitted st' = rs_emitted st \<and> content_inv b stops markers st'"
      using assms(1,4) d flag by (auto simp: raw_tokens_def Let_def content_inv_def content_pre_def split: if_splits)
    then show ?thesis using e by (auto simp: content_out_def)
  next
    case False
    let ?st = "st\<lparr>rs_gen := gen, rs_text := rs_text st @ d\<rparr>"
    have "content_part stops markers ?st = (evs, st', fin)" using assms(4) d act False by (simp add: raw_tokens_def Let_def)
    from content_part_ok [OF content_pre_extend [OF assms(1) flag] assms(2,3) this]
    show ?thesis
      by (auto simp: content_out_def content_cut_def content_inv_def content_pre_def split: if_splits intro!: exI [of _ d])
  qed
qed

lemma stream_content:
  assumes "content_inv b stops markers st" "[] \<notin> set stops" "[] \<notin> set markers"
    and "stream_text_raw env stops markers m items st = (evs, Finished st')"
  shows "\<exists>d E. rs_text st' = rs_text st @ d \<and> content_out evs (rs_emitted st) E (rs_text st') \<and> content_final b stops markers E st'"
  using assms(1,4)
proof (induction items arbitrary: st evs)
  case (Cons item items)
  show ?case
  proof (cases item)
    case ItemEnd
    then have "raw_finish m st = (evs, st')" using Cons.prems(2) by (auto split: prod.splits)
    then show ?thesis using raw_finish_inv [OF Cons.prems(1)] by (metis append_Nil2)
  next
    case (ItemTokens toks)
    obtain evs1 st1 fin where tok: "raw_tokens env stops markers m toks st = (evs1, st1, fin)"
      by (cases "raw_tokens env stops markers m toks st")
    obtain d1 where d1: "rs_text st1 = rs_text st @ d1" "content_out evs1 (rs_emitted st) (rs_emitted st1) (rs_text st1)"
      "if fin then content_cut b stops st1 else content_inv b stops markers st1"
      using raw_tokens_content [OF Cons.prems(1) assms(2,3) tok] by blast
    show ?thesis
    proof (cases fin)
      case True
      obtain evs2 where fin2: "raw_finish m st1 = (evs2, st')" "evs = evs1 @ evs2"
        using Cons.prems(2) ItemTokens tok True by (auto split: prod.splits)
      then show ?thesis
        using raw_finish_cut [OF _ fin2(1), of b stops markers] d1 True content_out_append [OF d1(2), of evs2 _ "[]"] by auto
    next
      case False
      obtain evs2 where rest: "stream_text_raw env stops markers m items st1 = (evs2, Finished st')" "evs = evs1 @ evs2"
        using Cons.prems(2) ItemTokens tok False by (auto split: prod.splits)
      obtain d E where "rs_text st' = rs_text st1 @ d" "content_out evs2 (rs_emitted st1) E (rs_text st')" "content_final b stops markers E st'"
        using Cons.IH [OF _ rest(1)] d1(3) False by auto
      then show ?thesis using d1(1) content_out_append [OF d1(2)] rest(2) by auto
    qed
  qed (use Cons in auto)
qed simp

text \<open>
  C28: stop strings never leak, and nothing else is withheld. Without an open reasoning channel the deltas of a
  finished stream add up to a prefix of the decoded text that contains no stop string, however the text was cut
  into tokens. The request is aborted exactly when a stop string occurs. When it is aborted outside a buffered
  tool region the content is the text before the earliest stop string; when it is not, the content contains no
  marker either, and it is the whole text if no marker occurs.
\<close>

theorem stop_strings_never_leak:
  fixes env :: "('t, 'c) text_env"
  assumes "[] \<notin> set stops" "[] \<notin> set markers"
    and "stream_text_raw env stops markers m items (new_raw_state False) = (evs, Finished st)"
  shows "prefix (concat (map fst evs)) (rs_text st) \<and> \<not> occurs stops (concat (map fst evs)) \<and> (\<forall>ev\<in>set evs. \<not> snd ev) \<and>
    (rs_aborted st \<longleftrightarrow> occurs stops (rs_text st)) \<and>
    (rs_aborted st \<and> \<not> rs_holding_marker st \<longrightarrow>
       concat (map fst evs) = take (the (earliest_stop (rs_text st) stops)) (rs_text st)) \<and>
    (\<not> rs_aborted st \<longrightarrow> \<not> occurs markers (concat (map fst evs)) \<and>
       (\<not> occurs markers (rs_text st) \<longrightarrow> concat (map fst evs) = rs_text st))"
proof -
  have "content_inv 0 stops markers (new_raw_state False :: ('t, 'c) raw_state)"
    using assms(1,2) by (auto simp: content_inv_def content_pre_def new_raw_state_def new_generation_def occurs_def)
  then obtain d E where "content_out evs 0 E (rs_text st)" "content_final 0 stops markers E st"
    using stream_content [OF _ assms] by (auto simp: new_raw_state_def)
  then show ?thesis by (auto simp: content_out_def content_final_def slice_def take_is_prefix)
qed

subsection \<open>The reasoning channel\<close>

lemma skip_openers_split:
  "open \<noteq> [] \<Longrightarrow> skip_openers open (tx @ d) = skip_openers open tx + skip_openers open (drop (skip_openers open tx) tx @ d)"
proof (induction "open" tx rule: skip_openers.induct)
  case (1 "open" tx)
  show ?case
  proof (cases "prefix open tx")
    case True
    then obtain rest where tx: "tx = open @ rest" by (auto simp: prefix_def)
    have "skip_openers open tx = length open + skip_openers open rest" "skip_openers open (tx @ d) = length open + skip_openers open (rest @ d)"
      using 1(2) tx by (subst skip_openers.simps; simp)+
    then show ?thesis using 1(1) [OF _ 1(2)] 1(2) True tx by simp
  next
    case False
    then have "skip_openers open tx = 0" by (subst skip_openers.simps) simp
    then show ?thesis by simp
  qed
qed

lemma skip_openers_le: "skip_openers open tx \<le> length tx"
proof (induction "open" tx rule: skip_openers.induct)
  case (1 "open" tx)
  then show ?case by (subst skip_openers.simps) (auto simp: prefix_def)
qed

text \<open>Once the rest is neither a tag nor the beginning of one, more text changes nothing.\<close>

lemma skip_openers_stable:
  assumes "open \<noteq> []" "drop (skip_openers open tx) tx = rest" "rest \<noteq> []" "\<not> prefix rest open"
  shows "skip_openers open (tx @ d) = skip_openers open tx"
proof -
  have "\<not> prefix open rest"
  proof
    assume "prefix open rest"
    then have "skip_openers open rest \<noteq> 0" using assms(1) by (subst skip_openers.simps) simp
    moreover have "skip_openers open tx = skip_openers open tx + skip_openers open rest"
      using skip_openers_split [OF assms(1), of tx "[]"] assms(2) by simp
    ultimately show False by simp
  qed
  then have "\<not> prefix open (rest @ d)" using assms(4) by (meson prefix_same_cases prefixI)
  then have "skip_openers open (rest @ d) = 0" by (subst skip_openers.simps) simp
  then show ?thesis using skip_openers_split [OF assms(1), of tx d] assms(2) by simp
qed

lemma str_find_from_None: "s \<noteq> [] \<Longrightarrow> str_find_from tx s k = None \<longleftrightarrow> none_from k tx s"
proof -
  assume s: "s \<noteq> []"
  have "sublist s (drop k tx) \<longleftrightarrow> (\<exists>i. k \<le> i \<and> prefix s (drop i tx))"
    unfolding sublist_at
  proof
    assume "\<exists>i. k \<le> i \<and> prefix s (drop i tx)"
    then obtain i where i: "k \<le> i" "prefix s (drop i tx)" by blast
    then have "i - k \<le> length (drop k tx)" using s prefix_length_le [OF i(2)] by (cases s) auto
    then show "\<exists>i\<le>length (drop k tx). prefix s (drop i (drop k tx))" using i by (intro exI [of _ "i - k"]) simp
  qed (auto intro: exI [of _ "_ + k"])
  then show ?thesis unfolding str_find_from_def none_from_def by (simp add: str_find_None)
qed

lemma str_find_eqI:
  assumes "prefix s (drop i tx)" "i \<le> length tx" "\<forall>j<i. \<not> prefix s (drop j tx)"
  shows "str_find tx s = Some i"
proof -
  obtain j where j: "str_find tx s = Some j" using assms(1,2) str_find_None [of tx s] sublist_at [of s tx] by auto
  then show ?thesis using str_find_Some [OF j] assms by (metis linorder_neqE_nat)
qed

definition tags_ok :: "('t, 'c) text_env \<Rightarrow> bool" where
  "tags_ok env \<longleftrightarrow> te_think_open env \<noteq> [] \<and> te_think_close env \<noteq> [] \<and> \<not> sublist (te_think_close env) (te_think_open env)"

text \<open>While reasoning is open: \<open>k\<close> is the end of the redundant opening tags.\<close>

definition reasoning_inv :: "('t, 'c) text_env \<Rightarrow> ('t, 'c) raw_state \<Rightarrow> bool" where
  "reasoning_inv env st \<longleftrightarrow>
     (let tx = rs_text st; k = skip_openers (te_think_open env) tx; rest = drop k tx
      in rs_reasoning_active st \<and> \<not> rs_aborted st \<and> \<not> rs_holding_marker st \<and> k \<le> rs_emitted st \<and> rs_emitted st \<le> length tx \<and>
         (if rs_drop_openers st then rs_emitted st = k \<and> (rest = [] \<or> prefix rest (te_think_open env))
          else rest \<noteq> [] \<and> \<not> prefix rest (te_think_open env) \<and> none_from k tx (te_think_close env) \<and>
               safe k (rs_emitted st) tx [te_think_close env]))"

definition reasoned :: "('t, 'c) text_env \<Rightarrow> ('t, 'c) raw_state \<Rightarrow> 'c list" where
  "reasoned env st = slice (skip_openers (te_think_open env) (rs_text st)) (rs_emitted st) (rs_text st)"

text \<open>The state at the search for the closing tag.\<close>

definition reasoning_pre :: "('t, 'c) text_env \<Rightarrow> ('t, 'c) raw_state \<Rightarrow> bool" where
  "reasoning_pre env st \<longleftrightarrow>
     (let tx = rs_text st; k = skip_openers (te_think_open env) tx; rest = drop k tx
      in rs_reasoning_active st \<and> \<not> rs_aborted st \<and> \<not> rs_holding_marker st \<and> \<not> rs_drop_openers st \<and>
         k \<le> rs_emitted st \<and> rs_emitted st \<le> length tx \<and> rest \<noteq> [] \<and> \<not> prefix rest (te_think_open env) \<and>
         safe k (rs_emitted st) tx [te_think_close env])"

lemma emit_reasoning_eq:
  assumes "emit_reasoning bound st = (evs, st')"
  shows "rs_text st' = rs_text st" "rs_emitted st' = max (rs_emitted st) bound" "rs_reasoning_active st' = rs_reasoning_active st"
    "rs_aborted st' = rs_aborted st" "rs_holding_marker st' = rs_holding_marker st" "rs_drop_openers st' = rs_drop_openers st"
    "concat (map fst evs) = slice (rs_emitted st) (max (rs_emitted st) bound) (rs_text st)" "\<forall>ev\<in>set evs. snd ev"
  using assms by (auto simp: emit_reasoning_def max_def split: if_splits)

lemma reasoning_pre_none:
  assumes "reasoning_pre env st" "tags_ok env" "str_find_from (rs_text st) (te_think_close env) (rs_emitted st) = None"
    and "emit_reasoning (length (rs_text st) - partial_stop_holdback (rs_text st) [te_think_close env]) st = (evs, st')"
  shows "reasoning_inv env st' \<and> rs_text st' = rs_text st \<and> reasoned env st' = reasoned env st @ concat (map fst evs)"
proof -
  let ?T = "rs_text st" and ?c = "te_think_close env" and ?k = "skip_openers (te_think_open env) (rs_text st)"
  let ?bound = "length ?T - partial_stop_holdback ?T [?c]"
  have c: "?c \<noteq> []" using assms(2) by (simp add: tags_ok_def)
  have pre: "?k \<le> rs_emitted st" "rs_emitted st \<le> length ?T" "safe ?k (rs_emitted st) ?T [?c]"
    using assms(1) by (simp_all add: reasoning_pre_def Let_def)
  have none: "none_from ?k ?T ?c"
    unfolding none_from_def
  proof (intro allI impI notI)
    fix i assume "?k \<le> i" "prefix ?c (drop i ?T)"
    then have "rs_emitted st \<le> i" using pre(3) [unfolded safe_def, THEN spec, of "[]"] by auto
    then show False using assms(3) \<open>prefix ?c (drop i ?T)\<close> str_find_from_None [OF c] unfolding none_from_def by blast
  qed
  then have "safe ?k (max (rs_emitted st) ?bound) ?T [?c]" using pre(3) c by (intro safe_max holdback_safe_from) auto
  then have "reasoning_inv env st'"
    using emit_reasoning_eq [OF assms(4)] assms(1) none by (auto simp: reasoning_inv_def reasoning_pre_def Let_def)
  moreover have "reasoned env st' = reasoned env st @ concat (map fst evs)"
    using emit_reasoning_eq [OF assms(4)] slice_append [OF pre(1), of "max (rs_emitted st) ?bound" ?T]
    by (simp add: reasoned_def)
  ultimately show ?thesis using emit_reasoning_eq(1) [OF assms(4)] by blast
qed

lemma safe_finds_first:
  assumes "safe k e tx [s]" "str_find_from tx s e = Some c" "k \<le> e" "e \<le> length tx" "s \<noteq> []"
  shows "str_find (drop k tx @ d) s = Some (c - k) \<and> e \<le> c \<and> c + length s \<le> length tx"
proof -
  obtain j where j: "str_find (drop e tx) s = Some j" "c = e + j" using assms(2) by (auto simp: str_find_from_def)
  have at: "prefix s (drop c tx)" using str_find_Some [OF j(1)] j(2) by (simp add: add.commute)
  then have len: "c + length s \<le> length tx" using prefix_length_le [OF at] assms(5) by (cases s) auto
  have first: "\<not> prefix s (drop i (drop k tx @ d))" if "i < c - k" for i
  proof
    assume p: "prefix s (drop i (drop k tx @ d))"
    have "drop i (drop k tx @ d) = drop (i + k) (tx @ d)" using that len by simp
    then have p': "prefix s (drop (i + k) (tx @ d))" using p by simp
    then have "e \<le> i + k" using assms(1) unfolding safe_def by auto
    moreover have "prefix s (drop (i + k) tx)"
    proof -
      have "prefix (drop c tx) (drop c tx @ d)" by simp
      have "i + k + length s \<le> length tx" using that len by simp
      then show ?thesis using p' by (auto simp: prefix_def) (metis append_eq_append_conv_if append_take_drop_id length_drop le_diff_conv2 add.commute add_leD1)
    qed
    ultimately show False using str_find_Some [OF j(1)] j(2) that by (auto dest!: spec [of _ "i + k - e"])
  qed
  have "prefix s (drop (c - k) (drop k tx @ d))" using at j(2) assms(3) len by (simp add: prefix_prefix)
  moreover have "c - k \<le> length (drop k tx @ d)" using len by simp
  ultimately have "str_find (drop k tx @ d) s = Some (c - k)" using first by (intro str_find_eqI) auto
  then show ?thesis using j(2) len by simp
qed

lemma reasoning_pre_close:
  assumes "reasoning_pre env st" "tags_ok env" "str_find_from (rs_text st) (te_think_close env) (rs_emitted st) = Some c"
    and "emit_reasoning c st = (evs, st1)" "[] \<notin> set stops" "[] \<notin> set markers"
    and "st' = st1\<lparr>rs_emitted := c + length (te_think_close env), rs_reasoning_active := False,
           rs_gen := (rs_gen st1)\<lparr>g_in_reasoning := False\<rparr>\<rparr>"
  shows "content_pre (c + length (te_think_close env)) stops markers st' \<and> rs_text st' = rs_text st \<and>
    rs_emitted st' = c + length (te_think_close env) \<and>
    reasoned env st @ concat (map fst evs) = slice (skip_openers (te_think_open env) (rs_text st)) c (rs_text st) \<and>
    (\<forall>d. skip_openers (te_think_open env) (rs_text st @ d) = skip_openers (te_think_open env) (rs_text st) \<and>
       str_find (drop (skip_openers (te_think_open env) (rs_text st)) (rs_text st @ d)) (te_think_close env) =
         Some (c - skip_openers (te_think_open env) (rs_text st))) \<and> skip_openers (te_think_open env) (rs_text st) \<le> c"
proof -
  let ?T = "rs_text st" and ?c = "te_think_close env" and ?k = "skip_openers (te_think_open env) (rs_text st)"
  have pre: "?k \<le> rs_emitted st" "rs_emitted st \<le> length ?T" "safe ?k (rs_emitted st) ?T [?c]" "drop ?k ?T \<noteq> []"
    "\<not> prefix (drop ?k ?T) (te_think_open env)" "\<not> rs_aborted st" "\<not> rs_holding_marker st"
    using assms(1) by (simp_all add: reasoning_pre_def Let_def)
  have ne: "te_think_open env \<noteq> []" "?c \<noteq> []" using assms(2) by (simp_all add: tags_ok_def)
  have find: "str_find (drop ?k ?T @ d) ?c = Some (c - ?k)" "rs_emitted st \<le> c" "c + length ?c \<le> length ?T" for d
    using safe_finds_first [OF pre(3) assms(3) pre(1,2) ne(2)] by auto
  have nil: "\<not> occurs stops []" "\<not> occurs markers []" using assms(5,6) by (auto simp: occurs_def)
  have "content_pre (c + length ?c) stops markers st'"
    using emit_reasoning_eq [OF assms(4)] find(3) pre(6,7) nil unfolding assms(7) by (simp add: content_pre_def)
  moreover have "reasoned env st @ concat (map fst evs) = slice ?k c ?T"
    using emit_reasoning_eq(7) [OF assms(4)] find(2) slice_append [OF pre(1) find(2)] by (simp add: reasoned_def max_absorb2)
  ultimately show ?thesis
    using skip_openers_stable [OF ne(1) refl pre(4,5)] find pre(1) emit_reasoning_eq(1) [OF assms(4)] pre(1,2) unfolding assms(7)
    by auto
qed

definition closed_at :: "('t, 'c) text_env \<Rightarrow> nat \<Rightarrow> 'c list \<Rightarrow> bool" where
  "closed_at env c tx \<longleftrightarrow>
     (let k = skip_openers (te_think_open env) tx
      in k \<le> c \<and> (\<forall>d. skip_openers (te_think_open env) (tx @ d) = k \<and> str_find (drop k (tx @ d)) (te_think_close env) = Some (c - k)))"

lemma closed_at_extend: "closed_at env c tx \<Longrightarrow> closed_at env c (tx @ d)"
proof -
  assume "closed_at env c tx"
  then have all: "skip_openers (te_think_open env) tx \<le> c"
    "\<And>d. skip_openers (te_think_open env) (tx @ d) = skip_openers (te_think_open env) tx \<and>
       str_find (drop (skip_openers (te_think_open env) tx) (tx @ d)) (te_think_close env) = Some (c - skip_openers (te_think_open env) tx)"
    unfolding closed_at_def Let_def by blast+
  show "closed_at env c (tx @ d)" unfolding closed_at_def Let_def using all(1) all(2) [of "d @ _"] all(2) [of d] by auto
qed

text \<open>After new text: either more opening tags may follow, or the search for the closing tag is reached.\<close>

lemma reasoning_enter:
  assumes "reasoning_inv env st" "tags_ok env" "st1 = st\<lparr>rs_gen := gen, rs_text := rs_text st @ d\<rparr>"
  shows "(\<exists>st2. reasoning_part env st1 = ([], st2, False) \<and> reasoning_inv env st2 \<and> rs_text st2 = rs_text st @ d \<and>
      reasoned env st = [] \<and> reasoned env st2 = []) \<or>
    (\<exists>s. reasoning_pre env s \<and> rs_text s = rs_text st @ d \<and> reasoned env s = reasoned env st \<and>
      reasoning_part env st1 = reasoning_search env s)"
proof -
  let ?o = "te_think_open env" and ?T = "rs_text st @ d"
  let ?k = "skip_openers ?o (rs_text st)" and ?k' = "skip_openers ?o (rs_text st @ d)"
  have o: "?o \<noteq> []" using assms(2) by (simp add: tags_ok_def)
  have inv: "rs_reasoning_active st" "\<not> rs_aborted st" "\<not> rs_holding_marker st" "?k \<le> rs_emitted st" "rs_emitted st \<le> length (rs_text st)"
    using assms(1) by (simp_all add: reasoning_inv_def Let_def)
  show ?thesis
  proof (cases "rs_drop_openers st")
    case True
    then have e: "rs_emitted st = ?k" using assms(1) by (simp add: reasoning_inv_def Let_def)
    have "drop ?k ?T = drop ?k (rs_text st) @ d" using inv(4,5) by simp
    then have skip: "skip_redundant_think_openers ?o ?T (rs_emitted st) = (?k', drop ?k' ?T = [] \<or> prefix (drop ?k' ?T) ?o)"
      using skip_openers_split [OF o, of "rs_text st" d] unfolding e skip_redundant_think_openers_def Let_def by simp
    define T k' q where "T = ?T" and "k' = ?k'" and "q = (drop ?k' ?T = [] \<or> prefix (drop ?k' ?T) ?o)"
    have T: "rs_text st1 = T" "k' = skip_openers ?o T" "k' \<le> length T" "q = (drop k' T = [] \<or> prefix (drop k' T) ?o)"
      using assms(3) skip_openers_le [of ?o ?T] by (simp_all add: T_def k'_def q_def)
    let ?s = "st1\<lparr>rs_emitted := k', rs_drop_openers := q\<rparr>"
    have nil: "reasoned env st = []" "reasoned env ?s = []" using e T(1,2) by (simp_all add: reasoned_def)
    have skip': "skip_redundant_think_openers ?o (rs_text st1) (rs_emitted st1) = (k', q)" "rs_drop_openers st1"
      using skip True assms(3) unfolding T(1) by (simp_all add: T_def k'_def q_def)
    have fl: "rs_reasoning_active st1" "\<not> rs_aborted st1" "\<not> rs_holding_marker st1" using inv assms(3) by simp_all
    have tx: "rs_text ?s = ?T" using T(1) T_def by simp
    show ?thesis
    proof (cases q)
      case True
      have "reasoning_part env st1 = ([], ?s, False)" using skip' True by (simp add: reasoning_part_def Let_def)
      moreover have "reasoning_inv env ?s" using fl T True by (simp add: reasoning_inv_def Let_def)
      ultimately show ?thesis using nil tx by blast
    next
      case False
      have pre: "reasoning_pre env ?s" using fl T False by (simp add: reasoning_pre_def Let_def)
      have part: "reasoning_part env st1 = reasoning_search env ?s"
        using skip' False by (simp add: reasoning_part_def Let_def)
      show ?thesis by (rule disjI2, rule exI [of _ ?s], intro conjI) (fact pre, fact tx, simp only: nil, fact part)
    qed
  next
    case False
    then have rest: "drop ?k (rs_text st) \<noteq> []" "\<not> prefix (drop ?k (rs_text st)) ?o" "safe ?k (rs_emitted st) (rs_text st) [te_think_close env]"
      using assms(1) by (simp_all add: reasoning_inv_def Let_def)
    then have k: "?k' = ?k" by (intro skip_openers_stable [OF o refl])
    have "drop ?k ?T = drop ?k (rs_text st) @ d" using inv(4,5) by simp
    moreover from this have "\<not> prefix (drop ?k ?T) ?o" using rest(2) by (auto dest: append_prefixD)
    ultimately have "reasoning_pre env st1"
      using inv rest False k assms(3) safe_extend [OF rest(3)] by (auto simp: reasoning_pre_def Let_def)
    moreover have "reasoned env st1 = reasoned env st" using k inv assms(3) by (simp add: reasoned_def)
    ultimately show ?thesis using False assms(3) by (intro disjI2 exI [of _ st1]) (simp add: reasoning_part_def Let_def)
  qed
qed

text \<open>One item while reasoning is open: either it stays open, or it is closed and the content part has run.\<close>

lemma raw_tokens_reasoning:
  assumes inv: "reasoning_inv env st" and tags: "tags_ok env" and ne: "[] \<notin> set stops" "[] \<notin> set markers"
    and run: "raw_tokens env stops markers m toks st = (evs, st', fin)"
  shows "\<exists>d. rs_text st' = rs_text st @ d \<and>
    ((\<not> fin \<and> reasoning_inv env st' \<and> reasoned env st' = reasoned env st @ concat (map fst evs) \<and> (\<forall>ev\<in>set evs. snd ev)) \<or>
     (\<exists>revs cevs c. evs = revs @ cevs \<and> (\<forall>ev\<in>set revs. snd ev) \<and> closed_at env c (rs_text st') \<and>
        reasoned env st @ concat (map fst revs) = slice (skip_openers (te_think_open env) (rs_text st')) c (rs_text st') \<and>
        content_out cevs (c + length (te_think_close env)) (rs_emitted st') (rs_text st') \<and>
        (if fin then content_cut (c + length (te_think_close env)) stops st'
         else content_inv (c + length (te_think_close env)) stops markers st')))"
proof -
  let ?gen = "(rs_gen st)\<lparr>g_token_ids := g_token_ids (rs_gen st) @ take (nat (m - py_len (g_token_ids (rs_gen st)))) toks\<rparr>"
  obtain d gen where d: "incremental_detokenize env ?gen = (d, gen)" by (cases "incremental_detokenize env ?gen")
  have act: "rs_reasoning_active st" using inv by (simp add: reasoning_inv_def Let_def)
  show ?thesis
  proof (cases "m - py_len (g_token_ids (rs_gen st)) \<le> 0 \<or> d = []")
    case True
    then have "evs = [] \<and> \<not> fin \<and> rs_text st' = rs_text st \<and> reasoning_inv env st' \<and> reasoned env st' = reasoned env st"
      using inv run d by (auto simp: raw_tokens_def Let_def reasoning_inv_def reasoned_def split: if_splits)
    then show ?thesis by auto
  next
    case False
    let ?st = "st\<lparr>rs_gen := gen, rs_text := rs_text st @ d\<rparr>"
    have run': "(case reasoning_part env ?st of (evs, st2, False) \<Rightarrow> (evs, st2, False)
        | (evs, st2, True) \<Rightarrow> (case content_part stops markers st2 of (evs', st3, fin) \<Rightarrow> (evs @ evs', st3, fin))) = (evs, st', fin)"
      using run d act False by (simp add: raw_tokens_def Let_def split: prod.splits bool.splits)
    consider (more) st2 where "reasoning_part env ?st = ([], st2, False)" "reasoning_inv env st2" "rs_text st2 = rs_text st @ d"
        "reasoned env st = []" "reasoned env st2 = []"
      | (search) s where "reasoning_pre env s" "rs_text s = rs_text st @ d" "reasoned env s = reasoned env st"
        "reasoning_part env ?st = reasoning_search env s"
      using reasoning_enter [OF inv tags, where gen = gen and d = d, OF refl] by blast
    then show ?thesis
    proof cases
      case more
      then show ?thesis using run' by auto
    next
      case search
      show ?thesis
      proof (cases "str_find_from (rs_text s) (te_think_close env) (rs_emitted s)")
        case None
        obtain evs1 st1 where em: "emit_reasoning (length (rs_text s) - partial_stop_holdback (rs_text s) [te_think_close env]) s = (evs1, st1)"
          by (cases "emit_reasoning (length (rs_text s) - partial_stop_holdback (rs_text s) [te_think_close env]) s")
        then have "evs = evs1" "st' = st1" "\<not> fin" using run' search(4) None by (auto simp: reasoning_search_def)
        then show ?thesis
          using reasoning_pre_none [OF search(1) tags None em] search(2,3) emit_reasoning_eq(8) [OF em] by auto
      next
        case (Some c)
        obtain evs1 st1 where em: "emit_reasoning c s = (evs1, st1)" by (cases "emit_reasoning c s")
        define st2 where "st2 = st1\<lparr>rs_emitted := c + length (te_think_close env), rs_reasoning_active := False,
          rs_gen := (rs_gen st1)\<lparr>g_in_reasoning := False\<rparr>\<rparr>"
        obtain evs2 st3 fin3 where cp: "content_part stops markers st2 = (evs2, st3, fin3)" by (cases "content_part stops markers st2")
        then have eq: "evs = evs1 @ evs2" "st' = st3" "fin = fin3" using run' search(4) Some em st2_def by (auto simp: reasoning_search_def)
        note cl = reasoning_pre_close [OF search(1) tags Some em ne st2_def]
        have cpre: "content_pre (c + length (te_think_close env)) stops markers st2" and T2: "rs_text st2 = rs_text s"
          and e2: "rs_emitted st2 = c + length (te_think_close env)"
          using cl by blast+
        note co = content_part_ok [OF cpre ne cp]
        have T': "rs_text st' = rs_text s" using co T2 eq(2) by simp
        have closed: "closed_at env c (rs_text s)" using cl unfolding closed_at_def Let_def by blast
        have "rs_emitted st' \<le> length (rs_text s)"
          using co T' eq by (auto simp: content_cut_def content_inv_def content_pre_def split: if_splits)
        then have out: "content_out evs2 (c + length (te_think_close env)) (rs_emitted st') (rs_text s)"
          using co e2 T2 eq(2) by (simp add: content_out_def)
        have fin: "if fin then content_cut (c + length (te_think_close env)) stops st'
            else content_inv (c + length (te_think_close env)) stops markers st'"
          using co eq by simp
        have reas: "reasoned env st @ concat (map fst evs1) = slice (skip_openers (te_think_open env) (rs_text s)) c (rs_text s)"
          using cl search(3) by simp
        show ?thesis
          by (rule exI [of _ d], rule conjI, simp only: T' search(2), rule disjI2, rule exI [of _ evs1], rule exI [of _ evs2],
              rule exI [of _ c])
            (use eq(1) emit_reasoning_eq(8) [OF em] closed out fin reas in \<open>simp only: T' simp_thms\<close>)
      qed
    qed
  qed
qed

text \<open>How a finished stream divides into the two channels.\<close>

definition channels_ok ::
  "('t, 'c) text_env \<Rightarrow> 'c list list \<Rightarrow> 'c list list \<Rightarrow> 'c list \<Rightarrow> 'c event list \<Rightarrow> ('t, 'c) raw_state \<Rightarrow> bool" where
  "channels_ok env stops markers before evs st \<longleftrightarrow>
     (\<exists>revs cevs. evs = revs @ cevs \<and> (\<forall>ev\<in>set revs. snd ev) \<and> (\<forall>ev\<in>set cevs. \<not> snd ev) \<and>
       (let tx = rs_text st; k = skip_openers (te_think_open env) tx
        in case str_find (drop k tx) (te_think_close env) of
             None \<Rightarrow> before @ concat (map fst revs) = drop k tx \<and> cevs = [] \<and> \<not> rs_aborted st
           | Some c \<Rightarrow> before @ concat (map fst revs) = take c (drop k tx) \<and>
               (\<exists>E. content_out cevs (k + c + length (te_think_close env)) E tx \<and>
                    content_final (k + c + length (te_think_close env)) stops markers E st)))"

lemma channels_closed:
  assumes "closed_at env c (rs_text st)" "\<forall>ev\<in>set revs. snd ev"
    and "before @ concat (map fst revs) = slice (skip_openers (te_think_open env) (rs_text st)) c (rs_text st)"
    and "content_out cevs (c + length (te_think_close env)) E (rs_text st)"
    and "content_final (c + length (te_think_close env)) stops markers E st"
  shows "channels_ok env stops markers before (revs @ cevs) st"
proof -
  let ?T = "rs_text st"
  define k where "k = skip_openers (te_think_open env) ?T"
  have k: "k \<le> c" "str_find (drop k ?T) (te_think_close env) = Some (c - k)"
    using assms(1) [unfolded closed_at_def Let_def, folded k_def, THEN conjunct1]
      assms(1) [unfolded closed_at_def Let_def, THEN conjunct2, THEN spec, of "[]"] by (simp_all add: k_def)
  have "slice k c ?T = take (c - k) (drop k ?T)" by (simp add: slice_def drop_take)
  then show ?thesis
    unfolding channels_ok_def Let_def k_def [symmetric] k(2) option.case
    using assms(2-5) k(1) by (intro exI [of _ revs] exI [of _ cevs]) (auto simp: content_out_def k_def [symmetric])
qed

lemma raw_finish_reasoning:
  assumes "reasoning_inv env st" "tags_ok env" "raw_finish m st = (evs, st')"
  shows "channels_ok env stops markers (reasoned env st) evs st' \<and> rs_text st' = rs_text st"
proof -
  let ?T = "rs_text st" and ?c = "te_think_close env" and ?o = "te_think_open env"
  define k where "k = skip_openers ?o ?T"
  have inv: "rs_reasoning_active st" "\<not> rs_aborted st" "\<not> rs_holding_marker st" "k \<le> rs_emitted st" "rs_emitted st \<le> length ?T"
    using assms(1) by (simp_all add: reasoning_inv_def Let_def k_def)
  have st': "rs_text st' = ?T" "\<not> rs_aborted st'" using assms(3) inv by (auto simp: raw_finish_def Let_def split: if_splits)
  have "\<not> sublist ?c (drop k ?T)"
  proof (cases "rs_drop_openers st")
    case True
    then have "drop k ?T = [] \<or> prefix (drop k ?T) ?o" using assms(1) by (simp add: reasoning_inv_def Let_def k_def)
    then have "sublist (drop k ?T) ?o" by (auto simp: prefix_imp_sublist)
    then show ?thesis using assms(2) unfolding tags_ok_def by (meson sublist_order.order_trans)
  next
    case False
    then have "none_from k ?T ?c" using assms(1) by (simp add: reasoning_inv_def Let_def k_def)
    then show ?thesis
      using assms(2) str_find_from_None [of ?c ?T k] by (simp add: tags_ok_def str_find_from_def str_find_None)
  qed
  then have none: "str_find (drop k ?T) ?c = None" by (simp add: str_find_None)
  have "reasoned env st @ concat (map fst evs) = drop k ?T" "\<forall>ev\<in>set evs. snd ev"
    using assms(3) inv slice_append [of k "rs_emitted st" "length ?T" ?T]
    by (auto simp: raw_finish_def Let_def reasoned_def k_def [symmetric] slice_def split: if_splits)
  then have "channels_ok env stops markers (reasoned env st) evs st'"
    unfolding channels_ok_def Let_def st'(1) k_def [symmetric] none option.case using st'(2) by (intro exI [of _ evs] exI [of _ "[]"]) simp
  then show ?thesis using st'(1) by simp
qed

lemma channels_append:
  "channels_ok env stops markers (before @ concat (map fst revs)) evs st \<Longrightarrow> \<forall>ev\<in>set revs. snd ev \<Longrightarrow>
   channels_ok env stops markers before (revs @ evs) st"
  unfolding channels_ok_def
proof (elim exE conjE)
  fix r c assume "evs = r @ c" "\<forall>ev\<in>set r. snd ev" "\<forall>ev\<in>set c. \<not> snd ev" "\<forall>ev\<in>set revs. snd ev"
    "let tx = rs_text st; k = skip_openers (te_think_open env) tx
     in case str_find (drop k tx) (te_think_close env) of
          None \<Rightarrow> (before @ concat (map fst revs)) @ concat (map fst r) = drop k tx \<and> c = [] \<and> \<not> rs_aborted st
        | Some x \<Rightarrow> (before @ concat (map fst revs)) @ concat (map fst r) = take x (drop k tx) \<and>
            (\<exists>E. content_out c (k + x + length (te_think_close env)) E tx \<and>
                 content_final (k + x + length (te_think_close env)) stops markers E st)"
  then show "\<exists>r c. revs @ evs = r @ c \<and> (\<forall>ev\<in>set r. snd ev) \<and> (\<forall>ev\<in>set c. \<not> snd ev) \<and>
      (let tx = rs_text st; k = skip_openers (te_think_open env) tx
       in case str_find (drop k tx) (te_think_close env) of
            None \<Rightarrow> before @ concat (map fst r) = drop k tx \<and> c = [] \<and> \<not> rs_aborted st
          | Some x \<Rightarrow> before @ concat (map fst r) = take x (drop k tx) \<and>
              (\<exists>E. content_out c (k + x + length (te_think_close env)) E tx \<and>
                   content_final (k + x + length (te_think_close env)) stops markers E st))"
    by (intro exI [of _ "revs @ r"] exI [of _ c]) (auto simp: Let_def split: option.splits)
qed

lemma stream_reasoning:
  assumes "reasoning_inv env st" "tags_ok env" "[] \<notin> set stops" "[] \<notin> set markers"
    and "stream_text_raw env stops markers m items st = (evs, Finished st')"
  shows "channels_ok env stops markers (reasoned env st) evs st'"
  using assms(1,5)
proof (induction items arbitrary: st evs)
  case (Cons item items)
  show ?case
  proof (cases item)
    case ItemEnd
    then have "raw_finish m st = (evs, st')" using Cons.prems(2) by (auto split: prod.splits)
    then show ?thesis using raw_finish_reasoning [OF Cons.prems(1) assms(2)] by blast
  next
    case (ItemTokens toks)
    obtain evs1 st1 fin where tok: "raw_tokens env stops markers m toks st = (evs1, st1, fin)"
      by (cases "raw_tokens env stops markers m toks st")
    consider (still) "\<not> fin" "reasoning_inv env st1" "reasoned env st1 = reasoned env st @ concat (map fst evs1)" "\<forall>ev\<in>set evs1. snd ev"
      | (closed) revs cevs c where "evs1 = revs @ cevs" "\<forall>ev\<in>set revs. snd ev" "closed_at env c (rs_text st1)"
        "reasoned env st @ concat (map fst revs) = slice (skip_openers (te_think_open env) (rs_text st1)) c (rs_text st1)"
        "content_out cevs (c + length (te_think_close env)) (rs_emitted st1) (rs_text st1)"
        "if fin then content_cut (c + length (te_think_close env)) stops st1
         else content_inv (c + length (te_think_close env)) stops markers st1"
      using raw_tokens_reasoning [OF Cons.prems(1) assms(2-4) tok] by blast
    then show ?thesis
    proof cases
      case still
      obtain evs2 where rest: "stream_text_raw env stops markers m items st1 = (evs2, Finished st')" "evs = evs1 @ evs2"
        using Cons.prems(2) ItemTokens tok still(1) by (auto split: prod.splits)
      then show ?thesis using channels_append Cons.IH [OF still(2) rest(1)] still(3,4) by simp
    next
      case closed
      let ?b = "c + length (te_think_close env)"
      have "\<exists>evs2 d E. evs = evs1 @ evs2 \<and> rs_text st' = rs_text st1 @ d \<and> content_out evs2 (rs_emitted st1) E (rs_text st') \<and>
          content_final ?b stops markers E st'"
      proof (cases fin)
        case True
        obtain evs2 where fin2: "raw_finish m st1 = (evs2, st')" "evs = evs1 @ evs2"
          using Cons.prems(2) ItemTokens tok True by (auto split: prod.splits)
        then show ?thesis using raw_finish_cut [OF _ fin2(1), of ?b stops markers] closed(6) True by auto
      next
        case False
        obtain evs2 where rest: "stream_text_raw env stops markers m items st1 = (evs2, Finished st')" "evs = evs1 @ evs2"
          using Cons.prems(2) ItemTokens tok False by (auto split: prod.splits)
        then show ?thesis using stream_content [OF _ assms(3,4) rest(1)] closed(6) False by auto
      qed
      then obtain evs2 d E where fin: "evs = evs1 @ evs2" "rs_text st' = rs_text st1 @ d" "content_out evs2 (rs_emitted st1) E (rs_text st')"
        "content_final ?b stops markers E st'" by blast
      have cl: "closed_at env c (rs_text st')" using closed_at_extend [OF closed(3)] fin(2) by simp
      have c_le: "c \<le> length (rs_text st1)" using closed(5) by (simp add: content_out_def)
      have "skip_openers (te_think_open env) (rs_text st') = skip_openers (te_think_open env) (rs_text st1)"
        using closed(3) fin(2) unfolding closed_at_def Let_def by auto
      then have "reasoned env st @ concat (map fst revs) = slice (skip_openers (te_think_open env) (rs_text st')) c (rs_text st')"
        using closed(4) c_le fin(2) by simp
      then show ?thesis
        using channels_closed [OF cl closed(2) _ _ fin(4), of "reasoned env st" "cevs @ evs2"] content_out_append [OF closed(5)] fin(1-3) closed(1)
        by auto
    qed
  qed (use Cons in auto)
qed simp

text \<open>
  Reasoning and answer are separated exactly. With the thinking tag opened in the prompt, redundant opening
  tags are dropped, everything up to the closing tag goes to the reasoning channel and nothing else does, and
  the content starts after the tag and contains no stop string. If neither a stop string nor a marker occurs in
  the whole text, reasoning included, the content is all the text after the tag.
\<close>

lemma reasoning_is_separated:
  fixes env :: "('t, 'c) text_env"
  assumes "tags_ok env" "[] \<notin> set stops" "[] \<notin> set markers"
    and "stream_text_raw env stops markers m items (new_raw_state True) = (evs, Finished st)"
    and "rest = drop (skip_openers (te_think_open env) (rs_text st)) (rs_text st)"
  shows "\<exists>revs cevs. evs = revs @ cevs \<and> (\<forall>ev\<in>set revs. snd ev) \<and> (\<forall>ev\<in>set cevs. \<not> snd ev) \<and>
    (case str_find rest (te_think_close env) of
       None \<Rightarrow> concat (map fst revs) = rest \<and> cevs = []
     | Some c \<Rightarrow> concat (map fst revs) = take c rest \<and>
         prefix (concat (map fst cevs)) (drop (c + length (te_think_close env)) rest) \<and>
         \<not> occurs stops (concat (map fst cevs)) \<and>
         (\<not> occurs stops (rs_text st) \<and> \<not> occurs markers (rs_text st) \<longrightarrow>
            concat (map fst cevs) = drop (c + length (te_think_close env)) rest))"
proof -
  have "skip_openers (te_think_open env) [] = 0" by (subst skip_openers.simps) auto
  then have "reasoning_inv env (new_raw_state True)" "reasoned env (new_raw_state True) = []"
    by (simp_all add: reasoning_inv_def reasoned_def new_raw_state_def Let_def)
  then have ok: "channels_ok env stops markers [] evs st" using stream_reasoning [OF _ assms(1-4)] by metis
  show ?thesis
  proof (cases "str_find rest (te_think_close env)")
    case None
    then show ?thesis using ok unfolding channels_ok_def Let_def assms(5) by auto
  next
    case (Some c)
    let ?b = "skip_openers (te_think_open env) (rs_text st) + c + length (te_think_close env)"
    obtain revs cevs E where ch: "evs = revs @ cevs" "\<forall>ev\<in>set revs. snd ev" "\<forall>ev\<in>set cevs. \<not> snd ev"
      "concat (map fst revs) = take c rest" "content_out cevs ?b E (rs_text st)" "content_final ?b stops markers E st"
      using ok Some unfolding channels_ok_def Let_def assms(5) by auto
    have tail: "drop (c + length (te_think_close env)) rest = drop ?b (rs_text st)" unfolding assms(5) by (simp add: ac_simps)
    have out: "concat (map fst cevs) = slice ?b E (rs_text st)" using ch(5) by (simp add: content_out_def)
    have "prefix (slice ?b E (rs_text st)) (drop ?b (rs_text st))" by (simp add: slice_def drop_take take_is_prefix)
    moreover have "\<not> occurs stops (slice ?b E (rs_text st))" using ch(6) by (simp add: content_final_def)
    moreover have "\<not> occurs stops (rs_text st) \<and> \<not> occurs markers (rs_text st) \<longrightarrow> slice ?b E (rs_text st) = drop ?b (rs_text st)"
      using ch(6) by (auto simp: content_final_def slice_to_end)
    ultimately show ?thesis
      unfolding Some option.case tail using ch(1-4) out by (intro exI [of _ revs] exI [of _ cevs]) simp
  qed
qed

subsection \<open>Runs\<close>

text \<open>Tokens that are characters, with the tags of the default parser.\<close>

definition char_env :: "(char, char) text_env" where
  "char_env = \<lparr>te_decode = (\<lambda>x. x), te_replacement = CHR 0x00, te_think_open = ''<think>'', te_think_close = ''</think>''\<rparr>"

definition run_chars :: "string list \<Rightarrow> string list \<Rightarrow> bool \<Rightarrow> string list \<Rightarrow> char event list \<times> (char, char) outcome" where
  "run_chars stops markers reasoning_open chunks =
     stream_text_raw char_env stops markers 100 (map ItemTokens chunks @ [ItemEnd]) (new_raw_state reasoning_open)"

definition finished_state :: "(char, char) outcome \<Rightarrow> (char, char) raw_state" where
  "finished_state out = (case out of Finished st \<Rightarrow> st | Waiting st \<Rightarrow> st | Raised e \<Rightarrow> new_raw_state False)"

theorem stop_strings_never_leak_witness:
  "let (evs, out) = run_chars [''STOP''] [''<tool>''] False [''ab S'', ''TOP c'']; st = finished_state out
   in prefix (concat (map fst evs)) (rs_text st) \<and> \<not> occurs [''STOP''] (concat (map fst evs)) \<and>
      rs_aborted st \<and> concat (map fst evs) = take (the (earliest_stop (rs_text st) [''STOP''])) (rs_text st)"
proof -
  obtain evs out where run: "run_chars [''STOP''] [''<tool>''] False [''ab S'', ''TOP c''] = (evs, out)"
    by (cases "run_chars [''STOP''] [''<tool>''] False [''ab S'', ''TOP c'']")
  have "case snd (run_chars [''STOP''] [''<tool>''] False [''ab S'', ''TOP c'']) of Finished st \<Rightarrow> rs_aborted st \<and> \<not> rs_holding_marker st | _ \<Rightarrow> False"
    by code_simp
  then obtain st where st: "out = Finished st" "rs_aborted st" "\<not> rs_holding_marker st" using run by (auto split: outcome.splits)
  have "stream_text_raw char_env [''STOP''] [''<tool>''] 100 (map ItemTokens [''ab S'', ''TOP c''] @ [ItemEnd]) (new_raw_state False) = (evs, Finished st)"
    using run st(1) by (simp add: run_chars_def)
  from stop_strings_never_leak [OF _ _ this] show ?thesis using run st by (auto simp: finished_state_def)
qed

lemma reasoning_is_separated_witness:
  "let (evs, out) = run_chars [''STOP''] [''<tool>''] True [''<think>why</th'', ''ink>so'']; st = finished_state out
   in \<exists>revs cevs. evs = revs @ cevs \<and> concat (map fst revs) = ''why'' \<and> concat (map fst cevs) = ''so''"
proof -
  obtain evs out where run: "run_chars [''STOP''] [''<tool>''] True [''<think>why</th'', ''ink>so''] = (evs, out)"
    by (cases "run_chars [''STOP''] [''<tool>''] True [''<think>why</th'', ''ink>so'']")
  have fin: "case snd (run_chars [''STOP''] [''<tool>''] True [''<think>why</th'', ''ink>so'']) of
      Finished st \<Rightarrow> rs_text st = ''<think>why</think>so'' | _ \<Rightarrow> False"
    by code_simp
  then obtain st where st: "out = Finished st" "rs_text st = ''<think>why</think>so''" using run by (auto split: outcome.splits)
  have tags: "tags_ok char_env" by code_simp
  have clean: "\<not> occurs [''STOP''] ''<think>why</think>so'' \<and> \<not> occurs [''<tool>''] ''<think>why</think>so''" by code_simp
  have rest: "drop (skip_openers (te_think_open char_env) ''<think>why</think>so'') ''<think>why</think>so'' = ''why</think>so''"
    by code_simp
  have find: "str_find ''why</think>so'' (te_think_close char_env) = Some 3" "length (te_think_close char_env) = 8" by code_simp+
  have "stream_text_raw char_env [''STOP''] [''<tool>''] 100 (map ItemTokens [''<think>why</th'', ''ink>so''] @ [ItemEnd]) (new_raw_state True) = (evs, Finished st)"
    using run st(1) by (simp add: run_chars_def)
  from reasoning_is_separated [OF tags _ _ this refl] show ?thesis
    using run st clean unfolding st(2) rest find option.case by (auto simp: finished_state_def)
qed

text \<open>
  Three runs the source does not intend. A stop string that occurs in the reasoning ends the answer before it
  starts; the content buffered behind a tool marker is yielded when a stop string follows it; and a redundant
  opening tag, which the code drops from the reasoning, still counts as a marker and freezes the answer.
\<close>

lemma stop_in_reasoning_drops_answer:
  "case run_chars [''STOP''] [] True [''a STOP sign</think>answer''] of
     (evs, Finished st) \<Rightarrow> evs = [(''a STOP sign'', True)] \<and> rs_aborted st | _ \<Rightarrow> False"
  by code_simp

lemma stop_yields_buffered_tool_call:
  "case run_chars [''STOP''] [''<tool_call>''] False [''hi <tool_call>f'', ''oo STOP''] of
     (evs, Finished st) \<Rightarrow> concat (map fst evs) = ''hi <tool_call>foo '' \<and> list_all (\<lambda>ev. \<not> snd ev) evs | _ \<Rightarrow> False"
  by code_simp

lemma redundant_opener_freezes_answer:
  "case run_chars [] [''<tool_call>'', ''<think>''] True [''<think>why</think>answer''] of
     (evs, Finished st) \<Rightarrow> evs = [(''why'', True)] \<and> rs_holding_marker st | _ \<Rightarrow> False"
  by code_simp

end
