(* ===== verification/K3_Parser.thy ===== *)
theory K3_Parser
  imports Stop_Stream
begin

section \<open>The K3 channel parser (\<open>server/kimi_k3_parser.py\<close>, \<open>server/tool_parser.py\<close>)\<close>

text \<open>
  The incremental parser of the XTML channels of Kimi K3: a state machine over the decoded stream that separates
  reasoning, response and tool calls. Characters are the 256 characters of \<^typ>\<open>char\<close>. A decoded JSON argument is
  represented by its text; whether \<open>json.loads\<close> accepts a text is the parameter \<open>json_ok\<close>.
\<close>

subsection \<open>Characters and attributes\<close>

definition is_space :: "char \<Rightarrow> bool" where
  "is_space c \<longleftrightarrow> of_char c \<in> {9, 10, 11, 12, 13, 28, 29, 30, 31, 32, 133, 160 :: nat}"

definition is_word :: "char \<Rightarrow> bool" where
  "is_word c \<longleftrightarrow> (let n = (of_char c :: nat) in
     (48 \<le> n \<and> n \<le> 57) \<or> (65 \<le> n \<and> n \<le> 90) \<or> (97 \<le> n \<and> n \<le> 122) \<or> n = 95 \<or>
     n \<in> {170, 178, 179, 181, 185, 186, 188, 189, 190} \<or> (192 \<le> n \<and> n \<noteq> 215 \<and> n \<noteq> 247))"

definition lstrip :: "string \<Rightarrow> string" where
  "lstrip s = dropWhile is_space s"

definition strip :: "string \<Rightarrow> string" where
  "strip s = rev (lstrip (rev (lstrip s)))"

text \<open>\<open>s.strip().split(None, 1)\<close>: the first word, and the rest when there is one.\<close>

definition split_header :: "string \<Rightarrow> string list" where
  "split_header s =
     (let t = strip s; word = takeWhile (\<lambda>c. \<not> is_space c) t; rest = lstrip (dropWhile (\<lambda>c. \<not> is_space c) t)
      in if t = [] then [] else if rest = [] then [word] else [word, rest])"

function replace_all :: "string \<Rightarrow> string \<Rightarrow> string \<Rightarrow> string" where
  "replace_all old new s =
     (case s of [] \<Rightarrow> [] | c # cs \<Rightarrow>
        if old \<noteq> [] \<and> prefix old s then new @ replace_all old new (drop (length old) s) else c # replace_all old new cs)"
  by pat_completeness auto
termination
  by (relation "measure (\<lambda>(old, new, s). length s)") (auto simp: prefix_def)

declare replace_all.simps [simp del]

text \<open>The matches of \<open>(\w+)="([^"]*)"\<close>, from left to right.\<close>

function attr_pairs :: "string \<Rightarrow> (string \<times> string) list" where
  "attr_pairs s =
     (case s of [] \<Rightarrow> [] | c # cs \<Rightarrow>
        if \<not> is_word c then attr_pairs cs
        else (let key = takeWhile is_word s; rest = drop (length key) s;
                  val = takeWhile (\<lambda>c. c \<noteq> CHR 0x22) (drop 2 rest); after = drop (length val) (drop 2 rest)
              in if take 2 rest = [CHR ''='', CHR 0x22] \<and> after \<noteq> []
                 then (key, val) # attr_pairs (tl after) else attr_pairs rest))"
  by pat_completeness auto
termination
proof (relation "measure length", goal_cases)
  case (3 s c cs key rest val after)
  have "length (tl after) \<le> length rest" by (simp add: 3)
  moreover have "length rest < length s" using 3 by (cases s) auto
  ultimately show ?case by simp
next
  case (4 s c cs key rest val after)
  then show ?case by (cases s) auto
qed auto

declare attr_pairs.simps [simp del]

definition unescape :: "string \<Rightarrow> string" where
  "unescape v = replace_all ''&amp;'' ''&'' (replace_all ''&quot;'' [CHR 0x22] v)"

definition attrs :: "string \<Rightarrow> (string \<rightharpoonup> string)" where
  "attrs raw = map_of (rev (map (\<lambda>(k, v). (k, unescape v)) (attr_pairs raw)))"

subsection \<open>Grammar\<close>

abbreviation "OPEN \<equiv> ''<|open|>''"
abbreviation "CLOSE \<equiv> ''<|close|>''"
abbreviation "SEP \<equiv> ''<|sep|>''"
definition ARGUMENT_CLOSE :: string where "ARGUMENT_CLOSE = ''<|close|>argument<|sep|>''"
definition THINK_OPEN :: string where "THINK_OPEN = ''<|open|>think<|sep|>''"
definition THINK_CLOSE :: string where "THINK_CLOSE = ''<|close|>think<|sep|>''"
definition RESPONSE_OPEN :: string where "RESPONSE_OPEN = ''<|open|>response<|sep|>''"
definition RESPONSE_CLOSE :: string where "RESPONSE_CLOSE = ''<|close|>response<|sep|>''"
definition TOOLS_OPEN :: string where "TOOLS_OPEN = ''<|open|>tools<|sep|>''"
definition MESSAGE_CLOSE :: string where "MESSAGE_CLOSE = ''<|close|>message<|sep|>''"
definition END_OF_MESSAGE :: string where "END_OF_MESSAGE = ''<|end_of_msg|>''"

subsection \<open>State\<close>

datatype channel = Start | Between | Think | Response | Tools | Call | Argument | Done

datatype arg_value = ArgText string | ArgJson string

datatype delta = ContentDelta string | ReasoningDelta string | CallDelta string "(string \<times> arg_value) list"

text \<open>\<open>argument_parts\<close> is only ever joined; the field holds the joined text.\<close>

record k3_parser =
  k3_state :: channel
  k3_pending :: string
  k3_reasoning_emitted :: bool
  k3_call_name :: string
  k3_arguments :: "(string \<times> arg_value) list"
  k3_argument_attrs :: "string \<rightharpoonup> string"
  k3_argument_parts :: string

definition new_parser :: "bool \<Rightarrow> k3_parser" where
  "new_parser reasoning_open =
     \<lparr>k3_state = (if reasoning_open then Think else Start), k3_pending = [], k3_reasoning_emitted = False,
      k3_call_name = [], k3_arguments = [], k3_argument_attrs = Map.empty, k3_argument_parts = []\<rparr>"

definition overlap :: "string \<Rightarrow> string list \<Rightarrow> nat" where
  "overlap tx markers =
     fold (\<lambda>marker longest.
        case find (\<lambda>n. suffix (take n marker) tx) (rev [Suc longest..<Suc (min (length tx) (length marker - 1))]) of
          None \<Rightarrow> longest | Some n \<Rightarrow> n) markers 0"

definition text_out :: "string \<Rightarrow> k3_parser \<Rightarrow> delta list \<times> k3_parser" where
  "text_out tx st =
     (if tx = [] then ([], st)
      else if k3_state st = Think then ([ReasoningDelta tx], st\<lparr>k3_reasoning_emitted := True\<rparr>)
      else if k3_state st \<in> {Start, Between}
      then (if strip tx = [] then ([], st) else ([ContentDelta tx], st\<lparr>k3_state := Response\<rparr>))
      else ([ContentDelta tx], st))"

definition transitions :: "channel \<Rightarrow> bool \<Rightarrow> (string \<times> channel) list" where
  "transitions state emitted =
     [(MESSAGE_CLOSE, Done), (END_OF_MESSAGE, Done), (TOOLS_OPEN, Tools)] @
     (if state = Think then [(THINK_CLOSE, Between), (RESPONSE_OPEN, Response)] @ (if emitted then [] else [(THINK_OPEN, Think)])
      else if state = Response then [(RESPONSE_CLOSE, Between)]
      else [(THINK_OPEN, Think), (THINK_CLOSE, Between), (RESPONSE_OPEN, Response), (RESPONSE_CLOSE, Between)])"

text \<open>\<open>min(found)\<close> over pairs of position and marker; the markers are compared as strings on a tie.\<close>

fun string_less :: "string \<Rightarrow> string \<Rightarrow> bool" where
  "string_less [] ys = (ys \<noteq> [])"
| "string_less (x # xs) [] = False"
| "string_less (x # xs) (y # ys) = ((of_char x :: nat) < of_char y \<or> x = y \<and> string_less xs ys)"

definition first_marker :: "string \<Rightarrow> string list \<Rightarrow> (nat \<times> string) option" where
  "first_marker tx markers =
     fold (\<lambda>m best. case str_find tx m of
        None \<Rightarrow> best
      | Some i \<Rightarrow> (case best of None \<Rightarrow> Some (i, m)
                    | Some (j, m') \<Rightarrow> if i < j \<or> i = j \<and> string_less m m' then Some (i, m) else best)) markers None"

definition channel_step :: "k3_parser \<Rightarrow> delta list \<times> k3_parser \<times> bool" where
  "channel_step st =
     (let trans = transitions (k3_state st) (k3_reasoning_emitted st); p = k3_pending st
      in case first_marker p (map fst trans) of
           Some (pos, marker) \<Rightarrow>
             (if k3_state st \<in> {Start, Between} \<and> strip (take pos p) \<noteq> []
              then (case text_out (take pos p) (st\<lparr>k3_pending := drop pos p\<rparr>) of (evs, st') \<Rightarrow> (evs, st', True))
              else (case text_out (take pos p) st of
                      (evs, st') \<Rightarrow> (evs, st'\<lparr>k3_pending := drop (pos + length marker) p, k3_state := the (map_of trans marker)\<rparr>, True)))
         | None \<Rightarrow>
             (let n = length p - overlap p (map fst trans)
              in if n = 0 \<or> (k3_state st \<in> {Start, Between} \<and> list_all is_space (take n p)) then ([], st, False)
                 else (case text_out (take n p) (st\<lparr>k3_pending := drop n p\<rparr>) of (evs, st') \<Rightarrow> (evs, st', True))))"

fun dict_set :: "'k \<Rightarrow> 'v \<Rightarrow> ('k \<times> 'v) list \<Rightarrow> ('k \<times> 'v) list" where
  "dict_set k v [] = [(k, v)]"
| "dict_set k v ((k', v') # xs) = (if k = k' then (k, v) # xs else (k', v') # dict_set k v xs)"

definition argument_value :: "(string \<Rightarrow> bool) \<Rightarrow> (string \<rightharpoonup> string) \<Rightarrow> string \<Rightarrow> arg_value" where
  "argument_value json_ok at raw =
     (if (case at ''type'' of None \<Rightarrow> ''string'' | Some t \<Rightarrow> t) \<noteq> ''string'' \<and> json_ok raw then ArgJson raw else ArgText raw)"

definition argument_step :: "(string \<Rightarrow> bool) \<Rightarrow> k3_parser \<Rightarrow> delta list \<times> k3_parser \<times> bool" where
  "argument_step json_ok st =
     (let p = k3_pending st
      in case str_find p ARGUMENT_CLOSE of
           None \<Rightarrow>
             (let n = length p - overlap p [ARGUMENT_CLOSE]
              in ([], st\<lparr>k3_argument_parts := k3_argument_parts st @ take n p, k3_pending := drop n p\<rparr>, n \<noteq> 0))
         | Some e \<Rightarrow>
             (let raw = k3_argument_parts st @ take e p;
                  args = (case k3_argument_attrs st ''key'' of
                            None \<Rightarrow> k3_arguments st
                          | Some key \<Rightarrow> if key = [] then k3_arguments st
                                        else dict_set key (argument_value json_ok (k3_argument_attrs st) raw) (k3_arguments st))
              in ([], st\<lparr>k3_pending := drop (e + length ARGUMENT_CLOSE) p, k3_arguments := args,
                         k3_argument_parts := [], k3_state := Call\<rparr>, True)))"

definition header_step :: "string \<Rightarrow> string \<Rightarrow> k3_parser \<Rightarrow> delta list \<times> k3_parser" where
  "header_step marker header st =
     (case split_header header of
        [] \<Rightarrow> ([], st)
      | name # rest \<Rightarrow>
          (let at = attrs (case rest of [] \<Rightarrow> [] | r # _ \<Rightarrow> r)
           in if marker = OPEN \<and> name = ''call''
              then ([], st\<lparr>k3_call_name := (case at ''tool'' of None \<Rightarrow> [] | Some t \<Rightarrow> t), k3_arguments := [], k3_state := Call\<rparr>)
              else if k3_state st = Call \<and> marker = OPEN \<and> name = ''argument''
              then ([], st\<lparr>k3_argument_attrs := at, k3_argument_parts := [], k3_state := Argument\<rparr>)
              else if k3_state st = Call \<and> marker = CLOSE \<and> name = ''call''
              then (if k3_call_name st \<noteq> []
                    then ([CallDelta (k3_call_name st) (k3_arguments st)],
                          st\<lparr>k3_state := Tools, k3_call_name := [], k3_arguments := []\<rparr>)
                    else ([], st\<lparr>k3_state := Tools\<rparr>))
              else if marker = CLOSE \<and> name = ''tools''
              then ([], st\<lparr>k3_state := Between, k3_call_name := [], k3_arguments := []\<rparr>)
              else if marker = CLOSE \<and> name = ''message'' then ([], st\<lparr>k3_state := Done\<rparr>)
              else ([], st)))"

definition container_step :: "k3_parser \<Rightarrow> delta list \<times> k3_parser \<times> bool" where
  "container_step st =
     (let markers = [OPEN, CLOSE, END_OF_MESSAGE]; p = k3_pending st
      in case first_marker p markers of
           None \<Rightarrow> ([], st\<lparr>k3_pending := drop (length p - overlap p markers) p\<rparr>, False)
         | Some (pos, marker) \<Rightarrow>
             (let q = drop pos p
              in if marker = END_OF_MESSAGE then ([], st\<lparr>k3_state := Done, k3_pending := []\<rparr>, True)
                 else (case str_find_from q SEP (length marker) of
                         None \<Rightarrow> ([], st\<lparr>k3_pending := q\<rparr>, False)
                       | Some e \<Rightarrow>
                           (case header_step marker (slice (length marker) e q) (st\<lparr>k3_pending := drop (e + length SEP) q\<rparr>) of
                              (evs, st') \<Rightarrow> (evs, st', True)))))"

definition k3_step :: "(string \<Rightarrow> bool) \<Rightarrow> k3_parser \<Rightarrow> delta list \<times> k3_parser \<times> bool" where
  "k3_step json_ok st =
     (if k3_state st = Done then ([], st\<lparr>k3_pending := []\<rparr>, False)
      else if k3_state st = Argument then argument_step json_ok st
      else if k3_state st \<in> {Tools, Call} then container_step st
      else channel_step st)"

subsection \<open>Every step that counts as progress consumes input\<close>

lemma text_out_pending [simp]: "k3_pending (snd (text_out tx st)) = k3_pending st"
  by (simp add: text_out_def)

lemma text_out_pendingD: "text_out tx st = (evs, st') \<Longrightarrow> k3_pending st' = k3_pending st"
  using text_out_pending [of tx st] by simp

lemma header_step_pending: "header_step m h st = (evs, st') \<Longrightarrow> k3_pending st' = k3_pending st"
  by (auto simp: header_step_def Let_def split: list.splits if_splits)

lemma first_marker_snoc:
  "first_marker tx (ms @ [m]) =
     (case str_find tx m of
        None \<Rightarrow> first_marker tx ms
      | Some i \<Rightarrow> (case first_marker tx ms of None \<Rightarrow> Some (i, m)
                    | Some (j, m') \<Rightarrow> if i < j \<or> i = j \<and> string_less m m' then Some (i, m) else Some (j, m')))"
  by (simp add: first_marker_def split: option.splits)

lemma first_marker_spec:
  "(first_marker tx ms = None \<longleftrightarrow> \<not> occurs ms tx) \<and>
   (\<forall>i m. first_marker tx ms = Some (i, m) \<longrightarrow>
      m \<in> set ms \<and> i \<le> length tx \<and> prefix m (drop i tx) \<and> (\<forall>m'\<in>set ms. \<forall>j<i. \<not> prefix m' (drop j tx)))"
proof (induction ms rule: rev_induct)
  case Nil
  then show ?case by (simp add: first_marker_def occurs_def)
next
  case (snoc n ms)
  show ?case
  proof (cases "str_find tx n")
    case None
    then have "\<not> sublist n tx" by (simp add: str_find_None)
    moreover from this have "\<not> prefix n (drop j tx)" if "j \<le> length tx" for j using that sublist_at by blast
    ultimately show ?thesis using snoc None by (auto simp: first_marker_snoc occurs_def)
  next
    case (Some k)
    then have k: "k \<le> length tx" "prefix n (drop k tx)" "\<forall>j<k. \<not> prefix n (drop j tx)" "sublist n tx"
      using str_find_Some [OF Some] sublist_at by blast+
    show ?thesis
    proof (cases "first_marker tx ms")
      case None
      then have none: "\<not> prefix m' (drop j tx)" if "m' \<in> set ms" "j \<le> length tx" for m' j
        using snoc that sublist_at unfolding occurs_def by blast
      then show ?thesis using Some None k by (auto simp: first_marker_snoc occurs_def)
    next
      case (Some jm)
      then show ?thesis
        using snoc \<open>str_find tx n = Some k\<close> k by (cases jm) (auto simp: first_marker_snoc occurs_def)
    qed
  qed
qed

lemmas first_marker_None = first_marker_spec [THEN conjunct1]

lemma first_marker_Some:
  assumes "first_marker tx ms = Some (i, m)"
  shows "m \<in> set ms" "i \<le> length tx" "prefix m (drop i tx)" "\<And>m' j. m' \<in> set ms \<Longrightarrow> prefix m' (drop j tx) \<Longrightarrow> i \<le> j"
  using first_marker_spec [of tx ms] assms by (auto simp: not_le [symmetric])

lemma transitions_ne: "m \<in> set (map fst (transitions s e)) \<Longrightarrow> m \<noteq> []"
  by (auto simp: transitions_def THINK_OPEN_def THINK_CLOSE_def RESPONSE_OPEN_def RESPONSE_CLOSE_def TOOLS_OPEN_def
      MESSAGE_CLOSE_def END_OF_MESSAGE_def split: if_splits)

lemma strip_Nil [simp]: "strip [] = []"
  by (simp add: strip_def lstrip_def)

lemma channel_progress:
  assumes "channel_step st = (evs, st', True)"
  shows "length (k3_pending st') < length (k3_pending st)"
proof -
  let ?ms = "map fst (transitions (k3_state st) (k3_reasoning_emitted st))" and ?p = "k3_pending st"
  show ?thesis
  proof (cases "first_marker ?p ?ms")
    case None
    then show ?thesis
      using assms by (auto simp: channel_step_def Let_def dest!: text_out_pendingD split: if_splits prod.splits)
  next
    case (Some pm)
    obtain pos m where pm: "pm = (pos, m)" by (cases pm)
    note f = first_marker_Some [OF Some [unfolded pm]]
    have m: "0 < length m" using f(1) transitions_ne by auto
    then have "pos + length m \<le> length ?p" "length ?p - (pos + length m) < length ?p"
      using prefix_length_le [OF f(3)] unfolding length_drop by linarith+
    moreover have "strip (take pos ?p) \<noteq> [] \<Longrightarrow> length ?p - pos < length ?p" by (cases pos; cases ?p) auto
    ultimately show ?thesis
      using assms Some pm by (auto simp: channel_step_def Let_def dest!: text_out_pendingD split: if_splits prod.splits)
  qed
qed

lemma argument_progress:
  assumes "argument_step json_ok st = (evs, st', True)"
  shows "length (k3_pending st') < length (k3_pending st)"
proof (cases "str_find (k3_pending st) ARGUMENT_CLOSE")
  case (Some e)
  have "e + length ARGUMENT_CLOSE \<le> length (k3_pending st)"
    using str_find_Some [OF Some] prefix_length_le [of ARGUMENT_CLOSE "drop e (k3_pending st)"] by auto
  moreover have "0 < length ARGUMENT_CLOSE" by (simp add: ARGUMENT_CLOSE_def)
  ultimately have "length (k3_pending st) - (e + length ARGUMENT_CLOSE) < length (k3_pending st)" by linarith
  then show ?thesis using assms Some by (auto simp: argument_step_def Let_def)
qed (use assms in \<open>auto simp: argument_step_def Let_def\<close>)

lemma container_progress:
  assumes "container_step st = (evs, st', True)" "k3_pending st \<noteq> []"
  shows "length (k3_pending st') < length (k3_pending st)"
proof (cases "first_marker (k3_pending st) [OPEN, CLOSE, END_OF_MESSAGE]")
  case (Some pm)
  obtain pos m where pm: "pm = (pos, m)" by (cases pm)
  let ?q = "drop pos (k3_pending st)"
  show ?thesis
  proof (cases "m = END_OF_MESSAGE \<or> str_find_from ?q SEP (length m) = None")
    case False
    then obtain e where e: "str_find_from ?q SEP (length m) = Some e" by auto
    then have "prefix SEP (drop (e - length m) (drop (length m) ?q))" "length m \<le> e"
      using str_find_Some [of "drop (length m) ?q" SEP "e - length m"] by (auto simp: str_find_from_def)
    then have "0 < length ?q" using prefix_length_le [of SEP "drop (e - length m) (drop (length m) ?q)"] by auto
    then show ?thesis
      using assms Some pm e False by (auto simp: container_step_def Let_def dest!: header_step_pending split: prod.splits)
  qed (use assms Some pm in \<open>auto simp: container_step_def Let_def split: if_splits option.splits\<close>)
qed (use assms in \<open>auto simp: container_step_def Let_def\<close>)

lemma k3_progress:
  "k3_step json_ok st = (evs, st', True) \<Longrightarrow> k3_pending st \<noteq> [] \<Longrightarrow> length (k3_pending st') < length (k3_pending st)"
  using channel_progress [of st] argument_progress [of json_ok st] container_progress [of st]
  by (auto simp: k3_step_def split: if_splits)

subsection \<open>Feeding and finishing\<close>

function feed_loop :: "(string \<Rightarrow> bool) \<Rightarrow> k3_parser \<Rightarrow> delta list \<times> k3_parser" where
  "feed_loop json_ok st =
     (if k3_pending st = [] then ([], st)
      else (case k3_step json_ok st of
              (evs, st', True) \<Rightarrow> (case feed_loop json_ok st' of (evs', st'') \<Rightarrow> (evs @ evs', st''))
            | (evs, st', False) \<Rightarrow> (evs, st')))"
  by pat_completeness auto
termination
  by (relation "measure (\<lambda>(json_ok, st). length (k3_pending st))") (auto dest: k3_progress [OF sym])

declare feed_loop.simps [simp del]

definition feed :: "(string \<Rightarrow> bool) \<Rightarrow> string \<Rightarrow> k3_parser \<Rightarrow> delta list \<times> k3_parser" where
  "feed json_ok delta st = feed_loop json_ok (st\<lparr>k3_pending := k3_pending st @ delta\<rparr>)"

definition finish :: "k3_parser \<Rightarrow> delta list \<times> k3_parser" where
  "finish st =
     (case (if k3_state st \<in> {Start, Between, Think, Response} \<and> \<not> prefix ''<|'' (k3_pending st)
            then text_out (k3_pending st) st else ([], st)) of
        (evs, st') \<Rightarrow> (evs, st'\<lparr>k3_pending := [], k3_argument_parts := [], k3_arguments := [], k3_state := Done\<rparr>))"

text \<open>\<open>KimiK3ToolParser.parse_full\<close>: content, reasoning and calls of a complete text.\<close>

definition content_of :: "delta list \<Rightarrow> string" where
  "content_of evs = concat (map (\<lambda>ev. case ev of ContentDelta c \<Rightarrow> c | _ \<Rightarrow> []) evs)"

definition reasoning_of :: "delta list \<Rightarrow> string" where
  "reasoning_of evs = concat (map (\<lambda>ev. case ev of ReasoningDelta r \<Rightarrow> r | _ \<Rightarrow> []) evs)"

definition calls_of :: "delta list \<Rightarrow> (string \<times> (string \<times> arg_value) list) list" where
  "calls_of evs = concat (map (\<lambda>ev. case ev of CallDelta n a \<Rightarrow> [(n, a)] | _ \<Rightarrow> []) evs)"

definition opens_thinking :: "string \<Rightarrow> bool" where
  "opens_thinking tx =
     (case str_find tx THINK_CLOSE of
        None \<Rightarrow> False
      | Some close \<Rightarrow>
          close < (case earliest_stop tx [THINK_OPEN, RESPONSE_OPEN, TOOLS_OPEN] of None \<Rightarrow> length tx | Some i \<Rightarrow> i))"

definition parse_full :: "(string \<Rightarrow> bool) \<Rightarrow> string \<Rightarrow> string option \<times> string option \<times> (string \<times> (string \<times> arg_value) list) list" where
  "parse_full json_ok tx =
     (case feed json_ok tx (new_parser (opens_thinking tx)) of
        (evs, st) \<Rightarrow>
          (let all = evs @ fst (finish st); some = (\<lambda>x. if x = [] then None else Some x)
           in (some (content_of all), some (reasoning_of all), calls_of all)))"

subsection \<open>The loop ends\<close>

text \<open>The loop of \<open>feed\<close> as it is written, one unit of fuel per round; \<open>None\<close> when it is still running.\<close>

fun feed_rounds :: "nat \<Rightarrow> (string \<Rightarrow> bool) \<Rightarrow> k3_parser \<Rightarrow> (delta list \<times> k3_parser) option" where
  "feed_rounds 0 json_ok st = (if k3_pending st = [] then Some ([], st) else None)"
| "feed_rounds (Suc n) json_ok st =
     (if k3_pending st = [] then Some ([], st)
      else (case k3_step json_ok st of
              (evs, st', progress) \<Rightarrow>
                if progress then map_option (\<lambda>(evs', st''). (evs @ evs', st'')) (feed_rounds n json_ok st')
                else Some (evs, st')))"

lemma feed_rounds_enough: "length (k3_pending st) \<le> n \<Longrightarrow> feed_rounds n json_ok st = Some (feed_loop json_ok st)"
proof (induction n arbitrary: st)
  case 0
  then show ?case by (simp add: feed_loop.simps)
next
  case (Suc n)
  obtain evs st' pr where s: "k3_step json_ok st = (evs, st', pr)" by (cases "k3_step json_ok st")
  have "feed_rounds n json_ok st' = Some (feed_loop json_ok st')" if "pr" "k3_pending st \<noteq> []"
    using that k3_progress [of json_ok st evs st'] s Suc.prems by (intro Suc.IH) simp
  then show ?case using s by (subst feed_loop.simps) (auto split: prod.splits bool.splits)
qed

text \<open>C38: The parsing loop ends on every input: whatever state the parser is in and whatever text arrives, \<open>feed\<close>
  returns after at most one round per character of its buffer, since every round that reports progress consumes
  some of it.\<close>

theorem k3_feed_returns:
  "feed_rounds (length (k3_pending st @ d)) json_ok (st\<lparr>k3_pending := k3_pending st @ d\<rparr>) = Some (feed json_ok d st)"
  unfolding feed_def by (rule feed_rounds_enough) simp

end
