(* ===== verification/K3_Chunks.thy ===== *)
theory K3_Chunks
  imports K3_Parser
begin

section \<open>Chunk invariance of the K3 parser\<close>

text \<open>
  The same text parses to the same reasoning, content and calls however it is cut into deltas. The proof compares
  what a state makes of its pending text with what it makes of a longer pending text, step by step.
\<close>

subsection \<open>Observations\<close>

type_synonym observation = "string \<times> string \<times> (string \<times> (string \<times> arg_value) list) list"

definition obs :: "delta list \<Rightarrow> observation" where
  "obs evs = (reasoning_of evs, content_of evs, calls_of evs)"

definition ocat :: "observation \<Rightarrow> observation \<Rightarrow> observation" where
  "ocat a b = (fst a @ fst b, fst (snd a) @ fst (snd b), snd (snd a) @ snd (snd b))"

lemma obs_append: "obs (a @ b) = ocat (obs a) (obs b)"
  by (simp add: obs_def ocat_def reasoning_of_def content_of_def calls_of_def)

lemma ocat_assoc: "ocat (ocat a b) c = ocat a (ocat b c)"
  by (simp add: ocat_def)

lemma obs_Nil [simp]: "ocat (obs []) a = a"
  by (simp add: obs_def ocat_def reasoning_of_def content_of_def calls_of_def)

text \<open>The complete output from a state with no more input.\<close>

definition result :: "(string \<Rightarrow> bool) \<Rightarrow> k3_parser \<Rightarrow> observation" where
  "result json_ok st = (case feed_loop json_ok st of (evs, st') \<Rightarrow> obs (evs @ fst (finish st')))"

abbreviation with_pending :: "k3_parser \<Rightarrow> string \<Rightarrow> k3_parser" where
  "with_pending st p \<equiv> st\<lparr>k3_pending := p\<rparr>"

lemma result_progress:
  assumes "k3_step json_ok st = (evs, st', True)" "k3_pending st \<noteq> []"
  shows "result json_ok st = ocat (obs evs) (result json_ok st')"
  using assms by (subst result_def, subst feed_loop.simps) (auto simp: result_def obs_append ocat_assoc split: prod.splits)

lemma result_stuck:
  assumes "k3_step json_ok st = (evs, st', False)" "k3_pending st \<noteq> []"
  shows "result json_ok st = obs (evs @ fst (finish st'))"
  using assms by (subst result_def, subst feed_loop.simps) simp

lemma result_empty: "k3_pending st = [] \<Longrightarrow> result json_ok st = obs (fst (finish st))"
  by (subst result_def, subst feed_loop.simps) simp

subsection \<open>Markers\<close>

text \<open>No marker is part of another one, so the first complete marker stays the first.\<close>

definition separate :: "string list \<Rightarrow> bool" where
  "separate ms \<longleftrightarrow> list_all (\<lambda>m. m \<noteq> [] \<and> list_all (\<lambda>m'. m' = m \<or> \<not> prefix m m') ms \<and> list_all (\<lambda>m'. \<not> sublist m (tl m')) ms) ms"

lemma separateD:
  assumes "separate ms" "m \<in> set ms"
  shows "m \<noteq> []" "\<And>m'. m' \<in> set ms \<Longrightarrow> prefix m m' \<Longrightarrow> m' = m" "\<And>m'. m' \<in> set ms \<Longrightarrow> \<not> sublist m (tl m')"
  using assms by (auto simp: separate_def list_all_iff)

lemma separate_subset: "separate ms \<Longrightarrow> set ms' \<subseteq> set ms \<Longrightarrow> separate ms'"
  unfolding separate_def list_all_iff by blast

definition all_markers :: "string list" where
  "all_markers = [MESSAGE_CLOSE, END_OF_MESSAGE, TOOLS_OPEN, THINK_OPEN, THINK_CLOSE, RESPONSE_OPEN, RESPONSE_CLOSE]"

lemma separate_all: "separate all_markers"
  by code_simp

lemma separate_container: "separate [OPEN, CLOSE, END_OF_MESSAGE]"
  by code_simp

lemma separate_argument: "separate [ARGUMENT_CLOSE]"
  by code_simp

lemma transitions_subset: "set (map fst (transitions s e)) \<subseteq> set all_markers"
  by (auto simp: transitions_def all_markers_def)

lemma separate_transitions: "separate (map fst (transitions s e))"
  using separate_subset [OF separate_all transitions_subset] .

lemma first_marker_eqI:
  assumes "separate ms" "m \<in> set ms" "prefix m (drop i tx)" "\<And>m' j. m' \<in> set ms \<Longrightarrow> prefix m' (drop j tx) \<Longrightarrow> i \<le> j"
  shows "first_marker tx ms = Some (i, m)"
proof -
  have "i \<le> length tx" using assms(3) separateD(1) [OF assms(1,2)] by (cases "i \<le> length tx") auto
  then have "occurs ms tx" using assms(2,3) sublist_at unfolding occurs_def by blast
  then obtain k n where f: "first_marker tx ms = Some (k, n)" using first_marker_None [of tx ms] by (cases "first_marker tx ms") auto
  note s = first_marker_Some [OF f]
  have "k = i" using s(4) [OF assms(2,3)] assms(4) [OF s(1,3)] by simp
  moreover from this have "prefix m n \<or> prefix n m" using s(3) assms(3) by (meson prefix_same_cases)
  then have "n = m" using separateD(2) assms(1,2) s(1) by blast
  ultimately show ?thesis using f by simp
qed

text \<open>A marker that starts before a complete one and is not complete itself would contain it.\<close>

lemma marker_inside:
  assumes "separate ms" "m \<in> set ms" "m' \<in> set ms" "j < i" "prefix m (drop i tx)" "prefix m' (drop j tx @ d)" "i \<le> length tx"
  shows "prefix m' (drop j tx)"
proof (rule ccontr)
  assume no: "\<not> prefix m' (drop j tx)"
  have "prefix (drop j tx) (drop j tx @ d)" by simp
  then have "prefix (drop j tx) m'" using no assms(6) by (meson prefix_same_cases)
  then obtain r where m': "m' = drop j tx @ r" by (auto simp: prefix_def)
  have "drop j tx = take (i - j) (drop j tx) @ drop i tx" using assms(4) by (metis append_take_drop_id drop_drop le_add_diff_inverse2 less_imp_le_nat)
  moreover have "take (i - j) (drop j tx) \<noteq> []" using assms(4,7) by simp
  ultimately obtain a b where ab: "m' = (a # b) @ drop i tx @ r" using m' by (cases "take (i - j) (drop j tx)") auto
  obtain z where "drop i tx = m @ z" using assms(5) by (auto simp: prefix_def)
  then have "sublist m (tl m')" using ab by (auto simp: sublist_def)
  then show False using separateD(3) [OF assms(1,2,3)] by simp
qed

lemma first_marker_extend:
  assumes "separate ms" "first_marker tx ms = Some (i, m)"
  shows "first_marker (tx @ d) ms = Some (i, m)"
proof -
  note s = first_marker_Some [OF assms(2)]
  show ?thesis
  proof (rule first_marker_eqI [OF assms(1) s(1)])
    show "prefix m (drop i (tx @ d))" using s(2,3) by (simp add: prefix_prefix)
    fix m' j assume m': "m' \<in> set ms" "prefix m' (drop j (tx @ d))"
    show "i \<le> j"
    proof (rule ccontr)
      assume "\<not> i \<le> j"
      then have j: "j < i" by simp
      then have "drop j (tx @ d) = drop j tx @ d" using s(2) by simp
      then have "prefix m' (drop j tx)" using marker_inside [OF assms(1) s(1) m'(1) j s(3) _ s(2)] m'(2) by simp
      then show False using s(4) [OF m'(1)] j by fastforce
    qed
  qed
qed

text \<open>No marker, complete or cut off, starts in \<open>x\<close> when \<open>y\<close> follows.\<close>

definition clear :: "string \<Rightarrow> string \<Rightarrow> string list \<Rightarrow> bool" where
  "clear x y ms \<longleftrightarrow> (\<forall>m\<in>set ms. \<forall>i<length x. \<not> prefix m (drop i (x @ y)) \<and> \<not> prefix (drop i (x @ y)) m)"

lemma clear_subset: "clear x y ms \<Longrightarrow> set ms' \<subseteq> set ms \<Longrightarrow> clear x y ms'"
  unfolding clear_def by blast

lemma find_append: "find P (xs @ ys) = (case find P xs of None \<Rightarrow> find P ys | Some x \<Rightarrow> Some x)"
  by (induction xs) auto

lemma find_in_set: "find P xs = Some x \<Longrightarrow> x \<in> set xs"
  by (induction xs) (auto split: if_splits)

lemma overlap_holdback: "overlap tx ms = partial_stop_holdback tx ms"
proof (induction ms rule: rev_induct)
  case Nil
  then show ?case by (simp add: overlap_def partial_stop_holdback_def)
next
  case (snoc m ms)
  define l where "l = partial_stop_holdback tx ms"
  let ?n = "min (length tx) (length m - 1)" and ?P = "\<lambda>n. suffix (take n m) tx"
  have upt: "[1..<Suc ?n] = [1..<Suc l] @ [Suc l..<Suc ?n]" if "l \<le> ?n" 
  proof -
    have "[1..<Suc l + (?n - l)] = [1..<Suc l] @ [Suc l..<Suc l + (?n - l)]" by (rule upt_add_eq_append) simp
    then show ?thesis using that by (simp only: add_Suc le_add_diff_inverse)
  qed
  have "(case find ?P (rev [Suc l..<Suc ?n]) of None \<Rightarrow> l | Some n \<Rightarrow> n) = max l (holdback_of tx m)"
  proof (cases "l \<le> ?n")
    case True
    have eq: "find ?P (rev [1..<Suc ?n]) = (case find ?P (rev [Suc l..<Suc ?n]) of None \<Rightarrow> find ?P (rev [1..<Suc l]) | Some k \<Rightarrow> Some k)"
      unfolding upt [OF True] rev_append find_append by (simp del: upt_Suc split: option.splits)
    have range: "find ?P (rev [a..<b]) = Some k \<Longrightarrow> a \<le> k \<and> k < b" for a b k by (auto dest!: find_in_set)
    show ?thesis
      using eq range [of "Suc l" "Suc ?n"] range [of 1 "Suc l"] unfolding holdback_of_def min.commute [of "length m - 1"]
      by (auto split: option.splits simp del: upt_Suc)
  next
    case False
    then have "holdback_of tx m \<le> l"
      using find_descending [of ?n ?P] unfolding holdback_of_def min.commute [of "length m - 1"] by (auto split: option.splits simp del: upt_Suc)
    moreover have "[Suc l..<Suc ?n] = []" using False by (intro upt_conv_Nil) linarith
    ultimately show ?thesis by (simp only: rev.simps find.simps option.case max_absorb1)
  qed
  moreover have "overlap tx (ms @ [m]) = (case find ?P (rev [Suc (overlap tx ms)..<Suc ?n]) of None \<Rightarrow> overlap tx ms | Some n \<Rightarrow> n)"
    by (simp only: overlap_def fold_append comp_apply fold_simps)
  moreover have "partial_stop_holdback tx (ms @ [m]) = max l (holdback_of tx m)"
    by (simp only: l_def partial_stop_holdback_def fold_append comp_apply fold_simps)
  ultimately show ?case using snoc by (simp only: l_def)
qed

lemma overlap_le: "overlap tx ms \<le> length tx"
  using partial_stop_holdback_fold [of tx ms] by (simp add: overlap_holdback)

lemma overlap_ge:
  assumes "m \<in> set ms" "i < length tx" "prefix (drop i tx) m" "drop i tx \<noteq> m"
  shows "length tx - i \<le> overlap tx ms"
proof -
  obtain r where r: "m = drop i tx @ r" using assms(3) by (auto simp: prefix_def)
  then have "r \<noteq> []" using assms(4) by auto
  then have "0 < length r" by simp
  moreover have "length m = length tx - i + length r" using r by simp
  ultimately have "length tx - i < length m" by linarith
  then have "length tx - i \<le> holdback_of tx m"
    using r assms(2) by (intro holdback_of_ge) (simp_all add: suffix_drop)
  then show ?thesis using partial_stop_holdback_fold [of tx ms] assms(1) unfolding overlap_holdback by fastforce
qed

lemma held_back_clear:
  assumes "first_marker p ms = None" "n = length p - overlap p ms"
  shows "clear (take n p) (drop n p @ d) ms"
  unfolding clear_def
proof (intro ballI allI impI)
  fix m i assume m: "m \<in> set ms" and "i < length (take n p)"
  then have i: "i < length p" "i < n" by auto
  have eq: "drop i (take n p @ drop n p @ d) = drop i p @ d" using i(1) by (metis append_assoc append_take_drop_id drop_append diff_is_0_eq' drop0 less_imp_le_nat)
  have none: "\<not> prefix m (drop i p)" using assms(1) m i(1) sublist_at [of m p] unfolding first_marker_None occurs_def by (meson less_imp_le_nat)
  have part: "\<not> prefix (drop i p) m"
  proof
    assume pre: "prefix (drop i p) m"
    then have "drop i p \<noteq> m" using none by auto
    then show False using overlap_ge [OF m i(1) pre] i(2) assms(2) by linarith
  qed
  show "\<not> prefix m (drop i (take n p @ drop n p @ d)) \<and> \<not> prefix (drop i (take n p @ drop n p @ d)) m"
    unfolding eq using none part by (meson append_prefixD prefixI prefix_same_cases)
qed

subsection \<open>Text of an established channel\<close>

lemma first_marker_shift:
  assumes "separate ms" "clear x y ms"
  shows "first_marker (x @ y) ms = Some (i, m) \<longleftrightarrow> length x \<le> i \<and> first_marker y ms = Some (i - length x, m)"
proof
  assume f: "first_marker (x @ y) ms = Some (i, m)"
  note s = first_marker_Some [OF f]
  have le: "length x \<le> i" using s(1,3) assms(2) unfolding clear_def by (meson not_le)
  have "first_marker y ms = Some (i - length x, m)"
  proof (rule first_marker_eqI [OF assms(1) s(1)])
    show "prefix m (drop (i - length x) y)" using s(3) le by simp
    fix m' j assume "m' \<in> set ms" "prefix m' (drop j y)"
    then have "i \<le> j + length x" using s(4) [of m' "j + length x"] by simp
    then show "i - length x \<le> j" by simp
  qed
  then show "length x \<le> i \<and> first_marker y ms = Some (i - length x, m)" using le by simp
next
  assume f: "length x \<le> i \<and> first_marker y ms = Some (i - length x, m)"
  then have s: "m \<in> set ms" "prefix m (drop (i - length x) y)" "\<And>m' j. m' \<in> set ms \<Longrightarrow> prefix m' (drop j y) \<Longrightarrow> i - length x \<le> j"
    using first_marker_Some [of y ms "i - length x" m] by blast+
  show "first_marker (x @ y) ms = Some (i, m)"
  proof (rule first_marker_eqI [OF assms(1) s(1)])
    show "prefix m (drop i (x @ y))" using s(2) f by simp
    fix m' j assume m': "m' \<in> set ms" "prefix m' (drop j (x @ y))"
    then have "length x \<le> j" using assms(2) unfolding clear_def by (meson not_le)
    then show "i \<le> j" using s(3) [OF m'(1), of "j - length x"] m'(2) f by simp
  qed
qed

lemma overlap_shift:
  assumes "clear x y ms"
  shows "overlap (x @ y) ms = overlap y ms"
proof -
  have one: "holdback_of (x @ y) m = holdback_of y m" if m: "m \<in> set ms" for m
  proof -
    have reach: "k \<le> length y" if k: "0 < k" "k < length m" "k \<le> length (x @ y)" "suffix (take k m) (x @ y)" for k
    proof (rule ccontr)
      assume "\<not> k \<le> length y"
      then have "length (x @ y) - k < length x" using k(3) by auto
      moreover obtain zs where zs: "x @ y = zs @ take k m" using k(4) by (auto simp: suffix_def)
      then have "length (x @ y) - k = length zs" using k(2) by simp
      then have "drop (length (x @ y) - k) (x @ y) = take k m" unfolding zs by simp
      ultimately show False using assms m take_is_prefix [of k m] unfolding clear_def by metis
    qed
    have iff: "suffix (take k m) (x @ y) \<longleftrightarrow> suffix (take k m) y" if "k \<le> length y" for k
    proof
      assume a: "suffix (take k m) (x @ y)"
      have "suffix y (x @ y)" by (simp add: suffix_def)
      moreover have "length (take k m) \<le> length y" using that by simp
      ultimately show "suffix (take k m) y" by (rule suffix_length_suffix [OF a])
    qed (rule suffix_appendI)
    show ?thesis
    proof (rule antisym)
      have a: "0 < holdback_of (x @ y) m \<Longrightarrow> holdback_of (x @ y) m < length m \<and> suffix (take (holdback_of (x @ y) m) m) (x @ y)"
        using find_descending [of "min (length m - 1) (length (x @ y))" "\<lambda>k. suffix (take k m) (x @ y)"]
        unfolding holdback_of_def by (auto split: option.splits simp del: upt_Suc)
      have b: "0 < holdback_of y m \<Longrightarrow> holdback_of y m < length m \<and> suffix (take (holdback_of y m) m) y"
        using find_descending [of "min (length m - 1) (length y)" "\<lambda>k. suffix (take k m) y"]
        unfolding holdback_of_def by (auto split: option.splits simp del: upt_Suc)
      show "holdback_of (x @ y) m \<le> holdback_of y m"
      proof (cases "holdback_of (x @ y) m = 0")
        case False
        then have k: "0 < holdback_of (x @ y) m" "holdback_of (x @ y) m < length m" "suffix (take (holdback_of (x @ y) m) m) (x @ y)" using a by auto
        then have "holdback_of (x @ y) m \<le> length y" using reach holdback_of_le [of "x @ y" m] by blast
        then show ?thesis using k iff by (intro holdback_of_ge) auto
      qed simp
      show "holdback_of y m \<le> holdback_of (x @ y) m"
      proof (cases "holdback_of y m = 0")
        case False
        then have k: "0 < holdback_of y m" "holdback_of y m < length m" "suffix (take (holdback_of y m) m) y" using b by auto
        then show ?thesis using holdback_of_le [of y m] iff by (intro holdback_of_ge) auto
      qed simp
    qed
  qed
  have "fold (\<lambda>s hold. max hold (holdback_of (x @ y) s)) ms h = fold (\<lambda>s hold. max hold (holdback_of y s)) ms h" for h
    using one by (intro fold_cong) auto
  then show ?thesis by (simp add: overlap_holdback partial_stop_holdback_def)
qed

lemma first_marker_clear:
  assumes "separate ms" "first_marker p ms = Some (i, m)"
  shows "clear (take i p) (drop i p) ms"
  unfolding clear_def
proof (intro ballI allI impI)
  note s = first_marker_Some [OF assms(2)]
  fix m' j assume m': "m' \<in> set ms" and "j < length (take i p)"
  then have j: "j < i" by simp
  have none: "\<not> prefix m' (drop j p)" using s(4) [OF m'] j by fastforce
  have "\<not> prefix (drop j p) m'"
  proof
    assume "prefix (drop j p) m'"
    then obtain r where "m' = drop j p @ r" by (auto simp: prefix_def)
    then show False using marker_inside [OF assms(1) s(1) m' j s(3) _ s(2), of r] none by simp
  qed
  then show "\<not> prefix m' (drop j (take i p @ drop i p)) \<and> \<not> prefix (drop j (take i p @ drop i p)) m'"
    unfolding append_take_drop_id using none by simp
qed

lemma first_marker_shift_None:
  assumes "separate ms" "clear x y ms"
  shows "first_marker (x @ y) ms = None \<longleftrightarrow> first_marker y ms = None"
proof (cases "first_marker y ms")
  case None
  then show ?thesis using first_marker_shift [OF assms] by (cases "first_marker (x @ y) ms") auto
next
  case (Some im)
  then have "first_marker (x @ y) ms = Some (length x + fst im, snd im)" by (subst first_marker_shift [OF assms]) simp
  then show ?thesis using Some by simp
qed

text \<open>The markers a state looks for, and the states whose channel is settled: text goes to one channel until a marker.\<close>

abbreviation markers_of :: "k3_parser \<Rightarrow> string list" where
  "markers_of st \<equiv> map fst (transitions (k3_state st) (k3_reasoning_emitted st))"

definition settled :: "k3_parser \<Rightarrow> bool" where
  "settled st \<longleftrightarrow> k3_state st = Response \<or> k3_state st = Think \<and> k3_reasoning_emitted st"

definition said :: "k3_parser \<Rightarrow> string \<Rightarrow> observation" where
  "said st tx = obs (fst (text_out tx st))"

lemma said_Nil [simp]: "said st [] = obs []"
  by (simp add: said_def text_out_def)

lemma said_append: "settled st \<Longrightarrow> said st (a @ b) = ocat (said st a) (said st b)"
  by (auto simp: said_def settled_def text_out_def obs_def ocat_def reasoning_of_def content_of_def calls_of_def)

lemma text_out_settled: "settled st \<Longrightarrow> text_out tx st = (fst (text_out tx st), st)"
  by (auto simp: settled_def text_out_def)

lemma text_out_with_pending: "text_out tx (with_pending st q) = (case text_out tx st of (evs, st') \<Rightarrow> (evs, with_pending st' q))"
  by (simp add: text_out_def)

lemma settled_step:
  assumes "settled st"
  shows "k3_step json_ok (with_pending st p) =
    (case first_marker p (markers_of st) of
       Some (pos, m) \<Rightarrow> (fst (text_out (take pos p) st),
          st\<lparr>k3_pending := drop (pos + length m) p, k3_state := the (map_of (transitions (k3_state st) (k3_reasoning_emitted st)) m)\<rparr>, True)
     | None \<Rightarrow> (let n = length p - overlap p (markers_of st) in
          if n = 0 then ([], with_pending st p, False) else (fst (text_out (take n p) st), with_pending st (drop n p), True)))"
proof -
  have out: "text_out tx (with_pending st q) = (fst (text_out tx st), with_pending st q)" for tx q
    by (subst text_out_with_pending, subst text_out_settled [OF assms]) simp
  have "k3_state st \<notin> {Start, Between, Tools, Call, Argument, Done}" using assms by (auto simp: settled_def)
  then show ?thesis
    by (cases "first_marker p (markers_of st)") (simp_all add: k3_step_def channel_step_def Let_def out split: prod.splits)
qed

lemma settled_result:
  assumes "settled st"
  shows "result json_ok (with_pending st p) =
    (case first_marker p (markers_of st) of
       Some (pos, m) \<Rightarrow> ocat (said st (take pos p)) (result json_ok
          (st\<lparr>k3_pending := drop (pos + length m) p, k3_state := the (map_of (transitions (k3_state st) (k3_reasoning_emitted st)) m)\<rparr>))
     | None \<Rightarrow> (let n = length p - overlap p (markers_of st) in
          if n = 0 then obs (fst (finish (with_pending st p))) else ocat (said st (take n p)) (result json_ok (with_pending st (drop n p)))))"
proof (cases "p = []")
  case True
  have "first_marker [] (markers_of st) = None"
    using transitions_ne unfolding first_marker_None occurs_def by fastforce
  then show ?thesis using True by (simp add: result_empty)
next
  case False
  note step = settled_step [OF assms, of json_ok p]
  show ?thesis
  proof (cases "first_marker p (markers_of st)")
    case None
    then show ?thesis
      using False step result_progress [of json_ok "with_pending st p"] result_stuck [of json_ok "with_pending st p"]
      by (simp add: Let_def said_def split: if_splits)
  next
    case (Some pm)
    then show ?thesis using False step result_progress [of json_ok "with_pending st p"] by (simp add: said_def split: prod.splits)
  qed
qed

lemma split_settled:
  assumes st: "settled st" and c: "clear x y (markers_of st)" and x: "x \<noteq> []"
  shows "result json_ok (with_pending st (x @ y)) = ocat (said st x) (result json_ok (with_pending st y))"
proof (cases "first_marker y (markers_of st)")
  case None
  then have none: "first_marker (x @ y) (markers_of st) = None" using first_marker_shift_None [OF separate_transitions c] by simp
  have ov: "overlap (x @ y) (markers_of st) = overlap y (markers_of st)" "overlap y (markers_of st) \<le> length y"
    using overlap_shift [OF c] overlap_le by auto
  then have n: "length (x @ y) - overlap (x @ y) (markers_of st) = length x + (length y - overlap y (markers_of st))" by simp
  show ?thesis
    unfolding settled_result [OF st, of json_ok "x @ y"] none n using x
    by (simp add: Let_def) (simp add: settled_result [OF st, of json_ok y] None Let_def said_append [OF st] ocat_assoc)
next
  case (Some pm)
  obtain i m where pm: "pm = (i, m)" by (cases pm)
  then have "first_marker (x @ y) (markers_of st) = Some (length x + i, m)"
    using Some by (subst first_marker_shift [OF separate_transitions c]) simp
  then show ?thesis
    unfolding settled_result [OF st, of json_ok "x @ y"] settled_result [OF st, of json_ok y]
    using Some pm by (simp add: said_append [OF st] ocat_assoc)
qed

subsection \<open>Text that settles a channel\<close>

lemma dropWhile_blank: "dropWhile P xs = [] \<longleftrightarrow> list_all P xs"
  by (induction xs) auto

lemma strip_blank: "strip s = [] \<longleftrightarrow> list_all is_space s"
proof -
  have "list_all is_space (dropWhile is_space s) \<longleftrightarrow> list_all is_space s" by (induction s) auto
  then show ?thesis by (simp add: strip_def lstrip_def dropWhile_blank list_all_iff)
qed

lemma clear_appendD: "clear (a @ b) c ms \<Longrightarrow> clear b c ms"
  unfolding clear_def
proof (intro ballI allI impI)
  fix m i assume a: "\<forall>m\<in>set ms. \<forall>i<length (a @ b). \<not> prefix m (drop i ((a @ b) @ c)) \<and> \<not> prefix (drop i ((a @ b) @ c)) m"
    and "m \<in> set ms" "i < length b"
  then show "\<not> prefix m (drop i (b @ c)) \<and> \<not> prefix (drop i (b @ c)) m"
    using bspec [OF a, of m, THEN spec, of "length a + i"] by simp
qed

lemma split_refold:
  assumes "settled st" "length x \<le> i" "clear (take i (x @ y)) (drop i (x @ y)) (markers_of st)"
  shows "ocat (said st (take i (x @ y))) (result json_ok (with_pending st (drop i (x @ y)))) = ocat (said st x) (result json_ok (with_pending st y))"
proof (cases "take (i - length x) y = []")
  case True
  then show ?thesis using assms(2) by auto
next
  case False
  have "clear (take (i - length x) y) (drop (i - length x) y) (markers_of st)"
    using assms(2,3) clear_appendD [of x "take (i - length x) y" "drop (i - length x) y"] by simp
  then have "result json_ok (with_pending st y) =
      ocat (said st (take (i - length x) y)) (result json_ok (with_pending st (drop (i - length x) y)))"
    using split_settled [OF assms(1) _ False, of "drop (i - length x) y" json_ok] by simp
  then show ?thesis using assms(2) by (simp add: said_append [OF assms(1)] ocat_assoc)
qed

text \<open>Before anything is said in a channel, the first text settles it.\<close>

lemma text_out_opening:
  "k3_state st \<in> {Start, Between} \<Longrightarrow> \<not> list_all is_space z \<Longrightarrow>
   text_out z (with_pending st q) = (fst (text_out z (st\<lparr>k3_state := Response\<rparr>)), with_pending (st\<lparr>k3_state := Response\<rparr>) q)"
  by (auto simp: text_out_def strip_blank)

lemma opening_step:
  assumes st: "k3_state st \<in> {Start, Between}" and z: "\<not> list_all is_space (take n p)"
    and n: "first_marker p (markers_of st) = None \<and> n = length p - overlap p (markers_of st) \<or> first_marker p (markers_of st) = Some (n, m)"
  shows "k3_step json_ok (with_pending st p) =
    (fst (text_out (take n p) (st\<lparr>k3_state := Response\<rparr>)), with_pending (st\<lparr>k3_state := Response\<rparr>) (drop n p), True)"
proof -
  have n0: "n \<noteq> 0" using z by (cases n) auto
  have eq: "k3_step json_ok (with_pending st p) = channel_step (with_pending st p)" using st by (auto simp: k3_step_def)
  from n have "channel_step (with_pending st p) = (case text_out (take n p) (with_pending st (drop n p)) of (evs, st') \<Rightarrow> (evs, st', True))"
  proof
    assume a: "first_marker p (markers_of st) = None \<and> n = length p - overlap p (markers_of st)"
    then show ?thesis using st z n0 unfolding channel_step_def Let_def by simp
  next
    assume "first_marker p (markers_of st) = Some (n, m)"
    then show ?thesis using st z unfolding channel_step_def Let_def by (simp add: strip_blank)
  qed
  then show ?thesis unfolding eq text_out_opening [OF st z] by simp
qed

lemma split_opening:
  assumes st: "k3_state st \<in> {Start, Between}" and c: "clear x y (markers_of st)" and x: "\<not> list_all is_space x"
  shows "result json_ok (with_pending st (x @ y)) =
    ocat (said st x) (result json_ok (with_pending (st\<lparr>k3_state := Response\<rparr>) y))"
proof -
  let ?st = "st\<lparr>k3_state := Response\<rparr>" and ?p = "x @ y" and ?ms = "markers_of st"
  have sub: "set (markers_of ?st) \<subseteq> set ?ms" using st by (auto simp: transitions_def)
  have set: "settled ?st" by (simp add: settled_def)
  have said: "said st x = said ?st x" using text_out_opening [OF st x, of "k3_pending st"] by (simp add: said_def)
  have blank: "\<not> list_all is_space (take i ?p)" if "length x \<le> i" for i using that x by (simp add: list_all_iff) blast
  have "\<exists>i m. length x \<le> i \<and> clear (take i ?p) (drop i ?p) ?ms \<and>
      (first_marker ?p ?ms = None \<and> i = length ?p - overlap ?p ?ms \<or> first_marker ?p ?ms = Some (i, m))"
  proof (cases "first_marker ?p ?ms")
    case None
    define n where "n = length ?p - overlap ?p ?ms"
    have "length x \<le> n" using overlap_shift [OF c] overlap_le [of y ?ms] by (simp add: n_def)
    moreover have "clear (take n ?p) (drop n ?p) ?ms" using held_back_clear [OF None n_def, of "[]"] by (simp only: append_Nil2)
    ultimately show ?thesis using None n_def by blast
  next
    case (Some pm)
    obtain i m where "pm = (i, m)" by (cases pm)
    then have f: "first_marker ?p ?ms = Some (i, m)" using Some by simp
    then have "length x \<le> i" using first_marker_shift [OF separate_transitions c] by simp
    then show ?thesis using f first_marker_clear [OF separate_transitions f] by blast
  qed
  then obtain i m where i: "length x \<le> i" "clear (take i ?p) (drop i ?p) ?ms"
    "first_marker ?p ?ms = None \<and> i = length ?p - overlap ?p ?ms \<or> first_marker ?p ?ms = Some (i, m)" by blast
  have step: "k3_step json_ok (with_pending st ?p) = (fst (text_out (take i ?p) ?st), with_pending ?st (drop i ?p), True)"
    by (rule opening_step [OF st blank [OF i(1)] i(3)])
  have "?p \<noteq> []" using x by auto
  then have "result json_ok (with_pending st ?p) = ocat (said ?st (take i ?p)) (result json_ok (with_pending ?st (drop i ?p)))"
    using result_progress [OF step] by (simp add: said_def)
  then show ?thesis using split_refold [OF set i(1) clear_subset [OF i(2) sub], of json_ok] said by simp
qed

text \<open>The first reasoning text stops a think tag from being recognised, so none may follow.\<close>

lemma thinking_step:
  assumes "k3_state st = Think" "n \<noteq> 0" "n \<le> length p"
  shows "first_marker p (markers_of st) = None \<Longrightarrow> n = length p - overlap p (markers_of st) \<Longrightarrow>
      k3_step json_ok (with_pending st p) = (fst (text_out (take n p) st), with_pending (st\<lparr>k3_reasoning_emitted := True\<rparr>) (drop n p), True)"
    and "first_marker p (markers_of st) = Some (n, m) \<Longrightarrow>
      k3_step json_ok (with_pending st p) =
        (fst (text_out (take n p) st),
         st\<lparr>k3_reasoning_emitted := True, k3_pending := drop (n + length m) p, k3_state := the (map_of (transitions Think (k3_reasoning_emitted st)) m)\<rparr>, True)"
proof -
  have "p \<noteq> []" using assms(2,3) by auto
  then have out: "text_out (take n p) (with_pending st q) = (fst (text_out (take n p) st), with_pending (st\<lparr>k3_reasoning_emitted := True\<rparr>) q)" for q
    using assms(1,2) by (simp add: text_out_def)
  have eq: "k3_step json_ok (with_pending st p) = channel_step (with_pending st p)" using assms(1) by (simp add: k3_step_def)
  show "k3_step json_ok (with_pending st p) = (fst (text_out (take n p) st), with_pending (st\<lparr>k3_reasoning_emitted := True\<rparr>) (drop n p), True)"
    if "first_marker p (markers_of st) = None" "n = length p - overlap p (markers_of st)"
    using that(1) assms unfolding eq channel_step_def Let_def by (simp add: out that(2) [symmetric, unfolded assms(1)] del: diff_is_0_eq zero_less_diff)
  show "k3_step json_ok (with_pending st p) =
        (fst (text_out (take n p) st),
         st\<lparr>k3_reasoning_emitted := True, k3_pending := drop (n + length m) p, k3_state := the (map_of (transitions Think (k3_reasoning_emitted st)) m)\<rparr>, True)"
    if "first_marker p (markers_of st) = Some (n, m)"
    using that assms unfolding eq channel_step_def Let_def by (simp add: out)
qed

lemma split_thinking:
  assumes st: "k3_state st = Think" "\<not> k3_reasoning_emitted st" and c: "clear x y (markers_of st)" and x: "x \<noteq> []"
    and t: "\<not> sublist THINK_OPEN (x @ y)"
  shows "result json_ok (with_pending st (x @ y)) =
    ocat (said st x) (result json_ok (with_pending (st\<lparr>k3_reasoning_emitted := True\<rparr>) y))"
proof -
  let ?st = "st\<lparr>k3_reasoning_emitted := True\<rparr>" and ?ms = "markers_of st"
  define p where "p = x @ y"
  have set: "settled ?st" using st by (simp add: settled_def)
  have ms: "set (markers_of ?st) = set ?ms - {THINK_OPEN}"
    using st by (auto simp: transitions_def THINK_OPEN_def THINK_CLOSE_def RESPONSE_OPEN_def TOOLS_OPEN_def MESSAGE_CLOSE_def END_OF_MESSAGE_def)
  have said: "said st z = said ?st z" for z using st by (simp add: said_def text_out_def)
  have p: "p \<noteq> []" using x by (simp add: p_def)
  have cl: "clear x y (markers_of ?st)" using clear_subset [OF c] ms by blast
  show ?thesis
  proof (cases "first_marker p ?ms")
    case None
    define n where "n = length p - overlap p ?ms"
    have n: "length x \<le> n" "n \<le> length p" using overlap_shift [OF c] overlap_le [of y ?ms] by (simp_all add: n_def p_def)
    then have n0: "n \<noteq> 0" using x by (cases n) auto
    have "result json_ok (with_pending st p) = ocat (said ?st (take n p)) (result json_ok (with_pending ?st (drop n p)))"
      using result_progress [OF thinking_step(1) [OF st(1) n0 n(2) None n_def]] p by (simp add: said flip: said_def)
    moreover have "clear (take n p) (drop n p) (markers_of ?st)"
      using held_back_clear [OF None n_def, of "[]"] ms by (auto intro: clear_subset)
    ultimately show ?thesis using split_refold [OF set n(1), of y json_ok] unfolding said p_def by simp
  next
    case (Some pm)
    obtain i m where pm: "pm = (i, m)" by (cases pm)
    then have f: "first_marker p ?ms = Some (i, m)" using Some by simp
    note s = first_marker_Some [OF f]
    have i: "length x \<le> i" using f first_marker_shift [OF separate_transitions c] unfolding p_def by simp
    then have i0: "i \<noteq> 0" using x by (cases i) auto
    have m: "m \<noteq> THINK_OPEN" using t s(2,3) sublist_at unfolding p_def by blast
    then have tr: "map_of (transitions Think False) m = map_of (transitions Think True) m" by (simp add: transitions_def)
    have "first_marker p (markers_of ?st) = Some (i, m)"
      using s m ms by (intro first_marker_eqI separate_transitions) auto
    then have "result json_ok (with_pending st p) = result json_ok (with_pending ?st p)"
      using result_progress [OF thinking_step(2) [OF st(1) i0 s(2) f, of json_ok]] p st tr settled_result [OF set, of json_ok p]
      by (simp add: said flip: said_def)
    then show ?thesis using split_settled [OF set cl x] unfolding said p_def by simp
  qed
qed

subsection \<open>Arguments and containers\<close>

lemma finish_quiet: "k3_state st \<in> {Tools, Call, Argument, Done} \<Longrightarrow> fst (finish st) = []"
  by (auto simp: finish_def)

lemma first_marker_single: "first_marker p [m] = map_option (\<lambda>i. (i, m)) (str_find p m)"
  by (simp add: first_marker_def split: option.splits)

lemma argument_open:
  assumes "k3_state st = Argument" "str_find (k3_pending st) ARGUMENT_CLOSE = None"
  shows "result json_ok st = obs []"
  using assms
proof (induction "length (k3_pending st)" arbitrary: st rule: less_induct)
  case less
  let ?p = "k3_pending st"
  define n where "n = length ?p - overlap ?p [ARGUMENT_CLOSE]"
  define st' where "st' = st\<lparr>k3_argument_parts := k3_argument_parts st @ take n ?p, k3_pending := drop n ?p\<rparr>"
  have step: "k3_step json_ok st = ([], st', n \<noteq> 0)"
    using less.prems unfolding n_def st'_def by (simp add: k3_step_def argument_step_def Let_def) linarith
  have quiet: "fst (finish st) = []" "fst (finish st') = []" using less.prems by (simp_all add: finish_quiet st'_def)
  show ?case
  proof (cases "?p = [] \<or> n = 0")
    case True
    then show ?thesis using result_empty [of st json_ok] result_stuck [of json_ok st "[]" st'] step quiet by auto
  next
    case False
    have "\<not> sublist ARGUMENT_CLOSE (drop n ?p)"
      using less.prems(2) unfolding str_find_None by (meson sublist_drop sublist_order.order_trans)
    then have "result json_ok st' = obs []" using False less.prems by (intro less.hyps) (auto simp: st'_def str_find_None)
    then show ?thesis using result_progress [of json_ok st "[]" st'] step False by simp
  qed
qed

lemma split_argument:
  assumes "k3_state st = Argument" "clear x y [ARGUMENT_CLOSE]"
  shows "result json_ok (with_pending st (x @ y)) =
    result json_ok (with_pending (st\<lparr>k3_argument_parts := k3_argument_parts st @ x\<rparr>) y)"
proof (cases "str_find y ARGUMENT_CLOSE")
  case None
  then have "str_find (x @ y) ARGUMENT_CLOSE = None"
    using first_marker_shift_None [OF separate_argument assms(2)] by (simp add: first_marker_single)
  then show ?thesis using None assms(1) by (simp add: argument_open)
next
  case (Some e)
  then have f: "str_find (x @ y) ARGUMENT_CLOSE = Some (length x + e)"
    using first_marker_shift [OF separate_argument assms(2), of "length x + e" ARGUMENT_CLOSE] by (simp add: first_marker_single)
  have "y \<noteq> []" using str_find_Some [OF Some] by (auto simp: ARGUMENT_CLOSE_def)
  moreover have "argument_step json_ok (with_pending st (x @ y)) =
      argument_step json_ok (with_pending (st\<lparr>k3_argument_parts := k3_argument_parts st @ x\<rparr>) y)"
    using Some f by (simp add: argument_step_def Let_def split: option.splits)
  ultimately show ?thesis
    using assms(1) by (subst (1 2) result_def, subst (1 2) feed_loop.simps) (simp add: k3_step_def)
qed

abbreviation "container_markers \<equiv> [OPEN, CLOSE, END_OF_MESSAGE]"

lemma split_container:
  assumes st: "k3_state st \<in> {Tools, Call}" and c: "clear x y container_markers"
  shows "result json_ok (with_pending st (x @ y)) = result json_ok (with_pending st y)"
proof (cases "first_marker y container_markers")
  case None
  have quiet: "result json_ok (with_pending st p) = obs []" if "first_marker p container_markers = None" for p
  proof (cases "p = []")
    case True
    then show ?thesis using st by (subst result_empty) (auto simp: finish_quiet)
  next
    case False
    have "k3_step json_ok (with_pending st p) = ([], with_pending st (drop (length p - overlap p container_markers) p), False)"
      using that st by (auto simp: k3_step_def container_step_def Let_def)
    then show ?thesis using False st by (subst result_stuck) (auto simp: finish_quiet)
  qed
  then show ?thesis using None first_marker_shift_None [OF separate_container c] by simp
next
  case (Some pm)
  then have f: "first_marker (x @ y) container_markers = Some (length x + fst pm, snd pm)"
    by (subst first_marker_shift [OF separate_container c]) simp
  have "y \<noteq> []" using first_marker_Some [of y container_markers "fst pm" "snd pm"] Some by (auto simp: END_OF_MESSAGE_def)
  moreover have "container_step (with_pending st (x @ y)) = container_step (with_pending st y)"
    using Some f by (cases pm) (simp add: container_step_def Let_def split: option.splits)
  ultimately show ?thesis
    using st by (subst (1 2) result_def, subst (1 2) feed_loop.simps) (auto simp: k3_step_def)
qed

lemma result_done: "k3_state st = Done \<Longrightarrow> result json_ok st = obs []"
  by (cases "k3_pending st = []") (simp_all add: result_empty finish_quiet k3_step_def result_stuck [of _ _ "[]"])

subsection \<open>Extending the pending text\<close>

text \<open>The think tag occurs at most once; not again after it opened the channel.\<close>

definition once :: "string \<Rightarrow> bool" where
  "once tx \<longleftrightarrow> (\<forall>u v. tx = u @ THINK_OPEN @ v \<longrightarrow> \<not> sublist THINK_OPEN v)"

definition tag_ok :: "k3_parser \<Rightarrow> string \<Rightarrow> bool" where
  "tag_ok st rest \<longleftrightarrow> k3_reasoning_emitted st \<or> (if k3_state st = Think then \<not> sublist THINK_OPEN rest else once rest)"

lemma not_sublist_suffix: "\<not> sublist m r \<Longrightarrow> suffix r' r \<Longrightarrow> \<not> sublist m r'"
  by (meson suffix_imp_sublist sublist_order.order_trans)

lemma once_suffix: "once r \<Longrightarrow> suffix r' r \<Longrightarrow> once r'"
  unfolding once_def suffix_def by (metis append.assoc)

lemma once_never: "\<not> sublist THINK_OPEN r \<Longrightarrow> once r"
  unfolding once_def by auto

lemma tag_ok_mono:
  assumes "tag_ok st r" "suffix r' r" "k3_reasoning_emitted st \<Longrightarrow> k3_reasoning_emitted st'"
    "k3_state st' = Think \<Longrightarrow> k3_state st = Think"
  shows "tag_ok st' r'"
  using assms not_sublist_suffix [OF _ assms(2)] once_suffix [OF _ assms(2)] once_never
  unfolding tag_ok_def by (auto split: if_splits)

lemma channel_extend:
  assumes st: "k3_state st \<in> {Start, Between, Think, Response}" and f: "first_marker (k3_pending st) (markers_of st) = Some (pos, m)"
    and s: "k3_step json_ok st = (evs, st', True)"
  shows "k3_step json_ok (with_pending st (k3_pending st @ b)) = (evs, with_pending st' (k3_pending st' @ b), True)"
proof -
  let ?p = "k3_pending st"
  note f' = first_marker_extend [OF separate_transitions f, of b]
  note n = first_marker_Some [OF f]
  have len: "pos + length m \<le> length ?p" using prefix_length_le [OF n(3)] n(2) by simp
  have cut: "take pos (?p @ b) = take pos ?p" "drop pos (?p @ b) = drop pos ?p @ b" "drop (pos + length m) (?p @ b) = drop (pos + length m) ?p @ b"
    using n(2) len by simp_all
  have eq: "k3_step json_ok (with_pending st q) = channel_step (with_pending st q)" for q using st by (auto simp: k3_step_def)
  obtain e1 s1 where o1: "text_out (take pos ?p) st = (e1, s1)" by (cases "text_out (take pos ?p) st")
  then have out: "text_out (take pos ?p) (with_pending st q) = (e1, with_pending s1 q)" for q by (simp add: text_out_with_pending)
  have "channel_step st = (evs, st', True)" using s eq [of ?p] by simp
  then show ?thesis
    unfolding eq channel_step_def Let_def by (auto simp: f f' cut out o1 simp del: take_append drop_append split: if_splits)
qed

lemma channel_result_extend:
  assumes st: "k3_state st \<in> {Start, Between, Think, Response}" and ok: "tag_ok st (k3_pending st @ b)"
    and s: "k3_step json_ok st = (evs, st', True)" and p: "k3_pending st \<noteq> []"
  shows "result json_ok (with_pending st (k3_pending st @ b)) = ocat (obs evs) (result json_ok (with_pending st' (k3_pending st' @ b)))"
proof (cases "first_marker (k3_pending st) (markers_of st)")
  case (Some pm)
  then show ?thesis using channel_extend [OF st _ s, of "fst pm" "snd pm" b] p by (subst result_progress) auto
next
  case None
  let ?p = "k3_pending st"
  define n where "n = length ?p - overlap ?p (markers_of st)"
  have "k3_step json_ok st = channel_step st" using st by (auto simp: k3_step_def)
  then have n0: "n \<noteq> 0" and blank: "k3_state st \<in> {Start, Between} \<Longrightarrow> \<not> list_all is_space (take n ?p)"
    and eq: "(case text_out (take n ?p) (with_pending st (drop n ?p)) of (evs, st') \<Rightarrow> (evs, st', True)) = (evs, st', True)"
    using s None unfolding channel_step_def Let_def n_def by (auto split: if_splits)
  define x where "x = take n ?p"
  have x: "x \<noteq> []" "k3_state st \<in> {Start, Between} \<Longrightarrow> \<not> list_all is_space x" using n0 p blank by (auto simp: x_def)
  have out: "evs = fst (text_out x st)" "st' = with_pending (snd (text_out x st)) (drop n ?p)"
    using eq by (simp_all add: text_out_with_pending x_def split: prod.splits)
  have c: "clear x (drop n ?p @ b) (markers_of st)" using held_back_clear [OF None n_def, of b] by (simp add: x_def)
  have cut: "?p @ b = x @ drop n ?p @ b" by (simp add: x_def)
  show ?thesis
  proof (cases "settled st")
    case True
    have "snd (text_out x st) = st" by (subst text_out_settled [OF True]) simp
    then show ?thesis using split_settled [OF True c x(1)] unfolding cut out by (simp add: said_def)
  next
    case False
    then consider (fresh) "k3_state st \<in> {Start, Between}" | (think) "k3_state st = Think" "\<not> k3_reasoning_emitted st"
      using st unfolding settled_def by blast
    then show ?thesis
    proof cases
      case fresh
      then have "snd (text_out x st) = st\<lparr>k3_state := Response\<rparr>" using x by (auto simp: text_out_def strip_blank)
      then show ?thesis using split_opening [OF fresh c x(2) [OF fresh]] unfolding cut out by (simp add: said_def)
    next
      case think
      then have "snd (text_out x st) = st\<lparr>k3_reasoning_emitted := True\<rparr>" using x by (auto simp: text_out_def)
      moreover have "\<not> sublist THINK_OPEN (x @ drop n ?p @ b)" using ok think unfolding tag_ok_def cut by simp
      ultimately show ?thesis using split_thinking [OF think c x(1)] unfolding cut out by (simp add: said_def)
    qed
  qed
qed

lemma argument_result_extend:
  assumes st: "k3_state st = Argument" and s: "k3_step json_ok st = (evs, st', pr)"
  shows "evs = [] \<and> result json_ok (with_pending st (k3_pending st @ b)) = result json_ok (with_pending st' (k3_pending st' @ b))"
proof (cases "str_find (k3_pending st) ARGUMENT_CLOSE")
  case None
  let ?p = "k3_pending st"
  define n where "n = length ?p - overlap ?p [ARGUMENT_CLOSE]"
  have st': "evs = []" "st' = st\<lparr>k3_argument_parts := k3_argument_parts st @ take n ?p, k3_pending := drop n ?p\<rparr>"
    using s st None by (auto simp: k3_step_def argument_step_def Let_def n_def)
  have "clear (take n ?p) (drop n ?p @ b) [ARGUMENT_CLOSE]"
    using None by (intro held_back_clear) (simp_all add: first_marker_single n_def)
  then have "result json_ok (with_pending st (take n ?p @ drop n ?p @ b)) =
      result json_ok (with_pending (st\<lparr>k3_argument_parts := k3_argument_parts st @ take n ?p\<rparr>) (drop n ?p @ b))"
    by (rule split_argument [OF st])
  then show ?thesis unfolding st' by (simp add: append_assoc [symmetric] del: append_assoc)
next
  case (Some e)
  let ?p = "k3_pending st"
  have f: "str_find (?p @ b) ARGUMENT_CLOSE = Some e"
    using first_marker_extend [OF separate_argument, of ?p e ARGUMENT_CLOSE b] Some by (simp add: first_marker_single)
  have len: "e + length ARGUMENT_CLOSE \<le> length ?p" using str_find_Some [OF Some] prefix_length_le [of ARGUMENT_CLOSE "drop e ?p"] by auto
  have cut: "take e (?p @ b) = take e ?p" "drop (e + length ARGUMENT_CLOSE) (?p @ b) = drop (e + length ARGUMENT_CLOSE) ?p @ b"
    using len by simp_all
  have "?p \<noteq> []" using len by (auto simp: ARGUMENT_CLOSE_def)
  moreover have "k3_step json_ok (with_pending st (?p @ b)) = ([], with_pending st' (k3_pending st' @ b), True)" "evs = []"
    using s st Some f by (auto simp: k3_step_def argument_step_def Let_def cut simp del: take_append drop_append split: option.splits)
  ultimately show ?thesis by (subst result_progress) auto
qed

lemma header_step_with_pending:
  "header_step m h (with_pending st q) = (case header_step m h st of (evs, st') \<Rightarrow> (evs, with_pending st' q))"
  by (cases "split_header h") (auto simp: header_step_def Let_def)

lemma separate_sep: "separate [SEP]"
  by code_simp

lemma str_find_from_extend:
  assumes "str_find_from q SEP k = Some e" "k \<le> length q"
  shows "str_find_from (q @ b) SEP k = Some e" "e + length SEP \<le> length q"
proof -
  from assms(1) obtain i where i: "str_find (drop k q) SEP = Some i" "e = k + i" by (auto simp: str_find_from_def split: if_splits)
  have "first_marker (drop k q @ b) [SEP] = Some (i, SEP)"
    using i(1) by (intro first_marker_extend separate_sep) (simp add: first_marker_single)
  then show "str_find_from (q @ b) SEP k = Some e"
    using i assms(2) by (simp add: str_find_from_def first_marker_single)
  show "e + length SEP \<le> length q"
    using str_find_Some [OF i(1)] prefix_length_le [of SEP "drop i (drop k q)"] i(2) by auto
qed

lemma container_result_extend:
  assumes st: "k3_state st \<in> {Tools, Call}" and s: "k3_step json_ok st = (evs, st', pr)" and p: "k3_pending st \<noteq> []"
  shows "result json_ok (with_pending st (k3_pending st @ b)) = ocat (obs evs) (result json_ok (with_pending st' (k3_pending st' @ b)))"
proof -
  let ?p = "k3_pending st"
  have step: "k3_step json_ok (with_pending st q) = container_step (with_pending st q)" for q using st by (auto simp: k3_step_def)
  have cs: "container_step st = (evs, st', pr)" using s step [of ?p] by simp
  show ?thesis
  proof (cases "first_marker ?p container_markers")
    case None
    define n where "n = length ?p - overlap ?p container_markers"
    have st': "evs = []" "st' = with_pending st (drop n ?p)" using cs None by (auto simp: container_step_def Let_def n_def)
    have "result json_ok (with_pending st (take n ?p @ drop n ?p @ b)) = result json_ok (with_pending st (drop n ?p @ b))"
      using held_back_clear [OF None n_def] by (rule split_container [OF st])
    then show ?thesis unfolding st' by (simp add: append_assoc [symmetric] del: append_assoc)
  next
    case (Some pm)
    obtain pos m where "pm = (pos, m)" by (cases pm)
    then have f: "first_marker ?p container_markers = Some (pos, m)" using Some by simp
    note n = first_marker_Some [OF f] and f' = first_marker_extend [OF separate_container f, of b]
    define q where "q = drop pos ?p"
    have q: "length m \<le> length q" "drop pos (?p @ b) = q @ b" using prefix_length_le [OF n(3)] n(2) by (simp_all add: q_def)
    consider (eom) "m = END_OF_MESSAGE" | (unclosed) "m \<noteq> END_OF_MESSAGE" "str_find_from q SEP (length m) = None"
      | (header) e where "m \<noteq> END_OF_MESSAGE" "str_find_from q SEP (length m) = Some e" by (cases "str_find_from q SEP (length m)") auto
    then show ?thesis
    proof cases
      case eom
      then have st': "evs = []" "k3_state st' = Done" "st' = st\<lparr>k3_state := Done, k3_pending := []\<rparr>"
        using cs f by (auto simp: container_step_def Let_def)
      have "k3_step json_ok (with_pending st (?p @ b)) = ([], st', True)"
        using st' eom f' by (simp add: step container_step_def Let_def)
      then show ?thesis using p st' by (subst result_progress) (auto simp: result_done)
    next
      case unclosed
      then have st': "evs = []" "st' = with_pending st q" using cs f by (auto simp: container_step_def Let_def q_def)
      have "result json_ok (with_pending st (take pos (?p @ b) @ drop pos (?p @ b))) = result json_ok (with_pending st (drop pos (?p @ b)))"
        by (rule split_container [OF st first_marker_clear [OF separate_container f']])
      then have "result json_ok (with_pending st (?p @ b)) = result json_ok (with_pending st (drop pos (?p @ b)))"
        by (simp only: append_take_drop_id)
      then show ?thesis unfolding st' q(2) by simp
    next
      case header
      note e = str_find_from_extend(1) [OF header(2) q(1), of b] str_find_from_extend(2) [OF header(2) q(1)]
      have cut: "slice (length m) e (q @ b) = slice (length m) e q" "drop (e + length SEP) (q @ b) = drop (e + length SEP) q @ b"
        using e(2) by (simp_all add: slice_def)
      obtain e1 s1 where o1: "header_step m (slice (length m) e q) st = (e1, s1)" by (cases "header_step m (slice (length m) e q) st")
      then have out: "header_step m (slice (length m) e q) (with_pending st r) = (e1, with_pending s1 r)" for r
        by (simp add: header_step_with_pending)
      have st': "evs = e1" "st' = with_pending s1 (drop (e + length SEP) q)"
        using cs header by (auto simp: container_step_def Let_def f out simp flip: q_def)
      have "k3_step json_ok (with_pending st (?p @ b)) = (e1, with_pending s1 (drop (e + length SEP) q @ b), True)"
        unfolding step container_step_def Let_def using header(1) by (simp add: f' q(2) e(1) cut(1) out del: drop_append) (use e(2) in simp)
      then show ?thesis using p unfolding st' by (subst result_progress) auto
    qed
  qed
qed

subsection \<open>One think tag stays one think tag\<close>

lemma text_out_flags:
  assumes "text_out tx st = (evs, st')"
  shows "k3_reasoning_emitted st \<Longrightarrow> k3_reasoning_emitted st'" "k3_state st' = Think \<longleftrightarrow> k3_state st = Think"
  using assms by (auto simp: text_out_def split: if_splits)

lemma transitions_think: "map_of (transitions s e) m = Some Think \<Longrightarrow> m = THINK_OPEN"
  by (auto simp: transitions_def split: if_splits)

lemma first_transition: "first_marker p (map fst (transitions s e)) = Some (pos, m) \<Longrightarrow> \<exists>t. map_of (transitions s e) m = Some t"
  using first_marker_Some(1) by (fastforce simp: weak_map_of_SomeI)

lemma channel_tags:
  assumes s: "channel_step st = (evs, st', pr)"
  shows "suffix (k3_pending st') (k3_pending st)" "k3_reasoning_emitted st \<Longrightarrow> k3_reasoning_emitted st'"
    "k3_state st' = Think \<Longrightarrow> k3_state st = Think \<or> (\<exists>u. k3_pending st = u @ THINK_OPEN @ k3_pending st')"
proof -
  let ?p = "k3_pending st"
  have "suffix (k3_pending st') ?p \<and> (k3_reasoning_emitted st \<longrightarrow> k3_reasoning_emitted st') \<and>
      (k3_state st' = Think \<longrightarrow> k3_state st = Think \<or> (\<exists>u. ?p = u @ THINK_OPEN @ k3_pending st'))"
  proof (cases "first_marker ?p (markers_of st)")
    case None
    define n where "n = length ?p - overlap ?p (markers_of st)"
    obtain e1 s1 where o1: "text_out (take n ?p) st = (e1, s1)" by (cases "text_out (take n ?p) st")
    then have "text_out (take n ?p) (with_pending st (drop n ?p)) = (e1, with_pending s1 (drop n ?p))" by (simp add: text_out_with_pending)
    then have "st' = st \<or> st' = with_pending s1 (drop n ?p)"
      using s None by (auto simp: channel_step_def Let_def simp flip: n_def split: if_splits)
    then show ?thesis using text_out_flags [OF o1] by (auto simp: suffix_drop)
  next
    case (Some pm)
    obtain pos m where "pm = (pos, m)" by (cases pm)
    then have f: "first_marker ?p (markers_of st) = Some (pos, m)" using Some by simp
    note n = first_marker_Some [OF f]
    obtain r where "drop pos ?p = m @ r" using n(3) by (auto simp: prefix_def)
    then have cut: "?p = take pos ?p @ m @ drop (pos + length m) ?p" by (metis add.commute append_eq_conv_conj append_take_drop_id drop_drop)
    obtain t where t: "map_of (transitions (k3_state st) (k3_reasoning_emitted st)) m = Some t" using first_transition [OF f] by blast
    then have think: "t = Think \<Longrightarrow> ?p = take pos ?p @ THINK_OPEN @ drop (pos + length m) ?p" using transitions_think cut by metis
    obtain e1 s1 where o1: "text_out (take pos ?p) st = (e1, s1)" by (cases "text_out (take pos ?p) st")
    then have out: "text_out (take pos ?p) (with_pending st q) = (e1, with_pending s1 q)" for q by (simp add: text_out_with_pending)
    note fl = text_out_flags [OF o1]
    from s have "st' = with_pending s1 (drop pos ?p) \<or> st' = s1\<lparr>k3_pending := drop (pos + length m) ?p, k3_state := t\<rparr>"
      using f t by (auto simp: channel_step_def Let_def o1 out split: if_splits)
    then show ?thesis using fl think by (auto simp: suffix_drop)
  qed
  then show "suffix (k3_pending st') ?p" "k3_reasoning_emitted st \<Longrightarrow> k3_reasoning_emitted st'"
    "k3_state st' = Think \<Longrightarrow> k3_state st = Think \<or> (\<exists>u. ?p = u @ THINK_OPEN @ k3_pending st')" by blast+
qed

lemma header_tags:
  "header_step m h st = (evs, st') \<Longrightarrow>
     k3_pending st' = k3_pending st \<and> k3_reasoning_emitted st' = k3_reasoning_emitted st \<and> (k3_state st' = Think \<longrightarrow> k3_state st = Think)"
  by (cases "split_header h") (auto simp: header_step_def Let_def split: if_splits)

lemma suffix_drop_drop: "suffix (drop a (drop b xs)) xs"
  by (simp add: suffix_drop)

lemma step_tags:
  assumes s: "k3_step json_ok st = (evs, st', pr)"
  shows "suffix (k3_pending st') (k3_pending st)" "k3_reasoning_emitted st \<Longrightarrow> k3_reasoning_emitted st'"
    "k3_state st' = Think \<Longrightarrow> k3_state st = Think \<or> (\<exists>u. k3_pending st = u @ THINK_OPEN @ k3_pending st')"
proof -
  have arg: "suffix (k3_pending st') (k3_pending st) \<and> k3_reasoning_emitted st' = k3_reasoning_emitted st \<and> k3_state st' \<noteq> Think"
    if "k3_state st = Argument" "argument_step json_ok st = (evs, st', pr)"
    using that by (auto simp: argument_step_def Let_def suffix_drop split: option.splits)
  have con: "suffix (k3_pending st') (k3_pending st) \<and> k3_reasoning_emitted st' = k3_reasoning_emitted st \<and> k3_state st' \<noteq> Think"
    if "k3_state st \<in> {Tools, Call}" "container_step st = (evs, st', pr)"
    using that by (auto simp: container_step_def Let_def suffix_drop suffix_drop_drop dest!: header_tags split: option.splits prod.splits if_splits)
  note ch = channel_tags [of st evs st' pr]
  consider "k3_state st = Done" | "k3_state st = Argument" | "k3_state st \<in> {Tools, Call}" | "k3_state st \<notin> {Done, Argument, Tools, Call}"
    by blast
  then show "suffix (k3_pending st') (k3_pending st)" "k3_reasoning_emitted st \<Longrightarrow> k3_reasoning_emitted st'"
    "k3_state st' = Think \<Longrightarrow> k3_state st = Think \<or> (\<exists>u. k3_pending st = u @ THINK_OPEN @ k3_pending st')"
    using s arg con ch by (cases; auto simp: k3_step_def)+
qed

lemma tag_ok_step:
  assumes s: "k3_step json_ok st = (evs, st', pr)" and ok: "tag_ok st (k3_pending st @ b)"
  shows "tag_ok st' (k3_pending st' @ b)"
proof (cases "k3_state st' = Think \<longrightarrow> k3_state st = Think")
  case True
  then show ?thesis using tag_ok_mono [OF ok] step_tags [OF s] by simp
next
  case False
  then obtain u where "k3_pending st = u @ THINK_OPEN @ k3_pending st'" using step_tags(3) [OF s] by blast
  then have eq: "k3_pending st @ b = u @ THINK_OPEN @ (k3_pending st' @ b)" by simp
  show ?thesis
  proof (cases "k3_reasoning_emitted st")
    case True
    then show ?thesis using step_tags(2) [OF s] by (simp add: tag_ok_def)
  next
    case emitted: False
    then have "once (k3_pending st @ b)" using ok False by (simp add: tag_ok_def)
    then have "\<not> sublist THINK_OPEN (k3_pending st' @ b)" using eq unfolding once_def by blast
    then show ?thesis using False by (simp add: tag_ok_def)
  qed
qed

subsection \<open>Chunk invariance\<close>

lemma step_result_extend:
  assumes s: "k3_step json_ok st = (evs, st', pr)" and p: "k3_pending st \<noteq> []" and ok: "tag_ok st (k3_pending st @ b)"
  shows "result json_ok (with_pending st (k3_pending st @ b)) = ocat (obs evs) (result json_ok (with_pending st' (k3_pending st' @ b)))"
proof -
  consider (stop) "k3_state st = Done" | (arg) "k3_state st = Argument" | (con) "k3_state st \<in> {Tools, Call}"
    | (chan) "k3_state st \<in> {Start, Between, Think, Response}" by (cases "k3_state st") auto
  then show ?thesis
  proof cases
    case stop
    then show ?thesis using s by (auto simp: k3_step_def result_done)
  next
    case arg
    then show ?thesis using argument_result_extend [OF arg s, of b] by simp
  next
    case con
    then show ?thesis by (rule container_result_extend [OF _ s p])
  next
    case chan
    show ?thesis
    proof (cases pr)
      case True
      then show ?thesis using channel_result_extend [OF chan ok _ p] s by simp
    next
      case False
      have "k3_step json_ok st = channel_step st" using chan by (auto simp: k3_step_def)
      then have "evs = [] \<and> st' = st" using s False by (auto simp: channel_step_def Let_def split: option.splits if_splits prod.splits)
      then show ?thesis by simp
    qed
  qed
qed

lemma feed_result_extend:
  assumes "feed_loop json_ok st = (evs, st')" "tag_ok st (k3_pending st @ b)"
  shows "result json_ok (with_pending st (k3_pending st @ b)) = ocat (obs evs) (result json_ok (with_pending st' (k3_pending st' @ b)))
    \<and> tag_ok st' (k3_pending st' @ b)"
  using assms
proof (induction json_ok st arbitrary: evs rule: feed_loop.induct)
  case (1 json_ok st)
  show ?case
  proof (cases "k3_pending st = []")
    case True
    then show ?thesis using "1.prems" by (subst (asm) feed_loop.simps) auto
  next
    case False
    obtain e1 s1 pr where s: "k3_step json_ok st = (e1, s1, pr)" by (cases "k3_step json_ok st")
    note ext = step_result_extend [OF s False "1.prems"(2)] and ok = tag_ok_step [OF s "1.prems"(2)]
    show ?thesis
    proof (cases pr)
      case True
      obtain e2 s2 where loop: "feed_loop json_ok s1 = (e2, s2)" by (cases "feed_loop json_ok s1")
      have ev: "evs = e1 @ e2" "st' = s2" using "1.prems"(1) False s True loop by (subst (asm) feed_loop.simps; simp)+
      then show ?thesis using "1.IH" [OF False s [symmetric] refl _ loop [folded ev(2)] ok] ext True by (simp add: obs_append ocat_assoc)
    next
      case False
      have "evs = e1" "st' = s1" using "1.prems"(1) \<open>k3_pending st \<noteq> []\<close> s False by (subst (asm) feed_loop.simps; simp)+
      then show ?thesis using ext ok by simp
    qed
  qed
qed

text \<open>The whole stream: one \<open>feed\<close> per delta, then \<open>finish\<close>.\<close>

fun feeds :: "(string \<Rightarrow> bool) \<Rightarrow> string list \<Rightarrow> k3_parser \<Rightarrow> delta list" where
  "feeds json_ok [] st = fst (finish st)"
| "feeds json_ok (d # ds) st = (case feed json_ok d st of (evs, st') \<Rightarrow> evs @ feeds json_ok ds st')"

lemma feeds_result:
  assumes "tag_ok st (k3_pending st @ d @ concat ds)"
  shows "obs (feeds json_ok (d # ds) st) = result json_ok (with_pending st (k3_pending st @ d @ concat ds))"
  using assms
proof (induction ds arbitrary: st d)
  case Nil
  then show ?case by (simp add: result_def feed_def split: prod.splits)
next
  case (Cons d' ds)
  let ?st = "with_pending st (k3_pending st @ d)"
  obtain evs st' where f: "feed_loop json_ok ?st = (evs, st')" by (cases "feed_loop json_ok ?st")
  have "tag_ok ?st (k3_pending ?st @ d' @ concat ds)" using Cons.prems by (simp add: tag_ok_def)
  then have "result json_ok (with_pending ?st (k3_pending ?st @ d' @ concat ds)) =
      ocat (obs evs) (result json_ok (with_pending st' (k3_pending st' @ d' @ concat ds)))"
    and ok: "tag_ok st' (k3_pending st' @ d' @ concat ds)" using feed_result_extend [OF f] by blast+
  then show ?case using Cons.IH [OF ok] f by (simp add: feed_def obs_append)
qed

lemma once_computed:
  assumes "case str_find tx THINK_OPEN of None \<Rightarrow> True | Some i \<Rightarrow> str_find (drop (i + length THINK_OPEN) tx) THINK_OPEN = None"
  shows "once tx"
  unfolding once_def
proof (intro allI impI)
  fix u v assume tx: "tx = u @ THINK_OPEN @ v"
  then have "sublist THINK_OPEN tx" by (auto simp: sublist_def)
  then obtain i where i: "str_find tx THINK_OPEN = Some i" by (cases "str_find tx THINK_OPEN") (auto simp: str_find_None)
  have "prefix THINK_OPEN (drop (length u) tx)" by (simp add: tx)
  then have "i \<le> length u" using str_find_Some [OF i] by (meson not_le)
  then have "suffix v (drop (i + length THINK_OPEN) tx)" by (simp add: tx suffix_def)
  then show "\<not> sublist THINK_OPEN v" using assms i not_sublist_suffix by (auto simp: str_find_None)
qed

text \<open>A text that the parser reads the same however it is cut: at most one think tag, none when reasoning is already open.\<close>

definition tag_once :: "bool \<Rightarrow> string \<Rightarrow> bool" where
  "tag_once reasoning_open tx =
     (case str_find tx THINK_OPEN of
        None \<Rightarrow> True
      | Some i \<Rightarrow> \<not> reasoning_open \<and> str_find (drop (i + length THINK_OPEN) tx) THINK_OPEN = None)"

lemma chunk_invariance:
  assumes "tag_once reasoning_open (concat ds)"
  shows "obs (feeds json_ok ds (new_parser reasoning_open)) = obs (feeds json_ok [concat ds] (new_parser reasoning_open))"
proof -
  let ?st = "new_parser reasoning_open"
  have "tag_ok ?st (concat ds)"
    using assms once_computed [of "concat ds"]
    by (auto simp: tag_once_def tag_ok_def new_parser_def str_find_None split: option.splits)
  then have all: "tag_ok ?st (k3_pending ?st @ d @ concat ds')" if "d @ concat ds' = concat ds" for d ds'
    using that by (simp add: new_parser_def)
  show ?thesis
  proof (cases ds)
    case Nil
    then show ?thesis by (simp add: feed_def new_parser_def feed_loop.simps)
  next
    case (Cons d ds')
    then show ?thesis
      using feeds_result [OF all [of d ds'], of json_ok] feeds_result [OF all [of "concat ds" "[]"], of json_ok] by simp
  qed
qed

text \<open>C21: However the generated text is cut into deltas (also inside markers and headers), feeding them one by one
  and finishing gives the same reasoning, the same content and the same tool calls as feeding the text at once.
  The text holds the think tag at most once, and not at all when the prompt has already opened the reasoning.\<close>

theorem k3_chunk_invariant:
  assumes "tag_once reasoning_open (concat ds)"
  shows "reasoning_of (feeds json_ok ds (new_parser reasoning_open)) = reasoning_of (feeds json_ok [concat ds] (new_parser reasoning_open)) \<and>
    content_of (feeds json_ok ds (new_parser reasoning_open)) = content_of (feeds json_ok [concat ds] (new_parser reasoning_open)) \<and>
    calls_of (feeds json_ok ds (new_parser reasoning_open)) = calls_of (feeds json_ok [concat ds] (new_parser reasoning_open))"
  using chunk_invariance [OF assms, of json_ok] by (simp only: obs_def prod.inject)

definition sample_chunks :: "string list" where
  "sample_chunks = [''<|op'', ''en|>think<|sep|>why<|clo'', ''se|>think<|sep|>'', ''<|open|>response<|sep|>yes<'', ''|close|>response<|sep|>'',
     ''<|open|>tools<|sep|><|open|>call too'', ''l=\"f\"<|sep|><|open|>argument key=\"k\"<|sep|>v'', ''1<|close|>argument<|sep|><|close|>call<|sep|>'']"

theorem k3_chunk_invariant_witness:
  "reasoning_of (feeds (\<lambda>_. False) sample_chunks (new_parser False)) = ''why'' \<and>
   content_of (feeds (\<lambda>_. False) sample_chunks (new_parser False)) = ''yes'' \<and>
   calls_of (feeds (\<lambda>_. False) sample_chunks (new_parser False)) = [(''f'', [(''k'', ArgText ''v1'')])]"
proof -
  have t: "tag_once False (concat sample_chunks)" by code_simp
  have one: "feeds (\<lambda>_. False) [concat sample_chunks] (new_parser False) =
      [ReasoningDelta ''why'', ContentDelta ''yes'', CallDelta ''f'' [(''k'', ArgText ''v1'')]]"
    by code_simp
  show ?thesis using k3_chunk_invariant [OF t, of "\<lambda>_. False"] unfolding one by (simp add: reasoning_of_def content_of_def calls_of_def)
qed

text \<open>A second think tag is read differently: after reasoning text in an earlier delta it is shown as reasoning, in the
  same delta as that text it is dropped.\<close>

lemma k3_second_tag_depends_on_chunks:
  "reasoning_of (feeds json_ok [''abc<|open|>think<|sep|>d''] (new_parser True)) = ''abcd''"
  "reasoning_of (feeds json_ok [''abc'', ''<|open|>think<|sep|>d''] (new_parser True)) = ''abc<|open|>think<|sep|>d''"
  by code_simp+

end
