(* ===== verification/K3_Stream.thy ===== *)
theory K3_Stream
  imports K3_Chunks
begin

section \<open>Structured streaming (\<open>server/openai_server.py\<close> with the K3 parser)\<close>

text \<open>
  \<open>_stream_structured_text\<close> cuts the decoded text at stop strings in a sliding window and feeds the rest to the
  channel parser. The theory composes the window, the parser and the accumulated generation, and shows that the
  stream delivers what one parse of the text up to the first stop string delivers.
\<close>

subsection \<open>State\<close>

text \<open>The generation keeps token offsets and reasoning in \<open>ss_gen\<close>; its other parsed fields are fields here.\<close>

record 't structured =
  ss_gen :: "('t, char) generation"
  ss_tool_calls :: "(string \<times> (string \<times> arg_value) list) list"
  ss_content_parts :: "string list"
  ss_pending :: string
  ss_parser :: k3_parser
  ss_stopped :: bool

definition new_structured :: "bool \<Rightarrow> 't structured" where
  "new_structured reasoning_open =
     \<lparr>ss_gen = new_generation, ss_tool_calls = [], ss_content_parts = [], ss_pending = [],
      ss_parser = new_parser reasoning_open, ss_stopped = False\<rparr>"

definition apply_parsed_delta :: "delta \<Rightarrow> 't structured \<Rightarrow> char event list \<times> 't structured" where
  "apply_parsed_delta parsed st =
     (case parsed of
        ReasoningDelta r \<Rightarrow> ([(r, True)], st\<lparr>ss_gen := add_reasoning r (ss_gen st)\<rparr>)
      | ContentDelta c \<Rightarrow>
          ([(c, False)], st\<lparr>ss_gen := (ss_gen st)\<lparr>g_in_reasoning := False\<rparr>, ss_content_parts := ss_content_parts st @ [c]\<rparr>)
      | CallDelta name args \<Rightarrow>
          ([([], False)], st\<lparr>ss_gen := (ss_gen st)\<lparr>g_in_reasoning := False\<rparr>, ss_tool_calls := ss_tool_calls st @ [(name, args)]\<rparr>))"

fun apply_parsed :: "delta list \<Rightarrow> 't structured \<Rightarrow> char event list \<times> 't structured" where
  "apply_parsed [] st = ([], st)"
| "apply_parsed (p # ps) st =
     (case apply_parsed_delta p st of (evs, st1) \<Rightarrow> (case apply_parsed ps st1 of (evs', st') \<Rightarrow> (evs @ evs', st')))"

subsection \<open>The loop\<close>

definition structured_window ::
  "(string \<Rightarrow> bool) \<Rightarrow> string list \<Rightarrow> 't structured \<Rightarrow> char event list \<times> 't structured \<times> bool" where
  "structured_window json_ok stops st =
     (let p = ss_pending st;
          cut = (if stops = [] then None else earliest_stop p stops);
          safe = (case cut of Some i \<Rightarrow> i | None \<Rightarrow> length p - partial_stop_holdback p stops)
      in case feed json_ok (take safe p) (ss_parser st) of
           (deltas, parser) \<Rightarrow>
             (case apply_parsed deltas (st\<lparr>ss_parser := parser\<rparr>) of
                (evs, st') \<Rightarrow>
                  if cut = None then (evs, st'\<lparr>ss_pending := drop safe p\<rparr>, False)
                  else (evs, st'\<lparr>ss_pending := [], ss_stopped := True\<rparr>, True)))"

definition structured_tokens ::
  "('t, char) text_env \<Rightarrow> (string \<Rightarrow> bool) \<Rightarrow> string list \<Rightarrow> int \<Rightarrow> 't list \<Rightarrow> 't structured
   \<Rightarrow> char event list \<times> 't structured \<times> bool" where
  "structured_tokens env json_ok stops max_tokens toks st =
     (let remaining = max_tokens - py_len (g_token_ids (ss_gen st))
      in if remaining \<le> 0 then ([], st, False)
         else (case incremental_detokenize env
                      ((ss_gen st)\<lparr>g_token_ids := g_token_ids (ss_gen st) @ take (nat remaining) toks\<rparr>) of
                 (delta, gen) \<Rightarrow> structured_window json_ok stops (st\<lparr>ss_gen := gen, ss_pending := ss_pending st @ delta\<rparr>)))"

definition structured_finish :: "(string \<Rightarrow> bool) \<Rightarrow> int \<Rightarrow> 't structured \<Rightarrow> char event list \<times> 't structured" where
  "structured_finish json_ok max_tokens st =
     (case feed json_ok (ss_pending st) (ss_parser st) of
        (deltas, parser) \<Rightarrow>
          (case finish parser of
             (last_deltas, parser') \<Rightarrow>
               (case apply_parsed (deltas @ last_deltas) (st\<lparr>ss_parser := parser'\<rparr>) of
                  (evs, st') \<Rightarrow>
                    (let reason = (if ss_stopped st' \<or> py_len (g_token_ids (ss_gen st')) < max_tokens then ''stop'' else ''length'')
                     in (evs @ [([], g_in_reasoning (ss_gen st'))], st'\<lparr>ss_gen := (ss_gen st')\<lparr>g_finish_reason := reason\<rparr>\<rparr>)))))"

datatype 't structured_outcome = Complete "'t structured" | Failed py_error | Pending "'t structured"

fun stream_structured_text ::
  "('t, char) text_env \<Rightarrow> (string \<Rightarrow> bool) \<Rightarrow> string list \<Rightarrow> int \<Rightarrow> 't item list \<Rightarrow> 't structured
   \<Rightarrow> char event list \<times> 't structured_outcome" where
  "stream_structured_text env json_ok stops m [] st = ([], Pending st)"
| "stream_structured_text env json_ok stops m (ItemEnd # items) st =
     (case structured_finish json_ok m st of (evs, st') \<Rightarrow> (evs, Complete st'))"
| "stream_structured_text env json_ok stops m (ItemError e # items) st = ([], Failed (RuntimeErr e))"
| "stream_structured_text env json_ok stops m (ItemOther # items) st = stream_structured_text env json_ok stops m items st"
| "stream_structured_text env json_ok stops m (ItemTokens toks # items) st =
     (case structured_tokens env json_ok stops m toks st of
        (evs, st1, True) \<Rightarrow> (case structured_finish json_ok m st1 of (evs', st') \<Rightarrow> (evs @ evs', Complete st'))
      | (evs, st1, False) \<Rightarrow> (case stream_structured_text env json_ok stops m items st1 of (evs', out) \<Rightarrow> (evs @ evs', out)))"

text \<open>\<open>parse_generation\<close> of a generation with \<open>parsed_output\<close>: the accumulated fields.\<close>

definition parse_generation :: "'t structured \<Rightarrow> string option \<times> string option \<times> (string \<times> (string \<times> arg_value) list) list" where
  "parse_generation st =
     (let content = concat (ss_content_parts st)
      in (if content = [] then None else Some content, g_reasoning (ss_gen st), ss_tool_calls st))"

subsection \<open>The text that is read\<close>

text \<open>
  The reference: decode item by item and search the whole text for a stop string. The loop above only searches
  the part it has not yet handed to the parser.
\<close>

fun read_text :: "('t, char) text_env \<Rightarrow> string list \<Rightarrow> int \<Rightarrow> ('t, char) generation \<Rightarrow> string \<Rightarrow> 't item list \<Rightarrow> string option" where
  "read_text env stops m gen tx [] = None"
| "read_text env stops m gen tx (ItemEnd # items) = Some tx"
| "read_text env stops m gen tx (ItemError e # items) = None"
| "read_text env stops m gen tx (ItemOther # items) = read_text env stops m gen tx items"
| "read_text env stops m gen tx (ItemTokens toks # items) =
     (if m - py_len (g_token_ids gen) \<le> 0 then read_text env stops m gen tx items
      else (case incremental_detokenize env
                   (gen\<lparr>g_token_ids := g_token_ids gen @ take (nat (m - py_len (g_token_ids gen))) toks\<rparr>) of
              (delta, gen') \<Rightarrow> if occurs stops (tx @ delta) then Some (tx @ delta) else read_text env stops m gen' (tx @ delta) items))"

definition before_stop :: "string list \<Rightarrow> string \<Rightarrow> string" where
  "before_stop stops tx = (case earliest_stop tx stops of None \<Rightarrow> tx | Some i \<Rightarrow> take i tx)"

subsection \<open>What has been said\<close>

definition heard :: "'t structured \<Rightarrow> observation" where
  "heard st = (case g_reasoning (ss_gen st) of None \<Rightarrow> [] | Some r \<Rightarrow> r, concat (ss_content_parts st), ss_tool_calls st)"

text \<open>The text of the yields, per channel.\<close>

definition reasoning_yields :: "char event list \<Rightarrow> string" where
  "reasoning_yields evs = concat (map fst (filter snd evs))"

definition content_yields :: "char event list \<Rightarrow> string" where
  "content_yields evs = concat (map fst (filter (\<lambda>ev. \<not> snd ev) evs))"

lemma yields_append [simp]:
  "reasoning_yields (a @ b) = reasoning_yields a @ reasoning_yields b" "content_yields (a @ b) = content_yields a @ content_yields b"
  by (simp_all add: reasoning_yields_def content_yields_def)

lemma of_append [simp]:
  "reasoning_of (a @ b) = reasoning_of a @ reasoning_of b" "content_of (a @ b) = content_of a @ content_of b"
  by (simp_all add: reasoning_of_def content_of_def)

definition offsets :: "('t, 'c) generation \<Rightarrow> 't list \<times> nat \<times> nat" where
  "offsets gen = (g_token_ids gen, g_prefix_offset gen, g_read_offset gen)"

text \<open>\<open>delivered ds evs st st'\<close>: going from \<open>st\<close> to \<open>st'\<close> the deltas \<open>ds\<close> were added to the generation and yielded.\<close>

definition delivered :: "delta list \<Rightarrow> char event list \<Rightarrow> 't structured \<Rightarrow> 't structured \<Rightarrow> bool" where
  "delivered ds evs st st' \<longleftrightarrow>
     heard st' = ocat (heard st) (obs ds) \<and> reasoning_yields evs = reasoning_of ds \<and> content_yields evs = content_of ds \<and>
     (ReasoningDelta [] \<notin> set ds \<longrightarrow> g_reasoning (ss_gen st) \<noteq> Some [] \<longrightarrow> g_reasoning (ss_gen st') \<noteq> Some [])"

lemma delivered_append:
  "delivered ds evs st st1 \<Longrightarrow> delivered ds' evs' st1 st' \<Longrightarrow> delivered (ds @ ds') (evs @ evs') st st'"
  by (auto simp: delivered_def obs_append ocat_assoc)

lemma apply_delta_delivered:
  assumes "apply_parsed_delta p st = (evs, st')"
  shows "delivered [p] evs st st'" "offsets (ss_gen st') = offsets (ss_gen st)" "ss_pending st' = ss_pending st" "ss_parser st' = ss_parser st"
  using assms
  by (auto simp: apply_parsed_delta_def delivered_def heard_def obs_def ocat_def reasoning_of_def content_of_def calls_of_def
      add_reasoning_def reasoning_yields_def content_yields_def offsets_def split: delta.splits option.splits)

lemma apply_delivered:
  assumes "apply_parsed ps st = (evs, st')"
  shows "delivered ps evs st st' \<and> offsets (ss_gen st') = offsets (ss_gen st) \<and> ss_pending st' = ss_pending st \<and> ss_parser st' = ss_parser st"
  using assms
proof (induction ps arbitrary: st evs)
  case Nil
  then show ?case
    by (simp add: delivered_def heard_def obs_def ocat_def reasoning_of_def content_of_def calls_of_def reasoning_yields_def content_yields_def)
next
  case (Cons p ps)
  obtain e1 s1 e2 where s: "apply_parsed_delta p st = (e1, s1)" "apply_parsed ps s1 = (e2, st')" "evs = e1 @ e2"
    using Cons.prems by (auto split: prod.splits)
  note d = apply_delta_delivered [OF s(1)] and IH = Cons.IH [OF s(2)]
  have "delivered ([p] @ ps) (e1 @ e2) st st'" using d(1) IH by (intro delivered_append) auto
  then show ?case using d IH s(3) by simp
qed

text \<open>The parser never reports an empty reasoning text.\<close>

lemma text_out_nonempty: "ReasoningDelta [] \<notin> set (fst (text_out tx st))"
  by (simp add: text_out_def)

lemma step_nonempty:
  assumes "k3_step json_ok st = (evs, st', pr)"
  shows "ReasoningDelta [] \<notin> set evs"
proof -
  have out: "text_out tx s = (e, s') \<Longrightarrow> ReasoningDelta [] \<notin> set e" for tx s e s' using text_out_nonempty [of tx s] by simp
  have head: "header_step m h s = (e, s') \<Longrightarrow> ReasoningDelta [] \<notin> set e" for m h s e s'
    by (cases "split_header h") (auto simp: header_step_def Let_def split: if_splits)
  consider "k3_state st = Done" | "k3_state st = Argument" | "k3_state st \<in> {Tools, Call}" | "k3_state st \<notin> {Done, Argument, Tools, Call}" by blast
  then show ?thesis
  proof cases
    case 3
    then have "container_step st = (evs, st', pr)" using assms by (auto simp: k3_step_def)
    then show ?thesis by (auto simp: container_step_def Let_def dest: head split: option.splits if_splits prod.splits)
  next
    case 4
    then have "channel_step st = (evs, st', pr)" using assms by (auto simp: k3_step_def)
    then show ?thesis by (auto simp: channel_step_def Let_def dest: out split: option.splits if_splits prod.splits)
  qed (use assms in \<open>auto simp: k3_step_def argument_step_def Let_def split: option.splits\<close>)
qed

lemma feed_loop_nonempty: "ReasoningDelta [] \<notin> set (fst (feed_loop json_ok st))"
proof (induction json_ok st rule: feed_loop.induct)
  case (1 json_ok st)
  obtain evs st' pr where s: "k3_step json_ok st = (evs, st', pr)" by (cases "k3_step json_ok st")
  then show ?case
    using "1.IH" [OF _ s [symmetric] refl] step_nonempty [OF s] by (subst feed_loop.simps) (auto split: prod.splits bool.splits)
qed

lemma finish_nonempty: "ReasoningDelta [] \<notin> set (fst (finish st))"
  using text_out_nonempty [of "k3_pending st" st] by (auto simp: finish_def split: prod.splits)

lemma feeds_nonempty: "ReasoningDelta [] \<notin> set (feeds json_ok ds st)"
  by (induction ds arbitrary: st) (use feed_loop_nonempty in \<open>auto simp: finish_nonempty feed_def split: prod.splits dest: arg_cong [of _ _ fst]\<close>)

subsection \<open>Searching a window finds what searching the text finds\<close>

lemma earliest_stop_eqI:
  assumes "s \<in> set ss" "prefix s (drop i tx)" "i \<le> length tx" "\<And>s j. s \<in> set ss \<Longrightarrow> prefix s (drop j tx) \<Longrightarrow> i \<le> j"
  shows "earliest_stop tx ss = Some i"
proof -
  have "occurs ss tx" using assms(1-3) sublist_at unfolding occurs_def by blast
  then obtain k where k: "earliest_stop tx ss = Some k" using earliest_stop_None [of tx ss] by (cases "earliest_stop tx ss") auto
  then obtain s' where "s' \<in> set ss" "prefix s' (drop k tx)" using earliest_stop_spec [of tx ss] by blast
  then have "i \<le> k" by (rule assms(4))
  then show ?thesis using earliest_stop_Some(3) [OF k assms(1,2)] k by simp
qed

lemma window_search:
  assumes "safe 0 (length F) (F @ p) ss" "[] \<notin> set ss"
  shows "earliest_stop (F @ p) ss = map_option ((+) (length F)) (earliest_stop p ss)"
proof (cases "earliest_stop p ss")
  case None
  have "\<not> occurs ss (F @ p)"
  proof
    assume "occurs ss (F @ p)"
    then obtain s i where s: "s \<in> set ss" "i \<le> length (F @ p)" "prefix s (drop i (F @ p))" unfolding occurs_def sublist_at by blast
    then have "length F \<le> i" using assms(1) unfolding safe_def by (metis append_Nil2 not_less_zero)
    then have "i - length F \<le> length p" "prefix s (drop (i - length F) p)" using s(2,3) by auto
    then have "occurs ss p" using s(1) sublist_at unfolding occurs_def by blast
    then show False using None earliest_stop_None [of p ss] by simp
  qed
  then show ?thesis using None earliest_stop_None [of "F @ p" ss] by simp
next
  case (Some i)
  note n = earliest_stop_Some [OF Some]
  obtain s where s: "s \<in> set ss" "prefix s (drop i p)" using Some earliest_stop_spec [of p ss] by blast
  have "earliest_stop (F @ p) ss = Some (length F + i)"
  proof (rule earliest_stop_eqI [OF s(1)])
    fix s' j assume s': "s' \<in> set ss" "prefix s' (drop j (F @ p))"
    then have j: "length F \<le> j" using assms(1) unfolding safe_def by (metis append_Nil2 not_less_zero)
    then show "length F + i \<le> j" using n(3) [OF s'(1), of "j - length F"] s'(2) by simp
  qed (use s(2) n(1) in auto)
  then show ?thesis using Some by simp
qed

lemma window_moves:
  assumes "safe 0 (length F) (F @ p) ss" "\<not> occurs ss p" "[] \<notin> set ss" "n = length p - partial_stop_holdback p ss"
  shows "safe 0 (length (F @ take n p)) ((F @ take n p) @ drop n p) ss"
  unfolding safe_def
proof (intro allI ballI impI)
  fix d s i assume s: "s \<in> set ss" and "prefix s (drop i (((F @ take n p) @ drop n p) @ d))"
  then have at: "prefix s (drop i ((F @ p) @ d))" by (metis append_assoc append_take_drop_id)
  then have F: "length F \<le> i" using assms(1) s unfolding safe_def by blast
  then have "prefix s (drop (i - length F) (p @ d))" using at by simp
  moreover have "safe 0 n p ss" unfolding assms(4) by (rule holdback_safe [OF assms(2,3)])
  ultimately have "n \<le> i - length F" using s unfolding safe_def by blast
  then show "i < 0 \<or> length (F @ take n p) \<le> i" using F by simp
qed

lemma detokenize_offsets:
  assumes "offsets gen = offsets gen'"
  shows "fst (incremental_detokenize env gen) = fst (incremental_detokenize env gen') \<and>
    offsets (snd (incremental_detokenize env gen)) = offsets (snd (incremental_detokenize env gen'))"
  using assms by (auto simp: incremental_detokenize_def offsets_def Let_def)

lemma read_text_offsets:
  "offsets gen = offsets gen' \<Longrightarrow> read_text env stops m gen tx items = read_text env stops m gen' tx items"
proof (induction items arbitrary: gen gen' tx)
  case (Cons it items)
  show ?case
  proof (cases it)
    case (ItemTokens toks)
    have ids: "g_token_ids gen = g_token_ids gen'" using Cons.prems by (simp add: offsets_def)
    let ?g = "\<lambda>gen. gen\<lparr>g_token_ids := g_token_ids gen @ take (nat (m - py_len (g_token_ids gen))) toks\<rparr>"
    obtain d g1 d' g2 where g: "incremental_detokenize env (?g gen) = (d, g1)" "incremental_detokenize env (?g gen') = (d', g2)"
      by (cases "incremental_detokenize env (?g gen)"; cases "incremental_detokenize env (?g gen')")
    have "d = d' \<and> offsets g1 = offsets g2" using detokenize_offsets [of "?g gen" "?g gen'" env] Cons.prems g by (simp add: offsets_def)
    then show ?thesis using ItemTokens Cons.IH [OF Cons.prems] Cons.IH [of g1 g2] g ids by simp
  qed (simp_all add: Cons.IH [OF Cons.prems])
qed simp

subsection \<open>The stream is one parse\<close>

lemma structured_window_eq:
  assumes "structured_window json_ok stops st = (evs, st1, fin)" "p = ss_pending st"
    and "n = (case earliest_stop p stops of Some i \<Rightarrow> i | None \<Rightarrow> length p - partial_stop_holdback p stops)"
  obtains deltas parser where "feed json_ok (take n p) (ss_parser st) = (deltas, parser)" "delivered deltas evs st st1"
    "ss_parser st1 = parser" "offsets (ss_gen st1) = offsets (ss_gen st)" "fin \<longleftrightarrow> earliest_stop p stops \<noteq> None"
    "ss_pending st1 = (if fin then [] else drop n p)"
proof -
  have cut: "(if stops = [] then None else earliest_stop p stops) = earliest_stop p stops" by simp
  obtain deltas parser where f: "feed json_ok (take n p) (ss_parser st) = (deltas, parser)" by (cases "feed json_ok (take n p) (ss_parser st)")
  obtain e s where a: "apply_parsed deltas (st\<lparr>ss_parser := parser\<rparr>) = (e, s)" by (cases "apply_parsed deltas (st\<lparr>ss_parser := parser\<rparr>)")
  have d: "delivered deltas e st s" "offsets (ss_gen s) = offsets (ss_gen st)" "ss_parser s = parser"
    using apply_delivered [OF a] by (simp_all add: delivered_def heard_def)
  have "(evs, st1, fin) = (if earliest_stop p stops = None then (e, s\<lparr>ss_pending := drop n p\<rparr>, False)
      else (e, s\<lparr>ss_pending := [], ss_stopped := True\<rparr>, True))"
    using assms(1) unfolding structured_window_def Let_def assms(2) [symmetric] cut assms(3) [symmetric] by (simp add: f a)
  then have "delivered deltas evs st st1 \<and> ss_parser st1 = parser \<and> offsets (ss_gen st1) = offsets (ss_gen st) \<and>
      (fin \<longleftrightarrow> earliest_stop p stops \<noteq> None) \<and> ss_pending st1 = (if fin then [] else drop n p)"
    using d by (auto simp: delivered_def heard_def split: if_splits)
  then show ?thesis using that [OF f] by blast
qed

lemma structured_finish_delivered:
  assumes "structured_finish json_ok m st = (evs, st')"
  shows "delivered (feeds json_ok [ss_pending st] (ss_parser st)) evs st st'"
proof -
  obtain deltas parser where f: "feed json_ok (ss_pending st) (ss_parser st) = (deltas, parser)" by (cases "feed json_ok (ss_pending st) (ss_parser st)")
  obtain ld parser' where g: "finish parser = (ld, parser')" by (cases "finish parser")
  obtain e s where a: "apply_parsed (deltas @ ld) (st\<lparr>ss_parser := parser'\<rparr>) = (e, s)"
    by (cases "apply_parsed (deltas @ ld) (st\<lparr>ss_parser := parser'\<rparr>)")
  have "delivered (deltas @ ld) e st s" using apply_delivered [OF a] by (simp add: delivered_def heard_def)
  moreover have "evs = e @ [([], g_in_reasoning (ss_gen s))]" "heard st' = heard s" "g_reasoning (ss_gen st') = g_reasoning (ss_gen s)"
    using assms by (auto simp: structured_finish_def f g a Let_def heard_def)
  ultimately show ?thesis using f g by (simp add: delivered_def reasoning_yields_def content_yields_def)
qed

lemma detokenize_reasoning: "incremental_detokenize env gen = (d, gen') \<Longrightarrow> g_reasoning gen' = g_reasoning gen"
  by (auto simp: incremental_detokenize_def Let_def split: if_splits)

lemma stream_is_parse:
  assumes stops: "[] \<notin> set stops"
  shows "read_text env stops m (ss_gen st) (F @ ss_pending st) items = Some T \<Longrightarrow>
    safe 0 (length F) (F @ ss_pending st) stops \<Longrightarrow> \<not> occurs stops (F @ ss_pending st) \<Longrightarrow>
    \<exists>evs st' d ds. stream_structured_text env json_ok stops m items st = (evs, Complete st') \<and> F @ concat (d # ds) = before_stop stops T \<and>
      delivered (feeds json_ok (d # ds) (ss_parser st)) evs st st'"
proof (induction items arbitrary: st F)
  case (Cons it items)
  show ?case
  proof (cases it)
    case ItemEnd
    obtain evs st' where fin: "structured_finish json_ok m st = (evs, st')" by (cases "structured_finish json_ok m st")
    have "before_stop stops T = F @ ss_pending st" using Cons.prems(1,3) ItemEnd by (simp add: before_stop_def earliest_stop_None [THEN iffD2])
    then show ?thesis
      using ItemEnd fin structured_finish_delivered [OF fin]
      by (intro exI [of _ evs] exI [of _ st'] exI [of _ "ss_pending st"] exI [of _ "[]"]) (simp del: feeds.simps)
  next
    case (ItemTokens toks)
    let ?rem = "m - py_len (g_token_ids (ss_gen st))"
    show ?thesis
    proof (cases "?rem \<le> 0")
      case True
      then have "stream_structured_text env json_ok stops m (it # items) st = stream_structured_text env json_ok stops m items st"
        using ItemTokens by (simp add: structured_tokens_def split: prod.splits)
      then show ?thesis using Cons.IH [OF _ Cons.prems(2,3)] Cons.prems(1) ItemTokens True by simp
    next
      case False
      obtain delta gen where dt: "incremental_detokenize env ((ss_gen st)\<lparr>g_token_ids := g_token_ids (ss_gen st) @ take (nat ?rem) toks\<rparr>) = (delta, gen)"
        by fastforce
      define st0 where "st0 = st\<lparr>ss_gen := gen, ss_pending := ss_pending st @ delta\<rparr>"
      define p where "p = ss_pending st0"
      define n where "n = (case earliest_stop p stops of Some i \<Rightarrow> i | None \<Rightarrow> length p - partial_stop_holdback p stops)"
      obtain e1 st1 fin where w: "structured_window json_ok stops st0 = (e1, st1, fin)" by (cases "structured_window json_ok stops st0")
      obtain deltas parser where f: "feed json_ok (take n p) (ss_parser st0) = (deltas, parser)" "delivered deltas e1 st0 st1" "ss_parser st1 = parser"
          "offsets (ss_gen st1) = offsets (ss_gen st0)" "fin \<longleftrightarrow> earliest_stop p stops \<noteq> None" "ss_pending st1 = (if fin then [] else drop n p)"
        by (rule structured_window_eq [OF w p_def n_def])
      have same: "ss_parser st0 = ss_parser st" "delivered X e st0 s \<longleftrightarrow> delivered X e st s" for X e s
        using detokenize_reasoning [OF dt] by (simp_all add: st0_def delivered_def heard_def)
      have p: "F @ p = (F @ ss_pending st) @ delta" by (simp add: p_def st0_def)
      have safe: "safe 0 (length F) (F @ p) stops" unfolding p by (rule safe_extend [OF Cons.prems(2)])
      note search = window_search [OF safe stops]
      have occ: "occurs stops (F @ p) \<longleftrightarrow> fin" using search f(5) earliest_stop_None [of "F @ p" stops] by auto
      have read: "(if fin then Some (F @ p) else read_text env stops m gen (F @ p) items) = Some T"
        using Cons.prems(1) ItemTokens False dt occ unfolding p by (auto split: if_splits)
      have tokens: "structured_tokens env json_ok stops m toks st = (e1, st1, fin)" using False dt w by (simp add: structured_tokens_def st0_def)
      show ?thesis
      proof (cases fin)
        case True
        obtain e2 st' where fin2: "structured_finish json_ok m st1 = (e2, st')" by (cases "structured_finish json_ok m st1")
        have "delivered (deltas @ feeds json_ok [[]] parser) (e1 @ e2) st st'"
          using delivered_append [OF f(2) structured_finish_delivered [OF fin2]] f(3,6) True same by simp
        moreover have "feeds json_ok [take n p, []] (ss_parser st) = deltas @ feeds json_ok [[]] parser" using f(1) same by simp
        moreover have "F @ concat [take n p, []] = before_stop stops T" using search True f(5) read by (auto simp: before_stop_def n_def)
        moreover have "stream_structured_text env json_ok stops m (it # items) st = (e1 @ e2, Complete st')"
          using ItemTokens tokens True fin2 by simp
        ultimately show ?thesis
          by (intro exI [of _ "e1 @ e2"] exI [of _ st'] exI [of _ "take n p"] exI [of _ "[[]]"]) simp
      next
        case no: False
        have n: "n = length p - partial_stop_holdback p stops" using no f(5) by (simp add: n_def)
        have p1: "(F @ take n p) @ ss_pending st1 = F @ p" using f(6) no by simp
        have "\<not> occurs stops p" using no f(5) by (simp add: earliest_stop_None)
        then have "safe 0 (length (F @ take n p)) ((F @ take n p) @ ss_pending st1) stops"
          using window_moves [OF safe _ stops n] f(6) no by simp
        moreover have "\<not> occurs stops ((F @ take n p) @ ss_pending st1)" using occ no unfolding p1 by simp
        moreover have "read_text env stops m (ss_gen st1) (F @ p) items = Some T"
          using read no read_text_offsets [of gen "ss_gen st1"] f(4) by (simp add: st0_def)
        ultimately obtain e2 st' d ds where T: "stream_structured_text env json_ok stops m items st1 = (e2, Complete st')"
            "(F @ take n p) @ concat (d # ds) = before_stop stops T" "delivered (feeds json_ok (d # ds) (ss_parser st1)) e2 st1 st'"
          using Cons.IH [of st1 "F @ take n p"] unfolding p1 by blast
        have "stream_structured_text env json_ok stops m (it # items) st = (e1 @ e2, Complete st')"
          using ItemTokens tokens no T(1) by simp
        moreover have "delivered (feeds json_ok (take n p # d # ds) (ss_parser st)) (e1 @ e2) st st'"
          using delivered_append [OF f(2) T(3)] f(1,3) same by simp
        ultimately show ?thesis using T(2)
          by (intro exI [of _ "e1 @ e2"] exI [of _ st'] exI [of _ "take n p"] exI [of _ "d # ds"]) (simp del: feeds.simps)
      qed
    qed
  qed (use Cons in auto)
qed simp

lemma parse_feeds:
  "parse_full json_ok tx =
    (let evs = feeds json_ok [tx] (new_parser (opens_thinking tx)); some = (\<lambda>x. if x = [] then None else Some x)
     in (some (content_of evs), some (reasoning_of evs), calls_of evs))"
  by (simp add: parse_full_def Let_def split: prod.splits)

text \<open>C12: A streamed K3 completion equals one parse. When the items of the queue reach an end or a stop string (the
  reference \<open>read_text\<close> decodes them up to the token limit and searches the whole text), the stream completes, and
  content, reasoning and tool calls of the generation are those \<open>parse_full\<close> gives for the text before the
  earliest stop string. The yields of each channel add up to the same texts. So neither the cutting into tokens, nor
  the sliding window of the stop search, nor the parser's buffering changes the answer. The conditions: no empty stop
  string, at most one think tag, and a prompt that opened the reasoning exactly when the text closes it first.\<close>

theorem k3_stream_is_one_parse:
  fixes env :: "('t, char) text_env"
  assumes "[] \<notin> set stops"
    and "read_text env stops m new_generation [] items = Some T"
    and "tag_once reasoning_open (before_stop stops T)" "opens_thinking (before_stop stops T) = reasoning_open"
  shows "\<exists>evs st. stream_structured_text env json_ok stops m items (new_structured reasoning_open) = (evs, Complete st) \<and>
    parse_generation st = parse_full json_ok (before_stop stops T) \<and>
    content_yields evs = (case fst (parse_full json_ok (before_stop stops T)) of None \<Rightarrow> [] | Some c \<Rightarrow> c) \<and>
    reasoning_yields evs = (case fst (snd (parse_full json_ok (before_stop stops T))) of None \<Rightarrow> [] | Some r \<Rightarrow> r)"
proof -
  let ?st = "new_structured reasoning_open :: 't structured" and ?p = "new_parser reasoning_open"
  have st: "ss_pending ?st = []" "ss_gen ?st = new_generation" "ss_parser ?st = ?p" by (simp_all add: new_structured_def)
  have "\<not> occurs stops []" using assms(1) by (auto simp: occurs_def)
  then obtain evs st d ds where T: "stream_structured_text env json_ok stops m items ?st = (evs, Complete st)" "concat (d # ds) = before_stop stops T"
      "delivered (feeds json_ok (d # ds) ?p) evs ?st st"
    using stream_is_parse [OF assms(1), of env m ?st "[]" items T json_ok] assms(2) st by auto
  define B where "B = before_stop stops T"
  have hyp: "tag_once reasoning_open (concat (d # ds))" "opens_thinking B = reasoning_open" using assms(3,4) T(2) by (simp_all add: B_def)
  have inv: "reasoning_of (feeds json_ok (d # ds) ?p) = reasoning_of (feeds json_ok [B] ?p)"
      "content_of (feeds json_ok (d # ds) ?p) = content_of (feeds json_ok [B] ?p)"
      "calls_of (feeds json_ok (d # ds) ?p) = calls_of (feeds json_ok [B] ?p)"
    using chunk_invariance [OF hyp(1), of json_ok] T(2) unfolding obs_def B_def by simp_all
  have new: "heard ?st = obs []" "g_reasoning (ss_gen ?st) = None"
    by (simp_all add: new_structured_def new_generation_def heard_def obs_def reasoning_of_def content_of_def calls_of_def)
  have heard: "heard st = obs (feeds json_ok [B] ?p)" "g_reasoning (ss_gen st) \<noteq> Some []"
    "content_yields evs = content_of (feeds json_ok [B] ?p)" "reasoning_yields evs = reasoning_of (feeds json_ok [B] ?p)"
    using T(3) feeds_nonempty [of json_ok "d # ds" ?p] new inv unfolding delivered_def obs_def by (simp_all add: obs_Nil [unfolded obs_def] del: feeds.simps)
  have "parse_generation st = parse_full json_ok B"
    using heard(1,2) hyp(2) unfolding parse_feeds Let_def parse_generation_def heard_def obs_def
    by (auto simp del: feeds.simps split: option.splits)
  then show ?thesis using T(1) heard(3,4) hyp(2) unfolding B_def [symmetric] parse_feeds Let_def
    by (intro exI [of _ evs] exI [of _ st]) (simp add: B_def [symmetric] del: feeds.simps)
qed

definition sample_items :: "char item list" where
  "sample_items = [ItemTokens ''<|open|>thi'', ItemTokens ''nk<|sep|>why<|close|>think<|se'', ItemOther,
     ItemTokens ''p|><|open|>response<|sep|>a ST'', ItemTokens ''OP b'', ItemEnd]"

theorem k3_stream_is_one_parse_witness:
  "\<exists>evs st. stream_structured_text char_env (\<lambda>_. False) [''STOP''] 200 sample_items (new_structured False) = (evs, Complete st) \<and>
     parse_generation st = (Some ''a '', Some ''why'', []) \<and> content_yields evs = ''a '' \<and> reasoning_yields evs = ''why''"
proof -
  define B where "B = ''<|open|>think<|sep|>why<|close|>think<|sep|><|open|>response<|sep|>a ''"
  define T where "T = ''<|open|>think<|sep|>why<|close|>think<|sep|><|open|>response<|sep|>a STOP b''"
  have r: "read_text char_env [''STOP''] 200 new_generation [] sample_items = Some T" unfolding T_def by code_simp
  have b: "before_stop [''STOP''] T = B" unfolding T_def B_def by code_simp
  have t: "tag_once False B" "opens_thinking B = False" unfolding B_def by code_simp+
  have p: "parse_full (\<lambda>_. False) B = (Some ''a '', Some ''why'', [])" unfolding B_def by code_simp
  show ?thesis using k3_stream_is_one_parse [of "[''STOP'']", OF _ r, of False "\<lambda>_. False", unfolded b p] t by simp
qed

end
