(* ===== verification/Microbatch.thy ===== *)
theory Microbatch
  imports Prelude Complex_Main
begin

section \<open>Prefill microbatches (\<open>rust/src/proto/wire.rs\<close>)\<close>

text \<open>
  A scheduled prefill batch is cut into ragged microbatches of at most \<open>max_tokens\<close> tokens before it enters the
  pipeline. The theory models the packing, row by row, and shows that no token is lost, moved to another request
  or reordered, and that each request ends in exactly one final fragment. Serialised bytes stand for the batch
  they encode.
\<close>

subsection \<open>Batches\<close>

record wire_batch =
  wb_is_prefill :: bool
  wb_input_ids :: "int list"
  wb_positions :: "int list"
  wb_seq_lens :: "int list"
  wb_block_tables :: "int list list"
  wb_temperatures :: "real list"
  wb_state_slots :: "int list"
  wb_compressed_block_tables :: "(int \<times> int list list) list"
  wb_hisparse_slots :: "int list"
  wb_seq_ids :: "nat list"
  wb_sample_mask :: "bool list"
  wb_any_return_completion_logprobs :: bool
  wb_is_dummy :: bool

definition empty_batch :: "bool \<Rightarrow> wire_batch" where
  "empty_batch is_prefill =
     \<lparr>wb_is_prefill = is_prefill, wb_input_ids = [], wb_positions = [], wb_seq_lens = [], wb_block_tables = [],
      wb_temperatures = [], wb_state_slots = [], wb_compressed_block_tables = [], wb_hisparse_slots = [], wb_seq_ids = [],
      wb_sample_mask = [], wb_any_return_completion_logprobs = False, wb_is_dummy = False\<rparr>"

definition dummy_batch :: "bool \<Rightarrow> wire_batch" where
  "dummy_batch is_prefill =
     \<lparr>wb_is_prefill = is_prefill, wb_input_ids = [0], wb_positions = [0], wb_seq_lens = [1], wb_block_tables = [[]],
      wb_temperatures = [0], wb_state_slots = [- 1], wb_compressed_block_tables = [], wb_hisparse_slots = [- 1], wb_seq_ids = [0],
      wb_sample_mask = [True], wb_any_return_completion_logprobs = False, wb_is_dummy = True\<rparr>"

text \<open>\<open>v.get(i).cloned().unwrap_or(d)\<close>, and \<open>v[a..b]\<close> for bounds within the vector.\<close>

definition get_or :: "'a list \<Rightarrow> nat \<Rightarrow> 'a \<Rightarrow> 'a" where
  "get_or xs i d = (if i < length xs then xs ! i else d)"

definition subvec :: "nat \<Rightarrow> nat \<Rightarrow> 'a list \<Rightarrow> 'a list" where
  "subvec a b xs = take (b - a) (drop a xs)"

definition make_microbatch :: "wire_batch \<Rightarrow> wire_batch" where
  "make_microbatch batch =
     (empty_batch True)\<lparr>wb_any_return_completion_logprobs := wb_any_return_completion_logprobs batch,
        wb_compressed_block_tables := map (\<lambda>(ratio, _). (ratio, [])) (wb_compressed_block_tables batch)\<rparr>"

text \<open>Push the tokens \<open>a..b\<close> of request \<open>s\<close> as one row. Both maps have the same keys.\<close>

definition push_fragment :: "wire_batch \<Rightarrow> nat \<Rightarrow> nat \<Rightarrow> nat \<Rightarrow> bool \<Rightarrow> wire_batch \<Rightarrow> wire_batch" where
  "push_fragment batch s a b is_last mb =
     mb\<lparr>wb_input_ids := wb_input_ids mb @ subvec a b (wb_input_ids batch),
        wb_positions := wb_positions mb @ subvec a b (wb_positions batch),
        wb_seq_lens := wb_seq_lens mb @ [int (b - a)],
        wb_block_tables := wb_block_tables mb @ [get_or (wb_block_tables batch) s []],
        wb_temperatures := wb_temperatures mb @ [get_or (wb_temperatures batch) s 0],
        wb_state_slots := wb_state_slots mb @ [get_or (wb_state_slots batch) s (- 1)],
        wb_compressed_block_tables :=
          map (\<lambda>((ratio, packed), rows). (ratio, packed @ [get_or rows s []]))
            (zip (wb_compressed_block_tables mb) (map snd (wb_compressed_block_tables batch))),
        wb_hisparse_slots := wb_hisparse_slots mb @ [get_or (wb_hisparse_slots batch) s (- 1)],
        wb_seq_ids := wb_seq_ids mb @ [get_or (wb_seq_ids batch) s 0],
        wb_sample_mask := wb_sample_mask mb @ [is_last \<and> get_or (wb_sample_mask batch) s True]\<rparr>"

subsection \<open>Packing\<close>

type_synonym fragment_metadata = "(nat \<times> bool) list"
type_synonym packed = "(wire_batch \<times> fragment_metadata) list"

text \<open>
  The loop over one request: finished microbatches, the one being filled and its metadata. The caller has
  excluded \<open>max_tokens = 0\<close>.
\<close>

function pack_seq ::
  "wire_batch \<Rightarrow> nat \<Rightarrow> nat \<Rightarrow> nat \<Rightarrow> nat \<Rightarrow> packed \<Rightarrow> wire_batch \<Rightarrow> fragment_metadata \<Rightarrow> packed \<times> wire_batch \<times> fragment_metadata" where
  "pack_seq batch M s seq_end start res mb md =
     (if start < seq_end \<and> 0 < M
      then (let remaining = M - length (wb_input_ids mb)
            in if remaining = 0 then pack_seq batch M s seq_end start (res @ [(mb, md)]) (make_microbatch batch) []
               else (let fragment_end = min (start + remaining) seq_end;
                         is_last = (fragment_end = seq_end);
                         mb' = push_fragment batch s start fragment_end is_last mb;
                         md' = md @ [(s, is_last)]
                     in if length (wb_input_ids mb') = M
                        then pack_seq batch M s seq_end fragment_end (res @ [(mb', md')]) (make_microbatch batch) []
                        else pack_seq batch M s seq_end fragment_end res mb' md'))
      else (res, mb, md))"
  by pat_completeness auto
termination
  by (relation "measures [\<lambda>(batch, M, s, seq_end, start, res, mb, md). seq_end - start,
        \<lambda>(batch, M, s, seq_end, start, res, mb, md). if length (wb_input_ids mb) < M then 0 else 1]")
    (auto simp: make_microbatch_def empty_batch_def)

declare pack_seq.simps [simp del]

fun pack_seqs ::
  "wire_batch \<Rightarrow> nat \<Rightarrow> nat \<Rightarrow> int list \<Rightarrow> nat \<Rightarrow> packed \<Rightarrow> wire_batch \<Rightarrow> fragment_metadata \<Rightarrow> packed \<times> wire_batch \<times> fragment_metadata" where
  "pack_seqs batch M s [] offset res mb md = (res, mb, md)"
| "pack_seqs batch M s (seq_len # lens) offset res mb md =
     (if nat seq_len = 0 then pack_seqs batch M (Suc s) lens offset res mb md
      else (case pack_seq batch M s (offset + nat seq_len) offset res mb md of
              (res', mb', md') \<Rightarrow> pack_seqs batch M (Suc s) lens (offset + nat seq_len) res' mb' md'))"

text \<open>
  A slice that ends behind the tokens or the positions panics; the largest end that is sliced is the sum of the
  lengths.
\<close>

definition prefill_microbatches :: "nat \<Rightarrow> wire_batch \<Rightarrow> packed res" where
  "prefill_microbatches max_tokens batch =
     (if \<not> wb_is_prefill batch \<or> wb_is_dummy batch \<or> max_tokens = 0 \<or> wb_seq_lens batch = []
      then Inr [(batch, map (\<lambda>(s, _). (s, True)) (filter (\<lambda>(s, l). 0 < l) (zip [0..<length (wb_seq_lens batch)] (wb_seq_lens batch))))]
      else if length (wb_input_ids batch) < sum_list (map nat (wb_seq_lens batch)) \<or>
              length (wb_positions batch) < sum_list (map nat (wb_seq_lens batch))
      then Inl IndexError
      else (case pack_seqs batch max_tokens 0 (wb_seq_lens batch) 0 [] (make_microbatch batch) [] of
              (res, mb, md) \<Rightarrow>
                (let result = res @ (if wb_input_ids mb = [] then [] else [(mb, md)])
                 in Inr (if result = [] then [(batch, [])] else result))))"

subsection \<open>Rows\<close>

text \<open>The rows of a batch: the pairs of token and position, cut by the lengths.\<close>

fun ragged :: "nat list \<Rightarrow> 'a list \<Rightarrow> 'a list list" where
  "ragged [] xs = []"
| "ragged (n # ns) xs = take n xs # ragged ns (drop n xs)"

definition batch_rows :: "wire_batch \<Rightarrow> (int \<times> int) list list" where
  "batch_rows b = ragged (map nat (wb_seq_lens b)) (zip (wb_input_ids b) (wb_positions b))"

definition rows :: "wire_batch \<times> fragment_metadata \<Rightarrow> ((nat \<times> bool) \<times> (int \<times> int) list) list" where
  "rows bm = zip (snd bm) (batch_rows (fst bm))"

text \<open>
  \<open>fragments s toks F\<close>: the rows \<open>F\<close> are request \<open>s\<close>, cut into non-empty pieces; exactly the last one is final.
\<close>

definition fragments :: "nat \<Rightarrow> 'a list \<Rightarrow> ((nat \<times> bool) \<times> 'a list) list \<Rightarrow> bool" where
  "fragments s toks F \<longleftrightarrow>
     concat (map snd F) = toks \<and> list_all (\<lambda>r. fst (fst r) = s \<and> snd r \<noteq> []) F \<and>
     map (\<lambda>r. snd (fst r)) F = (if toks = [] then [] else replicate (length F - 1) False @ [True])"

text \<open>What a row of the microbatch takes over from the request it belongs to.\<close>

definition row_data :: "wire_batch \<Rightarrow> wire_batch \<times> fragment_metadata \<Rightarrow> bool" where
  "row_data batch bm \<longleftrightarrow>
     wb_block_tables (fst bm) = map (\<lambda>(s, _). get_or (wb_block_tables batch) s []) (snd bm) \<and>
     wb_temperatures (fst bm) = map (\<lambda>(s, _). get_or (wb_temperatures batch) s 0) (snd bm) \<and>
     wb_state_slots (fst bm) = map (\<lambda>(s, _). get_or (wb_state_slots batch) s (- 1)) (snd bm) \<and>
     wb_compressed_block_tables (fst bm) =
       map (\<lambda>(ratio, tables). (ratio, map (\<lambda>(s, _). get_or tables s []) (snd bm))) (wb_compressed_block_tables batch) \<and>
     wb_hisparse_slots (fst bm) = map (\<lambda>(s, _). get_or (wb_hisparse_slots batch) s (- 1)) (snd bm) \<and>
     wb_seq_ids (fst bm) = map (\<lambda>(s, _). get_or (wb_seq_ids batch) s 0) (snd bm) \<and>
     wb_sample_mask (fst bm) = map (\<lambda>(s, is_last). is_last \<and> get_or (wb_sample_mask batch) s True) (snd bm)"

definition batch_ok :: "wire_batch \<times> fragment_metadata \<Rightarrow> bool" where
  "batch_ok bm \<longleftrightarrow>
     length (wb_seq_lens (fst bm)) = length (snd bm) \<and> length (wb_positions (fst bm)) = length (wb_input_ids (fst bm)) \<and>
     sum_list (map nat (wb_seq_lens (fst bm))) = length (wb_input_ids (fst bm)) \<and> list_all (\<lambda>l. 0 < l) (wb_seq_lens (fst bm)) \<and>
     wb_is_prefill (fst bm) \<and> \<not> wb_is_dummy (fst bm)"

subsection \<open>One row\<close>

lemma ragged_snoc: "sum_list ns = length xs \<Longrightarrow> ragged (ns @ [n]) (xs @ ys) = ragged ns xs @ [take n ys]"
  by (induction ns arbitrary: xs) auto

lemma length_ragged [simp]: "length (ragged ns xs) = length ns"
  by (induction ns arbitrary: xs) auto

lemma subvec_zip: "subvec a b (zip xs ys) = zip (subvec a b xs) (subvec a b ys)"
  by (simp add: subvec_def take_zip drop_zip)

lemma length_subvec: "b \<le> length xs \<Longrightarrow> length (subvec a b xs) = b - a"
  by (simp add: subvec_def)

lemma subvec_append: "a \<le> b \<Longrightarrow> b \<le> c \<Longrightarrow> subvec a b xs @ subvec b c xs = subvec a c xs"
proof -
  assume "a \<le> b" "b \<le> c"
  then have "take (c - a) (drop a xs) = take (b - a) (drop a xs) @ take (c - b) (drop (b - a) (drop a xs))"
    by (subst take_add [symmetric]) simp
  then show ?thesis using \<open>a \<le> b\<close> by (simp add: subvec_def)
qed

lemma subvec_Nil [simp]: "b \<le> a \<Longrightarrow> subvec a b xs = []"
  by (simp add: subvec_def)

definition tokens :: "wire_batch \<Rightarrow> (int \<times> int) list" where
  "tokens batch = zip (wb_input_ids batch) (wb_positions batch)"

lemma make_microbatch_ok: "batch_ok (make_microbatch batch, [])" "row_data batch (make_microbatch batch, [])"
  "rows (make_microbatch batch, []) = []" "wb_input_ids (make_microbatch batch) = []"
  by (auto simp: batch_ok_def row_data_def rows_def make_microbatch_def empty_batch_def)

lemma push_ok:
  assumes "batch_ok (mb, md)" "row_data batch (mb, md)" "a < b" "b \<le> length (wb_input_ids batch)" "b \<le> length (wb_positions batch)"
  shows "batch_ok (push_fragment batch s a b l mb, md @ [(s, l)])" "row_data batch (push_fragment batch s a b l mb, md @ [(s, l)])"
    "rows (push_fragment batch s a b l mb, md @ [(s, l)]) = rows (mb, md) @ [((s, l), subvec a b (tokens batch))]"
    "length (wb_input_ids (push_fragment batch s a b l mb)) = length (wb_input_ids mb) + (b - a)"
proof -
  have len: "length (subvec a b (wb_input_ids batch)) = b - a" "length (subvec a b (wb_positions batch)) = b - a"
    using assms(4,5) by (simp_all add: length_subvec)
  show "length (wb_input_ids (push_fragment batch s a b l mb)) = length (wb_input_ids mb) + (b - a)"
    using len by (simp add: push_fragment_def)
  show "batch_ok (push_fragment batch s a b l mb, md @ [(s, l)])"
    using assms(1,3) len by (simp add: batch_ok_def push_fragment_def)
  have "map (\<lambda>((ratio, packed), r). (ratio, packed @ [get_or r s []]))
      (zip (map (\<lambda>(ratio, tables). (ratio, map (\<lambda>(s, _). get_or tables s []) md)) cs) (map snd cs)) =
      map (\<lambda>(ratio, tables). (ratio, map (\<lambda>(s, _). get_or tables s []) (md @ [(s, l)]))) cs" for cs :: "(int \<times> int list list) list"
    by (induction cs) auto
  then show "row_data batch (push_fragment batch s a b l mb, md @ [(s, l)])"
    using assms(2) by (simp add: row_data_def push_fragment_def)
  let ?ns = "map nat (wb_seq_lens mb)" and ?t = "zip (wb_input_ids mb) (wb_positions mb)"
  have "ragged (?ns @ [b - a]) (?t @ subvec a b (tokens batch)) = ragged ?ns ?t @ [subvec a b (tokens batch)]"
    using assms(1) len by (subst ragged_snoc) (simp_all add: batch_ok_def subvec_zip tokens_def)
  then show "rows (push_fragment batch s a b l mb, md @ [(s, l)]) = rows (mb, md) @ [((s, l), subvec a b (tokens batch))]"
    using assms(1) by (simp add: rows_def batch_rows_def push_fragment_def batch_ok_def subvec_zip tokens_def)
qed

lemma fragments_Nil: "fragments s [] []"
  by (simp add: fragments_def)

lemma fragments_Cons:
  assumes "fragments s rest F" "x \<noteq> []" "l \<longleftrightarrow> rest = []"
  shows "fragments s (x @ rest) (((s, l), x) # F)"
proof -
  have "rest \<noteq> [] \<Longrightarrow> F \<noteq> []" using assms(1) by (auto simp: fragments_def)
  then have "rest \<noteq> [] \<Longrightarrow> False # replicate (length F - Suc 0) False = replicate (length F) False"
    by (cases F) simp_all
  moreover have "rest = [] \<Longrightarrow> F = []" using assms(1) by (auto simp: fragments_def)
  ultimately show ?thesis using assms by (auto simp: fragments_def)
qed

subsection \<open>One request\<close>

text \<open>In one microbatch the requests are in order, and only the last row can be a fragment that is not final.\<close>

definition row_order :: "fragment_metadata \<Rightarrow> bool" where
  "row_order md \<longleftrightarrow> sorted_wrt (<) (map fst md) \<and> list_all snd (butlast md)"

definition packing_ok :: "wire_batch \<Rightarrow> nat \<Rightarrow> packed \<Rightarrow> wire_batch \<Rightarrow> fragment_metadata \<Rightarrow> bool" where
  "packing_ok batch M res mb md \<longleftrightarrow>
     list_all (\<lambda>bm. row_data batch bm \<and> batch_ok bm \<and> row_order (snd bm) \<and> length (wb_input_ids (fst bm)) = M) res \<and>
     row_data batch (mb, md) \<and> batch_ok (mb, md) \<and> row_order md \<and> list_all snd md \<and> length (wb_input_ids mb) < M"

definition below :: "nat \<Rightarrow> fragment_metadata \<Rightarrow> bool" where
  "below s md = list_all (\<lambda>f. fst f < s) md"

lemma row_order_snoc: "row_order md \<Longrightarrow> list_all snd md \<Longrightarrow> below s md \<Longrightarrow> row_order (md @ [(s, l)])"
  by (auto simp: row_order_def below_def sorted_wrt_append list_all_iff)

lemma row_order_Nil [simp]: "row_order []" "below s []"
  by (simp_all add: row_order_def below_def)

definition stream_of :: "packed \<Rightarrow> ((nat \<times> bool) \<times> (int \<times> int) list) list" where
  "stream_of bms = concat (map rows bms)"

lemma pack_seq_ok:
  assumes "pack_seq batch M s seq_end start res mb md = (res', mb', md')" "packing_ok batch M res mb md" "start \<le> seq_end"
    and "seq_end \<le> length (wb_input_ids batch)" "seq_end \<le> length (wb_positions batch)" "below (if start < seq_end then s else Suc s) md"
  shows "packing_ok batch M res' mb' md' \<and> below (Suc s) md' \<and>
    (\<exists>F. stream_of (res' @ [(mb', md')]) = stream_of (res @ [(mb, md)]) @ F \<and> fragments s (subvec start seq_end (tokens batch)) F)"
  using assms
proof (induction "seq_end - start" arbitrary: start res mb md rule: less_induct)
  case less
  note ok = less.prems(2)
  have M: "0 < M" using ok by (auto simp: packing_ok_def)
  show ?case
  proof (cases "start < seq_end")
    case False
    then have "res' = res" "mb' = mb" "md' = md" using less.prems(1) by (auto simp: pack_seq.simps [of batch M s seq_end start])
    then show ?thesis using ok False less.prems(6) by (simp add: fragments_Nil)
  next
    case True
    define rem where "rem = M - length (wb_input_ids mb)"
    define e where "e = min (start + rem) seq_end"
    define l where "l \<longleftrightarrow> e = seq_end"
    define mb1 where "mb1 = push_fragment batch s start e l mb"
    define md1 where "md1 = md @ [(s, l)]"
    have rem: "0 < rem" using ok by (simp add: packing_ok_def rem_def)
    have e: "start < e" "e \<le> seq_end" "e - start \<le> rem" using rem True by (auto simp: e_def)
    have push: "batch_ok (mb1, md1)" "row_data batch (mb1, md1)" "rows (mb1, md1) = rows (mb, md) @ [((s, l), subvec start e (tokens batch))]"
      "length (wb_input_ids mb1) = length (wb_input_ids mb) + (e - start)"
      unfolding mb1_def md1_def using push_ok [of mb md batch start e s l] ok e less.prems(4,5) by (simp_all add: packing_ok_def)
    have ord: "row_order md1" "below (Suc s) md1"
      using row_order_snoc [of md s l] ok less.prems(6) True by (auto simp: md1_def packing_ok_def below_def list_all_iff)
    have le: "length (wb_input_ids mb1) \<le> M" using push(4) e(3) rem by (simp add: rem_def)
    have toks: "subvec start e (tokens batch) \<noteq> []" "subvec start e (tokens batch) @ subvec e seq_end (tokens batch) = subvec start seq_end (tokens batch)"
      "l \<longleftrightarrow> subvec e seq_end (tokens batch) = []"
      using e less.prems(4,5) by (auto simp: subvec_append l_def tokens_def) (auto simp: subvec_def)
    have step: "pack_seq batch M s seq_end start res mb md =
        (if length (wb_input_ids mb1) = M then pack_seq batch M s seq_end e (res @ [(mb1, md1)]) (make_microbatch batch) []
         else pack_seq batch M s seq_end e res mb1 md1)"
      using True M rem by (subst pack_seq.simps) (simp only: Let_def rem_def [symmetric] e_def [symmetric] l_def [symmetric] mb1_def [symmetric] md1_def [symmetric] simp_thms if_True, simp)
    have shorter: "seq_end - e < seq_end - start" using e(1) True by simp
    show ?thesis
    proof (cases "length (wb_input_ids mb1) = M")
      case full: True
      have "packing_ok batch M (res @ [(mb1, md1)]) (make_microbatch batch) []"
        using ok push(1,2) full M ord(1) by (simp add: packing_ok_def make_microbatch_ok)
      moreover have "pack_seq batch M s seq_end e (res @ [(mb1, md1)]) (make_microbatch batch) [] = (res', mb', md')"
        using step less.prems(1) full by simp
      ultimately obtain F where "packing_ok batch M res' mb' md'" "below (Suc s) md'" "fragments s (subvec e seq_end (tokens batch)) F"
          "stream_of (res' @ [(mb', md')]) = stream_of ((res @ [(mb1, md1)]) @ [(make_microbatch batch, [])]) @ F"
        using less.hyps [OF shorter _ _ e(2) less.prems(4,5) row_order_Nil(2)] by blast
      then show ?thesis
        using fragments_Cons [of s "subvec e seq_end (tokens batch)" F "subvec start e (tokens batch)" l] toks push(3)
        by (intro conjI exI [of _ "((s, l), subvec start e (tokens batch)) # F"]) (simp_all add: stream_of_def make_microbatch_ok)
    next
      case part: False
      then have done_e: "e = seq_end" using push(4) le e(1) ok by (auto simp: e_def rem_def packing_ok_def min_def split: if_splits)
      then have "list_all snd md1" using ok by (simp add: md1_def l_def packing_ok_def)
      then have "packing_ok batch M res mb1 md1" using part ok push(1,2) le ord(1) by (simp add: packing_ok_def)
      moreover have "pack_seq batch M s seq_end e res mb1 md1 = (res', mb', md')" using step less.prems(1) part by simp
      ultimately obtain F where "packing_ok batch M res' mb' md'" "below (Suc s) md'" "fragments s (subvec e seq_end (tokens batch)) F"
          "stream_of (res' @ [(mb', md')]) = stream_of (res @ [(mb1, md1)]) @ F"
        using less.hyps [OF shorter _ _ e(2) less.prems(4,5)] ord(2) done_e by fastforce
      then show ?thesis
        using fragments_Cons [of s "subvec e seq_end (tokens batch)" F "subvec start e (tokens batch)" l] toks push(3)
        by (intro conjI exI [of _ "((s, l), subvec start e (tokens batch)) # F"]) (simp_all add: stream_of_def)
    qed
  qed
qed

subsection \<open>All requests\<close>

lemma ragged_nonempty: "sum_list ns \<le> length xs \<Longrightarrow> i < length ns \<Longrightarrow> 0 < ns ! i \<Longrightarrow> ragged ns xs ! i \<noteq> []"
  by (induction ns arbitrary: xs i) (auto simp: nth_Cons split: nat.splits)

lemma pack_seqs_ok:
  assumes "pack_seqs batch M s lens off res mb md = (res', mb', md')" "packing_ok batch M res mb md"
    and "off + sum_list (map nat lens) \<le> length (wb_input_ids batch)" "off + sum_list (map nat lens) \<le> length (wb_positions batch)" "below s md"
  shows "packing_ok batch M res' mb' md' \<and>
    (\<exists>Fs. stream_of (res' @ [(mb', md')]) = stream_of (res @ [(mb, md)]) @ concat Fs \<and> length Fs = length lens \<and>
      (\<forall>i<length lens. fragments (s + i) (ragged (map nat lens) (drop off (tokens batch)) ! i) (Fs ! i)))"
  using assms
proof (induction lens arbitrary: s off res mb md)
  case Nil
  then show ?case by simp
next
  case (Cons len lens)
  let ?T = "tokens batch" and ?e = "off + nat len"
  have step: "ragged (map nat (len # lens)) (drop off ?T) = subvec off ?e ?T # ragged (map nat lens) (drop ?e ?T)"
    by (simp add: subvec_def add.commute)
  have rest: "?e + sum_list (map nat lens) \<le> length (wb_input_ids batch)" "?e + sum_list (map nat lens) \<le> length (wb_positions batch)"
    using Cons.prems(3,4) by simp_all
  obtain res1 mb1 md1 F where below: "below (Suc s) md1" and one: "packing_ok batch M res1 mb1 md1" "stream_of (res1 @ [(mb1, md1)]) = stream_of (res @ [(mb, md)]) @ F"
      "fragments s (subvec off ?e ?T) F" "pack_seqs batch M (Suc s) lens ?e res1 mb1 md1 = (res', mb', md')"
  proof (cases "nat len = 0")
    case True
    moreover have "below (Suc s) md" using Cons.prems(5) by (auto simp: below_def list_all_iff)
    ultimately show ?thesis using Cons.prems(1,2) that [of md res mb "[]"] by (simp add: fragments_Nil)
  next
    case False
    obtain res1 mb1 md1 where p: "pack_seq batch M s ?e off res mb md = (res1, mb1, md1)"
      by (cases "pack_seq batch M s ?e off res mb md")
    moreover have "pack_seqs batch M (Suc s) lens ?e res1 mb1 md1 = (res', mb', md')" using Cons.prems(1) False p by simp
    moreover have "packing_ok batch M res1 mb1 md1 \<and> below (Suc s) md1 \<and>
        (\<exists>F. stream_of (res1 @ [(mb1, md1)]) = stream_of (res @ [(mb, md)]) @ F \<and> fragments s (subvec off ?e ?T) F)"
      using pack_seq_ok [OF p Cons.prems(2)] rest Cons.prems(5) False by simp
    ultimately show ?thesis using that by blast
  qed
  from Cons.IH [OF one(4,1) rest below] obtain Fs where Fs: "packing_ok batch M res' mb' md'"
      "stream_of (res' @ [(mb', md')]) = stream_of (res1 @ [(mb1, md1)]) @ concat Fs" "length Fs = length lens"
      "\<forall>i<length lens. fragments (Suc s + i) (ragged (map nat lens) (drop ?e ?T) ! i) (Fs ! i)" by blast
  have "fragments (s + i) (ragged (map nat (len # lens)) (drop off ?T) ! i) ((F # Fs) ! i)" if "i < length (len # lens)" for i
    using that Fs(4) one(3) unfolding step by (cases i) auto
  then show ?case using Fs(1-3) one(2) by (intro conjI exI [of _ "F # Fs"]) auto
qed

definition packable :: "nat \<Rightarrow> wire_batch \<Rightarrow> bool" where
  "packable M batch \<longleftrightarrow> wb_is_prefill batch \<and> \<not> wb_is_dummy batch \<and> 0 < M \<and> wb_seq_lens batch \<noteq> [] \<and>
     sum_list (map nat (wb_seq_lens batch)) \<le> length (wb_input_ids batch) \<and> sum_list (map nat (wb_seq_lens batch)) \<le> length (wb_positions batch)"

lemma microbatches_shape:
  assumes "packable M batch" "0 < sum_list (map nat (wb_seq_lens batch))"
  shows "\<exists>mbs Fs. prefill_microbatches M batch = Inr mbs \<and> mbs \<noteq> [] \<and> stream_of mbs = concat Fs \<and> length Fs = length (wb_seq_lens batch) \<and>
    (\<forall>s<length (wb_seq_lens batch). fragments s (batch_rows batch ! s) (Fs ! s)) \<and>
    list_all (\<lambda>bm. row_data batch bm \<and> batch_ok bm \<and> row_order (snd bm)) mbs \<and>
    list_all (\<lambda>bm. length (wb_input_ids (fst bm)) = M) (butlast mbs) \<and> length (wb_input_ids (fst (last mbs))) \<le> M"
proof -
  have p: "wb_is_prefill batch" "\<not> wb_is_dummy batch" "0 < M" "wb_seq_lens batch \<noteq> []"
      "sum_list (map nat (wb_seq_lens batch)) \<le> length (wb_input_ids batch)" "sum_list (map nat (wb_seq_lens batch)) \<le> length (wb_positions batch)"
    using assms(1) by (simp_all add: packable_def)
  obtain res mb md where pk: "pack_seqs batch M 0 (wb_seq_lens batch) 0 [] (make_microbatch batch) [] = (res, mb, md)"
    by (cases "pack_seqs batch M 0 (wb_seq_lens batch) 0 [] (make_microbatch batch) []")
  have "packing_ok batch M [] (make_microbatch batch) []" using p(3) by (simp add: packing_ok_def make_microbatch_ok)
  from pack_seqs_ok [OF pk this] p(5,6) obtain Fs where ok: "packing_ok batch M res mb md" and
    st: "stream_of (res @ [(mb, md)]) = concat Fs" "length Fs = length (wb_seq_lens batch)"
      "\<forall>s<length (wb_seq_lens batch). fragments s (batch_rows batch ! s) (Fs ! s)"
    by (auto simp: stream_of_def make_microbatch_ok batch_rows_def tokens_def)
  define mbs where "mbs = res @ (if wb_input_ids mb = [] then [] else [(mb, md)])"
  have "md = []" if "wb_input_ids mb = []"
  proof -
    have "sum_list (map nat (wb_seq_lens mb)) = 0" "list_all (\<lambda>l. 0 < l) (wb_seq_lens mb)" "length (wb_seq_lens mb) = length md"
      using ok that by (simp_all add: packing_ok_def batch_ok_def)
    then show ?thesis by (cases "wb_seq_lens mb") auto
  qed
  then have stream: "stream_of mbs = concat Fs" using st(1) by (auto simp: mbs_def stream_of_def rows_def)
  obtain i where i: "i < length (wb_seq_lens batch)" "0 < map nat (wb_seq_lens batch) ! i"
    using assms(2) by (metis (no_types, lifting) in_set_conv_nth length_map neq0_conv sum_list_eq_0_iff)
  then have "batch_rows batch ! i \<noteq> []" unfolding batch_rows_def using p(5,6) by (intro ragged_nonempty) simp_all
  then have "Fs ! i \<noteq> []" using st(3) i(1) by (auto simp: fragments_def)
  then have "mbs \<noteq> []" using stream st(2) i(1) by (auto simp: stream_of_def)
  moreover have "prefill_microbatches M batch = Inr mbs"
    using p pk calculation unfolding mbs_def by (auto simp: prefill_microbatches_def Let_def)
  moreover have "list_all (\<lambda>bm. row_data batch bm \<and> batch_ok bm \<and> row_order (snd bm)) mbs"
    using ok by (auto simp: mbs_def packing_ok_def list_all_iff)
  moreover have "list_all (\<lambda>bm. length (wb_input_ids (fst bm)) = M) (butlast mbs)" "length (wb_input_ids (fst (last mbs))) \<le> M"
    using ok calculation(1) by (auto simp: mbs_def packing_ok_def list_all_iff dest: in_set_butlastD split: if_splits)
  ultimately show ?thesis using stream st(2,3) by blast
qed

text \<open>C15: Packing a prefill batch into microbatches loses, reorders and misplaces nothing. It never fails on a batch
  that holds its tokens. Read in order, the rows of the microbatches are, request after request, the tokens and
  positions of that request cut into non-empty fragments of which exactly the last is marked final (a request without
  tokens has none). Every row carries the block table, temperature, slots, ids and sampling flag of its own request,
  sampling only in the final fragment. All microbatches but the last hold exactly \<open>max_tokens\<close> tokens, the last at
  most as many.\<close>

theorem microbatches_partition:
  assumes "packable M batch" "0 < sum_list (map nat (wb_seq_lens batch))"
  shows "\<exists>mbs Fs. prefill_microbatches M batch = Inr mbs \<and> mbs \<noteq> [] \<and> stream_of mbs = concat Fs \<and> length Fs = length (wb_seq_lens batch) \<and>
    (\<forall>s<length (wb_seq_lens batch). fragments s (batch_rows batch ! s) (Fs ! s)) \<and>
    list_all (\<lambda>bm. row_data batch bm \<and> batch_ok bm \<and> row_order (snd bm)) mbs \<and>
    list_all (\<lambda>bm. length (wb_input_ids (fst bm)) = M) (butlast mbs) \<and> length (wb_input_ids (fst (last mbs))) \<le> M"
  using microbatches_shape [OF assms] .

definition sample_batch :: wire_batch where
  "sample_batch =
     \<lparr>wb_is_prefill = True, wb_input_ids = [0, 1, 2, 3, 4, 5, 6, 7], wb_positions = [0, 1, 2, 3, 4, 10, 11, 12], wb_seq_lens = [5, 3],
      wb_block_tables = [[1, 2], [3]], wb_temperatures = [1, 2], wb_state_slots = [7, 8], wb_compressed_block_tables = [(4, [[10, 11], [20]])],
      wb_hisparse_slots = [9, 10], wb_seq_ids = [100, 200], wb_sample_mask = [True, True], wb_any_return_completion_logprobs = True, wb_is_dummy = False\<rparr>"

theorem microbatches_partition_witness:
  "\<exists>mbs Fs. prefill_microbatches 2 sample_batch = Inr mbs \<and> map snd mbs = [[(0, False)], [(0, False)], [(0, True), (1, False)], [(1, True)]] \<and>
     stream_of mbs = concat Fs \<and> fragments 0 [(0, 0), (1, 1), (2, 2), (3, 3), (4, 4)] (Fs ! 0) \<and> fragments 1 [(5, 10), (6, 11), (7, 12)] (Fs ! 1)"
proof -
  have pk: "packable 2 sample_batch" "0 < sum_list (map nat (wb_seq_lens sample_batch))" "length (wb_seq_lens sample_batch) = 2" by code_simp+
  have r: "batch_rows sample_batch ! 0 = [(0, 0), (1, 1), (2, 2), (3, 3), (4, 4)]" "batch_rows sample_batch ! 1 = [(5, 10), (6, 11), (7, 12)]" by code_simp+
  have md: "map_sum id (map snd) (prefill_microbatches 2 sample_batch) = Inr [[(0, False)], [(0, False)], [(0, True), (1, False)], [(1, True)]]" by code_simp
  from microbatches_partition [OF pk(1,2)] obtain mbs Fs where m: "prefill_microbatches 2 sample_batch = Inr mbs" "stream_of mbs = concat Fs"
      "\<forall>s<2. fragments s (batch_rows sample_batch ! s) (Fs ! s)" unfolding pk(3) by blast
  then have "fragments 0 (batch_rows sample_batch ! 0) (Fs ! 0)" "fragments 1 (batch_rows sample_batch ! 1) (Fs ! 1)" by auto
  then show ?thesis using m md unfolding r by auto
qed

end
