(* ===== verification/Engine_Step.thy ===== *)
theory Engine_Step
  imports Microbatch
begin

section \<open>The engine step (\<open>engine/llm_engine.py\<close>, \<open>executor/dlslime_executor.py\<close>)\<close>

text \<open>
  One engine step: host swaps, the forward of the scheduled batch over all workers, and the bounded prefill
  pipeline. The Rust scheduler is a parameter. A worker executes its requests in the order of submission, so its
  reply is a function, the parameter \<open>worker\<close>, of the requests it has received up to that one.
\<close>

subsection \<open>Executor\<close>

record runner_out =
  ro_token_ids :: "int list list"
  ro_logprobs :: "real list list option"
  ro_server_handler_ns :: nat

text \<open>
  \<open>ex_calls\<close> holds the requests each worker proxy has been sent. The two counters record how many submitted
  forwards have not been waited for, now and at most.
\<close>

record executor =
  ex_calls :: "wire_batch list list"
  ex_outstanding :: nat
  ex_peak :: nat

type_synonym worker = "nat \<Rightarrow> wire_batch list \<Rightarrow> runner_out res"
type_synonym handle = "(nat \<times> nat) list"

text \<open>One future per pair of proxy and payload; a future is the worker and the number of its call.\<close>

definition run_batch_bytes_async :: "wire_batch list \<Rightarrow> executor \<Rightarrow> handle \<times> executor" where
  "run_batch_bytes_async payloads ex =
     (map (\<lambda>(w, calls, _). (w, length calls)) (zip [0..<length (ex_calls ex)] (zip (ex_calls ex) payloads)),
      ex\<lparr>ex_calls := map (\<lambda>(calls, p). calls @ [p]) (zip (ex_calls ex) payloads) @ drop (length payloads) (ex_calls ex),
         ex_outstanding := Suc (ex_outstanding ex), ex_peak := max (ex_peak ex) (Suc (ex_outstanding ex))\<rparr>)"

definition run_wait_runner_outs :: "worker \<Rightarrow> handle \<Rightarrow> executor \<Rightarrow> runner_out list res \<times> executor" where
  "run_wait_runner_outs worker h ex =
     (mapr (\<lambda>(w, k). worker w (take (Suc k) (ex_calls ex ! w))) h, ex\<lparr>ex_outstanding := ex_outstanding ex - 1\<rparr>)"

subsection \<open>Engine\<close>

record engine_config =
  ec_attention_tp :: nat
  ec_pp :: nat
  ec_max_num_batched_tokens :: nat
  ec_pp_prefill_pipeline_depth :: nat
  ec_mode :: string

definition replicate_for_pp :: "'a list \<Rightarrow> nat \<Rightarrow> 'a list" where
  "replicate_for_pp items pp_size = (if pp_size \<le> 1 then items else concat (replicate pp_size items))"

text \<open>\<open>xs[::step]\<close>\<close>

definition stride :: "nat \<Rightarrow> 'a list \<Rightarrow> 'a list" where
  "stride step xs = map (\<lambda>i. xs ! (i * step)) [0..<(length xs + step - 1) div step]"

definition last_stage :: "nat \<Rightarrow> nat \<Rightarrow> nat \<Rightarrow> 'a list \<Rightarrow> 'a list" where
  "last_stage pp inner tp all_outs = stride tp (drop ((pp - 1) * inner) all_outs)"

subsection \<open>The bounded prefill pipeline\<close>

record aggregate =
  ag_tokens :: "int list list list"
  ag_logprobs :: "real list list list"
  ag_has_logprobs :: "bool list"
  ag_max_handler_ns :: "nat list"

definition new_aggregate :: "nat list list \<Rightarrow> aggregate" where
  "new_aggregate dp_group_seq_ids =
     \<lparr>ag_tokens = map (\<lambda>seq_ids. map (\<lambda>_. []) seq_ids) dp_group_seq_ids, ag_logprobs = map (\<lambda>seq_ids. map (\<lambda>_. []) seq_ids) dp_group_seq_ids,
      ag_has_logprobs = map (\<lambda>_. False) dp_group_seq_ids, ag_max_handler_ns = map (\<lambda>_. 0) dp_group_seq_ids\<rparr>"

definition consume_row :: "nat \<Rightarrow> runner_out \<Rightarrow> nat \<times> nat \<times> bool \<Rightarrow> aggregate \<Rightarrow> aggregate" where
  "consume_row g out r acc =
     (case r of (row_idx, seq_idx, is_last) \<Rightarrow>
        if \<not> is_last \<or> length (ag_tokens acc ! g) \<le> seq_idx then acc
        else (let acc1 = (if row_idx < length (ro_token_ids out)
                          then acc\<lparr>ag_tokens := (ag_tokens acc)[g := (ag_tokens acc ! g)[seq_idx := ro_token_ids out ! row_idx]]\<rparr> else acc)
              in case ro_logprobs out of
                   None \<Rightarrow> acc1
                 | Some lps \<Rightarrow>
                     (if row_idx < length lps
                      then acc1\<lparr>ag_logprobs := (ag_logprobs acc1)[g := (ag_logprobs acc1 ! g)[seq_idx := lps ! row_idx]],
                                ag_has_logprobs := (ag_has_logprobs acc1)[g := True]\<rparr> else acc1)))"

definition consume_group :: "nat \<Rightarrow> fragment_metadata option list \<Rightarrow> nat \<times> runner_out \<Rightarrow> aggregate \<Rightarrow> aggregate res" where
  "consume_group tp metadata g_out acc =
     (case g_out of (g, out) \<Rightarrow>
        if length metadata \<le> g * tp then Inl IndexError
        else (case metadata ! (g * tp) of
                None \<Rightarrow> Inr acc
              | Some frs \<Rightarrow>
                  if frs = [] then Inr acc
                  else if length (ag_tokens acc) \<le> g then Inl IndexError
                  else (let acc' = fold (consume_row g out) (zip [0..<length frs] frs) acc
                        in Inr (acc'\<lparr>ag_max_handler_ns := (ag_max_handler_ns acc')[g := max (ag_max_handler_ns acc' ! g) (ro_server_handler_ns out)]\<rparr>))))"

definition consume :: "worker \<Rightarrow> nat \<Rightarrow> nat \<Rightarrow> nat \<Rightarrow> handle \<times> fragment_metadata option list \<Rightarrow> executor \<times> aggregate \<Rightarrow> (executor \<times> aggregate) res" where
  "consume worker pp inner tp item st =
     (case run_wait_runner_outs worker (fst item) (fst st) of
        (all_outs, ex) \<Rightarrow>
          rbind all_outs (\<lambda>outs.
          rbind (fold_res (consume_group tp (snd item)) (zip [0..<length (last_stage pp inner tp outs)] (last_stage pp inner tp outs)) (snd st)) (\<lambda>acc.
          Inr (ex, acc))))"

type_synonym round = "wire_batch list \<times> fragment_metadata option list"

fun pipeline ::
  "worker \<Rightarrow> nat \<Rightarrow> nat \<Rightarrow> nat \<Rightarrow> nat \<Rightarrow> round list \<Rightarrow> (handle \<times> fragment_metadata option list) list \<Rightarrow> executor \<times> aggregate
   \<Rightarrow> (executor \<times> aggregate) res" where
  "pipeline worker pp inner tp depth [] pending st = fold_res (consume worker pp inner tp) pending st"
| "pipeline worker pp inner tp depth ((payloads, metadata) # rounds) pending st =
     (case run_batch_bytes_async payloads (fst st) of
        (h, ex) \<Rightarrow>
          (let pending' = pending @ [(h, metadata)]
           in if depth \<le> length pending'
              then rbind (consume worker pp inner tp (hd pending') (ex, snd st)) (pipeline worker pp inner tp depth rounds (tl pending'))
              else pipeline worker pp inner tp depth rounds pending' (ex, snd st)))"

definition make_round :: "nat \<Rightarrow> packed list \<Rightarrow> nat \<Rightarrow> round" where
  "make_round pp cell_fragments k =
     (concat (replicate pp (map (\<lambda>fr. if k < length fr then fst (fr ! k) else dummy_batch True) cell_fragments)),
      map (\<lambda>fr. if k < length fr then Some (snd (fr ! k)) else None) cell_fragments)"

text \<open>\<open>transport\<close> is the result of \<open>max_inflight_requests\<close> when the executor has that method.\<close>

definition pipeline_depth :: "engine_config \<Rightarrow> int option \<Rightarrow> nat res" where
  "pipeline_depth cfg transport =
     (let depth = (if ec_pp_prefill_pipeline_depth cfg = 0 then min (ec_pp cfg) 16 else ec_pp_prefill_pipeline_depth cfg)
      in case transport of
           None \<Rightarrow> Inr (max 1 depth)
         | Some slots \<Rightarrow>
             (let transport_depth = nat (max 1 slots)
              in if transport_depth < 2 then Inl (RuntimeErr ''inflight slots'') else Inr (max 1 (min depth transport_depth))))"

definition aggregate_outs :: "nat \<Rightarrow> aggregate \<Rightarrow> runner_out list" where
  "aggregate_outs num_groups acc =
     map (\<lambda>g. \<lparr>ro_token_ids = ag_tokens acc ! g, ro_logprobs = (if ag_has_logprobs acc ! g then Some (ag_logprobs acc ! g) else None),
               ro_server_handler_ns = ag_max_handler_ns acc ! g\<rparr>) [0..<num_groups]"

definition run_static_pp_prefill_pipeline ::
  "worker \<Rightarrow> engine_config \<Rightarrow> int option \<Rightarrow> nat list list \<Rightarrow> wire_batch list \<Rightarrow> nat \<Rightarrow> executor \<Rightarrow> (runner_out list \<times> executor) res" where
  "run_static_pp_prefill_pipeline worker cfg transport dp_group_seq_ids batches inner ex =
     rbind (mapr (prefill_microbatches (ec_max_num_batched_tokens cfg)) batches) (\<lambda>cell_fragments.
     (let pp = ec_pp cfg; tp = ec_attention_tp cfg; num_rounds = fold max (map length cell_fragments) (if cell_fragments = [] then 1 else 0)
      in if num_rounds \<le> 1
         then (case run_batch_bytes_async (concat (replicate pp batches)) ex of
                 (h, ex1) \<Rightarrow> (case run_wait_runner_outs worker h ex1 of
                   (all_outs, ex2) \<Rightarrow> rbind all_outs (\<lambda>outs. Inr (last_stage pp inner tp outs, ex2))))
         else rbind (pipeline_depth cfg transport) (\<lambda>depth.
              rbind (pipeline worker pp inner tp depth (map (make_round pp cell_fragments) [0..<num_rounds]) [] (ex, new_aggregate dp_group_seq_ids)) (\<lambda>st.
              Inr (aggregate_outs (length dp_group_seq_ids) (snd st), fst st)))))"

subsection \<open>A reply does not depend on later submissions\<close>

definition send :: "wire_batch list \<Rightarrow> wire_batch list list \<Rightarrow> wire_batch list list" where
  "send ps calls = map (\<lambda>(cs, p). cs @ [p]) (zip calls ps) @ drop (length ps) calls"

definition handle_of :: "wire_batch list \<Rightarrow> wire_batch list list \<Rightarrow> handle" where
  "handle_of ps calls = map (\<lambda>(w, cs, _). (w, length cs)) (zip [0..<length calls] (zip calls ps))"

lemma run_async_eq:
  "run_batch_bytes_async ps ex = (handle_of ps (ex_calls ex),
     \<lparr>ex_calls = send ps (ex_calls ex), ex_outstanding = Suc (ex_outstanding ex), ex_peak = max (ex_peak ex) (Suc (ex_outstanding ex))\<rparr>)"
  by (simp add: run_batch_bytes_async_def send_def handle_of_def)

lemma length_send [simp]: "length (send ps calls) = length calls"
  by (simp add: send_def)

lemma nth_send: "w < length calls \<Longrightarrow> send ps calls ! w = (if w < length ps then calls ! w @ [ps ! w] else calls ! w)"
  by (auto simp: send_def nth_append)

definition extends :: "'a list list \<Rightarrow> 'a list list \<Rightarrow> bool" where
  "extends calls calls' \<longleftrightarrow> length calls' = length calls \<and> (\<forall>w<length calls. prefix (calls ! w) (calls' ! w))"

lemma extends_refl [simp]: "extends calls calls"
  by (simp add: extends_def)

lemma extends_trans: "extends a b \<Longrightarrow> extends b c \<Longrightarrow> extends a c"
  unfolding extends_def by (metis prefix_order.order_trans)

lemma extends_send: "extends calls (send ps calls)"
  by (simp add: extends_def nth_send)

definition valid_handle :: "'a list list \<Rightarrow> handle \<Rightarrow> bool" where
  "valid_handle calls h \<longleftrightarrow> (\<forall>(w, k)\<in>set h. w < length calls \<and> k < length (calls ! w))"

lemma valid_handle_of: "valid_handle (send ps calls) (handle_of ps calls)"
  by (auto simp: valid_handle_def handle_of_def nth_send set_zip)

lemma valid_extends: "valid_handle calls h \<Longrightarrow> extends calls calls' \<Longrightarrow> valid_handle calls' h"
  by (fastforce simp: valid_handle_def extends_def dest: prefix_length_le)

definition outs_at :: "worker \<Rightarrow> wire_batch list list \<Rightarrow> handle \<Rightarrow> runner_out list res" where
  "outs_at worker calls h = mapr (\<lambda>(w, k). worker w (take (Suc k) (calls ! w))) h"

lemma mapr_cong: "(\<And>x. x \<in> set xs \<Longrightarrow> f x = g x) \<Longrightarrow> mapr f xs = mapr g xs"
  by (induction xs) auto

lemma outs_at_extends:
  assumes "valid_handle calls h" "extends calls calls'"
  shows "outs_at worker calls' h = outs_at worker calls h"
  unfolding outs_at_def
proof (rule mapr_cong)
  fix x assume x: "x \<in> set h"
  obtain w k where wk: "x = (w, k)" by (cases x)
  then have "w < length calls" "k < length (calls ! w)" using assms(1) x by (auto simp: valid_handle_def)
  moreover from this obtain d where "calls' ! w = calls ! w @ d" using assms(2) by (auto simp: extends_def prefix_def)
  ultimately show "(case x of (w, k) \<Rightarrow> worker w (take (Suc k) (calls' ! w))) = (case x of (w, k) \<Rightarrow> worker w (take (Suc k) (calls ! w)))"
    using wk by simp
qed

subsection \<open>The pipeline is the serial run\<close>

definition consume_outs :: "nat \<Rightarrow> nat \<Rightarrow> nat \<Rightarrow> fragment_metadata option list \<Rightarrow> runner_out list \<Rightarrow> aggregate \<Rightarrow> aggregate res" where
  "consume_outs pp inner tp metadata outs acc =
     fold_res (consume_group tp metadata) (zip [0..<length (last_stage pp inner tp outs)] (last_stage pp inner tp outs)) acc"

definition drain :: "worker \<Rightarrow> nat \<Rightarrow> nat \<Rightarrow> nat \<Rightarrow> wire_batch list list \<Rightarrow> (handle \<times> fragment_metadata option list) list \<Rightarrow> aggregate \<Rightarrow> aggregate res" where
  "drain worker pp inner tp calls items acc =
     fold_res (\<lambda>item acc. rbind (outs_at worker calls (fst item)) (\<lambda>outs. consume_outs pp inner tp (snd item) outs acc)) items acc"

text \<open>All rounds submitted, with the handles they get.\<close>

fun submit_all :: "round list \<Rightarrow> wire_batch list list \<Rightarrow> (handle \<times> fragment_metadata option list) list \<times> wire_batch list list" where
  "submit_all [] calls = ([], calls)"
| "submit_all ((ps, m) # rounds) calls =
     (case submit_all rounds (send ps calls) of (items, calls') \<Rightarrow> ((handle_of ps calls, m) # items, calls'))"

lemma submit_all_extends: "submit_all rounds calls = (items, calls') \<Longrightarrow> extends calls calls'"
proof (induction rounds arbitrary: calls items)
  case (Cons r rounds)
  obtain ps m where r: "r = (ps, m)" by (cases r)
  obtain items1 where "submit_all rounds (send ps calls) = (items1, calls')" using Cons.prems r by (auto split: prod.splits)
  then show ?case using Cons.IH extends_send extends_trans by blast
qed simp

lemma rbind_assoc: "rbind (rbind r f) g = rbind r (\<lambda>x. rbind (f x) g)"
  by (cases r) simp_all

lemma consume_eq:
  "consume worker pp inner tp item (ex, acc) =
     rbind (rbind (outs_at worker (ex_calls ex) (fst item)) (\<lambda>outs. consume_outs pp inner tp (snd item) outs acc))
       (\<lambda>acc. Inr (ex\<lparr>ex_outstanding := ex_outstanding ex - 1\<rparr>, acc))"
  by (simp add: consume_def run_wait_runner_outs_def outs_at_def consume_outs_def rbind_assoc)

lemma consume_all:
  "fold_res (consume worker pp inner tp) items (ex, acc) =
     rbind (drain worker pp inner tp (ex_calls ex) items acc) (\<lambda>acc. Inr (ex\<lparr>ex_outstanding := ex_outstanding ex - length items\<rparr>, acc))"
proof (induction items arbitrary: ex acc)
  case Nil
  then show ?case by (simp add: drain_def)
next
  case (Cons item items)
  show ?case unfolding drain_def fold_res.simps consume_eq rbind_assoc
    by (simp add: Cons.IH drain_def rbind_assoc)
qed

lemma pipeline_is_serial:
  assumes "submit_all rounds (ex_calls ex) = (items, C)" "list_all (\<lambda>item. valid_handle (ex_calls ex) (fst item)) pending"
    and "length pending < depth" "ex_outstanding ex = base + length pending"
  shows "\<exists>peak\<le>max (ex_peak ex) (base + depth). pipeline worker pp inner tp depth rounds pending (ex, acc) =
    rbind (drain worker pp inner tp C (pending @ items) acc) (\<lambda>acc. Inr (\<lparr>ex_calls = C, ex_outstanding = base, ex_peak = peak\<rparr>, acc))"
  using assms
proof (induction rounds arbitrary: ex pending acc items)
  case Nil
  have "pipeline worker pp inner tp depth [] pending (ex, acc) =
      rbind (drain worker pp inner tp C (pending @ items) acc) (\<lambda>acc. Inr (\<lparr>ex_calls = C, ex_outstanding = base, ex_peak = ex_peak ex\<rparr>, acc))"
    using Nil.prems by (cases ex) (simp add: consume_all)
  then show ?case by (intro exI [of _ "ex_peak ex"]) simp
next
  case (Cons r rounds)
  obtain ps m where r: "r = (ps, m)" by (cases r)
  obtain items1 where i1: "submit_all rounds (send ps (ex_calls ex)) = (items1, C)" "items = (handle_of ps (ex_calls ex), m) # items1"
    using Cons.prems(1) r by (auto split: prod.splits)
  define ex1 where "ex1 = \<lparr>ex_calls = send ps (ex_calls ex), ex_outstanding = Suc (ex_outstanding ex), ex_peak = max (ex_peak ex) (Suc (ex_outstanding ex))\<rparr>"
  define pd where "pd = pending @ [(handle_of ps (ex_calls ex), m)]"
  have valid: "list_all (\<lambda>item. valid_handle (ex_calls ex1) (fst item)) pd"
    using Cons.prems(2) valid_extends [OF _ extends_send] valid_handle_of by (auto simp: pd_def ex1_def list_all_iff)
  have ex1: "submit_all rounds (ex_calls ex1) = (items1, C)" "ex_outstanding ex1 = base + length pd" "ex_peak ex1 \<le> max (ex_peak ex) (base + depth)"
    using i1(1) Cons.prems(3,4) by (auto simp: ex1_def pd_def)
  have pd: "pending @ items = pd @ items1" by (simp add: pd_def i1(2))
  have step: "pipeline worker pp inner tp depth (r # rounds) pending (ex, acc) =
      (if depth \<le> length pd then rbind (consume worker pp inner tp (hd pd) (ex1, acc)) (pipeline worker pp inner tp depth rounds (tl pd))
       else pipeline worker pp inner tp depth rounds pd (ex1, acc))"
    unfolding r pipeline.simps run_async_eq fst_conv snd_conv prod.case Let_def ex1_def pd_def by (rule refl)
  show ?case
  proof (cases "depth \<le> length pd")
    case False
    then obtain peak where "peak \<le> max (ex_peak ex1) (base + depth)" "pipeline worker pp inner tp depth rounds pd (ex1, acc) =
        rbind (drain worker pp inner tp C (pd @ items1) acc) (\<lambda>acc. Inr (\<lparr>ex_calls = C, ex_outstanding = base, ex_peak = peak\<rparr>, acc))"
      using Cons.IH [OF ex1(1) valid _ ex1(2)] by auto
    then show ?thesis unfolding step pd using False ex1(3) by (intro exI [of _ peak]) auto
  next
    case True
    obtain item rest where cons: "pd = item # rest" by (cases pd) (auto simp: pd_def)
    have len: "length rest = length pending" using cons arg_cong [OF pd_def, of length] by simp
    define ex2 where "ex2 = ex1\<lparr>ex_outstanding := ex_outstanding ex1 - 1\<rparr>"
    have ex2: "ex_calls ex2 = ex_calls ex1" "ex_outstanding ex2 = base + length rest" "ex_peak ex2 = ex_peak ex1" "length rest < depth"
      using ex1(2) cons Cons.prems(3) len by (simp_all add: ex2_def)
    have outs: "outs_at worker (ex_calls ex1) (fst item) = outs_at worker C (fst item)"
      using valid cons outs_at_extends [OF _ submit_all_extends [OF ex1(1)], of "fst item" worker] by simp
    have head: "consume worker pp inner tp item (ex1, acc) =
        rbind (rbind (outs_at worker C (fst item)) (\<lambda>outs. consume_outs pp inner tp (snd item) outs acc)) (\<lambda>acc. Inr (ex2, acc))"
      unfolding consume_eq outs ex2_def ..
    have all: "drain worker pp inner tp C (pending @ items) acc =
        rbind (rbind (outs_at worker C (fst item)) (\<lambda>outs. consume_outs pp inner tp (snd item) outs acc)) (drain worker pp inner tp C (rest @ items1))"
      unfolding pd cons drain_def by simp
    show ?thesis
    proof (cases "rbind (outs_at worker C (fst item)) (\<lambda>outs. consume_outs pp inner tp (snd item) outs acc)")
      case (Inl e)
      then show ?thesis unfolding step all using True by (intro exI [of _ "ex_peak ex"]) (simp add: cons head)
    next
      case (Inr acc1)
      have "list_all (\<lambda>item. valid_handle (ex_calls ex2) (fst item)) rest" using valid cons ex2(1) by simp
      then obtain peak where "peak \<le> max (ex_peak ex2) (base + depth)" "pipeline worker pp inner tp depth rounds rest (ex2, acc1) =
          rbind (drain worker pp inner tp C (rest @ items1) acc1) (\<lambda>acc. Inr (\<lparr>ex_calls = C, ex_outstanding = base, ex_peak = peak\<rparr>, acc))"
        using Cons.IH [of ex2 items1 rest acc1] ex1(1) ex2 by auto
      then show ?thesis unfolding step all using True ex1(3) ex2(3) Inr by (intro exI [of _ peak]) (auto simp: cons head)
    qed
  qed
qed

subsection \<open>What a round writes\<close>

text \<open>The rows of an output that end request \<open>s\<close>.\<close>

definition final_rows :: "nat \<Rightarrow> fragment_metadata \<Rightarrow> int list list \<Rightarrow> int list list" where
  "final_rows s md toks = map snd (filter (\<lambda>(f, t). f = (s, True)) (zip md toks))"

definition shape :: "aggregate \<Rightarrow> nat list" where
  "shape acc = map length (ag_tokens acc)"

lemma consume_row_tokens:
  assumes "g < length (ag_tokens acc)"
  shows "shape (consume_row g out (r, f) acc) = shape acc"
    "g' \<noteq> g \<Longrightarrow> ag_tokens (consume_row g out (r, f) acc) ! g' = ag_tokens acc ! g'"
    "s < length (ag_tokens acc ! g) \<Longrightarrow> ag_tokens (consume_row g out (r, f) acc) ! g ! s =
       (if f = (s, True) \<and> r < length (ro_token_ids out) then ro_token_ids out ! r else ag_tokens acc ! g ! s)"
  using assms by (auto simp: consume_row_def shape_def Let_def map_update nth_list_update list_update_same_conv split: option.splits prod.splits)

lemma last_Cons_append: "last (a # xs @ ys) = last (last (a # xs) # ys)"
  by (cases ys rule: rev_cases) auto

lemma consume_rows_tokens:
  assumes "g < length (ag_tokens acc)"
    and "acc' = fold (consume_row g out) (zip [n..<n + length frs] frs) acc"
  shows "shape acc' = shape acc \<and> (\<forall>g'. g' \<noteq> g \<longrightarrow> ag_tokens acc' ! g' = ag_tokens acc ! g') \<and>
    (\<forall>s<length (ag_tokens acc ! g). ag_tokens acc' ! g ! s = last (ag_tokens acc ! g ! s # final_rows s frs (drop n (ro_token_ids out))))"
  using assms(1) unfolding assms(2)
proof (induction frs arbitrary: n acc)
  case Nil
  then show ?case by (simp add: final_rows_def)
next
  case (Cons f frs)
  let ?acc = "consume_row g out (n, f) acc" and ?t = "ro_token_ids out"
  note row = consume_row_tokens [OF Cons.prems]
  have len: "length (ag_tokens ?acc) = length (ag_tokens acc)" "length (ag_tokens ?acc ! g) = length (ag_tokens acc ! g)"
    using row(1) [of out n f] Cons.prems unfolding shape_def by (metis length_map, metis length_map nth_map)
  have fold: "fold (consume_row g out) (zip [n..<n + length (f # frs)] (f # frs)) acc =
      fold (consume_row g out) (zip [Suc n..<Suc n + length frs] frs) ?acc"
    by (simp add: upt_conv_Cons del: upt_Suc)
  have rows: "final_rows s (f # frs) (drop n ?t) = (if f = (s, True) \<and> n < length ?t then [?t ! n] else []) @ final_rows s frs (drop (Suc n) ?t)" for s
    by (cases "n < length ?t") (auto simp: final_rows_def Cons_nth_drop_Suc [symmetric])
  from Cons.IH [of ?acc "Suc n"] Cons.prems len show ?case
    unfolding fold rows last_Cons_append using row by auto
qed

lemma consume_group_tokens:
  assumes "consume_group tp metadata (g, out) acc = Inr acc'"
  shows "shape acc' = shape acc" "g' \<noteq> g \<Longrightarrow> ag_tokens acc' ! g' = ag_tokens acc ! g'"
    "g < length (ag_tokens acc) \<Longrightarrow> s < length (ag_tokens acc ! g) \<Longrightarrow>
     ag_tokens acc' ! g ! s = last (ag_tokens acc ! g ! s # (case metadata ! (g * tp) of None \<Rightarrow> [] | Some md \<Rightarrow> final_rows s md (ro_token_ids out)))"
proof -
  have "shape acc' = shape acc \<and> (\<forall>g'. g' \<noteq> g \<longrightarrow> ag_tokens acc' ! g' = ag_tokens acc ! g') \<and>
    (g < length (ag_tokens acc) \<longrightarrow> (\<forall>s<length (ag_tokens acc ! g).
       ag_tokens acc' ! g ! s = last (ag_tokens acc ! g ! s # (case metadata ! (g * tp) of None \<Rightarrow> [] | Some md \<Rightarrow> final_rows s md (ro_token_ids out)))))"
  proof (cases "metadata ! (g * tp)")
    case None
    then show ?thesis using assms by (auto simp: consume_group_def split: if_splits)
  next
    case (Some md)
    show ?thesis
    proof (cases "md = []")
      case True
      then show ?thesis using assms Some by (auto simp: consume_group_def final_rows_def split: if_splits)
    next
      case False
      then have g: "g < length (ag_tokens acc)" using assms Some by (auto simp: consume_group_def split: if_splits)
      let ?f = "fold (consume_row g out) (zip [0..<0 + length md] md) acc"
      have "ag_tokens acc' = ag_tokens ?f" using assms Some False g by (auto simp: consume_group_def Let_def split: if_splits)
      then show ?thesis using consume_rows_tokens [OF g refl, of out 0 md] Some by (simp add: shape_def)
    qed
  qed
  then show "shape acc' = shape acc" "g' \<noteq> g \<Longrightarrow> ag_tokens acc' ! g' = ag_tokens acc ! g'"
    "g < length (ag_tokens acc) \<Longrightarrow> s < length (ag_tokens acc ! g) \<Longrightarrow>
     ag_tokens acc' ! g ! s = last (ag_tokens acc ! g ! s # (case metadata ! (g * tp) of None \<Rightarrow> [] | Some md \<Rightarrow> final_rows s md (ro_token_ids out)))"
    by blast+
qed

lemma consume_groups_tokens:
  assumes "fold_res (consume_group tp metadata) (zip [a..<a + length outs] outs) acc = Inr acc'"
  shows "shape acc' = shape acc \<and>
    (\<forall>g<length (ag_tokens acc). \<forall>s<length (ag_tokens acc ! g). ag_tokens acc' ! g ! s = last (ag_tokens acc ! g ! s #
       (if a \<le> g \<and> g < a + length outs
        then (case metadata ! (g * tp) of None \<Rightarrow> [] | Some md \<Rightarrow> final_rows s md (ro_token_ids (outs ! (g - a)))) else [])))"
  using assms
proof (induction outs arbitrary: a acc)
  case Nil
  then have "acc' = acc" by simp
  then show ?case by auto
next
  case (Cons out outs)
  have zip: "zip [a..<a + length (out # outs)] (out # outs) = (a, out) # zip [Suc a..<Suc a + length outs] outs"
    by (simp add: upt_conv_Cons del: upt_Suc)
  obtain acc1 where s: "consume_group tp metadata (a, out) acc = Inr acc1"
      "fold_res (consume_group tp metadata) (zip [Suc a..<Suc a + length outs] outs) acc1 = Inr acc'"
    using Cons.prems unfolding zip by (auto simp: res_simps)
  note one = consume_group_tokens [OF s(1)] and IH = Cons.IH [OF s(2)]
  have len: "length (ag_tokens acc1) = length (ag_tokens acc)" "g < length (ag_tokens acc) \<Longrightarrow> length (ag_tokens acc1 ! g) = length (ag_tokens acc ! g)" for g
    using one(1) unfolding shape_def by (metis length_map, metis length_map nth_map)
  have "ag_tokens acc' ! g ! s = last (ag_tokens acc ! g ! s #
       (if a \<le> g \<and> g < a + length (out # outs)
        then (case metadata ! (g * tp) of None \<Rightarrow> [] | Some md \<Rightarrow> final_rows s md (ro_token_ids ((out # outs) ! (g - a)))) else []))"
    if gs: "g < length (ag_tokens acc)" "s < length (ag_tokens acc ! g)" for g s
  proof -
    have i: "ag_tokens acc' ! g ! s = last (ag_tokens acc1 ! g ! s #
       (if Suc a \<le> g \<and> g < Suc a + length outs
        then (case metadata ! (g * tp) of None \<Rightarrow> [] | Some md \<Rightarrow> final_rows s md (ro_token_ids (outs ! (g - Suc a)))) else []))"
      using IH gs len by simp
    show ?thesis
    proof (cases "g = a")
      case True
      show ?thesis using i one(3) [of s] gs unfolding True diff_self_eq_0 nth_Cons_0 by simp
    next
      case False
      then have "(out # outs) ! (g - a) = outs ! (g - Suc a)" if "a \<le> g" using that by (simp add: nth_Cons')
      then show ?thesis using i one(2) [OF False] False by (cases "metadata ! (g * tp)") auto
    qed
  qed
  then show ?case using IH one(1) by simp
qed

text \<open>The rows that end request \<open>s\<close> of group \<open>g\<close> in a round with outputs \<open>outs\<close> of the last stage.\<close>

definition round_rows :: "nat \<Rightarrow> nat \<Rightarrow> nat \<Rightarrow> fragment_metadata option list \<Rightarrow> runner_out list \<Rightarrow> int list list" where
  "round_rows tp g s metadata outs =
     (if g < length outs then (case metadata ! (g * tp) of None \<Rightarrow> [] | Some md \<Rightarrow> final_rows s md (ro_token_ids (outs ! g))) else [])"

lemma consume_outs_tokens:
  assumes "consume_outs pp inner tp metadata outs acc = Inr acc'"
  shows "shape acc' = shape acc" "g < length (ag_tokens acc) \<Longrightarrow> s < length (ag_tokens acc ! g) \<Longrightarrow>
    ag_tokens acc' ! g ! s = last (ag_tokens acc ! g ! s # round_rows tp g s metadata (last_stage pp inner tp outs))"
proof -
  note all = consume_groups_tokens [of tp metadata 0 "last_stage pp inner tp outs" acc acc', unfolded add_0 diff_zero, OF assms [unfolded consume_outs_def]]
  show "shape acc' = shape acc" using all by blast
  show "ag_tokens acc' ! g ! s = last (ag_tokens acc ! g ! s # round_rows tp g s metadata (last_stage pp inner tp outs))"
    if "g < length (ag_tokens acc)" "s < length (ag_tokens acc ! g)"
    using all that unfolding round_rows_def by (simp del: last.simps)
qed

lemma consume_groups_total:
  assumes "\<And>g. a \<le> g \<Longrightarrow> g < a + length outs \<Longrightarrow> g * tp < length metadata \<and> g < length (ag_tokens acc)"
  shows "\<exists>acc'. fold_res (consume_group tp metadata) (zip [a..<a + length outs] outs) acc = Inr acc'"
  using assms
proof (induction outs arbitrary: a acc)
  case (Cons out outs)
  have zip: "zip [a..<a + length (out # outs)] (out # outs) = (a, out) # zip [Suc a..<Suc a + length outs] outs"
    by (simp add: upt_conv_Cons del: upt_Suc)
  have "a * tp < length metadata \<and> a < length (ag_tokens acc)" using Cons.prems [of a] by simp
  then have "\<exists>acc1. consume_group tp metadata (a, out) acc = Inr acc1"
    by (cases "metadata ! (a * tp)") (auto simp: consume_group_def Let_def)
  then obtain acc1 where s: "consume_group tp metadata (a, out) acc = Inr acc1" by blast
  then have "length (ag_tokens acc1) = length (ag_tokens acc)" using consume_group_tokens(1) [OF s] unfolding shape_def by (metis length_map)
  then obtain acc' where "fold_res (consume_group tp metadata) (zip [Suc a..<Suc a + length outs] outs) acc1 = Inr acc'"
    using Cons.IH [of "Suc a" acc1] Cons.prems by fastforce
  then show ?case unfolding zip using s by simp
qed simp

lemma consume_outs_total:
  assumes "\<And>g. g < length (last_stage pp inner tp outs) \<Longrightarrow> g * tp < length metadata \<and> g < length (ag_tokens acc)"
  shows "\<exists>acc'. consume_outs pp inner tp metadata outs acc = Inr acc'"
  using consume_groups_total [of 0 "last_stage pp inner tp outs" tp metadata acc] assms unfolding consume_outs_def by simp

lemma drain_total:
  assumes "\<And>item. item \<in> set items \<Longrightarrow> outs_at worker calls (fst item) = Inr (outs item) \<and>
      (\<forall>g<length (last_stage pp inner tp (outs item)). g * tp < length (snd item) \<and> g < length (ag_tokens acc))"
  shows "\<exists>acc'. drain worker pp inner tp calls items acc = Inr acc' \<and> shape acc' = shape acc \<and>
    (\<forall>g<length (ag_tokens acc). \<forall>s<length (ag_tokens acc ! g). ag_tokens acc' ! g ! s =
       last (ag_tokens acc ! g ! s # concat (map (\<lambda>item. round_rows tp g s (snd item) (last_stage pp inner tp (outs item))) items)))"
  using assms
proof (induction items arbitrary: acc)
  case Nil
  then show ?case by (simp add: drain_def)
next
  case (Cons item items)
  have it: "outs_at worker calls (fst item) = Inr (outs item)" "\<And>g. g < length (last_stage pp inner tp (outs item)) \<Longrightarrow> g * tp < length (snd item) \<and> g < length (ag_tokens acc)"
    using Cons.prems [of item] by simp_all
  obtain acc1 where a1: "consume_outs pp inner tp (snd item) (outs item) acc = Inr acc1" using consume_outs_total [of pp inner tp "outs item" "snd item" acc, OF it(2)] by blast
  note one = consume_outs_tokens [OF a1]
  have len: "length (ag_tokens acc1) = length (ag_tokens acc)" "g < length (ag_tokens acc) \<Longrightarrow> length (ag_tokens acc1 ! g) = length (ag_tokens acc ! g)" for g
    using one(1) unfolding shape_def by (metis length_map, metis length_map nth_map)
  obtain acc' where IH: "drain worker pp inner tp calls items acc1 = Inr acc'" "shape acc' = shape acc1"
      "\<forall>g<length (ag_tokens acc1). \<forall>s<length (ag_tokens acc1 ! g). ag_tokens acc' ! g ! s =
       last (ag_tokens acc1 ! g ! s # concat (map (\<lambda>item. round_rows tp g s (snd item) (last_stage pp inner tp (outs item))) items))"
    using Cons.IH [of acc1] Cons.prems len(1) by auto
  have "drain worker pp inner tp calls (item # items) acc = Inr acc'" using IH(1) it(1) a1 by (simp add: drain_def)
  moreover have "ag_tokens acc' ! g ! s = last (ag_tokens acc ! g ! s # concat (map (\<lambda>item. round_rows tp g s (snd item) (last_stage pp inner tp (outs item))) (item # items)))"
    if "g < length (ag_tokens acc)" "s < length (ag_tokens acc ! g)" for g s
    using IH(3) one(2) [of g s] len that by (simp add: last_Cons_append del: last.simps)
  ultimately show ?case using IH(2) one(1) by (intro exI [of _ acc']) simp
qed

subsection \<open>Each request ends once\<close>

lemma final_rows_none: "count_list md (s, True) = 0 \<Longrightarrow> final_rows s md toks = []"
  by (auto simp: final_rows_def count_list_0_iff filter_empty_conv dest: set_zip_leftD)

lemma final_rows_one:
  "count_list md (s, True) = 1 \<Longrightarrow> (\<And>r. r < length md \<Longrightarrow> md ! r = (s, True) \<Longrightarrow> r < length toks) \<Longrightarrow>
   \<exists>r<length md. md ! r = (s, True) \<and> final_rows s md toks = [toks ! r]"
proof (induction md arbitrary: toks)
  case (Cons f md)
  have toks: "toks \<noteq> []"
  proof -
    have "(s, True) \<in> set (f # md)" using Cons.prems(1) count_list_0_iff [of "f # md" "(s, True)"] by simp
    then obtain r where "r < length (f # md)" "(f # md) ! r = (s, True)" by (meson in_set_conv_nth)
    then show ?thesis using Cons.prems(2) by fastforce
  qed
  then obtain t ts where t: "toks = t # ts" by (cases toks) auto
  show ?case
  proof (cases "f = (s, True)")
    case True
    then have "final_rows s md ts = []" using Cons.prems(1) by (intro final_rows_none) simp
    then show ?thesis using True t by (intro exI [of _ 0]) (simp add: final_rows_def)
  next
    case False
    have "\<exists>r<length md. md ! r = (s, True) \<and> final_rows s md ts = [ts ! r]"
    proof (rule Cons.IH)
      show "count_list md (s, True) = 1" using Cons.prems(1) False by simp
      show "r < length ts" if "r < length md" "md ! r = (s, True)" for r using Cons.prems(2) [of "Suc r"] that t by simp
    qed
    then obtain r where "r < length md" "md ! r = (s, True)" "final_rows s md ts = [ts ! r]" by blast
    then show ?thesis using False t by (intro exI [of _ "Suc r"]) (simp add: final_rows_def)
  qed
qed simp

lemma rounds_final_one:
  assumes "count_list (concat mds) (s, True) = 1" "\<And>k r. k < length mds \<Longrightarrow> r < length (mds ! k) \<Longrightarrow> mds ! k ! r = (s, True) \<Longrightarrow> r < length (T k)"
  shows "\<exists>k<length mds. \<exists>r<length (mds ! k). mds ! k ! r = (s, True) \<and> concat (map (\<lambda>k. final_rows s (mds ! k) (T k)) [0..<length mds]) = [T k ! r]"
  using assms
proof (induction mds arbitrary: T)
  case (Cons md mds)
  have split: "concat (map (\<lambda>k. final_rows s ((md # mds) ! k) (T k)) [0..<length (md # mds)]) =
      final_rows s md (T 0) @ concat (map (\<lambda>k. final_rows s (mds ! k) (T (Suc k))) [0..<length mds])"
    by (simp add: upt_conv_Cons map_Suc_upt [symmetric] comp_def del: upt_Suc map_Suc_upt)
  show ?case
  proof (cases "count_list md (s, True) = 0")
    case True
    have "\<exists>k<length mds. \<exists>r<length (mds ! k). mds ! k ! r = (s, True) \<and>
        concat (map (\<lambda>k. final_rows s (mds ! k) (T (Suc k))) [0..<length mds]) = [T (Suc k) ! r]"
    proof (rule Cons.IH)
      show "count_list (concat mds) (s, True) = 1" using Cons.prems(1) True by simp
      show "r < length (T (Suc k))" if "k < length mds" "r < length (mds ! k)" "mds ! k ! r = (s, True)" for k r
        using Cons.prems(2) [of "Suc k" r] that by simp
    qed
    then obtain k r where "k < length mds" "r < length (mds ! k)" "mds ! k ! r = (s, True)"
        "concat (map (\<lambda>k. final_rows s (mds ! k) (T (Suc k))) [0..<length mds]) = [T (Suc k) ! r]" by blast
    then show ?thesis unfolding split final_rows_none [OF True] by (intro exI [of _ "Suc k"]) auto
  next
    case False
    then have c: "count_list md (s, True) = 1" "count_list (concat mds) (s, True) = 0" using Cons.prems(1) by auto
    then obtain r where r: "r < length md" "md ! r = (s, True)" "final_rows s md (T 0) = [T 0 ! r]"
      using final_rows_one [OF c(1), of "T 0"] Cons.prems(2) [of 0] by auto
    have "final_rows s (mds ! k) (T (Suc k)) = []" if "k < length mds" for k
      using c(2) that by (intro final_rows_none) (auto simp: count_list_0_iff dest: nth_mem)
    then show ?thesis unfolding split using r by (intro exI [of _ 0]) auto
  qed
qed simp

lemma count_concat: "count_list (concat xss) x = sum_list (map (\<lambda>xs. count_list xs x) xss)"
  by (induction xss) auto

lemma fragments_count:
  assumes "fragments s' toks F"
  shows "count_list (map fst F) (s, True) = (if s' = s \<and> toks \<noteq> [] then 1 else 0)"
proof (cases "s' = s")
  case False
  then have "(s, True) \<notin> set (map fst F)" using assms by (auto simp: fragments_def list_all_iff)
  then show ?thesis using False by (simp add: count_list_0_iff)
next
  case True
  have fst: "map fst F = map (\<lambda>b. (s, b)) (map (\<lambda>r. snd (fst r)) F)"
  proof -
    have "\<forall>r\<in>set F. fst r = (s, snd (fst r))" using assms True by (auto simp: fragments_def list_all_iff)
    then show ?thesis by (simp add: comp_def)
  qed
  have flags: "map (\<lambda>r. snd (fst r)) F = (if toks = [] then [] else replicate (length F - 1) False @ [True])" using assms by (simp add: fragments_def)
  have "count_list (map (\<lambda>b. (s, b)) (replicate n False)) (s, True) = 0" for n by (simp add: count_list_0_iff)
  then show ?thesis unfolding fst flags using True by simp
qed

lemma sum_list_single: "i < length xs \<Longrightarrow> (\<And>j. j < length xs \<Longrightarrow> j \<noteq> i \<Longrightarrow> xs ! j = 0) \<Longrightarrow> sum_list xs = (xs ! i :: nat)"
  by (subst sum_list_sum_nth) (simp add: sum.remove [of _ i])

lemma request_ends_once:
  assumes "packable M batch" "s < length (wb_seq_lens batch)" "0 < wb_seq_lens batch ! s"
  shows "\<exists>mbs. prefill_microbatches M batch = Inr mbs \<and> count_list (concat (map snd mbs)) (s, True) = 1 \<and>
    (\<forall>k<length mbs. length (snd (mbs ! k)) = length (wb_seq_lens (fst (mbs ! k))) \<and>
       (\<forall>r<length (snd (mbs ! k)). snd (mbs ! k) ! r = (s, True) \<longrightarrow> wb_sample_mask (fst (mbs ! k)) ! r = get_or (wb_sample_mask batch) s True))"
proof -
  have "map nat (wb_seq_lens batch) ! s \<le> sum_list (map nat (wb_seq_lens batch))" using assms(2) by (intro elem_le_sum_list) simp
  then have some: "0 < sum_list (map nat (wb_seq_lens batch))" using assms(2,3) by simp
  obtain mbs Fs where m: "prefill_microbatches M batch = Inr mbs" "stream_of mbs = concat Fs" "length Fs = length (wb_seq_lens batch)"
      "\<forall>s<length (wb_seq_lens batch). fragments s (batch_rows batch ! s) (Fs ! s)" "list_all (\<lambda>bm. row_data batch bm \<and> batch_ok bm \<and> row_order (snd bm)) mbs"
    using microbatches_shape [OF assms(1) some] by blast
  have len: "length (snd bm) = length (wb_seq_lens (fst bm))" if "bm \<in> set mbs" for bm using m(5) that by (auto simp: list_all_iff batch_ok_def)
  then have "map (\<lambda>bm. map fst (rows bm)) mbs = map snd mbs" by (auto simp: rows_def batch_rows_def)
  then have "concat (map snd mbs) = map fst (stream_of mbs)" unfolding stream_of_def map_concat map_map comp_def by (rule arg_cong [OF sym])
  also have "\<dots> = concat (map (map fst) Fs)" using m(2) by (simp add: map_concat)
  finally have eq: "count_list (concat (map snd mbs)) (s, True) = sum_list (map (\<lambda>F. count_list (map fst F) (s, True)) Fs)"
    by (simp add: count_concat comp_def)
  have row: "batch_rows batch ! s \<noteq> []" unfolding batch_rows_def using assms by (intro ragged_nonempty) (auto simp: packable_def)
  have each: "map (\<lambda>F. count_list (map fst F) (s, True)) Fs ! i = (if i = s then 1 else 0)" if "i < length Fs" for i
    using that m(3,4) fragments_count [of i "batch_rows batch ! i" "Fs ! i" s] row by auto
  have "sum_list (map (\<lambda>F. count_list (map fst F) (s, True)) Fs) = 1"
    using sum_list_single [of s "map (\<lambda>F. count_list (map fst F) (s, True)) Fs"] each assms(2) m(3) by simp
  moreover have "wb_sample_mask (fst bm) ! r = get_or (wb_sample_mask batch) s True" if "bm \<in> set mbs" "r < length (snd bm)" "snd bm ! r = (s, True)" for bm r
    using m(5) that by (auto simp: list_all_iff row_data_def)
  ultimately show ?thesis using m(1) eq len by (intro exI [of _ mbs]) auto
qed

subsection \<open>The outputs of the pipeline\<close>

lemma submit_all_full:
  assumes "submit_all rounds calls = (items, C)" "\<And>r. r \<in> set rounds \<Longrightarrow> length (fst r) = length calls"
  shows "length items = length rounds \<and> (\<forall>w<length calls. C ! w = calls ! w @ map (\<lambda>r. fst r ! w) rounds) \<and>
    (\<forall>k<length rounds. items ! k = (map (\<lambda>w. (w, length (calls ! w) + k)) [0..<length calls], snd (rounds ! k)))"
  using assms
proof (induction rounds arbitrary: calls items)
  case (Cons r rounds)
  obtain ps m where r: "r = (ps, m)" by (cases r)
  obtain items1 where i: "submit_all rounds (send ps calls) = (items1, C)" "items = (handle_of ps calls, m) # items1"
    using Cons.prems(1) r by (auto split: prod.splits)
  have ps: "length ps = length calls" using Cons.prems(2) [of r] r by simp
  note IH = Cons.IH [OF i(1)]
  have "length items1 = length rounds" "\<forall>w<length calls. C ! w = send ps calls ! w @ map (\<lambda>r. fst r ! w) rounds"
    and it: "\<forall>k<length rounds. items1 ! k = (map (\<lambda>w. (w, length (send ps calls ! w) + k)) [0..<length calls], snd (rounds ! k))"
    using IH Cons.prems(2) by auto
  moreover have h: "handle_of ps calls = map (\<lambda>w. (w, length (calls ! w) + 0)) [0..<length calls]"
    using ps by (auto simp: handle_of_def intro: nth_equalityI)
  moreover have "items ! k = (map (\<lambda>w. (w, length (calls ! w) + k)) [0..<length calls], snd ((r # rounds) ! k))" if "k < length (r # rounds)" for k
    using that h it i(2) r ps by (cases k) (auto simp: nth_send intro!: map_cong)
  ultimately show ?case using i(2) r ps by (auto simp: nth_send)
qed simp

lemma last_stage_map:
  assumes "0 < tp" "0 < pp" "inner = groups * tp"
  shows "last_stage pp inner tp (map f [0..<pp * inner]) = map (\<lambda>g. f ((pp - 1) * inner + g * tp)) [0..<groups]"
proof -
  have len: "pp * inner - (pp - 1) * inner = inner" using assms(2) by (cases pp) auto
  have div: "(groups * tp + tp - 1) div tp = groups" using assms(1) by (cases tp) (auto simp: div_nat_eqI)
  have less: "(pp - 1) * inner + g * tp < pp * inner" if "g < groups" for g
  proof -
    have "g * tp < inner" using that assms(1,3) by simp
    then show ?thesis using len by linarith
  qed
  show ?thesis
    unfolding last_stage_def stride_def using len div less assms(3) by (auto intro!: map_cong)
qed

lemma pipeline_depth_pos: "pipeline_depth cfg transport = Inr d \<Longrightarrow> 1 \<le> d"
  by (auto simp: pipeline_depth_def Let_def split: option.splits if_splits)

lemma fold_max_ge: "b \<le> fold max xs (b :: nat) \<and> (\<forall>x\<in>set xs. x \<le> fold max xs b)"
proof (induction xs arbitrary: b)
  case (Cons x xs)
  show ?case using Cons.IH [of "max x b"] by auto
qed simp

lemma length_concat_replicate [simp]: "length (concat (replicate n xs)) = n * length xs"
  by (induction n) simp_all

lemma make_round_length: "length (fst (make_round pp cf k)) = pp * length cf" "length (snd (make_round pp cf k)) = length cf"
  by (simp_all add: make_round_def)

lemma nth_concat_replicate: "c < length xs \<Longrightarrow> p < n \<Longrightarrow> concat (replicate n xs) ! (p * length xs + c) = xs ! c"
proof (induction n arbitrary: p)
  case (Suc n)
  show ?case
  proof (cases p)
    case 0
    then show ?thesis using Suc.prems by (simp add: nth_append)
  next
    case (Suc q)
    then show ?thesis using Suc.IH [of q] Suc.prems by (simp add: nth_append add.assoc)
  qed
qed simp

lemma make_round_payload:
  assumes "c < length cf" "p < pp"
  shows "fst (make_round pp cf k) ! (p * length cf + c) = (if k < length (cf ! c) then fst (cf ! c ! k) else dummy_batch True)"
  using nth_concat_replicate [of c "map (\<lambda>fr. if k < length fr then fst (fr ! k) else dummy_batch True) cf" p pp] assms
  by (simp add: make_round_def)

lemma rounds_outs:
  assumes rounds: "rounds = map (make_round pp cells) [0..<n]" and N: "length calls = pp * length cells"
    and sub: "submit_all rounds calls = (items, C)" and replies: "\<And>w cs. cs \<noteq> [] \<Longrightarrow> worker w cs = Inr (reply w cs)"
  shows "length items = n" "k < n \<Longrightarrow> snd (items ! k) = snd (make_round pp cells k)"
    "k < n \<Longrightarrow> outs_at worker C (fst (items ! k)) = Inr (map (\<lambda>w. reply w (calls ! w @ map (\<lambda>r. fst r ! w) (take (Suc k) rounds))) [0..<length calls])"
proof -
  have "length (fst r) = length calls" if "r \<in> set rounds" for r using that N by (auto simp: rounds make_round_length simp del: prod.collapse)
  note full = submit_all_full [OF sub this]
  show "length items = n" "k < n \<Longrightarrow> snd (items ! k) = snd (make_round pp cells k)" using full by (simp_all add: rounds)
  assume k: "k < n"
  let ?h = "map (\<lambda>w. (w, length (calls ! w) + k)) [0..<length calls]" and ?hist = "\<lambda>w. calls ! w @ map (\<lambda>r. fst r ! w) (take (Suc k) rounds)"
  have "take (Suc (length (calls ! w) + k)) (C ! w) = ?hist w" if "w < length calls" for w using full that by (simp add: take_map)
  moreover have "?hist w \<noteq> []" for w using k by (simp add: rounds)
  ultimately have "mapr (\<lambda>(w, k). worker w (take (Suc k) (C ! w))) ?h = Inr (map (\<lambda>(w, _). reply w (?hist w)) ?h)"
    using replies by (intro mapr_total) auto
  moreover have "fst (items ! k) = ?h" using full k by (simp add: rounds)
  ultimately show "outs_at worker C (fst (items ! k)) = Inr (map (\<lambda>w. reply w (?hist w)) [0..<length calls])"
    by (simp add: outs_at_def comp_def)
qed

text \<open>The requests a last-stage leader has received when its \<open>k\<close>-th microbatch is done.\<close>

lemma leader_history:
  assumes "c < length cells" "0 < pp" "k < length (cells ! c)" "k < n"
  shows "map (\<lambda>r. fst r ! ((pp - 1) * length cells + c)) (take (Suc k) (map (make_round pp cells) [0..<n])) = map fst (take (Suc k) (cells ! c))"
proof (rule nth_equalityI)
  fix j assume "j < length (map (\<lambda>r. fst r ! ((pp - 1) * length cells + c)) (take (Suc k) (map (make_round pp cells) [0..<n])))"
  then have j: "j < Suc k" "j < n" "j < length (cells ! c)" using assms(3) by auto
  then show "map (\<lambda>r. fst r ! ((pp - 1) * length cells + c)) (take (Suc k) (map (make_round pp cells) [0..<n])) ! j = map fst (take (Suc k) (cells ! c)) ! j"
    using make_round_payload [OF assms(1), of "pp - 1" pp j] assms(2) by simp
qed (use assms(3,4) in simp)

lemma concat_prefix: "m \<le> n \<Longrightarrow> (\<And>k. m \<le> k \<Longrightarrow> f k = []) \<Longrightarrow> concat (map f [0..<n]) = concat (map f [0..<m])"
proof -
  assume m: "m \<le> n" and f: "\<And>k. m \<le> k \<Longrightarrow> f k = []"
  have "[0..<n] = [0..<m] @ [m..<n]" using upt_add_eq_append [of 0 m "n - m"] m by simp
  moreover have "concat (map f [m..<n]) = []" using f by simp
  ultimately show ?thesis by simp
qed

lemma request_row:
  assumes "count_list (concat (map snd fr)) (s, True) = 1" "length fr \<le> n" "\<And>k r. k < length fr \<Longrightarrow> r < length (snd (fr ! k)) \<Longrightarrow> snd (fr ! k) ! r = (s, True) \<Longrightarrow> r < length (T k)"
  shows "\<exists>k<length fr. \<exists>r<length (snd (fr ! k)). snd (fr ! k) ! r = (s, True) \<and>
    last ([] # concat (map (\<lambda>k. if k < length fr then final_rows s (snd (fr ! k)) (T k) else []) [0..<n])) = T k ! r"
proof -
  have "concat (map (\<lambda>k. if k < length fr then final_rows s (snd (fr ! k)) (T k) else []) [0..<n]) =
      concat (map (\<lambda>k. final_rows s (map snd fr ! k) (T k)) [0..<length (map snd fr)])"
  proof -
    have "map (\<lambda>k. if k < length fr then final_rows s (snd (fr ! k)) (T k) else []) [0..<length fr] =
        map (\<lambda>k. final_rows s (map snd fr ! k) (T k)) [0..<length (map snd fr)]" by simp
    then show ?thesis
      using concat_prefix [OF assms(2), of "\<lambda>k. if k < length fr then final_rows s (snd (fr ! k)) (T k) else []"] by (simp only:) simp
  qed
  moreover have "r < length (T k)" if "k < length (map snd fr)" "r < length (map snd fr ! k)" "map snd fr ! k ! r = (s, True)" for k r
    using assms(3) [of k r] that by simp
  from rounds_final_one [of "map snd fr" s T, OF assms(1) this] obtain k r where "k < length fr" "r < length (snd (fr ! k))" "snd (fr ! k) ! r = (s, True)"
      "concat (map (\<lambda>k. final_rows s (map snd fr ! k) (T k)) [0..<length (map snd fr)]) = [T k ! r]" by auto
  ultimately show ?thesis by auto
qed

text \<open>The final row of one request, over all rounds of its cell.\<close>

lemma request_result:
  assumes b: "packable M batch" "s < length (wb_seq_lens batch)" "0 < wb_seq_lens batch ! s" "get_or (wb_sample_mask batch) s True"
    and mbs: "prefill_microbatches M batch = Inr mbs" "length mbs \<le> n"
    and replies: "\<And>calls. calls \<noteq> [] \<Longrightarrow> \<forall>r<length (wb_seq_lens (last calls)). wb_sample_mask (last calls) ! r \<longrightarrow> r < length (ro_token_ids (reply calls))"
    and T: "\<And>k. k < length mbs \<Longrightarrow> T k = ro_token_ids (reply (base @ map fst (take (Suc k) mbs)))"
  shows "\<exists>k<length mbs. \<exists>r<length (snd (mbs ! k)). snd (mbs ! k) ! r = (s, True) \<and>
    last ([] # concat (map (\<lambda>k. if k < length mbs then final_rows s (snd (mbs ! k)) (T k) else []) [0..<n])) = ro_token_ids (reply (base @ map fst (take (Suc k) mbs))) ! r"
proof -
  have m: "count_list (concat (map snd mbs)) (s, True) = 1"
      "\<forall>k<length mbs. length (snd (mbs ! k)) = length (wb_seq_lens (fst (mbs ! k))) \<and>
         (\<forall>r<length (snd (mbs ! k)). snd (mbs ! k) ! r = (s, True) \<longrightarrow> wb_sample_mask (fst (mbs ! k)) ! r = get_or (wb_sample_mask batch) s True)"
    using request_ends_once [OF b(1-3)] unfolding mbs(1) by (simp_all only: sum.inject ex_simps simp_thms) blast+
  have "r < length (T k)" if "k < length mbs" "r < length (snd (mbs ! k))" "snd (mbs ! k) ! r = (s, True)" for k r
    using replies [of "base @ map fst (take (Suc k) mbs)"] m(2) that b(4) T [OF that(1)] by (simp add: take_Suc_conv_app_nth)
  from request_row [of mbs s n T, OF m(1) mbs(2) this] obtain k r where "k < length mbs" "r < length (snd (mbs ! k))" "snd (mbs ! k) ! r = (s, True)"
      "last ([] # concat (map (\<lambda>k. if k < length mbs then final_rows s (snd (mbs ! k)) (T k) else []) [0..<n])) = T k ! r" by blast
  then show ?thesis unfolding T [OF \<open>k < length mbs\<close>] by blast
qed

text \<open>C6: The bounded prefill pipeline returns the right tokens. With more than one microbatch per cell, workers whose
  answers reach at least to the last sampled row, and any admissible depth, the run succeeds; it never has
  more than \<open>depth\<close> forwards in flight; and for every sampled request with tokens the driver returns exactly the row the
  last stage's leader of its group computed for the microbatch in which the request's final fragment sits, after
  that worker processed all earlier microbatches of the cell in order. Depth and interleaving do not matter.\<close>

theorem static_pp_prefill_result:
  assumes cfg: "tp = ec_attention_tp cfg" "pp = ec_pp cfg" "M = ec_max_num_batched_tokens cfg"
    and pos: "0 < tp" "0 < pp" and shp: "length batches = length groups * tp" "length (ex_calls ex) = pp * length batches"
    and cells: "mapr (prefill_microbatches M) batches = Inr cells" and many: "\<exists>fr\<in>set cells. 1 < length fr"
    and replies: "\<And>w calls. calls \<noteq> [] \<Longrightarrow> worker w calls = Inr (reply w calls) \<and>
      (\<forall>r<length (wb_seq_lens (last calls)). wb_sample_mask (last calls) ! r \<longrightarrow> r < length (ro_token_ids (reply w calls)))"
    and depth: "pipeline_depth cfg transport = Inr depth"
  shows "\<exists>outs ex'. run_static_pp_prefill_pipeline worker cfg transport groups batches (length batches) ex = Inr (outs, ex') \<and>
    length outs = length groups \<and> ex_peak ex' \<le> max (ex_peak ex) (ex_outstanding ex + depth) \<and> ex_outstanding ex' = ex_outstanding ex \<and>
    (\<forall>g<length groups. \<forall>s<length (groups ! g).
       packable M (batches ! (g * tp)) \<and> s < length (wb_seq_lens (batches ! (g * tp))) \<and> 0 < wb_seq_lens (batches ! (g * tp)) ! s \<and>
         get_or (wb_sample_mask (batches ! (g * tp))) s True \<longrightarrow>
       (\<exists>k<length (cells ! (g * tp)). \<exists>r<length (snd (cells ! (g * tp) ! k)).
          snd (cells ! (g * tp) ! k) ! r = (s, True) \<and>
          ro_token_ids (outs ! g) ! s =
            ro_token_ids (reply ((pp - 1) * length batches + g * tp)
              (ex_calls ex ! ((pp - 1) * length batches + g * tp) @ map fst (take (Suc k) (cells ! (g * tp))))) ! r))"
proof -
  let ?inner = "length batches" and ?w = "\<lambda>g. (pp - 1) * length batches + g * tp"
  define n where "n = fold max (map length cells) (if cells = [] then 1 else 0)"
  define rounds where "rounds = map (make_round pp cells) [0..<n]"
  have lc: "length cells = ?inner" using mapr_Inr_length [OF cells] .
  have le_n: "length fr \<le> n" if "fr \<in> set cells" for fr using fold_max_ge [of _ "map length cells"] that by (auto simp: n_def)
  have n: "1 < n" using many le_n by (meson less_le_trans)
  obtain items C where sub: "submit_all rounds (ex_calls ex) = (items, C)" by (cases "submit_all rounds (ex_calls ex)")
  have N: "length (ex_calls ex) = pp * length cells" using shp(2) lc by simp
  define hist where "hist w k = ex_calls ex ! w @ map (\<lambda>r. fst r ! w) (take (Suc k) rounds)" for w k
  note ro = rounds_outs [OF rounds_def N sub, of worker reply, folded hist_def]
  have outs: "length items = n" "\<And>k. k < n \<Longrightarrow> snd (items ! k) = snd (make_round pp cells k)"
      "\<And>k. k < n \<Longrightarrow> outs_at worker C (fst (items ! k)) = Inr (map (\<lambda>w. reply w (hist w k)) [0..<pp * ?inner])"
    using ro replies N lc by auto
  define os where "os item = projr (outs_at worker C (fst item))" for item :: "handle \<times> fragment_metadata option list"
  define acc where "acc = new_aggregate groups"
  have acc: "length (ag_tokens acc) = length groups" "\<And>g. g < length groups \<Longrightarrow> length (ag_tokens acc ! g) = length (groups ! g)"
      "\<And>g s. g < length groups \<Longrightarrow> s < length (groups ! g) \<Longrightarrow> ag_tokens acc ! g ! s = []"
    by (simp_all add: acc_def new_aggregate_def)
  have stage: "last_stage pp ?inner tp (os (items ! k)) = map (\<lambda>g. reply (?w g) (hist (?w g) k)) [0..<length groups]" if "k < n" for k
    using last_stage_map [OF pos shp(1), of "\<lambda>w. reply w (hist w k)"] outs(3) [OF that] by (simp add: os_def)
  have cell: "g * tp < ?inner" if "g < length groups" for g using that pos(1) shp(1) by simp
  have "outs_at worker C (fst item) = Inr (os item) \<and>
      (\<forall>g<length (last_stage pp ?inner tp (os item)). g * tp < length (snd item) \<and> g < length (ag_tokens acc))" if it: "item \<in> set items" for item
  proof -
    obtain k where k: "k < n" "item = items ! k" using it outs(1) by (auto simp: in_set_conv_nth)
    then show ?thesis using outs(2,3) [OF k(1)] stage [OF k(1)] cell acc(1) lc by (simp add: os_def make_round_length)
  qed
  from drain_total [OF this] obtain acc' where dr: "drain worker pp ?inner tp C items acc = Inr acc'" "shape acc' = shape acc"
    "\<forall>g<length (ag_tokens acc). \<forall>s<length (ag_tokens acc ! g). ag_tokens acc' ! g ! s =
       last (ag_tokens acc ! g ! s # concat (map (\<lambda>item. round_rows tp g s (snd item) (last_stage pp ?inner tp (os item))) items))" by blast
  have "0 < depth" using pipeline_depth_pos [OF depth] by simp
  then obtain peak where peak: "peak \<le> max (ex_peak ex) (ex_outstanding ex + depth)" "pipeline worker pp ?inner tp depth rounds [] (ex, acc) =
      Inr (\<lparr>ex_calls = C, ex_outstanding = ex_outstanding ex, ex_peak = peak\<rparr>, acc')"
    using pipeline_is_serial [OF sub, of "[]" depth "ex_outstanding ex" worker pp ?inner tp acc] dr(1) by auto
  have run: "run_static_pp_prefill_pipeline worker cfg transport groups batches ?inner ex =
      Inr (aggregate_outs (length groups) acc', \<lparr>ex_calls = C, ex_outstanding = ex_outstanding ex, ex_peak = peak\<rparr>)"
    unfolding run_static_pp_prefill_pipeline_def Let_def cfg [symmetric] cells
    using depth peak(2) n by (simp add: n_def [symmetric] rounds_def [symmetric] acc_def [symmetric])
  have "\<exists>k<length (cells ! (g * tp)). \<exists>r<length (snd (cells ! (g * tp) ! k)). snd (cells ! (g * tp) ! k) ! r = (s, True) \<and>
      ag_tokens acc' ! g ! s = ro_token_ids (reply (?w g) (ex_calls ex ! ?w g @ map fst (take (Suc k) (cells ! (g * tp))))) ! r"
    if g: "g < length groups" "s < length (groups ! g)" and b: "packable M (batches ! (g * tp))" "s < length (wb_seq_lens (batches ! (g * tp)))" "0 < wb_seq_lens (batches ! (g * tp)) ! s"
      and sampled: "get_or (wb_sample_mask (batches ! (g * tp))) s True" for g s
  proof -
    let ?c = "g * tp"
    let ?T = "\<lambda>k. ro_token_ids (reply (?w g) (hist (?w g) k))"
    have c: "?c < length cells" using cell [OF g(1)] lc by simp
    have h: "hist (?w g) k = ex_calls ex ! ?w g @ map fst (take (Suc k) (cells ! ?c))" if "k < length (cells ! ?c)" for k
      using leader_history [OF c pos(2) that] that le_n [OF nth_mem [OF c]] lc by (simp add: hist_def rounds_def)
    have mbs: "prefill_microbatches M (batches ! ?c) = Inr (cells ! ?c)" using mapr_Inr_nth [OF cells, of ?c] c lc by simp
    have "round_rows tp g s (snd (items ! k)) (last_stage pp ?inner tp (os (items ! k))) =
        (if k < length (cells ! ?c) then final_rows s (snd (cells ! ?c ! k)) (?T k) else [])" if "k < n" for k
      using g(1) c that by (simp add: round_rows_def stage outs(2) make_round_def)
    then have "map (\<lambda>item. round_rows tp g s (snd item) (last_stage pp ?inner tp (os item))) items =
        map (\<lambda>k. if k < length (cells ! ?c) then final_rows s (snd (cells ! ?c ! k)) (?T k) else []) [0..<n]"
      using outs(1) by (intro nth_equalityI) auto
    then have val: "ag_tokens acc' ! g ! s = last ([] # concat (map (\<lambda>k. if k < length (cells ! ?c) then final_rows s (snd (cells ! ?c ! k)) (?T k) else []) [0..<n]))"
      using dr(3) [rule_format, of g s] acc g by (simp only:)
    show ?thesis unfolding val by (rule request_result [OF b sampled mbs le_n [OF nth_mem [OF c]]]) (use replies h in auto)
  qed
  then show ?thesis using run peak(1) by (auto simp: aggregate_outs_def)
qed

text \<open>Workers that answer each row with the number of requests they have received.\<close>

definition counting_reply :: "nat \<Rightarrow> wire_batch list \<Rightarrow> runner_out" where
  "counting_reply w calls = \<lparr>ro_token_ids = map (\<lambda>_. [int w, int (length calls)]) (wb_seq_lens (last calls)), ro_logprobs = None, ro_server_handler_ns = 0\<rparr>"

definition sample_config :: engine_config where
  "sample_config = \<lparr>ec_attention_tp = 1, ec_pp = 2, ec_max_num_batched_tokens = 2, ec_pp_prefill_pipeline_depth = 0, ec_mode = ''hybrid''\<rparr>"

definition idle_executor :: "nat \<Rightarrow> executor" where
  "idle_executor n = \<lparr>ex_calls = replicate n [], ex_outstanding = 0, ex_peak = 0\<rparr>"

theorem static_pp_prefill_result_witness:
  "\<exists>outs ex'. run_static_pp_prefill_pipeline (\<lambda>w calls. Inr (counting_reply w calls)) sample_config (Some 8) [[100, 200]] [sample_batch] 1 (idle_executor 2) = Inr (outs, ex') \<and>
     length outs = 1 \<and> ex_peak ex' \<le> 2 \<and> ro_token_ids (outs ! 0) ! 0 = [1, 3]"
proof -
  obtain mbs where m: "prefill_microbatches 2 sample_batch = Inr mbs" "map snd mbs = [[(0, False)], [(0, False)], [(0, True), (1, False)], [(1, True)]]"
      "map (\<lambda>bm. length (wb_seq_lens (fst bm))) mbs = [1, 1, 2, 1]"
  proof -
    have "case prefill_microbatches 2 sample_batch of Inl e \<Rightarrow> False | Inr mbs \<Rightarrow>
        map snd mbs = [[(0, False)], [(0, False)], [(0, True), (1, False)], [(1, True)]] \<and> map (\<lambda>bm. length (wb_seq_lens (fst bm))) mbs = [1, 1, 2, 1]"
      by code_simp
    then show ?thesis using that by (auto split: sum.splits)
  qed
  have len: "length mbs = 4" using arg_cong [OF m(2), of length] by simp
  have c: "mapr (prefill_microbatches 2) [sample_batch] = Inr [mbs]" using m(1) by simp
  have d: "pipeline_depth sample_config (Some 8) = Inr 2" by code_simp
  have pk: "packable 2 sample_batch" "0 < length (wb_seq_lens sample_batch)" "0 < wb_seq_lens sample_batch ! 0" "get_or (wb_sample_mask sample_batch) 0 True" by code_simp+
  have e: "length (ex_calls (idle_executor 2)) = 2 * length [sample_batch]" "ex_calls (idle_executor 2) ! 1 = []" "ex_peak (idle_executor 2) = 0" "ex_outstanding (idle_executor 2) = 0"
    by code_simp+
  have cfg: "1 = ec_attention_tp sample_config" "2 = ec_pp sample_config" "2 = ec_max_num_batched_tokens sample_config" by (simp_all add: sample_config_def)
  have sz: "length [sample_batch] = length [[100, 200 :: nat]] * 1" by simp
  have many: "\<exists>fr\<in>set [mbs]. 1 < length fr" using len by simp
  have rep: "(Inr (counting_reply w calls) :: runner_out res) = Inr (counting_reply w calls) \<and>
      (\<forall>r<length (wb_seq_lens (last calls)). wb_sample_mask (last calls) ! r \<longrightarrow> r < length (ro_token_ids (counting_reply w calls)))"
    if "calls \<noteq> []" for w calls by (simp add: counting_reply_def)
  from static_pp_prefill_result [where worker = "\<lambda>w calls. Inr (counting_reply w calls)" and reply = counting_reply, OF cfg zero_less_one zero_less_numeral sz e(1) c many rep d]
  obtain outs ex' where run: "run_static_pp_prefill_pipeline (\<lambda>w calls. Inr (counting_reply w calls)) sample_config (Some 8) [[100, 200]] [sample_batch] (length [sample_batch]) (idle_executor 2) = Inr (outs, ex')"
      "length outs = length [[100, 200 :: nat]]" "ex_peak ex' \<le> max (ex_peak (idle_executor 2)) (ex_outstanding (idle_executor 2) + 2)"
    and all: "\<forall>g<length [[100, 200 :: nat]]. \<forall>s<length ([[100, 200 :: nat]] ! g).
       packable 2 ([sample_batch] ! (g * 1)) \<and> s < length (wb_seq_lens ([sample_batch] ! (g * 1))) \<and> 0 < wb_seq_lens ([sample_batch] ! (g * 1)) ! s \<and>
         get_or (wb_sample_mask ([sample_batch] ! (g * 1))) s True \<longrightarrow>
       (\<exists>k<length ([mbs] ! (g * 1)). \<exists>r<length (snd ([mbs] ! (g * 1) ! k)). snd ([mbs] ! (g * 1) ! k) ! r = (s, True) \<and>
          ro_token_ids (outs ! g) ! s = ro_token_ids (counting_reply ((2 - 1) * length [sample_batch] + g * 1)
              (ex_calls (idle_executor 2) ! ((2 - 1) * length [sample_batch] + g * 1) @ map fst (take (Suc k) ([mbs] ! (g * 1))))) ! r)" by blast
  have tok: "\<exists>k<length mbs. \<exists>r<length (snd (mbs ! k)). snd (mbs ! k) ! r = (0, True) \<and> ro_token_ids (outs ! 0) ! 0 = ro_token_ids (counting_reply 1 (map fst (take (Suc k) mbs))) ! r"
    using all [rule_format, of 0 0] pk e(2) by simp
  have md: "snd (mbs ! k) = map snd mbs ! k" if "k < 4" for k using that len by simp
  from tok obtain k r where k: "k < length mbs" "r < length (snd (mbs ! k))" "snd (mbs ! k) ! r = (0, True)"
    and t: "ro_token_ids (outs ! 0) ! 0 = ro_token_ids (counting_reply 1 (map fst (take (Suc k) mbs))) ! r" by blast
  have k4: "k < 4" using k(1) len by simp
  have kr: "r < length ([[(0 :: nat, False)], [(0, False)], [(0, True), (1, False)], [(1, True)]] ! k)"
      "[[(0 :: nat, False)], [(0, False)], [(0, True), (1, False)], [(1, True)]] ! k ! r = (0, True)"
    using k(2,3) unfolding md [OF k4] m(2) by (simp_all only:)
  have "k = 0 \<or> k = 1 \<or> k = 2 \<or> k = 3" using k4 by linarith
  then have "k = 2 \<and> r = 0" using kr by (elim disjE) (simp_all add: less_Suc_eq nth_Cons split: nat.splits)
  moreover have "length (wb_seq_lens (fst (mbs ! 2))) = 2" using arg_cong [OF m(3), of "\<lambda>xs. xs ! 2"] len by simp
  moreover have "last (map fst (take 3 mbs)) = fst (mbs ! 2)" using len take_Suc_conv_app_nth [of 2 mbs] by simp
  ultimately have "ro_token_ids (outs ! 0) ! 0 = [1, 3]" using t len by (simp add: counting_reply_def)
  then show ?thesis using run e(3,4) by simp
qed

end
