(* ===== verification/Host_Swap.thy ===== *)
theory Host_Swap
  imports Engine_Step
begin

section \<open>Host swaps and the scheduled step (\<open>runner/model_runner.py\<close>, \<open>executor/ray_executor.py\<close>, \<open>engine/llm_engine.py\<close>)\<close>

text \<open>
  The worker side of a host swap moves whole KV blocks between the device cache and the host cache; the executor
  hands task list \<open>i\<close> to worker \<open>i\<close>; the engine repeats the task list of a group for its tensor-parallel ranks
  and for every pipeline stage. The scheduled step runs the swaps, then the forward or the migration.
\<close>

subsection \<open>Dense tensors by value\<close>

text \<open>
  Here only the values matter, so a tensor is its shape and the value at every index. \<open>x[:, b]\<close> and \<open>x[:, :, b]\<close>
  select along dimension 1 and 2; \<open>copy_\<close> broadcasts its argument to the selected view.
\<close>

record 'a nd =
  nd_shape :: "nat list"
  nd_val :: "nat list \<Rightarrow> 'a"

definition remove_at :: "nat \<Rightarrow> 'b list \<Rightarrow> 'b list" where
  "remove_at k xs = take k xs @ drop (Suc k) xs"

definition insert_at :: "nat \<Rightarrow> 'b \<Rightarrow> 'b list \<Rightarrow> 'b list" where
  "insert_at k x xs = take k xs @ x # drop k xs"

definition resolve_index :: "nat \<Rightarrow> int \<Rightarrow> nat res" where
  "resolve_index n i = (if 0 \<le> i \<and> i < int n then Inr (nat i) else if - int n \<le> i \<and> i < 0 then Inr (nat (int n + i)) else Inl IndexError)"

definition broadcasts :: "nat list \<Rightarrow> nat list \<Rightarrow> bool" where
  "broadcasts src dst = (length src \<le> length dst \<and> list_all (\<lambda>(s, d). s = d \<or> s = 1) (zip (rev src) (rev dst)))"

definition broadcast_index :: "nat list \<Rightarrow> nat list \<Rightarrow> nat list" where
  "broadcast_index src idx = rev (map (\<lambda>(s, i). if s = 1 then 0 else i) (zip (rev src) (rev idx)))"

text \<open>\<open>dst.select(axis, i).copy_(src.select(axis, j))\<close>\<close>

definition select_copy :: "nat \<Rightarrow> 'a nd \<Rightarrow> int \<Rightarrow> 'a nd \<Rightarrow> int \<Rightarrow> 'a nd res" where
  "select_copy axis dst i src j =
     (if length (nd_shape dst) \<le> axis \<or> length (nd_shape src) \<le> axis then Inl IndexError
      else rbind (resolve_index (nd_shape dst ! axis) i) (\<lambda>i'.
           rbind (resolve_index (nd_shape src ! axis) j) (\<lambda>j'.
             if \<not> broadcasts (remove_at axis (nd_shape src)) (remove_at axis (nd_shape dst)) then Inl (ExternalError ''copy_'')
             else Inr (dst\<lparr>nd_val := \<lambda>idx. if idx ! axis = i'
                             then nd_val src (insert_at axis j' (broadcast_index (remove_at axis (nd_shape src)) (remove_at axis idx)))
                             else nd_val dst idx\<rparr>))))"

subsection \<open>The worker\<close>

record 'a swap_cache =
  sc_mode :: string
  sc_kv_cache :: "'a nd"
  sc_host_kv_cache :: "'a nd option"

definition copy_kv_block_to_host :: "int \<Rightarrow> int \<Rightarrow> 'a swap_cache \<Rightarrow> 'a swap_cache res" where
  "copy_kv_block_to_host gpu_block host_block cc =
     (case sc_host_kv_cache cc of
        None \<Rightarrow> Inl TypeError
      | Some host \<Rightarrow>
          (if sc_mode cc = ''dsv4'' then rbind (select_copy 1 host host_block (sc_kv_cache cc) gpu_block) (\<lambda>t. Inr (cc\<lparr>sc_host_kv_cache := Some t\<rparr>))
           else rbind (select_copy 2 host host_block (sc_kv_cache cc) gpu_block) (\<lambda>t. Inr (cc\<lparr>sc_host_kv_cache := Some t\<rparr>))))"

definition copy_kv_block_from_host :: "int \<Rightarrow> int \<Rightarrow> 'a swap_cache \<Rightarrow> 'a swap_cache res" where
  "copy_kv_block_from_host host_block gpu_block cc =
     (case sc_host_kv_cache cc of
        None \<Rightarrow> Inl TypeError
      | Some host \<Rightarrow>
          (if sc_mode cc = ''dsv4'' then rbind (select_copy 1 (sc_kv_cache cc) gpu_block host host_block) (\<lambda>t. Inr (cc\<lparr>sc_kv_cache := t\<rparr>))
           else rbind (select_copy 2 (sc_kv_cache cc) gpu_block host host_block) (\<lambda>t. Inr (cc\<lparr>sc_kv_cache := t\<rparr>))))"

text \<open>
  A loop that raises leaves the copies made so far, so the loops return the state beside the result. The state is
  the cache and the number of blocks copied.
\<close>

type_synonym 'a swap_state = "'a swap_cache \<times> nat"
type_synonym swap_task = "nat \<times> int list \<times> int list"

fun each :: "('x \<Rightarrow> 's \<Rightarrow> 's \<times> unit res) \<Rightarrow> 'x list \<Rightarrow> 's \<Rightarrow> 's \<times> unit res" where
  "each f [] s = (s, Inr ())"
| "each f (x # xs) s = (case f x s of (s', Inl e) \<Rightarrow> (s', Inl e) | (s', Inr _) \<Rightarrow> each f xs s')"

definition copy_step :: "(int \<Rightarrow> int \<Rightarrow> 'a swap_cache \<Rightarrow> 'a swap_cache res) \<Rightarrow> int \<times> int \<Rightarrow> 'a swap_state \<Rightarrow> 'a swap_state \<times> unit res" where
  "copy_step copy p s = (case copy (fst p) (snd p) (fst s) of Inl e \<Rightarrow> (s, Inl e) | Inr cc \<Rightarrow> ((cc, Suc (snd s)), Inr ()))"

definition swap_step :: "(int \<Rightarrow> int \<Rightarrow> 'a swap_cache \<Rightarrow> 'a swap_cache res) \<Rightarrow> swap_task \<Rightarrow> 'a swap_state \<Rightarrow> 'a swap_state \<times> unit res" where
  "swap_step copy task s =
     (case task of (_, from_blocks, to_blocks) \<Rightarrow>
        if length from_blocks \<noteq> length to_blocks then (s, Inl (ValueError ''same-size GPU/host tables''))
        else each (copy_step copy) (zip from_blocks to_blocks) s)"

definition swap_blocks :: "(int \<Rightarrow> int \<Rightarrow> 'a swap_cache \<Rightarrow> 'a swap_cache res) \<Rightarrow> swap_task list \<Rightarrow> 'a swap_cache \<Rightarrow> 'a swap_cache \<times> nat res" where
  "swap_blocks copy tasks cc =
     (if sc_host_kv_cache cc = None
      then (cc, if tasks \<noteq> [] then Inl (RuntimeErr ''host KV cache is not allocated'') else Inr 0)
      else (case each (swap_step copy) tasks (cc, 0) of
              ((cc', copied), r) \<Rightarrow> (cc', rbind r (\<lambda>_. Inr copied))))"

definition swap_out_blocks_to_host :: "swap_task list \<Rightarrow> 'a swap_cache \<Rightarrow> 'a swap_cache \<times> nat res" where
  "swap_out_blocks_to_host = swap_blocks copy_kv_block_to_host"

definition swap_in_blocks_from_host :: "swap_task list \<Rightarrow> 'a swap_cache \<Rightarrow> 'a swap_cache \<times> nat res" where
  "swap_in_blocks_from_host = swap_blocks copy_kv_block_from_host"

subsection \<open>Executor and engine\<close>

text \<open>\<open>ray.get\<close> on one call per pair of task list and worker; every worker runs its call, the first error is raised.\<close>

definition dispatch_swap :: "(swap_task list \<Rightarrow> 'a swap_cache \<Rightarrow> 'a swap_cache \<times> nat res) \<Rightarrow> swap_task list list \<Rightarrow> 'a swap_cache list \<Rightarrow> 'a swap_cache list \<times> nat list res" where
  "dispatch_swap swap per_worker_tasks workers =
     (let rs = map (\<lambda>(tasks, w). swap tasks w) (zip per_worker_tasks workers)
      in (map fst rs @ drop (length per_worker_tasks) workers, mapr snd rs))"

definition per_worker :: "nat \<Rightarrow> nat \<Rightarrow> swap_task list list \<Rightarrow> swap_task list list" where
  "per_worker tp pp tasks = replicate_for_pp (concat (map (\<lambda>group_tasks. replicate (max 1 tp) group_tasks) tasks)) pp"

text \<open>\<open>notify\<close> is the scheduler's \<open>complete_host_swap_outs\<close> or \<open>complete_host_swap_ins\<close>.\<close>

definition run_host_swap ::
  "(swap_task list \<Rightarrow> 'a swap_cache \<Rightarrow> 'a swap_cache \<times> nat res) \<Rightarrow> (swap_task list list \<Rightarrow> 's \<Rightarrow> 's) \<Rightarrow> engine_config \<Rightarrow> swap_task list list
   \<Rightarrow> 'a swap_cache list \<times> 's \<Rightarrow> ('a swap_cache list \<times> 's) \<times> unit res" where
  "run_host_swap swap notify cfg tasks st =
     (if list_all (\<lambda>group_tasks. group_tasks = []) tasks then (st, Inr ())
      else (case dispatch_swap swap (per_worker (ec_attention_tp cfg) (ec_pp cfg) tasks) (fst st) of
              (workers, Inl e) \<Rightarrow> ((workers, snd st), Inl e)
            | (workers, Inr _) \<Rightarrow> ((workers, notify tasks (snd st)), Inr ())))"

definition run_host_swap_outs ::
  "(swap_task list list \<Rightarrow> 's \<Rightarrow> 's) \<Rightarrow> engine_config \<Rightarrow> swap_task list list \<Rightarrow> 'a swap_cache list \<times> 's \<Rightarrow> ('a swap_cache list \<times> 's) \<times> unit res" where
  "run_host_swap_outs = run_host_swap swap_out_blocks_to_host"

definition run_host_swap_ins ::
  "(swap_task list list \<Rightarrow> 's \<Rightarrow> 's) \<Rightarrow> engine_config \<Rightarrow> swap_task list list \<Rightarrow> 'a swap_cache list \<times> 's \<Rightarrow> ('a swap_cache list \<times> 's) \<times> unit res" where
  "run_host_swap_ins = run_host_swap swap_in_blocks_from_host"

text \<open>
  The scheduler is a parameter: what it does when a swap is complete, the batches it serialises for a schedule
  result, and its postprocessing of the runner outputs.
\<close>

record schedule_result =
  sr_is_prefill :: bool
  sr_dp_group_seq_ids :: "nat list list"
  sr_swap_out_tasks :: "swap_task list list"
  sr_swap_in_tasks :: "swap_task list list"

record ('s, 'm) scheduler_api =
  api_complete_host_swap_outs :: "swap_task list list \<Rightarrow> 's \<Rightarrow> 's"
  api_complete_host_swap_ins :: "swap_task list list \<Rightarrow> 's \<Rightarrow> 's"
  api_serialize_run_batches :: "schedule_result \<Rightarrow> nat \<Rightarrow> 's \<Rightarrow> wire_batch list"
  api_serialize_migrate_batches :: "schedule_result \<Rightarrow> nat \<Rightarrow> 's \<Rightarrow> 'm list"
  api_postprocess :: "schedule_result \<Rightarrow> runner_out list \<Rightarrow> 's \<Rightarrow> 's"

definition run_host_swaps :: "('s, 'm) scheduler_api \<Rightarrow> engine_config \<Rightarrow> schedule_result \<Rightarrow> 'a swap_cache list \<times> 's \<Rightarrow> ('a swap_cache list \<times> 's) \<times> unit res" where
  "run_host_swaps api cfg sr st =
     (case run_host_swap_outs (api_complete_host_swap_outs api) cfg (sr_swap_out_tasks sr) st of
        (st', Inl e) \<Rightarrow> (st', Inl e)
      | (st', Inr _) \<Rightarrow> run_host_swap_ins (api_complete_host_swap_ins api) cfg (sr_swap_in_tasks sr) st')"

text \<open>
  \<open>forward\<close> is what the workers answer, given their caches at the start of the forward; \<open>writes\<close> is what the
  requests do to a worker's cache; \<open>migrate\<close> is the worker's migration. An exception ends the step; what a failed
  step leaves behind is not part of its result.
\<close>

record ('a, 's) engine_state =
  es_workers :: "'a swap_cache list"
  es_scheduler :: 's
  es_executor :: executor

definition run_forward :: "worker \<Rightarrow> engine_config \<Rightarrow> int option \<Rightarrow> schedule_result \<Rightarrow> wire_batch list \<Rightarrow> executor \<Rightarrow> (runner_out list \<times> executor) res" where
  "run_forward worker cfg transport sr batches ex =
     (let inner = length batches; pp = ec_pp cfg
      in if sr_is_prefill sr \<and> 1 < pp
         then run_static_pp_prefill_pipeline worker cfg transport (sr_dp_group_seq_ids sr) batches inner ex
         else (case run_batch_bytes_async (replicate_for_pp batches pp) ex of
                 (h, ex1) \<Rightarrow> (case run_wait_runner_outs worker h ex1 of
                   (all_outs, ex2) \<Rightarrow> rbind all_outs (\<lambda>outs. Inr (last_stage pp inner (ec_attention_tp cfg) outs, ex2)))))"

definition run_scheduled_step ::
  "('s, 'm) scheduler_api \<Rightarrow> ('a swap_cache list \<Rightarrow> worker) \<Rightarrow> (nat \<Rightarrow> wire_batch list \<Rightarrow> 'a swap_cache \<Rightarrow> 'a swap_cache)
   \<Rightarrow> ('m \<Rightarrow> 'a swap_cache \<Rightarrow> 'a swap_cache res) \<Rightarrow> engine_config \<Rightarrow> int option \<Rightarrow> schedule_result \<Rightarrow> ('a, 's) engine_state
   \<Rightarrow> (runner_out list option \<times> ('a, 's) engine_state) res" where
  "run_scheduled_step api forward writes migrate cfg transport sr st =
     (case run_host_swaps api cfg sr (es_workers st, es_scheduler st) of
        (_, Inl e) \<Rightarrow> Inl e
      | ((ws, s), Inr _) \<Rightarrow>
          (if \<not> (sr_is_prefill sr \<and> ec_mode cfg = ''decode'')
           then rbind (run_forward (forward ws) cfg transport sr (api_serialize_run_batches api sr (ec_attention_tp cfg) s) (es_executor st)) (\<lambda>(outs, ex).
                Inr (Some outs, \<lparr>es_workers = map (\<lambda>w. writes w (drop (length (ex_calls (es_executor st) ! w)) (ex_calls ex ! w)) (ws ! w)) [0..<length ws],
                                 es_scheduler = api_postprocess api sr outs s, es_executor = ex\<rparr>))
           else (let batch_bytes = replicate_for_pp (api_serialize_migrate_batches api sr (ec_attention_tp cfg) s) (ec_pp cfg)
                 in rbind (mapr (\<lambda>(m, w). migrate m w) (zip batch_bytes ws)) (\<lambda>ws'.
                    Inr (None, st\<lparr>es_workers := ws' @ drop (length batch_bytes) ws, es_scheduler := s\<rparr>)))))"

subsection \<open>Copying one block\<close>

definition fits :: "nat list \<Rightarrow> nat list \<Rightarrow> bool" where
  "fits shp idx = list_all2 (<) idx shp"

lemma resolve_index_nat: "0 \<le> i \<Longrightarrow> i < int n \<Longrightarrow> resolve_index n i = Inr (nat i)"
  by (simp add: resolve_index_def)

lemma broadcasts_refl: "broadcasts xs xs"
  by (auto simp: broadcasts_def list_all_iff set_zip)

lemma broadcast_index_id: "fits shp idx \<Longrightarrow> broadcast_index shp idx = idx"
proof -
  assume "fits shp idx"
  then have l: "length idx = length shp" "\<And>k. k < length shp \<Longrightarrow> idx ! k < shp ! k" by (auto simp: fits_def list_all2_conv_all_nth)
  have "map (\<lambda>(s, i). if s = 1 then 0 else i) (zip (rev shp) (rev idx)) = rev idx"
  proof (rule nth_equalityI)
    fix k assume "k < length (map (\<lambda>(s, i). if s = 1 then 0 else i) (zip (rev shp) (rev idx)))"
    then show "map (\<lambda>(s, i). if s = 1 then 0 else i) (zip (rev shp) (rev idx)) ! k = rev idx ! k"
      using l(1) l(2) [of "length shp - Suc k"] by (auto simp: rev_nth)
  qed (simp add: l)
  then show ?thesis by (simp add: broadcast_index_def)
qed

lemma fits_remove_at: "fits shp idx \<Longrightarrow> fits (remove_at k shp) (remove_at k idx)"
  unfolding fits_def remove_at_def by (intro list_all2_appendI) (auto intro: list_all2_takeI list_all2_dropI)

lemma insert_remove_at: "k < length xs \<Longrightarrow> insert_at k x (remove_at k xs) = xs[k := x]"
  by (simp add: insert_at_def remove_at_def upd_conv_take_nth_drop)

lemma fits_length: "fits shp idx \<Longrightarrow> length idx = length shp"
  by (simp add: fits_def list_all2_lengthD)

lemma fits_nth: "fits shp idx \<Longrightarrow> k < length shp \<Longrightarrow> idx ! k < shp ! k"
  by (simp add: fits_def list_all2_nthD2)

text \<open>Two tensors of one backend differ only in the number of blocks.\<close>

definition same_blocks :: "nat \<Rightarrow> 'a nd \<Rightarrow> 'a nd \<Rightarrow> bool" where
  "same_blocks axis s t =
     (axis < length (nd_shape s) \<and> axis < length (nd_shape t) \<and> remove_at axis (nd_shape s) = remove_at axis (nd_shape t))"

definition in_pool :: "nat \<Rightarrow> 'a nd \<Rightarrow> int \<Rightarrow> bool" where
  "in_pool axis t b = (0 \<le> b \<and> b < int (nd_shape t ! axis))"

text \<open>\<open>moved axis ps dst src t\<close>: \<open>t\<close> is \<open>dst\<close> with block \<open>to\<close> replaced by block \<open>from\<close> of \<open>src\<close>, for the pairs in turn.\<close>

definition moved :: "nat \<Rightarrow> (int \<times> int) list \<Rightarrow> 'a nd \<Rightarrow> 'a nd \<Rightarrow> 'a nd \<Rightarrow> bool" where
  "moved axis ps dst src t =
     (nd_shape t = nd_shape dst \<and>
      (\<forall>idx. fits (nd_shape dst) idx \<longrightarrow>
         nd_val t idx = (case map_of (rev (map prod.swap ps)) (int (idx ! axis)) of Some b \<Rightarrow> nd_val src (idx[axis := nat b]) | None \<Rightarrow> nd_val dst idx)))"

lemma moved_Nil [simp]: "moved axis [] dst src dst"
  by (simp add: moved_def)

lemma select_copy_moved:
  assumes "same_blocks axis src dst" "in_pool axis src f" "in_pool axis dst t"
  shows "\<exists>x. select_copy axis dst t src f = Inr x \<and> moved axis [(f, t)] dst src x"
proof -
  have "nd_val src (insert_at axis (nat f) (broadcast_index (remove_at axis (nd_shape src)) (remove_at axis idx))) = nd_val src (idx[axis := nat f])"
    if "fits (nd_shape dst) idx" for idx
    using fits_remove_at [OF that, of axis] assms(1) fits_length [OF that] by (simp add: same_blocks_def broadcast_index_id insert_remove_at)
  then show ?thesis using assms by (auto simp: select_copy_def same_blocks_def in_pool_def resolve_index_nat broadcasts_refl moved_def)
qed

lemma moved_append:
  assumes "moved axis ps dst src x" "moved axis qs x src y" shows "moved axis (ps @ qs) dst src y"
  using assms by (auto simp: moved_def map_add_def split: option.splits)

text \<open>
  Both directions of a swap copy from one tensor of the cache context to the other. The interface says so once:
  \<open>copy\<close> writes \<open>dst\<close>, reads \<open>src\<close> and changes nothing else.
\<close>

locale block_copy =
  fixes copy :: "int \<Rightarrow> int \<Rightarrow> 'a swap_cache \<Rightarrow> 'a swap_cache res"
    and dst :: "'a swap_cache \<Rightarrow> 'a nd" and src :: "'a swap_cache \<Rightarrow> 'a nd" and put :: "'a nd \<Rightarrow> 'a swap_cache \<Rightarrow> 'a swap_cache"
    and axis :: "'a swap_cache \<Rightarrow> nat"
  assumes copy: "sc_host_kv_cache cc \<noteq> None \<Longrightarrow> copy f t cc = rbind (select_copy (axis cc) (dst cc) t (src cc) f) (\<lambda>x. Inr (put x cc))"
    and put_dst: "dst (put x cc) = x" and put_src: "sc_host_kv_cache cc \<noteq> None \<Longrightarrow> src (put x cc) = src cc" and put_axis: "axis (put x cc) = axis cc"
    and put_put: "put x (put y cc) = put x cc" and put_id: "sc_host_kv_cache cc \<noteq> None \<Longrightarrow> put (dst cc) cc = cc"
    and put_host: "sc_host_kv_cache cc \<noteq> None \<Longrightarrow> sc_host_kv_cache (put x cc) \<noteq> None"
begin

lemma copies:
  assumes "sc_host_kv_cache cc \<noteq> None" "same_blocks (axis cc) (src cc) (dst cc)"
    and "\<And>f t. (f, t) \<in> set ps \<Longrightarrow> in_pool (axis cc) (src cc) f \<and> in_pool (axis cc) (dst cc) t"
  shows "\<exists>x. each (copy_step copy) ps (cc, n) = ((put x cc, n + length ps), Inr ()) \<and> moved (axis cc) ps (dst cc) (src cc) x"
  using assms
proof (induction ps arbitrary: cc n)
  case Nil
  then show ?case by (intro exI [of _ "dst cc"]) (simp add: put_id)
next
  case (Cons p ps)
  obtain f t where p: "p = (f, t)" by (cases p)
  obtain x where x: "select_copy (axis cc) (dst cc) t (src cc) f = Inr x" "moved (axis cc) [(f, t)] (dst cc) (src cc) x"
    using select_copy_moved [of "axis cc" "src cc" "dst cc" f t] Cons.prems by (auto simp: p)
  have shp: "nd_shape x = nd_shape (dst cc)" using x(2) by (simp add: moved_def)
  have "\<exists>y. each (copy_step copy) ps (put x cc, Suc n) = ((put y (put x cc), Suc n + length ps), Inr ()) \<and>
      moved (axis (put x cc)) ps (dst (put x cc)) (src (put x cc)) y"
    using Cons.prems by (intro Cons.IH) (auto simp: put_axis put_dst put_src put_host same_blocks_def in_pool_def shp)
  then obtain y where y: "each (copy_step copy) ps (put x cc, Suc n) = ((put y (put x cc), Suc n + length ps), Inr ())"
      "moved (axis cc) ps x (src cc) y" using Cons.prems(1) by (auto simp: put_axis put_dst put_src)
  have "copy f t cc = Inr (put x cc)" using copy [OF Cons.prems(1)] x(1) by simp
  then have "copy_step copy p (cc, n) = ((put x cc, Suc n), Inr ())" by (simp add: p copy_step_def)
  then show ?case using y moved_append [OF x(2) y(2)] by (auto simp: p put_put)
qed

end

text \<open>The block pairs of a list of tasks.\<close>

definition task_pairs :: "swap_task list \<Rightarrow> (int \<times> int) list" where
  "task_pairs tasks = concat (map (\<lambda>(_, f, t). zip f t) tasks)"

definition task_ok :: "swap_task \<Rightarrow> bool" where
  "task_ok task = (case task of (_, f, t) \<Rightarrow> length f = length t)"

lemma task_pairs_simps [simp]: "task_pairs [] = []" "task_pairs ((s, f, t) # tasks) = zip f t @ task_pairs tasks"
  by (simp_all add: task_pairs_def)

context block_copy
begin

lemma tasks_copied:
  assumes "sc_host_kv_cache cc \<noteq> None" "same_blocks (axis cc) (src cc) (dst cc)" "\<forall>task\<in>set tasks. task_ok task"
    and "\<And>f t. (f, t) \<in> set (task_pairs tasks) \<Longrightarrow> in_pool (axis cc) (src cc) f \<and> in_pool (axis cc) (dst cc) t"
  shows "\<exists>x. each (swap_step copy) tasks (cc, n) = ((put x cc, n + length (task_pairs tasks)), Inr ()) \<and>
    moved (axis cc) (task_pairs tasks) (dst cc) (src cc) x"
  using assms
proof (induction tasks arbitrary: cc n)
  case Nil
  then show ?case by (intro exI [of _ "dst cc"]) (simp add: put_id)
next
  case (Cons task tasks)
  obtain s f t where task: "task = (s, f, t)" by (cases task)
  have len: "length f = length t" using Cons.prems(3) by (simp add: task task_ok_def)
  obtain x where x: "each (copy_step copy) (zip f t) (cc, n) = ((put x cc, n + length (zip f t)), Inr ())" "moved (axis cc) (zip f t) (dst cc) (src cc) x"
    using copies [OF Cons.prems(1,2), of "zip f t" n] Cons.prems(4) by (auto simp: task)
  have shp: "nd_shape x = nd_shape (dst cc)" using x(2) by (simp add: moved_def)
  have "\<exists>y. each (swap_step copy) tasks (put x cc, n + length (zip f t)) = ((put y (put x cc), n + length (zip f t) + length (task_pairs tasks)), Inr ()) \<and>
      moved (axis (put x cc)) (task_pairs tasks) (dst (put x cc)) (src (put x cc)) y"
    using Cons.prems by (intro Cons.IH) (auto simp: task put_axis put_dst put_src put_host same_blocks_def in_pool_def shp)
  then obtain y where y: "each (swap_step copy) tasks (put x cc, n + length (zip f t)) = ((put y (put x cc), n + length (zip f t) + length (task_pairs tasks)), Inr ())"
      "moved (axis cc) (task_pairs tasks) x (src cc) y" using Cons.prems(1) by (auto simp: put_axis put_dst put_src)
  have "swap_step copy task (cc, n) = ((put x cc, n + length (zip f t)), Inr ())" using x(1) len by (simp add: swap_step_def task)
  then show ?case using y moved_append [OF x(2) y(2)] by (auto simp: task put_put)
qed

lemma swap_blocks_moved:
  assumes "sc_host_kv_cache cc \<noteq> None" "same_blocks (axis cc) (src cc) (dst cc)" "\<forall>task\<in>set tasks. task_ok task"
    and "\<And>f t. (f, t) \<in> set (task_pairs tasks) \<Longrightarrow> in_pool (axis cc) (src cc) f \<and> in_pool (axis cc) (dst cc) t"
  shows "\<exists>x. swap_blocks copy tasks cc = (put x cc, Inr (length (task_pairs tasks))) \<and> moved (axis cc) (task_pairs tasks) (dst cc) (src cc) x"
  using tasks_copied [OF assms, of 0] assms(1) by (auto simp: swap_blocks_def)

end

definition block_axis :: "'a swap_cache \<Rightarrow> nat" where
  "block_axis cc = (if sc_mode cc = ''dsv4'' then 1 else 2)"

interpretation swap_out: block_copy copy_kv_block_to_host "\<lambda>cc. the (sc_host_kv_cache cc)" sc_kv_cache "\<lambda>x cc. cc\<lparr>sc_host_kv_cache := Some x\<rparr>" block_axis
  by unfold_locales (auto simp: copy_kv_block_to_host_def block_axis_def)

interpretation swap_in: block_copy copy_kv_block_from_host sc_kv_cache "\<lambda>cc. the (sc_host_kv_cache cc)" "\<lambda>x cc. cc\<lparr>sc_kv_cache := x\<rparr>" block_axis
  by unfold_locales (auto simp: copy_kv_block_from_host_def block_axis_def)

subsection \<open>Every worker gets the tasks of its group\<close>

lemma nth_concat_replicates: "0 < m \<Longrightarrow> i < length xs * m \<Longrightarrow> concat (map (replicate m) xs) ! i = xs ! (i div m)"
proof (induction xs arbitrary: i)
  case (Cons x xs)
  show ?case
  proof (cases "i < m")
    case False
    then have "i div m = Suc ((i - m) div m)" using Cons.prems(1) by (simp add: le_div_geq)
    then show ?thesis using Cons False by (simp add: nth_append)
  qed (simp add: nth_append)
qed simp

lemma length_concat_replicates [simp]: "length (concat (map (replicate m) xs)) = length xs * m"
  by (induction xs) auto

lemma length_per_worker: "0 < tp \<Longrightarrow> 0 < pp \<Longrightarrow> length (per_worker tp pp tasks) = pp * (length tasks * tp)"
  by (auto simp: per_worker_def replicate_for_pp_def)

lemma nth_per_worker:
  assumes "0 < tp" "0 < pp" "w < pp * (length tasks * tp)"
  shows "per_worker tp pp tasks ! w = tasks ! (w mod (length tasks * tp) div tp)"
proof -
  let ?xs = "concat (map (replicate tp) tasks)" and ?n = "length tasks * tp"
  have n: "0 < ?n" using assms by (cases "?n = 0") auto
  have "concat (replicate pp ?xs) ! (w div ?n * length ?xs + w mod ?n) = ?xs ! (w mod ?n)"
    using n assms(3) by (intro nth_concat_replicate) (auto simp: less_mult_imp_div_less mult.commute)
  then have "concat (replicate pp ?xs) ! w = ?xs ! (w mod ?n)" by (simp only: length_concat_replicates div_mult_mod_eq)
  then have "per_worker tp pp tasks ! w = ?xs ! (w mod ?n)"
    using assms by (cases "pp = 1") (auto simp: per_worker_def replicate_for_pp_def max_def)
  then show ?thesis using nth_concat_replicates [OF assms(1), of "w mod ?n" tasks] n by simp
qed

lemma dispatch_swap_total:
  assumes "length per = length ws" "\<And>w. w < length ws \<Longrightarrow> swap (per ! w) (ws ! w) = (x w, Inr (n w))"
  shows "dispatch_swap swap per ws = (map x [0..<length ws], Inr (map n [0..<length ws]))"
proof -
  have "map (\<lambda>(tasks, w). swap tasks w) (zip per ws) = map (\<lambda>w. (x w, Inr (n w))) [0..<length ws]"
    using assms by (intro nth_equalityI) auto
  moreover have "mapr snd (map (\<lambda>w. (x w, Inr (n w) :: nat res)) ns) = Inr (map n ns)" for ns by (induction ns) auto
  ultimately show ?thesis using assms(1) by (simp add: dispatch_swap_def comp_def)
qed

text \<open>
  One direction of a swap, over all workers: worker \<open>w\<close> performs the tasks of its group. Nothing is dispatched when
  every group is empty, which leaves the workers as the empty task lists would.
\<close>

lemma run_host_swap_total:
  assumes pos: "0 < ec_attention_tp cfg" "0 < ec_pp cfg" and n: "length ws = ec_pp cfg * (length tasks * ec_attention_tp cfg)"
    and ok: "\<And>w. w < length ws \<Longrightarrow> swap (tasks ! (w mod (length tasks * ec_attention_tp cfg) div ec_attention_tp cfg)) (ws ! w) = (x w, Inr (k w))"
    and none: "\<And>w. w < length ws \<Longrightarrow> swap [] (ws ! w) = (ws ! w, Inr 0)"
  shows "\<exists>s'. run_host_swap swap notify cfg tasks (ws, s) = ((map x [0..<length ws], s'), Inr ())"
proof (cases "list_all (\<lambda>group_tasks. group_tasks = []) tasks")
  case True
  have "x w = ws ! w" if w: "w < length ws" for w
  proof -
    have "w mod (length tasks * ec_attention_tp cfg) div ec_attention_tp cfg < length tasks"
      using w n pos by (cases "length tasks = 0") (auto intro!: less_mult_imp_div_less)
    then have "tasks ! (w mod (length tasks * ec_attention_tp cfg) div ec_attention_tp cfg) = []" using True by (auto simp: list_all_length)
    then show ?thesis using ok [OF w] none [OF w] by simp
  qed
  then have "map x [0..<length ws] = ws" by (intro nth_equalityI) auto
  then show ?thesis using True by (simp add: run_host_swap_def)
next
  case False
  have "dispatch_swap swap (per_worker (ec_attention_tp cfg) (ec_pp cfg) tasks) ws = (map x [0..<length ws], Inr (map k [0..<length ws]))"
    using ok n pos by (intro dispatch_swap_total) (auto simp: length_per_worker nth_per_worker)
  then show ?thesis using False by (simp add: run_host_swap_def)
qed

subsection \<open>What the swaps of a step do\<close>

text \<open>Block \<open>b\<close> of \<open>t\<close> holds what block \<open>c\<close> of \<open>u\<close> holds.\<close>

definition same_block :: "nat \<Rightarrow> 'a nd \<Rightarrow> int \<Rightarrow> 'a nd \<Rightarrow> int \<Rightarrow> bool" where
  "same_block axis t b u c =
     (\<forall>idx. fits (remove_at axis (nd_shape t)) idx \<longrightarrow> nd_val t (insert_at axis (nat b) idx) = nd_val u (insert_at axis (nat c) idx))"

lemma fits_insert_at:
  assumes "k < length shp" "b < shp ! k" "fits (remove_at k shp) idx"
  shows "fits shp (insert_at k b idx)" "insert_at k b idx ! k = b" "(insert_at k b idx)[k := c] = insert_at k c idx"
proof -
  have l: "length idx = length shp - 1" using fits_length [OF assms(3)] assms(1) by (simp add: remove_at_def)
  have i: "list_all2 (<) idx (take k shp @ drop (Suc k) shp)" using assms(3) by (simp add: fits_def remove_at_def)
  have "list_all2 (<) (take k idx) (take k shp)" using list_all2_takeI [OF i, of k] assms(1) by simp
  moreover have "list_all2 (<) (drop k idx) (drop (Suc k) shp)" using list_all2_dropI [OF i, of k] assms(1) by simp
  ultimately have "list_all2 (<) (take k idx @ b # drop k idx) (take k shp @ shp ! k # drop (Suc k) shp)" using assms(2) by (simp add: list_all2_appendI)
  then show "fits shp (insert_at k b idx)" using assms(1) by (simp add: fits_def insert_at_def id_take_nth_drop [symmetric])
  show "insert_at k b idx ! k = b" "(insert_at k b idx)[k := c] = insert_at k c idx"
    using l assms(1) by (simp_all add: insert_at_def nth_append list_update_append)
qed

lemma moved_block:
  assumes "moved axis ps dst src t" "axis < length (nd_shape dst)" "distinct (map snd ps)" "(f, b) \<in> set ps" "in_pool axis dst b"
  shows "same_block axis t b src f"
proof -
  have "map_of (rev (map prod.swap ps)) b = Some f" using assms(3,4) by (auto simp: rev_map [symmetric] comp_def intro!: map_of_is_SomeI)
  then show ?thesis using assms(1,2,5) fits_insert_at [of axis "nd_shape dst" "nat b"]
    by (auto simp: same_block_def moved_def in_pool_def)
qed

lemma moved_other:
  assumes "moved axis ps dst src t" "axis < length (nd_shape dst)" "b \<notin> set (map snd ps)" "in_pool axis dst b"
  shows "same_block axis t b dst b"
proof -
  have "map_of (rev (map prod.swap ps)) b = None" using assms(3) by (force simp: map_of_eq_None_iff)
  then show ?thesis using assms(1,2,4) fits_insert_at [of axis "nd_shape dst" "nat b"]
    by (auto simp: same_block_def moved_def in_pool_def)
qed

text \<open>The tasks name blocks of both pools, and no two of them write one block.\<close>

definition tasks_ok :: "nat \<Rightarrow> 'a nd \<Rightarrow> 'a nd \<Rightarrow> swap_task list \<Rightarrow> bool" where
  "tasks_ok axis src dst tasks =
     (list_all task_ok tasks \<and> list_all (\<lambda>(f, t). in_pool axis src f \<and> in_pool axis dst t) (task_pairs tasks) \<and> distinct (map snd (task_pairs tasks)))"

lemma tasks_okD:
  assumes "tasks_ok axis src dst tasks"
  shows "\<forall>task\<in>set tasks. task_ok task" "(f, t) \<in> set (task_pairs tasks) \<Longrightarrow> in_pool axis src f \<and> in_pool axis dst t"
  using assms by (auto simp: tasks_ok_def list_all_iff)

definition swap_ready :: "swap_task list \<Rightarrow> swap_task list \<Rightarrow> 'a swap_cache \<Rightarrow> bool" where
  "swap_ready outs ins cc =
     (case sc_host_kv_cache cc of
        None \<Rightarrow> False
      | Some host \<Rightarrow> same_blocks (block_axis cc) (sc_kv_cache cc) host \<and> tasks_ok (block_axis cc) (sc_kv_cache cc) host outs \<and>
          tasks_ok (block_axis cc) host (sc_kv_cache cc) ins)"

text \<open>\<open>swapped outs ins cc cc'\<close>: the effect of one worker's swaps, block by block.\<close>

definition transferred :: "nat \<Rightarrow> (int \<times> int) list \<Rightarrow> 'a nd \<Rightarrow> 'a nd \<Rightarrow> 'a nd \<Rightarrow> bool" where
  "transferred axis ps src dst dst' =
     (nd_shape dst' = nd_shape dst \<and> (\<forall>(f, t)\<in>set ps. same_block axis dst' t src f) \<and>
      (\<forall>b. in_pool axis dst b \<and> b \<notin> set (map snd ps) \<longrightarrow> same_block axis dst' b dst b))"

lemma moved_transferred:
  assumes "moved axis (task_pairs tasks) dst src t" "axis < length (nd_shape dst)" "tasks_ok axis src dst tasks"
  shows "transferred axis (task_pairs tasks) src dst t"
proof -
  have "nd_shape t = nd_shape dst" using assms(1) by (simp add: moved_def)
  then show ?thesis
    using assms(3) moved_block [OF assms(1,2)] moved_other [OF assms(1,2)] unfolding transferred_def tasks_ok_def list_all_iff by fast
qed

lemma worker_swapped:
  assumes "swap_ready outs ins cc"
  shows "\<exists>h g. swap_out_blocks_to_host outs cc = (cc\<lparr>sc_host_kv_cache := Some h\<rparr>, Inr (length (task_pairs outs))) \<and>
    swap_in_blocks_from_host ins (cc\<lparr>sc_host_kv_cache := Some h\<rparr>) = (cc\<lparr>sc_host_kv_cache := Some h, sc_kv_cache := g\<rparr>, Inr (length (task_pairs ins))) \<and>
    transferred (block_axis cc) (task_pairs outs) (sc_kv_cache cc) (the (sc_host_kv_cache cc)) h \<and>
    transferred (block_axis cc) (task_pairs ins) h (sc_kv_cache cc) g"
proof -
  obtain host where host: "sc_host_kv_cache cc = Some host" and sb: "same_blocks (block_axis cc) (sc_kv_cache cc) host"
    and oks: "tasks_ok (block_axis cc) (sc_kv_cache cc) host outs" "tasks_ok (block_axis cc) host (sc_kv_cache cc) ins"
    using assms by (auto simp: swap_ready_def split: option.splits)
  obtain h where h: "swap_blocks copy_kv_block_to_host outs cc = (cc\<lparr>sc_host_kv_cache := Some h\<rparr>, Inr (length (task_pairs outs)))"
      "moved (block_axis cc) (task_pairs outs) host (sc_kv_cache cc) h"
    using swap_out.swap_blocks_moved [of cc outs] host sb tasks_okD [OF oks(1)] by auto
  let ?cc = "cc\<lparr>sc_host_kv_cache := Some h\<rparr>"
  have shp: "nd_shape h = nd_shape host" using h(2) by (simp add: moved_def)
  have ax: "block_axis ?cc = block_axis cc" by (simp add: block_axis_def)
  have ok': "tasks_ok (block_axis cc) h (sc_kv_cache cc) ins" using oks(2) by (simp add: tasks_ok_def in_pool_def shp)
  obtain g where g: "swap_blocks copy_kv_block_from_host ins ?cc = (?cc\<lparr>sc_kv_cache := g\<rparr>, Inr (length (task_pairs ins)))"
      "moved (block_axis cc) (task_pairs ins) (sc_kv_cache cc) h g"
    using swap_in.swap_blocks_moved [of ?cc ins] sb tasks_okD [OF ok'] by (auto simp: ax same_blocks_def shp)
  have len: "block_axis cc < length (nd_shape host)" "block_axis cc < length (nd_shape (sc_kv_cache cc))" using sb by (auto simp: same_blocks_def)
  show ?thesis using h(1) g(1) moved_transferred [OF h(2) len(1) oks(1)] moved_transferred [OF g(2) len(2) ok'] host
    by (auto simp: swap_out_blocks_to_host_def swap_in_blocks_from_host_def)
qed

lemma swap_nothing: "swap_blocks copy [] cc = (cc, Inr 0)"
  by (simp add: swap_blocks_def)

text \<open>
  C18: the host swaps of a step succeed and move every block on every worker: for all pipeline stages and
  tensor-parallel ranks of a group, each block swapped out is in the host cache with the contents the device block had
  before the step, also when a swap-in of the same step reuses that device block; each block swapped in holds the
  contents of its host block; and every block that no task writes is unchanged.
\<close>

theorem host_swaps_move_blocks:
  assumes tp: "tp = ec_attention_tp cfg" "0 < tp" "0 < ec_pp cfg"
    and lens: "length (sr_swap_out_tasks sr) = G" "length (sr_swap_in_tasks sr) = G" "length ws = ec_pp cfg * (G * tp)"
    and ready: "\<And>w. w < length ws \<Longrightarrow> swap_ready (sr_swap_out_tasks sr ! (w mod (G * tp) div tp)) (sr_swap_in_tasks sr ! (w mod (G * tp) div tp)) (ws ! w)"
  shows "\<exists>ws' s'. run_host_swaps api cfg sr (ws, s) = ((ws', s'), Inr ()) \<and> length ws' = length ws \<and>
    (\<forall>w<length ws. \<exists>h g. ws' ! w = (ws ! w)\<lparr>sc_host_kv_cache := Some h, sc_kv_cache := g\<rparr> \<and>
       transferred (block_axis (ws ! w)) (task_pairs (sr_swap_out_tasks sr ! (w mod (G * tp) div tp))) (sc_kv_cache (ws ! w)) (the (sc_host_kv_cache (ws ! w))) h \<and>
       transferred (block_axis (ws ! w)) (task_pairs (sr_swap_in_tasks sr ! (w mod (G * tp) div tp))) h (sc_kv_cache (ws ! w)) g)"
proof -
  let ?outs = "\<lambda>w. sr_swap_out_tasks sr ! (w mod (G * tp) div tp)" and ?ins = "\<lambda>w. sr_swap_in_tasks sr ! (w mod (G * tp) div tp)"
  have "\<forall>w. \<exists>h g. w < length ws \<longrightarrow> (swap_out_blocks_to_host (?outs w) (ws ! w) = ((ws ! w)\<lparr>sc_host_kv_cache := Some h\<rparr>, Inr (length (task_pairs (?outs w)))) \<and>
      swap_in_blocks_from_host (?ins w) ((ws ! w)\<lparr>sc_host_kv_cache := Some h\<rparr>) = ((ws ! w)\<lparr>sc_host_kv_cache := Some h, sc_kv_cache := g\<rparr>, Inr (length (task_pairs (?ins w)))) \<and>
      transferred (block_axis (ws ! w)) (task_pairs (?outs w)) (sc_kv_cache (ws ! w)) (the (sc_host_kv_cache (ws ! w))) h \<and>
      transferred (block_axis (ws ! w)) (task_pairs (?ins w)) h (sc_kv_cache (ws ! w)) g)"
    using worker_swapped [OF ready] by meson
  then obtain h g where hg: "\<And>w. w < length ws \<Longrightarrow> swap_out_blocks_to_host (?outs w) (ws ! w) = ((ws ! w)\<lparr>sc_host_kv_cache := Some (h w)\<rparr>, Inr (length (task_pairs (?outs w))))"
      "\<And>w. w < length ws \<Longrightarrow> swap_in_blocks_from_host (?ins w) ((ws ! w)\<lparr>sc_host_kv_cache := Some (h w)\<rparr>) = ((ws ! w)\<lparr>sc_host_kv_cache := Some (h w), sc_kv_cache := g w\<rparr>, Inr (length (task_pairs (?ins w))))"
      "\<And>w. w < length ws \<Longrightarrow> transferred (block_axis (ws ! w)) (task_pairs (?outs w)) (sc_kv_cache (ws ! w)) (the (sc_host_kv_cache (ws ! w))) (h w)"
      "\<And>w. w < length ws \<Longrightarrow> transferred (block_axis (ws ! w)) (task_pairs (?ins w)) (h w) (sc_kv_cache (ws ! w)) (g w)"
    by metis
  define ws1 where "ws1 = map (\<lambda>w. (ws ! w)\<lparr>sc_host_kv_cache := Some (h w)\<rparr>) [0..<length ws]"
  define ws2 where "ws2 = map (\<lambda>w. (ws ! w)\<lparr>sc_host_kv_cache := Some (h w), sc_kv_cache := g w\<rparr>) [0..<length ws]"
  have "\<exists>s1. run_host_swap_outs (api_complete_host_swap_outs api) cfg (sr_swap_out_tasks sr) (ws, s) = ((ws1, s1), Inr ())"
    unfolding run_host_swap_outs_def ws1_def
    by (rule run_host_swap_total [where k = "\<lambda>w. length (task_pairs (?outs w))"]) (use tp lens hg(1) in \<open>auto simp: swap_out_blocks_to_host_def swap_nothing\<close>)
  then obtain s1 where s1: "run_host_swap_outs (api_complete_host_swap_outs api) cfg (sr_swap_out_tasks sr) (ws, s) = ((ws1, s1), Inr ())" by blast
  have l1: "length ws1 = length ws" "\<And>w. w < length ws \<Longrightarrow> ws1 ! w = (ws ! w)\<lparr>sc_host_kv_cache := Some (h w)\<rparr>" by (simp_all add: ws1_def)
  have "\<exists>s2. run_host_swap_ins (api_complete_host_swap_ins api) cfg (sr_swap_in_tasks sr) (ws1, s1) = ((ws2, s2), Inr ())"
    unfolding run_host_swap_ins_def ws2_def l1(1) [symmetric]
    by (rule run_host_swap_total [where k = "\<lambda>w. length (task_pairs (?ins w))"]) (use tp lens hg(2) l1 in \<open>auto simp: swap_in_blocks_from_host_def swap_nothing\<close>)
  then obtain s2 where s2: "run_host_swap_ins (api_complete_host_swap_ins api) cfg (sr_swap_in_tasks sr) (ws1, s1) = ((ws2, s2), Inr ())" by blast
  show ?thesis using s1 s2 hg(3,4) by (intro exI [of _ ws2] exI [of _ s2]) (auto simp: run_host_swaps_def ws2_def)
qed

definition sample_cache :: "nat list swap_cache" where
  "sample_cache = \<lparr>sc_mode = ''gqa'', sc_kv_cache = \<lparr>nd_shape = [2, 1, 3], nd_val = (\<lambda>idx. idx)\<rparr>, sc_host_kv_cache = Some \<lparr>nd_shape = [2, 1, 2], nd_val = (\<lambda>idx. 100 # idx)\<rparr>\<rparr>"

definition sample_swaps :: schedule_result where
  "sample_swaps = \<lparr>sr_is_prefill = False, sr_dp_group_seq_ids = [[5]], sr_swap_out_tasks = [[(7, [0], [1])]], sr_swap_in_tasks = [[(8, [0], [0])]]\<rparr>"

definition sample_api :: "(nat, unit) scheduler_api" where
  "sample_api = \<lparr>api_complete_host_swap_outs = (\<lambda>_. Suc), api_complete_host_swap_ins = (\<lambda>_. Suc), api_serialize_run_batches = (\<lambda>_ _ _. [sample_batch]),
     api_serialize_migrate_batches = (\<lambda>_ _ _. []), api_postprocess = (\<lambda>_ _. id)\<rparr>"

theorem host_swaps_move_blocks_witness:
  "\<exists>ws' s'. run_host_swaps sample_api sample_config sample_swaps ([sample_cache, sample_cache], 0) = ((ws', s'), Inr ()) \<and>
     nd_val (the (sc_host_kv_cache (ws' ! 1))) [1, 0, 1] = [1, 0, 0] \<and> nd_val (sc_kv_cache (ws' ! 1)) [1, 0, 0] = [100, 1, 0, 0]"
proof -
  have t: "1 = ec_attention_tp sample_config" "0 < (1 :: nat)" "0 < ec_pp sample_config" by code_simp+
  have l: "length (sr_swap_out_tasks sample_swaps) = 1" "length (sr_swap_in_tasks sample_swaps) = 1" "length [sample_cache, sample_cache] = ec_pp sample_config * (1 * 1)"
    by code_simp+
  have "swap_ready (sr_swap_out_tasks sample_swaps ! 0) (sr_swap_in_tasks sample_swaps ! 0) sample_cache" by code_simp
  then have r: "swap_ready (sr_swap_out_tasks sample_swaps ! (w mod (1 * 1) div 1)) (sr_swap_in_tasks sample_swaps ! (w mod (1 * 1) div 1)) ([sample_cache, sample_cache] ! w)"
    if "w < length [sample_cache, sample_cache]" for w using that by (auto simp: less_Suc_eq)
  have b: "block_axis sample_cache = 2" "task_pairs (sr_swap_out_tasks sample_swaps ! 0) = [(0, 1)]" "task_pairs (sr_swap_in_tasks sample_swaps ! 0) = [(0, 0)]"
    "nd_shape (sc_kv_cache sample_cache) = [2, 1, 3]" "nd_shape (the (sc_host_kv_cache sample_cache)) = [2, 1, 2]" by code_simp+
  from host_swaps_move_blocks [OF t l r, of sample_api 0] obtain ws' s' where
      run: "run_host_swaps sample_api sample_config sample_swaps ([sample_cache, sample_cache], 0) = ((ws', s'), Inr ())"
    and all: "\<forall>w<length [sample_cache, sample_cache]. \<exists>h g. ws' ! w = ([sample_cache, sample_cache] ! w)\<lparr>sc_host_kv_cache := Some h, sc_kv_cache := g\<rparr> \<and>
       transferred (block_axis ([sample_cache, sample_cache] ! w)) (task_pairs (sr_swap_out_tasks sample_swaps ! (w mod (1 * 1) div 1))) (sc_kv_cache ([sample_cache, sample_cache] ! w)) (the (sc_host_kv_cache ([sample_cache, sample_cache] ! w))) h \<and>
       transferred (block_axis ([sample_cache, sample_cache] ! w)) (task_pairs (sr_swap_in_tasks sample_swaps ! (w mod (1 * 1) div 1))) h (sc_kv_cache ([sample_cache, sample_cache] ! w)) g" by blast
  from all [rule_format, of 1] obtain h g where w: "ws' ! 1 = sample_cache\<lparr>sc_host_kv_cache := Some h, sc_kv_cache := g\<rparr>"
      "transferred 2 [(0, 1)] (sc_kv_cache sample_cache) (the (sc_host_kv_cache sample_cache)) h" "transferred 2 [(0, 0)] h (sc_kv_cache sample_cache) g"
    by (auto simp: b)
  have "fits [2, 1] [1, 0]" "remove_at 2 [2, 1, 2 :: nat] = [2, 1]" "remove_at 2 [2, 1, 3 :: nat] = [2, 1]" "insert_at 2 1 [1, 0 :: nat] = [1, 0, 1]" "insert_at 2 0 [1, 0 :: nat] = [1, 0, 0]"
    by code_simp+
  then have "nd_val h [1, 0, 1] = nd_val (sc_kv_cache sample_cache) [1, 0, 0]" "nd_val g [1, 0, 0] = nd_val h [1, 0, 0]"
      "nd_val h [1, 0, 0] = nd_val (the (sc_host_kv_cache sample_cache)) [1, 0, 0]"
    using w(2,3) by (auto simp: transferred_def same_block_def b in_pool_def)
  then show ?thesis using run w(1) by (auto simp: sample_cache_def)
qed

subsection \<open>The forward of a step\<close>

lemma run_async_full:
  assumes "length ps = length (ex_calls ex)" "\<And>w cs. cs \<noteq> [] \<Longrightarrow> worker w cs = Inr (reply w cs)"
  shows "\<exists>h ex1. run_batch_bytes_async ps ex = (h, ex1) \<and> ex_calls ex1 = map (\<lambda>w. ex_calls ex ! w @ [ps ! w]) [0..<length ps] \<and>
    run_wait_runner_outs worker h ex1 = (Inr (map (\<lambda>w. reply w (ex_calls ex ! w @ [ps ! w])) [0..<length ps]), ex1\<lparr>ex_outstanding := ex_outstanding ex\<rparr>)"
proof -
  let ?ex = "snd (run_batch_bytes_async ps ex)" and ?h = "map (\<lambda>w. (w, length (ex_calls ex ! w))) [0..<length ps]"
  have h: "fst (run_batch_bytes_async ps ex) = ?h"
    using assms(1) by (auto simp: run_batch_bytes_async_def intro: nth_equalityI)
  have c: "ex_calls ?ex = map (\<lambda>w. ex_calls ex ! w @ [ps ! w]) [0..<length ps]"
    using assms(1) by (auto simp: run_batch_bytes_async_def intro: nth_equalityI)
  have o: "ex_outstanding ?ex = Suc (ex_outstanding ex)" by (simp add: run_batch_bytes_async_def)
  have "mapr (\<lambda>(w, k). worker w (take (Suc k) (ex_calls ?ex ! w))) ?h = Inr (map (\<lambda>(w, k). reply w (take (Suc k) (ex_calls ?ex ! w))) ?h)"
    using assms(2) by (intro mapr_total) (auto simp: c)
  also have "map (\<lambda>(w, k). reply w (take (Suc k) (ex_calls ?ex ! w))) ?h = map (\<lambda>w. reply w (ex_calls ex ! w @ [ps ! w])) [0..<length ps]"
    by (auto simp: c)
  finally have "run_wait_runner_outs worker ?h ?ex = (Inr (map (\<lambda>w. reply w (ex_calls ex ! w @ [ps ! w])) [0..<length ps]), ?ex\<lparr>ex_outstanding := ex_outstanding ex\<rparr>)"
    by (simp add: run_wait_runner_outs_def o)
  moreover have "run_batch_bytes_async ps ex = (?h, ?ex)" by (simp add: h [symmetric])
  ultimately show ?thesis using c by blast
qed

lemma nth_replicate_for_pp: "c < length xs \<Longrightarrow> p < pp \<Longrightarrow> replicate_for_pp xs pp ! (p * length xs + c) = xs ! c"
  by (cases "pp = 1") (auto simp: replicate_for_pp_def nth_concat_replicate)

lemma length_replicate_for_pp: "0 < pp \<Longrightarrow> length (replicate_for_pp xs pp) = pp * length xs"
  by (cases "pp = 1") (auto simp: replicate_for_pp_def)

text \<open>
  a decode step, and a prefill on one pipeline stage, runs every worker once on the batch of its cell, after the
  swaps. The scheduler postprocesses exactly one output per group, that of the first tensor-parallel rank of the group
  on the last stage, and no request is left in flight.
\<close>

lemma scheduled_step_outputs:
  assumes cfg: "tp = ec_attention_tp cfg" "pp = ec_pp cfg" "0 < tp" "0 < pp"
    and swaps: "run_host_swaps api cfg sr (es_workers st, es_scheduler st) = ((ws, s), Inr ())"
    and run: "\<not> (sr_is_prefill sr \<and> (ec_mode cfg = ''decode'' \<or> 1 < pp))"
    and batches: "api_serialize_run_batches api sr tp s = batches" "length batches = G * tp" "length (ex_calls (es_executor st)) = pp * length batches"
    and replies: "\<And>w cs. cs \<noteq> [] \<Longrightarrow> forward ws w cs = Inr (reply w cs)"
  shows "\<exists>ws' ex. let outs = map (\<lambda>g. reply ((pp - 1) * (G * tp) + g * tp) (ex_calls (es_executor st) ! ((pp - 1) * (G * tp) + g * tp) @ [batches ! (g * tp)])) [0..<G]
    in run_scheduled_step api forward writes migrate cfg transport sr st =
         Inr (Some outs, \<lparr>es_workers = ws', es_scheduler = api_postprocess api sr outs s, es_executor = ex\<rparr>) \<and> ex_outstanding ex = ex_outstanding (es_executor st)"
proof -
  let ?ex = "es_executor st" and ?ps = "replicate_for_pp batches pp"
  have lp: "length ?ps = pp * (G * tp)" using length_replicate_for_pp [OF cfg(4), of batches] batches(2) by simp
  have "length ?ps = length (ex_calls ?ex)" using lp batches by simp
  from run_async_full [OF this, of "forward ws" reply, OF replies] obtain h ex1 where
      a: "run_batch_bytes_async ?ps ?ex = (h, ex1)"
      "run_wait_runner_outs (forward ws) h ex1 = (Inr (map (\<lambda>w. reply w (ex_calls ?ex ! w @ [?ps ! w])) [0..<pp * (G * tp)]), ex1\<lparr>ex_outstanding := ex_outstanding ?ex\<rparr>)"
    unfolding lp by blast
  have "?ps ! ((pp - 1) * (G * tp) + g * tp) = batches ! (g * tp)" if "g < G" for g
    using nth_replicate_for_pp [of "g * tp" batches "pp - 1" pp] that cfg(3,4) batches(2) by simp
  then have "last_stage pp (length batches) tp (map (\<lambda>w. reply w (ex_calls ?ex ! w @ [?ps ! w])) [0..<pp * (G * tp)]) =
      map (\<lambda>g. reply ((pp - 1) * (G * tp) + g * tp) (ex_calls ?ex ! ((pp - 1) * (G * tp) + g * tp) @ [batches ! (g * tp)])) [0..<G]"
    unfolding batches(2) last_stage_map [OF cfg(3,4) refl] by auto
  moreover define outs where "outs = map (\<lambda>g. reply ((pp - 1) * (G * tp) + g * tp) (ex_calls ?ex ! ((pp - 1) * (G * tp) + g * tp) @ [batches ! (g * tp)])) [0..<G]"
  ultimately have "run_forward (forward ws) cfg transport sr batches ?ex = Inr (outs, ex1\<lparr>ex_outstanding := ex_outstanding ?ex\<rparr>)"
    unfolding run_forward_def Let_def cfg(1,2) [symmetric] a(1) using run a(2) by auto
  then show ?thesis unfolding run_scheduled_step_def swaps cfg(1,2) [symmetric] Let_def outs_def [symmetric] using run by (auto simp: batches(1))
qed

definition sample_state :: "(nat list, nat) engine_state" where
  "sample_state = \<lparr>es_workers = [sample_cache, sample_cache], es_scheduler = 0, es_executor = idle_executor 2\<rparr>"

lemma scheduled_step_outputs_witness:
  "\<exists>ws' ex. run_scheduled_step sample_api (\<lambda>_ w calls. Inr (counting_reply w calls)) (\<lambda>_ _. id) (\<lambda>_. Inr) sample_config (Some 8) sample_swaps sample_state =
     Inr (Some [counting_reply 1 [sample_batch]], \<lparr>es_workers = ws', es_scheduler = 2, es_executor = ex\<rparr>) \<and> ex_outstanding ex = 0"
proof -
  let ?r = "run_host_swaps sample_api sample_config sample_swaps (es_workers sample_state, es_scheduler sample_state)"
  have "snd (fst ?r) = 2 \<and> snd ?r = Inr ()" by code_simp
  then have s: "?r = ((fst (fst ?r), 2), Inr ())" by (metis prod.collapse)
  have c: "1 = ec_attention_tp sample_config" "2 = ec_pp sample_config" by code_simp+
  have r: "\<not> (sr_is_prefill sample_swaps \<and> (ec_mode sample_config = ''decode'' \<or> 1 < (2 :: nat)))" by (simp add: sample_swaps_def)
  have b: "api_serialize_run_batches sample_api sample_swaps 1 2 = [sample_batch]" "length [sample_batch] = 1 * 1"
    "length (ex_calls (es_executor sample_state)) = 2 * length [sample_batch]" "es_executor sample_state = idle_executor 2"
    "ex_outstanding (idle_executor 2) = 0" "ex_calls (idle_executor 2) = [[], []]" "api_postprocess sample_api = (\<lambda>_ _. id)"
    by (simp_all add: sample_api_def sample_state_def idle_executor_def numeral_2_eq_2)
  show ?thesis
    using scheduled_step_outputs [where forward = "\<lambda>_ w calls. Inr (counting_reply w calls)" and reply = counting_reply, OF c zero_less_one zero_less_numeral s r b(1-3) refl,
        of "\<lambda>_ _. id" "\<lambda>_. Inr" "Some 8"] b by (simp add: Let_def)
qed

text \<open>A decode engine that is handed a prefill result migrates the caches and runs no forward.\<close>

lemma decode_engine_only_migrates:
  assumes "run_host_swaps api cfg sr (es_workers st, es_scheduler st) = ((ws, s), Inr ())" "sr_is_prefill sr" "ec_mode cfg = ''decode''"
    and "run_scheduled_step api forward writes migrate cfg transport sr st = Inr (outs, st')"
  shows "outs = None \<and> es_executor st' = es_executor st \<and> es_scheduler st' = s"
  using assms by (auto simp: run_scheduled_step_def res_simps Let_def)

text \<open>A swap that fails on a worker is never reported to the scheduler as complete.\<close>

lemma failed_swap_not_completed: "run_host_swap swap notify cfg tasks (ws, s) = ((ws', s'), Inl e) \<Longrightarrow> s' = s"
  by (auto simp: run_host_swap_def split: if_splits prod.splits sum.splits)

end
