(* ===== verification/Vocab_Parallel.thy ===== *)
theory Vocab_Parallel
  imports Prelude Complex_Main
begin

section \<open>Vocabulary-parallel embedding and output head (\<open>layers/embed_head.py\<close>)\<close>

text \<open>
  The rows of the embedding matrix are split over the tensor-parallel ranks. Each rank embeds the tokens of its
  part and contributes zeros for the others; the output head writes its part of the logits into a zero row. An
  all-reduce over the ranks adds the contributions. The theory models every rank's part and the collective, and
  shows that the result is the unsplit computation. Arithmetic is exact: adding zeros loses nothing.
\<close>

subsection \<open>All-reduce\<close>

text \<open>A collective maps the list of all ranks' buffers to the list of their buffers afterwards.\<close>

definition sum_ranks :: "nat \<Rightarrow> real list list \<Rightarrow> real list" where
  "sum_ranks n ts = map (\<lambda>i. \<Sum>t\<leftarrow>ts. t ! i) [0..<n]"

definition all_reduce :: "nat \<Rightarrow> real list list \<Rightarrow> real list list" where
  "all_reduce n ts = map (\<lambda>_. sum_ranks n ts) ts"

definition allreduce_chunk_size :: nat where
  "allreduce_chunk_size = 32768"

text \<open>One turn of the chunk loop, on all ranks: reduce the slice \<open>i..end\<close> and write it back.\<close>

definition reduce_chunk :: "nat \<Rightarrow> nat \<Rightarrow> nat \<Rightarrow> real list list \<Rightarrow> real list list" where
  "reduce_chunk chunk numel i ts =
     (let e = min (i + chunk) numel; slices = map (\<lambda>t. take (e - i) (drop i t)) ts
      in map (\<lambda>(t, c). take i t @ c @ drop e t) (zip ts (all_reduce (e - i) slices)))"

text \<open>\<open>range(0, numel, chunk)\<close>\<close>

definition chunk_starts :: "nat \<Rightarrow> nat \<Rightarrow> nat list" where
  "chunk_starts chunk numel = map (\<lambda>k. k * chunk) [0..<(numel + chunk - 1) div chunk]"

definition chunked_all_reduce :: "bool \<Rightarrow> bool \<Rightarrow> nat \<Rightarrow> real list list \<Rightarrow> real list list" where
  "chunked_all_reduce enabled capturing numel ts =
     (if \<not> enabled then all_reduce numel ts
      else if capturing then all_reduce numel ts
      else if numel \<le> allreduce_chunk_size then all_reduce numel ts
      else fold (reduce_chunk allreduce_chunk_size numel) (chunk_starts allreduce_chunk_size numel) ts)"

subsection \<open>Embedding\<close>

record vocab_parallel =
  vp_tp_rank :: nat
  vp_tp_size :: nat
  vp_per_partition :: nat
  vp_start :: int
  vp_end :: int

definition vocab_parallel_init :: "nat \<Rightarrow> nat \<Rightarrow> nat \<Rightarrow> vocab_parallel res" where
  "vocab_parallel_init num_embeddings tp_size tp_rank =
     (if tp_size = 0 then Inl ZeroDivisionError
      else if num_embeddings mod tp_size \<noteq> 0 then Inl AssertionError
      else (let per = num_embeddings div tp_size
            in Inr \<lparr>vp_tp_rank = tp_rank, vp_tp_size = tp_size, vp_per_partition = per,
                   vp_start = int (per * tp_rank), vp_end = int (per * tp_rank) + int per\<rparr>))"

definition weight_loader :: "vocab_parallel \<Rightarrow> real list list \<Rightarrow> real list list res" where
  "weight_loader vp loaded =
     (let shard_size = vp_per_partition vp; start_idx = vp_tp_rank vp * shard_size
      in if start_idx + shard_size \<le> length loaded then Inr (take shard_size (drop start_idx loaded)) else Inl (RuntimeErr ''narrow''))"

definition embedding :: "real list list \<Rightarrow> int list \<Rightarrow> real list list res" where
  "embedding weight x = mapr (\<lambda>i. if 0 \<le> i \<and> i < int (length weight) then Inr (weight ! nat i) else Inl IndexError) x"

definition in_part :: "vocab_parallel \<Rightarrow> int \<Rightarrow> bool" where
  "in_part vp i = (vp_start vp \<le> i \<and> i < vp_end vp)"

text \<open>The rank-local part of \<open>forward\<close>, before the all-reduce.\<close>

definition embed_local :: "vocab_parallel \<Rightarrow> real list list \<Rightarrow> int list \<Rightarrow> real list list res" where
  "embed_local vp weight x =
     (if 1 < vp_tp_size vp
      then rbind (embedding weight (map (\<lambda>i. if in_part vp i then i - vp_start vp else 0) x)) (\<lambda>y.
             Inr (map (\<lambda>(i, row). if in_part vp i then row else map (\<lambda>_. 0) row) (zip x y)))
      else embedding weight x)"

text \<open>All ranks: the parts, flattened, are reduced over the tensor-parallel group.\<close>

definition embed_forward :: "bool \<Rightarrow> bool \<Rightarrow> nat \<Rightarrow> (vocab_parallel \<times> real list list) list \<Rightarrow> int list \<Rightarrow> real list list res" where
  "embed_forward enabled capturing hidden ranks x =
     rbind (mapr (\<lambda>(vp, weight). embed_local vp weight x) ranks) (\<lambda>ys.
       Inr (if 1 < length ranks then chunked_all_reduce enabled capturing (length x * hidden) (map concat ys) else map concat ys))"

subsection \<open>Output head\<close>

text \<open>\<open>F.linear\<close> of one hidden-state row.\<close>

definition linear_row :: "real list list \<Rightarrow> real list \<Rightarrow> real list" where
  "linear_row weight h = map (\<lambda>w. \<Sum>(a, b)\<leftarrow>zip w h. a * b) weight"

definition place_shard :: "vocab_parallel \<Rightarrow> real list \<Rightarrow> real list" where
  "place_shard vp logits =
     (let v = length logits; start = vp_tp_rank vp * v
      in replicate start 0 @ logits @ replicate (v * vp_tp_size vp - (start + v)) 0)"

definition forward_all_rows :: "bool \<Rightarrow> bool \<Rightarrow> nat \<Rightarrow> (vocab_parallel \<times> real list list) list \<Rightarrow> real list list \<Rightarrow> real list option list" where
  "forward_all_rows enabled capturing vocab ranks x =
     (let parts = map (\<lambda>(vp, weight). map (linear_row weight) x) ranks
      in if 1 < length ranks
         then map (\<lambda>((vp, _), full). if vp_tp_rank vp = 0 then Some full else None)
                (zip ranks (chunked_all_reduce enabled capturing (length x * vocab) (map (\<lambda>((vp, _), rs). concat (map (place_shard vp) rs)) (zip ranks parts))))
         else map (\<lambda>rs. Some (concat rs)) parts)"

subsection \<open>The chunk loop is one all-reduce\<close>

lemma length_sum_ranks [simp]: "length (sum_ranks n ts) = n"
  by (simp add: sum_ranks_def)

lemma sum_ranks_slice:
  assumes "i + n \<le> N" and that: "\<And>t. t \<in> set ts \<Longrightarrow> length t = N"
  shows "sum_ranks n (map (\<lambda>t. take n (drop i t)) ts) = take n (drop i (sum_ranks N ts))"
proof (rule nth_equalityI)
  fix k assume k: "k < length (sum_ranks n (map (\<lambda>t. take n (drop i t)) ts))"
  have "map (\<lambda>t. take n (drop i t) ! k) ts = map (\<lambda>t. t ! (i + k)) ts" using k that assms by auto
  then have "(\<Sum>t\<leftarrow>map (\<lambda>t. take n (drop i t)) ts. t ! k) = (\<Sum>t\<leftarrow>ts. t ! (i + k))" by (simp only: map_map comp_def)
  then show "sum_ranks n (map (\<lambda>t. take n (drop i t)) ts) ! k = take n (drop i (sum_ranks N ts)) ! k"
    using k assms(1) by (simp add: sum_ranks_def del: map_map)
qed (use assms in simp)

lemma reduce_chunk_step:
  assumes "\<And>t. t \<in> set ts \<Longrightarrow> length t = N" "i \<le> N"
    and S_def: "S = sum_ranks N ts" and e_def: "e = min (i + chunk) N"
  shows "reduce_chunk chunk N i (map (\<lambda>t. take i S @ drop i t) ts) = map (\<lambda>t. take e S @ drop e t) ts"
proof -
  have ie: "i \<le> e" "e \<le> N" using assms(2) by (auto simp: e_def)
  have slices: "map (\<lambda>t. take (e - i) (drop i t)) (map (\<lambda>t. take i S @ drop i t) ts) = map (\<lambda>t. take (e - i) (drop i t)) ts"
    using assms(2) by (simp add: S_def)
  have red: "all_reduce (e - i) (map (\<lambda>t. take (e - i) (drop i t)) ts) = map (\<lambda>_. take (e - i) (drop i S)) ts"
    using sum_ranks_slice [of i "e - i" N ts] ie assms(1) by (simp add: all_reduce_def S_def comp_def)
  have "take i (take i S @ drop i t) @ take (e - i) (drop i S) @ drop e (take i S @ drop i t) = take e S @ drop e t" if "t \<in> set ts" for t
  proof -
    have "take i S @ take (e - i) (drop i S) = take e S" using take_add [of i "e - i" S] ie(1) by simp
    then show ?thesis using ie assms(2) by (simp add: S_def)
  qed
  then show ?thesis unfolding reduce_chunk_def Let_def e_def [symmetric] slices red by (simp add: zip_map1 zip_map2 zip_same_conv_map comp_def)
qed

lemma reduce_chunks:
  assumes "\<And>t. t \<in> set ts \<Longrightarrow> length t = N" "(k - 1) * chunk \<le> N"
  shows "fold (reduce_chunk chunk N) (map (\<lambda>k. k * chunk) [0..<k]) ts = map (\<lambda>t. take (min (k * chunk) N) (sum_ranks N ts) @ drop (min (k * chunk) N) t) ts"
  using assms(2)
proof (induction k)
  case (Suc k)
  have "k * chunk \<le> N" using Suc.prems by simp
  moreover from this have "(k - 1) * chunk \<le> N" by (cases k) auto
  ultimately show ?case
    using Suc.IH reduce_chunk_step [of ts N "k * chunk" "sum_ranks N ts" "min (k * chunk + chunk) N" chunk] assms(1) by (simp add: min.absorb1 add.commute)
qed simp

text \<open>
  The chunked all-reduce is the plain all-reduce. For buffers of equal length on all ranks, whatever the switches and the
  number of elements, every rank ends with the element-wise sum over all ranks; the chunks overlap nowhere and miss nothing.
\<close>

lemma chunked_reduce:
  assumes "\<And>t. t \<in> set ts \<Longrightarrow> length t = numel"
  shows "chunked_all_reduce enabled capturing numel ts = all_reduce numel ts"
proof -
  let ?C = allreduce_chunk_size
  define k where "k = (numel + ?C - 1) div ?C"
  have C: "0 < ?C" by (simp add: allreduce_chunk_size_def)
  have "numel \<le> k * ?C" "(k - 1) * ?C \<le> numel"
  proof -
    have "k * ?C = numel + ?C - 1 - (numel + ?C - 1) mod ?C" by (simp add: k_def minus_mod_eq_div_mult)
    moreover have "(numel + ?C - 1) mod ?C < ?C" using C by simp
    ultimately show "numel \<le> k * ?C" "(k - 1) * ?C \<le> numel" by (auto simp: diff_mult_distrib)
  qed
  then have "fold (reduce_chunk ?C numel) (chunk_starts ?C numel) ts = all_reduce numel ts"
    using reduce_chunks [of ts numel k ?C] assms unfolding chunk_starts_def k_def [symmetric] all_reduce_def by simp
  then show ?thesis by (simp add: chunked_all_reduce_def)
qed

subsection \<open>Splitting the vocabulary changes nothing\<close>

lemma nth_concat_rows:
  "(\<And>r. r \<in> set rs \<Longrightarrow> length r = w) \<Longrightarrow> a < length rs \<Longrightarrow> b < w \<Longrightarrow> concat rs ! (a * w + b) = rs ! a ! b"
proof (induction rs arbitrary: a)
  case (Cons r rs)
  have r: "length r = w" using Cons.prems(1) by simp
  show ?case
  proof (cases a)
    case 0
    then show ?thesis using r Cons.prems(3) by (simp add: nth_append)
  next
    case (Suc a')
    have "concat rs ! (a' * w + b) = rs ! a' ! b" by (rule Cons.IH) (use Cons.prems Suc in auto)
    then show ?thesis using r Suc by (simp add: nth_append add.assoc)
  qed
qed simp

lemma length_concat_rows: "(\<And>r. r \<in> set rs \<Longrightarrow> length r = w) \<Longrightarrow> length (concat rs) = length rs * w"
  by (induction rs) auto

text \<open>Adding the ranks' matrices, flattened, adds them row by row.\<close>

lemma sum_ranks_rows:
  assumes "\<And>r a. r < tp \<Longrightarrow> a < length x \<Longrightarrow> length (f r (x ! a)) = w"
  shows "sum_ranks (length x * w) (map (\<lambda>r. concat (map (f r) x)) [0..<tp]) = concat (map (\<lambda>i. sum_ranks w (map (\<lambda>r. f r i) [0..<tp])) x)"
proof (rule nth_equalityI)
  show "length (sum_ranks (length x * w) (map (\<lambda>r. concat (map (f r) x)) [0..<tp])) = length (concat (map (\<lambda>i. sum_ranks w (map (\<lambda>r. f r i) [0..<tp])) x))"
    by (subst length_concat_rows [where w = w]) auto
  fix j assume "j < length (sum_ranks (length x * w) (map (\<lambda>r. concat (map (f r) x)) [0..<tp]))"
  then have j: "j < length x * w" by simp
  define a b where "a = j div w" and "b = j mod w"
  have w: "0 < w" using j by (cases w) auto
  have ab: "j = a * w + b" "b < w" "a < length x" using w j by (auto simp: a_def b_def less_mult_imp_div_less)
  have "concat (map (f r) x) ! j = f r (x ! a) ! b" if "r < tp" for r
  proof -
    have "length row = w" if "row \<in> set (map (f r) x)" for row using that assms [OF \<open>r < tp\<close>] by (auto simp: in_set_conv_nth)
    then show ?thesis unfolding ab(1) using nth_concat_rows [of "map (f r) x" w a b] ab by simp
  qed
  then have "(\<Sum>t\<leftarrow>map (\<lambda>r. concat (map (f r) x)) [0..<tp]. t ! j) = (\<Sum>t\<leftarrow>map (\<lambda>r. f r (x ! a)) [0..<tp]. t ! b)"
    by (intro arg_cong [of _ _ sum_list]) auto
  moreover have "concat (map (\<lambda>i. sum_ranks w (map (\<lambda>r. f r i) [0..<tp])) x) ! j = sum_ranks w (map (\<lambda>r. f r (x ! a)) [0..<tp]) ! b"
    unfolding ab(1) by (subst nth_concat_rows [where w = w]) (use ab in auto)
  ultimately show "sum_ranks (length x * w) (map (\<lambda>r. concat (map (f r) x)) [0..<tp]) ! j = concat (map (\<lambda>i. sum_ranks w (map (\<lambda>r. f r i) [0..<tp])) x) ! j"
    using j ab(2) by (simp add: sum_ranks_def)
qed

text \<open>Only one rank contributes.\<close>

lemma sum_ranks_one:
  assumes "q < tp" "length (f q) = w" "\<And>r b. r < tp \<Longrightarrow> r \<noteq> q \<Longrightarrow> b < w \<Longrightarrow> f r ! b = 0"
  shows "sum_ranks w (map f [0..<tp]) = f q"
proof (rule nth_equalityI)
  fix b assume "b < length (sum_ranks w (map f [0..<tp]))"
  then have b: "b < w" by simp
  have "(\<Sum>t\<leftarrow>map f [0..<tp]. t ! b) = (\<Sum>r\<in>{0..<tp}. f r ! b)" by (simp add: sum_set_upt_conv_sum_list_nat [symmetric] comp_def)
  also have "\<dots> = f q ! b + (\<Sum>r\<in>{0..<tp} - {q}. f r ! b)" using assms(1) by (simp add: sum.remove)
  also have "(\<Sum>r\<in>{0..<tp} - {q}. f r ! b) = 0" using assms(3) b by (intro sum.neutral) auto
  finally show "sum_ranks w (map f [0..<tp]) ! b = f q ! b" using b by (simp add: sum_ranks_def)
qed (simp add: assms(2))

text \<open>The ranks of one group, each with its slice of the matrix.\<close>

definition part :: "nat \<Rightarrow> nat \<Rightarrow> nat \<Rightarrow> vocab_parallel" where
  "part per tp r = \<lparr>vp_tp_rank = r, vp_tp_size = tp, vp_per_partition = per, vp_start = int (per * r), vp_end = int (per * r) + int per\<rparr>"

definition shard :: "nat \<Rightarrow> 'a list \<Rightarrow> nat \<Rightarrow> 'a list" where
  "shard per W r = take per (drop (r * per) W)"

text \<open>What the constructor and the weight loader build on all ranks.\<close>

definition load_ranks :: "nat \<Rightarrow> real list list \<Rightarrow> (vocab_parallel \<times> real list list) list res" where
  "load_ranks tp W = mapr (\<lambda>r. rbind (vocab_parallel_init (length W) tp r) (\<lambda>vp. rbind (weight_loader vp W) (\<lambda>w. Inr (vp, w)))) [0..<tp]"

lemma load_ranks_eq:
  assumes "0 < tp" "length W = per * tp"
  shows "load_ranks tp W = Inr (map (\<lambda>r. (part per tp r, shard per W r)) [0..<tp])"
  unfolding load_ranks_def
proof (rule mapr_total)
  fix r assume "r \<in> set [0..<tp]"
  then have "Suc r * per \<le> tp * per" by (intro mult_le_mono1) simp
  then have "r * per + per \<le> length W" using assms(2) by (simp add: mult.commute)
  then show "rbind (vocab_parallel_init (length W) tp r) (\<lambda>vp. rbind (weight_loader vp W) (\<lambda>w. Inr (vp, w))) = Inr (part per tp r, shard per W r)"
    using assms by (simp add: vocab_parallel_init_def weight_loader_def part_def shard_def Let_def mult.commute)
qed

lemma shard_nth: "length W = per * tp \<Longrightarrow> r < tp \<Longrightarrow> b < per \<Longrightarrow> shard per W r ! b = W ! (r * per + b)"
  "length W = per * tp \<Longrightarrow> r < tp \<Longrightarrow> length (shard per W r) = per"
proof -
  assume l: "length W = per * tp" and r: "r < tp"
  have "Suc r * per \<le> tp * per" using r by (intro mult_le_mono1) simp
  then have "r * per + per \<le> length W" using l by (simp add: mult.commute)
  then show "length (shard per W r) = per" "b < per \<Longrightarrow> shard per W r ! b = W ! (r * per + b)" by (simp_all add: shard_def)
qed

definition contribution :: "nat \<Rightarrow> nat \<Rightarrow> real list list \<Rightarrow> nat \<Rightarrow> int \<Rightarrow> real list" where
  "contribution per tp W r i =
     (if in_part (part per tp r) i then shard per W r ! nat (i - int (per * r)) else map (\<lambda>_. 0) (shard per W r ! 0))"

lemma embed_local_part:
  assumes "1 < tp" "length W = per * tp" "r < tp" "0 < per"
  shows "embed_local (part per tp r) (shard per W r) x = Inr (map (contribution per tp W r) x)"
proof -
  have l: "length (shard per W r) = per" using assms by (intro shard_nth) auto
  let ?g = "\<lambda>i. if in_part (part per tp r) i then i - int (per * r) else 0"
  have emb: "embedding (shard per W r) (map ?g x) = Inr (map (\<lambda>i. shard per W r ! nat i) (map ?g x))"
    unfolding embedding_def using l assms(4) by (intro mapr_total) (auto simp: in_part_def part_def)
  have vp: "vp_tp_size (part per tp r) = tp" "vp_start (part per tp r) = int (per * r)" by (simp_all add: part_def)
  show ?thesis unfolding embed_local_def vp emb using assms(1)
    by (auto simp: contribution_def zip_map2 zip_same_conv_map)
qed

lemma token_part:
  assumes "0 < per" "length W = per * tp" "0 \<le> i" "i < int (length W)"
  shows "nat i div per < tp" "in_part (part per tp r) i \<longleftrightarrow> r = nat i div per" "nat (i - int (per * (nat i div per))) = nat i mod per"
proof -
  obtain n where n: "i = int n" using assms(3) by (rule nonneg_int_cases)
  have "n < tp * per" using assms(2,4) by (simp add: n mult.commute del: of_nat_mult)
  then show "nat i div per < tp" by (simp add: n less_mult_imp_div_less)
  have "in_part (part per tp r) i \<longleftrightarrow> per * r \<le> n \<and> n < per * r + per"
    unfolding in_part_def part_def n by (simp add: of_nat_add [symmetric] del: of_nat_mult of_nat_add)
  also have "\<dots> \<longleftrightarrow> r = n div per"
  proof
    assume "per * r \<le> n \<and> n < per * r + per"
    then show "r = n div per" by (intro div_nat_eqI [symmetric]) auto
  next
    assume "r = n div per"
    then show "per * r \<le> n \<and> n < per * r + per" using dividend_less_times_div [OF assms(1), of n] by simp
  qed
  finally show "in_part (part per tp r) i \<longleftrightarrow> r = nat i div per" by (simp add: n)
  have "i - int (per * (n div per)) = int (n - per * (n div per))" by (simp add: n of_nat_diff del: of_nat_mult)
  then show "nat (i - int (per * (nat i div per))) = nat i mod per" by (simp add: n minus_mult_div_eq_mod del: of_nat_mult)
qed

lemma sum_contributions:
  assumes "0 < per" "length W = per * tp" "\<And>row. row \<in> set W \<Longrightarrow> length row = w" "0 \<le> i" "i < int (length W)"
  shows "r < tp \<Longrightarrow> length (contribution per tp W r i) = w" "sum_ranks w (map (\<lambda>r. contribution per tp W r i) [0..<tp]) = W ! nat i"
proof -
  let ?q = "nat i div per"
  note tk = token_part [OF assms(1,2,4,5)]
  have row: "length (W ! n) = w" if "n < length W" for n using assms(3) that by simp
  have idx: "r * per + b < length W" if "r < tp" "b < per" for r b
  proof -
    have "Suc r * per \<le> tp * per" using that by (intro mult_le_mono1) simp
    then show ?thesis using that assms(2) by (simp add: mult.commute)
  qed
  have sh: "shard per W r ! b = W ! (r * per + b)" "length (shard per W r ! b) = w" if "r < tp" "b < per" for r b
    using shard_nth(1) [OF assms(2) that] row [OF idx [OF that]] by simp_all
  have own: "contribution per tp W ?q i = W ! nat i"
    using tk sh(1) [OF tk(1), of "nat i mod per"] assms(1) by (simp add: contribution_def)
  have len: "length (contribution per tp W r i) = w" if "r < tp" for r
    using that tk own row [of "nat i"] sh(2) [OF that assms(1)] assms(4,5) by (cases "r = ?q") (auto simp: contribution_def nat_less_iff)
  show "r < tp \<Longrightarrow> length (contribution per tp W r i) = w" by (rule len)
  have "contribution per tp W r i ! b = 0" if "r < tp" "r \<noteq> ?q" "b < w" for r b
    using that tk(2) [of r] sh(2) [OF that(1) assms(1)] by (simp add: contribution_def)
  then show "sum_ranks w (map (\<lambda>r. contribution per tp W r i) [0..<tp]) = W ! nat i"
    using sum_ranks_one [of ?q tp "\<lambda>r. contribution per tp W r i" w] tk(1) len [OF tk(1)] own by simp
qed

text \<open>
  C26: the vocabulary-parallel embedding is the embedding. For a matrix whose rows are split evenly over any number of ranks
  and token ids of the vocabulary, the forward succeeds and every rank holds, flattened, the rows of the full matrix.
\<close>

theorem vocab_parallel_embedding:
  assumes tp: "0 < tp" "length W = per * tp" and rows: "\<And>row. row \<in> set W \<Longrightarrow> length row = hidden"
    and ids: "\<And>i. i \<in> set x \<Longrightarrow> 0 \<le> i \<and> i < int (length W)" "x \<noteq> []"
  shows "\<exists>ranks. load_ranks tp W = Inr ranks \<and> embed_forward enabled capturing hidden ranks x = Inr (replicate tp (concat (map (\<lambda>i. W ! nat i) x)))"
proof -
  define ranks where "ranks = map (\<lambda>r. (part per tp r, shard per W r)) [0..<tp]"
  have per: "0 < per"
  proof -
    have "hd x \<in> set x" using ids(2) by simp
    then have "0 < length W" using ids(1) [of "hd x"] by linarith
    then show ?thesis using tp(2) by (cases per) auto
  qed
  have "embed_forward enabled capturing hidden ranks x = Inr (replicate tp (concat (map (\<lambda>i. W ! nat i) x)))"
  proof (cases "tp = 1")
    case True
    have "embedding W x = Inr (map (\<lambda>i. W ! nat i) x)" unfolding embedding_def using ids by (intro mapr_total) auto
    then show ?thesis using True tp(2) by (simp add: ranks_def embed_forward_def embed_local_def part_def shard_def)
  next
    case False
    then have one: "1 < tp" using tp(1) by simp
    have "mapr (\<lambda>(vp, weight). embed_local vp weight x) ranks = Inr (map (\<lambda>r. map (contribution per tp W r) x) [0..<tp])"
    proof -
      have "mapr (\<lambda>(vp, weight). embed_local vp weight x) ranks = mapr (\<lambda>r. embed_local (part per tp r) (shard per W r) x) [0..<tp]"
        unfolding ranks_def by (simp add: mapr_map_arg)
      also have "\<dots> = Inr (map (\<lambda>r. map (contribution per tp W r) x) [0..<tp])"
        using embed_local_part [OF one tp(2) _ per] by (intro mapr_total) auto
      finally show ?thesis .
    qed
    moreover define ts where "ts = map (\<lambda>r. concat (map (contribution per tp W r) x)) [0..<tp]"
    have cl: "length (contribution per tp W r i) = hidden" if "r < tp" "i \<in> set x" for r i using sum_contributions(1) [OF per tp(2) rows] ids that by blast
    have "length t = length x * hidden" if t: "t \<in> set ts" for t
    proof -
      obtain r where r: "r < tp" "t = concat (map (contribution per tp W r) x)" using t by (auto simp: ts_def)
      have "length row = hidden" if "row \<in> set (map (contribution per tp W r) x)" for row using that cl [OF r(1)] by auto
      then show ?thesis using length_concat_rows [of "map (contribution per tp W r) x" hidden] r(2) by simp
    qed
    then have "chunked_all_reduce enabled capturing (length x * hidden) ts = map (\<lambda>_. sum_ranks (length x * hidden) ts) ts"
      by (subst chunked_reduce) (auto simp: all_reduce_def)
    moreover have "sum_ranks (length x * hidden) ts = concat (map (\<lambda>i. W ! nat i) x)"
    proof -
      have "sum_ranks (length x * hidden) ts = concat (map (\<lambda>i. sum_ranks hidden (map (\<lambda>r. contribution per tp W r i) [0..<tp])) x)"
        unfolding ts_def using cl by (intro sum_ranks_rows) auto
      also have "\<dots> = concat (map (\<lambda>i. W ! nat i) x)" using sum_contributions(2) [OF per tp(2) rows] ids by (intro arg_cong [of _ _ concat]) auto
      finally show ?thesis .
    qed
    moreover have "map (\<lambda>_. c) ts = replicate tp c" for c by (simp add: ts_def map_replicate_const)
    ultimately show ?thesis using one by (simp add: embed_forward_def ranks_def comp_def ts_def [symmetric])
  qed
  then show ?thesis using load_ranks_eq [OF tp] by (simp add: ranks_def)
qed

theorem vocab_parallel_embedding_witness:
  "\<exists>ranks. load_ranks 2 [[1, 2], [3, 4], [5, 6], [7, 8]] = Inr ranks \<and>
     embed_forward False False 2 ranks [3, 0, 2] = Inr [[7, 8, 1, 2, 5, 6], [7, 8, 1, 2, 5, 6]]"
proof -
  have "\<exists>ranks. load_ranks 2 [[1, 2], [3, 4], [5, 6], [7, 8]] = Inr ranks \<and>
     embed_forward False False 2 ranks [3, 0, 2] = Inr (replicate 2 (concat (map (\<lambda>i. [[1, 2], [3, 4], [5, 6], [7, 8]] ! nat i) [3, 0, 2])))"
    by (rule vocab_parallel_embedding [where per = 2]) auto
  then show ?thesis by (simp add: numeral_eq_Suc)
qed

lemma length_linear_row [simp]: "length (linear_row W h) = length W"
  by (simp add: linear_row_def)

lemma place_shard_nth:
  assumes "length W = per * tp" "r < tp" "v < per * tp"
  shows "place_shard (part per tp r) (linear_row (shard per W r) h) ! v = (if v div per = r then linear_row W h ! v else 0)"
    "length (place_shard (part per tp r) (linear_row (shard per W r) h)) = per * tp"
proof -
  have per: "0 < per" using assms(3) by (cases per) auto
  have l: "length (shard per W r) = per" "r * per + per \<le> per * tp"
    using shard_nth(2) [OF assms(1,2)] mult_le_mono1 [of "Suc r" tp per] assms(2) by (simp_all add: mult.commute)
  show "length (place_shard (part per tp r) (linear_row (shard per W r) h)) = per * tp" using l by (simp add: place_shard_def part_def Let_def)
  have split: "v div per = r \<longleftrightarrow> r * per \<le> v \<and> v < r * per + per"
  proof
    assume "v div per = r"
    then show "r * per \<le> v \<and> v < r * per + per" using dividend_less_times_div [OF per, of v] div_times_less_eq_dividend [of v per] by (simp add: mult.commute)
  next
    assume "r * per \<le> v \<and> v < r * per + per"
    then show "v div per = r" by (intro div_nat_eqI) (auto simp: mult.commute)
  qed
  have own: "linear_row (shard per W r) h ! (v - r * per) = linear_row W h ! v" if "r * per \<le> v" "v < r * per + per"
    using shard_nth(1) [OF assms(1,2), of "v - r * per"] that l assms by (simp add: linear_row_def)
  show "place_shard (part per tp r) (linear_row (shard per W r) h) ! v = (if v div per = r then linear_row W h ! v else 0)"
    unfolding split using own l assms(3) by (auto simp: place_shard_def part_def Let_def nth_append)
qed

text \<open>
  the vocabulary-parallel output head computes the logits of the unsplit head. Rank 0 receives them for every row; the other
  ranks receive nothing when the vocabulary is split.
\<close>

lemma parallel_lm_head:
  assumes tp: "0 < tp" "length W = per * tp" and per: "0 < per"
  shows "\<exists>ranks. load_ranks tp W = Inr ranks \<and>
    forward_all_rows enabled capturing (length W) ranks x = Some (concat (map (linear_row W) x)) # replicate (tp - 1) None"
proof -
  define ranks where "ranks = map (\<lambda>r. (part per tp r, shard per W r)) [0..<tp]"
  have "forward_all_rows enabled capturing (length W) ranks x = Some (concat (map (linear_row W) x)) # replicate (tp - 1) None"
  proof (cases "tp = 1")
    case True
    then show ?thesis using tp(2) by (simp add: ranks_def forward_all_rows_def shard_def)
  next
    case False
    then have one: "1 < length ranks" using tp(1) by (simp add: ranks_def)
    let ?f = "\<lambda>r h. place_shard (part per tp r) (linear_row (shard per W r) h)"
    define ts where "ts = map (\<lambda>r. concat (map (?f r) x)) [0..<tp]"
    have cl: "length (?f r h) = length W" if "r < tp" for r h using place_shard_nth(2) [OF tp(2) that, of 0] per tp by simp
    have "length t = length x * length W" if t: "t \<in> set ts" for t
    proof -
      obtain r where r: "r < tp" "t = concat (map (?f r) x)" using t by (auto simp: ts_def)
      have "length row = length W" if "row \<in> set (map (?f r) x)" for row using that cl [OF r(1)] by auto
      then show ?thesis using length_concat_rows [of "map (?f r) x" "length W"] r(2) by simp
    qed
    then have red: "chunked_all_reduce enabled capturing (length x * length W) ts = map (\<lambda>_. sum_ranks (length x * length W) ts) ts"
      by (subst chunked_reduce) (auto simp: all_reduce_def)
    have "sum_ranks (length x * length W) ts = concat (map (\<lambda>h. sum_ranks (length W) (map (\<lambda>r. ?f r h) [0..<tp])) x)"
      unfolding ts_def using cl by (intro sum_ranks_rows) auto
    moreover have "sum_ranks (length W) (map (\<lambda>r. ?f r h) [0..<tp]) = linear_row W h" for h
    proof (rule nth_equalityI)
      fix v assume "v < length (sum_ranks (length W) (map (\<lambda>r. ?f r h) [0..<tp]))"
      then have v: "v < per * tp" using tp(2) by simp
      have "(\<Sum>t\<leftarrow>map (\<lambda>r. ?f r h) [0..<tp]. t ! v) = (\<Sum>r\<leftarrow>[0..<tp]. if v div per = r then linear_row W h ! v else 0)"
        by (intro arg_cong [of _ _ sum_list]) (auto simp: place_shard_nth(1) [OF tp(2) _ v])
      also have "\<dots> = linear_row W h ! v" using v by (simp add: sum_set_upt_conv_sum_list_nat [symmetric] less_mult_imp_div_less mult.commute)
      finally show "sum_ranks (length W) (map (\<lambda>r. ?f r h) [0..<tp]) ! v = linear_row W h ! v" using v tp(2) by (simp add: sum_ranks_def)
    qed simp
    ultimately have sum: "sum_ranks (length x * length W) ts = concat (map (linear_row W) x)" by simp
    have parts: "map (\<lambda>((vp, _), rs). concat (map (place_shard vp) rs)) (zip ranks (map (\<lambda>(vp, weight). map (linear_row weight) x) ranks)) = ts"
      by (simp add: ranks_def ts_def zip_map1 zip_map2 zip_same_conv_map comp_def)
    have "forward_all_rows enabled capturing (length W) ranks x = map (\<lambda>r. if r = 0 then Some (concat (map (linear_row W) x)) else None) [0..<tp]"
    proof -
      have "map (\<lambda>_. c) ts = map (\<lambda>_. c) [0..<tp]" for c :: "real list" by (simp add: ts_def)
      then show ?thesis unfolding forward_all_rows_def Let_def parts red sum using one
        by (simp add: ranks_def zip_map1 zip_map2 zip_same_conv_map comp_def part_def)
    qed
    also have "\<dots> = Some (concat (map (linear_row W) x)) # replicate (tp - 1) None"
      using tp(1) by (intro nth_equalityI) (auto simp: nth_Cons')
    finally show ?thesis .
  qed
  then show ?thesis using load_ranks_eq [OF tp] by (simp add: ranks_def)
qed

lemma parallel_lm_head_witness:
  "\<exists>ranks. load_ranks 2 [[1], [2], [3], [4]] = Inr ranks \<and> forward_all_rows False False 4 ranks [[1], [10]] = [Some [1, 2, 3, 4, 10, 20, 30, 40], None]"
proof -
  have "\<exists>ranks. load_ranks 2 [[1], [2], [3], [4]] = Inr ranks \<and> forward_all_rows False False (length [[1], [2], [3], [4 :: real]]) ranks [[1], [10]] =
      Some (concat (map (linear_row [[1], [2], [3], [4]]) [[1], [10]])) # replicate (2 - 1) None"
    by (rule parallel_lm_head [where per = 2]) auto
  then show ?thesis by (simp add: linear_row_def eval_nat_numeral)
qed

end
