(* ===== verification/Input_Prep.thy ===== *)
theory Input_Prep
  imports HiSparse Microbatch
begin

section \<open>Input preparation (\<open>rust/src/proto/prepare.rs\<close>, \<open>runner/input_preparer.py\<close>, \<open>context/batch.py\<close>)\<close>

text \<open>
  What a worker derives from a received batch before the forward: the ragged attention metadata, the KV slot of
  every token, the block tables, the recurrent and compressor state slots, the compressed block tables by state
  slot, and the rows that are sampled. The KV slot is computed in \<open>i32\<close> arithmetic and wraps; the other \<open>i32\<close> values are
  block ids, numbers of tokens and context lengths, which are modelled as integers.
\<close>

subsection \<open>Metadata of a batch\<close>

record prefill_meta =
  pm_input_ids :: "int list"
  pm_positions :: "int list"
  pm_cu_seqlens_q :: "int list"
  pm_cu_seqlens_k :: "int list"
  pm_slot_mapping :: "int list"
  pm_use_block_tables :: bool
  pm_block_tables_flat :: "int list"
  pm_max_num_blocks :: nat
  pm_max_seqlen_q :: nat
  pm_max_seqlen_k :: nat
  pm_sampling_token_indices :: "int list"
  pm_sampling_seq_indices :: "nat list"

text \<open>
  Rust's \<open>/\<close> and \<open>%\<close> truncate; positions are \<open>i64\<close>, the product and the sum are taken in \<open>i32\<close> and wrap (a build with overflow
  checks panics instead). The slot falls back to the token's index when the table has no such block.
\<close>

definition token_slot :: "nat \<Rightarrow> int list \<Rightarrow> nat \<Rightarrow> int \<Rightarrow> int" where
  "token_slot block_size table idx pos =
     (let bs = int (max 1 block_size);
          logical_block = (if pos < 0 then 0 else nat (pos div bs));
          offset = (if pos < 0 then - ((- pos) mod bs) else pos mod bs)
      in if logical_block < length table
         then to_int32 (to_int32 (table ! logical_block * to_int32 bs) + to_int32 offset) else to_int32 (int idx))"

text \<open>The loop over the requests; \<open>total_q\<close> and \<open>total_k\<close> are the last entries of the two cumulative lists.\<close>

record seq_scan =
  sc_total_q :: int
  sc_total_k :: int
  sc_cu_q :: "int list"
  sc_cu_k :: "int list"
  sc_max_len_q :: nat
  sc_max_len_k :: nat
  sc_token_indices :: "int list"
  sc_seq_indices :: "nat list"

definition scan_seq :: "wire_batch \<Rightarrow> nat \<times> int \<Rightarrow> seq_scan \<Rightarrow> seq_scan" where
  "scan_seq batch il st =
     (case il of (idx, len) \<Rightarrow>
        let q_len = max len 0;
            total_q = sc_total_q st + q_len;
            pos_end = (if 0 < q_len then max 0 (get_or (wb_positions batch) (nat total_q - 1) (total_q - 1) + 1) else 0);
            total_k = sc_total_k st + pos_end;
            sampled = (0 < len \<and> get_or (wb_sample_mask batch) idx True)
        in \<lparr>sc_total_q = total_q, sc_total_k = total_k, sc_cu_q = sc_cu_q st @ [total_q], sc_cu_k = sc_cu_k st @ [total_k],
            sc_max_len_q = max (sc_max_len_q st) (nat q_len), sc_max_len_k = max (sc_max_len_k st) (nat pos_end),
            sc_token_indices = sc_token_indices st @ (if sampled then [total_q - 1] else []),
            sc_seq_indices = sc_seq_indices st @ (if sampled then [idx] else [])\<rparr>)"

definition scan_start :: seq_scan where
  "scan_start = \<lparr>sc_total_q = 0, sc_total_k = 0, sc_cu_q = [0], sc_cu_k = [0], sc_max_len_q = 0, sc_max_len_k = 0, sc_token_indices = [], sc_seq_indices = []\<rparr>"

definition token_seq_indices :: "int list \<Rightarrow> nat list" where
  "token_seq_indices seq_lens = concat (map (\<lambda>(s, len). replicate (nat len) s) (zip [0..<length seq_lens] seq_lens))"

text \<open>Row \<open>s\<close> of the table block of one sequence-parallel rank, padded with zeros.\<close>

definition padded_row :: "nat \<Rightarrow> int list list \<Rightarrow> nat \<Rightarrow> int list" where
  "padded_row width tables s = (let blocks = get_or tables s [] in blocks @ replicate (width - length blocks) 0)"

definition max_blocks :: "int list list \<Rightarrow> nat" where
  "max_blocks tables = fold max (map length tables) 0"

definition runner_in_prefill :: "nat \<Rightarrow> nat \<Rightarrow> nat \<Rightarrow> wire_batch \<Rightarrow> prefill_meta" where
  "runner_in_prefill sp_size block_size max_num_seqs batch =
     (let mb = max_blocks (wb_block_tables batch);
          flat = (if \<not> wb_is_dummy batch \<and> 0 < mb
                  then concat (replicate sp_size (concat (map (\<lambda>s. if s < max_num_seqs then padded_row mb (wb_block_tables batch) s else replicate mb 0)
                         [0..<max max_num_seqs 1]))) else []);
          scan = fold (scan_seq batch) (zip [0..<length (wb_seq_lens batch)] (wb_seq_lens batch)) scan_start;
          owners = token_seq_indices (wb_seq_lens batch)
      in \<lparr>pm_input_ids = wb_input_ids batch, pm_positions = wb_positions batch, pm_cu_seqlens_q = sc_cu_q scan, pm_cu_seqlens_k = sc_cu_k scan,
          pm_slot_mapping =
            (if wb_is_dummy batch then replicate (nat (sc_total_q scan)) (- 1)
             else map (\<lambda>(idx, pos). token_slot block_size (get_or (wb_block_tables batch) (get_or owners idx 0) []) idx pos)
                    (zip [0..<length (wb_positions batch)] (wb_positions batch))),
          pm_use_block_tables = (flat \<noteq> []), pm_block_tables_flat = flat, pm_max_num_blocks = mb,
          pm_max_seqlen_q = sc_max_len_q scan, pm_max_seqlen_k = sc_max_len_k scan,
          pm_sampling_token_indices = sc_token_indices scan, pm_sampling_seq_indices = sc_seq_indices scan\<rparr>)"

record decode_meta =
  dm_input_ids :: "int list"
  dm_positions :: "int list"
  dm_slot_mapping :: "int list"
  dm_context_lens_flat :: "int list"
  dm_block_tables_flat :: "int list"
  dm_max_num_blocks :: nat

definition runner_in_decode :: "nat \<Rightarrow> nat \<Rightarrow> nat \<Rightarrow> wire_batch \<Rightarrow> decode_meta" where
  "runner_in_decode sp_size block_size max_num_seqs batch =
     (let num = length (wb_seq_lens batch);
          mb = max (max_blocks (wb_block_tables batch)) 1
      in \<lparr>dm_input_ids = wb_input_ids batch, dm_positions = wb_positions batch,
          dm_slot_mapping =
            (if wb_is_dummy batch then replicate num (- 1)
             else map (\<lambda>(idx, pos). token_slot block_size (get_or (wb_block_tables batch) idx []) idx pos)
                    (zip [0..<length (wb_positions batch)] (wb_positions batch))),
          dm_context_lens_flat =
            map (\<lambda>i. if i < min num max_num_seqs then get_or (wb_positions batch) i 0 + 1 else 0) [0..<sp_size * max_num_seqs],
          dm_block_tables_flat =
            (if wb_is_dummy batch then []
             else concat (replicate sp_size (concat (map (padded_row mb (wb_block_tables batch)) [0..<max num 1])))),
          dm_max_num_blocks = (if wb_is_dummy batch then 0 else mb)\<rparr>)"

subsection \<open>Batch context\<close>

datatype paged_attention_strategy = PS_AUTO | PS_FLASH_ATTN | PS_FLASHINFER | PS_FLASH_MLA

record batch_context =
  bc_is_prefill :: bool
  bc_max_bs :: nat
  bc_cu_seqlens_q :: "int list option"
  bc_cu_seqlens_k :: "int list option"
  bc_max_seqlen_q :: nat
  bc_max_seqlen_k :: nat
  bc_slot_mapping :: "int list"
  bc_context_lens :: "int list list option"
  bc_block_tables :: "int list list list option"
  bc_is_dummy :: bool
  bc_gdn_state_slots :: "int list option"
  bc_dsv4_state_slots :: "int list option"
  bc_dsv4_compressed_block_tables :: "(int \<times> int list list) list option"
  bc_hisparse_slots :: "int list option"
  bc_hisparse_slot_mapping :: "int list option"
  bc_hisparse_num_real_reqs :: "int option"
  bc_hisparse_phase_id :: nat
  bc_num_tokens_per_seq :: nat
  bc_sampling_token_indices :: "int list option"
  bc_sampling_seq_indices :: "nat list option"
  bc_paged_attention_strategy :: "paged_attention_strategy option"
  bc_decode_page_plan_key :: "int list option"
  bc_mtp_draft_safe :: bool

record prep_config =
  pc_kvcache_block_size :: nat
  pc_max_num_seqs :: nat
  pc_num_speculative_tokens :: int
  pc_max_model_len :: int
  pc_enable_hisparse :: bool
  pc_cache_plan_has_gqa :: "bool option"
  pc_use_flashinfer_decode :: bool
  pc_is_mla :: bool
  pc_is_dsv4 :: bool

text \<open>\<open>reshape\<close> of a flat list to two and three dimensions.\<close>

definition row_chunks :: "nat \<Rightarrow> nat \<Rightarrow> 'a list \<Rightarrow> 'a list list" where
  "row_chunks n width xs = map (\<lambda>i. take width (drop (i * width) xs)) [0..<n]"

definition reshape2 :: "nat \<Rightarrow> nat \<Rightarrow> 'a list \<Rightarrow> 'a list list res" where
  "reshape2 a b xs = (if length xs = a * b then Inr (row_chunks a b xs) else Inl (RuntimeErr ''reshape''))"

definition reshape3 :: "nat \<Rightarrow> nat \<Rightarrow> nat \<Rightarrow> 'a list \<Rightarrow> 'a list list list res" where
  "reshape3 a b c xs = (if length xs = a * b * c then Inr (map (row_chunks b c) (row_chunks a (b * c) xs)) else Inl (RuntimeErr ''reshape''))"

text \<open>Every slot outside the real range goes to the dummy slot behind it.\<close>

definition clamp_slots :: "int \<Rightarrow> int list \<Rightarrow> int list" where
  "clamp_slots dummy slots = map (\<lambda>s. if 0 \<le> s \<and> s < dummy then s else dummy) slots"

definition gdn_state_slots :: "cache_context \<Rightarrow> wire_batch \<Rightarrow> int list option res" where
  "gdn_state_slots cc batch =
     (case cc_gdn_conv_states cc of
        None \<Rightarrow> Inr None
      | Some conv \<Rightarrow> rbind (py_nth (t_shape conv) 1) (\<lambda>n. Inr (Some (clamp_slots (n - 1) (wb_state_slots batch)))))"

text \<open>
  The compressed block tables of one ratio, indexed by state slot: every row is filled with the dummy page, then the
  pages of each request overwrite the row of its slot. The loop ends at the shorter of tables and slots.
\<close>

definition write_pages :: "nat \<Rightarrow> nat \<Rightarrow> int list \<times> int \<Rightarrow> int list list \<Rightarrow> int list list" where
  "write_pages max_slots width seq_slot table =
     (case seq_slot of (pages, slot) \<Rightarrow>
        if 0 \<le> slot \<and> slot < int max_slots
        then table[nat slot := take width pages @ drop (min (length pages) width) (table ! nat slot)] else table)"

definition compressed_rows :: "nat \<Rightarrow> nat \<Rightarrow> int \<Rightarrow> int list list \<Rightarrow> int list \<Rightarrow> int list list" where
  "compressed_rows max_slots width dummy_page per_seq slots =
     fold (write_pages max_slots width) (zip per_seq slots) (replicate (Suc max_slots) (replicate width dummy_page))"

definition build_ratio :: "cache_context \<Rightarrow> nat \<Rightarrow> int list \<Rightarrow> int \<times> int list list \<Rightarrow> (int \<times> int list list) option" where
  "build_ratio cc max_slots slots ratio_seqs =
     (case ratio_seqs of (ratio, per_seq) \<Rightarrow>
        case (case cc_pool_config cc ratio of None \<Rightarrow> (0, 0, 0) | Some c \<Rightarrow> c) of
          (num_pages, _, width) \<Rightarrow>
            if width \<le> 0 then None
            else Some (ratio, compressed_rows max_slots (nat width) (dict_get (cc_dummy_page cc) ratio num_pages) per_seq slots))"

definition build_compressed :: "cache_context \<Rightarrow> nat \<Rightarrow> wire_batch \<Rightarrow> (int \<times> int list list) list option" where
  "build_compressed cc max_slots batch =
     (let built = List.map_filter (build_ratio cc max_slots (wb_state_slots batch)) (wb_compressed_block_tables batch)
      in if built = [] then None else Some built)"

definition dsv4_slots :: "cache_context \<Rightarrow> nat \<Rightarrow> wire_batch \<Rightarrow> int list option \<times> (int \<times> int list list) list option" where
  "dsv4_slots cc max_num_seqs batch =
     (if cc_mode cc = ''dsv4''
      then (Some (clamp_slots (int max_num_seqs) (wb_state_slots batch)), build_compressed cc max_num_seqs batch) else (None, None))"

definition raw_hisparse_slots :: "nat \<Rightarrow> wire_batch \<Rightarrow> int list" where
  "raw_hisparse_slots max_num_seqs batch =
     (let n = length (wb_seq_lens batch); raw = take n (wb_hisparse_slots batch)
      in raw @ replicate (n - length raw) (int max_num_seqs))"

definition fill_real_reqs :: "nat \<Rightarrow> hisparse_context \<Rightarrow> hisparse_context" where
  "fill_real_reqs n ctx = ctx\<lparr>hs_num_real_reqs := map_option (\<lambda>_. int n) (hs_num_real_reqs ctx)\<rparr>"

definition prepare_prefill_bytes ::
  "nat \<Rightarrow> prep_config \<Rightarrow> cache_context \<Rightarrow> hisparse_context \<Rightarrow> wire_batch \<Rightarrow> bool \<Rightarrow> ((int list \<times> int list) \<times> batch_context \<times> hisparse_context) res" where
  "prepare_prefill_bytes sp_size cfg cc hs batch is_dummy =
     (let meta = runner_in_prefill sp_size (pc_kvcache_block_size cfg) (pc_max_num_seqs cfg) batch; num_seqs = length (wb_seq_lens batch)
      in rbind (if pm_use_block_tables meta
                then rbind (reshape3 sp_size (pc_max_num_seqs cfg) (pm_max_num_blocks meta) (pm_block_tables_flat meta)) (\<lambda>t. Inr (Some t))
                else Inr None) (\<lambda>block_tables.
         rbind (gdn_state_slots cc batch) (\<lambda>gdn.
         (let some_rows = length (pm_sampling_token_indices meta) < num_seqs;
              hs' = (if pc_enable_hisparse cfg then fill_real_reqs num_seqs hs else hs)
          in Inr ((pm_input_ids meta, pm_positions meta),
               \<lparr>bc_is_prefill = True, bc_max_bs = pc_max_num_seqs cfg, bc_cu_seqlens_q = Some (pm_cu_seqlens_q meta), bc_cu_seqlens_k = Some (pm_cu_seqlens_k meta),
                bc_max_seqlen_q = pm_max_seqlen_q meta, bc_max_seqlen_k = pm_max_seqlen_k meta, bc_slot_mapping = pm_slot_mapping meta,
                bc_context_lens = None, bc_block_tables = block_tables, bc_is_dummy = is_dummy, bc_gdn_state_slots = gdn,
                bc_dsv4_state_slots = fst (dsv4_slots cc (pc_max_num_seqs cfg) batch),
                bc_dsv4_compressed_block_tables = snd (dsv4_slots cc (pc_max_num_seqs cfg) batch),
                bc_hisparse_slots = (if pc_enable_hisparse cfg then Some (clamp_slots (int (pc_max_num_seqs cfg)) (raw_hisparse_slots (pc_max_num_seqs cfg) batch)) else None),
                bc_hisparse_slot_mapping = None, bc_hisparse_num_real_reqs = (if pc_enable_hisparse cfg then hs_num_real_reqs hs' else None), bc_hisparse_phase_id = 0, bc_num_tokens_per_seq = 1,
                bc_sampling_token_indices = (if some_rows then Some (pm_sampling_token_indices meta) else None),
                bc_sampling_seq_indices = (if some_rows then Some (pm_sampling_seq_indices meta) else None),
                bc_paged_attention_strategy = Some (if block_tables \<noteq> None then PS_AUTO else PS_FLASH_ATTN),
                bc_decode_page_plan_key = None, bc_mtp_draft_safe = True\<rparr>, hs')))))"

text \<open>\<open>ring_kernel\<close> is the optional kernel of \<^const>\<open>build_hot_slot_mapping\<close>.\<close>

definition prepare_decode_bytes ::
  "(int list \<Rightarrow> int list \<Rightarrow> int list) option \<Rightarrow> nat \<Rightarrow> prep_config \<Rightarrow> cache_context \<Rightarrow> hisparse_context \<Rightarrow> wire_batch \<Rightarrow> bool
   \<Rightarrow> ((int list \<times> int list) \<times> batch_context \<times> hisparse_context) res" where
  "prepare_decode_bytes ring_kernel sp_size cfg cc hs batch is_dummy =
     (let meta = runner_in_decode sp_size (pc_kvcache_block_size cfg) (pc_max_num_seqs cfg) batch;
          num = length (wb_seq_lens batch); bs = int (pc_kvcache_block_size cfg);
          local_context_lens = take num (take (pc_max_num_seqs cfg) (dm_context_lens_flat meta));
          max_position = fold max (take num (dm_positions meta)) (- 1);
          num_drafts = pc_num_speculative_tokens cfg
      in rbind (reshape2 sp_size (pc_max_num_seqs cfg) (dm_context_lens_flat meta)) (\<lambda>context_lens.
         rbind (if bs = 0 \<and> local_context_lens \<noteq> [] then Inl ZeroDivisionError else Inr (map (\<lambda>l. (l + bs - 1) div bs) local_context_lens)) (\<lambda>plan_key.
         rbind (if dm_block_tables_flat meta = [] then Inr [[]]
                else reshape3 sp_size (max num 1) (dm_max_num_blocks meta) (dm_block_tables_flat meta)) (\<lambda>block_tables.
         rbind (gdn_state_slots cc batch) (\<lambda>gdn.
         (let raw = raw_hisparse_slots (pc_max_num_seqs cfg) batch;
              slots = clamp_slots (int (pc_max_num_seqs cfg)) raw;
              hs1 = (if pc_enable_hisparse cfg then update_mla_hisparse_slot_owners raw (map int (take num (wb_seq_ids batch))) hs else hs)
          in rbind (if \<not> pc_enable_hisparse cfg then Inr None
                    else if pc_cache_plan_has_gqa cfg = Some True then build_hot_slot_mapping ring_kernel True (Some slots) (Some (dm_positions meta)) hs1
                    else Inr (Some (dm_slot_mapping meta))) (\<lambda>hisparse_slot_mapping.
             (let hs' = (if pc_enable_hisparse cfg then fill_real_reqs num hs1 else hs)
              in Inr ((dm_input_ids meta, dm_positions meta),
               \<lparr>bc_is_prefill = False, bc_max_bs = pc_max_num_seqs cfg, bc_cu_seqlens_q = None, bc_cu_seqlens_k = None,
                bc_max_seqlen_q = 0, bc_max_seqlen_k = 0, bc_slot_mapping = dm_slot_mapping meta,
                bc_context_lens = Some context_lens, bc_block_tables = Some block_tables, bc_is_dummy = is_dummy, bc_gdn_state_slots = gdn,
                bc_dsv4_state_slots = fst (dsv4_slots cc (pc_max_num_seqs cfg) batch),
                bc_dsv4_compressed_block_tables = snd (dsv4_slots cc (pc_max_num_seqs cfg) batch),
                bc_hisparse_slots = (if pc_enable_hisparse cfg then Some slots else None),
                bc_hisparse_slot_mapping = hisparse_slot_mapping,
                bc_hisparse_num_real_reqs = (if pc_enable_hisparse cfg then hs_num_real_reqs hs' else None), bc_hisparse_phase_id = 0, bc_num_tokens_per_seq = 1,
                bc_sampling_token_indices = None, bc_sampling_seq_indices = None,
                bc_paged_attention_strategy =
                  Some (if pc_is_mla cfg \<or> pc_is_dsv4 cfg then PS_FLASH_MLA else if pc_use_flashinfer_decode cfg then PS_FLASHINFER else PS_FLASH_ATTN),
                bc_decode_page_plan_key = Some plan_key,
                bc_mtp_draft_safe = (num_drafts = 0 \<or> max_position + 2 * num_drafts + 1 < pc_max_model_len cfg)\<rparr>, hs'))))))))) "

subsection \<open>Offsets of the requests\<close>

definition seq_start :: "int list \<Rightarrow> nat \<Rightarrow> nat" where
  "seq_start lens s = sum_list (map nat (take s lens))"

definition sampled_row :: "wire_batch \<Rightarrow> nat \<Rightarrow> bool" where
  "sampled_row batch s = (0 < wb_seq_lens batch ! s \<and> get_or (wb_sample_mask batch) s True)"

lemma seq_start_Suc: "s < length lens \<Longrightarrow> seq_start lens (Suc s) = seq_start lens s + nat (lens ! s)"
  by (simp add: seq_start_def take_Suc_conv_app_nth)

lemma seq_start_0 [simp]: "seq_start lens 0 = 0"
  by (simp add: seq_start_def)

lemma seq_start_mono: "s \<le> s' \<Longrightarrow> seq_start lens s \<le> seq_start lens s'"
proof -
  assume "s \<le> s'"
  then have "take s' lens = take s lens @ take (s' - s) (drop s lens)" by (metis le_add_diff_inverse take_add)
  then show ?thesis by (simp add: seq_start_def)
qed

lemma scan_seq_fields:
  "sc_total_q (scan_seq batch (i, l) st) = sc_total_q st + max l 0"
  "sc_cu_q (scan_seq batch (i, l) st) = sc_cu_q st @ [sc_total_q st + max l 0]"
  "sc_seq_indices (scan_seq batch (i, l) st) = sc_seq_indices st @ (if 0 < l \<and> get_or (wb_sample_mask batch) i True then [i] else [])"
  "sc_token_indices (scan_seq batch (i, l) st) = sc_token_indices st @ (if 0 < l \<and> get_or (wb_sample_mask batch) i True then [sc_total_q st + max l 0 - 1] else [])"
  by (simp_all add: scan_seq_def Let_def)

lemma scan_prefix:
  assumes "n \<le> length (wb_seq_lens batch)"
  defines "scan \<equiv> fold (scan_seq batch) (zip [0..<n] (take n (wb_seq_lens batch))) scan_start"
  shows "sc_total_q scan = int (seq_start (wb_seq_lens batch) n)" "sc_cu_q scan = map (\<lambda>s. int (seq_start (wb_seq_lens batch) s)) [0..<Suc n]"
    "sc_seq_indices scan = filter (sampled_row batch) [0..<n]"
    "sc_token_indices scan = map (\<lambda>s. int (seq_start (wb_seq_lens batch) (Suc s)) - 1) (filter (sampled_row batch) [0..<n])"
proof -
  have "sc_total_q scan = int (seq_start (wb_seq_lens batch) n) \<and> sc_cu_q scan = map (\<lambda>s. int (seq_start (wb_seq_lens batch) s)) [0..<Suc n] \<and>
    sc_seq_indices scan = filter (sampled_row batch) [0..<n] \<and>
    sc_token_indices scan = map (\<lambda>s. int (seq_start (wb_seq_lens batch) (Suc s)) - 1) (filter (sampled_row batch) [0..<n])"
    using assms(1) unfolding scan_def
  proof (induction n)
    case (Suc n)
    have z: "zip [0..<Suc n] (take (Suc n) (wb_seq_lens batch)) = zip [0..<n] (take n (wb_seq_lens batch)) @ [(n, wb_seq_lens batch ! n)]"
      using Suc.prems by (simp add: take_Suc_conv_app_nth)
    have q: "int (seq_start (wb_seq_lens batch) (Suc n)) = int (seq_start (wb_seq_lens batch) n) + max (wb_seq_lens batch ! n) 0"
      using Suc.prems by (simp add: seq_start_Suc)
    define st where "st = fold (scan_seq batch) (zip [0..<n] (take n (wb_seq_lens batch))) scan_start"
    have f: "fold (scan_seq batch) (zip [0..<Suc n] (take (Suc n) (wb_seq_lens batch))) scan_start = scan_seq batch (n, wb_seq_lens batch ! n) st"
      unfolding z by (simp add: st_def)
    have IH: "sc_total_q st = int (seq_start (wb_seq_lens batch) n)" "sc_cu_q st = map (\<lambda>s. int (seq_start (wb_seq_lens batch) s)) [0..<Suc n]"
        "sc_seq_indices st = filter (sampled_row batch) [0..<n]"
        "sc_token_indices st = map (\<lambda>s. int (seq_start (wb_seq_lens batch) (Suc s)) - 1) (filter (sampled_row batch) [0..<n])"
      using Suc.IH Suc.prems by (simp_all add: st_def)
    show ?case unfolding f by (simp add: scan_seq_fields IH q sampled_row_def [of batch n])
  qed (simp add: scan_start_def)
  then show "sc_total_q scan = int (seq_start (wb_seq_lens batch) n)" "sc_cu_q scan = map (\<lambda>s. int (seq_start (wb_seq_lens batch) s)) [0..<Suc n]"
    "sc_seq_indices scan = filter (sampled_row batch) [0..<n]"
    "sc_token_indices scan = map (\<lambda>s. int (seq_start (wb_seq_lens batch) (Suc s)) - 1) (filter (sampled_row batch) [0..<n])" by auto
qed

lemma prefill_meta_rows:
  "pm_cu_seqlens_q (runner_in_prefill sp bs n batch) = map (\<lambda>s. int (seq_start (wb_seq_lens batch) s)) [0..<Suc (length (wb_seq_lens batch))]"
  "pm_sampling_seq_indices (runner_in_prefill sp bs n batch) = filter (sampled_row batch) [0..<length (wb_seq_lens batch)]"
  "pm_sampling_token_indices (runner_in_prefill sp bs n batch) =
     map (\<lambda>s. int (seq_start (wb_seq_lens batch) (Suc s)) - 1) (filter (sampled_row batch) [0..<length (wb_seq_lens batch)])"
  using scan_prefix [of "length (wb_seq_lens batch)" batch] by (simp_all add: runner_in_prefill_def Let_def)

subsection \<open>The slot of every token\<close>

lemma token_seq_indices_prefix:
  assumes "n \<le> length lens"
  shows "length (concat (map (\<lambda>(s, len). replicate (nat len) s) (zip [0..<n] (take n lens)))) = seq_start lens n"
    "\<forall>s<n. \<forall>j<nat (lens ! s). concat (map (\<lambda>(s, len). replicate (nat len) s) (zip [0..<n] (take n lens))) ! (seq_start lens s + j) = s"
proof -
  let ?f = "\<lambda>n. concat (map (\<lambda>(s, len). replicate (nat len) s) (zip [0..<n] (take n lens)))"
  have "length (?f n) = seq_start lens n \<and> (\<forall>s<n. \<forall>j<nat (lens ! s). ?f n ! (seq_start lens s + j) = s)" using assms
  proof (induction n)
    case (Suc n)
    have z: "?f (Suc n) = ?f n @ replicate (nat (lens ! n)) n" using Suc.prems by (simp add: take_Suc_conv_app_nth)
    have "?f (Suc n) ! (seq_start lens s + j) = s" if "s < Suc n" "j < nat (lens ! s)" for s j
    proof (cases "s = n")
      case True
      then show ?thesis using Suc that unfolding z by (simp add: nth_append)
    next
      case False
      then have "seq_start lens (Suc s) \<le> seq_start lens n" using that by (intro seq_start_mono) simp
      then have "seq_start lens s + j < seq_start lens n" using that Suc.prems False by (simp add: seq_start_Suc)
      then show ?thesis using Suc that False unfolding z by (simp add: nth_append)
    qed
    then show ?case using Suc unfolding z by (simp add: seq_start_Suc)
  qed simp
  then show "length (?f n) = seq_start lens n" "\<forall>s<n. \<forall>j<nat (lens ! s). ?f n ! (seq_start lens s + j) = s" by auto
qed

lemma token_seq_indices_nth:
  "s < length lens \<Longrightarrow> j < nat (lens ! s) \<Longrightarrow> token_seq_indices lens ! (seq_start lens s + j) = s"
  "length (token_seq_indices lens) = seq_start lens (length lens)"
  using token_seq_indices_prefix [of "length lens" lens] by (simp_all add: token_seq_indices_def)

text \<open>Every token index belongs to one request.\<close>

lemma token_owner:
  assumes "t < seq_start lens (length lens)"
  shows "\<exists>s<length lens. \<exists>j<nat (lens ! s). t = seq_start lens s + j"
proof -
  have "t < seq_start lens n \<Longrightarrow> n \<le> length lens \<Longrightarrow> \<exists>s<n. \<exists>j<nat (lens ! s). t = seq_start lens s + j" for n
  proof (induction n)
    case (Suc n)
    show ?case
    proof (cases "t < seq_start lens n")
      case True
      then show ?thesis using Suc by (meson Suc_leD less_SucI)
    next
      case False
      then have "t - seq_start lens n < nat (lens ! n)" "t = seq_start lens n + (t - seq_start lens n)" using Suc.prems by (auto simp: seq_start_Suc)
      then show ?thesis by blast
    qed
  qed simp
  then show ?thesis using assms by simp
qed

text \<open>The block a token of request \<open>s\<close> is written to.\<close>

definition token_block :: "nat \<Rightarrow> wire_batch \<Rightarrow> nat \<Rightarrow> nat \<Rightarrow> int" where
  "token_block bs batch s j = wb_block_tables batch ! s ! nat (wb_positions batch ! (seq_start (wb_seq_lens batch) s + j) div int bs)"

text \<open>
  The batch holds its tokens, and the table of each request covers the positions to be written.
\<close>

definition covered :: "nat \<Rightarrow> wire_batch \<Rightarrow> bool" where
  "covered bs batch =
     (0 < bs \<and> \<not> wb_is_dummy batch \<and> length (wb_positions batch) = seq_start (wb_seq_lens batch) (length (wb_seq_lens batch)) \<and>
      length (wb_seq_lens batch) \<le> length (wb_block_tables batch) \<and>
      (\<forall>s<length (wb_seq_lens batch). \<forall>j<nat (wb_seq_lens batch ! s).
         let p = wb_positions batch ! (seq_start (wb_seq_lens batch) s + j) in 0 \<le> p \<and> p div int bs < int (length (wb_block_tables batch ! s))))"

text \<open>The blocks that are written belong to a pool of \<open>n\<close> blocks whose slots have \<open>i32\<close> numbers.\<close>

definition in_pool :: "nat \<Rightarrow> int \<Rightarrow> wire_batch \<Rightarrow> bool" where
  "in_pool bs n batch =
     (n * int bs < 2 ^ 31 \<and>
      (\<forall>s<length (wb_seq_lens batch). \<forall>j<nat (wb_seq_lens batch ! s). 0 \<le> token_block bs batch s j \<and> token_block bs batch s j < n))"

lemma slot_no_wrap:
  assumes "0 \<le> b" "b < n" "n * bs < 2 ^ 31" "0 < bs" "0 \<le> off" "off < bs"
  shows "to_int32 (to_int32 (b * to_int32 bs) + to_int32 off) = b * bs + off"
proof -
  have "1 * bs \<le> n * bs" "(b + 1) * bs \<le> n * bs" using assms by (intro mult_right_mono; simp)+
  moreover have b: "(b + 1) * bs = b * bs + bs" "0 \<le> b * bs" using assms by (simp_all add: distrib_right)
  ultimately have "bs < 2 ^ 31" "b * bs + bs < 2 ^ 31" using assms(3) by simp_all
  then have "to_int32 bs = bs" "to_int32 (b * bs) = b * bs" "to_int32 off = off" "to_int32 (b * bs + off) = b * bs + off"
    using assms(4-6) b by (intro to_int32_id; linarith)+
  then show ?thesis by simp
qed

text \<open>Without that bound two blocks of one table can share their slots.\<close>

lemma slots_wrap: "token_slot 16 [0, 2 ^ 28] 0 0 = token_slot 16 [0, 2 ^ 28] 1 16"
  by (simp add: token_slot_def to_int32_def)

text \<open>The positions of a request differ, its table repeats no block, and different requests write different blocks.\<close>

definition write_disjoint :: "nat \<Rightarrow> wire_batch \<Rightarrow> bool" where
  "write_disjoint bs batch =
     (\<forall>s<length (wb_seq_lens batch).
        distinct (subvec (seq_start (wb_seq_lens batch) s) (seq_start (wb_seq_lens batch) (Suc s)) (wb_positions batch)) \<and> distinct (wb_block_tables batch ! s) \<and>
        (\<forall>s'<s. \<forall>j<nat (wb_seq_lens batch ! s). \<forall>j'<nat (wb_seq_lens batch ! s'). token_block bs batch s j \<noteq> token_block bs batch s' j'))"

lemma write_disjointD:
  assumes "covered bs batch" "write_disjoint bs batch" "s < length (wb_seq_lens batch)"
  shows "distinct (wb_block_tables batch ! s)"
    "j < nat (wb_seq_lens batch ! s) \<Longrightarrow> j' < nat (wb_seq_lens batch ! s) \<Longrightarrow> j \<noteq> j' \<Longrightarrow>
       wb_positions batch ! (seq_start (wb_seq_lens batch) s + j) \<noteq> wb_positions batch ! (seq_start (wb_seq_lens batch) s + j')"
    "s' < length (wb_seq_lens batch) \<Longrightarrow> s \<noteq> s' \<Longrightarrow> j < nat (wb_seq_lens batch ! s) \<Longrightarrow> j' < nat (wb_seq_lens batch ! s') \<Longrightarrow>
       token_block bs batch s j \<noteq> token_block bs batch s' j'"
proof -
  show "distinct (wb_block_tables batch ! s)" using assms by (simp add: write_disjoint_def)
  show "token_block bs batch s j \<noteq> token_block bs batch s' j'"
    if "s' < length (wb_seq_lens batch)" "s \<noteq> s'" "j < nat (wb_seq_lens batch ! s)" "j' < nat (wb_seq_lens batch ! s')"
    using assms(2,3) that unfolding write_disjoint_def by (metis nat_neq_iff)
  let ?a = "seq_start (wb_seq_lens batch) s" and ?b = "seq_start (wb_seq_lens batch) (Suc s)"
  have b: "?b = ?a + nat (wb_seq_lens batch ! s)" using assms(3) by (rule seq_start_Suc)
  have "?b \<le> length (wb_positions batch)" using assms(1,3) seq_start_mono [of "Suc s" "length (wb_seq_lens batch)"] by (simp add: covered_def)
  then have nth: "subvec ?a ?b (wb_positions batch) ! j = wb_positions batch ! (?a + j)" "j < length (subvec ?a ?b (wb_positions batch))"
    if "j < nat (wb_seq_lens batch ! s)" for j using that b by (simp_all add: subvec_def)
  have "distinct (subvec ?a ?b (wb_positions batch))" using assms(2,3) by (simp add: write_disjoint_def)
  then show "wb_positions batch ! (?a + j) \<noteq> wb_positions batch ! (?a + j')"
    if "j < nat (wb_seq_lens batch ! s)" "j' < nat (wb_seq_lens batch ! s)" "j \<noteq> j'"
    using that nth [of j] nth [of j'] by (metis nth_eq_iff_index_eq)
qed

lemma seq_token_less: "s < length lens \<Longrightarrow> j < nat (lens ! s) \<Longrightarrow> seq_start lens s + j < seq_start lens (length lens)"
  using seq_start_mono [of "Suc s" "length lens" lens] by (simp add: seq_start_Suc)

lemma prefill_slot:
  assumes "covered bs batch" "in_pool bs nb batch" "s < length (wb_seq_lens batch)" "j < nat (wb_seq_lens batch ! s)"
  shows "pm_slot_mapping (runner_in_prefill sp bs n batch) ! (seq_start (wb_seq_lens batch) s + j) =
    token_block bs batch s j * int bs + wb_positions batch ! (seq_start (wb_seq_lens batch) s + j) mod int bs"
proof -
  let ?t = "seq_start (wb_seq_lens batch) s + j"
  let ?p = "wb_positions batch ! ?t"
  have t: "?t < length (wb_positions batch)" using seq_token_less [OF assms(3,4)] assms(1) by (simp add: covered_def)
  have o: "get_or (token_seq_indices (wb_seq_lens batch)) ?t 0 = s"
    using token_seq_indices_nth(1) [of s "wb_seq_lens batch" j] token_seq_indices_nth(2) [of "wb_seq_lens batch"] seq_token_less [OF assms(3,4)] assms(3,4) by (simp add: get_or_def)
  have p: "0 \<le> ?p" "?p div int bs < int (length (wb_block_tables batch ! s))" "s < length (wb_block_tables batch)" "0 < bs"
    using assms by (auto simp: covered_def Let_def)
  have slot: "token_slot bs (wb_block_tables batch ! s) ?t ?p = token_block bs batch s j * int bs + ?p mod int bs"
  proof -
    have "nat (?p div int bs) < length (wb_block_tables batch ! s)" using p by (simp add: nat_less_iff pos_imp_zdiv_nonneg_iff)
    then have "token_slot bs (wb_block_tables batch ! s) ?t ?p =
        to_int32 (to_int32 (token_block bs batch s j * to_int32 (int bs)) + to_int32 (?p mod int bs))"
      using p by (simp add: token_slot_def Let_def token_block_def max_def)
    also have "\<dots> = token_block bs batch s j * int bs + ?p mod int bs"
      using assms(2-4) p(4) by (intro slot_no_wrap [where n = nb]) (simp_all add: in_pool_def)
    finally show ?thesis .
  qed
  show ?thesis using t o p(3) slot assms(1) by (simp add: runner_in_prefill_def Let_def covered_def get_or_def)
qed

text \<open>
  C8: the KV slots of a prefill batch. When its block tables cover the positions, different requests write different
  blocks (they may share the blocks of a cached prefix), and the blocks belong to the worker's KV cache, whose slots are numbered
  below 2^31 so that the 32-bit arithmetic does not wrap, then no two tokens of the batch share a slot; every token is written into
  the block of its own request that holds its position, at the position's offset; and the cumulative lengths handed to the
  attention kernels are the true request boundaries.
\<close>

theorem prefill_slots_distinct:
  assumes prep: "prepare_prefill_bytes sp cfg cc hs batch is_dummy = Inr (ip, bc, hs')" and bs: "bs = pc_kvcache_block_size cfg"
    and cov: "covered bs batch"
    and sep: "write_disjoint bs batch" and pool: "in_pool bs (cc_num_local_kvcache_blocks cc) batch"
  shows "distinct (bc_slot_mapping bc) \<and>
    set (bc_slot_mapping bc) \<subseteq> {0..<cc_num_local_kvcache_blocks cc * int bs} \<and> length (bc_slot_mapping bc) = length (wb_positions batch) \<and>
    bc_cu_seqlens_q bc = Some (map (\<lambda>s. int (seq_start (wb_seq_lens batch) s)) [0..<Suc (length (wb_seq_lens batch))]) \<and>
    (\<forall>s<length (wb_seq_lens batch). \<forall>j<nat (wb_seq_lens batch ! s).
       bc_slot_mapping bc ! (seq_start (wb_seq_lens batch) s + j) div int bs = token_block bs batch s j \<and>
       bc_slot_mapping bc ! (seq_start (wb_seq_lens batch) s + j) mod int bs = wb_positions batch ! (seq_start (wb_seq_lens batch) s + j) mod int bs)"
proof -
  let ?lens = "wb_seq_lens batch" and ?pos = "wb_positions batch"
  let ?m = "runner_in_prefill sp bs (pc_max_num_seqs cfg) batch"
  have bc: "bc_slot_mapping bc = pm_slot_mapping ?m" "bc_cu_seqlens_q bc = Some (pm_cu_seqlens_q ?m)"
    using prep by (auto simp: prepare_prefill_bytes_def Let_def res_simps bs)
  have bs0: "0 < int bs" using cov by (simp add: covered_def)
  have len: "length (pm_slot_mapping ?m) = length ?pos" using cov by (simp add: runner_in_prefill_def Let_def covered_def)
  have slot: "pm_slot_mapping ?m ! (seq_start ?lens s + j) div int bs = token_block bs batch s j"
      "pm_slot_mapping ?m ! (seq_start ?lens s + j) mod int bs = ?pos ! (seq_start ?lens s + j) mod int bs"
    if "s < length ?lens" "j < nat (?lens ! s)" for s j using prefill_slot [OF cov pool that, of sp "pc_max_num_seqs cfg"] bs0 by simp_all
  have "s = s' \<and> j = j'" if st: "s < length ?lens" "j < nat (?lens ! s)" and st': "s' < length ?lens" "j' < nat (?lens ! s')"
    and eq: "pm_slot_mapping ?m ! (seq_start ?lens s + j) = pm_slot_mapping ?m ! (seq_start ?lens s' + j')" for s s' j j'
  proof -
    have b: "token_block bs batch s j = token_block bs batch s' j'" using eq slot(1) [OF st] slot(1) [OF st'] by simp
    then have s: "s = s'" using write_disjointD(3) [OF cov sep st(1) st'(1) _ st(2) st'(2)] by blast
    let ?p = "?pos ! (seq_start ?lens s + j)" and ?p' = "?pos ! (seq_start ?lens s + j')"
    have r: "0 \<le> ?p" "?p div int bs < int (length (wb_block_tables batch ! s))" "0 \<le> ?p'" "?p' div int bs < int (length (wb_block_tables batch ! s))"
      using cov st st' s unfolding covered_def Let_def by blast+
    have i: "nat (?p div int bs) < length (wb_block_tables batch ! s)" "nat (?p' div int bs) < length (wb_block_tables batch ! s)"
      using r bs0 by (simp_all add: nat_less_iff pos_imp_zdiv_nonneg_iff)
    have "nat (?p div int bs) = nat (?p' div int bs)"
      using b unfolding s [symmetric] token_block_def nth_eq_iff_index_eq [OF write_disjointD(1) [OF cov sep st(1)] i] .
    then have "?p div int bs = ?p' div int bs" using r bs0 by (simp add: pos_imp_zdiv_nonneg_iff nat_eq_iff)
    moreover have "?p mod int bs = ?p' mod int bs" using eq slot(2) [OF st] slot(2) [OF st'] s by simp
    ultimately have "?p = ?p'" by (metis div_mult_mod_eq)
    then show ?thesis using write_disjointD(2) [OF cov sep st(1,2), of j'] st' s by blast
  qed
  moreover have own: "\<exists>s<length ?lens. \<exists>j<nat (?lens ! s). t = seq_start ?lens s + j" if "t < length ?pos" for t
    using token_owner [of t ?lens] that cov by (simp add: covered_def)
  ultimately have dist: "distinct (pm_slot_mapping ?m)" unfolding distinct_conv_nth len by metis
  let ?n = "cc_num_local_kvcache_blocks cc"
  have "0 \<le> pm_slot_mapping ?m ! t \<and> pm_slot_mapping ?m ! t < ?n * int bs" if t: "t < length ?pos" for t
  proof -
    obtain s j where sj: "s < length ?lens" "j < nat (?lens ! s)" "t = seq_start ?lens s + j" using own t by blast
    have "0 \<le> pm_slot_mapping ?m ! t div int bs" "pm_slot_mapping ?m ! t div int bs < ?n"
      using slot(1) [OF sj(1,2)] pool sj by (auto simp: in_pool_def)
    then show ?thesis using bs0 by (simp add: pos_imp_zdiv_nonneg_iff zdiv_less_iff)
  qed
  then have "set (pm_slot_mapping ?m) \<subseteq> {0..<?n * int bs}" using len by (auto simp: set_conv_nth)
  then show ?thesis using slot len dist by (simp add: bc prefill_meta_rows(1))
qed

subsection \<open>State slots and compressed block tables\<close>

lemma clamp_slots_range: "0 \<le> dummy \<Longrightarrow> s \<in> set (clamp_slots dummy slots) \<Longrightarrow> 0 \<le> s \<and> s \<le> dummy"
  by (auto simp: clamp_slots_def split: if_splits)

lemma clamp_slots_real: "i < length slots \<Longrightarrow> 0 \<le> slots ! i \<Longrightarrow> slots ! i < dummy \<Longrightarrow> clamp_slots dummy slots ! i = slots ! i"
  by (simp add: clamp_slots_def)

definition page_row :: "nat \<Rightarrow> int \<Rightarrow> int list \<Rightarrow> int list" where
  "page_row width dummy_page pages = take width pages @ replicate (width - length pages) dummy_page"

definition real_slot :: "nat \<Rightarrow> int \<Rightarrow> bool" where
  "real_slot n s = (0 \<le> s \<and> s < int n)"

lemma write_pages_rows:
  assumes "length table = Suc n" "distinct (filter (real_slot n) (map snd ps))"
    and "\<And>s. s \<in> snd ` set ps \<Longrightarrow> real_slot n s \<Longrightarrow> table ! nat s = replicate width d"
  shows "length (fold (write_pages n width) ps table) = Suc n"
    "(pages, s) \<in> set ps \<Longrightarrow> real_slot n s \<Longrightarrow> fold (write_pages n width) ps table ! nat s = page_row width d pages"
    "int r \<notin> snd ` set ps \<or> r = n \<Longrightarrow> fold (write_pages n width) ps table ! r = table ! r"
proof -
  have "length (fold (write_pages n width) ps table) = Suc n \<and>
    (\<forall>(pages, s)\<in>set ps. real_slot n s \<longrightarrow> fold (write_pages n width) ps table ! nat s = page_row width d pages) \<and>
    (\<forall>r. int r \<notin> snd ` set ps \<or> r = n \<longrightarrow> fold (write_pages n width) ps table ! r = table ! r)"
    using assms
  proof (induction ps arbitrary: table)
    case (Cons p ps)
    obtain pages slot where p: "p = (pages, slot)" by (cases p)
    let ?t = "write_pages n width p table"
    have new: "?t ! nat slot = page_row width d pages" if "real_slot n slot"
      using that Cons.prems(1) Cons.prems(3) [of slot] by (auto simp: p write_pages_def page_row_def min_def real_slot_def nat_less_iff)
    have old: "?t ! r = table ! r" if "int r \<noteq> slot \<or> r = n" for r using that by (auto simp: p write_pages_def)
    have fresh: "slot \<notin> snd ` set ps" if "real_slot n slot" using Cons.prems(2) that by (auto simp: p)
    have lt: "length ?t = Suc n" using Cons.prems(1) by (simp add: p write_pages_def)
    have ds: "distinct (filter (real_slot n) (map snd ps))" using Cons.prems(2) by (simp split: if_splits)
    have "?t ! nat s = replicate width d" if "s \<in> snd ` set ps" "real_slot n s" for s
      using that Cons.prems(3) [of s] old [of "nat s"] fresh by (cases "s = slot") (auto simp: real_slot_def)
    from Cons.IH [OF lt ds this] have IH: "length (fold (write_pages n width) ps ?t) = Suc n"
        "\<forall>(pages, s)\<in>set ps. real_slot n s \<longrightarrow> fold (write_pages n width) ps ?t ! nat s = page_row width d pages"
        "\<forall>r. int r \<notin> snd ` set ps \<or> r = n \<longrightarrow> fold (write_pages n width) ps ?t ! r = ?t ! r"
      by auto
    have row: "fold (write_pages n width) ps ?t ! nat slot = page_row width d pages" if "real_slot n slot"
      using IH(3) fresh [OF that] that new by (auto simp: real_slot_def)
    have keep: "fold (write_pages n width) ps ?t ! r = table ! r" if "int r \<notin> snd ` set (p # ps) \<or> r = n" for r
      using IH(3) [rule_format, of r] old [of r] that by (auto simp: p)
    show ?case using IH(1,2) row keep by (auto simp: p)
  qed simp
  then show "length (fold (write_pages n width) ps table) = Suc n"
    "(pages, s) \<in> set ps \<Longrightarrow> real_slot n s \<Longrightarrow> fold (write_pages n width) ps table ! nat s = page_row width d pages"
    "int r \<notin> snd ` set ps \<or> r = n \<Longrightarrow> fold (write_pages n width) ps table ! r = table ! r" by auto
qed

text \<open>
  The compressed block tables. The row that request \<open>i\<close> reaches through its compressor state slot holds its own
  pages, cut to the table width and padded with the dummy page; a request without a real slot reaches a row of dummy pages
  only. So no request reads or writes a page of another one, and padding rows touch the dummy page alone.
\<close>

lemma compressed_tables_by_slot:
  assumes slots: "dsv4_slots cc n batch = (Some slots, Some tables)" and table: "(ratio, table) \<in> set tables"
    and keys: "distinct (map fst (wb_compressed_block_tables batch))" and per_seq: "(ratio, per_seq) \<in> set (wb_compressed_block_tables batch)"
    and real: "distinct (filter (real_slot n) (wb_state_slots batch))" and i: "i < length (wb_state_slots batch)" "i < length per_seq"
  shows "\<exists>num_pages page_size width. cc_pool_config cc ratio = Some (num_pages, page_size, width) \<and> 0 < width \<and>
    (let d = dict_get (cc_dummy_page cc) ratio num_pages
     in table ! nat (slots ! i) = (if real_slot n (wb_state_slots batch ! i) then page_row (nat width) d (per_seq ! i) else replicate (nat width) d))"
proof -
  have sl: "slots = clamp_slots (int n) (wb_state_slots batch)" and b: "build_compressed cc n batch = Some tables"
    using slots by (auto simp: dsv4_slots_def split: if_splits)
  have "(ratio, table) \<in> set (List.map_filter (build_ratio cc n (wb_state_slots batch)) (wb_compressed_block_tables batch))"
    using b table by (auto simp: build_compressed_def Let_def split: if_splits)
  then obtain x where x: "x \<in> set (wb_compressed_block_tables batch)" "build_ratio cc n (wb_state_slots batch) x = Some (ratio, table)"
    by (auto simp: map_filter_def)
  moreover obtain ps where "x = (ratio, ps)" using x(2) by (cases x) (auto simp: build_ratio_def split: prod.splits if_splits)
  ultimately have ps: "(ratio, ps) \<in> set (wb_compressed_block_tables batch)" and c: "build_ratio cc n (wb_state_slots batch) (ratio, ps) = Some (ratio, table)"
    by auto
  have "ps = per_seq" using keys ps per_seq by (meson eq_key_imp_eq_value)
  then obtain num_pages page_size width where w: "cc_pool_config cc ratio = Some (num_pages, page_size, width)" "0 < width"
      "table = compressed_rows n (nat width) (dict_get (cc_dummy_page cc) ratio num_pages) per_seq (wb_state_slots batch)"
    using c by (auto simp: build_ratio_def split: option.splits if_splits)
  define d where "d = dict_get (cc_dummy_page cc) ratio num_pages"
  let ?ps = "zip per_seq (wb_state_slots batch)" and ?start = "replicate (Suc n) (replicate (nat width) d)"
  have "distinct (filter (real_slot n) (map snd ?ps))"
  proof -
    have "map snd ?ps = take (min (length per_seq) (length (wb_state_slots batch))) (wb_state_slots batch)" by (simp add: map_snd_zip_take)
    then show ?thesis using real by (metis append_take_drop_id distinct_append filter_append)
  qed
  note rows = write_pages_rows [of ?start n ?ps "nat width" d, OF _ this]
  have in_ps: "(per_seq ! i, wb_state_slots batch ! i) \<in> set ?ps" using i by (auto simp: in_set_zip)
  have "table ! nat (slots ! i) = (if real_slot n (wb_state_slots batch ! i) then page_row (nat width) d (per_seq ! i) else replicate (nat width) d)"
  proof (cases "real_slot n (wb_state_slots batch ! i)")
    case True
    then have "slots ! i = wb_state_slots batch ! i" using i(1) by (simp add: sl clamp_slots_real real_slot_def)
    moreover have "fold (write_pages n (nat width)) ?ps ?start ! nat (wb_state_slots batch ! i) = page_row (nat width) d (per_seq ! i)"
      by (rule rows(2) [OF _ _ in_ps True]) (simp_all add: real_slot_def nat_less_iff del: replicate_Suc)
    ultimately show ?thesis using True by (simp add: w(3) d_def [symmetric] compressed_rows_def)
  next
    case False
    then have "slots ! i = int n" using i(1) by (auto simp: sl clamp_slots_def real_slot_def)
    moreover have "fold (write_pages n (nat width)) ?ps ?start ! n = ?start ! n"
      by (rule rows(3)) (simp_all add: real_slot_def nat_less_iff del: replicate_Suc)
    ultimately show ?thesis using False by (simp add: w(3) d_def [symmetric] compressed_rows_def del: replicate_Suc)
  qed
  then show ?thesis using w(1,2) by (simp add: d_def Let_def)
qed

definition sample_prep_config :: prep_config where
  "sample_prep_config =
     \<lparr>pc_kvcache_block_size = 16, pc_max_num_seqs = 12, pc_num_speculative_tokens = 0, pc_max_model_len = 100, pc_enable_hisparse = False,
      pc_cache_plan_has_gqa = Some True, pc_use_flashinfer_decode = False, pc_is_mla = False, pc_is_dsv4 = False\<rparr>"

theorem prefill_slots_distinct_witness:
  "\<exists>ip bc hs'. prepare_prefill_bytes 1 sample_prep_config (sample_cache_context\<lparr>cc_num_local_kvcache_blocks := 100\<rparr>) sample_hot_context sample_batch False = Inr (ip, bc, hs') \<and>
     distinct (bc_slot_mapping bc) \<and> bc_cu_seqlens_q bc = Some [0, 5, 8] \<and> bc_slot_mapping bc ! 6 div 16 = 3"
proof -
  have h: "16 = pc_kvcache_block_size sample_prep_config" "covered 16 sample_batch" "write_disjoint 16 sample_batch"
    "in_pool 16 (cc_num_local_kvcache_blocks (sample_cache_context\<lparr>cc_num_local_kvcache_blocks := 100\<rparr>)) sample_batch" by code_simp+
  have e: "length (wb_seq_lens sample_batch) = 2" "wb_seq_lens sample_batch ! 1 = 3" "seq_start (wb_seq_lens sample_batch) 1 = 5"
    "token_block 16 sample_batch 1 1 = 3" "map (\<lambda>s. int (seq_start (wb_seq_lens sample_batch) s)) [0..<3] = [0, 5, 8]" by code_simp+
  let ?r = "prepare_prefill_bytes 1 sample_prep_config (sample_cache_context\<lparr>cc_num_local_kvcache_blocks := 100\<rparr>) sample_hot_context sample_batch False"
  have "case ?r of Inl _ \<Rightarrow> False | Inr _ \<Rightarrow> True" by code_simp
  then obtain ip bc hs' where r: "?r = Inr (ip, bc, hs')" by (auto split: sum.splits)
  note p = prefill_slots_distinct [OF r h]
  from p [THEN conjunct2, THEN conjunct2, THEN conjunct2, THEN conjunct2, rule_format, of 1 1] have "bc_slot_mapping bc ! 6 div 16 = 3"
    by (simp add: e [unfolded One_nat_def])
  then show ?thesis using p r by (simp add: e)
qed

definition sample_dsv4_context :: cache_context where
  "sample_dsv4_context = sample_cache_context\<lparr>cc_mode := ''dsv4'', cc_pool_config := Map.empty(4 \<mapsto> (64, 16, 3)), cc_dummy_page := Map.empty(4 \<mapsto> 64)\<rparr>"

lemma compressed_tables_by_slot_witness:
  "\<exists>slots tables table. dsv4_slots sample_dsv4_context 8 sample_batch = (Some slots, Some tables) \<and> (4, table) \<in> set tables \<and>
     table ! nat (slots ! 0) = [10, 11, 64] \<and> table ! nat (slots ! 1) = [64, 64, 64]"
proof -
  let ?d = "dsv4_slots sample_dsv4_context 8 sample_batch"
  obtain slots tables table where d: "?d = (Some slots, Some tables)" "(4, table) \<in> set tables"
  proof -
    have "fst ?d \<noteq> None \<and> snd ?d \<noteq> None \<and> 4 \<in> set (map fst (the (snd ?d)))" by code_simp
    then obtain slots tables where "?d = (Some slots, Some tables)" "4 \<in> fst ` set tables" by (cases ?d) (force simp: image_iff)
    then show ?thesis using that by force
  qed
  have h: "distinct (map fst (wb_compressed_block_tables sample_batch))" "(4, [[10, 11], [20]]) \<in> set (wb_compressed_block_tables sample_batch)"
    "distinct (filter (real_slot 8) (wb_state_slots sample_batch))" "0 < length (wb_state_slots sample_batch)" "1 < length (wb_state_slots sample_batch)"
    by code_simp+
  have e: "real_slot 8 (wb_state_slots sample_batch ! 0)" "\<not> real_slot 8 (wb_state_slots sample_batch ! 1)" by code_simp+
  have c: "cc_pool_config sample_dsv4_context 4 = Some (64, 16, 3)" "cc_dummy_page sample_dsv4_context 4 = Some 64" by (simp_all add: sample_dsv4_context_def)
  show ?thesis
    using compressed_tables_by_slot [OF d h(1,2,3,4)] compressed_tables_by_slot [OF d h(1,2,3,5)] d e c
    by (intro exI [of _ slots] exI [of _ tables] exI [of _ table]) (auto simp: page_row_def dict_get_def numeral_eq_Suc)
qed

end
