(* ===== verification/Runner_Output.thy ===== *)
theory Runner_Output
  imports Input_Prep Engine_Step
begin

section \<open>Sampling and the worker's answer (\<open>runner/model_runner.py\<close>, \<open>layers/embed_head.py\<close>)\<close>

text \<open>
  From the hidden states of a forward to the rows a worker returns: the rows the output head computes, the sampling
  paths, and the result of \<open>run_prepared\<close>. The model, the sampler and the draft predictor are parameters: \<open>head\<close> gives
  the logits of a hidden state, \<open>argmax\<close> and \<open>pick\<close> the greedy and the sampled token of a row, \<open>logprob\<close> its
  log-probability.
\<close>

subsection \<open>Logits\<close>

text \<open>\<open>x[indices]\<close> raises out of range and counts negative indices from the end.\<close>

definition head_rows :: "batch_context \<Rightarrow> 'h list \<Rightarrow> 'h list res" where
  "head_rows bc x =
     (if bc_is_prefill bc
      then (case bc_sampling_token_indices bc of
              Some indices \<Rightarrow> mapr (py_nth x) indices
            | None \<Rightarrow> (case bc_cu_seqlens_q bc of None \<Rightarrow> Inl TypeError | Some cu \<Rightarrow> mapr (\<lambda>c. py_nth x (c - 1)) (tl cu)))
      else Inr x)"

definition compute_logits :: "('h \<Rightarrow> 'l) \<Rightarrow> nat \<Rightarrow> nat \<Rightarrow> batch_context \<Rightarrow> 'h list \<Rightarrow> 'l list option res" where
  "compute_logits head tp_size tp_rank bc hidden =
     rbind (head_rows bc hidden) (\<lambda>x. Inr (if 1 < tp_size \<and> tp_rank \<noteq> 0 then None else Some (map head x)))"

definition run_model :: "('h \<Rightarrow> 'l) \<Rightarrow> bool \<Rightarrow> nat \<Rightarrow> nat \<Rightarrow> batch_context \<Rightarrow> 'h list \<Rightarrow> 'l list option res" where
  "run_model head is_last_pp_stage tp_size tp_rank bc hidden =
     (if \<not> is_last_pp_stage then Inr None else compute_logits head tp_size tp_rank bc hidden)"

subsection \<open>Sampling\<close>

record ('l) sampler_fns =
  sf_argmax :: "'l \<Rightarrow> int"
  sf_pick :: "'l \<Rightarrow> real \<Rightarrow> int"
  sf_logprob :: "'l \<Rightarrow> real \<Rightarrow> real"

text \<open>\<open>x = zeros(n); x[indices] = values\<close>\<close>

definition scatter_zeros :: "nat \<Rightarrow> nat list \<Rightarrow> 'a::zero list \<Rightarrow> 'a list res" where
  "scatter_zeros n indices values =
     (if length values \<noteq> length indices then Inl (ExternalError ''index_put'')
      else if list_ex (\<lambda>i. n \<le> i) indices then Inl IndexError
      else Inr (fold (\<lambda>(i, v) xs. xs[i := v]) (zip indices values) (replicate n 0)))"

definition take_rows :: "'a list \<Rightarrow> nat list \<Rightarrow> 'a list res" where
  "take_rows xs indices = mapr (\<lambda>i. py_nth xs (int i)) indices"

definition sample_rows :: "('l \<Rightarrow> real \<Rightarrow> 'b) \<Rightarrow> 'l list \<Rightarrow> real list \<Rightarrow> 'b list res" where
  "sample_rows f logits temperatures =
     (if length logits \<noteq> length temperatures then Inl (ExternalError ''sampler'') else Inr (map (\<lambda>(l, t). f l t) (zip logits temperatures)))"

definition standard_sample ::
  "'l sampler_fns \<Rightarrow> nat \<Rightarrow> batch_context \<Rightarrow> real list \<Rightarrow> bool \<Rightarrow> nat \<Rightarrow> bool \<Rightarrow> 'l list \<Rightarrow> (int list \<times> real list option) res" where
  "standard_sample sf tp_rank bc temperatures want_lp num_seqs is_prefill logits =
     (if tp_rank \<noteq> 0 then Inr (replicate num_seqs 0, if want_lp then Some (replicate num_seqs 0) else None)
      else if is_prefill \<and> bc_sampling_seq_indices bc = Some []
      then Inr (replicate num_seqs 0, if want_lp then Some (replicate num_seqs 0) else None)
      else if \<not> want_lp \<and> list_all (\<lambda>t. t < 1 / 100000) temperatures
      then Inr (map (sf_argmax sf) logits, None)
      else (case (is_prefill, bc_sampling_seq_indices bc) of
              (True, Some indices) \<Rightarrow>
                rbind (take_rows temperatures indices) (\<lambda>temps.
                rbind (sample_rows (sf_pick sf) logits temps) (\<lambda>sampled.
                rbind (scatter_zeros num_seqs indices sampled) (\<lambda>ids.
                if want_lp
                then rbind (sample_rows (sf_logprob sf) logits temps) (\<lambda>lps.
                     rbind (scatter_zeros num_seqs indices lps) (\<lambda>lp. Inr (ids, Some lp)))
                else Inr (ids, None))))
            | _ \<Rightarrow>
                rbind (sample_rows (sf_pick sf) logits temperatures) (\<lambda>ids.
                if want_lp then rbind (sample_rows (sf_logprob sf) logits temperatures) (\<lambda>lps. Inr (ids, Some lps))
                else Inr (ids, None))))"

subsection \<open>The prepared run\<close>

text \<open>
  The phases of \<open>run_prepared\<close> that enter collectives of the worker group, in order. The draft phases exist only with a
  draft predictor (\<open>mtp\<close>).
\<close>

datatype phase = Forward | Sample | LazyVerify | DraftPrefill | PublishHandoff | DraftDecode

record prepared_run =
  pr_bc :: batch_context
  pr_temperatures :: "real list"
  pr_want_lp :: bool
  pr_num_seqs :: nat
  pr_is_prefill :: bool
  pr_has_lazy_verify :: bool

text \<open>
  \<open>verify\<close> is the draft predictor's verification, \<open>build_output\<close> its output with the accepted drafts; both are given
  the tokens and log-probabilities of the step.
\<close>

record ('l) mtp_fns =
  mt_verify :: "'l list \<Rightarrow> (int list \<times> real list option) res"
  mt_build_output :: "int list \<Rightarrow> real list option \<Rightarrow> int list list \<times> real list list option"

definition draft_phases :: "bool \<Rightarrow> string \<Rightarrow> bool \<Rightarrow> phase list" where
  "draft_phases mtp mode is_prefill =
     (if \<not> mtp then [] else if is_prefill then DraftPrefill # (if mode = ''prefill'' then [PublishHandoff] else []) else [DraftDecode])"

definition run_prepared ::
  "('h \<Rightarrow> 'l) \<Rightarrow> 'l sampler_fns \<Rightarrow> 'l mtp_fns option \<Rightarrow> string \<Rightarrow> bool \<Rightarrow> nat \<Rightarrow> nat \<Rightarrow> prepared_run \<Rightarrow> 'h list
   \<Rightarrow> (phase list \<times> int list list \<times> real list list option) res" where
  "run_prepared head sf mtp mode is_last_pp_stage tp_size tp_rank pr hidden =
     rbind (run_model head is_last_pp_stage tp_size tp_rank (pr_bc pr) hidden) (\<lambda>logits_opt.
     (case logits_opt of
        None \<Rightarrow> Inr ([Forward], replicate (pr_num_seqs pr) [0], None)
      | Some logits \<Rightarrow>
          rbind (case (mtp, \<not> pr_is_prefill pr \<and> pr_has_lazy_verify pr) of
                   (Some m, True) \<Rightarrow> rbind (mt_verify m logits) (\<lambda>r. Inr (LazyVerify, r))
                 | (None, True) \<Rightarrow> Inl AttributeError
                 | (_, False) \<Rightarrow>
                     rbind (standard_sample sf tp_rank (pr_bc pr) (pr_temperatures pr) (pr_want_lp pr) (pr_num_seqs pr) (pr_is_prefill pr) logits) (\<lambda>r. Inr (Sample, r)))
            (\<lambda>(ph, ids, lps).
             Inr (Forward # ph # draft_phases (mtp \<noteq> None) mode (pr_is_prefill pr),
                  (case mtp of None \<Rightarrow> (map (\<lambda>t. [t]) ids, map_option (map (\<lambda>l. [l])) lps) | Some m \<Rightarrow> mt_build_output m ids lps)))))"

subsection \<open>The token of every sampled request\<close>

lemma scatter_rows:
  assumes "distinct indices" "\<And>i. i \<in> set indices \<Longrightarrow> i < n" "length values = length indices"
  shows "\<exists>xs. scatter_zeros n indices values = Inr xs \<and> length xs = n \<and> (\<forall>k<length indices. xs ! (indices ! k) = values ! k)"
proof -
  let ?xs = "fold (\<lambda>(i, v) xs. xs[i := v]) (zip indices values) (replicate n 0)"
  have "scatter_zeros n indices values = Inr ?xs" using assms by (auto simp: scatter_zeros_def list_ex_iff) (meson leD)
  moreover have "?xs ! (indices ! k) = values ! k" if "k < length indices" for k
  proof (rule fold_update_nth)
    show "distinct (map fst (zip indices values))" using assms(1,3) by simp
    show "(indices ! k, values ! k) \<in> set (zip indices values)" using that assms(3) by (force simp: set_zip)
    show "indices ! k < length (replicate n 0)" using that assms(2) by simp
  qed
  ultimately show ?thesis by (auto simp: fold_update_length)
qed

text \<open>What a sampled request's row must hold: the token of its last hidden state.\<close>

definition greedy :: "bool \<Rightarrow> real list \<Rightarrow> bool" where
  "greedy want_lp temperatures = (\<not> want_lp \<and> list_all (\<lambda>t. t < 1 / 100000) temperatures)"

definition last_hidden :: "wire_batch \<Rightarrow> 'h list \<Rightarrow> nat \<Rightarrow> 'h" where
  "last_hidden batch hidden s = hidden ! (seq_start (wb_seq_lens batch) (Suc s) - 1)"

definition request_token :: "('h \<Rightarrow> 'l) \<Rightarrow> 'l sampler_fns \<Rightarrow> bool \<Rightarrow> wire_batch \<Rightarrow> 'h list \<Rightarrow> nat \<Rightarrow> int" where
  "request_token head sf want_lp batch hidden s =
     (if greedy want_lp (wb_temperatures batch) then sf_argmax sf (head (last_hidden batch hidden s))
      else sf_pick sf (head (last_hidden batch hidden s)) (wb_temperatures batch ! s))"

abbreviation sampled_rows :: "wire_batch \<Rightarrow> nat list" where
  "sampled_rows batch \<equiv> filter (sampled_row batch) [0..<length (wb_seq_lens batch)]"

lemma prefill_context:
  assumes "prepare_prefill_bytes sp cfg cc hs batch is_dummy = Inr (ip, bc, hs')"
  shows "bc_is_prefill bc" "bc_cu_seqlens_q bc = Some (map (\<lambda>s. int (seq_start (wb_seq_lens batch) s)) [0..<Suc (length (wb_seq_lens batch))])"
    "bc_sampling_token_indices bc = (if length (sampled_rows batch) < length (wb_seq_lens batch)
       then Some (map (\<lambda>s. int (seq_start (wb_seq_lens batch) (Suc s)) - 1) (sampled_rows batch)) else None)"
    "bc_sampling_seq_indices bc = (if length (sampled_rows batch) < length (wb_seq_lens batch) then Some (sampled_rows batch) else None)"
  using assms unfolding prepare_prefill_bytes_def Let_def res_simps
  by (auto simp: res_simps prefill_meta_rows simp del: upt_Suc)

text \<open>The rows the output head computes: one per sampled request, or one per request when all are sampled.\<close>

lemma all_sampled: "\<not> length (sampled_rows batch) < length (wb_seq_lens batch) \<Longrightarrow> sampled_rows batch = [0..<length (wb_seq_lens batch)]"
proof -
  assume "\<not> length (sampled_rows batch) < length (wb_seq_lens batch)"
  then have "\<not> length (sampled_rows batch) < length [0..<length (wb_seq_lens batch)]" by simp
  then show ?thesis using length_filter_less [of _ "[0..<length (wb_seq_lens batch)]" "sampled_row batch"] by (metis filter_True)
qed

lemma prefill_head_rows:
  assumes prep: "prepare_prefill_bytes sp cfg cc hs batch is_dummy = Inr (ip, bc, hs')" and len: "length hidden = seq_start (wb_seq_lens batch) (length (wb_seq_lens batch))"
  shows "head_rows bc hidden = Inr (map (last_hidden batch hidden) (sampled_rows batch))"
proof -
  have row: "py_nth hidden (int (seq_start (wb_seq_lens batch) (Suc s)) - 1) = Inr (last_hidden batch hidden s)" if "s \<in> set (sampled_rows batch)" for s
  proof -
    have s: "s < length (wb_seq_lens batch)" "0 < wb_seq_lens batch ! s" using that by (auto simp: sampled_row_def)
    then have "0 < seq_start (wb_seq_lens batch) (Suc s)" by (simp add: seq_start_Suc)
    moreover have "seq_start (wb_seq_lens batch) (Suc s) \<le> length hidden" using seq_start_mono [of "Suc s" "length (wb_seq_lens batch)"] s(1) len by simp
    ultimately show ?thesis using py_nth_nat [of "seq_start (wb_seq_lens batch) (Suc s) - 1" hidden] by (simp add: last_hidden_def of_nat_diff)
  qed
  note bc = prefill_context [OF prep]
  show ?thesis
  proof (cases "length (sampled_rows batch) < length (wb_seq_lens batch)")
    case True
    have "mapr (py_nth hidden) (map (\<lambda>s. int (seq_start (wb_seq_lens batch) (Suc s)) - 1) ss) = Inr (map (last_hidden batch hidden) ss)"
      if "set ss \<subseteq> set (sampled_rows batch)" for ss using row that by (induction ss) auto
    then show ?thesis using True bc by (simp add: head_rows_def del: set_filter)
  next
    case False
    have tl: "tl (map (\<lambda>s. int (seq_start (wb_seq_lens batch) s)) [0..<Suc (length (wb_seq_lens batch))]) = map (\<lambda>s. int (seq_start (wb_seq_lens batch) (Suc s))) (sampled_rows batch)"
      unfolding all_sampled [OF False] by (simp add: map_Suc_upt [symmetric] upt_conv_Cons del: upt_Suc)
    have "mapr (\<lambda>c. py_nth hidden (c - 1)) (map (\<lambda>s. int (seq_start (wb_seq_lens batch) (Suc s))) ss) = Inr (map (last_hidden batch hidden) ss)"
      if "set ss \<subseteq> set (sampled_rows batch)" for ss using row that by (induction ss) auto
    then show ?thesis using False bc unfolding head_rows_def by (simp add: tl del: upt_Suc set_filter)
  qed
qed

lemma take_rows_total: "(\<And>i. i \<in> set indices \<Longrightarrow> i < length xs) \<Longrightarrow> take_rows xs indices = Inr (map ((!) xs) indices)"
  unfolding take_rows_def by (intro mapr_total) simp

lemma sample_all: "length ls = length ts \<Longrightarrow> \<exists>xs. sample_rows f ls ts = Inr xs \<and> length xs = length ls \<and> (\<forall>k<length ls. xs ! k = f (ls ! k) (ts ! k))"
  by (simp add: sample_rows_def)

lemma standard_sample_prefill:
  assumes prep: "prepare_prefill_bytes sp cfg cc hs batch is_dummy = Inr (ip, bc, hs')"
    and temps: "length (wb_temperatures batch) = length (wb_seq_lens batch)"
    and prefix: "greedy want_lp (wb_temperatures batch) \<Longrightarrow> sampled_rows batch = [0..<m]"
  shows "\<exists>ids lps. standard_sample sf 0 bc (wb_temperatures batch) want_lp (length (wb_seq_lens batch)) True (map head (map (last_hidden batch hidden) (sampled_rows batch))) = Inr (ids, lps) \<and>
    (\<forall>s<length (wb_seq_lens batch). sampled_row batch s \<longrightarrow> s < length ids \<and> ids ! s = request_token head sf want_lp batch hidden s)"
proof -
  let ?n = "length (wb_seq_lens batch)" and ?t = "wb_temperatures batch" and ?sr = "sampled_rows batch"
  let ?logits = "map head (map (last_hidden batch hidden) ?sr)"
  note bc = prefill_context(4) [OF prep]
  have in_sr: "s \<in> set ?sr" if "s < ?n" "sampled_row batch s" for s using that by simp
  have sr: "distinct ?sr" "\<And>i. i \<in> set ?sr \<Longrightarrow> i < ?n" by auto
  consider (none) "bc_sampling_seq_indices bc = Some []" | (argmax) "bc_sampling_seq_indices bc \<noteq> Some []" "greedy want_lp ?t"
    | (some) "bc_sampling_seq_indices bc = Some ?sr" "?sr \<noteq> []" "\<not> greedy want_lp ?t" | (every) "bc_sampling_seq_indices bc = None" "\<not> greedy want_lp ?t"
    using bc by (cases "length ?sr < ?n") auto
  then show ?thesis
  proof cases
    case none
    then have "?sr = []" using bc by (auto split: if_splits)
    then have "\<not> (s < ?n \<and> sampled_row batch s)" for s using in_sr [of s] by (metis empty_iff list.set(1))
    then show ?thesis using none by (simp add: standard_sample_def)
  next
    case argmax
    have sm: "?sr = [0..<m]" by (rule prefix [OF argmax(2)])
    have "s < m" if "s < ?n" "sampled_row batch s" for s using in_sr [OF that] unfolding sm by simp
    then show ?thesis using argmax unfolding sm by (auto simp: standard_sample_def greedy_def request_token_def)
  next
    case some
    have tr: "take_rows ?t ?sr = Inr (map ((!) ?t) ?sr)" using sr(2) temps by (intro take_rows_total) simp
    have tot: "\<exists>xs. sample_rows f ?logits (map ((!) ?t) ?sr) = Inr xs \<and> length xs = length ?sr \<and> (\<forall>k<length ?sr. xs ! k = f (head (last_hidden batch hidden (?sr ! k))) (?t ! (?sr ! k)))"
      for f :: "_ \<Rightarrow> real \<Rightarrow> 'x" using sample_all [of ?logits "map ((!) ?t) ?sr" f] by simp
    obtain xs where xs: "sample_rows (sf_pick sf) ?logits (map ((!) ?t) ?sr) = Inr xs" "length xs = length ?sr"
        "\<forall>k<length ?sr. xs ! k = sf_pick sf (head (last_hidden batch hidden (?sr ! k))) (?t ! (?sr ! k))" using tot by blast
    obtain lps where lps: "sample_rows (sf_logprob sf) ?logits (map ((!) ?t) ?sr) = Inr lps" "length lps = length ?sr" using tot by blast
    obtain ids where ids: "scatter_zeros ?n ?sr xs = Inr ids" "length ids = ?n" "\<forall>k<length ?sr. ids ! (?sr ! k) = xs ! k"
      using scatter_rows [OF sr xs(2)] by blast
    obtain lp where lp: "scatter_zeros ?n ?sr lps = Inr lp" using scatter_rows [OF sr lps(2)] by blast
    have "standard_sample sf 0 bc ?t want_lp ?n True ?logits = Inr (ids, if want_lp then Some lp else None)"
      unfolding standard_sample_def using some tr xs(1) lps(1) ids(1) lp by (auto simp: greedy_def)
    moreover have "ids ! s = request_token head sf want_lp batch hidden s" if s: "s < ?n" "sampled_row batch s" for s
    proof -
      obtain k where "k < length ?sr" "?sr ! k = s" using in_sr [OF s] by (meson in_set_conv_nth)
      then show ?thesis using ids(3) xs(3) some(3) by (auto simp: request_token_def)
    qed
    ultimately show ?thesis using ids(2) by simp
  next
    case every
    then have all: "?sr = [0..<?n]" using bc all_sampled [of batch] by (auto split: if_splits)
    have tot: "\<exists>xs. sample_rows f ?logits ?t = Inr xs \<and> length xs = ?n \<and> (\<forall>k<?n. xs ! k = f (head (last_hidden batch hidden k)) (?t ! k))"
      for f :: "_ \<Rightarrow> real \<Rightarrow> 'x" using sample_all [of ?logits ?t f] temps unfolding all by simp
    obtain xs where xs: "sample_rows (sf_pick sf) ?logits ?t = Inr xs" "length xs = ?n" "\<forall>k<?n. xs ! k = sf_pick sf (head (last_hidden batch hidden k)) (?t ! k)"
      using tot by blast
    obtain lps where lps: "sample_rows (sf_logprob sf) ?logits ?t = Inr lps" using tot by blast
    have "standard_sample sf 0 bc ?t want_lp ?n True ?logits = Inr (xs, if want_lp then Some lps else None)"
      unfolding standard_sample_def using every xs(1) lps by (auto simp: greedy_def)
    then show ?thesis using xs(2,3) every(2) by (simp add: request_token_def)
  qed
qed

text \<open>
  C9: a prefill answer has the right token in the right row. The leader of the last stage answers every sampled request, in
  the row of that request, with the token sampled from the last hidden state of that request and its own temperature; for a
  greedy batch this needs the sampled requests to come first, since that path returns the sampled rows without scattering them.
\<close>

theorem prefill_answer_rows:
  assumes prep: "prepare_prefill_bytes sp cfg cc hs batch is_dummy = Inr (ip, bc, hs')"
    and len: "length hidden = seq_start (wb_seq_lens batch) (length (wb_seq_lens batch))" "length (wb_temperatures batch) = length (wb_seq_lens batch)"
    and pr: "pr = \<lparr>pr_bc = bc, pr_temperatures = wb_temperatures batch, pr_want_lp = want_lp, pr_num_seqs = length (wb_seq_lens batch), pr_is_prefill = True, pr_has_lazy_verify = False\<rparr>"
    and prefix: "greedy want_lp (wb_temperatures batch) \<Longrightarrow> sampled_rows batch = [0..<m]"
  shows "\<exists>rows lps. run_prepared head sf None mode True tp_size 0 pr hidden = Inr ([Forward, Sample], rows, lps) \<and>
    (\<forall>s<length (wb_seq_lens batch). sampled_row batch s \<longrightarrow> s < length rows \<and> rows ! s = [request_token head sf want_lp batch hidden s])"
proof -
  obtain ids lps where ss: "standard_sample sf 0 bc (wb_temperatures batch) want_lp (length (wb_seq_lens batch)) True
        (map head (map (last_hidden batch hidden) (sampled_rows batch))) = Inr (ids, lps)"
      "\<forall>s<length (wb_seq_lens batch). sampled_row batch s \<longrightarrow> s < length ids \<and> ids ! s = request_token head sf want_lp batch hidden s"
    using standard_sample_prefill [OF prep len(2) prefix] by blast
  have "run_model head True tp_size 0 bc hidden = Inr (Some (map head (map (last_hidden batch hidden) (sampled_rows batch))))"
    using prefill_head_rows [OF prep len(1)] by (simp add: run_model_def compute_logits_def)
  then show ?thesis using ss by (auto simp: run_prepared_def pr draft_phases_def)
qed

definition sample_sampler :: "int sampler_fns" where
  "sample_sampler = \<lparr>sf_argmax = (\<lambda>l. l), sf_pick = (\<lambda>l t. 1000 + l), sf_logprob = (\<lambda>l t. 0)\<rparr>"

theorem prefill_answer_rows_witness:
  "\<exists>ip bc hs' rows lps. prepare_prefill_bytes 1 sample_prep_config sample_cache_context sample_hot_context sample_batch False = Inr (ip, bc, hs') \<and>
     run_prepared id sample_sampler None ''hybrid'' True 1 0
       \<lparr>pr_bc = bc, pr_temperatures = wb_temperatures sample_batch, pr_want_lp = True, pr_num_seqs = 2, pr_is_prefill = True, pr_has_lazy_verify = False\<rparr>
       [0, 1, 2, 3, 4, 5, 6, 7] = Inr ([Forward, Sample], rows, lps) \<and> rows ! 0 = [1004] \<and> rows ! 1 = [1007]"
proof -
  have e: "length (wb_seq_lens sample_batch) = 2" "length [0, 1, 2, 3, 4, 5, 6, 7 :: int] = seq_start (wb_seq_lens sample_batch) 2"
    "length (wb_temperatures sample_batch) = 2" "\<not> greedy True (wb_temperatures sample_batch)" "sampled_row sample_batch 0" "sampled_row sample_batch 1"
    "request_token id sample_sampler True sample_batch [0, 1, 2, 3, 4, 5, 6, 7] 0 = 1004" "request_token id sample_sampler True sample_batch [0, 1, 2, 3, 4, 5, 6, 7] 1 = 1007"
    by (simp_all add: sample_batch_def greedy_def request_token_def last_hidden_def seq_start_def sampled_row_def get_or_def sample_sampler_def)
  let ?r = "prepare_prefill_bytes 1 sample_prep_config sample_cache_context sample_hot_context sample_batch False"
  have "case ?r of Inl _ \<Rightarrow> False | Inr _ \<Rightarrow> True" by code_simp
  then obtain ip bc hs' where r: "?r = Inr (ip, bc, hs')" by (auto split: sum.splits)
  have p: "greedy True (wb_temperatures sample_batch) \<Longrightarrow> sampled_rows sample_batch = [0..<0]" using e(4) by blast
  from prefill_answer_rows [OF r e(2) [folded e(1)] e(3) [folded e(1)] refl p, where head = id and sf = sample_sampler and mode = "''hybrid''" and tp_size = 1]
  obtain rows lps where o: "run_prepared id sample_sampler None ''hybrid'' True 1 0
       \<lparr>pr_bc = bc, pr_temperatures = wb_temperatures sample_batch, pr_want_lp = True, pr_num_seqs = length (wb_seq_lens sample_batch), pr_is_prefill = True, pr_has_lazy_verify = False\<rparr>
       [0, 1, 2, 3, 4, 5, 6, 7] = Inr ([Forward, Sample], rows, lps)"
    "\<forall>s<length (wb_seq_lens sample_batch). sampled_row sample_batch s \<longrightarrow> s < length rows \<and> rows ! s = [request_token id sample_sampler True sample_batch [0, 1, 2, 3, 4, 5, 6, 7] s]" by blast
  have "rows ! 0 = [1004]" "rows ! 1 = [1007]" using o(2) e by auto
  then show ?thesis using r o(1) unfolding e(1) by blast
qed

subsection \<open>Microbatches keep the sampled rows in front\<close>

lemma sampled_prefix:
  assumes "\<And>s. Suc s < length (wb_seq_lens batch) \<Longrightarrow> sampled_row batch s"
  shows "\<exists>m. sampled_rows batch = [0..<m]"
proof (cases "length (wb_seq_lens batch)")
  case (Suc n)
  have "filter (sampled_row batch) [0..<n] = [0..<n]" using assms Suc by (intro filter_True) auto
  then show ?thesis unfolding Suc by (cases "sampled_row batch n") (auto intro: exI [of _ n] exI [of _ "Suc n"])
qed (auto intro: exI [of _ 0])

text \<open>
  The prefill pipeline only submits batches whose sampled rows come first, as the greedy path requires: when every request of
  the scheduled batch but the last is sampled (only the last one can be cut by the token budget), the sampled rows of each of its
  microbatches are an initial segment of the rows.
\<close>

lemma microbatch_rows_sampled_first:
  assumes pack: "packable M batch" "0 < sum_list (map nat (wb_seq_lens batch))" "prefill_microbatches M batch = Inr mbs"
    and mask: "\<And>s. Suc s < length (wb_seq_lens batch) \<Longrightarrow> get_or (wb_sample_mask batch) s True" and mb: "(mb, md) \<in> set mbs"
  shows "\<exists>m. sampled_rows mb = [0..<m]"
proof (rule sampled_prefix)
  obtain Fs where m: "stream_of mbs = concat Fs" "length Fs = length (wb_seq_lens batch)"
      "\<forall>s<length (wb_seq_lens batch). fragments s (batch_rows batch ! s) (Fs ! s)" "list_all (\<lambda>bm. row_data batch bm \<and> batch_ok bm \<and> row_order (snd bm)) mbs"
    using microbatches_shape [OF pack(1,2)] pack(3) by auto
  have ok: "row_data batch (mb, md)" "batch_ok (mb, md)" "row_order md" using m(4) mb by (auto simp: list_all_iff)
  have len: "length (wb_seq_lens mb) = length md" "list_all (\<lambda>l. 0 < l) (wb_seq_lens mb)" using ok(2) by (simp_all add: batch_ok_def)
  fix r assume r: "Suc r < length (wb_seq_lens mb)"
  have "fst (md ! Suc r) < length (wb_seq_lens batch)"
  proof -
    have "md ! Suc r \<in> set (map fst (rows (mb, md)))" using r len(1) by (simp add: rows_def batch_rows_def)
    then have "md ! Suc r \<in> fst ` set (stream_of mbs)" using mb by (auto simp: stream_of_def)
    then obtain F where F: "F \<in> set Fs" "md ! Suc r \<in> fst ` set F" using m(1) by auto
    then obtain s where "s < length (wb_seq_lens batch)" "F = Fs ! s" using m(2) by (metis in_set_conv_nth)
    then have "fst (md ! Suc r) = s" using m(3) F(2) by (force simp: fragments_def list_all_iff)
    then show ?thesis using \<open>s < length (wb_seq_lens batch)\<close> by simp
  qed
  moreover have "fst (md ! r) < fst (md ! Suc r)" using ok(3) r len(1) by (auto simp: row_order_def sorted_wrt_map sorted_wrt_iff_nth_less)
  ultimately have "get_or (wb_sample_mask batch) (fst (md ! r)) True" using mask by simp
  moreover have "snd (md ! r)"
  proof -
    have "butlast md ! r \<in> set (butlast md)" using r len(1) by simp
    then show ?thesis using ok(3) r len(1) by (auto simp: row_order_def list_all_iff nth_butlast)
  qed
  moreover have "wb_sample_mask mb = map (\<lambda>(s, l). l \<and> get_or (wb_sample_mask batch) s True) md" using ok(1) by (simp add: row_data_def)
  ultimately show "sampled_row mb r" using r len by (auto simp: sampled_row_def get_or_def list_all_length split: prod.splits)
qed

lemma microbatch_rows_sampled_first_witness:
  "\<exists>mbs. prefill_microbatches 2 sample_batch = Inr mbs \<and> length mbs = 4 \<and> (\<exists>m. sampled_rows (fst (mbs ! 2)) = [0..<m])"
proof -
  let ?r = "prefill_microbatches 2 sample_batch"
  have "case ?r of Inl _ \<Rightarrow> False | Inr mbs \<Rightarrow> length mbs = 4" by code_simp
  then obtain mbs where m: "?r = Inr mbs" "length mbs = 4" by (auto split: sum.splits)
  have h: "packable 2 sample_batch" "0 < sum_list (map nat (wb_seq_lens sample_batch))" by code_simp+
  have k: "get_or (wb_sample_mask sample_batch) s True" if "Suc s < length (wb_seq_lens sample_batch)" for s
    using that by (simp add: sample_batch_def get_or_def)
  have "(fst (mbs ! 2), snd (mbs ! 2)) \<in> set mbs" using m(2) by simp
  from microbatch_rows_sampled_first [OF h m(1) k this] m show ?thesis by blast
qed

text \<open>
  Without that order the greedy path misplaces a token: here only the second of two requests is sampled, and its token
  is returned in the row of the first.
\<close>

lemma greedy_rows_shift:
  assumes "bc_sampling_seq_indices bc = Some [1]"
  shows "standard_sample sf 0 bc [0, 0] False 2 True [l] = Inr ([sf_argmax sf l], None)"
    "standard_sample sf 0 bc [1, 1] False 2 True [l] = Inr ([0, sf_pick sf l 1], None)"
  using assms by (simp_all add: standard_sample_def take_rows_def py_nth_def py_len_def sample_rows_def scatter_zeros_def numeral_2_eq_2)

subsection \<open>Draft generation under tensor parallelism\<close>

text \<open>
  C39: with a draft predictor and more than one tensor-parallel rank, only rank 0 enters draft generation: the output head hands the
  other ranks no logits, which \<open>run_prepared\<close> takes for a stage that is not the last, so they return after the forward. The
  predictor's collectives over the tensor-parallel group (\<open>mtp_runner.py\<close>) are then entered by one rank alone.
\<close>

theorem tp_ranks_skip_drafts:
  assumes tp: "1 < tp_size" "r \<noteq> 0" and rows: "head_rows (pr_bc pr) hidden = Inr x"
    and leader: "run_prepared head sf (Some m) mode True tp_size 0 pr hidden = Inr (phases, out)"
  shows "run_prepared head sf (Some m) mode True tp_size r pr hidden = Inr ([Forward], replicate (pr_num_seqs pr) [0], None) \<and>
    (DraftPrefill \<in> set phases \<or> DraftDecode \<in> set phases)"
proof
  show "run_prepared head sf (Some m) mode True tp_size r pr hidden = Inr ([Forward], replicate (pr_num_seqs pr) [0], None)"
    using tp rows by (simp add: run_prepared_def run_model_def compute_logits_def)
  show "DraftPrefill \<in> set phases \<or> DraftDecode \<in> set phases"
    using leader rows by (auto simp: run_prepared_def run_model_def compute_logits_def draft_phases_def res_simps split: bool.splits if_splits)
qed

definition sample_mtp :: "int mtp_fns" where
  "sample_mtp = \<lparr>mt_verify = (\<lambda>logits. Inr (logits, None)), mt_build_output = (\<lambda>ids lps. (map (\<lambda>i. [i, i]) ids, None))\<rparr>"

definition sample_decode_context :: "batch_context" where
  "sample_decode_context =
     \<lparr>bc_is_prefill = False, bc_max_bs = 2, bc_cu_seqlens_q = None, bc_cu_seqlens_k = None, bc_max_seqlen_q = 0, bc_max_seqlen_k = 0, bc_slot_mapping = [3],
      bc_context_lens = Some [[4, 0]], bc_block_tables = None, bc_is_dummy = False, bc_gdn_state_slots = None, bc_dsv4_state_slots = None,
      bc_dsv4_compressed_block_tables = None, bc_hisparse_slots = None, bc_hisparse_slot_mapping = None, bc_hisparse_num_real_reqs = None, bc_hisparse_phase_id = 0, bc_num_tokens_per_seq = 1,
      bc_sampling_token_indices = None, bc_sampling_seq_indices = None, bc_paged_attention_strategy = Some PS_FLASH_ATTN,
      bc_decode_page_plan_key = None, bc_mtp_draft_safe = True\<rparr>"

definition sample_prepared :: prepared_run where
  "sample_prepared = \<lparr>pr_bc = sample_decode_context, pr_temperatures = [0], pr_want_lp = False, pr_num_seqs = 1, pr_is_prefill = False, pr_has_lazy_verify = False\<rparr>"

theorem tp_ranks_skip_drafts_witness:
  "run_prepared id sample_sampler (Some sample_mtp) ''hybrid'' True 2 0 sample_prepared [7] = Inr ([Forward, Sample, DraftDecode], [[7, 7]], None) \<and>
   run_prepared id sample_sampler (Some sample_mtp) ''hybrid'' True 2 1 sample_prepared [7] = Inr ([Forward], [[0]], None)"
proof -
  have l: "run_prepared id sample_sampler (Some sample_mtp) ''hybrid'' True 2 0 sample_prepared [7] = Inr ([Forward, Sample, DraftDecode], [[7, 7]], None)"
    by (simp add: run_prepared_def run_model_def compute_logits_def head_rows_def sample_prepared_def sample_decode_context_def standard_sample_def
        draft_phases_def sample_sampler_def sample_mtp_def)
  have "head_rows (pr_bc sample_prepared) [7] = Inr [7]" by (simp add: head_rows_def sample_prepared_def sample_decode_context_def)
  from tp_ranks_skip_drafts [of 2 1, OF _ _ this l] l show ?thesis by (simp add: sample_prepared_def)
qed

end
