(* ===== verification/Mtp_Verify.thy ===== *)
theory Mtp_Verify
  imports Prelude Complex_Main "HOL-Library.Option_ord"
begin

section \<open>Verification of drafted tokens (\<open>runner/mtp_runner.py\<close>)\<close>

text \<open>
  The two verification routines of speculative decoding: \<open>linear_greedy_verify\<close> for batches without temperature and
  \<open>linear_rejection_sample\<close> for the others. Arithmetic is exact; a logit is a real number or minus infinity (\<^const>\<open>None\<close>,
  the least element of the option order). Random numbers are modelled by finite distributions: \<open>torch.rand() < p\<close> is a coin
  of weight \<open>p\<close>, and the largest \<open>log p - log e\<close> over independent exponential \<open>e\<close> draws an index with weight \<open>p\<close>.
\<close>

subsection \<open>Finite distributions\<close>

type_synonym 'a dist = "('a \<times> real) list"

definition dist_return :: "'a \<Rightarrow> 'a dist" where
  "dist_return x = [(x, 1)]"

definition dist_bind :: "'a dist \<Rightarrow> ('a \<Rightarrow> 'b dist) \<Rightarrow> 'b dist" where
  "dist_bind d f = concat (map (\<lambda>(x, w). map (\<lambda>(y, v). (y, w * v)) (f x)) d)"

definition dist_prob :: "'a dist \<Rightarrow> ('a \<Rightarrow> bool) \<Rightarrow> real" where
  "dist_prob d P = (\<Sum>(x, w)\<leftarrow>d. if P x then w else 0)"

definition coin :: "real \<Rightarrow> bool dist" where
  "coin p = [(True, p), (False, 1 - p)]"

text \<open>Independent draws.\<close>

fun dist_map :: "('a \<Rightarrow> 'b dist) \<Rightarrow> 'a list \<Rightarrow> 'b list dist" where
  "dist_map f [] = dist_return []"
| "dist_map f (x # xs) = dist_bind (f x) (\<lambda>y. dist_bind (dist_map f xs) (\<lambda>ys. dist_return (y # ys)))"

lemma dist_prob_return [simp]: "dist_prob (dist_return x) P = (if P x then 1 else 0)"
  by (simp add: dist_prob_def dist_return_def)

lemma dist_prob_Nil [simp]: "dist_prob [] P = 0"
  by (simp add: dist_prob_def)

lemma dist_prob_Cons [simp]: "dist_prob ((x, w) # d) P = (if P x then w else 0) + dist_prob d P"
  by (simp add: dist_prob_def)

lemma dist_prob_append [simp]: "dist_prob (d @ e) P = dist_prob d P + dist_prob e P"
  by (simp add: dist_prob_def)

lemma dist_prob_scale: "dist_prob (map (\<lambda>(y, v). (y, w * v)) d) P = w * dist_prob d P"
  by (induction d) (auto simp: distrib_left)

lemma dist_bind_Nil [simp]: "dist_bind [] f = []"
  by (simp add: dist_bind_def)

lemma dist_bind_Cons [simp]: "dist_bind ((x, w) # d) f = map (\<lambda>(y, v). (y, w * v)) (f x) @ dist_bind d f"
  by (simp add: dist_bind_def)

lemma dist_bind_return [simp]: "dist_bind (dist_return x) f = f x"
  by (simp add: dist_bind_def dist_return_def)

lemma dist_prob_bind: "dist_prob (dist_bind d f) P = (\<Sum>(x, w)\<leftarrow>d. w * dist_prob (f x) P)"
  by (induction d) (auto simp: dist_prob_scale)

lemma dist_prob_cong: "(\<And>x. P x = Q x) \<Longrightarrow> dist_prob d P = dist_prob d Q"
  by (simp add: dist_prob_def)

lemma dist_prob_False [simp]: "dist_prob d (\<lambda>x. False) = 0"
  by (induction d) auto

lemma dist_prob_push: "dist_prob (dist_bind d (\<lambda>x. dist_return (f x))) P = dist_prob d (\<lambda>x. P (f x))"
  by (induction d) (auto simp: dist_prob_scale)

lemma dist_prob_coin [simp]: "dist_prob (coin p) P = (if P True then p else 0) + (if P False then 1 - p else 0)"
  by (simp add: coin_def)

subsection \<open>Rows of logits\<close>

text \<open>\<open>argmax\<close> returns the first maximal index.\<close>

fun argmax :: "'a::linorder list \<Rightarrow> nat" where
  "argmax [] = 0"
| "argmax [x] = 0"
| "argmax (x # y # ys) = (let j = argmax (y # ys) in if x < (y # ys) ! j then Suc j else 0)"

definition weight :: "real \<Rightarrow> real option \<Rightarrow> real" where
  "weight t l = (case l of None \<Rightarrow> 0 | Some v \<Rightarrow> exp (v / t))"

definition total_weight :: "real \<Rightarrow> real option list \<Rightarrow> real" where
  "total_weight t row = sum_list (map (weight t) row)"

definition softmax :: "real \<Rightarrow> real option list \<Rightarrow> nat \<Rightarrow> real" where
  "softmax t row x = weight t (row ! x) / total_weight t row"

definition log_softmax :: "real \<Rightarrow> real option list \<Rightarrow> nat \<Rightarrow> real option" where
  "log_softmax t row x = map_option (\<lambda>v. v / t - ln (total_weight t row)) (row ! x)"

definition is_greedy :: "real \<Rightarrow> bool" where
  "is_greedy t = (t < 1 / 100000)"

definition safe_temperature :: "real \<Rightarrow> real" where
  "safe_temperature t = (if is_greedy t then 1 else t)"

definition sample_row :: "real \<Rightarrow> real option list \<Rightarrow> nat dist" where
  "sample_row t row =
     (if is_greedy t then dist_return (argmax row) else map (\<lambda>x. (x, softmax (safe_temperature t) row x)) [0..<length row])"

subsection \<open>Verification\<close>

text \<open>\<open>cumprod\<close> of the acceptance flags; its sum is the number of drafts accepted before the first rejection.\<close>

fun cumprod :: "nat \<Rightarrow> nat list \<Rightarrow> nat list" where
  "cumprod acc [] = []"
| "cumprod acc (x # xs) = acc * x # cumprod (acc * x) xs"

definition accepted_count :: "bool list \<Rightarrow> nat" where
  "accepted_count accepts = sum_list (cumprod 1 (map of_bool accepts))"

text \<open>Batches: \<open>logits\<close> is \<open>[B, W, V]\<close>, \<open>drafts\<close> is \<open>[B, N]\<close>.\<close>

record logits3 =
  lg_width :: nat
  lg_vocab :: nat
  lg_rows :: "real option list list list"

record 'a mat =
  mat_width :: nat
  mat_rows :: "'a list list"

definition check_verify :: "logits3 \<Rightarrow> int mat \<Rightarrow> unit res" where
  "check_verify logits drafts =
     rbind (check (length (mat_rows drafts) = length (lg_rows logits) \<and> lg_width logits = mat_width drafts + 1) (ValueError ''verify width'')) (\<lambda>_.
     check (lg_vocab logits \<noteq> 0) IndexError)"

definition greedy_verify_row :: "real option list list \<Rightarrow> int list \<Rightarrow> int \<times> nat" where
  "greedy_verify_row rows drafts =
     (let target_tokens = map (\<lambda>row. int (argmax row)) rows;
          accepted = accepted_count (map (\<lambda>(t, d). t = d) (zip target_tokens drafts))
      in (target_tokens ! accepted, accepted))"

definition linear_greedy_verify :: "logits3 \<Rightarrow> int mat \<Rightarrow> (int list \<times> nat list) res" where
  "linear_greedy_verify logits drafts =
     rbind (check_verify logits drafts) (\<lambda>_.
     let verified = map (\<lambda>(rows, ds). greedy_verify_row rows ds) (zip (lg_rows logits) (mat_rows drafts))
     in Inr (map fst verified, map snd verified))"

definition accept_draft :: "real \<Rightarrow> real option list \<times> int \<Rightarrow> bool dist" where
  "accept_draft t = (\<lambda>(row, d). if is_greedy t then dist_return (int (argmax row) = d) else coin (softmax (safe_temperature t) row (nat d)))"

record verified =
  vf_token :: int
  vf_accepted :: nat
  vf_logprob :: "real option"
  vf_draft_logprobs :: "real option list"

text \<open>On a rejection the rejected draft is masked; after the last draft the row is left as it is.\<close>

definition residual :: "real option list list \<Rightarrow> int list \<Rightarrow> nat \<Rightarrow> real option list" where
  "residual rows drafts accepted =
     (let selected_logits = rows ! accepted;
          rejected_draft = nat (drafts ! min accepted (length drafts - 1))
      in selected_logits[rejected_draft := if accepted = length drafts then selected_logits ! rejected_draft else None])"

definition verify_next :: "real option list list \<Rightarrow> int list \<Rightarrow> real \<Rightarrow> nat \<Rightarrow> verified dist" where
  "verify_next rows drafts t accepted =
     dist_bind (sample_row t (residual rows drafts accepted)) (\<lambda>x.
     dist_return \<lparr>vf_token = int x, vf_accepted = accepted,
                  vf_logprob = log_softmax (safe_temperature t) (rows ! accepted) x,
                  vf_draft_logprobs = map (\<lambda>(row, d). log_softmax (safe_temperature t) row (nat d)) (zip rows drafts)\<rparr>)"

definition rejection_row :: "real option list list \<times> int list \<times> real \<Rightarrow> verified dist" where
  "rejection_row = (\<lambda>(rows, drafts, t).
     dist_bind (dist_map (accept_draft t) (zip rows drafts)) (\<lambda>accepts. verify_next rows drafts t (accepted_count accepts)))"

definition linear_rejection_sample :: "logits3 \<Rightarrow> int mat \<Rightarrow> real list \<Rightarrow> verified list dist res" where
  "linear_rejection_sample logits drafts temperatures =
     rbind (check (length (mat_rows drafts) = length (lg_rows logits) \<and> lg_width logits = mat_width drafts + 1) (ValueError ''verify width'')) (\<lambda>_.
     rbind (check (length temperatures = length (lg_rows logits)) (ValueError ''temperatures'')) (\<lambda>_.
     rbind (check (list_all (list_all (\<lambda>d. 0 \<le> d \<and> d < int (lg_vocab logits))) (mat_rows drafts)) IndexError) (\<lambda>_.
     rbind (check (lg_vocab logits \<noteq> 0 \<and> (mat_width drafts \<noteq> 0 \<or> lg_rows logits = [])) IndexError) (\<lambda>_.
     Inr (dist_map rejection_row (zip (lg_rows logits) (zip (mat_rows drafts) temperatures)))))))"

subsection \<open>The accepted prefix\<close>

lemma cumprod_zero: "sum_list (cumprod 0 xs) = 0"
  by (induction xs) auto

lemma accepted_count_takeWhile: "accepted_count accepts = length (takeWhile id accepts)"
  unfolding accepted_count_def by (induction accepts) (auto simp: cumprod_zero)

lemma accepted_count_simps [simp]:
  "accepted_count [] = 0" "accepted_count (b # bs) = (if b then Suc (accepted_count bs) else 0)"
  by (auto simp: accepted_count_takeWhile)

lemma accepted_count_le: "accepted_count accepts \<le> length accepts"
  by (simp add: accepted_count_takeWhile length_takeWhile_le)

text \<open>Acceptance stops at the first draft that differs from the target's token.\<close>

lemma accepted_match:
  assumes "length ds \<le> length ts"
  shows "take (accepted_count (map (\<lambda>(t, d). t = d) (zip ts ds))) ds = take (accepted_count (map (\<lambda>(t, d). t = d) (zip ts ds))) ts"
    "accepted_count (map (\<lambda>(t, d). t = d) (zip ts ds)) \<le> length ds"
    "accepted_count (map (\<lambda>(t, d). t = d) (zip ts ds)) < length ds \<Longrightarrow>
       ts ! accepted_count (map (\<lambda>(t, d). t = d) (zip ts ds)) \<noteq> ds ! accepted_count (map (\<lambda>(t, d). t = d) (zip ts ds))"
proof -
  show "take (accepted_count (map (\<lambda>(t, d). t = d) (zip ts ds))) ds = take (accepted_count (map (\<lambda>(t, d). t = d) (zip ts ds))) ts"
    using assms by (induction ts ds rule: list_induct2') auto
  show "accepted_count (map (\<lambda>(t, d). t = d) (zip ts ds)) \<le> length ds"
    using accepted_count_le [of "map (\<lambda>(t, d). t = d) (zip ts ds)"] by simp
  show "accepted_count (map (\<lambda>(t, d). t = d) (zip ts ds)) < length ds \<Longrightarrow>
       ts ! accepted_count (map (\<lambda>(t, d). t = d) (zip ts ds)) \<noteq> ds ! accepted_count (map (\<lambda>(t, d). t = d) (zip ts ds))"
    using assms by (induction ts ds rule: list_induct2') auto
qed

subsection \<open>First maximum\<close>

lemma argmax_less: "xs \<noteq> [] \<Longrightarrow> argmax xs < length xs"
  by (induction xs rule: argmax.induct) (auto simp: Let_def)

text \<open>The first maximum, as a specification.\<close>

definition first_max :: "'a::linorder list \<Rightarrow> nat \<Rightarrow> bool" where
  "first_max xs i = (i < length xs \<and> (\<forall>j<length xs. xs ! j \<le> xs ! i) \<and> (\<forall>j<i. xs ! j < xs ! i))"

lemma first_max_argmax: "xs \<noteq> [] \<Longrightarrow> first_max xs (argmax xs)"
proof (induction xs rule: argmax.induct)
  case (3 x y ys)
  then have ih: "first_max (y # ys) (argmax (y # ys))" by simp
  show ?case
  proof (cases "x < (y # ys) ! argmax (y # ys)")
    case True
    then show ?thesis using ih unfolding first_max_def by (auto simp: less_Suc_eq_0_disj)
  next
    case False
    then have "(x # y # ys) ! j \<le> x" if "j < length (x # y # ys)" for j
      using ih that unfolding first_max_def by (cases j) (auto simp: less_Suc_eq_0_disj intro: order_trans)
    then show ?thesis using False unfolding first_max_def by auto
  qed
qed (auto simp: first_max_def)

lemma first_max_unique: "first_max xs i \<Longrightarrow> first_max xs j \<Longrightarrow> i = j"
  unfolding first_max_def by (metis leD linorder_neqE_nat)

lemma argmax_eqI: "first_max xs i \<Longrightarrow> argmax xs = i"
  using first_max_unique first_max_argmax by (metis first_max_def length_greater_0_conv less_nat_zero_code list.size(3))

text \<open>Masking an entry that is not the first maximum leaves the first maximum.\<close>

lemma argmax_mask:
  assumes "xs \<noteq> []" "d \<noteq> argmax xs" "\<And>v. b \<le> v"
  shows "argmax (xs[d := b]) = argmax xs"
proof (rule argmax_eqI)
  have m: "argmax xs < length xs" "\<And>j. j < length xs \<Longrightarrow> xs ! j \<le> xs ! argmax xs" "\<And>j. j < argmax xs \<Longrightarrow> xs ! j < xs ! argmax xs"
    using first_max_argmax [OF assms(1)] by (simp_all add: first_max_def)
  have "xs[d := b] ! j < xs ! argmax xs" if "j < argmax xs" for j
    using m(1) m(3) [OF that] assms(3) [of "xs ! j"] that by (cases "j = d") (auto intro: le_less_trans)
  moreover have "xs[d := b] ! j \<le> xs ! argmax xs" if "j < length xs" for j
    using m(2) [OF that] assms(3) that by (cases "j = d") auto
  ultimately show "first_max (xs[d := b]) (argmax xs)"
    using m(1) assms(2) by (auto simp: first_max_def)
qed

subsection \<open>Distribution of the accepted prefix\<close>

lemma dist_scale_bind: "dist_bind (map (\<lambda>(y, v). (y, w * v)) d) g = map (\<lambda>(y, v). (y, w * v)) (dist_bind d g)"
  by (induction d) (auto simp: mult.assoc)

lemma dist_bind_append [simp]: "dist_bind (d @ e) g = dist_bind d g @ dist_bind e g"
  by (simp add: dist_bind_def)

lemma dist_bind_assoc: "dist_bind (dist_bind d f) g = dist_bind d (\<lambda>x. dist_bind (f x) g)"
  by (induction d) (auto simp: dist_scale_bind)

lemma dist_bind_const: "dist_prob (dist_bind d (\<lambda>_. e)) P = dist_prob d (\<lambda>_. True) * dist_prob e P"
  by (induction d) (auto simp: dist_prob_scale distrib_right)

lemma dist_bind_coin: "dist_prob (dist_bind (coin p) f) P = p * dist_prob (f True) P + (1 - p) * dist_prob (f False) P"
  by (simp add: coin_def dist_prob_scale)

lemma coins_mass: "dist_prob (dist_map coin ps) (\<lambda>_. True) = 1"
  by (induction ps) (simp_all add: dist_bind_coin dist_prob_push)

text \<open>Every coin is drawn, but what follows depends on the accepted prefix only.\<close>

lemma coins_prefix:
  "dist_prob (dist_bind (dist_map coin ps) (\<lambda>bs. g (accepted_count bs))) P =
   (\<Sum>k\<le>length ps. prod_list (take k ps) * (if k < length ps then 1 - ps ! k else 1) * dist_prob (g k) P)"
proof (induction ps arbitrary: g)
  case (Cons p ps)
  have "dist_prob (dist_bind (dist_map coin (p # ps)) (\<lambda>bs. g (accepted_count bs))) P =
    p * dist_prob (dist_bind (dist_map coin ps) (\<lambda>bs. g (Suc (accepted_count bs)))) P + (1 - p) * dist_prob (dist_bind (dist_map coin ps) (\<lambda>_. g 0)) P"
    by (simp add: dist_bind_assoc dist_bind_coin)
  also have "\<dots> = p * (\<Sum>k\<le>length ps. prod_list (take k ps) * (if k < length ps then 1 - ps ! k else 1) * dist_prob (g (Suc k)) P) + (1 - p) * dist_prob (g 0) P"
    by (simp add: Cons.IH [of "\<lambda>n. g (Suc n)"] dist_bind_const coins_mass)
  also have "\<dots> = (\<Sum>k\<le>length (p # ps). prod_list (take k (p # ps)) * (if k < length (p # ps) then 1 - (p # ps) ! k else 1) * dist_prob (g k) P)"
    unfolding length_Cons sum.atMost_Suc_shift by (simp add: sum_distrib_left mult.assoc cong: if_cong)
  finally show ?case .
qed simp

subsection \<open>Exactness of rejection sampling\<close>

lemma weight_nonneg: "0 \<le> weight t l"
  by (simp add: weight_def split: option.split)

lemma total_weight_nonneg: "0 \<le> total_weight t row"
  unfolding total_weight_def by (intro sum_list_nonneg) (auto simp: weight_nonneg)

lemma total_weight_pos: "Some v \<in> set row \<Longrightarrow> 0 < total_weight t row"
proof (induction row)
  case (Cons l row)
  then show ?case
    using total_weight_nonneg [of t row] weight_nonneg [of t l] by (auto simp: total_weight_def weight_def add_nonneg_pos add_pos_nonneg)
qed simp

lemma total_weight_mask: "d < length row \<Longrightarrow> total_weight t row = weight t (row ! d) + total_weight t (row[d := None])"
  by (induction row arbitrary: d) (auto simp: total_weight_def weight_def nth_Cons split: nat.split)

lemma weight_le_total: "x < length row \<Longrightarrow> weight t (row ! x) \<le> total_weight t row"
  using total_weight_mask [of x row t] total_weight_nonneg [of t "row[x := None]"] by simp

text \<open>The residual of a rejected draft: together with the chance of rejection it gives the target's probability.\<close>

lemma residual_exact:
  assumes "d < length row" "x < length row" "x \<noteq> d" "0 < total_weight t row"
  shows "(1 - softmax t row d) * softmax t (row[d := None]) x = softmax t row x"
proof -
  let ?T = "total_weight t row" and ?R = "total_weight t (row[d := None])"
  have T: "?T = weight t (row ! d) + ?R" by (rule total_weight_mask [OF assms(1)])
  have x: "weight t (row ! x) \<le> ?R" using weight_le_total [of x "row[d := None]" t] assms(2,3) by simp
  show ?thesis
  proof (cases "?R = 0")
    case True
    then have "weight t (row ! x) = 0" using x weight_nonneg [of t "row ! x"] by simp
    then show ?thesis using assms(3) by (simp add: softmax_def)
  next
    case False
    then have "1 - softmax t row d = ?R / ?T" using T assms(4) by (simp add: softmax_def field_simps)
    then show ?thesis using False assms(3) by (simp add: softmax_def)
  qed
qed

lemma dist_prob_zero: "(\<And>x. x \<in> fst ` set d \<Longrightarrow> \<not> P x) \<Longrightarrow> dist_prob d P = 0"
  by (induction d) auto

lemma dist_prob_index: "x < n \<Longrightarrow> dist_prob (map (\<lambda>x. (x, f x)) [0..<n]) (\<lambda>y. y = x) = f x"
proof (induction n)
  case (Suc n)
  show ?case
  proof (cases "x = n")
    case True
    then have "dist_prob (map (\<lambda>x. (x, f x)) [0..<n]) (\<lambda>y. y = x) = 0" by (intro dist_prob_zero) auto
    then show ?thesis using True by simp
  qed (use Suc in simp)
qed simp

lemma sample_row_prob: "\<not> is_greedy t \<Longrightarrow> x < length row \<Longrightarrow> dist_prob (sample_row t row) (\<lambda>y. y = x) = softmax t row x"
  by (simp add: sample_row_def safe_temperature_def dist_prob_index)

lemma dist_map_map: "dist_map f (map g xs) = dist_map (\<lambda>x. f (g x)) xs"
  by (induction xs) simp_all

lemma residual_length [simp]: "length (residual rows ds a) = length (rows ! a)"
  by (simp add: residual_def Let_def)

text \<open>What a well-formed batch row gives: a row of the vocabulary per position, with a finite logit in each.\<close>

definition logits_ok :: "nat \<Rightarrow> real option list list \<Rightarrow> int list \<Rightarrow> bool" where
  "logits_ok V rows ds =
     (length rows = Suc (length ds) \<and> ds \<noteq> [] \<and> list_all (\<lambda>row. length row = V \<and> list_ex (\<lambda>l. l \<noteq> None) row) rows
      \<and> list_all (\<lambda>d. 0 \<le> d \<and> d < int V) ds)"

lemma logits_okD:
  assumes "logits_ok V rows ds"
  shows "length rows = Suc (length ds)" "ds \<noteq> []" "i \<le> length ds \<Longrightarrow> length (rows ! i) = V" "i \<le> length ds \<Longrightarrow> 0 < total_weight t (rows ! i)"
    "i < length ds \<Longrightarrow> 0 \<le> ds ! i \<and> ds ! i < int V"
proof -
  show "i \<le> length ds \<Longrightarrow> length (rows ! i) = V" "i < length ds \<Longrightarrow> 0 \<le> ds ! i \<and> ds ! i < int V"
    using assms by (auto simp: logits_ok_def list_all_length)
  have "i \<le> length ds \<Longrightarrow> \<exists>l\<in>set (rows ! i). l \<noteq> None" using assms by (simp add: logits_ok_def list_all_length list_ex_iff)
  then show "i \<le> length ds \<Longrightarrow> 0 < total_weight t (rows ! i)" using total_weight_pos by (metis option.exhaust)
qed (use assms in \<open>simp_all add: logits_ok_def\<close>)

abbreviation draft_probs :: "real \<Rightarrow> real option list list \<Rightarrow> int list \<Rightarrow> real list" where
  "draft_probs t rows ds \<equiv> map (\<lambda>(row, d). softmax t row (nat d)) (zip rows ds)"

lemma residual_row:
  assumes "logits_ok V rows ds" "a \<le> length ds"
  shows "residual rows ds a = (if a = length ds then rows ! a else (rows ! a)[nat (ds ! a) := None])"
  using assms by (auto simp: residual_def Let_def min_def not_le)

lemma next_token_prob:
  assumes ok: "logits_ok V rows ds" and t: "\<not> is_greedy t" and a: "a \<le> length ds" and x: "x < V"
  shows "(if a < length ds then 1 - draft_probs t rows ds ! a else 1) * dist_prob (sample_row t (residual rows ds a)) (\<lambda>y. y = x) =
    (if a < length ds \<and> int x = ds ! a then 0 else softmax t (rows ! a) x)"
proof (cases "a < length ds")
  case True
  note d = logits_okD(1,3,4,5) [OF ok]
  have p: "draft_probs t rows ds ! a = softmax t (rows ! a) (nat (ds ! a))" using True d(1) by simp
  have r: "residual rows ds a = (rows ! a)[nat (ds ! a) := None]" using residual_row [OF ok a] True by simp
  have "softmax t ((rows ! a)[nat (ds ! a) := None]) x = 0" if "int x = ds ! a" using x d(2) [OF a] that by (simp add: softmax_def weight_def flip: that)
  moreover have "(1 - softmax t (rows ! a) (nat (ds ! a))) * softmax t ((rows ! a)[nat (ds ! a) := None]) x = softmax t (rows ! a) x" if "int x \<noteq> ds ! a"
    using d(2) [OF a] d(3) [OF a] d(4) [OF True] x that by (intro residual_exact) auto
  ultimately show ?thesis using True p x d(2) [OF a] sample_row_prob [OF t, of x "residual rows ds a"] unfolding r by auto
qed (use assms in \<open>simp add: residual_row [OF ok order_refl] sample_row_prob [OF t] logits_okD(3) [OF ok]\<close>)

lemma verify_next_prob: "dist_prob (verify_next rows ds t k) P = dist_prob (sample_row t (residual rows ds k)) (\<lambda>x. P
    \<lparr>vf_token = int x, vf_accepted = k, vf_logprob = log_softmax (safe_temperature t) (rows ! k) x,
     vf_draft_logprobs = map (\<lambda>(row, d). log_softmax (safe_temperature t) row (nat d)) (zip rows ds)\<rparr>)"
  by (simp add: verify_next_def dist_prob_push)

lemma rejection_coins:
  assumes "\<not> is_greedy t" "length rows = Suc (length ds)"
  shows "dist_prob (rejection_row (rows, ds, t)) P =
    (\<Sum>k\<le>length ds. prod_list (take k (draft_probs t rows ds)) * (if k < length ds then 1 - draft_probs t rows ds ! k else 1) * dist_prob (verify_next rows ds t k) P)"
proof -
  have len: "length (draft_probs t rows ds) = length ds" using assms(2) by simp
  have "dist_map (accept_draft t) (zip rows ds) = dist_map coin (draft_probs t rows ds)"
    unfolding dist_map_map using assms(1) by (simp add: accept_draft_def safe_temperature_def split_def)
  then show ?thesis
    using coins_prefix [of "draft_probs t rows ds" "verify_next rows ds t" P] unfolding len by (simp add: rejection_row_def)
qed

text \<open>The chance that \<open>a\<close> drafts are accepted and \<open>x\<close> follows.\<close>

lemma rejection_row_prob:
  assumes ok: "logits_ok V rows ds" and t: "\<not> is_greedy t" and a: "a \<le> length ds" and x: "x < V"
  shows "dist_prob (rejection_row (rows, ds, t)) (\<lambda>v. vf_accepted v = a \<and> vf_token v = int x) =
    (if a < length ds \<and> int x = ds ! a then 0 else prod_list (take a (draft_probs t rows ds)) * softmax t (rows ! a) x)"
proof -
  let ?ps = "draft_probs t rows ds"
  have "dist_prob (rejection_row (rows, ds, t)) (\<lambda>v. vf_accepted v = a \<and> vf_token v = int x) =
    (\<Sum>k\<le>length ds. if k = a then prod_list (take a ?ps) * ((if a < length ds then 1 - ?ps ! a else 1) * dist_prob (sample_row t (residual rows ds a)) (\<lambda>y. y = x)) else 0)"
    unfolding rejection_coins [OF t logits_okD(1) [OF ok]] by (intro sum.cong refl) (auto simp: verify_next_prob mult.assoc)
  also have "\<dots> = prod_list (take a ?ps) * (if a < length ds \<and> int x = ds ! a then 0 else softmax t (rows ! a) x)"
    using a next_token_prob [OF ok t a x] by (simp add: sum.delta')
  finally show ?thesis by simp
qed

text \<open>The tokens a verified sequence gains: the accepted drafts and the next token.\<close>

definition emitted :: "int list \<Rightarrow> verified \<Rightarrow> int list" where
  "emitted ds v = take (vf_accepted v) ds @ [vf_token v]"

text \<open>A target policy: logits of the next token after a context. Plain sampling draws token after token.\<close>

type_synonym policy = "int list \<Rightarrow> real option list"

fun sequence_prob :: "policy \<Rightarrow> real \<Rightarrow> int list \<Rightarrow> int list \<Rightarrow> real" where
  "sequence_prob target t ctx [] = 1"
| "sequence_prob target t ctx (x # xs) = softmax t (target ctx) (nat x) * sequence_prob target t (ctx @ [x]) xs"

definition verify_rows :: "policy \<Rightarrow> int list \<Rightarrow> int list \<Rightarrow> real option list list" where
  "verify_rows target ctx ds = map (\<lambda>i. target (ctx @ take i ds)) [0..<Suc (length ds)]"

lemma sequence_prob_append: "sequence_prob target t ctx (xs @ ys) = sequence_prob target t ctx xs * sequence_prob target t (ctx @ xs) ys"
  by (induction xs arbitrary: ctx) auto

lemma verify_rows_Cons: "verify_rows target ctx (d # ds) = target ctx # verify_rows target (ctx @ [d]) ds"
  unfolding verify_rows_def by (simp add: upt_conv_Cons map_Suc_upt [symmetric] del: upt_Suc)

lemma verify_rows_Nil: "verify_rows target ctx [] = [target ctx]"
  by (simp add: verify_rows_def)

lemma verify_rows_nth: "a \<le> length ds \<Longrightarrow> verify_rows target ctx ds ! a = target (ctx @ take a ds)"
  unfolding verify_rows_def by (simp del: upt_Suc)

lemma verify_rows_length [simp]: "length (verify_rows target ctx ds) = Suc (length ds)"
  by (simp add: verify_rows_def)

lemma draft_prefix_prob: "a \<le> length ds \<Longrightarrow> prod_list (take a (draft_probs t (verify_rows target ctx ds) ds)) = sequence_prob target t ctx (take a ds)"
proof (induction ds arbitrary: a ctx)
  case (Cons d ds)
  then show ?case by (cases a) (auto simp: verify_rows_Cons)
qed simp

lemma sequence_take_Suc:
  "a < length z \<Longrightarrow> sequence_prob target t ctx (take (Suc a) z) = sequence_prob target t ctx (take a z) * softmax t (target (ctx @ take a z)) (nat (z ! a))"
  by (simp add: take_Suc_conv_app_nth sequence_prob_append)

lemma dist_prob_cong_set: "(\<And>x. x \<in> fst ` set d \<Longrightarrow> P x = Q x) \<Longrightarrow> dist_prob d P = dist_prob d Q"
  by (induction d) auto

lemma dist_bind_support: "y \<in> fst ` set (dist_bind d f) \<longleftrightarrow> (\<exists>x\<in>fst ` set d. y \<in> fst ` set (f x))"
  unfolding dist_bind_def by force

lemma dist_map_support: "ys \<in> fst ` set (dist_map f xs) \<Longrightarrow> length ys = length xs"
proof (induction xs arbitrary: ys)
  case (Cons x xs)
  obtain y zs where "zs \<in> fst ` set (dist_map f xs)" "ys = y # zs"
    using Cons.prems unfolding dist_map.simps(2) dist_bind_support by (auto simp: dist_return_def)
  then show ?case using Cons.IH [of zs] by simp
qed (simp add: dist_return_def)

lemma verify_next_support: "v \<in> fst ` set (verify_next rows ds t k) \<Longrightarrow> vf_accepted v = k"
  unfolding verify_next_def dist_bind_support by (auto simp: dist_return_def)

lemma rejection_support:
  assumes "v \<in> fst ` set (rejection_row (rows, ds, t))"
  shows "vf_accepted v \<le> length ds"
proof -
  obtain bs where bs: "bs \<in> fst ` set (dist_map (accept_draft t) (zip rows ds))" and v: "v \<in> fst ` set (verify_next rows ds t (accepted_count bs))"
    using assms unfolding rejection_row_def prod.case dist_bind_support by blast
  show ?thesis using accepted_count_le [of bs] dist_map_support [OF bs] verify_next_support [OF v] by simp
qed

lemma emitted_take:
  assumes "vf_accepted v \<le> length ds" "a \<le> length ds" "length z = Suc (length ds)"
  shows "emitted ds v = take (Suc a) z \<longleftrightarrow> take a ds = take a z \<and> vf_accepted v = a \<and> vf_token v = z ! a"
proof
  assume e: "emitted ds v = take (Suc a) z"
  then have "length (emitted ds v) = Suc a" using assms(2,3) by simp
  then have "vf_accepted v = a" using assms(1) by (simp add: emitted_def min_def split: if_splits)
  then show "take a ds = take a z \<and> vf_accepted v = a \<and> vf_token v = z ! a" using e assms(2,3) by (simp add: emitted_def take_Suc_conv_app_nth)
qed (use assms in \<open>simp add: emitted_def take_Suc_conv_app_nth\<close>)

lemma emitted_prob:
  assumes ok: "logits_ok V (verify_rows target ctx ds) ds" and t: "\<not> is_greedy t" and a: "a \<le> length ds"
    and z: "length z = Suc (length ds)" "list_all (\<lambda>x. 0 \<le> x \<and> x < int V) z"
  shows "dist_prob (rejection_row (verify_rows target ctx ds, ds, t)) (\<lambda>v. emitted ds v = take (Suc a) z) =
    (if take a ds = take a z \<and> \<not> (a < length ds \<and> z ! a = ds ! a) then sequence_prob target t ctx (take (Suc a) z) else 0)"
proof -
  have za: "0 \<le> z ! a" "nat (z ! a) < V" using a z by (auto simp: list_all_length nat_less_iff)
  have "dist_prob (rejection_row (verify_rows target ctx ds, ds, t)) (\<lambda>v. emitted ds v = take (Suc a) z) =
    dist_prob (rejection_row (verify_rows target ctx ds, ds, t)) (\<lambda>v. take a ds = take a z \<and> vf_accepted v = a \<and> vf_token v = int (nat (z ! a)))"
    by (intro dist_prob_cong_set) (use emitted_take [OF rejection_support a z(1)] za(1) in simp)
  also have "\<dots> = (if take a ds = take a z then dist_prob (rejection_row (verify_rows target ctx ds, ds, t)) (\<lambda>v. vf_accepted v = a \<and> vf_token v = int (nat (z ! a))) else 0)"
    by simp
  also have "\<dots> = (if take a ds = take a z then if a < length ds \<and> z ! a = ds ! a then 0 else sequence_prob target t ctx (take a ds) * softmax t (target (ctx @ take a ds)) (nat (z ! a)) else 0)"
    unfolding rejection_row_prob [OF ok t a za(2)] draft_prefix_prob [OF a] verify_rows_nth [OF a] using za(1) by simp
  also have "\<dots> = (if take a ds = take a z \<and> \<not> (a < length ds \<and> z ! a = ds ! a) then sequence_prob target t ctx (take (Suc a) z) else 0)"
  proof (cases "take a ds = take a z")
    case True
    show ?thesis unfolding True using sequence_take_Suc [of a z target t ctx] a z(1) by simp
  qed simp
  finally show ?thesis .
qed

lemma first_difference:
  assumes "length z = Suc (length ds)"
  shows "\<exists>m\<le>length ds. take m ds = take m z \<and> (m < length ds \<longrightarrow> z ! m \<noteq> ds ! m)"
  using assms
proof (induction ds arbitrary: z)
  case (Cons d ds)
  obtain c cs where z: "z = c # cs" "length cs = Suc (length ds)" using Cons.prems by (cases z) auto
  show ?case
  proof (cases "c = d")
    case True
    obtain m where "m \<le> length ds" "take m ds = take m cs" "m < length ds \<longrightarrow> cs ! m \<noteq> ds ! m" using Cons.IH [OF z(2)] by auto
    then show ?thesis using z(1) True by (intro exI [of _ "Suc m"]) simp
  qed (use z in \<open>auto intro: exI [of _ 0]\<close>)
qed simp

lemma take_beyond:
  assumes "m < a" "a \<le> length ds" "length z = Suc (length ds)" "m < length ds \<Longrightarrow> z ! m \<noteq> ds ! m"
  shows "take a ds \<noteq> take a z"
proof
  assume "take a ds = take a z"
  then have "take a ds ! m = take a z ! m" by simp
  then show False using assms by simp
qed

text \<open>One verified step followed by plain sampling, for one sequence.\<close>

lemma rejection_row_exact:
  assumes "logits_ok V (verify_rows target ctx ds) ds" "\<not> is_greedy t" "length z = Suc (length ds)" "list_all (\<lambda>x. 0 \<le> x \<and> x < int V) z"
  shows "(\<Sum>a\<le>length ds. dist_prob (rejection_row (verify_rows target ctx ds, ds, t)) (\<lambda>v. emitted ds v = take (Suc a) z) *
            sequence_prob target t (ctx @ take (Suc a) z) (drop (Suc a) z)) = sequence_prob target t ctx z"
proof -
  obtain m where m: "m \<le> length ds" "take m ds = take m z" "m < length ds \<Longrightarrow> z ! m \<noteq> ds ! m" using first_difference [OF assms(3)] by auto
  have off: "take a ds = take a z \<and> \<not> (a < length ds \<and> z ! a = ds ! a) \<longleftrightarrow> a = m" if "a \<le> length ds" for a
  proof (cases a m rule: linorder_cases)
    case less
    have "z ! a = ds ! a" using arg_cong [OF m(2), of "\<lambda>l. l ! a"] less by simp
    then show ?thesis using less m(1) by simp
  next
    case greater
    then show ?thesis using take_beyond [OF greater that assms(3) m(3)] by simp
  qed (use m in auto)
  have "dist_prob (rejection_row (verify_rows target ctx ds, ds, t)) (\<lambda>v. emitted ds v = take (Suc a) z) = (if a = m then sequence_prob target t ctx (take (Suc m) z) else 0)"
    if "a \<le> length ds" for a
    unfolding emitted_prob [OF assms(1,2) that assms(3,4)] off [OF that] by simp
  then have "(\<Sum>a\<le>length ds. dist_prob (rejection_row (verify_rows target ctx ds, ds, t)) (\<lambda>v. emitted ds v = take (Suc a) z) * sequence_prob target t (ctx @ take (Suc a) z) (drop (Suc a) z)) =
    (\<Sum>a\<le>length ds. if a = m then sequence_prob target t ctx (take (Suc m) z) * sequence_prob target t (ctx @ take (Suc m) z) (drop (Suc m) z) else 0)"
    by (intro sum.cong refl) auto
  then show ?thesis using m(1) by (simp add: sum.delta' flip: sequence_prob_append)
qed

subsection \<open>Batches\<close>

lemma dist_prob_indices: "dist_prob (map (\<lambda>x. (x, f x)) [0..<n]) (\<lambda>_. True) = (\<Sum>x<n. f x)"
  by (induction n) simp_all

lemma sample_row_mass: "\<not> is_greedy t \<Longrightarrow> dist_prob (sample_row t row) (\<lambda>_. True) = total_weight t row / total_weight t row"
  by (simp add: sample_row_def safe_temperature_def dist_prob_indices softmax_def total_weight_def sum_list_sum_nth sum_divide_distrib [symmetric] atLeast0LessThan)

lemma residual_mass:
  assumes ok: "logits_ok V rows ds" and t: "\<not> is_greedy t" and a: "a \<le> length ds"
  shows "(if a < length ds then 1 - draft_probs t rows ds ! a else 1) * dist_prob (sample_row t (residual rows ds a)) (\<lambda>_. True) = (if a < length ds then 1 - draft_probs t rows ds ! a else 1)"
proof (cases "a < length ds")
  case True
  let ?T = "total_weight t (rows ! a)" and ?R = "total_weight t ((rows ! a)[nat (ds ! a) := None])"
  have d: "nat (ds ! a) < length (rows ! a)" "0 < ?T" using logits_okD(3,4) [OF ok a] logits_okD(5) [OF ok True] by auto
  have "draft_probs t rows ds ! a = softmax t (rows ! a) (nat (ds ! a))" using True logits_okD(1) [OF ok] by simp
  moreover have "1 - softmax t (rows ! a) (nat (ds ! a)) = ?R / ?T" using total_weight_mask [OF d(1)] d(2) by (simp add: softmax_def field_simps)
  ultimately show ?thesis using True by (simp add: residual_row [OF ok a] sample_row_mass [OF t])
next
  case False
  then have "a = length ds" using a by simp
  then show ?thesis using logits_okD(4) [OF ok order_refl, of t] by (simp add: residual_row [OF ok order_refl] sample_row_mass [OF t])
qed

lemma rejection_row_mass:
  assumes ok: "logits_ok V rows ds" and t: "\<not> is_greedy t"
  shows "dist_prob (rejection_row (rows, ds, t)) (\<lambda>_. True) = 1"
proof -
  let ?ps = "draft_probs t rows ds"
  have len: "length ?ps = length ds" using logits_okD(1) [OF ok] by simp
  have "dist_prob (rejection_row (rows, ds, t)) (\<lambda>_. True) =
    (\<Sum>k\<le>length ds. prod_list (take k ?ps) * (if k < length ds then 1 - ?ps ! k else 1) * dist_prob (dist_return ()) (\<lambda>_. True))"
    unfolding rejection_coins [OF t logits_okD(1) [OF ok]] using residual_mass [OF ok t] by (intro sum.cong refl) (simp add: verify_next_prob mult.assoc)
  also have "\<dots> = dist_prob (dist_bind (dist_map coin ?ps) (\<lambda>bs. dist_return ())) (\<lambda>_. True)"
    using coins_prefix [of ?ps "\<lambda>_. dist_return ()" "\<lambda>_. True"] unfolding len by simp
  finally show ?thesis by (simp add: dist_bind_const coins_mass)
qed

text \<open>At temperature zero the rejection path decides as the greedy path does.\<close>

lemma dist_map_return: "(\<And>x. x \<in> set xs \<Longrightarrow> f x = dist_return (h x)) \<Longrightarrow> dist_map f xs = dist_return (map h xs)"
  by (induction xs) simp_all

lemma rejection_row_greedy:
  assumes ok: "logits_ok V rows ds" and t: "is_greedy t"
  shows "\<exists>v. rejection_row (rows, ds, t) = dist_return v \<and> vf_token v = fst (greedy_verify_row rows ds) \<and> vf_accepted v = snd (greedy_verify_row rows ds)"
proof -
  let ?ts = "map (\<lambda>row. int (argmax row)) rows"
  define a where "a = accepted_count (map (\<lambda>(t, d). t = d) (zip ?ts ds))"
  note len = logits_okD(1) [OF ok]
  have le: "a \<le> length ds" and ne: "a < length ds \<Longrightarrow> ?ts ! a \<noteq> ds ! a" unfolding a_def using accepted_match(2,3) [of ds ?ts] len by simp_all
  have "dist_map (accept_draft t) (zip rows ds) = dist_return (map (\<lambda>(row, d). int (argmax row) = d) (zip rows ds))"
    using t by (intro dist_map_return) (auto simp: accept_draft_def)
  moreover have "map (\<lambda>(row, d). int (argmax row) = d) (zip rows ds) = map (\<lambda>(t, d). t = d) (zip ?ts ds)" by (simp add: zip_map1 split_def)
  ultimately have r: "rejection_row (rows, ds, t) = verify_next rows ds t a" by (simp add: rejection_row_def a_def)
  have V: "rows ! a \<noteq> []" using total_weight_pos logits_okD(4) [OF ok le, of 1] by (auto simp: total_weight_def)
  have "argmax (residual rows ds a) = argmax (rows ! a)"
    unfolding residual_row [OF ok le] using argmax_mask [OF V, of "nat (ds ! a)" None] ne le len logits_okD(5) [OF ok, of a] by auto
  then have "verify_next rows ds t a = dist_return \<lparr>vf_token = ?ts ! a, vf_accepted = a, vf_logprob = log_softmax (safe_temperature t) (rows ! a) (argmax (rows ! a)),
      vf_draft_logprobs = map (\<lambda>(row, d). log_softmax (safe_temperature t) row (nat d)) (zip rows ds)\<rparr>"
    using t le len by (simp add: verify_next_def sample_row_def)
  moreover have "greedy_verify_row rows ds = (?ts ! a, a)" by (simp add: greedy_verify_row_def Let_def a_def)
  ultimately show ?thesis unfolding r by auto
qed

text \<open>A batch as the verification step gets it.\<close>

definition verify_batch_ok :: "logits3 \<Rightarrow> int mat \<Rightarrow> bool" where
  "verify_batch_ok logits drafts =
     (lg_width logits = Suc (mat_width drafts) \<and> length (lg_rows logits) = length (mat_rows drafts) \<and> lg_vocab logits \<noteq> 0 \<and> mat_width drafts \<noteq> 0
      \<and> list_all (\<lambda>(rows, ds). length ds = mat_width drafts \<and> logits_ok (lg_vocab logits) rows ds) (zip (lg_rows logits) (mat_rows drafts)))"

lemma verify_batch_row:
  assumes "verify_batch_ok logits drafts" "i < length (lg_rows logits)"
  shows "length (mat_rows drafts ! i) = mat_width drafts" "logits_ok (lg_vocab logits) (lg_rows logits ! i) (mat_rows drafts ! i)"
  using assms by (auto simp: verify_batch_ok_def list_all_length)

lemma linear_rejection_sample_ok:
  assumes "verify_batch_ok logits drafts" "length temperatures = length (lg_rows logits)"
  shows "linear_rejection_sample logits drafts temperatures = Inr (dist_map rejection_row (zip (lg_rows logits) (zip (mat_rows drafts) temperatures)))"
proof -
  have "list_all (\<lambda>d. 0 \<le> d \<and> d < int (lg_vocab logits)) (mat_rows drafts ! i)" if "i < length (mat_rows drafts)" for i
    using verify_batch_row(2) [OF assms(1), of i] assms(1) that by (simp add: logits_ok_def verify_batch_ok_def)
  then have "list_all (list_all (\<lambda>d. 0 \<le> d \<and> d < int (lg_vocab logits))) (mat_rows drafts)" by (simp add: list_all_length)
  then show ?thesis using assms by (simp add: linear_rejection_sample_def verify_batch_ok_def)
qed

lemma rejection_row_total: "logits_ok V rows ds \<Longrightarrow> dist_prob (rejection_row (rows, ds, t)) (\<lambda>_. True) = 1"
  using rejection_row_mass rejection_row_greedy by (cases "is_greedy t") fastforce+

lemma dist_map_Cons_prob: "dist_prob (dist_map f (x # xs)) Q = (\<Sum>(y, w)\<leftarrow>f x. w * dist_prob (dist_map f xs) (\<lambda>ys. Q (y # ys)))"
  by (simp add: dist_prob_bind [of "f x"] dist_prob_push)

lemma sum_weights: "(\<Sum>(y, w)\<leftarrow>d. w * c) = dist_prob d (\<lambda>_. True) * c"
  by (induction d) (auto simp: distrib_right)

lemma sum_event: "(\<Sum>(y, w)\<leftarrow>d. w * (if P y then 1 else 0)) = dist_prob d P"
  by (induction d) auto

lemma dist_map_mass: "(\<And>x. x \<in> set xs \<Longrightarrow> dist_prob (f x) (\<lambda>_. True) = 1) \<Longrightarrow> dist_prob (dist_map f xs) (\<lambda>_. True) = 1"
  by (induction xs) (simp_all add: dist_map_Cons_prob sum_weights [where c = 1, simplified] del: dist_map.simps(2))

text \<open>The draws of the rows are independent: the result of a row has the row's distribution.\<close>

lemma dist_map_marginal:
  assumes "i < length xs" "\<And>x. x \<in> set xs \<Longrightarrow> dist_prob (f x) (\<lambda>_. True) = 1"
  shows "dist_prob (dist_map f xs) (\<lambda>ys. P (ys ! i)) = dist_prob (f (xs ! i)) P"
  using assms
proof (induction xs arbitrary: i)
  case (Cons x xs)
  have x: "dist_prob (f x) (\<lambda>_. True) = 1" and xs: "\<And>x. x \<in> set xs \<Longrightarrow> dist_prob (f x) (\<lambda>_. True) = 1" using Cons.prems(2) by simp_all
  show ?case
  proof (cases i)
    case 0
    have "dist_prob (dist_map f xs) (\<lambda>ys. P y) = (if P y then 1 else 0)" for y using dist_map_mass [of xs f, OF xs] by simp
    then show ?thesis using 0 unfolding dist_map_Cons_prob by (simp add: sum_event)
  next
    case (Suc j)
    then have "dist_prob (dist_map f xs) (\<lambda>ys. P (ys ! j)) = dist_prob (f (xs ! j)) P" using Cons.IH [of j] Cons.prems(1) xs by simp
    then show ?thesis using Suc x unfolding dist_map_Cons_prob by (simp add: sum_weights)
  qed
qed simp

text \<open>
  C4: One step of speculative sampling followed by plain sampling has the distribution of plain sampling. For a request of
  the batch with a temperature, verified against the rows of the target policy, every continuation as long as the verified
  line gets the probability the target policy gives it, whatever the drafts are.
\<close>

theorem speculative_sampling_exact:
  assumes ok: "verify_batch_ok logits drafts" "length temperatures = length (lg_rows logits)" and i: "i < length (lg_rows logits)"
    and t: "\<not> is_greedy (temperatures ! i)" and rows: "lg_rows logits ! i = verify_rows target ctx (mat_rows drafts ! i)"
    and z: "length z = Suc (mat_width drafts)" "list_all (\<lambda>x. 0 \<le> x \<and> x < int (lg_vocab logits)) z"
  shows "\<exists>d. linear_rejection_sample logits drafts temperatures = Inr d \<and>
    (\<Sum>a\<le>mat_width drafts. dist_prob d (\<lambda>vs. emitted (mat_rows drafts ! i) (vs ! i) = take (Suc a) z) *
       sequence_prob target (temperatures ! i) (ctx @ take (Suc a) z) (drop (Suc a) z)) = sequence_prob target (temperatures ! i) ctx z"
proof (intro exI conjI)
  let ?d = "dist_map rejection_row (zip (lg_rows logits) (zip (mat_rows drafts) temperatures))" and ?ds = "mat_rows drafts ! i" and ?t = "temperatures ! i"
  show "linear_rejection_sample logits drafts temperatures = Inr ?d" by (rule linear_rejection_sample_ok [OF ok])
  have len: "length (mat_rows drafts) = length (lg_rows logits)" using ok(1) by (simp add: verify_batch_ok_def)
  have row: "length ?ds = mat_width drafts" "logits_ok (lg_vocab logits) (verify_rows target ctx ?ds) ?ds" using verify_batch_row [OF ok(1) i] rows by simp_all
  have mass: "dist_prob (rejection_row x) (\<lambda>_. True) = 1" if x: "x \<in> set (zip (lg_rows logits) (zip (mat_rows drafts) temperatures))" for x
  proof -
    obtain j where "x = (lg_rows logits ! j, mat_rows drafts ! j, temperatures ! j)" "j < length (lg_rows logits)" using x by (auto simp: set_zip)
    then show ?thesis using rejection_row_total [OF verify_batch_row(2) [OF ok(1), of j]] by simp
  qed
  have "dist_prob ?d (\<lambda>vs. emitted ?ds (vs ! i) = w) = dist_prob (rejection_row (verify_rows target ctx ?ds, ?ds, ?t)) (\<lambda>v. emitted ?ds v = w)" for w
    using dist_map_marginal [of i "zip (lg_rows logits) (zip (mat_rows drafts) temperatures)" rejection_row "\<lambda>v. emitted ?ds v = w", OF _ mass] i len ok(2) rows by simp
  then show "(\<Sum>a\<le>mat_width drafts. dist_prob ?d (\<lambda>vs. emitted ?ds (vs ! i) = take (Suc a) z) * sequence_prob target ?t (ctx @ take (Suc a) z) (drop (Suc a) z)) = sequence_prob target ?t ctx z"
    using rejection_row_exact [OF row(2) t] z row(1) by simp
qed

theorem speculative_sampling_exact_witness:
  "\<exists>d. linear_rejection_sample \<lparr>lg_width = 2, lg_vocab = 2, lg_rows = [[[Some 0, Some 0], [Some 0, Some 0]]]\<rparr> \<lparr>mat_width = 1, mat_rows = [[0]]\<rparr> [1] = Inr d \<and>
    (\<Sum>a\<le>1. dist_prob d (\<lambda>vs. emitted [0] (vs ! 0) = take (Suc a) [1, 0]) * sequence_prob (\<lambda>_. [Some 0, Some 0]) 1 ([5] @ take (Suc a) [1, 0]) (drop (Suc a) [1, 0])) =
    sequence_prob (\<lambda>_. [Some 0, Some 0]) 1 [5] [1, 0]"
  using speculative_sampling_exact [of "\<lparr>lg_width = 2, lg_vocab = 2, lg_rows = [[[Some 0, Some 0], [Some 0, Some 0]]]\<rparr>" "\<lparr>mat_width = 1, mat_rows = [[0]]\<rparr>" "[1]" 0
      "\<lambda>_. [Some 0, Some 0]" "[5]" "[1, 0]"]
  by (simp add: verify_batch_ok_def logits_ok_def is_greedy_def verify_rows_def)

text \<open>
  For a batch without temperatures the two verification routines agree: the rejection path, taken when log-probabilities
  are requested, returns one outcome with the tokens and accepted counts of the greedy path.
\<close>

lemma verify_paths_agree:
  assumes ok: "verify_batch_ok logits drafts" "length temperatures = length (lg_rows logits)" and t: "list_all is_greedy temperatures"
  shows "\<exists>vs. linear_rejection_sample logits drafts temperatures = Inr (dist_return vs) \<and> linear_greedy_verify logits drafts = Inr (map vf_token vs, map vf_accepted vs)"
proof -
  let ?xs = "zip (lg_rows logits) (zip (mat_rows drafts) temperatures)"
  have len: "length (mat_rows drafts) = length (lg_rows logits)" using ok(1) by (simp add: verify_batch_ok_def)
  have "\<exists>v. rejection_row x = dist_return v \<and> vf_token v = fst (greedy_verify_row (fst x) (fst (snd x))) \<and> vf_accepted v = snd (greedy_verify_row (fst x) (fst (snd x)))" if "x \<in> set ?xs" for x
    using that verify_batch_row(2) [OF ok(1)] t by (auto simp: set_zip list_all_length intro!: rejection_row_greedy)
  then obtain v where v: "\<And>x. x \<in> set ?xs \<Longrightarrow> rejection_row x = dist_return (v x) \<and> vf_token (v x) = fst (greedy_verify_row (fst x) (fst (snd x))) \<and> vf_accepted (v x) = snd (greedy_verify_row (fst x) (fst (snd x)))"
    by metis
  have "dist_map rejection_row ?xs = dist_return (map v ?xs)" using v by (intro dist_map_return) blast
  moreover have "linear_greedy_verify logits drafts = Inr (map vf_token (map v ?xs), map vf_accepted (map v ?xs))"
  proof -
    have "map (\<lambda>(rows, ds). greedy_verify_row rows ds) (zip (lg_rows logits) (mat_rows drafts)) = map (\<lambda>x. (vf_token (v x), vf_accepted (v x))) ?xs"
    proof (rule nth_equalityI)
      fix i assume i: "i < length (map (\<lambda>(rows, ds). greedy_verify_row rows ds) (zip (lg_rows logits) (mat_rows drafts)))"
      then have "?xs ! i \<in> set ?xs" "?xs ! i = (lg_rows logits ! i, mat_rows drafts ! i, temperatures ! i)" using len ok(2) nth_mem [of i ?xs] by simp_all
      then show "map (\<lambda>(rows, ds). greedy_verify_row rows ds) (zip (lg_rows logits) (mat_rows drafts)) ! i = map (\<lambda>x. (vf_token (v x), vf_accepted (v x))) ?xs ! i"
        using v [of "?xs ! i"] i len ok(2) by simp
    qed (use len ok(2) in simp)
    then show ?thesis using ok(1) by (simp add: linear_greedy_verify_def check_verify_def verify_batch_ok_def Let_def)
  qed
  ultimately show ?thesis using linear_rejection_sample_ok [OF ok] by auto
qed

lemma verify_paths_agree_witness:
  "\<exists>vs. linear_rejection_sample \<lparr>lg_width = 2, lg_vocab = 3, lg_rows = [[[Some 0, Some 2, Some 1], [Some 4, None, Some 4]]]\<rparr> \<lparr>mat_width = 1, mat_rows = [[1]]\<rparr> [0] = Inr (dist_return vs) \<and>
     linear_greedy_verify \<lparr>lg_width = 2, lg_vocab = 3, lg_rows = [[[Some 0, Some 2, Some 1], [Some 4, None, Some 4]]]\<rparr> \<lparr>mat_width = 1, mat_rows = [[1]]\<rparr> = Inr (map vf_token vs, map vf_accepted vs)"
  by (rule verify_paths_agree) (simp_all add: verify_batch_ok_def logits_ok_def is_greedy_def)

subsection \<open>Greedy decoding\<close>

text \<open>Plain greedy decoding of the target policy.\<close>

fun greedy_tokens :: "policy \<Rightarrow> int list \<Rightarrow> nat \<Rightarrow> int list" where
  "greedy_tokens target ctx 0 = []"
| "greedy_tokens target ctx (Suc n) = int (argmax (target ctx)) # greedy_tokens target (ctx @ [int (argmax (target ctx))]) n"

text \<open>The accepted drafts and the next token are the tokens greedy decoding gives.\<close>

lemma greedy_verify_lossless:
  "greedy_verify_row (verify_rows target ctx ds) ds = (x, a) \<Longrightarrow> a \<le> length ds \<and> take a ds @ [x] = greedy_tokens target ctx (Suc a)"
proof (induction ds arbitrary: ctx a)
  case (Cons d ds)
  show ?case
  proof (cases "int (argmax (target ctx)) = d")
    case True
    then have "a \<noteq> 0" "greedy_verify_row (verify_rows target (ctx @ [d]) ds) ds = (x, a - 1)"
      using Cons.prems by (auto simp: greedy_verify_row_def verify_rows_Cons Let_def)
    then show ?thesis using Cons.IH [of "ctx @ [d]" "a - 1"] True by (cases a) auto
  qed (use Cons.prems in \<open>auto simp: greedy_verify_row_def verify_rows_Cons\<close>)
qed (auto simp: greedy_verify_row_def verify_rows_Nil)

end
