(* ===== verification/Mtp_Handoff.thy ===== *)
theory Mtp_Handoff
  imports Mtp_Verify
begin

section \<open>State of the draft predictor and its handoff between engines (\<open>runner/mtp_runner.py\<close>)\<close>

text \<open>
  The state \<open>MTPRunner\<close> keeps between steps, and the table by which a prefill engine hands its drafts to a decode engine:
  \<open>publish_disagg_handoff\<close> writes rows \<open>[seq_id, d1, ..., dN]\<close> by scheduler slot, the transfer copies rows, and
  \<open>restore_disagg_handoff\<close> takes them into the state of the decode engine.
\<close>

subsection \<open>State\<close>

record mtp_runner =
  mp_num_speculative_tokens :: nat
  mp_prev_seq_ids :: "int list option"
  mp_prev_drafts :: "int mat option"
  mp_selected_prev_drafts :: "int mat option"
  mp_verified_tokens :: "int mat option"
  mp_verified_logprobs :: "real option mat option"
  mp_num_accepted :: "nat list option"

definition mtp_runner_init :: "nat \<Rightarrow> mtp_runner" where
  "mtp_runner_init n = \<lparr>mp_num_speculative_tokens = n, mp_prev_seq_ids = None, mp_prev_drafts = None, mp_selected_prev_drafts = None,
     mp_verified_tokens = None, mp_verified_logprobs = None, mp_num_accepted = None\<rparr>"

definition has_drafts :: "mtp_runner \<Rightarrow> bool" where
  "has_drafts mp = (mp_prev_drafts mp \<noteq> None \<and> mp_prev_seq_ids mp \<noteq> None)"

definition verify_width :: "mtp_runner \<Rightarrow> nat" where
  "verify_width mp = mp_num_speculative_tokens mp + 1"

definition reset_lazy_verify_state :: "mtp_runner \<Rightarrow> mtp_runner" where
  "reset_lazy_verify_state mp = mp\<lparr>mp_prev_seq_ids := None, mp_prev_drafts := None, mp_selected_prev_drafts := None,
     mp_verified_tokens := None, mp_verified_logprobs := None, mp_num_accepted := None\<rparr>"

text \<open>\<open>{seq_id: idx for idx, seq_id in enumerate(ids)}\<close>: a later index replaces an earlier one.\<close>

definition index_dict :: "int list \<Rightarrow> int \<rightharpoonup> nat" where
  "index_dict ids = map_of (rev (zip ids [0..<length ids]))"

text \<open>\<open>index_select\<close> of rows raises out of range.\<close>

definition select_rows :: "'a list \<Rightarrow> nat list \<Rightarrow> 'a list res" where
  "select_rows xs idx = mapr (\<lambda>i. if i < length xs then Inr (xs ! i) else Inl IndexError) idx"

subsection \<open>Handoff\<close>

record handoff =
  ho_table :: "int mat option"
  ho_num_drafts :: nat

definition new_handoff :: "nat \<Rightarrow> nat \<Rightarrow> handoff" where
  "new_handoff max_num_seqs num_drafts =
     \<lparr>ho_table = Some \<lparr>mat_width = num_drafts + 1, mat_rows = replicate max_num_seqs (replicate (num_drafts + 1) (- 1))\<rparr>, ho_num_drafts = num_drafts\<rparr>"

definition handoff_entries :: "int mat \<Rightarrow> int list \<Rightarrow> int list \<Rightarrow> int \<Rightarrow> (int \<times> nat) list" where
  "handoff_entries table seq_ids state_slots num_seqs =
     map (\<lambda>(seq_id, slot). (seq_id, nat slot))
       (filter (\<lambda>(_, slot). 0 \<le> slot \<and> slot < int (length (mat_rows table))) (take (nat num_seqs) (zip seq_ids state_slots)))"

text \<open>\<open>index_fill_(0, slots, -1)\<close> and \<open>index_copy_(0, slots, rows)\<close>.\<close>

definition fill_rows :: "nat list \<Rightarrow> int mat \<Rightarrow> int mat" where
  "fill_rows slots table = table\<lparr>mat_rows := fold (\<lambda>slot rs. rs[slot := replicate (mat_width table) (- 1)]) slots (mat_rows table)\<rparr>"

definition copy_rows :: "nat list \<Rightarrow> int list list \<Rightarrow> int mat \<Rightarrow> int mat" where
  "copy_rows slots new table = table\<lparr>mat_rows := fold (\<lambda>(slot, row) rs. rs[slot := row]) (zip slots new) (mat_rows table)\<rparr>"

definition resolve_entries :: "int list \<Rightarrow> (int \<times> nat) list \<Rightarrow> (int \<times> nat \<times> nat) list" where
  "resolve_entries prev_ids entries =
     List.map_filter (\<lambda>(seq_id, slot). map_option (\<lambda>row. (seq_id, slot, row)) (index_dict prev_ids seq_id)) entries"

definition publish_disagg_handoff :: "mtp_runner \<Rightarrow> handoff \<Rightarrow> int list \<Rightarrow> int list \<Rightarrow> int \<Rightarrow> (handoff \<times> nat) res" where
  "publish_disagg_handoff mp ho seq_ids state_slots num_seqs =
     (case ho_table ho of
        None \<Rightarrow> Inr (ho, 0)
      | Some table \<Rightarrow>
          if num_seqs \<le> 0 then Inr (ho, 0)
          else (let entries = handoff_entries table seq_ids state_slots num_seqs
                in if entries = [] then Inr (ho, 0)
                   else (let cleared = fill_rows (map snd entries) table
                         in case (mp_prev_seq_ids mp, mp_prev_drafts mp) of
                              (Some prev_ids, Some drafts) \<Rightarrow>
                                if mat_width drafts \<noteq> ho_num_drafts ho then Inr (ho\<lparr>ho_table := Some cleared\<rparr>, 0)
                                else (let resolved = resolve_entries prev_ids entries
                                      in if resolved = [] then Inr (ho\<lparr>ho_table := Some cleared\<rparr>, 0)
                                         else rbind (select_rows (mat_rows drafts) (map (\<lambda>(_, _, row). row) resolved)) (\<lambda>rows.
                                              rbind (check (mat_width table = mat_width drafts + 1) (ExternalError ''index_copy'')) (\<lambda>_.
                                              Inr (ho\<lparr>ho_table := Some (copy_rows (map (\<lambda>(_, slot, _). slot) resolved)
                                                     (map (\<lambda>((seq_id, _, _), ds). seq_id # ds) (zip resolved rows)) cleared)\<rparr>, length resolved))))
                            | _ \<Rightarrow> Inr (ho\<lparr>ho_table := Some cleared\<rparr>, 0))))"

definition local_drafts :: "mtp_runner \<Rightarrow> int \<rightharpoonup> nat" where
  "local_drafts mp =
     (case (mp_prev_seq_ids mp, mp_prev_drafts mp) of
        (Some ids, Some drafts) \<Rightarrow> if mat_width drafts = mp_num_speculative_tokens mp then index_dict ids else Map.empty
      | _ \<Rightarrow> Map.empty)"

definition valid_row :: "int \<Rightarrow> int list \<Rightarrow> bool" where
  "valid_row seq_id row = (hd row = seq_id \<and> list_all (\<lambda>d. 0 \<le> d) (tl row))"

definition restore_row :: "mtp_runner \<Rightarrow> int mat \<Rightarrow> int \<times> int \<Rightarrow> int list res" where
  "restore_row mp table = (\<lambda>(seq_id, slot).
     (case local_drafts mp seq_id of
        Some row \<Rightarrow> (case mp_prev_drafts mp of None \<Rightarrow> Inl TypeError | Some drafts \<Rightarrow> if row < length (mat_rows drafts) then Inr (mat_rows drafts ! row) else Inl IndexError)
      | None \<Rightarrow> Inr (tl (mat_rows table ! nat slot))))"

definition consume_rows :: "nat list \<Rightarrow> int mat \<Rightarrow> int mat" where
  "consume_rows slots table = table\<lparr>mat_rows := fold (\<lambda>slot rs. rs[slot := (rs ! slot)[0 := - 1]]) slots (mat_rows table)\<rparr>"

definition restore_disagg_handoff :: "mtp_runner \<Rightarrow> handoff \<Rightarrow> int list \<Rightarrow> int list \<Rightarrow> int \<Rightarrow> (mtp_runner \<times> handoff \<times> bool) res" where
  "restore_disagg_handoff mp ho seq_ids state_slots num_seqs =
     (let current_ids = take (nat num_seqs) seq_ids;
          missing = filter (\<lambda>(seq_id, _). local_drafts mp seq_id = None) (zip current_ids state_slots)
      in if num_seqs \<le> 0 \<or> length current_ids \<noteq> nat num_seqs then Inr (mp, ho, False)
         else if list_all (\<lambda>seq_id. local_drafts mp seq_id \<noteq> None) current_ids then Inr (mp, ho, False)
         else (case ho_table ho of
                 None \<Rightarrow> Inr (mp, ho, False)
               | Some table \<Rightarrow>
                   if mat_width table \<noteq> mp_num_speculative_tokens mp + 1 \<or> length state_slots < nat num_seqs then Inr (mp, ho, False)
                   else if list_ex (\<lambda>(_, slot). slot < 0 \<or> int (length (mat_rows table)) \<le> slot) missing then Inr (mp, ho, False)
                   else if \<not> list_all (\<lambda>(seq_id, slot). valid_row seq_id (mat_rows table ! nat slot)) missing then Inr (mp, ho, False)
                   else rbind (mapr (restore_row mp table) (zip current_ids state_slots)) (\<lambda>resolved.
                        Inr (mp\<lparr>mp_prev_seq_ids := Some current_ids, mp_selected_prev_drafts := None,
                                mp_prev_drafts := Some \<lparr>mat_width = mp_num_speculative_tokens mp, mat_rows = resolved\<rparr>\<rparr>,
                             ho\<lparr>ho_table := Some (consume_rows (map (\<lambda>(_, slot). nat slot) missing) table)\<rparr>, True))))"

subsection \<open>Dictionaries and tables\<close>

lemma index_dict_Some: "index_dict ids s = Some k \<Longrightarrow> k < length ids \<and> ids ! k = s"
  unfolding index_dict_def by (drule map_of_SomeD) (auto simp: set_zip)

lemma index_dict_None: "index_dict ids s = None \<longleftrightarrow> s \<notin> set ids"
proof -
  have "fst ` set (rev (zip ids [0..<length ids])) = set ids" by (simp flip: set_map)
  then show ?thesis unfolding index_dict_def map_of_eq_None_iff by simp
qed

lemma select_rows_total: "(\<And>i. i \<in> set idx \<Longrightarrow> i < length xs) \<Longrightarrow> select_rows xs idx = Inr (map ((!) xs) idx)"
  unfolding select_rows_def by (intro mapr_total) simp

lemma select_rows_Inr: "select_rows xs idx = Inr ys \<Longrightarrow> ys = map ((!) xs) idx"
  unfolding select_rows_def by (induction idx arbitrary: ys) (auto simp: res_simps split: if_splits)

lemma fill_rows_nth: "j < length (mat_rows table) \<Longrightarrow>
  mat_rows (fill_rows slots table) ! j = (if j \<in> set slots then replicate (mat_width table) (- 1) else mat_rows table ! j)"
proof -
  have "j < length rs \<Longrightarrow> fold (\<lambda>slot rs. rs[slot := v]) slots rs ! j = (if j \<in> set slots then v else rs ! j)" for rs and v :: "int list"
    by (induction slots arbitrary: rs) (auto simp: nth_list_update)
  then show "j < length (mat_rows table) \<Longrightarrow> ?thesis" by (simp add: fill_rows_def)
qed

lemma fill_rows_shape [simp]: "length (mat_rows (fill_rows slots table)) = length (mat_rows table)" "mat_width (fill_rows slots table) = mat_width table"
proof -
  have "length (fold (\<lambda>slot rs. rs[slot := v]) slots rs) = length rs" for rs and v :: "int list" by (induction slots arbitrary: rs) auto
  then show "length (mat_rows (fill_rows slots table)) = length (mat_rows table)" by (simp add: fill_rows_def)
qed (simp add: fill_rows_def)

lemma copy_rows_shape [simp]: "length (mat_rows (copy_rows slots new table)) = length (mat_rows table)" "mat_width (copy_rows slots new table) = mat_width table"
  by (simp_all add: copy_rows_def fold_update_length)

lemma copy_rows_nth:
  assumes "distinct slots" "length new = length slots" "k < length slots" "slots ! k < length (mat_rows table)"
  shows "mat_rows (copy_rows slots new table) ! (slots ! k) = new ! k"
  unfolding copy_rows_def using assms
  by (simp, intro fold_update_nth) (auto simp: set_zip intro!: exI [of _ k])

lemma copy_rows_other: "length new = length slots \<Longrightarrow> j \<notin> set slots \<Longrightarrow> mat_rows (copy_rows slots new table) ! j = mat_rows table ! j"
  unfolding copy_rows_def by (simp, intro fold_update_other) (auto dest: set_zip_leftD)

lemma consume_rows_nth: "distinct slots \<Longrightarrow> j \<in> set slots \<Longrightarrow> j < length (mat_rows table) \<Longrightarrow> mat_rows (consume_rows slots table) ! j = (mat_rows table ! j)[0 := - 1]"
proof -
  have other: "j \<notin> set slots \<Longrightarrow> fold (\<lambda>slot rs. rs[slot := (rs ! slot)[0 := - 1]]) slots rs ! j = rs ! j" for rs :: "int list list" and slots
    by (induction slots arbitrary: rs) auto
  have "distinct slots \<Longrightarrow> j \<in> set slots \<Longrightarrow> j < length rs \<Longrightarrow> fold (\<lambda>slot rs. rs[slot := (rs ! slot)[0 := - 1]]) slots rs ! j = (rs ! j)[0 := - 1]" for rs :: "int list list"
    by (induction slots arbitrary: rs) (auto simp: other, metis nth_list_update_neq)
  then show "distinct slots \<Longrightarrow> j \<in> set slots \<Longrightarrow> j < length (mat_rows table) \<Longrightarrow> ?thesis" by (simp add: consume_rows_def)
qed

lemma resolve_entries_Cons:
  "resolve_entries ids ((s, slot) # es) = (case index_dict ids s of None \<Rightarrow> resolve_entries ids es | Some row \<Rightarrow> (s, slot, row) # resolve_entries ids es)"
  by (simp add: resolve_entries_def map_filter_simps split: option.split)

lemma resolve_entries_mem: "(s, slot, row) \<in> set (resolve_entries ids es) \<longleftrightarrow> (s, slot) \<in> set es \<and> index_dict ids s = Some row"
  by (induction es) (auto simp: resolve_entries_Cons resolve_entries_def [of _ "[]"] map_filter_simps split: option.splits)

lemma resolve_entries_slots: "set (map (\<lambda>(_, slot, _). slot) (resolve_entries ids es)) \<subseteq> set (map snd es)"
  by (auto simp: resolve_entries_mem) force

lemma resolve_entries_distinct: "distinct (map snd es) \<Longrightarrow> distinct (map (\<lambda>(_, slot, _). slot) (resolve_entries ids es))"
proof (induction es)
  case (Cons e es)
  obtain s slot where e: "e = (s, slot)" by (cases e)
  show ?case using Cons resolve_entries_slots [of ids es] by (auto simp: e resolve_entries_Cons split: option.split)
qed (simp add: resolve_entries_def map_filter_simps)

subsection \<open>Published rows\<close>

lemma handoff_entries_range: "(s, slot) \<in> set (handoff_entries table ids slots n) \<Longrightarrow> slot < length (mat_rows table)"
  by (auto simp: handoff_entries_def)

text \<open>What a published slot holds: the drafts of its sequence, or nothing valid.\<close>

definition published :: "mtp_runner \<Rightarrow> handoff \<Rightarrow> int \<Rightarrow> int list option" where
  "published mp ho s =
     (case (mp_prev_seq_ids mp, mp_prev_drafts mp) of
        (Some ids, Some drafts) \<Rightarrow>
          if mat_width drafts \<noteq> ho_num_drafts ho then None else map_option (\<lambda>row. mat_rows drafts ! row) (index_dict ids s)
      | _ \<Rightarrow> None)"

lemma publish_table:
  assumes pub: "publish_disagg_handoff mp ho ids slots n = Inr (ho', k)" and tab: "ho_table ho = Some table" and n: "0 < n"
    and es: "distinct (map snd (handoff_entries table ids slots n))"
  shows "\<exists>table'. ho_table ho' = Some table' \<and> mat_width table' = mat_width table \<and> length (mat_rows table') = length (mat_rows table) \<and>
    (\<forall>(s, slot) \<in> set (handoff_entries table ids slots n). mat_rows table' ! slot = (case published mp ho s of None \<Rightarrow> replicate (mat_width table) (- 1) | Some ds \<Rightarrow> s # ds))"
proof -
  let ?es = "handoff_entries table ids slots n"
  let ?cleared = "fill_rows (map snd ?es) table"
  have cleared: "mat_rows ?cleared ! slot = replicate (mat_width table) (- 1)" if "(s, slot) \<in> set ?es" for s slot
    using fill_rows_nth [OF handoff_entries_range [OF that], of "map snd ?es"] that by force
  show ?thesis
  proof (cases "?es = []")
    case True
    then show ?thesis using pub tab n by (simp add: publish_disagg_handoff_def)
  next
    case False
    note pub' = pub [unfolded publish_disagg_handoff_def tab option.case Let_def]
    show ?thesis
    proof (cases "\<exists>prev drafts. mp_prev_seq_ids mp = Some prev \<and> mp_prev_drafts mp = Some drafts \<and> mat_width drafts = ho_num_drafts ho \<and> resolve_entries prev ?es \<noteq> []")
      case True
      then obtain prev drafts where pd: "mp_prev_seq_ids mp = Some prev" "mp_prev_drafts mp = Some drafts" "mat_width drafts = ho_num_drafts ho" "resolve_entries prev ?es \<noteq> []" by blast
      let ?res = "resolve_entries prev ?es"
      let ?slots = "map (\<lambda>(_, slot, _). slot) ?res"
      obtain new where new: "select_rows (mat_rows drafts) (map (\<lambda>(_, _, row). row) ?res) = Inr new"
        and ho': "ho_table ho' = Some (copy_rows ?slots (map (\<lambda>((s, _, _), ds). s # ds) (zip ?res new)) ?cleared)"
        using pub' False n pd by (auto simp: res_simps)
      have new_eq: "new = map (\<lambda>(_, _, row). mat_rows drafts ! row) ?res" using select_rows_Inr [OF new] by (simp add: split_def o_def)
      have "mat_rows (copy_rows ?slots (map (\<lambda>((s, _, _), ds). s # ds) (zip ?res new)) ?cleared) ! slot =
          (case published mp ho s of None \<Rightarrow> replicate (mat_width table) (- 1) | Some ds \<Rightarrow> s # ds)" if e: "(s, slot) \<in> set ?es" for s slot
      proof (cases "index_dict prev s")
        case None
        have "slot \<notin> set ?slots" using e None es by (auto simp: resolve_entries_mem distinct_map inj_on_def) force
        then show ?thesis using copy_rows_other [of _ ?slots slot ?cleared] cleared [OF e] None pd by (simp add: published_def new_eq)
      next
        case (Some row)
        then have "(s, slot, row) \<in> set ?res" using e by (simp add: resolve_entries_mem)
        then obtain i where i: "i < length ?res" "?res ! i = (s, slot, row)" by (auto simp: in_set_conv_nth)
        then have "mat_rows (copy_rows ?slots (map (\<lambda>((s, _, _), ds). s # ds) (zip ?res new)) ?cleared) ! (?slots ! i) = s # mat_rows drafts ! row"
          using resolve_entries_distinct [OF es] handoff_entries_range [OF e] by (subst copy_rows_nth) (simp_all add: new_eq)
        then show ?thesis using i pd Some by (simp add: published_def)
      qed
      then show ?thesis using ho' by auto
    next
      case nores: False
      have "ho_table ho' = Some ?cleared" using pub' False n nores by (auto simp: res_simps split: option.splits if_splits)
      moreover have "published mp ho s = None" if "(s, slot) \<in> set ?es" for s slot
      proof (rule ccontr)
        assume "published mp ho s \<noteq> None"
        then obtain prev drafts row where "mp_prev_seq_ids mp = Some prev" "mp_prev_drafts mp = Some drafts" "mat_width drafts = ho_num_drafts ho" "index_dict prev s = Some row"
          by (auto simp: published_def split: option.splits if_splits)
        moreover have "(s, slot, row) \<in> set (resolve_entries prev ?es)" using that calculation(4) by (simp add: resolve_entries_mem)
        ultimately show False using nores by fastforce
      qed
      ultimately show ?thesis using cleared by auto
    qed
  qed
qed

subsection \<open>Drafts arrive with their sequence\<close>

lemma entries_all:
  assumes "length slots = length ids" "n = int (length ids)" "list_all (\<lambda>s. 0 \<le> s \<and> s < int (length (mat_rows table))) slots"
  shows "handoff_entries table ids slots n = zip ids (map nat slots)"
proof -
  have "filter (\<lambda>(_, slot). 0 \<le> slot \<and> slot < int (length (mat_rows table))) (zip ids slots) = zip ids slots"
    by (rule filter_True) (use assms(3) in \<open>auto simp: list_all_iff dest: set_zip_rightD\<close>)
  then show ?thesis using assms(1,2) by (simp add: handoff_entries_def zip_map2)
qed

text \<open>
  A published slot never serves drafts of another sequence. After a publish, whatever the table held before, a row of
  a published slot that passes the validity check of the receiving engine carries the identifier of the sequence the slot
  was published for, and its tokens are the drafts the predictor holds for that sequence.
\<close>

lemma handoff_never_stale:
  assumes pub: "publish_disagg_handoff mp ho ids slots n = Inr (ho', k)" and tab: "ho_table ho = Some table" "mat_width table = Suc (ho_num_drafts ho)" "0 < ho_num_drafts ho" and n: "0 < n"
    and es: "distinct (map snd (handoff_entries table ids slots n))" and e: "(s, slot) \<in> set (handoff_entries table ids slots n)"
  shows "\<exists>table'. ho_table ho' = Some table' \<and> (\<forall>s'. valid_row s' (mat_rows table' ! slot) \<longrightarrow> s' = s \<and> published mp ho s = Some (tl (mat_rows table' ! slot)))"
proof -
  obtain table' where table': "ho_table ho' = Some table'" and row: "mat_rows table' ! slot = (case published mp ho s of None \<Rightarrow> replicate (mat_width table) (- 1) | Some ds \<Rightarrow> s # ds)"
    using publish_table [OF pub tab(1) n es] e by fast
  have "s' = s \<and> published mp ho s = Some (tl (mat_rows table' ! slot))" if v: "valid_row s' (mat_rows table' ! slot)" for s'
  proof (cases "published mp ho s")
    case None
    then show ?thesis using v row tab(2,3) by (cases "ho_num_drafts ho") (simp_all add: valid_row_def)
  next
    case (Some ds)
    then show ?thesis using v row by (simp add: valid_row_def)
  qed
  then show ?thesis using table' by blast
qed

definition sample_mtp :: mtp_runner where
  "sample_mtp = (mtp_runner_init 2)\<lparr>mp_prev_seq_ids := Some [7, 9], mp_prev_drafts := Some \<lparr>mat_width = 2, mat_rows = [[11, 12], [13, 14]]\<rparr>\<rparr>"

lemma handoff_never_stale_witness:
  "\<exists>table'. ho_table \<lparr>ho_table = Some \<lparr>mat_width = 3, mat_rows = [[- 1, - 1, - 1], [9, 13, 14], [- 1, - 1, - 1]]\<rparr>, ho_num_drafts = 2\<rparr> = Some table' \<and>
     (\<forall>s'. valid_row s' (mat_rows table' ! 1) \<longrightarrow> s' = 9 \<and> published sample_mtp (new_handoff 3 2) 9 = Some (tl (mat_rows table' ! 1)))"
proof (rule handoff_never_stale [of sample_mtp "new_handoff 3 2" "[8, 9]" "[2, 1]" 2 _ 1 "\<lparr>mat_width = 3, mat_rows = replicate 3 (replicate 3 (- 1))\<rparr>"])
  show "publish_disagg_handoff sample_mtp (new_handoff 3 2) [8, 9] [2, 1] 2 =
      Inr (\<lparr>ho_table = Some \<lparr>mat_width = 3, mat_rows = [[- 1, - 1, - 1], [9, 13, 14], [- 1, - 1, - 1]]\<rparr>, ho_num_drafts = 2\<rparr>, 1)" by code_simp
qed code_simp+

lemma restore_rows:
  assumes "length dslots = length ids" "\<And>i. i < length ids \<Longrightarrow> local_drafts mp (ids ! i) = None"
  shows "mapr (restore_row mp table) (zip ids dslots) = Inr (map (\<lambda>slot. tl (mat_rows table ! nat slot)) dslots)"
proof -
  have "mapr (restore_row mp table) (zip ids dslots) = Inr (map (\<lambda>(_, slot). tl (mat_rows table ! nat slot)) (zip ids dslots))"
    by (intro mapr_total) (use assms(2) in \<open>auto simp: restore_row_def set_zip\<close>)
  moreover have "map (\<lambda>(_, slot). tl (mat_rows table ! nat slot)) (zip ids dslots) = map (\<lambda>slot. tl (mat_rows table ! nat slot)) (map snd (zip ids dslots))"
    by (simp add: split_def)
  ultimately show ?thesis using assms(1) by simp
qed

lemma distinct_nat: "distinct (ss :: int list) \<Longrightarrow> list_all (\<lambda>s. 0 \<le> s \<and> s < m) ss \<Longrightarrow> distinct (map nat ss)"
  by (simp add: distinct_map list_all_iff inj_on_def) (metis eq_nat_nat_iff)

text \<open>A batch without local drafts takes all its rows from the table and consumes them.\<close>

lemma restore_missing:
  assumes ids: "ids \<noteq> []" "list_all (\<lambda>s. 0 \<le> s) ids" and tab: "ho_table ho = Some table" "mat_width table = Suc (mp_num_speculative_tokens mp)"
    and none: "list_all (\<lambda>s. local_drafts mp s = None) ids"
    and slots: "length slots = length ids" "distinct slots" "list_all (\<lambda>s. 0 \<le> s \<and> s < int (length (mat_rows table))) slots"
    and row: "\<And>i. i < length ids \<Longrightarrow> mat_rows table ! nat (slots ! i) = ids ! i # f (ids ! i) \<and> list_all (\<lambda>d. 0 \<le> d) (f (ids ! i))"
  shows "restore_disagg_handoff mp ho ids slots (int (length ids)) = Inr (mp\<lparr>mp_prev_seq_ids := Some ids, mp_selected_prev_drafts := None,
      mp_prev_drafts := Some \<lparr>mat_width = mp_num_speculative_tokens mp, mat_rows = map f ids\<rparr>\<rparr>, ho\<lparr>ho_table := Some (consume_rows (map nat slots) table)\<rparr>, True)"
    and "list_all (\<lambda>slot. list_all (\<lambda>s. \<not> valid_row s (mat_rows (consume_rows (map nat slots) table) ! nat slot)) ids) slots"
proof -
  have missing: "filter (\<lambda>(s, _). local_drafts mp s = None) (zip ids slots) = zip ids slots" by (rule filter_True) (use none in \<open>auto simp: list_all_iff dest: set_zip_leftD\<close>)
  have valid: "list_all (\<lambda>(s, slot). valid_row s (mat_rows table ! nat slot)) (zip ids slots)" using row slots(1) by (auto simp: list_all_length valid_row_def)
  have range: "\<not> list_ex (\<lambda>(_, slot). slot < 0 \<or> int (length (mat_rows table)) \<le> slot) (zip ids slots)"
    using slots(3) by (fastforce simp: list_all_iff list_ex_iff dest: set_zip_rightD)
  have rows: "mapr (restore_row mp table) (zip ids slots) = Inr (map (\<lambda>slot. tl (mat_rows table ! nat slot)) slots)"
    using none by (intro restore_rows slots(1)) (simp add: list_all_length)
  have new: "map (\<lambda>slot. tl (mat_rows table ! nat slot)) slots = map f ids" using row slots(1) by (intro nth_equalityI) simp_all
  have slots': "map (\<lambda>(_, slot). nat slot) (zip ids slots) = map nat slots" using slots(1) by (intro nth_equalityI) simp_all
  have "\<not> list_all (\<lambda>s. local_drafts mp s \<noteq> None) ids" using none ids(1) by (cases ids) auto
  then show "restore_disagg_handoff mp ho ids slots (int (length ids)) = Inr (mp\<lparr>mp_prev_seq_ids := Some ids, mp_selected_prev_drafts := None,
      mp_prev_drafts := Some \<lparr>mat_width = mp_num_speculative_tokens mp, mat_rows = map f ids\<rparr>\<rparr>, ho\<lparr>ho_table := Some (consume_rows (map nat slots) table)\<rparr>, True)"
    using tab slots(1) missing valid range rows ids(1) unfolding restore_disagg_handoff_def Let_def by (simp add: new slots')
  have "hd (mat_rows (consume_rows (map nat slots) table) ! nat (slots ! i)) = - 1" if "i < length slots" for i
    using consume_rows_nth [OF distinct_nat [OF slots(2,3)], of "nat (slots ! i)" table] row [of i] that slots(1,3) by (simp add: list_all_length nat_less_iff)
  then show "list_all (\<lambda>slot. list_all (\<lambda>s. \<not> valid_row s (mat_rows (consume_rows (map nat slots) table) ! nat slot)) ids) slots"
    using ids(2) by (auto simp: list_all_length valid_row_def)
qed

text \<open>
  C25: Drafts survive the move from a prefill to a decode engine. The prefill engine publishes the drafts of a batch in
  distinct slots; when the rows have been copied into the slots of the decode engine, which has no drafts of these sequences,
  the restore succeeds and the decode engine holds for every sequence exactly the drafts predicted for it. The rows are
  consumed: no later restore accepts them for a sequence of the batch.
\<close>

theorem handoff_roundtrip:
  assumes pub: "publish_disagg_handoff mp ho ids slots (int (length ids)) = Inr (ho', k)" "ho_table ho = Some table" and ids: "ids \<noteq> []" "list_all (\<lambda>s. 0 \<le> s) ids"
    and slots: "length slots = length ids" "distinct slots" "list_all (\<lambda>s. 0 \<le> s \<and> s < int (length (mat_rows table))) slots"
    and drafts: "list_all (\<lambda>s. case published mp ho s of None \<Rightarrow> False | Some ds \<Rightarrow> list_all (\<lambda>d. 0 \<le> d) ds) ids"
    and dec: "ho_table dho = Some dtable" "mat_width dtable = Suc (mp_num_speculative_tokens dmp)" "list_all (\<lambda>s. local_drafts dmp s = None) ids"
    and dslots: "length dslots = length ids" "distinct dslots" "list_all (\<lambda>s. 0 \<le> s \<and> s < int (length (mat_rows dtable))) dslots"
    and copied: "\<exists>table'. ho_table ho' = Some table' \<and> map (\<lambda>s. mat_rows dtable ! nat s) dslots = map (\<lambda>s. mat_rows table' ! nat s) slots"
  shows "\<exists>dmp' dho' dtable'. restore_disagg_handoff dmp dho ids dslots (int (length ids)) = Inr (dmp', dho', True) \<and>
    mp_prev_seq_ids dmp' = Some ids \<and> mp_prev_drafts dmp' = Some \<lparr>mat_width = mp_num_speculative_tokens dmp, mat_rows = map (\<lambda>s. the (published mp ho s)) ids\<rparr> \<and>
    ho_table dho' = Some dtable' \<and> list_all (\<lambda>slot. list_all (\<lambda>s. \<not> valid_row s (mat_rows dtable' ! nat slot)) ids) dslots"
proof -
  have es: "handoff_entries table ids slots (int (length ids)) = zip ids (map nat slots)" by (rule entries_all [OF slots(1) refl slots(3)])
  obtain table' where t': "ho_table ho' = Some table'" and t'row: "\<forall>(s, slot) \<in> set (zip ids (map nat slots)). mat_rows table' ! slot = (case published mp ho s of None \<Rightarrow> replicate (mat_width table) (- 1) | Some ds \<Rightarrow> s # ds)"
    using publish_table [OF pub] ids(1) slots(1) distinct_nat [OF slots(2,3)] unfolding es by auto
  have row: "mat_rows dtable ! nat (dslots ! i) = ids ! i # the (published mp ho (ids ! i)) \<and> list_all (\<lambda>d. 0 \<le> d) (the (published mp ho (ids ! i)))" if i: "i < length ids" for i
  proof -
    have "map (\<lambda>s. mat_rows dtable ! nat s) dslots ! i = map (\<lambda>s. mat_rows table' ! nat s) slots ! i" using copied t' by simp
    moreover obtain ds where ds: "published mp ho (ids ! i) = Some ds" "list_all (\<lambda>d. 0 \<le> d) ds"
      using drafts nth_mem [OF i] by (cases "published mp ho (ids ! i)") (auto simp: list_all_iff)
    moreover have "(ids ! i, nat (slots ! i)) \<in> set (zip ids (map nat slots))" using i slots(1) by (auto simp: set_zip)
    ultimately show ?thesis using bspec [OF t'row, of "(ids ! i, nat (slots ! i))"] i slots(1) dslots(1) by simp
  qed
  note restored = restore_missing [OF ids dec(1,2,3) dslots row]
  show ?thesis by (intro exI conjI, rule restored(1)) (use restored(2) in simp_all)
qed

definition sample_decode_handoff :: handoff where
  "sample_decode_handoff = \<lparr>ho_table = Some \<lparr>mat_width = 3, mat_rows = [[7, 11, 12], [5, 0, 0]]\<rparr>, ho_num_drafts = 2\<rparr>"

theorem handoff_roundtrip_witness:
  "\<exists>dmp' dho' dtable'. restore_disagg_handoff (mtp_runner_init 2) sample_decode_handoff [7] [0] (int (length [7 :: int])) = Inr (dmp', dho', True) \<and>
    mp_prev_seq_ids dmp' = Some [7] \<and> mp_prev_drafts dmp' = Some \<lparr>mat_width = mp_num_speculative_tokens (mtp_runner_init 2), mat_rows = map (\<lambda>s. the (published sample_mtp (new_handoff 3 2) s)) [7]\<rparr> \<and>
    ho_table dho' = Some dtable' \<and> list_all (\<lambda>slot. list_all (\<lambda>s. \<not> valid_row s (mat_rows dtable' ! nat slot)) [7]) [0]"
proof (rule handoff_roundtrip [of sample_mtp "new_handoff 3 2" "[7]" "[2]" _ 1 "\<lparr>mat_width = 3, mat_rows = replicate 3 (replicate 3 (- 1))\<rparr>" _ "\<lparr>mat_width = 3, mat_rows = [[7, 11, 12], [5, 0, 0]]\<rparr>"])
  show "publish_disagg_handoff sample_mtp (new_handoff 3 2) [7] [2] (int (length [7 :: int])) =
    Inr (\<lparr>ho_table = Some \<lparr>mat_width = 3, mat_rows = [[- 1, - 1, - 1], [- 1, - 1, - 1], [7, 11, 12]]\<rparr>, ho_num_drafts = 2\<rparr>, 1)" by code_simp
  show "\<exists>table'. ho_table \<lparr>ho_table = Some \<lparr>mat_width = 3, mat_rows = [[- 1, - 1, - 1], [- 1, - 1, - 1], [7, 11, 12]]\<rparr>, ho_num_drafts = 2\<rparr> = Some table' \<and>
    map (\<lambda>s. mat_rows \<lparr>mat_width = 3, mat_rows = [[7, 11, 12], [5, 0, 0]]\<rparr> ! nat s) [0] = map (\<lambda>s. mat_rows table' ! nat s) [2]" by (simp add: eval_nat_numeral)
qed code_simp+

end
