(* ===== verification/Mtp_Runner.thy ===== *)
theory Mtp_Runner
  imports Mtp_Handoff Input_Prep
begin

section \<open>Lazy verification of a decode step (\<open>runner/mtp_runner.py\<close>, \<open>runner/model_runner.py\<close>)\<close>

text \<open>
  The decode step with drafts: \<open>can_lazy_verify\<close> aligns the stored drafts with the batch, \<open>prepare_lazy_verify_decode\<close> expands
  every request to the rows \<open>[base, d1, ..., dN]\<close> with their cache slots, \<open>lazy_verify_sample\<close> verifies the rows and rolls back
  what the rejected drafts left, \<open>build_output_tokens\<close> returns the accepted drafts before the new token. Tile-scheduler
  metadata of the attention library is left out. Slots are converted to 32 bits where the code converts them; positions and
  lengths are mathematical integers.
\<close>

subsection \<open>Preparation\<close>

definition can_lazy_verify :: "mtp_runner \<Rightarrow> batch_context \<Rightarrow> int list \<Rightarrow> nat \<Rightarrow> (bool \<times> mtp_runner) res" where
  "can_lazy_verify mp bc seq_ids num_seqs =
     (case (mp_prev_seq_ids mp, mp_prev_drafts mp) of
        (Some prev_ids, Some drafts) \<Rightarrow>
          if length seq_ids < num_seqs then Inr (False, mp)
          else (let selected = map (index_dict prev_ids) (take num_seqs seq_ids)
                in if None \<in> set selected \<or> \<not> bc_mtp_draft_safe bc then Inr (False, mp)
                   else rbind (select_rows (mat_rows drafts) (map the selected)) (\<lambda>rs.
                        Inr (True, mp\<lparr>mp_selected_prev_drafts := Some \<lparr>mat_width = mat_width drafts, mat_rows = rs\<rparr>\<rparr>)))
      | _ \<Rightarrow> Inr (False, mp))"

text \<open>
  The slot of a cache position: its block's page, by the block table of the request, as a 32-bit number. \<open>short\<close> is raised
  behind the table; on CUDA the check is skipped and the \<open>gather\<close> fails with a device assertion instead.
\<close>

definition page_slot :: "py_error \<Rightarrow> nat \<Rightarrow> int list \<Rightarrow> int \<Rightarrow> int res" where
  "page_slot short block_size pages p =
     (let b = p div int block_size
      in if int (length pages) \<le> b then Inl short
         else if b < 0 then Inl (ExternalError ''gather'')
         else Inr (to_int32 (pages ! nat b * int block_size + p mod int block_size)))"

definition update_prefix :: "(nat \<Rightarrow> 'a \<Rightarrow> 'a) \<Rightarrow> nat \<Rightarrow> 'a list \<Rightarrow> 'a list" where
  "update_prefix f n xs = map (\<lambda>i. if i < n then f i (xs ! i) else xs ! i) [0..<length xs]"

definition prepare_lazy_verify_decode ::
  "nat \<Rightarrow> nat \<Rightarrow> mtp_runner \<Rightarrow> batch_context \<Rightarrow> int list \<Rightarrow> int list \<Rightarrow> nat \<Rightarrow> ((int list \<times> int list) \<times> batch_context) res" where
  "prepare_lazy_verify_decode block_size sp_rank mp bc input_ids positions num_seqs =
     (case mp_selected_prev_drafts mp of
        None \<Rightarrow> Inl (RuntimeErr ''lazy verify requested without sequence-aligned drafts'')
      | Some selected \<Rightarrow>
          (let num_drafts = mp_num_speculative_tokens mp;
               offsets = map int [0..<num_drafts + 1];
               ids = take num_seqs input_ids; drafts = take num_seqs (mat_rows selected)
           in rbind (check (length ids = length drafts) (ExternalError ''cat'')) (\<lambda>_.
              (case (bc_context_lens bc, bc_block_tables bc) of
                 (Some context_lens, Some block_tables) \<Rightarrow>
                   rbind (py_nth context_lens (int sp_rank)) (\<lambda>lens.
                   rbind (py_nth block_tables (int sp_rank)) (\<lambda>tables.
                   rbind (check (block_size \<noteq> 0) ZeroDivisionError) (\<lambda>_.
                   rbind (check (length (take num_seqs lens) \<le> length (take num_seqs tables)) (ExternalError ''gather'')) (\<lambda>_.
                   rbind (mapr (\<lambda>(old_len, pages). mapr (\<lambda>o'. page_slot (RuntimeErr ''MTP KV reservation is smaller than the verify width'') block_size pages (old_len - 1 + o')) offsets) (zip (take num_seqs lens) (take num_seqs tables))) (\<lambda>slots.
                   Inr ((concat (map (\<lambda>(t, ds). t # ds) (zip ids drafts)), concat (map (\<lambda>p. map (\<lambda>o'. p + o') offsets) (take num_seqs positions))),
                        bc\<lparr>bc_context_lens := Some (context_lens[sp_rank := update_prefix (\<lambda>_ l. l + int num_drafts) num_seqs lens]),
                           bc_slot_mapping := concat slots, bc_num_tokens_per_seq := num_drafts + 1\<rparr>))))))
               | _ \<Rightarrow> Inl TypeError))))"

subsection \<open>Verification\<close>

text \<open>
  The sum over a tensor-parallel group in which rank 0 holds \<open>xs\<close> and every other rank zeros.
\<close>

definition tp_reduce :: "('a \<Rightarrow> 'a \<Rightarrow> 'a) \<Rightarrow> 'a \<Rightarrow> nat \<Rightarrow> 'a list \<Rightarrow> 'a list" where
  "tp_reduce add zero tp_size xs = map (\<lambda>x. foldr add (map (\<lambda>r. if r = 0 then x else zero) [0..<tp_size]) zero) xs"

definition inf_add :: "real option \<Rightarrow> real option \<Rightarrow> real option" where
  "inf_add a b = (case (a, b) of (Some x, Some y) \<Rightarrow> Some (x + y) | _ \<Rightarrow> None)"

record verify_outcome =
  vo_ids :: "int list"
  vo_accepted :: "nat list"
  vo_logprobs :: "real option list"
  vo_draft_logprobs :: "real option list list"

definition verify_leader :: "logits3 \<Rightarrow> int mat \<Rightarrow> real list \<Rightarrow> bool \<Rightarrow> nat \<Rightarrow> verify_outcome dist res" where
  "verify_leader target_logits drafts temperatures want_logprobs num_seqs =
     (if list_all is_greedy (take num_seqs temperatures) \<and> \<not> want_logprobs
      then rbind (linear_greedy_verify target_logits drafts) (\<lambda>(ids, accepted).
           Inr (dist_return \<lparr>vo_ids = ids, vo_accepted = accepted, vo_logprobs = [], vo_draft_logprobs = []\<rparr>))
      else rbind (linear_rejection_sample target_logits drafts temperatures) (\<lambda>d.
           Inr (dist_bind d (\<lambda>vs. dist_return \<lparr>vo_ids = map vf_token vs, vo_accepted = map vf_accepted vs,
                                               vo_logprobs = map vf_logprob vs, vo_draft_logprobs = map vf_draft_logprobs vs\<rparr>))))"

definition mat_transpose :: "'a mat \<Rightarrow> 'a mat" where
  "mat_transpose m = \<lparr>mat_width = length (mat_rows m), mat_rows = map (\<lambda>j. map (\<lambda>r. r ! j) (mat_rows m)) [0..<mat_width m]\<rparr>"

text \<open>
  A rejected first draft restores the recurrent state from the backup slot behind the active slots. States are listed by slot.
\<close>

definition gdn_rollback :: "nat \<Rightarrow> int list \<Rightarrow> nat list \<Rightarrow> 's list \<Rightarrow> 's list res" where
  "gdn_rollback max_active slots accepted states =
     fold_res (\<lambda>(slot, a) st.
         if a = 0 \<and> slot < int max_active
         then rbind (py_nth states (slot + int max_active)) (\<lambda>backup.
              rbind (py_nth st slot) (\<lambda>_. Inr (st[nat (if slot < 0 then slot + int (length st) else slot) := backup])))
         else Inr st) (zip slots accepted) states"

type_synonym 's gdn = "(nat \<times> 's list) option"

definition verify_finish ::
  "nat \<Rightarrow> nat \<Rightarrow> mtp_runner \<Rightarrow> batch_context \<Rightarrow> 's gdn \<Rightarrow> int mat \<Rightarrow> bool \<Rightarrow> nat \<Rightarrow> verify_outcome
   \<Rightarrow> ((int list \<times> real option list option) \<times> mtp_runner \<times> batch_context \<times> 's gdn) res" where
  "verify_finish tp_size sp_rank mp bc gdn drafts want_logprobs num_seqs out =
     (let ids = tp_reduce (+) 0 tp_size (vo_ids out);
          accepted = tp_reduce (+) 0 tp_size (vo_accepted out);
          logprobs = tp_reduce inf_add (Some 0) tp_size (vo_logprobs out);
          draft_logprobs = map (tp_reduce inf_add (Some 0) tp_size) (vo_draft_logprobs out);
          n = mp_num_speculative_tokens mp;
          mp' = mp\<lparr>mp_verified_tokens := Some (mat_transpose drafts),
                   mp_verified_logprobs := (if want_logprobs then Some (mat_transpose \<lparr>mat_width = n, mat_rows = draft_logprobs\<rparr>) else None),
                   mp_num_accepted := Some accepted\<rparr>
      in rbind (case bc_context_lens bc of None \<Rightarrow> Inl TypeError | Some context_lens \<Rightarrow>
                  rbind (py_nth context_lens (int sp_rank)) (\<lambda>lens.
                  rbind (check (length (take num_seqs lens) = length accepted) (ExternalError ''sub_'')) (\<lambda>_.
                  Inr (bc\<lparr>bc_context_lens := Some (context_lens[sp_rank := update_prefix (\<lambda>i l. l - (int n - int (accepted ! i))) num_seqs lens])\<rparr>)))) (\<lambda>bc'.
         rbind (case gdn of
                  None \<Rightarrow> Inr None
                | Some (max_active, states) \<Rightarrow>
                    if list_ex (\<lambda>a. a = 0) accepted
                    then (case bc_gdn_state_slots bc of None \<Rightarrow> Inl TypeError
                          | Some slots \<Rightarrow> rbind (gdn_rollback max_active (take num_seqs slots) accepted states) (\<lambda>st. Inr (Some (max_active, st))))
                    else Inr gdn) (\<lambda>gdn'.
         Inr ((ids, if want_logprobs then Some logprobs else None), mp', bc', gdn'))))"

definition lazy_verify_sample ::
  "nat \<Rightarrow> nat \<Rightarrow> nat \<Rightarrow> mtp_runner \<Rightarrow> batch_context \<Rightarrow> 's gdn \<Rightarrow> real list \<Rightarrow> bool \<Rightarrow> nat \<Rightarrow> real option list list
   \<Rightarrow> ((int list \<times> real option list option) \<times> mtp_runner \<times> batch_context \<times> 's gdn) res dist res" where
  "lazy_verify_sample tp_size sp_rank vocab mp bc gdn temperatures want_logprobs num_seqs logits =
     (let width = verify_width mp
      in rbind (reshape2 num_seqs width (take (num_seqs * width) logits)) (\<lambda>target_rows.
         (case mp_selected_prev_drafts mp of
            None \<Rightarrow> Inl TypeError
          | Some selected \<Rightarrow>
              (let drafts = selected\<lparr>mat_rows := take num_seqs (mat_rows selected)\<rparr>
               in rbind (verify_leader \<lparr>lg_width = width, lg_vocab = vocab, lg_rows = target_rows\<rparr> drafts temperatures want_logprobs num_seqs) (\<lambda>d.
                  Inr (dist_bind d (\<lambda>out. dist_return (verify_finish tp_size sp_rank mp bc gdn drafts want_logprobs num_seqs out))))))))"

subsection \<open>Output\<close>

definition mat_column :: "nat \<Rightarrow> 'a list list \<Rightarrow> 'a list" where
  "mat_column i rs = map (\<lambda>r. r ! i) rs"

definition build_output_logprobs :: "mtp_runner \<Rightarrow> real option list list \<Rightarrow> real option list list" where
  "build_output_logprobs mp next_logprobs =
     (case (mp_verified_logprobs mp, mp_num_accepted mp) of
        (Some verified, Some accepted) \<Rightarrow>
          map (\<lambda>(i, base). mat_column i (take (accepted ! i) (mat_rows verified)) @ base) (zip [0..<length next_logprobs] next_logprobs)
      | _ \<Rightarrow> next_logprobs)"

definition build_output_tokens :: "mtp_runner \<Rightarrow> int mat \<Rightarrow> (int list list \<times> mtp_runner) res" where
  "build_output_tokens mp base =
     (case mp_verified_tokens mp of
        None \<Rightarrow> Inr (map (\<lambda>i. mat_column i (mat_rows base)) [0..<mat_width base], mp)
      | Some verified \<Rightarrow>
          (case mp_num_accepted mp of
             None \<Rightarrow> Inl TypeError
           | Some accepted \<Rightarrow>
               rbind (check (mat_width base \<le> length accepted \<and> mat_width base \<le> mat_width verified) IndexError) (\<lambda>_.
               Inr (map (\<lambda>i. mat_column i (take (accepted ! i) (mat_rows verified)) @ mat_column i (mat_rows base)) [0..<mat_width base],
                    mp\<lparr>mp_verified_tokens := None, mp_verified_logprobs := None, mp_num_accepted := None\<rparr>))))"

subsection \<open>The cache as a store of tokens\<close>

text \<open>
  What the target model's forward is relied on for: a row at position \<open>p\<close> of a request sees the tokens stored at the positions
  up to \<open>p\<close> of the request's pages, after this step's tokens have been stored. The key-value cache is a store of tokens by slot.
\<close>

definition slot_of :: "nat \<Rightarrow> int list \<Rightarrow> nat \<Rightarrow> int" where
  "slot_of block_size pages p = pages ! (p div block_size) * int block_size + int (p mod block_size)"

definition read_kv :: "nat \<Rightarrow> int list \<Rightarrow> (int \<Rightarrow> int) \<Rightarrow> nat \<Rightarrow> int list" where
  "read_kv block_size pages kv n = map (\<lambda>p. kv (slot_of block_size pages p)) [0..<n]"

definition write_kv :: "(int \<times> int) list \<Rightarrow> (int \<Rightarrow> int) \<Rightarrow> int \<Rightarrow> int" where
  "write_kv ps kv = fold (\<lambda>(slot, t) f. f(slot := t)) ps kv"

definition paged_logits :: "policy \<Rightarrow> nat \<Rightarrow> int list list \<Rightarrow> nat list \<Rightarrow> nat \<Rightarrow> (int \<Rightarrow> int) \<Rightarrow> real option list list" where
  "paged_logits target block_size tables lens width kv =
     concat (map (\<lambda>(n, pages). map (\<lambda>j. target (read_kv block_size pages kv (n + j))) [0..<width]) (zip lens tables))"

lemma write_kv_other: "slot \<notin> fst ` set ps \<Longrightarrow> write_kv ps kv slot = kv slot"
  unfolding write_kv_def by (induction ps arbitrary: kv) auto

lemma write_kv_same:
  assumes "(slot, t) \<in> set ps" "\<And>t'. (slot, t') \<in> set ps \<Longrightarrow> t' = t"
  shows "write_kv ps kv slot = t"
  using assms
proof (induction ps arbitrary: kv)
  case (Cons p ps)
  show ?case
  proof (cases "slot \<in> fst ` set ps")
    case True
    then obtain t' where "(slot, t') \<in> set ps" by auto
    then have "(slot, t) \<in> set ps" using Cons.prems(2) [of t'] by (metis list.set_intros(2))
    then have "write_kv ps (kv(fst p := snd p)) slot = t" using Cons.IH Cons.prems(2) by (meson list.set_intros(2))
    then show ?thesis by (simp add: write_kv_def split_def)
  next
    case False
    then have "(slot, t) \<notin> set ps" by force
    then have "p = (slot, t)" using Cons.prems(1) by simp
    then show ?thesis using write_kv_other [OF False, of "kv(slot := t)"] by (simp add: write_kv_def)
  qed
qed simp

text \<open>
  The pages of a batch: every position of the verified line has a page whose slots have 32-bit numbers, and no slot written
  in this step is read through another position or by another request.
\<close>

definition reserved :: "nat \<Rightarrow> int list list \<Rightarrow> nat list \<Rightarrow> nat \<Rightarrow> bool" where
  "reserved block_size tables lens n = (0 < block_size \<and> length lens \<le> length tables \<and>
     list_all (\<lambda>s. 0 < lens ! s \<and> (lens ! s + n - 1) div block_size < length (tables ! s) \<and>
       list_all (\<lambda>p. 0 \<le> slot_of block_size (tables ! s) p \<and> slot_of block_size (tables ! s) p < 2 ^ 31) [lens ! s - 1..<lens ! s + n]) [0..<length lens])"

definition exclusive :: "nat \<Rightarrow> int list list \<Rightarrow> nat list \<Rightarrow> nat \<Rightarrow> bool" where
  "exclusive block_size tables lens n =
     list_all (\<lambda>s. list_all (\<lambda>p. list_all (\<lambda>s'. list_all (\<lambda>p'.
         slot_of block_size (tables ! s) p = slot_of block_size (tables ! s') p' \<longrightarrow> s = s' \<and> p = p') [0..<lens ! s' + n])
       [0..<length lens]) [lens ! s - 1..<lens ! s + n]) [0..<length lens]"

lemma exclusiveD:
  assumes "exclusive block_size tables lens n" "s < length lens" "lens ! s - 1 \<le> p" "p < lens ! s + n" "s' < length lens" "p' < lens ! s' + n"
    "slot_of block_size (tables ! s) p = slot_of block_size (tables ! s') p'"
  shows "s = s'" "p = p'"
  using assms by (auto simp: exclusive_def list_all_iff)

lemma page_slot_of:
  assumes "0 < bs" "p div bs < length pages" "0 \<le> slot_of bs pages p" "slot_of bs pages p < 2 ^ 31"
  shows "page_slot short bs pages (int p) = Inr (slot_of bs pages p)"
  using assms(1,2) to_int32_id [of "slot_of bs pages p"] assms(3,4)
  by (simp add: page_slot_def slot_of_def zdiv_int [symmetric] zmod_int [symmetric])

text \<open>The pairs of slot and token one step stores.\<close>

definition line_pairs :: "nat \<Rightarrow> int list list \<Rightarrow> int list list \<Rightarrow> int list list \<Rightarrow> (int \<times> int) list" where
  "line_pairs bs tables toks drafts =
     concat (map (\<lambda>s. zip (map (\<lambda>j. slot_of bs (tables ! s) (length (toks ! s) - 1 + j)) [0..<Suc (length (drafts ! s))]) (last (toks ! s) # drafts ! s)) [0..<length toks])"

lemma zip_map_upt: "length xs = Suc n \<Longrightarrow> (slot, t) \<in> set (zip (map f [0..<Suc n]) xs) \<longleftrightarrow> (\<exists>j\<le>n. slot = f j \<and> t = xs ! j)"
  by (auto simp: set_zip less_Suc_eq_le nth_append intro: exI simp del: upt_Suc) (metis add_0 diff_zero le_imp_less_Suc nth_map_upt)

lemma line_pairs_mem:
  "(slot, t) \<in> set (line_pairs bs tables toks drafts) \<longleftrightarrow>
   (\<exists>s<length toks. \<exists>j\<le>length (drafts ! s). slot = slot_of bs (tables ! s) (length (toks ! s) - 1 + j) \<and> t = (last (toks ! s) # drafts ! s) ! j)"
  unfolding line_pairs_def by (simp add: zip_map_upt Bex_def del: upt_Suc)

text \<open>A step leaves the request's tokens and its drafts at their positions.\<close>

lemma line_stored:
  assumes ex: "exclusive bs tables (map length toks) n" and toks: "list_all (\<lambda>t. t \<noteq> []) toks" and drafts: "\<And>s. s < length toks \<Longrightarrow> length (drafts ! s) = n"
    and kv: "\<And>s. s < length toks \<Longrightarrow> read_kv bs (tables ! s) kv (length (toks ! s) - 1) = butlast (toks ! s)" and s: "s < length toks" and j: "j \<le> n"
  shows "read_kv bs (tables ! s) (write_kv (line_pairs bs tables toks drafts) kv) (length (toks ! s) + j) = toks ! s @ take j (drafts ! s)"
proof (rule nth_equalityI)
  let ?ps = "line_pairs bs tables toks drafts" and ?L = "length (toks ! s)"
  have ne: "toks ! s \<noteq> []" using toks s by (simp add: list_all_length)
  show "length (read_kv bs (tables ! s) (write_kv ?ps kv) (?L + j)) = length (toks ! s @ take j (drafts ! s))" using drafts [OF s] j by (simp add: read_kv_def)
  fix p assume "p < length (read_kv bs (tables ! s) (write_kv ?ps kv) (?L + j))"
  then have p: "p < ?L + j" by (simp add: read_kv_def)
  have pair: "s' = s \<and> ?L - 1 + i = p" if "s' < length toks" "i \<le> n" "slot_of bs (tables ! s') (length (toks ! s') - 1 + i) = slot_of bs (tables ! s) p" for s' i
  proof -
    have "0 < length (toks ! s')" using toks that(1) by (simp add: list_all_length)
    then have "length (toks ! s') - 1 + i < length (toks ! s') + n" using that(2) by arith
    then have "s' = s" "length (toks ! s') - 1 + i = p" using exclusiveD [OF ex, of s' "length (toks ! s') - 1 + i" s p] that s p j by simp_all
    then show ?thesis by simp
  qed
  have "write_kv ?ps kv (slot_of bs (tables ! s) p) = (toks ! s @ take j (drafts ! s)) ! p"
  proof (cases "p < ?L - 1")
    case True
    then have "slot_of bs (tables ! s) p \<notin> fst ` set ?ps" using pair drafts by (force simp: line_pairs_mem)
    then have "write_kv ?ps kv (slot_of bs (tables ! s) p) = kv (slot_of bs (tables ! s) p)" by (rule write_kv_other)
    also have "\<dots> = butlast (toks ! s) ! p" using arg_cong [OF kv [OF s], of "\<lambda>l. l ! p"] True by (simp add: read_kv_def)
    finally show ?thesis using True by (auto simp: nth_append nth_butlast)
  next
    case False
    define i where "i = p - (?L - 1)"
    have i: "i \<le> j" "p = ?L - 1 + i" using False p ne by (auto simp: i_def)
    have "write_kv ?ps kv (slot_of bs (tables ! s) p) = (last (toks ! s) # drafts ! s) ! i"
    proof (rule write_kv_same)
      show "(slot_of bs (tables ! s) p, (last (toks ! s) # drafts ! s) ! i) \<in> set ?ps"
        unfolding line_pairs_mem using i j s drafts [OF s] by (intro exI [of _ s] exI [of _ i] conjI) simp_all
      show "t' = (last (toks ! s) # drafts ! s) ! i" if "(slot_of bs (tables ! s) p, t') \<in> set ?ps" for t'
        using that pair i(2) drafts by (auto simp: line_pairs_mem)
    qed
    also have "\<dots> = (toks ! s @ take j (drafts ! s)) ! p"
    proof (cases i)
      case (Suc k)
      then have "p = ?L + k" using i(2) ne by (cases "toks ! s") simp_all
      then show ?thesis using Suc i(1) j drafts [OF s] by (simp add: nth_append)
    qed (use i ne in \<open>simp add: last_conv_nth nth_append\<close>)
    finally show ?thesis .
  qed
  then show "read_kv bs (tables ! s) (write_kv ?ps kv) (?L + j) ! p = (toks ! s @ take j (drafts ! s)) ! p" using p by (simp add: read_kv_def)
qed

subsection \<open>A verified decode step\<close>

lemma zip_concat_map: "(\<And>x. x \<in> set xs \<Longrightarrow> length (f x) = length (g x)) \<Longrightarrow> zip (concat (map f xs)) (concat (map g xs)) = concat (map (\<lambda>x. zip (f x) (g x)) xs)"
  by (induction xs) (simp_all add: zip_append)

lemma row_chunks_concat: "(\<And>x. x \<in> set xss \<Longrightarrow> length x = w) \<Longrightarrow> row_chunks (length xss) w (concat xss) = xss"
proof (induction xss)
  case (Cons x xss)
  have "row_chunks (length (x # xss)) w (concat (x # xss)) = take w (x @ concat xss) # map (\<lambda>i. take w (drop (Suc i * w) (x @ concat xss))) [0..<length xss]"
    unfolding row_chunks_def by (simp add: upt_conv_Cons map_Suc_upt [symmetric] del: upt_Suc)
  also have "\<dots> = x # row_chunks (length xss) w (concat xss)" using Cons.prems by (simp add: row_chunks_def)
  finally show ?case using Cons by simp
qed (simp add: row_chunks_def)

lemma concat_length: "(\<And>x. x \<in> set xss \<Longrightarrow> length x = w) \<Longrightarrow> length (concat xss) = length xss * w"
  by (induction xss) auto

lemma tp_reduce_leader: "0 < tp_size \<Longrightarrow> (\<And>x. add x zero = x) \<Longrightarrow> tp_reduce add zero tp_size xs = xs"
proof -
  assume tp: "0 < tp_size" and add: "\<And>x. add x zero = x"
  have "foldr add (map (\<lambda>r. if r = 0 then x else zero) (map Suc rs)) zero = zero" for x rs using add by (induction rs) simp_all
  moreover obtain n where "tp_size = Suc n" using tp by (cases tp_size) auto
  ultimately show ?thesis using add by (simp add: tp_reduce_def upt_conv_Cons map_Suc_upt [symmetric] del: upt_Suc)
qed

lemma transpose_column:
  assumes "i < length rs" "length (rs ! i) = n" "a \<le> n"
  shows "mat_column i (take a (mat_rows (mat_transpose \<lparr>mat_width = n, mat_rows = rs\<rparr>))) = take a (rs ! i)"
  using assms by (intro nth_equalityI) (simp_all add: mat_column_def mat_transpose_def)

text \<open>The state of a batch before its decode step: the tokens of every request, the last of them still to be stored.\<close>

definition decode_ready :: "nat \<Rightarrow> nat \<Rightarrow> mtp_runner \<Rightarrow> batch_context \<Rightarrow> int list \<Rightarrow> (int \<Rightarrow> int) \<Rightarrow> int list list \<Rightarrow> int list list \<Rightarrow> int list list \<Rightarrow> bool" where
  "decode_ready bs sp_rank mp bc input_ids kv tables toks drafts =
     (let n = mp_num_speculative_tokens mp
      in mp_selected_prev_drafts mp = Some \<lparr>mat_width = n, mat_rows = drafts\<rparr> \<and> length drafts = length toks \<and> list_all (\<lambda>ds. length ds = n) drafts \<and>
         list_all (\<lambda>t. t \<noteq> []) toks \<and> take (length toks) input_ids = map last toks \<and>
         (case bc_context_lens bc of None \<Rightarrow> False | Some cl \<Rightarrow> sp_rank < length cl \<and> take (length toks) (cl ! sp_rank) = map (\<lambda>t. int (length t)) toks) \<and>
         (case bc_block_tables bc of None \<Rightarrow> False | Some bt \<Rightarrow> sp_rank < length bt \<and> bt ! sp_rank = tables) \<and>
         reserved bs tables (map length toks) n \<and> exclusive bs tables (map length toks) n \<and>
         list_all (\<lambda>s. read_kv bs (tables ! s) kv (length (toks ! s) - 1) = butlast (toks ! s)) [0..<length toks])"

lemma prepare_line:
  assumes ready: "decode_ready bs sp_rank mp bc input_ids kv tables toks drafts"
  shows "\<exists>ids pos bc' cl. prepare_lazy_verify_decode bs sp_rank mp bc input_ids positions (length toks) = Inr ((ids, pos), bc') \<and>
    zip (bc_slot_mapping bc') ids = line_pairs bs tables toks drafts \<and> bc_context_lens bc = Some cl \<and>
    bc_context_lens bc' = Some (cl[sp_rank := update_prefix (\<lambda>_ l. l + int (mp_num_speculative_tokens mp)) (length toks) (cl ! sp_rank)]) \<and> bc_gdn_state_slots bc' = bc_gdn_state_slots bc"
proof -
  let ?n = "mp_num_speculative_tokens mp" and ?B = "length toks" and ?short = "RuntimeErr ''MTP KV reservation is smaller than the verify width''"
  obtain cl bt where cl: "bc_context_lens bc = Some cl" "sp_rank < length cl" "take ?B (cl ! sp_rank) = map (\<lambda>t. int (length t)) toks"
    and bt: "bc_block_tables bc = Some bt" "sp_rank < length bt" "bt ! sp_rank = tables"
    using ready by (auto simp: decode_ready_def Let_def split: option.splits)
  have r: "0 < bs" "?B \<le> length tables" and page: "\<And>s. s < ?B \<Longrightarrow> 0 < length (toks ! s) \<and> (length (toks ! s) + ?n - 1) div bs < length (tables ! s)"
    and fit: "\<And>s p. s < ?B \<Longrightarrow> length (toks ! s) - 1 \<le> p \<Longrightarrow> p < length (toks ! s) + ?n \<Longrightarrow> 0 \<le> slot_of bs (tables ! s) p \<and> slot_of bs (tables ! s) p < 2 ^ 31"
    using ready by (auto simp: decode_ready_def reserved_def list_all_iff Let_def)
  have d: "length drafts = ?B" "\<And>s. s < ?B \<Longrightarrow> length (drafts ! s) = ?n" "take ?B input_ids = map last toks" "mp_selected_prev_drafts mp = Some \<lparr>mat_width = ?n, mat_rows = drafts\<rparr>"
    using ready by (auto simp: decode_ready_def Let_def list_all_length)
  define slots where "slots s = map (\<lambda>j. slot_of bs (tables ! s) (length (toks ! s) - 1 + j)) [0..<Suc ?n]" for s
  have line: "mapr (\<lambda>o'. page_slot ?short bs (tables ! s) (int (length (toks ! s)) - 1 + o')) (map int [0..<?n + 1]) = Inr (slots s)" if s: "s < ?B" for s
  proof -
    have "page_slot ?short bs (tables ! s) (int (length (toks ! s)) - 1 + int j) = Inr (slot_of bs (tables ! s) (length (toks ! s) - 1 + j))" if "j \<le> ?n" for j
    proof -
      have "(length (toks ! s) - 1 + j) div bs \<le> (length (toks ! s) + ?n - 1) div bs" by (rule div_le_mono) (use that page [OF s] in linarith)
      then have "(length (toks ! s) - 1 + j) div bs < length (tables ! s)" using page [OF s] by linarith
      moreover have "int (length (toks ! s)) - 1 + int j = int (length (toks ! s) - 1 + j)" using page [OF s] by linarith
      moreover have "length (toks ! s) - 1 + j < length (toks ! s) + ?n" using that page [OF s] by linarith
      ultimately show ?thesis using page_slot_of [OF r(1)] fit [OF s, of "length (toks ! s) - 1 + j"] by (metis le_add1)
    qed
    then have "mapr (\<lambda>o'. page_slot ?short bs (tables ! s) (int (length (toks ! s)) - 1 + o')) (map int js) = Inr (map (\<lambda>j. slot_of bs (tables ! s) (length (toks ! s) - 1 + j)) js)" if "set js \<subseteq> {..?n}" for js
      using that by (induction js) auto
    then show ?thesis unfolding slots_def by (metis Suc_eq_plus1 atLeast_upt lessThan_Suc_atMost order_refl)
  qed
  have z: "zip (map (\<lambda>t. int (length t)) toks) (take ?B tables) = map (\<lambda>s. (int (length (toks ! s)), tables ! s)) [0..<?B]" using r(2) by (intro nth_equalityI) simp_all
  have lines: "mapr (\<lambda>(old_len, pages). mapr (\<lambda>o'. page_slot ?short bs pages (old_len - 1 + o')) (map int [0..<?n + 1])) (zip (map (\<lambda>t. int (length t)) toks) (take ?B tables)) = Inr (map slots [0..<?B])"
    unfolding z by (subst mapr_map_arg, rule mapr_total, simp only: prod.case, rule line, simp)
  have ids: "map (\<lambda>(t, ds). t # ds) (zip (map last toks) drafts) = map (\<lambda>s. last (toks ! s) # drafts ! s) [0..<?B]" using d(1) by (intro nth_equalityI) simp_all
  have "zip (concat (map slots [0..<?B])) (concat (map (\<lambda>s. last (toks ! s) # drafts ! s) [0..<?B])) = line_pairs bs tables toks drafts"
    unfolding line_pairs_def by (subst zip_concat_map) (auto simp: slots_def d(2) simp del: upt_Suc intro!: arg_cong [of _ _ concat])
  moreover have "min (length (cl ! sp_rank)) ?B \<le> length tables" using r(2) by simp
  ultimately show ?thesis using cl bt d r lines unfolding prepare_lazy_verify_decode_def Let_def by (simp add: py_nth_nat ids del: upt_Suc)
qed

lemma line_rows:
  assumes ready: "decode_ready bs sp_rank mp bc input_ids kv tables toks drafts"
  shows "paged_logits target bs tables (map length toks) (Suc (mp_num_speculative_tokens mp)) (write_kv (line_pairs bs tables toks drafts) kv) =
    concat (map (\<lambda>s. verify_rows target (toks ! s) (drafts ! s)) [0..<length toks])"
    and "s < length toks \<Longrightarrow> j \<le> mp_num_speculative_tokens mp \<Longrightarrow>
      read_kv bs (tables ! s) (write_kv (line_pairs bs tables toks drafts) kv) (length (toks ! s) + j) = toks ! s @ take j (drafts ! s)"
proof -
  let ?n = "mp_num_speculative_tokens mp" and ?kv = "write_kv (line_pairs bs tables toks drafts) kv"
  have d: "length drafts = length toks" "\<And>s. s < length toks \<Longrightarrow> length (drafts ! s) = ?n" "length toks \<le> length tables"
    using ready by (auto simp: decode_ready_def reserved_def Let_def list_all_length)
  have stored: "read_kv bs (tables ! s) ?kv (length (toks ! s) + j) = toks ! s @ take j (drafts ! s)" if "s < length toks" "j \<le> ?n" for s j
    using ready d(2) that by (intro line_stored [where n = ?n]) (auto simp: decode_ready_def Let_def list_all_iff)
  show "s < length toks \<Longrightarrow> j \<le> ?n \<Longrightarrow> read_kv bs (tables ! s) ?kv (length (toks ! s) + j) = toks ! s @ take j (drafts ! s)" by (rule stored)
  have "map (\<lambda>j. target (read_kv bs (tables ! s) ?kv (length (toks ! s) + j))) [0..<Suc ?n] = verify_rows target (toks ! s) (drafts ! s)" if "s < length toks" for s
    unfolding verify_rows_def d(2) [OF that] using stored [OF that] by (intro map_cong refl) (auto simp: less_Suc_eq_le simp del: upt_Suc)
  then have "map (\<lambda>(m, pages). map (\<lambda>j. target (read_kv bs pages ?kv (m + j))) [0..<Suc ?n]) (zip (map length toks) tables) = map (\<lambda>s. verify_rows target (toks ! s) (drafts ! s)) [0..<length toks]"
    using d(3) by (intro nth_equalityI) (simp_all del: upt_Suc)
  then show "paged_logits target bs tables (map length toks) (Suc ?n) ?kv = concat (map (\<lambda>s. verify_rows target (toks ! s) (drafts ! s)) [0..<length toks])"
    by (simp only: paged_logits_def)
qed

text \<open>The greedy verification of the line, row by row.\<close>

abbreviation line_verdict :: "policy \<Rightarrow> int list list \<Rightarrow> int list list \<Rightarrow> nat \<Rightarrow> int \<times> nat" where
  "line_verdict target toks drafts s \<equiv> greedy_verify_row (verify_rows target (toks ! s) (drafts ! s)) (drafts ! s)"

lemma lazy_verify_line:
  assumes ready: "decode_ready bs sp_rank mp bc input_ids kv tables toks drafts" and bc': "bc_context_lens bc' = Some cl'" "sp_rank < length cl'" "length toks \<le> length (cl' ! sp_rank)"
    and tp: "0 < tp_size" and V: "0 < V" and t: "list_all is_greedy (take (length toks) temperatures)"
  shows "lazy_verify_sample tp_size sp_rank V mp bc' None temperatures False (length toks)
      (paged_logits target bs tables (map length toks) (Suc (mp_num_speculative_tokens mp)) (write_kv (line_pairs bs tables toks drafts) kv)) =
    Inr (dist_return (Inr ((map (\<lambda>s. fst (line_verdict target toks drafts s)) [0..<length toks], None),
      mp\<lparr>mp_verified_tokens := Some (mat_transpose \<lparr>mat_width = mp_num_speculative_tokens mp, mat_rows = drafts\<rparr>), mp_verified_logprobs := None,
         mp_num_accepted := Some (map (\<lambda>s. snd (line_verdict target toks drafts s)) [0..<length toks])\<rparr>,
      bc'\<lparr>bc_context_lens := Some (cl'[sp_rank := update_prefix (\<lambda>s l. l - (int (mp_num_speculative_tokens mp) - int (snd (line_verdict target toks drafts s)))) (length toks) (cl' ! sp_rank)])\<rparr>, None)))"
proof -
  let ?n = "mp_num_speculative_tokens mp" and ?B = "length toks" and ?v = "line_verdict target toks drafts"
  let ?rows = "map (\<lambda>s. verify_rows target (toks ! s) (drafts ! s)) [0..<length toks]"
  have d: "length drafts = ?B" "\<And>s. s < ?B \<Longrightarrow> length (drafts ! s) = ?n" "mp_selected_prev_drafts mp = Some \<lparr>mat_width = ?n, mat_rows = drafts\<rparr>"
    using ready by (auto simp: decode_ready_def Let_def list_all_length)
  have w: "length x = Suc ?n" if "x \<in> set ?rows" for x using that d(2) by auto
  have len: "length (concat ?rows) = ?B * Suc ?n" using concat_length [of ?rows, OF w] by simp
  have shape: "reshape2 ?B (Suc ?n) (concat ?rows) = Inr ?rows" using row_chunks_concat [of ?rows, OF w] len by (simp add: reshape2_def)
  have pairs: "map (\<lambda>(rows, ds). greedy_verify_row rows ds) (zip ?rows drafts) = map ?v [0..<?B]" using d(1) by (intro nth_equalityI) simp_all
  have "linear_greedy_verify \<lparr>lg_width = Suc ?n, lg_vocab = V, lg_rows = ?rows\<rparr> \<lparr>mat_width = ?n, mat_rows = drafts\<rparr> = Inr (map (\<lambda>s. fst (?v s)) [0..<?B], map (\<lambda>s. snd (?v s)) [0..<?B])"
    using d(1) V unfolding linear_greedy_verify_def check_verify_def Let_def by (simp add: pairs)
  then have leader: "verify_leader \<lparr>lg_width = Suc ?n, lg_vocab = V, lg_rows = ?rows\<rparr> \<lparr>mat_width = ?n, mat_rows = drafts\<rparr> temperatures False ?B =
      Inr (dist_return \<lparr>vo_ids = map (\<lambda>s. fst (?v s)) [0..<?B], vo_accepted = map (\<lambda>s. snd (?v s)) [0..<?B], vo_logprobs = [], vo_draft_logprobs = []\<rparr>)"
    using t by (simp add: verify_leader_def)
  have prefix: "update_prefix (\<lambda>i l. l - (int ?n - int (map (\<lambda>s. snd (?v s)) [0..<?B] ! i))) ?B xs = update_prefix (\<lambda>s l. l - (int ?n - int (snd (?v s)))) ?B xs" for xs
    unfolding update_prefix_def by (intro map_cong refl) simp
  show ?thesis
    unfolding line_rows(1) [OF ready] lazy_verify_sample_def Let_def verify_width_def
    using len shape leader d bc' tp by (simp add: verify_finish_def tp_reduce_leader prefix Let_def)
qed

lemma update_prefix_nth: "i < length xs \<Longrightarrow> update_prefix f n xs ! i = (if i < n then f i (xs ! i) else xs ! i)"
  by (simp add: update_prefix_def)

lemma update_prefix_length [simp]: "length (update_prefix f n xs) = length xs"
  by (simp add: update_prefix_def)

lemma line_output:
  assumes "length drafts = length toks" "\<And>s. s < length toks \<Longrightarrow> length (drafts ! s) = n" "\<And>s. s < length toks \<Longrightarrow> snd (v s) \<le> n"
    "mp_verified_tokens mp = Some (mat_transpose \<lparr>mat_width = n, mat_rows = drafts\<rparr>)" "mp_num_accepted mp = Some (map (\<lambda>s. snd (v s)) [0..<length toks])"
  shows "\<exists>mp'. build_output_tokens mp \<lparr>mat_width = length toks, mat_rows = [map (\<lambda>s. fst (v s)) [0..<length toks]]\<rparr> =
    Inr (map (\<lambda>s. take (snd (v s)) (drafts ! s) @ [fst (v s)]) [0..<length toks], mp') \<and> \<not> (mp_verified_tokens mp' \<noteq> None \<or> mp_num_accepted mp' \<noteq> None)"
proof -
  have width: "mat_width (mat_transpose \<lparr>mat_width = n, mat_rows = drafts\<rparr>) = length toks" using assms(1) by (simp add: mat_transpose_def)
  have "map (\<lambda>i. mat_column i (take (map (\<lambda>s. snd (v s)) [0..<length toks] ! i) (mat_rows (mat_transpose \<lparr>mat_width = n, mat_rows = drafts\<rparr>))) @
      mat_column i [map (\<lambda>s. fst (v s)) [0..<length toks]]) [0..<length toks] = map (\<lambda>s. take (snd (v s)) (drafts ! s) @ [fst (v s)]) [0..<length toks]"
    using assms(1,2,3) by (intro map_cong refl) (simp add: transpose_column, simp add: mat_column_def)
  then show ?thesis using assms(4,5) width by (simp add: build_output_tokens_def)
qed

text \<open>
  C3: Speculative decoding is lossless at temperature zero. For a batch whose requests have their earlier tokens in the cache
  and pages with 32-bit slot numbers for the verified line, which no other position uses, the preparation of the verify rows, the target's forward over them, the verification and the output together return for
  every request the tokens plain greedy decoding of the target gives, at least one and at most one more than the drafts,
  whatever the drafts are. Afterwards the cache holds the tokens of every request up to the last returned one, as the next step needs it, and
  the context length counts the accepted drafts only.
\<close>

theorem speculative_decode_step:
  assumes ready: "decode_ready bs sp_rank mp bc input_ids kv tables toks drafts"
    and tp: "0 < tp_size" and V: "0 < V" and t: "list_all is_greedy (take (length toks) temperatures)"
  shows "\<exists>ids pos bc1 tokens mp1 bc2 outs mp2 kv'.
    prepare_lazy_verify_decode bs sp_rank mp bc input_ids positions (length toks) = Inr ((ids, pos), bc1) \<and>
    kv' = write_kv (zip (bc_slot_mapping bc1) ids) kv \<and>
    lazy_verify_sample tp_size sp_rank V mp bc1 None temperatures False (length toks) (paged_logits target bs tables (map length toks) (verify_width mp) kv') =
      Inr (dist_return (Inr ((tokens, None), mp1, bc2, None))) \<and>
    build_output_tokens mp1 \<lparr>mat_width = length toks, mat_rows = [tokens]\<rparr> = Inr (outs, mp2) \<and> length outs = length toks \<and>
    (\<forall>s<length toks. \<exists>n\<le>mp_num_speculative_tokens mp. outs ! s = greedy_tokens target (toks ! s) (Suc n) \<and>
       read_kv bs (tables ! s) kv' (length (toks ! s) + n) = butlast (toks ! s @ outs ! s) \<and>
       (\<exists>cl. bc_context_lens bc2 = Some cl \<and> cl ! sp_rank ! s = int (length (toks ! s) + n)))"
proof -
  let ?N = "mp_num_speculative_tokens mp" and ?v = "line_verdict target toks drafts" and ?kv = "write_kv (line_pairs bs tables toks drafts) kv"
  obtain ids pos bc1 cl where prep: "prepare_lazy_verify_decode bs sp_rank mp bc input_ids positions (length toks) = Inr ((ids, pos), bc1)"
    and pairs: "zip (bc_slot_mapping bc1) ids = line_pairs bs tables toks drafts" and cl: "bc_context_lens bc = Some cl"
    and cl1: "bc_context_lens bc1 = Some (cl[sp_rank := update_prefix (\<lambda>_ l. l + int ?N) (length toks) (cl ! sp_rank)])"
    using prepare_line [OF ready] by blast
  have lens: "sp_rank < length cl" "take (length toks) (cl ! sp_rank) = map (\<lambda>t. int (length t)) toks"
    and d: "length drafts = length toks" "\<And>s. s < length toks \<Longrightarrow> length (drafts ! s) = ?N"
    using ready cl by (auto simp: decode_ready_def Let_def list_all_length)
  have cl_len: "length toks \<le> length (cl ! sp_rank)" using arg_cong [OF lens(2), of length] by simp
  have len_s: "cl ! sp_rank ! s = int (length (toks ! s))" if "s < length toks" for s using arg_cong [OF lens(2), of "\<lambda>l. l ! s"] that by simp
  have v: "snd (?v s) \<le> ?N \<and> take (snd (?v s)) (drafts ! s) @ [fst (?v s)] = greedy_tokens target (toks ! s) (Suc (snd (?v s)))" if "s < length toks" for s
    using greedy_verify_lossless [of target "toks ! s" "drafts ! s" "fst (?v s)" "snd (?v s)"] d(2) [OF that] by simp
  let ?mp1 = "mp\<lparr>mp_verified_tokens := Some (mat_transpose \<lparr>mat_width = ?N, mat_rows = drafts\<rparr>), mp_verified_logprobs := None,
         mp_num_accepted := Some (map (\<lambda>s. snd (?v s)) [0..<length toks])\<rparr>"
  obtain mp2 where out: "build_output_tokens ?mp1 \<lparr>mat_width = length toks, mat_rows = [map (\<lambda>s. fst (?v s)) [0..<length toks]]\<rparr> =
      Inr (map (\<lambda>s. take (snd (?v s)) (drafts ! s) @ [fst (?v s)]) [0..<length toks], mp2)"
    using line_output [OF d, of ?v ?mp1] v by auto
  have sample: "lazy_verify_sample tp_size sp_rank V mp bc1 None temperatures False (length toks) (paged_logits target bs tables (map length toks) (verify_width mp) ?kv) =
      Inr (dist_return (Inr ((map (\<lambda>s. fst (?v s)) [0..<length toks], None), ?mp1, bc1\<lparr>bc_context_lens := Some (cl[sp_rank := update_prefix (\<lambda>s l. l - (int ?N - int (snd (?v s)))) (length toks)
        (update_prefix (\<lambda>_ l. l + int ?N) (length toks) (cl ! sp_rank))])\<rparr>, None)))"
    using lazy_verify_line [OF ready cl1 _ _ tp V t, of target] lens(1) cl_len by (simp add: verify_width_def)
  have "\<exists>n\<le>?N. take (snd (?v s)) (drafts ! s) @ [fst (?v s)] = greedy_tokens target (toks ! s) (Suc n) \<and>
      read_kv bs (tables ! s) ?kv (length (toks ! s) + n) = butlast (toks ! s @ take (snd (?v s)) (drafts ! s) @ [fst (?v s)]) \<and>
      update_prefix (\<lambda>s l. l - (int ?N - int (snd (?v s)))) (length toks) (update_prefix (\<lambda>_ l. l + int ?N) (length toks) (cl ! sp_rank)) ! s = int (length (toks ! s) + n)" if s: "s < length toks" for s
  proof (intro exI [of _ "snd (?v s)"] conjI)
    have "butlast (toks ! s @ take (snd (?v s)) (drafts ! s) @ [fst (?v s)]) = toks ! s @ take (snd (?v s)) (drafts ! s)" by (simp add: butlast_append)
    then show "read_kv bs (tables ! s) ?kv (length (toks ! s) + snd (?v s)) = butlast (toks ! s @ take (snd (?v s)) (drafts ! s) @ [fst (?v s)])"
      using line_rows(2) [OF ready s, of "snd (?v s)"] v [OF s] by simp
  qed (use v [OF s] len_s [OF s] s cl_len in \<open>simp_all add: update_prefix_nth del: greedy_tokens.simps\<close>)
  note final = this
  show ?thesis
    by (intro exI conjI, rule prep, rule refl, rule sample [folded pairs], rule out, simp)
      (use final [folded pairs] lens(1) in \<open>simp del: greedy_tokens.simps\<close>)
qed

definition sample_line_context :: batch_context where
  "sample_line_context =
     \<lparr>bc_is_prefill = False, bc_max_bs = 2, bc_cu_seqlens_q = None, bc_cu_seqlens_k = None, bc_max_seqlen_q = 0, bc_max_seqlen_k = 0,
      bc_slot_mapping = [2, 6], bc_context_lens = Some [[3, 1, 0]], bc_block_tables = Some [[[0, 1, 2], [3, 4, - 1]]], bc_is_dummy = False,
      bc_gdn_state_slots = None, bc_dsv4_state_slots = None, bc_dsv4_compressed_block_tables = None, bc_hisparse_slots = None, bc_hisparse_slot_mapping = None,
      bc_hisparse_num_real_reqs = None, bc_hisparse_phase_id = 0, bc_num_tokens_per_seq = 1, bc_sampling_token_indices = None, bc_sampling_seq_indices = None,
      bc_paged_attention_strategy = Some PS_FLASH_MLA, bc_decode_page_plan_key = None, bc_mtp_draft_safe = True\<rparr>"

definition sample_line_mtp :: mtp_runner where
  "sample_line_mtp = (mtp_runner_init 2)\<lparr>mp_selected_prev_drafts := Some \<lparr>mat_width = 2, mat_rows = [[1, 0], [0, 1]]\<rparr>\<rparr>"

definition sample_policy :: policy where
  "sample_policy ctx = (if even (length ctx) then [Some 0, Some 1] else [Some 1, Some 0])"

theorem speculative_decode_step_witness:
  "\<exists>ids pos bc1 tokens mp1 bc2 outs mp2 kv'.
    prepare_lazy_verify_decode 2 0 sample_line_mtp sample_line_context [7, 8] [2, 0] (length [[5, 6, 7], [8 :: int]]) = Inr ((ids, pos), bc1) \<and>
    kv' = write_kv (zip (bc_slot_mapping bc1) ids) (\<lambda>slot. if slot = 0 then 5 else 6) \<and>
    lazy_verify_sample 1 0 2 sample_line_mtp bc1 None [0, 0] False (length [[5, 6, 7], [8 :: int]])
      (paged_logits sample_policy 2 [[0, 1, 2], [3, 4, - 1]] (map length [[5, 6, 7], [8 :: int]]) (verify_width sample_line_mtp) kv') = Inr (dist_return (Inr ((tokens, None), mp1, bc2, None))) \<and>
    build_output_tokens mp1 \<lparr>mat_width = length [[5, 6, 7], [8 :: int]], mat_rows = [tokens]\<rparr> = Inr (outs, mp2) \<and> length outs = length [[5, 6, 7], [8 :: int]] \<and>
    (\<forall>s<length [[5, 6, 7], [8 :: int]]. \<exists>n\<le>mp_num_speculative_tokens sample_line_mtp. outs ! s = greedy_tokens sample_policy ([[5, 6, 7], [8]] ! s) (Suc n) \<and>
       read_kv 2 ([[0, 1, 2], [3, 4, - 1]] ! s) kv' (length ([[5, 6, 7], [8 :: int]] ! s) + n) = butlast ([[5, 6, 7], [8]] ! s @ outs ! s) \<and>
       (\<exists>cl. bc_context_lens bc2 = Some cl \<and> cl ! 0 ! s = int (length ([[5, 6, 7], [8 :: int]] ! s) + n)))"
proof (rule speculative_decode_step)
  show "decode_ready 2 0 sample_line_mtp sample_line_context [7, 8] (\<lambda>slot. if slot = 0 then 5 else 6) [[0, 1, 2], [3, 4, - 1]] [[5, 6, 7], [8]] [[1, 0], [0, 1]]" by code_simp
qed (simp_all add: is_greedy_def)

end
