(* ===== verification/Mtp_Draft.thy ===== *)
theory Mtp_Draft
  imports Mtp_Runner
begin

section \<open>Draft generation (\<open>runner/mtp_runner.py\<close>)\<close>

text \<open>
  How \<open>MTPRunner\<close> drafts the tokens of the next step: recurrently from one predictor, over the predictor's own cache layer
  (\<open>_continue_cached_mtp_drafts\<close>), after a refresh of that layer with verified hidden states
  (\<open>_refresh_and_generate_cached_mtp_drafts\<close>), without cache for a single draft, or as padding that only keeps the collectives of
  all ranks aligned. The predictor model is a parameter. The replay of captured graphs, the sharing of indexer results between
  steps and the tile-scheduler metadata of the attention library are left out. A missing slot mapping is the empty list.
\<close>

subsection \<open>The predictor and its state\<close>

text \<open>
  \<open>pd_forward\<close> is the predictor's forward on a batch context: its cache, tokens, positions, hidden states and step index give the
  new hidden states and the cache. \<open>pd_logits\<close> is its output head on one row.
\<close>

record ('h, 'k) predictor =
  pd_forward :: "batch_context \<Rightarrow> 'k \<Rightarrow> int list \<Rightarrow> int list \<Rightarrow> 'h list \<Rightarrow> nat \<Rightarrow> 'h list \<times> 'k"
  pd_logits :: "'h \<Rightarrow> nat \<Rightarrow> real option list"
  pd_zero :: 'h

record draft_config =
  dc_num_speculative_tokens :: nat
  dc_block_size :: nat
  dc_max_num_seqs :: nat
  dc_sp_rank :: nat
  dc_tp_size :: nat

text \<open>The batch context in force, the predictor's cache, and the step indices of the predictor forwards entered so far.\<close>

record 'k draft_state =
  dr_bc :: batch_context
  dr_cache :: 'k
  dr_calls :: "nat list"

definition predict :: "('h, 'k) predictor \<Rightarrow> int list \<Rightarrow> int list \<Rightarrow> 'h list \<Rightarrow> nat \<Rightarrow> 'k draft_state \<Rightarrow> 'h list \<times> 'k draft_state" where
  "predict pd ids pos hidden step st =
     (case pd_forward pd (dr_bc st) (dr_cache st) ids pos hidden step of (hidden', cache') \<Rightarrow>
        (hidden', st\<lparr>dr_cache := cache', dr_calls := dr_calls st @ [step]\<rparr>))"

definition greedy_draft :: "nat \<Rightarrow> real option list list \<Rightarrow> int list" where
  "greedy_draft tp_size logits = tp_reduce (+) 0 tp_size (map (\<lambda>row. int (argmax row)) logits)"

subsection \<open>Batch contexts of the predictor\<close>

definition mtp_context :: "nat \<Rightarrow> nat \<Rightarrow> batch_context" where
  "mtp_context max_num_seqs num_seqs =
     \<lparr>bc_is_prefill = True, bc_max_bs = max_num_seqs, bc_cu_seqlens_q = Some (map int [0..<num_seqs + 1]), bc_cu_seqlens_k = Some (map int [0..<num_seqs + 1]),
      bc_max_seqlen_q = 1, bc_max_seqlen_k = 1, bc_slot_mapping = [], bc_context_lens = None, bc_block_tables = None, bc_is_dummy = False,
      bc_gdn_state_slots = None, bc_dsv4_state_slots = None, bc_dsv4_compressed_block_tables = None, bc_hisparse_slots = None,
      bc_hisparse_slot_mapping = None, bc_hisparse_num_real_reqs = None, bc_hisparse_phase_id = 0, bc_num_tokens_per_seq = 1,
      bc_sampling_token_indices = None, bc_sampling_seq_indices = None, bc_paged_attention_strategy = None, bc_decode_page_plan_key = None, bc_mtp_draft_safe = True\<rparr>"

definition set_mtp_context :: "draft_config \<Rightarrow> nat \<Rightarrow> 'k draft_state \<Rightarrow> 'k draft_state" where
  "set_mtp_context cfg num_seqs st = st\<lparr>dr_bc := mtp_context (dc_max_num_seqs cfg) num_seqs\<rparr>"

text \<open>A decode context over the source's pages with new slots and lengths.\<close>

definition paged_context :: "batch_context \<Rightarrow> int list \<Rightarrow> int list list \<Rightarrow> int list list list \<Rightarrow> nat \<Rightarrow> nat \<Rightarrow> batch_context" where
  "paged_context source slots context_lens block_tables width phase_id =
     \<lparr>bc_is_prefill = False, bc_max_bs = bc_max_bs source, bc_cu_seqlens_q = None, bc_cu_seqlens_k = None,
      bc_max_seqlen_q = 0, bc_max_seqlen_k = 0, bc_slot_mapping = slots, bc_context_lens = Some context_lens, bc_block_tables = Some block_tables, bc_is_dummy = bc_is_dummy source,
      bc_gdn_state_slots = None, bc_dsv4_state_slots = None, bc_dsv4_compressed_block_tables = None, bc_hisparse_slots = bc_hisparse_slots source,
      bc_hisparse_slot_mapping = None, bc_hisparse_num_real_reqs = bc_hisparse_num_real_reqs source, bc_hisparse_phase_id = phase_id, bc_num_tokens_per_seq = width,
      bc_sampling_token_indices = None, bc_sampling_seq_indices = None, bc_paged_attention_strategy = Some PS_FLASH_MLA, bc_decode_page_plan_key = None, bc_mtp_draft_safe = True\<rparr>"

text \<open>The slots of \<open>width\<close> positions per request from its start on.\<close>

definition line_slots :: "draft_config \<Rightarrow> int list list \<Rightarrow> int list \<Rightarrow> nat \<Rightarrow> int list list res" where
  "line_slots cfg tables starts width =
     rbind (check (dc_block_size cfg \<noteq> 0) ZeroDivisionError) (\<lambda>_.
     rbind (check (length starts \<le> length tables) (ExternalError ''gather'')) (\<lambda>_.
     mapr (\<lambda>(start, pages). mapr (\<lambda>j. page_slot (ExternalError ''gather'') (dc_block_size cfg) pages (start + int j)) [0..<width]) (zip starts tables)))"

definition set_lens :: "draft_config \<Rightarrow> int list list \<Rightarrow> int list \<Rightarrow> int list list res" where
  "set_lens cfg context_lens lens =
     rbind (py_nth context_lens (int (dc_sp_rank cfg))) (\<lambda>row.
     rbind (check (length lens \<le> length row) (ExternalError ''copy'')) (\<lambda>_.
     Inr (context_lens[dc_sp_rank cfg := lens @ drop (length lens) row])))"

definition set_cached_mtp_context :: "draft_config \<Rightarrow> batch_context \<Rightarrow> int list \<Rightarrow> nat \<Rightarrow> nat \<Rightarrow> 'k draft_state \<Rightarrow> 'k draft_state res" where
  "set_cached_mtp_context cfg source cache_lens num_seqs phase_id st =
     (case bc_block_tables source of
        None \<Rightarrow> Inl (RuntimeErr ''cached GLM MTP requires paged block tables'')
      | Some block_tables \<Rightarrow>
          rbind (py_nth block_tables (int (dc_sp_rank cfg))) (\<lambda>tables.
          rbind (line_slots cfg (take num_seqs tables) (map (\<lambda>l. l - 1) (take num_seqs cache_lens)) 1) (\<lambda>slots.
          rbind (set_lens cfg (case bc_context_lens source of Some cl \<Rightarrow> cl
                               | None \<Rightarrow> replicate (length block_tables) (replicate (dc_max_num_seqs cfg) 0)) (take num_seqs cache_lens)) (\<lambda>context_lens.
          Inr (st\<lparr>dr_bc := paged_context source (concat slots) context_lens block_tables 1 phase_id\<rparr>)))))"

subsection \<open>Recurrent drafting\<close>

definition draft_once :: "('h, 'k) predictor \<Rightarrow> draft_config \<Rightarrow> int list \<Rightarrow> int list \<Rightarrow> 'h list \<Rightarrow> nat \<Rightarrow> 'k draft_state \<Rightarrow> int list \<times> 'h list \<times> 'k draft_state" where
  "draft_once pd cfg ids pos hidden step st =
     (case predict pd ids pos hidden step st of (hidden', st') \<Rightarrow>
        (greedy_draft (dc_tp_size cfg) (map (\<lambda>h. pd_logits pd h step) hidden'), hidden', st'))"

fun continue_cached_mtp_drafts ::
  "('h, 'k) predictor \<Rightarrow> draft_config \<Rightarrow> batch_context \<Rightarrow> nat \<Rightarrow> nat \<Rightarrow> nat \<Rightarrow> int list \<Rightarrow> int list \<Rightarrow> int list \<Rightarrow> 'h list \<Rightarrow> 'k draft_state \<Rightarrow> (int list list \<times> 'k draft_state) res" where
  "continue_cached_mtp_drafts pd cfg source num_seqs 0 step cache_lens ids pos hidden st = Inr ([], st)"
| "continue_cached_mtp_drafts pd cfg source num_seqs (Suc k) step cache_lens ids pos hidden st =
     (let cache_lens' = map (\<lambda>l. l + 1) cache_lens
      in rbind (set_cached_mtp_context cfg source cache_lens' num_seqs (step + 1) st) (\<lambda>st1.
         (case draft_once pd cfg ids pos hidden step st1 of (draft, hidden', st2) \<Rightarrow>
            rbind (continue_cached_mtp_drafts pd cfg source num_seqs k (Suc step) cache_lens' draft (map (\<lambda>p. p + 1) pos) hidden' st2) (\<lambda>(drafts, st3).
            Inr (draft # drafts, st3)))))"

definition generate_cached_mtp_drafts ::
  "('h, 'k) predictor \<Rightarrow> draft_config \<Rightarrow> batch_context \<Rightarrow> nat \<Rightarrow> int list \<Rightarrow> int list \<Rightarrow> int list \<Rightarrow> 'h list \<Rightarrow> 'k draft_state \<Rightarrow> (int list list \<times> 'k draft_state) res" where
  "generate_cached_mtp_drafts pd cfg source num_seqs initial_cache_lens ids pos hidden st =
     continue_cached_mtp_drafts pd cfg source num_seqs (dc_num_speculative_tokens cfg) 0 initial_cache_lens ids pos hidden st"

fun generate_mtp_drafts ::
  "('h, 'k) predictor \<Rightarrow> draft_config \<Rightarrow> nat \<Rightarrow> nat \<Rightarrow> nat \<Rightarrow> int list \<Rightarrow> int list \<Rightarrow> 'h list \<Rightarrow> 'k draft_state \<Rightarrow> int list list \<times> 'k draft_state" where
  "generate_mtp_drafts pd cfg num_seqs 0 step ids pos hidden st = ([], st)"
| "generate_mtp_drafts pd cfg num_seqs (Suc k) step ids pos hidden st =
     (case draft_once pd cfg ids pos hidden step (set_mtp_context cfg num_seqs st) of (draft, hidden', st1) \<Rightarrow>
      case generate_mtp_drafts pd cfg num_seqs k (Suc step) draft (map (\<lambda>p. p + 1) pos) hidden' st1 of (drafts, st2) \<Rightarrow> (draft # drafts, st2))"

text \<open>\<open>num_seqs\<close> rows, cut or filled up with zeros (ones for positions).\<close>

definition pad_to :: "nat \<Rightarrow> 'a \<Rightarrow> 'a list \<Rightarrow> 'a list" where
  "pad_to n z xs = take n xs @ replicate (n - length xs) z"

definition run_uncached_collective_padding ::
  "('h, 'k) predictor \<Rightarrow> draft_config \<Rightarrow> int list \<Rightarrow> int list \<Rightarrow> 'h list option \<Rightarrow> nat \<Rightarrow> 'k draft_state \<Rightarrow> 'k draft_state" where
  "run_uncached_collective_padding pd cfg input_ids positions hidden_states num_seqs st =
     (let n = max 1 num_seqs;
          ids = pad_to n 0 input_ids; pos = pad_to n 1 (map (\<lambda>p. p + 1) positions);
          hidden = pad_to n (pd_zero pd) (case hidden_states of None \<Rightarrow> [] | Some hs \<Rightarrow> hs)
      in snd (generate_mtp_drafts pd cfg n (dc_num_speculative_tokens cfg) 0 ids pos hidden st))"

text \<open>
  The refresh: every request replays its accepted drafts and the new token (the new token again behind them) over the
  positions of the verified line with the target's hidden states; the row of the new token gives the first draft.
\<close>

definition refresh_row :: "nat \<Rightarrow> int list \<Rightarrow> nat \<Rightarrow> int \<Rightarrow> int list" where
  "refresh_row width drafts accepted token = map (\<lambda>j. if j < accepted then (drafts @ [token]) ! j else token) [0..<width]"

definition refresh_and_generate_cached_mtp_drafts ::
  "('h, 'k) predictor \<Rightarrow> draft_config \<Rightarrow> mtp_runner \<Rightarrow> batch_context \<Rightarrow> nat \<Rightarrow> int list \<Rightarrow> int list list \<Rightarrow> 'h list \<Rightarrow> int list \<Rightarrow> nat list \<Rightarrow> 'k draft_state
   \<Rightarrow> (int list list \<times> 'k draft_state) res" where
  "refresh_and_generate_cached_mtp_drafts pd cfg mp source num_seqs sampled_ids verify_positions verify_hidden target_lens num_accepted st =
     (case (mp_selected_prev_drafts mp, bc_block_tables source, bc_context_lens source) of
        (None, _, _) \<Rightarrow> Inl (RuntimeErr ''MTP cache refresh requires aligned verified drafts'')
      | (_, None, _) \<Rightarrow> Inl (RuntimeErr ''MTP cache refresh requires paged block tables'')
      | (_, _, None) \<Rightarrow> Inl AttributeError
      | (Some selected, Some block_tables, Some context_lens) \<Rightarrow>
          (let width = verify_width mp;
               prefix_lens = map (\<lambda>(l, a). l - (int a + 1)) (zip target_lens num_accepted);
               refresh_ids = map (\<lambda>(ds, a, t). refresh_row width ds a t) (zip (take num_seqs (mat_rows selected)) (zip num_accepted (take num_seqs sampled_ids)));
               refresh_positions = map (map (\<lambda>p. p + 1)) verify_positions
           in rbind (py_nth block_tables (int (dc_sp_rank cfg))) (\<lambda>tables.
              rbind (line_slots cfg (take num_seqs tables) prefix_lens width) (\<lambda>slots.
              rbind (set_lens cfg context_lens (map (\<lambda>l. l + int width) prefix_lens)) (\<lambda>refresh_lens.
              (case predict pd (concat refresh_ids) (concat refresh_positions) verify_hidden 0
                      (st\<lparr>dr_bc := paged_context source (concat slots) refresh_lens block_tables width width\<rparr>) of (refreshed_hidden, st1) \<Rightarrow>
                 rbind (mapr (\<lambda>(s, a). py_nth refreshed_hidden (int (s * width + a))) (zip [0..<num_seqs] num_accepted)) (\<lambda>last_hidden.
                 rbind (mapr (\<lambda>(ps, a). py_nth ps (int a)) (zip refresh_positions num_accepted)) (\<lambda>last_positions.
                 (let first_draft = greedy_draft (dc_tp_size cfg) (map (\<lambda>h. pd_logits pd h 0) last_hidden)
                  in rbind (continue_cached_mtp_drafts pd cfg source num_seqs (dc_num_speculative_tokens cfg - 1) 1 target_lens first_draft
                              (map (\<lambda>p. p + 1) last_positions) last_hidden st1) (\<lambda>(drafts, st2).
                     Inr (first_draft # drafts, st2))))))))))) "

subsection \<open>Drafts for the next decode step\<close>

definition mat_of_columns :: "nat \<Rightarrow> int list list \<Rightarrow> int mat" where
  "mat_of_columns num_seqs cols = \<lparr>mat_width = length cols, mat_rows = map (\<lambda>i. map (\<lambda>c. c ! i) cols) [0..<num_seqs]\<rparr>"

text \<open>\<open>torch.stack(drafts, dim=1)\<close> needs drafts of one length; the number of rows is that of the first.\<close>

definition stack_drafts :: "int list list \<Rightarrow> int mat res" where
  "stack_drafts drafts =
     (case drafts of [] \<Rightarrow> Inl (RuntimeErr ''stack'')
      | d # ds \<Rightarrow> if list_all (\<lambda>c. length c = length d) ds then Inr (mat_of_columns (length d) drafts) else Inl (RuntimeErr ''stack''))"

definition forget_drafts :: "mtp_runner \<Rightarrow> mtp_runner" where
  "forget_drafts mp = mp\<lparr>mp_prev_seq_ids := None, mp_prev_drafts := None, mp_selected_prev_drafts := None\<rparr>"

definition store_drafts :: "int list \<Rightarrow> int mat \<Rightarrow> mtp_runner \<Rightarrow> mtp_runner" where
  "store_drafts seq_ids drafts mp = mp\<lparr>mp_prev_seq_ids := Some seq_ids, mp_prev_drafts := Some drafts, mp_selected_prev_drafts := None\<rparr>"

text \<open>The rows the predictor starts from: with verified drafts, those of the last accepted position of every request.\<close>

definition verified_rows :: "mtp_runner \<Rightarrow> 'h list \<Rightarrow> int list \<Rightarrow> nat \<Rightarrow> nat list option \<Rightarrow> (int list list \<times> 'h list \<times> int list) res" where
  "verified_rows mp last_hidden positions num_seqs verified =
     (case verified of
        None \<Rightarrow> Inr ([], last_hidden, positions)
      | Some accepted \<Rightarrow>
          rbind (reshape2 num_seqs (verify_width mp) last_hidden) (\<lambda>verify_hidden.
          rbind (reshape2 num_seqs (verify_width mp) positions) (\<lambda>verify_positions.
          rbind (mapr (\<lambda>(hs, a). py_nth hs (int a)) (zip verify_hidden accepted)) (\<lambda>mtp_hidden.
          rbind (mapr (\<lambda>(ps, a). rbind (py_nth ps 0) (\<lambda>p. Inr (p + int a))) (zip verify_positions accepted)) (\<lambda>mtp_positions.
          Inr (verify_positions, mtp_hidden, mtp_positions))))))"

definition next_drafts ::
  "('h, 'k) predictor \<Rightarrow> draft_config \<Rightarrow> mtp_runner \<Rightarrow> 'h list \<Rightarrow> int list \<Rightarrow> nat \<Rightarrow> nat list option \<Rightarrow> int list list \<times> 'h list \<times> int list \<Rightarrow> 'k draft_state \<Rightarrow> (int list list \<times> 'k draft_state) res" where
  "next_drafts pd cfg mp last_hidden input_ids num_seqs verified = (\<lambda>(verify_positions, mtp_hidden, mtp_positions) st.
     (let bc = dr_bc st; n = dc_num_speculative_tokens cfg
      in if 1 < n
         then (case bc_context_lens bc of
                 None \<Rightarrow> Inl TypeError
               | Some context_lens \<Rightarrow>
                   rbind (py_nth context_lens (int (dc_sp_rank cfg))) (\<lambda>row.
                   (let target_lens = take num_seqs row
                    in case verified of
                         Some accepted \<Rightarrow> refresh_and_generate_cached_mtp_drafts pd cfg mp bc num_seqs input_ids verify_positions last_hidden target_lens accepted st
                       | None \<Rightarrow> generate_cached_mtp_drafts pd cfg bc num_seqs (map (\<lambda>l. l - 1) target_lens) input_ids (map (\<lambda>p. p + 1) mtp_positions) mtp_hidden st)))
         else Inr (generate_mtp_drafts pd cfg num_seqs n 0 input_ids (map (\<lambda>p. p + 1) mtp_positions) mtp_hidden st)))"

definition generate_and_store ::
  "('h, 'k) predictor \<Rightarrow> draft_config \<Rightarrow> mtp_runner \<Rightarrow> 'h list \<Rightarrow> int list \<Rightarrow> int list \<Rightarrow> int list \<Rightarrow> nat \<Rightarrow> nat list option \<Rightarrow> 'k draft_state \<Rightarrow> (mtp_runner \<times> 'k draft_state) res" where
  "generate_and_store pd cfg mp last_hidden input_ids positions seq_ids num_seqs verified st =
     (if bc_is_dummy (dr_bc st)
      then Inr (reset_lazy_verify_state mp, (run_uncached_collective_padding pd cfg input_ids positions (Some last_hidden) num_seqs st)\<lparr>dr_bc := dr_bc st\<rparr>)
      else rbind (verified_rows mp last_hidden positions num_seqs verified) (\<lambda>start.
           if \<not> bc_mtp_draft_safe (dr_bc st) then Inr (forget_drafts mp, st)
           else rbind (next_drafts pd cfg mp last_hidden input_ids num_seqs verified start st) (\<lambda>(drafts, st1).
                rbind (stack_drafts drafts) (\<lambda>m. Inr (store_drafts (take num_seqs seq_ids) m mp, st1\<lparr>dr_bc := dr_bc st\<rparr>)))))"

subsection \<open>Rows of a ragged batch\<close>

definition nonempty_ragged_bounds :: "int list \<Rightarrow> nat \<Rightarrow> int list option" where
  "nonempty_ragged_bounds cu_seqlens num_seqs =
     (if length cu_seqlens < num_seqs + 1 then None
      else (let bounds = take (num_seqs + 1) cu_seqlens
            in if list_ex (\<lambda>(start, stop). stop \<le> start) (zip bounds (tl bounds)) then None else Some bounds))"

definition active_ragged_last_rows :: "int list \<Rightarrow> nat \<Rightarrow> int list" where
  "active_ragged_last_rows cu_seqlens num_seqs = map (\<lambda>c. c - 1) (take num_seqs (drop 1 cu_seqlens))"

fun cumsum :: "int \<Rightarrow> int list \<Rightarrow> int list" where
  "cumsum acc [] = []"
| "cumsum acc (x # xs) = (acc + x) # cumsum (acc + x) xs"

definition ragged_lengths :: "int list \<Rightarrow> int list" where
  "ragged_lengths cu = map (\<lambda>(a, b). b - a) (zip cu (tl cu))"

definition select_ragged_rows :: "int list \<Rightarrow> nat list \<Rightarrow> (nat list \<times> int list) res" where
  "select_ragged_rows cu_seqlens row_indices =
     (if length cu_seqlens \<le> 1 \<or> row_indices = [] then Inr ([], [0])
      else (let lengths = ragged_lengths cu_seqlens
            in rbind (check (list_all (\<lambda>l. 0 \<le> l) lengths) (RuntimeErr ''repeat_interleave'')) (\<lambda>_.
               rbind (check (list_all (\<lambda>r. r < length lengths) row_indices) IndexError) (\<lambda>_.
               (let row_ids = concat (map (\<lambda>r. replicate (nat (lengths ! r)) r) [0..<length lengths]);
                    token_indices = filter (\<lambda>t. row_ids ! t \<in> set row_indices) [0..<length row_ids]
                in Inr (token_indices, 0 # cumsum 0 (map ((!) lengths) row_indices)))))))"

definition localize_packed_topk :: "int list list \<Rightarrow> int list \<Rightarrow> int list list res" where
  "localize_packed_topk logical_indices packed_k_starts =
     (if length logical_indices \<noteq> length packed_k_starts then Inl (ValueError ''one packed K start is required per selected TopK row'')
      else Inr (map (\<lambda>(row, start). map (\<lambda>i. if 0 \<le> i then i - start else - 1) row) (zip logical_indices packed_k_starts)))"

subsection \<open>Drafts seeded by a prefill\<close>

record 'h seed_batch =
  sb_input_ids :: "int list"
  sb_positions :: "int list"
  sb_sampled_ids :: "int list"
  sb_hidden :: "'h list"
  sb_context :: batch_context
  sb_seq_ids :: "int list"
  sb_num_seqs :: nat

definition select_prefill_seed_batch ::
  "'h list option \<Rightarrow> int list \<Rightarrow> int list \<Rightarrow> int list \<Rightarrow> int list \<Rightarrow> batch_context \<Rightarrow> nat \<Rightarrow> 'h seed_batch option res" where
  "select_prefill_seed_batch last_hidden input_ids positions sampled_ids seq_ids bc num_seqs =
     (case (last_hidden, bc_cu_seqlens_q bc, bc_cu_seqlens_k bc, bc_block_tables bc) of
        (Some hidden, Some cu_q, Some cu_k, Some block_tables) \<Rightarrow>
          if length sampled_ids < num_seqs then Inr None
          else (case bc_sampling_seq_indices bc of
                  None \<Rightarrow> Inr (Some \<lparr>sb_input_ids = input_ids, sb_positions = positions, sb_sampled_ids = sampled_ids, sb_hidden = hidden, sb_context = bc,
                                     sb_seq_ids = take num_seqs seq_ids, sb_num_seqs = num_seqs\<rparr>)
                | Some idxs \<Rightarrow>
                    if idxs = [] then Inr None
                    else rbind (select_ragged_rows (take (num_seqs + 1) cu_q) idxs) (\<lambda>(tokens, compact_q).
                         if tokens = [] then Inr None
                         else rbind (select_rows (ragged_lengths (take (num_seqs + 1) cu_k)) idxs) (\<lambda>key_lengths.
                              rbind (case bc_context_lens bc of None \<Rightarrow> Inr None | Some cl \<Rightarrow> rbind (mapr (\<lambda>r. select_rows r idxs) cl) (\<lambda>c. Inr (Some c))) (\<lambda>context_lens.
                              rbind (case bc_hisparse_slots bc of None \<Rightarrow> Inr None | Some s \<Rightarrow> rbind (select_rows s idxs) (\<lambda>x. Inr (Some x))) (\<lambda>hisparse_slots.
                              rbind (select_rows (bc_slot_mapping bc) tokens) (\<lambda>slots.
                              rbind (mapr (\<lambda>t. select_rows t idxs) block_tables) (\<lambda>tables.
                              rbind (select_rows input_ids tokens) (\<lambda>ids.
                              rbind (select_rows positions tokens) (\<lambda>pos.
                              rbind (select_rows sampled_ids idxs) (\<lambda>sampled.
                              rbind (select_rows hidden tokens) (\<lambda>hs.
                              rbind (select_rows seq_ids idxs) (\<lambda>seqs.
                              Inr (Some \<lparr>sb_input_ids = ids, sb_positions = pos, sb_sampled_ids = sampled, sb_hidden = hs,
                                         sb_context = bc\<lparr>bc_cu_seqlens_q := Some compact_q, bc_cu_seqlens_k := Some (0 # cumsum 0 key_lengths), bc_slot_mapping := slots,
                                                          bc_context_lens := context_lens, bc_block_tables := Some tables, bc_hisparse_slots := hisparse_slots,
                                                          bc_sampling_token_indices := None, bc_sampling_seq_indices := None\<rparr>,
                                         sb_seq_ids = seqs, sb_num_seqs = length idxs\<rparr>)))))))))))))
      | _ \<Rightarrow> Inr None)"

text \<open>Python slices \<open>xs[a:b]\<close> for \<open>a, b\<close> of a ragged batch.\<close>

definition ragged_slice :: "'a list \<Rightarrow> int \<Rightarrow> int \<Rightarrow> 'a list" where
  "ragged_slice xs a b = take (nat b - nat a) (drop (nat a) xs)"

definition shifted_ids :: "int list \<Rightarrow> int list \<Rightarrow> int list \<Rightarrow> nat \<Rightarrow> int list" where
  "shifted_ids cu_q input_ids sampled_ids num_seqs =
     concat (map (\<lambda>s. ragged_slice input_ids (cu_q ! s + 1) (cu_q ! Suc s) @ take 1 (drop s sampled_ids)) [0..<num_seqs])"

definition seed_context :: "batch_context \<Rightarrow> nat \<Rightarrow> batch_context" where
  "seed_context bc num_seqs =
     (mtp_context (bc_max_bs bc) 0)\<lparr>bc_cu_seqlens_q := map_option (take (num_seqs + 1)) (bc_cu_seqlens_q bc), bc_cu_seqlens_k := map_option (take (num_seqs + 1)) (bc_cu_seqlens_k bc),
        bc_max_seqlen_q := bc_max_seqlen_q bc, bc_max_seqlen_k := bc_max_seqlen_k bc, bc_slot_mapping := bc_slot_mapping bc, bc_block_tables := bc_block_tables bc,
        bc_is_dummy := bc_is_dummy bc, bc_paged_attention_strategy := bc_paged_attention_strategy bc\<rparr>"

definition seed_drafts :: "('h, 'k) predictor \<Rightarrow> draft_config \<Rightarrow> 'h seed_batch \<Rightarrow> int list \<Rightarrow> int list \<Rightarrow> 'k draft_state \<Rightarrow> (int list list \<times> 'k draft_state) res" where
  "seed_drafts pd cfg sb cu_q cu_k st =
     (let n = sb_num_seqs sb; positions = map (\<lambda>p. p + 1) (sb_positions sb)
      in case predict pd (shifted_ids cu_q (sb_input_ids sb) (sb_sampled_ids sb) n) positions (sb_hidden sb) 0 (st\<lparr>dr_bc := seed_context (sb_context sb) n\<rparr>) of (mtp_hidden, st1) \<Rightarrow>
         rbind (mapr (py_nth mtp_hidden) (active_ragged_last_rows cu_q n)) (\<lambda>last_hidden.
         rbind (mapr (py_nth positions) (active_ragged_last_rows cu_q n)) (\<lambda>last_positions.
         (let first_draft = greedy_draft (dc_tp_size cfg) (map (\<lambda>h. pd_logits pd h 0) last_hidden)
          in rbind (continue_cached_mtp_drafts pd cfg (sb_context sb) n (dc_num_speculative_tokens cfg - 1) 1 (ragged_lengths (take (n + 1) cu_k)) first_draft
                      (map (\<lambda>p. p + 1) last_positions) last_hidden st1) (\<lambda>(drafts, st2).
             Inr (first_draft # drafts, st2))))))"

definition generate_prefill_and_store ::
  "('h, 'k) predictor \<Rightarrow> draft_config \<Rightarrow> mtp_runner \<Rightarrow> 'h list option \<Rightarrow> int list \<Rightarrow> int list \<Rightarrow> int list \<Rightarrow> int list \<Rightarrow> nat \<Rightarrow> 'k draft_state \<Rightarrow> (mtp_runner \<times> 'k draft_state) res" where
  "generate_prefill_and_store pd cfg mp last_hidden input_ids positions sampled_ids seq_ids num_seqs st =
     (if dc_num_speculative_tokens cfg = 1 then Inr (reset_lazy_verify_state mp, st)
      else (let bc = dr_bc st
            in rbind (select_prefill_seed_batch last_hidden input_ids positions sampled_ids seq_ids bc num_seqs) (\<lambda>seed.
               (case seed of
                  None \<Rightarrow> Inr (reset_lazy_verify_state mp, (run_uncached_collective_padding pd cfg input_ids positions last_hidden num_seqs st)\<lparr>dr_bc := bc\<rparr>)
                | Some sb \<Rightarrow>
                    (case (bc_cu_seqlens_q (sb_context sb), bc_cu_seqlens_k (sb_context sb)) of
                       (Some cu_q, Some cu_k) \<Rightarrow>
                         if nonempty_ragged_bounds cu_q (sb_num_seqs sb) = None
                         then Inr (reset_lazy_verify_state mp, (run_uncached_collective_padding pd cfg (sb_input_ids sb) (sb_positions sb) last_hidden (sb_num_seqs sb) st)\<lparr>dr_bc := bc\<rparr>)
                         else rbind (seed_drafts pd cfg sb cu_q cu_k st) (\<lambda>(drafts, st1).
                              rbind (stack_drafts drafts) (\<lambda>m. Inr (store_drafts (sb_seq_ids sb) m mp, st1\<lparr>dr_bc := bc\<rparr>)))
                     | _ \<Rightarrow> Inl TypeError)))))"

subsection \<open>Predictor forwards\<close>

lemma predict_calls [simp]: "dr_calls (snd (predict pd ids pos hidden step st)) = dr_calls st @ [step]"
  by (simp add: predict_def split: prod.split)

lemma draft_once_calls [simp]: "dr_calls (snd (snd (draft_once pd cfg ids pos hidden step st))) = dr_calls st @ [step]"
  by (simp add: draft_once_def case_prod_beta)

lemma set_cached_calls: "set_cached_mtp_context cfg source lens n phase st = Inr st' \<Longrightarrow> dr_calls st' = dr_calls st"
  by (auto simp: set_cached_mtp_context_def res_simps split: option.splits)

lemma continue_calls:
  "continue_cached_mtp_drafts pd cfg source n k step lens ids pos hidden st = Inr (drafts, st') \<Longrightarrow> dr_calls st' = dr_calls st @ [step..<step + k] \<and> length drafts = k"
proof (induction k arbitrary: step lens ids pos hidden st drafts)
  case (Suc k)
  obtain st1 ds where st1: "set_cached_mtp_context cfg source (map (\<lambda>l. l + 1) lens) n (step + 1) st = Inr st1"
    and rest: "continue_cached_mtp_drafts pd cfg source n k (Suc step) (map (\<lambda>l. l + 1) lens) (fst (draft_once pd cfg ids pos hidden step st1)) (map (\<lambda>p. p + 1) pos)
      (fst (snd (draft_once pd cfg ids pos hidden step st1))) (snd (snd (draft_once pd cfg ids pos hidden step st1))) = Inr (ds, st')"
    and "drafts = fst (draft_once pd cfg ids pos hidden step st1) # ds"
    using Suc.prems by (auto simp: res_simps Let_def case_prod_beta)
  then show ?case using Suc.IH [OF rest] set_cached_calls [OF st1] by (simp add: upt_conv_Cons)
qed simp

lemma uncached_calls:
  "dr_calls (snd (generate_mtp_drafts pd cfg n k step ids pos hidden st)) = dr_calls st @ [step..<step + k] \<and> length (fst (generate_mtp_drafts pd cfg n k step ids pos hidden st)) = k"
  by (induction k arbitrary: step ids pos hidden st) (simp_all add: case_prod_beta upt_conv_Cons set_mtp_context_def)

lemma padding_calls: "dr_calls (run_uncached_collective_padding pd cfg ids pos hs n st) = dr_calls st @ [0..<dc_num_speculative_tokens cfg]"
  unfolding run_uncached_collective_padding_def Let_def by (simp add: uncached_calls)

lemma first_step_calls: "1 < n \<Longrightarrow> [0..<n] = 0 # [1..<1 + (n - 1)]"
  by (simp add: upt_conv_Cons)

lemma refresh_calls:
  assumes "refresh_and_generate_cached_mtp_drafts pd cfg mp source n ids vpos vhid lens acc st = Inr (drafts, st')" "1 < dc_num_speculative_tokens cfg"
  shows "dr_calls st' = dr_calls st @ [0..<dc_num_speculative_tokens cfg] \<and> length drafts = dc_num_speculative_tokens cfg"
  using assms unfolding refresh_and_generate_cached_mtp_drafts_def first_step_calls [OF assms(2)]
  by (auto simp: res_simps Let_def case_prod_beta split: option.splits dest!: continue_calls)

lemma seed_calls:
  assumes "seed_drafts pd cfg sb cu_q cu_k st = Inr (drafts, st')" "1 < dc_num_speculative_tokens cfg"
  shows "dr_calls st' = dr_calls st @ [0..<dc_num_speculative_tokens cfg] \<and> length drafts = dc_num_speculative_tokens cfg"
  using assms unfolding seed_drafts_def first_step_calls [OF assms(2)]
  by (auto simp: res_simps Let_def case_prod_beta dest!: continue_calls)

lemma next_drafts_calls:
  "next_drafts pd cfg mp lh ids n verified start st = Inr (drafts, st') \<Longrightarrow> dr_calls st' = dr_calls st @ [0..<dc_num_speculative_tokens cfg] \<and> length drafts = dc_num_speculative_tokens cfg"
proof -
  assume run: "next_drafts pd cfg mp lh ids n verified start st = Inr (drafts, st')"
  obtain vp mh mpos where start: "start = (vp, mh, mpos)" by (cases start)
  show ?thesis
  proof (cases "1 < dc_num_speculative_tokens cfg")
    case big: True
    show ?thesis
    proof (cases verified)
      case None
      then obtain lens where "generate_cached_mtp_drafts pd cfg (dr_bc st) n lens ids (map (\<lambda>p. p + 1) mpos) mh st = Inr (drafts, st')"
        using run big by (auto simp: next_drafts_def start Let_def res_simps split: option.splits)
      then show ?thesis using continue_calls unfolding generate_cached_mtp_drafts_def by fastforce
    next
      case (Some acc)
      then obtain lens where "refresh_and_generate_cached_mtp_drafts pd cfg mp (dr_bc st) n ids vp lh lens acc st = Inr (drafts, st')"
        using run big by (auto simp: next_drafts_def start Let_def res_simps split: option.splits)
      then show ?thesis using refresh_calls big by blast
    qed
  next
    case False
    then have "generate_mtp_drafts pd cfg n (dc_num_speculative_tokens cfg) 0 ids (map (\<lambda>p. p + 1) mpos) mh st = (drafts, st')"
      using run by (simp add: next_drafts_def start Let_def)
    then show ?thesis using uncached_calls [of pd cfg n "dc_num_speculative_tokens cfg" 0 ids "map (\<lambda>p. p + 1) mpos" mh st] by simp
  qed
qed

lemma generate_and_store_cases:
  assumes "generate_and_store pd cfg mp lh ids pos seqs n verified st = Inr (mp', st')"
  obtains (dummy) "bc_is_dummy (dr_bc st)" "mp' = reset_lazy_verify_state mp" "st' = (run_uncached_collective_padding pd cfg ids pos (Some lh) n st)\<lparr>dr_bc := dr_bc st\<rparr>"
  | (unsafe) "\<not> bc_is_dummy (dr_bc st)" "\<not> bc_mtp_draft_safe (dr_bc st)" "mp' = forget_drafts mp" "st' = st"
  | (drafted) start drafts st1 m where "bc_mtp_draft_safe (dr_bc st)" "verified_rows mp lh pos n verified = Inr start" "next_drafts pd cfg mp lh ids n verified start st = Inr (drafts, st1)"
      "stack_drafts drafts = Inr m" "mp' = store_drafts (take n seqs) m mp" "st' = st1\<lparr>dr_bc := dr_bc st\<rparr>"
proof (cases "bc_is_dummy (dr_bc st)")
  case False
  then obtain start where start: "verified_rows mp lh pos n verified = Inr start" using assms by (auto simp: generate_and_store_def res_simps)
  show ?thesis
  proof (cases "bc_mtp_draft_safe (dr_bc st)")
    case True
    then obtain drafts st1 m where "next_drafts pd cfg mp lh ids n verified start st = Inr (drafts, st1)" "stack_drafts drafts = Inr m"
      "mp' = store_drafts (take n seqs) m mp" "st' = st1\<lparr>dr_bc := dr_bc st\<rparr>"
      using assms False start by (auto simp: generate_and_store_def res_simps)
    then show ?thesis by (rule drafted [OF True start])
  next
    case safe: False
    then have "mp' = forget_drafts mp" "st' = st" using assms False start by (simp_all add: generate_and_store_def)
    then show ?thesis by (rule unsafe [OF False safe])
  qed
next
  case True
  then have "mp' = reset_lazy_verify_state mp" "st' = (run_uncached_collective_padding pd cfg ids pos (Some lh) n st)\<lparr>dr_bc := dr_bc st\<rparr>"
    using assms by (simp_all add: generate_and_store_def)
  then show ?thesis by (rule dummy [OF True])
qed

lemma prefill_cases:
  assumes "generate_prefill_and_store pd cfg mp lh ids pos sampled seqs n st = Inr (mp', st')" "dc_num_speculative_tokens cfg \<noteq> 1"
  obtains (padded) ids' pos' n' where "mp' = reset_lazy_verify_state mp" "st' = (run_uncached_collective_padding pd cfg ids' pos' lh n' st)\<lparr>dr_bc := dr_bc st\<rparr>"
  | (seeded) sb cu_q cu_k drafts st1 m where "select_prefill_seed_batch lh ids pos sampled seqs (dr_bc st) n = Inr (Some sb)" "bc_cu_seqlens_q (sb_context sb) = Some cu_q"
      "nonempty_ragged_bounds cu_q (sb_num_seqs sb) \<noteq> None" "seed_drafts pd cfg sb cu_q cu_k st = Inr (drafts, st1)" "stack_drafts drafts = Inr m"
      "mp' = store_drafts (sb_seq_ids sb) m mp" "st' = st1\<lparr>dr_bc := dr_bc st\<rparr>"
proof -
  obtain seed where seed: "select_prefill_seed_batch lh ids pos sampled seqs (dr_bc st) n = Inr seed"
    using assms by (auto simp: generate_prefill_and_store_def Let_def res_simps)
  show ?thesis
  proof (cases seed)
    case None
    then have "mp' = reset_lazy_verify_state mp" "st' = (run_uncached_collective_padding pd cfg ids pos lh n st)\<lparr>dr_bc := dr_bc st\<rparr>"
      using assms seed by (simp_all add: generate_prefill_and_store_def Let_def)
    then show ?thesis by (rule padded)
  next
    case (Some sb)
    then obtain cu_q cu_k where cu: "bc_cu_seqlens_q (sb_context sb) = Some cu_q" "bc_cu_seqlens_k (sb_context sb) = Some cu_k"
      using assms seed by (auto simp: generate_prefill_and_store_def Let_def split: option.splits)
    show ?thesis
    proof (cases "nonempty_ragged_bounds cu_q (sb_num_seqs sb) = None")
      case True
      then have "mp' = reset_lazy_verify_state mp" "st' = (run_uncached_collective_padding pd cfg (sb_input_ids sb) (sb_positions sb) lh (sb_num_seqs sb) st)\<lparr>dr_bc := dr_bc st\<rparr>"
        using assms seed Some cu by (simp_all add: generate_prefill_and_store_def Let_def)
      then show ?thesis by (rule padded)
    next
      case False
      then obtain drafts st1 m where "seed_drafts pd cfg sb cu_q cu_k st = Inr (drafts, st1)" "stack_drafts drafts = Inr m"
        "mp' = store_drafts (sb_seq_ids sb) m mp" "st' = st1\<lparr>dr_bc := dr_bc st\<rparr>"
        using assms seed Some cu by (auto simp: generate_prefill_and_store_def Let_def res_simps)
      then show ?thesis by (rule seeded [OF seed [unfolded Some] cu(1) False])
    qed
  qed
qed

text \<open>
  C29: Draft generation keeps the ranks of an expert-parallel group in lockstep, with one exception. Every rank with a dummy batch
  or a batch within the model's length enters the predictor once for each step index, in order, whichever way it drafts, and
  leaves the batch context as it found it. A rank whose real batch is near the length limit enters it not at all.
\<close>

theorem draft_collectives:
  assumes run: "generate_and_store pd cfg mp last_hidden input_ids positions seq_ids num_seqs verified st = Inr (mp', st')"
  shows "dr_calls st' = dr_calls st @ (if bc_is_dummy (dr_bc st) \<or> bc_mtp_draft_safe (dr_bc st) then [0..<dc_num_speculative_tokens cfg] else []) \<and> dr_bc st' = dr_bc st"
  using run by (cases rule: generate_and_store_cases) (auto simp: padding_calls dest: next_drafts_calls)

definition sample_predictor :: "(nat, unit) predictor" where
  "sample_predictor = \<lparr>pd_forward = (\<lambda>bc k ids pos hidden step. (map (\<lambda>_. step) ids, k)), pd_logits = (\<lambda>h step. [Some 0]), pd_zero = 0\<rparr>"

definition sample_draft_config :: draft_config where
  "sample_draft_config = \<lparr>dc_num_speculative_tokens = 2, dc_block_size = 2, dc_max_num_seqs = 3, dc_sp_rank = 0, dc_tp_size = 1\<rparr>"

definition sample_drafted :: mtp_runner where
  "sample_drafted = (mtp_runner_init 2)\<lparr>mp_prev_seq_ids := Some [3, 4], mp_prev_drafts := Some \<lparr>mat_width = 2, mat_rows = [[0, 0], [0, 0]]\<rparr>\<rparr>"

lemma sample_draft_run:
  "generate_and_store sample_predictor sample_draft_config (mtp_runner_init 2) [0, 0] [7, 8] [2, 0] [3, 4] 2 None \<lparr>dr_bc = sample_line_context, dr_cache = (), dr_calls = []\<rparr> =
   Inr (sample_drafted, \<lparr>dr_bc = sample_line_context, dr_cache = (), dr_calls = [0, 1]\<rparr>)"
  by code_simp

theorem draft_collectives_witness:
  "dr_calls \<lparr>dr_bc = sample_line_context, dr_cache = (), dr_calls = [0, 1]\<rparr> = dr_calls \<lparr>dr_bc = sample_line_context, dr_cache = (), dr_calls = []\<rparr> @
     (if bc_is_dummy (dr_bc \<lparr>dr_bc = sample_line_context, dr_cache = (), dr_calls = []\<rparr>) \<or> bc_mtp_draft_safe (dr_bc \<lparr>dr_bc = sample_line_context, dr_cache = (), dr_calls = []\<rparr>)
      then [0..<dc_num_speculative_tokens sample_draft_config] else []) \<and>
   dr_bc \<lparr>dr_bc = sample_line_context, dr_cache = (), dr_calls = [0, 1]\<rparr> = dr_bc \<lparr>dr_bc = sample_line_context, dr_cache = (), dr_calls = []\<rparr>"
  by (rule draft_collectives [OF sample_draft_run])

lemma prefill_collectives:
  assumes "generate_prefill_and_store pd cfg mp last_hidden input_ids positions sampled seq_ids num_seqs st = Inr (mp', st')" "0 < dc_num_speculative_tokens cfg"
  shows "dr_calls st' = dr_calls st @ (if dc_num_speculative_tokens cfg = 1 then [] else [0..<dc_num_speculative_tokens cfg]) \<and> dr_bc st' = dr_bc st"
proof (cases "dc_num_speculative_tokens cfg = 1")
  case False
  then have n: "1 < dc_num_speculative_tokens cfg" using assms(2) by linarith
  show ?thesis using assms(1) False by (cases rule: prefill_cases) (use n in \<open>auto simp: padding_calls dest: seed_calls\<close>)
qed (use assms in \<open>simp add: generate_prefill_and_store_def\<close>)

subsection \<open>Invariant of the predictor's state\<close>

text \<open>The drafts of a batch: one row per sequence, as wide as the configured number of drafts.\<close>

definition drafts_ok :: "mtp_runner \<Rightarrow> bool" where
  "drafts_ok mp =
     (case (mp_prev_seq_ids mp, mp_prev_drafts mp) of
        (None, None) \<Rightarrow> True
      | (Some ids, Some m) \<Rightarrow> length (mat_rows m) = length ids \<and> mat_width m = mp_num_speculative_tokens mp \<and> list_all (\<lambda>r. length r = mat_width m) (mat_rows m)
      | _ \<Rightarrow> False)"

definition predictor_ok :: "('h, 'k) predictor \<Rightarrow> bool" where
  "predictor_ok pd = (\<forall>bc k ids pos hidden step. length (fst (pd_forward pd bc k ids pos hidden step)) = length ids)"

lemma predict_rows: "predictor_ok pd \<Longrightarrow> length (fst (predict pd ids pos hidden step st)) = length ids"
  by (simp add: predict_def predictor_ok_def case_prod_beta)

lemma greedy_draft_length [simp]: "length (greedy_draft tp logits) = length logits"
  by (simp add: greedy_draft_def tp_reduce_def)

lemma draft_once_length: "predictor_ok pd \<Longrightarrow> length (fst (draft_once pd cfg ids pos hidden step st)) = length ids"
  by (simp add: draft_once_def case_prod_beta predict_rows)

lemma stack_drafts_rows: "stack_drafts drafts = Inr m \<Longrightarrow> drafts \<noteq> [] \<and> mat_width m = length drafts \<and> length (mat_rows m) = length (hd drafts) \<and> list_all (\<lambda>r. length r = mat_width m) (mat_rows m)"
  by (auto simp: stack_drafts_def mat_of_columns_def list_all_iff split: list.splits if_splits)

lemma continue_head: "predictor_ok pd \<Longrightarrow> continue_cached_mtp_drafts pd cfg source n k step lens ids pos hidden st = Inr (drafts, st') \<Longrightarrow> drafts \<noteq> [] \<Longrightarrow> length (hd drafts) = length ids"
  by (cases k) (auto simp: res_simps Let_def case_prod_beta draft_once_length)

lemma uncached_head: "predictor_ok pd \<Longrightarrow> fst (generate_mtp_drafts pd cfg n k step ids pos hidden st) \<noteq> [] \<Longrightarrow> length (hd (fst (generate_mtp_drafts pd cfg n k step ids pos hidden st))) = length ids"
  by (cases k) (auto simp: case_prod_beta draft_once_length)

lemma refresh_head:
  assumes "refresh_and_generate_cached_mtp_drafts pd cfg mp source n ids vpos vhid lens acc st = Inr (drafts, st')"
  shows "length (hd drafts) = min n (length acc)"
  using assms unfolding refresh_and_generate_cached_mtp_drafts_def
  by (auto simp: res_simps Let_def case_prod_beta split: option.splits dest!: mapr_Inr_length)

lemma seed_head:
  assumes "seed_drafts pd cfg sb cu_q cu_k st = Inr (drafts, st')"
  shows "length (hd drafts) = length (active_ragged_last_rows cu_q (sb_num_seqs sb))"
  using assms unfolding seed_drafts_def by (auto simp: res_simps Let_def case_prod_beta dest!: mapr_Inr_length)

lemma next_drafts_head:
  assumes run: "next_drafts pd cfg mp lh ids n verified start st = Inr (drafts, st')" and pd: "predictor_ok pd" and n: "length ids = n" "0 < dc_num_speculative_tokens cfg"
    and acc: "\<And>acc. verified = Some acc \<Longrightarrow> length acc = n"
  shows "length (hd drafts) = n"
proof -
  obtain vp mh mpos where start: "start = (vp, mh, mpos)" by (cases start)
  have ne: "drafts \<noteq> []" using next_drafts_calls [OF run] n(2) by auto
  show ?thesis
  proof (cases "1 < dc_num_speculative_tokens cfg")
    case big: True
    show ?thesis
    proof (cases verified)
      case None
      then obtain lens where "generate_cached_mtp_drafts pd cfg (dr_bc st) n lens ids (map (\<lambda>p. p + 1) mpos) mh st = Inr (drafts, st')"
        using run big by (auto simp: next_drafts_def start Let_def res_simps split: option.splits)
      then show ?thesis using continue_head [OF pd _ ne] n(1) unfolding generate_cached_mtp_drafts_def by blast
    next
      case (Some a)
      then obtain lens where "refresh_and_generate_cached_mtp_drafts pd cfg mp (dr_bc st) n ids vp lh lens a st = Inr (drafts, st')"
        using run big by (auto simp: next_drafts_def start Let_def res_simps split: option.splits)
      then show ?thesis using refresh_head acc [OF Some] by fastforce
    qed
  next
    case False
    then have "generate_mtp_drafts pd cfg n (dc_num_speculative_tokens cfg) 0 ids (map (\<lambda>p. p + 1) mpos) mh st = (drafts, st')"
      using run by (simp add: next_drafts_def start Let_def)
    then show ?thesis using uncached_head [OF pd, of cfg n "dc_num_speculative_tokens cfg" 0 ids "map (\<lambda>p. p + 1) mpos" mh st] ne n(1) by simp
  qed
qed

lemma seed_batch_rows:
  assumes "select_prefill_seed_batch lh ids pos sampled seqs bc n = Inr (Some sb)" "n \<le> length seqs"
  shows "length (sb_seq_ids sb) = sb_num_seqs sb"
  using assms unfolding select_prefill_seed_batch_def
  by (auto simp: res_simps case_prod_beta split: option.splits if_splits dest!: select_rows_Inr)

lemma nonempty_last_rows: "nonempty_ragged_bounds cu n \<noteq> None \<Longrightarrow> length (active_ragged_last_rows cu n) = n"
  by (auto simp: nonempty_ragged_bounds_def active_ragged_last_rows_def split: if_splits)

lemma stored_drafts_ok: "stack_drafts drafts = Inr m \<Longrightarrow> length (hd drafts) = length seqs \<Longrightarrow> length drafts = mp_num_speculative_tokens mp \<Longrightarrow> drafts_ok (store_drafts seqs m mp)"
  using stack_drafts_rows [of drafts m] by (auto simp: drafts_ok_def store_drafts_def list_all_iff)

lemma reset_drafts_ok: "drafts_ok (reset_lazy_verify_state mp)" "drafts_ok (forget_drafts mp)"
  by (simp_all add: drafts_ok_def reset_lazy_verify_state_def forget_drafts_def)

definition handoff_ok :: "handoff \<Rightarrow> bool" where
  "handoff_ok ho = (case ho_table ho of None \<Rightarrow> True | Some t \<Rightarrow> list_all (\<lambda>r. length r = mat_width t) (mat_rows t))"

lemma local_drafts_row:
  assumes "drafts_ok mp" "local_drafts mp s = Some k"
  obtains m where "mp_prev_drafts mp = Some m" "k < length (mat_rows m)" "length (mat_rows m ! k) = mp_num_speculative_tokens mp"
  using assms by (auto simp: drafts_ok_def local_drafts_def list_all_length split: option.splits if_splits dest!: index_dict_Some)

lemma restore_keeps_drafts_ok:
  assumes ok: "drafts_ok mp" "handoff_ok ho" and run: "restore_disagg_handoff mp ho ids slots n = Inr (mp', ho', b)"
  shows "drafts_ok mp' \<and> mp_num_speculative_tokens mp' = mp_num_speculative_tokens mp"
proof (cases b)
  case False
  then have "mp' = mp" using run by (auto simp: restore_disagg_handoff_def Let_def res_simps split: option.splits if_splits)
  then show ?thesis using ok(1) by simp
next
  case True
  let ?ids = "take (nat n) ids" and ?N = "mp_num_speculative_tokens mp"
  obtain table rs where table: "ho_table ho = Some table" "mat_width table = ?N + 1" and len: "length ?ids = nat n" "nat n \<le> length slots"
    and range: "\<not> list_ex (\<lambda>(_, slot). slot < 0 \<or> int (length (mat_rows table)) \<le> slot) (filter (\<lambda>(s, _). local_drafts mp s = None) (zip ?ids slots))"
    and rs: "mapr (restore_row mp table) (zip ?ids slots) = Inr rs"
    and mp': "mp' = mp\<lparr>mp_prev_seq_ids := Some ?ids, mp_selected_prev_drafts := None, mp_prev_drafts := Some \<lparr>mat_width = ?N, mat_rows = rs\<rparr>\<rparr>"
    using run True by (auto simp: restore_disagg_handoff_def Let_def res_simps split: option.splits if_splits)
  have "length r = ?N" if r: "r \<in> set rs" for r
  proof -
    obtain s slot where sl: "(s, slot) \<in> set (zip ?ids slots)" "restore_row mp table (s, slot) = Inr r" using mapr_set [OF rs r] by auto
    show ?thesis
    proof (cases "local_drafts mp s")
      case None
      then have "0 \<le> slot" "slot < int (length (mat_rows table))" using range sl(1) by (fastforce simp: list_ex_iff)+
      then have "length (mat_rows table ! nat slot) = ?N + 1" using ok(2) table by (simp add: handoff_ok_def list_all_length)
      then show ?thesis using sl(2) None by (auto simp: restore_row_def)
    next
      case (Some k)
      obtain m where "mp_prev_drafts mp = Some m" "k < length (mat_rows m)" "length (mat_rows m ! k) = ?N" by (rule local_drafts_row [OF ok(1) Some])
      then show ?thesis using sl(2) Some by (auto simp: restore_row_def)
    qed
  qed
  moreover have "length rs = length ?ids" using mapr_Inr_length [OF rs] len by simp
  ultimately show ?thesis by (simp add: mp' drafts_ok_def list_all_iff)
qed

text \<open>
  The operations of the predictor in any order. A draft step gets one sampled token and one identifier per request, and one
  accepted count when the step verified drafts; the handoff table is rectangular.
\<close>

inductive mtp_step :: "('h, 'k) predictor \<Rightarrow> draft_config \<Rightarrow> mtp_runner \<Rightarrow> mtp_runner \<Rightarrow> bool" for pd cfg where
  reset: "mtp_step pd cfg mp (reset_lazy_verify_state mp)"
| restore: "handoff_ok ho \<Longrightarrow> restore_disagg_handoff mp ho ids slots n = Inr (mp', ho', b) \<Longrightarrow> mtp_step pd cfg mp mp'"
| align: "can_lazy_verify mp bc ids n = Inr (b, mp') \<Longrightarrow> mtp_step pd cfg mp mp'"
| verify: "verify_finish tp_size sp_rank mp bc (gdn :: nat gdn) drafts want_logprobs n out = Inr (r, mp', bc', gdn') \<Longrightarrow> mtp_step pd cfg mp mp'"
| emit: "build_output_tokens mp base = Inr (outs, mp') \<Longrightarrow> mtp_step pd cfg mp mp'"
| draft: "generate_and_store pd cfg mp lh ids pos seqs n verified st = Inr (mp', st') \<Longrightarrow> length ids = n \<Longrightarrow> n \<le> length seqs \<Longrightarrow>
    (case verified of None \<Rightarrow> True | Some acc \<Rightarrow> length acc = n) \<Longrightarrow> mtp_step pd cfg mp mp'"
| seed: "generate_prefill_and_store pd cfg mp lh_opt ids pos sampled seqs n st = Inr (mp', st') \<Longrightarrow> n \<le> length seqs \<Longrightarrow> mtp_step pd cfg mp mp'"

lemma draft_keeps_ok:
  assumes run: "generate_and_store pd cfg mp lh ids pos seqs n verified st = Inr (mp', st')" and len: "length ids = n" "n \<le> length seqs"
    and acc: "case verified of None \<Rightarrow> True | Some acc \<Rightarrow> length acc = n" and pd: "predictor_ok pd" and N: "mp_num_speculative_tokens mp = dc_num_speculative_tokens cfg" "0 < dc_num_speculative_tokens cfg"
  shows "drafts_ok mp' \<and> mp_num_speculative_tokens mp' = mp_num_speculative_tokens mp"
  using run
proof (cases rule: generate_and_store_cases)
  case (drafted start drafts st1 m)
  have "length (hd drafts) = n" using next_drafts_head [OF drafted(3) pd len(1) N(2)] acc by (simp split: option.splits)
  then show ?thesis using stored_drafts_ok [OF drafted(4), of "take n seqs" mp] next_drafts_calls [OF drafted(3)] len(2) N(1) drafted(5) by (simp add: store_drafts_def)
qed (use reset_drafts_ok in \<open>auto simp: reset_lazy_verify_state_def forget_drafts_def\<close>)

lemma seed_keeps_ok:
  assumes run: "generate_prefill_and_store pd cfg mp lh ids pos sampled seqs n st = Inr (mp', st')" and len: "n \<le> length seqs"
    and N: "mp_num_speculative_tokens mp = dc_num_speculative_tokens cfg" "0 < dc_num_speculative_tokens cfg"
  shows "drafts_ok mp' \<and> mp_num_speculative_tokens mp' = mp_num_speculative_tokens mp"
proof (cases "dc_num_speculative_tokens cfg = 1")
  case True
  then show ?thesis using run reset_drafts_ok by (auto simp: generate_prefill_and_store_def reset_lazy_verify_state_def)
next
  case False
  then have big: "1 < dc_num_speculative_tokens cfg" using N(2) by linarith
  show ?thesis using run False
  proof (cases rule: prefill_cases)
    case (seeded sb cu_q cu_k drafts st1 m)
    have "length (hd drafts) = length (sb_seq_ids sb)" using seed_head [OF seeded(4)] nonempty_last_rows [OF seeded(3)] seed_batch_rows [OF seeded(1) len] by simp
    then show ?thesis using stored_drafts_ok [OF seeded(5), of "sb_seq_ids sb" mp] seed_calls [OF seeded(4) big] N(1) seeded(6) by (simp add: store_drafts_def)
  qed (use reset_drafts_ok in \<open>auto simp: reset_lazy_verify_state_def\<close>)
qed

lemma drafts_ok_frame: "mp_prev_seq_ids mp' = mp_prev_seq_ids mp \<Longrightarrow> mp_prev_drafts mp' = mp_prev_drafts mp \<Longrightarrow>
  mp_num_speculative_tokens mp' = mp_num_speculative_tokens mp \<Longrightarrow> drafts_ok mp' = drafts_ok mp"
  by (simp add: drafts_ok_def split: option.split)

lemma verify_frame: "verify_finish tp_size sp_rank mp bc gdn drafts want_logprobs n out = Inr (r, mp', bc', gdn') \<Longrightarrow>
  mp_prev_seq_ids mp' = mp_prev_seq_ids mp \<and> mp_prev_drafts mp' = mp_prev_drafts mp \<and> mp_num_speculative_tokens mp' = mp_num_speculative_tokens mp"
  by (auto simp: verify_finish_def Let_def res_simps)

lemma mtp_step_ok:
  assumes "mtp_step pd cfg mp mp'" "drafts_ok mp" "predictor_ok pd" "mp_num_speculative_tokens mp = dc_num_speculative_tokens cfg" "0 < dc_num_speculative_tokens cfg"
  shows "drafts_ok mp' \<and> mp_num_speculative_tokens mp' = mp_num_speculative_tokens mp"
  using assms
proof (induction rule: mtp_step.induct)
  case (restore ho mp ids slots n mp' ho' b)
  then show ?case using restore_keeps_drafts_ok by blast
next
  case (align mp bc ids n b mp')
  then show ?case by (auto simp: can_lazy_verify_def Let_def res_simps drafts_ok_def split: option.splits if_splits)
next
  case (verify tp_size sp_rank mp bc gdn drafts want_logprobs n out r mp' bc' gdn')
  then show ?case using verify_frame [OF verify(1)] drafts_ok_frame [of mp' mp] by simp
next
  case (emit mp base outs mp')
  then show ?case by (auto simp: build_output_tokens_def res_simps drafts_ok_def split: option.splits)
next
  case (draft mp lh ids pos seqs n verified st mp' st')
  then show ?case using draft_keeps_ok by blast
next
  case (seed mp lh_opt ids pos sampled seqs n st mp' st')
  then show ?case using seed_keeps_ok by blast
qed (use reset_drafts_ok in \<open>simp add: reset_lazy_verify_state_def\<close>)

text \<open>The drafts stored for a sequence.\<close>

definition drafts_of :: "mtp_runner \<Rightarrow> int \<Rightarrow> int list option" where
  "drafts_of mp s =
     (case (mp_prev_seq_ids mp, mp_prev_drafts mp) of (Some ids, Some m) \<Rightarrow> map_option ((!) (mat_rows m)) (index_dict ids s) | _ \<Rightarrow> None)"

lemma align_total:
  assumes ok: "drafts_ok mp"
  shows "\<exists>b mp'. can_lazy_verify mp bc ids n = Inr (b, mp') \<and>
    (b \<longrightarrow> mp_selected_prev_drafts mp' = Some \<lparr>mat_width = mp_num_speculative_tokens mp, mat_rows = map (\<lambda>s. the (drafts_of mp s)) (take n ids)\<rparr> \<and> list_all (\<lambda>s. drafts_of mp s \<noteq> None) (take n ids))"
proof (cases "mp_prev_seq_ids mp")
  case (Some prev)
  then obtain m where m: "mp_prev_drafts mp = Some m" "length (mat_rows m) = length prev" "mat_width m = mp_num_speculative_tokens mp"
    using ok by (auto simp: drafts_ok_def split: option.splits)
  have sel: "select_rows (mat_rows m) (map the (map (index_dict prev) (take n ids))) = Inr (map (\<lambda>s. the (drafts_of mp s)) (take n ids)) \<and> list_all (\<lambda>s. drafts_of mp s \<noteq> None) (take n ids)"
    if none: "None \<notin> set (map (index_dict prev) (take n ids))"
  proof -
    have k: "index_dict prev s = Some (the (index_dict prev s)) \<and> the (index_dict prev s) < length (mat_rows m)" if "s \<in> set (take n ids)" for s
      using none that index_dict_Some [of prev s] m(2) by (cases "index_dict prev s") force+
    have "select_rows (mat_rows m) (map the (map (index_dict prev) (take n ids))) = Inr (map ((!) (mat_rows m)) (map the (map (index_dict prev) (take n ids))))"
      by (rule select_rows_total) (use k in auto)
    moreover have "drafts_of mp s = Some (mat_rows m ! the (index_dict prev s))" if "s \<in> set (take n ids)" for s
      using k [OF that] Some m(1) unfolding drafts_of_def by (metis option.simps(5,9) prod.case)
    ultimately show ?thesis by (simp add: list_all_iff)
  qed
  show ?thesis
  proof (cases "length ids < n \<or> None \<in> set (map (index_dict prev) (take n ids)) \<or> \<not> bc_mtp_draft_safe bc")
    case True
    then have "can_lazy_verify mp bc ids n = Inr (False, mp)" using Some m(1) by (auto simp: can_lazy_verify_def)
    then show ?thesis by blast
  next
    case False
    then have "can_lazy_verify mp bc ids n = Inr (True, mp\<lparr>mp_selected_prev_drafts := Some \<lparr>mat_width = mat_width m, mat_rows = map (\<lambda>s. the (drafts_of mp s)) (take n ids)\<rparr>\<rparr>)"
      using Some m(1) sel unfolding can_lazy_verify_def Let_def by simp
    then show ?thesis using sel False m(3) by auto
  qed
qed (auto simp: can_lazy_verify_def)

text \<open>
  C30: The state of the predictor is consistent after any sequence of its operations: the stored identifiers and drafts are
  both absent, or there is one row of the configured width per identifier. Aligning the drafts with a batch therefore never
  fails, and when it succeeds it gives every request of the batch the drafts stored for that very sequence.
\<close>

theorem mtp_state_consistent:
  assumes "(mtp_step pd cfg)\<^sup>*\<^sup>* (mtp_runner_init (dc_num_speculative_tokens cfg)) mp" "predictor_ok pd" "0 < dc_num_speculative_tokens cfg"
  shows "drafts_ok mp \<and> mp_num_speculative_tokens mp = dc_num_speculative_tokens cfg \<and>
    (\<exists>b mp'. can_lazy_verify mp bc ids n = Inr (b, mp') \<and>
      (b \<longrightarrow> mp_selected_prev_drafts mp' = Some \<lparr>mat_width = mp_num_speculative_tokens mp, mat_rows = map (\<lambda>s. the (drafts_of mp s)) (take n ids)\<rparr> \<and> list_all (\<lambda>s. drafts_of mp s \<noteq> None) (take n ids)))"
proof -
  have "drafts_ok mp \<and> mp_num_speculative_tokens mp = dc_num_speculative_tokens cfg"
    using assms
  proof (induction rule: rtranclp_induct)
    case base
    then show ?case by (simp add: drafts_ok_def mtp_runner_init_def)
  next
    case (step y z)
    then show ?case using mtp_step_ok [of pd cfg y z] by simp
  qed
  then show ?thesis using align_total by blast
qed

theorem mtp_state_consistent_witness:
  "drafts_ok sample_drafted \<and> mp_num_speculative_tokens sample_drafted = dc_num_speculative_tokens sample_draft_config \<and>
    (\<exists>b mp'. can_lazy_verify sample_drafted sample_line_context [4, 3] 2 = Inr (b, mp') \<and>
      (b \<longrightarrow> mp_selected_prev_drafts mp' = Some \<lparr>mat_width = mp_num_speculative_tokens sample_drafted, mat_rows = map (\<lambda>s. the (drafts_of sample_drafted s)) (take 2 [4, 3])\<rparr> \<and>
        list_all (\<lambda>s. drafts_of sample_drafted s \<noteq> None) (take 2 [4, 3])))"
proof (rule mtp_state_consistent [of sample_predictor])
  have "mtp_step sample_predictor sample_draft_config (mtp_runner_init 2) sample_drafted" by (rule mtp_step.draft [OF sample_draft_run]) simp_all
  then show "(mtp_step sample_predictor sample_draft_config)\<^sup>*\<^sup>* (mtp_runner_init (dc_num_speculative_tokens sample_draft_config)) sample_drafted"
    by (simp add: sample_draft_config_def r_into_rtranclp)
qed (simp_all add: predictor_ok_def sample_predictor_def sample_draft_config_def)

subsection \<open>Tokens of the seeded rows\<close>

lemma cumsum_length [simp]: "length (cumsum acc xs) = length xs"
  by (induction xs arbitrary: acc) auto

lemma cumsum_nth: "s < length xs \<Longrightarrow> cumsum acc xs ! s = acc + sum_list (take (Suc s) xs)"
  by (induction xs arbitrary: acc s) (auto simp: nth_Cons split: nat.split)

lemma cu_nth: "s \<le> length segs \<Longrightarrow> (0 # cumsum 0 (map (\<lambda>x. int (length x)) segs)) ! s = int (length (concat (take s segs)))"
  by (cases s) (simp_all add: cumsum_nth take_map length_concat o_def sum_list_of_nat flip: sum_list_of_nat)

lemma concat_split: "s < length segs \<Longrightarrow> concat segs = concat (take s segs) @ segs ! s @ concat (drop (Suc s) segs)"
  by (metis append_take_drop_id concat.simps(2) concat_append Cons_nth_drop_Suc)

lemma concat_segment: "s < length segs \<Longrightarrow> take (length (segs ! s)) (drop (length (concat (take s segs))) (concat segs)) = segs ! s"
  using concat_split [of s segs] by simp

text \<open>The shift of a packed batch: every segment loses its first token and gains the sampled one.\<close>

lemma shifted_segments:
  assumes "length segs = n" "n \<le> length sampled" "\<And>x. x \<in> set segs \<Longrightarrow> x \<noteq> []"
  shows "shifted_ids (0 # cumsum 0 (map (\<lambda>x. int (length x)) segs)) (concat segs) sampled n = concat (map (\<lambda>s. tl (segs ! s) @ [sampled ! s]) [0..<n])"
proof -
  let ?cu = "0 # cumsum 0 (map (\<lambda>x. int (length x)) segs)"
  have "ragged_slice (concat segs) (?cu ! s + 1) (?cu ! Suc s) @ take 1 (drop s sampled) = tl (segs ! s) @ [sampled ! s]" if s: "s < n" for s
  proof -
    let ?a = "length (concat (take s segs))"
    have cu: "?cu ! s = int ?a" "?cu ! Suc s = int (?a + length (segs ! s))"
      using cu_nth [of s segs] cu_nth [of "Suc s" segs] s assms(1) by (simp_all add: take_Suc_conv_app_nth)
    have "ragged_slice (concat segs) (?cu ! s + 1) (?cu ! Suc s) = take (length (segs ! s) - 1) (drop (Suc ?a) (concat segs))"
      unfolding cu ragged_slice_def by (simp add: nat_add_distrib)
    also have "\<dots> = tl (take (length (segs ! s)) (drop ?a (concat segs)))" by (simp add: tl_take tl_drop drop_Suc)
    also have "\<dots> = tl (segs ! s)" using concat_segment [of s segs] s assms(1) by simp
    finally show ?thesis using s assms(2) by (simp add: take_Suc hd_drop_conv_nth)
  qed
  then show ?thesis unfolding shifted_ids_def by (intro arg_cong [of _ _ concat] map_cong refl) simp
qed

definition seg_start :: "'a list list \<Rightarrow> nat \<Rightarrow> nat" where
  "seg_start segs r = length (concat (take r segs))"

lemma seg_start_Suc: "r < length segs \<Longrightarrow> seg_start segs (Suc r) = seg_start segs r + length (segs ! r)"
  by (simp add: seg_start_def take_Suc_conv_app_nth)

lemma ragged_lengths_cu: "ragged_lengths (0 # cumsum 0 (map (\<lambda>x. int (length x)) segs)) = map (\<lambda>x. int (length x)) segs"
proof (rule nth_equalityI)
  fix i assume "i < length (ragged_lengths (0 # cumsum 0 (map (\<lambda>x. int (length x)) segs)))"
  then have i: "i < length segs" by (simp add: ragged_lengths_def)
  then show "ragged_lengths (0 # cumsum 0 (map (\<lambda>x. int (length x)) segs)) ! i = map (\<lambda>x. int (length x)) segs ! i"
    using cu_nth [of i segs] cu_nth [of "Suc i" segs] by (simp add: ragged_lengths_def take_Suc_conv_app_nth)
qed (simp add: ragged_lengths_def)

lemma row_tokens:
  assumes "B \<le> length segs"
  shows "length (concat (map (\<lambda>r. replicate (length (segs ! r)) r) [0..<B])) = seg_start segs B \<and>
    filter (\<lambda>t. concat (map (\<lambda>r. replicate (length (segs ! r)) r) [0..<B]) ! t \<in> S) [0..<seg_start segs B] =
    concat (map (\<lambda>r. [seg_start segs r..<seg_start segs (Suc r)]) (filter (\<lambda>r. r \<in> S) [0..<B]))"
  using assms
proof (induction B)
  case (Suc B)
  let ?ids = "concat (map (\<lambda>r. replicate (length (segs ! r)) r) [0..<B])" and ?st = "seg_start segs B" and ?l = "length (segs ! B)"
  have ih: "length ?ids = ?st" "filter (\<lambda>t. ?ids ! t \<in> S) [0..<?st] = concat (map (\<lambda>r. [seg_start segs r..<seg_start segs (Suc r)]) (filter (\<lambda>r. r \<in> S) [0..<B]))"
    and st: "seg_start segs (Suc B) = ?st + ?l" using Suc seg_start_Suc [of B segs] by simp_all
  have "filter (\<lambda>t. (?ids @ replicate ?l B) ! t \<in> S) [0..<?st + ?l] = filter (\<lambda>t. ?ids ! t \<in> S) [0..<?st] @ filter (\<lambda>t. B \<in> S) [?st..<?st + ?l]"
    unfolding upt_add_eq_append [of 0 ?st ?l, simplified] filter_append using ih(1) by (intro arg_cong2 [of _ _ _ _ append] filter_cong refl) (auto simp: nth_append)
  then show ?case using ih st by simp
qed (simp add: seg_start_def)

lemma select_segments:
  assumes r: "sorted_wrt (<) idxs" "\<And>i. i \<in> set idxs \<Longrightarrow> i < length segs" "idxs \<noteq> []"
  shows "select_ragged_rows (0 # cumsum 0 (map (\<lambda>x. int (length x)) segs)) idxs =
    Inr (concat (map (\<lambda>r. [seg_start segs r..<seg_start segs (Suc r)]) idxs), 0 # cumsum 0 (map (\<lambda>x. int (length x)) (map ((!) segs) idxs)))"
proof -
  have "segs \<noteq> []" using r(2) [of "hd idxs"] r(3) by auto
  moreover have "filter (\<lambda>r. r \<in> set idxs) [0..<length segs] = idxs"
    using r(1,2) by (intro sorted_distinct_set_unique) (auto simp: strict_sorted_iff sorted_wrt_filter)
  moreover have cum: "map ((!) (map (\<lambda>x. int (length x)) segs)) idxs = map ((\<lambda>x. int (length x)) \<circ> (!) segs) idxs" using r(2) by simp
  moreover have "concat (map (\<lambda>r. replicate (nat (map (\<lambda>x. int (length x)) segs ! r)) r) [0..<length segs]) = concat (map (\<lambda>r. replicate (length (segs ! r)) r) [0..<length segs])"
    by (intro arg_cong [of _ _ concat] map_cong refl) simp
  ultimately show ?thesis
    using r(2,3) row_tokens [of "length segs" segs "set idxs"] unfolding select_ragged_rows_def ragged_lengths_cu Let_def cum by (simp add: list_all_iff)
qed

lemma segment_tokens:
  assumes r: "r < length segs"
  shows "map ((!) (concat segs)) [seg_start segs r..<seg_start segs (Suc r)] = segs ! r"
  unfolding seg_start_Suc [OF r] by (subst concat_split [OF r], intro nth_equalityI) (simp_all add: seg_start_def nth_append)

text \<open>
  C35: A prefill seeds the predictor with every finished request's own tokens. For a packed batch, all of whose requests or an
  increasing selection of which is sampled, the predictor gets for each sampled request its segment without the first token and
  with the sampled token behind it, in the order of the identifiers stored with the drafts.
\<close>

theorem prefill_seed_tokens:
  assumes sel: "select_prefill_seed_batch last_hidden (concat segs) positions sampled seq_ids bc (length segs) = Inr (Some sb)"
    and cu: "bc_cu_seqlens_q bc = Some cu" "take (length segs + 1) cu = 0 # cumsum 0 (map (\<lambda>x. int (length x)) segs)"
    and idxs: "idxs = (case bc_sampling_seq_indices bc of None \<Rightarrow> [0..<length segs] | Some r \<Rightarrow> r)" "sorted_wrt (<) idxs" "list_all (\<lambda>r. r < length segs \<and> segs ! r \<noteq> []) idxs"
    and seqs: "length segs \<le> length seq_ids"
  shows "\<exists>cu'. bc_cu_seqlens_q (sb_context sb) = Some cu' \<and> sb_seq_ids sb = map ((!) seq_ids) idxs \<and>
    shifted_ids cu' (sb_input_ids sb) (sb_sampled_ids sb) (sb_num_seqs sb) = concat (map (\<lambda>r. tl (segs ! r) @ [sampled ! r]) idxs)"
proof (cases "bc_sampling_seq_indices bc")
  case None
  then have sb: "sb_context sb = bc" "sb_input_ids sb = concat segs" "sb_sampled_ids sb = sampled" "sb_num_seqs sb = length segs" "sb_seq_ids sb = take (length segs) seq_ids"
    and len: "length segs \<le> length sampled"
    using sel by (auto simp: select_prefill_seed_batch_def split: option.splits if_splits)
  have cu_s: "cu ! s = (0 # cumsum 0 (map (\<lambda>x. int (length x)) segs)) ! s" if "s \<le> length segs" for s using arg_cong [OF cu(2), of "\<lambda>l. l ! s"] that by simp
  have "shifted_ids cu (concat segs) sampled (length segs) = shifted_ids (0 # cumsum 0 (map (\<lambda>x. int (length x)) segs)) (concat segs) sampled (length segs)"
    unfolding shifted_ids_def by (intro arg_cong [of _ _ concat] map_cong refl) (simp only: set_upt atLeastLessThan_iff cu_s less_imp_le_nat Suc_leI)
  also have "\<dots> = concat (map (\<lambda>r. tl (segs ! r) @ [sampled ! r]) idxs)"
  proof -
    have "x \<noteq> []" if "x \<in> set segs" for x using that idxs(1,3) None by (auto simp: list_all_iff in_set_conv_nth)
    then show ?thesis using shifted_segments [of segs "length segs" sampled] idxs(1) None len by simp
  qed
  finally have "shifted_ids cu (concat segs) sampled (length segs) = concat (map (\<lambda>r. tl (segs ! r) @ [sampled ! r]) idxs)" .
  moreover have "take (length segs) seq_ids = map ((!) seq_ids) [0..<length segs]" using seqs by (intro nth_equalityI) simp_all
  ultimately show ?thesis using sb cu(1) idxs(1) None by simp
next
  case (Some r)
  obtain tokens compact where t: "select_ragged_rows (take (length segs + 1) cu) idxs = Inr (tokens, compact)" and ne: "idxs \<noteq> []"
    and sb: "bc_cu_seqlens_q (sb_context sb) = Some compact" "sb_num_seqs sb = length idxs"
    and ids: "select_rows (concat segs) tokens = Inr (sb_input_ids sb)" and smp: "select_rows sampled idxs = Inr (sb_sampled_ids sb)" and sid: "select_rows seq_ids idxs = Inr (sb_seq_ids sb)"
    using sel Some idxs(1) cu(1) by (auto simp: select_prefill_seed_batch_def res_simps split: option.splits if_splits)
  have lt: "i < length segs" if "i \<in> set idxs" for i using idxs(3) that by (auto simp: list_all_iff)
  have full: "x \<noteq> []" if "x \<in> set (map ((!) segs) idxs)" for x using that idxs(3) by (auto simp: list_all_iff)
  have tc: "tokens = concat (map (\<lambda>r. [seg_start segs r..<seg_start segs (Suc r)]) idxs)" "compact = 0 # cumsum 0 (map (\<lambda>x. int (length x)) (map ((!) segs) idxs))"
    using t select_segments [OF idxs(2) lt ne] unfolding cu(2) by simp_all
  have "sb_input_ids sb = concat (map (\<lambda>r. map ((!) (concat segs)) [seg_start segs r..<seg_start segs (Suc r)]) idxs)"
    using select_rows_Inr [OF ids] by (simp add: tc(1) map_concat o_def)
  also have "\<dots> = concat (map ((!) segs) idxs)" using segment_tokens lt by (intro arg_cong [of _ _ concat] map_cong refl) blast
  finally have "shifted_ids compact (sb_input_ids sb) (sb_sampled_ids sb) (length idxs) = concat (map (\<lambda>s. tl (map ((!) segs) idxs ! s) @ [map ((!) sampled) idxs ! s]) [0..<length idxs])"
    using shifted_segments [of "map ((!) segs) idxs" "length idxs" "sb_sampled_ids sb", OF _ _ full] select_rows_Inr [OF smp] by (simp add: tc(2))
  also have "\<dots> = concat (map (\<lambda>r. tl (segs ! r) @ [sampled ! r]) idxs)" by (intro arg_cong [of _ _ concat] nth_equalityI) simp_all
  finally show ?thesis using sb select_rows_Inr [OF sid] by simp
qed

definition sample_seed_context :: batch_context where
  "sample_seed_context = sample_line_context\<lparr>bc_is_prefill := True, bc_cu_seqlens_q := Some [0, 2, 3, 5], bc_cu_seqlens_k := Some [0, 2, 3, 5], bc_slot_mapping := [0, 1, 2, 4, 5],
     bc_context_lens := None, bc_block_tables := Some [[[0], [1], [2]]], bc_sampling_token_indices := Some [1, 4], bc_sampling_seq_indices := Some [0, 2]\<rparr>"

definition sample_seed_batch :: "nat seed_batch" where
  "sample_seed_batch = \<lparr>sb_input_ids = [5, 6, 8, 9], sb_positions = [0, 1, 0, 1], sb_sampled_ids = [1, 2], sb_hidden = [10, 11, 13, 14],
     sb_context = sample_seed_context\<lparr>bc_cu_seqlens_q := Some [0, 2, 4], bc_cu_seqlens_k := Some [0, 2, 4], bc_slot_mapping := [0, 1, 4, 5], bc_block_tables := Some [[[0], [2]]],
       bc_sampling_token_indices := None, bc_sampling_seq_indices := None\<rparr>, sb_seq_ids = [3, 5], sb_num_seqs = 2\<rparr>"

theorem prefill_seed_tokens_witness:
  "\<exists>cu'. bc_cu_seqlens_q (sb_context sample_seed_batch) = Some cu' \<and> sb_seq_ids sample_seed_batch = map ((!) [3, 4, 5]) [0, 2] \<and>
    shifted_ids cu' (sb_input_ids sample_seed_batch) (sb_sampled_ids sample_seed_batch) (sb_num_seqs sample_seed_batch) =
    concat (map (\<lambda>r. tl ([[5, 6], [7], [8, 9]] ! r) @ [[1, 0, 2] ! r]) [0, 2])"
proof (rule prefill_seed_tokens)
  show "select_prefill_seed_batch (Some [10, 11, 12, 13, 14]) (concat [[5, 6], [7], [8, 9]]) [0, 1, 0, 0, 1] [1, 0, 2] [3, 4, 5] sample_seed_context (length [[5, 6], [7], [8, 9 :: int]]) =
    Inr (Some sample_seed_batch)" by code_simp
  show "bc_cu_seqlens_q sample_seed_context = Some [0, 2, 3, 5]" by code_simp
qed code_simp+

end
