(* ===== verification/Json_Value.thy ===== *)
theory Json_Value
  imports K3_Parser
begin

section \<open>JSON values as the server's Python code sees them\<close>

text \<open>
  The request bodies, tool schemas and tool arguments the server shapes are values of Python's \<open>json\<close> module. A
  dictionary keeps its insertion order, so it is an association list. Floating point numbers are of a type
  parameter: the code only asks for their truth value, their text and conversions, which are parameters, as are
  \<open>json.loads\<close> and \<open>json.dumps\<close>.
\<close>

datatype 'f json =
    JNull
  | JBool bool
  | JInt int
  | JFloat 'f
  | JStr string
  | JList "'f json list"
  | JDict "(string \<times> 'f json) list"

type_synonym 'f dict = "(string \<times> 'f json) list"

text \<open>
  What the code uses of Python's library: \<open>json.loads\<close> (\<open>None\<close> is a \<open>ValueError\<close>), \<open>json.dumps\<close> with and without
  \<open>ensure_ascii\<close>, and of floats their truth value, their text, the text of a value in a format string,
  \<open>int(f)\<close>, \<open>float(i)\<close>, \<open>float(s)\<close> and \<open>int(s)\<close>.
\<close>

record 'f py_json =
  pj_loads :: "string \<Rightarrow> 'f json option"
  pj_dumps :: "'f json \<Rightarrow> string"
  pj_dumps_utf8 :: "'f json \<Rightarrow> string"
  pj_float_true :: "'f \<Rightarrow> bool"
  pj_float_str :: "'f \<Rightarrow> string"
  pj_repr :: "'f json \<Rightarrow> string"
  pj_float_int :: "'f \<Rightarrow> int res"
  pj_int_float :: "int \<Rightarrow> 'f res"
  pj_str_float :: "string \<Rightarrow> 'f res"
  pj_str_int :: "string \<Rightarrow> int res"

text \<open>\<open>d.get(k)\<close>: a missing key and a null are both \<open>None\<close>.\<close>

definition jget :: "'f dict \<Rightarrow> string \<Rightarrow> 'f json" where
  "jget d k = (case map_of d k of None \<Rightarrow> JNull | Some v \<Rightarrow> v)"

definition truthy :: "'f py_json \<Rightarrow> 'f json \<Rightarrow> bool" where
  "truthy pj v = (case v of
     JNull \<Rightarrow> False | JBool b \<Rightarrow> b | JInt i \<Rightarrow> i \<noteq> 0 | JFloat f \<Rightarrow> pj_float_true pj f
   | JStr s \<Rightarrow> s \<noteq> [] | JList xs \<Rightarrow> xs \<noteq> [] | JDict d \<Rightarrow> d \<noteq> [])"

text \<open>\<open>isinstance(v, list)\<close>, \<open>isinstance(v, dict)\<close> and \<open>isinstance(v, str)\<close>, with the value.\<close>

definition as_list :: "'f json \<Rightarrow> 'f json list option" where
  "as_list v = (case v of JList xs \<Rightarrow> Some xs | _ \<Rightarrow> None)"

definition as_dict :: "'f json \<Rightarrow> 'f dict option" where
  "as_dict v = (case v of JDict d \<Rightarrow> Some d | _ \<Rightarrow> None)"

definition as_str :: "'f json \<Rightarrow> string option" where
  "as_str v = (case v of JStr s \<Rightarrow> Some s | _ \<Rightarrow> None)"

text \<open>\<open>a or b\<close> and \<open>s or None\<close>.\<close>

definition or_else :: "'f py_json \<Rightarrow> 'f json \<Rightarrow> 'f json \<Rightarrow> 'f json" where
  "or_else pj a b = (if truthy pj a then a else b)"

definition some_text :: "string \<Rightarrow> string option" where
  "some_text s = (if s = [] then None else Some s)"

text \<open>\<open>int(v)\<close> and \<open>float(v)\<close> of a JSON value.\<close>

definition py_int :: "'f py_json \<Rightarrow> 'f json \<Rightarrow> int res" where
  "py_int pj v = (case v of
     JBool b \<Rightarrow> Inr (if b then 1 else 0) | JInt i \<Rightarrow> Inr i | JFloat f \<Rightarrow> pj_float_int pj f | JStr s \<Rightarrow> pj_str_int pj s
   | _ \<Rightarrow> Inl TypeError)"

definition py_float :: "'f py_json \<Rightarrow> 'f json \<Rightarrow> 'f res" where
  "py_float pj v = (case v of
     JBool b \<Rightarrow> pj_int_float pj (if b then 1 else 0) | JInt i \<Rightarrow> pj_int_float pj i | JFloat f \<Rightarrow> Inr f
   | JStr s \<Rightarrow> pj_str_float pj s | _ \<Rightarrow> Inl TypeError)"

lemma jget_simps [simp]:
  "jget [] k = JNull" "jget ((k', v) # d) k = (if k = k' then v else jget d k)"
  by (simp_all add: jget_def)

lemma truthy_simps [simp]:
  "\<not> truthy pj JNull" "truthy pj (JBool b) \<longleftrightarrow> b" "truthy pj (JInt i) \<longleftrightarrow> i \<noteq> 0" "truthy pj (JFloat f) \<longleftrightarrow> pj_float_true pj f"
  "truthy pj (JStr s) \<longleftrightarrow> s \<noteq> []" "truthy pj (JList xs) \<longleftrightarrow> xs \<noteq> []" "truthy pj (JDict d) \<longleftrightarrow> d \<noteq> []"
  by (simp_all add: truthy_def)

lemma as_simps [simp]:
  "as_list (JList xs) = Some xs" "as_dict (JDict d) = Some d" "as_str (JStr s) = Some s"
  "as_list JNull = None" "as_dict JNull = None" "as_str JNull = None"
  "as_list (JStr s) = None" "as_dict (JStr s) = None" "as_list (JDict d) = None" "as_str (JDict d) = None"
  "as_dict (JList xs) = None" "as_str (JList xs) = None"
  by (simp_all add: as_list_def as_dict_def as_str_def)

lemma as_Some_iff:
  "as_list v = Some xs \<longleftrightarrow> v = JList xs" "as_dict v = Some d \<longleftrightarrow> v = JDict d" "as_str v = Some s \<longleftrightarrow> v = JStr s"
  by (cases v; auto simp: as_list_def as_dict_def as_str_def)+

lemma jget_in: "jget d k = v \<Longrightarrow> v \<noteq> JNull \<Longrightarrow> (k, v) \<in> set d"
  by (auto simp: jget_def split: option.splits dest: map_of_SomeD)

lemma jget_size:
  assumes "jget d k = v" "v \<noteq> JNull"
  shows "size v < size (JDict d)"
proof -
  have "size v \<le> size_list (size_prod (\<lambda>_. 0) size) d"
    using jget_in [OF assms] by (rule size_list_estimation') (simp_all)
  then show ?thesis by simp
qed

lemma size_in_list: "x \<in> set xs \<Longrightarrow> size x < size (JList xs)"
  using size_list_estimation' [of x xs "size x" size] by simp

end
