(* ===== verification/Tool_Parsers.thy ===== *)
theory Tool_Parsers
  imports Json_Value
begin

section \<open>Tool-call parsers (\<open>server/tool_parser.py\<close>)\<close>

text \<open>
  The parsers that split a finished completion into reasoning, visible content and tool calls, for the Hermes, Qwen
  XML and GLM XML formats, with the schema-driven typing of GLM arguments and the choice of a parser. Each regular
  expression is a matcher at a position, which returns what the groups capture and the text after the match;
  \<open>re_scan\<close> is \<open>finditer\<close> and \<open>sub("")\<close> over such a matcher. A call's identifier is a fresh UUID and is not part of
  the parse.
\<close>

subsection \<open>Reasoning\<close>

function drop_thinks :: "string \<Rightarrow> string" where
  "drop_thinks s = (if prefix ''<think>'' s then drop_thinks (lstrip (drop 7 s)) else s)"
  by pat_completeness auto
termination
proof (relation "measure length", goal_cases)
  case (2 s)
  have "length (lstrip (drop 7 s)) \<le> length (drop 7 s)" unfolding lstrip_def by (rule length_dropWhile_le)
  moreover have "7 \<le> length s" using 2 by (auto simp: prefix_def)
  ultimately show ?case by simp
qed simp

declare drop_thinks.simps [simp del]

definition extract_reasoning :: "string \<Rightarrow> string option \<times> string" where
  "extract_reasoning text =
     (case str_find text ''</think>'' of
        None \<Rightarrow>
          (let unfinished = strip text
           in if \<not> prefix ''<think>'' unfinished then (None, text) else (some_text (drop_thinks unfinished), []))
      | Some close \<Rightarrow>
          (let (reasoning, rest) =
             (case str_find text ''<think>'' of
                Some open_idx \<Rightarrow>
                  if open_idx < close then (drop (open_idx + 7) (take close text), take open_idx text @ drop (close + 8) text)
                  else (take close text, drop (close + 8) text)
              | None \<Rightarrow> (take close text, drop (close + 8) text))
           in (some_text (drop_thinks (strip reasoning)), rest)))"

subsection \<open>Values and schemas\<close>

definition coerce_value :: "'f py_json \<Rightarrow> string \<Rightarrow> 'f json" where
  "coerce_value pj raw = (let s = strip raw in case pj_loads pj s of Some v \<Rightarrow> v | None \<Rightarrow> JStr s)"

text \<open>The name of the JSON type of an enumerated value.\<close>

definition enum_type :: "'f json \<Rightarrow> string" where
  "enum_type v = (case v of
     JNull \<Rightarrow> ''null'' | JBool _ \<Rightarrow> ''boolean'' | JInt _ \<Rightarrow> ''integer'' | JFloat _ \<Rightarrow> ''number''
   | JStr _ \<Rightarrow> ''string'' | JList _ \<Rightarrow> ''array'' | JDict _ \<Rightarrow> ''object'')"

text \<open>\<open>set(types)\<close> raises for a list or a dictionary.\<close>

definition hashable :: "'f json \<Rightarrow> bool" where
  "hashable v = (case v of JList _ \<Rightarrow> False | JDict _ \<Rightarrow> False | _ \<Rightarrow> True)"

definition union_type :: "'f json list \<Rightarrow> 'f json res" where
  "union_type types =
     rbind (check (\<forall>t\<in>set types. hashable t) TypeError) (\<lambda>_.
       Inr (if card (set types) = 1 then hd types else if JStr ''string'' \<in> set types then JStr ''string'' else hd types))"

fun all_of_type :: "'f py_json \<Rightarrow> 'f json res list \<Rightarrow> 'f json res" where
  "all_of_type pj [] = Inr (JStr ''string'')"
| "all_of_type pj (Inl e # rs) = Inl e"
| "all_of_type pj (Inr t # rs) = (if truthy pj t \<and> t \<noteq> JStr ''string'' then Inr t else all_of_type pj rs)"

text \<open>The parts of the inference after the alternatives; \<open>None\<close> of the code is \<^const>\<open>JNull\<close>.\<close>

definition enum_schema_type :: "'f json list \<Rightarrow> 'f json" where
  "enum_schema_type enum =
     (if enum = [] then JStr ''string''
      else let enum_types = remdups (map enum_type enum) in if length enum_types = 1 then JStr (hd enum_types) else JStr ''string'')"

function infer_json_schema_type :: "'f py_json \<Rightarrow> 'f json \<Rightarrow> 'f json res" where
  "infer_json_schema_type pj v =
     (case as_dict v of
        None \<Rightarrow> Inr JNull
      | Some schema \<Rightarrow>
          (let rest_type =
             (case as_list (jget schema ''enum'') of
                Some enum \<Rightarrow> Inr (enum_schema_type enum)
              | None \<Rightarrow>
                  (case as_list (jget schema ''allOf'') of
                     Some all_of \<Rightarrow> all_of_type pj (map (infer_json_schema_type pj) all_of)
                   | None \<Rightarrow> Inr (if map_of schema ''properties'' \<noteq> None then JStr ''object''
                                 else if map_of schema ''items'' \<noteq> None then JStr ''array'' else JNull)));
             alternatives_type =
             (case as_list (or_else pj (jget schema ''anyOf'') (jget schema ''oneOf'')) of
                None \<Rightarrow> rest_type
              | Some alternatives \<Rightarrow>
                  rbind (mapr id (map (infer_json_schema_type pj) alternatives)) (\<lambda>inferred.
                    let types = filter (\<lambda>t. t \<noteq> JNull) inferred in if types = [] then rest_type else union_type types))
           in case jget schema ''type'' of
                JStr t \<Rightarrow> Inr (JStr t)
              | JList (t # ts) \<Rightarrow>
                  (case filter (\<lambda>item. item \<noteq> JStr ''null'') (t # ts) of [] \<Rightarrow> Inr (JStr ''string'') | u # _ \<Rightarrow> Inr u)
              | _ \<Rightarrow> alternatives_type))"
  by pat_completeness auto
termination
proof (relation "measure (\<lambda>(pj, v). size v)", goal_cases)
  case (2 pj v schema xs x)
  then show ?case using jget_size [of schema "''allOf''" "JList xs"] size_in_list [of x xs] by (simp add: as_Some_iff)
next
  case (3 pj v schema r xs x)
  then have "jget schema ''anyOf'' = JList xs \<or> jget schema ''oneOf'' = JList xs"
    by (auto simp: or_else_def as_Some_iff split: if_splits)
  then show ?case using 3 jget_size [of schema _ "JList xs"] size_in_list [of x xs] by (fastforce simp: as_Some_iff)
qed simp

declare infer_json_schema_type.simps [simp del]

fun argument_type_in :: "'f py_json \<Rightarrow> string \<Rightarrow> string \<Rightarrow> 'f json list \<Rightarrow> 'f json res" where
  "argument_type_in pj function_name argument_name [] = Inr JNull"
| "argument_type_in pj function_name argument_name (tool # tools) =
     (case as_dict tool of
        None \<Rightarrow> argument_type_in pj function_name argument_name tools
      | Some t \<Rightarrow>
          (let (name, parameters) =
             (case as_dict (jget t ''function'') of
                Some f \<Rightarrow> (jget f ''name'', jget f ''parameters'')
              | None \<Rightarrow> (jget t ''name'', jget t ''input_schema''))
           in case as_dict parameters of
                None \<Rightarrow> argument_type_in pj function_name argument_name tools
              | Some ps \<Rightarrow>
                  if name \<noteq> JStr function_name then argument_type_in pj function_name argument_name tools
                  else (case as_dict (jget ps ''properties'') of
                          None \<Rightarrow> Inr JNull
                        | Some properties \<Rightarrow> infer_json_schema_type pj (jget properties argument_name))))"

definition get_argument_type :: "'f py_json \<Rightarrow> string \<Rightarrow> string \<Rightarrow> 'f json \<Rightarrow> 'f json res" where
  "get_argument_type pj function_name argument_name tools =
     (case as_list tools of None \<Rightarrow> Inr JNull | Some ts \<Rightarrow> argument_type_in pj function_name argument_name ts)"

definition coerce_glm_value :: "'f py_json \<Rightarrow> string \<Rightarrow> string \<Rightarrow> string \<Rightarrow> 'f json \<Rightarrow> 'f json res" where
  "coerce_glm_value pj raw function_name argument_name tools =
     (let parsed_value = coerce_value pj raw
      in rbind (get_argument_type pj function_name argument_name tools) (\<lambda>ty.
           Inr (if ty \<noteq> JStr ''string'' then parsed_value
                else case parsed_value of
                  JStr s \<Rightarrow> JStr s
                | JDict d \<Rightarrow> JStr (pj_dumps_utf8 pj (JDict d))
                | JList xs \<Rightarrow> JStr (pj_dumps_utf8 pj (JList xs))
                | JNull \<Rightarrow> JStr ''None''
                | JBool b \<Rightarrow> JStr (if b then ''True'' else ''False'')
                | JInt i \<Rightarrow> JStr (py_str_int i)
                | JFloat f \<Rightarrow> JStr (pj_float_str pj f))))"

subsection \<open>Regular expressions\<close>

text \<open>
  \<open>finditer\<close> and \<open>sub("")\<close> of an expression whose matches are not empty: the captured groups from left to right, and
  the text outside the matches.
\<close>

function re_scan :: "(string \<Rightarrow> ('g \<times> string) option) \<Rightarrow> string \<Rightarrow> 'g list \<times> string" where
  "re_scan m s =
     (case s of [] \<Rightarrow> ([], []) | c # cs \<Rightarrow>
        (case m s of
           Some (g, rest) \<Rightarrow>
             (if length rest < length s then (case re_scan m rest of (gs, out) \<Rightarrow> (g # gs, out))
              else (case re_scan m cs of (gs, out) \<Rightarrow> (gs, c # out)))
         | None \<Rightarrow> (case re_scan m cs of (gs, out) \<Rightarrow> (gs, c # out))))"
  by pat_completeness auto
termination
  by (relation "measure (\<lambda>(m, s). length s)") auto

declare re_scan.simps [simp del]

text \<open>\<open>search\<close>: the groups of the first match.\<close>

definition re_search :: "(string \<Rightarrow> ('g \<times> string) option) \<Rightarrow> string \<Rightarrow> 'g option" where
  "re_search m s = (case fst (re_scan m s) of [] \<Rightarrow> None | g # _ \<Rightarrow> Some g)"

text \<open>
  \<open><tool_call>\s*(.*?)\s*</tool_call>\<close>: the lazy group ends before the first closing tag, and the spaces around it are
  outside the group.
\<close>

definition xml_call_match :: "string \<Rightarrow> (string \<times> string) option" where
  "xml_call_match s =
     (if prefix ''<tool_call>'' s
      then (let t = drop 11 s in
            case str_find t ''</tool_call>'' of None \<Rightarrow> None | Some j \<Rightarrow> Some (strip (take j t), drop (j + 12) t))
      else None)"

text \<open>
  \<open><tool_call>\s*(\{.*?\})\s*</tool_call>\<close>: the group ends at the first closing brace that only spaces separate from a
  closing tag.
\<close>

definition hermes_match :: "string \<Rightarrow> (string \<times> string) option" where
  "hermes_match s =
     (if prefix ''<tool_call>'' s
      then (let t = lstrip (drop 11 s) in
            if \<not> prefix ''{'' t then None
            else (case find (\<lambda>e. t ! e = CHR ''}'' \<and> prefix ''</tool_call>'' (lstrip (drop (e + 1) t))) [1..<length t] of
                    None \<Rightarrow> None
                  | Some e \<Rightarrow> Some (take (e + 1) t, drop 12 (lstrip (drop (e + 1) t)))))
      else None)"

text \<open>
  \<open><function=([^>\s]+)\s*>(.*?)</function>\<close> and the same with \<open>parameter\<close>: the greedy name ends at a space or at the
  closing bracket, so it cannot be shorter.
\<close>

definition element_match :: "string \<Rightarrow> string \<Rightarrow> string \<Rightarrow> ((string \<times> string) \<times> string) option" where
  "element_match opening closing s =
     (if prefix opening s
      then (let t = drop (length opening) s; name = takeWhile (\<lambda>c. c \<noteq> CHR ''>'' \<and> \<not> is_space c) t;
                u = lstrip (drop (length name) t)
            in if name = [] \<or> \<not> prefix ''>'' u then None
               else (case str_find (drop 1 u) closing of
                       None \<Rightarrow> None
                     | Some j \<Rightarrow> Some ((name, take j (drop 1 u)), drop (j + length closing) (drop 1 u))))
      else None)"

text \<open>
  \<open><arg_key>\s*(.*?)\s*</arg_key>\s*<arg_value>\s*(.*?)\s*</arg_value>\<close>: the key ends at the first \<open></arg_key>\<close> that an
  \<open><arg_value>\<close> with a closing tag follows.
\<close>

definition arg_value_at :: "string \<Rightarrow> (string \<times> string) option" where
  "arg_value_at s =
     (let u = lstrip s
      in if prefix ''<arg_value>'' u
         then (case str_find (drop 11 u) ''</arg_value>'' of
                 None \<Rightarrow> None | Some j \<Rightarrow> Some (strip (take j (drop 11 u)), drop (j + 12) (drop 11 u)))
         else None)"

definition arg_match :: "string \<Rightarrow> ((string \<times> string) \<times> string) option" where
  "arg_match s =
     (if prefix ''<arg_key>'' s
      then (let t = drop 9 s in
            case find (\<lambda>p. prefix ''</arg_key>'' (drop p t) \<and> arg_value_at (drop (p + 10) t) \<noteq> None) [0..<length t] of
              None \<Rightarrow> None
            | Some p \<Rightarrow> map_option (\<lambda>(v, rest). ((strip (take p t), v), rest)) (arg_value_at (drop (p + 10) t)))
      else None)"

subsection \<open>The parsers\<close>

text \<open>A call: its name and its arguments as JSON text.\<close>

type_synonym call = "string \<times> string"

record parsed_output =
  po_content :: "string option"
  po_tool_calls :: "call list"
  po_reasoning :: "string option"

definition hermes_block :: "'f py_json \<Rightarrow> string \<Rightarrow> call option res" where
  "hermes_block pj grp =
     (case pj_loads pj (strip grp) of
        None \<Rightarrow> Inr None
      | Some obj \<Rightarrow>
          (case as_dict obj of
             None \<Rightarrow> Inl AttributeError
           | Some d \<Rightarrow>
               (case as_str (jget d ''name'') of
                  None \<Rightarrow> Inr None
                | Some name \<Rightarrow>
                    if name = [] then Inr None
                    else (let args = (case map_of d ''arguments'' of None \<Rightarrow> JDict [] | Some v \<Rightarrow> v)
                          in Inr (Some (name, case as_str args of Some s \<Rightarrow> s | None \<Rightarrow> pj_dumps pj args))))))"

definition qwen_block :: "'f py_json \<Rightarrow> string \<Rightarrow> call option res" where
  "qwen_block pj grp =
     (case re_search (element_match ''<function='' ''</function>'') grp of
        None \<Rightarrow> Inr None
      | Some (fname, body) \<Rightarrow>
          (let name = strip fname
           in if name = [] then Inr None
              else (let args = fold (\<lambda>(k, v). dict_set (strip k) (coerce_value pj v))
                                 (fst (re_scan (element_match ''<parameter='' ''</parameter>'') body)) []
                    in Inr (Some (name, pj_dumps pj (JDict args))))))"

definition glm_args :: "'f py_json \<Rightarrow> 'f json \<Rightarrow> string \<Rightarrow> string \<Rightarrow> 'f dict res" where
  "glm_args pj tools name arg_text =
     fold_res (\<lambda>(k, v) args.
       let key = strip k
       in if key = [] then Inr args
          else rbind (coerce_glm_value pj v name key tools) (\<lambda>x. Inr (dict_set key x args)))
       (fst (re_scan arg_match arg_text)) []"

definition glm_block :: "'f py_json \<Rightarrow> 'f json \<Rightarrow> string \<Rightarrow> call option res" where
  "glm_block pj tools grp =
     (let block = strip grp
      in if block = [] then Inr None
         else (let (name, arg_text) =
                 (case str_find block ''<arg_key>'' of
                    None \<Rightarrow> (strip block, []) | Some first_arg \<Rightarrow> (strip (take first_arg block), drop first_arg block))
               in if name = [] then Inr None
                  else rbind (glm_args pj tools name arg_text) (\<lambda>args. Inr (Some (name, pj_dumps_utf8 pj (JDict args))))))"

text \<open>The body the three \<open>parse_full\<close> methods share.\<close>

definition parse_with :: "(string \<Rightarrow> (string \<times> string) option) \<Rightarrow> (string \<Rightarrow> call option res) \<Rightarrow> string \<Rightarrow> parsed_output res" where
  "parse_with call_re block text =
     (let (reasoning, body) = extract_reasoning text; (groups, outside) = re_scan call_re body
      in rbind (mapr block groups) (\<lambda>calls.
           Inr \<lparr>po_content = some_text (strip outside), po_tool_calls = List.map_filter id calls, po_reasoning = reasoning\<rparr>))"

definition hermes_parse_full :: "'f py_json \<Rightarrow> string \<Rightarrow> parsed_output res" where
  "hermes_parse_full pj text = parse_with hermes_match (hermes_block pj) text"

definition qwen_parse_full :: "'f py_json \<Rightarrow> string \<Rightarrow> parsed_output res" where
  "qwen_parse_full pj text = parse_with xml_call_match (qwen_block pj) text"

definition glm_parse_full :: "'f py_json \<Rightarrow> 'f json \<Rightarrow> string \<Rightarrow> parsed_output res" where
  "glm_parse_full pj tools text = parse_with xml_call_match (glm_block pj tools) text"

subsection \<open>Choice of a parser\<close>

datatype parser_class = HermesToolParser | Qwen3XMLToolParser | GLMXMLToolParser | KimiK3ToolParser

text \<open>\<open>str.lower\<close> on the 256 characters of \<^typ>\<open>char\<close>.\<close>

definition py_lower :: "string \<Rightarrow> string" where
  "py_lower = map (\<lambda>c. let n = (of_char c :: nat)
     in if (65 \<le> n \<and> n \<le> 90) \<or> (192 \<le> n \<and> n \<le> 222 \<and> n \<noteq> 215) then char_of (n + 32) else c)"

definition contains :: "string \<Rightarrow> string \<Rightarrow> bool" where
  "contains s sub \<longleftrightarrow> str_find s sub \<noteq> None"

definition parser_registry :: "(string \<times> parser_class) list" where
  "parser_registry =
     [(''hermes'', HermesToolParser), (''qwen3_xml'', Qwen3XMLToolParser), (''qwen3_coder'', Qwen3XMLToolParser),
      (''glm'', GLMXMLToolParser), (''glm45'', GLMXMLToolParser), (''glm47'', GLMXMLToolParser), (''glm5'', GLMXMLToolParser),
      (''kimi_k3'', KimiK3ToolParser)]"

definition get_tool_parser :: "string option \<Rightarrow> parser_class" where
  "get_tool_parser name =
     (let key = py_lower (case name of None \<Rightarrow> ''hermes'' | Some s \<Rightarrow> if s = [] then ''hermes'' else s)
      in case map_of parser_registry key of None \<Rightarrow> HermesToolParser | Some cls \<Rightarrow> cls)"

definition template_parser_name :: "string \<Rightarrow> string option" where
  "template_parser_name chat_template =
     (if contains chat_template ''<arg_key>'' \<or> contains chat_template ''<arg_value>'' then Some ''glm''
      else if contains chat_template ''<function='' then Some ''qwen3_xml''
      else if contains chat_template ''<tool_call>'' then Some ''hermes'' else None)"

definition detect_parser_name :: "string \<Rightarrow> string \<Rightarrow> string option \<Rightarrow> string" where
  "detect_parser_name model_path served_model_name chat_template =
     (let ident = py_lower (model_path @ '' '' @ served_model_name)
      in if contains ident ''kimi-k3'' \<or> contains ident ''kimi_k3'' then ''kimi_k3''
         else if \<exists>tag\<in>set [''glm-5'', ''glm_5'', ''glm5'']. contains ident tag then ''glm47''
         else case (case chat_template of None \<Rightarrow> None | Some t \<Rightarrow> template_parser_name t) of
                Some name \<Rightarrow> name
              | None \<Rightarrow>
                  if contains ident ''glm'' then ''glm''
                  else if contains ident ''qwen3.5'' \<or> contains ident ''qwen3-coder'' \<or> contains ident ''qwen3_coder'' then ''qwen3_xml''
                  else ''hermes'')"

subsection \<open>Tags in a text\<close>

text \<open>
  The tags of the formats start with a character that does not occur again in the tag, so an occurrence never
  straddles the start of another tag.
\<close>

lemma tag_prefix:
  assumes "c \<notin> set t" "prefix (c # t) (x @ c # y)" "x \<noteq> []"
  shows "prefix (c # t) x"
proof -
  consider "prefix (c # t) x" | us where "c # t = x @ us" "prefix us (c # y)" using assms(2) by (auto simp: prefix_append)
  then show ?thesis
  proof cases
    case 2
    then show ?thesis using assms(1,3) by (cases us; cases x) (auto simp: prefix_Cons)
  qed
qed

lemma tag_not_prefix:
  assumes "\<not> sublist (c # t) x" "c \<notin> set t" "i < length x" "y = [] \<or> hd y = c"
  shows "\<not> prefix (c # t) (drop i x @ y)"
proof
  assume p: "prefix (c # t) (drop i x @ y)"
  have "prefix (c # t) (drop i x)"
  proof (cases "y = []")
    case True
    then show ?thesis using p by simp
  next
    case False
    then obtain y' where "y = c # y'" using assms(4) by (cases y) auto
    then show ?thesis using tag_prefix [OF assms(2), of "drop i x" y'] p assms(3) by simp
  qed
  then have "sublist (c # t) x" using assms(3) by (auto simp: sublist_at intro: less_imp_le)
  then show False using assms(1) by simp
qed

lemma str_find_tag:
  assumes "\<not> sublist (c # t) x" "c \<notin> set t" "prefix (c # t) y"
  shows "str_find (x @ y) (c # t) = Some (length x)"
  using assms(1)
proof (induction x)
  case Nil
  then show ?case using assms(3) by (cases y) auto
next
  case (Cons a x)
  have "y = [] \<or> hd y = c" using assms(3) by (cases y) auto
  then have "\<not> prefix (c # t) (a # x @ y)" using tag_not_prefix [OF Cons.prems assms(2), of 0 y] by simp
  moreover have "\<not> sublist (c # t) x" using Cons.prems by (auto simp: sublist_Cons_right)
  ultimately show ?case using Cons.IH by simp
qed

lemma sublist_tag_append:
  assumes "c \<notin> set t" "y = [] \<or> hd y = c"
  shows "sublist (c # t) (x @ y) \<longleftrightarrow> sublist (c # t) x \<or> sublist (c # t) y"
proof (induction x)
  case (Cons a x)
  have "prefix (c # t) (a # x @ y) \<Longrightarrow> prefix (c # t) (a # x)"
    using assms tag_prefix [OF assms(1), of "a # x" "tl y"] by (cases y) auto
  then show ?case using Cons by (auto simp: sublist_Cons_right)
qed (simp)

lemma sublist_skip: "c \<notin> set x \<Longrightarrow> sublist (c # t) (x @ y) \<longleftrightarrow> sublist (c # t) y"
  by (induction x) (auto simp: sublist_Cons_right)

lemma sublist_snoc_other: "tag \<noteq> [] \<Longrightarrow> last tag \<noteq> d \<Longrightarrow> sublist tag (x @ [d]) \<longleftrightarrow> sublist tag x"
proof
  assume a: "tag \<noteq> []" "last tag \<noteq> d" "sublist tag (x @ [d])"
  then obtain ps ss where x: "x @ [d] = ps @ tag @ ss" by (auto simp: sublist_def)
  then have "ss \<noteq> []" using a(1,2) by (metis append_Nil2 last_appendR last_snoc)
  then obtain ss' where "x = ps @ tag @ ss'" using x by (metis append_assoc butlast_append butlast_snoc)
  then show "sublist tag x" by (auto simp: sublist_def)
qed (auto simp: sublist_append)

subsection \<open>Scanning\<close>

lemma re_scan_hit:
  assumes "m s = Some (g, rest)" "length rest < length s"
  shows "re_scan m s = (g # fst (re_scan m rest), snd (re_scan m rest))"
proof -
  obtain c cs where "s = c # cs" using assms(2) by (cases s) auto
  then show ?thesis using assms by (subst re_scan.simps) (simp add: case_prod_beta)
qed

lemma re_scan_nil [simp]: "re_scan m [] = ([], [])"
  by (simp add: re_scan.simps)

lemma re_scan_skip:
  assumes "\<And>i. i < length x \<Longrightarrow> m (drop i x @ y) = None"
  shows "re_scan m (x @ y) = (fst (re_scan m y), x @ snd (re_scan m y))"
  using assms
proof (induction x)
  case (Cons a x)
  have "m (drop i x @ y) = None" if "i < length x" for i using Cons.prems [of "Suc i"] that by simp
  then have "re_scan m (x @ y) = (fst (re_scan m y), x @ snd (re_scan m y))" by (rule Cons.IH)
  moreover have "m (a # x @ y) = None" using Cons.prems [of 0] by simp
  ultimately show ?case by (simp add: re_scan.simps [of m "a # x @ y"] case_prod_beta)
qed simp

subsection \<open>Spaces\<close>

definition stripped :: "string \<Rightarrow> bool" where
  "stripped s \<longleftrightarrow> s = [] \<or> (\<not> is_space (hd s) \<and> \<not> is_space (last s))"

lemma lstrip_id: "s = [] \<or> \<not> is_space (hd s) \<Longrightarrow> lstrip s = s"
  by (cases s) (auto simp: lstrip_def)

lemma strip_id: "stripped s \<Longrightarrow> strip s = s"
  by (cases "s = []") (simp_all add: stripped_def strip_def lstrip_id hd_rev)

lemma lstrip_spaces: "\<forall>c\<in>set a. is_space c \<Longrightarrow> lstrip (a @ s) = lstrip s"
  by (simp add: lstrip_def dropWhile_append)

lemma lstrip_append_rev: "lstrip s \<noteq> [] \<Longrightarrow> lstrip (s @ b) = lstrip s @ b"
  by (auto simp: lstrip_def dropWhile_append)

lemma strip_spaces:
  assumes "\<forall>c\<in>set a. is_space c" "\<forall>c\<in>set b. is_space c"
  shows "strip (a @ s @ b) = strip s"
proof (cases "lstrip s = []")
  case True
  then have "\<forall>c\<in>set s. is_space c" by (simp add: lstrip_def dropWhile_eq_Nil_conv)
  then have "lstrip (s @ b) = []" "lstrip s = []" using assms(2) by (auto simp: lstrip_def dropWhile_eq_Nil_conv)
  then show ?thesis using lstrip_spaces [OF assms(1)] by (simp add: strip_def)
next
  case False
  then have "lstrip (a @ s @ b) = lstrip s @ b" using lstrip_spaces [OF assms(1)] lstrip_append_rev by simp
  then show ?thesis using lstrip_spaces [of "rev b" "rev (lstrip s)"] assms(2) by (simp add: strip_def)
qed

lemma strip_stripped: "stripped (strip s)"
proof (cases "strip s = []")
  case False
  then have "lstrip (rev (lstrip s)) \<noteq> []" by (simp add: strip_def)
  then have "\<not> is_space (hd (lstrip (rev (lstrip s))))" by (simp add: lstrip_def hd_dropWhile)
  then have last: "\<not> is_space (last (strip s))" using False by (simp add: strip_def last_rev)
  obtain w where w: "lstrip s = strip s @ w"
    unfolding strip_def by (metis lstrip_def rev_append rev_rev_ident takeWhile_dropWhile_id)
  have "lstrip s \<noteq> []" using False w by auto
  then have "\<not> is_space (hd (lstrip s))" by (simp add: lstrip_def hd_dropWhile)
  then show ?thesis using last w False by (simp add: stripped_def)
qed (simp add: stripped_def)

lemma strip_strip [simp]: "strip (strip s) = strip s"
  by (simp add: strip_id strip_stripped)

subsection \<open>The shared contract of the XML formats\<close>

text \<open>
  A completion as a thinking model writes it: optional reasoning, whose opening tag is in the prompt, and the answer.
\<close>

definition with_reasoning :: "string option \<Rightarrow> string \<Rightarrow> string" where
  "with_reasoning thought body = (case thought of None \<Rightarrow> body | Some r \<Rightarrow> r @ ''</think>'' @ body)"

definition reasoning_clear :: "string option \<Rightarrow> string \<Rightarrow> bool" where
  "reasoning_clear thought body \<longleftrightarrow> (case thought of
     None \<Rightarrow> \<not> sublist ''</think>'' body \<and> \<not> prefix ''<think>'' (strip body)
   | Some r \<Rightarrow> \<not> sublist ''</think>'' r \<and> \<not> sublist ''<think>'' r)"

lemma sublist_strip: "sublist x (strip s) \<Longrightarrow> sublist x s"
proof -
  assume x: "sublist x (strip s)"
  have "suffix (lstrip s) s" "suffix (lstrip (rev (lstrip s))) (rev (lstrip s))"
    by (simp_all add: lstrip_def suffix_dropWhile)
  then have "sublist (lstrip s) s" "prefix (strip s) (lstrip s)" by (simp_all add: strip_def suffix_to_prefix suffix_imp_sublist)
  then show ?thesis using x by (meson prefix_imp_sublist sublist_order.order_trans)
qed

lemma extract_reasoning_of:
  assumes "reasoning_clear thought body"
  shows "extract_reasoning (with_reasoning thought body) = (case thought of None \<Rightarrow> None | Some r \<Rightarrow> some_text (strip r), body)"
proof (cases thought)
  case None
  then show ?thesis
    using assms by (simp add: reasoning_clear_def with_reasoning_def extract_reasoning_def str_find_None [THEN iffD2] Let_def)
next
  case (Some r)
  let ?text = "r @ ''</think>'' @ body"
  have r: "\<not> sublist ''</think>'' r" "\<not> sublist ''<think>'' r" using assms Some by (simp_all add: reasoning_clear_def)
  have close: "str_find ?text ''</think>'' = Some (length r)" using str_find_tag [OF r(1)] by simp
  have "\<not> o' < length r" if "str_find ?text ''<think>'' = Some o'" for o'
    using str_find_Some [OF that] tag_not_prefix [OF r(2), of o' "''</think>'' @ body"] by auto
  moreover have "drop_thinks (strip r) = strip r"
    using r(2) sublist_strip prefix_imp_sublist by (subst drop_thinks.simps) auto
  ultimately show ?thesis
    using Some close by (auto simp: with_reasoning_def extract_reasoning_def Let_def split: option.split)
qed

text \<open>A call between its tags, and the text up to the next call.\<close>

definition call_text :: "('c \<Rightarrow> string) \<Rightarrow> 'c \<times> string \<Rightarrow> string" where
  "call_text render p = ''<tool_call>'' @ render (fst p) @ ''</tool_call>'' @ snd p"

text \<open>
  What a format promises: its expression matches only at an opening tag and matches exactly the text of a call, and
  its block parser reads the call back from what is captured.
\<close>

locale tool_call_syntax =
  fixes call_re :: "string \<Rightarrow> (string \<times> string) option"
    and block :: "string \<Rightarrow> call option res"
    and render :: "'c \<Rightarrow> string"
    and meaning :: "'c \<Rightarrow> call"
    and ok :: "'c \<Rightarrow> bool"
  assumes call_start: "call_re s = Some r \<Longrightarrow> prefix ''<tool_call>'' s"
    and call_match: "ok c \<Longrightarrow>
      \<exists>g. block g = Inr (Some (meaning c)) \<and> (\<forall>y. call_re (''<tool_call>'' @ render c @ ''</tool_call>'' @ y) = Some (g, y))"
begin

lemma scan_text:
  assumes "\<not> sublist ''<tool_call>'' x" "y = [] \<or> hd y = CHR ''<''"
  shows "re_scan call_re (x @ y) = (fst (re_scan call_re y), x @ snd (re_scan call_re y))"
proof (rule re_scan_skip)
  fix i
  assume "i < length x"
  then have "\<not> prefix ''<tool_call>'' (drop i x @ y)" using tag_not_prefix [OF assms(1), of i y] assms(2) by simp
  then show "call_re (drop i x @ y) = None" using call_start by (cases "call_re (drop i x @ y)") auto
qed

lemma call_text_hd: "concat (map (call_text render) ps) = [] \<or> hd (concat (map (call_text render) ps)) = CHR ''<''"
  by (cases ps) (simp_all add: call_text_def)

lemma scan_calls:
  assumes "\<forall>p\<in>set ps. ok (fst p) \<and> \<not> sublist ''<tool_call>'' (snd p)"
  shows "\<exists>gs. re_scan call_re (concat (map (call_text render) ps)) = (gs, concat (map snd ps)) \<and>
    mapr block gs = Inr (map (\<lambda>p. Some (meaning (fst p))) ps)"
  using assms
proof (induction ps)
  case (Cons p ps)
  let ?rest = "snd p @ concat (map (call_text render) ps)"
  obtain gs where gs: "re_scan call_re (concat (map (call_text render) ps)) = (gs, concat (map snd ps))"
    "mapr block gs = Inr (map (\<lambda>p. Some (meaning (fst p))) ps)" using Cons by auto
  then have rest: "re_scan call_re ?rest = (gs, snd p @ concat (map snd ps))"
    using scan_text [of "snd p", OF _ call_text_hd] Cons.prems by simp
  obtain g where g: "block g = Inr (Some (meaning (fst p)))"
    "\<And>y. call_re (''<tool_call>'' @ render (fst p) @ ''</tool_call>'' @ y) = Some (g, y)"
    using call_match [of "fst p"] Cons.prems by auto
  have "re_scan call_re (call_text render p @ concat (map (call_text render) ps)) =
      (g # fst (re_scan call_re ?rest), snd (re_scan call_re ?rest))"
    by (rule re_scan_hit) (use g(2) [of ?rest] in \<open>simp_all add: call_text_def\<close>)
  then show ?case using gs(2) g(1) rest by simp
qed simp

lemma parse_calls:
  assumes "\<forall>p\<in>set ps. ok (fst p) \<and> \<not> sublist ''<tool_call>'' (snd p)" "\<not> sublist ''<tool_call>'' content"
    and "reasoning_clear thought (content @ concat (map (call_text render) ps))"
  shows "parse_with call_re block (with_reasoning thought (content @ concat (map (call_text render) ps))) =
    Inr \<lparr>po_content = some_text (strip (content @ concat (map snd ps))), po_tool_calls = map (\<lambda>p. meaning (fst p)) ps,
         po_reasoning = (case thought of None \<Rightarrow> None | Some r \<Rightarrow> some_text (strip r))\<rparr>"
proof -
  obtain gs where gs: "re_scan call_re (concat (map (call_text render) ps)) = (gs, concat (map snd ps))"
    "mapr block gs = Inr (map (\<lambda>p. Some (meaning (fst p))) ps)" using scan_calls [OF assms(1)] by blast
  have "List.map_filter id (map (\<lambda>p. Some (meaning (fst p))) ps) = map (\<lambda>p. meaning (fst p)) ps"
    by (simp add: map_filter_def comp_def)
  then show ?thesis
    using scan_text [OF assms(2) call_text_hd, of ps] gs by (simp add: parse_with_def extract_reasoning_of [OF assms(3)])
qed

end

text \<open>The two XML formats share their expression; a format only has to keep the closing tag out of its calls.\<close>

locale xml_call_syntax =
  fixes block :: "string \<Rightarrow> call option res"
    and render :: "'c \<Rightarrow> string"
    and meaning :: "'c \<Rightarrow> call"
    and ok :: "'c \<Rightarrow> bool"
  assumes block_render: "ok c \<Longrightarrow> block (strip (render c)) = Inr (Some (meaning c))"
    and render_closed: "ok c \<Longrightarrow> \<not> sublist ''</tool_call>'' (render c)"

sublocale xml_call_syntax \<subseteq> tool_call_syntax xml_call_match block render meaning ok
proof
  show "prefix ''<tool_call>'' s" if "xml_call_match s = Some r" for s r
    using that by (auto simp: xml_call_match_def split: if_splits)
next
  fix c
  assume ok: "ok c"
  have "xml_call_match (''<tool_call>'' @ render c @ ''</tool_call>'' @ y) = Some (strip (render c), y)" for y
    using str_find_tag [OF render_closed [OF ok], of "''</tool_call>'' @ y"] by (simp add: xml_call_match_def)
  then show "\<exists>g. block g = Inr (Some (meaning c)) \<and>
      (\<forall>y. xml_call_match (''<tool_call>'' @ render c @ ''</tool_call>'' @ y) = Some (g, y))"
    using block_render [OF ok] by blast
qed

subsection \<open>GLM calls\<close>

text \<open>
  A call as GLM writes it: the name, then a key and the text of a value per argument. The third component is the value
  the schema gives the text.
\<close>

type_synonym 'f glm_call = "string \<times> (string \<times> string \<times> 'f json) list"

definition glm_arg :: "string \<times> string \<times> 'f json \<Rightarrow> string" where
  "glm_arg a = (case a of (k, raw, v) \<Rightarrow> ''<arg_key>'' @ k @ ''</arg_key><arg_value>'' @ raw @ ''</arg_value>'')"

definition render_glm :: "'f glm_call \<Rightarrow> string" where
  "render_glm c = fst c @ concat (map glm_arg (snd c))"

definition glm_arg_ok :: "string \<times> string \<times> 'f json \<Rightarrow> bool" where
  "glm_arg_ok a = (case a of (k, raw, v) \<Rightarrow>
     stripped k \<and> k \<noteq> [] \<and> \<not> contains k ''</arg_key>'' \<and> \<not> contains k ''</tool_call>'' \<and>
     \<not> contains raw ''</arg_value>'' \<and> \<not> contains raw ''</tool_call>'')"

definition glm_call_ok :: "'f py_json \<Rightarrow> 'f json \<Rightarrow> 'f glm_call \<Rightarrow> bool" where
  "glm_call_ok pj tools c \<longleftrightarrow>
     stripped (fst c) \<and> fst c \<noteq> [] \<and> \<not> contains (fst c) ''<arg_key>'' \<and> \<not> contains (fst c) ''</tool_call>'' \<and>
     list_all glm_arg_ok (snd c) \<and> distinct (map fst (snd c)) \<and>
     list_all (\<lambda>(k, raw, v). coerce_glm_value pj raw (fst c) k tools = Inr v) (snd c)"

definition glm_meaning :: "'f py_json \<Rightarrow> 'f glm_call \<Rightarrow> call" where
  "glm_meaning pj c = (fst c, pj_dumps_utf8 pj (JDict (map (\<lambda>(k, raw, v). (k, v)) (snd c))))"

lemma contains_iff: "contains s x \<longleftrightarrow> sublist x s"
  by (simp add: contains_def str_find_None)

lemma find_upt:
  assumes "P n" "n < m" "\<And>i. i < n \<Longrightarrow> \<not> P i"
  shows "find P [0..<m] = Some n"
  using assms by (auto simp: find_Some_iff)

lemma arg_match_arg:
  assumes "glm_arg_ok a"
  shows "arg_match (glm_arg a @ y) = Some ((fst a, strip (fst (snd a))), y)"
proof -
  obtain k raw v where a: "a = (k, raw, v)" by (cases a)
  have ok: "stripped k" "\<not> sublist ''</arg_key>'' k" "\<not> sublist ''</arg_value>'' raw"
    using assms by (simp_all add: a glm_arg_ok_def contains_iff)
  let ?v = "''<arg_value>'' @ raw @ ''</arg_value>'' @ y"
  let ?t = "k @ ''</arg_key>'' @ ?v"
  have "lstrip ?v = ?v" by (rule lstrip_id) (simp add: is_space_def)
  then have val: "arg_value_at ?v = Some (strip raw, y)"
    using str_find_tag [OF ok(3), of "''</arg_value>'' @ y"] by (simp add: arg_value_at_def)
  have "find (\<lambda>p. prefix ''</arg_key>'' (drop p ?t) \<and> arg_value_at (drop (p + 10) ?t) \<noteq> None) [0..<length ?t] = Some (length k)"
    by (rule find_upt) (use val tag_not_prefix [OF ok(2), of _ "''</arg_key>'' @ ?v"] in auto)
  then show ?thesis using val ok(1) by (simp add: a glm_arg_def arg_match_def strip_id)
qed

lemma scan_glm_args:
  assumes "list_all glm_arg_ok args"
  shows "re_scan arg_match (concat (map glm_arg args)) = (map (\<lambda>(k, raw, v). (k, strip raw)) args, [])"
  using assms
proof (induction args)
  case (Cons a args)
  let ?y = "concat (map glm_arg args)"
  have "arg_match (glm_arg a @ ?y) = Some ((fst a, strip (fst (snd a))), ?y)" by (rule arg_match_arg) (use Cons.prems in simp)
  moreover have "length ?y < length (glm_arg a @ ?y)" by (simp add: glm_arg_def case_prod_beta)
  ultimately have "re_scan arg_match (glm_arg a @ ?y) =
      ((fst a, strip (fst (snd a))) # fst (re_scan arg_match ?y), snd (re_scan arg_match ?y))" by (rule re_scan_hit)
  then show ?case using Cons by (simp add: case_prod_beta)
qed simp

lemma dict_set_new: "k \<notin> fst ` set d \<Longrightarrow> dict_set k v d = d @ [(k, v)]"
  by (induction d) auto

lemma coerce_glm_strip [simp]: "coerce_glm_value pj (strip raw) n k tools = coerce_glm_value pj raw n k tools"
  by (simp add: coerce_glm_value_def coerce_value_def)

lemma glm_args_of:
  assumes "list_all glm_arg_ok args" "distinct (map fst args)"
    and "list_all (\<lambda>(k, raw, v). coerce_glm_value pj raw n k tools = Inr v) args"
  shows "glm_args pj tools n (concat (map glm_arg args)) = Inr (map (\<lambda>(k, raw, v). (k, v)) args)"
proof -
  let ?f = "\<lambda>(k, v) args. let key = strip k in if key = [] then Inr args
    else rbind (coerce_glm_value pj v n key tools) (\<lambda>x. Inr (dict_set key x args))"
  have "fold_res ?f (map (\<lambda>(k, raw, v). (k, strip raw)) args) d = Inr (d @ map (\<lambda>(k, raw, v). (k, v)) args)"
    if "fst ` set d \<inter> fst ` set args = {}" for d
    using assms that
  proof (induction args arbitrary: d)
    case (Cons a args)
    obtain k raw v where a: "a = (k, raw, v)" by (cases a)
    have k: "stripped k" "k \<noteq> []" "coerce_glm_value pj raw n k tools = Inr v" "k \<notin> fst ` set d"
      using Cons.prems by (auto simp: a glm_arg_ok_def)
    have "fst ` set (d @ [(k, v)]) \<inter> fst ` set args = {}" using Cons.prems(2,4) by (auto simp: a)
    then have "fold_res ?f (map (\<lambda>(k, raw, v). (k, strip raw)) args) (d @ [(k, v)]) =
        Inr ((d @ [(k, v)]) @ map (\<lambda>(k, raw, v). (k, v)) args)"
      using Cons.prems by (intro Cons.IH) (auto simp: a)
    then show ?case using k by (simp add: a strip_id dict_set_new)
  qed simp
  from this [of "[]"] show ?thesis by (simp add: glm_args_def scan_glm_args [OF assms(1)])
qed

lemma glm_args_hd: "concat (map glm_arg args) = [] \<or> hd (concat (map glm_arg args)) = CHR ''<''"
  by (cases args) (auto simp: glm_arg_def)

lemma glm_args_last: "concat (map glm_arg args) = [] \<or> last (concat (map glm_arg args)) = CHR ''>''"
  by (cases args rule: rev_cases) (auto simp: glm_arg_def)

lemma glm_args_closed:
  assumes "list_all glm_arg_ok args"
  shows "\<not> sublist ''</tool_call>'' (concat (map glm_arg args))"
  using assms
proof (induction args)
  case (Cons a args)
  obtain k raw v where a: "a = (k, raw, v)" by (cases a)
  let ?y = "concat (map glm_arg args)"
  let ?call = "''</tool_call>''"
  have ok: "\<not> sublist ?call k" "\<not> sublist ?call raw" "\<not> sublist ?call ?y"
    using Cons by (simp_all add: a glm_arg_ok_def contains_iff)
  have "\<not> sublist ?call (''</arg_value>'' @ ?y)" using ok(3) by (simp add: sublist_Cons_right)
  then have "\<not> sublist ?call (raw @ ''</arg_value>'' @ ?y)"
    using sublist_tag_append [of "CHR ''<''" "''/tool_call>''" "''</arg_value>'' @ ?y" raw] ok(2) by simp
  then have "\<not> sublist ?call (''</arg_key><arg_value>'' @ raw @ ''</arg_value>'' @ ?y)" by (simp add: sublist_Cons_right)
  then have "\<not> sublist ?call (k @ ''</arg_key><arg_value>'' @ raw @ ''</arg_value>'' @ ?y)"
    using sublist_tag_append [of "CHR ''<''" "''/tool_call>''" "''</arg_key><arg_value>'' @ raw @ ''</arg_value>'' @ ?y" k] ok(1) by simp
  moreover have "glm_arg a = ''<arg_key>'' @ k @ ''</arg_key><arg_value>'' @ raw @ ''</arg_value>''" by (simp add: a glm_arg_def)
  ultimately show ?case by (simp add: sublist_Cons_right)
qed simp

lemma glm_block_render:
  assumes "glm_call_ok pj tools c"
  shows "glm_block pj tools (strip (render_glm c)) = Inr (Some (glm_meaning pj c))"
proof -
  obtain n args where c: "c = (n, args)" by (cases c)
  let ?y = "concat (map glm_arg args)"
  have ok: "stripped n" "n \<noteq> []" "\<not> sublist ''<arg_key>'' n" "list_all glm_arg_ok args" "distinct (map fst args)"
    "list_all (\<lambda>(k, raw, v). coerce_glm_value pj raw n k tools = Inr v) args"
    using assms by (simp_all add: c glm_call_ok_def contains_iff)
  have "\<not> is_space (CHR ''>'')" by (simp add: is_space_def)
  then have "stripped (n @ ?y)" using ok(1,2) glm_args_last [of args] by (auto simp: stripped_def last_append)
  then have strip: "strip (render_glm c) = n @ ?y" by (simp add: c render_glm_def strip_id)
  have "str_find (n @ ?y) ''<arg_key>'' = (if args = [] then None else Some (length n))"
  proof (cases args)
    case Nil
    then show ?thesis using ok(3) by (simp add: str_find_None)
  next
    case (Cons a as)
    then show ?thesis using str_find_tag [OF ok(3), of ?y] by (simp add: glm_arg_def case_prod_beta)
  qed
  then show ?thesis
    using ok(1,2) glm_args_of [OF ok(4,5,6)] unfolding strip
    by (simp add: glm_block_def c glm_meaning_def strip_id \<open>stripped (n @ ?y)\<close> Let_def) (auto simp: strip_id glm_args_def)
qed

lemma glm_render_closed:
  assumes "glm_call_ok pj tools c"
  shows "\<not> sublist ''</tool_call>'' (render_glm c)"
  using assms sublist_tag_append [of "CHR ''<''" "''/tool_call>''" "concat (map glm_arg (snd c))" "fst c"]
    glm_args_closed [of "snd c"] glm_args_hd [of "snd c"]
  by (simp add: glm_call_ok_def contains_iff render_glm_def)

interpretation glm: xml_call_syntax "glm_block pj tools" render_glm "glm_meaning pj" "glm_call_ok pj tools"
  for pj :: "'f py_json" and tools :: "'f json"
  by unfold_locales (simp_all add: glm_block_render glm_render_closed)

subsection \<open>Qwen XML calls\<close>

text \<open>
  A call as the Qwen templates write it: a function element around one parameter element per argument, each value on
  lines of its own. A name is a word without spaces and angle brackets.
\<close>

type_synonym xml_call = "string \<times> (string \<times> string) list"

abbreviation "NL \<equiv> [CHR 0x0A]"

definition qwen_param :: "string \<times> string \<Rightarrow> string" where
  "qwen_param a = ''<parameter='' @ fst a @ ''>'' @ NL @ snd a @ NL @ ''</parameter>'' @ NL"

definition render_qwen :: "xml_call \<Rightarrow> string" where
  "render_qwen c = NL @ ''<function='' @ fst c @ ''>'' @ NL @ concat (map qwen_param (snd c)) @ ''</function>'' @ NL"

definition xml_name :: "string \<Rightarrow> bool" where
  "xml_name s \<longleftrightarrow> s \<noteq> [] \<and> list_all (\<lambda>c. \<not> is_space c \<and> c \<noteq> CHR ''<'' \<and> c \<noteq> CHR ''>'') s"

definition qwen_arg_ok :: "string \<times> string \<Rightarrow> bool" where
  "qwen_arg_ok a \<longleftrightarrow> xml_name (fst a) \<and> \<not> contains (snd a) ''</parameter>'' \<and> \<not> contains (snd a) ''</function>'' \<and>
     \<not> contains (snd a) ''</tool_call>''"

definition qwen_call_ok :: "xml_call \<Rightarrow> bool" where
  "qwen_call_ok c \<longleftrightarrow> xml_name (fst c) \<and> list_all qwen_arg_ok (snd c) \<and> distinct (map fst (snd c))"

definition qwen_meaning :: "'f py_json \<Rightarrow> xml_call \<Rightarrow> call" where
  "qwen_meaning pj c = (fst c, pj_dumps pj (JDict (map (\<lambda>(k, raw). (k, coerce_value pj raw)) (snd c))))"

lemma xml_name_props:
  assumes "xml_name n"
  shows "takeWhile (\<lambda>c. c \<noteq> CHR ''>'' \<and> \<not> is_space c) (n @ CHR ''>'' # y) = n" "strip n = n" "n \<noteq> []" "CHR ''<'' \<notin> set n"
proof -
  show "takeWhile (\<lambda>c. c \<noteq> CHR ''>'' \<and> \<not> is_space c) (n @ CHR ''>'' # y) = n"
    using assms by (subst takeWhile_append2) (auto simp: xml_name_def list_all_iff)
  show "strip n = n" using assms by (intro strip_id) (auto simp: xml_name_def stripped_def list_all_iff)
  show "n \<noteq> []" "CHR ''<'' \<notin> set n" using assms by (auto simp: xml_name_def list_all_iff)
qed

lemma element_match_of:
  assumes "xml_name n" "\<not> sublist (c # t) body" "c \<notin> set t"
  shows "element_match opening (c # t) (opening @ n @ ''>'' @ body @ (c # t) @ y) = Some ((n, body), y)"
proof -
  have "\<not> is_space (CHR ''>'')" by (simp add: is_space_def)
  then have "lstrip (''>'' @ body @ (c # t) @ y) = ''>'' @ body @ (c # t) @ y" by (intro lstrip_id) simp
  then show ?thesis
    using xml_name_props(1,3) [OF assms(1)] str_find_tag [OF assms(2,3), of "(c # t) @ y"] by (simp add: element_match_def)
qed

lemma element_match_None: "\<not> prefix opening s \<Longrightarrow> element_match opening closing s = None"
  by (simp add: element_match_def)

lemma coerce_value_lines [simp]: "coerce_value pj (NL @ raw @ NL) = coerce_value pj raw"
  using strip_spaces [of NL NL raw] by (simp add: coerce_value_def is_space_def)

abbreviation "param_match \<equiv> element_match ''<parameter='' ''</parameter>''"

lemma scan_qwen_params:
  assumes "list_all qwen_arg_ok args"
  shows "fst (re_scan param_match (NL @ concat (map qwen_param args))) = map (\<lambda>(k, raw). (k, NL @ raw @ NL)) args"
  using assms
proof (induction args)
  case Nil
  show ?case by (simp add: re_scan.simps [of param_match NL] element_match_None)
next
  case (Cons a args)
  let ?y = "NL @ concat (map qwen_param args)"
  let ?s = "''<parameter='' @ fst a @ ''>'' @ (NL @ snd a @ NL) @ ''</parameter>'' @ ?y"
  have ok: "xml_name (fst a)" "\<not> sublist ''</parameter>'' (snd a)" using Cons.prems by (simp_all add: qwen_arg_ok_def contains_iff)
  then have "\<not> sublist ''</parameter>'' (NL @ snd a @ NL)"
    using sublist_snoc_other [of "''</parameter>''" "CHR 0x0A"] by (simp add: sublist_Cons_right)
  then have "param_match ?s = Some ((fst a, NL @ snd a @ NL), ?y)" by (intro element_match_of ok(1)) simp_all
  then have "re_scan param_match ?s = ((fst a, NL @ snd a @ NL) # fst (re_scan param_match ?y), snd (re_scan param_match ?y))"
    by (rule re_scan_hit) simp
  moreover have "re_scan param_match (NL @ ?s) = (fst (re_scan param_match ?s), NL @ snd (re_scan param_match ?s))"
    by (rule re_scan_skip) (simp add: element_match_None)
  moreover have "NL @ concat (map qwen_param (a # args)) = NL @ ?s" by (simp add: qwen_param_def)
  ultimately have "fst (re_scan param_match (NL @ concat (map qwen_param (a # args)))) =
      (fst a, NL @ snd a @ NL) # fst (re_scan param_match ?y)" by (simp only: fst_conv)
  also have "fst (re_scan param_match ?y) = map (\<lambda>(k, raw). (k, NL @ raw @ NL)) args" using Cons by simp
  finally show ?case by (simp add: case_prod_beta)
qed

lemma qwen_params_clear:
  assumes "CHR ''<'' \<notin> set t" "t \<noteq> []" "last t = CHR ''>''" "\<And>y. sublist (CHR ''<'' # t) (''<parameter='' @ y) = sublist (CHR ''<'' # t) y"
    "\<And>y. sublist (CHR ''<'' # t) (''</parameter>'' @ y) = sublist (CHR ''<'' # t) y"
    and "\<forall>a\<in>set args. xml_name (fst a) \<and> \<not> sublist (CHR ''<'' # t) (snd a)"
  shows "\<not> sublist (CHR ''<'' # t) (NL @ concat (map qwen_param args))"
  using assms(6)
proof (induction args)
  case Nil
  then show ?case by (simp add: sublist_Cons_right)
next
  case (Cons a args)
  let ?tag = "CHR ''<'' # t"
  let ?y = "NL @ concat (map qwen_param args)"
  have v: "\<not> sublist ?tag (NL @ snd a @ NL)"
    using Cons.prems sublist_snoc_other [of ?tag "CHR 0x0A" "snd a"] assms(2,3) by (auto simp: sublist_Cons_right)
  then have "\<not> sublist ?tag ((NL @ snd a @ NL) @ ''</parameter>'' @ ?y)"
    using sublist_tag_append [OF assms(1), of "''</parameter>'' @ ?y" "NL @ snd a @ NL"] Cons assms(5) [of ?y] by simp
  then have "\<not> sublist ?tag ((fst a @ ''>'') @ (NL @ snd a @ NL) @ ''</parameter>'' @ ?y)"
    using sublist_skip [of "CHR ''<''" "fst a @ ''>''" t] Cons.prems xml_name_props(4) [of "fst a"] by simp
  then have "\<not> sublist ?tag (''<parameter='' @ (fst a @ ''>'') @ (NL @ snd a @ NL) @ ''</parameter>'' @ ?y)"
    using assms(4) by blast
  moreover have "concat (map qwen_param (a # args)) = ''<parameter='' @ (fst a @ ''>'') @ (NL @ snd a @ NL) @ ''</parameter>'' @ ?y"
    by (simp add: qwen_param_def)
  ultimately show ?case using sublist_skip [of "CHR ''<''" NL t "concat (map qwen_param (a # args))"] by simp
qed

lemma fold_dict_set_new:
  "distinct (map fst kvs) \<Longrightarrow> fst ` set d \<inter> fst ` set kvs = {} \<Longrightarrow> fold (\<lambda>(k, v). dict_set k v) kvs d = d @ kvs"
proof (induction kvs arbitrary: d)
  case (Cons p kvs)
  obtain k v where p: "p = (k, v)" by (cases p)
  have "dict_set k v d = d @ [(k, v)]" using Cons.prems by (intro dict_set_new) (auto simp: p)
  then show ?case using Cons.IH [of "d @ [(k, v)]"] Cons.prems by (auto simp: p)
qed simp

lemma qwen_args_of:
  assumes "list_all qwen_arg_ok args" "distinct (map fst args)"
  shows "fold (\<lambda>(k, v). dict_set (strip k) (coerce_value pj v)) (fst (re_scan param_match (NL @ concat (map qwen_param args)))) [] =
    map (\<lambda>(k, raw). (k, coerce_value pj raw)) args"
proof -
  have "fold (\<lambda>(k, v). dict_set (strip k) (coerce_value pj v)) (map (\<lambda>(k, raw). (k, NL @ raw @ NL)) args) d =
      fold (\<lambda>(k, v). dict_set k v) (map (\<lambda>(k, raw). (k, coerce_value pj raw)) args) d" for d
    using assms(1) by (induction args arbitrary: d) (auto simp: qwen_arg_ok_def xml_name_props(2) simp del: append.simps)
  then show ?thesis
    using fold_dict_set_new [of "map (\<lambda>(k, raw). (k, coerce_value pj raw)) args" "[]"] assms(2)
    unfolding scan_qwen_params [OF assms(1)] by (simp add: comp_def case_prod_beta)
qed

lemma qwen_call_clear:
  assumes "qwen_call_ok c"
  shows "\<not> sublist ''</function>'' (NL @ concat (map qwen_param (snd c)))"
    and "\<not> sublist ''</tool_call>'' (NL @ concat (map qwen_param (snd c)))"
  using assms
  by (intro qwen_params_clear; auto simp: sublist_Cons_right qwen_call_ok_def qwen_arg_ok_def contains_iff list_all_iff)+

lemma qwen_block_render:
  assumes "qwen_call_ok c"
  shows "qwen_block pj (strip (render_qwen c)) = Inr (Some (qwen_meaning pj c))"
proof -
  obtain n args where c: "c = (n, args)" by (cases c)
  let ?body = "NL @ concat (map qwen_param args)"
  let ?s = "''<function='' @ n @ ''>'' @ ?body @ ''</function>''"
  have ok: "xml_name n" "list_all qwen_arg_ok args" "distinct (map fst args)" using assms by (simp_all add: c qwen_call_ok_def)
  have "\<not> is_space (CHR ''<'')" "\<not> is_space (CHR ''>'')" by (simp_all add: is_space_def)
  then have "stripped ?s" by (simp add: stripped_def)
  then have strip: "strip (render_qwen c) = ?s"
    using strip_spaces [of NL NL ?s] strip_id [of ?s] by (simp add: c render_qwen_def is_space_def)
  have "element_match ''<function='' ''</function>'' ?s = Some ((n, ?body), [])"
    using element_match_of [OF ok(1) qwen_call_clear(1) [OF assms, unfolded c snd_conv], of "''<function=''" "[]"] by simp
  then have "re_search (element_match ''<function='' ''</function>'') ?s = Some (n, ?body)"
    unfolding re_search_def by (subst re_scan_hit) auto
  then show ?thesis
    unfolding strip qwen_block_def using qwen_args_of [OF ok(2,3), of pj] xml_name_props(2,3) [OF ok(1)]
    by (simp add: c qwen_meaning_def del: append.simps)
qed

lemma qwen_render_closed:
  assumes "qwen_call_ok c"
  shows "\<not> sublist ''</tool_call>'' (render_qwen c)"
proof -
  let ?tag = "''</tool_call>''"
  let ?body = "NL @ concat (map qwen_param (snd c))"
  have "\<not> sublist ?tag (''</function>'' @ NL)" by (simp add: sublist_Cons_right)
  then have "\<not> sublist ?tag (?body @ ''</function>'' @ NL)"
    using sublist_tag_append [of "CHR ''<''" "''/tool_call>''" "''</function>'' @ NL" ?body] qwen_call_clear(2) [OF assms] by simp
  then have "\<not> sublist ?tag ((fst c @ ''>'') @ ?body @ ''</function>'' @ NL)"
    using sublist_skip [of "CHR ''<''" "fst c @ ''>''" "''/tool_call>''"] assms xml_name_props(4) [of "fst c"]
    by (simp add: qwen_call_ok_def)
  then show ?thesis by (simp add: render_qwen_def sublist_Cons_right)
qed

interpretation qwen: xml_call_syntax "qwen_block pj" render_qwen "qwen_meaning pj" qwen_call_ok
  for pj :: "'f py_json"
  by unfold_locales (simp_all add: qwen_block_render qwen_render_closed)

subsection \<open>Hermes calls\<close>

text \<open>A call as the Hermes templates write it: the text of a JSON object on a line of its own. The value of the text is given with it.\<close>

type_synonym 'f hermes_call = "string \<times> 'f dict"

definition render_hermes :: "'f hermes_call \<Rightarrow> string" where
  "render_hermes c = NL @ fst c @ NL"

definition hermes_call_ok :: "'f py_json \<Rightarrow> 'f hermes_call \<Rightarrow> bool" where
  "hermes_call_ok pj c \<longleftrightarrow>
     prefix ''{'' (fst c) \<and> last (fst c) = CHR ''}'' \<and> \<not> contains (fst c) ''</tool_call>'' \<and>
     (case pj_loads pj (fst c) of Some (JDict d) \<Rightarrow> d = snd c | _ \<Rightarrow> False) \<and>
     (case jget (snd c) ''name'' of JStr name \<Rightarrow> name \<noteq> [] | _ \<Rightarrow> False)"

definition hermes_meaning :: "'f py_json \<Rightarrow> 'f hermes_call \<Rightarrow> call" where
  "hermes_meaning pj c =
     (case jget (snd c) ''name'' of JStr name \<Rightarrow> name | _ \<Rightarrow> [],
      case map_of (snd c) ''arguments'' of None \<Rightarrow> pj_dumps pj (JDict []) | Some (JStr s) \<Rightarrow> s | Some v \<Rightarrow> pj_dumps pj v)"

lemma find_from:
  assumes "P n" "a \<le> n" "n < m" "\<And>i. a \<le> i \<Longrightarrow> i < n \<Longrightarrow> \<not> P i"
  shows "find P [a..<m] = Some n"
proof -
  have "[a..<m] ! (n - a) = n" using assms(2,3) by simp
  moreover have "\<not> P ([a..<m] ! j)" if "j < n - a" for j using that assms(2-4) by simp
  ultimately show ?thesis using assms(1-3) unfolding find_Some_iff by (intro exI [of _ "n - a"]) auto
qed

lemma hermes_match_of:
  assumes "prefix ''{'' x" "last x = CHR ''}''" "\<not> sublist ''</tool_call>'' x"
  shows "hermes_match (''<tool_call>'' @ (NL @ x @ NL) @ ''</tool_call>'' @ y) = Some (x, y)"
proof -
  let ?close = "''</tool_call>''"
  let ?t = "x @ NL @ ?close @ y"
  have x: "x \<noteq> []" "hd x = CHR ''{''" using assms(1) by (auto simp: prefix_def)
  then have len: "2 \<le> length x" using assms(2) by (cases x; cases "tl x") auto
  have t: "lstrip (NL @ ?t) = ?t" using lstrip_spaces [of NL ?t] lstrip_id [of ?t] x by (simp add: is_space_def)
  have tail: "lstrip (NL @ ?close @ y) = ?close @ y"
    using lstrip_spaces [of NL "?close @ y"] lstrip_id [of "?close @ y"] by (simp add: is_space_def)
  let ?P = "\<lambda>e. ?t ! e = CHR ''}'' \<and> prefix ?close (lstrip (drop (e + 1) ?t))"
  have early: "\<not> ?P e" if "e < length x - 1" for e
  proof -
    let ?a = "lstrip (drop (e + 1) x)"
    have "\<not> is_space (last (drop (e + 1) x))" using that assms(2) by (simp add: is_space_def)
    then have a: "?a \<noteq> []" using that last_in_set [of "drop (e + 1) x"] by (auto simp: lstrip_def dropWhile_eq_Nil_conv)
    then have eq: "lstrip (drop (e + 1) ?t) = (?a @ NL) @ ?close @ y" using that lstrip_append_rev [OF a] by simp
    have "suffix ?a x" by (metis lstrip_def suffix_dropWhile suffix_drop suffix_order.trans)
    then have "\<not> sublist ?close ?a" using assms(3) by (meson suffix_imp_sublist sublist_order.order_trans)
    then have "\<not> sublist ?close (?a @ NL)" using sublist_snoc_other [of ?close "CHR 0x0A" ?a] by simp
    then show ?thesis unfolding eq using tag_not_prefix [of "CHR ''<''" "''/tool_call>''" "?a @ NL" 0 "?close @ y"] by simp
  qed
  have "?t ! (length x - 1) = CHR ''}''" using len assms(2) x(1) by (simp add: nth_append last_conv_nth)
  then have found: "?P (length x - 1)" using len tail by simp
  have "find ?P [1..<length ?t] = Some (length x - 1)"
  proof (rule find_from [of ?P, OF found])
    show "\<not> ?P i" if "1 \<le> i" "i < length x - 1" for i by (rule early [OF that(2)])
  qed (use len in simp_all)
  moreover have "prefix ''{'' ?t" using assms(1) by (auto simp: prefix_def)
  ultimately show ?thesis using t tail len by (simp add: hermes_match_def)
qed

interpretation hermes: tool_call_syntax hermes_match "hermes_block pj" render_hermes "hermes_meaning pj" "hermes_call_ok pj"
  for pj :: "'f py_json"
proof
  show "prefix ''<tool_call>'' s" if "hermes_match s = Some r" for s r
    using that by (auto simp: hermes_match_def split: if_splits)
next
  fix c
  assume ok: "hermes_call_ok pj c"
  have x: "prefix ''{'' (fst c)" "last (fst c) = CHR ''}''" "\<not> sublist ''</tool_call>'' (fst c)"
    using ok by (simp_all add: hermes_call_ok_def contains_iff)
  have "strip (fst c) = fst c" using x(1,2) by (intro strip_id) (auto simp: stripped_def prefix_def is_space_def)
  moreover obtain name where "pj_loads pj (fst c) = Some (JDict (snd c))" "jget (snd c) ''name'' = JStr name" "name \<noteq> []"
    using ok unfolding hermes_call_ok_def
    by (cases "pj_loads pj (fst c)"; cases "the (pj_loads pj (fst c))"; cases "jget (snd c) ''name''") simp_all
  ultimately have "hermes_block pj (fst c) = Inr (Some (hermes_meaning pj c))"
    by (simp add: hermes_block_def hermes_meaning_def as_str_def split: option.split json.split)
  then show "\<exists>g. hermes_block pj g = Inr (Some (hermes_meaning pj c)) \<and>
      (\<forall>y. hermes_match (''<tool_call>'' @ render_hermes c @ ''</tool_call>'' @ y) = Some (g, y))"
    using hermes_match_of [OF x] by (auto simp: render_hermes_def)
qed

subsection \<open>Completions are read back\<close>

text \<open>
  A completion: reasoning, content, and calls with the text after each. It is clean when every call is well formed
  for its format and no text outside the calls opens one.
\<close>

definition completion_text :: "('c \<Rightarrow> string) \<Rightarrow> string option \<Rightarrow> string \<Rightarrow> ('c \<times> string) list \<Rightarrow> string" where
  "completion_text render thought content ps = with_reasoning thought (content @ concat (map (call_text render) ps))"

definition clean_completion :: "('c \<Rightarrow> bool) \<Rightarrow> ('c \<Rightarrow> string) \<Rightarrow> string option \<Rightarrow> string \<Rightarrow> ('c \<times> string) list \<Rightarrow> bool" where
  "clean_completion ok render thought content ps \<longleftrightarrow>
     list_all (\<lambda>p. ok (fst p) \<and> \<not> contains (snd p) ''<tool_call>'') ps \<and> \<not> contains content ''<tool_call>'' \<and>
     reasoning_clear thought (content @ concat (map (call_text render) ps))"

definition expected_output :: "('c \<Rightarrow> call) \<Rightarrow> string option \<Rightarrow> string \<Rightarrow> ('c \<times> string) list \<Rightarrow> parsed_output" where
  "expected_output meaning thought content ps =
     \<lparr>po_content = some_text (strip (content @ concat (map snd ps))), po_tool_calls = map (\<lambda>p. meaning (fst p)) ps,
      po_reasoning = (case thought of None \<Rightarrow> None | Some r \<Rightarrow> some_text (strip r))\<rparr>"

lemmas completion_defs = completion_text_def clean_completion_def expected_output_def contains_iff list_all_iff

text \<open>
  C19: what a model writes is read back, in each of the three formats. A clean completion with optional reasoning,
  content, and any number of tool calls with text between them is split into that reasoning, the text outside the
  calls and the calls in order, each with its name and its arguments: for GLM typed as the declared schema types their
  texts, for Qwen as JSON where the text is JSON, for Hermes as the object says.
\<close>

theorem tool_calls_roundtrip:
  "(clean_completion (glm_call_ok pj tools) render_glm thought content gs \<longrightarrow>
      glm_parse_full pj tools (completion_text render_glm thought content gs) =
        Inr (expected_output (glm_meaning pj) thought content gs)) \<and>
   (clean_completion qwen_call_ok render_qwen thought content qs \<longrightarrow>
      qwen_parse_full pj (completion_text render_qwen thought content qs) =
        Inr (expected_output (qwen_meaning pj) thought content qs)) \<and>
   (clean_completion (hermes_call_ok pj) render_hermes thought content hs \<longrightarrow>
      hermes_parse_full pj (completion_text render_hermes thought content hs) =
        Inr (expected_output (hermes_meaning pj) thought content hs))"
  using glm.parse_calls [of gs pj tools content thought] qwen.parse_calls [of qs content thought pj]
    hermes.parse_calls [of hs pj content thought]
  by (simp add: completion_defs glm_parse_full_def qwen_parse_full_def hermes_parse_full_def)

definition sample_json :: "unit py_json" where
  "sample_json =
     \<lparr>pj_loads = (\<lambda>s. if s = ''5'' then Some (JInt 5)
        else if s = ''{call}'' then Some (JDict [(''name'', JStr ''f''), (''arguments'', JDict [(''a'', JInt 5)])]) else None),
      pj_dumps = (\<lambda>v. if v = JDict [(''a'', JInt 5)] then ''{5}'' else ''{}''),
      pj_dumps_utf8 = (\<lambda>v. if v = JDict [(''a'', JStr ''5'')] then ''{text}'' else ''{}''),
      pj_float_true = (\<lambda>_. True), pj_float_str = (\<lambda>_. ''0''), pj_repr = (\<lambda>_. ''?''), pj_float_int = (\<lambda>_. Inr 0), pj_int_float = (\<lambda>_. Inr ()),
      pj_str_float = (\<lambda>_. Inr ()), pj_str_int = (\<lambda>_. Inr 0)\<rparr>"

definition sample_tools :: "unit json" where
  "sample_tools = JList [JDict [(''name'', JStr ''f''),
     (''input_schema'', JDict [(''properties'', JDict [(''a'', JDict [(''anyOf'', JList [JDict [(''type'', JStr ''string'')]])])])])]]"

theorem tool_calls_roundtrip_witness:
  "glm_parse_full sample_json sample_tools
     ''hm </think>ok <tool_call>f<arg_key>a</arg_key><arg_value>5</arg_value></tool_call>.'' =
     Inr \<lparr>po_content = Some ''ok .'', po_tool_calls = [(''f'', ''{text}'')], po_reasoning = Some ''hm''\<rparr> \<and>
   qwen_parse_full sample_json (''hm </think>ok <tool_call>'' @ NL @ ''<function=f>'' @ NL @ ''<parameter=a>'' @ NL @ ''5'' @ NL @
      ''</parameter>'' @ NL @ ''</function>'' @ NL @ ''</tool_call>.'') =
     Inr \<lparr>po_content = Some ''ok .'', po_tool_calls = [(''f'', ''{5}'')], po_reasoning = Some ''hm''\<rparr> \<and>
   hermes_parse_full sample_json (''hm </think>ok <tool_call>'' @ NL @ ''{call}'' @ NL @ ''</tool_call>.'') =
     Inr \<lparr>po_content = Some ''ok .'', po_tool_calls = [(''f'', ''{5}'')], po_reasoning = Some ''hm''\<rparr>"
proof -
  let ?gs = "[((''f'', [(''a'', ''5'', JStr ''5'')]), ''.'')] :: (unit glm_call \<times> string) list"
  let ?qs = "[((''f'', [(''a'', ''5'')]), ''.'')] :: (xml_call \<times> string) list"
  let ?hs = "[((''{call}'', [(''name'', JStr ''f''), (''arguments'', JDict [(''a'', JInt 5)])]), ''.'')] :: (unit hermes_call \<times> string) list"
  have "clean_completion (glm_call_ok sample_json sample_tools) render_glm (Some ''hm '') ''ok '' ?gs" by code_simp
  moreover have "clean_completion qwen_call_ok render_qwen (Some ''hm '') ''ok '' ?qs" by code_simp
  moreover have "clean_completion (hermes_call_ok sample_json) render_hermes (Some ''hm '') ''ok '' ?hs" by code_simp
  moreover have "expected_output (glm_meaning sample_json) (Some ''hm '') ''ok '' ?gs =
      \<lparr>po_content = Some ''ok .'', po_tool_calls = [(''f'', ''{text}'')], po_reasoning = Some ''hm''\<rparr>" by code_simp
  moreover have "expected_output (qwen_meaning sample_json) (Some ''hm '') ''ok '' ?qs =
      \<lparr>po_content = Some ''ok .'', po_tool_calls = [(''f'', ''{5}'')], po_reasoning = Some ''hm''\<rparr>" by code_simp
  moreover have "expected_output (hermes_meaning sample_json) (Some ''hm '') ''ok '' ?hs =
      \<lparr>po_content = Some ''ok .'', po_tool_calls = [(''f'', ''{5}'')], po_reasoning = Some ''hm''\<rparr>" by code_simp
  ultimately show ?thesis
    using tool_calls_roundtrip [of sample_json sample_tools "Some ''hm ''" "''ok ''" ?gs ?qs ?hs]
    by (simp add: completion_text_def with_reasoning_def call_text_def render_glm_def glm_arg_def render_qwen_def qwen_param_def render_hermes_def)
qed

end
