(* ===== verification/Anthropic_Api.thy ===== *)
theory Anthropic_Api
  imports Tool_Parsers
begin

section \<open>Anthropic requests (\<open>server/anthropic_api.py\<close>, \<open>server/openai_server.py\<close>)\<close>

text \<open>
  The request side of the Anthropic Messages API: a request body becomes the messages, tools and sampling parameters
  of the chat path, with the errors the code returns to the client, and the messages are normalised and rendered into
  a prompt. The chat template and the tokenizer are parameters.
\<close>

subsection \<open>Errors\<close>

text \<open>\<open>AnthropicError\<close> with its status code and message, or an exception of Python's library that the handlers do not catch.\<close>

datatype api_error = AnthropicError int string | Uncaught py_error

type_synonym 'a api = "api_error + 'a"

definition abind :: "'a api \<Rightarrow> ('a \<Rightarrow> 'b api) \<Rightarrow> 'b api" where
  "abind r f = (case r of Inl e \<Rightarrow> Inl e | Inr x \<Rightarrow> f x)"

definition lift_res :: "'a res \<Rightarrow> 'a api" where
  "lift_res r = (case r of Inl e \<Rightarrow> Inl (Uncaught e) | Inr x \<Rightarrow> Inr x)"

fun fold_api :: "('x \<Rightarrow> 's \<Rightarrow> 's api) \<Rightarrow> 'x list \<Rightarrow> 's \<Rightarrow> 's api" where
  "fold_api f [] s = Inr s"
| "fold_api f (x # xs) s = abind (f x s) (fold_api f xs)"

lemma abind_simps [simp]: "abind (Inl e) f = Inl e" "abind (Inr x) f = f x"
  by (simp_all add: abind_def)

lemma abind_Inr_iff: "abind r f = Inr y \<longleftrightarrow> (\<exists>x. r = Inr x \<and> f x = Inr y)"
  by (cases r) simp_all

lemma fold_api_invariant:
  assumes "fold_api f xs s = Inr s'" "P s" "\<And>x s s'. P s \<Longrightarrow> f x s = Inr s' \<Longrightarrow> P s'"
  shows "P s'"
  using assms(1,2)
proof (induction xs arbitrary: s)
  case (Cons x xs)
  then obtain s1 where "f x s = Inr s1" "fold_api f xs s1 = Inr s'" by (auto simp: abind_Inr_iff)
  then show ?case using Cons assms(3) by blast
qed simp

subsection \<open>Volatile headers\<close>

text \<open>
  \<open>x-anthropic-billing-header:\s*(?:[\w.\-]+=[^;]*;\s*)+\<close> without regard to case. No part of the expression can match in
  two ways: a key ends at its equals sign and a value at the first semicolon.
\<close>

definition is_key_char :: "char \<Rightarrow> bool" where
  "is_key_char c \<longleftrightarrow> is_word c \<or> c = CHR ''.'' \<or> c = CHR ''-''"

definition header_field :: "string \<Rightarrow> string option" where
  "header_field s =
     (let key = takeWhile is_key_char s; t = drop (length key) s; u = dropWhile (\<lambda>c. c \<noteq> CHR '';'') (drop 1 t)
      in if key = [] \<or> \<not> prefix ''='' t \<or> u = [] then None else Some (lstrip (tl u)))"

lemma header_field_shorter: "header_field s = Some t \<Longrightarrow> length t < length s"
proof -
  assume a: "header_field s = Some t"
  let ?k = "takeWhile is_key_char s"
  let ?u = "dropWhile (\<lambda>c. c \<noteq> CHR '';'') (drop 1 (drop (length ?k) s))"
  have t: "t = lstrip (tl ?u)" "?u \<noteq> []" using a by (auto simp: header_field_def Let_def split: if_splits)
  have "length t \<le> length (tl ?u)" unfolding t lstrip_def by (rule length_dropWhile_le)
  also have "\<dots> < length ?u" using t(2) by (cases ?u) auto
  also have "\<dots> \<le> length (drop 1 (drop (length ?k) s))" by (rule length_dropWhile_le)
  finally show ?thesis by simp
qed

function header_fields :: "string \<Rightarrow> string" where
  "header_fields s = (case header_field s of None \<Rightarrow> s | Some t \<Rightarrow> header_fields t)"
  by pat_completeness auto
termination
  by (relation "measure length") (auto dest: header_field_shorter)

declare header_fields.simps [simp del]

abbreviation "BILLING \<equiv> ''x-anthropic-billing-header:''"

definition billing_match :: "string \<Rightarrow> (unit \<times> string) option" where
  "billing_match s =
     (if py_lower (take 27 s) = BILLING
      then map_option (\<lambda>t. ((), header_fields t)) (header_field (lstrip (drop 27 s))) else None)"

definition strip_volatile_headers :: "string \<Rightarrow> string" where
  "strip_volatile_headers s = snd (re_scan billing_match s)"

subsection \<open>Content blocks and tools\<close>

definition block_text :: "'f json \<Rightarrow> string" where
  "block_text block = (case block of
     JStr s \<Rightarrow> s
   | JDict d \<Rightarrow> if jget d ''type'' = JStr ''text'' then (case as_str (jget d ''text'') of Some t \<Rightarrow> t | None \<Rightarrow> []) else []
   | _ \<Rightarrow> [])"

definition text_from_blocks :: "'f json \<Rightarrow> string" where
  "text_from_blocks content = (case content of JStr s \<Rightarrow> s | JList blocks \<Rightarrow> concat (map block_text blocks) | _ \<Rightarrow> [])"

definition convert_tool :: "'f py_json \<Rightarrow> 'f json \<Rightarrow> 'f json option" where
  "convert_tool pj tool =
     (case as_dict tool of
        None \<Rightarrow> None
      | Some t \<Rightarrow>
          if \<not> truthy pj (jget t ''name'') then None
          else Some (JDict
            [(''type'', JStr ''function''),
             (''function'', JDict
                [(''name'', jget t ''name''),
                 (''description'', case map_of t ''description'' of None \<Rightarrow> JStr [] | Some v \<Rightarrow> v),
                 (''parameters'', or_else pj (jget t ''input_schema'') (JDict [(''type'', JStr ''object''), (''properties'', JDict [])]))])]))"

text \<open>\<open>None\<close> of the code is \<^const>\<open>JNull\<close>.\<close>

definition convert_tools :: "'f py_json \<Rightarrow> 'f json \<Rightarrow> 'f json" where
  "convert_tools pj tools =
     (case as_list tools of
        None \<Rightarrow> JNull
      | Some ts \<Rightarrow> (let out = List.map_filter (convert_tool pj) ts in if out = [] then JNull else JList out))"

subsection \<open>Messages\<close>

record 'f turn_parts =
  tp_text :: "string list"
  tp_calls :: "'f json list"
  tp_results :: "('f json \<times> string) list"

definition openai_call :: "'f py_json \<Rightarrow> 'f dict \<Rightarrow> 'f json" where
  "openai_call pj block =
     JDict [(''id'', jget block ''id''), (''type'', JStr ''function''),
       (''function'', JDict [(''name'', jget block ''name''),
          (''arguments'', JStr (pj_dumps pj (or_else pj (jget block ''input'') (JDict []))))])]"

definition add_block :: "'f py_json \<Rightarrow> 'f json \<Rightarrow> 'f turn_parts \<Rightarrow> 'f turn_parts api" where
  "add_block pj block parts =
     (case as_dict block of
        None \<Rightarrow> Inr parts
      | Some d \<Rightarrow>
          (let btype = jget d ''type''
           in if btype = JStr ''text''
              then Inr (case as_str (jget d ''text'') of None \<Rightarrow> parts | Some t \<Rightarrow> parts\<lparr>tp_text := tp_text parts @ [t]\<rparr>)
              else if btype = JStr ''tool_use'' then Inr (parts\<lparr>tp_calls := tp_calls parts @ [openai_call pj d]\<rparr>)
              else if btype = JStr ''tool_result''
              then Inr (parts\<lparr>tp_results := tp_results parts @ [(jget d ''tool_use_id'', text_from_blocks (jget d ''content''))]\<rparr>)
              else if btype \<in> {JStr ''thinking'', JStr ''redacted_thinking''} then Inr parts
              else if btype = JStr ''image''
              then Inl (AnthropicError 400 ''image content blocks are not supported by this text-only model'')
              else Inr parts))"

definition message :: "'f json \<Rightarrow> string \<Rightarrow> 'f dict" where
  "message role content = [(''role'', role), (''content'', JStr content)]"

definition turn_messages :: "'f json \<Rightarrow> 'f turn_parts \<Rightarrow> 'f dict list" where
  "turn_messages role parts =
     (let joined = concat (tp_text parts)
      in if role = JStr ''assistant''
         then [message role joined @ (if tp_calls parts = [] then [] else [(''tool_calls'', JList (tp_calls parts))])]
         else map (\<lambda>(tool_use_id, result_text).
                [(''role'', JStr ''tool''), (''tool_call_id'', tool_use_id), (''content'', JStr result_text)]) (tp_results parts) @
              (if joined \<noteq> [] \<or> tp_results parts = [] then [message (JStr ''user'') joined] else []))"

text \<open>One message of the request; the state is the system texts and the messages so far.\<close>

definition convert_message ::
  "'f py_json \<Rightarrow> 'f json \<Rightarrow> string list \<times> 'f dict list \<Rightarrow> (string list \<times> 'f dict list) api" where
  "convert_message pj m st =
     (case st of (system_texts, messages) \<Rightarrow>
        (case as_dict m of
           None \<Rightarrow> Inr st
         | Some d \<Rightarrow>
             (let role = jget d ''role''; content = jget d ''content''
              in if role = JStr ''system''
                 then (let t = text_from_blocks content in Inr (if t = [] then st else (system_texts @ [t], messages)))
                 else (case content of
                         JStr s \<Rightarrow> Inr (system_texts, messages @ [message role s])
                       | JList blocks \<Rightarrow>
                           abind (fold_api (add_block pj) blocks \<lparr>tp_text = [], tp_calls = [], tp_results = []\<rparr>) (\<lambda>parts.
                             Inr (system_texts, messages @ turn_messages role parts))
                       | _ \<Rightarrow> Inr (system_texts, messages @ [message role []])))))"

fun join_texts :: "string \<Rightarrow> string list \<Rightarrow> string" where
  "join_texts sep [] = []"
| "join_texts sep [s] = s"
| "join_texts sep (s # t # ss) = s @ sep @ join_texts sep (t # ss)"

definition system_message :: "string list \<Rightarrow> 'f dict list" where
  "system_message system_texts =
     (if system_texts = [] then []
      else [message (JStr ''system'') (strip_volatile_headers (join_texts [CHR 0x0A, CHR 0x0A] system_texts))])"

definition anthropic_to_openai_messages :: "'f py_json \<Rightarrow> 'f dict \<Rightarrow> ('f dict list \<times> 'f json \<times> 'f json) api" where
  "anthropic_to_openai_messages pj body =
     (let t = text_from_blocks (jget body ''system'')
      in case as_list (jget body ''messages'') of
           None \<Rightarrow> Inl (AnthropicError 400 ''messages must be a list'')
         | Some raw_messages \<Rightarrow>
             abind (fold_api (convert_message pj) raw_messages (if t = [] then [] else [t], [])) (\<lambda>(system_texts, messages).
               Inr (system_message system_texts @ messages, convert_tools pj (jget body ''tools''), jget body ''tool_choice'')))"

definition uses_tools :: "'f json \<Rightarrow> 'f json \<Rightarrow> bool" where
  "uses_tools tools tool_choice \<longleftrightarrow> tools \<notin> {JNull, JList []} \<and>
     \<not> (case as_dict tool_choice of Some d \<Rightarrow> jget d ''type'' = JStr ''none'' | None \<Rightarrow> False)"

subsection \<open>Parameters of a request\<close>

record 'f sampling_params =
  sp_temperature :: 'f
  sp_max_tokens :: int
  sp_ignore_eos :: bool

text \<open>\<open>isinstance(v, int)\<close>, which is also true of booleans.\<close>

definition as_int :: "'f json \<Rightarrow> int option" where
  "as_int v = (case v of JInt i \<Rightarrow> Some i | JBool b \<Rightarrow> Some (if b then 1 else 0) | _ \<Rightarrow> None)"

definition build_sampling_params :: "'f py_json \<Rightarrow> 'f dict \<Rightarrow> 'f sampling_params api" where
  "build_sampling_params pj body =
     (let bad = AnthropicError 400 ''max_tokens is required and must be a positive integer''
      in case as_int (jget body ''max_tokens'') of
           None \<Rightarrow> Inl bad
         | Some max_tokens \<Rightarrow>
             if max_tokens \<le> 0 then Inl bad
             else (let temperature = jget body ''temperature''
                   in abind (lift_res (py_float pj (if temperature = JNull then JInt 1 else temperature))) (\<lambda>t.
                        Inr \<lparr>sp_temperature = t, sp_max_tokens = max_tokens, sp_ignore_eos = False\<rparr>)))"

definition migration_metadata :: "'f py_json \<Rightarrow> 'f dict \<Rightarrow> (int \<times> int option) api" where
  "migration_metadata pj kv_transfer =
     abind (lift_res (py_int pj (or_else pj (jget kv_transfer ''seq_id'') (JInt 0)))) (\<lambda>seq_id.
       if seq_id \<le> 0 then Inl (AnthropicError 400 ''missing positive seq_id'')
       else (let first_token = jget kv_transfer ''first_token''
             in if first_token = JNull then Inr (seq_id, None)
                else abind (lift_res (py_int pj first_token)) (\<lambda>t. Inr (seq_id, Some t))))"

definition parse_stop_sequences :: "'f dict \<Rightarrow> string list" where
  "parse_stop_sequences body =
     (case jget body ''stop_sequences'' of
        JStr raw \<Rightarrow> [raw]
      | JList raw \<Rightarrow> filter (\<lambda>s. s \<noteq> []) (List.map_filter as_str raw)
      | _ \<Rightarrow> [])"

subsection \<open>Prompt construction of the chat server\<close>

definition flatten_content :: "'f json \<Rightarrow> 'f json" where
  "flatten_content content =
     (case as_list content of
        None \<Rightarrow> content
      | Some parts \<Rightarrow> JStr (concat (map (\<lambda>part. case part of
            JStr s \<Rightarrow> s
          | JDict d \<Rightarrow> (case as_str (jget d ''text'') of Some t \<Rightarrow> t | None \<Rightarrow> [])
          | _ \<Rightarrow> []) parts)))"

definition normalize_arguments :: "'f py_json \<Rightarrow> 'f dict \<Rightarrow> 'f dict" where
  "normalize_arguments pj fn =
     (case jget fn ''arguments'' of
        JStr args \<Rightarrow>
          (let parsed = (if strip args = [] then JDict [] else (case pj_loads pj args of Some v \<Rightarrow> v | None \<Rightarrow> JDict []))
           in dict_set ''arguments'' (if as_dict parsed = None then JDict [] else parsed) fn)
      | JNull \<Rightarrow> dict_set ''arguments'' (JDict []) fn
      | _ \<Rightarrow> fn)"

definition normalize_call :: "'f py_json \<Rightarrow> 'f json \<Rightarrow> 'f json" where
  "normalize_call pj call =
     (case as_dict call of
        None \<Rightarrow> call
      | Some c \<Rightarrow> (case as_dict (jget c ''function'') of
            None \<Rightarrow> call | Some fn \<Rightarrow> JDict (dict_set ''function'' (JDict (normalize_arguments pj fn)) c)))"

definition normalize_message :: "'f py_json \<Rightarrow> 'f dict \<Rightarrow> 'f dict" where
  "normalize_message pj msg =
     (let m1 = (case map_of msg ''content'' of None \<Rightarrow> msg | Some c \<Rightarrow> dict_set ''content'' (flatten_content c) msg)
      in case as_list (jget m1 ''tool_calls'') of
           None \<Rightarrow> m1 | Some calls \<Rightarrow> dict_set ''tool_calls'' (JList (map (normalize_call pj) calls)) m1)"

definition normalize_messages :: "'f py_json \<Rightarrow> 'f json list \<Rightarrow> 'f json list" where
  "normalize_messages pj messages =
     map (\<lambda>m. case as_dict m of None \<Rightarrow> m | Some d \<Rightarrow> JDict (normalize_message pj d)) messages"

text \<open>\<open>text.rfind(s)\<close>.\<close>

definition str_rfind :: "'c list \<Rightarrow> 'c list \<Rightarrow> nat option" where
  "str_rfind text s = find (\<lambda>i. prefix s (drop i text)) (rev [0..<Suc (length text)])"

definition prompt_opens_thinking :: "string \<Rightarrow> bool" where
  "prompt_opens_thinking prompt \<longleftrightarrow>
     list_ex (\<lambda>(opener, closer).
       case str_rfind prompt opener of
         None \<Rightarrow> False
       | Some open_idx \<Rightarrow> (case str_rfind prompt closer of None \<Rightarrow> True | Some close_idx \<Rightarrow> close_idx < open_idx))
       [(''<think>'', ''</think>''), (THINK_OPEN, THINK_CLOSE)]"

record ('t, 'f) chat_tokenizer =
  ct_template :: "'f json list \<Rightarrow> 'f json \<Rightarrow> string res"
  ct_encode :: "string \<Rightarrow> 't list"

definition format_value :: "'f py_json \<Rightarrow> 'f json \<Rightarrow> string" where
  "format_value pj v = (case as_str v of Some s \<Rightarrow> s | None \<Rightarrow> pj_repr pj v)"

definition fallback_prompt :: "'f py_json \<Rightarrow> 'f json list \<Rightarrow> string res" where
  "fallback_prompt pj messages =
     rbind (mapr (\<lambda>m. case as_dict m of
         None \<Rightarrow> Inl AttributeError
       | Some d \<Rightarrow> Inr (format_value pj (case map_of d ''role'' of None \<Rightarrow> JStr ''user'' | Some v \<Rightarrow> v) @ '': '' @
                       format_value pj (case map_of d ''content'' of None \<Rightarrow> JStr [] | Some v \<Rightarrow> v))) messages) (\<lambda>parts.
       Inr (join_texts [CHR 0x0A] parts @ [CHR 0x0A] @ ''assistant:''))"

definition encode_chat ::
  "'f py_json \<Rightarrow> ('t, 'f) chat_tokenizer \<Rightarrow> 'f json list \<Rightarrow> 'f json \<Rightarrow> ('t list \<times> bool) res" where
  "encode_chat pj tok messages0 tools =
     (let messages = normalize_messages pj messages0;
          prompt = (case ct_template tok messages (if truthy pj tools then tools else JNull) of
             Inr p \<Rightarrow> Inr p
           | Inl (ValueError e) \<Rightarrow> fallback_prompt pj messages
           | Inl TypeError \<Rightarrow> fallback_prompt pj messages
           | Inl NotImplementedErr \<Rightarrow> fallback_prompt pj messages
           | Inl e \<Rightarrow> Inl e)
      in rbind prompt (\<lambda>p. Inr (ct_encode tok p, prompt_opens_thinking p)))"

subsection \<open>The system message\<close>

text \<open>The system text a message of the request contributes.\<close>

definition system_text_of :: "'f json \<Rightarrow> string list" where
  "system_text_of m =
     (case as_dict m of
        Some d \<Rightarrow> if jget d ''role'' = JStr ''system'' \<and> text_from_blocks (jget d ''content'') \<noteq> []
                  then [text_from_blocks (jget d ''content'')] else []
      | None \<Rightarrow> [])"

definition request_system_texts :: "'f dict \<Rightarrow> string list" where
  "request_system_texts body =
     (let t = text_from_blocks (jget body ''system'')
      in (if t = [] then [] else [t]) @
         (case as_list (jget body ''messages'') of None \<Rightarrow> [] | Some ms \<Rightarrow> concat (map system_text_of ms)))"

lemma turn_messages_role: "m \<in> set (turn_messages role parts) \<Longrightarrow> role \<noteq> JStr ''system'' \<Longrightarrow> jget m ''role'' \<noteq> JStr ''system''"
  by (auto simp: turn_messages_def message_def Let_def split: if_splits)

lemma convert_message_step:
  assumes "convert_message pj m (sys, msgs) = Inr (sys', msgs')"
  shows "sys' = sys @ system_text_of m \<and> (\<exists>new. msgs' = msgs @ new \<and> (\<forall>d\<in>set new. jget d ''role'' \<noteq> JStr ''system''))"
proof (cases "as_dict m")
  case (Some d)
  show ?thesis
  proof (cases "jget d ''role'' = JStr ''system''")
    case True
    then show ?thesis using assms Some by (auto simp: convert_message_def system_text_of_def Let_def split: if_splits)
  next
    case False
    then have "system_text_of m = []" using Some by (simp add: system_text_of_def)
    then show ?thesis
      using assms Some False
      by (cases "jget d ''content''") (auto simp: convert_message_def abind_Inr_iff message_def dest: turn_messages_role)
  qed
qed (use assms in \<open>simp add: convert_message_def system_text_of_def\<close>)

lemma convert_messages_fold:
  assumes "fold_api (convert_message pj) ms (sys, msgs) = Inr (sys', msgs')"
  shows "sys' = sys @ concat (map system_text_of ms) \<and> (\<exists>new. msgs' = msgs @ new \<and> (\<forall>d\<in>set new. jget d ''role'' \<noteq> JStr ''system''))"
  using assms
proof (induction ms arbitrary: sys msgs)
  case (Cons m ms)
  obtain sys1 msgs1 where step: "convert_message pj m (sys, msgs) = Inr (sys1, msgs1)"
    "fold_api (convert_message pj) ms (sys1, msgs1) = Inr (sys', msgs')"
    using Cons.prems by (auto simp: abind_Inr_iff)
  obtain new1 where one: "sys1 = sys @ system_text_of m" "msgs1 = msgs @ new1" "\<forall>d\<in>set new1. jget d ''role'' \<noteq> JStr ''system''"
    using convert_message_step [OF step(1)] by blast
  obtain new2 where two: "sys' = sys1 @ concat (map system_text_of ms)" "msgs' = msgs1 @ new2"
    "\<forall>d\<in>set new2. jget d ''role'' \<noteq> JStr ''system''"
    using Cons.IH [OF step(2)] by blast
  then show ?case using one by (auto intro!: exI [of _ "new1 @ new2"])
qed simp

text \<open>A billing header as a client folds it into the system text.\<close>

definition billing_field :: "string \<times> string \<Rightarrow> string" where
  "billing_field f = fst f @ ''='' @ snd f @ ''; ''"

definition billing_header :: "(string \<times> string) list \<Rightarrow> string" where
  "billing_header fs = BILLING @ '' '' @ concat (map billing_field fs)"

definition billing_ok :: "(string \<times> string) list \<Rightarrow> bool" where
  "billing_ok fs \<longleftrightarrow> fs \<noteq> [] \<and> list_all (\<lambda>f. fst f \<noteq> [] \<and> list_all is_key_char (fst f) \<and> CHR '';'' \<notin> set (snd f)) fs"

text \<open>A text that starts with a word and does not continue a header.\<close>

definition header_ends :: "string \<Rightarrow> bool" where
  "header_ends s \<longleftrightarrow> lstrip s = s \<and> header_field s = None"

lemma key_char_no_equals: "\<not> is_key_char (CHR ''='')" "\<not> is_space c \<or> \<not> is_key_char c"
  by (auto simp: is_key_char_def is_word_def is_space_def Let_def)

lemma header_field_of:
  assumes "fst f \<noteq> []" "list_all is_key_char (fst f)" "CHR '';'' \<notin> set (snd f)"
  shows "header_field (billing_field f @ y) = Some (lstrip y)"
proof -
  have key: "takeWhile is_key_char (billing_field f @ y) = fst f"
    using assms(2) key_char_no_equals(1) by (simp add: billing_field_def takeWhile_append2 list_all_iff)
  have "dropWhile (\<lambda>c. c \<noteq> CHR '';'') (snd f @ CHR '';'' # '' '' @ y) = CHR '';'' # '' '' @ y"
    using assms(3) by (subst dropWhile_append2) auto
  moreover have "lstrip ('' '' @ y) = lstrip y" by (rule lstrip_spaces) (simp add: is_space_def)
  ultimately show ?thesis using assms(1) unfolding header_field_def key Let_def by (simp add: billing_field_def)
qed

lemma lstrip_field: "fst f \<noteq> [] \<Longrightarrow> list_all is_key_char (fst f) \<Longrightarrow> lstrip (billing_field f @ y) = billing_field f @ y"
  using key_char_no_equals(2) by (intro lstrip_id) (cases "fst f"; auto simp: billing_field_def)

lemma header_fields_of:
  assumes "list_all (\<lambda>f. fst f \<noteq> [] \<and> list_all is_key_char (fst f) \<and> CHR '';'' \<notin> set (snd f)) fs" "header_ends rest"
  shows "header_fields (concat (map billing_field fs) @ rest) = rest"
  using assms(1)
proof (induction fs)
  case Nil
  then show ?case using assms(2) by (subst header_fields.simps) (simp add: header_ends_def)
next
  case (Cons f fs)
  let ?y = "concat (map billing_field fs) @ rest"
  have "lstrip ?y = ?y" using Cons.prems assms(2) lstrip_field by (cases fs) (auto simp: header_ends_def)
  then have "header_field (billing_field f @ ?y) = Some ?y" using header_field_of [of f ?y] Cons.prems by simp
  then show ?case using Cons by (subst header_fields.simps) simp
qed

lemma strip_billing_header:
  assumes "billing_ok fs" "header_ends rest"
  shows "strip_volatile_headers (billing_header fs @ rest) = strip_volatile_headers rest"
proof -
  obtain f fs' where fs: "fs = f # fs'" using assms(1) by (cases fs) (auto simp: billing_ok_def)
  have ok: "list_all (\<lambda>f. fst f \<noteq> [] \<and> list_all is_key_char (fst f) \<and> CHR '';'' \<notin> set (snd f)) fs"
    using assms(1) by (simp add: billing_ok_def)
  let ?y = "concat (map billing_field fs') @ rest"
  let ?t = "concat (map billing_field fs) @ rest"
  have eq: "billing_header fs @ rest = BILLING @ '' '' @ ?t" by (simp add: billing_header_def)
  have "lstrip ('' '' @ ?t) = ?t"
    using lstrip_spaces [of "'' ''" ?t] lstrip_field [of f ?y] ok by (simp add: fs is_space_def)
  moreover have "lstrip ?y = ?y" using ok assms(2) lstrip_field by (cases fs') (auto simp: fs header_ends_def)
  moreover have "header_field ?t = Some (lstrip ?y)" using header_field_of [of f ?y] ok by (simp add: fs)
  moreover have "header_fields ?y = rest" by (rule header_fields_of) (use ok assms(2) in \<open>auto simp: fs\<close>)
  moreover have "py_lower BILLING = BILLING" by code_simp
  ultimately have "billing_match (BILLING @ '' '' @ ?t) = Some ((), rest)" by (simp add: billing_match_def)
  then have "re_scan billing_match (BILLING @ '' '' @ ?t) = (() # fst (re_scan billing_match rest), snd (re_scan billing_match rest))"
    by (rule re_scan_hit) simp
  then show ?thesis unfolding strip_volatile_headers_def eq by simp
qed

lemma convert_message_sys:
  "convert_message pj m (sys, msgs) = abind (convert_message pj m ([], msgs)) (\<lambda>(s, ms). Inr (sys @ s, ms))"
proof (cases "as_dict m")
  case (Some d)
  then show ?thesis
    by (cases "jget d ''content''")
      (auto simp: convert_message_def Let_def abind_def split: sum.split)
qed (simp add: convert_message_def)

lemma convert_fold_sys:
  "fold_api (convert_message pj) ms (sys, msgs) = abind (fold_api (convert_message pj) ms ([], msgs)) (\<lambda>(s, ms). Inr (sys @ s, ms))"
proof (induction ms arbitrary: sys msgs)
  case (Cons m ms)
  show ?case
  proof (cases "convert_message pj m ([], msgs)")
    case (Inr r)
    obtain s msgs1 where r: "r = (s, msgs1)" by (cases r)
    show ?thesis
      using Cons [of "sys @ s" msgs1] Cons [of s msgs1] Inr r convert_message_sys [of pj m sys msgs]
      by (cases "fold_api (convert_message pj) ms ([], msgs1)") auto
  qed (simp add: convert_message_sys [of pj m sys msgs])
qed simp

lemma join_texts_head: "join_texts sep ((h @ r) # ts) = h @ join_texts sep (r # ts)"
  by (cases ts) simp_all

lemma system_message_header:
  assumes "billing_ok fs" "header_ends (join_texts [CHR 0x0A, CHR 0x0A] (rest # ts))"
  shows "system_message ((billing_header fs @ rest) # ts) = system_message (rest # ts)"
  by (simp only: system_message_def join_texts_head strip_billing_header [OF assms] list.distinct if_False)

abbreviation "without_system body \<equiv> filter (\<lambda>f. fst f \<noteq> ''system'') body"

lemma jget_without_system: "jget (without_system body) k = (if k = ''system'' then JNull else jget body k)"
  by (induction body) auto

lemma converted_with_header:
  assumes "billing_ok fs" "header_ends (join_texts [CHR 0x0A, CHR 0x0A] (prompt # request_system_texts (without_system body)))"
  shows "anthropic_to_openai_messages pj ((''system'', JStr (billing_header fs @ prompt)) # body) =
      (case as_list (jget body ''messages'') of
         None \<Rightarrow> Inl (AnthropicError 400 ''messages must be a list'')
       | Some ms \<Rightarrow> abind (fold_api (convert_message pj) ms ([], [])) (\<lambda>(s, messages).
           Inr (system_message (prompt # s) @ messages, convert_tools pj (jget body ''tools''), jget body ''tool_choice'')))"
proof (cases "as_list (jget body ''messages'')")
  case None
  then show ?thesis by (simp add: anthropic_to_openai_messages_def)
next
  case (Some ms)
  let ?h = "billing_header fs @ prompt"
  have ne: "?h \<noteq> []" by (simp add: billing_header_def)
  have sys: "system_message (?h # s) = system_message (prompt # s)" if "fold_api (convert_message pj) ms ([], []) = Inr (s, m)" for s m
    using system_message_header [OF assms(1), of prompt s] assms(2) convert_messages_fold [OF that] Some
    by (simp add: request_system_texts_def jget_without_system text_from_blocks_def)
  have "fold_api (convert_message pj) ms ([?h], []) = abind (fold_api (convert_message pj) ms ([], [])) (\<lambda>(s, ms). Inr (?h # s, ms))"
    using convert_fold_sys [of pj ms "[?h]" "[]"] by simp
  then show ?thesis
    using Some ne sys
    by (cases "fold_api (convert_message pj) ms ([], [])") (auto simp: anthropic_to_openai_messages_def text_from_blocks_def Let_def)
qed

text \<open>
  C31: the prompt has at most one system message, it comes first, and a volatile header does not change it. The messages
  of an accepted request are the system message of all the system texts of the request in order, if there are any, and
  then messages of other roles. When a client folds its billing header into the system text, the messages do not depend
  on the values of the header's fields.
\<close>

theorem system_text_leads:
  "(anthropic_to_openai_messages pj body = Inr (msgs, tools, choice) \<longrightarrow>
      (\<exists>rest. msgs = system_message (request_system_texts body) @ rest \<and> (\<forall>m\<in>set rest. jget m ''role'' \<noteq> JStr ''system''))) \<and>
   (billing_ok fs \<and> billing_ok fs' \<and>
      header_ends (join_texts [CHR 0x0A, CHR 0x0A] (prompt # request_system_texts (without_system body))) \<longrightarrow>
      anthropic_to_openai_messages pj ((''system'', JStr (billing_header fs @ prompt)) # body) =
      anthropic_to_openai_messages pj ((''system'', JStr (billing_header fs' @ prompt)) # body))"
proof (intro conjI impI)
  assume a: "anthropic_to_openai_messages pj body = Inr (msgs, tools, choice)"
  let ?t = "text_from_blocks (jget body ''system'')"
  obtain ms sys' msgs' where r: "as_list (jget body ''messages'') = Some ms"
    "fold_api (convert_message pj) ms (if ?t = [] then [] else [?t], []) = Inr (sys', msgs')" "msgs = system_message sys' @ msgs'"
    using a by (auto simp: anthropic_to_openai_messages_def Let_def abind_Inr_iff split: option.splits prod.splits)
  then have "sys' = request_system_texts body" "\<forall>d\<in>set msgs'. jget d ''role'' \<noteq> JStr ''system''"
    using convert_messages_fold [OF r(2)] by (auto simp: request_system_texts_def)
  then show "\<exists>rest. msgs = system_message (request_system_texts body) @ rest \<and> (\<forall>m\<in>set rest. jget m ''role'' \<noteq> JStr ''system'')"
    using r(3) by blast
next
  assume a: "billing_ok fs \<and> billing_ok fs' \<and>
      header_ends (join_texts [CHR 0x0A, CHR 0x0A] (prompt # request_system_texts (without_system body)))"
  show "anthropic_to_openai_messages pj ((''system'', JStr (billing_header fs @ prompt)) # body) =
      anthropic_to_openai_messages pj ((''system'', JStr (billing_header fs' @ prompt)) # body)"
    using converted_with_header [of fs prompt body pj] converted_with_header [of fs' prompt body pj] a by simp
qed

definition sample_request :: "unit dict" where
  "sample_request =
     [(''system'', JList [JDict [(''type'', JStr ''text''), (''text'', JStr ''Be brief.'')]]),
      (''messages'', JList
        [JDict [(''role'', JStr ''user''), (''content'', JStr ''hi'')],
         JDict [(''role'', JStr ''system''), (''content'', JStr ''Use tools.'')],
         JDict [(''role'', JStr ''assistant''), (''content'', JList
           [JDict [(''type'', JStr ''thinking'')],
            JDict [(''type'', JStr ''tool_use''), (''id'', JStr ''c1''), (''name'', JStr ''f''), (''input'', JDict [(''a'', JInt 5)])]])],
         JDict [(''role'', JStr ''user''), (''content'', JList
           [JDict [(''type'', JStr ''tool_result''), (''tool_use_id'', JStr ''c1''), (''content'', JStr ''42'')]])]])]"

theorem system_text_leads_witness:
  "(\<exists>rest tools choice. anthropic_to_openai_messages sample_json sample_request =
      Inr (message (JStr ''system'') (''Be brief.'' @ [CHR 0x0A, CHR 0x0A] @ ''Use tools.'') # rest, tools, choice) \<and>
      length rest = 3 \<and> (\<forall>m\<in>set rest. jget m ''role'' \<noteq> JStr ''system'')) \<and>
   anthropic_to_openai_messages sample_json
     ((''system'', JStr (billing_header [(''cch'', ''12ab'')] @ ''Be brief.'')) # tl sample_request) =
   anthropic_to_openai_messages sample_json
     ((''system'', JStr (billing_header [(''cch'', ''99''), (''v'', ''2.1'')] @ ''Be brief.'')) # tl sample_request)"
proof -
  let ?run = "anthropic_to_openai_messages sample_json sample_request"
  let ?m = "message (JStr ''system'') (''Be brief.'' @ [CHR 0x0A, CHR 0x0A] @ ''Use tools.'') :: unit dict"
  have "case ?run of Inl e \<Rightarrow> False | Inr r \<Rightarrow> length (fst r) = 4" by code_simp
  then obtain msgs tools choice where run: "?run = Inr (msgs, tools, choice)" "length msgs = 4" by (cases ?run) auto
  have sys: "system_message (request_system_texts sample_request) = [?m]" by code_simp
  have hyps: "billing_ok [(''cch'', ''12ab'')]" "billing_ok [(''cch'', ''99''), (''v'', ''2.1'')]"
    "header_ends (join_texts [CHR 0x0A, CHR 0x0A] (''Be brief.'' # request_system_texts (without_system (tl sample_request))))"
    by code_simp+
  obtain rest where "msgs = ?m # rest" "\<forall>m\<in>set rest. jget m ''role'' \<noteq> JStr ''system''"
    using system_text_leads [of sample_json sample_request msgs tools choice, THEN conjunct1, rule_format, OF run(1)] unfolding sys by auto
  then have "?run = Inr (?m # rest, tools, choice) \<and> length rest = 3 \<and> (\<forall>m\<in>set rest. jget m ''role'' \<noteq> JStr ''system'')"
    using run by simp
  then show ?thesis
    using hyps system_text_leads [of sample_json "tl sample_request" "[]" JNull JNull
        "[(''cch'', ''12ab'')]" "[(''cch'', ''99''), (''v'', ''2.1'')]" "''Be brief.''"] by blast
qed

end
