(* ===== verification/Anthropic_Stream.thy ===== *)
theory Anthropic_Stream
  imports Anthropic_Api K3_Stream "HOL-Library.Word"
begin

section \<open>Anthropic responses (\<open>server/anthropic_api.py\<close>, \<open>server/openai_server.py\<close>)\<close>

text \<open>
  The response side of the Anthropic Messages API: the stream of a request's text, the non-streaming answer, the
  server-sent events of the streaming answer and the request handlers. A tool call's identifier and the message's are
  fresh UUIDs, given by the server record. What the engine delivers on a request's queue is an argument.
\<close>

subsection \<open>The server\<close>

record tool_call =
  tc_id :: string
  tc_name :: string
  tc_arguments :: string

record 'f server =
  sv_json :: "'f py_json"
  sv_parser :: parser_class
  sv_text :: "(int, char) text_env"
  sv_decode :: "int list \<Rightarrow> string"
  sv_chat :: "(int, 'f) chat_tokenizer"
  sv_model_name :: string
  sv_call_id :: "nat \<Rightarrow> string"
  sv_message_id :: string
  sv_digest :: "string \<Rightarrow> 64 word"

text \<open>What a consumer of \<open>stream_text\<close> reads from the generation once the stream is over.\<close>

record gen_view =
  gv_token_ids :: "int list"
  gv_finish_reason :: string
  gv_parsed :: "parsed_output option"

datatype stream_end = Ended gen_view | EngineError string | Unfinished

definition error_text :: "py_error \<Rightarrow> string" where
  "error_text e = (case e of RuntimeErr s \<Rightarrow> s | _ \<Rightarrow> [])"

definition open_markers :: "parser_class \<Rightarrow> string list" where
  "open_markers cls = (case cls of KimiK3ToolParser \<Rightarrow> [THINK_OPEN, TOOLS_OPEN] | _ \<Rightarrow> [''<tool_call>'', ''<think>''])"

definition json_ok :: "'f py_json \<Rightarrow> string \<Rightarrow> bool" where
  "json_ok pj s \<longleftrightarrow> pj_loads pj s \<noteq> None"

definition k3_call :: "'f py_json \<Rightarrow> string \<times> (string \<times> arg_value) list \<Rightarrow> call" where
  "k3_call pj c =
     (fst c, pj_dumps_utf8 pj (JDict (map (\<lambda>(k, v). (k, case v of
        ArgText s \<Rightarrow> JStr s | ArgJson s \<Rightarrow> (case pj_loads pj s of Some j \<Rightarrow> j | None \<Rightarrow> JStr s))) (snd c))))"

definition k3_output ::
  "'f py_json \<Rightarrow> string option \<times> string option \<times> (string \<times> (string \<times> arg_value) list) list \<Rightarrow> parsed_output" where
  "k3_output pj r = (case r of (content, reasoning, calls) \<Rightarrow>
     \<lparr>po_content = content, po_tool_calls = map (k3_call pj) calls, po_reasoning = reasoning\<rparr>)"

definition parse_text :: "'f server \<Rightarrow> 'f json \<Rightarrow> string \<Rightarrow> parsed_output res" where
  "parse_text sv tools t = (case sv_parser sv of
     HermesToolParser \<Rightarrow> hermes_parse_full (sv_json sv) t
   | Qwen3XMLToolParser \<Rightarrow> qwen_parse_full (sv_json sv) t
   | GLMXMLToolParser \<Rightarrow> glm_parse_full (sv_json sv) tools t
   | KimiK3ToolParser \<Rightarrow> Inr (k3_output (sv_json sv) (parse_full (json_ok (sv_json sv)) t)))"

definition parse_gen :: "'f server \<Rightarrow> gen_view option \<Rightarrow> string \<Rightarrow> 'f json \<Rightarrow> parsed_output res" where
  "parse_gen sv gen t tools =
     (case gen of
        Some g \<Rightarrow> (case gv_parsed g of Some p \<Rightarrow> Inr p | None \<Rightarrow> parse_text sv tools t)
      | None \<Rightarrow> parse_text sv tools t)"

text \<open>The calls as objects with identifiers.\<close>

definition tool_calls_of :: "'f server \<Rightarrow> parsed_output \<Rightarrow> tool_call list" where
  "tool_calls_of sv p =
     map (\<lambda>(i, c). \<lparr>tc_id = sv_call_id sv i, tc_name = fst c, tc_arguments = snd c\<rparr>) (enumerate 0 (po_tool_calls p))"

definition structured_view :: "'f py_json \<Rightarrow> int structured \<Rightarrow> gen_view" where
  "structured_view pj st =
     \<lparr>gv_token_ids = g_token_ids (ss_gen st), gv_finish_reason = g_finish_reason (ss_gen st),
      gv_parsed = Some (k3_output pj (parse_generation st))\<rparr>"

definition raw_view :: "(int, char) raw_state \<Rightarrow> gen_view" where
  "raw_view st = \<lparr>gv_token_ids = g_token_ids (rs_gen st), gv_finish_reason = g_finish_reason (rs_gen st), gv_parsed = None\<rparr>"

definition stream_text ::
  "'f server \<Rightarrow> string list \<Rightarrow> string list \<Rightarrow> int \<Rightarrow> bool \<Rightarrow> int item list \<Rightarrow> char event list \<times> stream_end" where
  "stream_text sv stop hold_markers max_tokens reasoning_open items =
     (if sv_parser sv = KimiK3ToolParser
      then (case stream_structured_text (sv_text sv) (json_ok (sv_json sv)) stop max_tokens items (new_structured reasoning_open) of
              (evs, Complete st) \<Rightarrow> (evs, Ended (structured_view (sv_json sv) st))
            | (evs, Failed e) \<Rightarrow> (evs, EngineError (error_text e))
            | (evs, Pending _) \<Rightarrow> (evs, Unfinished))
      else (case stream_text_raw (sv_text sv) stop hold_markers max_tokens items (new_raw_state reasoning_open) of
              (evs, Finished st) \<Rightarrow> (evs, Ended (raw_view st))
            | (evs, Raised e) \<Rightarrow> (evs, EngineError (error_text e))
            | (evs, Waiting _) \<Rightarrow> (evs, Unfinished)))"

text \<open>The loop variable \<open>gen\<close> is bound by the first yield; it is the object the stream goes on to update.\<close>

definition bound_gen :: "char event list \<Rightarrow> gen_view \<Rightarrow> gen_view option" where
  "bound_gen evs g = (if evs = [] then None else Some g)"

subsection \<open>The answer of a request\<close>

definition tool_input :: "'f py_json \<Rightarrow> tool_call \<Rightarrow> 'f json" where
  "tool_input pj tc =
     (if tc_arguments tc = [] then JDict [] else case pj_loads pj (tc_arguments tc) of Some v \<Rightarrow> v | None \<Rightarrow> JDict [])"

definition text_block :: "string \<Rightarrow> 'f json" where
  "text_block t = JDict [(''type'', JStr ''text''), (''text'', JStr t)]"

definition tool_use_block :: "tool_call \<Rightarrow> 'f json \<Rightarrow> 'f json" where
  "tool_use_block tc inp =
     JDict [(''type'', JStr ''tool_use''), (''id'', JStr (tc_id tc)), (''name'', JStr (tc_name tc)), (''input'', inp)]"

definition stop_reason_of :: "gen_view option \<Rightarrow> tool_call list \<Rightarrow> string" where
  "stop_reason_of gen tool_calls =
     (if tool_calls \<noteq> [] then ''tool_use''
      else case gen of Some g \<Rightarrow> (if gv_finish_reason g = ''length'' then ''max_tokens'' else ''end_turn'') | None \<Rightarrow> ''end_turn'')"

definition output_tokens_of :: "gen_view option \<Rightarrow> int" where
  "output_tokens_of gen = (case gen of Some g \<Rightarrow> int (length (gv_token_ids g)) | None \<Rightarrow> 0)"

definition response_body :: "'f server \<Rightarrow> 'f json \<Rightarrow> 'f json list \<Rightarrow> string \<Rightarrow> int \<Rightarrow> int \<Rightarrow> 'f dict" where
  "response_body sv model content stop_reason input_tokens output_tokens =
     [(''id'', JStr (sv_message_id sv)), (''type'', JStr ''message''), (''role'', JStr ''assistant''), (''model'', model),
      (''content'', JList content), (''stop_reason'', JStr stop_reason), (''stop_sequence'', JNull),
      (''usage'', JDict [(''input_tokens'', JInt input_tokens), (''output_tokens'', JInt output_tokens)])]"

definition format_messages_response ::
  "'f server \<Rightarrow> 'f json \<Rightarrow> string \<Rightarrow> gen_view option \<Rightarrow> bool \<Rightarrow> 'f json \<Rightarrow> int \<Rightarrow> 'f dict res" where
  "format_messages_response sv model t gen use_tools tools input_tokens =
     rbind (parse_gen sv gen t (if use_tools then tools else JNull)) (\<lambda>parsed.
       let content_text = (case po_content parsed of Some c \<Rightarrow> if c = [] then [] else [text_block c] | None \<Rightarrow> []);
           tool_calls = (if use_tools then tool_calls_of sv parsed else []);
           blocks = content_text @ map (\<lambda>tc. tool_use_block tc (tool_input (sv_json sv) tc)) tool_calls
       in Inr (response_body sv model (if blocks = [] then [text_block []] else blocks) (stop_reason_of gen tool_calls)
            input_tokens (output_tokens_of gen)))"

subsection \<open>Server-sent events\<close>

type_synonym 'f sse = "string \<times> 'f dict"

text \<open>\<open>_sse\<close>: the text of an event on the wire.\<close>

definition sse_text :: "'f py_json \<Rightarrow> 'f sse \<Rightarrow> string" where
  "sse_text pj e = ''event: '' @ fst e @ NL @ ''data: '' @ pj_dumps pj (JDict (snd e)) @ NL @ NL"

definition message_start :: "'f server \<Rightarrow> 'f json \<Rightarrow> int \<Rightarrow> 'f sse" where
  "message_start sv model input_tokens =
     (''message_start'', [(''type'', JStr ''message_start''),
       (''message'', JDict [(''id'', JStr (sv_message_id sv)), (''type'', JStr ''message''), (''role'', JStr ''assistant''),
          (''model'', model), (''content'', JList []), (''stop_reason'', JNull), (''stop_sequence'', JNull),
          (''usage'', JDict [(''input_tokens'', JInt input_tokens), (''output_tokens'', JInt 0)])])])"

definition block_start :: "int \<Rightarrow> 'f json \<Rightarrow> 'f sse" where
  "block_start index content_block =
     (''content_block_start'', [(''type'', JStr ''content_block_start''), (''index'', JInt index), (''content_block'', content_block)])"

definition block_delta :: "int \<Rightarrow> string \<Rightarrow> string \<Rightarrow> string \<Rightarrow> 'f sse" where
  "block_delta index kind field t =
     (''content_block_delta'', [(''type'', JStr ''content_block_delta''), (''index'', JInt index),
       (''delta'', JDict [(''type'', JStr kind), (field, JStr t)])])"

definition block_stop :: "int \<Rightarrow> 'f sse" where
  "block_stop index = (''content_block_stop'', [(''type'', JStr ''content_block_stop''), (''index'', JInt index)])"

definition message_delta :: "string \<Rightarrow> int \<Rightarrow> 'f sse" where
  "message_delta stop_reason output_tokens =
     (''message_delta'', [(''type'', JStr ''message_delta''),
       (''delta'', JDict [(''stop_reason'', JStr stop_reason), (''stop_sequence'', JNull)]),
       (''usage'', JDict [(''output_tokens'', JInt output_tokens)])])"

definition message_stop :: "'f sse" where
  "message_stop = (''message_stop'', [(''type'', JStr ''message_stop'')])"

definition error_event :: "string \<Rightarrow> 'f sse" where
  "error_event msg =
     (''error'', [(''type'', JStr ''error''), (''error'', JDict [(''type'', JStr ''api_error''), (''message'', JStr msg)])])"

text \<open>The loop over the deltas, with the block index and whether the text block is open.\<close>

fun stream_deltas :: "int \<Rightarrow> bool \<Rightarrow> char event list \<Rightarrow> 'f sse list \<times> int \<times> bool" where
  "stream_deltas index text_block_open [] = ([], index, text_block_open)"
| "stream_deltas index text_block_open ((delta, in_reasoning) # evs) =
     (if in_reasoning \<or> delta = [] then stream_deltas index text_block_open evs
      else (let index' = (if text_block_open then index else index + 1)
            in case stream_deltas index' True evs of (sses, i, opened) \<Rightarrow>
                 ((if text_block_open then [] else [block_start index' (text_block [])]) @
                  [block_delta index' ''text_delta'' ''text'' delta] @ sses, i, opened)))"

fun tool_events :: "'f py_json \<Rightarrow> int \<Rightarrow> tool_call list \<Rightarrow> 'f sse list" where
  "tool_events pj index [] = []"
| "tool_events pj index (tc # tcs) =
     [block_start (index + 1) (tool_use_block tc (JDict [])),
      block_delta (index + 1) ''input_json_delta'' ''partial_json'' (pj_dumps pj (tool_input pj tc)),
      block_stop (index + 1)] @ tool_events pj (index + 1) tcs"

text \<open>The events after the loop.\<close>

definition closing_events ::
  "'f server \<Rightarrow> gen_view option \<Rightarrow> tool_call list \<Rightarrow> int \<Rightarrow> bool \<Rightarrow> 'f sse list" where
  "closing_events sv gen tool_calls index text_block_open =
     (let bare = \<not> text_block_open \<and> tool_calls = []; index' = (if bare then index + 1 else index)
      in (if bare then [block_start index' (text_block [])] else []) @
         (if text_block_open \<or> bare then [block_stop index'] else []) @
         tool_events (sv_json sv) index' tool_calls @
         [message_delta (stop_reason_of gen tool_calls) (output_tokens_of gen), message_stop])"

text \<open>How the generator ends: normally, with an error event, with an exception it does not catch, or waiting for the engine.\<close>

datatype stream_close = Normal | Reported | Escaped py_error | Suspended

definition stream_tool_calls :: "'f server \<Rightarrow> gen_view option \<Rightarrow> bool \<Rightarrow> 'f json \<Rightarrow> tool_call list res" where
  "stream_tool_calls sv gen use_tools tools =
     (case gen of
        Some g \<Rightarrow>
          if use_tools
          then rbind (parse_gen sv gen (if gv_parsed g \<noteq> None then [] else sv_decode sv (gv_token_ids g)) tools) (\<lambda>p. Inr (tool_calls_of sv p))
          else Inr []
      | None \<Rightarrow> Inr [])"

definition event_stream ::
  "'f server \<Rightarrow> 'f json \<Rightarrow> int \<Rightarrow> string list \<Rightarrow> bool \<Rightarrow> bool \<Rightarrow> 'f json \<Rightarrow> int \<Rightarrow> int item list \<Rightarrow> 'f sse list \<times> stream_close" where
  "event_stream sv model max_tokens stop reasoning_open use_tools tools input_tokens items =
     (case stream_text sv stop (if use_tools then open_markers (sv_parser sv) else []) max_tokens reasoning_open items of
        (evs, out) \<Rightarrow>
          (case stream_deltas (- 1) False evs of
             (sses, index, opened) \<Rightarrow>
               (let shown = message_start sv model input_tokens # sses
                in case out of
                     Unfinished \<Rightarrow> (shown, Suspended)
                   | EngineError e \<Rightarrow> (shown @ [error_event e], Reported)
                   | Ended g \<Rightarrow>
                       (let gen = bound_gen evs g
                        in case stream_tool_calls sv gen use_tools tools of
                             Inl e \<Rightarrow> (case e of RuntimeErr s \<Rightarrow> (shown @ [error_event s], Reported) | _ \<Rightarrow> (shown, Escaped e))
                           | Inr tool_calls \<Rightarrow> (shown @ closing_events sv gen tool_calls index opened, Normal)))))"

subsection \<open>Submission\<close>

text \<open>\<open>session_affinity_key\<close>: the first header, else the user of the body; 0 stands for no session.\<close>

definition first_text :: "string option list \<Rightarrow> string" where
  "first_text xs = (case find (\<lambda>x. x \<notin> {None, Some []}) xs of Some (Some s) \<Rightarrow> s | _ \<Rightarrow> [])"

definition session_affinity_key :: "'f server \<Rightarrow> (string \<Rightarrow> string option) \<Rightarrow> 'f dict \<Rightarrow> 64 word" where
  "session_affinity_key sv headers body =
     (let raw = first_text
        [headers ''x-session-id'', headers ''x-dlengine-session'', headers ''anthropic-session-id'', as_str (jget body ''user''),
         (case as_dict (jget body ''metadata'') of Some meta \<Rightarrow> as_str (jget meta ''user_id'') | None \<Rightarrow> None)]
      in if raw = [] then 0 else if sv_digest sv raw = 0 then 1 else sv_digest sv raw)"

datatype 'f effect =
    Submit "int list" "'f sampling_params" "64 word"
  | SubmitMigrated "'f json" int "int option"

text \<open>\<open>submit_migrated\<close> seeds the queue with the token the prefill engine has sampled.\<close>

definition migrated_queue :: "int option \<Rightarrow> int item list \<Rightarrow> int item list" where
  "migrated_queue first_token items = (case first_token of None \<Rightarrow> items | Some t \<Rightarrow> ItemTokens [t] # items)"

datatype 'f mig_item = MigEnd | MigError string | MigTokens "int list" | MigOther | MigHandoff "'f dict"

datatype 'f mig_result = MigFinished "int list" | MigItem "'f dict" | MigRaised string | MigWaiting

fun await_migration :: "int list \<Rightarrow> 'f mig_item list \<Rightarrow> 'f mig_result" where
  "await_migration tokens [] = MigWaiting"
| "await_migration tokens (MigEnd # items) = MigFinished tokens"
| "await_migration tokens (MigError e # items) = MigRaised e"
| "await_migration tokens (MigHandoff d # items) = MigItem d"
| "await_migration tokens (MigTokens ts # items) = await_migration (tokens @ ts) items"
| "await_migration tokens (MigOther # items) = await_migration tokens items"

subsection \<open>The handlers\<close>

datatype 'f reply = Json int "'f dict" | EventStream "'f sse list" stream_close | Crashed py_error | Blocked

definition error_body :: "string \<Rightarrow> string \<Rightarrow> 'f dict" where
  "error_body ty msg = [(''type'', JStr ''error''), (''error'', JDict [(''type'', JStr ty), (''message'', JStr msg)])]"

definition error_reply :: "api_error \<Rightarrow> 'f reply" where
  "error_reply e = (case e of AnthropicError status msg \<Rightarrow> Json status (error_body ''invalid_request_error'' msg) | Uncaught x \<Rightarrow> Crashed x)"

definition res_reply :: "'f dict res \<Rightarrow> 'f reply" where
  "res_reply r = (case r of Inl e \<Rightarrow> Crashed e | Inr d \<Rightarrow> Json 200 d)"

text \<open>What the handlers have computed when they submit a request.\<close>

record 'f prepared =
  pr_model :: "'f json"
  pr_params :: "'f sampling_params"
  pr_stop :: "string list"
  pr_use_tools :: bool
  pr_tools :: "'f json"
  pr_prompt :: "int list"
  pr_reasoning_open :: bool

definition input_tokens :: "'f prepared \<Rightarrow> int" where
  "input_tokens pr = int (length (pr_prompt pr))"

definition prepare_request :: "'f server \<Rightarrow> 'f dict \<Rightarrow> 'f prepared api" where
  "prepare_request sv body =
     abind (anthropic_to_openai_messages (sv_json sv) body) (\<lambda>(messages, tools, tool_choice).
     abind (build_sampling_params (sv_json sv) body) (\<lambda>params.
       let use_tools = uses_tools tools tool_choice
       in abind (lift_res (encode_chat (sv_json sv) (sv_chat sv) (map JDict messages) (if use_tools then tools else JNull)))
            (\<lambda>(prompt_ids, reasoning_open).
              Inr \<lparr>pr_model = or_else (sv_json sv) (jget body ''model'') (JStr (sv_model_name sv)), pr_params = params,
                   pr_stop = parse_stop_sequences body, pr_use_tools = use_tools, pr_tools = tools, pr_prompt = prompt_ids,
                   pr_reasoning_open = reasoning_open\<rparr>)))"

definition respond :: "'f server \<Rightarrow> 'f prepared \<Rightarrow> string \<Rightarrow> gen_view option \<Rightarrow> 'f dict res" where
  "respond sv pr t gen = format_messages_response sv (pr_model pr) t gen (pr_use_tools pr) (pr_tools pr) (input_tokens pr)"

definition stream_reply :: "'f server \<Rightarrow> 'f prepared \<Rightarrow> int item list \<Rightarrow> 'f reply" where
  "stream_reply sv pr items =
     (case event_stream sv (pr_model pr) (sp_max_tokens (pr_params pr)) (pr_stop pr) (pr_reasoning_open pr) (pr_use_tools pr)
             (pr_tools pr) (input_tokens pr) items of (sses, close) \<Rightarrow> EventStream sses close)"

definition full_reply :: "'f server \<Rightarrow> 'f prepared \<Rightarrow> int item list \<Rightarrow> 'f reply" where
  "full_reply sv pr items =
     (case stream_text sv (pr_stop pr) [] (sp_max_tokens (pr_params pr)) (pr_reasoning_open pr) items of
        (evs, Ended g) \<Rightarrow> res_reply (respond sv pr (content_yields evs) (bound_gen evs g))
      | (evs, EngineError e) \<Rightarrow> Json 500 (error_body ''api_error'' e)
      | (evs, Unfinished) \<Rightarrow> Blocked)"

text \<open>The tokens of a request the prefill engine has finished.\<close>

definition token_list :: "'f json \<Rightarrow> int list" where
  "token_list v = (case as_list v of Some xs \<Rightarrow> List.map_filter as_int xs | None \<Rightarrow> [])"

definition prefill_reply :: "'f server \<Rightarrow> 'f prepared \<Rightarrow> 'f mig_item list \<Rightarrow> 'f reply" where
  "prefill_reply sv pr mig_items =
     (let finished = (\<lambda>tokens. res_reply (respond sv pr (sv_decode sv tokens)
            (Some \<lparr>gv_token_ids = tokens, gv_finish_reason = ''stop'', gv_parsed = None\<rparr>)))
      in case await_migration [] mig_items of
           MigWaiting \<Rightarrow> Blocked
         | MigRaised e \<Rightarrow> Json 500 (error_body ''api_error'' e)
         | MigFinished tokens \<Rightarrow> finished tokens
         | MigItem d \<Rightarrow>
             if \<not> truthy (sv_json sv) (jget d ''migration'') then finished (token_list (jget d ''tokens''))
             else res_reply (rbind (respond sv pr [] None) (\<lambda>r.
               Inr (dict_set ''kv_transfer_params''
                 (JDict [(''migration'', jget d ''migration''), (''first_token'', jget d ''first_token''), (''seq_id'', jget d ''seq_id'')]) r))))"

definition handle_messages ::
  "'f server \<Rightarrow> (string \<Rightarrow> string option) \<Rightarrow> 'f dict \<Rightarrow> 'f mig_item list \<Rightarrow> int item list \<Rightarrow> 'f effect list \<times> 'f reply" where
  "handle_messages sv headers body mig_items items =
     (case prepare_request sv body of
        Inl e \<Rightarrow> ([], error_reply e)
      | Inr pr \<Rightarrow>
          (let affinity_key = session_affinity_key sv headers body;
               kv_transfer = (case as_dict (or_else (sv_json sv) (jget body ''kv_transfer_params'') (JDict [])) of Some d \<Rightarrow> d | None \<Rightarrow> []);
               answer = (\<lambda>queue. if truthy (sv_json sv) (jget body ''stream'') then stream_reply sv pr queue else full_reply sv pr queue);
               submit = Submit (pr_prompt pr) (pr_params pr) affinity_key
           in if truthy (sv_json sv) (jget kv_transfer ''do_remote_decode'') then ([submit], prefill_reply sv pr mig_items)
              else if truthy (sv_json sv) (jget kv_transfer ''migration'')
              then (case migration_metadata (sv_json sv) kv_transfer of
                      Inl e \<Rightarrow> ([], error_reply e)
                    | Inr (seq_id, first_token) \<Rightarrow>
                        ([SubmitMigrated (jget kv_transfer ''migration'') seq_id first_token], answer (migrated_queue first_token items)))
              else ([submit], answer items)))"

definition handle_count_tokens :: "'f server \<Rightarrow> 'f dict \<Rightarrow> 'f reply" where
  "handle_count_tokens sv body =
     (case anthropic_to_openai_messages (sv_json sv) body of
        Inl e \<Rightarrow> error_reply e
      | Inr (messages, tools, tool_choice) \<Rightarrow>
          (case encode_chat (sv_json sv) (sv_chat sv) (map JDict messages) (if uses_tools tools tool_choice then tools else JNull) of
             Inl e \<Rightarrow> Crashed e
           | Inr (prompt_ids, _) \<Rightarrow> Json 200 [(''input_tokens'', JInt (int (length prompt_ids)))]))"

subsection \<open>The client\<close>

text \<open>
  A client of the event stream: it insists on the order of the protocol, numbers the content blocks itself, collects the
  deltas of the open block and closes it. \<open>None\<close> is a violation of the protocol or an error event.
\<close>

record 'f client =
  cl_input :: "'f json option"
  cl_blocks :: "'f json list"
  cl_open :: "('f dict \<times> string) option"
  cl_stop :: "('f json \<times> 'f json) option"
  cl_done :: bool

definition new_client :: "'f client" where
  "new_client = \<lparr>cl_input = None, cl_blocks = [], cl_open = None, cl_stop = None, cl_done = False\<rparr>"

definition sub_dict :: "'f dict \<Rightarrow> string \<Rightarrow> 'f dict" where
  "sub_dict d k = (case as_dict (jget d k) of Some e \<Rightarrow> e | None \<Rightarrow> [])"

definition close_block :: "'f py_json \<Rightarrow> 'f dict \<Rightarrow> string \<Rightarrow> 'f json option" where
  "close_block pj block buf =
     (if jget block ''type'' = JStr ''text'' then Some (JDict (dict_set ''text'' (JStr buf) block))
      else map_option (\<lambda>v. JDict (dict_set ''input'' v block)) (pj_loads pj buf))"

definition client_event :: "'f py_json \<Rightarrow> 'f sse \<Rightarrow> 'f client \<Rightarrow> 'f client option" where
  "client_event pj e cl =
     (let d = snd e; here = (jget d ''index'' = JInt (int (length (cl_blocks cl))))
      in if fst e = ''message_start''
         then (if cl_input cl \<noteq> None then None
               else Some (cl\<lparr>cl_input := Some (jget (sub_dict (sub_dict d ''message'') ''usage'') ''input_tokens'')\<rparr>))
         else if cl_input cl = None \<or> cl_done cl then None
         else if fst e = ''content_block_start''
         then (if cl_open cl \<noteq> None \<or> cl_stop cl \<noteq> None \<or> \<not> here then None
               else Some (cl\<lparr>cl_open := Some (sub_dict d ''content_block'', [])\<rparr>))
         else if fst e = ''content_block_delta''
         then (case cl_open cl of
                 Some (block, buf) \<Rightarrow>
                   (case as_str (jget (sub_dict d ''delta'') (if jget block ''type'' = JStr ''text'' then ''text'' else ''partial_json'')) of
                      Some t \<Rightarrow> if here then Some (cl\<lparr>cl_open := Some (block, buf @ t)\<rparr>) else None
                    | None \<Rightarrow> None)
               | None \<Rightarrow> None)
         else if fst e = ''content_block_stop''
         then (case cl_open cl of
                 Some (block, buf) \<Rightarrow>
                   if here then map_option (\<lambda>b. cl\<lparr>cl_open := None, cl_blocks := cl_blocks cl @ [b]\<rparr>) (close_block pj block buf) else None
               | None \<Rightarrow> None)
         else if fst e = ''message_delta''
         then (if cl_open cl \<noteq> None \<or> cl_stop cl \<noteq> None \<or> cl_blocks cl = [] then None
               else Some (cl\<lparr>cl_stop := Some (jget (sub_dict d ''delta'') ''stop_reason'', jget (sub_dict d ''usage'') ''output_tokens'')\<rparr>))
         else if fst e = ''message_stop'' then (if cl_stop cl = None then None else Some (cl\<lparr>cl_done := True\<rparr>))
         else None)"

fun client_run :: "'f py_json \<Rightarrow> 'f sse list \<Rightarrow> 'f client \<Rightarrow> 'f client option" where
  "client_run pj [] cl = Some cl"
| "client_run pj (e # es) cl = (case client_event pj e cl of None \<Rightarrow> None | Some cl' \<Rightarrow> client_run pj es cl')"

text \<open>The message a client has when its stream is complete, and the same fields of a response body.\<close>

definition client_message :: "'f client \<Rightarrow> ('f json \<times> 'f json \<times> 'f json \<times> 'f json) option" where
  "client_message cl =
     (case (cl_input cl, cl_stop cl) of
        (Some i, Some (r, o')) \<Rightarrow> if cl_done cl then Some (JList (cl_blocks cl), r, i, o') else None
      | _ \<Rightarrow> None)"

definition body_message :: "'f dict \<Rightarrow> 'f json \<times> 'f json \<times> 'f json \<times> 'f json" where
  "body_message d =
     (jget d ''content'', jget d ''stop_reason'', jget (sub_dict d ''usage'') ''input_tokens'', jget (sub_dict d ''usage'') ''output_tokens'')"

lemma client_run_append:
  "client_run pj (xs @ ys) cl = (case client_run pj xs cl of None \<Rightarrow> None | Some cl' \<Rightarrow> client_run pj ys cl')"
  by (induction xs arbitrary: cl) (auto split: option.split)

lemmas sse_defs = block_start_def block_delta_def block_stop_def message_delta_def message_stop_def message_start_def
  text_block_def tool_use_block_def

lemma client_start:
  "client_event pj (message_start sv model n) new_client = Some (new_client\<lparr>cl_input := Some (JInt n)\<rparr>)"
  by (simp add: client_event_def Let_def message_start_def new_client_def sub_dict_def)

lemma client_block_start:
  assumes "cl_input cl = Some i" "\<not> cl_done cl" "cl_open cl = None" "cl_stop cl = None" "index = int (length (cl_blocks cl))"
  shows "client_event pj (block_start index (JDict b)) cl = Some (cl\<lparr>cl_open := Some (b, [])\<rparr>)"
  using assms by (simp add: client_event_def Let_def block_start_def sub_dict_def)

lemma client_text_delta:
  assumes "cl_input cl = Some i" "\<not> cl_done cl" "cl_open cl = Some (b, buf)" "jget b ''type'' = JStr ''text''" "index = int (length (cl_blocks cl))"
  shows "client_event pj (block_delta index ''text_delta'' ''text'' t) cl = Some (cl\<lparr>cl_open := Some (b, buf @ t)\<rparr>)"
  using assms by (simp add: client_event_def Let_def block_delta_def sub_dict_def)

lemma client_json_delta:
  assumes "cl_input cl = Some i" "\<not> cl_done cl" "cl_open cl = Some (b, buf)" "jget b ''type'' \<noteq> JStr ''text''" "index = int (length (cl_blocks cl))"
  shows "client_event pj (block_delta index ''input_json_delta'' ''partial_json'' t) cl = Some (cl\<lparr>cl_open := Some (b, buf @ t)\<rparr>)"
  using assms by (simp add: client_event_def Let_def block_delta_def sub_dict_def)

lemma client_block_stop:
  assumes "cl_input cl = Some i" "\<not> cl_done cl" "cl_open cl = Some (b, buf)" "close_block pj b buf = Some v" "index = int (length (cl_blocks cl))"
  shows "client_event pj (block_stop index) cl = Some (cl\<lparr>cl_open := None, cl_blocks := cl_blocks cl @ [v]\<rparr>)"
  using assms by (simp add: client_event_def Let_def block_stop_def)

subsection \<open>What the client collects\<close>

lemma content_yields_Cons:
  "content_yields ((d, r) # evs) = (if r then content_yields evs else d @ content_yields evs)"
  by (simp add: content_yields_def)

lemma deltas_open:
  assumes "cl_input cl = Some i" "\<not> cl_done cl" "cl_open cl = Some (b, buf)" "jget b ''type'' = JStr ''text''"
    and "stream_deltas (int (length (cl_blocks cl))) True evs = (sses, index, opened)"
  shows "opened \<and> index = int (length (cl_blocks cl)) \<and>
    client_run pj sses cl = Some (cl\<lparr>cl_open := Some (b, buf @ content_yields evs)\<rparr>)"
  using assms
proof (induction evs arbitrary: cl buf sses)
  case Nil
  then show ?case by (simp add: content_yields_def)
next
  case (Cons ev evs)
  obtain d r where ev: "ev = (d, r)" by (cases ev)
  show ?case
  proof (cases "r \<or> d = []")
    case True
    then show ?thesis using Cons.IH [OF Cons.prems(1-4)] Cons.prems(5) by (auto simp: ev content_yields_Cons)
  next
    case False
    let ?n = "int (length (cl_blocks cl))"
    let ?cl = "cl\<lparr>cl_open := Some (b, buf @ d)\<rparr>"
    obtain sses' where s: "stream_deltas ?n True evs = (sses', index, opened)" "sses = block_delta ?n ''text_delta'' ''text'' d # sses'"
      using Cons.prems(5) False by (auto simp: ev Let_def split: prod.splits)
    have "client_event pj (block_delta ?n ''text_delta'' ''text'' d) cl = Some ?cl"
      by (rule client_text_delta [OF Cons.prems(1-4) refl])
    moreover have "opened \<and> index = ?n \<and> client_run pj sses' ?cl = Some (?cl\<lparr>cl_open := Some (b, (buf @ d) @ content_yields evs)\<rparr>)"
      using Cons.IH [of ?cl "buf @ d" sses'] Cons.prems(1,2,4) s(1) by simp
    ultimately show ?thesis using s(2) False by (simp add: ev content_yields_Cons)
  qed
qed

abbreviation "EMPTY_TEXT \<equiv> [(''type'', JStr ''text''), (''text'', JStr [])]"

lemma deltas_closed:
  assumes "cl_input cl = Some i" "\<not> cl_done cl" "cl_open cl = None" "cl_stop cl = None"
    and "stream_deltas (int (length (cl_blocks cl)) - 1) False evs = (sses, index, opened)"
  shows "if content_yields evs = [] then sses = [] \<and> index = int (length (cl_blocks cl)) - 1 \<and> \<not> opened
    else opened \<and> index = int (length (cl_blocks cl)) \<and>
      client_run pj sses cl = Some (cl\<lparr>cl_open := Some (EMPTY_TEXT, content_yields evs)\<rparr>)"
  using assms(5)
proof (induction evs arbitrary: sses)
  case Nil
  then show ?case by (simp add: content_yields_def)
next
  case (Cons ev evs)
  obtain d r where ev: "ev = (d, r)" by (cases ev)
  show ?case
  proof (cases "r \<or> d = []")
    case True
    then show ?thesis using Cons by (auto simp: ev content_yields_Cons)
  next
    case False
    let ?n = "int (length (cl_blocks cl))"
    let ?cl = "cl\<lparr>cl_open := Some (EMPTY_TEXT, [])\<rparr>"
    let ?cl' = "cl\<lparr>cl_open := Some (EMPTY_TEXT, d)\<rparr>"
    obtain sses' where s: "stream_deltas ?n True evs = (sses', index, opened)"
      "sses = block_start ?n (text_block []) # block_delta ?n ''text_delta'' ''text'' d # sses'"
      using Cons.prems False by (auto simp: ev Let_def split: prod.splits)
    have "client_event pj (block_start ?n (text_block [])) cl = Some ?cl"
      unfolding text_block_def by (rule client_block_start [OF assms(1-4) refl])
    moreover have "client_event pj (block_delta ?n ''text_delta'' ''text'' d) ?cl = Some ?cl'"
      using client_text_delta [of ?cl i EMPTY_TEXT "[]" ?n pj d] assms(1,2) by simp
    moreover have "opened \<and> index = ?n \<and> client_run pj sses' ?cl' = Some (cl\<lparr>cl_open := Some (EMPTY_TEXT, d @ content_yields evs)\<rparr>)"
      using deltas_open [of ?cl' i EMPTY_TEXT d evs sses' index opened pj] assms(1,2) s(1) by simp
    ultimately show ?thesis using s(2) False by (simp add: ev content_yields_Cons)
  qed
qed

abbreviation "call_blocks pj tcs \<equiv> map (\<lambda>tc. tool_use_block tc (tool_input pj tc)) tcs"

text \<open>\<open>json.loads\<close> reads back what \<open>json.dumps\<close> has written.\<close>

definition json_roundtrips :: "'f py_json \<Rightarrow> 'f json \<Rightarrow> bool" where
  "json_roundtrips pj v \<longleftrightarrow> pj_loads pj (pj_dumps pj v) = Some v"

lemma tool_events_run:
  assumes "cl_input cl = Some i" "\<not> cl_done cl" "cl_open cl = None" "cl_stop cl = None"
    and "list_all (\<lambda>tc. json_roundtrips pj (tool_input pj tc)) tcs"
  shows "client_run pj (tool_events pj (int (length (cl_blocks cl)) - 1) tcs) cl =
    Some (cl\<lparr>cl_blocks := cl_blocks cl @ call_blocks pj tcs\<rparr>)"
  using assms
proof (induction tcs arbitrary: cl)
  case (Cons tc tcs)
  let ?n = "int (length (cl_blocks cl))"
  let ?b = "[(''type'', JStr ''tool_use''), (''id'', JStr (tc_id tc)), (''name'', JStr (tc_name tc)), (''input'', JDict [])]"
  let ?v = "tool_input pj tc"
  let ?cl1 = "cl\<lparr>cl_open := Some (?b, [])\<rparr>"
  let ?cl2 = "cl\<lparr>cl_open := Some (?b, pj_dumps pj ?v)\<rparr>"
  let ?cl3 = "cl\<lparr>cl_blocks := cl_blocks cl @ [tool_use_block tc ?v]\<rparr>"
  have "client_event pj (block_start ?n (tool_use_block tc (JDict []))) cl = Some ?cl1"
    unfolding tool_use_block_def by (rule client_block_start [OF Cons.prems(1-4) refl])
  moreover have "client_event pj (block_delta ?n ''input_json_delta'' ''partial_json'' (pj_dumps pj ?v)) ?cl1 = Some ?cl2"
    using client_json_delta [of ?cl1 i ?b "[]" ?n pj "pj_dumps pj ?v"] Cons.prems(1,2) by simp
  moreover have "close_block pj ?b (pj_dumps pj ?v) = Some (tool_use_block tc ?v)"
    using Cons.prems(5) by (simp add: close_block_def json_roundtrips_def tool_use_block_def)
  then have "client_event pj (block_stop ?n) ?cl2 = Some ?cl3"
    using client_block_stop [of ?cl2 i ?b "pj_dumps pj ?v" pj _ ?n] Cons.prems(1-3) by simp
  moreover have "client_run pj (tool_events pj ?n tcs) ?cl3 = Some (?cl3\<lparr>cl_blocks := cl_blocks ?cl3 @ call_blocks pj tcs\<rparr>)"
    using Cons.IH [of ?cl3] Cons.prems by simp
  ultimately show ?case by simp
qed simp

definition message_blocks :: "'f py_json \<Rightarrow> string \<Rightarrow> tool_call list \<Rightarrow> 'f json list" where
  "message_blocks pj t tcs =
     (let blocks = (if t = [] then [] else [text_block t]) @ call_blocks pj tcs in if blocks = [] then [text_block []] else blocks)"

definition complete_client :: "int \<Rightarrow> 'f json list \<Rightarrow> string \<Rightarrow> int \<Rightarrow> 'f client" where
  "complete_client n blocks reason out =
     \<lparr>cl_input = Some (JInt n), cl_blocks = blocks, cl_open = None, cl_stop = Some (JStr reason, JInt out), cl_done = True\<rparr>"

lemma final_events_run:
  assumes "cl = \<lparr>cl_input = Some (JInt n), cl_blocks = bs, cl_open = None, cl_stop = None, cl_done = False\<rparr>"
    and "list_all (\<lambda>tc. json_roundtrips pj (tool_input pj tc)) tcs" "bs @ call_blocks pj tcs \<noteq> []" "index = int (length bs) - 1"
  shows "client_run pj (tool_events pj index tcs @ [message_delta reason out, message_stop]) cl =
    Some (complete_client n (bs @ call_blocks pj tcs) reason out)"
proof -
  have "client_run pj (tool_events pj index tcs) cl = Some (cl\<lparr>cl_blocks := bs @ call_blocks pj tcs\<rparr>)"
    using tool_events_run [of cl "JInt n" pj tcs] assms by simp
  then show ?thesis
    using assms(3)
    by (simp add: client_run_append client_event_def Let_def message_delta_def message_stop_def sub_dict_def assms(1) complete_client_def)
qed

lemma close_text: "close_block pj EMPTY_TEXT buf = Some (text_block buf)"
  by (simp add: close_block_def text_block_def)

lemma stream_events_run:
  assumes "stream_deltas (- 1) False evs = (sses, index, opened)"
    and "list_all (\<lambda>tc. json_roundtrips (sv_json sv) (tool_input (sv_json sv) tc)) tcs"
  shows "client_run (sv_json sv) (message_start sv model n # sses @ closing_events sv gen tcs index opened) new_client =
    Some (complete_client n (message_blocks (sv_json sv) (content_yields evs) tcs) (stop_reason_of gen tcs) (output_tokens_of gen))"
proof -
  let ?pj = "sv_json sv" and ?t = "content_yields evs"
  let ?cl = "\<lambda>bs open'. \<lparr>cl_input = Some (JInt n), cl_blocks = bs, cl_open = open', cl_stop = None, cl_done = False\<rparr>"
  have start: "client_event ?pj (message_start sv model n) new_client = Some (?cl [] None)"
    by (simp add: client_start) (simp add: new_client_def)
  note dc = deltas_closed [of "?cl [] None" "JInt n" evs sses index opened ?pj]
  note final = final_events_run [OF refl assms(2), where n = n and reason = "stop_reason_of gen tcs" and out = "output_tokens_of gen"]
  have stop: "client_event ?pj (block_stop 0) (?cl [] (Some (EMPTY_TEXT, buf))) = Some (?cl [text_block buf] None)" for buf
    using client_block_stop [of "?cl [] (Some (EMPTY_TEXT, buf))" _ EMPTY_TEXT buf ?pj "text_block buf" 0] by (simp add: close_text)
  have opened0: "client_event ?pj (block_start 0 (text_block [])) (?cl [] None) = Some (?cl [] (Some (EMPTY_TEXT, [])))"
    using client_block_start [of "?cl [] None" _ 0 ?pj EMPTY_TEXT] by (simp add: text_block_def)
  show ?thesis
  proof (cases "?t = []")
    case True
    then have s: "sses = []" "index = - 1" "\<not> opened" using dc assms(1) by simp_all
    show ?thesis
    proof (cases tcs)
      case Nil
      then show ?thesis
        using s True start stop opened0 final [where bs = "[text_block []]" and index = 0]
        by (simp add: closing_events_def Let_def message_blocks_def)
    next
      case (Cons tc tcs')
      then show ?thesis
        using s True start final [where bs = "[]" and index = "- 1"] by (simp add: closing_events_def Let_def message_blocks_def del: tool_events.simps)
    qed
  next
    case False
    then have s: "opened" "index = 0" "client_run ?pj sses (?cl [] None) = Some (?cl [] (Some (EMPTY_TEXT, ?t)))"
      using dc assms(1) by simp_all
    then show ?thesis
      using False start stop final [where bs = "[text_block ?t]" and index = 0]
      by (simp add: closing_events_def Let_def message_blocks_def client_run_append)
  qed
qed

subsection \<open>What a structured stream yields is its content\<close>

lemma delivered_content: "delivered ds evs st st' \<Longrightarrow> concat (ss_content_parts st') = concat (ss_content_parts st) @ content_yields evs"
  by (simp add: delivered_def heard_def ocat_def obs_def split: prod.splits)

lemma apply_content: "apply_parsed ps st = (evs, st') \<Longrightarrow> concat (ss_content_parts st') = concat (ss_content_parts st) @ content_yields evs"
  using apply_delivered delivered_content by blast

lemma structured_tokens_content:
  assumes "structured_tokens env jok stops m toks st = (evs, st', fin)"
  shows "concat (ss_content_parts st') = concat (ss_content_parts st) @ content_yields evs"
proof -
  have window: "concat (ss_content_parts s') = concat (ss_content_parts s) @ content_yields es"
    if "structured_window jok stops s = (es, s', f)" for s es s' f
    using that by (auto simp: structured_window_def Let_def dest!: apply_content split: prod.splits option.splits if_splits)
  show ?thesis using assms
    by (auto simp: structured_tokens_def Let_def content_yields_def dest!: window split: prod.splits if_splits)
qed

lemma structured_finish_content:
  assumes "structured_finish jok m st = (evs, st')"
  shows "concat (ss_content_parts st') = concat (ss_content_parts st) @ content_yields evs" "evs \<noteq> []"
  using assms by (auto simp: structured_finish_def Let_def dest!: apply_content split: prod.splits) (auto simp: content_yields_def)

lemma stream_structured_content:
  assumes "stream_structured_text env jok stops m items st = (evs, Complete st')"
  shows "concat (ss_content_parts st') = concat (ss_content_parts st) @ content_yields evs \<and> evs \<noteq> []"
  using assms
proof (induction items arbitrary: st evs)
  case (Cons it items)
  show ?case
  proof (cases it)
    case ItemEnd
    then show ?thesis using Cons.prems structured_finish_content [of jok m st] by (auto split: prod.splits)
  next
    case (ItemTokens toks)
    obtain e1 s1 fin where t: "structured_tokens env jok stops m toks st = (e1, s1, fin)" by (cases "structured_tokens env jok stops m toks st")
    note c1 = structured_tokens_content [OF t]
    show ?thesis
    proof (cases fin)
      case True
      then show ?thesis using Cons.prems ItemTokens t c1 structured_finish_content [of jok m s1] by (auto split: prod.splits)
    next
      case False
      then obtain e2 where "stream_structured_text env jok stops m items s1 = (e2, Complete st')" "evs = e1 @ e2"
        using Cons.prems ItemTokens t by (auto split: prod.splits)
      then show ?thesis using Cons.IH c1 by auto
    qed
  qed (use Cons in auto)
qed simp

subsection \<open>Streaming and non-streaming answers agree\<close>

text \<open>
  The laws of \<open>json\<close> the responses rely on: a value that \<open>loads\<close> returns, or the empty dictionary, is read back from its
  \<open>dumps\<close>, and the text of a dictionary is not blank.
\<close>

definition lawful_json :: "'f py_json \<Rightarrow> bool" where
  "lawful_json pj \<longleftrightarrow> json_roundtrips pj (JDict []) \<and> (\<forall>s v. pj_loads pj s = Some v \<longrightarrow> json_roundtrips pj v) \<and>
     (\<forall>d. strip (pj_dumps pj (JDict d)) \<noteq> [])"

lemma tool_input_roundtrips: "lawful_json pj \<Longrightarrow> json_roundtrips pj (tool_input pj tc)"
  by (auto simp: lawful_json_def tool_input_def split: option.split)

lemma event_stream_Normal:
  fixes sv :: "'f server"
  assumes "event_stream sv model m stop ro ut tools n items = (sses, Normal)"
  obtains evs g tcs dsses index opened where
    "stream_text sv stop (if ut then open_markers (sv_parser sv) else []) m ro items = (evs, Ended g)"
    "stream_tool_calls sv (bound_gen evs g) ut tools = Inr tcs" "stream_deltas (- 1) False evs = (dsses, index, opened)"
    "sses = message_start sv model n # dsses @ closing_events sv (bound_gen evs g) tcs index opened"
proof -
  obtain evs out where t: "stream_text sv stop (if ut then open_markers (sv_parser sv) else []) m ro items = (evs, out)" by fastforce
  obtain dsses :: "'f sse list" and index opened where d: "stream_deltas (- 1) False evs = (dsses, index, opened)"
    by (metis prod_cases3)
  obtain g where g: "out = Ended g" using assms unfolding event_stream_def t prod.case d Let_def by (cases out) auto
  obtain tcs where "stream_tool_calls sv (bound_gen evs g) ut tools = Inr tcs"
    using assms unfolding event_stream_def t prod.case d Let_def g stream_end.case
    by (cases "stream_tool_calls sv (bound_gen evs g) ut tools") (auto split: py_error.splits)
  then show ?thesis
    using that [OF t [unfolded g] _ d] assms unfolding event_stream_def t prod.case d Let_def g stream_end.case by auto
qed

lemma event_stream_run:
  assumes "event_stream sv model m stop ro ut tools n items = (sses, Normal)" "lawful_json (sv_json sv)"
  shows "\<exists>evs g tcs. stream_text sv stop (if ut then open_markers (sv_parser sv) else []) m ro items = (evs, Ended g) \<and>
    stream_tool_calls sv (bound_gen evs g) ut tools = Inr tcs \<and>
    client_run (sv_json sv) sses new_client = Some (complete_client n (message_blocks (sv_json sv) (content_yields evs) tcs)
      (stop_reason_of (bound_gen evs g) tcs) (output_tokens_of (bound_gen evs g)))"
proof (rule event_stream_Normal [OF assms(1)])
  fix evs g tcs dsses index opened
  assume s: "stream_text sv stop (if ut then open_markers (sv_parser sv) else []) m ro items = (evs, Ended g)"
    "stream_tool_calls sv (bound_gen evs g) ut tools = Inr tcs" "stream_deltas (- 1) False evs = (dsses, index, opened)"
    "sses = message_start sv model n # dsses @ closing_events sv (bound_gen evs g) tcs index opened"
  have "list_all (\<lambda>tc. json_roundtrips (sv_json sv) (tool_input (sv_json sv) tc)) tcs"
    using tool_input_roundtrips [OF assms(2)] by (simp add: list_all_iff)
  then show ?thesis using s stream_events_run [OF s(3), of sv tcs model n "bound_gen evs g"] by blast
qed

lemma k3_stream_text:
  assumes "sv_parser sv = KimiK3ToolParser" "stream_text sv stop hold m ro items = (evs, Ended g)"
  shows "bound_gen evs g = Some g" "\<exists>p. gv_parsed g = Some p \<and> po_content p = some_text (content_yields evs)"
    "stream_text sv stop hold' m ro items = (evs, Ended g)"
proof -
  let ?run = "stream_structured_text (sv_text sv) (json_ok (sv_json sv)) stop m items (new_structured ro)"
  obtain st where st: "?run = (evs, Complete st)" "g = structured_view (sv_json sv) st"
    using assms by (auto simp: stream_text_def split: prod.splits structured_outcome.splits)
  note c = stream_structured_content [OF st(1)]
  show "bound_gen evs g = Some g" using c by (simp add: bound_gen_def)
  show "stream_text sv stop hold' m ro items = (evs, Ended g)" using assms(1) st by (simp add: stream_text_def)
  show "\<exists>p. gv_parsed g = Some p \<and> po_content p = some_text (content_yields evs)"
    using c st(2) by (simp add: structured_view_def k3_output_def parse_generation_def new_structured_def some_text_def Let_def)
qed

lemma k3_full_reply:
  assumes "sv_parser sv = KimiK3ToolParser" "stream_text sv stop [] m ro items = (evs, Ended g)"
    and "stream_tool_calls sv (Some g) ut tools = Inr tcs"
  shows "format_messages_response sv model t (Some g) ut tools n =
    Inr (response_body sv model (message_blocks (sv_json sv) (content_yields evs) tcs) (stop_reason_of (Some g) tcs) n (output_tokens_of (Some g)))"
proof -
  obtain p where p: "gv_parsed g = Some p" "po_content p = some_text (content_yields evs)" using k3_stream_text(2) [OF assms(1,2)] by blast
  then have "tcs = (if ut then tool_calls_of sv p else [])" using assms(3) by (auto simp: stream_tool_calls_def parse_gen_def split: if_splits)
  then show ?thesis
    using p by (simp add: format_messages_response_def parse_gen_def message_blocks_def some_text_def Let_def)
qed

lemma jget_past_stream:
  "jget ((''stream'', v) # body) ''system'' = jget body ''system''" "jget ((''stream'', v) # body) ''messages'' = jget body ''messages''"
  "jget ((''stream'', v) # body) ''tools'' = jget body ''tools''" "jget ((''stream'', v) # body) ''tool_choice'' = jget body ''tool_choice''"
  "jget ((''stream'', v) # body) ''max_tokens'' = jget body ''max_tokens''" "jget ((''stream'', v) # body) ''model'' = jget body ''model''"
  "jget ((''stream'', v) # body) ''temperature'' = jget body ''temperature''"
  "jget ((''stream'', v) # body) ''stop_sequences'' = jget body ''stop_sequences''"
  by simp_all

lemma prepare_request_stream: "prepare_request sv ((''stream'', v) # body) = prepare_request sv body"
  unfolding prepare_request_def anthropic_to_openai_messages_def build_sampling_params_def parse_stop_sequences_def jget_past_stream ..

lemma body_message_of:
  "body_message (response_body sv model bs r n out) = (JList bs, JStr r, JInt n, JInt out)"
  "client_message (complete_client n bs r out) = Some (JList bs, JStr r, JInt n, JInt out)"
  by (simp_all add: body_message_def response_body_def sub_dict_def client_message_def complete_client_def)

lemma message_blocks_ne: "message_blocks pj t tcs \<noteq> []"
  by (simp add: message_blocks_def Let_def)

lemma prefill_reply_no_stream: "prefill_reply sv pr mig \<noteq> EventStream sses close"
proof -
  have "res_reply r \<noteq> EventStream sses close" for r :: "'a dict res" by (simp add: res_reply_def split: sum.split)
  then show ?thesis by (simp add: prefill_reply_def Let_def split: mig_result.split)
qed

lemma streaming_handler:
  assumes "handle_messages sv headers ((''stream'', JBool True) # body) mig items = (effs, EventStream sses close)"
  shows "\<exists>pr first. let queue = migrated_queue first items in prepare_request sv body = Inr pr \<and> stream_reply sv pr queue = EventStream sses close \<and>
    handle_messages sv headers ((''stream'', JBool False) # body) mig items = (effs, full_reply sv pr queue)"
proof -
  have err: "error_reply e \<noteq> EventStream sses close" for e :: api_error by (simp add: error_reply_def split: api_error.split)
  have key: "session_affinity_key sv headers ((''stream'', v) # body) = session_affinity_key sv headers body" for v
    by (simp add: session_affinity_key_def)
  obtain pr where pr: "prepare_request sv body = Inr pr"
    using assms err by (cases "prepare_request sv body") (auto simp: handle_messages_def prepare_request_stream)
  let ?kv = "case as_dict (or_else (sv_json sv) (jget body ''kv_transfer_params'') (JDict [])) of Some d \<Rightarrow> d | None \<Rightarrow> []"
  have prefill: "\<not> truthy (sv_json sv) (jget ?kv ''do_remote_decode'')"
    using assms prefill_reply_no_stream [of sv pr mig sses close] by (auto simp: handle_messages_def prepare_request_stream pr Let_def)
  show ?thesis
  proof (cases "truthy (sv_json sv) (jget ?kv ''migration'')")
    case True
    then obtain seq_id first where "migration_metadata (sv_json sv) ?kv = Inr (seq_id, first)"
      using assms err prefill
      by (cases "migration_metadata (sv_json sv) ?kv") (auto simp: handle_messages_def prepare_request_stream pr Let_def)
    then show ?thesis
      using assms True prefill pr by (intro exI [of _ pr] exI [of _ first])
        (simp add: handle_messages_def prepare_request_stream Let_def)
  next
    case False
    then show ?thesis
      using assms prefill pr key by (intro exI [of _ pr] exI [of _ None]) (simp add: handle_messages_def prepare_request_stream migrated_queue_def Let_def)
  qed
qed

lemma event_stream_Reported:
  assumes "event_stream sv model m stop ro ut tools n items = (sses, Reported)"
  shows "\<exists>shown e cl. sses = shown @ [error_event e] \<and> client_run (sv_json sv) shown new_client = Some cl \<and> client_message cl = None"
proof -
  obtain evs out where t: "stream_text sv stop (if ut then open_markers (sv_parser sv) else []) m ro items = (evs, out)" by fastforce
  obtain dsses :: "'a sse list" and index opened where d: "stream_deltas (- 1) False evs = (dsses, index, opened)"
    by (metis prod_cases3)
  obtain e where e: "sses = (message_start sv model n # dsses) @ [error_event e]"
    using assms unfolding event_stream_def t prod.case d Let_def
    by (auto split: stream_end.splits sum.splits py_error.splits)
  let ?cl = "new_client\<lparr>cl_input := Some (JInt n)\<rparr> :: 'a client"
  have "\<exists>cl. client_run (sv_json sv) dsses ?cl = Some cl \<and> cl_done cl = False"
    using deltas_closed [of ?cl "JInt n" evs dsses index opened "sv_json sv"] d
    by (auto simp: new_client_def split: if_splits)
  then obtain cl where "client_run (sv_json sv) (message_start sv model n # dsses) new_client = Some cl" "\<not> cl_done cl"
    by (auto simp: client_start)
  then show ?thesis using e by (intro exI [of _ "message_start sv model n # dsses"] exI [of _ e] exI [of _ cl])
      (auto simp: client_message_def split: option.split)
qed

text \<open>How the engine ends a request: the first item of the queue that is neither tokens nor a note.\<close>

fun engine_end :: "'t item list \<Rightarrow> 't item option" where
  "engine_end [] = None"
| "engine_end (ItemTokens toks # items) = engine_end items"
| "engine_end (ItemOther # items) = engine_end items"
| "engine_end (item # items) = Some item"

lemma no_stop_no_cut:
  "content_part [] markers st = (evs, st', fin) \<Longrightarrow> \<not> fin"
  "raw_tokens env [] markers m toks st = (evs, st', fin) \<Longrightarrow> \<not> fin"
  "structured_tokens env2 jok [] m toks2 st2 = (evs2, st2', fin) \<Longrightarrow> \<not> fin"
proof -
  show c: "content_part [] markers st = (evs, st', fin) \<Longrightarrow> \<not> fin" for st :: "('b, 'a) raw_state" and st' evs
    by (auto simp: content_part_def split: option.splits if_splits prod.splits)
  show "raw_tokens env [] markers m toks st = (evs, st', fin) \<Longrightarrow> \<not> fin"
    by (auto simp: raw_tokens_def Let_def split: if_splits prod.splits bool.splits dest: c)
  show "structured_tokens env2 jok [] m toks2 st2 = (evs2, st2', fin) \<Longrightarrow> \<not> fin"
    by (auto simp: structured_tokens_def structured_window_def Let_def split: if_splits prod.splits)
qed

lemma raw_engine_error:
  "engine_end items = Some (ItemError e) \<Longrightarrow> snd (stream_text_raw env [] markers m items st) = Raised (RuntimeErr e)"
proof (induction items arbitrary: st rule: engine_end.induct)
  case (2 toks items)
  obtain evs st' fin where t: "raw_tokens env [] markers m toks st = (evs, st', fin)" by (metis prod_cases3)
  then show ?case using 2 no_stop_no_cut(2) [OF t] by (auto simp: case_prod_beta)
qed simp_all

lemma structured_engine_error:
  "engine_end items = Some (ItemError e) \<Longrightarrow> snd (stream_structured_text env jok [] m items st) = Failed (RuntimeErr e)"
proof (induction items arbitrary: st rule: engine_end.induct)
  case (2 toks items)
  obtain evs st' fin where t: "structured_tokens env jok [] m toks st = (evs, st', fin)" by (metis prod_cases3)
  then show ?case using 2 no_stop_no_cut(3) [OF t] by (auto simp: case_prod_beta)
qed simp_all

lemma stream_text_engine_error:
  assumes "engine_end items = Some (ItemError e)"
  shows "\<exists>evs. stream_text sv [] hold_markers m ro items = (evs, EngineError e)"
proof (cases "sv_parser sv = KimiK3ToolParser")
  case True
  obtain evs where "stream_structured_text (sv_text sv) (json_ok (sv_json sv)) [] m items (new_structured ro) = (evs, Failed (RuntimeErr e))"
    using structured_engine_error [OF assms, of "sv_text sv" "json_ok (sv_json sv)" m "new_structured ro"] by (metis prod.collapse)
  then show ?thesis using True by (simp add: stream_text_def error_text_def)
next
  case False
  obtain evs where "stream_text_raw (sv_text sv) [] hold_markers m items (new_raw_state ro) = (evs, Raised (RuntimeErr e))"
    using raw_engine_error [OF assms, of "sv_text sv" hold_markers m "new_raw_state ro"] by (metis prod.collapse)
  then show ?thesis using False by (simp add: stream_text_def error_text_def)
qed

lemma error_event_inj: "error_event e = error_event e' \<longleftrightarrow> e = e'"
  by (simp add: error_event_def)

lemma event_stream_engine_error:
  assumes "engine_end items = Some (ItemError e)"
    and "event_stream sv model m [] ro ut tools n items = (sses, close)"
  shows "close = Reported \<and> (\<exists>shown cl. sses = shown @ [error_event e] \<and> client_run (sv_json sv) shown new_client = Some cl \<and> client_message cl = None)"
proof -
  obtain evs where t: "stream_text sv [] (if ut then open_markers (sv_parser sv) else []) m ro items = (evs, EngineError e)"
    using stream_text_engine_error [OF assms(1)] by blast
  obtain dsses :: "'a sse list" and index opened where d: "stream_deltas (- 1) False evs = (dsses, index, opened)"
    by (metis prod_cases3)
  have s: "sses = (message_start sv model n # dsses) @ [error_event e]" "close = Reported"
    using assms(2) unfolding event_stream_def t prod.case d Let_def by auto
  then show ?thesis using event_stream_Reported [of sv model m "[]" ro ut tools n items sses] assms(2) error_event_inj
    by (metis append1_eq_conv)
qed

text \<open>
  C10: a streamed answer is a complete message, and for Kimi K3 it is the message of the non-streaming answer. A client
  that insists on the protocol (one start, blocks numbered from 0 and closed before the next one opens, at least one
  block, then the stop reason and the stop) accepts the events of every request that ends normally and has a complete
  message. With the structured parser the handler's non-streaming reply to the same request submits the same work and
  has the same content blocks, stop reason and token counts. When the engine ends the request with an error and no stop
  sequence can end the answer before it, the last event is an error event with the engine's message, the stream is closed as
  reported, the client has accepted all events before it and has no complete message, and the non-streaming reply to the same
  request is status 500 with the same message. Every stream that is closed as reported ends in this way with one error event.
\<close>

theorem anthropic_stream_is_response:
  assumes "handle_messages sv headers ((''stream'', JBool True) # body) mig items = (effs, EventStream sses close)"
    and "lawful_json (sv_json sv)"
  shows "(close = Normal \<longrightarrow> (\<exists>cl blocks reason n out. client_run (sv_json sv) sses new_client = Some cl \<and>
        client_message cl = Some (JList blocks, reason, n, out) \<and> blocks \<noteq> [] \<and>
        (sv_parser sv = KimiK3ToolParser \<longrightarrow>
           (\<exists>d. handle_messages sv headers ((''stream'', JBool False) # body) mig items = (effs, Json 200 d) \<and>
                body_message d = (JList blocks, reason, n, out))))) \<and>
    (close = Reported \<longrightarrow> (\<exists>shown e cl. sses = shown @ [error_event e] \<and>
        client_run (sv_json sv) shown new_client = Some cl \<and> client_message cl = None)) \<and>
    (\<forall>e. engine_end items = Some (ItemError e) \<and> parse_stop_sequences body = [] \<longrightarrow> close = Reported \<and>
       (\<exists>shown cl. sses = shown @ [error_event e] \<and> client_run (sv_json sv) shown new_client = Some cl \<and> client_message cl = None) \<and>
       handle_messages sv headers ((''stream'', JBool False) # body) mig items = (effs, Json 500 (error_body ''api_error'' e)))"
proof -
  obtain pr first where prep: "prepare_request sv body = Inr pr"
    and reply: "stream_reply sv pr (migrated_queue first items) = EventStream sses close"
    "handle_messages sv headers ((''stream'', JBool False) # body) mig items = (effs, full_reply sv pr (migrated_queue first items))"
    using streaming_handler [OF assms(1)] unfolding Let_def by blast
  define queue where "queue = migrated_queue first items"
  note pr = reply [folded queue_def]
  have stop: "pr_stop pr = parse_stop_sequences body"
    using prep by (auto simp: prepare_request_def abind_Inr_iff Let_def)
  have end_queue: "engine_end queue = engine_end items" by (simp add: queue_def migrated_queue_def split: option.split)
  let ?m = "sp_max_tokens (pr_params pr)"
  have es: "event_stream sv (pr_model pr) ?m (pr_stop pr) (pr_reasoning_open pr) (pr_use_tools pr) (pr_tools pr) (input_tokens pr) queue = (sses, close)"
    using pr(1) by (auto simp: stream_reply_def split: prod.splits)
  show ?thesis
  proof (intro conjI impI allI)
    assume "close = Normal"
    then obtain evs g tcs where run: "stream_text sv (pr_stop pr) (if pr_use_tools pr then open_markers (sv_parser sv) else []) ?m
        (pr_reasoning_open pr) queue = (evs, Ended g)"
      "stream_tool_calls sv (bound_gen evs g) (pr_use_tools pr) (pr_tools pr) = Inr tcs"
      "client_run (sv_json sv) sses new_client = Some (complete_client (input_tokens pr) (message_blocks (sv_json sv) (content_yields evs) tcs)
        (stop_reason_of (bound_gen evs g) tcs) (output_tokens_of (bound_gen evs g)))"
      using event_stream_run [OF es [unfolded \<open>close = Normal\<close>] assms(2)] by blast
    have "\<exists>d. full_reply sv pr queue = Json 200 d \<and> body_message d = (JList (message_blocks (sv_json sv) (content_yields evs) tcs),
        JStr (stop_reason_of (bound_gen evs g) tcs), JInt (input_tokens pr), JInt (output_tokens_of (bound_gen evs g)))"
      if k3: "sv_parser sv = KimiK3ToolParser"
      using k3_stream_text(1) [OF k3 run(1)] k3_stream_text(3) [OF k3 run(1), of "[]"] run(2)
        k3_full_reply [OF k3 k3_stream_text(3) [OF k3 run(1), of "[]"], of "pr_use_tools pr" "pr_tools pr" tcs]
      by (simp add: full_reply_def respond_def res_reply_def body_message_of)
    then show "\<exists>cl blocks reason n out. client_run (sv_json sv) sses new_client = Some cl \<and>
        client_message cl = Some (JList blocks, reason, n, out) \<and> blocks \<noteq> [] \<and>
        (sv_parser sv = KimiK3ToolParser \<longrightarrow>
           (\<exists>d. handle_messages sv headers ((''stream'', JBool False) # body) mig items = (effs, Json 200 d) \<and>
                body_message d = (JList blocks, reason, n, out)))"
      using run(3) pr(2) body_message_of(2) message_blocks_ne by fastforce
  next
    assume "close = Reported"
    then show "\<exists>shown e cl. sses = shown @ [error_event e] \<and> client_run (sv_json sv) shown new_client = Some cl \<and> client_message cl = None"
      using event_stream_Reported es by blast
  next
    fix e assume e: "engine_end items = Some (ItemError e) \<and> parse_stop_sequences body = []"
    then have run: "engine_end queue = Some (ItemError e)"
      "event_stream sv (pr_model pr) ?m [] (pr_reasoning_open pr) (pr_use_tools pr) (pr_tools pr) (input_tokens pr) queue = (sses, close)"
      using es stop end_queue by simp_all
    from event_stream_engine_error [OF run] show "close = Reported"
      "\<exists>shown cl. sses = shown @ [error_event e] \<and> client_run (sv_json sv) shown new_client = Some cl \<and> client_message cl = None" by simp_all
    obtain evs where "stream_text sv (pr_stop pr) [] ?m (pr_reasoning_open pr) queue = (evs, EngineError e)"
      using stream_text_engine_error [OF run(1), of sv "[]" ?m "pr_reasoning_open pr"] e stop by auto
    then show "handle_messages sv headers ((''stream'', JBool False) # body) mig items = (effs, Json 500 (error_body ''api_error'' e))"
      using pr(2) by (simp add: full_reply_def)
  qed
qed

definition small_json :: "unit py_json" where
  "small_json =
     \<lparr>pj_loads = (\<lambda>s. if s = ''{}'' then Some (JDict []) else if s = ''{a}'' then Some (JDict [(''a'', JStr ''1'')]) else None),
      pj_dumps = (\<lambda>v. if v = JDict [] then ''{}'' else if v = JDict [(''a'', JStr ''1'')] then ''{a}'' else ''?''),
      pj_dumps_utf8 = (\<lambda>v. if v = JDict [] then ''{}'' else if v = JDict [(''a'', JStr ''1'')] then ''{a}'' else ''?''),
      pj_float_true = (\<lambda>_. True), pj_float_str = (\<lambda>_. ''0''), pj_repr = (\<lambda>_. ''?''), pj_float_int = (\<lambda>_. Inr 0), pj_int_float = (\<lambda>_. Inr ()),
      pj_str_float = (\<lambda>_. Inr ()), pj_str_int = (\<lambda>_. Inr 0)\<rparr>"

definition code_text :: "int list \<Rightarrow> string" where
  "code_text = map (\<lambda>i. char_of (nat i))"

definition text_codes :: "string \<Rightarrow> int list" where
  "text_codes = map of_char"

definition small_server :: "parser_class \<Rightarrow> unit server" where
  "small_server cls =
     \<lparr>sv_json = small_json, sv_parser = cls,
      sv_text = \<lparr>te_decode = code_text, te_replacement = CHR 0xFF, te_think_open = ''<think>'', te_think_close = ''</think>''\<rparr>,
      sv_decode = code_text, sv_chat = \<lparr>ct_template = (\<lambda>_ _. Inr ''p''), ct_encode = text_codes\<rparr>, sv_model_name = ''m'',
      sv_call_id = (\<lambda>_. ''call_1''), sv_message_id = ''msg_1'', sv_digest = (\<lambda>_. 0)\<rparr>"

definition small_body :: "unit dict" where
  "small_body =
     [(''max_tokens'', JInt 300), (''messages'', JList [JDict [(''role'', JStr ''user''), (''content'', JStr ''go'')]]),
      (''tools'', JList [JDict [(''name'', JStr ''f'')]])]"

definition small_answer :: "int item list" where
  "small_answer =
     [ItemTokens (text_codes ''hi<|open|>tools<|sep|>''),
      ItemTokens (text_codes (''<|open|>call tool='' @ [CHR 0x22] @ ''f'' @ [CHR 0x22] @ ''<|sep|><|close|>call<|sep|>'')), ItemEnd]"

lemma small_json_lawful: "lawful_json small_json"
  by (auto simp: lawful_json_def json_roundtrips_def small_json_def strip_id stripped_def is_space_def split: if_splits)

theorem anthropic_stream_is_response_witness:
  "\<exists>effs sses cl d.
     handle_messages (small_server KimiK3ToolParser) (\<lambda>_. None) ((''stream'', JBool True) # small_body) [] small_answer =
       (effs, EventStream sses Normal) \<and>
     client_run small_json sses new_client = Some cl \<and>
     client_message cl = Some (JList [text_block ''hi'', tool_use_block \<lparr>tc_id = ''call_1'', tc_name = ''f'', tc_arguments = ''{}''\<rparr> (JDict [])],
       JStr ''tool_use'', JInt 1, JInt 70) \<and>
     handle_messages (small_server KimiK3ToolParser) (\<lambda>_. None) ((''stream'', JBool False) # small_body) [] small_answer =
       (effs, Json 200 d) \<and> Some (body_message d) = client_message cl \<and>
     (\<exists>effs' sses'. handle_messages (small_server HermesToolParser) (\<lambda>_. None) ((''stream'', JBool True) # small_body) []
        [ItemTokens (text_codes ''hi''), ItemError ''boom''] = (effs', EventStream sses' Reported) \<and> last sses' = error_event ''boom'')"
proof -
  let ?sv = "small_server KimiK3ToolParser" and ?failed = "[ItemTokens (text_codes ''hi''), ItemError ''boom'']"
  let ?fail = "handle_messages (small_server HermesToolParser) (\<lambda>_. None) ((''stream'', JBool True) # small_body) [] ?failed"
  have "case ?fail of (_, EventStream _ _) \<Rightarrow> True | _ \<Rightarrow> False" by code_simp
  then obtain effs' sses' close where fail: "?fail = (effs', EventStream sses' close)" by (auto split: prod.splits reply.splits)
  have lawful: "lawful_json (sv_json (small_server HermesToolParser))" using small_json_lawful by (simp add: small_server_def)
  have "engine_end ?failed = Some (ItemError ''boom'')" "parse_stop_sequences small_body = []"
    by (simp_all add: parse_stop_sequences_def small_body_def)
  then have failed: "close = Reported" "last sses' = error_event ''boom''"
    using anthropic_stream_is_response [OF fail lawful] by auto
  let ?run = "handle_messages ?sv (\<lambda>_. None) ((''stream'', JBool True) # small_body) [] small_answer"
  let ?msg = "(JList [text_block ''hi'', tool_use_block \<lparr>tc_id = ''call_1'', tc_name = ''f'', tc_arguments = ''{}''\<rparr> (JDict [])],
       JStr ''tool_use'', JInt 1, JInt 70) :: unit json \<times> unit json \<times> unit json \<times> unit json"
  have "case ?run of (effs, EventStream sses Normal) \<Rightarrow>
      (case client_run small_json sses new_client of Some cl \<Rightarrow> client_message cl = Some ?msg | None \<Rightarrow> False) | _ \<Rightarrow> False"
    by code_simp
  then obtain effs sses where run: "?run = (effs, EventStream sses Normal)"
    "case client_run small_json sses new_client of Some cl \<Rightarrow> client_message cl = Some ?msg | None \<Rightarrow> False"
    by (auto split: prod.splits reply.splits stream_close.splits)
  have sv: "sv_json ?sv = small_json" "sv_parser ?sv = KimiK3ToolParser" by (simp_all add: small_server_def)
  show ?thesis
    using anthropic_stream_is_response [OF run(1)] small_json_lawful run failed fail unfolding sv by (auto split: option.splits)
qed

subsection \<open>An answer comes back in the next request\<close>

text \<open>How the chat template sees a call of an earlier turn: with its arguments as a dictionary.\<close>

definition seen_call :: "'f py_json \<Rightarrow> tool_call \<Rightarrow> 'f json" where
  "seen_call pj tc =
     JDict [(''id'', JStr (tc_id tc)), (''type'', JStr ''function''),
       (''function'', JDict [(''name'', JStr (tc_name tc)), (''arguments'', tool_input pj tc)])]"

definition sent_call :: "'f py_json \<Rightarrow> tool_call \<Rightarrow> 'f json" where
  "sent_call pj tc =
     JDict [(''id'', JStr (tc_id tc)), (''type'', JStr ''function''),
       (''function'', JDict [(''name'', JStr (tc_name tc)), (''arguments'', JStr (pj_dumps pj (tool_input pj tc)))])]"

lemma add_tool_use:
  assumes "as_dict (tool_input pj tc) \<noteq> None"
  shows "add_block pj (tool_use_block tc (tool_input pj tc)) parts = Inr (parts\<lparr>tp_calls := tp_calls parts @ [sent_call pj tc]\<rparr>)"
proof -
  obtain d where "tool_input pj tc = JDict d" using assms by (auto simp: as_Some_iff)
  then show ?thesis by (cases d) (simp_all add: add_block_def tool_use_block_def openai_call_def sent_call_def or_else_def Let_def)
qed

lemma add_tool_uses:
  "list_all (\<lambda>tc. as_dict (tool_input pj tc) \<noteq> None) tcs \<Longrightarrow>
   fold_api (add_block pj) (call_blocks pj tcs) parts = Inr (parts\<lparr>tp_calls := tp_calls parts @ map (sent_call pj) tcs\<rparr>)"
  by (induction tcs arbitrary: parts) (simp_all add: add_tool_use)

lemma normalize_sent_call:
  assumes "as_dict (tool_input pj tc) \<noteq> None" "lawful_json pj"
  shows "normalize_call pj (sent_call pj tc) = seen_call pj tc"
proof -
  obtain d where d: "tool_input pj tc = JDict d" using assms(1) by (auto simp: as_Some_iff)
  have "pj_loads pj (pj_dumps pj (JDict d)) = Some (JDict d)" "strip (pj_dumps pj (JDict d)) \<noteq> []"
    using tool_input_roundtrips [OF assms(2), of tc] assms(2) by (simp_all add: d json_roundtrips_def lawful_json_def)
  then show ?thesis
    by (simp add: d normalize_call_def sent_call_def seen_call_def normalize_arguments_def)
qed

lemma fold_api_append: "fold_api f (xs @ ys) s = abind (fold_api f xs s) (fold_api f ys)"
  by (induction xs arbitrary: s) (auto simp: abind_def split: sum.split)

lemma answer_parts:
  assumes "list_all (\<lambda>tc. as_dict (tool_input pj tc) \<noteq> None) tcs"
  shows "\<exists>parts. fold_api (add_block pj) (message_blocks pj t tcs) \<lparr>tp_text = [], tp_calls = [], tp_results = []\<rparr> = Inr parts \<and>
    concat (tp_text parts) = t \<and> tp_calls parts = map (sent_call pj) tcs"
proof -
  have add: "add_block pj (text_block x) \<lparr>tp_text = [], tp_calls = [], tp_results = []\<rparr> = Inr \<lparr>tp_text = [x], tp_calls = [], tp_results = []\<rparr>" for x
    by (simp add: add_block_def text_block_def)
  show ?thesis
    using add_tool_uses [OF assms] add by (cases "t = []"; cases tcs) (simp_all add: message_blocks_def fold_api_append)
qed

lemma response_content:
  assumes "format_messages_response sv model t gen ut tools n = Inr d"
    and "parse_gen sv gen t (if ut then tools else JNull) = Inr parsed"
  shows "jget d ''content'' = JList (message_blocks (sv_json sv) (case po_content parsed of Some c \<Rightarrow> c | None \<Rightarrow> [])
    (if ut then tool_calls_of sv parsed else []))"
  using assms
  by (auto simp: format_messages_response_def response_body_def message_blocks_def Let_def split: option.splits)

text \<open>
  C27: an answer comes back unchanged. When a client sends the content of an answer back as the assistant's turn of its
  next request, the conversion accepts the turn, adds one assistant message for it, and after normalisation the chat
  template sees the visible text of the parsed completion and its tool calls in order, with the same identifiers and
  names and with the arguments the client was given, as dictionaries, whichever parser produced them.
\<close>

theorem assistant_turn_roundtrip:
  assumes "format_messages_response sv model t gen ut tools n = Inr d"
    and "parse_gen sv gen t (if ut then tools else JNull) = Inr parsed"
    and "tcs = (if ut then tool_calls_of sv parsed else [])"
    and "list_all (\<lambda>tc. as_dict (tool_input (sv_json sv) tc) \<noteq> None) tcs" "lawful_json (sv_json sv)"
  shows "\<exists>m. convert_message (sv_json sv) (JDict [(''role'', JStr ''assistant''), (''content'', jget d ''content'')]) (sys, msgs) =
      Inr (sys, msgs @ [m]) \<and>
    normalize_message (sv_json sv) m =
      message (JStr ''assistant'') (case po_content parsed of Some c \<Rightarrow> c | None \<Rightarrow> []) @
      (if tcs = [] then [] else [(''tool_calls'', JList (map (seen_call (sv_json sv)) tcs))])"
proof -
  let ?pj = "sv_json sv" and ?t = "case po_content parsed of Some c \<Rightarrow> c | None \<Rightarrow> []"
  obtain parts where parts: "fold_api (add_block ?pj) (message_blocks ?pj ?t tcs) \<lparr>tp_text = [], tp_calls = [], tp_results = []\<rparr> = Inr parts"
    "concat (tp_text parts) = ?t" "tp_calls parts = map (sent_call ?pj) tcs"
    using answer_parts [OF assms(4)] by blast
  have content: "jget d ''content'' = JList (message_blocks ?pj ?t tcs)" using response_content [OF assms(1,2)] assms(3) by simp
  let ?m = "message (JStr ''assistant'') ?t @ (if tcs = [] then [] else [(''tool_calls'', JList (map (sent_call ?pj) tcs))])"
  have "convert_message ?pj (JDict [(''role'', JStr ''assistant''), (''content'', jget d ''content'')]) (sys, msgs) = Inr (sys, msgs @ [?m])"
    using parts by (simp add: convert_message_def content turn_messages_def Let_def)
  moreover have "map (normalize_call ?pj) (map (sent_call ?pj) tcs) = map (seen_call ?pj) tcs"
    using assms(4,5) normalize_sent_call by (auto simp: list_all_iff)
  then have "normalize_message ?pj ?m = message (JStr ''assistant'') ?t @
      (if tcs = [] then [] else [(''tool_calls'', JList (map (seen_call ?pj) tcs))])"
    by (simp add: normalize_message_def message_def flatten_content_def Let_def)
  ultimately show ?thesis by blast
qed

definition small_text :: string where
  "small_text = ''ok <tool_call>f<arg_key>a</arg_key><arg_value>1</arg_value></tool_call>''"

theorem assistant_turn_roundtrip_witness:
  "\<exists>d m. format_messages_response (small_server GLMXMLToolParser) (JStr ''m'') small_text None True JNull 3 = Inr d \<and>
     convert_message small_json (JDict [(''role'', JStr ''assistant''), (''content'', jget d ''content'')]) ([], []) = Inr ([], [m]) \<and>
     normalize_message small_json m =
       message (JStr ''assistant'') ''ok'' @
       [(''tool_calls'', JList [JDict [(''id'', JStr ''call_1''), (''type'', JStr ''function''),
          (''function'', JDict [(''name'', JStr ''f''), (''arguments'', JDict [(''a'', JStr ''1'')])])]])]"
proof -
  let ?sv = "small_server GLMXMLToolParser"
  let ?p = "\<lparr>po_content = Some ''ok'', po_tool_calls = [(''f'', ''{a}'')], po_reasoning = None\<rparr>"
  let ?tc = "\<lparr>tc_id = ''call_1'', tc_name = ''f'', tc_arguments = ''{a}''\<rparr>"
  have sv: "sv_json ?sv = small_json" by (simp add: small_server_def)
  have parse: "parse_gen ?sv None small_text (if True then JNull else JNull) = Inr ?p" unfolding small_text_def by code_simp
  then obtain d where d: "format_messages_response ?sv (JStr ''m'') small_text None True JNull 3 = Inr d"
    by (simp add: format_messages_response_def Let_def)
  have tcs: "[?tc] = (if True then tool_calls_of ?sv ?p else [])" by code_simp
  have inputs: "list_all (\<lambda>tc. as_dict (tool_input (sv_json ?sv) tc) \<noteq> None) [?tc]" by code_simp
  have seen: "map (seen_call small_json) [?tc] = [JDict [(''id'', JStr ''call_1''), (''type'', JStr ''function''),
          (''function'', JDict [(''name'', JStr ''f''), (''arguments'', JDict [(''a'', JStr ''1'')])])]]" by code_simp
  show ?thesis
    using assistant_turn_roundtrip [OF d parse tcs inputs, of "[]" "[]"] small_json_lawful d unfolding sv seen by auto
qed

subsection \<open>Answers that lose their content\<close>

text \<open>
  A thinking model that closes its reasoning at once and calls a tool: the text before the held marker is only the closing
  tag, which counts as emitted, so the stream yields nothing and the handlers never see the generation. The tool call is
  lost from the streamed answer, and with it the token count; the non-streaming answer has it.
\<close>

definition bare_call :: "int item list" where
  "bare_call = [ItemTokens (text_codes ''</think><tool_call>f</tool_call>''), ItemEnd]"

lemma empty_reasoning_loses_tool_call:
  "case event_stream (small_server GLMXMLToolParser) (JStr ''m'') 300 [] True True JNull 1 bare_call of (sses, close) \<Rightarrow>
     close = Normal \<and> map_option client_message (client_run small_json sses new_client) =
       Some (Some (JList [text_block []], JStr ''end_turn'', JInt 1, JInt 0))"
  "case stream_text (small_server GLMXMLToolParser) [] [] 300 True bare_call of
     (evs, Ended g) \<Rightarrow> rbind (format_messages_response (small_server GLMXMLToolParser) (JStr ''m'') (content_yields evs) (bound_gen evs g) True JNull 1)
         (\<lambda>d. Inr (body_message d)) =
       Inr (JList [tool_use_block \<lparr>tc_id = ''call_1'', tc_name = ''f'', tc_arguments = ''{}''\<rparr> (JDict [])], JStr ''tool_use'', JInt 1, JInt 32)
   | _ \<Rightarrow> False"
  by code_simp+

text \<open>An empty string as \<open>stop_sequences\<close> is kept as a stop string and cuts every answer at its start; an empty string in a list is dropped.\<close>

lemma empty_stop_sequence_cuts_everything:
  "parse_stop_sequences [(''stop_sequences'', JStr [])] = [[]]" "earliest_stop tx [[]] = Some 0"
  "parse_stop_sequences [(''stop_sequences'', JList [JStr []])] = []"
  by (simp_all add: parse_stop_sequences_def earliest_stop_def map_filter_def) (cases tx; simp)

end
