(* ===== verification/Openai_Api.thy ===== *)
theory Openai_Api
  imports Anthropic_Stream
begin

section \<open>The OpenAI handlers (\<open>server/openai_server.py\<close>)\<close>

text \<open>
  The handlers of \<open>/v1/chat/completions\<close> and \<open>/v1/completions\<close>: which model names are served, sampling parameters and stop
  strings, the length check, submission, the non-streaming answers and the streams of chunks. Error messages are
  short keys; the path functions of \<open>os\<close>, the clock, the UUIDs and the tokenizer on a value that is not a string are parameters.
\<close>

subsection \<open>The server\<close>

record 'f chat_server =
  cs_server :: "'f server"
  cs_max_model_len :: int
  cs_default_max_tokens :: int
  cs_model_path :: string
  cs_expanduser :: "string \<Rightarrow> string"
  cs_realpath :: "string \<Rightarrow> string option"
  cs_encode_value :: "'f json \<Rightarrow> int list res"
  cs_completion_id :: string
  cs_created :: int

definition rstrip_slash :: "string \<Rightarrow> string" where
  "rstrip_slash s = rev (dropWhile (\<lambda>c. c = CHR ''/'') (rev s))"

text \<open>\<open>s.split("/")[-1]\<close>.\<close>

definition base_name :: "string \<Rightarrow> string" where
  "base_name s = rev (takeWhile (\<lambda>c. c \<noteq> CHR ''/'') (rev s))"

definition model_aliases :: "'f chat_server \<Rightarrow> string list" where
  "model_aliases cs =
     (let path = rstrip_slash (cs_model_path cs)
      in [sv_model_name (cs_server cs)] @
         concat (map (\<lambda>raw. rstrip_slash raw # (case cs_realpath cs raw of None \<Rightarrow> [] | Some r \<Rightarrow> [rstrip_slash r])) [path, cs_expanduser cs path]) @
         (if base_name path = [] then [] else [base_name path]))"

definition served :: "'f chat_server \<Rightarrow> string \<Rightarrow> bool" where
  "served cs key \<longleftrightarrow> key \<in> set (model_aliases cs) \<or> py_lower key \<in> set (map py_lower (model_aliases cs))"

definition resolve_request_model :: "'f chat_server \<Rightarrow> 'f json \<Rightarrow> string option res" where
  "resolve_request_model cs requested =
     (if \<not> truthy (sv_json (cs_server cs)) requested then Inr None
      else (case as_str requested of
              None \<Rightarrow> Inl AttributeError
            | Some r \<Rightarrow>
                (let key = rstrip_slash (strip r); expanded = cs_expanduser cs key;
                     found = (served cs key \<or> served cs (rstrip_slash expanded) \<or>
                       (case cs_realpath cs expanded of None \<Rightarrow> False | Some p \<Rightarrow> served cs (rstrip_slash p)))
                 in Inr (if found then Some (sv_model_name (cs_server cs)) else None))))"

definition chat_sampling_params :: "'f chat_server \<Rightarrow> 'f dict \<Rightarrow> 'f sampling_params res" where
  "chat_sampling_params cs body =
     (let pj = sv_json (cs_server cs); temperature = jget body ''temperature'';
          max_tokens = or_else pj (or_else pj (jget body ''max_tokens'') (jget body ''max_completion_tokens'')) (JInt (cs_default_max_tokens cs))
      in rbind (py_float pj (if temperature = JNull then JInt 1 else temperature)) (\<lambda>t.
         rbind (py_int pj max_tokens) (\<lambda>m.
           Inr \<lparr>sp_temperature = t, sp_max_tokens = m, sp_ignore_eos = truthy pj (jget body ''ignore_eos'')\<rparr>)))"

definition parse_stop :: "'f dict \<Rightarrow> string list" where
  "parse_stop body =
     (let raw = (case jget body ''stop'' of JStr s \<Rightarrow> [JStr s] | JList xs \<Rightarrow> xs | _ \<Rightarrow> [])
      in filter (\<lambda>s. s \<noteq> []) (List.map_filter as_str raw))"

definition stream_includes_usage :: "'f dict \<Rightarrow> bool" where
  "stream_includes_usage body \<longleftrightarrow>
     (case as_dict (jget body ''stream_options'') of Some options \<Rightarrow> jget options ''include_usage'' = JBool True | None \<Rightarrow> False)"

definition openai_error :: "string \<Rightarrow> string \<Rightarrow> 'f dict" where
  "openai_error ty msg = [(''error'', JDict [(''message'', JStr msg), (''type'', JStr ty)])]"

definition validate_request_length :: "'f chat_server \<Rightarrow> int list \<Rightarrow> 'f sampling_params \<Rightarrow> 'f reply option" where
  "validate_request_length cs prompt_ids params =
     (let prompt_len = int (length prompt_ids); total_len = prompt_len + sp_max_tokens params
      in if prompt_len \<le> cs_max_model_len cs \<and> total_len \<le> cs_max_model_len cs then None
         else Some (Json 400 [(''error'', JDict [(''message'', JStr ''Requested token length exceeds max_model_len''),
           (''type'', JStr ''invalid_request_error''), (''code'', JStr ''context_length_exceeded'')])]))"

subsection \<open>The calls a generation has at each yield\<close>

text \<open>
  The chat handler reads \<open>gen.tool_calls\<close> at every yield of a structured stream. Each parsed delta is one yield; the calls
  seen at the yields are collected along the loop of the stream.
\<close>

type_synonym k3_call_list = "(string \<times> (string \<times> arg_value) list) list"

fun calls_seen :: "delta list \<Rightarrow> k3_call_list \<Rightarrow> k3_call_list list" where
  "calls_seen [] calls = []"
| "calls_seen (p # ps) calls =
     (let calls' = (case p of CallDelta name args \<Rightarrow> calls @ [(name, args)] | _ \<Rightarrow> calls) in calls' # calls_seen ps calls')"

definition window_calls :: "(string \<Rightarrow> bool) \<Rightarrow> string list \<Rightarrow> 't structured \<Rightarrow> k3_call_list list" where
  "window_calls jok stops st =
     (let p = ss_pending st; cut = (if stops = [] then None else earliest_stop p stops);
          safe = (case cut of Some i \<Rightarrow> i | None \<Rightarrow> length p - partial_stop_holdback p stops)
      in calls_seen (fst (feed jok (take safe p) (ss_parser st))) (ss_tool_calls st))"

definition token_calls ::
  "('t, char) text_env \<Rightarrow> (string \<Rightarrow> bool) \<Rightarrow> string list \<Rightarrow> int \<Rightarrow> 't list \<Rightarrow> 't structured \<Rightarrow> k3_call_list list" where
  "token_calls env jok stops max_tokens toks st =
     (let remaining = max_tokens - py_len (g_token_ids (ss_gen st))
      in if remaining \<le> 0 then []
         else (case incremental_detokenize env
                      ((ss_gen st)\<lparr>g_token_ids := g_token_ids (ss_gen st) @ take (nat remaining) toks\<rparr>) of
                 (delta, gen) \<Rightarrow> window_calls jok stops (st\<lparr>ss_gen := gen, ss_pending := ss_pending st @ delta\<rparr>)))"

definition finish_calls :: "(string \<Rightarrow> bool) \<Rightarrow> 't structured \<Rightarrow> k3_call_list list" where
  "finish_calls jok st =
     (case feed jok (ss_pending st) (ss_parser st) of
        (deltas, parser) \<Rightarrow>
          (let seen = calls_seen (deltas @ fst (finish parser)) (ss_tool_calls st) in seen @ [last (ss_tool_calls st # seen)]))"

fun stream_calls ::
  "('t, char) text_env \<Rightarrow> (string \<Rightarrow> bool) \<Rightarrow> string list \<Rightarrow> int \<Rightarrow> 't item list \<Rightarrow> 't structured \<Rightarrow> k3_call_list list" where
  "stream_calls env jok stops m [] st = []"
| "stream_calls env jok stops m (ItemEnd # items) st = finish_calls jok st"
| "stream_calls env jok stops m (ItemError e # items) st = []"
| "stream_calls env jok stops m (ItemOther # items) st = stream_calls env jok stops m items st"
| "stream_calls env jok stops m (ItemTokens toks # items) st =
     token_calls env jok stops m toks st @
     (case structured_tokens env jok stops m toks st of
        (evs, st1, True) \<Rightarrow> finish_calls jok st1 | (evs, st1, False) \<Rightarrow> stream_calls env jok stops m items st1)"

text \<open>The calls per yield as objects; without the structured parser \<open>gen.tool_calls\<close> stays empty.\<close>

definition number_calls :: "'f server \<Rightarrow> k3_call_list \<Rightarrow> tool_call list" where
  "number_calls sv calls = tool_calls_of sv (k3_output (sv_json sv) (None, None, calls))"

definition calls_at :: "'f server \<Rightarrow> string list \<Rightarrow> int \<Rightarrow> bool \<Rightarrow> int item list \<Rightarrow> char event list \<Rightarrow> tool_call list list" where
  "calls_at sv stop max_tokens reasoning_open items evs =
     (if sv_parser sv = KimiK3ToolParser
      then map (number_calls sv) (stream_calls (sv_text sv) (json_ok (sv_json sv)) stop max_tokens items (new_structured reasoning_open))
      else map (\<lambda>_. []) evs)"

subsection \<open>Chunks and answers\<close>

definition call_dict :: "tool_call \<Rightarrow> 'f dict" where
  "call_dict tc =
     [(''id'', JStr (tc_id tc)), (''type'', JStr ''function''),
      (''function'', JDict [(''name'', JStr (tc_name tc)), (''arguments'', JStr (tc_arguments tc))])]"

definition indexed_calls :: "nat \<Rightarrow> tool_call list \<Rightarrow> 'f json" where
  "indexed_calls start calls = JList (map (\<lambda>(i, tc). JDict ((''index'', JInt (int i)) # call_dict tc)) (enumerate start calls))"

definition usage_dict :: "int list \<Rightarrow> int list \<Rightarrow> 'f json" where
  "usage_dict prompt_ids token_ids =
     JDict [(''prompt_tokens'', JInt (int (length prompt_ids))), (''completion_tokens'', JInt (int (length token_ids))),
            (''total_tokens'', JInt (int (length prompt_ids) + int (length token_ids)))]"

definition envelope :: "'f chat_server \<Rightarrow> string \<Rightarrow> 'f json list \<Rightarrow> 'f dict \<Rightarrow> 'f dict" where
  "envelope cs obj choices extra =
     [(''id'', JStr (cs_completion_id cs)), (''object'', JStr obj), (''created'', JInt (cs_created cs)),
      (''model'', JStr (sv_model_name (cs_server cs))), (''choices'', JList choices)] @ extra"

definition chat_chunk :: "'f chat_server \<Rightarrow> 'f dict \<Rightarrow> 'f json \<Rightarrow> 'f dict" where
  "chat_chunk cs delta finish_reason =
     envelope cs ''chat.completion.chunk''
       [JDict [(''index'', JInt 0), (''delta'', JDict delta), (''finish_reason'', finish_reason)]] []"

text \<open>The events of a chunk stream: the data of a chunk, or the end marker.\<close>

datatype 'f chunk = Chunk "'f dict" | DoneMark

text \<open>Both handlers start with an empty generation, which a yield replaces.\<close>

definition gen_or_new :: "char event list \<Rightarrow> gen_view \<Rightarrow> gen_view" where
  "gen_or_new evs g =
     (case bound_gen evs g of Some b \<Rightarrow> b | None \<Rightarrow> \<lparr>gv_token_ids = [], gv_finish_reason = ''stop'', gv_parsed = None\<rparr>)"

text \<open>The loop of the chat stream: the chunks, whether reasoning was streamed, and how many calls were.\<close>

fun chat_deltas ::
  "'f chat_server \<Rightarrow> bool \<Rightarrow> bool \<Rightarrow> nat \<Rightarrow> (char event \<times> tool_call list) list \<Rightarrow> 'f chunk list \<times> bool \<times> nat" where
  "chat_deltas cs with_calls streamed_reasoning streamed_calls [] = ([], streamed_reasoning, streamed_calls)"
| "chat_deltas cs with_calls streamed_reasoning streamed_calls (((delta, in_reasoning), calls) # evs) =
     (let text_obj = (if delta = [] then [] else [(if in_reasoning then ''reasoning_content'' else ''content'', JStr delta)]);
          new_calls = (if with_calls then drop streamed_calls calls else []);
          delta_obj = text_obj @ (if new_calls = [] then [] else [(''tool_calls'', indexed_calls streamed_calls new_calls)])
      in case chat_deltas cs with_calls (streamed_reasoning \<or> (delta \<noteq> [] \<and> in_reasoning))
                (if new_calls = [] then streamed_calls else length calls) evs of
           (chunks, r, k) \<Rightarrow> ((if delta_obj = [] then [] else [Chunk (chat_chunk cs delta_obj JNull)]) @ chunks, r, k))"

text \<open>The chunks after the loop, given the parse of the generation when tools are in use.\<close>

definition chat_closing ::
  "'f chat_server \<Rightarrow> bool \<Rightarrow> int list \<Rightarrow> gen_view \<Rightarrow> (tool_call list \<times> string option) option \<Rightarrow> bool \<Rightarrow> nat \<Rightarrow> 'f chunk list" where
  "chat_closing cs include_usage prompt_ids gen parsed streamed_reasoning streamed_calls =
     (let calls = (case parsed of Some (tcs, _) \<Rightarrow> tcs | None \<Rightarrow> []);
          reasoning = (case parsed of Some (_, Some r) \<Rightarrow> if streamed_reasoning then [] else [(''reasoning_content'', JStr r)] | _ \<Rightarrow> []);
          remaining = drop streamed_calls calls;
          tool_delta = reasoning @ (if remaining = [] then [] else [(''tool_calls'', indexed_calls streamed_calls remaining)]);
          reason = (if calls = [] then gv_finish_reason gen else ''tool_calls'')
      in (if tool_delta = [] then [] else [Chunk (chat_chunk cs tool_delta JNull)]) @
         [Chunk (chat_chunk cs [] (JStr reason))] @
         (if include_usage then [Chunk (envelope cs ''chat.completion.chunk'' [] [(''usage'', usage_dict prompt_ids (gv_token_ids gen))])] else []) @
         [DoneMark])"

definition error_chunks :: "string \<Rightarrow> 'f chunk list" where
  "error_chunks msg = [Chunk (openai_error ''engine_error'' msg), DoneMark]"

record 'f chat_request =
  cr_params :: "'f sampling_params"
  cr_stop :: "string list"
  cr_tools :: "'f json"
  cr_use_tools :: bool
  cr_prompt :: "int list"
  cr_reasoning_open :: bool
  cr_include_usage :: bool

definition chat_parse :: "'f server \<Rightarrow> 'f chat_request \<Rightarrow> gen_view \<Rightarrow> (tool_call list \<times> string option) option res" where
  "chat_parse sv cr gen =
     (if cr_use_tools cr
      then rbind (parse_gen sv (Some gen) (if gv_parsed gen \<noteq> None then [] else sv_decode sv (gv_token_ids gen)) (cr_tools cr)) (\<lambda>p.
             Inr (Some (tool_calls_of sv p, po_reasoning p)))
      else Inr None)"

definition chat_stream :: "'f chat_server \<Rightarrow> 'f chat_request \<Rightarrow> int item list \<Rightarrow> 'f chunk list \<times> stream_close" where
  "chat_stream cs cr items =
     (let sv = cs_server cs; m = sp_max_tokens (cr_params cr)
      in case stream_text sv (cr_stop cr) (if cr_use_tools cr then open_markers (sv_parser sv) else []) m (cr_reasoning_open cr) items of
           (evs, out) \<Rightarrow>
             (let with_calls = (cr_use_tools cr \<and> sv_parser sv = KimiK3ToolParser);
                  first = Chunk (chat_chunk cs [(''role'', JStr ''assistant'')] JNull)
              in case chat_deltas cs with_calls False 0 (zip evs (calls_at sv (cr_stop cr) m (cr_reasoning_open cr) items evs)) of
                   (chunks, streamed_reasoning, streamed_calls) \<Rightarrow>
                     (case out of
                        Unfinished \<Rightarrow> (first # chunks, Suspended)
                      | EngineError e \<Rightarrow> (first # chunks @ error_chunks e, Reported)
                      | Ended g \<Rightarrow>
                          (case chat_parse sv cr (gen_or_new evs g) of
                             Inl e \<Rightarrow> (case e of RuntimeErr s \<Rightarrow> (first # chunks @ error_chunks s, Reported) | _ \<Rightarrow> (first # chunks, Escaped e))
                           | Inr parsed \<Rightarrow>
                               (first # chunks @ chat_closing cs (cr_include_usage cr) (cr_prompt cr) (gen_or_new evs g) parsed streamed_reasoning streamed_calls,
                                Normal)))))"

definition chat_message :: "bool \<Rightarrow> string \<Rightarrow> parsed_output \<Rightarrow> tool_call list \<Rightarrow> 'f dict" where
  "chat_message use_tools reasoning_text parsed calls =
     (let reasoning = (if reasoning_text \<noteq> [] then reasoning_text else case po_reasoning parsed of Some r \<Rightarrow> r | None \<Rightarrow> [])
      in [(''role'', JStr ''assistant''), (''content'', JStr (case po_content parsed of Some c \<Rightarrow> c | None \<Rightarrow> []))] @
         (if reasoning = [] then [] else [(''reasoning_content'', JStr reasoning)]) @
         (if use_tools \<and> calls \<noteq> [] then [(''tool_calls'', JList (map (\<lambda>tc. JDict (call_dict tc)) calls))] else []))"

definition chat_answer :: "'f chat_server \<Rightarrow> 'f dict \<Rightarrow> string \<Rightarrow> 'f json \<Rightarrow> 'f dict \<Rightarrow> 'f dict" where
  "chat_answer cs msg finish_reason usage extra =
     envelope cs ''chat.completion'' [JDict [(''index'', JInt 0), (''message'', JDict msg), (''finish_reason'', JStr finish_reason)]]
       ([(''usage'', usage)] @ extra)"

definition chat_full :: "'f chat_server \<Rightarrow> 'f chat_request \<Rightarrow> int item list \<Rightarrow> 'f reply" where
  "chat_full cs cr items =
     (let sv = cs_server cs
      in case stream_text sv (cr_stop cr) [] (sp_max_tokens (cr_params cr)) (cr_reasoning_open cr) items of
           (evs, Unfinished) \<Rightarrow> Blocked
         | (evs, EngineError e) \<Rightarrow> Json 500 (openai_error ''engine_error'' e)
         | (evs, Ended g) \<Rightarrow>
             (let gen = gen_or_new evs g
              in res_reply (rbind (parse_gen sv (Some gen) (content_yields evs) (if cr_use_tools cr then cr_tools cr else JNull)) (\<lambda>parsed.
                   let calls = tool_calls_of sv parsed;
                       reason = (if cr_use_tools cr \<and> calls \<noteq> [] then ''tool_calls'' else gv_finish_reason gen)
                   in Inr (chat_answer cs (chat_message (cr_use_tools cr) (reasoning_yields evs) parsed calls) reason
                        (usage_dict (cr_prompt cr) (gv_token_ids gen)) [])))))"

definition handoff_params :: "'f dict \<Rightarrow> 'f dict" where
  "handoff_params d =
     [(''kv_transfer_params'', JDict [(''migration'', jget d ''migration''), (''first_token'', jget d ''first_token''), (''seq_id'', jget d ''seq_id'')])]"

text \<open>A prefill-stage request, with how the handler words a finished answer and a handoff.\<close>

definition prefill_stage :: "'f server \<Rightarrow> (int list \<Rightarrow> 'f dict) \<Rightarrow> ('f dict \<Rightarrow> 'f dict) \<Rightarrow> 'f mig_item list \<Rightarrow> 'f reply" where
  "prefill_stage sv finished handoff mig_items =
     (case await_migration [] mig_items of
        MigWaiting \<Rightarrow> Blocked
      | MigRaised e \<Rightarrow> Json 500 (openai_error ''engine_error'' e)
      | MigFinished tokens \<Rightarrow> Json 200 (finished tokens)
      | MigItem d \<Rightarrow> if truthy (sv_json sv) (jget d ''migration'') then Json 200 (handoff d) else Json 200 (finished (token_list (jget d ''tokens''))))"

definition chat_prefill :: "'f chat_server \<Rightarrow> 'f chat_request \<Rightarrow> 'f mig_item list \<Rightarrow> 'f reply" where
  "chat_prefill cs cr =
     (let msg = (\<lambda>t. [(''role'', JStr ''assistant''), (''content'', JStr t)])
      in prefill_stage (cs_server cs)
           (\<lambda>tokens. chat_answer cs (msg (sv_decode (cs_server cs) tokens)) ''stop'' (usage_dict (cr_prompt cr) tokens) [])
           (\<lambda>d. chat_answer cs (msg []) ''length'' (usage_dict (cr_prompt cr) []) (handoff_params d)))"

subsection \<open>Plain completions\<close>

definition text_chunk :: "'f chat_server \<Rightarrow> string \<Rightarrow> 'f json \<Rightarrow> 'f dict" where
  "text_chunk cs t finish_reason =
     envelope cs ''text_completion'' [JDict [(''index'', JInt 0), (''text'', JStr t), (''finish_reason'', finish_reason)]] []"

definition text_answer :: "'f chat_server \<Rightarrow> string \<Rightarrow> string \<Rightarrow> 'f json \<Rightarrow> 'f dict \<Rightarrow> 'f dict" where
  "text_answer cs t finish_reason usage extra =
     envelope cs ''text_completion'' [JDict [(''index'', JInt 0), (''text'', JStr t), (''finish_reason'', JStr finish_reason)]]
       ([(''usage'', usage)] @ extra)"

definition completion_stream :: "'f chat_server \<Rightarrow> 'f chat_request \<Rightarrow> int item list \<Rightarrow> 'f chunk list \<times> stream_close" where
  "completion_stream cs cr items =
     (case stream_text (cs_server cs) (cr_stop cr) [] (sp_max_tokens (cr_params cr)) False items of
        (evs, out) \<Rightarrow>
          (let chunks = map (\<lambda>ev. Chunk (text_chunk cs (fst ev) JNull)) evs
           in case out of
                Unfinished \<Rightarrow> (chunks, Suspended)
              | EngineError e \<Rightarrow> (chunks @ error_chunks e, Reported)
              | Ended g \<Rightarrow>
                  (let gen = gen_or_new evs g
                   in (chunks @ [Chunk (text_chunk cs [] (JStr (gv_finish_reason gen)))] @
                       (if cr_include_usage cr
                        then [Chunk (envelope cs ''text_completion'' [] [(''usage'', usage_dict (cr_prompt cr) (gv_token_ids gen))])] else []) @
                       [DoneMark], Normal))))"

definition completion_full :: "'f chat_server \<Rightarrow> 'f chat_request \<Rightarrow> int item list \<Rightarrow> 'f reply" where
  "completion_full cs cr items =
     (case stream_text (cs_server cs) (cr_stop cr) [] (sp_max_tokens (cr_params cr)) False items of
        (evs, Unfinished) \<Rightarrow> Blocked
      | (evs, EngineError e) \<Rightarrow> Json 500 (openai_error ''engine_error'' e)
      | (evs, Ended g) \<Rightarrow>
          (let gen = gen_or_new evs g
           in Json 200 (text_answer cs (concat (map fst evs)) (gv_finish_reason gen) (usage_dict (cr_prompt cr) (gv_token_ids gen)) [])))"

definition completion_prefill :: "'f chat_server \<Rightarrow> 'f chat_request \<Rightarrow> 'f mig_item list \<Rightarrow> 'f reply" where
  "completion_prefill cs cr =
     prefill_stage (cs_server cs)
       (\<lambda>tokens. text_answer cs (sv_decode (cs_server cs) tokens) ''stop'' (usage_dict (cr_prompt cr) tokens) [])
       (\<lambda>d. text_answer cs [] ''length'' (usage_dict (cr_prompt cr) []) (handoff_params d))"

subsection \<open>The handlers\<close>

datatype 'f chat_reply = Whole "'f reply" | Chunks "'f chunk list" stream_close

text \<open>\<open>for m in messages\<close>: a list, the keys of a dictionary or the characters of a string.\<close>

definition iterate :: "'f json \<Rightarrow> 'f json list res" where
  "iterate v = (case v of
     JList xs \<Rightarrow> Inr xs | JStr s \<Rightarrow> Inr (map (\<lambda>c. JStr [c]) s) | JDict d \<Rightarrow> Inr (map (\<lambda>f. JStr (fst f)) d) | _ \<Rightarrow> Inl TypeError)"

definition prepare_chat :: "'f chat_server \<Rightarrow> 'f dict \<Rightarrow> 'f chat_request res" where
  "prepare_chat cs body =
     (let sv = cs_server cs; pj = sv_json sv; tools = jget body ''tools''
      in rbind (chat_sampling_params cs body) (\<lambda>params.
         rbind (iterate (or_else pj (jget body ''messages'') (JList []))) (\<lambda>messages.
         rbind (encode_chat pj (sv_chat sv) messages tools) (\<lambda>(prompt_ids, reasoning_open).
           Inr \<lparr>cr_params = params, cr_stop = parse_stop body, cr_tools = tools,
                cr_use_tools = (truthy pj tools \<and> jget body ''tool_choice'' \<noteq> JStr ''none''), cr_prompt = prompt_ids,
                cr_reasoning_open = reasoning_open, cr_include_usage = stream_includes_usage body\<rparr>))))"

text \<open>\<open>type(item) is int\<close>, which is not true of booleans.\<close>

definition token_ids :: "'f json \<Rightarrow> int list option" where
  "token_ids v =
     (case as_list v of
        None \<Rightarrow> None
      | Some xs \<Rightarrow> if list_all (\<lambda>x. case x of JInt _ \<Rightarrow> True | _ \<Rightarrow> False) xs then Some (List.map_filter as_int xs) else None)"

definition encode_prompt :: "'f chat_server \<Rightarrow> 'f json \<Rightarrow> int list res" where
  "encode_prompt cs prompt =
     (case as_str prompt of Some s \<Rightarrow> Inr (ct_encode (sv_chat (cs_server cs)) s) | None \<Rightarrow> cs_encode_value cs prompt)"

definition completion_prompt :: "'f chat_server \<Rightarrow> 'f dict \<Rightarrow> int list res" where
  "completion_prompt cs body =
     (let prompt = (case map_of body ''prompt'' of None \<Rightarrow> JStr [] | Some v \<Rightarrow> v)
      in case token_ids prompt of
           Some ids \<Rightarrow> Inr ids
         | None \<Rightarrow> (case as_list prompt of
               Some (p # _) \<Rightarrow> encode_prompt cs p | Some [] \<Rightarrow> encode_prompt cs (JStr []) | None \<Rightarrow> encode_prompt cs prompt))"

definition prepare_completion :: "'f chat_server \<Rightarrow> 'f dict \<Rightarrow> ('f reply + 'f chat_request) res" where
  "prepare_completion cs body =
     rbind (chat_sampling_params cs body) (\<lambda>params.
       let request = (\<lambda>ids. \<lparr>cr_params = params, cr_stop = parse_stop body, cr_tools = JNull, cr_use_tools = False, cr_prompt = ids,
             cr_reasoning_open = False, cr_include_usage = stream_includes_usage body\<rparr>);
           input_ids = jget body ''input_ids''
       in if input_ids \<noteq> JNull
          then Inr (case token_ids input_ids of
                 None \<Rightarrow> Inl (Json 400 (openai_error ''invalid_request_error'' ''input_ids must be a list of integer token ids''))
               | Some ids \<Rightarrow> Inr (request ids))
          else rbind (completion_prompt cs body) (\<lambda>ids. Inr (Inr (request ids))))"

text \<open>The part of both handlers after the length check.\<close>

definition dispatch ::
  "'f chat_server \<Rightarrow> (string \<Rightarrow> string option) \<Rightarrow> 'f dict \<Rightarrow> 'f chat_request \<Rightarrow> ('f mig_item list \<Rightarrow> 'f reply) \<Rightarrow>
   (int item list \<Rightarrow> 'f chat_reply) \<Rightarrow> 'f mig_item list \<Rightarrow> int item list \<Rightarrow> 'f effect list \<times> 'f chat_reply" where
  "dispatch cs headers body cr prefill answer mig_items items =
     (let sv = cs_server cs; pj = sv_json sv; submit = Submit (cr_prompt cr) (cr_params cr) (session_affinity_key sv headers body)
      in case as_dict (or_else pj (jget body ''kv_transfer_params'') (JDict [])) of
           None \<Rightarrow> ([], Whole (Crashed AttributeError))
         | Some kv_transfer \<Rightarrow>
             if truthy pj (jget kv_transfer ''do_remote_decode'') then ([submit], Whole (prefill mig_items))
             else if truthy pj (jget kv_transfer ''migration'')
             then (case migration_metadata pj kv_transfer of
                     Inl e \<Rightarrow> ([], Whole (Json 400 (openai_error ''invalid_request_error'' ''invalid migration payload'')))
                   | Inr (seq_id, first_token) \<Rightarrow>
                       ([SubmitMigrated (jget kv_transfer ''migration'') seq_id first_token], answer (migrated_queue first_token items)))
             else ([submit], answer items))"

definition with_model :: "'f chat_server \<Rightarrow> 'f dict \<Rightarrow> 'f effect list \<times> 'f chat_reply \<Rightarrow> 'f effect list \<times> 'f chat_reply" where
  "with_model cs body rest =
     (case resolve_request_model cs (jget body ''model'') of
        Inl e \<Rightarrow> ([], Whole (Crashed e))
      | Inr None \<Rightarrow> ([], Whole (Json 404 [(''error'', JDict [(''message'', JStr ''Model not found''),
          (''type'', JStr ''invalid_request_error''), (''code'', JStr ''model_not_found'')])]))
      | Inr (Some _) \<Rightarrow> rest)"

definition checked ::
  "'f chat_server \<Rightarrow> 'f chat_request \<Rightarrow> 'f effect list \<times> 'f chat_reply \<Rightarrow> 'f effect list \<times> 'f chat_reply" where
  "checked cs cr rest = (case validate_request_length cs (cr_prompt cr) (cr_params cr) of Some r \<Rightarrow> ([], Whole r) | None \<Rightarrow> rest)"

definition chat_completions ::
  "'f chat_server \<Rightarrow> (string \<Rightarrow> string option) \<Rightarrow> 'f dict \<Rightarrow> 'f mig_item list \<Rightarrow> int item list \<Rightarrow> 'f effect list \<times> 'f chat_reply" where
  "chat_completions cs headers body mig_items items =
     with_model cs body
       (case prepare_chat cs body of
          Inl e \<Rightarrow> ([], Whole (Crashed e))
        | Inr cr \<Rightarrow> checked cs cr
            (dispatch cs headers body cr (chat_prefill cs cr)
              (\<lambda>queue. if truthy (sv_json (cs_server cs)) (jget body ''stream'')
                 then (case chat_stream cs cr queue of (chunks, close) \<Rightarrow> Chunks chunks close) else Whole (chat_full cs cr queue))
              mig_items items))"

definition completions ::
  "'f chat_server \<Rightarrow> (string \<Rightarrow> string option) \<Rightarrow> 'f dict \<Rightarrow> 'f mig_item list \<Rightarrow> int item list \<Rightarrow> 'f effect list \<times> 'f chat_reply" where
  "completions cs headers body mig_items items =
     with_model cs body
       (case prepare_completion cs body of
          Inl e \<Rightarrow> ([], Whole (Crashed e))
        | Inr (Inl r) \<Rightarrow> ([], Whole r)
        | Inr (Inr cr) \<Rightarrow> checked cs cr
            (dispatch cs headers body cr (completion_prefill cs cr)
              (\<lambda>queue. if truthy (sv_json (cs_server cs)) (jget body ''stream'')
                 then (case completion_stream cs cr queue of (chunks, close) \<Rightarrow> Chunks chunks close) else Whole (completion_full cs cr queue))
              mig_items items))"

text \<open>\<open>/pd/free\<close>: the sequences whose blocks the prefill engine may reclaim.\<close>

definition pd_free :: "'f chat_server \<Rightarrow> 'f json \<Rightarrow> int list \<times> 'f reply" where
  "pd_free cs body =
     (case as_list (case as_dict body of Some d \<Rightarrow> jget d ''seq_ids'' | None \<Rightarrow> JNull) of
        None \<Rightarrow> ([], Json 400 (openai_error ''invalid_request_error'' ''seq_ids must be a list of integers''))
      | Some xs \<Rightarrow>
          (case mapr (py_int (sv_json (cs_server cs))) xs of
             Inr ids \<Rightarrow> (ids, Json 200 [(''freed'', JList (map JInt ids))])
           | Inl TypeError \<Rightarrow> ([], Json 400 (openai_error ''invalid_request_error'' ''invalid seq_ids''))
           | Inl (ValueError e) \<Rightarrow> ([], Json 400 (openai_error ''invalid_request_error'' ''invalid seq_ids''))
           | Inl e \<Rightarrow> ([], Crashed e)))"

subsection \<open>The calls seen at the yields\<close>

fun chain :: "'a list \<Rightarrow> 'a list list \<Rightarrow> bool" where
  "chain p [] \<longleftrightarrow> True"
| "chain p (c # cs) \<longleftrightarrow> prefix p c \<and> chain c cs"

text \<open>One list of calls per yield, each extending the one before, from the calls at the start to those at the end.\<close>

definition aligned :: "'e list \<Rightarrow> 'a list list \<Rightarrow> 'a list \<Rightarrow> 'a list \<Rightarrow> bool" where
  "aligned evs cls start final \<longleftrightarrow> length cls = length evs \<and> chain start cls \<and> last (start # cls) = final"

lemma delta_chain_append: "chain p (xs @ ys) \<longleftrightarrow> chain p xs \<and> chain (last (p # xs)) ys"
  by (induction xs arbitrary: p) auto

lemma aligned_append: "aligned e1 c1 a b \<Longrightarrow> aligned e2 c2 b c \<Longrightarrow> aligned (e1 @ e2) (c1 @ c2) a c"
  by (cases c2) (auto simp: aligned_def delta_chain_append last_append)

lemma aligned_nil [simp]: "aligned [] [] a b \<longleftrightarrow> a = b"
  by (auto simp: aligned_def)

lemma apply_aligned:
  assumes "apply_parsed ps st = (evs, st')"
  shows "aligned evs (calls_seen ps (ss_tool_calls st)) (ss_tool_calls st) (ss_tool_calls st')"
  using assms
proof (induction ps arbitrary: st evs)
  case (Cons p ps)
  obtain e1 s1 e2 where s: "apply_parsed_delta p st = (e1, s1)" "apply_parsed ps s1 = (e2, st')" "evs = e1 @ e2"
    using Cons.prems by (auto split: prod.splits)
  let ?c = "case p of CallDelta name args \<Rightarrow> ss_tool_calls st @ [(name, args)] | _ \<Rightarrow> ss_tool_calls st"
  have "length e1 = 1" "ss_tool_calls s1 = ?c" "prefix (ss_tool_calls st) ?c"
    using s(1) by (auto simp: apply_parsed_delta_def split: delta.splits)
  then have "aligned e1 [?c] (ss_tool_calls st) (ss_tool_calls s1)" by (simp add: aligned_def)
  from aligned_append [OF this Cons.IH [OF s(2)]] show ?case using s(3) \<open>ss_tool_calls s1 = ?c\<close> by (simp add: Let_def)
qed simp

lemma window_aligned:
  assumes "structured_window jok stops st = (evs, st', fin)"
  shows "aligned evs (window_calls jok stops st) (ss_tool_calls st) (ss_tool_calls st')"
  using assms apply_aligned [of _ "st\<lparr>ss_parser := p\<rparr>" for p]
  by (fastforce simp: structured_window_def window_calls_def Let_def split: prod.splits if_splits)

lemma tokens_aligned:
  assumes "structured_tokens env jok stops m toks st = (evs, st', fin)"
  shows "aligned evs (token_calls env jok stops m toks st) (ss_tool_calls st) (ss_tool_calls st')"
proof (cases "m - py_len (g_token_ids (ss_gen st)) \<le> 0")
  case False
  obtain delta gen where d: "incremental_detokenize env ((ss_gen st)\<lparr>g_token_ids := g_token_ids (ss_gen st) @
      take (nat (m - py_len (g_token_ids (ss_gen st)))) toks\<rparr>) = (delta, gen)" by fastforce
  let ?s = "st\<lparr>ss_gen := gen, ss_pending := ss_pending st @ delta\<rparr>"
  have "structured_window jok stops ?s = (evs, st', fin)" using assms False d by (simp add: structured_tokens_def)
  from window_aligned [OF this] show ?thesis using False d by (simp add: token_calls_def)
qed (use assms in \<open>simp add: structured_tokens_def token_calls_def\<close>)

lemma finish_aligned:
  assumes "structured_finish jok m st = (evs, st')"
  shows "aligned evs (finish_calls jok st) (ss_tool_calls st) (ss_tool_calls st')"
proof -
  obtain deltas parser where f: "feed jok (ss_pending st) (ss_parser st) = (deltas, parser)" by fastforce
  obtain last_deltas parser' where fin: "finish parser = (last_deltas, parser')" by fastforce
  obtain e1 s1 where a: "apply_parsed (deltas @ last_deltas) (st\<lparr>ss_parser := parser'\<rparr>) = (e1, s1)" by fastforce
  have e: "evs = e1 @ [([], g_in_reasoning (ss_gen s1))]" "ss_tool_calls st' = ss_tool_calls s1"
    using assms by (auto simp: structured_finish_def f fin a Let_def)
  let ?seen = "calls_seen (deltas @ last_deltas) (ss_tool_calls st)"
  have al: "aligned e1 ?seen (ss_tool_calls st) (ss_tool_calls s1)" using apply_aligned [OF a] by simp
  then have "last (ss_tool_calls st # ?seen) = ss_tool_calls s1" by (simp only: aligned_def)
  then have "finish_calls jok st = ?seen @ [ss_tool_calls s1]" by (simp only: finish_calls_def f fin Let_def prod.case fst_conv)
  moreover have "aligned [([] :: string, g_in_reasoning (ss_gen s1))] [ss_tool_calls s1] (ss_tool_calls s1) (ss_tool_calls s1)"
    by (simp add: aligned_def)
  ultimately show ?thesis using aligned_append [OF al] e by simp
qed

lemma stream_aligned:
  assumes "stream_structured_text env jok stops m items st = (evs, Complete st')"
  shows "aligned evs (stream_calls env jok stops m items st) (ss_tool_calls st) (ss_tool_calls st')"
  using assms
proof (induction items arbitrary: st evs)
  case (Cons it items)
  show ?case
  proof (cases it)
    case ItemEnd
    then show ?thesis using Cons.prems finish_aligned [of jok m st] by (auto split: prod.splits)
  next
    case (ItemTokens toks)
    obtain e1 s1 fin where t: "structured_tokens env jok stops m toks st = (e1, s1, fin)" by (cases "structured_tokens env jok stops m toks st")
    note al = tokens_aligned [OF t]
    show ?thesis
    proof (cases fin)
      case True
      obtain e2 where e2: "structured_finish jok m s1 = (e2, st')" "evs = e1 @ e2"
        using Cons.prems ItemTokens t True by (auto split: prod.splits)
      then show ?thesis using ItemTokens t True aligned_append [OF al finish_aligned [OF e2(1)]] by simp
    next
      case False
      obtain e2 where e2: "stream_structured_text env jok stops m items s1 = (e2, Complete st')" "evs = e1 @ e2"
        using Cons.prems ItemTokens t False by (auto split: prod.splits)
      then show ?thesis using ItemTokens t False aligned_append [OF al Cons.IH [OF e2(1)]] by simp
    qed
  qed (use Cons in auto)
qed simp

subsection \<open>The client of a chat stream\<close>

text \<open>
  The client adds up the deltas and checks the index of every call. \<open>None\<close> is a violation: a delta after the finish
  reason, a call out of order, an error, or anything after the end marker.
\<close>

record 'f chat_client =
  cc_content :: string
  cc_reasoning :: string
  cc_calls :: "'f json list"
  cc_finish :: "'f json"
  cc_usage :: "'f json"
  cc_done :: bool

definition new_chat_client :: "'f chat_client" where
  "new_chat_client = \<lparr>cc_content = [], cc_reasoning = [], cc_calls = [], cc_finish = JNull, cc_usage = JNull, cc_done = False\<rparr>"

fun add_indexed :: "'f json list \<Rightarrow> 'f json list \<Rightarrow> 'f json list option" where
  "add_indexed calls [] = Some calls"
| "add_indexed calls (x # xs) =
     (case x of
        JDict ((k, i) # d) \<Rightarrow> if k = ''index'' \<and> i = JInt (int (length calls)) then add_indexed (calls @ [JDict d]) xs else None
      | _ \<Rightarrow> None)"

definition text_field :: "'f dict \<Rightarrow> string \<Rightarrow> string" where
  "text_field d k = (case as_str (jget d k) of Some s \<Rightarrow> s | None \<Rightarrow> [])"

definition chunk_event :: "'f chunk \<Rightarrow> 'f chat_client \<Rightarrow> 'f chat_client option" where
  "chunk_event ch cl =
     (if cc_done cl then None
      else case ch of
        DoneMark \<Rightarrow> if cc_finish cl = JNull then None else Some (cl\<lparr>cc_done := True\<rparr>)
      | Chunk d \<Rightarrow>
          (case jget d ''choices'' of
             JList [] \<Rightarrow> if cc_finish cl = JNull then None else Some (cl\<lparr>cc_usage := jget d ''usage''\<rparr>)
           | JList [JDict choice] \<Rightarrow>
               if cc_finish cl \<noteq> JNull then None
               else (let delta = sub_dict choice ''delta''
                     in map_option (\<lambda>calls. cl\<lparr>cc_content := cc_content cl @ text_field delta ''content'',
                          cc_reasoning := cc_reasoning cl @ text_field delta ''reasoning_content'', cc_calls := calls,
                          cc_finish := jget choice ''finish_reason''\<rparr>)
                        (add_indexed (cc_calls cl) (case as_list (jget delta ''tool_calls'') of Some xs \<Rightarrow> xs | None \<Rightarrow> [])))
           | _ \<Rightarrow> None))"

fun chunk_run :: "'f chunk list \<Rightarrow> 'f chat_client \<Rightarrow> 'f chat_client option" where
  "chunk_run [] cl = Some cl"
| "chunk_run (c # cs) cl = (case chunk_event c cl of None \<Rightarrow> None | Some cl' \<Rightarrow> chunk_run cs cl')"

lemma chunk_run_append:
  "chunk_run (xs @ ys) cl = (case chunk_run xs cl of None \<Rightarrow> None | Some cl' \<Rightarrow> chunk_run ys cl')"
  by (induction xs arbitrary: cl) (auto split: option.split)

definition call_objects :: "tool_call list \<Rightarrow> 'f json list" where
  "call_objects tcs = map (\<lambda>tc. JDict (call_dict tc)) tcs"

lemma add_indexed_calls:
  "add_indexed calls (map (\<lambda>(i, tc). JDict ((''index'', JInt (int i)) # call_dict tc)) (enumerate (length calls) tcs)) =
     Some (calls @ call_objects tcs)"
proof (induction tcs arbitrary: calls)
  case (Cons tc tcs)
  then show ?case using Cons [of "calls @ [JDict (call_dict tc)]"] by (simp add: call_objects_def)
qed (simp add: call_objects_def)

text \<open>The event of a delta with some text and some new calls.\<close>

definition delta_fields :: "string \<Rightarrow> bool \<Rightarrow> nat \<Rightarrow> tool_call list \<Rightarrow> 'f dict" where
  "delta_fields delta in_reasoning k new_calls =
     (if delta = [] then [] else [(if in_reasoning then ''reasoning_content'' else ''content'', JStr delta)]) @
     (if new_calls = [] then [] else [(''tool_calls'', indexed_calls k new_calls)])"

lemma delta_event:
  assumes "\<not> cc_done cl" "cc_finish cl = JNull" "k = length (cc_calls cl)"
  shows "chunk_event (Chunk (chat_chunk cs (delta_fields delta in_reasoning k new) fin)) cl =
    Some (cl\<lparr>cc_content := cc_content cl @ (if in_reasoning then [] else delta),
             cc_reasoning := cc_reasoning cl @ (if in_reasoning then delta else []),
             cc_calls := cc_calls cl @ call_objects new, cc_finish := fin\<rparr>)"
  using assms add_indexed_calls [of "cc_calls cl" new]
  by (simp add: chunk_event_def chat_chunk_def envelope_def delta_fields_def sub_dict_def text_field_def indexed_calls_def call_objects_def)

lemma reasoning_yields_Cons: "reasoning_yields ((d, q) # evs) = (if q then d @ reasoning_yields evs else reasoning_yields evs)"
  by (simp add: reasoning_yields_def)

lemma chat_deltas_run:
  assumes "length cls = length evs" "chain prev cls" "\<not> cc_done cl" "cc_finish cl = JNull" "cc_calls cl = call_objects prev"
    and "chat_deltas cs True r (length prev) (zip evs cls) = (chunks, r', k)"
  shows "chunk_run chunks cl = Some (cl\<lparr>cc_content := cc_content cl @ content_yields evs,
      cc_reasoning := cc_reasoning cl @ reasoning_yields evs, cc_calls := call_objects (last (prev # cls))\<rparr>) \<and>
    r' = (r \<or> reasoning_yields evs \<noteq> []) \<and> k = length (last (prev # cls))"
  using assms
proof (induction evs arbitrary: cls prev cl chunks r)
  case Nil
  then show ?case by (simp add: content_yields_def reasoning_yields_def)
next
  case (Cons ev evs)
  obtain d q where ev: "ev = (d, q)" by (cases ev)
  obtain c cls' where cls: "cls = c # cls'" using Cons.prems(1) by (cases cls) auto
  have ext: "prefix prev c" "chain c cls'" using Cons.prems(2) cls by auto
  define new where "new = drop (length prev) c"
  have c: "c = prev @ new" using ext(1) by (auto simp: new_def prefix_def)
  let ?f = "delta_fields d q (length prev) new :: 'a dict"
  let ?cl = "cl\<lparr>cc_content := cc_content cl @ (if q then [] else d), cc_reasoning := cc_reasoning cl @ (if q then d else []),
     cc_calls := call_objects c\<rparr>"
  have len: "(if new = [] then length prev else length c) = length c" by (simp add: c)
  have rec: "chat_deltas cs True r (length prev) (zip (ev # evs) cls) =
      (case chat_deltas cs True (r \<or> (d \<noteq> [] \<and> q)) (length c) (zip evs cls') of
         (chunks, r, k) \<Rightarrow> ((if ?f = [] then [] else [Chunk (chat_chunk cs ?f JNull)]) @ chunks, r, k))"
    unfolding ev cls zip_Cons_Cons chat_deltas.simps Let_def new_def [symmetric] len delta_fields_def if_True ..
  obtain chunks' where ch: "chat_deltas cs True (r \<or> (d \<noteq> [] \<and> q)) (length c) (zip evs cls') = (chunks', r', k)"
    "chunks = (if ?f = [] then [] else [Chunk (chat_chunk cs ?f JNull)]) @ chunks'"
    using Cons.prems(6) unfolding rec by (auto split: prod.splits)
  have "chunk_run (if ?f = [] then [] else [Chunk (chat_chunk cs ?f JNull)]) cl = Some ?cl"
  proof (cases "?f = []")
    case True
    then show ?thesis using Cons.prems(5) by (auto simp: delta_fields_def c split: if_splits)
  next
    case False
    then show ?thesis
      using delta_event [of cl "length prev" cs d q new JNull] Cons.prems(3-5) by (simp add: c call_objects_def)
  qed
  moreover have "chunk_run chunks' ?cl = Some (?cl\<lparr>cc_content := cc_content ?cl @ content_yields evs,
      cc_reasoning := cc_reasoning ?cl @ reasoning_yields evs, cc_calls := call_objects (last (c # cls'))\<rparr>) \<and>
    r' = ((r \<or> (d \<noteq> [] \<and> q)) \<or> reasoning_yields evs \<noteq> []) \<and> k = length (last (c # cls'))"
    by (rule Cons.IH [OF _ ext(2) _ _ _ ch(1)]) (use Cons.prems cls in simp_all)
  ultimately show ?case
    unfolding ch(2) chunk_run_append cls ev by (auto simp: content_yields_Cons reasoning_yields_Cons)
qed

lemma chat_deltas_no_calls:
  "length cls = length evs \<Longrightarrow> chat_deltas cs False r 0 (zip evs cls) = chat_deltas cs True r 0 (zip evs (map (\<lambda>_. []) evs))"
  by (induction evs cls arbitrary: r rule: list_induct2') (auto simp: Let_def split: prod.splits)

lemma chain_empty: "chain [] (map (\<lambda>_. []) evs)" "last ([] # map (\<lambda>_. []) evs) = []"
  by (induction evs) auto

subsection \<open>Reasoning of a structured stream\<close>

definition kept :: "char event list \<Rightarrow> 't structured \<Rightarrow> 't structured \<Rightarrow> bool" where
  "kept evs st st' \<longleftrightarrow> (\<exists>ds. delivered ds evs st st' \<and> ReasoningDelta [] \<notin> set ds)"

lemma kept_append: "kept e1 st st1 \<Longrightarrow> kept e2 st1 st2 \<Longrightarrow> kept (e1 @ e2) st st2"
  unfolding kept_def by (metis delivered_append Un_iff set_append)

lemma kept_same:
  "heard s = heard st \<Longrightarrow> g_reasoning (ss_gen s) = g_reasoning (ss_gen st) \<Longrightarrow> kept evs s t \<Longrightarrow> kept evs st t"
  "heard t = heard t' \<Longrightarrow> g_reasoning (ss_gen t) = g_reasoning (ss_gen t') \<Longrightarrow> kept evs s t \<Longrightarrow> kept evs s t'"
  by (auto simp: kept_def delivered_def)

lemma apply_kept: "apply_parsed ps st = (evs, st') \<Longrightarrow> ReasoningDelta [] \<notin> set ps \<Longrightarrow> kept evs st st'"
  unfolding kept_def using apply_delivered by blast

lemma window_kept:
  assumes "structured_window jok stops st = (evs, st', fin)"
  shows "kept evs st st'"
proof -
  let ?p = "ss_pending st"
  define safe' where "safe' = (case if stops = [] then None else earliest_stop ?p stops of Some i \<Rightarrow> i | None \<Rightarrow> length ?p - partial_stop_holdback ?p stops)"
  obtain ds parser where f: "feed jok (take safe' ?p) (ss_parser st) = (ds, parser)" by fastforce
  obtain e s where a: "apply_parsed ds (st\<lparr>ss_parser := parser\<rparr>) = (e, s)" by fastforce
  have "ReasoningDelta [] \<notin> set ds" using feed_loop_nonempty f unfolding feed_def by (metis fst_conv)
  then have "kept e (st\<lparr>ss_parser := parser\<rparr>) s" by (rule apply_kept [OF a])
  then have "kept e st s" by (rule kept_same(1) [rotated 2]) (simp_all add: heard_def)
  moreover have "evs = e" "heard st' = heard s" "g_reasoning (ss_gen st') = g_reasoning (ss_gen s)"
    using assms unfolding structured_window_def Let_def safe'_def [symmetric] f prod.case a by (auto simp: heard_def split: if_splits)
  ultimately show ?thesis using kept_same(2) by metis
qed

lemma kept_refl: "kept [] st st"
  unfolding kept_def using apply_delivered [of "[]" st "[]" st] by (intro exI [of _ "[]"]) simp

lemma detokenize_keeps_reasoning: "incremental_detokenize env gen = (delta, gen') \<Longrightarrow> g_reasoning gen' = g_reasoning gen"
  by (auto simp: incremental_detokenize_def Let_def split: if_splits)

lemma tokens_kept:
  assumes "structured_tokens env jok stops m toks st = (evs, st', fin)"
  shows "kept evs st st'"
proof (cases "m - py_len (g_token_ids (ss_gen st)) \<le> 0")
  case True
  then show ?thesis using assms kept_refl by (auto simp: structured_tokens_def)
next
  case False
  obtain delta gen where d: "incremental_detokenize env ((ss_gen st)\<lparr>g_token_ids := g_token_ids (ss_gen st) @
      take (nat (m - py_len (g_token_ids (ss_gen st)))) toks\<rparr>) = (delta, gen)" by fastforce
  let ?s = "st\<lparr>ss_gen := gen, ss_pending := ss_pending st @ delta\<rparr>"
  have "kept evs ?s st'" using assms False d by (intro window_kept) (simp add: structured_tokens_def)
  then show ?thesis by (rule kept_same(1) [rotated 2]) (use detokenize_keeps_reasoning [OF d] in \<open>simp_all add: heard_def\<close>)
qed

lemma finish_kept:
  assumes "structured_finish jok m st = (evs, st')"
  shows "kept evs st st'"
proof -
  obtain deltas parser where f: "feed jok (ss_pending st) (ss_parser st) = (deltas, parser)" by fastforce
  obtain last_deltas parser' where fin: "finish parser = (last_deltas, parser')" by fastforce
  obtain e1 s1 where a: "apply_parsed (deltas @ last_deltas) (st\<lparr>ss_parser := parser'\<rparr>) = (e1, s1)" by fastforce
  have "ReasoningDelta [] \<notin> set deltas" using feed_loop_nonempty f unfolding feed_def by (metis fst_conv)
  moreover have "ReasoningDelta [] \<notin> set last_deltas" using finish_nonempty fin by (metis fst_conv)
  ultimately have "kept e1 (st\<lparr>ss_parser := parser'\<rparr>) s1" by (intro apply_kept [OF a]) simp
  then have "kept e1 st s1" by (rule kept_same(1) [rotated 2]) (simp_all add: heard_def)
  moreover have "evs = e1 @ [([], g_in_reasoning (ss_gen s1))]" "heard st' = heard s1" "g_reasoning (ss_gen st') = g_reasoning (ss_gen s1)"
    using assms by (auto simp: structured_finish_def f fin a Let_def heard_def)
  moreover have "kept [([], g_in_reasoning (ss_gen s1))] s1 s1"
    using kept_refl [of s1] by (auto simp: kept_def delivered_def reasoning_yields_def content_yields_def)
  ultimately show ?thesis using kept_append kept_same(2) by metis
qed

lemma stream_kept:
  assumes "stream_structured_text env jok stops m items st = (evs, Complete st')"
  shows "kept evs st st'"
  using assms
proof (induction items arbitrary: st evs)
  case (Cons it items)
  show ?case
  proof (cases it)
    case ItemEnd
    then show ?thesis using Cons.prems finish_kept by (auto split: prod.splits)
  next
    case (ItemTokens toks)
    obtain e1 s1 fin where t: "structured_tokens env jok stops m toks st = (e1, s1, fin)" by (cases "structured_tokens env jok stops m toks st")
    show ?thesis
      using Cons.prems Cons.IH ItemTokens t kept_append [OF tokens_kept [OF t]] finish_kept
      by (cases fin) (fastforce split: prod.splits)+
  qed (use Cons in auto)
qed simp

lemma number_calls_prefix: "prefix a b \<Longrightarrow> prefix (number_calls sv a) (number_calls sv b)"
  by (auto simp: prefix_def number_calls_def tool_calls_of_def k3_output_def enumerate_append_eq)

lemma chain_number: "chain a cls \<Longrightarrow> chain (number_calls sv a) (map (number_calls sv) cls)"
  by (induction cls arbitrary: a) (auto simp: number_calls_prefix)

lemma last_map_Cons: "last (f a # map f xs) = f (last (a # xs))"
  by (induction xs arbitrary: a) auto

lemma k3_stream_facts:
  assumes "sv_parser sv = KimiK3ToolParser" "stream_text sv stop hold m ro items = (evs, Ended g)"
  obtains p where "gv_parsed g = Some p" "po_content p = some_text (content_yields evs)" "po_reasoning p = some_text (reasoning_yields evs)"
    "gen_or_new evs g = g" "length (calls_at sv stop m ro items evs) = length evs" "chain [] (calls_at sv stop m ro items evs)"
    "last ([] # calls_at sv stop m ro items evs) = tool_calls_of sv p"
proof -
  let ?st0 = "new_structured ro :: int structured"
  let ?run = "stream_structured_text (sv_text sv) (json_ok (sv_json sv)) stop m items ?st0"
  let ?seen = "stream_calls (sv_text sv) (json_ok (sv_json sv)) stop m items ?st0"
  obtain st where st: "?run = (evs, Complete st)" "g = structured_view (sv_json sv) st"
    using assms by (auto simp: stream_text_def split: prod.splits structured_outcome.splits)
  note content = stream_structured_content [OF st(1)]
  have al: "length ?seen = length evs" "chain [] ?seen" "last ([] # ?seen) = ss_tool_calls st"
    using stream_aligned [OF st(1)] by (simp_all add: aligned_def new_structured_def)
  obtain ds where ds: "delivered ds evs ?st0 st" "ReasoningDelta [] \<notin> set ds" using stream_kept [OF st(1)] by (auto simp: kept_def)
  have "g_reasoning (ss_gen st) = some_text (reasoning_yields evs)"
    using ds by (auto simp: delivered_def heard_def ocat_def obs_def new_structured_def new_generation_def some_text_def split: option.splits)
  moreover have none: "number_calls sv [] = []" by (simp add: number_calls_def tool_calls_of_def k3_output_def)
  moreover have "tool_calls_of sv (k3_output (sv_json sv) (parse_generation st)) = number_calls sv (ss_tool_calls st)"
    by (simp add: number_calls_def tool_calls_of_def k3_output_def parse_generation_def Let_def)
  ultimately show ?thesis
    using that [of "k3_output (sv_json sv) (parse_generation st)"] content st(2) assms(1) al chain_number [OF al(2), of sv]
      last_map_Cons [of "number_calls sv" "[]" ?seen]
    by (simp add: calls_at_def structured_view_def gen_or_new_def bound_gen_def k3_output_def parse_generation_def new_structured_def
        some_text_def Let_def)
qed

text \<open>The fields of a non-streaming answer, as the client of a stream has them.\<close>

definition answer_choice :: "'f dict \<Rightarrow> 'f dict" where
  "answer_choice d = (case jget d ''choices'' of JList [JDict c] \<Rightarrow> c | _ \<Rightarrow> [])"

definition chat_fields :: "'f dict \<Rightarrow> string \<times> string \<times> 'f json list \<times> 'f json" where
  "chat_fields d =
     (let c = answer_choice d; msg = sub_dict c ''message''
      in (text_field msg ''content'', text_field msg ''reasoning_content'',
          case as_list (jget msg ''tool_calls'') of Some xs \<Rightarrow> xs | None \<Rightarrow> [], jget c ''finish_reason''))"

lemma chat_closing_run:
  assumes "cl = \<lparr>cc_content = t, cc_reasoning = r, cc_calls = calls, cc_finish = JNull, cc_usage = JNull, cc_done = False\<rparr>"
    and "parsed = None \<or> (\<exists>tcs. parsed = Some (tcs, some_text r) \<and> k = length tcs)" "sr \<longleftrightarrow> r \<noteq> []"
  shows "chunk_run (chat_closing cs iu ids gen parsed sr k) cl =
    Some \<lparr>cc_content = t, cc_reasoning = r, cc_calls = calls,
       cc_finish = JStr (if (case parsed of Some (tcs, _) \<Rightarrow> tcs | None \<Rightarrow> []) = [] then gv_finish_reason gen else ''tool_calls''),
       cc_usage = (if iu then usage_dict ids (gv_token_ids gen) else JNull), cc_done = True\<rparr>"
  using assms
  by (auto simp: chat_closing_def chunk_event_def chat_chunk_def envelope_def sub_dict_def text_field_def some_text_def Let_def split: option.splits)

lemma k3_chat_full:
  assumes "stream_text (cs_server cs) (cr_stop cr) [] (sp_max_tokens (cr_params cr)) (cr_reasoning_open cr) items = (evs, Ended g)"
    and "gv_parsed g = Some p" "po_content p = some_text (content_yields evs)" "po_reasoning p = some_text (reasoning_yields evs)"
    and "gen_or_new evs g = g" "tcs = (if cr_use_tools cr then tool_calls_of (cs_server cs) p else [])"
  shows "\<exists>d. chat_full cs cr items = Json 200 d \<and> jget d ''usage'' = usage_dict (cr_prompt cr) (gv_token_ids g) \<and>
    chat_fields d = (content_yields evs, reasoning_yields evs, call_objects tcs, JStr (if tcs = [] then gv_finish_reason g else ''tool_calls''))"
  using assms
  by (auto simp: chat_full_def Let_def parse_gen_def res_reply_def chat_answer_def envelope_def chat_fields_def answer_choice_def
      sub_dict_def chat_message_def text_field_def some_text_def call_objects_def)

lemma k3_chat_agrees:
  assumes "sv_parser (cs_server cs) = KimiK3ToolParser" "chat_stream cs cr items = (chunks, Normal)"
  shows "\<exists>cl d. chunk_run chunks new_chat_client = Some cl \<and> cc_done cl \<and> chat_full cs cr items = Json 200 d \<and>
    chat_fields d = (cc_content cl, cc_reasoning cl, cc_calls cl, cc_finish cl) \<and>
    (cr_include_usage cr \<longrightarrow> cc_usage cl = jget d ''usage'')"
proof -
  let ?sv = "cs_server cs" and ?m = "sp_max_tokens (cr_params cr)" and ?hold = "if cr_use_tools cr then open_markers (sv_parser (cs_server cs)) else []"
  obtain evs out where t: "stream_text ?sv (cr_stop cr) ?hold ?m (cr_reasoning_open cr) items = (evs, out)" by fastforce
  let ?cls = "calls_at ?sv (cr_stop cr) ?m (cr_reasoning_open cr) items evs"
  obtain dch sr k where dl: "chat_deltas cs (cr_use_tools cr \<and> sv_parser ?sv = KimiK3ToolParser) False 0 (zip evs ?cls) = (dch, sr, k)"
    by (metis prod_cases3)
  obtain g where g: "out = Ended g" using assms(2) unfolding chat_stream_def Let_def t prod.case dl by (cases out) auto
  note t' = t [unfolded g]
  obtain p where p: "gv_parsed g = Some p" "po_content p = some_text (content_yields evs)" "po_reasoning p = some_text (reasoning_yields evs)"
    "gen_or_new evs g = g" "length ?cls = length evs" "chain [] ?cls" "last ([] # ?cls) = tool_calls_of ?sv p"
    by (rule k3_stream_facts [OF assms(1) t'])
  define tcs where "tcs = (if cr_use_tools cr then tool_calls_of ?sv p else [])"
  have parsed: "chat_parse ?sv cr g = Inr (if cr_use_tools cr then Some (tcs, some_text (reasoning_yields evs)) else None)"
    using p(1,3) by (simp add: chat_parse_def parse_gen_def tcs_def)
  let ?first = "Chunk (chat_chunk cs [(''role'', JStr ''assistant'')] JNull)"
  let ?parsed = "if cr_use_tools cr then Some (tcs, some_text (reasoning_yields evs)) else None"
  have chunks: "chunks = ?first # dch @ chat_closing cs (cr_include_usage cr) (cr_prompt cr) g ?parsed sr k"
    using assms(2) unfolding chat_stream_def Let_def t prod.case dl g stream_end.case p(4) parsed sum.case by simp
  have start: "chunk_event ?first new_chat_client = Some new_chat_client"
    by (simp add: chunk_event_def chat_chunk_def envelope_def sub_dict_def text_field_def new_chat_client_def)
  define cls where "cls = (if cr_use_tools cr then ?cls else map (\<lambda>_. []) evs)"
  have cls: "length cls = length evs" "chain [] cls" "last ([] # cls) = tcs"
    using p(5-7) by (cases "cr_use_tools cr"; simp_all only: cls_def tcs_def if_True if_False chain_empty length_map)+
  have dl': "chat_deltas cs True False (length ([] :: tool_call list)) (zip evs cls) = (dch, sr, k)"
    using dl assms(1) p(5) chat_deltas_no_calls [of ?cls evs cs False] by (auto simp: cls_def)
  let ?mid = "\<lparr>cc_content = content_yields evs, cc_reasoning = reasoning_yields evs, cc_calls = call_objects tcs,
     cc_finish = JNull, cc_usage = JNull, cc_done = False\<rparr>"
  have mid: "chunk_run dch new_chat_client = Some ?mid" "sr \<longleftrightarrow> reasoning_yields evs \<noteq> []" "k = length tcs"
    using chat_deltas_run [OF cls(1,2) _ _ _ dl', of new_chat_client] cls(3) by (simp_all add: new_chat_client_def call_objects_def)
  let ?final = "\<lparr>cc_content = content_yields evs, cc_reasoning = reasoning_yields evs, cc_calls = call_objects tcs,
      cc_finish = JStr (if tcs = [] then gv_finish_reason g else ''tool_calls''),
      cc_usage = (if cr_include_usage cr then usage_dict (cr_prompt cr) (gv_token_ids g) else JNull), cc_done = True\<rparr>"
  have pc: "?parsed = None \<or> (\<exists>tcs. ?parsed = Some (tcs, some_text (reasoning_yields evs)) \<and> k = length tcs)"
    "(case ?parsed of Some (tcs, _) \<Rightarrow> tcs | None \<Rightarrow> []) = tcs" using mid(3) by (simp_all add: tcs_def)
  have "chunk_run (chat_closing cs (cr_include_usage cr) (cr_prompt cr) g ?parsed sr k) ?mid = Some ?final"
    using chat_closing_run [OF refl pc(1) mid(2), where cs = cs and iu = "cr_include_usage cr" and ids = "cr_prompt cr" and gen = g
        and t = "content_yields evs" and calls = "call_objects tcs"] unfolding pc(2) .
  then have run: "chunk_run chunks new_chat_client = Some ?final"
    unfolding chunks using start mid(1) by (simp add: chunk_run_append)
  show ?thesis using k3_chat_full [OF k3_stream_text(3) [OF assms(1) t'] p(1-4) tcs_def] run by auto
qed

subsection \<open>Streams and whole answers agree\<close>

text \<open>The client of a stream of plain completions.\<close>

fun text_run :: "'f chunk list \<Rightarrow> string \<Rightarrow> 'f json \<Rightarrow> 'f json \<Rightarrow> (string \<times> 'f json \<times> 'f json) option" where
  "text_run [] t fin usage = None"
| "text_run (DoneMark # cs) t fin usage = (if cs = [] \<and> fin \<noteq> JNull then Some (t, fin, usage) else None)"
| "text_run (Chunk d # cs) t fin usage =
     (case jget d ''choices'' of
        JList [] \<Rightarrow> text_run cs t fin (jget d ''usage'')
      | JList [JDict c] \<Rightarrow> if fin \<noteq> JNull then None else text_run cs (t @ text_field c ''text'') (jget c ''finish_reason'') usage
      | _ \<Rightarrow> None)"

lemma text_chunk_run:
  "text_run (Chunk (text_chunk cs x fin') # chs) t JNull usage = text_run chs (t @ x) fin' usage"
  by (simp add: text_chunk_def envelope_def text_field_def)

lemma text_usage_run:
  "text_run (Chunk (envelope cs obj [] [(''usage'', u)]) # chs) t fin usage = text_run chs t fin u"
  by (simp add: envelope_def)

declare text_run.simps(3) [simp del]

lemma text_answer_fields:
  "text_field (answer_choice (text_answer cs t r u ex)) ''text'' = t" "jget (answer_choice (text_answer cs t r u ex)) ''finish_reason'' = JStr r"
  "jget (text_answer cs t r u ex) ''usage'' = u"
  by (simp_all add: text_answer_def envelope_def answer_choice_def text_field_def)

lemma text_chunks_run:
  "text_run (map (\<lambda>ev. Chunk (text_chunk cs (fst ev) JNull)) evs @ rest) t JNull usage =
   text_run rest (t @ concat (map fst evs)) JNull usage"
  by (induction evs arbitrary: t) (simp_all add: text_chunk_run)

lemma completion_agrees:
  assumes "completion_stream cs cr items = (chunks, Normal)"
  shows "\<exists>t fin usage d. text_run chunks [] JNull JNull = Some (t, fin, usage) \<and> completion_full cs cr items = Json 200 d \<and>
    text_field (answer_choice d) ''text'' = t \<and> jget (answer_choice d) ''finish_reason'' = fin \<and>
    (cr_include_usage cr \<longrightarrow> usage = jget d ''usage'')"
proof -
  obtain evs g where t: "stream_text (cs_server cs) (cr_stop cr) [] (sp_max_tokens (cr_params cr)) False items = (evs, Ended g)"
    using assms by (auto simp: completion_stream_def Let_def split: prod.splits stream_end.splits)
  then show ?thesis
    using assms
    by (auto simp: completion_stream_def completion_full_def Let_def text_chunks_run text_chunk_run text_usage_run text_answer_fields)
qed

lemma dispatch_stream:
  assumes "dispatch cs headers ((''stream'', v) # body) cr prefill answer mig items = (effs, Chunks chunks close)"
  shows "\<exists>queue. answer queue = Chunks chunks close \<and>
    (\<forall>v' answer'. dispatch cs headers ((''stream'', v') # body) cr prefill answer' mig items = (effs, answer' queue))"
proof -
  let ?pj = "sv_json (cs_server cs)"
  have key: "session_affinity_key sv headers ((''stream'', w) # body) = session_affinity_key sv headers body" for sv :: "'a server" and w
    by (simp add: session_affinity_key_def)
  obtain kv where kv: "as_dict (or_else ?pj (jget body ''kv_transfer_params'') (JDict [])) = Some kv"
    using assms by (cases "as_dict (or_else ?pj (jget body ''kv_transfer_params'') (JDict []))") (auto simp: dispatch_def Let_def)
  have nodec: "\<not> truthy ?pj (jget kv ''do_remote_decode'')" using assms kv by (auto simp: dispatch_def Let_def)
  show ?thesis
  proof (cases "truthy ?pj (jget kv ''migration'')")
    case True
    then obtain seq_id first where "migration_metadata ?pj kv = Inr (seq_id, first)"
      using assms kv nodec by (cases "migration_metadata ?pj kv") (auto simp: dispatch_def Let_def)
    then show ?thesis
      using assms kv nodec True by (intro exI [of _ "migrated_queue first items"]) (simp add: dispatch_def Let_def)
  next
    case False
    then show ?thesis using assms kv nodec key by (intro exI [of _ items]) (simp add: dispatch_def Let_def)
  qed
qed

lemma jget_past_stream_chat:
  "jget ((''stream'', v) # body) ''max_completion_tokens'' = jget body ''max_completion_tokens''"
  "jget ((''stream'', v) # body) ''ignore_eos'' = jget body ''ignore_eos''" "jget ((''stream'', v) # body) ''stop'' = jget body ''stop''"
  "jget ((''stream'', v) # body) ''stream_options'' = jget body ''stream_options''"
  "jget ((''stream'', v) # body) ''input_ids'' = jget body ''input_ids''" "map_of ((''stream'', v) # body) ''prompt'' = map_of body ''prompt''"
  by simp_all

lemma prepare_stream:
  "prepare_chat cs ((''stream'', v) # body) = prepare_chat cs body"
  "prepare_completion cs ((''stream'', v) # body) = prepare_completion cs body"
  "with_model cs ((''stream'', v) # body) = with_model cs body"
  unfolding prepare_chat_def prepare_completion_def chat_sampling_params_def parse_stop_def stream_includes_usage_def completion_prompt_def
    with_model_def jget_past_stream jget_past_stream_chat by (rule refl)+

lemma with_model_Chunks:
  "with_model cs body rest = (effs, Chunks chunks close) \<Longrightarrow> rest = (effs, Chunks chunks close) \<and> (\<forall>rest'. with_model cs body rest' = rest')"
  by (auto simp: with_model_def split: sum.splits option.splits)

lemma checked_Chunks:
  "checked cs cr rest = (effs, Chunks chunks close) \<Longrightarrow> rest = (effs, Chunks chunks close) \<and> (\<forall>rest'. checked cs cr rest' = rest')"
  by (auto simp: checked_def split: option.splits)

lemma chat_streaming:
  assumes "chat_completions cs headers ((''stream'', JBool True) # body) mig items = (effs, Chunks chunks close)"
  shows "\<exists>cr queue. prepare_chat cs body = Inr cr \<and> chat_stream cs cr queue = (chunks, close) \<and>
    chat_completions cs headers ((''stream'', JBool False) # body) mig items = (effs, Whole (chat_full cs cr queue))"
proof -
  note m = with_model_Chunks [OF assms [unfolded chat_completions_def prepare_stream]]
  obtain cr where cr: "prepare_chat cs body = Inr cr" using m by (cases "prepare_chat cs body") auto
  note c = checked_Chunks [OF m [THEN conjunct1, unfolded cr sum.case]]
  obtain queue where q: "(case chat_stream cs cr queue of (chunks, close) \<Rightarrow> Chunks chunks close) = Chunks chunks close"
    "\<And>v answer. dispatch cs headers ((''stream'', v) # body) cr (chat_prefill cs cr) answer mig items = (effs, answer queue)"
    using dispatch_stream [OF c [THEN conjunct1]] by auto
  have "chat_completions cs headers ((''stream'', JBool False) # body) mig items = (effs, Whole (chat_full cs cr queue))"
    unfolding chat_completions_def prepare_stream m [THEN conjunct2, rule_format] cr sum.case c [THEN conjunct2, rule_format] q(2) by simp
  then show ?thesis using cr q(1) by (auto split: prod.splits)
qed

lemma completion_streaming:
  assumes "completions cs headers ((''stream'', JBool True) # body) mig items = (effs, Chunks chunks close)"
  shows "\<exists>cr queue. prepare_completion cs body = Inr (Inr cr) \<and> completion_stream cs cr queue = (chunks, close) \<and>
    completions cs headers ((''stream'', JBool False) # body) mig items = (effs, Whole (completion_full cs cr queue))"
proof -
  note m = with_model_Chunks [OF assms [unfolded completions_def prepare_stream]]
  obtain cr where cr: "prepare_completion cs body = Inr (Inr cr)" using m by (auto split: sum.splits)
  note c = checked_Chunks [OF m [THEN conjunct1, unfolded cr sum.case]]
  obtain queue where q: "(case completion_stream cs cr queue of (chunks, close) \<Rightarrow> Chunks chunks close) = Chunks chunks close"
    "\<And>v answer. dispatch cs headers ((''stream'', v) # body) cr (completion_prefill cs cr) answer mig items = (effs, answer queue)"
    using dispatch_stream [OF c [THEN conjunct1]] by auto
  have "completions cs headers ((''stream'', JBool False) # body) mig items = (effs, Whole (completion_full cs cr queue))"
    unfolding completions_def prepare_stream m [THEN conjunct2, rule_format] cr sum.case c [THEN conjunct2, rule_format] q(2) by simp
  then show ?thesis using cr q(1) by (auto split: prod.splits)
qed

text \<open>
  C22: a streamed OpenAI answer is the whole answer in pieces. For plain completions, with any parser, the texts of the
  chunks add up to the text of the non-streaming answer to the same request, with the same finish reason and usage. For
  chat with the structured parser, a client that adds up the deltas and checks that calls arrive with consecutive indices
  gets the content, reasoning, tool calls, finish reason and usage of the non-streaming answer. In both cases the same
  work is submitted to the engine.
\<close>

theorem openai_streams_agree:
  "(completions cs headers ((''stream'', JBool True) # body) mig items = (effs, Chunks chunks Normal) \<longrightarrow>
      (\<exists>t fin usage d. text_run chunks [] JNull JNull = Some (t, fin, usage) \<and>
         completions cs headers ((''stream'', JBool False) # body) mig items = (effs, Whole (Json 200 d)) \<and>
         text_field (answer_choice d) ''text'' = t \<and> jget (answer_choice d) ''finish_reason'' = fin \<and>
         (stream_includes_usage body \<longrightarrow> usage = jget d ''usage''))) \<and>
   (chat_completions cs headers ((''stream'', JBool True) # body) mig items = (effs, Chunks chunks Normal) \<and>
      sv_parser (cs_server cs) = KimiK3ToolParser \<longrightarrow>
      (\<exists>cl d. chunk_run chunks new_chat_client = Some cl \<and> cc_done cl \<and>
         chat_completions cs headers ((''stream'', JBool False) # body) mig items = (effs, Whole (Json 200 d)) \<and>
         chat_fields d = (cc_content cl, cc_reasoning cl, cc_calls cl, cc_finish cl) \<and>
         (stream_includes_usage body \<longrightarrow> cc_usage cl = jget d ''usage'')))"
proof (intro conjI impI)
  assume "completions cs headers ((''stream'', JBool True) # body) mig items = (effs, Chunks chunks Normal)"
  then obtain cr queue where q: "prepare_completion cs body = Inr (Inr cr)" "completion_stream cs cr queue = (chunks, Normal)"
    "completions cs headers ((''stream'', JBool False) # body) mig items = (effs, Whole (completion_full cs cr queue))"
    using completion_streaming by blast
  have "cr_include_usage cr = stream_includes_usage body"
    using q(1) by (auto simp: prepare_completion_def rbind_Inr_iff Let_def split: if_splits option.splits)
  then show "\<exists>t fin usage d. text_run chunks [] JNull JNull = Some (t, fin, usage) \<and>
         completions cs headers ((''stream'', JBool False) # body) mig items = (effs, Whole (Json 200 d)) \<and>
         text_field (answer_choice d) ''text'' = t \<and> jget (answer_choice d) ''finish_reason'' = fin \<and>
         (stream_includes_usage body \<longrightarrow> usage = jget d ''usage'')"
    using completion_agrees [OF q(2)] q(3) by auto
next
  assume "chat_completions cs headers ((''stream'', JBool True) # body) mig items = (effs, Chunks chunks Normal) \<and>
      sv_parser (cs_server cs) = KimiK3ToolParser"
  then obtain cr queue where q: "prepare_chat cs body = Inr cr" "chat_stream cs cr queue = (chunks, Normal)"
    "chat_completions cs headers ((''stream'', JBool False) # body) mig items = (effs, Whole (chat_full cs cr queue))"
    and k3: "sv_parser (cs_server cs) = KimiK3ToolParser"
    using chat_streaming by blast
  have "cr_include_usage cr = stream_includes_usage body"
    using q(1) by (auto simp: prepare_chat_def rbind_Inr_iff Let_def)
  then show "\<exists>cl d. chunk_run chunks new_chat_client = Some cl \<and> cc_done cl \<and>
         chat_completions cs headers ((''stream'', JBool False) # body) mig items = (effs, Whole (Json 200 d)) \<and>
         chat_fields d = (cc_content cl, cc_reasoning cl, cc_calls cl, cc_finish cl) \<and>
         (stream_includes_usage body \<longrightarrow> cc_usage cl = jget d ''usage'')"
    using k3_chat_agrees [OF k3 q(2)] q(3) by auto
qed

subsection \<open>Submissions\<close>

definition fits :: "'f chat_server \<Rightarrow> 'f effect \<Rightarrow> bool" where
  "fits cs e = (case e of
     Submit ids params _ \<Rightarrow> int (length ids) \<le> cs_max_model_len cs \<and> int (length ids) + sp_max_tokens params \<le> cs_max_model_len cs
   | SubmitMigrated _ seq_id _ \<Rightarrow> 0 < seq_id)"

lemma migration_metadata_positive: "migration_metadata pj kv = Inr (seq_id, first) \<Longrightarrow> 0 < seq_id"
  by (auto simp: migration_metadata_def abind_Inr_iff Let_def split: if_splits)

lemma dispatch_fits:
  assumes "validate_request_length cs (cr_prompt cr) (cr_params cr) = None"
  shows "length (fst (dispatch cs headers body cr prefill answer mig items)) \<le> 1 \<and>
    list_all (fits cs) (fst (dispatch cs headers body cr prefill answer mig items))"
  using assms
  by (auto simp: dispatch_def Let_def fits_def validate_request_length_def migration_metadata_positive split: option.splits sum.splits if_splits prod.splits)

lemma checked_fits:
  "length (fst (checked cs cr (dispatch cs headers body cr prefill answer mig items))) \<le> 1 \<and>
   list_all (fits cs) (fst (checked cs cr (dispatch cs headers body cr prefill answer mig items)))"
  using dispatch_fits [of cs cr headers body prefill answer mig items]
  by (cases "validate_request_length cs (cr_prompt cr) (cr_params cr)") (simp_all add: checked_def)

definition rejected :: "'f chat_reply \<Rightarrow> bool" where
  "rejected r = (case r of Whole (Json status _) \<Rightarrow> status = 400 \<or> status = 404 | _ \<Rightarrow> False)"

lemma answers_not_rejected:
  "\<not> rejected (Whole (chat_full cs cr queue))" "\<not> rejected (Whole (completion_full cs cr queue))"
  "\<not> rejected (Whole (chat_prefill cs cr mig))" "\<not> rejected (Whole (completion_prefill cs cr mig))"
  by (auto simp: rejected_def chat_full_def completion_full_def chat_prefill_def completion_prefill_def prefill_stage_def res_reply_def Let_def
      split: prod.splits stream_end.splits sum.splits mig_result.splits)

lemma dispatch_rejected:
  assumes "\<not> rejected (Whole (prefill mig))" "\<And>q. \<not> rejected (answer q)"
  shows "rejected (snd (dispatch cs headers body cr prefill answer mig items)) \<Longrightarrow> fst (dispatch cs headers body cr prefill answer mig items) = []"
  using assms by (auto simp: dispatch_def Let_def split: option.splits if_splits sum.splits prod.splits)

lemma handler_cases:
  fixes cs :: "'f chat_server"
  assumes "r \<in> {chat_completions cs headers body mig items, completions cs headers body mig items}"
  obtains "fst r = []"
  | cr prefill answer where "r = dispatch cs headers body cr prefill answer mig items" "validate_request_length cs (cr_prompt cr) (cr_params cr) = None"
      "\<not> rejected (Whole (prefill mig))" "\<And>q. \<not> rejected (answer q)"
proof -
  have guard: "fst (with_model cs body x) = [] \<or> with_model cs body x = x" for x
    by (auto simp: with_model_def split: sum.split option.split)
  have none: "fst (with_model cs body ([], y)) = []" for y using guard [of "([], y)"] by auto
  have check: "fst (checked cs cr x) = [] \<or> checked cs cr x = x \<and> validate_request_length cs (cr_prompt cr) (cr_params cr) = None" for cr x
    by (auto simp: checked_def split: option.split)
  let ?chat = "\<lambda>cr queue. if truthy (sv_json (cs_server cs)) (jget body ''stream'')
     then (case chat_stream cs cr queue of (chunks, close) \<Rightarrow> Chunks chunks close) else Whole (chat_full cs cr queue)"
  let ?plain = "\<lambda>cr queue. if truthy (sv_json (cs_server cs)) (jget body ''stream'')
     then (case completion_stream cs cr queue of (chunks, close) \<Rightarrow> Chunks chunks close) else Whole (completion_full cs cr queue)"
  have ok: "\<not> rejected (?chat cr q)" "\<not> rejected (?plain cr q)" for cr q
    using answers_not_rejected(1) [of cs cr q] answers_not_rejected(2) [of cs cr q]
    by (cases "chat_stream cs cr q"; cases "completion_stream cs cr q"; simp add: rejected_def)+
  show ?thesis
  proof (cases "r = chat_completions cs headers body mig items")
    case True
    show ?thesis
    proof (cases "prepare_chat cs body")
      case (Inl e)
      then show ?thesis using True none that(1) by (simp add: chat_completions_def)
    next
      case (Inr cr)
      let ?d = "dispatch cs headers body cr (chat_prefill cs cr) (?chat cr) mig items"
      have "fst r = [] \<or> r = ?d \<and> validate_request_length cs (cr_prompt cr) (cr_params cr) = None"
        using True Inr guard [of "checked cs cr ?d"] check [of cr ?d] by (auto simp: chat_completions_def)
      then show ?thesis using that(1) that(2) [of cr "chat_prefill cs cr" "?chat cr"] answers_not_rejected(3) ok(1) by blast
    qed
  next
    case False
    then have r: "r = completions cs headers body mig items" using assms by simp
    consider e where "prepare_completion cs body = Inl e" | x where "prepare_completion cs body = Inr (Inl x)"
      | cr where "prepare_completion cs body = Inr (Inr cr)" by (metis sumE)
    then show ?thesis
    proof cases
      case (3 cr)
      let ?d = "dispatch cs headers body cr (completion_prefill cs cr) (?plain cr) mig items"
      have "fst r = [] \<or> r = ?d \<and> validate_request_length cs (cr_prompt cr) (cr_params cr) = None"
        using r 3 guard [of "checked cs cr ?d"] check [of cr ?d] by (auto simp: completions_def)
      then show ?thesis using that(1) that(2) [of cr "completion_prefill cs cr" "?plain cr"] answers_not_rejected(4) ok(2) by blast
    qed (use r that(1) none in \<open>simp_all add: completions_def\<close>)
  qed
qed

text \<open>
  C32: what the OpenAI handlers submit fits the model. A request to either handler submits at most one piece of work; a new
  prompt with its token budget fits the model's length, and a migrated sequence has a positive identifier. A request
  that is answered with a client error submits nothing.
\<close>

theorem submitted_requests_fit:
  assumes "r \<in> {chat_completions cs headers body mig items, completions cs headers body mig items}"
  shows "length (fst r) \<le> 1 \<and> list_all (fits cs) (fst r) \<and> (rejected (snd r) \<longrightarrow> fst r = [])"
  using assms
proof (rule handler_cases)
  fix cr prefill answer
  assume r: "r = dispatch cs headers body cr prefill answer mig items" "validate_request_length cs (cr_prompt cr) (cr_params cr) = None"
    "\<not> rejected (Whole (prefill mig))" "\<And>q. \<not> rejected (answer q)"
  show ?thesis using dispatch_fits [OF r(2)] dispatch_rejected [of prefill mig answer cs headers body cr items, OF r(3,4)] unfolding r(1) by blast
qed simp

subsection \<open>Concrete requests\<close>

definition small_chat_server :: "parser_class \<Rightarrow> unit chat_server" where
  "small_chat_server cls =
     \<lparr>cs_server = small_server cls, cs_max_model_len = 400, cs_default_max_tokens = 16, cs_model_path = ''/d/m'', cs_expanduser = id,
      cs_realpath = Some, cs_encode_value = (\<lambda>_. Inl TypeError), cs_completion_id = ''id'', cs_created = 0\<rparr>"

definition small_chat :: "unit dict" where
  "small_chat =
     [(''model'', JStr ''M''), (''max_tokens'', JInt 300), (''messages'', JList [JDict [(''role'', JStr ''user''), (''content'', JStr ''go'')]]),
      (''tools'', JList [JDict [(''name'', JStr ''f'')]]), (''stream_options'', JDict [(''include_usage'', JBool True)])]"

definition small_prompt :: "int \<Rightarrow> unit dict" where
  "small_prompt n = [(''model'', JStr ''m''), (''max_tokens'', JInt n), (''prompt'', JStr ''go''), (''stop'', JStr ''.'')]"

definition small_words :: "int item list" where
  "small_words = [ItemTokens (text_codes ''a b''), ItemTokens (text_codes '' c. d''), ItemEnd]"

definition small_talk :: "int item list" where
  "small_talk = [ItemTokens (text_codes ''hi''), ItemTokens (text_codes '' ok''), ItemEnd]"

theorem openai_streams_agree_witness:
  "(\<exists>effs chunks d. completions (small_chat_server GLMXMLToolParser) (\<lambda>_. None) ((''stream'', JBool True) # small_prompt 300) [] small_words =
       (effs, Chunks chunks Normal) \<and> length chunks = 4 \<and>
     completions (small_chat_server GLMXMLToolParser) (\<lambda>_. None) ((''stream'', JBool False) # small_prompt 300) [] small_words =
       (effs, Whole (Json 200 d)) \<and> text_field (answer_choice d) ''text'' = ''a b c'') \<and>
   (\<exists>effs chunks cl d. chat_completions (small_chat_server KimiK3ToolParser) (\<lambda>_. None) ((''stream'', JBool True) # small_chat) [] small_talk =
       (effs, Chunks chunks Normal) \<and> chunk_run chunks new_chat_client = Some cl \<and>
     (cc_content cl, cc_reasoning cl, cc_calls cl, cc_finish cl) =
       (''hi ok'', [], [], JStr ''stop'') \<and>
     chat_completions (small_chat_server KimiK3ToolParser) (\<lambda>_. None) ((''stream'', JBool False) # small_chat) [] small_talk =
       (effs, Whole (Json 200 d)) \<and> chat_fields d = (cc_content cl, cc_reasoning cl, cc_calls cl, cc_finish cl) \<and> cc_usage cl = jget d ''usage'')"
proof
  let ?cs = "small_chat_server GLMXMLToolParser"
  let ?run = "completions ?cs (\<lambda>_. None) ((''stream'', JBool True) # small_prompt 300) [] small_words"
  have "case ?run of (effs, Chunks chunks Normal) \<Rightarrow> length chunks = 4 \<and> map_option fst (text_run chunks [] JNull JNull) = Some ''a b c'' | _ \<Rightarrow> False"
    by code_simp
  then obtain effs chunks where run: "?run = (effs, Chunks chunks Normal)" "length chunks = 4" "map_option fst (text_run chunks [] JNull JNull) = Some ''a b c''"
    by (auto split: prod.splits chat_reply.splits stream_close.splits)
  show "\<exists>effs chunks d. ?run = (effs, Chunks chunks Normal) \<and> length chunks = 4 \<and>
     completions ?cs (\<lambda>_. None) ((''stream'', JBool False) # small_prompt 300) [] small_words =
       (effs, Whole (Json 200 d)) \<and> text_field (answer_choice d) ''text'' = ''a b c''"
    using openai_streams_agree [THEN conjunct1, rule_format, OF run(1)] run by auto
next
  let ?cs = "small_chat_server KimiK3ToolParser"
  let ?run = "chat_completions ?cs (\<lambda>_. None) ((''stream'', JBool True) # small_chat) [] small_talk"
  let ?fields = "(''hi ok'', [], [], JStr ''stop'')
    :: string \<times> string \<times> unit json list \<times> unit json"
  have "case ?run of (effs, Chunks chunks Normal) \<Rightarrow>
      (case chunk_run chunks new_chat_client of Some cl \<Rightarrow> (cc_content cl, cc_reasoning cl, cc_calls cl, cc_finish cl) = ?fields | None \<Rightarrow> False) | _ \<Rightarrow> False"
    by code_simp
  then obtain effs chunks where run: "?run = (effs, Chunks chunks Normal)"
    "case chunk_run chunks new_chat_client of Some cl \<Rightarrow> (cc_content cl, cc_reasoning cl, cc_calls cl, cc_finish cl) = ?fields | None \<Rightarrow> False"
    by (auto split: prod.splits chat_reply.splits stream_close.splits)
  have k3: "sv_parser (cs_server ?cs) = KimiK3ToolParser" by (simp add: small_chat_server_def small_server_def)
  have "stream_includes_usage small_chat" by code_simp
  then show "\<exists>effs chunks cl d. ?run = (effs, Chunks chunks Normal) \<and> chunk_run chunks new_chat_client = Some cl \<and>
     (cc_content cl, cc_reasoning cl, cc_calls cl, cc_finish cl) = ?fields \<and>
     chat_completions ?cs (\<lambda>_. None) ((''stream'', JBool False) # small_chat) [] small_talk =
       (effs, Whole (Json 200 d)) \<and> chat_fields d = (cc_content cl, cc_reasoning cl, cc_calls cl, cc_finish cl) \<and> cc_usage cl = jget d ''usage''"
    using openai_streams_agree [THEN conjunct2, rule_format, OF conjI [OF run(1) k3]] run by (auto split: option.splits)
qed

theorem submitted_requests_fit_witness:
  "length (fst (completions (small_chat_server GLMXMLToolParser) (\<lambda>_. None) (small_prompt 300) [] [])) = 1 \<and>
   list_all (fits (small_chat_server GLMXMLToolParser)) (fst (completions (small_chat_server GLMXMLToolParser) (\<lambda>_. None) (small_prompt 300) [] [])) \<and>
   fst (completions (small_chat_server GLMXMLToolParser) (\<lambda>_. None) (small_prompt 399) [] []) = []"
proof -
  let ?r = "\<lambda>n. completions (small_chat_server GLMXMLToolParser) (\<lambda>_. None) (small_prompt n) [] []"
  have "length (fst (?r 300)) = 1" "rejected (snd (?r 399))" by code_simp+
  then show ?thesis
    using submitted_requests_fit [of "?r 300" "small_chat_server GLMXMLToolParser" "\<lambda>_. None" "small_prompt 300" "[]" "[]"]
      submitted_requests_fit [of "?r 399" "small_chat_server GLMXMLToolParser" "\<lambda>_. None" "small_prompt 399" "[]" "[]"] by auto
qed

text \<open>The Anthropic handler has no length check: it submits what both OpenAI handlers reject.\<close>

lemma anthropic_skips_length_check:
  "list_ex (\<lambda>e. \<not> fits (small_chat_server GLMXMLToolParser) e)
     (fst (handle_messages (small_server GLMXMLToolParser) (\<lambda>_. None) ((''max_tokens'', JInt 500) # small_body) [] []))"
  by code_simp

end
