(* ===== verification/Spec2Isabelle.thy ===== *)
theory Spec2Isabelle
  imports Pipeline Cache_Layout Transfer_Ops Embedding_Pool HiSparse Scheduler_Plan Eplb_Dispatch K3_Stream Host_Swap Vocab_Parallel Runner_Output Mtp_Draft Openai_Api
begin

text \<open>
  \<^bold>\<open>NanoEngine: a verified model of the Python control code of the inference engine\<close>

  NanoEngine serves large language models. Its Python code decides where things are: which layers a
  pipeline stage owns, how GPU and host memory is divided into cache tensors, at which byte a block of
  the cache lives, which byte ranges a decode engine reads from a prefill engine, which slot belongs to
  which request, which replica of an expert a token visits, which row of which worker's answer is whose token. A mistake there does not crash; it reads
  another request's memory. The development models that code and proves those decisions right, together with
  the text protocol of the server: stop strings, reasoning and tool calls in a token stream, and the requests and
  answers of its HTTP interfaces. Kernels
  (CUDA, Triton, JIT) and the forward code of the models compute on the tensors and are not modelled.

  \<^bold>\<open>Theories and sources\<close> (paths below \<open>src/dlengine\<close>)

  \<^descr> \<open>Prelude\<close>: results with Python's exceptions (\<open>'a res\<close>, \<open>rbind\<close>, \<open>check\<close>, \<open>mapr\<close>, \<open>fold_res\<close>),
  lists and integer division shared by all components.
  \<^descr> \<open>Tensor\<close>: shape, stride and offset of a torch tensor, and the storage span of a strided view.
  \<^descr> \<open>Dist_Context\<close>: \<open>runtime/context/distributed.py\<close>, the coordinates of a rank in the DP, PP, TP, SP and
  EP groups.
  \<^descr> \<open>Pipeline\<close>: \<open>runtime/models/pp_utils.py\<close>, the layer partition of a pipeline stage, the layers a stage
  builds and loads, and the asynchronous point-to-point queue.
  \<^descr> \<open>Cache_Context\<close>: \<open>runtime/context/cache/*.py\<close>, sizing and allocation of the GQA, MLA, DSv4, GDN and
  indexer caches and of the host tier. The context singletons are one record.
  \<^descr> \<open>Cache_Layout\<close>: \<open>runtime/disagg/p2p/cache_layout.py\<close>, byte offsets of blocks of local and remote caches.
  \<^descr> \<open>Rdma\<close>, \<open>Migration\<close>, \<open>Migration_Plan\<close>, \<open>Transfer_Ops\<close>: \<open>runtime/disagg/p2p/cache_transfer.py\<close> and the metadata part
  of \<open>engine/llm_component.py\<close>. \<open>Migration\<close> validates the metadata of a peer and plans which worker each
  layer is read from; \<open>Migration_Plan\<close> holds what such a plan records about an engine and the offsets that follow from it; \<open>Transfer_Ops\<close> registers memory and turns the plan into byte ranges; \<open>Rdma\<close> merges,
  bounds-checks, submits and drains the reads.
  \<^descr> \<open>HiSparse\<close>: \<open>runtime/context/cache/hisparse.py\<close>, the GPU hot tier in front of a host cache.
  \<^descr> \<open>Embedding_Pool\<close>: \<open>runtime/context/cache/emb.py\<close>, the slots that publish vision embeddings.
  \<^descr> \<open>Scheduler_Plan\<close>: \<open>engine/scheduler.py\<close>, \<open>runtime/context/cache/plan.py\<close>, \<open>runtime/models/trait.py\<close>
  and the plan record of \<open>rust/src/config/mod.rs\<close>.
  \<^descr> \<open>Eplb\<close>, \<open>Eplb_Dispatch\<close>: \<open>runtime/layers/backends/experts/eplb.py\<close>, replication and placement of experts,
  and the choice of a replica for a token.
  \<^descr> \<open>Stop_Stream\<close>: the raw text stream of \<open>server/openai_server.py\<close>.
  \<^descr> \<open>K3_Parser\<close>, \<open>K3_Chunks\<close>: \<open>server/kimi_k3_parser.py\<close> and its grammar in \<open>server/tool_parser.py\<close>; the first
  holds the parser and that it ends, the second that the cutting of the text does not matter.
  \<^descr> \<open>K3_Stream\<close>: the structured stream of \<open>server/openai_server.py\<close> over that parser.
  \<^descr> \<open>Json_Value\<close>: the JSON values, truth values and conversions the server's code works on.
  \<^descr> \<open>Tool_Parsers\<close>: \<open>server/tool_parser.py\<close>, the Hermes, Qwen and GLM parsers of finished completions.
  \<^descr> \<open>Anthropic_Api\<close>, \<open>Anthropic_Stream\<close>: \<open>server/anthropic_api.py\<close> with the prompt construction and submission of
  \<open>server/openai_server.py\<close>. The first turns requests into prompts, the second streams and answers them.
  \<^descr> \<open>Openai_Api\<close>: the chat and completion handlers of \<open>server/openai_server.py\<close>.

  \<^descr> \<open>Microbatch\<close>: \<open>rust/src/proto/wire.rs\<close>, the packing of a prefill batch into ragged microbatches.
  \<^descr> \<open>Engine_Step\<close>, \<open>Host_Swap\<close>: \<open>engine/llm_engine.py\<close> with the executors below it. The first holds the bounded
  prefill pipeline, the second the copies between device and host cache (\<open>runtime/runner/model_runner.py\<close>) and the
  scheduled step.
  \<^descr> \<open>Input_Prep\<close>: \<open>runtime/runner/input_preparer.py\<close> and \<open>rust/src/proto/prepare.rs\<close>, from a received batch to the batch
  context of the forward.
  \<^descr> \<open>Vocab_Parallel\<close>: \<open>runtime/layers/embed_head.py\<close>, embedding and output head over tensor-parallel ranks.
  \<^descr> \<open>Runner_Output\<close>: the output-head rows, sampling and the answer of \<open>runtime/runner/model_runner.py\<close>.
  \<^descr> \<open>Mtp_Verify\<close>, \<open>Mtp_Handoff\<close>, \<open>Mtp_Runner\<close>, \<open>Mtp_Draft\<close>: \<open>runtime/runner/mtp_runner.py\<close>, speculative decoding with
  drafted tokens. The first holds the two verification routines, the second the state between steps and its handoff from
  prefill to decode engines, the third a decode step that verifies drafts, the fourth the generation of new drafts.

  \<^bold>\<open>How the code corresponds\<close>

  A dataclass or context singleton is a record; a function that mutates it returns the new record. Every
  \<open>raise\<close>, \<open>assert\<close> and failing operation of Python (division by zero, a missing key, an index out of
  range) is a branch that returns \<open>Inl\<close>. Python integers are \<open>int\<close> (\<open>nat\<close> where the code can only produce
  naturals); slots that the code keeps as 32-bit integers wrap where it computes or converts them (\<open>to_int32\<close> in
  \<open>Input_Prep\<close>, \<open>Mtp_Runner\<close> and \<open>HiSparse\<close>), and the results about them assume a pool of fewer than 2^31 slots; the cache-plan
  flags are \<open>32 word\<close>. Code outside the repository is a parameter: the tensor allocator and the memory
  query, the peer agent, the control plane, \<open>torch.distributed\<close>, the sort and maximum of torch, the tokenizer and the chat template, and
  Python's \<open>json\<close>. What is
  assumed of it is a named predicate (\<open>alloc_doc\<close>, \<open>sorts_indices\<close>, \<open>finds_max\<close>, \<open>lawful_json\<close>) with a concrete instance in the
  witnesses. A worker executes its requests in the order it receives them, so its reply is a function of the requests
  received so far; the model, the sampler and the draft
  predictor are functions on its rows. In \<open>Mtp_Verify\<close> random draws are finite distributions (lists of outcomes with weights), and in
  \<open>Mtp_Runner\<close> the target's cache is a store of tokens by slot, which is what the positions and slots of a step decide.

  \<^bold>\<open>What is shown\<close>

  \<^item> Pipeline: stages own disjoint, complete and balanced layer ranges; every stage builds exactly what it
  loads; neighbouring stages agree on shapes; waiting drains the queue.
  \<^item> Memory: plans fit their budgets and are the largest that do, estimated bytes equal allocated bytes, host
  allocation leaves the device state as it was, format selection returns supported formats only.
  \<^item> Addressing: block offsets refine the row-major address of the tensor, blocks are disjoint, the offsets
  reconstructed for a peer from its registered metadata are the peer's own.
  \<^item> Transfer: every cached layer of a migrated block is read from the worker that holds it; the submitted
  byte ranges copy every planned block, also into the HiSparse cold tier, and stay in registered regions; merging changes nothing and leaves nothing
  to merge; every submitted read is awaited also after an error, and the first error is raised; metadata of a matching peer is accepted.
  \<^item> Slots: pool slots and hot slots have one owner; mapped output slots are distinct and in range; residency
  is cleared when a slot changes owner.
  \<^item> Scheduling: the cache plan has exactly the caches the model's configuration asks for, pool sizes agree with the
  allocator, the token window is within its bounds.
  \<^item> Experts: packing fills every GPU exactly; replication is optimal and a bijection onto replicas; tokens reach
  replicas of their own expert, evenly.
  \<^item> Streams: no stop string leaks and nothing else is withheld; reasoning and content are separated at the
  closing tag; a structured stream delivers what one parse of the text before the earliest stop string delivers.
  \<^item> Interfaces: completions in three tool-call formats are read back; one system message leads the prompt and volatile
  headers do not change it; streamed answers are complete messages and agree with whole answers; an answer sent back
  is seen unchanged by the chat template; what is submitted fits the model.
  \<^item> Steps: microbatches are the batch, cut; the pipeline returns each request the row of its final fragment whatever the
  depth; swaps move whole blocks on all ranks of their group and stage; a step postprocesses one leader per group.
  \<^item> Workers: tokens are written to distinct slots of their own blocks; compressed tables are reached by their owner only;
  splitting the vocabulary changes neither embeddings nor logits; each sampled request is answered in its own row.
  \<^item> Drafts: a verified step returns the tokens of plain greedy decoding and leaves them in the cache; with a temperature the
  step has the distribution of the target policy; drafts reach the decode engine with their sequence and never another's; ranks
  enter the predictor equally often unless one is near the length limit; the predictor's state is consistent under all operations.

  \<^bold>\<open>Interfaces\<close>. Locales state what a client relies on and are interpreted on the model's own definitions in
  the theory that provides them (the block address law of \<open>Cache_Layout\<close>, the slot allocator of
  \<open>Embedding_Pool\<close>, the layer split that \<open>Pipeline\<close> provides and \<open>Migration\<close> relies on, the block copy of
  \<open>Host_Swap\<close> with both directions of a swap, the tool-call syntax of \<open>Tool_Parsers\<close> with its three formats).

  \<^bold>\<open>Bounds and termination\<close>. Loops are structural recursion, folds, or a \<open>function\<close> with a measure (the doubling
  loop of the hash table, the parser's loop over its buffer). Fuel appears once, in \<open>feed_rounds\<close>, where one
  round per buffered character is shown to be enough. Streams end, raise or wait for the next item; the results
  about them say when they end.

  \<^bold>\<open>Not modelled\<close>. Kernels and model forward code (numeric, on device); the Rust scheduler and routers (another
  language, called through bindings; only the batch format they share with the workers is modelled); process management, HTTP routing, sockets, Ray and ZeroMQ (I/O); metrics, logging,
  benchmarks and examples. Floating-point rounding is not modelled: loads of experts and logits
  are real numbers.
\<close>

end
